(* ===== verification/Om_Prelude.thy ===== *)
theory Om_Prelude
  imports Main "HOL-Library.Word" "HOL-Library.Char_ord" "HOL-Library.List_Lexorder"
    "HOL-Library.Product_Lexorder" "HOL-Library.Option_ord" "HOL-Library.Multiset"
begin

text \<open>
  Shared vocabulary of the development: machine integers, Rust strings as their UTF-8 bytes,
  results, computations that thread a state and may fail, and the parts of the Rust standard
  library that the modelled code calls (character classes, trimming, whitespace splitting,
  little-endian integers, saturating addition, the slice binary search).
\<close>

named_theorems canon_simps \<open>bytes appended by the canonical encoders\<close>
named_theorems run_simps \<open>unfolding rules of stateful computations\<close>
named_theorems wf_intros \<open>constructors establish, and operations keep, well-formedness\<close>

section \<open>Machine integers, strings\<close>

type_synonym u8 = "8 word"
type_synonym u16 = "16 word"
type_synonym u64 = "64 word"

text \<open>A Rust string is modelled by its UTF-8 bytes, so that \<open>length\<close> is \<open>str::len\<close>, list
  order is the byte order of \<open>Ord for str\<close> and \<open>as_bytes\<close> is the identity.\<close>

type_synonym bytes = string
type_synonym str = string

text \<open>A UUID is its 128 bits; the numeric order is the byte order of \<open>Ord for Uuid\<close>.\<close>

type_synonym uuid = "128 word"

definition u64_of_usize :: "nat \<Rightarrow> u64" where
  "u64_of_usize n = (if n < 2 ^ 64 then of_nat n else - 1)"

definition saturating_add :: "nat \<Rightarrow> nat \<Rightarrow> nat" where
  "saturating_add a b = min (a + b) (2 ^ 64 - 1)"

fun le_bytes :: "nat \<Rightarrow> nat \<Rightarrow> bytes" where
  "le_bytes 0 n = []"
| "le_bytes (Suc k) n = char_of (n mod 256) # le_bytes k (n div 256)"

lemma length_le_bytes [simp]: "length (le_bytes k n) = k"
  by (induction k n rule: le_bytes.induct) auto

lemma le_bytes_inj: "le_bytes k m = le_bytes k n \<Longrightarrow> m < 256 ^ k \<Longrightarrow> n < 256 ^ k \<Longrightarrow> m = n"
proof (induction k m arbitrary: n rule: le_bytes.induct)
  case (1 m)
  then show ?case by simp
next
  case (2 k m)
  have "char_of (m mod 256) = (char_of (n mod 256) :: char)" and rest: "le_bytes k (m div 256) = le_bytes k (n div 256)"
    using "2.prems"(1) by simp_all
  then have "of_char (char_of (m mod 256)) = (of_char (char_of (n mod 256)) :: nat)"
    by simp
  then have "m mod 256 = n mod 256" by (simp add: of_char_of)
  moreover have "m div 256 = n div 256"
    using "2.IH" [OF rest] "2.prems"(2,3) by (simp add: less_mult_imp_div_less mult.commute)
  ultimately show ?case by (metis div_mult_mod_eq)
qed

lemma unat_u64_of_usize: "n < 2 ^ 64 \<Longrightarrow> unat (u64_of_usize n) = n"
  by (simp add: u64_of_usize_def unat_of_nat take_bit_nat_eq_self)

lemma u64_of_usize_inj: "u64_of_usize m = u64_of_usize n \<Longrightarrow> m < 2 ^ 64 \<Longrightarrow> n < 2 ^ 64 \<Longrightarrow> m = n"
  using unat_u64_of_usize by metis

section \<open>Results and stateful computations\<close>

text \<open>\<open>Result<T, E>\<close> is \<open>'e + 'a\<close>; the \<open>?\<close> operator is \<open>bind_result\<close>.\<close>

definition bind_result :: "'e + 'a \<Rightarrow> ('a \<Rightarrow> 'e + 'b) \<Rightarrow> 'e + 'b" where
  "bind_result r f = (case r of Inl e \<Rightarrow> Inl e | Inr x \<Rightarrow> f x)"

lemma bind_result_simps [simp]:
  "bind_result (Inl e) f = Inl e" "bind_result (Inr x) f = f x"
  by (simp_all add: bind_result_def)

lemma bind_result_Inr: "bind_result r f = Inr y \<longleftrightarrow> (\<exists>x. r = Inr x \<and> f x = Inr y)"
  by (cases r) auto

text \<open>A computation over a mutable state that returns or fails; the state survives a failure,
  as the fields of a \<open>&mut self\<close> do.\<close>

type_synonym ('st, 'e, 'a) run = "'st \<Rightarrow> ('e + 'a) \<times> 'st"

definition run_then :: "('st, 'e, unit) run \<Rightarrow> ('st, 'e, 'a) run \<Rightarrow> ('st, 'e, 'a) run" where
  "run_then m k st = (case m st of (Inl e, st') \<Rightarrow> (Inl e, st') | (Inr _, st') \<Rightarrow> k st')"

lemma run_then_ok: "run_then m k st = (Inr x, st2) \<longleftrightarrow>
    (\<exists>st1. m st = (Inr (), st1) \<and> k st1 = (Inr x, st2))"
  by (auto simp: run_then_def split: prod.splits sum.splits)

text \<open>Visiting a stream of records: each item is a record or the reader's own error, and the
  first error of the reader or of the visitor ends the visit.\<close>

fun visit :: "('r \<Rightarrow> ('st, 'e, unit) run) \<Rightarrow> ('e + 'r) list \<Rightarrow> ('st, 'e, unit) run" where
  "visit f [] st = (Inr (), st)"
| "visit f (Inl e # rs) st = (Inl e, st)"
| "visit f (Inr r # rs) st =
     (case f r st of (Inl e, st') \<Rightarrow> (Inl e, st') | (Inr _, st') \<Rightarrow> visit f rs st')"

text \<open>A visit that succeeds has read records only, and every fact that holds at the start and
  that each visitor call keeps holds at the end.\<close>

lemma visit_ok_Inr: "visit f rs st = (Inr (), st') \<Longrightarrow> \<exists>xs. rs = map Inr xs"
proof (induction f rs st arbitrary: st' rule: visit.induct)
  case (1 f st)
  then show ?case by simp
next
  case (2 f e rs st)
  then show ?case by simp
next
  case (3 f r rs st)
  from "3.prems" obtain st1 where f: "f r st = (Inr (), st1)" and v: "visit f rs st1 = (Inr (), st')"
    by (auto split: prod.splits sum.splits)
  from "3.IH" [OF f [symmetric] refl v] obtain xs where "rs = map Inr xs" by auto
  then have "Inr r # rs = map Inr (r # xs)" by simp
  then show ?case by (rule exI [of _ "r # xs"])
qed

lemma visit_Cons_ok: "visit f (map Inr (x # xs)) st = (Inr (), st2) \<longleftrightarrow>
    (\<exists>st1. f x st = (Inr (), st1) \<and> visit f (map Inr xs) st1 = (Inr (), st2))"
  by (auto split: prod.splits sum.splits)

lemma visit_invariant:
  assumes "visit f (map Inr xs) st = (Inr (), st')" and "I st"
    and "\<And>x st st'. x \<in> set xs \<Longrightarrow> I st \<Longrightarrow> f x st = (Inr (), st') \<Longrightarrow> I st'"
  shows "I st'"
  using assms
proof (induction xs arbitrary: st)
  case Nil
  then show ?case by simp
next
  case (Cons x xs)
  from Cons.prems(1) obtain st1 where f: "f x st = (Inr (), st1)"
    and v: "visit f (map Inr xs) st1 = (Inr (), st')"
    unfolding visit_Cons_ok by blast
  have "I st1" using Cons.prems(2,3) f by auto
  with v show ?case using Cons.IH Cons.prems(3) by (metis list.set_intros(2))
qed

section \<open>Character classes over UTF-8\<close>

text \<open>\<open>char::is_control\<close> is the general category Cc: U+0000 to U+001F, U+007F and U+0080 to
  U+009F; the last block is the two-byte sequence C2 80 to C2 9F, and C2 only ever leads.\<close>

fun has_control :: "str \<Rightarrow> bool" where
  "has_control [] = False"
| "has_control (c # cs) =
     ((of_char c :: nat) < 32 \<or> (of_char c :: nat) = 127 \<or>
      ((of_char c :: nat) = 194 \<and>
       (case cs of [] \<Rightarrow> False | d # _ \<Rightarrow> (of_char d :: nat) \<in> {128..159})) \<or>
      has_control cs)"

text \<open>The number of bytes of the \<open>White_Space\<close> character a string starts with, 0 when it
  starts with none (\<open>char::is_whitespace\<close>).\<close>

fun ws_prefix :: "nat list \<Rightarrow> nat" where
  "ws_prefix (a # b # c # _) =
     (if a = 32 \<or> (9 \<le> a \<and> a \<le> 13) then 1
      else if a = 194 \<and> (b = 133 \<or> b = 160) then 2
      else if a = 225 \<and> b = 154 \<and> c = 128 then 3
      else if a = 226 \<and> b = 128 \<and> ((128 \<le> c \<and> c \<le> 138) \<or> c = 168 \<or> c = 169 \<or> c = 175) then 3
      else if a = 226 \<and> b = 129 \<and> c = 159 then 3
      else if a = 227 \<and> b = 128 \<and> c = 128 then 3
      else 0)"
| "ws_prefix [a, b] =
     (if a = 32 \<or> (9 \<le> a \<and> a \<le> 13) then 1
      else if a = 194 \<and> (b = 133 \<or> b = 160) then 2 else 0)"
| "ws_prefix [a] = (if a = 32 \<or> (9 \<le> a \<and> a \<le> 13) then 1 else 0)"
| "ws_prefix [] = 0"

definition ws_head :: "str \<Rightarrow> nat" where
  "ws_head s = ws_prefix (map of_char (take 3 s))"

definition ws_last :: "str \<Rightarrow> bool" where
  "ws_last s = (let t = map of_char s; n = length t in
     (n \<ge> 1 \<and> ws_prefix (drop (n - 1) t) = 1) \<or> (n \<ge> 2 \<and> ws_prefix (drop (n - 2) t) = 2) \<or>
     (n \<ge> 3 \<and> ws_prefix (drop (n - 3) t) = 3))"

text \<open>\<open>value.trim() == value\<close>.\<close>

definition is_trimmed :: "str \<Rightarrow> bool" where
  "is_trimmed s = (ws_head s = 0 \<and> \<not> ws_last s)"

lemma ws_head_le: "ws_head s \<le> length s"
proof (cases s)
  case Nil
  then show ?thesis by (simp add: ws_head_def)
next
  case (Cons a s1)
  then show ?thesis
    by (cases s1; cases "tl s1") (auto simp: ws_head_def)
qed

text \<open>\<open>split_whitespace\<close>: the maximal runs of characters that are not white space.\<close>

function split_ws :: "str \<Rightarrow> str \<Rightarrow> str list" where
  "split_ws cur [] = (if cur = [] then [] else [rev cur])"
| "split_ws cur (c # cs) =
     (if ws_head (c # cs) = 0 then split_ws (c # cur) cs
      else (if cur = [] then [] else [rev cur]) @ split_ws [] (drop (ws_head (c # cs)) (c # cs)))"
  by pat_completeness auto
termination
proof (relation "measure (\<lambda>(cur, s). length s)")
  fix cur cs and c :: char
  assume "ws_head (c # cs) \<noteq> 0"
  then show "(([], drop (ws_head (c # cs)) (c # cs)), (cur, c # cs)) \<in> measure (\<lambda>(cur, s). length s)"
    using ws_head_le [of "c # cs"] by simp
qed auto

definition split_whitespace :: "str \<Rightarrow> str list" where
  "split_whitespace s = split_ws [] s"

fun join_with :: "str \<Rightarrow> str list \<Rightarrow> str" where
  "join_with sep [] = []"
| "join_with sep [x] = x"
| "join_with sep (x # xs) = x @ sep @ join_with sep xs"

definition starts_with :: "str \<Rightarrow> str \<Rightarrow> bool" where
  "starts_with s p = (take (length p) s = p)"

definition strip_prefix :: "str \<Rightarrow> str \<Rightarrow> str option" where
  "strip_prefix p s = (if starts_with s p then Some (drop (length p) s) else None)"

lemma starts_with_append: "starts_with (p @ s) p"
  by (simp add: starts_with_def)

section \<open>Slice binary search\<close>

text \<open>\<open>slice::binary_search_by\<close> of the standard library: \<open>base\<close> moves to the middle unless the
  comparison says the middle is greater, and \<open>size\<close> halves.\<close>

datatype ordering = Less | Equal | Greater

definition cmp :: "'a::linorder \<Rightarrow> 'a \<Rightarrow> ordering" where
  "cmp a b = (if a < b then Less else if a = b then Equal else Greater)"

function bsearch_loop :: "(nat \<Rightarrow> ordering) \<Rightarrow> nat \<Rightarrow> nat \<Rightarrow> nat" where
  "bsearch_loop f base sz =
     (if sz > 1
      then bsearch_loop f (if f (base + sz div 2) = Greater then base else base + sz div 2)
             (sz - sz div 2)
      else base)"
  by pat_completeness auto
termination by (relation "measure (\<lambda>(f, base, sz). sz)") auto

declare bsearch_loop.simps [simp del]

definition binary_search_by :: "('a \<Rightarrow> ordering) \<Rightarrow> 'a list \<Rightarrow> nat option" where
  "binary_search_by f xs =
     (if xs = [] then None
      else let i = bsearch_loop (\<lambda>k. f (xs ! k)) 0 (length xs)
           in if f (xs ! i) = Equal then Some i else None)"

lemma bsearch_loop_bound: "sz > 0 \<Longrightarrow> base + sz \<le> n \<Longrightarrow> bsearch_loop f base sz < n"
proof (induction f base sz rule: bsearch_loop.induct)
  case (1 f base sz)
  show ?case
  proof (cases "sz > 1")
    case True
    have "bsearch_loop f (if f (base + sz div 2) = Greater then base else base + sz div 2)
        (sz - sz div 2) < n"
      using "1.IH" [OF True] "1.prems" True by auto
    with True show ?thesis by (subst bsearch_loop.simps) simp
  next
    case False
    with "1.prems" show ?thesis by (subst bsearch_loop.simps) simp
  qed
qed

text \<open>What the search finds is in range and compares equal, whatever the order of the slice.\<close>

lemma binary_search_by_Some:
  assumes "binary_search_by f xs = Some i"
  shows "i < length xs" and "f (xs ! i) = Equal"
  using assms bsearch_loop_bound [of "length xs" 0 "length xs"]
  by (auto simp: binary_search_by_def Let_def split: if_splits)

lemma cmp_Equal [simp]: "cmp a b = Equal \<longleftrightarrow> a = b"
  by (auto simp: cmp_def)

text \<open>On a slice strictly sorted by the key, the search finds the key if it is there.\<close>

lemma bsearch_loop_sorted:
  assumes "\<And>a b. a < b \<Longrightarrow> b < n \<Longrightarrow> g a < (g b :: 'k::linorder)"
    and "base \<le> k" "k < base + sz" "base + sz \<le> n" "g k = key"
  shows "bsearch_loop (\<lambda>i. cmp (g i) key) base sz = k"
  using assms(2-)
proof (induction "\<lambda>i. cmp (g i) key" base sz rule: bsearch_loop.induct)
  case (1 base sz)
  let ?mid = "base + sz div 2"
  show ?case
  proof (cases "sz > 1")
    case True
    have gr: "cmp (g ?mid) key = Greater \<longleftrightarrow> k < ?mid"
    proof -
      have mid: "?mid < n" using True "1.prems"(3) by auto
      have "k < ?mid \<Longrightarrow> g k < g ?mid" using assms(1) mid by blast
      moreover have "?mid < k \<Longrightarrow> g ?mid < g k" using assms(1) "1.prems"(2,3) by auto
      ultimately show ?thesis
        using "1.prems"(4) by (cases k ?mid rule: linorder_cases) (auto simp: cmp_def)
    qed
    have "bsearch_loop (\<lambda>i. cmp (g i) key)
        (if cmp (g ?mid) key = Greater then base else ?mid) (sz - sz div 2) = k"
      using "1.prems" True gr by (intro "1.hyps" [OF True]) (auto split: if_splits)
    with True show ?thesis by (subst bsearch_loop.simps) simp
  next
    case False
    with "1.prems" show ?thesis by (subst bsearch_loop.simps) auto
  qed
qed

lemma binary_search_by_sorted:
  assumes "sorted_wrt (<) (map g xs)" and "k < length xs" and "g (xs ! k) = (key :: 'k::linorder)"
  shows "binary_search_by (\<lambda>x. cmp (g x) key) xs = Some k"
proof -
  have mono: "\<And>a b. a < b \<Longrightarrow> b < length xs \<Longrightarrow> g (xs ! a) < g (xs ! b)"
    using assms(1) by (simp add: sorted_wrt_iff_nth_less)
  have "bsearch_loop (\<lambda>i. cmp (g (xs ! i)) key) 0 (length xs) = k"
    using bsearch_loop_sorted [of "length xs" "\<lambda>i. g (xs ! i)", OF mono] assms(2,3) by auto
  then show ?thesis using assms(2,3) by (auto simp: binary_search_by_def)
qed

end
