(* ===== verification/Om_BTree.thy ===== *)
theory Om_BTree
  imports Om_Prelude
begin

text \<open>
  The ordered containers of the Rust standard library that the code uses: \<open>BTreeSet\<close> as a
  strictly sorted list and \<open>BTreeMap\<close> as an association list strictly sorted by key, so that
  iteration order is list order and equality of containers is equality of lists. The contracts
  the clients rely on are the locales \<open>ordered_set\<close> and \<open>ordered_map\<close>.
\<close>

section \<open>BTreeSet\<close>

type_synonym 'a btree_set = "'a list"

fun bs_insert :: "'a::linorder \<Rightarrow> 'a btree_set \<Rightarrow> 'a btree_set" where
  "bs_insert x [] = [x]"
| "bs_insert x (y # ys) =
     (if x < y then x # y # ys else if x = y then y # ys else y # bs_insert x ys)"

definition bs_of_list :: "'a::linorder list \<Rightarrow> 'a btree_set" where
  "bs_of_list xs = fold bs_insert xs []"

definition bs_ok :: "'a::linorder btree_set \<Rightarrow> bool" where
  "bs_ok s = sorted_wrt (<) s"

lemma set_bs_insert [simp]: "set (bs_insert x s) = insert x (set s)"
  by (induction s) auto

lemma bs_insert_nonempty [simp]: "bs_insert x s \<noteq> []"
  by (cases s) auto

lemma bs_ok_Nil [simp]: "bs_ok []"
  by (simp add: bs_ok_def)

lemma bs_ok_insert [simp]: "bs_ok s \<Longrightarrow> bs_ok (bs_insert x s)"
  by (induction s) (auto simp: bs_ok_def)

lemma length_bs_insert: "bs_ok s \<Longrightarrow> length (bs_insert x s) = (if x \<in> set s then length s else Suc (length s))"
  by (induction s) (auto simp: bs_ok_def)

lemma length_bs_insert_le: "length (bs_insert x s) \<le> Suc (length s)"
  by (induction s) auto

lemma bs_ext: "bs_ok s \<Longrightarrow> bs_ok t \<Longrightarrow> set s = set t \<Longrightarrow> s = t"
  unfolding bs_ok_def by (metis strict_sorted_equal)

lemma bs_ok_distinct: "bs_ok s \<Longrightarrow> distinct s"
  unfolding bs_ok_def by (simp add: strict_sorted_iff)

lemma bs_fold_insert: "bs_ok s \<Longrightarrow> bs_ok (fold bs_insert xs s) \<and> set (fold bs_insert xs s) = set xs \<union> set s"
  by (induction xs arbitrary: s) auto

lemma bs_of_list_ok [simp]: "bs_ok (bs_of_list xs)" and set_bs_of_list [simp]: "set (bs_of_list xs) = set xs"
  using bs_fold_insert [of "[]" xs] by (simp_all add: bs_of_list_def)

lemma bs_of_list_id: "bs_ok s \<Longrightarrow> bs_of_list s = s"
  by (rule bs_ext) simp_all

lemma bs_of_list_eqI: "set xs = set ys \<Longrightarrow> bs_of_list xs = bs_of_list ys"
  by (rule bs_ext) simp_all

lemma bs_of_list_eq_Nil [simp]: "bs_of_list xs = [] \<longleftrightarrow> xs = []"
  by (metis set_bs_of_list set_empty)

locale ordered_set =
  fixes ins :: "'a::linorder \<Rightarrow> 's \<Rightarrow> 's"
    and empty :: 's
    and elems :: "'s \<Rightarrow> 'a list"
    and ok :: "'s \<Rightarrow> bool"
  assumes ok_empty: "ok empty" and elems_empty: "elems empty = []"
    and ok_ins: "ok s \<Longrightarrow> ok (ins x s)"
    and elems_ins: "ok s \<Longrightarrow> set (elems (ins x s)) = insert x (set (elems s))"
    and elems_sorted: "ok s \<Longrightarrow> sorted_wrt (<) (elems s)"
begin

lemma ok_fold: "ok s \<Longrightarrow> ok (fold ins xs s)"
  by (induction xs arbitrary: s) (simp_all add: ok_ins)

lemma elems_fold: "ok s \<Longrightarrow> set (elems (fold ins xs s)) = set xs \<union> set (elems s)"
  by (induction xs arbitrary: s) (auto simp: ok_ins elems_ins)

text \<open>The order of the insertions cannot be seen in the iteration order.\<close>

lemma collect_order_irrelevant:
  assumes "set xs = set ys"
  shows "elems (fold ins xs empty) = elems (fold ins ys empty)"
  using assms
  by (intro strict_sorted_equal) (simp_all add: elems_sorted elems_fold ok_fold ok_empty)

end

lemma bs_ok_sorted: "bs_ok s \<Longrightarrow> sorted_wrt (<) s"
  by (simp add: bs_ok_def)

interpretation btree_set: ordered_set bs_insert "[]" id bs_ok
  by unfold_locales (auto dest: bs_ok_sorted)

section \<open>BTreeMap\<close>

type_synonym ('k, 'v) btree_map = "('k \<times> 'v) list"

fun bm_insert :: "'k::linorder \<Rightarrow> 'v \<Rightarrow> ('k, 'v) btree_map \<Rightarrow> ('k, 'v) btree_map" where
  "bm_insert k v [] = [(k, v)]"
| "bm_insert k v ((k', v') # m) =
     (if k < k' then (k, v) # (k', v') # m else if k = k' then (k, v) # m
      else (k', v') # bm_insert k v m)"

definition bm_get :: "('k, 'v) btree_map \<Rightarrow> 'k \<Rightarrow> 'v option" where
  "bm_get m k = map_of m k"

definition bm_contains :: "('k, 'v) btree_map \<Rightarrow> 'k \<Rightarrow> bool" where
  "bm_contains m k = (bm_get m k \<noteq> None)"

definition bm_keys :: "('k, 'v) btree_map \<Rightarrow> 'k list" where
  "bm_keys m = map fst m"

text \<open>\<open>entry(k).or_insert(v)\<close>\<close>

definition bm_or_insert :: "'k::linorder \<Rightarrow> 'v \<Rightarrow> ('k, 'v) btree_map \<Rightarrow> ('k, 'v) btree_map" where
  "bm_or_insert k v m = (if bm_contains m k then m else bm_insert k v m)"

definition bm_ok :: "('k::linorder, 'v) btree_map \<Rightarrow> bool" where
  "bm_ok m = sorted_wrt (<) (map fst m)"

lemma bm_get_Nil [simp]: "bm_get [] k = None"
  by (simp add: bm_get_def)

lemma bm_get_insert [simp]: "bm_get (bm_insert k v m) = (bm_get m)(k \<mapsto> v)"
  by (induction k v m rule: bm_insert.induct) (auto simp: bm_get_def fun_eq_iff)

lemma keys_bm_insert [simp]: "fst ` set (bm_insert k v m) = insert k (fst ` set m)"
  by (induction k v m rule: bm_insert.induct) auto

lemma bm_contains_iff: "bm_contains m k \<longleftrightarrow> k \<in> set (bm_keys m)"
  by (simp add: bm_contains_def bm_get_def bm_keys_def map_of_eq_None_iff)

lemma bm_contains_insert [simp]: "bm_contains (bm_insert k v m) k' \<longleftrightarrow> k' = k \<or> bm_contains m k'"
  by (auto simp: bm_contains_def)

lemma bm_contains_Nil [simp]: "\<not> bm_contains [] k"
  by (simp add: bm_contains_def)

lemma bm_ok_Nil [simp]: "bm_ok []"
  by (simp add: bm_ok_def)

lemma bm_ok_insert [simp]: "bm_ok m \<Longrightarrow> bm_ok (bm_insert k v m)"
proof (induction k v m rule: bm_insert.induct)
  case (2 k v k' v' m)
  then show ?case
    using keys_bm_insert [of k v m] by (auto simp: bm_ok_def)
qed (simp add: bm_ok_def)

lemma length_bm_insert: "bm_ok m \<Longrightarrow>
    length (bm_insert k v m) = (if bm_contains m k then length m else Suc (length m))"
  by (induction k v m rule: bm_insert.induct) (auto simp: bm_ok_def bm_contains_iff bm_keys_def)

lemma bm_get_or_insert [simp]: "bm_get (bm_or_insert k v m) =
    (if bm_contains m k then bm_get m else (bm_get m)(k \<mapsto> v))"
  by (simp add: bm_or_insert_def)

lemma bm_ok_tail: "bm_ok (e # m) \<Longrightarrow> bm_ok m"
  by (simp add: bm_ok_def)

lemma bm_get_in: "bm_ok m \<Longrightarrow> bm_get m k = Some v \<longleftrightarrow> (k, v) \<in> set m"
  unfolding bm_get_def bm_ok_def using strict_sorted_iff [of "map fst m"] by simp

lemma bm_ext:
  assumes "bm_ok m" "bm_ok n" "bm_get m = bm_get n"
  shows "m = n"
proof -
  have maps: "map_of m = map_of n"
    using assms(3) by (simp add: bm_get_def fun_eq_iff)
  have d: "distinct (map fst m)" "distinct (map fst n)" "sorted (map fst m)" "sorted (map fst n)"
    using assms(1,2) by (simp_all add: bm_ok_def strict_sorted_iff)
  have sets: "set m = set n"
    using maps d(1,2) by (metis map_of_eq_Some_iff subset_antisym subsetI surj_pair)
  show ?thesis
  proof (rule map_sorted_distinct_set_unique [of fst])
    show "inj_on fst (set m \<union> set n)" using d(1) sets by (simp add: distinct_map)
  qed (use d sets in simp_all)
qed

locale ordered_map =
  fixes ins :: "'k::linorder \<Rightarrow> 'v \<Rightarrow> 'm \<Rightarrow> 'm"
    and empty :: 'm
    and get :: "'m \<Rightarrow> 'k \<Rightarrow> 'v option"
    and entries :: "'m \<Rightarrow> ('k \<times> 'v) list"
    and ok :: "'m \<Rightarrow> bool"
  assumes ok_empty: "ok empty" and get_empty: "get empty k = None"
    and ok_ins: "ok m \<Longrightarrow> ok (ins k v m)"
    and get_ins: "ok m \<Longrightarrow> get (ins k v m) k' = (if k' = k then Some v else get m k')"
    and entries_sorted: "ok m \<Longrightarrow> sorted_wrt (<) (map fst (entries m))"
    and entries_get: "ok m \<Longrightarrow> (k, v) \<in> set (entries m) \<longleftrightarrow> get m k = Some v"
begin

definition collect :: "('k \<times> 'v) list \<Rightarrow> 'm" where
  "collect xs = fold (\<lambda>(k, v). ins k v) xs empty"

lemma ok_fold: "ok m \<Longrightarrow> ok (fold (\<lambda>(k, v). ins k v) xs m)"
  by (induction xs arbitrary: m) (auto simp: ok_ins)

text \<open>Later insertions win.\<close>

lemma get_fold: "ok m \<Longrightarrow> get (fold (\<lambda>(k, v). ins k v) xs m) k =
    (case map_of (rev xs) k of None \<Rightarrow> get m k | Some v \<Rightarrow> Some v)"
proof (induction xs arbitrary: m)
  case Nil
  then show ?case by simp
next
  case (Cons x xs)
  obtain k1 v1 where x: "x = (k1, v1)" by (cases x)
  show ?case
    using Cons.IH [OF ok_ins [OF Cons.prems, of k1 v1]] Cons.prems
    by (auto simp: x get_ins map_add_def split: option.splits)
qed

text \<open>When the keys are distinct, the order of the insertions cannot be seen.\<close>

lemma collect_distinct:
  assumes "distinct (map fst xs)"
  shows "get (collect xs) k = map_of xs k"
proof -
  have "map_of (rev xs) j = map_of xs j" for j
    using assms
    by (cases "map_of xs j")
      (metis distinct_rev map_of_eq_Some_iff not_None_eq rev_map set_rev)+
  then show ?thesis
    using get_fold [OF ok_empty, of xs k] by (simp add: collect_def get_empty split: option.splits)
qed

end

interpretation btree_map: ordered_map bm_insert "[]" bm_get id bm_ok
  by unfold_locales (simp_all add: bm_ok_def [symmetric] bm_get_in)

section \<open>Multimaps\<close>

text \<open>\<open>BTreeMap<K, BTreeSet<V>>\<close> with \<open>entry(k).or_default().insert(v)\<close>; an absent key reads as
  the empty set.\<close>

type_synonym ('k, 'v) btree_multimap = "('k, 'v btree_set) btree_map"

definition mm_get :: "('k, 'v) btree_multimap \<Rightarrow> 'k \<Rightarrow> 'v btree_set" where
  "mm_get m k = (case bm_get m k of None \<Rightarrow> [] | Some s \<Rightarrow> s)"

definition mm_insert :: "'k::linorder \<Rightarrow> 'v::linorder \<Rightarrow> ('k, 'v) btree_multimap \<Rightarrow> ('k, 'v) btree_multimap" where
  "mm_insert k v m = bm_insert k (bs_insert v (mm_get m k)) m"

definition mm_ok :: "('k::linorder, 'v::linorder) btree_multimap \<Rightarrow> bool" where
  "mm_ok m \<longleftrightarrow> bm_ok m \<and> (\<forall>k s. bm_get m k = Some s \<longrightarrow> bs_ok s \<and> s \<noteq> [])"

lemma mm_get_Nil [simp]: "mm_get [] k = []"
  by (simp add: mm_get_def)

lemma mm_get_insert [simp]: "mm_get (mm_insert k v m) k' = (if k' = k then bs_insert v (mm_get m k) else mm_get m k')"
  by (simp add: mm_get_def mm_insert_def)

lemma mm_ok_Nil [simp]: "mm_ok []"
  by (simp add: mm_ok_def)

lemma mm_ok_get: "mm_ok m \<Longrightarrow> bs_ok (mm_get m k)"
  by (auto simp: mm_ok_def mm_get_def split: option.split)

lemma mm_ok_insert [simp]: "mm_ok m \<Longrightarrow> mm_ok (mm_insert k v m)"
  using mm_ok_get [of m k] by (auto simp: mm_ok_def mm_insert_def split: if_splits)

lemma mm_contains: "mm_ok m \<Longrightarrow> bm_contains m k \<longleftrightarrow> mm_get m k \<noteq> []"
  by (cases "bm_get m k") (auto simp: mm_ok_def mm_get_def bm_contains_def)

lemma mm_entry: "mm_ok m \<Longrightarrow> (k, s) \<in> set m \<longleftrightarrow> s = mm_get m k \<and> s \<noteq> []"
  by (cases "bm_get m k") (auto simp: mm_ok_def mm_get_def bm_get_in [symmetric])

lemma mm_fold_insert_keys:
  "mm_ok m \<Longrightarrow> mm_ok (fold (\<lambda>k. mm_insert k v) ks m) \<and>
   set (mm_get (fold (\<lambda>k. mm_insert k v) ks m) k') = set (mm_get m k') \<union> (if k' \<in> set ks then {v} else {})"
  by (induction ks arbitrary: m) auto

end
