(* ===== verification/Om_Canonical.thy ===== *)
theory Om_Canonical
  imports Om_BTree
begin

text \<open>
  The merge crate's errors (\<open>error.rs\<close>) and its canonical hasher (\<open>canonical.rs\<close>): every value is
  fed to BLAKE3 with a domain, length-framed, little-endian. The hasher is modelled by the bytes
  it has been fed; BLAKE3 itself, the UUID crate's hyphenated text and Unicode lower-casing are
  the fields of \<open>deps\<close>, an argument of the definitions that use them. The locale
  \<open>canonical_codec\<close> is the contract of one encoder: what it feeds depends on the value only, and
  what follows it can be cut off in one way.
\<close>

section \<open>Errors\<close>

datatype merge_error_code =
    InvalidInput | BoundExceeded | UnsortedInput | DuplicateInput | SnapshotMismatch
  | DiscoveryIncomplete | StaleReceipt | ConflictingResolution | ManyToOne
  | QualifiedIdCollision | DanglingEndpoint | ThreeWayConflict | AccountingMismatch
  | SinkFailure | ProtocolViolation

fun code_as_str :: "merge_error_code \<Rightarrow> str" where
  "code_as_str InvalidInput = ''invalid_input''"
| "code_as_str BoundExceeded = ''bound_exceeded''"
| "code_as_str UnsortedInput = ''unsorted_input''"
| "code_as_str DuplicateInput = ''duplicate_input''"
| "code_as_str SnapshotMismatch = ''snapshot_mismatch''"
| "code_as_str DiscoveryIncomplete = ''discovery_incomplete''"
| "code_as_str StaleReceipt = ''stale_receipt''"
| "code_as_str ConflictingResolution = ''conflicting_resolution''"
| "code_as_str ManyToOne = ''many_to_one''"
| "code_as_str QualifiedIdCollision = ''qualified_id_collision''"
| "code_as_str DanglingEndpoint = ''dangling_endpoint''"
| "code_as_str ThreeWayConflict = ''three_way_conflict''"
| "code_as_str AccountingMismatch = ''accounting_mismatch''"
| "code_as_str SinkFailure = ''sink_failure''"
| "code_as_str ProtocolViolation = ''protocol_violation''"

lemma code_as_str_inj: "code_as_str a = code_as_str b \<Longrightarrow> a = b"
  by (cases a; cases b) simp_all

datatype merge_error = MergeError (me_code: merge_error_code) (me_message: str)

section \<open>Third-party functions\<close>

record deps =
  blake3 :: "bytes \<Rightarrow> bytes"
  hyphenated :: "uuid \<Rightarrow> str"
  to_lowercase :: "str \<Rightarrow> str"

text \<open>Documented behaviour: a BLAKE3 output is 32 bytes, and the hyphenated text of a UUID is 36
  bytes and determines it.\<close>

definition deps_ok :: "deps \<Rightarrow> bool" where
  "deps_ok D \<longleftrightarrow> (\<forall>b. length (blake3 D b) = 32) \<and> inj (hyphenated D) \<and>
     (\<forall>u. length (hyphenated D u) = 36)"

section \<open>The canonical hasher\<close>

record canonical_hasher =
  inner :: bytes
  encoded_len :: nat

definition u64_le :: "u64 \<Rightarrow> bytes" where
  "u64_le v = le_bytes 8 (unat v)"

definition u16_le :: "u16 \<Rightarrow> bytes" where
  "u16_le v = le_bytes 2 (unat v)"

definition ch_bytes :: "bytes \<Rightarrow> canonical_hasher \<Rightarrow> canonical_hasher" where
  "ch_bytes v h =
     (let h1 = h\<lparr>inner := inner h @ u64_le (u64_of_usize (length v))\<rparr>;
          h2 = h1\<lparr>inner := inner h1 @ v\<rparr>
      in h2\<lparr>encoded_len := saturating_add (saturating_add (encoded_len h2) 8) (length v)\<rparr>)"

definition ch_new :: "bytes \<Rightarrow> canonical_hasher" where
  "ch_new domain =
     ch_bytes domain (ch_bytes ''openmemory/canonical/v1'' \<lparr>inner = [], encoded_len = 0\<rparr>)"

definition ch_text :: "str \<Rightarrow> canonical_hasher \<Rightarrow> canonical_hasher" where
  "ch_text v h = ch_bytes v h"

definition ch_bool :: "bool \<Rightarrow> canonical_hasher \<Rightarrow> canonical_hasher" where
  "ch_bool v h =
     h\<lparr>inner := inner h @ [char_of (if v then 1 else 0 :: nat)],
       encoded_len := saturating_add (encoded_len h) 1\<rparr>"

definition ch_u16 :: "u16 \<Rightarrow> canonical_hasher \<Rightarrow> canonical_hasher" where
  "ch_u16 v h =
     h\<lparr>inner := inner h @ u16_le v, encoded_len := saturating_add (encoded_len h) 2\<rparr>"

definition ch_u64 :: "u64 \<Rightarrow> canonical_hasher \<Rightarrow> canonical_hasher" where
  "ch_u64 v h =
     h\<lparr>inner := inner h @ u64_le v, encoded_len := saturating_add (encoded_len h) 8\<rparr>"

definition ch_usize :: "nat \<Rightarrow> canonical_hasher \<Rightarrow> canonical_hasher" where
  "ch_usize v h = ch_u64 (u64_of_usize v) h"

definition ch_optional_text :: "str option \<Rightarrow> canonical_hasher \<Rightarrow> canonical_hasher" where
  "ch_optional_text v h =
     (let h1 = ch_bool (v \<noteq> None) h in case v of None \<Rightarrow> h1 | Some t \<Rightarrow> ch_text t h1)"

definition ch_space_id :: "deps \<Rightarrow> uuid \<Rightarrow> canonical_hasher \<Rightarrow> canonical_hasher" where
  "ch_space_id D v h = ch_text (hyphenated D v) h"

definition ch_snapshot_id :: "deps \<Rightarrow> uuid \<Rightarrow> canonical_hasher \<Rightarrow> canonical_hasher" where
  "ch_snapshot_id D v h = ch_text (hyphenated D v) h"

definition ch_revision_id :: "deps \<Rightarrow> uuid \<Rightarrow> canonical_hasher \<Rightarrow> canonical_hasher" where
  "ch_revision_id D v h = ch_text (hyphenated D v) h"

definition ch_hash :: "bytes \<Rightarrow> canonical_hasher \<Rightarrow> canonical_hasher" where
  "ch_hash v h = ch_bytes v h"

definition ch_finish :: "deps \<Rightarrow> canonical_hasher \<Rightarrow> bytes" where
  "ch_finish D h = blake3 D (inner h)"

section \<open>The encoder contract\<close>

text \<open>Appending bytes to the hasher's input.\<close>

definition ch_feed :: "bytes \<Rightarrow> canonical_hasher \<Rightarrow> canonical_hasher" where
  "ch_feed b h =
     h\<lparr>inner := inner h @ b, encoded_len := saturating_add (encoded_len h) (length b)\<rparr>"

lemma saturating_add_assoc: "saturating_add (saturating_add a b) c = saturating_add a (b + c)"
  by (auto simp: saturating_add_def min_def)

lemma ch_feed_feed [canon_simps]: "ch_feed b (ch_feed a h) = ch_feed (a @ b) h"
  by (simp add: ch_feed_def saturating_add_assoc)

lemma inner_ch_feed [simp]: "inner (ch_feed b h) = inner h @ b"
  by (simp add: ch_feed_def)

lemma encoded_len_ch_feed [simp]:
  "encoded_len (ch_feed b h) = saturating_add (encoded_len h) (length b)"
  by (simp add: ch_feed_def)

locale canonical_codec =
  fixes enc :: "'a \<Rightarrow> canonical_hasher \<Rightarrow> canonical_hasher"
    and out :: "'a \<Rightarrow> bytes"
    and ok :: "'a \<Rightarrow> bool"
  assumes feeds: "enc x h = ch_feed (out x) h"
    and unique: "ok x \<Longrightarrow> ok y \<Longrightarrow> out x @ r = out y @ s \<longleftrightarrow> x = y \<and> r = s"
begin

lemma out_inj: "ok x \<Longrightarrow> ok y \<Longrightarrow> out x = out y \<longleftrightarrow> x = y"
  using unique [of x y "[]" "[]"] by simp

lemma prefix_free: "ok x \<Longrightarrow> ok y \<Longrightarrow> out x @ r = out y \<Longrightarrow> r = []"
  using unique [of x y r "[]"] by simp

lemma fold_feeds: "fold enc xs h = (if xs = [] then h else ch_feed (concat (map out xs)) h)"
  by (induction xs arbitrary: h) (auto simp: feeds canon_simps)

lemma fold_feeds_feed: "fold enc xs (ch_feed b h) = ch_feed (b @ concat (map out xs)) h"
  by (simp add: fold_feeds canon_simps)

lemma concat_unique:
  assumes "length xs = length ys" "\<forall>x\<in>set xs. ok x" "\<forall>y\<in>set ys. ok y"
  shows "concat (map out xs) @ r = concat (map out ys) @ s \<longleftrightarrow> xs = ys \<and> r = s"
  using assms
proof (induction xs ys rule: list_induct2)
  case Nil
  then show ?case by simp
next
  case (Cons x xs y ys)
  then show ?case using unique [of x y] by auto
qed

end

section \<open>Primitive encodings\<close>

definition framed :: "bytes \<Rightarrow> bytes" where
  "framed v = u64_le (u64_of_usize (length v)) @ v"

definition bool_byte :: "bool \<Rightarrow> bytes" where
  "bool_byte v = [char_of (if v then 1 else 0 :: nat)]"

definition optional_framed :: "str option \<Rightarrow> bytes" where
  "optional_framed v = bool_byte (v \<noteq> None) @ (case v of None \<Rightarrow> [] | Some t \<Rightarrow> framed t)"

definition usize_le :: "nat \<Rightarrow> bytes" where
  "usize_le n = u64_le (u64_of_usize n)"

definition fits :: "'a list \<Rightarrow> bool" where
  "fits v \<longleftrightarrow> length v < 2 ^ 64"

lemma length_u64_le [simp]: "length (u64_le v) = 8" and length_u16_le [simp]: "length (u16_le w) = 2"
  by (simp_all add: u64_le_def u16_le_def)

lemma u64_le_inj [simp]: "u64_le a = u64_le b \<longleftrightarrow> a = b"
proof
  assume "u64_le a = u64_le b"
  moreover have "unat a < 256 ^ 8" "unat b < 256 ^ 8"
    using unsigned_less [of a] unsigned_less [of b] by simp_all
  ultimately have "unat a = unat b" unfolding u64_le_def by (rule le_bytes_inj)
  then show "a = b" by (rule unsigned_word_eqI)
qed simp

lemma u16_le_inj [simp]: "u16_le a = u16_le b \<longleftrightarrow> a = b"
proof
  assume "u16_le a = u16_le b"
  moreover have "unat a < 256 ^ 2" "unat b < 256 ^ 2"
    using unsigned_less [of a] unsigned_less [of b] by simp_all
  ultimately have "unat a = unat b" unfolding u16_le_def by (rule le_bytes_inj)
  then show "a = b" by (rule unsigned_word_eqI)
qed simp

lemma u64_le_unique: "u64_le a @ r = u64_le b @ s \<longleftrightarrow> a = b \<and> r = s"
  by (simp add: append_eq_append_conv)

lemma u16_le_unique: "u16_le a @ r = u16_le b @ s \<longleftrightarrow> a = b \<and> r = s"
  by (simp add: append_eq_append_conv)

lemma bool_byte_unique: "bool_byte a @ r = bool_byte b @ s \<longleftrightarrow> a = b \<and> r = s"
  by (cases a; cases b) (simp_all add: bool_byte_def)

lemma usize_le_unique: "m < 2 ^ 64 \<Longrightarrow> n < 2 ^ 64 \<Longrightarrow> usize_le m @ r = usize_le n @ s \<longleftrightarrow> m = n \<and> r = s"
  unfolding usize_le_def u64_le_unique using u64_of_usize_inj by blast

lemma framed_unique:
  assumes "fits a" "fits b"
  shows "framed a @ r = framed b @ s \<longleftrightarrow> a = b \<and> r = s"
proof
  assume "framed a @ r = framed b @ s"
  then have "u64_of_usize (length a) = u64_of_usize (length b)" and ab: "a @ r = b @ s"
    unfolding framed_def append_assoc u64_le_unique by simp_all
  then have "length a = length b"
    using assms u64_of_usize_inj unfolding fits_def by blast
  with ab show "a = b \<and> r = s" by (simp add: append_eq_append_conv)
qed simp

lemma optional_framed_unique:
  assumes "case a of None \<Rightarrow> True | Some t \<Rightarrow> fits t" "case b of None \<Rightarrow> True | Some t \<Rightarrow> fits t"
  shows "optional_framed a @ r = optional_framed b @ s \<longleftrightarrow> a = b \<and> r = s"
  using assms
  by (cases a; cases b) (auto simp: optional_framed_def bool_byte_unique framed_unique)

lemma ch_bytes_feeds [canon_simps]: "ch_bytes v h = ch_feed (framed v) h"
  by (simp add: ch_bytes_def ch_feed_def framed_def Let_def saturating_add_assoc)

lemma ch_primitive_feeds [canon_simps]:
  "ch_text t h = ch_feed (framed t) h"
  "ch_hash t h = ch_feed (framed t) h"
  "ch_bool b h = ch_feed (bool_byte b) h"
  "ch_u16 w h = ch_feed (u16_le w) h"
  "ch_u64 v h = ch_feed (u64_le v) h"
  "ch_usize n h = ch_feed (usize_le n) h"
  "ch_space_id D u h = ch_feed (framed (hyphenated D u)) h"
  "ch_snapshot_id D u h = ch_feed (framed (hyphenated D u)) h"
  "ch_revision_id D u h = ch_feed (framed (hyphenated D u)) h"
  by (simp_all add: ch_text_def ch_hash_def ch_bytes_feeds ch_space_id_def ch_snapshot_id_def
      ch_revision_id_def ch_usize_def usize_le_def ch_u16_def ch_u64_def ch_bool_def bool_byte_def
      ch_feed_def)

lemma ch_optional_text_feeds [canon_simps]: "ch_optional_text v h = ch_feed (optional_framed v) h"
  by (cases v) (simp_all add: ch_optional_text_def optional_framed_def canon_simps)

lemma ch_new_feeds: "ch_new domain =
    ch_feed (framed ''openmemory/canonical/v1'' @ framed domain) \<lparr>inner = [], encoded_len = 0\<rparr>"
  by (simp add: ch_new_def canon_simps)

text \<open>A counted list of items of one codec is again cut off in one way.\<close>

context canonical_codec begin

lemma list_unique:
  assumes "fits xs" "fits ys" "\<forall>x\<in>set xs. ok x" "\<forall>y\<in>set ys. ok y"
  shows "usize_le (length xs) @ concat (map out xs) @ r = usize_le (length ys) @ concat (map out ys) @ s
    \<longleftrightarrow> xs = ys \<and> r = s"
  using assms concat_unique [of xs ys r s]
  by (auto simp: usize_le_unique fits_def)

end

interpretation u64_codec: canonical_codec ch_u64 u64_le "\<lambda>_. True"
  by unfold_locales (simp_all add: canon_simps u64_le_unique)

interpretation u16_codec: canonical_codec ch_u16 u16_le "\<lambda>_. True"
  by unfold_locales (simp_all add: canon_simps u16_le_unique)

interpretation bool_codec: canonical_codec ch_bool bool_byte "\<lambda>_. True"
  by unfold_locales (simp_all add: canon_simps bool_byte_unique)

interpretation text_codec: canonical_codec ch_text framed fits
  by unfold_locales (simp_all add: canon_simps framed_unique)

interpretation optional_text_codec: canonical_codec ch_optional_text optional_framed
    "\<lambda>v. case v of None \<Rightarrow> True | Some t \<Rightarrow> fits t"
  by unfold_locales (simp_all add: canon_simps optional_framed_unique)

interpretation space_id_codec: canonical_codec "ch_space_id D" "\<lambda>u. framed (hyphenated D u)"
    "\<lambda>u. deps_ok D" for D
  by unfold_locales (auto simp: canon_simps framed_unique fits_def deps_ok_def dest: injD)

text \<open>The running length is the length of the input, up to the top of \<open>usize\<close>.\<close>

definition ch_reachable :: "canonical_hasher \<Rightarrow> bool" where
  "ch_reachable h \<longleftrightarrow> encoded_len h = saturating_add 0 (length (inner h))"

lemma ch_reachable_feed [simp]: "ch_reachable h \<Longrightarrow> ch_reachable (ch_feed b h)"
  by (simp add: ch_reachable_def saturating_add_assoc)

lemma ch_reachable_new [simp]: "ch_reachable (ch_new domain)"
  by (simp add: ch_new_feeds ch_reachable_def)

text \<open>Two inputs that start with framed domains agree only when the domains do.\<close>

lemma ch_new_feed_inj:
  assumes "fits d1" "fits d2"
  shows "inner (ch_feed a (ch_new d1)) = inner (ch_feed b (ch_new d2)) \<longleftrightarrow> d1 = d2 \<and> a = b"
  using assms by (simp add: ch_new_feeds framed_unique)

end
