(* ===== verification/Om_Hash.thy ===== *)
theory Om_Hash
  imports Om_Canonical
begin

text \<open>
  The typed 32-byte hashes (\<open>hash.rs\<close>): display as 64 lowercase hexadecimal digits and the
  parser that accepts exactly those texts. The eight hash newtypes share one macro, so one model;
  the type's name only appears in the error messages and is an argument.
\<close>

type_synonym hash32 = bytes

definition hex_digit :: "nat \<Rightarrow> char" where
  "hex_digit n = char_of (if n < 10 then 48 + n else 87 + n)"

definition hex_value :: "char \<Rightarrow> nat option" where
  "hex_value c = (let n = of_char c :: nat in
     if 48 \<le> n \<and> n \<le> 57 then Some (n - 48)
     else if 97 \<le> n \<and> n \<le> 102 then Some (n - 87) else None)"

definition is_lower_hex :: "char \<Rightarrow> bool" where
  "is_lower_hex c = (let n = of_char c :: nat in (48 \<le> n \<and> n \<le> 57) \<or> (97 \<le> n \<and> n \<le> 102))"

fun hash_display :: "bytes \<Rightarrow> str" where
  "hash_display [] = []"
| "hash_display (b # bs) =
     hex_digit (of_char b div 16) # hex_digit (of_char b mod 16) # hash_display bs"

text \<open>\<open>u8::from_str_radix\<close> on two digits, for each of the slots in order.\<close>

fun parse_hex_pairs :: "str \<Rightarrow> bytes option" where
  "parse_hex_pairs (a # b # cs) =
     (case (hex_value a, hex_value b, parse_hex_pairs cs) of
        (Some x, Some y, Some bs) \<Rightarrow> Some (char_of (16 * x + y) # bs)
      | _ \<Rightarrow> None)"
| "parse_hex_pairs [] = Some []"
| "parse_hex_pairs [a] = None"

definition hash_from_str :: "str \<Rightarrow> str \<Rightarrow> merge_error + hash32" where
  "hash_from_str name v =
     (if length v \<noteq> 64 \<or> list_ex (\<lambda>b. \<not> is_lower_hex b) v
      then Inl (MergeError InvalidInput (name @ '' must be 64 lowercase hex characters''))
      else case parse_hex_pairs v of
        None \<Rightarrow> Inl (MergeError InvalidInput (name @ '' contains invalid hex''))
      | Some bs \<Rightarrow> Inr bs)"

lemma of_char_less_256: "(of_char c :: nat) < 256"
  by (metis of_char_mod_256 mod_less_divisor zero_less_numeral)

lemma of_char_div_16: "(of_char c :: nat) div 16 < 16"
  using of_char_less_256 [of c] by (intro less_mult_imp_div_less) simp

lemma hex_value_digit: "n < 16 \<Longrightarrow> hex_value (hex_digit n) = Some n"
  by (simp add: hex_value_def hex_digit_def Let_def of_char_of)

lemma is_lower_hex_iff: "is_lower_hex c \<longleftrightarrow> hex_value c \<noteq> None"
  by (auto simp: is_lower_hex_def hex_value_def Let_def)

lemma hex_digit_value: "hex_value c = Some n \<Longrightarrow> n < 16 \<and> hex_digit n = c"
  by (auto simp: hex_value_def hex_digit_def Let_def split: if_splits)

lemma length_hash_display: "length (hash_display bs) = 2 * length bs"
  by (induction bs) auto

lemma hash_display_hex: "list_all is_lower_hex (hash_display bs)"
proof (induction bs)
  case Nil
  then show ?case by simp
next
  case (Cons b bs)
  have "(of_char b :: nat) div 16 < 16" by (rule of_char_div_16)
  then show ?case using Cons by (simp add: is_lower_hex_iff hex_value_digit)
qed

lemma parse_hash_display: "parse_hex_pairs (hash_display bs) = Some bs"
proof (induction bs)
  case Nil
  then show ?case by simp
next
  case (Cons b bs)
  have "(of_char b :: nat) div 16 < 16" by (rule of_char_div_16)
  then show ?case using Cons by (simp add: hex_value_digit)
qed

lemma display_parse_hex:
  "parse_hex_pairs s = Some bs \<Longrightarrow> hash_display bs = s"
proof (induction s arbitrary: bs rule: parse_hex_pairs.induct)
  case (1 a b cs)
  then obtain x y bs' where h: "hex_value a = Some x" "hex_value b = Some y"
      "parse_hex_pairs cs = Some bs'" "bs = char_of (16 * x + y) # bs'"
    by (auto split: option.splits)
  then have "hash_display bs' = cs" using "1.IH" by auto
  moreover have "(16 * x + y) mod 256 = 16 * x + y"
    using hex_digit_value [OF h(1)] hex_digit_value [OF h(2)] by auto
  ultimately show ?case
    using hex_digit_value [OF h(1)] hex_digit_value [OF h(2)] by (simp add: h(4) of_char_of)
qed simp_all

lemma parse_hex_pairs_length: "parse_hex_pairs s = Some bs \<Longrightarrow> length s = 2 * length bs"
  by (metis display_parse_hex length_hash_display)

text \<open>
  The hash parser accepts exactly the canonical spelling: a text parses to a value if and only
  if the value has 32 bytes and the text is its display.
\<close>

theorem hash_text_roundtrip:
  "hash_from_str name s = Inr b \<longleftrightarrow> length b = 32 \<and> s = hash_display b"
proof
  assume "hash_from_str name s = Inr b"
  then show "length b = 32 \<and> s = hash_display b"
    by (auto simp: hash_from_str_def display_parse_hex dest: parse_hex_pairs_length
        split: if_splits option.splits)
next
  assume "length b = 32 \<and> s = hash_display b"
  then show "hash_from_str name s = Inr b"
    using hash_display_hex [of b]
    by (simp add: hash_from_str_def length_hash_display parse_hash_display list_ex_iff list_all_iff)
qed

end
