(* ===== verification/Om_Records.thy ===== *)
theory Om_Records
  imports Om_Hash
begin

text \<open>
  The validated canonical records of \<open>model.rs\<close>: identifiers, addresses, identifier assertions,
  entities, observations and relations, with their checked constructors and their canonical
  encoders. A struct that derives \<open>Ord\<close> is a datatype with selectors, ordered field by field;
  the other structs are records. The well-formedness predicates collect what the constructors
  check, and every constructor is shown to establish and keep them.
\<close>

section \<open>Bounds and token checks\<close>

definition MAX_LOGICAL_ID_BYTES :: nat where "MAX_LOGICAL_ID_BYTES = 256"
definition MAX_LABEL_BYTES :: nat where "MAX_LABEL_BYTES = 512"
definition MAX_KIND_BYTES :: nat where "MAX_KIND_BYTES = 128"
definition MAX_ALIASES :: nat where "MAX_ALIASES = 64"
definition MAX_IDENTIFIERS :: nat where "MAX_IDENTIFIERS = 32"
definition MAX_PROPERTIES :: nat where "MAX_PROPERTIES = 64"
definition MAX_PROPERTY_NAME_BYTES :: nat where "MAX_PROPERTY_NAME_BYTES = 128"
definition MAX_TEXT_BYTES :: nat where "MAX_TEXT_BYTES = 64 * 1024"
definition MAX_ORIGINS :: nat where "MAX_ORIGINS = 1024"
definition QUALIFIED_ID_PREFIX :: str where "QUALIFIED_ID_PREFIX = ''omq1:''"

lemmas max_defs = MAX_LOGICAL_ID_BYTES_def MAX_LABEL_BYTES_def MAX_KIND_BYTES_def MAX_ALIASES_def
  MAX_IDENTIFIERS_def MAX_PROPERTIES_def MAX_PROPERTY_NAME_BYTES_def MAX_TEXT_BYTES_def
  MAX_ORIGINS_def

definition valid_token :: "str \<Rightarrow> nat \<Rightarrow> bool" where
  "valid_token value max_bytes \<longleftrightarrow>
     value \<noteq> [] \<and> length value \<le> max_bytes \<and> \<not> has_control value \<and> is_trimmed value"

definition valid_text :: "str \<Rightarrow> nat \<Rightarrow> bool" where
  "valid_text value max_bytes \<longleftrightarrow>
     value \<noteq> [] \<and> length value \<le> max_bytes \<and> \<not> list_ex (\<lambda>c. c = CHR 0x00) value"

definition opt_token :: "str option \<Rightarrow> nat \<Rightarrow> bool" where
  "opt_token v n = (case v of None \<Rightarrow> True | Some t \<Rightarrow> valid_token t n)"

section \<open>Identifiers and addresses\<close>

definition logical_id_new :: "str \<Rightarrow> merge_error + str" where
  "logical_id_new value =
     (if \<not> valid_token value MAX_LOGICAL_ID_BYTES \<or> starts_with value QUALIFIED_ID_PREFIX
      then Inl (MergeError InvalidInput
        ''logical ID is empty, oversized, contains controls, or uses the reserved namespace'')
      else Inr value)"

definition logical_id_from_projection :: "str \<Rightarrow> merge_error + str" where
  "logical_id_from_projection value =
     (case strip_prefix QUALIFIED_ID_PREFIX value of
        Some digest \<Rightarrow>
          (if length digest \<noteq> 64 \<or> list_ex (\<lambda>b. \<not> is_lower_hex b) digest
           then Inl (MergeError InvalidInput ''qualified projection ID has an invalid canonical hash'')
           else Inr value)
      | None \<Rightarrow> logical_id_new value)"

definition logical_ok :: "str \<Rightarrow> bool" where
  "logical_ok v \<longleftrightarrow> logical_id_from_projection v = Inr v"

definition qualified_derive :: "deps \<Rightarrow> uuid \<Rightarrow> str \<Rightarrow> str" where
  "qualified_derive D space logical_id =
     (let h = ch_new ''openmemory/qualified-object-id/v1'';
          h = ch_space_id D space h;
          h = ch_text logical_id h
      in QUALIFIED_ID_PREFIX @ hash_display (ch_finish D h))"

datatype result_object_id = ResTarget str | ResQualified str

fun result_as_str :: "result_object_id \<Rightarrow> str" where
  "result_as_str (ResTarget v) = v"
| "result_as_str (ResQualified v) = v"

datatype object_address = ObjectAddress (oa_space: uuid) (oa_logical: str)

instantiation object_address :: linorder
begin

definition less_eq_object_address :: "object_address \<Rightarrow> object_address \<Rightarrow> bool" where
  "a \<le> b \<longleftrightarrow> (oa_space a, oa_logical a) \<le> (oa_space b, oa_logical b)"

definition less_object_address :: "object_address \<Rightarrow> object_address \<Rightarrow> bool" where
  "a < b \<longleftrightarrow> (oa_space a, oa_logical a) < (oa_space b, oa_logical b)"

instance
proof
  fix a b c :: object_address
  show "(a < b) = (a \<le> b \<and> \<not> b \<le> a)"
    unfolding less_eq_object_address_def less_object_address_def by (rule less_le_not_le)
  show "a \<le> a" unfolding less_eq_object_address_def by (rule order_refl)
  show "a \<le> b \<Longrightarrow> b \<le> c \<Longrightarrow> a \<le> c"
    unfolding less_eq_object_address_def by (rule order_trans)
  show "a \<le> b \<Longrightarrow> b \<le> a \<Longrightarrow> a = b"
    unfolding less_eq_object_address_def
    by (drule (1) order_antisym) (simp add: object_address.expand)
  show "a \<le> b \<or> b \<le> a" unfolding less_eq_object_address_def by (rule linear)
qed

end

datatype lifecycle = Active | Retired | Deleted

fun lifecycle_u16 :: "lifecycle \<Rightarrow> u16" where
  "lifecycle_u16 Active = 0"
| "lifecycle_u16 Retired = 1"
| "lifecycle_u16 Deleted = 2"

lemma lifecycle_u16_inj [simp]: "lifecycle_u16 a = lifecycle_u16 b \<longleftrightarrow> a = b"
  by (cases a; cases b) simp_all

section \<open>Identifier assertions and origins\<close>

datatype assertion_trust =
    Claimed
  | SourceVerified (source_snapshot: uuid) (verifier_version: str) (resolver_generation: u64)

fun trust_key :: "assertion_trust \<Rightarrow> (uuid \<times> str \<times> u64) option" where
  "trust_key Claimed = None"
| "trust_key (SourceVerified s v g) = Some (s, v, g)"

lemma trust_key_inj: "trust_key a = trust_key b \<Longrightarrow> a = b"
  by (cases a; cases b) simp_all

datatype identifier_assertion =
  IdentifierAssertion (ia_namespace: str) (ia_value: str) (ia_trust: assertion_trust)

definition ia_key :: "identifier_assertion \<Rightarrow> str \<times> str \<times> (uuid \<times> str \<times> u64) option" where
  "ia_key a = (ia_namespace a, ia_value a, trust_key (ia_trust a))"

lemma ia_key_inj: "ia_key a = ia_key b \<Longrightarrow> a = b"
  by (cases a; cases b) (auto simp: ia_key_def dest: trust_key_inj)

instantiation identifier_assertion :: linorder
begin

definition less_eq_identifier_assertion :: "identifier_assertion \<Rightarrow> identifier_assertion \<Rightarrow> bool" where
  "a \<le> b \<longleftrightarrow> ia_key a \<le> ia_key b"

definition less_identifier_assertion :: "identifier_assertion \<Rightarrow> identifier_assertion \<Rightarrow> bool" where
  "a < b \<longleftrightarrow> ia_key a < ia_key b"

instance
proof
  fix a b c :: identifier_assertion
  show "(a < b) = (a \<le> b \<and> \<not> b \<le> a)"
    unfolding less_eq_identifier_assertion_def less_identifier_assertion_def by (rule less_le_not_le)
  show "a \<le> a" unfolding less_eq_identifier_assertion_def by (rule order_refl)
  show "a \<le> b \<Longrightarrow> b \<le> c \<Longrightarrow> a \<le> c"
    unfolding less_eq_identifier_assertion_def by (rule order_trans)
  show "a \<le> b \<Longrightarrow> b \<le> a \<Longrightarrow> a = b"
    unfolding less_eq_identifier_assertion_def by (drule (1) order_antisym) (rule ia_key_inj)
  show "a \<le> b \<or> b \<le> a" unfolding less_eq_identifier_assertion_def by (rule linear)
qed

end

definition identifier_new :: "str \<Rightarrow> str \<Rightarrow> assertion_trust \<Rightarrow> merge_error + identifier_assertion" where
  "identifier_new namespace value trust =
     (if \<not> valid_token namespace MAX_KIND_BYTES \<or> \<not> valid_text value MAX_LABEL_BYTES
      then Inl (MergeError InvalidInput ''identifier namespace or value is invalid'')
      else Inr (IdentifierAssertion namespace value trust))"

definition identifier_claimed :: "str \<Rightarrow> str \<Rightarrow> merge_error + identifier_assertion" where
  "identifier_claimed namespace value = identifier_new namespace value Claimed"

definition identifier_source_verified ::
    "str \<Rightarrow> str \<Rightarrow> uuid \<Rightarrow> str \<Rightarrow> u64 \<Rightarrow> merge_error + identifier_assertion" where
  "identifier_source_verified namespace value snapshot version generation =
     (if \<not> valid_token version MAX_KIND_BYTES \<or> generation = 0
      then Inl (MergeError InvalidInput
        ''verified assertion requires a verifier version and positive resolver generation'')
      else identifier_new namespace value (SourceVerified snapshot version generation))"

definition trust_wf :: "assertion_trust \<Rightarrow> bool" where
  "trust_wf t = (case t of Claimed \<Rightarrow> True
     | SourceVerified s v g \<Rightarrow> valid_token v MAX_KIND_BYTES \<and> g \<noteq> 0)"

definition identifier_wf :: "identifier_assertion \<Rightarrow> bool" where
  "identifier_wf a \<longleftrightarrow> valid_token (ia_namespace a) MAX_KIND_BYTES \<and>
     valid_text (ia_value a) MAX_LABEL_BYTES \<and> trust_wf (ia_trust a)"

lemma identifier_claimed_wf [wf_intros]: "identifier_claimed n v = Inr a \<Longrightarrow> identifier_wf a"
  by (auto simp: identifier_claimed_def identifier_new_def identifier_wf_def trust_wf_def split: if_splits)

lemma identifier_source_verified_wf [wf_intros]:
  "identifier_source_verified n v s ver g = Inr a \<Longrightarrow> identifier_wf a"
  by (auto simp: identifier_source_verified_def identifier_new_def identifier_wf_def trust_wf_def
      split: if_splits)

datatype origin_contribution =
  OriginContribution (oc_origin: object_address) (oc_revision: uuid)

instantiation origin_contribution :: linorder
begin

definition less_eq_origin_contribution :: "origin_contribution \<Rightarrow> origin_contribution \<Rightarrow> bool" where
  "a \<le> b \<longleftrightarrow> (oc_origin a, oc_revision a) \<le> (oc_origin b, oc_revision b)"

definition less_origin_contribution :: "origin_contribution \<Rightarrow> origin_contribution \<Rightarrow> bool" where
  "a < b \<longleftrightarrow> (oc_origin a, oc_revision a) < (oc_origin b, oc_revision b)"

instance
proof
  fix a b c :: origin_contribution
  show "(a < b) = (a \<le> b \<and> \<not> b \<le> a)"
    unfolding less_eq_origin_contribution_def less_origin_contribution_def by (rule less_le_not_le)
  show "a \<le> a" unfolding less_eq_origin_contribution_def by (rule order_refl)
  show "a \<le> b \<Longrightarrow> b \<le> c \<Longrightarrow> a \<le> c"
    unfolding less_eq_origin_contribution_def by (rule order_trans)
  show "a \<le> b \<Longrightarrow> b \<le> a \<Longrightarrow> a = b"
    unfolding less_eq_origin_contribution_def
    by (drule (1) order_antisym) (simp add: origin_contribution.expand)
  show "a \<le> b \<or> b \<le> a" unfolding less_eq_origin_contribution_def by (rule linear)
qed

end

definition origin_wf :: "origin_contribution \<Rightarrow> bool" where
  "origin_wf c \<longleftrightarrow> logical_ok (oa_logical (oc_origin c))"

definition origins_wf :: "origin_contribution btree_set \<Rightarrow> bool" where
  "origins_wf os \<longleftrightarrow> bs_ok os \<and> os \<noteq> [] \<and> length os \<le> MAX_ORIGINS \<and> list_all origin_wf os"

section \<open>Entities\<close>

record entity_record =
  er_address :: object_address
  er_revision :: uuid
  er_lifecycle :: lifecycle
  er_label :: str
  er_kind :: "str option"
  er_lineage :: "str option"
  er_aliases :: "str btree_set"
  er_identifiers :: "identifier_assertion btree_set"
  er_properties :: "(str, str) btree_map"
  er_origins :: "origin_contribution btree_set"

definition entity_new ::
    "object_address \<Rightarrow> uuid \<Rightarrow> str \<Rightarrow> str option \<Rightarrow> merge_error + entity_record" where
  "entity_new address revision label kind =
     (if \<not> valid_text label MAX_LABEL_BYTES \<or>
         (case kind of None \<Rightarrow> False | Some v \<Rightarrow> \<not> valid_token v MAX_KIND_BYTES)
      then Inl (MergeError InvalidInput ''entity label or kind is invalid'')
      else Inr \<lparr>er_address = address, er_revision = revision, er_lifecycle = Active,
        er_label = label, er_kind = kind, er_lineage = None, er_aliases = [],
        er_identifiers = [], er_properties = [],
        er_origins = bs_of_list [OriginContribution address revision]\<rparr>)"

definition entity_with_lifecycle :: "lifecycle \<Rightarrow> entity_record \<Rightarrow> entity_record" where
  "entity_with_lifecycle l e = e\<lparr>er_lifecycle := l\<rparr>"

definition entity_with_lineage :: "str option \<Rightarrow> entity_record \<Rightarrow> merge_error + entity_record" where
  "entity_with_lineage lineage e =
     (if (case lineage of None \<Rightarrow> False | Some v \<Rightarrow> \<not> valid_token v MAX_LOGICAL_ID_BYTES)
      then Inl (MergeError InvalidInput ''entity lineage is invalid'')
      else Inr (e\<lparr>er_lineage := lineage\<rparr>))"

definition entity_with_aliases :: "str list \<Rightarrow> entity_record \<Rightarrow> merge_error + entity_record" where
  "entity_with_aliases items e =
     (let aliases = bs_of_list items in
      if length aliases > MAX_ALIASES \<or> list_ex (\<lambda>a. \<not> valid_text a MAX_LABEL_BYTES) aliases
      then Inl (MergeError BoundExceeded ''entity aliases exceed bounds or contain invalid text'')
      else Inr (e\<lparr>er_aliases := aliases\<rparr>))"

definition entity_with_identifiers ::
    "identifier_assertion list \<Rightarrow> entity_record \<Rightarrow> merge_error + entity_record" where
  "entity_with_identifiers items e =
     (let identifiers = bs_of_list items in
      if length identifiers > MAX_IDENTIFIERS
      then Inl (MergeError BoundExceeded ''entity identifier count exceeds the hard limit'')
      else Inr (e\<lparr>er_identifiers := identifiers\<rparr>))"

fun collect_properties ::
    "(str \<times> str) list \<Rightarrow> (str, str) btree_map \<Rightarrow> merge_error + (str, str) btree_map" where
  "collect_properties [] result = Inr result"
| "collect_properties ((name, value) # items) result =
     (if \<not> valid_token name MAX_PROPERTY_NAME_BYTES \<or> \<not> valid_text value MAX_TEXT_BYTES \<or>
         bm_contains result name
      then Inl (MergeError InvalidInput ''entity property is invalid or duplicated'')
      else collect_properties items (bm_insert name value result))"

definition entity_with_properties ::
    "(str \<times> str) list \<Rightarrow> entity_record \<Rightarrow> merge_error + entity_record" where
  "entity_with_properties items e =
     bind_result (collect_properties items []) (\<lambda>result.
       if length result > MAX_PROPERTIES
       then Inl (MergeError BoundExceeded ''entity property count exceeds the hard limit'')
       else Inr (e\<lparr>er_properties := result\<rparr>))"

definition entity_with_origins ::
    "origin_contribution list \<Rightarrow> entity_record \<Rightarrow> merge_error + entity_record" where
  "entity_with_origins items e =
     (let origins = bs_of_list items in
      if origins = [] \<or> length origins > MAX_ORIGINS
      then Inl (MergeError BoundExceeded ''entity origin count must be bounded and non-empty'')
      else Inr (e\<lparr>er_origins := origins\<rparr>))"

definition property_ok :: "str \<times> str \<Rightarrow> bool" where
  "property_ok p \<longleftrightarrow> valid_token (fst p) MAX_PROPERTY_NAME_BYTES \<and> valid_text (snd p) MAX_TEXT_BYTES"

definition entity_wf :: "entity_record \<Rightarrow> bool" where
  "entity_wf e \<longleftrightarrow>
     logical_ok (oa_logical (er_address e)) \<and> valid_text (er_label e) MAX_LABEL_BYTES \<and>
     opt_token (er_kind e) MAX_KIND_BYTES \<and> opt_token (er_lineage e) MAX_LOGICAL_ID_BYTES \<and>
     bs_ok (er_aliases e) \<and> length (er_aliases e) \<le> MAX_ALIASES \<and>
     list_all (\<lambda>a. valid_text a MAX_LABEL_BYTES) (er_aliases e) \<and>
     bs_ok (er_identifiers e) \<and> length (er_identifiers e) \<le> MAX_IDENTIFIERS \<and>
     list_all identifier_wf (er_identifiers e) \<and>
     bm_ok (er_properties e) \<and> length (er_properties e) \<le> MAX_PROPERTIES \<and>
     list_all property_ok (er_properties e) \<and>
     origins_wf (er_origins e)"

section \<open>Observations and relations\<close>

record observation_record =
  ob_address :: object_address
  ob_entity :: object_address
  ob_revision :: uuid
  ob_lifecycle :: lifecycle
  ob_content :: str
  ob_origins :: "origin_contribution btree_set"

definition observation_new ::
    "object_address \<Rightarrow> object_address \<Rightarrow> uuid \<Rightarrow> str \<Rightarrow> merge_error + observation_record" where
  "observation_new address entity revision content =
     (if \<not> valid_text content MAX_TEXT_BYTES
      then Inl (MergeError InvalidInput
        ''observation content is empty, oversized, or contains controls'')
      else Inr \<lparr>ob_address = address, ob_entity = entity, ob_revision = revision,
        ob_lifecycle = Active, ob_content = content,
        ob_origins = bs_of_list [OriginContribution address revision]\<rparr>)"

definition observation_with_lifecycle :: "lifecycle \<Rightarrow> observation_record \<Rightarrow> observation_record" where
  "observation_with_lifecycle l r = r\<lparr>ob_lifecycle := l\<rparr>"

definition observation_with_origins ::
    "origin_contribution list \<Rightarrow> observation_record \<Rightarrow> merge_error + observation_record" where
  "observation_with_origins items r =
     (let origins = bs_of_list items in
      if origins = [] \<or> length origins > MAX_ORIGINS
      then Inl (MergeError BoundExceeded ''observation origin count must be bounded and non-empty'')
      else Inr (r\<lparr>ob_origins := origins\<rparr>))"

definition observation_wf :: "observation_record \<Rightarrow> bool" where
  "observation_wf r \<longleftrightarrow>
     logical_ok (oa_logical (ob_address r)) \<and> logical_ok (oa_logical (ob_entity r)) \<and>
     valid_text (ob_content r) MAX_TEXT_BYTES \<and> origins_wf (ob_origins r)"

record relation_record =
  re_address :: object_address
  re_subject :: object_address
  re_predicate :: str
  re_object :: object_address
  re_revision :: uuid
  re_lifecycle :: lifecycle
  re_origins :: "origin_contribution btree_set"

definition relation_new ::
    "object_address \<Rightarrow> object_address \<Rightarrow> str \<Rightarrow> object_address \<Rightarrow> uuid \<Rightarrow>
     merge_error + relation_record" where
  "relation_new address subject predicate obj revision =
     (if \<not> valid_token predicate MAX_KIND_BYTES
      then Inl (MergeError InvalidInput ''relation predicate is invalid'')
      else Inr \<lparr>re_address = address, re_subject = subject, re_predicate = predicate,
        re_object = obj, re_revision = revision, re_lifecycle = Active,
        re_origins = bs_of_list [OriginContribution address revision]\<rparr>)"

definition relation_with_lifecycle :: "lifecycle \<Rightarrow> relation_record \<Rightarrow> relation_record" where
  "relation_with_lifecycle l r = r\<lparr>re_lifecycle := l\<rparr>"

definition relation_with_origins ::
    "origin_contribution list \<Rightarrow> relation_record \<Rightarrow> merge_error + relation_record" where
  "relation_with_origins items r =
     (let origins = bs_of_list items in
      if origins = [] \<or> length origins > MAX_ORIGINS
      then Inl (MergeError BoundExceeded ''relation origin count must be bounded and non-empty'')
      else Inr (r\<lparr>re_origins := origins\<rparr>))"

definition relation_wf :: "relation_record \<Rightarrow> bool" where
  "relation_wf r \<longleftrightarrow>
     logical_ok (oa_logical (re_address r)) \<and> logical_ok (oa_logical (re_subject r)) \<and>
     logical_ok (oa_logical (re_object r)) \<and> valid_token (re_predicate r) MAX_KIND_BYTES \<and>
     origins_wf (re_origins r)"

end
