(* ===== verification/Om_Encode.thy ===== *)
theory Om_Encode
  imports Om_Records
begin

text \<open>
  The canonical encoders of \<open>model.rs\<close>, and what the constructors of the records guarantee.
  Every encoder is an interpretation of \<open>canonical_codec\<close>: it feeds a byte string that depends on
  the record only, and on well-formed records no two records share it, whatever bytes follow.
\<close>

section \<open>Encoders\<close>

definition encode_address :: "deps \<Rightarrow> object_address \<Rightarrow> canonical_hasher \<Rightarrow> canonical_hasher" where
  "encode_address D value h =
     (let h = ch_space_id D (oa_space value) h in ch_text (oa_logical value) h)"

definition encode_result_id :: "result_object_id \<Rightarrow> canonical_hasher \<Rightarrow> canonical_hasher" where
  "encode_result_id value h =
     (case value of
        ResTarget v \<Rightarrow> ch_text v (ch_u16 1 h)
      | ResQualified v \<Rightarrow> ch_text v (ch_u16 2 h))"

definition encode_origin :: "deps \<Rightarrow> origin_contribution \<Rightarrow> canonical_hasher \<Rightarrow> canonical_hasher" where
  "encode_origin D value h =
     (let h = encode_address D (oc_origin value) h in ch_revision_id D (oc_revision value) h)"

definition encode_trust :: "deps \<Rightarrow> assertion_trust \<Rightarrow> canonical_hasher \<Rightarrow> canonical_hasher" where
  "encode_trust D value h =
     (case value of
        Claimed \<Rightarrow> ch_u16 1 h
      | SourceVerified snapshot version generation \<Rightarrow>
          (let h = ch_u16 2 h;
               h = ch_snapshot_id D snapshot h;
               h = ch_text version h
           in ch_u64 generation h))"

definition encode_identifier ::
    "deps \<Rightarrow> identifier_assertion \<Rightarrow> canonical_hasher \<Rightarrow> canonical_hasher" where
  "encode_identifier D value h =
     (let h = ch_text (ia_namespace value) h;
          h = ch_text (ia_value value) h
      in encode_trust D (ia_trust value) h)"

definition encode_property :: "str \<times> str \<Rightarrow> canonical_hasher \<Rightarrow> canonical_hasher" where
  "encode_property p h = ch_text (snd p) (ch_text (fst p) h)"

definition encode_entity :: "deps \<Rightarrow> entity_record \<Rightarrow> canonical_hasher \<Rightarrow> canonical_hasher" where
  "encode_entity D value h =
     (let h = encode_address D (er_address value) h;
          h = ch_revision_id D (er_revision value) h;
          h = ch_u16 (lifecycle_u16 (er_lifecycle value)) h;
          h = ch_text (er_label value) h;
          h = ch_optional_text (er_kind value) h;
          h = ch_optional_text (er_lineage value) h;
          h = ch_usize (length (er_aliases value)) h;
          h = fold ch_text (er_aliases value) h;
          h = ch_usize (length (er_identifiers value)) h;
          h = fold (encode_identifier D) (er_identifiers value) h;
          h = ch_usize (length (er_properties value)) h;
          h = fold encode_property (er_properties value) h;
          h = ch_usize (length (er_origins value)) h
      in fold (encode_origin D) (er_origins value) h)"

definition encode_observation ::
    "deps \<Rightarrow> observation_record \<Rightarrow> canonical_hasher \<Rightarrow> canonical_hasher" where
  "encode_observation D value h =
     (let h = encode_address D (ob_address value) h;
          h = encode_address D (ob_entity value) h;
          h = ch_revision_id D (ob_revision value) h;
          h = ch_u16 (lifecycle_u16 (ob_lifecycle value)) h;
          h = ch_text (ob_content value) h;
          h = ch_usize (length (ob_origins value)) h
      in fold (encode_origin D) (ob_origins value) h)"

definition encode_relation :: "deps \<Rightarrow> relation_record \<Rightarrow> canonical_hasher \<Rightarrow> canonical_hasher" where
  "encode_relation D value h =
     (let h = encode_address D (re_address value) h;
          h = encode_address D (re_subject value) h;
          h = ch_text (re_predicate value) h;
          h = encode_address D (re_object value) h;
          h = ch_revision_id D (re_revision value) h;
          h = ch_u16 (lifecycle_u16 (re_lifecycle value)) h;
          h = ch_usize (length (re_origins value)) h
      in fold (encode_origin D) (re_origins value) h)"

definition entity_semantic_hash :: "deps \<Rightarrow> entity_record \<Rightarrow> hash32" where
  "entity_semantic_hash D e = ch_finish D (encode_entity D e (ch_new ''openmemory/entity/v1''))"

definition observation_semantic_hash :: "deps \<Rightarrow> observation_record \<Rightarrow> hash32" where
  "observation_semantic_hash D r =
     ch_finish D (encode_observation D r (ch_new ''openmemory/observation/v1''))"

definition relation_semantic_hash :: "deps \<Rightarrow> relation_record \<Rightarrow> hash32" where
  "relation_semantic_hash D r =
     ch_finish D (encode_relation D r (ch_new ''openmemory/relation/v1''))"

section \<open>What the constructors guarantee\<close>

lemma valid_token_fits [simp]: "valid_token v n \<Longrightarrow> n < 2 ^ 64 \<Longrightarrow> fits v"
  by (simp add: valid_token_def fits_def)

lemma valid_text_fits [simp]: "valid_text v n \<Longrightarrow> n < 2 ^ 64 \<Longrightarrow> fits v"
  by (simp add: valid_text_def fits_def)

lemma logical_id_new_Inr: "logical_id_new v = Inr w \<longleftrightarrow>
    w = v \<and> valid_token v MAX_LOGICAL_ID_BYTES \<and> \<not> starts_with v QUALIFIED_ID_PREFIX"
  by (auto simp: logical_id_new_def)

lemma logical_ok_cases: "logical_ok v \<longleftrightarrow>
    logical_id_new v = Inr v \<or>
    (\<exists>d. v = QUALIFIED_ID_PREFIX @ d \<and> length d = 64 \<and> list_all is_lower_hex d)"
proof (cases "starts_with v QUALIFIED_ID_PREFIX")
  case True
  define d where "d = drop (length QUALIFIED_ID_PREFIX) v"
  have v: "v = QUALIFIED_ID_PREFIX @ d"
  proof -
    have "take (length QUALIFIED_ID_PREFIX) v = QUALIFIED_ID_PREFIX"
      using True by (simp only: starts_with_def)
    then show ?thesis unfolding d_def by (metis append_take_drop_id)
  qed
  then have d5: "drop (length QUALIFIED_ID_PREFIX) v = d" by simp
  have "logical_id_from_projection v = (if length d \<noteq> 64 \<or> list_ex (\<lambda>b. \<not> is_lower_hex b) d
      then Inl (MergeError InvalidInput ''qualified projection ID has an invalid canonical hash'')
      else Inr v)"
    by (simp only: logical_id_from_projection_def strip_prefix_def True if_True option.case d5)
  then have "logical_ok v \<longleftrightarrow> length d = 64 \<and> list_all is_lower_hex d"
    by (auto simp: logical_ok_def list_all_iff list_ex_iff)
  moreover have "logical_id_new v \<noteq> Inr v" using True by (simp add: logical_id_new_Inr)
  moreover have "(\<exists>d'. v = QUALIFIED_ID_PREFIX @ d' \<and> length d' = 64 \<and> list_all is_lower_hex d')
      \<longleftrightarrow> length d = 64 \<and> list_all is_lower_hex d"
    unfolding v by simp
  ultimately show ?thesis by simp
next
  case False
  then have "\<nexists>d. v = QUALIFIED_ID_PREFIX @ d"
    by (auto simp: starts_with_append)
  then show ?thesis using False
    by (auto simp: logical_ok_def logical_id_from_projection_def strip_prefix_def)
qed

lemma logical_ok_fits [simp]: "logical_ok v \<Longrightarrow> fits v"
  unfolding logical_ok_cases
  by (auto simp: logical_id_new_Inr valid_token_def fits_def max_defs QUALIFIED_ID_PREFIX_def)

lemma singleton_origins_wf: "logical_ok (oa_logical a) \<Longrightarrow> origins_wf (bs_of_list [OriginContribution a r])"
  by (simp add: origins_wf_def bs_of_list_def bs_ok_def origin_wf_def max_defs)

lemma opt_token_neg: "(case v of None \<Rightarrow> False | Some t \<Rightarrow> \<not> valid_token t n) \<longleftrightarrow> \<not> opt_token v n"
  by (simp add: opt_token_def split: option.split)

lemma opt_token_None [simp]: "opt_token None n"
  by (simp add: opt_token_def)

lemma entity_new_wf [wf_intros]:
  "entity_new a r l k = Inr e \<Longrightarrow> logical_ok (oa_logical a) \<Longrightarrow> entity_wf e"
  by (auto simp: entity_new_def entity_wf_def opt_token_neg singleton_origins_wf split: if_splits)

lemma entity_with_lifecycle_wf [wf_intros]: "entity_wf e \<Longrightarrow> entity_wf (entity_with_lifecycle l e)"
  by (simp add: entity_wf_def entity_with_lifecycle_def)

lemma entity_with_lineage_wf [wf_intros]:
  "entity_with_lineage l e = Inr e' \<Longrightarrow> entity_wf e \<Longrightarrow> entity_wf e'"
  by (auto simp: entity_wf_def entity_with_lineage_def opt_token_neg split: if_splits)

lemma entity_with_aliases_wf [wf_intros]:
  "entity_with_aliases xs e = Inr e' \<Longrightarrow> entity_wf e \<Longrightarrow> entity_wf e'"
  by (auto simp: entity_wf_def entity_with_aliases_def Let_def list_all_iff list_ex_iff split: if_splits)

lemma entity_with_identifiers_wf [wf_intros]:
  "entity_with_identifiers xs e = Inr e' \<Longrightarrow> list_all identifier_wf xs \<Longrightarrow> entity_wf e \<Longrightarrow> entity_wf e'"
  by (auto simp: entity_wf_def entity_with_identifiers_def Let_def list_all_iff split: if_splits)

lemma set_bm_insert_sub: "set (bm_insert k v m) \<subseteq> insert (k, v) (set m)"
  by (induction k v m rule: bm_insert.induct) auto

lemma collect_properties_ok:
  "collect_properties xs m = Inr m' \<Longrightarrow> bm_ok m \<Longrightarrow> list_all property_ok m \<Longrightarrow>
   bm_ok m' \<and> list_all property_ok m'"
proof (induction xs m rule: collect_properties.induct)
  case (1 result)
  then show ?case by simp
next
  case (2 name v items result)
  from "2.prems" have c: "valid_token name MAX_PROPERTY_NAME_BYTES" "valid_text v MAX_TEXT_BYTES"
      "\<not> bm_contains result name" "collect_properties items (bm_insert name v result) = Inr m'"
    by (auto split: if_splits)
  have "list_all property_ok (bm_insert name v result)"
    using c "2.prems"(3) set_bm_insert_sub [of name v result]
    by (auto simp: list_all_iff property_ok_def)
  then show ?case using "2.IH" c "2.prems"(2) by simp
qed

lemma entity_with_properties_wf [wf_intros]:
  "entity_with_properties xs e = Inr e' \<Longrightarrow> entity_wf e \<Longrightarrow> entity_wf e'"
  using collect_properties_ok [of xs "[]"]
  by (auto simp: entity_wf_def entity_with_properties_def bind_result_Inr split: if_splits)

lemma entity_with_origins_wf [wf_intros]:
  "entity_with_origins xs e = Inr e' \<Longrightarrow> list_all origin_wf xs \<Longrightarrow> entity_wf e \<Longrightarrow> entity_wf e'"
  by (auto simp: entity_wf_def entity_with_origins_def Let_def origins_wf_def list_all_iff split: if_splits)

lemma observation_new_wf [wf_intros]:
  "observation_new a en r c = Inr o1 \<Longrightarrow> logical_ok (oa_logical a) \<Longrightarrow> logical_ok (oa_logical en) \<Longrightarrow>
   observation_wf o1"
  by (auto simp: observation_new_def observation_wf_def singleton_origins_wf split: if_splits)

lemma observation_with_lifecycle_wf [wf_intros]:
  "observation_wf r \<Longrightarrow> observation_wf (observation_with_lifecycle l r)"
  by (simp add: observation_wf_def observation_with_lifecycle_def)

lemma observation_with_origins_wf [wf_intros]:
  "observation_with_origins xs r = Inr r' \<Longrightarrow> list_all origin_wf xs \<Longrightarrow> observation_wf r \<Longrightarrow>
   observation_wf r'"
  by (auto simp: observation_wf_def observation_with_origins_def Let_def origins_wf_def list_all_iff
      split: if_splits)

lemma relation_new_wf [wf_intros]:
  "relation_new a s p b r = Inr re \<Longrightarrow> logical_ok (oa_logical a) \<Longrightarrow> logical_ok (oa_logical s) \<Longrightarrow>
   logical_ok (oa_logical b) \<Longrightarrow> relation_wf re"
  by (auto simp: relation_new_def relation_wf_def singleton_origins_wf split: if_splits)

lemma relation_with_lifecycle_wf [wf_intros]:
  "relation_wf r \<Longrightarrow> relation_wf (relation_with_lifecycle l r)"
  by (simp add: relation_wf_def relation_with_lifecycle_def)

lemma relation_with_origins_wf [wf_intros]:
  "relation_with_origins xs r = Inr r' \<Longrightarrow> list_all origin_wf xs \<Longrightarrow> relation_wf r \<Longrightarrow> relation_wf r'"
  by (auto simp: relation_wf_def relation_with_origins_def Let_def origins_wf_def list_all_iff
      split: if_splits)

section \<open>The encoders as codecs\<close>

definition uuid_bytes :: "deps \<Rightarrow> uuid \<Rightarrow> bytes" where
  "uuid_bytes D u = framed (hyphenated D u)"

lemma uuid_bytes_unique:
  "deps_ok D \<Longrightarrow> uuid_bytes D u @ r = uuid_bytes D v @ s \<longleftrightarrow> u = v \<and> r = s"
  unfolding uuid_bytes_def by (simp add: space_id_codec.unique)

definition address_bytes :: "deps \<Rightarrow> object_address \<Rightarrow> bytes" where
  "address_bytes D a = uuid_bytes D (oa_space a) @ framed (oa_logical a)"

definition address_fits :: "object_address \<Rightarrow> bool" where
  "address_fits a \<longleftrightarrow> fits (oa_logical a)"

interpretation address_codec: canonical_codec "encode_address D" "address_bytes D"
    "\<lambda>a. deps_ok D \<and> address_fits a" for D
  by unfold_locales
    (auto simp: encode_address_def address_bytes_def uuid_bytes_def [symmetric] canon_simps address_fits_def
      uuid_bytes_unique framed_unique object_address.expand)

definition result_id_bytes :: "result_object_id \<Rightarrow> bytes" where
  "result_id_bytes v = (case v of ResTarget t \<Rightarrow> u16_le 1 @ framed t | ResQualified t \<Rightarrow> u16_le 2 @ framed t)"

interpretation result_id_codec: canonical_codec encode_result_id result_id_bytes
    "\<lambda>v. fits (result_as_str v)"
  by unfold_locales
    (auto simp: encode_result_id_def result_id_bytes_def canon_simps u16_le_unique framed_unique
      split: result_object_id.splits)

definition origin_bytes :: "deps \<Rightarrow> origin_contribution \<Rightarrow> bytes" where
  "origin_bytes D c = address_bytes D (oc_origin c) @ uuid_bytes D (oc_revision c)"

interpretation origin_codec: canonical_codec "encode_origin D" "origin_bytes D"
    "\<lambda>c. deps_ok D \<and> address_fits (oc_origin c)" for D
  by unfold_locales
    (auto simp: encode_origin_def origin_bytes_def canon_simps uuid_bytes_def [symmetric] uuid_bytes_unique
      address_codec.feeds address_codec.unique origin_contribution.expand)

definition trust_bytes :: "deps \<Rightarrow> assertion_trust \<Rightarrow> bytes" where
  "trust_bytes D t = (case t of Claimed \<Rightarrow> u16_le 1
     | SourceVerified s v g \<Rightarrow> u16_le 2 @ uuid_bytes D s @ framed v @ u64_le g)"

definition identifier_bytes :: "deps \<Rightarrow> identifier_assertion \<Rightarrow> bytes" where
  "identifier_bytes D a = framed (ia_namespace a) @ framed (ia_value a) @ trust_bytes D (ia_trust a)"

interpretation trust_codec: canonical_codec "encode_trust D" "trust_bytes D"
    "\<lambda>t. deps_ok D \<and> trust_wf t" for D
proof unfold_locales
  fix x h
  show "encode_trust D x h = ch_feed (trust_bytes D x) h"
    by (simp add: encode_trust_def trust_bytes_def canon_simps uuid_bytes_def Let_def split: assertion_trust.split)
next
  fix x y r s
  assume "deps_ok D \<and> trust_wf x" "deps_ok D \<and> trust_wf y"
  then show "trust_bytes D x @ r = trust_bytes D y @ s \<longleftrightarrow> x = y \<and> r = s"
    by (cases x; cases y) (auto simp: trust_bytes_def trust_wf_def u16_le_unique uuid_bytes_unique
        framed_unique u64_le_unique max_defs)
qed

interpretation identifier_codec: canonical_codec "encode_identifier D" "identifier_bytes D"
    "\<lambda>a. deps_ok D \<and> identifier_wf a" for D
  by unfold_locales
    (auto simp: encode_identifier_def identifier_bytes_def canon_simps trust_codec.feeds framed_unique
      trust_codec.unique identifier_wf_def max_defs identifier_assertion.expand)

definition property_bytes :: "str \<times> str \<Rightarrow> bytes" where
  "property_bytes p = framed (fst p) @ framed (snd p)"

interpretation property_codec: canonical_codec encode_property property_bytes property_ok
  by unfold_locales
    (auto simp: encode_property_def property_bytes_def canon_simps framed_unique property_ok_def
      max_defs prod_eq_iff)

definition entity_bytes :: "deps \<Rightarrow> entity_record \<Rightarrow> bytes" where
  "entity_bytes D e =
     address_bytes D (er_address e) @ uuid_bytes D (er_revision e) @
     u16_le (lifecycle_u16 (er_lifecycle e)) @ framed (er_label e) @
     optional_framed (er_kind e) @ optional_framed (er_lineage e) @
     usize_le (length (er_aliases e)) @ concat (map framed (er_aliases e)) @
     usize_le (length (er_identifiers e)) @ concat (map (identifier_bytes D) (er_identifiers e)) @
     usize_le (length (er_properties e)) @ concat (map property_bytes (er_properties e)) @
     usize_le (length (er_origins e)) @ concat (map (origin_bytes D) (er_origins e))"

lemma opt_token_fits: "opt_token v n \<Longrightarrow> n < 2 ^ 64 \<Longrightarrow>
    (case v of None \<Rightarrow> True | Some t \<Rightarrow> fits t)"
  by (auto simp: opt_token_def split: option.splits)

lemma entity_wf_fits:
  assumes "entity_wf e"
  shows "address_fits (er_address e)" "fits (er_label e)"
    "case er_kind e of None \<Rightarrow> True | Some t \<Rightarrow> fits t"
    "case er_lineage e of None \<Rightarrow> True | Some t \<Rightarrow> fits t"
    "fits (er_aliases e)" "\<forall>a\<in>set (er_aliases e). fits a"
    "fits (er_identifiers e)" "\<forall>i\<in>set (er_identifiers e). identifier_wf i"
    "fits (er_properties e)" "\<forall>p\<in>set (er_properties e). property_ok p"
    "fits (er_origins e)" "\<forall>c\<in>set (er_origins e). address_fits (oc_origin c)"
proof -
  note wf = assms [unfolded entity_wf_def origins_wf_def origin_wf_def]
  show "case er_kind e of None \<Rightarrow> True | Some t \<Rightarrow> fits t"
    "case er_lineage e of None \<Rightarrow> True | Some t \<Rightarrow> fits t"
    using wf by (auto intro!: opt_token_fits simp: max_defs)
  show "address_fits (er_address e)" "fits (er_label e)" "fits (er_aliases e)"
    "\<forall>a\<in>set (er_aliases e). fits a"
    "fits (er_identifiers e)" "\<forall>i\<in>set (er_identifiers e). identifier_wf i"
    "fits (er_properties e)" "\<forall>p\<in>set (er_properties e). property_ok p"
    "fits (er_origins e)" "\<forall>c\<in>set (er_origins e). address_fits (oc_origin c)"
    using wf by (auto simp: address_fits_def list_all_iff max_defs fits_def [of "er_aliases e"]
        fits_def [of "er_identifiers e"] fits_def [of "er_properties e"] fits_def [of "er_origins e"])
qed

interpretation entity_codec: canonical_codec "encode_entity D" "entity_bytes D"
    "\<lambda>e. deps_ok D \<and> entity_wf e" for D
proof unfold_locales
  fix e h
  show "encode_entity D e h = ch_feed (entity_bytes D e) h"
    by (simp add: encode_entity_def entity_bytes_def Let_def canon_simps uuid_bytes_def [symmetric]
        address_codec.feeds text_codec.fold_feeds_feed identifier_codec.fold_feeds_feed
        property_codec.fold_feeds_feed origin_codec.fold_feeds_feed)
next
  fix x y r s
  assume "deps_ok D \<and> entity_wf x" "deps_ok D \<and> entity_wf y"
  then show "entity_bytes D x @ r = entity_bytes D y @ s \<longleftrightarrow> x = y \<and> r = s"
    using entity_wf_fits [of x] entity_wf_fits [of y]
    by (auto simp: entity_bytes_def address_codec.unique uuid_bytes_unique u16_le_unique framed_unique
        optional_framed_unique text_codec.list_unique identifier_codec.list_unique
        property_codec.list_unique origin_codec.list_unique intro!: entity_record.equality)
qed

definition observation_bytes :: "deps \<Rightarrow> observation_record \<Rightarrow> bytes" where
  "observation_bytes D r =
     address_bytes D (ob_address r) @ address_bytes D (ob_entity r) @ uuid_bytes D (ob_revision r) @
     u16_le (lifecycle_u16 (ob_lifecycle r)) @ framed (ob_content r) @
     usize_le (length (ob_origins r)) @ concat (map (origin_bytes D) (ob_origins r))"

definition relation_bytes :: "deps \<Rightarrow> relation_record \<Rightarrow> bytes" where
  "relation_bytes D r =
     address_bytes D (re_address r) @ address_bytes D (re_subject r) @ framed (re_predicate r) @
     address_bytes D (re_object r) @ uuid_bytes D (re_revision r) @
     u16_le (lifecycle_u16 (re_lifecycle r)) @
     usize_le (length (re_origins r)) @ concat (map (origin_bytes D) (re_origins r))"

lemma origins_wf_fits:
  assumes "origins_wf os"
  shows "fits os" "\<forall>c\<in>set os. address_fits (oc_origin c)"
  using assms by (auto simp: origins_wf_def origin_wf_def list_all_iff address_fits_def
      fits_def [of os] max_defs)

interpretation observation_codec: canonical_codec "encode_observation D" "observation_bytes D"
    "\<lambda>r. deps_ok D \<and> observation_wf r" for D
proof unfold_locales
  fix r h
  show "encode_observation D r h = ch_feed (observation_bytes D r) h"
    by (simp add: encode_observation_def observation_bytes_def Let_def canon_simps
        uuid_bytes_def [symmetric] address_codec.feeds origin_codec.fold_feeds_feed)
next
  fix x y r s
  assume "deps_ok D \<and> observation_wf x" "deps_ok D \<and> observation_wf y"
  then show "observation_bytes D x @ r = observation_bytes D y @ s \<longleftrightarrow> x = y \<and> r = s"
    using origins_wf_fits [of "ob_origins x"] origins_wf_fits [of "ob_origins y"]
    by (auto simp: observation_wf_def observation_bytes_def address_codec.unique address_fits_def
        uuid_bytes_unique u16_le_unique framed_unique origin_codec.list_unique max_defs
        intro!: observation_record.equality)
qed

interpretation relation_codec: canonical_codec "encode_relation D" "relation_bytes D"
    "\<lambda>r. deps_ok D \<and> relation_wf r" for D
proof unfold_locales
  fix r h
  show "encode_relation D r h = ch_feed (relation_bytes D r) h"
    by (simp add: encode_relation_def relation_bytes_def Let_def canon_simps
        uuid_bytes_def [symmetric] address_codec.feeds origin_codec.fold_feeds_feed)
next
  fix x y r s
  assume "deps_ok D \<and> relation_wf x" "deps_ok D \<and> relation_wf y"
  then show "relation_bytes D x @ r = relation_bytes D y @ s \<longleftrightarrow> x = y \<and> r = s"
    using origins_wf_fits [of "re_origins x"] origins_wf_fits [of "re_origins y"]
    by (auto simp: relation_wf_def relation_bytes_def address_codec.unique address_fits_def
        uuid_bytes_unique u16_le_unique framed_unique origin_codec.list_unique max_defs
        intro!: relation_record.equality)
qed

end
