(* ===== verification/Om_Evidence.thy ===== *)
theory Om_Evidence
  imports Om_Encode
begin

text \<open>
  Deterministic identity evidence (\<open>evidence.rs\<close>): the identity policy, the analysis of one exact
  pair of entity revisions, and the resolution it proves. The nested loops over the identifier
  sets are folds over one accumulator; \<open>pair_proves_same\<close> and \<open>pair_proves_different\<close> state what
  the two flags of the accumulator mean.
\<close>

datatype kind_compatibility = Compatible | Incompatible | Unknown

record identity_policy =
  ip_policy_generation :: u64
  ip_ontology_generation :: u64
  ip_authoritative :: "(str, u64) btree_map"
  ip_kind_relations :: "(str \<times> str, kind_compatibility) btree_map"

definition identity_policy_new :: "u64 \<Rightarrow> u64 \<Rightarrow> merge_error + identity_policy" where
  "identity_policy_new policy_generation ontology_generation =
     (if policy_generation = 0 \<or> ontology_generation = 0
      then Inl (MergeError InvalidInput ''identity policy and ontology generations must be positive'')
      else Inr \<lparr>ip_policy_generation = policy_generation,
        ip_ontology_generation = ontology_generation, ip_authoritative = [], ip_kind_relations = []\<rparr>)"

definition valid_policy_token :: "str \<Rightarrow> bool" where
  "valid_policy_token value \<longleftrightarrow>
     value \<noteq> [] \<and> length value \<le> MAX_KIND_BYTES \<and> is_trimmed value \<and> \<not> has_control value"

definition with_authoritative_namespace ::
    "str \<Rightarrow> u64 \<Rightarrow> identity_policy \<Rightarrow> merge_error + identity_policy" where
  "with_authoritative_namespace namespace generation p =
     (if \<not> valid_policy_token namespace \<or> generation = 0
      then Inl (MergeError InvalidInput ''authoritative namespace and resolver generation are invalid'')
      else if bm_contains (ip_authoritative p) namespace
      then Inl (MergeError DuplicateInput ''authoritative namespace is duplicated'')
      else Inr (p\<lparr>ip_authoritative := bm_insert namespace generation (ip_authoritative p)\<rparr>))"

definition canonical_kind_pair :: "str \<Rightarrow> str \<Rightarrow> str \<times> str" where
  "canonical_kind_pair left right = (if left \<le> right then (left, right) else (right, left))"

definition with_kind_relation ::
    "str \<Rightarrow> str \<Rightarrow> kind_compatibility \<Rightarrow> identity_policy \<Rightarrow> merge_error + identity_policy" where
  "with_kind_relation left right relation p =
     (if \<not> valid_policy_token left \<or> \<not> valid_policy_token right
      then Inl (MergeError InvalidInput ''kind relation contains invalid tokens'')
      else let pair = canonical_kind_pair left right in
        if bm_contains (ip_kind_relations p) pair
        then Inl (MergeError DuplicateInput ''kind relation is duplicated'')
        else Inr (p\<lparr>ip_kind_relations := bm_insert pair relation (ip_kind_relations p)\<rparr>))"

definition policy_resolver_generation :: "identity_policy \<Rightarrow> str \<Rightarrow> u64 option" where
  "policy_resolver_generation p namespace = bm_get (ip_authoritative p) namespace"

definition policy_kind_compatibility ::
    "identity_policy \<Rightarrow> str option \<Rightarrow> str option \<Rightarrow> kind_compatibility" where
  "policy_kind_compatibility p left right =
     (case (left, right) of
        (Some l, Some r) \<Rightarrow>
          (if l = r then Compatible
           else (case bm_get (ip_kind_relations p) (canonical_kind_pair l r) of
                   Some c \<Rightarrow> c | None \<Rightarrow> Unknown))
      | _ \<Rightarrow> Unknown)"

section \<open>Revision references and evidence items\<close>

datatype entity_revision_ref =
  EntityRevisionRef (rv_address: object_address) (rv_revision: uuid) (rv_snapshot: uuid)

datatype evidence_kind =
    EvLineage | EvVerifiedIdentifierMatch | EvVerifiedIdentifierConflict | EvExactLabel | EvAlias
  | EvClaimedIdentifier | EvKindIncompatible

fun evidence_kind_u16 :: "evidence_kind \<Rightarrow> u16" where
  "evidence_kind_u16 EvLineage = 0"
| "evidence_kind_u16 EvVerifiedIdentifierMatch = 1"
| "evidence_kind_u16 EvVerifiedIdentifierConflict = 2"
| "evidence_kind_u16 EvExactLabel = 3"
| "evidence_kind_u16 EvAlias = 4"
| "evidence_kind_u16 EvClaimedIdentifier = 5"
| "evidence_kind_u16 EvKindIncompatible = 6"

lemma evidence_kind_u16_inj: "evidence_kind_u16 a = evidence_kind_u16 b \<Longrightarrow> a = b"
  by (cases a; cases b) simp_all

datatype evidence_item =
  EvidenceItem (ev_kind: evidence_kind) (ev_namespace: "str option") (ev_left: str) (ev_right: str)

definition ev_key :: "evidence_item \<Rightarrow> u16 \<times> str option \<times> str \<times> str" where
  "ev_key i = (evidence_kind_u16 (ev_kind i), ev_namespace i, ev_left i, ev_right i)"

lemma ev_key_inj: "ev_key a = ev_key b \<Longrightarrow> a = b"
  by (cases a; cases b) (auto simp: ev_key_def dest: evidence_kind_u16_inj)

instantiation evidence_item :: linorder
begin

definition less_eq_evidence_item :: "evidence_item \<Rightarrow> evidence_item \<Rightarrow> bool" where
  "a \<le> b \<longleftrightarrow> ev_key a \<le> ev_key b"

definition less_evidence_item :: "evidence_item \<Rightarrow> evidence_item \<Rightarrow> bool" where
  "a < b \<longleftrightarrow> ev_key a < ev_key b"

instance
proof
  fix a b c :: evidence_item
  show "(a < b) = (a \<le> b \<and> \<not> b \<le> a)"
    unfolding less_eq_evidence_item_def less_evidence_item_def by (rule less_le_not_le)
  show "a \<le> a" unfolding less_eq_evidence_item_def by (rule order_refl)
  show "a \<le> b \<Longrightarrow> b \<le> c \<Longrightarrow> a \<le> c" unfolding less_eq_evidence_item_def by (rule order_trans)
  show "a \<le> b \<Longrightarrow> b \<le> a \<Longrightarrow> a = b"
    unfolding less_eq_evidence_item_def by (drule (1) order_antisym) (rule ev_key_inj)
  show "a \<le> b \<or> b \<le> a" unfolding less_eq_evidence_item_def by (rule linear)
qed

end

datatype deterministic_resolution = ProofSame | ProofDifferent | ConflictingProofs | ReviewOrSeparate

fun resolution_u16 :: "deterministic_resolution \<Rightarrow> u16" where
  "resolution_u16 ProofSame = 0"
| "resolution_u16 ProofDifferent = 1"
| "resolution_u16 ConflictingProofs = 2"
| "resolution_u16 ReviewOrSeparate = 3"

record identity_packet =
  pk_left :: entity_revision_ref
  pk_right :: entity_revision_ref
  pk_policy_generation :: u64
  pk_ontology_generation :: u64
  pk_resolver_generations :: "(str, u64) btree_map"
  pk_evidence :: "evidence_item list"
  pk_resolution :: deterministic_resolution
  pk_hash :: hash32

section \<open>Labels\<close>

definition normalize_label :: "deps \<Rightarrow> str \<Rightarrow> str" where
  "normalize_label D label = to_lowercase D (join_with '' '' (split_whitespace label))"

definition normalized_names :: "deps \<Rightarrow> entity_record \<Rightarrow> str btree_set" where
  "normalized_names D e =
     bs_of_list (normalize_label D (er_label e) # map (normalize_label D) (er_aliases e))"

section \<open>The pair analysis\<close>

definition ev_is_current_verified :: "identifier_assertion \<Rightarrow> uuid \<Rightarrow> u64 \<Rightarrow> bool" where
  "ev_is_current_verified assertion expected_snapshot required_generation =
     (case ia_trust assertion of
        Claimed \<Rightarrow> False
      | SourceVerified snapshot version generation \<Rightarrow>
          snapshot = expected_snapshot \<and> generation = required_generation)"

record analysis =
  an_evidence :: "evidence_item btree_set"
  an_proves_same :: bool
  an_proves_different :: bool
  an_generations :: "(str, u64) btree_map"

definition note_evidence :: "evidence_item \<Rightarrow> analysis \<Rightarrow> analysis" where
  "note_evidence i a = a\<lparr>an_evidence := bs_insert i (an_evidence a)\<rparr>"

definition analyze_identifier_pair ::
    "identity_policy \<Rightarrow> kind_compatibility \<Rightarrow> uuid \<Rightarrow> uuid \<Rightarrow>
     identifier_assertion \<Rightarrow> identifier_assertion \<Rightarrow> analysis \<Rightarrow> analysis" where
  "analyze_identifier_pair policy kc left_snapshot right_snapshot left_id right_id a =
     (if ia_namespace left_id \<noteq> ia_namespace right_id then a
      else let namespace = ia_namespace left_id;
               item = (\<lambda>k. EvidenceItem k (Some namespace) (ia_value left_id) (ia_value right_id))
        in case policy_resolver_generation policy namespace of
          None \<Rightarrow>
            (if ia_value left_id = ia_value right_id then note_evidence (item EvClaimedIdentifier) a
             else a)
        | Some required \<Rightarrow>
            (let a = a\<lparr>an_generations := bm_insert namespace required (an_generations a)\<rparr>;
                 left_verified = ev_is_current_verified left_id left_snapshot required;
                 right_verified = ev_is_current_verified right_id right_snapshot required
             in if left_verified \<and> right_verified then
                  (if ia_value left_id = ia_value right_id \<and> kc = Compatible
                   then (note_evidence (item EvVerifiedIdentifierMatch) a)\<lparr>an_proves_same := True\<rparr>
                   else if ia_value left_id \<noteq> ia_value right_id
                   then (note_evidence (item EvVerifiedIdentifierConflict) a)\<lparr>an_proves_different := True\<rparr>
                   else a)
                else if ia_value left_id = ia_value right_id
                then note_evidence (item EvClaimedIdentifier) a
                else a))"

definition encode_revision_ref :: "deps \<Rightarrow> entity_revision_ref \<Rightarrow> canonical_hasher \<Rightarrow> canonical_hasher" where
  "encode_revision_ref D value h =
     (let h = encode_address D (rv_address value) h;
          h = ch_revision_id D (rv_revision value) h
      in ch_snapshot_id D (rv_snapshot value) h)"

definition encode_evidence :: "evidence_item \<Rightarrow> canonical_hasher \<Rightarrow> canonical_hasher" where
  "encode_evidence i h =
     ch_text (ev_right i) (ch_text (ev_left i) (ch_optional_text (ev_namespace i)
       (ch_u16 (evidence_kind_u16 (ev_kind i)) h)))"

definition hash_packet ::
    "deps \<Rightarrow> entity_revision_ref \<Rightarrow> entity_revision_ref \<Rightarrow> identity_policy \<Rightarrow> (str, u64) btree_map \<Rightarrow>
     evidence_item list \<Rightarrow> deterministic_resolution \<Rightarrow> hash32" where
  "hash_packet D left right policy generations evidence resolution =
     (let h = ch_new ''openmemory/identity-packet/v1'';
          h = encode_revision_ref D left h;
          h = encode_revision_ref D right h;
          h = ch_u64 (ip_policy_generation policy) h;
          h = ch_u64 (ip_ontology_generation policy) h;
          h = ch_usize (length generations) h;
          h = fold (\<lambda>(namespace, g) h. ch_u64 g (ch_text namespace h)) generations h;
          h = ch_usize (length evidence) h;
          h = fold encode_evidence evidence h;
          h = ch_u16 (resolution_u16 resolution) h
      in ch_finish D h)"

definition lineage_step :: "entity_record \<Rightarrow> entity_record \<Rightarrow> analysis \<Rightarrow> analysis" where
  "lineage_step left right a =
     (case (er_lineage left, er_lineage right) of
        (Some l, Some r) \<Rightarrow>
          (if l = r then (note_evidence (EvidenceItem EvLineage None l r) a)\<lparr>an_proves_same := True\<rparr> else a)
      | _ \<Rightarrow> a)"

definition kind_step :: "kind_compatibility \<Rightarrow> entity_record \<Rightarrow> entity_record \<Rightarrow> analysis \<Rightarrow> analysis" where
  "kind_step kc left right a =
     (if kc = Incompatible
      then note_evidence (EvidenceItem EvKindIncompatible None
             (case er_kind left of Some k \<Rightarrow> k | None \<Rightarrow> [])
             (case er_kind right of Some k \<Rightarrow> k | None \<Rightarrow> [])) a
      else a)"

definition identifiers_step ::
    "identity_policy \<Rightarrow> kind_compatibility \<Rightarrow> uuid \<Rightarrow> uuid \<Rightarrow> entity_record \<Rightarrow> entity_record \<Rightarrow>
     analysis \<Rightarrow> analysis" where
  "identifiers_step policy kc left_snapshot right_snapshot left right a =
     fold (\<lambda>left_id. fold (\<lambda>right_id.
         analyze_identifier_pair policy kc left_snapshot right_snapshot left_id right_id)
       (er_identifiers right)) (er_identifiers left) a"

definition label_step :: "deps \<Rightarrow> entity_record \<Rightarrow> entity_record \<Rightarrow> analysis \<Rightarrow> analysis" where
  "label_step D left right a =
     (if normalize_label D (er_label left) = normalize_label D (er_label right)
      then note_evidence (EvidenceItem EvExactLabel None
             (normalize_label D (er_label left)) (normalize_label D (er_label right))) a
      else a)"

definition alias_step :: "deps \<Rightarrow> entity_record \<Rightarrow> entity_record \<Rightarrow> analysis \<Rightarrow> analysis" where
  "alias_step D left right a =
     (if list_ex (\<lambda>name. name \<in> set (normalized_names D right) \<and> name \<noteq> normalize_label D (er_label left))
           (normalized_names D left)
      then note_evidence (EvidenceItem EvAlias None (er_label left) (er_label right)) a
      else a)"

definition resolution_of :: "bool \<Rightarrow> bool \<Rightarrow> deterministic_resolution" where
  "resolution_of proves_same proves_different =
     (case (proves_same, proves_different) of
        (True, True) \<Rightarrow> ConflictingProofs
      | (True, False) \<Rightarrow> ProofSame
      | (False, True) \<Rightarrow> ProofDifferent
      | (False, False) \<Rightarrow> ReviewOrSeparate)"

definition analyze_pair ::
    "deps \<Rightarrow> entity_record \<Rightarrow> uuid \<Rightarrow> entity_record \<Rightarrow> uuid \<Rightarrow> identity_policy \<Rightarrow>
     merge_error + identity_packet" where
  "analyze_pair D left left_snapshot right right_snapshot policy =
     (if er_address left = er_address right
      then Inl (MergeError InvalidInput ''identity packet requires two distinct entity addresses'')
      else
        let left_ref = EntityRevisionRef (er_address left) (er_revision left) left_snapshot;
            right_ref = EntityRevisionRef (er_address right) (er_revision right) right_snapshot;
            a = \<lparr>an_evidence = [], an_proves_same = False, an_proves_different = False, an_generations = []\<rparr>;
            a = lineage_step left right a;
            kc = policy_kind_compatibility policy (er_kind left) (er_kind right);
            a = kind_step kc left right a;
            a = identifiers_step policy kc left_snapshot right_snapshot left right a;
            a = label_step D left right a;
            a = alias_step D left right a;
            resolution = resolution_of (an_proves_same a) (an_proves_different a);
            evidence = an_evidence a;
            hash = hash_packet D left_ref right_ref policy (an_generations a) evidence resolution
        in Inr \<lparr>pk_left = left_ref, pk_right = right_ref,
             pk_policy_generation = ip_policy_generation policy,
             pk_ontology_generation = ip_ontology_generation policy,
             pk_resolver_generations = an_generations a, pk_evidence = evidence,
             pk_resolution = resolution, pk_hash = hash\<rparr>)"

section \<open>What the flags mean\<close>

definition both_verified :: "identity_policy \<Rightarrow> uuid \<Rightarrow> uuid \<Rightarrow> identifier_assertion \<Rightarrow> identifier_assertion \<Rightarrow> bool" where
  "both_verified policy ls rs l r \<longleftrightarrow>
     ia_namespace l = ia_namespace r \<and>
     (case policy_resolver_generation policy (ia_namespace l) of
        None \<Rightarrow> False
      | Some g \<Rightarrow> ev_is_current_verified l ls g \<and> ev_is_current_verified r rs g)"

definition pair_proves_same :: "identity_policy \<Rightarrow> entity_record \<Rightarrow> uuid \<Rightarrow> entity_record \<Rightarrow> uuid \<Rightarrow> bool" where
  "pair_proves_same policy left ls right rs \<longleftrightarrow>
     (er_lineage left \<noteq> None \<and> er_lineage left = er_lineage right) \<or>
     (policy_kind_compatibility policy (er_kind left) (er_kind right) = Compatible \<and>
      (\<exists>l\<in>set (er_identifiers left). \<exists>r\<in>set (er_identifiers right).
         both_verified policy ls rs l r \<and> ia_value l = ia_value r))"

definition pair_proves_different :: "identity_policy \<Rightarrow> entity_record \<Rightarrow> uuid \<Rightarrow> entity_record \<Rightarrow> uuid \<Rightarrow> bool" where
  "pair_proves_different policy left ls right rs \<longleftrightarrow>
     (\<exists>l\<in>set (er_identifiers left). \<exists>r\<in>set (er_identifiers right).
        both_verified policy ls rs l r \<and> ia_value l \<noteq> ia_value r)"

lemma note_evidence_flags [simp]:
  "an_proves_same (note_evidence i a) = an_proves_same a"
  "an_proves_different (note_evidence i a) = an_proves_different a"
  "an_generations (note_evidence i a) = an_generations a"
  "an_evidence (note_evidence i a) = bs_insert i (an_evidence a)"
  by (simp_all add: note_evidence_def)

lemma analyze_identifier_pair_flags:
  "an_proves_same (analyze_identifier_pair policy kc ls rs l r a) \<longleftrightarrow> an_proves_same a \<or>
     (kc = Compatible \<and> both_verified policy ls rs l r \<and> ia_value l = ia_value r)"
  "an_proves_different (analyze_identifier_pair policy kc ls rs l r a) \<longleftrightarrow> an_proves_different a \<or>
     (both_verified policy ls rs l r \<and> ia_value l \<noteq> ia_value r)"
  by (auto simp: analyze_identifier_pair_def both_verified_def Let_def split: option.splits)

lemma fold_flag:
  assumes "\<And>x a. F (f x a) \<longleftrightarrow> F a \<or> P x"
  shows "F (fold f xs a) \<longleftrightarrow> F a \<or> (\<exists>x\<in>set xs. P x)"
  by (induction xs arbitrary: a) (auto simp: assms)

lemma identifiers_step_flags:
  "an_proves_same (identifiers_step policy kc ls rs left right a) \<longleftrightarrow> an_proves_same a \<or>
     (kc = Compatible \<and> (\<exists>l\<in>set (er_identifiers left). \<exists>r\<in>set (er_identifiers right).
        both_verified policy ls rs l r \<and> ia_value l = ia_value r))"
  "an_proves_different (identifiers_step policy kc ls rs left right a) \<longleftrightarrow> an_proves_different a \<or>
     (\<exists>l\<in>set (er_identifiers left). \<exists>r\<in>set (er_identifiers right).
        both_verified policy ls rs l r \<and> ia_value l \<noteq> ia_value r)"
  unfolding identifiers_step_def
  by (subst fold_flag [where F = an_proves_same and P = "\<lambda>l. \<exists>r\<in>set (er_identifiers right).
          kc = Compatible \<and> both_verified policy ls rs l r \<and> ia_value l = ia_value r"],
      rule fold_flag, rule analyze_identifier_pair_flags, blast)
    (subst fold_flag [where F = an_proves_different and P = "\<lambda>l. \<exists>r\<in>set (er_identifiers right).
          both_verified policy ls rs l r \<and> ia_value l \<noteq> ia_value r"],
      rule fold_flag, rule analyze_identifier_pair_flags, blast)

lemma analyze_pair_resolution:
  assumes "analyze_pair D left ls right rs policy = Inr p"
  shows "pk_resolution p = resolution_of (pair_proves_same policy left ls right rs)
    (pair_proves_different policy left ls right rs)"
  using assms
  by (auto simp: analyze_pair_def Let_def alias_step_def label_step_def identifiers_step_flags
      kind_step_def lineage_step_def pair_proves_same_def pair_proves_different_def
      split: if_splits option.splits)

lemma canonical_kind_pair_sym: "canonical_kind_pair a b = canonical_kind_pair b a"
  by (auto simp: canonical_kind_pair_def)

lemma kind_compatibility_sym:
  "policy_kind_compatibility p a b = policy_kind_compatibility p b a"
  by (auto simp: policy_kind_compatibility_def canonical_kind_pair_sym split: option.split)

lemma both_verified_sym: "both_verified p ls rs l r \<longleftrightarrow> both_verified p rs ls r l"
  by (auto simp: both_verified_def split: option.splits)

lemma resolution_of_eq [simp]:
  "resolution_of a b = ProofSame \<longleftrightarrow> a \<and> \<not> b" "resolution_of a b = ProofDifferent \<longleftrightarrow> \<not> a \<and> b"
  "resolution_of a b = ConflictingProofs \<longleftrightarrow> a \<and> b" "resolution_of a b = ReviewOrSeparate \<longleftrightarrow> \<not> a \<and> \<not> b"
  by (simp_all add: resolution_of_def split: bool.split)

section \<open>Properties\<close>

text \<open>
  C40. The resolution of a packet is exactly what the two revisions prove: sameness needs a shared
  lineage or two current verified identifiers of an authoritative namespace that agree between
  compatible kinds; difference needs two that disagree. Labels, aliases and claimed identifiers
  never decide.
\<close>

theorem analyze_pair_sound:
  assumes "analyze_pair D left ls right rs policy = Inr p"
  shows "(pk_resolution p = ProofSame \<longleftrightarrow>
      pair_proves_same policy left ls right rs \<and> \<not> pair_proves_different policy left ls right rs) \<and>
    (pk_resolution p = ProofDifferent \<longleftrightarrow>
      pair_proves_different policy left ls right rs \<and> \<not> pair_proves_same policy left ls right rs) \<and>
    (pk_resolution p = ConflictingProofs \<longleftrightarrow>
      pair_proves_same policy left ls right rs \<and> pair_proves_different policy left ls right rs)"
  unfolding analyze_pair_resolution [OF assms] by auto

text \<open>
  The resolution does not depend on which of the two revisions is the left one.
\<close>

theorem analyze_pair_symmetric:
  assumes "analyze_pair D left ls right rs policy = Inr p"
    and "analyze_pair D right rs left ls policy = Inr q"
  shows "pk_resolution p = pk_resolution q"
proof -
  let ?L = "set (er_identifiers left)" and ?R = "set (er_identifiers right)"
  have same: "(\<exists>l\<in>?L. \<exists>r\<in>?R. both_verified policy ls rs l r \<and> ia_value l = ia_value r) \<longleftrightarrow>
      (\<exists>l\<in>?R. \<exists>r\<in>?L. both_verified policy rs ls l r \<and> ia_value l = ia_value r)"
    unfolding both_verified_sym [of policy ls rs] by (blast intro: sym)
  have diff: "(\<exists>l\<in>?L. \<exists>r\<in>?R. both_verified policy ls rs l r \<and> ia_value l \<noteq> ia_value r) \<longleftrightarrow>
      (\<exists>l\<in>?R. \<exists>r\<in>?L. both_verified policy rs ls l r \<and> ia_value l \<noteq> ia_value r)"
    unfolding both_verified_sym [of policy ls rs] by (blast intro: sym)
  have lineage: "er_lineage left \<noteq> None \<and> er_lineage left = er_lineage right \<longleftrightarrow>
      er_lineage right \<noteq> None \<and> er_lineage right = er_lineage left"
    by metis
  have "pair_proves_same policy left ls right rs = pair_proves_same policy right rs left ls"
    unfolding pair_proves_same_def lineage same
      kind_compatibility_sym [of policy "er_kind left" "er_kind right"] by (rule refl)
  moreover have "pair_proves_different policy left ls right rs = pair_proves_different policy right rs left ls"
    unfolding pair_proves_different_def by (rule diff)
  ultimately show ?thesis
    using analyze_pair_resolution [OF assms(1)] analyze_pair_resolution [OF assms(2)] by simp
qed

end
