(* ===== verification/Om_Discovery.thy ===== *)
theory Om_Discovery
  imports Om_Evidence
begin

text \<open>
  Bounded, target-scoped candidate discovery (\<open>discovery.rs\<close>): the reference index over one target
  snapshot, the lookup for one source entity, and the receipt that binds the page of candidates.
  \<open>signals_of\<close> is the specification: the set of signals that relate two given revisions.
\<close>

definition DEFAULT_CANDIDATE_CAP :: nat where "DEFAULT_CANDIDATE_CAP = 32"
definition MAX_CANDIDATE_CAP :: nat where "MAX_CANDIDATE_CAP = 128"

datatype candidate_signal = SigLineage | SigVerifiedIdentifier | SigExactLabel | SigAlias

fun signal_u16 :: "candidate_signal \<Rightarrow> u16" where
  "signal_u16 SigLineage = 0"
| "signal_u16 SigVerifiedIdentifier = 1"
| "signal_u16 SigExactLabel = 2"
| "signal_u16 SigAlias = 3"

lemma signal_u16_inj [simp]: "signal_u16 a = signal_u16 b \<longleftrightarrow> a = b"
  by (cases a; cases b) simp_all

instantiation candidate_signal :: linorder
begin

definition less_eq_candidate_signal :: "candidate_signal \<Rightarrow> candidate_signal \<Rightarrow> bool" where
  "a \<le> b \<longleftrightarrow> signal_u16 a \<le> signal_u16 b"

definition less_candidate_signal :: "candidate_signal \<Rightarrow> candidate_signal \<Rightarrow> bool" where
  "a < b \<longleftrightarrow> signal_u16 a < signal_u16 b"

instance
  by standard
    (auto simp: less_eq_candidate_signal_def less_candidate_signal_def intro: le_neq_trans)

end

record identity_candidate =
  ic_target :: entity_revision_ref
  ic_source :: entity_revision_ref
  ic_signals :: "candidate_signal btree_set"
  ic_hash :: hash32

definition identity_candidate_new ::
    "deps \<Rightarrow> entity_revision_ref \<Rightarrow> entity_revision_ref \<Rightarrow> candidate_signal btree_set \<Rightarrow> identity_candidate" where
  "identity_candidate_new D target source signals =
     (let h = ch_new ''openmemory/identity-candidate/v1'';
          h = encode_revision_ref D target h;
          h = encode_revision_ref D source h;
          h = ch_usize (length signals) h;
          h = fold (\<lambda>signal. ch_u16 (signal_u16 signal)) signals h
      in \<lparr>ic_target = target, ic_source = source, ic_signals = signals, ic_hash = ch_finish D h\<rparr>)"

definition candidate_priority :: "identity_candidate \<Rightarrow> candidate_signal" where
  "candidate_priority c = (case ic_signals c of [] \<Rightarrow> SigAlias | s # _ \<Rightarrow> s)"

record discovery_receipt =
  dr_discovery_generation :: u64
  dr_policy_generation :: u64
  dr_source :: entity_revision_ref
  dr_candidates :: "identity_candidate list"
  dr_total_lower_bound :: u64
  dr_cap :: u16
  dr_truncated :: bool
  dr_hash :: hash32

record candidate_index =
  ci_discovery_generation :: u64
  ci_target_snapshot :: uuid
  ci_policy :: identity_policy
  ci_entities :: "(object_address, entity_record) btree_map"
  ci_lineage :: "(str, object_address) btree_multimap"
  ci_verified :: "(str \<times> str, object_address) btree_multimap"
  ci_labels :: "(str \<times> str option, object_address) btree_multimap"
  ci_aliases :: "(str \<times> str option, object_address) btree_multimap"

definition di_is_current_verified :: "assertion_trust \<Rightarrow> uuid \<Rightarrow> u64 option \<Rightarrow> bool" where
  "di_is_current_verified trust snapshot required_generation =
     (case (trust, required_generation) of
        (SourceVerified s v g, Some required) \<Rightarrow> s = snapshot \<and> g = required
      | _ \<Rightarrow> False)"

text \<open>The assertions of an entity that are verified for a snapshot under the policy.\<close>

definition verified_pair :: "identity_policy \<Rightarrow> uuid \<Rightarrow> identifier_assertion \<Rightarrow> bool" where
  "verified_pair policy snapshot i =
     di_is_current_verified (ia_trust i) snapshot (policy_resolver_generation policy (ia_namespace i))"

section \<open>Building the index\<close>

definition index_identifier ::
    "identity_policy \<Rightarrow> uuid \<Rightarrow> object_address \<Rightarrow> identifier_assertion \<Rightarrow>
     (str \<times> str, object_address) btree_multimap \<Rightarrow> (str \<times> str, object_address) btree_multimap" where
  "index_identifier policy snapshot address i m =
     (if verified_pair policy snapshot i then mm_insert (ia_namespace i, ia_value i) address m else m)"

fun index_entities ::
    "deps \<Rightarrow> entity_record list \<Rightarrow> candidate_index \<Rightarrow> merge_error + candidate_index" where
  "index_entities D [] index = Inr index"
| "index_entities D (entity # entities) index =
     (let address = er_address entity in
      if bm_contains (ci_entities index) address
      then Inl (MergeError DuplicateInput ''candidate index entity is duplicated'')
      else
        let kind = er_kind entity;
            lineage = (case er_lineage entity of None \<Rightarrow> ci_lineage index
                       | Some l \<Rightarrow> mm_insert l address (ci_lineage index));
            verified = fold (index_identifier (ci_policy index) (ci_target_snapshot index) address)
                         (er_identifiers entity) (ci_verified index);
            labels = mm_insert (normalize_label D (er_label entity), kind) address (ci_labels index);
            aliases = fold (\<lambda>alias. mm_insert (normalize_label D alias, kind) address)
                        (er_aliases entity) (ci_aliases index)
        in index_entities D entities (index\<lparr>ci_lineage := lineage, ci_verified := verified,
             ci_labels := labels, ci_aliases := aliases,
             ci_entities := bm_insert address entity (ci_entities index)\<rparr>))"

definition candidate_index_build ::
    "deps \<Rightarrow> u64 \<Rightarrow> uuid \<Rightarrow> identity_policy \<Rightarrow> entity_record list \<Rightarrow> merge_error + candidate_index" where
  "candidate_index_build D discovery_generation target_snapshot policy entities =
     (if discovery_generation = 0
      then Inl (MergeError InvalidInput ''discovery generation must be positive'')
      else index_entities D entities \<lparr>ci_discovery_generation = discovery_generation,
        ci_target_snapshot = target_snapshot, ci_policy = policy, ci_entities = [],
        ci_lineage = [], ci_verified = [], ci_labels = [], ci_aliases = []\<rparr>)"

definition candidate_index_target :: "candidate_index \<Rightarrow> object_address \<Rightarrow> entity_record option" where
  "candidate_index_target index address = bm_get (ci_entities index) address"

section \<open>Discovering candidates\<close>

definition add_matches ::
    "object_address btree_set option \<Rightarrow> candidate_signal \<Rightarrow>
     (object_address, candidate_signal) btree_multimap \<Rightarrow>
     (object_address, candidate_signal) btree_multimap" where
  "add_matches matches signal output =
     (case matches of None \<Rightarrow> output
      | Some addresses \<Rightarrow> fold (\<lambda>address. mm_insert address signal) addresses output)"

definition hash_discovery ::
    "deps \<Rightarrow> u64 \<Rightarrow> u64 \<Rightarrow> entity_revision_ref \<Rightarrow> identity_candidate list \<Rightarrow> u64 \<Rightarrow> u16 \<Rightarrow> bool \<Rightarrow> hash32" where
  "hash_discovery D discovery_generation policy_generation source candidates total_lower_bound cap truncated =
     (let h = ch_new ''openmemory/discovery-receipt/v1'';
          h = ch_u64 discovery_generation h;
          h = ch_u64 policy_generation h;
          h = encode_revision_ref D source h;
          h = ch_usize (length candidates) h;
          h = fold (\<lambda>candidate. ch_hash (ic_hash candidate)) candidates h;
          h = ch_u64 total_lower_bound h;
          h = ch_u16 cap h;
          h = ch_bool truncated h
      in ch_finish D h)"

definition match_identifier ::
    "candidate_index \<Rightarrow> uuid \<Rightarrow> identifier_assertion \<Rightarrow>
     (object_address, candidate_signal) btree_multimap \<Rightarrow>
     (object_address, candidate_signal) btree_multimap" where
  "match_identifier index src_snapshot i m =
     (if verified_pair (ci_policy index) src_snapshot i
      then add_matches (bm_get (ci_verified index) (ia_namespace i, ia_value i)) SigVerifiedIdentifier m
      else m)"

definition match_alias ::
    "deps \<Rightarrow> candidate_index \<Rightarrow> str option \<Rightarrow> str \<Rightarrow>
     (object_address, candidate_signal) btree_multimap \<Rightarrow>
     (object_address, candidate_signal) btree_multimap" where
  "match_alias D index kind alias m =
     (let key = (normalize_label D alias, kind);
          m = add_matches (bm_get (ci_labels index) key) SigAlias m
      in add_matches (bm_get (ci_aliases index) key) SigAlias m)"

definition discovery_matches ::
    "deps \<Rightarrow> candidate_index \<Rightarrow> entity_record \<Rightarrow> uuid \<Rightarrow>
     (object_address, candidate_signal) btree_multimap" where
  "discovery_matches D index source src_snapshot =
     (let kind = er_kind source;
          m = (case er_lineage source of None \<Rightarrow> []
               | Some l \<Rightarrow> add_matches (bm_get (ci_lineage index) l) SigLineage []);
          m = fold (match_identifier index src_snapshot) (er_identifiers source) m;
          m = add_matches (bm_get (ci_labels index) (normalize_label D (er_label source), kind)) SigExactLabel m
      in fold (match_alias D index kind) (er_aliases source) m)"

definition candidate_of ::
    "deps \<Rightarrow> candidate_index \<Rightarrow> entity_revision_ref \<Rightarrow> object_address \<times> candidate_signal btree_set \<Rightarrow>
     identity_candidate option" where
  "candidate_of D index source_ref m =
     (case bm_get (ci_entities index) (fst m) of None \<Rightarrow> None
      | Some target \<Rightarrow> Some (identity_candidate_new D
          (EntityRevisionRef (er_address target) (er_revision target) (ci_target_snapshot index))
          source_ref (snd m)))"

definition candidate_rank :: "identity_candidate \<Rightarrow> candidate_signal \<times> object_address" where
  "candidate_rank c = (candidate_priority c, rv_address (ic_target c))"

definition discover ::
    "deps \<Rightarrow> candidate_index \<Rightarrow> entity_record \<Rightarrow> uuid \<Rightarrow> nat \<Rightarrow> merge_error + discovery_receipt" where
  "discover D index source src_snapshot cap =
     (if cap = 0 \<or> cap > MAX_CANDIDATE_CAP
      then Inl (MergeError BoundExceeded ''candidate cap must be within 1..=128'')
      else
        let matches = discovery_matches D index source src_snapshot;
            source_ref = EntityRevisionRef (er_address source) (er_revision source) src_snapshot;
            total_lower_bound = u64_of_usize (length matches);
            candidates = sort_key candidate_rank (List.map_filter (candidate_of D index source_ref) matches);
            truncated = (length candidates > cap);
            candidates = take cap candidates;
            cap16 = of_nat cap;
            hash = hash_discovery D (ci_discovery_generation index)
                     (ip_policy_generation (ci_policy index)) source_ref candidates total_lower_bound
                     cap16 truncated
        in Inr \<lparr>dr_discovery_generation = ci_discovery_generation index,
             dr_policy_generation = ip_policy_generation (ci_policy index),
             dr_source = source_ref, dr_candidates = candidates,
             dr_total_lower_bound = total_lower_bound, dr_cap = cap16,
             dr_truncated = truncated, dr_hash = hash\<rparr>)"

section \<open>The signals between two revisions\<close>

definition signal_holds ::
    "deps \<Rightarrow> identity_policy \<Rightarrow> entity_record \<Rightarrow> uuid \<Rightarrow> entity_record \<Rightarrow> uuid \<Rightarrow> candidate_signal \<Rightarrow> bool" where
  "signal_holds D policy target ts source ss signal =
     (case signal of
        SigLineage \<Rightarrow> er_lineage source \<noteq> None \<and> er_lineage target = er_lineage source
      | SigVerifiedIdentifier \<Rightarrow>
          (\<exists>i\<in>set (er_identifiers source). \<exists>j\<in>set (er_identifiers target).
             verified_pair policy ss i \<and> verified_pair policy ts j \<and>
             ia_namespace i = ia_namespace j \<and> ia_value i = ia_value j)
      | SigExactLabel \<Rightarrow> er_kind target = er_kind source \<and>
          normalize_label D (er_label target) = normalize_label D (er_label source)
      | SigAlias \<Rightarrow> er_kind target = er_kind source \<and>
          (\<exists>alias\<in>set (er_aliases source). normalize_label D alias \<in>
             normalize_label D ` insert (er_label target) (set (er_aliases target))))"

definition signals_of ::
    "deps \<Rightarrow> identity_policy \<Rightarrow> entity_record \<Rightarrow> uuid \<Rightarrow> entity_record \<Rightarrow> uuid \<Rightarrow> candidate_signal set" where
  "signals_of D policy target ts source ss = {s. signal_holds D policy target ts source ss s}"

section \<open>The index invariant\<close>

definition indexed :: "candidate_index \<Rightarrow> (entity_record \<Rightarrow> bool) \<Rightarrow> object_address set" where
  "indexed index P = {a. \<exists>e. bm_get (ci_entities index) a = Some e \<and> P e}"

definition has_verified :: "identity_policy \<Rightarrow> uuid \<Rightarrow> str \<times> str \<Rightarrow> entity_record \<Rightarrow> bool" where
  "has_verified policy snapshot k e \<longleftrightarrow> (\<exists>i\<in>set (er_identifiers e).
     verified_pair policy snapshot i \<and> (ia_namespace i, ia_value i) = k)"

definition has_label :: "deps \<Rightarrow> str \<times> str option \<Rightarrow> entity_record \<Rightarrow> bool" where
  "has_label D k e \<longleftrightarrow> (normalize_label D (er_label e), er_kind e) = k"

definition has_alias :: "deps \<Rightarrow> str \<times> str option \<Rightarrow> entity_record \<Rightarrow> bool" where
  "has_alias D k e \<longleftrightarrow> (\<exists>alias\<in>set (er_aliases e). (normalize_label D alias, er_kind e) = k)"

definition index_ok :: "deps \<Rightarrow> candidate_index \<Rightarrow> bool" where
  "index_ok D x \<longleftrightarrow> bm_ok (ci_entities x) \<and>
     (\<forall>a e. bm_get (ci_entities x) a = Some e \<longrightarrow> er_address e = a) \<and>
     (\<forall>k. set (mm_get (ci_lineage x) k) = indexed x (\<lambda>e. er_lineage e = Some k)) \<and>
     (\<forall>k. set (mm_get (ci_verified x) k) =
        indexed x (has_verified (ci_policy x) (ci_target_snapshot x) k)) \<and>
     (\<forall>k. set (mm_get (ci_labels x) k) = indexed x (has_label D k)) \<and>
     (\<forall>k. set (mm_get (ci_aliases x) k) = indexed x (has_alias D k))"

lemma index_okD:
  assumes "index_ok D x"
  shows "bm_ok (ci_entities x)" "bm_get (ci_entities x) a = Some e \<Longrightarrow> er_address e = a"
    "set (mm_get (ci_lineage x) l) = indexed x (\<lambda>e. er_lineage e = Some l)"
    "set (mm_get (ci_verified x) v) = indexed x (has_verified (ci_policy x) (ci_target_snapshot x) v)"
    "set (mm_get (ci_labels x) k) = indexed x (has_label D k)"
    "set (mm_get (ci_aliases x) k) = indexed x (has_alias D k)"
  using assms unfolding index_ok_def by blast+

lemma mm_fold_key_insert: "set (mm_get (fold (\<lambda>x. if P x then mm_insert (g x) v else id) xs m) k) =
    set (mm_get m k) \<union> (if \<exists>x\<in>set xs. P x \<and> g x = k then {v} else {})"
  by (induction xs arbitrary: m) auto

lemma index_identifiers_get:
  "set (mm_get (fold (index_identifier policy snapshot a) is m) k) = set (mm_get m k) \<union>
     (if \<exists>i\<in>set is. verified_pair policy snapshot i \<and> (ia_namespace i, ia_value i) = k then {a} else {})"
proof -
  have "index_identifier policy snapshot a =
      (\<lambda>i. if verified_pair policy snapshot i then mm_insert (ia_namespace i, ia_value i) a else id)"
    by (auto simp: index_identifier_def fun_eq_iff)
  then show ?thesis by (simp only: mm_fold_key_insert)
qed

lemma index_aliases_get:
  "set (mm_get (fold (\<lambda>alias. mm_insert (normalize_label D alias, kind) a) as m) k) =
     set (mm_get m k) \<union> (if \<exists>alias\<in>set as. (normalize_label D alias, kind) = k then {a} else {})"
  using mm_fold_key_insert [of "\<lambda>_. True" "\<lambda>alias. (normalize_label D alias, kind)" a as m k] by simp

lemma indexed_insert:
  assumes "\<not> bm_contains (ci_entities x) (er_address e)"
    and "ci_entities y = bm_insert (er_address e) e (ci_entities x)"
  shows "indexed y P = indexed x P \<union> (if P e then {er_address e} else {})"
  using assms by (auto simp: indexed_def bm_contains_def split: if_splits)

lemma index_entities_ok:
  assumes "index_entities D es x = Inr y" "index_ok D x"
  shows "index_ok D y \<and> ci_policy y = ci_policy x \<and> ci_target_snapshot y = ci_target_snapshot x \<and>
    ci_discovery_generation y = ci_discovery_generation x \<and>
    (\<forall>a. bm_get (ci_entities y) a =
       (case map_of (map (\<lambda>e. (er_address e, e)) es) a of Some e \<Rightarrow> Some e | None \<Rightarrow> bm_get (ci_entities x) a)) \<and>
    distinct (map er_address es) \<and> (\<forall>e\<in>set es. \<not> bm_contains (ci_entities x) (er_address e))"
  using assms
proof (induction es arbitrary: x)
  case Nil
  then show ?case by simp
next
  case (Cons e es)
  let ?a = "er_address e"
  define z where "z = x\<lparr>ci_lineage := (case er_lineage e of None \<Rightarrow> ci_lineage x
        | Some l \<Rightarrow> mm_insert l ?a (ci_lineage x)),
      ci_verified := fold (index_identifier (ci_policy x) (ci_target_snapshot x) ?a)
        (er_identifiers e) (ci_verified x),
      ci_labels := mm_insert (normalize_label D (er_label e), er_kind e) ?a (ci_labels x),
      ci_aliases := fold (\<lambda>alias. mm_insert (normalize_label D alias, er_kind e) ?a)
        (er_aliases e) (ci_aliases x),
      ci_entities := bm_insert ?a e (ci_entities x)\<rparr>"
  from Cons.prems(1) have fresh: "\<not> bm_contains (ci_entities x) ?a"
    and rest: "index_entities D es z = Inr y"
    by (simp_all add: z_def Let_def split: if_splits)
  have ins: "indexed z P = indexed x P \<union> (if P e then {?a} else {})" for P
    by (rule indexed_insert [OF fresh]) (simp add: z_def)
  have keep: "ci_policy z = ci_policy x" "ci_target_snapshot z = ci_target_snapshot x"
    "ci_discovery_generation z = ci_discovery_generation x"
    "ci_entities z = bm_insert ?a e (ci_entities x)"
    by (simp_all add: z_def)
  have "index_ok D z"
    unfolding index_ok_def
  proof (intro conjI allI)
    show "bm_ok (ci_entities z)" using Cons.prems(2) by (simp add: keep index_ok_def)
    show "bm_get (ci_entities z) a = Some e' \<longrightarrow> er_address e' = a" for a e'
      using Cons.prems(2) by (auto simp: keep index_ok_def)
    show "set (mm_get (ci_lineage z) k) = indexed z (\<lambda>e. er_lineage e = Some k)" for k
      unfolding ins
      by (auto simp: z_def index_okD [OF Cons.prems(2)] split: option.split if_splits)
    show "set (mm_get (ci_verified z) k) = indexed z (has_verified (ci_policy z) (ci_target_snapshot z) k)" for k
      unfolding ins keep
      by (simp add: z_def index_okD [OF Cons.prems(2)] index_identifiers_get has_verified_def)
    show "set (mm_get (ci_labels z) k) = indexed z (has_label D k)" for k
      unfolding ins
      by (auto simp: z_def index_okD [OF Cons.prems(2)] has_label_def split: if_splits)
    show "set (mm_get (ci_aliases z) k) = indexed z (has_alias D k)" for k
      unfolding ins
      by (simp add: z_def index_okD [OF Cons.prems(2)] index_aliases_get has_alias_def)
  qed
  note IH = Cons.IH [OF rest this, unfolded keep]
  have others: "\<forall>e'\<in>set es. er_address e' \<noteq> ?a \<and> \<not> bm_contains (ci_entities x) (er_address e')"
    using IH by simp
  then have new: "map_of (map (\<lambda>e. (er_address e, e)) es) ?a = None"
    by (auto simp: map_of_eq_None_iff)
  have get: "bm_get (ci_entities y) a = (case map_of (map (\<lambda>e. (er_address e, e)) (e # es)) a of
      Some e \<Rightarrow> Some e | None \<Rightarrow> bm_get (ci_entities x) a)" for a
    using IH new by (cases "a = ?a") (auto split: option.split)
  have "?a \<notin> er_address ` set es" using others by auto
  then show ?case using IH get fresh others by simp
qed

lemma candidate_index_build_ok:
  assumes "candidate_index_build D gen ts policy es = Inr index"
  shows "index_ok D index" "ci_policy index = policy" "ci_target_snapshot index = ts"
    "bm_get (ci_entities index) a = map_of (map (\<lambda>e. (er_address e, e)) es) a"
    "distinct (map er_address es)"
proof -
  define x where "x = \<lparr>ci_discovery_generation = gen, ci_target_snapshot = ts, ci_policy = policy,
    ci_entities = [], ci_lineage = [], ci_verified = [], ci_labels = [], ci_aliases = []\<rparr>"
  have build: "index_entities D es x = Inr index"
    using assms by (simp add: candidate_index_build_def x_def split: if_splits)
  have "index_ok D x"
    by (simp add: index_ok_def indexed_def x_def)
  note res = index_entities_ok [OF build this]
  show "index_ok D index" "ci_policy index = policy" "ci_target_snapshot index = ts"
    "distinct (map er_address es)"
    using res by (simp_all add: x_def)
  show "bm_get (ci_entities index) a = map_of (map (\<lambda>e. (er_address e, e)) es) a"
    using res by (simp add: x_def split: option.split)
qed

section \<open>The matches\<close>

lemma add_matches_get:
  assumes "mm_ok m"
  shows "mm_ok (add_matches ms s m)"
    and "set (mm_get (add_matches ms s m) a) =
      set (mm_get m a) \<union> (if a \<in> set (case ms of None \<Rightarrow> [] | Some as \<Rightarrow> as) then {s} else {})"
  using mm_fold_insert_keys [OF assms, of s] by (auto simp: add_matches_def assms split: option.split)

lemma match_identifiers_get:
  "mm_ok m \<Longrightarrow> mm_ok (fold (match_identifier x ss) is m) \<and>
   set (mm_get (fold (match_identifier x ss) is m) a) = set (mm_get m a) \<union>
     (if \<exists>i\<in>set is. verified_pair (ci_policy x) ss i \<and>
         a \<in> set (mm_get (ci_verified x) (ia_namespace i, ia_value i))
      then {SigVerifiedIdentifier} else {})"
proof (induction "is" arbitrary: m)
  case Nil
  then show ?case by simp
next
  case (Cons i "is")
  show ?case
    using Cons.IH [of "match_identifier x ss i m"] add_matches_get [OF Cons.prems]
    by (auto simp: match_identifier_def mm_get_def [of "ci_verified x"] Cons.prems)
qed

lemma match_aliases_get:
  "mm_ok m \<Longrightarrow> mm_ok (fold (match_alias D x kind) als m) \<and>
   set (mm_get (fold (match_alias D x kind) als m) a) = set (mm_get m a) \<union>
     (if \<exists>name\<in>set als. a \<in> set (mm_get (ci_labels x) (normalize_label D name, kind)) \<union>
         set (mm_get (ci_aliases x) (normalize_label D name, kind))
      then {SigAlias} else {})"
proof (induction als arbitrary: m)
  case Nil
  then show ?case by simp
next
  case (Cons name als)
  have "mm_ok (match_alias D x kind name m)"
    by (simp add: match_alias_def Let_def add_matches_get Cons.prems)
  then show ?case
    using Cons.IH [of "match_alias D x kind name m"]
    by (auto simp: match_alias_def Let_def add_matches_get Cons.prems
        mm_get_def [of "ci_labels x"] mm_get_def [of "ci_aliases x"])
qed

text \<open>The matches of a source are the indexed entities, each with its signals.\<close>

lemma discovery_matches_get:
  assumes "index_ok D x"
  shows "mm_ok (discovery_matches D x source ss)"
    and "set (mm_get (discovery_matches D x source ss) a) =
      (case bm_get (ci_entities x) a of None \<Rightarrow> {}
       | Some e \<Rightarrow> signals_of D (ci_policy x) e (ci_target_snapshot x) source ss)"
proof -
  note ok = index_okD [OF assms]
  define m0 where "m0 = (case er_lineage source of None \<Rightarrow> []
      | Some l \<Rightarrow> add_matches (bm_get (ci_lineage x) l) SigLineage [])"
  have m0: "mm_ok m0" "set (mm_get m0 a) = (if \<exists>l. er_lineage source = Some l \<and> a \<in> set (mm_get (ci_lineage x) l)
      then {SigLineage} else {})" for a
    using add_matches_get(1) [of "[]" "bm_get (ci_lineage x) l" SigLineage for l]
      add_matches_get(2) [of "[]" "bm_get (ci_lineage x) l" SigLineage a for l]
    by (cases "er_lineage source"; simp add: m0_def mm_get_def [of "ci_lineage x"])+
  define m1 where "m1 = fold (match_identifier x ss) (er_identifiers source) m0"
  note m1 = match_identifiers_get [OF m0(1), of x ss "er_identifiers source", folded m1_def]
  define m2 where "m2 = add_matches (bm_get (ci_labels x) (normalize_label D (er_label source), er_kind source)) SigExactLabel m1"
  note m2 = add_matches_get [of m1 "bm_get (ci_labels x) (normalize_label D (er_label source), er_kind source)" SigExactLabel,
      folded m2_def mm_get_def]
  have m: "discovery_matches D x source ss = fold (match_alias D x (er_kind source)) (er_aliases source) m2"
    by (simp add: discovery_matches_def Let_def m0_def m1_def m2_def)
  note m3 = match_aliases_get [of m2 D x "er_kind source" "er_aliases source", folded m]
  show "mm_ok (discovery_matches D x source ss)" using m1 m2 m3 by blast
  have "set (mm_get (discovery_matches D x source ss) a) =
     {s. s = SigLineage \<and> (\<exists>l. er_lineage source = Some l \<and> a \<in> indexed x (\<lambda>e. er_lineage e = Some l))} \<union>
     {s. s = SigVerifiedIdentifier \<and> (\<exists>i\<in>set (er_identifiers source). verified_pair (ci_policy x) ss i \<and>
        a \<in> indexed x (has_verified (ci_policy x) (ci_target_snapshot x) (ia_namespace i, ia_value i)))} \<union>
     {s. s = SigExactLabel \<and> a \<in> indexed x (has_label D (normalize_label D (er_label source), er_kind source))} \<union>
     {s. s = SigAlias \<and> (\<exists>alias\<in>set (er_aliases source).
        a \<in> indexed x (has_label D (normalize_label D alias, er_kind source)) \<union>
          indexed x (has_alias D (normalize_label D alias, er_kind source)))}"
    using m1 m2 m3 m0(2) by (auto simp: ok)
  also have "\<dots> = (case bm_get (ci_entities x) a of None \<Rightarrow> {}
       | Some e \<Rightarrow> signals_of D (ci_policy x) e (ci_target_snapshot x) source ss)"
  proof (cases "bm_get (ci_entities x) a")
    case None
    then show ?thesis by (simp add: indexed_def)
  next
    case (Some e)
    let ?holds = "signal_holds D (ci_policy x) e (ci_target_snapshot x) source ss"
    have "?holds SigLineage \<longleftrightarrow> (\<exists>l. er_lineage source = Some l \<and> er_lineage e = Some l)"
      by (auto simp: signal_holds_def)
    moreover have "?holds SigVerifiedIdentifier \<longleftrightarrow> (\<exists>i\<in>set (er_identifiers source). verified_pair (ci_policy x) ss i \<and>
        has_verified (ci_policy x) (ci_target_snapshot x) (ia_namespace i, ia_value i) e)"
      by (simp add: signal_holds_def has_verified_def) metis
    moreover have "?holds SigExactLabel \<longleftrightarrow> has_label D (normalize_label D (er_label source), er_kind source) e"
      by (auto simp: signal_holds_def has_label_def)
    moreover have "?holds SigAlias \<longleftrightarrow> (\<exists>alias\<in>set (er_aliases source).
        has_label D (normalize_label D alias, er_kind source) e \<or>
        has_alias D (normalize_label D alias, er_kind source) e)"
      by (simp add: signal_holds_def has_label_def has_alias_def image_iff) metis
    ultimately have "s \<in> signals_of D (ci_policy x) e (ci_target_snapshot x) source ss \<longleftrightarrow>
        (s = SigLineage \<and> (\<exists>l. er_lineage source = Some l \<and> er_lineage e = Some l)) \<or>
        (s = SigVerifiedIdentifier \<and> (\<exists>i\<in>set (er_identifiers source). verified_pair (ci_policy x) ss i \<and>
          has_verified (ci_policy x) (ci_target_snapshot x) (ia_namespace i, ia_value i) e)) \<or>
        (s = SigExactLabel \<and> has_label D (normalize_label D (er_label source), er_kind source) e) \<or>
        (s = SigAlias \<and> (\<exists>alias\<in>set (er_aliases source).
          has_label D (normalize_label D alias, er_kind source) e \<or>
          has_alias D (normalize_label D alias, er_kind source) e))" for s
      by (cases s) (simp_all add: signals_of_def)
    then show ?thesis by (auto simp: Some indexed_def)
  qed
  finally show "set (mm_get (discovery_matches D x source ss) a) = \<dots>" .
qed

section \<open>The receipt\<close>

definition candidate_for ::
    "deps \<Rightarrow> identity_policy \<Rightarrow> uuid \<Rightarrow> entity_record \<Rightarrow> uuid \<Rightarrow> entity_record \<Rightarrow> identity_candidate \<Rightarrow> bool" where
  "candidate_for D policy ts source ss e c \<longleftrightarrow>
     ic_target c = EntityRevisionRef (er_address e) (er_revision e) ts \<and>
     ic_source c = EntityRevisionRef (er_address source) (er_revision source) ss \<and>
     set (ic_signals c) = signals_of D policy e ts source ss \<and>
     candidate_rank c = (Min (signals_of D policy e ts source ss), er_address e)"

definition related :: "deps \<Rightarrow> identity_policy \<Rightarrow> uuid \<Rightarrow> entity_record \<Rightarrow> uuid \<Rightarrow> entity_record \<Rightarrow> bool" where
  "related D policy ts source ss e \<longleftrightarrow> signals_of D policy e ts source ss \<noteq> {}"

lemma map_filter_total: "(\<And>x. x \<in> set xs \<Longrightarrow> f x \<noteq> None) \<Longrightarrow> List.map_filter f xs = map (\<lambda>x. the (f x)) xs"
proof (induction xs)
  case Nil
  then show ?case by (simp add: List.map_filter_simps)
next
  case (Cons x xs)
  obtain y where "f x = Some y" using Cons.prems [of x] by auto
  then show ?case using Cons by (simp add: List.map_filter_simps)
qed

lemma bs_ok_hd_Min: "bs_ok (x # xs) \<Longrightarrow> Min (set (x # xs)) = x"
  by (intro Min_eqI) (auto simp: bs_ok_def less_imp_le)

lemma identity_candidate_new_simps [simp]:
  "ic_target (identity_candidate_new D t s g) = t" "ic_source (identity_candidate_new D t s g) = s"
  "ic_signals (identity_candidate_new D t s g) = g"
  by (simp_all add: identity_candidate_new_def Let_def)

definition source_ref :: "entity_record \<Rightarrow> uuid \<Rightarrow> entity_revision_ref" where
  "source_ref source ss = EntityRevisionRef (er_address source) (er_revision source) ss"

definition all_candidates :: "deps \<Rightarrow> candidate_index \<Rightarrow> entity_record \<Rightarrow> uuid \<Rightarrow> identity_candidate list" where
  "all_candidates D x source ss =
     List.map_filter (candidate_of D x (source_ref source ss)) (discovery_matches D x source ss)"

lemma built_get:
  assumes built: "candidate_index_build D gen ts policy es = Inr x"
  shows "bm_get (ci_entities x) a = Some e \<longleftrightarrow> e \<in> set es \<and> er_address e = a"
  using candidate_index_build_ok(4,5) [OF built]
  by (subst candidate_index_build_ok(4) [OF built]) (auto simp: comp_def)

lemma matched:
  assumes built: "candidate_index_build D gen ts policy es = Inr x"
  shows "(a, g) \<in> set (discovery_matches D x source ss) \<longleftrightarrow> bs_ok g \<and>
    (\<exists>e\<in>set es. er_address e = a \<and> set g = signals_of D policy e ts source ss \<and> related D policy ts source ss e)"
proof -
  note m = discovery_matches_get [OF candidate_index_build_ok(1) [OF built], of source ss]
  note sel = candidate_index_build_ok(2,3) [OF built]
  have "(a, g) \<in> set (discovery_matches D x source ss) \<longleftrightarrow>
      bs_ok g \<and> g \<noteq> [] \<and> set g = set (mm_get (discovery_matches D x source ss) a)"
    using mm_ok_get [OF m(1), of a] mm_entry [OF m(1), of a g] bs_ext by auto
  also have "\<dots> \<longleftrightarrow> bs_ok g \<and> (\<exists>e\<in>set es. er_address e = a \<and>
      set g = signals_of D policy e ts source ss \<and> related D policy ts source ss e)"
  proof (cases "bm_get (ci_entities x) a")
    case None
    then have "\<forall>e\<in>set es. er_address e \<noteq> a" using built_get [OF built, of a] by (metis option.distinct(1))
    then show ?thesis unfolding m(2) related_def sel by (auto simp: None)
  next
    case (Some e)
    then have "e \<in> set es \<and> er_address e = a" "\<forall>e'\<in>set es. er_address e' = a \<longrightarrow> e' = e"
      using built_get [OF built, of a] by (simp, metis option.inject)
    then show ?thesis unfolding m(2) related_def sel Some by auto
  qed
  finally show ?thesis .
qed

lemma candidate_of_matched:
  assumes built: "candidate_index_build D gen ts policy es = Inr x"
    and "(a, g) \<in> set (discovery_matches D x source ss)"
  obtains e c where "e \<in> set es" "er_address e = a" "related D policy ts source ss e"
    "candidate_of D x (source_ref source ss) (a, g) = Some c" "candidate_for D policy ts source ss e c"
proof -
  from assms obtain e where e: "bs_ok g" "e \<in> set es" "er_address e = a"
      "set g = signals_of D policy e ts source ss" "related D policy ts source ss e"
    unfolding matched [OF built] by blast
  define c where "c = identity_candidate_new D (EntityRevisionRef (er_address e) (er_revision e) ts) (source_ref source ss) g"
  have "bm_get (ci_entities x) a = Some e" using built_get [OF built] e by blast
  then have of: "candidate_of D x (source_ref source ss) (a, g) = Some c"
    by (simp add: candidate_of_def c_def candidate_index_build_ok(3) [OF built])
  obtain y ys where g: "g = y # ys" using e(4,5) by (cases g) (auto simp: related_def)
  have "candidate_rank c = (Min (set g), er_address e)"
    using e(1) bs_ok_hd_Min [of y ys] by (simp add: candidate_rank_def candidate_priority_def c_def g)
  then have "candidate_for D policy ts source ss e c"
    by (simp add: candidate_for_def c_def e(4) source_ref_def)
  with that of e show thesis by blast
qed

lemma all_candidates_map:
  assumes built: "candidate_index_build D gen ts policy es = Inr x"
  shows "all_candidates D x source ss = map (\<lambda>m. the (candidate_of D x (source_ref source ss) m)) (discovery_matches D x source ss)"
  unfolding all_candidates_def
  by (rule map_filter_total) (auto elim!: candidate_of_matched [OF built])

lemma all_candidates_sound:
  assumes built: "candidate_index_build D gen ts policy es = Inr x"
  shows "c \<in> set (all_candidates D x source ss) \<Longrightarrow>
    \<exists>e\<in>set es. related D policy ts source ss e \<and> candidate_for D policy ts source ss e c"
  by (auto simp: all_candidates_map [OF built] elim!: candidate_of_matched [OF built])

lemma all_candidates_complete:
  assumes built: "candidate_index_build D gen ts policy es = Inr x"
    and "e \<in> set es" "related D policy ts source ss e"
  shows "\<exists>c\<in>set (all_candidates D x source ss). candidate_for D policy ts source ss e c"
proof -
  let ?s = "signals_of D policy e ts source ss"
  have "finite ?s" by (rule finite_subset [of _ "{SigLineage, SigVerifiedIdentifier, SigExactLabel, SigAlias}"])
      (auto intro: candidate_signal.exhaust)
  then obtain g where g: "set g = ?s" using finite_list by blast
  have "(er_address e, bs_of_list g) \<in> set (discovery_matches D x source ss)"
    unfolding matched [OF built] using assms g by auto
  then obtain e' c where c: "e' \<in> set es" "er_address e' = er_address e"
      "candidate_of D x (source_ref source ss) (er_address e, bs_of_list g) = Some c" "candidate_for D policy ts source ss e' c"
    by (rule candidate_of_matched [OF built])
  have "e' = e" using built_get [OF built] c(1,2) assms(2) by (metis option.inject)
  moreover have "c \<in> set (all_candidates D x source ss)"
    unfolding all_candidates_map [OF built]
    using c(3) \<open>(er_address e, bs_of_list g) \<in> set (discovery_matches D x source ss)\<close>
    by (force simp: image_iff)
  ultimately show ?thesis using c(4) by blast
qed

lemma all_candidates_addresses:
  assumes built: "candidate_index_build D gen ts policy es = Inr x"
  shows "map (\<lambda>c. rv_address (ic_target c)) (all_candidates D x source ss) = map fst (discovery_matches D x source ss)"
proof -
  have "rv_address (ic_target (the (candidate_of D x (source_ref source ss) m))) = fst m"
    if "m \<in> set (discovery_matches D x source ss)" for m
  proof -
    obtain a g where m: "m = (a, g)" by (cases m)
    with that have "(a, g) \<in> set (discovery_matches D x source ss)" by simp
    from candidate_of_matched [OF built this] obtain e c
      where "er_address e = a" "candidate_of D x (source_ref source ss) (a, g) = Some c"
        "candidate_for D policy ts source ss e c" by metis
    then show ?thesis by (simp add: m candidate_for_def)
  qed
  then show ?thesis unfolding all_candidates_map [OF built] by (simp add: comp_def)
qed

lemma all_candidates_distinct:
  assumes built: "candidate_index_build D gen ts policy es = Inr x"
  shows "distinct (map (\<lambda>c. rv_address (ic_target c)) (all_candidates D x source ss))"
  using discovery_matches_get(1) [OF candidate_index_build_ok(1) [OF built], of source ss]
  unfolding all_candidates_addresses [OF built] by (simp add: mm_ok_def bm_ok_def strict_sorted_iff)

lemma length_all_candidates:
  assumes built: "candidate_index_build D gen ts policy es = Inr x"
  shows "length (all_candidates D x source ss) = length (filter (related D policy ts source ss) es)"
proof -
  have "set (map (\<lambda>c. rv_address (ic_target c)) (all_candidates D x source ss)) =
      set (map er_address (filter (related D policy ts source ss) es))"
  proof (rule set_eqI iffI)+
    fix a
    assume "a \<in> set (map (\<lambda>c. rv_address (ic_target c)) (all_candidates D x source ss))"
    then obtain c where "c \<in> set (all_candidates D x source ss)" "a = rv_address (ic_target c)"
      by auto
    with all_candidates_sound [OF built, of c source ss]
    show "a \<in> set (map er_address (filter (related D policy ts source ss) es))"
      by (auto simp: candidate_for_def)
  next
    fix a
    assume "a \<in> set (map er_address (filter (related D policy ts source ss) es))"
    then obtain e where e: "e \<in> set es" "related D policy ts source ss e" "a = er_address e" by auto
    from all_candidates_complete [OF built e(1,2)]
    show "a \<in> set (map (\<lambda>c. rv_address (ic_target c)) (all_candidates D x source ss))"
      by (auto simp: candidate_for_def e(3) image_iff intro!: bexI)
  qed
  moreover have "distinct (map er_address (filter (related D policy ts source ss) es))"
    using candidate_index_build_ok(5) [OF built] by (simp add: distinct_map_filter)
  ultimately show ?thesis
    using all_candidates_distinct [OF built, of source ss] by (metis distinct_card length_map)
qed

lemma all_candidates_ranked:
  assumes built: "candidate_index_build D gen ts policy es = Inr x"
  shows "sorted_wrt (<) (map candidate_rank (sort_key candidate_rank (all_candidates D x source ss)))"
proof -
  have "distinct (map candidate_rank (all_candidates D x source ss))"
    using all_candidates_distinct [OF built] by (auto simp: distinct_map candidate_rank_def inj_on_def)
  then have "distinct (map candidate_rank (sort_key candidate_rank (all_candidates D x source ss)))"
    by (simp add: distinct_map)
  then show ?thesis by (simp add: strict_sorted_iff)
qed

lemma discovered:
  assumes built: "candidate_index_build D gen ts policy es = Inr x"
    and "discover D x source ss cap = Inr r"
  shows "0 < cap" "cap \<le> MAX_CANDIDATE_CAP"
    "dr_candidates r = take cap (sort_key candidate_rank (all_candidates D x source ss))"
    "dr_truncated r \<longleftrightarrow> cap < length (filter (related D policy ts source ss) es)"
    "dr_source r = source_ref source ss"
  using assms length_all_candidates [OF built, of source ss]
  by (auto simp: discover_def Let_def all_candidates_def source_ref_def split: if_splits)

section \<open>Properties\<close>

text \<open>
  C39. Discovery is exact: every candidate names a revision of the indexed target and carries
  exactly the signals that relate it to the source, and a page that is not truncated holds a
  candidate for every related target entity.
\<close>

theorem discover_exact:
  assumes "candidate_index_build D gen ts policy es = Inr x"
    and "discover D x source ss cap = Inr r"
  shows "(\<forall>c\<in>set (dr_candidates r). \<exists>e\<in>set es.
      related D policy ts source ss e \<and> candidate_for D policy ts source ss e c) \<and>
    (\<not> dr_truncated r \<longrightarrow> (\<forall>e\<in>set es. related D policy ts source ss e \<longrightarrow>
      (\<exists>c\<in>set (dr_candidates r). candidate_for D policy ts source ss e c)))"
proof -
  note d = discovered [OF assms]
  let ?all = "(all_candidates D x source ss)"
  have "set (dr_candidates r) \<subseteq> set ?all"
    unfolding d(3) using set_take_subset [of cap "sort_key candidate_rank ?all"] by simp
  then have "\<forall>c\<in>set (dr_candidates r). \<exists>e\<in>set es.
      related D policy ts source ss e \<and> candidate_for D policy ts source ss e c"
    using all_candidates_sound [OF assms(1), of _ source ss] by blast
  moreover have "set (dr_candidates r) = set ?all" if "\<not> dr_truncated r"
    using that d(4) length_all_candidates [OF assms(1), of source ss] unfolding d(3) by simp
  ultimately show ?thesis using all_candidates_complete [OF assms(1), of _ source ss] by blast
qed

text \<open>
  Discovery is bounded and keeps the strongest evidence: the page holds the smaller of the cap
  and the number of related targets, says truncated exactly when some were dropped, is strictly
  ordered by strongest signal and then address, and ranks before every related target it dropped.
\<close>

theorem discover_ranked:
  assumes "candidate_index_build D gen ts policy es = Inr x"
    and "discover D x source ss cap = Inr r"
  shows "0 < cap \<and> cap \<le> 128 \<and>
    length (dr_candidates r) = min cap (length (filter (related D policy ts source ss) es)) \<and>
    (dr_truncated r \<longleftrightarrow> cap < length (filter (related D policy ts source ss) es)) \<and>
    sorted_wrt (<) (map candidate_rank (dr_candidates r)) \<and>
    (\<forall>e\<in>set es. related D policy ts source ss e \<longrightarrow>
       (\<exists>c\<in>set (dr_candidates r). candidate_for D policy ts source ss e c) \<or>
       (\<forall>c\<in>set (dr_candidates r). candidate_rank c < (Min (signals_of D policy e ts source ss), er_address e)))"
proof -
  note d = discovered [OF assms]
  define all where "all = sort_key candidate_rank (all_candidates D x source ss)"
  have sorted: "sorted_wrt (<) (map candidate_rank all)"
    using all_candidates_ranked [OF assms(1), of source ss] by (simp add: all_def)
  have len: "length all = length (filter (related D policy ts source ss) es)"
    using length_all_candidates [OF assms(1), of source ss] by (simp add: all_def)
  have split: "sorted_wrt (<) (map candidate_rank (take cap all) @ map candidate_rank (drop cap all))"
    using sorted by (metis append_take_drop_id map_append)
  have "(\<exists>c\<in>set (take cap all). candidate_for D policy ts source ss e c) \<or>
       (\<forall>c\<in>set (take cap all). candidate_rank c < (Min (signals_of D policy e ts source ss), er_address e))"
    if e: "e \<in> set es" and rel: "related D policy ts source ss e" for e
  proof -
    obtain c where c: "c \<in> set all" "candidate_for D policy ts source ss e c"
      using all_candidates_complete [OF assms(1) e rel] by (auto simp: all_def)
    then have "c \<in> set (take cap all) \<or> c \<in> set (drop cap all)"
      by (metis Un_iff append_take_drop_id set_append)
    then show ?thesis
    proof
      assume "c \<in> set (drop cap all)"
      then have "\<forall>b\<in>set (take cap all). candidate_rank b < candidate_rank c"
        using split by (auto simp: sorted_wrt_append)
      then show ?thesis using c(2) by (auto simp: candidate_for_def)
    qed (use c(2) in blast)
  qed
  then show ?thesis
    using d split len unfolding all_def [symmetric]
    by (auto simp: MAX_CANDIDATE_CAP_def sorted_wrt_append)
qed

end
