(* ===== verification/Om_Space.thy ===== *)
theory Om_Space
  imports Om_Hash
begin

text \<open>
  Memory-space identity, authority and context contracts (\<open>openmemory-core/src/space.rs\<close>): UUIDv7
  and opaque identifiers, profile names, workspace path keys, authority snapshots with their text
  form, roles, read sets and memory contexts. The UUID crate's parser and version accessor are
  fields of \<open>space_deps\<close>; the platform the code is compiled for is an argument.
\<close>

definition MAX_OPAQUE_ID_BYTES :: nat where "MAX_OPAQUE_ID_BYTES = 128"
definition MAX_PROFILE_BYTES :: nat where "MAX_PROFILE_BYTES = 128"
definition MAX_WORKSPACE_PATH_BYTES :: nat where "MAX_WORKSPACE_PATH_BYTES = 16 * 1024"
definition AUTHORITY_DIGEST_BYTES :: nat where "AUTHORITY_DIGEST_BYTES = 32"
definition READ_SET_MAX :: nat where "READ_SET_MAX = 4"

datatype space_type_error =
    InvalidUuidV7 str
  | InvalidOpaqueId str nat
  | InvalidProfileName
  | InvalidWorkspacePath nat
  | InvalidPathNormalizerVersion
  | WorkspacePathPlatformMismatch
  | InvalidAuthorityVersion
  | InvalidAuthorityDigest
  | InvalidReadSet
  | WriteTargetMissing
  | WriteTargetUnauthorized

section \<open>Identifiers\<close>

record space_deps = deps +
  parse_str :: "str \<Rightarrow> uuid option"
  version_num :: "uuid \<Rightarrow> nat"

definition is_ascii_uppercase :: "char \<Rightarrow> bool" where
  "is_ascii_uppercase c = (let n = of_char c :: nat in 65 \<le> n \<and> n \<le> 90)"

definition uuid_id_from_str :: "space_deps \<Rightarrow> str \<Rightarrow> str \<Rightarrow> space_type_error + uuid" where
  "uuid_id_from_str D kind value =
     (case parse_str D value of
        None \<Rightarrow> Inl (InvalidUuidV7 kind)
      | Some parsed \<Rightarrow>
          (if version_num D parsed \<noteq> 7 \<or> hyphenated D parsed \<noteq> value \<or>
              list_ex is_ascii_uppercase value
           then Inl (InvalidUuidV7 kind) else Inr parsed))"

definition uuid_id_display :: "space_deps \<Rightarrow> uuid \<Rightarrow> str" where
  "uuid_id_display D u = hyphenated D u"

definition opaque_id_new :: "str \<Rightarrow> str \<Rightarrow> space_type_error + str" where
  "opaque_id_new kind value =
     (if value = [] \<or> length value > MAX_OPAQUE_ID_BYTES \<or> has_control value
      then Inl (InvalidOpaqueId kind MAX_OPAQUE_ID_BYTES) else Inr value)"

definition to_ascii_lowercase :: "str \<Rightarrow> str" where
  "to_ascii_lowercase s =
     map (\<lambda>c. if is_ascii_uppercase c then char_of ((of_char c :: nat) + 32) else c) s"

definition is_windows_device_name :: "str \<Rightarrow> bool" where
  "is_windows_device_name value =
     (let lowercase = to_ascii_lowercase value in
      lowercase = ''con'' \<or> lowercase = ''prn'' \<or> lowercase = ''aux'' \<or> lowercase = ''nul'' \<or>
      (length lowercase = 4 \<and> (starts_with lowercase ''com'' \<or> starts_with lowercase ''lpt'') \<and>
       (let d = (of_char (lowercase ! 3) :: nat) in 49 \<le> d \<and> d \<le> 57)))"

definition valid_profile_name :: "str \<Rightarrow> bool" where
  "valid_profile_name value =
     (if value = [] \<or> length value > MAX_PROFILE_BYTES \<or> value = ''.'' \<or> value = ''..'' \<or>
         starts_with value ''.'' \<or> last value = CHR ''.'' \<or>
         list_ex (\<lambda>c. c = CHR ''/'') value \<or> list_ex (\<lambda>c. c = CHR 0x5C) value \<or> has_control value
      then False
      else (let stem = takeWhile (\<lambda>c. c \<noteq> CHR ''.'') value in \<not> is_windows_device_name stem))"

definition profile_name_new :: "str \<Rightarrow> space_type_error + str" where
  "profile_name_new value =
     (if \<not> valid_profile_name value then Inl InvalidProfileName else Inr value)"

section \<open>Workspace path keys\<close>

datatype path_platform = Linux | MacOs | Windows

record workspace_path_key =
  wk_platform :: path_platform
  wk_normalizer_version :: u16
  wk_path :: str

definition is_ascii_alphabetic :: "char \<Rightarrow> bool" where
  "is_ascii_alphabetic c = (let n = of_char c :: nat in (65 \<le> n \<and> n \<le> 90) \<or> (97 \<le> n \<and> n \<le> 122))"

definition is_absolute_for_platform :: "path_platform \<Rightarrow> str \<Rightarrow> bool" where
  "is_absolute_for_platform platform path =
     (case platform of
        Windows \<Rightarrow>
          (length path \<ge> 3 \<and> is_ascii_alphabetic (path ! 0) \<and> path ! 1 = CHR '':'' \<and>
           (path ! 2 = CHR 0x5C \<or> path ! 2 = CHR ''/'')) \<or>
          starts_with path [CHR 0x5C, CHR 0x5C]
      | _ \<Rightarrow> starts_with path ''/'')"

definition workspace_from_parts ::
    "path_platform \<Rightarrow> u16 \<Rightarrow> str \<Rightarrow> space_type_error + workspace_path_key" where
  "workspace_from_parts platform normalizer_version path =
     (if normalizer_version = 0 then Inl InvalidPathNormalizerVersion
      else if path = [] \<or> length path > MAX_WORKSPACE_PATH_BYTES \<or>
              list_ex (\<lambda>c. c = CHR 0x00) path \<or> \<not> is_absolute_for_platform platform path
      then Inl (InvalidWorkspacePath MAX_WORKSPACE_PATH_BYTES)
      else Inr \<lparr>wk_platform = platform, wk_normalizer_version = normalizer_version, wk_path = path\<rparr>)"

text \<open>The path arrives as the result of \<open>Path::to_str\<close>: \<open>None\<close> when it is not UTF-8.\<close>

definition workspace_from_canonical_path ::
    "path_platform \<Rightarrow> str option \<Rightarrow> u16 \<Rightarrow> space_type_error + workspace_path_key" where
  "workspace_from_canonical_path current path normalizer_version =
     (case path of None \<Rightarrow> Inl (InvalidWorkspacePath MAX_WORKSPACE_PATH_BYTES)
      | Some value \<Rightarrow> workspace_from_parts current normalizer_version value)"

definition workspace_as_current_path ::
    "path_platform \<Rightarrow> workspace_path_key \<Rightarrow> space_type_error + str" where
  "workspace_as_current_path current key =
     (if wk_platform key \<noteq> current then Inl WorkspacePathPlatformMismatch else Inr (wk_path key))"

section \<open>Authority snapshots\<close>

record authority_snapshot =
  as_version :: u16
  as_digest :: hash32

definition authority_new :: "u16 \<Rightarrow> hash32 \<Rightarrow> space_type_error + authority_snapshot" where
  "authority_new version digest =
     (if version = 0 then Inl InvalidAuthorityVersion
      else Inr \<lparr>as_version = version, as_digest = digest\<rparr>)"

definition authority_input :: "u16 \<Rightarrow> u64 list \<Rightarrow> bytes" where
  "authority_input version generations =
     ''openmemory/authority-snapshot/v1'' @ u16_le version @
     u64_le (u64_of_usize (length generations)) @ concat (map u64_le generations)"

definition authority_from_generations ::
    "deps \<Rightarrow> u16 \<Rightarrow> u64 list \<Rightarrow> space_type_error + authority_snapshot" where
  "authority_from_generations D version generations =
     (if version = 0 then Inl InvalidAuthorityVersion
      else Inr \<lparr>as_version = version, as_digest = blake3 D (authority_input version generations)\<rparr>)"

text \<open>Decimal text of a \<open>u16\<close>, and \<open>str::parse::<u16>\<close>: an optional plus sign, then one or more
  digits, every step checked for overflow.\<close>

definition decimal_digit :: "nat \<Rightarrow> char" where
  "decimal_digit n = char_of (48 + n)"

fun display_nat :: "nat \<Rightarrow> str" where
  "display_nat n = (if n < 10 then [decimal_digit n] else display_nat (n div 10) @ [decimal_digit (n mod 10)])"

declare display_nat.simps [simp del]

definition digit_value :: "char \<Rightarrow> nat option" where
  "digit_value c = (let n = of_char c :: nat in if 48 \<le> n \<and> n \<le> 57 then Some (n - 48) else None)"

fun parse_u16_digits :: "nat \<Rightarrow> str \<Rightarrow> nat option" where
  "parse_u16_digits acc [] = Some acc"
| "parse_u16_digits acc (c # cs) =
     (case digit_value c of None \<Rightarrow> None
      | Some d \<Rightarrow> if acc * 10 + d \<ge> 2 ^ 16 then None else parse_u16_digits (acc * 10 + d) cs)"

definition parse_u16 :: "str \<Rightarrow> u16 option" where
  "parse_u16 s =
     (case s of [] \<Rightarrow> None
      | c # cs \<Rightarrow>
          (if c = CHR ''+'' \<and> cs \<noteq> [] then map_option of_nat (parse_u16_digits 0 cs)
           else map_option of_nat (parse_u16_digits 0 s)))"

definition authority_display :: "authority_snapshot \<Rightarrow> str" where
  "authority_display a = ''v'' @ display_nat (unat (as_version a)) @ '':'' @ hash_display (as_digest a)"

definition split_once_colon :: "str \<Rightarrow> (str \<times> str) option" where
  "split_once_colon s =
     (case dropWhile (\<lambda>c. c \<noteq> CHR '':'') s of [] \<Rightarrow> None
      | _ # rest \<Rightarrow> Some (takeWhile (\<lambda>c. c \<noteq> CHR '':'') s, rest))"

definition authority_from_str :: "str \<Rightarrow> space_type_error + authority_snapshot" where
  "authority_from_str value =
     (case split_once_colon value of None \<Rightarrow> Inl InvalidAuthorityDigest
      | Some (version, digest) \<Rightarrow>
          (case strip_prefix ''v'' version of None \<Rightarrow> Inl InvalidAuthorityDigest
           | Some number \<Rightarrow>
               (case parse_u16 number of None \<Rightarrow> Inl InvalidAuthorityDigest
                | Some version \<Rightarrow>
                    (if version = 0 \<or> length digest \<noteq> AUTHORITY_DIGEST_BYTES * 2 \<or>
                        list_ex (\<lambda>b. \<not> is_lower_hex b) digest
                     then Inl InvalidAuthorityDigest
                     else case parse_hex_pairs digest of None \<Rightarrow> Inl InvalidAuthorityDigest
                       | Some bytes \<Rightarrow> authority_new version bytes))))"

section \<open>Roles, grants, read sets and contexts\<close>

datatype space_owner = UserOwner str | TeamOwner str
datatype space_context = GlobalContext | ProjectContext uuid
datatype space_role = Reader | Contributor | Reviewer | Maintainer
datatype actor_kind = Human | Agent | System
datatype selection_source = Explicit | WorkspaceMapping | ProductDefault

fun role_u16 :: "space_role \<Rightarrow> u16" where
  "role_u16 Reader = 0"
| "role_u16 Contributor = 1"
| "role_u16 Reviewer = 2"
| "role_u16 Maintainer = 3"

definition can_write :: "space_role \<Rightarrow> bool" where
  "can_write role \<longleftrightarrow> \<not> (case role of Reader \<Rightarrow> True | _ \<Rightarrow> False)"

definition can_review :: "space_role \<Rightarrow> bool" where
  "can_review role \<longleftrightarrow> (case role of Reviewer \<Rightarrow> True | Maintainer \<Rightarrow> True | _ \<Rightarrow> False)"

record selection_provenance =
  sp_project :: selection_source
  sp_team :: selection_source
  sp_read_scope :: selection_source
  sp_write_target :: selection_source

record space_ref =
  sr_id :: uuid
  sr_owner :: space_owner
  sr_context :: space_context

record space_grant =
  sg_space :: space_ref
  sg_role :: space_role
  sg_authority :: authority_snapshot

text \<open>\<open>grants.iter().any(|grant| !seen.insert(id))\<close>.\<close>

fun repeated_space :: "uuid btree_set \<Rightarrow> space_grant list \<Rightarrow> bool" where
  "repeated_space seen [] = False"
| "repeated_space seen (g # gs) =
     (if sr_id (sg_space g) \<in> set seen then True
      else repeated_space (bs_insert (sr_id (sg_space g)) seen) gs)"

definition read_set_new :: "space_grant list \<Rightarrow> space_type_error + space_grant list" where
  "read_set_new grants =
     (if grants = [] \<or> length grants > READ_SET_MAX then Inl InvalidReadSet
      else if repeated_space [] grants then Inl InvalidReadSet
      else Inr grants)"

definition read_set_get :: "space_grant list \<Rightarrow> uuid \<Rightarrow> space_grant option" where
  "read_set_get grants i = find (\<lambda>g. sr_id (sg_space g) = i) grants"

record memory_context =
  mc_principal :: str
  mc_actor_kind :: actor_kind
  mc_profile :: str
  mc_project :: "uuid option"
  mc_active_team :: "str option"
  mc_read_set :: "space_grant list"
  mc_default_write :: uuid
  mc_authority :: authority_snapshot
  mc_selection :: selection_provenance

definition memory_context_new ::
    "str \<Rightarrow> actor_kind \<Rightarrow> str \<Rightarrow> uuid option \<Rightarrow> str option \<Rightarrow> space_grant list \<Rightarrow> uuid \<Rightarrow>
     authority_snapshot \<Rightarrow> selection_provenance \<Rightarrow> space_type_error + memory_context" where
  "memory_context_new owner_principal actor_kind profile project active_team read_set default_write
     authority selection =
     (case read_set_get read_set default_write of
        None \<Rightarrow> Inl WriteTargetMissing
      | Some write_grant \<Rightarrow>
          (if \<not> can_write (sg_role write_grant) then Inl WriteTargetUnauthorized
           else Inr \<lparr>mc_principal = owner_principal, mc_actor_kind = actor_kind, mc_profile = profile,
             mc_project = project, mc_active_team = active_team, mc_read_set = read_set,
             mc_default_write = default_write, mc_authority = authority, mc_selection = selection\<rparr>))"

section \<open>Lemmas\<close>

lemma repeated_space_iff: "repeated_space seen gs \<longleftrightarrow>
    \<not> (distinct (map (\<lambda>g. sr_id (sg_space g)) gs) \<and> (\<forall>g\<in>set gs. sr_id (sg_space g) \<notin> set seen))"
proof (induction seen gs rule: repeated_space.induct)
  case (1 seen)
  then show ?case by simp
next
  case (2 seen g gs)
  have image: "sr_id (sg_space g) \<in> (\<lambda>g. sr_id (sg_space g)) ` set gs \<longleftrightarrow>
      (\<exists>h\<in>set gs. sr_id (sg_space h) = sr_id (sg_space g))"
    by (auto intro: rev_image_eqI)
  show ?case using 2 by (auto simp: image)
qed

lemma read_set_new_ok: "read_set_new gs = Inr rs \<longleftrightarrow> rs = gs \<and> gs \<noteq> [] \<and> length gs \<le> 4 \<and>
    distinct (map (\<lambda>g. sr_id (sg_space g)) gs)"
  by (auto simp: read_set_new_def READ_SET_MAX_def repeated_space_iff)

lemma read_set_get_distinct:
  "distinct (map (\<lambda>g. sr_id (sg_space g)) gs) \<Longrightarrow>
   read_set_get gs i = Some g \<longleftrightarrow> g \<in> set gs \<and> sr_id (sg_space g) = i"
proof (induction gs)
  case Nil
  then show ?case by (simp add: read_set_get_def)
next
  case (Cons h gs)
  then show ?case by (auto simp: read_set_get_def image_iff)
qed

lemma read_set_get_None: "read_set_get gs i = None \<longleftrightarrow> (\<forall>g\<in>set gs. sr_id (sg_space g) \<noteq> i)"
  by (auto simp: read_set_get_def find_None_iff)

lemma digit_value_digit: "n < 10 \<Longrightarrow> digit_value (decimal_digit n) = Some n"
  by (simp add: digit_value_def decimal_digit_def Let_def of_char_of)

lemma parse_u16_digits_append: "parse_u16_digits acc (xs @ ys) =
    (case parse_u16_digits acc xs of None \<Rightarrow> None | Some a \<Rightarrow> parse_u16_digits a ys)"
  by (induction acc xs rule: parse_u16_digits.induct) (auto split: option.splits)

lemma parse_display_nat: "n < 2 ^ 16 \<Longrightarrow> parse_u16_digits 0 (display_nat n) = Some n"
proof (induction n rule: display_nat.induct)
  case (1 n)
  show ?case
  proof (cases "n < 10")
    case True
    then show ?thesis by (subst display_nat.simps) (simp add: digit_value_digit)
  next
    case False
    then have "parse_u16_digits 0 (display_nat (n div 10)) = Some (n div 10)"
      using "1.IH" "1.prems" by auto
    moreover have "n div 10 * 10 + n mod 10 = n" by simp
    ultimately show ?thesis using False "1.prems"
      by (subst display_nat.simps) (simp add: parse_u16_digits_append digit_value_digit)
  qed
qed

lemma display_nat_digits: "\<forall>c\<in>set (display_nat n). digit_value c \<noteq> None"
proof (induction n rule: display_nat.induct)
  case (1 n)
  then show ?case by (subst display_nat.simps) (auto simp: digit_value_digit)
qed

lemma display_nat_nonempty: "display_nat n \<noteq> []"
  by (subst display_nat.simps) simp

lemma parse_u16_display: "parse_u16 (display_nat (unat (v :: u16))) = Some v"
proof -
  obtain c cs where s: "display_nat (unat v) = c # cs"
    using display_nat_nonempty by (cases "display_nat (unat v)") auto
  then have "digit_value c \<noteq> None" using display_nat_digits [of "unat v"] by simp
  then have "c \<noteq> CHR ''+''" by (auto simp: digit_value_def)
  moreover have "parse_u16_digits 0 (c # cs) = Some (unat v)"
    unfolding s [symmetric] using unsigned_less [of v] by (intro parse_display_nat) simp
  ultimately show ?thesis unfolding s by (simp add: parse_u16_def del: parse_u16_digits.simps)
qed

lemma split_once_colon_eq:
  assumes "CHR '':'' \<notin> set a"
  shows "split_once_colon (a @ '':'' @ b) = Some (a, b)"
proof -
  have "\<forall>c\<in>set a. c \<noteq> CHR '':''" using assms by auto
  then show ?thesis
    by (simp add: split_once_colon_def dropWhile_append2 takeWhile_append2)
qed

lemma split_once_colon_Some:
  assumes "split_once_colon s = Some (a, b)"
  shows "s = a @ '':'' @ b"
proof -
  obtain c where d: "dropWhile (\<lambda>c. c \<noteq> CHR '':'') s = c # b" and a: "a = takeWhile (\<lambda>c. c \<noteq> CHR '':'') s"
    using assms by (auto simp: split_once_colon_def split: list.splits)
  have "c = CHR '':''" using d [unfolded dropWhile_eq_Cons_conv] by simp
  then show ?thesis using takeWhile_dropWhile_id [of "\<lambda>c. c \<noteq> CHR '':''" s] a d by simp
qed

lemma starts_with_iff: "starts_with s p \<longleftrightarrow> (\<exists>t. s = p @ t)"
  by (metis append_eq_conv_conj append_take_drop_id starts_with_def)

lemma strip_prefix_Some: "strip_prefix p s = Some t \<longleftrightarrow> s = p @ t"
  by (auto simp: strip_prefix_def starts_with_iff)

lemma parse_u16_digits_set: "parse_u16_digits acc cs = Some n \<Longrightarrow> c \<in> set cs \<Longrightarrow> digit_value c \<noteq> None"
  by (induction acc cs rule: parse_u16_digits.induct) (auto split: option.splits if_splits)

lemma parse_u16_no_colon:
  assumes "parse_u16 s = Some v"
  shows "CHR '':'' \<notin> set s"
proof -
  have colon: "digit_value (CHR '':'') = None" by (simp add: digit_value_def)
  obtain c cs where s: "s = c # cs" using assms by (cases s) (auto simp: parse_u16_def)
  have "(\<exists>n. parse_u16_digits 0 s = Some n) \<or> (c = CHR ''+'' \<and> (\<exists>n. parse_u16_digits 0 cs = Some n))"
    using assms by (auto simp: s parse_u16_def simp del: parse_u16_digits.simps split: if_splits)
  then show ?thesis
    using parse_u16_digits_set [of 0 s _ "CHR '':''"] parse_u16_digits_set [of 0 cs _ "CHR '':''"] colon s
    by auto
qed

lemma hash_display_parse:
  "length t = 64 \<and> \<not> list_ex (\<lambda>b. \<not> is_lower_hex b) t \<and> parse_hex_pairs t = Some b \<longleftrightarrow>
     length b = 32 \<and> t = hash_display b"
proof
  assume "length t = 64 \<and> \<not> list_ex (\<lambda>b. \<not> is_lower_hex b) t \<and> parse_hex_pairs t = Some b"
  then show "length b = 32 \<and> t = hash_display b"
    using display_parse_hex [of t b] parse_hex_pairs_length [of t b] by simp
next
  assume "length b = 32 \<and> t = hash_display b"
  then show "length t = 64 \<and> \<not> list_ex (\<lambda>b. \<not> is_lower_hex b) t \<and> parse_hex_pairs t = Some b"
    using hash_display_hex [of b] parse_hash_display [of b]
    by (simp add: length_hash_display list_all_iff list_ex_iff)
qed

text \<open>What the parser of authority snapshots accepts.\<close>

lemma authority_from_str_ok: "authority_from_str s = Inr a \<longleftrightarrow>
    as_version a \<noteq> 0 \<and> length (as_digest a) = 32 \<and>
    (\<exists>number. s = ''v'' @ number @ '':'' @ hash_display (as_digest a) \<and> parse_u16 number = Some (as_version a))"
proof
  assume "authority_from_str s = Inr a"
  then obtain version digest number v b where h: "split_once_colon s = Some (version, digest)"
      "strip_prefix ''v'' version = Some number" "parse_u16 number = Some v" "v \<noteq> 0"
      "length digest = 64" "\<not> list_ex (\<lambda>b. \<not> is_lower_hex b) digest" "parse_hex_pairs digest = Some b"
      "a = \<lparr>as_version = v, as_digest = b\<rparr>"
    by (auto simp: authority_from_str_def authority_new_def AUTHORITY_DIGEST_BYTES_def
        split: option.splits prod.splits if_splits)
  moreover have "length b = 32 \<and> digest = hash_display b" using h hash_display_parse by blast
  moreover have "s = ''v'' @ number @ '':'' @ digest"
    using split_once_colon_Some [OF h(1)] h(2) by (simp add: strip_prefix_Some)
  ultimately show "as_version a \<noteq> 0 \<and> length (as_digest a) = 32 \<and>
    (\<exists>number. s = ''v'' @ number @ '':'' @ hash_display (as_digest a) \<and> parse_u16 number = Some (as_version a))"
    by auto
next
  assume r: "as_version a \<noteq> 0 \<and> length (as_digest a) = 32 \<and>
    (\<exists>number. s = ''v'' @ number @ '':'' @ hash_display (as_digest a) \<and> parse_u16 number = Some (as_version a))"
  then obtain number where n: "s = (''v'' @ number) @ '':'' @ hash_display (as_digest a)"
      "parse_u16 number = Some (as_version a)" by auto
  have "split_once_colon s = Some (''v'' @ number, hash_display (as_digest a))"
    unfolding n(1) using parse_u16_no_colon [OF n(2)] by (intro split_once_colon_eq) auto
  moreover have "strip_prefix ''v'' (''v'' @ number) = Some number" by (simp only: strip_prefix_Some)
  moreover have "length (hash_display (as_digest a)) = AUTHORITY_DIGEST_BYTES * 2"
      "\<not> list_ex (\<lambda>b. \<not> is_lower_hex b) (hash_display (as_digest a))"
      "parse_hex_pairs (hash_display (as_digest a)) = Some (as_digest a)"
    using hash_display_parse [of "hash_display (as_digest a)" "as_digest a"] r
    by (simp_all add: AUTHORITY_DIGEST_BYTES_def)
  ultimately show "authority_from_str s = Inr a"
    using r n(2) by (simp add: authority_from_str_def authority_new_def)
qed

section \<open>Properties\<close>

text \<open>
  The text of an authority snapshot parses back to it exactly when the snapshot is one the
  constructors can build (positive version, 32-byte digest).
\<close>

theorem authority_text_roundtrip:
  "authority_from_str (authority_display a) = Inr a \<longleftrightarrow> as_version a \<noteq> 0 \<and> length (as_digest a) = 32"
  unfolding authority_from_str_ok authority_display_def using parse_u16_display by auto

text \<open>
  The parser is not canonical: two different texts, one with a plus sign before the version,
  parse to the same authority snapshot.
\<close>

theorem authority_text_not_canonical:
  "authority_from_str (''v+1:'' @ replicate 64 CHR ''0'') = authority_from_str (''v1:'' @ replicate 64 CHR ''0'') \<and>
   authority_from_str (''v+1:'' @ replicate 64 CHR ''0'') = Inr \<lparr>as_version = 1, as_digest = replicate 32 CHR 0x00\<rparr> \<and>
   authority_display \<lparr>as_version = 1, as_digest = replicate 32 CHR 0x00\<rparr> = ''v1:'' @ replicate 64 CHR ''0''"
proof -
  have digits: "hash_display (replicate 32 CHR 0x00) = replicate 64 CHR ''0''" by code_simp
  have plus: "parse_u16 ''+1'' = Some 1" and one: "parse_u16 ''1'' = Some 1"
    by (simp_all add: parse_u16_def digit_value_def Let_def)
  have "display_nat (unat (1 :: u16)) = ''1''"
  proof -
    have "decimal_digit 1 = CHR ''1''" by code_simp
    then show ?thesis by (subst display_nat.simps) simp
  qed
  moreover have "authority_from_str (''v+1:'' @ replicate 64 CHR ''0'') =
      Inr \<lparr>as_version = 1, as_digest = replicate 32 CHR 0x00\<rparr>"
    unfolding authority_from_str_ok using digits plus by (auto intro!: exI [of _ "''+1''"])
  moreover have "authority_from_str (''v1:'' @ replicate 64 CHR ''0'') =
      Inr \<lparr>as_version = 1, as_digest = replicate 32 CHR 0x00\<rparr>"
    unfolding authority_from_str_ok using digits one by (auto intro!: exI [of _ "''1''"])
  ultimately show ?thesis using digits by (simp add: authority_display_def)
qed

text \<open>
  The digest input of an authority snapshot binds the version and every generation.
\<close>

theorem authority_input_binds:
  assumes "length gs < 2 ^ 64" "length gs' < 2 ^ 64"
  shows "authority_input v gs = authority_input v' gs' \<longleftrightarrow> v = v' \<and> gs = gs'"
  using assms u64_codec.concat_unique [of gs gs' "[]" "[]"]
  by (auto simp: authority_input_def u16_le_unique u64_le_unique dest!: u64_of_usize_inj)

text \<open>
  A memory context exists exactly when the read set is bounded and names each space once and
  the default write target is one of its spaces, held with a role that may write.
\<close>

theorem context_write_authority:
  "(\<exists>rs c. read_set_new grants = Inr rs \<and>
      memory_context_new p k prof proj team rs w auth sel = Inr c \<and> mc_default_write c = w \<and> mc_read_set c = grants) \<longleftrightarrow>
   grants \<noteq> [] \<and> length grants \<le> 4 \<and> distinct (map (\<lambda>g. sr_id (sg_space g)) grants) \<and>
   (\<exists>g\<in>set grants. sr_id (sg_space g) = w \<and> sg_role g \<noteq> Reader)"
proof -
  have writer: "can_write r \<longleftrightarrow> r \<noteq> Reader" for r by (cases r) (simp_all add: can_write_def)
  have "(\<exists>c. memory_context_new p k prof proj team grants w auth sel = Inr c \<and> mc_default_write c = w \<and>
      mc_read_set c = grants) \<longleftrightarrow> (\<exists>g\<in>set grants. sr_id (sg_space g) = w \<and> sg_role g \<noteq> Reader)"
    if d: "distinct (map (\<lambda>g. sr_id (sg_space g)) grants)"
  proof (cases "read_set_get grants w")
    case None
    then have "\<forall>g\<in>set grants. sr_id (sg_space g) \<noteq> w" by (simp add: read_set_get_None)
    then show ?thesis by (simp add: memory_context_new_def None)
  next
    case (Some g)
    then have "g \<in> set grants \<and> sr_id (sg_space g) = w"
        "\<forall>h\<in>set grants. sr_id (sg_space h) = w \<longrightarrow> h = g"
      using read_set_get_distinct [OF d, of w] by (simp, metis option.inject)
    then show ?thesis by (auto simp: memory_context_new_def Some writer)
  qed
  then show ?thesis by (auto simp: read_set_new_ok)
qed

text \<open>
  Space, revision and the other identifiers parse exactly from their canonical text: when the
  UUID parser reads back the hyphenated text, a text is accepted if and only if it is the
  hyphenated lowercase text of a version 7 UUID.
\<close>

theorem uuid_id_canonical:
  assumes "\<And>u. parse_str D (hyphenated D u) = Some u"
    and "\<And>u. \<not> list_ex is_ascii_uppercase (hyphenated D u)"
  shows "uuid_id_from_str D kind value = Inr u \<longleftrightarrow> value = uuid_id_display D u \<and> version_num D u = 7"
  using assms by (auto simp: uuid_id_from_str_def uuid_id_display_def split: option.split)

end
