(* ===== verification/Om_Receipt.thy ===== *)
theory Om_Receipt
  imports Om_Discovery Om_Space
begin

text \<open>
  Packet-bound identity decisions and conservative keep-distinct receipts (\<open>receipt.rs\<close>). A receipt
  can only be made by \<open>receipt_reviewed\<close> and \<open>receipt_system_different\<close>; \<open>issued\<close> is the set of
  receipts that they make.
\<close>

datatype identity_decision = Same | Different

fun decision_u16 :: "identity_decision \<Rightarrow> u16" where
  "decision_u16 Same = 0"
| "decision_u16 Different = 1"

datatype resolution_authority = HumanAuthority uuid space_role | SystemContradiction

record identity_resolution_receipt =
  ir_target :: entity_revision_ref
  ir_source :: entity_revision_ref
  ir_packet_hash :: hash32
  ir_decision :: identity_decision
  ir_policy_generation :: u64
  ir_authority :: resolution_authority
  ir_hash :: hash32

definition hash_resolution ::
    "deps \<Rightarrow> entity_revision_ref \<Rightarrow> entity_revision_ref \<Rightarrow> hash32 \<Rightarrow> identity_decision \<Rightarrow> u64 \<Rightarrow>
     resolution_authority \<Rightarrow> hash32" where
  "hash_resolution D target source packet_hash decision policy_generation authority =
     (let h = ch_new ''openmemory/identity-receipt/v1'';
          h = encode_revision_ref D target h;
          h = encode_revision_ref D source h;
          h = ch_hash packet_hash h;
          h = ch_u16 (decision_u16 decision) h;
          h = ch_u64 policy_generation h;
          h = (case authority of
                 HumanAuthority decision_event role \<Rightarrow>
                   ch_u16 (role_u16 role) (ch_text (hyphenated D decision_event) (ch_u16 1 h))
               | SystemContradiction \<Rightarrow> ch_u16 2 h)
      in ch_finish D h)"

definition receipt_build ::
    "deps \<Rightarrow> identity_packet \<Rightarrow> identity_decision \<Rightarrow> resolution_authority \<Rightarrow>
     merge_error + identity_resolution_receipt" where
  "receipt_build D packet decision authority =
     Inr \<lparr>ir_target = pk_left packet, ir_source = pk_right packet, ir_packet_hash = pk_hash packet,
       ir_decision = decision, ir_policy_generation = pk_policy_generation packet,
       ir_authority = authority,
       ir_hash = hash_resolution D (pk_left packet) (pk_right packet) (pk_hash packet) decision
         (pk_policy_generation packet) authority\<rparr>"

definition receipt_reviewed ::
    "deps \<Rightarrow> identity_packet \<Rightarrow> identity_decision \<Rightarrow> uuid \<Rightarrow> space_role \<Rightarrow>
     merge_error + identity_resolution_receipt" where
  "receipt_reviewed D packet decision decision_event role =
     (if \<not> can_review role
      then Inl (MergeError InvalidInput ''identity decision requires Reviewer or Maintainer'')
      else if decision = Same \<and>
        (case pk_resolution packet of ProofDifferent \<Rightarrow> True | ConflictingProofs \<Rightarrow> True | _ \<Rightarrow> False)
      then Inl (MergeError ConflictingResolution
        ''human review cannot override a deterministic contradiction'')
      else receipt_build D packet decision (HumanAuthority decision_event role))"

definition receipt_system_different ::
    "deps \<Rightarrow> identity_packet \<Rightarrow> merge_error + identity_resolution_receipt" where
  "receipt_system_different D packet =
     (if pk_resolution packet \<noteq> ProofDifferent
      then Inl (MergeError ConflictingResolution
        ''system separation requires deterministic proof_different'')
      else receipt_build D packet Different SystemContradiction)"

definition receipt_matches_candidate :: "identity_resolution_receipt \<Rightarrow> identity_candidate \<Rightarrow> bool" where
  "receipt_matches_candidate r c \<longleftrightarrow> ir_target r = ic_target c \<and> ir_source r = ic_source c"

record keep_distinct_receipt =
  kd_source :: entity_revision_ref
  kd_discovery_hash :: hash32
  kd_policy_generation :: u64
  kd_candidate_hashes :: "hash32 list"
  kd_truncated :: bool
  kd_hash :: hash32

definition keep_distinct_new :: "deps \<Rightarrow> discovery_receipt \<Rightarrow> keep_distinct_receipt" where
  "keep_distinct_new D discovery =
     (let candidate_hashes = map ic_hash (dr_candidates discovery);
          h = ch_new ''openmemory/keep-distinct-receipt/v1'';
          h = encode_revision_ref D (dr_source discovery) h;
          h = ch_hash (dr_hash discovery) h;
          h = ch_u64 (dr_policy_generation discovery) h;
          h = ch_usize (length candidate_hashes) h;
          h = fold ch_hash candidate_hashes h;
          h = ch_bool (dr_truncated discovery) h
      in \<lparr>kd_source = dr_source discovery, kd_discovery_hash = dr_hash discovery,
          kd_policy_generation = dr_policy_generation discovery,
          kd_candidate_hashes = candidate_hashes, kd_truncated = dr_truncated discovery,
          kd_hash = ch_finish D h\<rparr>)"

definition keep_matches_discovery :: "keep_distinct_receipt \<Rightarrow> discovery_receipt \<Rightarrow> bool" where
  "keep_matches_discovery k d \<longleftrightarrow>
     kd_source k = dr_source d \<and> kd_discovery_hash k = dr_hash d \<and>
     kd_policy_generation k = dr_policy_generation d \<and> kd_truncated k = dr_truncated d \<and>
     kd_candidate_hashes k = map ic_hash (dr_candidates d)"

section \<open>Which receipts exist\<close>

inductive issued :: "deps \<Rightarrow> identity_packet \<Rightarrow> identity_resolution_receipt \<Rightarrow> bool" for D where
  reviewed: "receipt_reviewed D packet decision event role = Inr r \<Longrightarrow> issued D packet r"
| separated: "receipt_system_different D packet = Inr r \<Longrightarrow> issued D packet r"

inductive_simps issued_iff: "issued D packet r"

lemma keep_distinct_new_matches: "keep_matches_discovery (keep_distinct_new D d) d"
  by (simp add: keep_matches_discovery_def keep_distinct_new_def Let_def)

section \<open>Properties\<close>

text \<open>
  C33. No receipt merges what the evidence separates: when two entities are analysed and a receipt
  is issued for their packet, the receipt names exactly those two revisions, and it says Same only
  if the two revisions do not prove to be different and a reviewer or maintainer decided it.
\<close>

theorem receipt_respects_evidence:
  assumes "analyze_pair D left ls right rs policy = Inr p" "issued D p r"
  shows "ir_target r = EntityRevisionRef (er_address left) (er_revision left) ls \<and>
    ir_source r = EntityRevisionRef (er_address right) (er_revision right) rs \<and>
    ir_policy_generation r = ip_policy_generation policy \<and>
    (ir_decision r = Same \<longrightarrow>
       \<not> pair_proves_different policy left ls right rs \<and>
       (\<exists>event role. ir_authority r = HumanAuthority event role \<and> (role = Reviewer \<or> role = Maintainer))) \<and>
    (ir_authority r = SystemContradiction \<longrightarrow> pair_proves_different policy left ls right rs \<and>
       \<not> pair_proves_same policy left ls right rs)"
proof -
  have p: "pk_left p = EntityRevisionRef (er_address left) (er_revision left) ls"
      "pk_right p = EntityRevisionRef (er_address right) (er_revision right) rs"
      "pk_policy_generation p = ip_policy_generation policy"
    using assms(1) by (auto simp: analyze_pair_def Let_def split: if_splits)
  note res = analyze_pair_resolution [OF assms(1)]
  from assms(2) show ?thesis
  proof cases
    case (reviewed decision event role)
    then have role: "role = Reviewer \<or> role = Maintainer"
      by (cases role) (auto simp: receipt_reviewed_def can_review_def)
    have "decision = Same \<Longrightarrow> pk_resolution p \<noteq> ProofDifferent \<and> pk_resolution p \<noteq> ConflictingProofs"
      using reviewed by (auto simp: receipt_reviewed_def split: if_splits)
    then have "decision = Same \<Longrightarrow> \<not> pair_proves_different policy left ls right rs"
      unfolding res by auto
    moreover have "r = \<lparr>ir_target = pk_left p, ir_source = pk_right p, ir_packet_hash = pk_hash p,
       ir_decision = decision, ir_policy_generation = pk_policy_generation p,
       ir_authority = HumanAuthority event role,
       ir_hash = hash_resolution D (pk_left p) (pk_right p) (pk_hash p) decision
         (pk_policy_generation p) (HumanAuthority event role)\<rparr>"
      using reviewed by (auto simp: receipt_reviewed_def receipt_build_def split: if_splits)
    ultimately show ?thesis using role p by simp
  next
    case separated
    then have "pk_resolution p = ProofDifferent"
      by (auto simp: receipt_system_different_def split: if_splits)
    then have "pair_proves_different policy left ls right rs \<and> \<not> pair_proves_same policy left ls right rs"
      unfolding res by simp
    moreover have "ir_decision r = Different \<and> ir_target r = pk_left p \<and> ir_source r = pk_right p \<and>
        ir_policy_generation r = pk_policy_generation p"
      using separated by (auto simp: receipt_system_different_def receipt_build_def split: if_splits)
    ultimately show ?thesis using p by simp
  qed
qed

end
