(* ===== verification/Om_Snapshot.thy ===== *)
theory Om_Snapshot
  imports Om_Encode
begin

text \<open>
  Space versions, snapshot headers and the in-memory snapshot of \<open>model.rs\<close>: \<open>MemorySnapshot::new\<close>
  bounds, sorts and validates the three record lists and binds them to a canonical hash.
  A \<open>SnapshotSource\<close> is its header and three streams whose items are records or reader errors.
\<close>

definition MAX_SNAPSHOT_RECORDS :: nat where "MAX_SNAPSHOT_RECORDS = 1000000"

record domain_generation =
  dg_domain :: u16
  dg_semantic :: u64
  dg_indexed :: u64
  dg_mirrored :: u64

record space_version =
  sv_domains :: "domain_generation list"
  sv_combined_hash :: hash32

definition space_version_new :: "domain_generation list \<Rightarrow> hash32 \<Rightarrow> merge_error + space_version" where
  "space_version_new domains combined =
     (if domains = [] \<or> length domains > 64 \<or>
         list_ex (\<lambda>(i, v). unat (dg_domain v) \<noteq> i) (enumerate 0 domains)
      then Inl (MergeError InvalidInput
        ''space version domains must be non-empty, bounded, and numerically contiguous'')
      else Inr \<lparr>sv_domains = domains, sv_combined_hash = combined\<rparr>)"

definition space_version_wf :: "space_version \<Rightarrow> bool" where
  "space_version_wf v \<longleftrightarrow> sv_domains v \<noteq> [] \<and> length (sv_domains v) \<le> 64 \<and>
     (\<forall>i<length (sv_domains v). unat (dg_domain (sv_domains v ! i)) = i) \<and>
     length (sv_combined_hash v) = 32"

lemma space_version_new_wf [wf_intros]:
  assumes "space_version_new ds h = Inr v" "length h = 32"
  shows "space_version_wf v"
proof -
  have "unat (dg_domain (ds ! i)) = i" if "i < length ds" for i
  proof -
    have "(i, ds ! i) \<in> set (enumerate 0 ds)" using that by (simp add: in_set_enumerate_eq)
    then show ?thesis
      using assms(1) by (auto simp: space_version_new_def list_ex_iff split: if_splits)
  qed
  then show ?thesis using assms
    by (auto simp: space_version_new_def space_version_wf_def split: if_splits)
qed

record snapshot_header =
  sh_format_version :: u16
  sh_snapshot_id :: uuid
  sh_space_id :: uuid
  sh_space_version :: space_version
  sh_entity_count :: u64
  sh_observation_count :: u64
  sh_relation_count :: u64
  sh_hash :: hash32

record snapshot_source =
  ss_header :: snapshot_header
  ss_entities :: "(merge_error + entity_record) list"
  ss_observations :: "(merge_error + observation_record) list"
  ss_relations :: "(merge_error + relation_record) list"

record memory_snapshot =
  ms_header :: snapshot_header
  ms_entities :: "entity_record list"
  ms_observations :: "observation_record list"
  ms_relations :: "relation_record list"
  ms_canonical_bytes :: nat

text \<open>\<open>impl SnapshotSource for MemorySnapshot\<close>: every record in order, no reader error.\<close>

definition memory_source :: "memory_snapshot \<Rightarrow> snapshot_source" where
  "memory_source m =
     \<lparr>ss_header = ms_header m, ss_entities = map Inr (ms_entities m),
      ss_observations = map Inr (ms_observations m), ss_relations = map Inr (ms_relations m)\<rparr>"

definition encode_domain :: "domain_generation \<Rightarrow> canonical_hasher \<Rightarrow> canonical_hasher" where
  "encode_domain d h =
     ch_u64 (dg_mirrored d) (ch_u64 (dg_indexed d) (ch_u64 (dg_semantic d) (ch_u16 (dg_domain d) h)))"

definition encode_space_version :: "space_version \<Rightarrow> canonical_hasher \<Rightarrow> canonical_hasher" where
  "encode_space_version value h =
     (let h = ch_usize (length (sv_domains value)) h;
          h = fold encode_domain (sv_domains value) h
      in ch_hash (sv_combined_hash value) h)"

definition compute_snapshot_hash ::
    "deps \<Rightarrow> uuid \<Rightarrow> uuid \<Rightarrow> space_version \<Rightarrow> entity_record list \<Rightarrow> observation_record list \<Rightarrow>
     relation_record list \<Rightarrow> hash32 \<times> nat" where
  "compute_snapshot_hash D snapshot space version entities observations relations =
     (let h = ch_new ''openmemory/space-snapshot/v1'';
          h = ch_u16 1 h;
          h = ch_snapshot_id D snapshot h;
          h = ch_space_id D space h;
          h = encode_space_version version h;
          h = ch_usize (length entities) h;
          h = fold (encode_entity D) entities h;
          h = ch_usize (length observations) h;
          h = fold (encode_observation D) observations h;
          h = ch_usize (length relations) h;
          h = fold (encode_relation D) relations h;
          canonical_bytes = encoded_len h
      in (ch_finish D h, canonical_bytes))"

definition validate_count :: "str \<Rightarrow> nat \<Rightarrow> merge_error + unit" where
  "validate_count name value =
     (if value > MAX_SNAPSHOT_RECORDS
      then Inl (MergeError BoundExceeded (name @ '' exceeds the snapshot hard limit''))
      else Inr ())"

fun validate_unique_loop ::
    "str \<Rightarrow> uuid \<Rightarrow> object_address option \<Rightarrow> object_address list \<Rightarrow> merge_error + unit" where
  "validate_unique_loop kind expected previous [] = Inr ()"
| "validate_unique_loop kind expected previous (v # vs) =
     (if oa_space v \<noteq> expected
      then Inl (MergeError InvalidInput (kind @ '' belongs to another space''))
      else if (case previous of None \<Rightarrow> False | Some prior \<Rightarrow> v \<le> prior)
      then Inl (MergeError DuplicateInput (kind @ '' addresses must be unique''))
      else validate_unique_loop kind expected (Some v) vs)"

definition validate_unique_addresses :: "str \<Rightarrow> object_address list \<Rightarrow> uuid \<Rightarrow> merge_error + unit" where
  "validate_unique_addresses kind vs expected = validate_unique_loop kind expected None vs"

definition has_dangling :: "entity_record list \<Rightarrow> observation_record list \<Rightarrow> relation_record list \<Rightarrow> bool" where
  "has_dangling entities observations relations =
     (let entity_ids = bs_of_list (map er_address entities) in
      list_ex (\<lambda>r. ob_entity r \<notin> set entity_ids) observations \<or>
      list_ex (\<lambda>r. re_subject r \<notin> set entity_ids \<or> re_object r \<notin> set entity_ids) relations)"

definition memory_snapshot_new ::
    "deps \<Rightarrow> uuid \<Rightarrow> uuid \<Rightarrow> space_version \<Rightarrow> entity_record list \<Rightarrow> observation_record list \<Rightarrow>
     relation_record list \<Rightarrow> merge_error + memory_snapshot" where
  "memory_snapshot_new D snapshot space version entities observations relations =
     bind_result (validate_count ''entities'' (length entities)) (\<lambda>_.
     bind_result (validate_count ''observations'' (length observations)) (\<lambda>_.
     bind_result (validate_count ''relations'' (length relations)) (\<lambda>_.
     let entities = sort_key er_address entities;
         observations = sort_key ob_address observations;
         relations = sort_key re_address relations
     in
     bind_result (validate_unique_addresses ''entity'' (map er_address entities) space) (\<lambda>_.
     bind_result (validate_unique_addresses ''observation'' (map ob_address observations) space) (\<lambda>_.
     bind_result (validate_unique_addresses ''relation'' (map re_address relations) space) (\<lambda>_.
     if has_dangling entities observations relations
     then Inl (MergeError DanglingEndpoint
       ''snapshot observation or relation references an absent entity'')
     else
       let (hash, canonical_bytes) =
             compute_snapshot_hash D snapshot space version entities observations relations;
           header = \<lparr>sh_format_version = 1, sh_snapshot_id = snapshot, sh_space_id = space,
             sh_space_version = version,
             sh_entity_count = u64_of_usize (length entities),
             sh_observation_count = u64_of_usize (length observations),
             sh_relation_count = u64_of_usize (length relations), sh_hash = hash\<rparr>
       in Inr \<lparr>ms_header = header, ms_entities = entities, ms_observations = observations,
            ms_relations = relations, ms_canonical_bytes = canonical_bytes\<rparr>))))))"

section \<open>Validation lemmas\<close>

lemma validate_unique_loop_ok: "validate_unique_loop kind sp prev vs = Inr () \<longleftrightarrow>
    (\<forall>v\<in>set vs. oa_space v = sp) \<and> sorted_wrt (<) vs \<and>
    (case prev of None \<Rightarrow> True | Some p \<Rightarrow> (\<forall>v\<in>set vs. p < v))"
proof (induction vs arbitrary: prev)
  case Nil
  then show ?case by (simp split: option.split)
next
  case (Cons v vs)
  show ?case
  proof (cases prev)
    case None
    then show ?thesis by (simp add: Cons.IH) blast
  next
    case (Some p)
    have "\<forall>w\<in>set vs. v < w \<longrightarrow> p < v \<longrightarrow> p < w" by (blast intro: less_trans)
    then show ?thesis by (cases "oa_space v = sp"; cases "p < v") (auto simp: Cons.IH Some not_le [symmetric])
  qed
qed

lemma validate_unique_addresses_ok: "validate_unique_addresses kind vs sp = Inr () \<longleftrightarrow>
    (\<forall>v\<in>set vs. oa_space v = sp) \<and> sorted_wrt (<) vs"
  by (simp add: validate_unique_addresses_def validate_unique_loop_ok)

lemma validate_count_ok: "validate_count name n = Inr () \<longleftrightarrow> n \<le> MAX_SNAPSHOT_RECORDS"
  by (auto simp: validate_count_def)

text \<open>What a validated set of record lists is, before any hash.\<close>

definition records_valid ::
    "uuid \<Rightarrow> entity_record list \<Rightarrow> observation_record list \<Rightarrow> relation_record list \<Rightarrow> bool" where
  "records_valid space es os rs \<longleftrightarrow>
     length es \<le> MAX_SNAPSHOT_RECORDS \<and> length os \<le> MAX_SNAPSHOT_RECORDS \<and>
     length rs \<le> MAX_SNAPSHOT_RECORDS \<and>
     sorted_wrt (<) (map er_address es) \<and> sorted_wrt (<) (map ob_address os) \<and>
     sorted_wrt (<) (map re_address rs) \<and>
     (\<forall>e\<in>set es. oa_space (er_address e) = space) \<and>
     (\<forall>r\<in>set os. oa_space (ob_address r) = space \<and> ob_entity r \<in> er_address ` set es) \<and>
     (\<forall>r\<in>set rs. oa_space (re_address r) = space \<and>
        re_subject r \<in> er_address ` set es \<and> re_object r \<in> er_address ` set es)"

definition snapshot_of ::
    "deps \<Rightarrow> uuid \<Rightarrow> uuid \<Rightarrow> space_version \<Rightarrow> entity_record list \<Rightarrow> observation_record list \<Rightarrow>
     relation_record list \<Rightarrow> memory_snapshot" where
  "snapshot_of D snapshot space version es os rs =
     (let (hash, n) = compute_snapshot_hash D snapshot space version es os rs in
      \<lparr>ms_header = \<lparr>sh_format_version = 1, sh_snapshot_id = snapshot, sh_space_id = space,
         sh_space_version = version, sh_entity_count = u64_of_usize (length es),
         sh_observation_count = u64_of_usize (length os),
         sh_relation_count = u64_of_usize (length rs), sh_hash = hash\<rparr>,
       ms_entities = es, ms_observations = os, ms_relations = rs, ms_canonical_bytes = n\<rparr>)"

lemma has_dangling_iff: "has_dangling es os rs \<longleftrightarrow>
    \<not> ((\<forall>r\<in>set os. ob_entity r \<in> er_address ` set es) \<and>
       (\<forall>r\<in>set rs. re_subject r \<in> er_address ` set es \<and> re_object r \<in> er_address ` set es))"
  by (auto simp: has_dangling_def list_ex_iff)

text \<open>The constructor succeeds exactly on lists that are valid once sorted, and then returns the
  snapshot of the sorted lists.\<close>

lemma ex_unit: "(\<exists>x::unit. P x) = P ()"
  by (metis old.unit.exhaust)

lemma memory_snapshot_new_ok:
  "memory_snapshot_new D sn sp v es os rs = Inr m \<longleftrightarrow>
     records_valid sp (sort_key er_address es) (sort_key ob_address os) (sort_key re_address rs) \<and>
     m = snapshot_of D sn sp v (sort_key er_address es) (sort_key ob_address os) (sort_key re_address rs)"
proof -
  have "memory_snapshot_new D sn sp v es os rs = Inr m \<longleftrightarrow>
     length es \<le> MAX_SNAPSHOT_RECORDS \<and> length os \<le> MAX_SNAPSHOT_RECORDS \<and>
     length rs \<le> MAX_SNAPSHOT_RECORDS \<and>
     validate_unique_addresses ''entity'' (map er_address (sort_key er_address es)) sp = Inr () \<and>
     validate_unique_addresses ''observation'' (map ob_address (sort_key ob_address os)) sp = Inr () \<and>
     validate_unique_addresses ''relation'' (map re_address (sort_key re_address rs)) sp = Inr () \<and>
     \<not> has_dangling (sort_key er_address es) (sort_key ob_address os) (sort_key re_address rs) \<and>
     m = snapshot_of D sn sp v (sort_key er_address es) (sort_key ob_address os) (sort_key re_address rs)"
    unfolding memory_snapshot_new_def bind_result_Inr Let_def case_prod_unfold snapshot_of_def
    by (simp only: ex_simps simp_thms ex_unit validate_count_ok length_sort) (auto split: if_splits)
  then show ?thesis
    by (simp only: validate_unique_addresses_ok has_dangling_iff records_valid_def length_sort)
      (simp, blast)
qed

lemma count_fits: "length xs \<le> MAX_SNAPSHOT_RECORDS \<Longrightarrow> fits xs"
  by (simp add: fits_def MAX_SNAPSHOT_RECORDS_def)

text \<open>A strictly sorted list is the sort of each of its permutations.\<close>

lemma sort_key_permutation:
  assumes "mset xs = mset ys" "sorted_wrt (<) (map f (sort_key f xs))"
  shows "sort_key f ys = sort_key f xs"
proof (rule map_sorted_distinct_set_unique [of f])
  have d: "distinct (map f (sort_key f xs))" "sorted (map f (sort_key f xs))"
    using assms(2) by (simp_all add: strict_sorted_iff)
  have m: "mset (map f (sort_key f ys)) = mset (map f (sort_key f xs))"
    using assms(1) by simp
  show "distinct (map f (sort_key f ys))"
    using d(1) m by (metis mset_eq_imp_distinct_iff)
  show "inj_on f (set (sort_key f ys) \<union> set (sort_key f xs))"
    using d(1) assms(1) by (metis Un_absorb distinct_map set_mset_mset mset_sort)
  show "set (sort_key f ys) = set (sort_key f xs)"
    using assms(1) by (metis set_mset_mset mset_sort)
qed (use assms(2) in \<open>simp_all add: strict_sorted_iff\<close>)

lemma sort_key_sorted_id: "sorted_wrt (<) (map f xs) \<Longrightarrow> sort_key f xs = xs"
  by (simp add: sorted_sort_id sort_key_id_if_sorted strict_sorted_imp_sorted)

section \<open>The snapshot hash input\<close>

definition domain_bytes :: "domain_generation \<Rightarrow> bytes" where
  "domain_bytes d = u16_le (dg_domain d) @ u64_le (dg_semantic d) @ u64_le (dg_indexed d) @
     u64_le (dg_mirrored d)"

interpretation domain_codec: canonical_codec encode_domain domain_bytes "\<lambda>_. True"
  by unfold_locales
    (auto simp: encode_domain_def domain_bytes_def canon_simps u16_le_unique u64_le_unique)

definition space_version_bytes :: "space_version \<Rightarrow> bytes" where
  "space_version_bytes v = usize_le (length (sv_domains v)) @
     concat (map domain_bytes (sv_domains v)) @ framed (sv_combined_hash v)"

interpretation space_version_codec: canonical_codec encode_space_version space_version_bytes
    space_version_wf
proof unfold_locales
  fix v h
  show "encode_space_version v h = ch_feed (space_version_bytes v) h"
    by (simp add: encode_space_version_def space_version_bytes_def Let_def canon_simps
        domain_codec.fold_feeds_feed)
next
  fix x y r s
  assume "space_version_wf x" "space_version_wf y"
  then have "fits (sv_domains x)" "fits (sv_domains y)" "fits (sv_combined_hash x)" "fits (sv_combined_hash y)"
    by (simp_all add: space_version_wf_def fits_def)
  then show "space_version_bytes x @ r = space_version_bytes y @ s \<longleftrightarrow> x = y \<and> r = s"
    by (auto simp: space_version_bytes_def domain_codec.list_unique framed_unique
        intro!: space_version.equality)
qed

definition snapshot_bytes ::
    "deps \<Rightarrow> uuid \<Rightarrow> uuid \<Rightarrow> space_version \<Rightarrow> entity_record list \<Rightarrow> observation_record list \<Rightarrow>
     relation_record list \<Rightarrow> bytes" where
  "snapshot_bytes D sn sp v es os rs =
     u16_le 1 @ uuid_bytes D sn @ uuid_bytes D sp @ space_version_bytes v @
     usize_le (length es) @ concat (map (entity_bytes D) es) @
     usize_le (length os) @ concat (map (observation_bytes D) os) @
     usize_le (length rs) @ concat (map (relation_bytes D) rs)"

lemma compute_snapshot_hash_bytes:
  "compute_snapshot_hash D sn sp v es os rs =
     (let h = ch_feed (snapshot_bytes D sn sp v es os rs) (ch_new ''openmemory/space-snapshot/v1'')
      in (ch_finish D h, encoded_len h))"
  by (simp add: compute_snapshot_hash_def snapshot_bytes_def Let_def canon_simps
      uuid_bytes_def [symmetric] space_version_codec.feeds entity_codec.fold_feeds_feed
      observation_codec.fold_feeds_feed relation_codec.fold_feeds_feed saturating_add_assoc add.assoc)

definition records_wf :: "entity_record list \<Rightarrow> observation_record list \<Rightarrow> relation_record list \<Rightarrow> bool" where
  "records_wf es os rs \<longleftrightarrow> list_all entity_wf es \<and> list_all observation_wf os \<and> list_all relation_wf rs"

lemma snapshot_bytes_inj:
  assumes "deps_ok D" "space_version_wf v" "space_version_wf v'"
    and "records_wf es os rs" "records_wf es' os' rs'"
    and "fits es" "fits os" "fits rs" "fits es'" "fits os'" "fits rs'"
  shows "snapshot_bytes D sn sp v es os rs = snapshot_bytes D sn' sp' v' es' os' rs' \<longleftrightarrow>
    sn = sn' \<and> sp = sp' \<and> v = v' \<and> es = es' \<and> os = os' \<and> rs = rs'"
  using assms relation_codec.list_unique [of rs rs' D "[]" "[]"]
  by (auto simp: snapshot_bytes_def u16_le_unique uuid_bytes_unique space_version_codec.unique
      entity_codec.list_unique observation_codec.list_unique records_wf_def list_all_iff)

section \<open>Properties\<close>

text \<open>The three record kinds, as the inputs of the semantic hash.\<close>

datatype semantic_record =
    SemanticEntity entity_record | SemanticObservation observation_record
  | SemanticRelation relation_record

fun semantic_input :: "deps \<Rightarrow> semantic_record \<Rightarrow> bytes" where
  "semantic_input D (SemanticEntity e) = inner (encode_entity D e (ch_new ''openmemory/entity/v1''))"
| "semantic_input D (SemanticObservation r) =
     inner (encode_observation D r (ch_new ''openmemory/observation/v1''))"
| "semantic_input D (SemanticRelation r) =
     inner (encode_relation D r (ch_new ''openmemory/relation/v1''))"

fun semantic_wf :: "semantic_record \<Rightarrow> bool" where
  "semantic_wf (SemanticEntity e) = entity_wf e"
| "semantic_wf (SemanticObservation r) = observation_wf r"
| "semantic_wf (SemanticRelation r) = relation_wf r"

text \<open>
  The bytes that the semantic hash feeds to BLAKE3 determine the record, its kind included:
  on records the constructors accept, two inputs are equal exactly when the records are.
\<close>

theorem semantic_input_binds_record:
  assumes "deps_ok D" "semantic_wf x" "semantic_wf y"
  shows "semantic_input D x = semantic_input D y \<longleftrightarrow> x = y"
  using assms
  by (cases x; cases y)
    (simp_all add: entity_codec.feeds observation_codec.feeds relation_codec.feeds
      ch_new_feed_inj fits_def entity_codec.out_inj observation_codec.out_inj relation_codec.out_inj
      del: inner_ch_feed)

text \<open>
  A snapshot does not depend on the order in which its records are supplied: permuting the
  three input lists gives the same snapshot, hash and canonical size included.
\<close>

theorem snapshot_order_independent:
  assumes "memory_snapshot_new D sn sp v es os rs = Inr m"
    and "mset es' = mset es" "mset os' = mset os" "mset rs' = mset rs"
  shows "memory_snapshot_new D sn sp v es' os' rs' = Inr m"
proof -
  have ok: "records_valid sp (sort_key er_address es) (sort_key ob_address os) (sort_key re_address rs)"
    using assms(1) unfolding memory_snapshot_new_ok by simp
  then have "sort_key er_address es' = sort_key er_address es" "sort_key ob_address os' = sort_key ob_address os"
      "sort_key re_address rs' = sort_key re_address rs"
    using assms(2-4) by (auto simp: records_valid_def intro!: sort_key_permutation)
  then show ?thesis using assms(1) unfolding memory_snapshot_new_ok by simp
qed

text \<open>
  A snapshot's hash input binds everything the snapshot holds: over well-formed records and
  versions, two snapshots feed BLAKE3 the same bytes exactly when their snapshot ids, spaces,
  versions and sorted records agree.
\<close>

theorem snapshot_input_binds_content:
  assumes "deps_ok D" "space_version_wf v" "space_version_wf v'"
    and "records_wf es os rs" "records_wf es' os' rs'"
    and "memory_snapshot_new D sn sp v es os rs = Inr m"
    and "memory_snapshot_new D sn' sp' v' es' os' rs' = Inr m'"
  shows "snapshot_bytes D sn sp v (ms_entities m) (ms_observations m) (ms_relations m) =
     snapshot_bytes D sn' sp' v' (ms_entities m') (ms_observations m') (ms_relations m') \<longleftrightarrow>
    sn = sn' \<and> sp = sp' \<and> v = v' \<and> ms_entities m = ms_entities m' \<and>
    ms_observations m = ms_observations m' \<and> ms_relations m = ms_relations m'"
proof -
  have "records_wf (ms_entities m) (ms_observations m) (ms_relations m)"
      "records_wf (ms_entities m') (ms_observations m') (ms_relations m')"
    using assms(4-7) unfolding memory_snapshot_new_ok
    by (auto simp: records_wf_def list_all_iff snapshot_of_def case_prod_unfold Let_def)
  moreover have "length (ms_entities m) \<le> MAX_SNAPSHOT_RECORDS" "length (ms_observations m) \<le> MAX_SNAPSHOT_RECORDS"
      "length (ms_relations m) \<le> MAX_SNAPSHOT_RECORDS" "length (ms_entities m') \<le> MAX_SNAPSHOT_RECORDS"
      "length (ms_observations m') \<le> MAX_SNAPSHOT_RECORDS" "length (ms_relations m') \<le> MAX_SNAPSHOT_RECORDS"
    using assms(6,7) unfolding memory_snapshot_new_ok
    by (simp_all add: records_valid_def snapshot_of_def case_prod_unfold Let_def)
  ultimately show ?thesis
    by (intro snapshot_bytes_inj assms(1-3) count_fits) simp_all
qed

end
