(* ===== verification/Om_Plan.thy ===== *)
theory Om_Plan
  imports Om_Receipt Om_Snapshot
begin

text \<open>
  The planner's data (\<open>planner.rs\<close>): policy, receipts, actions, counts, accounting, the plan, the
  sink protocol with the bounded memory sink, and the canonical encoding of actions and plans.
  A sink is a record of its four operations over its own state; \<open>emits\<close> is a run of successful
  emissions. The locale \<open>action_log\<close> is what a sink promises about the actions it holds.
\<close>

definition MERGE_PLAN_VERSION :: u16 where "MERGE_PLAN_VERSION = 1"
definition MAX_ACTIONS :: nat where "MAX_ACTIONS = 3000000"

section \<open>Policy and receipts\<close>

record merge_policy =
  mp_version :: u16
  mp_identity_policy_generation :: u64
  mp_allowed_self_loop_predicates :: "str btree_set"

definition merge_policy_new :: "u16 \<Rightarrow> u64 \<Rightarrow> merge_error + merge_policy" where
  "merge_policy_new version identity_policy_generation =
     (if version = 0 \<or> identity_policy_generation = 0
      then Inl (MergeError InvalidInput
        ''merge policy and identity policy generations must be positive'')
      else Inr \<lparr>mp_version = version, mp_identity_policy_generation = identity_policy_generation,
        mp_allowed_self_loop_predicates = []\<rparr>)"

definition with_allowed_self_loops :: "str list \<Rightarrow> merge_policy \<Rightarrow> merge_error + merge_policy" where
  "with_allowed_self_loops items p =
     (let predicates = bs_of_list items in
      if length predicates > 64 \<or>
         list_ex (\<lambda>predicate. predicate = [] \<or> length predicate > 128 \<or> has_control predicate) predicates
      then Inl (MergeError BoundExceeded ''self-loop predicate policy exceeds bounds'')
      else Inr (p\<lparr>mp_allowed_self_loop_predicates := predicates\<rparr>))"

definition allows_self_loop :: "merge_policy \<Rightarrow> str \<Rightarrow> bool" where
  "allows_self_loop p predicate \<longleftrightarrow> predicate \<in> set (mp_allowed_self_loop_predicates p)"

record planning_receipts =
  pr_discoveries :: "discovery_receipt list"
  pr_resolutions :: "identity_resolution_receipt list"
  pr_keep_distinct :: "keep_distinct_receipt list"

section \<open>Actions\<close>

datatype distinct_reason = NoCandidate | ReviewedDifferent | KeepDistinct

fun reason_u16 :: "distinct_reason \<Rightarrow> u16" where
  "reason_u16 NoCandidate = 0"
| "reason_u16 ReviewedDifferent = 1"
| "reason_u16 KeepDistinct = 2"

datatype entity_disposition =
    Coalesce object_address object_address hash32
  | AddDistinct object_address str distinct_reason "hash32 option"

datatype merge_action =
    KeepTargetEntity entity_record
  | ApplyEntityDisposition entity_record entity_disposition
  | KeepTargetObservation observation_record result_object_id
  | AddObservation observation_record str result_object_id
  | MergeObservationOrigin observation_record result_object_id result_object_id
  | KeepTargetRelation relation_record result_object_id result_object_id
  | AddRelation relation_record str result_object_id result_object_id
  | MergeRelationOrigin relation_record result_object_id result_object_id result_object_id

record action_counts =
  target_entities :: u64
  source_entities :: u64
  coalesced_entities :: u64
  added_entities :: u64
  target_observations :: u64
  source_observations :: u64
  added_observations :: u64
  merged_observations :: u64
  target_relations :: u64
  source_relations :: u64
  added_relations :: u64
  merged_relations :: u64

definition counts_default :: action_counts where
  "counts_default = \<lparr>target_entities = 0, source_entities = 0, coalesced_entities = 0,
     added_entities = 0, target_observations = 0, source_observations = 0,
     added_observations = 0, merged_observations = 0, target_relations = 0,
     source_relations = 0, added_relations = 0, merged_relations = 0\<rparr>"

definition total_actions :: "action_counts \<Rightarrow> u64" where
  "total_actions c = target_entities c + source_entities c + target_observations c +
     source_observations c + target_relations c + source_relations c"

record merge_accounting =
  consumed_candidates :: u64
  consumed_discoveries :: u64
  consumed_resolutions :: u64
  consumed_keep_distinct :: u64
  result_entities :: u64
  result_observations :: u64
  result_relations :: u64
  retained_origins :: u64

definition accounting_default :: merge_accounting where
  "accounting_default = \<lparr>consumed_candidates = 0, consumed_discoveries = 0,
     consumed_resolutions = 0, consumed_keep_distinct = 0, result_entities = 0,
     result_observations = 0, result_relations = 0, retained_origins = 0\<rparr>"

record plan_prelude =
  pp_version :: u16
  pp_source_space :: uuid
  pp_target_space :: uuid
  pp_source_snapshot_hash :: hash32
  pp_target_snapshot_hash :: hash32
  pp_expected_target_version :: space_version
  pp_policy_version :: u16
  pp_identity_policy_generation :: u64

record merge_plan =
  mpl_prelude :: plan_prelude
  mpl_action_stream_hash :: hash32
  mpl_action_counts :: action_counts
  mpl_accounting :: merge_accounting
  mpl_predicted_result_hash :: hash32
  mpl_plan_hash :: hash32

section \<open>Sinks\<close>

record 's action_sink =
  snk_begin :: "plan_prelude \<Rightarrow> ('s, merge_error, unit) run"
  snk_emit :: "merge_action \<Rightarrow> ('s, merge_error, unit) run"
  snk_finish :: "merge_plan \<Rightarrow> ('s, merge_error, unit) run"
  snk_abort :: "'s \<Rightarrow> 's"

datatype memory_sink_state = Idle | Begun | Finished | Aborted

record memory_action_sink =
  mas_max_actions :: nat
  mas_state :: memory_sink_state
  mas_prelude :: "plan_prelude option"
  mas_actions :: "merge_action list"
  mas_plan :: "merge_plan option"

definition memory_sink_new :: "nat \<Rightarrow> merge_error + memory_action_sink" where
  "memory_sink_new max_actions =
     (if max_actions = 0 \<or> max_actions > MAX_ACTIONS
      then Inl (MergeError BoundExceeded ''sink action bound must be within 1..=3,000,000'')
      else Inr \<lparr>mas_max_actions = max_actions, mas_state = Idle, mas_prelude = None,
        mas_actions = [], mas_plan = None\<rparr>)"

definition memory_begin :: "plan_prelude \<Rightarrow> (memory_action_sink, merge_error, unit) run" where
  "memory_begin prelude s =
     (if mas_state s \<noteq> Idle
      then (Inl (MergeError ProtocolViolation ''sink begin called outside idle state''), s)
      else (Inr (), s\<lparr>mas_prelude := Some prelude, mas_state := Begun\<rparr>))"

definition memory_emit :: "merge_action \<Rightarrow> (memory_action_sink, merge_error, unit) run" where
  "memory_emit action s =
     (if mas_state s \<noteq> Begun
      then (Inl (MergeError ProtocolViolation ''sink emit called outside begun state''), s)
      else if length (mas_actions s) = mas_max_actions s
      then (Inl (MergeError SinkFailure ''sink action capacity exceeded''), s)
      else (Inr (), s\<lparr>mas_actions := mas_actions s @ [action]\<rparr>))"

definition memory_finish :: "merge_plan \<Rightarrow> (memory_action_sink, merge_error, unit) run" where
  "memory_finish plan s =
     (if mas_state s \<noteq> Begun
      then (Inl (MergeError ProtocolViolation ''sink finish called outside begun state''), s)
      else if mas_prelude s \<noteq> Some (mpl_prelude plan)
      then (Inl (MergeError ProtocolViolation ''finished plan does not match begun prelude''), s)
      else (Inr (), s\<lparr>mas_plan := Some plan, mas_state := Finished\<rparr>))"

definition memory_abort :: "memory_action_sink \<Rightarrow> memory_action_sink" where
  "memory_abort s =
     (if mas_state s \<noteq> Finished
      then s\<lparr>mas_plan := None, mas_actions := [], mas_state := Aborted\<rparr> else s)"

definition memory_sink :: "memory_action_sink action_sink" where
  "memory_sink = \<lparr>snk_begin = memory_begin, snk_emit = memory_emit, snk_finish = memory_finish,
     snk_abort = memory_abort\<rparr>"

fun emits :: "'s action_sink \<Rightarrow> merge_action list \<Rightarrow> 's \<Rightarrow> 's \<Rightarrow> bool" where
  "emits K [] s s' \<longleftrightarrow> s' = s"
| "emits K (a # as) s s' \<longleftrightarrow> (\<exists>s1. snk_emit K a s = (Inr (), s1) \<and> emits K as s1 s')"

lemma emits_append: "emits K (as @ bs) s s' \<longleftrightarrow> (\<exists>s1. emits K as s s1 \<and> emits K bs s1 s')"
  by (induction as arbitrary: s) auto

lemma emits_snoc: "emits K as s s1 \<Longrightarrow> snk_emit K a s1 = (Inr (), s2) \<Longrightarrow> emits K (as @ [a]) s s2"
  by (auto simp: emits_append)

text \<open>What a sink promises: while it is open it holds the actions emitted since it began, a
  finished sink publishes the plan it was given, and an open sink that is aborted publishes
  nothing.\<close>

locale action_log =
  fixes K :: "'s action_sink"
    and open_log :: "'s \<Rightarrow> bool"
    and log :: "'s \<Rightarrow> merge_action list"
    and published :: "'s \<Rightarrow> merge_plan option"
  assumes begin_open: "snk_begin K p s = (Inr (), s') \<Longrightarrow> open_log s' \<and> log s' = log s"
    and begin_keeps: "snk_begin K p s = (Inl e, s') \<Longrightarrow> s' = s"
    and emit_logs: "open_log s \<Longrightarrow> snk_emit K a s = (Inr (), s') \<Longrightarrow> open_log s' \<and> log s' = log s @ [a]"
    and emit_keeps: "open_log s \<Longrightarrow> snk_emit K a s = (Inl e, s') \<Longrightarrow> s' = s"
    and finish_publishes: "open_log s \<Longrightarrow> snk_finish K plan s = (Inr (), s') \<Longrightarrow>
      published s' = Some plan \<and> log s' = log s"
    and finish_keeps: "open_log s \<Longrightarrow> snk_finish K plan s = (Inl e, s') \<Longrightarrow> s' = s"
    and abort_discards: "open_log s \<Longrightarrow> published (snk_abort K s) = None \<and> log (snk_abort K s) = []"
begin

lemma emits_log: "open_log s \<Longrightarrow> emits K as s s' \<Longrightarrow> open_log s' \<and> log s' = log s @ as"
  by (induction as arbitrary: s) (auto dest: emit_logs)

end

interpretation memory_log: action_log memory_sink "\<lambda>s. mas_state s = Begun" mas_actions mas_plan
  by unfold_locales
    (auto simp: memory_sink_def memory_begin_def memory_emit_def memory_finish_def memory_abort_def
      split: if_splits)

section \<open>Canonical encoding of actions\<close>

definition encode_disposition :: "deps \<Rightarrow> entity_disposition \<Rightarrow> canonical_hasher \<Rightarrow> canonical_hasher" where
  "encode_disposition D disposition h =
     (case disposition of
        Coalesce source target receipt \<Rightarrow>
          ch_hash receipt (encode_address D target (encode_address D source (ch_u16 1 h)))
      | AddDistinct source result reason receipt \<Rightarrow>
          (let h = ch_u16 2 h;
               h = encode_address D source h;
               h = ch_text result h;
               h = ch_u16 (reason_u16 reason) h;
               h = ch_bool (receipt \<noteq> None) h
           in case receipt of None \<Rightarrow> h | Some r \<Rightarrow> ch_hash r h))"

definition encode_action :: "deps \<Rightarrow> merge_action \<Rightarrow> canonical_hasher \<Rightarrow> canonical_hasher" where
  "encode_action D action h =
     (case action of
        KeepTargetEntity target \<Rightarrow> encode_entity D target (ch_u16 1 h)
      | ApplyEntityDisposition source disposition \<Rightarrow>
          encode_disposition D disposition (encode_entity D source (ch_u16 2 h))
      | KeepTargetObservation target result_entity \<Rightarrow>
          encode_result_id result_entity (encode_observation D target (ch_u16 3 h))
      | AddObservation source result result_entity \<Rightarrow>
          encode_result_id result_entity (ch_text result (encode_observation D source (ch_u16 4 h)))
      | MergeObservationOrigin source target result_entity \<Rightarrow>
          encode_result_id result_entity (encode_result_id target (encode_observation D source (ch_u16 5 h)))
      | KeepTargetRelation target result_subject result_object \<Rightarrow>
          encode_result_id result_object (encode_result_id result_subject
            (encode_relation D target (ch_u16 6 h)))
      | AddRelation source result result_subject result_object \<Rightarrow>
          encode_result_id result_object (encode_result_id result_subject
            (ch_text result (encode_relation D source (ch_u16 7 h))))
      | MergeRelationOrigin source target result_subject result_object \<Rightarrow>
          encode_result_id result_object (encode_result_id result_subject
            (encode_result_id target (encode_relation D source (ch_u16 8 h)))))"

definition encode_counts :: "action_counts \<Rightarrow> canonical_hasher \<Rightarrow> canonical_hasher" where
  "encode_counts v h =
     (let h = ch_u64 (target_entities v) h;
          h = ch_u64 (source_entities v) h;
          h = ch_u64 (coalesced_entities v) h;
          h = ch_u64 (added_entities v) h;
          h = ch_u64 (target_observations v) h;
          h = ch_u64 (source_observations v) h;
          h = ch_u64 (added_observations v) h;
          h = ch_u64 (merged_observations v) h;
          h = ch_u64 (target_relations v) h;
          h = ch_u64 (source_relations v) h;
          h = ch_u64 (added_relations v) h
      in ch_u64 (merged_relations v) h)"

definition encode_accounting :: "merge_accounting \<Rightarrow> canonical_hasher \<Rightarrow> canonical_hasher" where
  "encode_accounting v h =
     (let h = ch_u64 (consumed_candidates v) h;
          h = ch_u64 (consumed_discoveries v) h;
          h = ch_u64 (consumed_resolutions v) h;
          h = ch_u64 (consumed_keep_distinct v) h;
          h = ch_u64 (result_entities v) h;
          h = ch_u64 (result_observations v) h;
          h = ch_u64 (result_relations v) h
      in ch_u64 (retained_origins v) h)"

definition hash_plan ::
    "deps \<Rightarrow> plan_prelude \<Rightarrow> hash32 \<Rightarrow> action_counts \<Rightarrow> merge_accounting \<Rightarrow> hash32 \<Rightarrow> hash32" where
  "hash_plan D prelude action_stream_hash counts accounting predicted =
     (let h = ch_new ''openmemory/merge-plan/v1'';
          h = ch_u16 (pp_version prelude) h;
          h = ch_space_id D (pp_source_space prelude) h;
          h = ch_space_id D (pp_target_space prelude) h;
          h = ch_hash (pp_source_snapshot_hash prelude) h;
          h = ch_hash (pp_target_snapshot_hash prelude) h;
          h = encode_space_version (pp_expected_target_version prelude) h;
          h = ch_u16 (pp_policy_version prelude) h;
          h = ch_u64 (pp_identity_policy_generation prelude) h;
          h = ch_hash action_stream_hash h;
          h = encode_counts counts h;
          h = encode_accounting accounting h;
          h = ch_hash predicted h
      in ch_finish D h)"

section \<open>The predicted result\<close>

type_synonym result_token = "u16 \<times> hash32"

definition origins_only :: "deps \<Rightarrow> u16 \<Rightarrow> result_object_id \<Rightarrow> origin_contribution btree_set \<Rightarrow> result_token list" where
  "origins_only D kind result origins =
     map (\<lambda>origin.
       (let h = ch_new ''openmemory/result-origin/v1'';
            h = ch_u16 kind h;
            h = encode_result_id result h;
            h = encode_origin D origin h
        in (kind, ch_finish D h))) origins"

definition projection_and_origins ::
    "deps \<Rightarrow> u16 \<Rightarrow> u16 \<Rightarrow> result_object_id \<Rightarrow> hash32 \<Rightarrow> origin_contribution btree_set \<Rightarrow> result_token list" where
  "projection_and_origins D projection_kind origin_kind result projection origins =
     [(projection_kind, projection)] @ origins_only D origin_kind result origins"

definition entity_projection :: "deps \<Rightarrow> result_object_id \<Rightarrow> entity_record \<Rightarrow> hash32" where
  "entity_projection D result e =
     (let h = ch_new ''openmemory/result-entity-projection/v1'';
          h = encode_result_id result h;
          h = ch_revision_id D (er_revision e) h;
          h = ch_u16 (lifecycle_u16 (er_lifecycle e)) h;
          h = ch_text (er_label e) h;
          h = ch_optional_text (er_kind e) h;
          h = ch_optional_text (er_lineage e) h;
          h = ch_usize (length (er_aliases e)) h;
          h = fold ch_text (er_aliases e) h;
          h = ch_usize (length (er_identifiers e)) h;
          h = fold (encode_identifier D) (er_identifiers e) h;
          h = ch_usize (length (er_properties e)) h;
          h = fold encode_property (er_properties e) h
      in ch_finish D h)"

definition observation_projection ::
    "deps \<Rightarrow> result_object_id \<Rightarrow> result_object_id \<Rightarrow> observation_record \<Rightarrow> hash32" where
  "observation_projection D result result_entity r =
     (let h = ch_new ''openmemory/result-observation-projection/v1'';
          h = encode_result_id result h;
          h = encode_result_id result_entity h;
          h = ch_revision_id D (ob_revision r) h;
          h = ch_u16 (lifecycle_u16 (ob_lifecycle r)) h;
          h = ch_text (ob_content r) h
      in ch_finish D h)"

definition relation_projection ::
    "deps \<Rightarrow> result_object_id \<Rightarrow> result_object_id \<Rightarrow> result_object_id \<Rightarrow> relation_record \<Rightarrow> hash32" where
  "relation_projection D result subject obj r =
     (let h = ch_new ''openmemory/result-relation-projection/v1'';
          h = encode_result_id result h;
          h = encode_result_id subject h;
          h = ch_text (re_predicate r) h;
          h = encode_result_id obj h;
          h = ch_revision_id D (re_revision r) h;
          h = ch_u16 (lifecycle_u16 (re_lifecycle r)) h
      in ch_finish D h)"

definition result_tokens :: "deps \<Rightarrow> merge_action \<Rightarrow> result_token list" where
  "result_tokens D action =
     (case action of
        KeepTargetEntity target \<Rightarrow>
          (let result = ResTarget (oa_logical (er_address target)) in
           projection_and_origins D 1 2 result (entity_projection D result target) (er_origins target))
      | ApplyEntityDisposition source disposition \<Rightarrow>
          (case disposition of
             Coalesce _ target _ \<Rightarrow> origins_only D 2 (ResTarget (oa_logical target)) (er_origins source)
           | AddDistinct _ result _ _ \<Rightarrow>
               (let result = ResQualified result in
                projection_and_origins D 1 2 result (entity_projection D result source) (er_origins source)))
      | KeepTargetObservation target result_entity \<Rightarrow>
          (let result = ResTarget (oa_logical (ob_address target)) in
           projection_and_origins D 3 4 result (observation_projection D result result_entity target)
             (ob_origins target))
      | AddObservation source result result_entity \<Rightarrow>
          (let result = ResQualified result in
           projection_and_origins D 3 4 result (observation_projection D result result_entity source)
             (ob_origins source))
      | MergeObservationOrigin source target _ \<Rightarrow> origins_only D 4 target (ob_origins source)
      | KeepTargetRelation target result_subject result_object \<Rightarrow>
          (let result = ResTarget (oa_logical (re_address target)) in
           projection_and_origins D 5 6 result
             (relation_projection D result result_subject result_object target) (re_origins target))
      | AddRelation source result result_subject result_object \<Rightarrow>
          (let result = ResQualified result in
           projection_and_origins D 5 6 result
             (relation_projection D result result_subject result_object source) (re_origins source))
      | MergeRelationOrigin source target _ _ \<Rightarrow> origins_only D 6 target (re_origins source))"

definition hash_result_tokens :: "deps \<Rightarrow> result_token list \<Rightarrow> hash32" where
  "hash_result_tokens D tokens =
     (let h = ch_new ''openmemory/predicted-result/v1'';
          h = ch_usize (length tokens) h;
          h = fold (\<lambda>(kind, value) h. ch_hash value (ch_u16 kind h)) tokens h
      in ch_finish D h)"

text \<open>\<open>sort_unstable\<close> and \<open>dedup\<close>.\<close>

definition canonical_tokens :: "result_token list \<Rightarrow> result_token list" where
  "canonical_tokens tokens = remdups_adj (sort tokens)"

section \<open>Independent verification of a plan\<close>

definition count_action :: "merge_action \<Rightarrow> action_counts \<Rightarrow> action_counts" where
  "count_action action c =
     (case action of
        KeepTargetEntity _ \<Rightarrow> c\<lparr>target_entities := target_entities c + 1\<rparr>
      | ApplyEntityDisposition _ disposition \<Rightarrow>
          (let c = c\<lparr>source_entities := source_entities c + 1\<rparr> in
           case disposition of
             Coalesce _ _ _ \<Rightarrow> c\<lparr>coalesced_entities := coalesced_entities c + 1\<rparr>
           | AddDistinct _ _ _ _ \<Rightarrow> c\<lparr>added_entities := added_entities c + 1\<rparr>)
      | KeepTargetObservation _ _ \<Rightarrow> c\<lparr>target_observations := target_observations c + 1\<rparr>
      | AddObservation _ _ _ \<Rightarrow> c\<lparr>source_observations := source_observations c + 1,
          added_observations := added_observations c + 1\<rparr>
      | MergeObservationOrigin _ _ _ \<Rightarrow> c\<lparr>source_observations := source_observations c + 1,
          merged_observations := merged_observations c + 1\<rparr>
      | KeepTargetRelation _ _ _ \<Rightarrow> c\<lparr>target_relations := target_relations c + 1\<rparr>
      | AddRelation _ _ _ _ \<Rightarrow> c\<lparr>source_relations := source_relations c + 1,
          added_relations := added_relations c + 1\<rparr>
      | MergeRelationOrigin _ _ _ _ \<Rightarrow> c\<lparr>source_relations := source_relations c + 1,
          merged_relations := merged_relations c + 1\<rparr>)"

definition verify_plan :: "deps \<Rightarrow> merge_action list \<Rightarrow> merge_plan \<Rightarrow> merge_error + unit" where
  "verify_plan D actions plan =
     (if u64_of_usize (length actions) \<noteq> total_actions (mpl_action_counts plan)
      then Inl (MergeError AccountingMismatch ''action length does not match plan counts'')
      else
        let action_hash = ch_finish D (fold (encode_action D) actions (ch_new ''openmemory/merge-actions/v1''));
            tokens = canonical_tokens (concat (map (result_tokens D) actions));
            counts = fold count_action actions counts_default;
            predicted = hash_result_tokens D tokens;
            plan_hash = hash_plan D (mpl_prelude plan) action_hash counts (mpl_accounting plan) predicted
        in if action_hash \<noteq> mpl_action_stream_hash plan \<or>
              predicted \<noteq> mpl_predicted_result_hash plan \<or>
              counts \<noteq> mpl_action_counts plan \<or> plan_hash \<noteq> mpl_plan_hash plan
           then Inl (MergeError AccountingMismatch
             ''plan hashes or semantic action structure do not verify'')
           else Inr ())"

lemma total_count_action: "total_actions (count_action a c) = total_actions c + 1"
  by (simp add: count_action_def total_actions_def Let_def
      split: merge_action.split entity_disposition.split)

lemma total_fold_count: "total_actions (fold count_action as c) = total_actions c + of_nat (length as)"
  by (induction as arbitrary: c) (simp_all add: total_count_action)

lemma total_counts_default [simp]: "total_actions counts_default = 0"
  by (simp add: total_actions_def counts_default_def)

lemma total_actions_length:
  "total_actions (fold count_action as counts_default) = of_nat (length as)"
  by (simp add: total_fold_count)

end
