(* ===== verification/Om_Verifier.thy ===== *)
theory Om_Verifier
  imports Om_Plan
begin

text \<open>
  The streaming \<open>SnapshotVerifier\<close> of \<open>planner.rs\<close>: it recomputes the snapshot hash while the
  records pass by, and checks sections, order, space and counts. A verifier that fails is not
  used again, so an operation returns the error or the next state. The result is that a complete
  run is accepted exactly when the records form a valid section order with the header's counts
  and hash, and that every \<open>MemorySnapshot\<close> streams an accepted run.
\<close>

record snapshot_verifier =
  vf_expected :: snapshot_header
  vf_hash :: "canonical_hasher option"
  vf_previous :: "object_address option"
  vf_entities :: u64
  vf_observations :: u64
  vf_relations :: u64
  vf_stage :: u8

definition verifier_new :: "deps \<Rightarrow> snapshot_header \<Rightarrow> merge_error + snapshot_verifier" where
  "verifier_new D header =
     (if sh_format_version header \<noteq> 1
      then Inl (MergeError InvalidInput ''unsupported snapshot format'')
      else
        let h = ch_new ''openmemory/space-snapshot/v1'';
            h = ch_u16 (sh_format_version header) h;
            h = ch_snapshot_id D (sh_snapshot_id header) h;
            h = ch_space_id D (sh_space_id header) h;
            h = encode_space_version (sh_space_version header) h;
            h = ch_u64 (sh_entity_count header) h
        in Inr \<lparr>vf_expected = header, vf_hash = Some h, vf_previous = None, vf_entities = 0,
             vf_observations = 0, vf_relations = 0, vf_stage = 1\<rparr>)"

definition verifier_hash_mut :: "snapshot_verifier \<Rightarrow> merge_error + canonical_hasher" where
  "verifier_hash_mut v =
     (case vf_hash v of
        None \<Rightarrow> Inl (MergeError ProtocolViolation ''snapshot verifier has already finished'')
      | Some h \<Rightarrow> Inr h)"

definition ensure_record :: "u8 \<Rightarrow> object_address \<Rightarrow> snapshot_verifier \<Rightarrow> merge_error + snapshot_verifier" where
  "ensure_record stage address v =
     (if vf_stage v \<noteq> stage
      then Inl (MergeError ProtocolViolation ''snapshot record section is out of order'')
      else if oa_space address \<noteq> sh_space_id (vf_expected v)
      then Inl (MergeError InvalidInput ''snapshot record belongs to another space'')
      else if (case vf_previous v of None \<Rightarrow> False | Some previous \<Rightarrow> previous \<ge> address)
      then Inl (MergeError UnsortedInput ''snapshot records are not strictly sorted and unique'')
      else Inr (v\<lparr>vf_previous := Some address\<rparr>))"

definition verifier_entity :: "deps \<Rightarrow> entity_record \<Rightarrow> snapshot_verifier \<Rightarrow> merge_error + snapshot_verifier" where
  "verifier_entity D r v =
     bind_result (ensure_record 1 (er_address r) v) (\<lambda>v.
     bind_result (verifier_hash_mut v) (\<lambda>h.
       Inr (v\<lparr>vf_hash := Some (encode_entity D r h), vf_entities := vf_entities v + 1\<rparr>)))"

definition verifier_end_entities :: "snapshot_verifier \<Rightarrow> merge_error + snapshot_verifier" where
  "verifier_end_entities v =
     (if vf_stage v \<noteq> 1 \<or> vf_entities v \<noteq> sh_entity_count (vf_expected v)
      then Inl (MergeError SnapshotMismatch ''snapshot entity count differs from its header'')
      else bind_result (verifier_hash_mut v) (\<lambda>h.
        Inr (v\<lparr>vf_hash := Some (ch_u64 (sh_observation_count (vf_expected v)) h),
          vf_previous := None, vf_stage := 2\<rparr>)))"

definition verifier_observation ::
    "deps \<Rightarrow> observation_record \<Rightarrow> snapshot_verifier \<Rightarrow> merge_error + snapshot_verifier" where
  "verifier_observation D r v =
     bind_result (ensure_record 2 (ob_address r) v) (\<lambda>v.
     bind_result (verifier_hash_mut v) (\<lambda>h.
       Inr (v\<lparr>vf_hash := Some (encode_observation D r h), vf_observations := vf_observations v + 1\<rparr>)))"

definition verifier_end_observations :: "snapshot_verifier \<Rightarrow> merge_error + snapshot_verifier" where
  "verifier_end_observations v =
     (if vf_stage v \<noteq> 2 \<or> vf_observations v \<noteq> sh_observation_count (vf_expected v)
      then Inl (MergeError SnapshotMismatch ''snapshot observation count differs from its header'')
      else bind_result (verifier_hash_mut v) (\<lambda>h.
        Inr (v\<lparr>vf_hash := Some (ch_u64 (sh_relation_count (vf_expected v)) h),
          vf_previous := None, vf_stage := 3\<rparr>)))"

definition verifier_relation ::
    "deps \<Rightarrow> relation_record \<Rightarrow> snapshot_verifier \<Rightarrow> merge_error + snapshot_verifier" where
  "verifier_relation D r v =
     bind_result (ensure_record 3 (re_address r) v) (\<lambda>v.
     bind_result (verifier_hash_mut v) (\<lambda>h.
       Inr (v\<lparr>vf_hash := Some (encode_relation D r h), vf_relations := vf_relations v + 1\<rparr>)))"

definition verifier_finish :: "deps \<Rightarrow> snapshot_verifier \<Rightarrow> merge_error + snapshot_verifier" where
  "verifier_finish D v =
     (if vf_stage v \<noteq> 3 \<or> vf_relations v \<noteq> sh_relation_count (vf_expected v)
      then Inl (MergeError SnapshotMismatch ''snapshot relation count differs from its header'')
      else bind_result (verifier_hash_mut v) (\<lambda>h.
        if ch_finish D h \<noteq> sh_hash (vf_expected v)
        then Inl (MergeError SnapshotMismatch ''snapshot canonical hash differs from its header'')
        else Inr (v\<lparr>vf_hash := None, vf_stage := 4\<rparr>)))"

section \<open>Runs over one section\<close>

fun run_list :: "('r \<Rightarrow> 'v \<Rightarrow> 'e + 'v) \<Rightarrow> 'r list \<Rightarrow> 'v \<Rightarrow> 'e + 'v" where
  "run_list f [] v = Inr v"
| "run_list f (r # rs) v = bind_result (f r v) (run_list f rs)"

lemma run_list_append: "run_list f (xs @ ys) v = bind_result (run_list f xs v) (run_list f ys)"
proof (induction xs arbitrary: v)
  case (Cons x xs)
  then show ?case by (cases "f x v") simp_all
qed simp

lemma run_list_snoc: "run_list f (xs @ [x]) v = Inr w \<longleftrightarrow> (\<exists>u. run_list f xs v = Inr u \<and> f x u = Inr w)"
  by (simp add: run_list_append bind_result_Inr)

definition follows :: "object_address option \<Rightarrow> object_address list \<Rightarrow> bool" where
  "follows prev as \<longleftrightarrow> sorted_wrt (<) as \<and> (case prev of None \<Rightarrow> True | Some p \<Rightarrow> (\<forall>a\<in>set as. p < a))"

lemma follows_Cons: "follows prev (a # as) \<longleftrightarrow>
    \<not> (case prev of None \<Rightarrow> False | Some p \<Rightarrow> p \<ge> a) \<and> follows (Some a) as"
proof (cases prev)
  case None
  then show ?thesis by (auto simp: follows_def)
next
  case (Some p)
  have "p < a \<Longrightarrow> \<forall>b\<in>set as. a < b \<Longrightarrow> \<forall>b\<in>set as. p < b" by (meson less_trans)
  then show ?thesis by (auto simp: follows_def Some not_le)
qed

definition last_or :: "object_address option \<Rightarrow> object_address list \<Rightarrow> object_address option" where
  "last_or prev as = (if as = [] then prev else Some (last as))"

text \<open>The three sections of a snapshot are read by the same step, up to the encoder and the
  counter; \<open>bump n\<close> adds \<open>n\<close> to the section's counter.\<close>

locale verifier_section =
  fixes step :: "'r \<Rightarrow> snapshot_verifier \<Rightarrow> merge_error + snapshot_verifier"
    and stage :: u8
    and addr :: "'r \<Rightarrow> object_address"
    and enc :: "'r \<Rightarrow> canonical_hasher \<Rightarrow> canonical_hasher"
    and bump :: "nat \<Rightarrow> snapshot_verifier \<Rightarrow> snapshot_verifier"
  assumes step_eq: "step r v = bind_result (ensure_record stage (addr r) v) (\<lambda>v.
      bind_result (verifier_hash_mut v) (\<lambda>h. Inr (bump 1 (v\<lparr>vf_hash := Some (enc r h)\<rparr>))))"
    and bump_0: "bump 0 v = v" and bump_add: "bump m (bump n v) = bump (n + m) v"
    and bump_sel: "vf_stage (bump n v) = vf_stage v" "vf_expected (bump n v) = vf_expected v"
      "vf_previous (bump n v) = vf_previous v" "vf_hash (bump n v) = vf_hash v"
    and bump_upd: "(bump n v)\<lparr>vf_previous := p\<rparr> = bump n (v\<lparr>vf_previous := p\<rparr>)"
      "(bump n v)\<lparr>vf_hash := h\<rparr> = bump n (v\<lparr>vf_hash := h\<rparr>)"
begin

text \<open>One section read to its end: what the records must be, and the state reached.\<close>

lemma section_run:
  assumes "vf_stage v = stage" "vf_hash v = Some h"
  shows "run_list step rs v = Inr w \<longleftrightarrow>
    (\<forall>r\<in>set rs. oa_space (addr r) = sh_space_id (vf_expected v)) \<and>
    follows (vf_previous v) (map addr rs) \<and>
    w = bump (length rs) (v\<lparr>vf_previous := last_or (vf_previous v) (map addr rs),
      vf_hash := Some (fold enc rs h)\<rparr>)"
  using assms
proof (induction rs arbitrary: v h)
  case Nil
  then show ?case
    by (auto simp: follows_def last_or_def bump_0 split: option.split)
next
  case (Cons r rs)
  show ?case
  proof (cases "oa_space (addr r) = sh_space_id (vf_expected v) \<and>
      \<not> (case vf_previous v of None \<Rightarrow> False | Some p \<Rightarrow> p \<ge> addr r)")
    case True
    define u where "u = bump 1 (v\<lparr>vf_previous := Some (addr r), vf_hash := Some (enc r h)\<rparr>)"
    have step: "step r v = Inr u"
      using True Cons.prems by (simp add: step_eq ensure_record_def verifier_hash_mut_def u_def)
    have u: "vf_stage u = stage" "vf_hash u = Some (enc r h)" "vf_expected u = vf_expected v"
        "vf_previous u = Some (addr r)"
      using Cons.prems by (simp_all add: u_def bump_sel)
    have "u\<lparr>vf_previous := last_or (Some (addr r)) (map addr rs), vf_hash := Some (fold enc rs (enc r h))\<rparr> =
        bump 1 (v\<lparr>vf_previous := last_or (vf_previous v) (map addr (r # rs)), vf_hash := Some (fold enc (r # rs) h)\<rparr>)"
      by (simp add: u_def bump_upd last_or_def)
    then show ?thesis
      using True by (simp add: step Cons.IH [OF u(1,2)] u(3,4) follows_Cons bump_add)
  next
    case False
    then have "\<exists>e. step r v = Inl e"
      using Cons.prems by (auto simp: step_eq ensure_record_def)
    then show ?thesis using False by (auto simp: follows_Cons)
  qed
qed

end

interpretation entity_section: verifier_section "verifier_entity D" 1 er_address "encode_entity D"
    "\<lambda>n v. v\<lparr>vf_entities := vf_entities v + of_nat n\<rparr>" for D
  by unfold_locales (simp_all add: verifier_entity_def add.assoc)

interpretation observation_section: verifier_section "verifier_observation D" 2 ob_address "encode_observation D"
    "\<lambda>n v. v\<lparr>vf_observations := vf_observations v + of_nat n\<rparr>" for D
  by unfold_locales (simp_all add: verifier_observation_def add.assoc)

interpretation relation_section: verifier_section "verifier_relation D" 3 re_address "encode_relation D"
    "\<lambda>n v. v\<lparr>vf_relations := vf_relations v + of_nat n\<rparr>" for D
  by unfold_locales (simp_all add: verifier_relation_def add.assoc)

section \<open>A whole stream\<close>

text \<open>The verifier's calls in the order in which the planner makes them for one snapshot.\<close>

definition verify_stream ::
    "deps \<Rightarrow> snapshot_header \<Rightarrow> entity_record list \<Rightarrow> observation_record list \<Rightarrow> relation_record list \<Rightarrow>
     merge_error + snapshot_verifier" where
  "verify_stream D header es os rs =
     bind_result (verifier_new D header) (\<lambda>v.
     bind_result (run_list (verifier_entity D) es v) (\<lambda>v.
     bind_result (verifier_end_entities v) (\<lambda>v.
     bind_result (run_list (verifier_observation D) os v) (\<lambda>v.
     bind_result (verifier_end_observations v) (\<lambda>v.
     bind_result (run_list (verifier_relation D) rs v) (verifier_finish D))))))"

definition stream_hash ::
    "deps \<Rightarrow> snapshot_header \<Rightarrow> entity_record list \<Rightarrow> observation_record list \<Rightarrow> relation_record list \<Rightarrow> hash32" where
  "stream_hash D header es os rs = fst (compute_snapshot_hash D (sh_snapshot_id header)
     (sh_space_id header) (sh_space_version header) es os rs)"

definition stream_valid ::
    "snapshot_header \<Rightarrow> entity_record list \<Rightarrow> observation_record list \<Rightarrow> relation_record list \<Rightarrow> bool" where
  "stream_valid header es os rs \<longleftrightarrow>
     sh_format_version header = 1 \<and>
     sh_entity_count header = of_nat (length es) \<and>
     sh_observation_count header = of_nat (length os) \<and>
     sh_relation_count header = of_nat (length rs) \<and>
     sorted_wrt (<) (map er_address es) \<and> sorted_wrt (<) (map ob_address os) \<and>
     sorted_wrt (<) (map re_address rs) \<and>
     (\<forall>e\<in>set es. oa_space (er_address e) = sh_space_id header) \<and>
     (\<forall>r\<in>set os. oa_space (ob_address r) = sh_space_id header) \<and>
     (\<forall>r\<in>set rs. oa_space (re_address r) = sh_space_id header)"

lemma u64_of_usize_of_nat: "n < 2 ^ 64 \<Longrightarrow> u64_of_usize n = of_nat n"
  by (simp add: u64_of_usize_def)

lemma follows_None: "follows None as \<longleftrightarrow> sorted_wrt (<) as"
  by (simp add: follows_def)

text \<open>A run over a whole stream succeeds exactly on a valid stream with the header's hash.\<close>

lemma verify_stream_ok:
  assumes "fits es" "fits os" "fits rs"
  shows "(\<exists>w. verify_stream D header es os rs = Inr w) \<longleftrightarrow>
    stream_valid header es os rs \<and> sh_hash header = stream_hash D header es os rs"
proof (cases "sh_format_version header = 1")
  case False
  then show ?thesis by (simp add: verify_stream_def verifier_new_def stream_valid_def)
next
  case fmt: True
  let ?start = "encode_space_version (sh_space_version header) (ch_space_id D (sh_space_id header)
      (ch_snapshot_id D (sh_snapshot_id header) (ch_u16 1 (ch_new ''openmemory/space-snapshot/v1''))))"
  define v0 where "v0 = \<lparr>vf_expected = header, vf_hash = Some (ch_u64 (sh_entity_count header) ?start),
    vf_previous = None, vf_entities = 0, vf_observations = 0, vf_relations = 0, vf_stage = 1\<rparr>"
  have new: "verifier_new D header = Inr v0"
    by (simp add: verifier_new_def fmt v0_def Let_def)
  define h1 where "h1 = ch_u64 (sh_observation_count header) (fold (encode_entity D) es (ch_u64 (sh_entity_count header) ?start))"
  define h2 where "h2 = ch_u64 (sh_relation_count header) (fold (encode_observation D) os h1)"
  define h3 where "h3 = fold (encode_relation D) rs h2"
  have sec1: "bind_result (run_list (verifier_entity D) es v0) (\<lambda>v. bind_result (verifier_end_entities v) k) = Inr w \<longleftrightarrow>
      (\<forall>e\<in>set es. oa_space (er_address e) = sh_space_id header) \<and> sorted_wrt (<) (map er_address es) \<and>
      sh_entity_count header = of_nat (length es) \<and>
      k \<lparr>vf_expected = header, vf_hash = Some h1, vf_previous = None, vf_entities = of_nat (length es),
        vf_observations = 0, vf_relations = 0, vf_stage = 2\<rparr> = Inr w" for k w
    by (auto simp: bind_result_Inr entity_section.section_run v0_def follows_None verifier_end_entities_def
        verifier_hash_mut_def h1_def split: if_splits)
  have sec2: "bind_result (run_list (verifier_observation D) os \<lparr>vf_expected = header, vf_hash = Some h1,
        vf_previous = None, vf_entities = n, vf_observations = 0, vf_relations = 0, vf_stage = 2\<rparr>)
        (\<lambda>v. bind_result (verifier_end_observations v) k) = Inr w \<longleftrightarrow>
      (\<forall>r\<in>set os. oa_space (ob_address r) = sh_space_id header) \<and> sorted_wrt (<) (map ob_address os) \<and>
      sh_observation_count header = of_nat (length os) \<and>
      k \<lparr>vf_expected = header, vf_hash = Some h2, vf_previous = None, vf_entities = n,
        vf_observations = of_nat (length os), vf_relations = 0, vf_stage = 3\<rparr> = Inr w" for k w n
    by (auto simp: bind_result_Inr observation_section.section_run follows_None verifier_end_observations_def
        verifier_hash_mut_def h2_def split: if_splits)
  have sec3: "(\<exists>w. bind_result (run_list (verifier_relation D) rs \<lparr>vf_expected = header, vf_hash = Some h2,
        vf_previous = None, vf_entities = n, vf_observations = m, vf_relations = 0, vf_stage = 3\<rparr>)
        (verifier_finish D) = Inr w) \<longleftrightarrow>
      (\<forall>r\<in>set rs. oa_space (re_address r) = sh_space_id header) \<and> sorted_wrt (<) (map re_address rs) \<and>
      sh_relation_count header = of_nat (length rs) \<and> ch_finish D h3 = sh_hash header" for n m
    by (auto simp: bind_result_Inr relation_section.section_run follows_None verifier_finish_def
        verifier_hash_mut_def h3_def split: if_splits)
  have hash: "ch_finish D h3 = stream_hash D header es os rs"
    if "sh_entity_count header = of_nat (length es)" "sh_observation_count header = of_nat (length os)"
      "sh_relation_count header = of_nat (length rs)"
    using that assms
    by (simp add: stream_hash_def compute_snapshot_hash_def Let_def h3_def h2_def h1_def ch_usize_def
        u64_of_usize_of_nat fits_def)
  show ?thesis
    unfolding verify_stream_def new bind_result_simps
    by (simp only: sec1 sec2 sec3 ex_simps) (use fmt hash in \<open>auto simp: stream_valid_def\<close>)
qed

lemma memory_snapshot_stream:
  assumes "memory_snapshot_new D sn sp v es os rs = Inr m"
  shows "\<exists>w. verify_stream D (ms_header m) (ms_entities m) (ms_observations m) (ms_relations m) = Inr w"
proof -
  note ok = assms [unfolded memory_snapshot_new_ok]
  then have fits: "fits (ms_entities m)" "fits (ms_observations m)" "fits (ms_relations m)"
    by (auto simp: records_valid_def snapshot_of_def case_prod_unfold Let_def count_fits)
  moreover have "stream_valid (ms_header m) (ms_entities m) (ms_observations m) (ms_relations m)"
    using ok fits
    by (auto simp: records_valid_def snapshot_of_def case_prod_unfold Let_def stream_valid_def
        u64_of_usize_of_nat fits_def)
  moreover have "sh_hash (ms_header m) =
      stream_hash D (ms_header m) (ms_entities m) (ms_observations m) (ms_relations m)"
    using ok by (auto simp: snapshot_of_def case_prod_unfold Let_def stream_hash_def)
  ultimately show ?thesis by (simp add: verify_stream_ok)
qed

section \<open>Properties\<close>

text \<open>
  C37. The streaming verifier accepts a stream exactly when its header describes it: version 1, the
  three counts, each section strictly sorted and inside the header's space, and the header's hash
  equal to the canonical hash of the records.
\<close>

theorem verifier_accepts_exactly:
  assumes "length es < 2 ^ 64" "length os < 2 ^ 64" "length rs < 2 ^ 64"
  shows "(\<exists>w. verify_stream D header es os rs = Inr w) \<longleftrightarrow>
    stream_valid header es os rs \<and> sh_hash header = stream_hash D header es os rs"
  using assms by (intro verify_stream_ok) (simp_all add: fits_def)

text \<open>
  C38. Every snapshot that \<open>MemorySnapshot::new\<close> builds streams through the verifier, whatever the
  order of the records it was given.
\<close>

theorem memory_snapshot_verifies:
  assumes "memory_snapshot_new D sn sp v es os rs = Inr m"
  shows "\<exists>w. verify_stream D (ms_header m) (ms_entities m) (ms_observations m) (ms_relations m) = Inr w"
  using assms by (rule memory_snapshot_stream)

end
