(* ===== verification/Om_Dispositions.thy ===== *)
theory Om_Dispositions
  imports Om_Plan
begin

text \<open>
  \<open>prepare_dispositions\<close> of \<open>planner.rs\<close>: one disposition per discovery receipt, decided by the
  current resolutions and keep-distinct receipts. \<open>justified\<close> says what may justify a disposition;
  the properties are that every disposition is justified, that no two of them name one
  coalescence target, and that every receipt is consumed.
\<close>

datatype planned_disposition =
    PlanCoalesce entity_revision_ref hash32
  | PlanAdd distinct_reason "hash32 option"

record planned_entity =
  ple_logical_id :: str
  ple_revision :: uuid
  ple_snapshot :: uuid
  ple_disposition :: planned_disposition

text \<open>The three loops that index the receipts: a stale receipt and a repeated key are errors.\<close>

fun collect_unique ::
    "('r \<Rightarrow> bool) \<Rightarrow> merge_error \<Rightarrow> merge_error \<Rightarrow> ('r \<Rightarrow> 'k::linorder) \<Rightarrow> 'r list \<Rightarrow> ('k, 'r) btree_map \<Rightarrow>
     merge_error + ('k, 'r) btree_map" where
  "collect_unique current stale duplicated key [] m = Inr m"
| "collect_unique current stale duplicated key (r # rs) m =
     (if \<not> current r then Inl stale
      else if bm_contains m (key r) then Inl duplicated
      else collect_unique current stale duplicated key rs (bm_insert (key r) r m))"

definition resolution_key :: "identity_resolution_receipt \<Rightarrow> object_address \<times> object_address" where
  "resolution_key r = (rv_address (ir_target r), rv_address (ir_source r))"

definition candidate_key :: "identity_candidate \<Rightarrow> object_address \<times> object_address" where
  "candidate_key c = (rv_address (ic_target c), rv_address (ic_source c))"

definition collect_discoveries ::
    "merge_policy \<Rightarrow> discovery_receipt list \<Rightarrow> merge_error + (object_address, discovery_receipt) btree_map" where
  "collect_discoveries policy rs =
     collect_unique (\<lambda>d. dr_policy_generation d = mp_identity_policy_generation policy)
       (MergeError StaleReceipt ''discovery policy generation is stale'')
       (MergeError DuplicateInput ''source discovery receipt is duplicated'')
       (\<lambda>d. rv_address (dr_source d)) rs []"

definition collect_resolutions ::
    "merge_policy \<Rightarrow> identity_resolution_receipt list \<Rightarrow>
     merge_error + (object_address \<times> object_address, identity_resolution_receipt) btree_map" where
  "collect_resolutions policy rs =
     collect_unique (\<lambda>r. ir_policy_generation r = mp_identity_policy_generation policy)
       (MergeError StaleReceipt ''identity resolution is stale or duplicated'')
       (MergeError StaleReceipt ''identity resolution is stale or duplicated'')
       resolution_key rs []"

definition collect_keeps ::
    "merge_policy \<Rightarrow> keep_distinct_receipt list \<Rightarrow>
     merge_error + (object_address, keep_distinct_receipt) btree_map" where
  "collect_keeps policy rs =
     collect_unique (\<lambda>k. kd_policy_generation k = mp_identity_policy_generation policy)
       (MergeError StaleReceipt ''keep-distinct receipt is stale or duplicated'')
       (MergeError StaleReceipt ''keep-distinct receipt is stale or duplicated'')
       (\<lambda>k. rv_address (kd_source k)) rs []"

record disposition_state =
  ds_used_resolutions :: "(object_address \<times> object_address) btree_set"
  ds_used_keep :: "object_address btree_set"
  ds_coalescence_targets :: "object_address btree_set"
  ds_planned :: "planned_entity list"
  ds_consumed_candidates :: u64

type_synonym resolution_map = "(object_address \<times> object_address, identity_resolution_receipt) btree_map"
type_synonym keep_map = "(object_address, keep_distinct_receipt) btree_map"

fun resolve_candidates ::
    "resolution_map \<Rightarrow> identity_candidate list \<Rightarrow> identity_resolution_receipt option \<Rightarrow> disposition_state \<Rightarrow>
     merge_error + identity_resolution_receipt option \<times> disposition_state" where
  "resolve_candidates by_pair [] same st = Inr (same, st)"
| "resolve_candidates by_pair (candidate # candidates) same st =
     (case bm_get by_pair (candidate_key candidate) of
        None \<Rightarrow> Inl (MergeError DiscoveryIncomplete ''candidate lacks exactly one current resolution'')
      | Some resolution \<Rightarrow>
          (if \<not> receipt_matches_candidate resolution candidate
           then Inl (MergeError StaleReceipt ''resolution revisions do not match candidate'')
           else
             let st = st\<lparr>ds_used_resolutions := bs_insert (candidate_key candidate) (ds_used_resolutions st),
                   ds_consumed_candidates := ds_consumed_candidates st + 1\<rparr>
             in if ir_decision resolution = Same
                then (if same \<noteq> None
                      then Inl (MergeError ConflictingResolution
                        ''one source resolves same with multiple targets'')
                      else resolve_candidates by_pair candidates (Some resolution) st)
                else resolve_candidates by_pair candidates same st))"

definition decide_disposition ::
    "resolution_map \<Rightarrow> keep_map \<Rightarrow> object_address \<Rightarrow> discovery_receipt \<Rightarrow> disposition_state \<Rightarrow>
     merge_error + planned_disposition \<times> disposition_state" where
  "decide_disposition by_pair keeps source_address discovery st =
     (if dr_candidates discovery = [] then
        (if bm_contains keeps source_address
         then Inl (MergeError ConflictingResolution
           ''empty discovery must not carry a keep-distinct receipt'')
         else Inr (PlanAdd NoCandidate None, st))
      else case bm_get keeps source_address of
        Some keep \<Rightarrow>
          (if \<not> keep_matches_discovery keep discovery
           then Inl (MergeError StaleReceipt ''keep-distinct receipt does not bind the discovery page'')
           else if list_ex (\<lambda>candidate. bm_contains by_pair (candidate_key candidate)) (dr_candidates discovery)
           then Inl (MergeError ConflictingResolution
             ''candidate is consumed by both resolution and keep-distinct'')
           else Inr (PlanAdd KeepDistinct (Some (kd_hash keep)),
             st\<lparr>ds_used_keep := bs_insert source_address (ds_used_keep st),
               ds_consumed_candidates := ds_consumed_candidates st +
                 u64_of_usize (length (dr_candidates discovery))\<rparr>))
      | None \<Rightarrow>
          (if dr_truncated discovery
           then Inl (MergeError DiscoveryIncomplete
             ''truncated discovery may proceed only through keep-distinct'')
           else
             bind_result (resolve_candidates by_pair (dr_candidates discovery) None st) (\<lambda>(same, st).
               case same of
                 Some resolution \<Rightarrow>
                   (if rv_address (ir_target resolution) \<in> set (ds_coalescence_targets st)
                    then Inl (MergeError ManyToOne
                      ''multiple source entities cannot coalesce into one target'')
                    else Inr (PlanCoalesce (ir_target resolution) (ir_hash resolution),
                      st\<lparr>ds_coalescence_targets :=
                        bs_insert (rv_address (ir_target resolution)) (ds_coalescence_targets st)\<rparr>))
               | None \<Rightarrow> Inr (PlanAdd ReviewedDifferent None, st))))"

definition planned_of :: "object_address \<Rightarrow> discovery_receipt \<Rightarrow> planned_disposition \<Rightarrow> planned_entity" where
  "planned_of source_address discovery disposition =
     \<lparr>ple_logical_id = oa_logical source_address, ple_revision = rv_revision (dr_source discovery),
      ple_snapshot = rv_snapshot (dr_source discovery), ple_disposition = disposition\<rparr>"

fun decide_all ::
    "resolution_map \<Rightarrow> keep_map \<Rightarrow> (object_address \<times> discovery_receipt) list \<Rightarrow> disposition_state \<Rightarrow>
     merge_error + disposition_state" where
  "decide_all by_pair keeps [] st = Inr st"
| "decide_all by_pair keeps ((source_address, discovery) # rest) st =
     bind_result (decide_disposition by_pair keeps source_address discovery st) (\<lambda>(disposition, st).
       decide_all by_pair keeps rest
         (st\<lparr>ds_planned := ds_planned st @ [planned_of source_address discovery disposition]\<rparr>))"

definition prepare_dispositions ::
    "planning_receipts \<Rightarrow> merge_policy \<Rightarrow> merge_error + planned_entity list \<times> merge_accounting" where
  "prepare_dispositions receipts policy =
     bind_result (collect_discoveries policy (pr_discoveries receipts)) (\<lambda>discoveries.
     bind_result (collect_resolutions policy (pr_resolutions receipts)) (\<lambda>by_pair.
     bind_result (collect_keeps policy (pr_keep_distinct receipts)) (\<lambda>keeps.
     bind_result (decide_all by_pair keeps discoveries
         \<lparr>ds_used_resolutions = [], ds_used_keep = [], ds_coalescence_targets = [], ds_planned = [],
          ds_consumed_candidates = 0\<rparr>) (\<lambda>st.
       if length (ds_used_resolutions st) \<noteq> length by_pair \<or> length (ds_used_keep st) \<noteq> length keeps
       then Inl (MergeError DiscoveryIncomplete
         ''extra resolution or keep-distinct receipt is outside discovery'')
       else Inr (ds_planned st, accounting_default\<lparr>
         consumed_discoveries := u64_of_usize (length discoveries),
         consumed_candidates := ds_consumed_candidates st,
         consumed_resolutions := u64_of_usize (length (ds_used_resolutions st)),
         consumed_keep_distinct := u64_of_usize (length (ds_used_keep st))\<rparr>)))))"

section \<open>Justification\<close>

definition justified :: "planning_receipts \<Rightarrow> u64 \<Rightarrow> discovery_receipt \<Rightarrow> planned_disposition \<Rightarrow> bool" where
  "justified rc g d p \<longleftrightarrow> dr_policy_generation d = g \<and>
     (case p of
        PlanCoalesce target receipt \<Rightarrow>
          \<not> dr_truncated d \<and>
          (\<exists>c\<in>set (dr_candidates d). \<exists>r\<in>set (pr_resolutions rc).
             receipt_matches_candidate r c \<and> ir_policy_generation r = g \<and> ir_decision r = Same \<and>
             target = ic_target c \<and> receipt = ir_hash r) \<and>
          (\<forall>c\<in>set (dr_candidates d). \<exists>r\<in>set (pr_resolutions rc).
             receipt_matches_candidate r c \<and> ir_policy_generation r = g \<and>
             (ir_decision r = Same \<longrightarrow> ic_target c = target))
      | PlanAdd NoCandidate receipt \<Rightarrow> dr_candidates d = [] \<and> receipt = None
      | PlanAdd KeepDistinct receipt \<Rightarrow>
          (\<exists>k\<in>set (pr_keep_distinct rc). keep_matches_discovery k d \<and> receipt = Some (kd_hash k))
      | PlanAdd ReviewedDifferent receipt \<Rightarrow>
          \<not> dr_truncated d \<and> receipt = None \<and>
          (\<forall>c\<in>set (dr_candidates d). \<exists>r\<in>set (pr_resolutions rc).
             receipt_matches_candidate r c \<and> ir_policy_generation r = g \<and> ir_decision r = Different))"

definition coalesced_into :: "planned_entity list \<Rightarrow> object_address list" where
  "coalesced_into ps = List.map_filter (\<lambda>p. case ple_disposition p of
     PlanCoalesce target _ \<Rightarrow> Some (rv_address target) | PlanAdd _ _ \<Rightarrow> None) ps"

lemma coalesced_into_Nil [simp]: "coalesced_into [] = []"
  by (simp add: coalesced_into_def List.map_filter_simps)

lemma coalesced_into_snoc: "coalesced_into (ps @ [p]) = coalesced_into ps @
    (case ple_disposition p of PlanCoalesce target _ \<Rightarrow> [rv_address target] | PlanAdd _ _ \<Rightarrow> [])"
  by (induction ps) (auto simp: coalesced_into_def List.map_filter_simps
      split: planned_disposition.split option.split)

lemma collect_unique_ok:
  assumes "collect_unique current stale dup key rs m = Inr m'" "bm_ok m"
  shows "bm_ok m' \<and> (\<forall>r\<in>set rs. current r) \<and> distinct (map key rs) \<and>
    length m' = length m + length rs \<and> (\<forall>r\<in>set rs. \<not> bm_contains m (key r)) \<and>
    (\<forall>k. bm_get m' k = (case map_of (map (\<lambda>r. (key r, r)) rs) k of Some r \<Rightarrow> Some r | None \<Rightarrow> bm_get m k))"
  using assms
proof (induction rs arbitrary: m)
  case Nil
  then show ?case by simp
next
  case (Cons r rs)
  from Cons.prems(1) have r: "current r" "\<not> bm_contains m (key r)"
    and rest: "collect_unique current stale dup key rs (bm_insert (key r) r m) = Inr m'"
    by (auto split: if_splits)
  note IH = Cons.IH [OF rest bm_ok_insert [OF Cons.prems(2)]]
  have others: "\<forall>r'\<in>set rs. key r' \<noteq> key r \<and> \<not> bm_contains m (key r')"
    using IH by simp
  then have new: "key r \<notin> key ` set rs" by (metis imageE)
  then have "map_of (map (\<lambda>r. (key r, r)) rs) (key r) = None"
    by (auto simp: map_of_eq_None_iff image_iff)
  then show ?case
    using IH r others new Cons.prems(2) by (auto simp: length_bm_insert split: option.split)
qed

lemma collect_unique_get:
  assumes "collect_unique current stale dup key rs [] = Inr m"
  shows "bm_ok m" "length m = length rs" "\<forall>r\<in>set rs. current r" "distinct (map key rs)"
    "bm_get m k = Some r \<longleftrightarrow> r \<in> set rs \<and> key r = k"
proof -
  note ok = collect_unique_ok [OF assms bm_ok_Nil]
  then show "bm_ok m" "length m = length rs" "\<forall>r\<in>set rs. current r" "distinct (map key rs)"
    by simp_all
  have "bm_get m k = map_of (map (\<lambda>r. (key r, r)) rs) k"
    using ok by (simp split: option.split)
  moreover have "distinct (map fst (map (\<lambda>r. (key r, r)) rs))"
    using ok by (simp add: comp_def)
  ultimately show "bm_get m k = Some r \<longleftrightarrow> r \<in> set rs \<and> key r = k" by auto
qed

lemma resolve_candidates_ok:
  assumes "resolve_candidates m cs same st = Inr (same', st')"
  shows "(\<forall>c\<in>set cs. \<exists>r. bm_get m (candidate_key c) = Some r \<and> receipt_matches_candidate r c \<and>
      (ir_decision r = Same \<longrightarrow> same' = Some r)) \<and>
    (same' = same \<or> (same = None \<and> (\<exists>c\<in>set cs. \<exists>r. bm_get m (candidate_key c) = Some r \<and>
       receipt_matches_candidate r c \<and> ir_decision r = Same \<and> same' = Some r))) \<and>
    (same \<noteq> None \<longrightarrow> same' = same) \<and>
    ds_used_keep st' = ds_used_keep st \<and> ds_coalescence_targets st' = ds_coalescence_targets st \<and>
    ds_planned st' = ds_planned st \<and>
    ds_consumed_candidates st' = ds_consumed_candidates st + of_nat (length cs) \<and>
    set (ds_used_resolutions st') = set (ds_used_resolutions st) \<union> candidate_key ` set cs \<and>
    (bs_ok (ds_used_resolutions st) \<longrightarrow> bs_ok (ds_used_resolutions st'))"
  using assms
proof (induction m cs same st rule: resolve_candidates.induct)
  case (1 m same st)
  then show ?case by simp
next
  case (2 m c cs same st)
  from "2.prems" obtain r where r: "bm_get m (candidate_key c) = Some r" "receipt_matches_candidate r c"
    by (auto split: option.splits if_splits)
  let ?st = "st\<lparr>ds_used_resolutions := bs_insert (candidate_key c) (ds_used_resolutions st),
     ds_consumed_candidates := ds_consumed_candidates st + 1\<rparr>"
  show ?case
  proof (cases "ir_decision r = Same")
    case True
    with "2.prems" r have "same = None" and rest: "resolve_candidates m cs (Some r) ?st = Inr (same', st')"
      by (auto split: if_splits)
    moreover note "2.IH"(1) [OF r(1) _ refl True _ rest]
    ultimately show ?thesis using r True by auto
  next
    case False
    with "2.prems" r have rest: "resolve_candidates m cs same ?st = Inr (same', st')"
      by simp
    note "2.IH"(2) [OF r(1) _ refl False rest]
    then show ?thesis using r False by auto
  qed
qed

section \<open>One decision and all of them\<close>

definition indexed_by :: "planning_receipts \<Rightarrow> u64 \<Rightarrow> resolution_map \<Rightarrow> keep_map \<Rightarrow> bool" where
  "indexed_by rc g m ks \<longleftrightarrow>
     (\<forall>k r. bm_get m k = Some r \<longrightarrow> r \<in> set (pr_resolutions rc) \<and> resolution_key r = k \<and>
        ir_policy_generation r = g) \<and>
     (\<forall>a k. bm_get ks a = Some k \<longrightarrow> k \<in> set (pr_keep_distinct rc) \<and> rv_address (kd_source k) = a)"

definition consumes ::
    "resolution_map \<Rightarrow> keep_map \<Rightarrow> object_address \<Rightarrow> discovery_receipt \<Rightarrow> disposition_state \<Rightarrow>
     disposition_state \<Rightarrow> bool" where
  "consumes m ks a d st st' \<longleftrightarrow>
     (bs_ok (ds_used_resolutions st) \<longrightarrow> bs_ok (ds_used_resolutions st')) \<and>
     (bs_ok (ds_used_keep st) \<longrightarrow> bs_ok (ds_used_keep st')) \<and>
     (\<forall>k\<in>set (ds_used_resolutions st'). k \<in> set (ds_used_resolutions st) \<or>
        (\<exists>c\<in>set (dr_candidates d). \<exists>r. bm_get m k = Some r \<and> receipt_matches_candidate r c)) \<and>
     (\<forall>b\<in>set (ds_used_keep st'). b \<in> set (ds_used_keep st) \<or>
        (\<exists>k. bm_get ks b = Some k \<and> keep_matches_discovery k d)) \<and>
     (fits (dr_candidates d) \<longrightarrow>
        ds_consumed_candidates st' = ds_consumed_candidates st + of_nat (length (dr_candidates d)))"

definition claims_target :: "disposition_state \<Rightarrow> planned_disposition \<Rightarrow> disposition_state \<Rightarrow> bool" where
  "claims_target st p st' \<longleftrightarrow> ds_planned st' = ds_planned st \<and>
     (case p of
        PlanCoalesce t _ \<Rightarrow> rv_address t \<notin> set (ds_coalescence_targets st) \<and>
          set (ds_coalescence_targets st') = insert (rv_address t) (set (ds_coalescence_targets st))
      | PlanAdd _ _ \<Rightarrow> ds_coalescence_targets st' = ds_coalescence_targets st)"

lemma decide_disposition_ok:
  assumes dec: "decide_disposition m ks a d st = Inr (p, st')"
    and idx: "indexed_by rc g m ks" and gen: "dr_policy_generation d = g"
  shows "justified rc g d p \<and> consumes m ks a d st st' \<and> claims_target st p st'"
proof (cases "dr_candidates d = []")
  case True
  with dec have "p = PlanAdd NoCandidate None" "st' = st"
    by (auto simp: decide_disposition_def split: if_splits)
  then show ?thesis using True gen by (simp add: justified_def consumes_def claims_target_def)
next
  case nonempty: False
  show ?thesis
  proof (cases "bm_get ks a")
    case (Some k)
    with dec nonempty have k: "keep_matches_discovery k d" "p = PlanAdd KeepDistinct (Some (kd_hash k))"
      "st' = st\<lparr>ds_used_keep := bs_insert a (ds_used_keep st),
         ds_consumed_candidates := ds_consumed_candidates st + u64_of_usize (length (dr_candidates d))\<rparr>"
      by (auto simp: decide_disposition_def split: if_splits)
    have "k \<in> set (pr_keep_distinct rc)" using idx Some by (auto simp: indexed_by_def)
    then show ?thesis using k gen Some
      by (auto simp: justified_def consumes_def claims_target_def u64_of_usize_def fits_def)
  next
    case None
    from dec nonempty None have trunc: "\<not> dr_truncated d"
      by (auto simp: decide_disposition_def split: if_splits)
    from dec nonempty None trunc obtain same st1
      where res: "resolve_candidates m (dr_candidates d) None st = Inr (same, st1)"
        and fin: "(case same of Some r \<Rightarrow>
             (if rv_address (ir_target r) \<in> set (ds_coalescence_targets st1)
              then Inl (MergeError ManyToOne ''multiple source entities cannot coalesce into one target'')
              else Inr (PlanCoalesce (ir_target r) (ir_hash r), st1\<lparr>ds_coalescence_targets :=
                bs_insert (rv_address (ir_target r)) (ds_coalescence_targets st1)\<rparr>))
           | None \<Rightarrow> Inr (PlanAdd ReviewedDifferent None, st1)) = Inr (p, st')"
      by (auto simp: decide_disposition_def bind_result_Inr)
    note r = resolve_candidates_ok [OF res]
    have found: "\<exists>r. bm_get m (candidate_key c) = Some r \<and> receipt_matches_candidate r c \<and>
        (ir_decision r = Same \<longrightarrow> same = Some r) \<and> r \<in> set (pr_resolutions rc) \<and> ir_policy_generation r = g"
      if "c \<in> set (dr_candidates d)" for c
      using r that idx unfolding indexed_by_def by meson
    have cons1: "consumes m ks a d st st1"
      using r found by (auto simp: consumes_def)
    show ?thesis
    proof (cases same)
      case None
      with fin have p: "p = PlanAdd ReviewedDifferent None" "st' = st1" by simp_all
      have "\<exists>r\<in>set (pr_resolutions rc). receipt_matches_candidate r c \<and> ir_policy_generation r = g \<and>
          ir_decision r = Different" if "c \<in> set (dr_candidates d)" for c
        using found [OF that] None by (metis identity_decision.exhaust option.distinct(1))
      then show ?thesis using p r trunc gen cons1 by (simp add: justified_def claims_target_def)
    next
      case (Some w)
      with fin have p: "p = PlanCoalesce (ir_target w) (ir_hash w)"
        and new: "rv_address (ir_target w) \<notin> set (ds_coalescence_targets st1)"
        and st': "st' = st1\<lparr>ds_coalescence_targets :=
            bs_insert (rv_address (ir_target w)) (ds_coalescence_targets st1)\<rparr>"
        by (auto split: if_splits)
      from r Some obtain c where c: "c \<in> set (dr_candidates d)" "bm_get m (candidate_key c) = Some w"
          "receipt_matches_candidate w c" "ir_decision w = Same" by auto
      have w: "w \<in> set (pr_resolutions rc)" "ir_policy_generation w = g"
        using found [OF c(1)] c(2) by auto
      have "\<exists>r\<in>set (pr_resolutions rc). receipt_matches_candidate r c' \<and> ir_policy_generation r = g \<and>
          (ir_decision r = Same \<longrightarrow> ic_target c' = ir_target w)" if "c' \<in> set (dr_candidates d)" for c'
        using found [OF that] Some by (metis option.inject receipt_matches_candidate_def)
      then have "justified rc g d p"
        using c w trunc gen unfolding justified_def p
        by (auto simp: receipt_matches_candidate_def intro!: bexI [of _ c] bexI [of _ w])
      moreover have "consumes m ks a d st st'" using cons1 by (simp add: consumes_def st')
      moreover have "claims_target st p st'" using r new by (simp add: claims_target_def p st')
      ultimately show ?thesis by blast
    qed
  qed
qed

definition decided :: "planning_receipts \<Rightarrow> u64 \<Rightarrow> object_address \<times> discovery_receipt \<Rightarrow> planned_entity \<Rightarrow> bool" where
  "decided rc g e p \<longleftrightarrow> p = planned_of (fst e) (snd e) (ple_disposition p) \<and>
     justified rc g (snd e) (ple_disposition p)"

lemma decide_all_ok:
  assumes "decide_all m ks ds st = Inr st'" "indexed_by rc g m ks"
    and "\<forall>e\<in>set ds. dr_policy_generation (snd e) = g"
    and "distinct (coalesced_into (ds_planned st))"
    and "set (ds_coalescence_targets st) = set (coalesced_into (ds_planned st))"
  shows "(\<exists>ps. ds_planned st' = ds_planned st @ ps \<and> list_all2 (decided rc g) ds ps) \<and>
    distinct (coalesced_into (ds_planned st')) \<and>
    (bs_ok (ds_used_resolutions st) \<longrightarrow> bs_ok (ds_used_resolutions st')) \<and>
    (bs_ok (ds_used_keep st) \<longrightarrow> bs_ok (ds_used_keep st')) \<and>
    (\<forall>k\<in>set (ds_used_resolutions st'). k \<in> set (ds_used_resolutions st) \<or>
       (\<exists>e\<in>set ds. \<exists>c\<in>set (dr_candidates (snd e)). \<exists>r. bm_get m k = Some r \<and> receipt_matches_candidate r c)) \<and>
    (\<forall>b\<in>set (ds_used_keep st'). b \<in> set (ds_used_keep st) \<or>
       (\<exists>e\<in>set ds. \<exists>k. bm_get ks b = Some k \<and> keep_matches_discovery k (snd e))) \<and>
    ((\<forall>e\<in>set ds. fits (dr_candidates (snd e))) \<longrightarrow> ds_consumed_candidates st' =
       ds_consumed_candidates st + of_nat (sum_list (map (\<lambda>e. length (dr_candidates (snd e))) ds)))"
  using assms
proof (induction m ks ds st rule: decide_all.induct)
  case (1 m ks st)
  then show ?case by simp
next
  case (2 m ks a d rest st)
  from "2.prems"(1) obtain p st1 where dec: "decide_disposition m ks a d st = Inr (p, st1)"
    and run: "decide_all m ks rest (st1\<lparr>ds_planned := ds_planned st1 @ [planned_of a d p]\<rparr>) = Inr st'"
    by (auto simp: bind_result_Inr)
  let ?st = "st1\<lparr>ds_planned := ds_planned st1 @ [planned_of a d p]\<rparr>"
  have gen: "dr_policy_generation d = g" using "2.prems"(3) by simp
  note ok = decide_disposition_ok [OF dec "2.prems"(2) gen]
  have planned: "ds_planned st1 = ds_planned st" using ok by (simp add: claims_target_def)
  have disp: "ple_disposition (planned_of a d p) = p" by (simp add: planned_of_def)
  have d1: "distinct (coalesced_into (ds_planned ?st))"
    "set (ds_coalescence_targets ?st) = set (coalesced_into (ds_planned ?st))"
    using ok "2.prems"(4,5)
    by (auto simp: claims_target_def coalesced_into_snoc disp planned split: planned_disposition.splits)
  have "\<forall>e\<in>set rest. dr_policy_generation (snd e) = g" using "2.prems"(3) by simp
  note IH = "2.IH" [OF run "2.prems"(2) this d1]
  then obtain ps where ps: "ds_planned st' = ds_planned st @ [planned_of a d p] @ ps"
      "list_all2 (decided rc g) rest ps"
    by (auto simp: planned)
  have "list_all2 (decided rc g) ((a, d) # rest) (planned_of a d p # ps)"
    using ps(2) ok by (simp add: decided_def disp)
  then have first: "\<exists>ps. ds_planned st' = ds_planned st @ ps \<and> list_all2 (decided rc g) ((a, d) # rest) ps"
    using ps(1) by auto
  have cons: "consumes m ks a d st st1" using ok by simp
  show ?case
  proof (intro conjI first)
    show "distinct (coalesced_into (ds_planned st'))" using IH by simp
    show "bs_ok (ds_used_resolutions st) \<longrightarrow> bs_ok (ds_used_resolutions st')"
      "bs_ok (ds_used_keep st) \<longrightarrow> bs_ok (ds_used_keep st')"
      using IH cons by (simp_all add: consumes_def)
    show "\<forall>k\<in>set (ds_used_resolutions st'). k \<in> set (ds_used_resolutions st) \<or>
       (\<exists>e\<in>set ((a, d) # rest). \<exists>c\<in>set (dr_candidates (snd e)). \<exists>r. bm_get m k = Some r \<and> receipt_matches_candidate r c)"
      using IH cons by (simp add: consumes_def) blast
    show "\<forall>b\<in>set (ds_used_keep st'). b \<in> set (ds_used_keep st) \<or>
       (\<exists>e\<in>set ((a, d) # rest). \<exists>k. bm_get ks b = Some k \<and> keep_matches_discovery k (snd e))"
      using IH cons by (simp add: consumes_def) blast
    show "(\<forall>e\<in>set ((a, d) # rest). fits (dr_candidates (snd e))) \<longrightarrow> ds_consumed_candidates st' =
       ds_consumed_candidates st + of_nat (sum_list (map (\<lambda>e. length (dr_candidates (snd e))) ((a, d) # rest)))"
      using IH cons by (simp add: consumes_def algebra_simps)
  qed
qed

lemma prepare_dispositions_ok:
  assumes "prepare_dispositions rc policy = Inr (planned, acc)"
  defines "g \<equiv> mp_identity_policy_generation policy"
  obtains ds m ks st where
    "collect_discoveries policy (pr_discoveries rc) = Inr ds"
    "collect_resolutions policy (pr_resolutions rc) = Inr m"
    "collect_keeps policy (pr_keep_distinct rc) = Inr ks"
    "decide_all m ks ds \<lparr>ds_used_resolutions = [], ds_used_keep = [], ds_coalescence_targets = [],
       ds_planned = [], ds_consumed_candidates = 0\<rparr> = Inr st"
    "indexed_by rc g m ks" "\<forall>e\<in>set ds. dr_policy_generation (snd e) = g"
    "length (ds_used_resolutions st) = length m" "length (ds_used_keep st) = length ks"
    "planned = ds_planned st"
    "acc = accounting_default\<lparr>consumed_discoveries := u64_of_usize (length ds),
       consumed_candidates := ds_consumed_candidates st,
       consumed_resolutions := u64_of_usize (length (ds_used_resolutions st)),
       consumed_keep_distinct := u64_of_usize (length (ds_used_keep st))\<rparr>"
proof -
  from assms(1) obtain ds m ks st where c: "collect_discoveries policy (pr_discoveries rc) = Inr ds"
    "collect_resolutions policy (pr_resolutions rc) = Inr m"
    "collect_keeps policy (pr_keep_distinct rc) = Inr ks"
    "decide_all m ks ds \<lparr>ds_used_resolutions = [], ds_used_keep = [], ds_coalescence_targets = [],
       ds_planned = [], ds_consumed_candidates = 0\<rparr> = Inr st"
    "\<not> (length (ds_used_resolutions st) \<noteq> length m \<or> length (ds_used_keep st) \<noteq> length ks)"
    "planned = ds_planned st"
    "acc = accounting_default\<lparr>consumed_discoveries := u64_of_usize (length ds),
       consumed_candidates := ds_consumed_candidates st,
       consumed_resolutions := u64_of_usize (length (ds_used_resolutions st)),
       consumed_keep_distinct := u64_of_usize (length (ds_used_keep st))\<rparr>"
    unfolding prepare_dispositions_def bind_result_Inr by (auto split: if_splits)
  have "indexed_by rc g m ks"
    using collect_unique_get(3,5) [OF c(2) [unfolded collect_resolutions_def]]
      collect_unique_get(5) [OF c(3) [unfolded collect_keeps_def]]
    by (simp add: indexed_by_def g_def)
  moreover have "\<forall>e\<in>set ds. dr_policy_generation (snd e) = g"
  proof
    fix e assume "e \<in> set ds"
    then have "bm_get ds (fst e) = Some (snd e)"
      using collect_unique_get(1) [OF c(1) [unfolded collect_discoveries_def]] by (simp add: bm_get_in)
    then show "dr_policy_generation (snd e) = g"
      using collect_unique_get(3,5) [OF c(1) [unfolded collect_discoveries_def]] by (simp add: g_def)
  qed
  ultimately show thesis using that [OF c(1-4)] c(5-7) by simp
qed

text \<open>The discoveries in address order.\<close>

lemma collect_discoveries_ok:
  assumes "collect_discoveries policy rs = Inr ds"
  shows "mset (map snd ds) = mset rs" "sorted_wrt (<) (map (\<lambda>d. rv_address (dr_source d)) (map snd ds))"
    "\<forall>e\<in>set ds. fst e = rv_address (dr_source (snd e))"
proof -
  note get = collect_unique_get [OF assms [unfolded collect_discoveries_def]]
  have entry: "(a, d) \<in> set ds \<longleftrightarrow> d \<in> set rs \<and> rv_address (dr_source d) = a" for a d
    using get(5) [of a d] get(1) by (simp add: bm_get_in)
  show key: "\<forall>e\<in>set ds. fst e = rv_address (dr_source (snd e))" using entry by force
  then have fsts: "map (\<lambda>d. rv_address (dr_source d)) (map snd ds) = map fst ds" by simp
  show "sorted_wrt (<) (map (\<lambda>d. rv_address (dr_source d)) (map snd ds))"
    unfolding fsts using get(1) by (simp add: bm_ok_def)
  have "distinct (map (\<lambda>d. rv_address (dr_source d)) (map snd ds))"
    unfolding fsts using get(1) by (simp add: bm_ok_def strict_sorted_iff)
  then have "distinct (map snd ds)" unfolding distinct_map [of _ "map snd ds"] by blast
  moreover have "distinct rs" using get(4) unfolding distinct_map by blast
  moreover have "set (map snd ds) = set rs" using entry by force
  ultimately show "mset (map snd ds) = mset rs" using set_eq_iff_mset_eq_distinct by blast
qed

lemma subset_same_length: "bs_ok s \<Longrightarrow> distinct t \<Longrightarrow> set s \<subseteq> set t \<Longrightarrow> length s = length t \<Longrightarrow> set s = set t"
  by (metis List.finite_set bs_ok_distinct card_subset_eq distinct_card)

section \<open>Properties\<close>

definition plan_matches_discovery :: "discovery_receipt \<Rightarrow> planned_entity \<Rightarrow> bool" where
  "plan_matches_discovery d p \<longleftrightarrow> ple_logical_id p = oa_logical (rv_address (dr_source d)) \<and>
     ple_revision p = rv_revision (dr_source d) \<and> ple_snapshot p = rv_snapshot (dr_source d)"

lemma dispositions_lemma:
  assumes "prepare_dispositions rc policy = Inr (planned, acc)"
  shows "\<exists>ds. mset ds = mset (pr_discoveries rc) \<and>
    sorted_wrt (<) (map (\<lambda>d. rv_address (dr_source d)) ds) \<and>
    list_all2 (\<lambda>d p. plan_matches_discovery d p \<and>
      justified rc (mp_identity_policy_generation policy) d (ple_disposition p)) ds planned \<and>
    distinct (coalesced_into planned)"
  using assms
proof (rule prepare_dispositions_ok)
  fix ds m ks st
  assume c: "collect_discoveries policy (pr_discoveries rc) = Inr ds"
    and run: "decide_all m ks ds \<lparr>ds_used_resolutions = [], ds_used_keep = [], ds_coalescence_targets = [],
       ds_planned = [], ds_consumed_candidates = 0\<rparr> = Inr st"
    and idx: "indexed_by rc (mp_identity_policy_generation policy) m ks"
      "\<forall>e\<in>set ds. dr_policy_generation (snd e) = mp_identity_policy_generation policy"
    and planned: "planned = ds_planned st"
  note d = collect_discoveries_ok [OF c]
  note all = decide_all_ok [OF run idx, simplified]
  have entry: "plan_matches_discovery (snd e) p \<and>
      justified rc (mp_identity_policy_generation policy) (snd e) (ple_disposition p)"
    if "decided rc (mp_identity_policy_generation policy) e p" "e \<in> set ds" for e p
  proof -
    have "p = planned_of (fst e) (snd e) (ple_disposition p)"
        "justified rc (mp_identity_policy_generation policy) (snd e) (ple_disposition p)"
      using that(1) by (simp_all add: decided_def)
    moreover have "plan_matches_discovery (snd e) (planned_of (fst e) (snd e) x)" for x
      using d(3) that(2) by (simp add: plan_matches_discovery_def planned_of_def)
    ultimately show ?thesis by metis
  qed
  have "list_all2 (decided rc (mp_identity_policy_generation policy)) ds planned"
    unfolding planned using all by blast
  then have "list_all2 (\<lambda>d p. plan_matches_discovery d p \<and>
      justified rc (mp_identity_policy_generation policy) d (ple_disposition p)) (map snd ds) planned"
    unfolding list_all2_map1 by (rule list.rel_mono_strong) (rule entry)
  moreover have "distinct (coalesced_into planned)" unfolding planned using all by blast
  ultimately show ?thesis using d(1,2) by blast
qed

text \<open>
  Planning decides every discovery receipt once, in address order, and only on grounds that the
  receipts give: an entity is coalesced only if its discovery page is complete, a Same resolution
  names exactly a candidate of that page and no other candidate of it resolves Same; a truncated
  page is only ever kept distinct; and no two source entities coalesce into one target.
\<close>

theorem dispositions_justified:
  assumes "prepare_dispositions rc policy = Inr (planned, acc)"
  shows "\<exists>ds. mset ds = mset (pr_discoveries rc) \<and>
    sorted_wrt (<) (map (\<lambda>d. rv_address (dr_source d)) ds) \<and>
    list_all2 (\<lambda>d p. plan_matches_discovery d p \<and>
      justified rc (mp_identity_policy_generation policy) d (ple_disposition p)) ds planned \<and>
    distinct (coalesced_into planned)"
  using assms by (rule dispositions_lemma)

text \<open>
  No receipt is left over and the accounting is exact: every resolution resolves a candidate of
  some discovery page, every keep-distinct receipt binds one, and the four consumed counters are
  the numbers of candidates, discoveries, resolutions and keep-distinct receipts supplied.
\<close>

theorem receipts_all_consumed:
  assumes "prepare_dispositions rc policy = Inr (planned, acc)"
    and "\<forall>d\<in>set (pr_discoveries rc). length (dr_candidates d) < 2 ^ 64"
  shows "(\<forall>r\<in>set (pr_resolutions rc). \<exists>d\<in>set (pr_discoveries rc). \<exists>c\<in>set (dr_candidates d).
      receipt_matches_candidate r c) \<and>
    (\<forall>k\<in>set (pr_keep_distinct rc). \<exists>d\<in>set (pr_discoveries rc). keep_matches_discovery k d) \<and>
    acc = accounting_default\<lparr>
      consumed_discoveries := u64_of_usize (length (pr_discoveries rc)),
      consumed_candidates := of_nat (sum_list (map (\<lambda>d. length (dr_candidates d)) (pr_discoveries rc))),
      consumed_resolutions := u64_of_usize (length (pr_resolutions rc)),
      consumed_keep_distinct := u64_of_usize (length (pr_keep_distinct rc))\<rparr>"
  using assms(1)
proof (rule prepare_dispositions_ok)
  fix ds m ks st
  assume c: "collect_discoveries policy (pr_discoveries rc) = Inr ds"
      "collect_resolutions policy (pr_resolutions rc) = Inr m"
      "collect_keeps policy (pr_keep_distinct rc) = Inr ks"
    and run: "decide_all m ks ds \<lparr>ds_used_resolutions = [], ds_used_keep = [], ds_coalescence_targets = [],
       ds_planned = [], ds_consumed_candidates = 0\<rparr> = Inr st"
    and idx: "indexed_by rc (mp_identity_policy_generation policy) m ks"
      "\<forall>e\<in>set ds. dr_policy_generation (snd e) = mp_identity_policy_generation policy"
    and len: "length (ds_used_resolutions st) = length m" "length (ds_used_keep st) = length ks"
    and acc: "acc = accounting_default\<lparr>consumed_discoveries := u64_of_usize (length ds),
       consumed_candidates := ds_consumed_candidates st,
       consumed_resolutions := u64_of_usize (length (ds_used_resolutions st)),
       consumed_keep_distinct := u64_of_usize (length (ds_used_keep st))\<rparr>"
  note d = collect_discoveries_ok [OF c(1)]
  note all = decide_all_ok [OF run idx, simplified]
  note m = collect_unique_get [OF c(2) [unfolded collect_resolutions_def]]
  note ks = collect_unique_get [OF c(3) [unfolded collect_keeps_def]]
  have snds: "set (map snd ds) = set (pr_discoveries rc)" using d(1) by (metis set_mset_mset)
  have keys: "k \<in> set (map fst m) \<longleftrightarrow> (\<exists>r. bm_get m k = Some r)"
      "b \<in> set (map fst ks) \<longleftrightarrow> (\<exists>r. bm_get ks b = Some r)" for k b
    using bm_contains_iff [of m k] bm_contains_iff [of ks b] by (auto simp: bm_contains_def bm_keys_def)
  have used: "set (ds_used_resolutions st) = set (map fst m)"
  proof (rule subset_same_length)
    show "set (ds_used_resolutions st) \<subseteq> set (map fst m)" using all keys by blast
  qed (use all m(1) len in \<open>simp_all add: bm_ok_def strict_sorted_iff\<close>)
  have used_keep: "set (ds_used_keep st) = set (map fst ks)"
  proof (rule subset_same_length)
    show "set (ds_used_keep st) \<subseteq> set (map fst ks)" using all keys by blast
  qed (use all ks(1) len in \<open>simp_all add: bm_ok_def strict_sorted_iff\<close>)
  have A: "\<exists>d\<in>set (pr_discoveries rc). \<exists>c\<in>set (dr_candidates d). receipt_matches_candidate r c"
    if "r \<in> set (pr_resolutions rc)" for r
  proof -
    have get: "bm_get m (resolution_key r) = Some r" using m(5) that by simp
    then have "resolution_key r \<in> set (ds_used_resolutions st)" unfolding used keys by blast
    then obtain e c r' where e: "e \<in> set ds" "c \<in> set (dr_candidates (snd e))"
        "bm_get m (resolution_key r) = Some r'" "receipt_matches_candidate r' c"
      using all by blast
    moreover have "snd e \<in> set (pr_discoveries rc)" using e(1) snds by auto
    ultimately show ?thesis using get by auto
  qed
  have B: "\<exists>d\<in>set (pr_discoveries rc). keep_matches_discovery k d" if "k \<in> set (pr_keep_distinct rc)" for k
  proof -
    have get: "bm_get ks (rv_address (kd_source k)) = Some k" using ks(5) that by simp
    then have "rv_address (kd_source k) \<in> set (ds_used_keep st)" unfolding used_keep keys by blast
    then obtain e k' where e: "e \<in> set ds" "bm_get ks (rv_address (kd_source k)) = Some k'"
        "keep_matches_discovery k' (snd e)"
      using all by blast
    moreover have "snd e \<in> set (pr_discoveries rc)" using e(1) snds by auto
    ultimately show ?thesis using get by auto
  qed
  have "\<forall>e\<in>set ds. fits (dr_candidates (snd e))" using assms(2) snds by (auto simp: fits_def)
  then have "ds_consumed_candidates st = of_nat (sum_list (map (\<lambda>d. length (dr_candidates d)) (map snd ds)))"
    using all by (simp add: comp_def)
  also have "sum_list (map (\<lambda>d. length (dr_candidates d)) (map snd ds)) =
      sum_list (map (\<lambda>d. length (dr_candidates d)) (pr_discoveries rc))"
    using arg_cong [OF d(1), of "\<lambda>M. \<Sum>d\<in>#M. length (dr_candidates d)"]
    by (simp add: sum_mset_sum_list [symmetric] image_mset.compositionality)
  finally have sum: "ds_consumed_candidates st =
      of_nat (sum_list (map (\<lambda>d. length (dr_candidates d)) (pr_discoveries rc)))" .
  have "length ds = length (pr_discoveries rc)" using d(1) by (metis length_map size_mset)
  then show ?thesis using A B acc sum len m(2) ks(2) by simp
qed

end
