(* ===== verification/Om_Planner.thy ===== *)
theory Om_Planner
  imports Om_Verifier Om_Dispositions
begin

text \<open>
  The streaming planner \<open>plan_merge\<close> (\<open>planner.rs\<close>). The local variables of \<open>plan_after_begin\<close>
  are the record \<open>plan_locals\<close>, the six closures that visit the two snapshots are the six
  visitors, and the phases run in the code's order. Any error ends the run with the sink as it is
  then; \<open>plan_merge\<close> aborts it.
\<close>

section \<open>Index keys\<close>

definition observation_key :: "deps \<Rightarrow> result_object_id \<Rightarrow> lifecycle \<Rightarrow> str \<Rightarrow> hash32" where
  "observation_key D entity lc content =
     (let h = ch_new ''openmemory/observation-index-key/v1'';
          h = encode_result_id entity h;
          h = ch_u16 (lifecycle_u16 lc) h;
          h = ch_text content h
      in ch_finish D h)"

definition relation_key ::
    "deps \<Rightarrow> result_object_id \<Rightarrow> str \<Rightarrow> result_object_id \<Rightarrow> lifecycle \<Rightarrow> hash32" where
  "relation_key D subject predicate obj lc =
     (let h = ch_new ''openmemory/relation-index-key/v1'';
          h = encode_result_id subject h;
          h = ch_text predicate h;
          h = encode_result_id obj h;
          h = ch_u16 (lifecycle_u16 lc) h
      in ch_finish D h)"

definition qualified_collision_key :: "deps \<Rightarrow> str \<Rightarrow> hash32" where
  "qualified_collision_key D value =
     (let h = ch_new ''openmemory/qualified-id-collision-key/v1'';
          h = ch_text value h
      in ch_finish D h)"

section \<open>Planning state\<close>

record 's planning_state =
  ps_sink :: 's
  ps_action_hash :: canonical_hasher
  ps_result_tokens :: "result_token list"
  ps_counts :: action_counts
  ps_accounting :: merge_accounting

definition emit_state ::
    "deps \<Rightarrow> 's action_sink \<Rightarrow> merge_action \<Rightarrow> ('s planning_state, merge_error, unit) run" where
  "emit_state D K action st =
     (if unat (total_actions (ps_counts st)) \<ge> MAX_ACTIONS
      then (Inl (MergeError BoundExceeded ''merge action count exceeds the hard limit''), st)
      else case snk_emit K action (ps_sink st) of
        (Inl e, sink) \<Rightarrow> (Inl e, st\<lparr>ps_sink := sink\<rparr>)
      | (Inr _, sink) \<Rightarrow> (Inr (), st\<lparr>ps_sink := sink,
          ps_action_hash := encode_action D action (ps_action_hash st),
          ps_result_tokens := ps_result_tokens st @ result_tokens D action\<rparr>))"

record 's plan_locals =
  lc_state :: "'s planning_state"
  lc_target_verifier :: snapshot_verifier
  lc_source_verifier :: snapshot_verifier
  lc_target_entities :: "(str, uuid) btree_map"
  lc_result_entity_ids :: "str btree_set"
  lc_source_entity_results :: "(str, result_object_id) btree_map"
  lc_qualified_entity_ids :: "hash32 set"
  lc_seen_dispositions :: "bool list"
  lc_seen_disposition_count :: nat
  lc_observation_index :: "(hash32, result_object_id) btree_map"
  lc_result_observation_ids :: "str btree_set"
  lc_qualified_observation_ids :: "hash32 set"
  lc_relation_index :: "(hash32, result_object_id) btree_map"
  lc_result_relation_ids :: "str btree_set"
  lc_qualified_relation_ids :: "hash32 set"

definition emit :: "deps \<Rightarrow> 's action_sink \<Rightarrow> merge_action \<Rightarrow> ('s plan_locals, merge_error, unit) run" where
  "emit D K action l =
     (case emit_state D K action (lc_state l) of (r, st) \<Rightarrow> (r, l\<lparr>lc_state := st\<rparr>))"

definition count_in :: "(action_counts \<Rightarrow> action_counts) \<Rightarrow> 's plan_locals \<Rightarrow> 's plan_locals" where
  "count_in f l = l\<lparr>lc_state := (lc_state l)\<lparr>ps_counts := f (ps_counts (lc_state l))\<rparr>\<rparr>"

definition fail_with :: "merge_error_code \<Rightarrow> str \<Rightarrow> ('st, merge_error, 'a) run" where
  "fail_with code message st = (Inl (MergeError code message), st)"

text \<open>A verifier call inside a closure: its error ends the closure.\<close>

definition verify_target ::
    "(snapshot_verifier \<Rightarrow> merge_error + snapshot_verifier) \<Rightarrow> ('s plan_locals, merge_error, unit) run" where
  "verify_target f l =
     (case f (lc_target_verifier l) of Inl e \<Rightarrow> (Inl e, l)
      | Inr v \<Rightarrow> (Inr (), l\<lparr>lc_target_verifier := v\<rparr>))"

definition verify_source ::
    "(snapshot_verifier \<Rightarrow> merge_error + snapshot_verifier) \<Rightarrow> ('s plan_locals, merge_error, unit) run" where
  "verify_source f l =
     (case f (lc_source_verifier l) of Inl e \<Rightarrow> (Inl e, l)
      | Inr v \<Rightarrow> (Inr (), l\<lparr>lc_source_verifier := v\<rparr>))"

section \<open>The six visitors\<close>

definition target_entity_body ::
    "deps \<Rightarrow> 's action_sink \<Rightarrow> entity_record \<Rightarrow> ('s plan_locals, merge_error, unit) run" where
  "target_entity_body D K r l =
     (let logical = oa_logical (er_address r) in
      if bm_contains (lc_target_entities l) logical
      then fail_with DuplicateInput ''target entity is duplicated'' l
      else emit D K (KeepTargetEntity r)
        (count_in (\<lambda>c. c\<lparr>target_entities := target_entities c + 1\<rparr>)
          (l\<lparr>lc_target_entities := bm_insert logical (er_revision r) (lc_target_entities l),
             lc_result_entity_ids := bs_insert logical (lc_result_entity_ids l)\<rparr>)))"

definition target_entity_visitor ::
    "deps \<Rightarrow> 's action_sink \<Rightarrow> entity_record \<Rightarrow> ('s plan_locals, merge_error, unit) run" where
  "target_entity_visitor D K r = run_then (verify_target (verifier_entity D r)) (target_entity_body D K r)"

text \<open>The match on the planned disposition: the public disposition, the result id and the locals.\<close>

definition public_disposition ::
    "deps \<Rightarrow> snapshot_header \<Rightarrow> entity_record \<Rightarrow> planned_entity \<Rightarrow> 's plan_locals \<Rightarrow>
     merge_error + entity_disposition \<times> result_object_id \<times> 's plan_locals" where
  "public_disposition D target_header r expected l =
     (case ple_disposition expected of
        PlanCoalesce target receipt \<Rightarrow>
          (case bm_get (lc_target_entities l) (oa_logical (rv_address target)) of
             None \<Rightarrow> Inl (MergeError StaleReceipt ''coalescence target is absent'')
           | Some target_revision \<Rightarrow>
               (if target_revision \<noteq> rv_revision target \<or> rv_snapshot target \<noteq> sh_snapshot_id target_header
                then Inl (MergeError StaleReceipt ''coalescence target moved after review'')
                else Inr (Coalesce (er_address r) (rv_address target) receipt,
                  ResTarget (oa_logical (rv_address target)),
                  count_in (\<lambda>c. c\<lparr>coalesced_entities := coalesced_entities c + 1\<rparr>) l)))
      | PlanAdd reason receipt \<Rightarrow>
          (let qualified = qualified_derive D (oa_space (er_address r)) (oa_logical (er_address r)) in
           if qualified \<in> set (lc_result_entity_ids l) \<or>
              qualified_collision_key D qualified \<in> lc_qualified_entity_ids l
           then Inl (MergeError QualifiedIdCollision
             ''derived entity ID already exists in the target result'')
           else Inr (AddDistinct (er_address r) qualified reason receipt, ResQualified qualified,
             count_in (\<lambda>c. c\<lparr>added_entities := added_entities c + 1\<rparr>)
               (l\<lparr>lc_qualified_entity_ids :=
                  insert (qualified_collision_key D qualified) (lc_qualified_entity_ids l)\<rparr>))))"

definition source_entity_body ::
    "deps \<Rightarrow> 's action_sink \<Rightarrow> snapshot_header \<Rightarrow> snapshot_header \<Rightarrow> planned_entity list \<Rightarrow>
     entity_record \<Rightarrow> ('s plan_locals, merge_error, unit) run" where
  "source_entity_body D K target_header source_header planned r l =
     (case binary_search_by (\<lambda>candidate. cmp (ple_logical_id candidate) (oa_logical (er_address r))) planned of
        None \<Rightarrow> fail_with DiscoveryIncomplete ''source entity has no discovery receipt'' l
      | Some i \<Rightarrow>
          (let expected = planned ! i in
           if ple_revision expected \<noteq> er_revision r \<or> ple_snapshot expected \<noteq> sh_snapshot_id source_header
           then fail_with StaleReceipt ''source entity moved after discovery'' l
           else if lc_seen_dispositions l ! i
           then fail_with DuplicateInput ''source entity consumes one discovery more than once'' l
           else case public_disposition D target_header r expected
               (l\<lparr>lc_seen_dispositions := (lc_seen_dispositions l)[i := True],
                  lc_seen_disposition_count := lc_seen_disposition_count l + 1\<rparr>) of
             Inl e \<Rightarrow> (Inl e, l)
           | Inr (disposition, result_id, l) \<Rightarrow>
               emit D K (ApplyEntityDisposition r disposition)
                 (count_in (\<lambda>c. c\<lparr>source_entities := source_entities c + 1\<rparr>)
                   (l\<lparr>lc_source_entity_results :=
                      bm_insert (oa_logical (er_address r)) result_id (lc_source_entity_results l)\<rparr>))))"

definition source_entity_visitor ::
    "deps \<Rightarrow> 's action_sink \<Rightarrow> snapshot_header \<Rightarrow> snapshot_header \<Rightarrow> planned_entity list \<Rightarrow>
     entity_record \<Rightarrow> ('s plan_locals, merge_error, unit) run" where
  "source_entity_visitor D K target_header source_header planned r =
     run_then (verify_source (verifier_entity D r)) (source_entity_body D K target_header source_header planned r)"

definition target_observation_body ::
    "deps \<Rightarrow> 's action_sink \<Rightarrow> observation_record \<Rightarrow> ('s plan_locals, merge_error, unit) run" where
  "target_observation_body D K r l =
     (if \<not> bm_contains (lc_target_entities l) (oa_logical (ob_entity r))
      then fail_with DanglingEndpoint ''target observation entity is absent'' l
      else
        let result = ResTarget (oa_logical (ob_address r));
            result_entity = ResTarget (oa_logical (ob_entity r));
            key = observation_key D result_entity (ob_lifecycle r) (ob_content r);
            l = l\<lparr>lc_observation_index := bm_or_insert key result (lc_observation_index l)\<rparr>
        in if result_as_str result \<in> set (lc_result_observation_ids l)
           then fail_with DuplicateInput ''target observation projection is duplicated'' l
           else emit D K (KeepTargetObservation r result_entity)
             (count_in (\<lambda>c. c\<lparr>target_observations := target_observations c + 1\<rparr>)
               (l\<lparr>lc_result_observation_ids :=
                  bs_insert (result_as_str result) (lc_result_observation_ids l)\<rparr>)))"

definition target_observation_visitor ::
    "deps \<Rightarrow> 's action_sink \<Rightarrow> observation_record \<Rightarrow> ('s plan_locals, merge_error, unit) run" where
  "target_observation_visitor D K r =
     run_then (verify_target (verifier_observation D r)) (target_observation_body D K r)"

definition source_observation_body ::
    "deps \<Rightarrow> 's action_sink \<Rightarrow> observation_record \<Rightarrow> ('s plan_locals, merge_error, unit) run" where
  "source_observation_body D K r l =
     (case bm_get (lc_source_entity_results l) (oa_logical (ob_entity r)) of
        None \<Rightarrow> fail_with DanglingEndpoint ''source observation entity has no disposition'' l
      | Some result_entity \<Rightarrow>
          (let key = observation_key D result_entity (ob_lifecycle r) (ob_content r) in
           case bm_get (lc_observation_index l) key of
             Some target_result \<Rightarrow>
               emit D K (MergeObservationOrigin r target_result result_entity)
                 (count_in (\<lambda>c. c\<lparr>merged_observations := merged_observations c + 1,
                    source_observations := source_observations c + 1\<rparr>) l)
           | None \<Rightarrow>
               (let result = qualified_derive D (oa_space (ob_address r)) (oa_logical (ob_address r)) in
                if result \<in> set (lc_result_observation_ids l) \<or>
                   qualified_collision_key D result \<in> lc_qualified_observation_ids l
                then fail_with QualifiedIdCollision ''derived observation ID already exists'' l
                else emit D K (AddObservation r result result_entity)
                  (count_in (\<lambda>c. c\<lparr>added_observations := added_observations c + 1,
                     source_observations := source_observations c + 1\<rparr>)
                    (l\<lparr>lc_qualified_observation_ids :=
                         insert (qualified_collision_key D result) (lc_qualified_observation_ids l),
                       lc_observation_index :=
                         bm_insert key (ResQualified result) (lc_observation_index l)\<rparr>)))))"

definition source_observation_visitor ::
    "deps \<Rightarrow> 's action_sink \<Rightarrow> observation_record \<Rightarrow> ('s plan_locals, merge_error, unit) run" where
  "source_observation_visitor D K r =
     run_then (verify_source (verifier_observation D r)) (source_observation_body D K r)"

definition target_relation_body ::
    "deps \<Rightarrow> 's action_sink \<Rightarrow> relation_record \<Rightarrow> ('s plan_locals, merge_error, unit) run" where
  "target_relation_body D K r l =
     (if \<not> bm_contains (lc_target_entities l) (oa_logical (re_subject r)) \<or>
         \<not> bm_contains (lc_target_entities l) (oa_logical (re_object r))
      then fail_with DanglingEndpoint ''target relation endpoint is absent'' l
      else
        let result_subject = ResTarget (oa_logical (re_subject r));
            result_object = ResTarget (oa_logical (re_object r));
            key = relation_key D result_subject (re_predicate r) result_object (re_lifecycle r);
            result = ResTarget (oa_logical (re_address r))
        in if bm_contains (lc_relation_index l) key \<or>
              result_as_str result \<in> set (lc_result_relation_ids l)
           then fail_with DuplicateInput ''target relation assertion is duplicated'' l
           else emit D K (KeepTargetRelation r result_subject result_object)
             (count_in (\<lambda>c. c\<lparr>target_relations := target_relations c + 1\<rparr>)
               (l\<lparr>lc_relation_index := bm_insert key result (lc_relation_index l),
                  lc_result_relation_ids :=
                    bs_insert (result_as_str result) (lc_result_relation_ids l)\<rparr>)))"

definition target_relation_visitor ::
    "deps \<Rightarrow> 's action_sink \<Rightarrow> relation_record \<Rightarrow> ('s plan_locals, merge_error, unit) run" where
  "target_relation_visitor D K r =
     run_then (verify_target (verifier_relation D r)) (target_relation_body D K r)"

definition source_relation_body ::
    "deps \<Rightarrow> 's action_sink \<Rightarrow> merge_policy \<Rightarrow> relation_record \<Rightarrow> ('s plan_locals, merge_error, unit) run" where
  "source_relation_body D K policy r l =
     (case bm_get (lc_source_entity_results l) (oa_logical (re_subject r)) of
        None \<Rightarrow> fail_with DanglingEndpoint ''source relation subject has no disposition'' l
      | Some result_subject \<Rightarrow>
     (case bm_get (lc_source_entity_results l) (oa_logical (re_object r)) of
        None \<Rightarrow> fail_with DanglingEndpoint ''source relation object has no disposition'' l
      | Some result_object \<Rightarrow>
          if result_subject = result_object \<and> \<not> allows_self_loop policy (re_predicate r)
          then fail_with ThreeWayConflict
            ''coalescence creates a self-loop without explicit predicate policy'' l
          else
            (let key = relation_key D result_subject (re_predicate r) result_object (re_lifecycle r) in
             case bm_get (lc_relation_index l) key of
               Some target_result \<Rightarrow>
                 emit D K (MergeRelationOrigin r target_result result_subject result_object)
                   (count_in (\<lambda>c. c\<lparr>merged_relations := merged_relations c + 1,
                      source_relations := source_relations c + 1\<rparr>) l)
             | None \<Rightarrow>
                 (let result = qualified_derive D (oa_space (re_address r)) (oa_logical (re_address r)) in
                  if result \<in> set (lc_result_relation_ids l) \<or>
                     qualified_collision_key D result \<in> lc_qualified_relation_ids l
                  then fail_with QualifiedIdCollision ''derived relation ID already exists'' l
                  else emit D K (AddRelation r result result_subject result_object)
                    (count_in (\<lambda>c. c\<lparr>added_relations := added_relations c + 1,
                       source_relations := source_relations c + 1\<rparr>)
                      (l\<lparr>lc_qualified_relation_ids :=
                           insert (qualified_collision_key D result) (lc_qualified_relation_ids l),
                         lc_relation_index :=
                           bm_insert key (ResQualified result) (lc_relation_index l)\<rparr>))))))"

definition source_relation_visitor ::
    "deps \<Rightarrow> 's action_sink \<Rightarrow> merge_policy \<Rightarrow> relation_record \<Rightarrow> ('s plan_locals, merge_error, unit) run" where
  "source_relation_visitor D K policy r =
     run_then (verify_source (verifier_relation D r)) (source_relation_body D K policy r)"

section \<open>The run\<close>

definition validate_headers :: "snapshot_header \<Rightarrow> snapshot_header \<Rightarrow> merge_error + unit" where
  "validate_headers target source =
     (if sh_format_version target \<noteq> 1 \<or> sh_format_version source \<noteq> 1
      then Inl (MergeError InvalidInput ''unsupported snapshot format version'')
      else if sh_space_id target = sh_space_id source
      then Inl (MergeError InvalidInput ''material merge source and target must be distinct spaces'')
      else Inr ())"

definition validate_accounting ::
    "action_counts \<Rightarrow> merge_accounting \<Rightarrow> snapshot_header \<Rightarrow> snapshot_header \<Rightarrow> merge_error + unit" where
  "validate_accounting counts accounting target source =
     (if target_entities counts \<noteq> sh_entity_count target \<or>
         source_entities counts \<noteq> sh_entity_count source \<or>
         target_observations counts \<noteq> sh_observation_count target \<or>
         source_observations counts \<noteq> sh_observation_count source \<or>
         target_relations counts \<noteq> sh_relation_count target \<or>
         source_relations counts \<noteq> sh_relation_count source \<or>
         coalesced_entities counts + added_entities counts \<noteq> source_entities counts \<or>
         added_observations counts + merged_observations counts \<noteq> source_observations counts \<or>
         added_relations counts + merged_relations counts \<noteq> source_relations counts \<or>
         result_entities accounting \<noteq> target_entities counts + added_entities counts \<or>
         result_observations accounting \<noteq> target_observations counts + added_observations counts \<or>
         result_relations accounting \<noteq> target_relations counts + added_relations counts
      then Inl (MergeError AccountingMismatch
        ''merge accounting does not cover every input and result exactly once'')
      else Inr ())"

definition finish_accounting :: "action_counts \<Rightarrow> result_token list \<Rightarrow> merge_accounting \<Rightarrow> merge_accounting" where
  "finish_accounting counts tokens a =
     a\<lparr>result_entities := target_entities counts + added_entities counts,
       result_observations := target_observations counts + added_observations counts,
       result_relations := target_relations counts + added_relations counts,
       retained_origins := u64_of_usize (length (filter (\<lambda>t. fst t = 2 \<or> fst t = 4 \<or> fst t = 6) tokens))\<rparr>"

definition plan_finish ::
    "deps \<Rightarrow> snapshot_header \<Rightarrow> snapshot_header \<Rightarrow> plan_prelude \<Rightarrow> ('s plan_locals, merge_error, merge_plan) run" where
  "plan_finish D target_header source_header prelude l =
     (let st = lc_state l;
          tokens = canonical_tokens (ps_result_tokens st);
          counts = ps_counts st;
          accounting = finish_accounting counts tokens (ps_accounting st)
      in case validate_accounting counts accounting target_header source_header of
        Inl e \<Rightarrow> (Inl e, l)
      | Inr _ \<Rightarrow>
          (let action_stream_hash = ch_finish D (ps_action_hash st);
               predicted = hash_result_tokens D tokens;
               plan_hash = hash_plan D prelude action_stream_hash counts accounting predicted
           in (Inr \<lparr>mpl_prelude = prelude, mpl_action_stream_hash = action_stream_hash,
                 mpl_action_counts = counts, mpl_accounting = accounting,
                 mpl_predicted_result_hash = predicted, mpl_plan_hash = plan_hash\<rparr>, l)))"

definition all_seen :: "planned_entity list \<Rightarrow> ('s plan_locals, merge_error, unit) run" where
  "all_seen planned l =
     (if lc_seen_disposition_count l \<noteq> length planned
      then fail_with DiscoveryIncomplete ''discovery receipt exists for an absent source entity'' l
      else (Inr (), l))"

definition plan_phases ::
    "deps \<Rightarrow> 's action_sink \<Rightarrow> snapshot_source \<Rightarrow> snapshot_source \<Rightarrow> snapshot_header \<Rightarrow> snapshot_header \<Rightarrow>
     planned_entity list \<Rightarrow> merge_policy \<Rightarrow> plan_prelude \<Rightarrow> ('s plan_locals, merge_error, merge_plan) run" where
  "plan_phases D K target source target_header source_header planned policy prelude =
     run_then (visit (target_entity_visitor D K) (ss_entities target))
     (run_then (verify_target verifier_end_entities)
     (run_then (visit (source_entity_visitor D K target_header source_header planned) (ss_entities source))
     (run_then (verify_source verifier_end_entities)
     (run_then (all_seen planned)
     (run_then (visit (target_observation_visitor D K) (ss_observations target))
     (run_then (verify_target verifier_end_observations)
     (run_then (visit (source_observation_visitor D K) (ss_observations source))
     (run_then (verify_source verifier_end_observations)
     (run_then (visit (target_relation_visitor D K) (ss_relations target))
     (run_then (verify_target (verifier_finish D))
     (run_then (visit (source_relation_visitor D K policy) (ss_relations source))
     (run_then (verify_source (verifier_finish D))
     (plan_finish D target_header source_header prelude)))))))))))))"

definition initial_locals ::
    "'s \<Rightarrow> merge_accounting \<Rightarrow> snapshot_verifier \<Rightarrow> snapshot_verifier \<Rightarrow> nat \<Rightarrow> 's plan_locals" where
  "initial_locals sink accounting target_verifier source_verifier n =
     \<lparr>lc_state = \<lparr>ps_sink = sink, ps_action_hash = ch_new ''openmemory/merge-actions/v1'',
        ps_result_tokens = [], ps_counts = counts_default, ps_accounting = accounting\<rparr>,
      lc_target_verifier = target_verifier, lc_source_verifier = source_verifier,
      lc_target_entities = [], lc_result_entity_ids = [], lc_source_entity_results = [],
      lc_qualified_entity_ids = {}, lc_seen_dispositions = replicate n False,
      lc_seen_disposition_count = 0, lc_observation_index = [], lc_result_observation_ids = [],
      lc_qualified_observation_ids = {}, lc_relation_index = [], lc_result_relation_ids = [],
      lc_qualified_relation_ids = {}\<rparr>"

definition plan_after_begin ::
    "deps \<Rightarrow> 's action_sink \<Rightarrow> snapshot_source \<Rightarrow> snapshot_source \<Rightarrow> snapshot_header \<Rightarrow> snapshot_header \<Rightarrow>
     planning_receipts \<Rightarrow> merge_policy \<Rightarrow> plan_prelude \<Rightarrow> ('s, merge_error, merge_plan) run" where
  "plan_after_begin D K target source target_header source_header receipts policy prelude sink =
     (case prepare_dispositions receipts policy of Inl e \<Rightarrow> (Inl e, sink)
      | Inr (planned, accounting) \<Rightarrow>
     (case verifier_new D target_header of Inl e \<Rightarrow> (Inl e, sink)
      | Inr target_verifier \<Rightarrow>
     (case verifier_new D source_header of Inl e \<Rightarrow> (Inl e, sink)
      | Inr source_verifier \<Rightarrow>
     (case plan_phases D K target source target_header source_header planned policy prelude
         (initial_locals sink accounting target_verifier source_verifier (length planned)) of
        (r, l) \<Rightarrow> (r, ps_sink (lc_state l))))))"

definition prelude_of :: "snapshot_header \<Rightarrow> snapshot_header \<Rightarrow> merge_policy \<Rightarrow> plan_prelude" where
  "prelude_of target_header source_header policy =
     \<lparr>pp_version = MERGE_PLAN_VERSION, pp_source_space = sh_space_id source_header,
      pp_target_space = sh_space_id target_header,
      pp_source_snapshot_hash = sh_hash source_header,
      pp_target_snapshot_hash = sh_hash target_header,
      pp_expected_target_version = sh_space_version target_header,
      pp_policy_version = mp_version policy,
      pp_identity_policy_generation = mp_identity_policy_generation policy\<rparr>"

definition plan_merge ::
    "deps \<Rightarrow> 's action_sink \<Rightarrow> snapshot_source \<Rightarrow> snapshot_source \<Rightarrow> planning_receipts \<Rightarrow> merge_policy \<Rightarrow>
     ('s, merge_error, merge_plan) run" where
  "plan_merge D K target source receipts policy sink =
     (let target_header = ss_header target;
          source_header = ss_header source
      in case validate_headers target_header source_header of
        Inl e \<Rightarrow> (Inl e, sink)
      | Inr _ \<Rightarrow>
          (let prelude = prelude_of target_header source_header policy in
           case snk_begin K prelude sink of
             (Inl e, sink) \<Rightarrow> (Inl e, sink)
           | (Inr _, sink) \<Rightarrow>
               (case plan_after_begin D K target source target_header source_header receipts policy
                    prelude sink of
                  (Inr plan, sink) \<Rightarrow>
                    (case snk_finish K plan sink of
                       (Inl e, sink) \<Rightarrow> (Inl e, snk_abort K sink)
                     | (Inr _, sink) \<Rightarrow> (Inr plan, sink))
                | (Inl e, sink) \<Rightarrow> (Inl e, snk_abort K sink))))"

end
