(* ===== verification/Om_PlanTrace.thy ===== *)
theory Om_PlanTrace
  imports Om_Planner
begin

text \<open>
  What a successful run of the planner has emitted. \<open>logged\<close> ties the planning state to the list of
  emitted actions; the \<open>_step\<close> predicates specify the action of one source record given the actions
  before it; \<open>plan_trace\<close> puts the six phases together, and \<open>plan_phases_trace\<close> shows that every
  successful run has such a trace.
\<close>

section \<open>Visits and the log\<close>

lemma visit_prefix:
  assumes "visit f (map Inr xs) st = (Inr (), st')" and "I [] st"
    and "\<And>ys x st1 st2. I ys st1 \<Longrightarrow> x \<in> set xs \<Longrightarrow> f x st1 = (Inr (), st2) \<Longrightarrow> I (ys @ [x]) st2"
  shows "I xs st'"
proof -
  have "I ys st \<Longrightarrow> visit f (map Inr zs) st = (Inr (), st') \<Longrightarrow> set zs \<subseteq> set xs \<Longrightarrow> I (ys @ zs) st'" for ys zs st
  proof (induction zs arbitrary: ys st)
    case Nil
    then show ?case by simp
  next
    case (Cons z zs)
    from Cons.prems(2) obtain st1 where f: "f z st = (Inr (), st1)"
      and v: "visit f (map Inr zs) st1 = (Inr (), st')"
      unfolding visit_Cons_ok by blast
    have "z \<in> set xs" "set zs \<subseteq> set xs" using Cons.prems(3) by auto
    then have "I (ys @ [z]) st1" using assms(3) Cons.prems(1) f by blast
    from Cons.IH [OF this v \<open>set zs \<subseteq> set xs\<close>] show ?case by simp
  qed
  from this [of "[]" st xs] show ?thesis using assms(1,2) by simp
qed

definition logged :: "deps \<Rightarrow> 's action_sink \<Rightarrow> 's \<Rightarrow> merge_action list \<Rightarrow> 's planning_state \<Rightarrow> bool" where
  "logged D K s0 as st \<longleftrightarrow> emits K as s0 (ps_sink st) \<and>
     ps_action_hash st = fold (encode_action D) as (ch_new ''openmemory/merge-actions/v1'') \<and>
     ps_result_tokens st = concat (map (result_tokens D) as) \<and>
     ps_counts st = fold count_action as counts_default \<and> length as < MAX_ACTIONS"

text \<open>An emission that succeeds extends the log by its action, provided the counts were advanced
  for it, and changes nothing else.\<close>

lemma emit_logged:
  assumes "emit D K a l = (Inr (), l')"
    and "logged D K s0 as ((lc_state l)\<lparr>ps_counts := c\<rparr>)" "ps_counts (lc_state l) = count_action a c"
  shows "logged D K s0 (as @ [a]) (lc_state l') \<and>
    ps_accounting (lc_state l') = ps_accounting (lc_state l) \<and> l' = l\<lparr>lc_state := lc_state l'\<rparr>"
proof -
  let ?st = "lc_state l"
  have c: "c = fold count_action as counts_default" "length as < MAX_ACTIONS"
    using assms(2) by (simp_all add: logged_def)
  from assms(1) obtain sink where e: "snk_emit K a (ps_sink ?st) = (Inr (), sink)"
    and small: "unat (total_actions (ps_counts ?st)) < MAX_ACTIONS"
    and l': "l' = l\<lparr>lc_state := ?st\<lparr>ps_sink := sink, ps_action_hash := encode_action D a (ps_action_hash ?st),
        ps_result_tokens := ps_result_tokens ?st @ result_tokens D a\<rparr>\<rparr>"
    by (auto simp: emit_def emit_state_def split: prod.splits sum.splits if_splits)
  have "total_actions (ps_counts ?st) = of_nat (length as + 1)"
    unfolding assms(3) total_count_action c(1) total_actions_length by simp
  moreover have "unat (of_nat (length as + 1) :: u64) = length as + 1"
    using c(2) by (subst unat_of_nat) (simp add: MAX_ACTIONS_def take_bit_nat_eq_self)
  ultimately have len: "length as + 1 < MAX_ACTIONS" using small by simp
  have "emits K (as @ [a]) s0 sink"
    using assms(2) e by (auto simp: logged_def intro: emits_snoc)
  then show ?thesis
    using assms(2,3) len by (simp add: logged_def l' c(1))
qed

lemma emit_counted_logged:
  assumes "emit D K a (count_in f l) = (Inr (), l')"
    and "logged D K s0 as (lc_state l)" "\<And>c. f c = count_action a c"
  shows "logged D K s0 (as @ [a]) (lc_state l') \<and>
    ps_accounting (lc_state l') = ps_accounting (lc_state l) \<and> l' = l\<lparr>lc_state := lc_state l'\<rparr>"
proof -
  have "logged D K s0 as ((lc_state (count_in f l))\<lparr>ps_counts := ps_counts (lc_state l)\<rparr>)"
    using assms(2) by (simp add: count_in_def)
  from emit_logged [OF assms(1) this] assms(3) show ?thesis by (simp add: count_in_def)
qed

section \<open>The result of each entity and the index entries\<close>

definition elog :: "entity_record \<Rightarrow> str" where
  "elog e = oa_logical (er_address e)"

fun entity_result :: "merge_action \<Rightarrow> (str \<times> result_object_id) list" where
  "entity_result (ApplyEntityDisposition r (Coalesce _ t _)) = [(elog r, ResTarget (oa_logical t))]"
| "entity_result (ApplyEntityDisposition r (AddDistinct _ q _ _)) = [(elog r, ResQualified q)]"
| "entity_result _ = []"

fun added_entity :: "merge_action \<Rightarrow> str list" where
  "added_entity (ApplyEntityDisposition _ (AddDistinct _ q _ _)) = [q]"
| "added_entity _ = []"

fun coalesced_target :: "merge_action \<Rightarrow> object_address list" where
  "coalesced_target (ApplyEntityDisposition _ (Coalesce _ t _)) = [t]"
| "coalesced_target _ = []"

fun observation_entry :: "deps \<Rightarrow> merge_action \<Rightarrow> (hash32 \<times> result_object_id) list" where
  "observation_entry D (KeepTargetObservation r e) =
     [(observation_key D e (ob_lifecycle r) (ob_content r), ResTarget (oa_logical (ob_address r)))]"
| "observation_entry D (AddObservation r q e) =
     [(observation_key D e (ob_lifecycle r) (ob_content r), ResQualified q)]"
| "observation_entry D _ = []"

fun added_observation :: "merge_action \<Rightarrow> str list" where
  "added_observation (AddObservation _ q _) = [q]"
| "added_observation _ = []"

fun relation_entry :: "deps \<Rightarrow> merge_action \<Rightarrow> (hash32 \<times> result_object_id) list" where
  "relation_entry D (KeepTargetRelation r s b) =
     [(relation_key D s (re_predicate r) b (re_lifecycle r), ResTarget (oa_logical (re_address r)))]"
| "relation_entry D (AddRelation r q s b) =
     [(relation_key D s (re_predicate r) b (re_lifecycle r), ResQualified q)]"
| "relation_entry D _ = []"

fun added_relation :: "merge_action \<Rightarrow> str list" where
  "added_relation (AddRelation _ q _ _) = [q]"
| "added_relation _ = []"

definition gather :: "(merge_action \<Rightarrow> 'x list) \<Rightarrow> merge_action list \<Rightarrow> 'x list" where
  "gather f as = concat (map f as)"

lemma gather_simps [simp]: "gather f [] = []" "gather f (a # as) = f a @ gather f as"
  "gather f (as @ bs) = gather f as @ gather f bs"
  by (simp_all add: gather_def)

text \<open>Records and actions in step: each action is specified from the actions before it.\<close>

fun stepwise :: "('a list \<Rightarrow> 'r \<Rightarrow> 'a \<Rightarrow> bool) \<Rightarrow> 'a list \<Rightarrow> 'r list \<Rightarrow> 'a list \<Rightarrow> bool" where
  "stepwise P pre [] as \<longleftrightarrow> as = []"
| "stepwise P pre (r # rs) as \<longleftrightarrow> (\<exists>a as'. as = a # as' \<and> P pre r a \<and> stepwise P (pre @ [a]) rs as')"

lemma stepwise_snoc: "stepwise P pre rs as \<Longrightarrow> P (pre @ as) r a \<Longrightarrow> stepwise P pre (rs @ [r]) (as @ [a])"
  by (induction P pre rs as rule: stepwise.induct) auto

lemma stepwise_length: "stepwise P pre rs as \<Longrightarrow> length as = length rs"
  by (induction P pre rs as rule: stepwise.induct) auto

lemma stepwise_nth: "stepwise P pre rs as \<Longrightarrow> i < length rs \<Longrightarrow> P (pre @ take i as) (rs ! i) (as ! i)"
proof (induction P pre rs as arbitrary: i rule: stepwise.induct)
  case (2 P pre r rs as)
  then obtain a as' where "as = a # as'" "P pre r a" "stepwise P (pre @ [a]) rs as'" by auto
  then show ?case using "2.IH" [of a as' "i - 1"] "2.prems"(2) by (cases i) auto
qed simp

lemma stepwise_mono: "stepwise P pre rs as \<Longrightarrow>
    (\<And>qre r a. r \<in> set rs \<Longrightarrow> P qre r a \<Longrightarrow> Q qre r a) \<Longrightarrow> stepwise Q pre rs as"
  by (induction P pre rs as rule: stepwise.induct) auto

lemma stepwise_all2: "stepwise P pre rs as \<Longrightarrow> (\<And>qre r a. P qre r a \<Longrightarrow> R r a) \<Longrightarrow> list_all2 R rs as"
  by (induction P pre rs as rule: stepwise.induct) auto

section \<open>The specified steps\<close>

definition revisions :: "entity_record list \<Rightarrow> (str \<times> uuid) list" where
  "revisions es = map (\<lambda>e. (elog e, er_revision e)) es"

definition disposed ::
    "deps \<Rightarrow> snapshot_header \<Rightarrow> entity_record list \<Rightarrow> merge_action list \<Rightarrow> entity_record \<Rightarrow>
     planned_disposition \<Rightarrow> entity_disposition \<Rightarrow> bool" where
  "disposed D th tes pre r p d \<longleftrightarrow>
     (case p of
        PlanCoalesce t receipt \<Rightarrow> d = Coalesce (er_address r) (rv_address t) receipt \<and>
          map_of (revisions tes) (oa_logical (rv_address t)) = Some (rv_revision t) \<and>
          rv_snapshot t = sh_snapshot_id th
      | PlanAdd reason receipt \<Rightarrow>
          (let q = qualified_derive D (oa_space (er_address r)) (elog r) in
           d = AddDistinct (er_address r) q reason receipt \<and> q \<notin> elog ` set tes \<and>
           qualified_collision_key D q \<notin> qualified_collision_key D ` set (gather added_entity pre)))"

definition entity_step ::
    "deps \<Rightarrow> snapshot_header \<Rightarrow> snapshot_header \<Rightarrow> planned_entity list \<Rightarrow> entity_record list \<Rightarrow>
     merge_action list \<Rightarrow> entity_record \<Rightarrow> merge_action \<Rightarrow> bool" where
  "entity_step D th sh planned tes pre r a \<longleftrightarrow>
     (\<exists>p\<in>set planned. \<exists>d. ple_logical_id p = elog r \<and> ple_revision p = er_revision r \<and>
        ple_snapshot p = sh_snapshot_id sh \<and> a = ApplyEntityDisposition r d \<and>
        disposed D th tes pre r (ple_disposition p) d)"

definition keep_observation :: "observation_record \<Rightarrow> merge_action" where
  "keep_observation r = KeepTargetObservation r (ResTarget (oa_logical (ob_entity r)))"

definition observation_step ::
    "deps \<Rightarrow> (str \<Rightarrow> result_object_id option) \<Rightarrow> observation_record list \<Rightarrow>
     merge_action list \<Rightarrow> observation_record \<Rightarrow> merge_action \<Rightarrow> bool" where
  "observation_step D results tos pre r a \<longleftrightarrow>
     (\<exists>e. results (oa_logical (ob_entity r)) = Some e \<and>
       (case map_of (gather (observation_entry D) pre) (observation_key D e (ob_lifecycle r) (ob_content r)) of
          Some t \<Rightarrow> a = MergeObservationOrigin r t e
        | None \<Rightarrow>
            (let q = qualified_derive D (oa_space (ob_address r)) (oa_logical (ob_address r)) in
             a = AddObservation r q e \<and> q \<notin> (\<lambda>r. oa_logical (ob_address r)) ` set tos \<and>
             qualified_collision_key D q \<notin> qualified_collision_key D ` set (gather added_observation pre))))"

definition keep_relation :: "relation_record \<Rightarrow> merge_action" where
  "keep_relation r = KeepTargetRelation r (ResTarget (oa_logical (re_subject r)))
     (ResTarget (oa_logical (re_object r)))"

definition relation_step ::
    "deps \<Rightarrow> merge_policy \<Rightarrow> (str \<Rightarrow> result_object_id option) \<Rightarrow> relation_record list \<Rightarrow>
     merge_action list \<Rightarrow> relation_record \<Rightarrow> merge_action \<Rightarrow> bool" where
  "relation_step D policy results trs pre r a \<longleftrightarrow>
     (\<exists>s b. results (oa_logical (re_subject r)) = Some s \<and> results (oa_logical (re_object r)) = Some b \<and>
       (s = b \<longrightarrow> allows_self_loop policy (re_predicate r)) \<and>
       (case map_of (gather (relation_entry D) pre) (relation_key D s (re_predicate r) b (re_lifecycle r)) of
          Some t \<Rightarrow> a = MergeRelationOrigin r t s b
        | None \<Rightarrow>
            (let q = qualified_derive D (oa_space (re_address r)) (oa_logical (re_address r)) in
             a = AddRelation r q s b \<and> q \<notin> (\<lambda>r. oa_logical (re_address r)) ` set trs \<and>
             qualified_collision_key D q \<notin> qualified_collision_key D ` set (gather added_relation pre))))"

section \<open>One visitor call\<close>

lemma verify_target_ok: "run_then (verify_target f) k l = (Inr x, l') \<longleftrightarrow>
    (\<exists>v. f (lc_target_verifier l) = Inr v \<and> k (l\<lparr>lc_target_verifier := v\<rparr>) = (Inr x, l'))"
  by (auto simp: run_then_def verify_target_def split: sum.splits)

lemma verify_source_ok: "run_then (verify_source f) k l = (Inr x, l') \<longleftrightarrow>
    (\<exists>v. f (lc_source_verifier l) = Inr v \<and> k (l\<lparr>lc_source_verifier := v\<rparr>) = (Inr x, l'))"
  by (auto simp: run_then_def verify_source_def split: sum.splits)

lemma fail_with_not_ok [simp]: "fail_with c m l \<noteq> (Inr x, l')"
  by (simp add: fail_with_def)

lemma target_entity_visitor_ok:
  assumes "target_entity_visitor D K r l = (Inr (), l')" "logged D K s0 as (lc_state l)"
  shows "\<exists>v. verifier_entity D r (lc_target_verifier l) = Inr v \<and>
    \<not> bm_contains (lc_target_entities l) (elog r) \<and>
    logged D K s0 (as @ [KeepTargetEntity r]) (lc_state l') \<and>
    ps_accounting (lc_state l') = ps_accounting (lc_state l) \<and>
    l' = l\<lparr>lc_target_verifier := v,
      lc_target_entities := bm_insert (elog r) (er_revision r) (lc_target_entities l),
      lc_result_entity_ids := bs_insert (elog r) (lc_result_entity_ids l), lc_state := lc_state l'\<rparr>"
proof -
  from assms(1) obtain v where v: "verifier_entity D r (lc_target_verifier l) = Inr v"
    and body: "target_entity_body D K r (l\<lparr>lc_target_verifier := v\<rparr>) = (Inr (), l')"
    unfolding target_entity_visitor_def verify_target_ok by blast
  let ?l = "l\<lparr>lc_target_verifier := v, lc_target_entities := bm_insert (elog r) (er_revision r) (lc_target_entities l),
      lc_result_entity_ids := bs_insert (elog r) (lc_result_entity_ids l)\<rparr>"
  from body have fresh: "\<not> bm_contains (lc_target_entities l) (elog r)"
    and e: "emit D K (KeepTargetEntity r) (count_in (\<lambda>c. c\<lparr>target_entities := target_entities c + 1\<rparr>) ?l) = (Inr (), l')"
    by (auto simp: target_entity_body_def Let_def elog_def split: if_splits)
  have "logged D K s0 as (lc_state ?l)" using assms(2) by simp
  from emit_counted_logged [OF e this] have "logged D K s0 (as @ [KeepTargetEntity r]) (lc_state l') \<and>
    ps_accounting (lc_state l') = ps_accounting (lc_state ?l) \<and> l' = ?l\<lparr>lc_state := lc_state l'\<rparr>"
    by (simp add: count_action_def)
  then show ?thesis using v fresh by simp
qed

lemma source_entity_visitor_ok:
  assumes "source_entity_visitor D K th sh planned r l = (Inr (), l')" "logged D K s0 as (lc_state l)"
  shows "\<exists>v i d res. verifier_entity D r (lc_source_verifier l) = Inr v \<and>
    i < length planned \<and> ple_logical_id (planned ! i) = elog r \<and>
    ple_revision (planned ! i) = er_revision r \<and> ple_snapshot (planned ! i) = sh_snapshot_id sh \<and>
    \<not> lc_seen_dispositions l ! i \<and>
    (case ple_disposition (planned ! i) of
       PlanCoalesce t receipt \<Rightarrow> d = Coalesce (er_address r) (rv_address t) receipt \<and>
         bm_get (lc_target_entities l) (oa_logical (rv_address t)) = Some (rv_revision t) \<and>
         rv_snapshot t = sh_snapshot_id th \<and> res = ResTarget (oa_logical (rv_address t)) \<and>
         lc_qualified_entity_ids l' = lc_qualified_entity_ids l
     | PlanAdd reason receipt \<Rightarrow>
         (let q = qualified_derive D (oa_space (er_address r)) (elog r) in
          d = AddDistinct (er_address r) q reason receipt \<and> q \<notin> set (lc_result_entity_ids l) \<and>
          qualified_collision_key D q \<notin> lc_qualified_entity_ids l \<and> res = ResQualified q \<and>
          lc_qualified_entity_ids l' = insert (qualified_collision_key D q) (lc_qualified_entity_ids l))) \<and>
    logged D K s0 (as @ [ApplyEntityDisposition r d]) (lc_state l') \<and>
    ps_accounting (lc_state l') = ps_accounting (lc_state l) \<and>
    l' = l\<lparr>lc_source_verifier := v, lc_seen_dispositions := (lc_seen_dispositions l)[i := True],
      lc_seen_disposition_count := lc_seen_disposition_count l + 1,
      lc_source_entity_results := bm_insert (elog r) res (lc_source_entity_results l),
      lc_qualified_entity_ids := lc_qualified_entity_ids l', lc_state := lc_state l'\<rparr>"
proof -
  from assms(1) obtain v where v: "verifier_entity D r (lc_source_verifier l) = Inr v"
    and body: "source_entity_body D K th sh planned r (l\<lparr>lc_source_verifier := v\<rparr>) = (Inr (), l')"
    unfolding source_entity_visitor_def verify_source_ok by blast
  from body obtain i where i: "binary_search_by (\<lambda>c. cmp (ple_logical_id c) (oa_logical (er_address r))) planned = Some i"
    by (cases "binary_search_by (\<lambda>c. cmp (ple_logical_id c) (oa_logical (er_address r))) planned")
      (simp_all add: source_entity_body_def)
  have found: "i < length planned" "ple_logical_id (planned ! i) = elog r"
    using binary_search_by_Some [OF i] by (simp_all add: elog_def)
  let ?l = "l\<lparr>lc_source_verifier := v, lc_seen_dispositions := (lc_seen_dispositions l)[i := True],
      lc_seen_disposition_count := lc_seen_disposition_count l + 1\<rparr>"
  from body have exact: "ple_revision (planned ! i) = er_revision r" "ple_snapshot (planned ! i) = sh_snapshot_id sh"
      "\<not> lc_seen_dispositions l ! i"
    by (auto simp: source_entity_body_def i Let_def split: if_splits)
  with body obtain d res l1 where pub: "public_disposition D th r (planned ! i) ?l = Inr (d, res, l1)"
    and e: "emit D K (ApplyEntityDisposition r d) (count_in (\<lambda>c. c\<lparr>source_entities := source_entities c + 1\<rparr>)
        (l1\<lparr>lc_source_entity_results := bm_insert (elog r) res (lc_source_entity_results l1)\<rparr>)) = (Inr (), l')"
    by (auto simp: source_entity_body_def i Let_def elog_def split: sum.splits prod.splits)
  show ?thesis
  proof (cases "ple_disposition (planned ! i)")
    case (PlanCoalesce t receipt)
    with pub have p: "d = Coalesce (er_address r) (rv_address t) receipt"
        "bm_get (lc_target_entities l) (oa_logical (rv_address t)) = Some (rv_revision t)"
        "rv_snapshot t = sh_snapshot_id th" "res = ResTarget (oa_logical (rv_address t))"
        "l1 = count_in (\<lambda>c. c\<lparr>coalesced_entities := coalesced_entities c + 1\<rparr>) ?l"
      by (auto simp: public_disposition_def split: option.splits if_splits)
    let ?l2 = "l1\<lparr>lc_source_entity_results := bm_insert (elog r) res (lc_source_entity_results l1)\<rparr>"
    have "logged D K s0 as ((lc_state (count_in (\<lambda>c. c\<lparr>source_entities := source_entities c + 1\<rparr>) ?l2))
        \<lparr>ps_counts := ps_counts (lc_state l)\<rparr>)"
      using assms(2) by (simp add: p(5) count_in_def)
    from emit_logged [OF e this]
    have "logged D K s0 (as @ [ApplyEntityDisposition r d]) (lc_state l') \<and>
        ps_accounting (lc_state l') = ps_accounting (lc_state l) \<and>
        l' = ?l\<lparr>lc_source_entity_results := bm_insert (elog r) res (lc_source_entity_results l), lc_state := lc_state l'\<rparr>"
      by (simp add: p count_in_def count_action_def Let_def)
    then obtain st where st: "logged D K s0 (as @ [ApplyEntityDisposition r d]) st"
        "ps_accounting st = ps_accounting (lc_state l)"
        "l' = ?l\<lparr>lc_source_entity_results := bm_insert (elog r) res (lc_source_entity_results l), lc_state := st\<rparr>"
      by blast
    show ?thesis
      by (rule exI [of _ v], rule exI [of _ i], rule exI [of _ d], rule exI [of _ res])
        (use v found exact p(1-4) st PlanCoalesce in simp)
  next
    case (PlanAdd reason receipt)
    let ?q = "qualified_derive D (oa_space (er_address r)) (elog r)"
    from pub PlanAdd have p: "d = AddDistinct (er_address r) ?q reason receipt"
        "?q \<notin> set (lc_result_entity_ids l)" "qualified_collision_key D ?q \<notin> lc_qualified_entity_ids l"
        "res = ResQualified ?q"
        "l1 = count_in (\<lambda>c. c\<lparr>added_entities := added_entities c + 1\<rparr>)
          (?l\<lparr>lc_qualified_entity_ids := insert (qualified_collision_key D ?q) (lc_qualified_entity_ids l)\<rparr>)"
      by (auto simp: public_disposition_def Let_def elog_def split: if_splits)
    let ?l2 = "l1\<lparr>lc_source_entity_results := bm_insert (elog r) res (lc_source_entity_results l1)\<rparr>"
    have "logged D K s0 as ((lc_state (count_in (\<lambda>c. c\<lparr>source_entities := source_entities c + 1\<rparr>) ?l2))
        \<lparr>ps_counts := ps_counts (lc_state l)\<rparr>)"
      using assms(2) by (simp add: p(5) count_in_def)
    from emit_logged [OF e this]
    have "logged D K s0 (as @ [ApplyEntityDisposition r d]) (lc_state l') \<and>
        ps_accounting (lc_state l') = ps_accounting (lc_state l) \<and>
        l' = ?l\<lparr>lc_qualified_entity_ids := insert (qualified_collision_key D ?q) (lc_qualified_entity_ids l),
          lc_source_entity_results := bm_insert (elog r) res (lc_source_entity_results l), lc_state := lc_state l'\<rparr>"
      by (simp add: p count_in_def count_action_def Let_def)
    then obtain st where st: "logged D K s0 (as @ [ApplyEntityDisposition r d]) st"
        "ps_accounting st = ps_accounting (lc_state l)"
        "l' = ?l\<lparr>lc_qualified_entity_ids := insert (qualified_collision_key D ?q) (lc_qualified_entity_ids l),
          lc_source_entity_results := bm_insert (elog r) res (lc_source_entity_results l), lc_state := st\<rparr>"
      by blast
    show ?thesis
      by (rule exI [of _ v], rule exI [of _ i], rule exI [of _ d], rule exI [of _ res])
        (use v found exact p(1-4) st PlanAdd in \<open>simp add: Let_def\<close>)
  qed
qed

lemma target_observation_visitor_ok:
  assumes "target_observation_visitor D K r l = (Inr (), l')" "logged D K s0 as (lc_state l)"
  shows "\<exists>v. verifier_observation D r (lc_target_verifier l) = Inr v \<and>
    bm_contains (lc_target_entities l) (oa_logical (ob_entity r)) \<and>
    oa_logical (ob_address r) \<notin> set (lc_result_observation_ids l) \<and>
    logged D K s0 (as @ [keep_observation r]) (lc_state l') \<and>
    ps_accounting (lc_state l') = ps_accounting (lc_state l) \<and>
    l' = l\<lparr>lc_target_verifier := v,
      lc_observation_index := bm_or_insert (observation_key D (ResTarget (oa_logical (ob_entity r)))
        (ob_lifecycle r) (ob_content r)) (ResTarget (oa_logical (ob_address r))) (lc_observation_index l),
      lc_result_observation_ids := bs_insert (oa_logical (ob_address r)) (lc_result_observation_ids l),
      lc_state := lc_state l'\<rparr>"
proof -
  from assms(1) obtain v where v: "verifier_observation D r (lc_target_verifier l) = Inr v"
    and body: "target_observation_body D K r (l\<lparr>lc_target_verifier := v\<rparr>) = (Inr (), l')"
    unfolding target_observation_visitor_def verify_target_ok by blast
  let ?l = "l\<lparr>lc_target_verifier := v,
      lc_observation_index := bm_or_insert (observation_key D (ResTarget (oa_logical (ob_entity r)))
        (ob_lifecycle r) (ob_content r)) (ResTarget (oa_logical (ob_address r))) (lc_observation_index l),
      lc_result_observation_ids := bs_insert (oa_logical (ob_address r)) (lc_result_observation_ids l)\<rparr>"
  from body have g: "bm_contains (lc_target_entities l) (oa_logical (ob_entity r))"
      "oa_logical (ob_address r) \<notin> set (lc_result_observation_ids l)"
    and e: "emit D K (keep_observation r) (count_in (\<lambda>c. c\<lparr>target_observations := target_observations c + 1\<rparr>) ?l) = (Inr (), l')"
    by (auto simp: target_observation_body_def keep_observation_def Let_def split: if_splits)
  have "logged D K s0 as (lc_state ?l)" using assms(2) by simp
  from emit_counted_logged [OF e this] have "logged D K s0 (as @ [keep_observation r]) (lc_state l') \<and>
    ps_accounting (lc_state l') = ps_accounting (lc_state ?l) \<and> l' = ?l\<lparr>lc_state := lc_state l'\<rparr>"
    by (simp add: count_action_def keep_observation_def)
  then show ?thesis using v g by simp
qed

lemma source_observation_visitor_ok:
  assumes "source_observation_visitor D K r l = (Inr (), l')" "logged D K s0 as (lc_state l)"
  shows "\<exists>v e a. verifier_observation D r (lc_source_verifier l) = Inr v \<and>
    bm_get (lc_source_entity_results l) (oa_logical (ob_entity r)) = Some e \<and>
    (let key = observation_key D e (ob_lifecycle r) (ob_content r) in
     case bm_get (lc_observation_index l) key of
       Some t \<Rightarrow> a = MergeObservationOrigin r t e \<and>
         lc_qualified_observation_ids l' = lc_qualified_observation_ids l \<and>
         lc_observation_index l' = lc_observation_index l
     | None \<Rightarrow>
         (let q = qualified_derive D (oa_space (ob_address r)) (oa_logical (ob_address r)) in
          a = AddObservation r q e \<and> q \<notin> set (lc_result_observation_ids l) \<and>
          qualified_collision_key D q \<notin> lc_qualified_observation_ids l \<and>
          lc_qualified_observation_ids l' = insert (qualified_collision_key D q) (lc_qualified_observation_ids l) \<and>
          lc_observation_index l' = bm_insert key (ResQualified q) (lc_observation_index l))) \<and>
    logged D K s0 (as @ [a]) (lc_state l') \<and>
    ps_accounting (lc_state l') = ps_accounting (lc_state l) \<and>
    l' = l\<lparr>lc_source_verifier := v, lc_qualified_observation_ids := lc_qualified_observation_ids l',
      lc_observation_index := lc_observation_index l', lc_state := lc_state l'\<rparr>"
proof -
  from assms(1) obtain v where v: "verifier_observation D r (lc_source_verifier l) = Inr v"
    and body: "source_observation_body D K r (l\<lparr>lc_source_verifier := v\<rparr>) = (Inr (), l')"
    unfolding source_observation_visitor_def verify_source_ok by blast
  from body obtain e where e: "bm_get (lc_source_entity_results l) (oa_logical (ob_entity r)) = Some e"
    by (cases "bm_get (lc_source_entity_results l) (oa_logical (ob_entity r))")
      (simp_all add: source_observation_body_def)
  define key where "key = observation_key D e (ob_lifecycle r) (ob_content r)"
  define q where "q = qualified_derive D (oa_space (ob_address r)) (oa_logical (ob_address r))"
  show ?thesis
  proof (cases "bm_get (lc_observation_index l) key")
    case (Some t)
    let ?l = "l\<lparr>lc_source_verifier := v\<rparr>"
    from body e Some have em: "emit D K (MergeObservationOrigin r t e)
        (count_in (\<lambda>c. c\<lparr>merged_observations := merged_observations c + 1,
           source_observations := source_observations c + 1\<rparr>) ?l) = (Inr (), l')"
      by (simp add: source_observation_body_def Let_def key_def)
    have "logged D K s0 as (lc_state ?l)" using assms(2) by simp
    from emit_counted_logged [OF em this]
    have "logged D K s0 (as @ [MergeObservationOrigin r t e]) (lc_state l') \<and>
        ps_accounting (lc_state l') = ps_accounting (lc_state ?l) \<and> l' = ?l\<lparr>lc_state := lc_state l'\<rparr>"
      by (simp add: count_action_def)
    then obtain st where "logged D K s0 (as @ [MergeObservationOrigin r t e]) st"
        "ps_accounting st = ps_accounting (lc_state l)" "l' = ?l\<lparr>lc_state := st\<rparr>" by auto
    then show ?thesis using v e Some
      by (intro exI [of _ v] exI [of _ e] exI [of _ "MergeObservationOrigin r t e"])
        (simp add: Let_def key_def)
  next
    case None
    let ?l = "l\<lparr>lc_source_verifier := v,
        lc_qualified_observation_ids := insert (qualified_collision_key D q) (lc_qualified_observation_ids l),
        lc_observation_index := bm_insert key (ResQualified q) (lc_observation_index l)\<rparr>"
    from body e None have g: "q \<notin> set (lc_result_observation_ids l)"
        "qualified_collision_key D q \<notin> lc_qualified_observation_ids l"
      and em: "emit D K (AddObservation r q e)
        (count_in (\<lambda>c. c\<lparr>added_observations := added_observations c + 1,
           source_observations := source_observations c + 1\<rparr>) ?l) = (Inr (), l')"
      by (auto simp: source_observation_body_def Let_def key_def q_def split: if_splits)
    have "logged D K s0 as (lc_state ?l)" using assms(2) by simp
    from emit_counted_logged [OF em this]
    have "logged D K s0 (as @ [AddObservation r q e]) (lc_state l') \<and>
        ps_accounting (lc_state l') = ps_accounting (lc_state ?l) \<and> l' = ?l\<lparr>lc_state := lc_state l'\<rparr>"
      by (simp add: count_action_def)
    then obtain st where "logged D K s0 (as @ [AddObservation r q e]) st"
        "ps_accounting st = ps_accounting (lc_state l)" "l' = ?l\<lparr>lc_state := st\<rparr>" by auto
    then show ?thesis using v e None g
      by (intro exI [of _ v] exI [of _ e] exI [of _ "AddObservation r q e"])
        (simp add: Let_def key_def q_def)
  qed
qed

lemma target_relation_visitor_ok:
  assumes "target_relation_visitor D K r l = (Inr (), l')" "logged D K s0 as (lc_state l)"
  shows "\<exists>v. verifier_relation D r (lc_target_verifier l) = Inr v \<and>
    bm_contains (lc_target_entities l) (oa_logical (re_subject r)) \<and>
    bm_contains (lc_target_entities l) (oa_logical (re_object r)) \<and>
    \<not> bm_contains (lc_relation_index l) (fst (hd (relation_entry D (keep_relation r)))) \<and>
    oa_logical (re_address r) \<notin> set (lc_result_relation_ids l) \<and>
    logged D K s0 (as @ [keep_relation r]) (lc_state l') \<and>
    ps_accounting (lc_state l') = ps_accounting (lc_state l) \<and>
    l' = l\<lparr>lc_target_verifier := v,
      lc_relation_index := bm_insert (fst (hd (relation_entry D (keep_relation r))))
        (ResTarget (oa_logical (re_address r))) (lc_relation_index l),
      lc_result_relation_ids := bs_insert (oa_logical (re_address r)) (lc_result_relation_ids l),
      lc_state := lc_state l'\<rparr>"
proof -
  from assms(1) obtain v where v: "verifier_relation D r (lc_target_verifier l) = Inr v"
    and body: "target_relation_body D K r (l\<lparr>lc_target_verifier := v\<rparr>) = (Inr (), l')"
    unfolding target_relation_visitor_def verify_target_ok by blast
  define key where "key = fst (hd (relation_entry D (keep_relation r)))"
  let ?l = "l\<lparr>lc_target_verifier := v,
      lc_relation_index := bm_insert key (ResTarget (oa_logical (re_address r))) (lc_relation_index l),
      lc_result_relation_ids := bs_insert (oa_logical (re_address r)) (lc_result_relation_ids l)\<rparr>"
  from body have g: "bm_contains (lc_target_entities l) (oa_logical (re_subject r))"
      "bm_contains (lc_target_entities l) (oa_logical (re_object r))"
      "\<not> bm_contains (lc_relation_index l) key"
      "oa_logical (re_address r) \<notin> set (lc_result_relation_ids l)"
    and e: "emit D K (keep_relation r) (count_in (\<lambda>c. c\<lparr>target_relations := target_relations c + 1\<rparr>) ?l) = (Inr (), l')"
    by (auto simp: target_relation_body_def keep_relation_def key_def Let_def split: if_splits)
  have "logged D K s0 as (lc_state ?l)" using assms(2) by simp
  from emit_counted_logged [OF e this] have "logged D K s0 (as @ [keep_relation r]) (lc_state l') \<and>
    ps_accounting (lc_state l') = ps_accounting (lc_state ?l) \<and> l' = ?l\<lparr>lc_state := lc_state l'\<rparr>"
    by (simp add: count_action_def keep_relation_def)
  then show ?thesis using v g by (simp add: key_def)
qed

lemma source_relation_visitor_ok:
  assumes "source_relation_visitor D K policy r l = (Inr (), l')" "logged D K s0 as (lc_state l)"
  shows "\<exists>v s b a. verifier_relation D r (lc_source_verifier l) = Inr v \<and>
    bm_get (lc_source_entity_results l) (oa_logical (re_subject r)) = Some s \<and>
    bm_get (lc_source_entity_results l) (oa_logical (re_object r)) = Some b \<and>
    (s = b \<longrightarrow> allows_self_loop policy (re_predicate r)) \<and>
    (let key = relation_key D s (re_predicate r) b (re_lifecycle r) in
     case bm_get (lc_relation_index l) key of
       Some t \<Rightarrow> a = MergeRelationOrigin r t s b \<and>
         lc_qualified_relation_ids l' = lc_qualified_relation_ids l \<and>
         lc_relation_index l' = lc_relation_index l
     | None \<Rightarrow>
         (let q = qualified_derive D (oa_space (re_address r)) (oa_logical (re_address r)) in
          a = AddRelation r q s b \<and> q \<notin> set (lc_result_relation_ids l) \<and>
          qualified_collision_key D q \<notin> lc_qualified_relation_ids l \<and>
          lc_qualified_relation_ids l' = insert (qualified_collision_key D q) (lc_qualified_relation_ids l) \<and>
          lc_relation_index l' = bm_insert key (ResQualified q) (lc_relation_index l))) \<and>
    logged D K s0 (as @ [a]) (lc_state l') \<and>
    ps_accounting (lc_state l') = ps_accounting (lc_state l) \<and>
    l' = l\<lparr>lc_source_verifier := v, lc_qualified_relation_ids := lc_qualified_relation_ids l',
      lc_relation_index := lc_relation_index l', lc_state := lc_state l'\<rparr>"
proof -
  from assms(1) obtain v where v: "verifier_relation D r (lc_source_verifier l) = Inr v"
    and body: "source_relation_body D K policy r (l\<lparr>lc_source_verifier := v\<rparr>) = (Inr (), l')"
    unfolding source_relation_visitor_def verify_source_ok by blast
  from body obtain s where s: "bm_get (lc_source_entity_results l) (oa_logical (re_subject r)) = Some s"
    by (cases "bm_get (lc_source_entity_results l) (oa_logical (re_subject r))")
      (simp_all add: source_relation_body_def)
  from body s obtain b where b: "bm_get (lc_source_entity_results l) (oa_logical (re_object r)) = Some b"
    by (cases "bm_get (lc_source_entity_results l) (oa_logical (re_object r))")
      (simp_all add: source_relation_body_def)
  have loop: "s = b \<longrightarrow> allows_self_loop policy (re_predicate r)"
  proof (rule ccontr)
    assume "\<not> (s = b \<longrightarrow> allows_self_loop policy (re_predicate r))"
    with body s b show False by (simp add: source_relation_body_def)
  qed
  define key where "key = relation_key D s (re_predicate r) b (re_lifecycle r)"
  define q where "q = qualified_derive D (oa_space (re_address r)) (oa_logical (re_address r))"
  show ?thesis
  proof (cases "bm_get (lc_relation_index l) key")
    case (Some t)
    let ?l = "l\<lparr>lc_source_verifier := v\<rparr>"
    from body s b loop Some have em: "emit D K (MergeRelationOrigin r t s b)
        (count_in (\<lambda>c. c\<lparr>merged_relations := merged_relations c + 1,
           source_relations := source_relations c + 1\<rparr>) ?l) = (Inr (), l')"
      by (auto simp: source_relation_body_def Let_def key_def split: if_splits)
    have "logged D K s0 as (lc_state ?l)" using assms(2) by simp
    from emit_counted_logged [OF em this]
    have "logged D K s0 (as @ [MergeRelationOrigin r t s b]) (lc_state l') \<and>
        ps_accounting (lc_state l') = ps_accounting (lc_state ?l) \<and> l' = ?l\<lparr>lc_state := lc_state l'\<rparr>"
      by (simp add: count_action_def)
    then obtain st where "logged D K s0 (as @ [MergeRelationOrigin r t s b]) st"
        "ps_accounting st = ps_accounting (lc_state l)" "l' = ?l\<lparr>lc_state := st\<rparr>" by auto
    then show ?thesis using v s b loop Some
      by (intro exI [of _ v] exI [of _ s] exI [of _ b] exI [of _ "MergeRelationOrigin r t s b"])
        (simp add: Let_def key_def)
  next
    case None
    let ?l = "l\<lparr>lc_source_verifier := v,
        lc_qualified_relation_ids := insert (qualified_collision_key D q) (lc_qualified_relation_ids l),
        lc_relation_index := bm_insert key (ResQualified q) (lc_relation_index l)\<rparr>"
    from body s b loop None have g: "q \<notin> set (lc_result_relation_ids l)"
        "qualified_collision_key D q \<notin> lc_qualified_relation_ids l"
      and em: "emit D K (AddRelation r q s b)
        (count_in (\<lambda>c. c\<lparr>added_relations := added_relations c + 1,
           source_relations := source_relations c + 1\<rparr>) ?l) = (Inr (), l')"
      by (auto simp: source_relation_body_def Let_def key_def q_def split: if_splits)
    have "logged D K s0 as (lc_state ?l)" using assms(2) by simp
    from emit_counted_logged [OF em this]
    have "logged D K s0 (as @ [AddRelation r q s b]) (lc_state l') \<and>
        ps_accounting (lc_state l') = ps_accounting (lc_state ?l) \<and> l' = ?l\<lparr>lc_state := lc_state l'\<rparr>"
      by (simp add: count_action_def)
    then obtain st where "logged D K s0 (as @ [AddRelation r q s b]) st"
        "ps_accounting st = ps_accounting (lc_state l)" "l' = ?l\<lparr>lc_state := st\<rparr>" by auto
    then show ?thesis using v s b loop None g
      by (intro exI [of _ v] exI [of _ s] exI [of _ b] exI [of _ "AddRelation r q s b"])
        (simp add: Let_def key_def q_def)
  qed
qed

section \<open>The six phases\<close>

lemma revisions_None: "map_of (revisions es) k = None \<longleftrightarrow> k \<notin> elog ` set es"
  by (simp add: revisions_def map_of_eq_None_iff image_image)

lemma map_of_snoc_new: "map_of xs k = None \<Longrightarrow> map_of (xs @ [(k, v)]) = (map_of xs)(k \<mapsto> v)"
  by (auto simp: map_add_def fun_eq_iff split: option.split)

lemma map_of_snoc_old: "map_of xs k = Some w \<Longrightarrow> map_of (xs @ [(k, v)]) = map_of xs"
  by (auto simp: map_add_def fun_eq_iff split: option.split)

lemma phase_target_entities:
  assumes "visit (target_entity_visitor D K) (map Inr tes) l = (Inr (), l')"
    and "logged D K s0 [] (lc_state l)" "lc_target_entities l = []" "lc_result_entity_ids l = []"
  shows "run_list (verifier_entity D) tes (lc_target_verifier l) = Inr (lc_target_verifier l') \<and>
    logged D K s0 (map KeepTargetEntity tes) (lc_state l') \<and>
    ps_accounting (lc_state l') = ps_accounting (lc_state l) \<and>
    bm_get (lc_target_entities l') = map_of (revisions tes) \<and>
    set (lc_result_entity_ids l') = elog ` set tes \<and>
    l' = l\<lparr>lc_target_verifier := lc_target_verifier l', lc_target_entities := lc_target_entities l',
      lc_result_entity_ids := lc_result_entity_ids l', lc_state := lc_state l'\<rparr>"
  using assms(1)
proof (rule visit_prefix [where I = "\<lambda>ys l1. run_list (verifier_entity D) ys (lc_target_verifier l) = Inr (lc_target_verifier l1) \<and>
    logged D K s0 (map KeepTargetEntity ys) (lc_state l1) \<and>
    ps_accounting (lc_state l1) = ps_accounting (lc_state l) \<and>
    bm_get (lc_target_entities l1) = map_of (revisions ys) \<and>
    set (lc_result_entity_ids l1) = elog ` set ys \<and>
    l1 = l\<lparr>lc_target_verifier := lc_target_verifier l1, lc_target_entities := lc_target_entities l1,
      lc_result_entity_ids := lc_result_entity_ids l1, lc_state := lc_state l1\<rparr>"], goal_cases)
  case 1
  then show ?case using assms(2-4) by (simp add: revisions_def bm_get_def fun_eq_iff)
next
  case (2 ys x l1 l2)
  then have log: "logged D K s0 (map KeepTargetEntity ys) (lc_state l1)" by blast
  from target_entity_visitor_ok [OF 2(3) log] obtain v st where
    v: "verifier_entity D x (lc_target_verifier l1) = Inr v" "\<not> bm_contains (lc_target_entities l1) (elog x)"
      "logged D K s0 (map KeepTargetEntity ys @ [KeepTargetEntity x]) st"
      "ps_accounting st = ps_accounting (lc_state l1)"
    and l2: "l2 = l1\<lparr>lc_target_verifier := v,
      lc_target_entities := bm_insert (elog x) (er_revision x) (lc_target_entities l1),
      lc_result_entity_ids := bs_insert (elog x) (lc_result_entity_ids l1), lc_state := st\<rparr>"
    by blast
  have new: "map_of (revisions ys) (elog x) = None" using v(2) 2(1) by (simp add: bm_contains_def)
  have "l1 = l\<lparr>lc_target_verifier := lc_target_verifier l1, lc_target_entities := lc_target_entities l1,
      lc_result_entity_ids := lc_result_entity_ids l1, lc_state := lc_state l1\<rparr>" using 2(1) by blast
  then have "l2 = l\<lparr>lc_target_verifier := lc_target_verifier l2, lc_target_entities := lc_target_entities l2,
      lc_result_entity_ids := lc_result_entity_ids l2, lc_state := lc_state l2\<rparr>"
    unfolding l2 by (cases l; cases l1) simp
  then show ?case
    using 2(1) v new map_of_snoc_new [of "revisions ys" "elog x" "er_revision x"]
    by (simp add: run_list_snoc l2 revisions_def)
qed

lemma phase_source_entities:
  assumes "visit (source_entity_visitor D K th sh planned) (map Inr ses) l = (Inr (), l')"
    and "logged D K s0 as0 (lc_state l)" "lc_source_entity_results l = []"
    and "lc_qualified_entity_ids l = {}" "lc_seen_disposition_count l = 0"
    and target: "bm_get (lc_target_entities l) = map_of (revisions tes)"
      "set (lc_result_entity_ids l) = elog ` set tes"
  shows "\<exists>as2. run_list (verifier_entity D) ses (lc_source_verifier l) = Inr (lc_source_verifier l') \<and>
    logged D K s0 (as0 @ as2) (lc_state l') \<and>
    ps_accounting (lc_state l') = ps_accounting (lc_state l) \<and>
    stepwise (entity_step D th sh planned tes) [] ses as2 \<and>
    bm_get (lc_source_entity_results l') = map_of (rev (gather entity_result as2)) \<and>
    lc_seen_disposition_count l' = length ses \<and>
    l' = l\<lparr>lc_source_verifier := lc_source_verifier l', lc_seen_dispositions := lc_seen_dispositions l',
      lc_seen_disposition_count := lc_seen_disposition_count l',
      lc_source_entity_results := lc_source_entity_results l',
      lc_qualified_entity_ids := lc_qualified_entity_ids l', lc_state := lc_state l'\<rparr>"
proof -
  define I where "I = (\<lambda>ys l1. \<exists>as2. run_list (verifier_entity D) ys (lc_source_verifier l) = Inr (lc_source_verifier l1) \<and>
    logged D K s0 (as0 @ as2) (lc_state l1) \<and>
    ps_accounting (lc_state l1) = ps_accounting (lc_state l) \<and>
    stepwise (entity_step D th sh planned tes) [] ys as2 \<and>
    bm_get (lc_source_entity_results l1) = map_of (rev (gather entity_result as2)) \<and>
    lc_seen_disposition_count l1 = length ys \<and>
    lc_qualified_entity_ids l1 = qualified_collision_key D ` set (gather added_entity as2) \<and>
    l1 = l\<lparr>lc_source_verifier := lc_source_verifier l1, lc_seen_dispositions := lc_seen_dispositions l1,
      lc_seen_disposition_count := lc_seen_disposition_count l1,
      lc_source_entity_results := lc_source_entity_results l1,
      lc_qualified_entity_ids := lc_qualified_entity_ids l1, lc_state := lc_state l1\<rparr>)"
  have "I ses l'"
    using assms(1)
  proof (rule visit_prefix [where I = I])
    show "I [] l" using assms(2-5) by (simp add: I_def bm_get_def fun_eq_iff)
  next
    fix ys x l1 l2
    assume I: "I ys l1" and step: "source_entity_visitor D K th sh planned x l1 = (Inr (), l2)"
    from I obtain as2 where a: "run_list (verifier_entity D) ys (lc_source_verifier l) = Inr (lc_source_verifier l1)"
      "logged D K s0 (as0 @ as2) (lc_state l1)" "ps_accounting (lc_state l1) = ps_accounting (lc_state l)"
      "stepwise (entity_step D th sh planned tes) [] ys as2"
      "bm_get (lc_source_entity_results l1) = map_of (rev (gather entity_result as2))"
      "lc_seen_disposition_count l1 = length ys"
      "lc_qualified_entity_ids l1 = qualified_collision_key D ` set (gather added_entity as2)"
      and l1: "l1 = l\<lparr>lc_source_verifier := lc_source_verifier l1, lc_seen_dispositions := lc_seen_dispositions l1,
        lc_seen_disposition_count := lc_seen_disposition_count l1,
        lc_source_entity_results := lc_source_entity_results l1,
        lc_qualified_entity_ids := lc_qualified_entity_ids l1, lc_state := lc_state l1\<rparr>"
      unfolding I_def by blast
    have "lc_target_entities l1 = lc_target_entities l" "lc_result_entity_ids l1 = lc_result_entity_ids l"
      by (subst l1, simp)+
    then have tgt: "bm_get (lc_target_entities l1) = map_of (revisions tes)" "set (lc_result_entity_ids l1) = elog ` set tes"
      using target by simp_all
    from source_entity_visitor_ok [OF step a(2)] obtain v i d res where
      v: "verifier_entity D x (lc_source_verifier l1) = Inr v" "i < length planned"
        "ple_logical_id (planned ! i) = elog x" "ple_revision (planned ! i) = er_revision x"
        "ple_snapshot (planned ! i) = sh_snapshot_id sh"
      and disp: "(case ple_disposition (planned ! i) of
         PlanCoalesce t receipt \<Rightarrow> d = Coalesce (er_address x) (rv_address t) receipt \<and>
           bm_get (lc_target_entities l1) (oa_logical (rv_address t)) = Some (rv_revision t) \<and>
           rv_snapshot t = sh_snapshot_id th \<and> res = ResTarget (oa_logical (rv_address t)) \<and>
           lc_qualified_entity_ids l2 = lc_qualified_entity_ids l1
       | PlanAdd reason receipt \<Rightarrow>
           (let q = qualified_derive D (oa_space (er_address x)) (elog x) in
            d = AddDistinct (er_address x) q reason receipt \<and> q \<notin> set (lc_result_entity_ids l1) \<and>
            qualified_collision_key D q \<notin> lc_qualified_entity_ids l1 \<and> res = ResQualified q \<and>
            lc_qualified_entity_ids l2 = insert (qualified_collision_key D q) (lc_qualified_entity_ids l1)))"
      and log: "logged D K s0 ((as0 @ as2) @ [ApplyEntityDisposition x d]) (lc_state l2)"
        "ps_accounting (lc_state l2) = ps_accounting (lc_state l1)"
      and l2: "l2 = l1\<lparr>lc_source_verifier := v, lc_seen_dispositions := (lc_seen_dispositions l1)[i := True],
        lc_seen_disposition_count := lc_seen_disposition_count l1 + 1,
        lc_source_entity_results := bm_insert (elog x) res (lc_source_entity_results l1),
        lc_qualified_entity_ids := lc_qualified_entity_ids l2, lc_state := lc_state l2\<rparr>"
      by blast
    let ?a = "ApplyEntityDisposition x d"
    have "disposed D th tes as2 x (ple_disposition (planned ! i)) d"
      using disp unfolding disposed_def tgt a(7)
      by (cases "ple_disposition (planned ! i)") (simp_all add: Let_def)
    then have "entity_step D th sh planned tes as2 x ?a"
      unfolding entity_step_def using v(2-5) nth_mem [OF v(2)] by blast
    then have steps: "stepwise (entity_step D th sh planned tes) [] (ys @ [x]) (as2 @ [?a])"
      using a(4) by (intro stepwise_snoc) simp_all
    have entry: "entity_result ?a = [(elog x, res)]" and
      added: "lc_qualified_entity_ids l2 = qualified_collision_key D ` set (gather added_entity (as2 @ [?a]))"
      using disp a(7) by (cases "ple_disposition (planned ! i)"; simp add: Let_def)+
    have results: "bm_get (lc_source_entity_results l2) = map_of (rev (gather entity_result (as2 @ [?a])))"
      using a(5) entry by (subst l2) (simp del: bm_get_insert add: bm_get_insert)
    have frame: "l2 = l\<lparr>lc_source_verifier := lc_source_verifier l2, lc_seen_dispositions := lc_seen_dispositions l2,
        lc_seen_disposition_count := lc_seen_disposition_count l2,
        lc_source_entity_results := lc_source_entity_results l2,
        lc_qualified_entity_ids := lc_qualified_entity_ids l2, lc_state := lc_state l2\<rparr>"
      using l1 l2 by (cases l; cases l1; cases l2) simp
    have sel: "lc_source_verifier l2 = v" "lc_seen_disposition_count l2 = length (ys @ [x])"
      by (subst l2, simp add: a(6))+
    show "I (ys @ [x]) l2"
      unfolding I_def
      by (rule exI [of _ "as2 @ [?a]"])
        (use a(1,3) v(1) log steps added results frame sel in \<open>simp add: run_list_snoc del: gather_simps\<close>)
  qed
  then show ?thesis unfolding I_def by blast
qed

lemma phase_target_observations:
  assumes "visit (target_observation_visitor D K) (map Inr tos) l = (Inr (), l')"
    and "logged D K s0 as0 (lc_state l)" "lc_observation_index l = []" "lc_result_observation_ids l = []"
    and target: "bm_get (lc_target_entities l) = map_of (revisions tes)"
  shows "run_list (verifier_observation D) tos (lc_target_verifier l) = Inr (lc_target_verifier l') \<and>
    logged D K s0 (as0 @ map keep_observation tos) (lc_state l') \<and>
    ps_accounting (lc_state l') = ps_accounting (lc_state l) \<and>
    (\<forall>r\<in>set tos. oa_logical (ob_entity r) \<in> elog ` set tes) \<and>
    bm_get (lc_observation_index l') = map_of (gather (observation_entry D) (map keep_observation tos)) \<and>
    set (lc_result_observation_ids l') = (\<lambda>r. oa_logical (ob_address r)) ` set tos \<and>
    l' = l\<lparr>lc_target_verifier := lc_target_verifier l', lc_observation_index := lc_observation_index l',
      lc_result_observation_ids := lc_result_observation_ids l', lc_state := lc_state l'\<rparr>"
proof -
  define I where "I = (\<lambda>ys l1. run_list (verifier_observation D) ys (lc_target_verifier l) = Inr (lc_target_verifier l1) \<and>
    logged D K s0 (as0 @ map keep_observation ys) (lc_state l1) \<and>
    ps_accounting (lc_state l1) = ps_accounting (lc_state l) \<and>
    (\<forall>r\<in>set ys. oa_logical (ob_entity r) \<in> elog ` set tes) \<and>
    bm_get (lc_observation_index l1) = map_of (gather (observation_entry D) (map keep_observation ys)) \<and>
    set (lc_result_observation_ids l1) = (\<lambda>r. oa_logical (ob_address r)) ` set ys \<and>
    l1 = l\<lparr>lc_target_verifier := lc_target_verifier l1, lc_observation_index := lc_observation_index l1,
      lc_result_observation_ids := lc_result_observation_ids l1, lc_state := lc_state l1\<rparr>)"
  have "I tos l'"
    using assms(1)
  proof (rule visit_prefix [where I = I])
    show "I [] l" using assms(2-4) by (simp add: I_def bm_get_def fun_eq_iff)
  next
    fix ys x l1 l2
    assume I: "I ys l1" and step: "target_observation_visitor D K x l1 = (Inr (), l2)"
    from I have a: "run_list (verifier_observation D) ys (lc_target_verifier l) = Inr (lc_target_verifier l1)"
      "logged D K s0 (as0 @ map keep_observation ys) (lc_state l1)"
      "ps_accounting (lc_state l1) = ps_accounting (lc_state l)"
      "\<forall>r\<in>set ys. oa_logical (ob_entity r) \<in> elog ` set tes"
      "bm_get (lc_observation_index l1) = map_of (gather (observation_entry D) (map keep_observation ys))"
      "set (lc_result_observation_ids l1) = (\<lambda>r. oa_logical (ob_address r)) ` set ys"
      and l1: "l1 = l\<lparr>lc_target_verifier := lc_target_verifier l1, lc_observation_index := lc_observation_index l1,
        lc_result_observation_ids := lc_result_observation_ids l1, lc_state := lc_state l1\<rparr>"
      unfolding I_def by blast+
    have tgt: "bm_get (lc_target_entities l1) = map_of (revisions tes)"
      by (subst l1) (simp add: target)
    define key where "key = observation_key D (ResTarget (oa_logical (ob_entity x))) (ob_lifecycle x) (ob_content x)"
    from target_observation_visitor_ok [OF step a(2), folded key_def] obtain v st where
      v: "verifier_observation D x (lc_target_verifier l1) = Inr v"
        "bm_contains (lc_target_entities l1) (oa_logical (ob_entity x))"
        "logged D K s0 ((as0 @ map keep_observation ys) @ [keep_observation x]) st"
        "ps_accounting st = ps_accounting (lc_state l1)"
      and l2: "l2 = l1\<lparr>lc_target_verifier := v,
        lc_observation_index := bm_or_insert key (ResTarget (oa_logical (ob_address x))) (lc_observation_index l1),
        lc_result_observation_ids := bs_insert (oa_logical (ob_address x)) (lc_result_observation_ids l1),
        lc_state := st\<rparr>"
      by blast
    have present: "oa_logical (ob_entity x) \<in> elog ` set tes"
      using v(2) unfolding bm_contains_def tgt
      by (simp_all add: revisions_None del: not_None_eq)
    have entry: "observation_entry D (keep_observation x) = [(key, ResTarget (oa_logical (ob_address x)))]"
      by (simp add: keep_observation_def key_def)
    have index: "bm_get (lc_observation_index l2) =
        map_of (gather (observation_entry D) (map keep_observation (ys @ [x])))"
      using a(5) map_of_snoc_new [of "gather (observation_entry D) (map keep_observation ys)" key "ResTarget (oa_logical (ob_address x))"]
        map_of_snoc_old [of "gather (observation_entry D) (map keep_observation ys)" key _ "ResTarget (oa_logical (ob_address x))"]
      by (auto simp: l2 entry bm_contains_def simp del: map_of_append)
    have frame: "l2 = l\<lparr>lc_target_verifier := lc_target_verifier l2, lc_observation_index := lc_observation_index l2,
        lc_result_observation_ids := lc_result_observation_ids l2, lc_state := lc_state l2\<rparr>"
      using l1 l2 by (cases l; cases l1; cases l2) simp
    show "I (ys @ [x]) l2"
      unfolding I_def using a(1,3,4,6) v present index frame
      by (simp add: run_list_snoc l2 del: gather_simps)
  qed
  then show ?thesis unfolding I_def by blast
qed

lemma phase_source_observations:
  assumes "visit (source_observation_visitor D K) (map Inr sos) l = (Inr (), l')"
    and "logged D K s0 as0 (lc_state l)" "lc_qualified_observation_ids l = {}"
    and "bm_get (lc_observation_index l) = map_of (gather (observation_entry D) (map keep_observation tos))"
    and "set (lc_result_observation_ids l) = (\<lambda>r. oa_logical (ob_address r)) ` set tos"
  shows "\<exists>as4. run_list (verifier_observation D) sos (lc_source_verifier l) = Inr (lc_source_verifier l') \<and>
    logged D K s0 (as0 @ as4) (lc_state l') \<and>
    ps_accounting (lc_state l') = ps_accounting (lc_state l) \<and>
    stepwise (observation_step D (bm_get (lc_source_entity_results l)) tos) (map keep_observation tos) sos as4 \<and>
    l' = l\<lparr>lc_source_verifier := lc_source_verifier l', lc_observation_index := lc_observation_index l',
      lc_qualified_observation_ids := lc_qualified_observation_ids l', lc_state := lc_state l'\<rparr>"
proof -
  let ?pre = "map keep_observation tos"
  define I where "I = (\<lambda>ys l1. \<exists>as4. run_list (verifier_observation D) ys (lc_source_verifier l) = Inr (lc_source_verifier l1) \<and>
    logged D K s0 (as0 @ as4) (lc_state l1) \<and>
    ps_accounting (lc_state l1) = ps_accounting (lc_state l) \<and>
    stepwise (observation_step D (bm_get (lc_source_entity_results l)) tos) ?pre ys as4 \<and>
    bm_get (lc_observation_index l1) = map_of (gather (observation_entry D) (?pre @ as4)) \<and>
    lc_qualified_observation_ids l1 = qualified_collision_key D ` set (gather added_observation (?pre @ as4)) \<and>
    l1 = l\<lparr>lc_source_verifier := lc_source_verifier l1, lc_observation_index := lc_observation_index l1,
      lc_qualified_observation_ids := lc_qualified_observation_ids l1, lc_state := lc_state l1\<rparr>)"
  have none: "gather added_observation ?pre = []"
    by (induction tos) (simp_all add: keep_observation_def)
  have "I sos l'"
    using assms(1)
  proof (rule visit_prefix [where I = I])
    show "I [] l" using assms(2-4) none by (simp add: I_def)
  next
    fix ys x l1 l2
    assume I: "I ys l1" and step: "source_observation_visitor D K x l1 = (Inr (), l2)"
    from I obtain as4 where a: "run_list (verifier_observation D) ys (lc_source_verifier l) = Inr (lc_source_verifier l1)"
      "logged D K s0 (as0 @ as4) (lc_state l1)" "ps_accounting (lc_state l1) = ps_accounting (lc_state l)"
      "stepwise (observation_step D (bm_get (lc_source_entity_results l)) tos) ?pre ys as4"
      "bm_get (lc_observation_index l1) = map_of (gather (observation_entry D) (?pre @ as4))"
      "lc_qualified_observation_ids l1 = qualified_collision_key D ` set (gather added_observation (?pre @ as4))"
      and l1: "l1 = l\<lparr>lc_source_verifier := lc_source_verifier l1, lc_observation_index := lc_observation_index l1,
        lc_qualified_observation_ids := lc_qualified_observation_ids l1, lc_state := lc_state l1\<rparr>"
      unfolding I_def by blast
    have same: "lc_source_entity_results l1 = lc_source_entity_results l"
      "lc_result_observation_ids l1 = lc_result_observation_ids l"
      by (subst l1, simp)+
    from source_observation_visitor_ok [OF step a(2)] obtain v e b where
      v: "verifier_observation D x (lc_source_verifier l1) = Inr v"
        "bm_get (lc_source_entity_results l) (oa_logical (ob_entity x)) = Some e"
      and act: "(let key = observation_key D e (ob_lifecycle x) (ob_content x) in
         case bm_get (lc_observation_index l1) key of
           Some t \<Rightarrow> b = MergeObservationOrigin x t e \<and>
             lc_qualified_observation_ids l2 = lc_qualified_observation_ids l1 \<and>
             lc_observation_index l2 = lc_observation_index l1
         | None \<Rightarrow>
             (let q = qualified_derive D (oa_space (ob_address x)) (oa_logical (ob_address x)) in
              b = AddObservation x q e \<and> q \<notin> set (lc_result_observation_ids l1) \<and>
              qualified_collision_key D q \<notin> lc_qualified_observation_ids l1 \<and>
              lc_qualified_observation_ids l2 = insert (qualified_collision_key D q) (lc_qualified_observation_ids l1) \<and>
              lc_observation_index l2 = bm_insert key (ResQualified q) (lc_observation_index l1)))"
      and log: "logged D K s0 ((as0 @ as4) @ [b]) (lc_state l2)"
        "ps_accounting (lc_state l2) = ps_accounting (lc_state l1)"
      and l2: "l2 = l1\<lparr>lc_source_verifier := v, lc_qualified_observation_ids := lc_qualified_observation_ids l2,
        lc_observation_index := lc_observation_index l2, lc_state := lc_state l2\<rparr>"
      unfolding same(1) by blast
    define key where "key = observation_key D e (ob_lifecycle x) (ob_content x)"
    define q where "q = qualified_derive D (oa_space (ob_address x)) (oa_logical (ob_address x))"
    have "observation_step D (bm_get (lc_source_entity_results l)) tos (?pre @ as4) x b \<and>
        bm_get (lc_observation_index l2) = map_of (gather (observation_entry D) (?pre @ as4 @ [b])) \<and>
        lc_qualified_observation_ids l2 = qualified_collision_key D ` set (gather added_observation (?pre @ as4 @ [b]))"
    proof (cases "map_of (gather (observation_entry D) (?pre @ as4)) key")
      case (Some t)
      then have "b = MergeObservationOrigin x t e" "lc_qualified_observation_ids l2 = lc_qualified_observation_ids l1"
          "lc_observation_index l2 = lc_observation_index l1"
        using act Some unfolding a(5) by (simp_all add: Let_def key_def del: gather_simps)
      then show ?thesis using v(2) Some a(5,6) by (simp add: observation_step_def key_def)
    next
      case None
      then have b: "b = AddObservation x q e" "q \<notin> set (lc_result_observation_ids l1)"
          "qualified_collision_key D q \<notin> lc_qualified_observation_ids l1"
          "lc_qualified_observation_ids l2 = insert (qualified_collision_key D q) (lc_qualified_observation_ids l1)"
          "lc_observation_index l2 = bm_insert key (ResQualified q) (lc_observation_index l1)"
        using act None unfolding a(5) by (simp_all add: Let_def key_def q_def del: gather_simps)
      have "observation_entry D b = [(key, ResQualified q)]" by (simp add: b(1) key_def)
      then have "bm_get (lc_observation_index l2) = map_of (gather (observation_entry D) (?pre @ as4 @ [b]))"
        using map_of_snoc_new [OF None, of "ResQualified q"] a(5) b(5) by (simp del: map_of_append)
      moreover have "observation_step D (bm_get (lc_source_entity_results l)) tos (?pre @ as4) x b"
        unfolding observation_step_def using v(2) None b(1,2,3) a(6) assms(5) same(2)
        by (simp add: key_def q_def Let_def del: gather_simps)
      ultimately show ?thesis using a(6) b(1,4) by simp
    qed
    note st = this
    have steps: "stepwise (observation_step D (bm_get (lc_source_entity_results l)) tos) ?pre (ys @ [x]) (as4 @ [b])"
      using a(4) st by (intro stepwise_snoc) simp_all
    have frame: "l2 = l\<lparr>lc_source_verifier := lc_source_verifier l2, lc_observation_index := lc_observation_index l2,
        lc_qualified_observation_ids := lc_qualified_observation_ids l2, lc_state := lc_state l2\<rparr>"
      using l1 l2 by (cases l; cases l1; cases l2) simp
    have sel: "lc_source_verifier l2 = v" by (subst l2) simp
    show "I (ys @ [x]) l2"
      unfolding I_def
      by (rule exI [of _ "as4 @ [b]"])
        (use a(1,3) v(1) log steps st frame sel in \<open>simp add: run_list_snoc del: gather_simps\<close>)
  qed
  then show ?thesis unfolding I_def by blast
qed

lemma phase_target_relations:
  assumes "visit (target_relation_visitor D K) (map Inr trs) l = (Inr (), l')"
    and "logged D K s0 as0 (lc_state l)" "lc_relation_index l = []" "lc_result_relation_ids l = []"
    and target: "bm_get (lc_target_entities l) = map_of (revisions tes)"
  shows "run_list (verifier_relation D) trs (lc_target_verifier l) = Inr (lc_target_verifier l') \<and>
    logged D K s0 (as0 @ map keep_relation trs) (lc_state l') \<and>
    ps_accounting (lc_state l') = ps_accounting (lc_state l) \<and>
    (\<forall>r\<in>set trs. oa_logical (re_subject r) \<in> elog ` set tes \<and> oa_logical (re_object r) \<in> elog ` set tes) \<and>
    bm_get (lc_relation_index l') = map_of (gather (relation_entry D) (map keep_relation trs)) \<and>
    distinct (map fst (gather (relation_entry D) (map keep_relation trs))) \<and>
    set (lc_result_relation_ids l') = (\<lambda>r. oa_logical (re_address r)) ` set trs \<and>
    l' = l\<lparr>lc_target_verifier := lc_target_verifier l', lc_relation_index := lc_relation_index l',
      lc_result_relation_ids := lc_result_relation_ids l', lc_state := lc_state l'\<rparr>"
proof -
  define I where "I = (\<lambda>ys l1. run_list (verifier_relation D) ys (lc_target_verifier l) = Inr (lc_target_verifier l1) \<and>
    logged D K s0 (as0 @ map keep_relation ys) (lc_state l1) \<and>
    ps_accounting (lc_state l1) = ps_accounting (lc_state l) \<and>
    (\<forall>r\<in>set ys. oa_logical (re_subject r) \<in> elog ` set tes \<and> oa_logical (re_object r) \<in> elog ` set tes) \<and>
    bm_get (lc_relation_index l1) = map_of (gather (relation_entry D) (map keep_relation ys)) \<and>
    distinct (map fst (gather (relation_entry D) (map keep_relation ys))) \<and>
    set (lc_result_relation_ids l1) = (\<lambda>r. oa_logical (re_address r)) ` set ys \<and>
    l1 = l\<lparr>lc_target_verifier := lc_target_verifier l1, lc_relation_index := lc_relation_index l1,
      lc_result_relation_ids := lc_result_relation_ids l1, lc_state := lc_state l1\<rparr>)"
  have "I trs l'"
    using assms(1)
  proof (rule visit_prefix [where I = I])
    show "I [] l" using assms(2-4) by (simp add: I_def bm_get_def fun_eq_iff)
  next
    fix ys x l1 l2
    assume I: "I ys l1" and step: "target_relation_visitor D K x l1 = (Inr (), l2)"
    from I have a: "run_list (verifier_relation D) ys (lc_target_verifier l) = Inr (lc_target_verifier l1)"
      "logged D K s0 (as0 @ map keep_relation ys) (lc_state l1)"
      "ps_accounting (lc_state l1) = ps_accounting (lc_state l)"
      "\<forall>r\<in>set ys. oa_logical (re_subject r) \<in> elog ` set tes \<and> oa_logical (re_object r) \<in> elog ` set tes"
      "bm_get (lc_relation_index l1) = map_of (gather (relation_entry D) (map keep_relation ys))"
      "distinct (map fst (gather (relation_entry D) (map keep_relation ys)))"
      "set (lc_result_relation_ids l1) = (\<lambda>r. oa_logical (re_address r)) ` set ys"
      and l1: "l1 = l\<lparr>lc_target_verifier := lc_target_verifier l1, lc_relation_index := lc_relation_index l1,
        lc_result_relation_ids := lc_result_relation_ids l1, lc_state := lc_state l1\<rparr>"
      unfolding I_def by blast+
    have tgt: "bm_get (lc_target_entities l1) = map_of (revisions tes)"
      by (subst l1) (simp add: target)
    define key where "key = fst (hd (relation_entry D (keep_relation x)))"
    from target_relation_visitor_ok [OF step a(2), folded key_def] obtain v st where
      v: "verifier_relation D x (lc_target_verifier l1) = Inr v"
        "bm_contains (lc_target_entities l1) (oa_logical (re_subject x))"
        "bm_contains (lc_target_entities l1) (oa_logical (re_object x))"
        "\<not> bm_contains (lc_relation_index l1) key"
        "logged D K s0 ((as0 @ map keep_relation ys) @ [keep_relation x]) st"
        "ps_accounting st = ps_accounting (lc_state l1)"
      and l2: "l2 = l1\<lparr>lc_target_verifier := v,
        lc_relation_index := bm_insert key (ResTarget (oa_logical (re_address x))) (lc_relation_index l1),
        lc_result_relation_ids := bs_insert (oa_logical (re_address x)) (lc_result_relation_ids l1),
        lc_state := st\<rparr>"
      by blast
    have present: "oa_logical (re_subject x) \<in> elog ` set tes \<and> oa_logical (re_object x) \<in> elog ` set tes"
      using v(2,3) unfolding bm_contains_def tgt
      by (simp_all add: revisions_None del: not_None_eq)
    have entry: "relation_entry D (keep_relation x) = [(key, ResTarget (oa_logical (re_address x)))]"
      by (simp add: keep_relation_def key_def)
    have new: "map_of (gather (relation_entry D) (map keep_relation ys)) key = None"
      using v(4) a(5) by (simp add: bm_contains_def)
    have index: "bm_get (lc_relation_index l2) =
        map_of (gather (relation_entry D) (map keep_relation (ys @ [x])))"
      using a(5) map_of_snoc_new [OF new] by (simp add: l2 entry del: map_of_append)
    have dist: "distinct (map fst (gather (relation_entry D) (map keep_relation (ys @ [x]))))"
      using a(6) new by (simp add: entry map_of_eq_None_iff)
    have frame: "l2 = l\<lparr>lc_target_verifier := lc_target_verifier l2, lc_relation_index := lc_relation_index l2,
        lc_result_relation_ids := lc_result_relation_ids l2, lc_state := lc_state l2\<rparr>"
      using l1 l2 by (cases l; cases l1; cases l2) simp
    show "I (ys @ [x]) l2"
      unfolding I_def using a(1,3,4,7) v present index dist frame
      by (simp add: run_list_snoc l2 del: gather_simps)
  qed
  then show ?thesis unfolding I_def by blast
qed

lemma phase_source_relations:
  assumes "visit (source_relation_visitor D K policy) (map Inr srs) l = (Inr (), l')"
    and "logged D K s0 as0 (lc_state l)" "lc_qualified_relation_ids l = {}"
    and "bm_get (lc_relation_index l) = map_of (gather (relation_entry D) (map keep_relation trs))"
    and "set (lc_result_relation_ids l) = (\<lambda>r. oa_logical (re_address r)) ` set trs"
  shows "\<exists>as6. run_list (verifier_relation D) srs (lc_source_verifier l) = Inr (lc_source_verifier l') \<and>
    logged D K s0 (as0 @ as6) (lc_state l') \<and>
    ps_accounting (lc_state l') = ps_accounting (lc_state l) \<and>
    stepwise (relation_step D policy (bm_get (lc_source_entity_results l)) trs) (map keep_relation trs) srs as6"
proof -
  let ?pre = "map keep_relation trs"
  define I where "I = (\<lambda>ys l1. \<exists>as6. run_list (verifier_relation D) ys (lc_source_verifier l) = Inr (lc_source_verifier l1) \<and>
    logged D K s0 (as0 @ as6) (lc_state l1) \<and>
    ps_accounting (lc_state l1) = ps_accounting (lc_state l) \<and>
    stepwise (relation_step D policy (bm_get (lc_source_entity_results l)) trs) ?pre ys as6 \<and>
    bm_get (lc_relation_index l1) = map_of (gather (relation_entry D) (?pre @ as6)) \<and>
    lc_qualified_relation_ids l1 = qualified_collision_key D ` set (gather added_relation (?pre @ as6)) \<and>
    l1 = l\<lparr>lc_source_verifier := lc_source_verifier l1, lc_relation_index := lc_relation_index l1,
      lc_qualified_relation_ids := lc_qualified_relation_ids l1, lc_state := lc_state l1\<rparr>)"
  have none: "gather added_relation ?pre = []"
    by (induction trs) (simp_all add: keep_relation_def)
  have "I srs l'"
    using assms(1)
  proof (rule visit_prefix [where I = I])
    show "I [] l" using assms(2-4) none by (simp add: I_def)
  next
    fix ys x l1 l2
    assume I: "I ys l1" and step: "source_relation_visitor D K policy x l1 = (Inr (), l2)"
    from I obtain as6 where a: "run_list (verifier_relation D) ys (lc_source_verifier l) = Inr (lc_source_verifier l1)"
      "logged D K s0 (as0 @ as6) (lc_state l1)" "ps_accounting (lc_state l1) = ps_accounting (lc_state l)"
      "stepwise (relation_step D policy (bm_get (lc_source_entity_results l)) trs) ?pre ys as6"
      "bm_get (lc_relation_index l1) = map_of (gather (relation_entry D) (?pre @ as6))"
      "lc_qualified_relation_ids l1 = qualified_collision_key D ` set (gather added_relation (?pre @ as6))"
      and l1: "l1 = l\<lparr>lc_source_verifier := lc_source_verifier l1, lc_relation_index := lc_relation_index l1,
        lc_qualified_relation_ids := lc_qualified_relation_ids l1, lc_state := lc_state l1\<rparr>"
      unfolding I_def by blast
    have same: "lc_source_entity_results l1 = lc_source_entity_results l"
      "lc_result_relation_ids l1 = lc_result_relation_ids l"
      by (subst l1, simp)+
    from source_relation_visitor_ok [OF step a(2)] obtain v s b c where
      v: "verifier_relation D x (lc_source_verifier l1) = Inr v"
        "bm_get (lc_source_entity_results l) (oa_logical (re_subject x)) = Some s"
        "bm_get (lc_source_entity_results l) (oa_logical (re_object x)) = Some b"
        "s = b \<longrightarrow> allows_self_loop policy (re_predicate x)"
      and act: "(let key = relation_key D s (re_predicate x) b (re_lifecycle x) in
         case bm_get (lc_relation_index l1) key of
           Some t \<Rightarrow> c = MergeRelationOrigin x t s b \<and>
             lc_qualified_relation_ids l2 = lc_qualified_relation_ids l1 \<and>
             lc_relation_index l2 = lc_relation_index l1
         | None \<Rightarrow>
             (let q = qualified_derive D (oa_space (re_address x)) (oa_logical (re_address x)) in
              c = AddRelation x q s b \<and> q \<notin> set (lc_result_relation_ids l1) \<and>
              qualified_collision_key D q \<notin> lc_qualified_relation_ids l1 \<and>
              lc_qualified_relation_ids l2 = insert (qualified_collision_key D q) (lc_qualified_relation_ids l1) \<and>
              lc_relation_index l2 = bm_insert key (ResQualified q) (lc_relation_index l1)))"
      and log: "logged D K s0 ((as0 @ as6) @ [c]) (lc_state l2)"
        "ps_accounting (lc_state l2) = ps_accounting (lc_state l1)"
      and l2: "l2 = l1\<lparr>lc_source_verifier := v, lc_qualified_relation_ids := lc_qualified_relation_ids l2,
        lc_relation_index := lc_relation_index l2, lc_state := lc_state l2\<rparr>"
      unfolding same(1) by blast
    define key where "key = relation_key D s (re_predicate x) b (re_lifecycle x)"
    define q where "q = qualified_derive D (oa_space (re_address x)) (oa_logical (re_address x))"
    have st: "relation_step D policy (bm_get (lc_source_entity_results l)) trs (?pre @ as6) x c \<and>
        bm_get (lc_relation_index l2) = map_of (gather (relation_entry D) (?pre @ as6 @ [c])) \<and>
        lc_qualified_relation_ids l2 = qualified_collision_key D ` set (gather added_relation (?pre @ as6 @ [c]))"
    proof (cases "map_of (gather (relation_entry D) (?pre @ as6)) key")
      case (Some t)
      then have "c = MergeRelationOrigin x t s b" "lc_qualified_relation_ids l2 = lc_qualified_relation_ids l1"
          "lc_relation_index l2 = lc_relation_index l1"
        using act Some unfolding a(5) by (simp_all add: Let_def key_def del: gather_simps)
      then show ?thesis using v(2-4) Some a(5,6) by (simp add: relation_step_def key_def)
    next
      case None
      then have c: "c = AddRelation x q s b" "q \<notin> set (lc_result_relation_ids l1)"
          "qualified_collision_key D q \<notin> lc_qualified_relation_ids l1"
          "lc_qualified_relation_ids l2 = insert (qualified_collision_key D q) (lc_qualified_relation_ids l1)"
          "lc_relation_index l2 = bm_insert key (ResQualified q) (lc_relation_index l1)"
        using act None unfolding a(5) by (simp_all add: Let_def key_def q_def del: gather_simps)
      have "relation_entry D c = [(key, ResQualified q)]" by (simp add: c(1) key_def)
      then have "bm_get (lc_relation_index l2) = map_of (gather (relation_entry D) (?pre @ as6 @ [c]))"
        using map_of_snoc_new [OF None, of "ResQualified q"] a(5) c(5) by (simp del: map_of_append)
      moreover have "relation_step D policy (bm_get (lc_source_entity_results l)) trs (?pre @ as6) x c"
        unfolding relation_step_def using v(2-4) None c(1,2,3) a(6) assms(5) same(2)
        by (simp add: key_def q_def Let_def del: gather_simps)
      ultimately show ?thesis using a(6) c(1,4) by simp
    qed
    have steps: "stepwise (relation_step D policy (bm_get (lc_source_entity_results l)) trs) ?pre (ys @ [x]) (as6 @ [c])"
      using a(4) st by (intro stepwise_snoc) simp_all
    have frame: "l2 = l\<lparr>lc_source_verifier := lc_source_verifier l2, lc_relation_index := lc_relation_index l2,
        lc_qualified_relation_ids := lc_qualified_relation_ids l2, lc_state := lc_state l2\<rparr>"
      using l1 l2 by (cases l; cases l1; cases l2) simp
    have sel: "lc_source_verifier l2 = v" by (subst l2) simp
    show "I (ys @ [x]) l2"
      unfolding I_def
      by (rule exI [of _ "as6 @ [c]"])
        (use a(1,3) v(1) log steps st frame sel in \<open>simp add: run_list_snoc del: gather_simps\<close>)
  qed
  then show ?thesis unfolding I_def by blast
qed

end
