(* ===== verification/Om_PlanRun.thy ===== *)
theory Om_PlanRun
  imports Om_PlanTrace
begin

text \<open>
  The whole run: \<open>plan_trace\<close> specifies the actions of a plan, \<open>plan_of\<close> the plan that binds
  them, and \<open>plan_merge_ok\<close> shows that a successful \<open>plan_merge\<close> has begun its sink, emitted such
  a trace, built that plan and finished the sink with it, while \<open>plan_merge_error\<close> shows what a
  failed one leaves behind.
\<close>

definition plan_trace ::
    "deps \<Rightarrow> snapshot_header \<Rightarrow> snapshot_header \<Rightarrow> planned_entity list \<Rightarrow> merge_policy \<Rightarrow>
     entity_record list \<Rightarrow> entity_record list \<Rightarrow> observation_record list \<Rightarrow> observation_record list \<Rightarrow>
     relation_record list \<Rightarrow> relation_record list \<Rightarrow>
     merge_action list \<Rightarrow> merge_action list \<Rightarrow> merge_action list \<Rightarrow> bool" where
  "plan_trace D th sh planned policy tes ses tos sos trs srs as2 as4 as6 \<longleftrightarrow>
     stepwise (entity_step D th sh planned tes) [] ses as2 \<and>
     length ses = length planned \<and>
     (\<forall>r\<in>set tos. oa_logical (ob_entity r) \<in> elog ` set tes) \<and>
     stepwise (observation_step D (map_of (rev (gather entity_result as2))) tos)
       (map keep_observation tos) sos as4 \<and>
     (\<forall>r\<in>set trs. oa_logical (re_subject r) \<in> elog ` set tes \<and> oa_logical (re_object r) \<in> elog ` set tes) \<and>
     distinct (map fst (gather (relation_entry D) (map keep_relation trs))) \<and>
     stepwise (relation_step D policy (map_of (rev (gather entity_result as2))) trs)
       (map keep_relation trs) srs as6"

definition trace_actions ::
    "entity_record list \<Rightarrow> observation_record list \<Rightarrow> relation_record list \<Rightarrow>
     merge_action list \<Rightarrow> merge_action list \<Rightarrow> merge_action list \<Rightarrow> merge_action list" where
  "trace_actions tes tos trs as2 as4 as6 =
     map KeepTargetEntity tes @ as2 @ map keep_observation tos @ as4 @ map keep_relation trs @ as6"

definition plan_of :: "deps \<Rightarrow> plan_prelude \<Rightarrow> merge_accounting \<Rightarrow> merge_action list \<Rightarrow> merge_plan" where
  "plan_of D prelude acc as =
     (let counts = fold count_action as counts_default;
          tokens = canonical_tokens (concat (map (result_tokens D) as));
          accounting = finish_accounting counts tokens acc;
          action_hash = ch_finish D (fold (encode_action D) as (ch_new ''openmemory/merge-actions/v1''));
          predicted = hash_result_tokens D tokens
      in \<lparr>mpl_prelude = prelude, mpl_action_stream_hash = action_hash, mpl_action_counts = counts,
          mpl_accounting = accounting, mpl_predicted_result_hash = predicted,
          mpl_plan_hash = hash_plan D prelude action_hash counts accounting predicted\<rparr>)"

lemma verify_target_iff: "verify_target f l = (Inr (), l') \<longleftrightarrow>
    (\<exists>v. f (lc_target_verifier l) = Inr v \<and> l' = l\<lparr>lc_target_verifier := v\<rparr>)"
  by (auto simp: verify_target_def split: sum.splits)

lemma verify_source_iff: "verify_source f l = (Inr (), l') \<longleftrightarrow>
    (\<exists>v. f (lc_source_verifier l) = Inr v \<and> l' = l\<lparr>lc_source_verifier := v\<rparr>)"
  by (auto simp: verify_source_def split: sum.splits)

lemma all_seen_iff: "all_seen planned l = (Inr (), l') \<longleftrightarrow>
    lc_seen_disposition_count l = length planned \<and> l' = l"
  by (auto simp: all_seen_def)

lemma plan_finish_ok:
  assumes "plan_finish D th sh prelude l = (Inr plan, l')" "logged D K s0 as (lc_state l)"
  shows "l' = l \<and> plan = plan_of D prelude (ps_accounting (lc_state l)) as \<and>
    validate_accounting (mpl_action_counts plan) (mpl_accounting plan) th sh = Inr ()"
proof -
  have st: "ps_result_tokens (lc_state l) = concat (map (result_tokens D) as)"
      "ps_counts (lc_state l) = fold count_action as counts_default"
      "ps_action_hash (lc_state l) = fold (encode_action D) as (ch_new ''openmemory/merge-actions/v1'')"
    using assms(2) by (simp_all add: logged_def)
  define counts where "counts = fold count_action as counts_default"
  define tokens where "tokens = canonical_tokens (concat (map (result_tokens D) as))"
  show ?thesis
  proof (cases "validate_accounting counts (finish_accounting counts tokens (ps_accounting (lc_state l))) th sh")
    case (Inl e)
    then show ?thesis using assms(1) by (simp add: plan_finish_def st counts_def tokens_def Let_def)
  next
    case (Inr u)
    then have "plan = plan_of D prelude (ps_accounting (lc_state l)) as \<and> l' = l"
      using assms(1) by (auto simp: plan_finish_def st counts_def tokens_def Let_def plan_of_def)
    then show ?thesis using Inr by (simp add: plan_of_def Let_def counts_def tokens_def)
  qed
qed

lemma plan_phases_trace:
  assumes run: "plan_phases D K target source th sh planned policy prelude
      (initial_locals s0 acc tv sv n) = (Inr plan, l')"
    and new: "verifier_new D th = Inr tv" "verifier_new D sh = Inr sv"
  shows "\<exists>tes ses tos sos trs srs as2 as4 as6.
    ss_entities target = map Inr tes \<and> ss_entities source = map Inr ses \<and>
    ss_observations target = map Inr tos \<and> ss_observations source = map Inr sos \<and>
    ss_relations target = map Inr trs \<and> ss_relations source = map Inr srs \<and>
    (\<exists>w. verify_stream D th tes tos trs = Inr w) \<and> (\<exists>w. verify_stream D sh ses sos srs = Inr w) \<and>
    plan_trace D th sh planned policy tes ses tos sos trs srs as2 as4 as6 \<and>
    emits K (trace_actions tes tos trs as2 as4 as6) s0 (ps_sink (lc_state l')) \<and>
    length (trace_actions tes tos trs as2 as4 as6) < MAX_ACTIONS \<and>
    plan = plan_of D prelude acc (trace_actions tes tos trs as2 as4 as6) \<and>
    validate_accounting (mpl_action_counts plan) (mpl_accounting plan) th sh = Inr ()"
proof -
  define l0 where "l0 = initial_locals s0 acc tv sv n"
  obtain l1 l2 l3 l4 l5 l6 l7 l8 l9 l10 l11 l12 where
    ph: "visit (target_entity_visitor D K) (ss_entities target) l0 = (Inr (), l1)"
      "verify_target verifier_end_entities l1 = (Inr (), l2)"
      "visit (source_entity_visitor D K th sh planned) (ss_entities source) l2 = (Inr (), l3)"
      "verify_source verifier_end_entities l3 = (Inr (), l4)"
      "all_seen planned l4 = (Inr (), l4)"
      "visit (target_observation_visitor D K) (ss_observations target) l4 = (Inr (), l5)"
      "verify_target verifier_end_observations l5 = (Inr (), l6)"
      "visit (source_observation_visitor D K) (ss_observations source) l6 = (Inr (), l7)"
      "verify_source verifier_end_observations l7 = (Inr (), l8)"
      "visit (target_relation_visitor D K) (ss_relations target) l8 = (Inr (), l9)"
      "verify_target (verifier_finish D) l9 = (Inr (), l10)"
      "visit (source_relation_visitor D K policy) (ss_relations source) l10 = (Inr (), l11)"
      "verify_source (verifier_finish D) l11 = (Inr (), l12)"
      "plan_finish D th sh prelude l12 = (Inr plan, l')"
    using run unfolding plan_phases_def run_then_ok l0_def [symmetric] all_seen_iff by blast
  obtain tes ses tos sos trs srs where src: "ss_entities target = map Inr tes" "ss_entities source = map Inr ses"
      "ss_observations target = map Inr tos" "ss_observations source = map Inr sos"
      "ss_relations target = map Inr trs" "ss_relations source = map Inr srs"
    using visit_ok_Inr [OF ph(1)] visit_ok_Inr [OF ph(3)] visit_ok_Inr [OF ph(6)] visit_ok_Inr [OF ph(8)]
      visit_ok_Inr [OF ph(10)] visit_ok_Inr [OF ph(12)] by blast
  note ph = ph [unfolded src verify_target_iff verify_source_iff all_seen_iff]
  have log0: "logged D K s0 [] (lc_state l0)"
    by (simp add: logged_def l0_def initial_locals_def MAX_ACTIONS_def)
  have i0: "lc_target_verifier l0 = tv" "lc_source_verifier l0 = sv" "lc_target_entities l0 = []"
    "lc_result_entity_ids l0 = []" "lc_source_entity_results l0 = []" "lc_qualified_entity_ids l0 = {}"
    "lc_seen_disposition_count l0 = 0" "lc_observation_index l0 = []" "lc_result_observation_ids l0 = []"
    "lc_qualified_observation_ids l0 = {}" "lc_relation_index l0 = []" "lc_result_relation_ids l0 = []"
    "lc_qualified_relation_ids l0 = {}" "ps_accounting (lc_state l0) = acc"
    by (simp_all add: l0_def initial_locals_def)
  note p1 = phase_target_entities [OF ph(1) log0 i0(3,4)]
  have fr1: "l1 = l0\<lparr>lc_target_verifier := lc_target_verifier l1, lc_target_entities := lc_target_entities l1,
      lc_result_entity_ids := lc_result_entity_ids l1, lc_state := lc_state l1\<rparr>" using p1 by blast
  have f1: "lc_source_verifier l1 = sv" "lc_source_entity_results l1 = []" "lc_qualified_entity_ids l1 = {}"
    "lc_seen_disposition_count l1 = 0" "lc_observation_index l1 = []" "lc_result_observation_ids l1 = []"
    "lc_qualified_observation_ids l1 = {}" "lc_relation_index l1 = []" "lc_result_relation_ids l1 = []"
    "lc_qualified_relation_ids l1 = {}"
    by (subst fr1, simp add: i0)+
  obtain tv2 where tv2: "verifier_end_entities (lc_target_verifier l1) = Inr tv2" and l2: "l2 = l1\<lparr>lc_target_verifier := tv2\<rparr>"
    using ph(2) by blast
  have l2s: "logged D K s0 (map KeepTargetEntity tes) (lc_state l2)" "lc_source_entity_results l2 = []"
    "lc_qualified_entity_ids l2 = {}" "lc_seen_disposition_count l2 = 0"
    "bm_get (lc_target_entities l2) = map_of (revisions tes)" "set (lc_result_entity_ids l2) = elog ` set tes"
    using p1 f1 by (simp_all add: l2)
  obtain as2 where p2: "run_list (verifier_entity D) ses (lc_source_verifier l2) = Inr (lc_source_verifier l3)"
    "logged D K s0 (map KeepTargetEntity tes @ as2) (lc_state l3)"
    "ps_accounting (lc_state l3) = ps_accounting (lc_state l2)"
    "stepwise (entity_step D th sh planned tes) [] ses as2"
    "bm_get (lc_source_entity_results l3) = map_of (rev (gather entity_result as2))"
    "lc_seen_disposition_count l3 = length ses"
    and fr3: "l3 = l2\<lparr>lc_source_verifier := lc_source_verifier l3, lc_seen_dispositions := lc_seen_dispositions l3,
      lc_seen_disposition_count := lc_seen_disposition_count l3,
      lc_source_entity_results := lc_source_entity_results l3,
      lc_qualified_entity_ids := lc_qualified_entity_ids l3, lc_state := lc_state l3\<rparr>"
    using phase_source_entities [OF ph(3) l2s] by blast
  have f3: "lc_target_verifier l3 = tv2" "bm_get (lc_target_entities l3) = map_of (revisions tes)"
    "lc_observation_index l3 = []" "lc_result_observation_ids l3 = []" "lc_qualified_observation_ids l3 = {}"
    "lc_relation_index l3 = []" "lc_result_relation_ids l3 = []" "lc_qualified_relation_ids l3 = {}"
    by (subst fr3, use f1 l2s in \<open>simp add: l2\<close>)+
  obtain sv2 where sv2: "verifier_end_entities (lc_source_verifier l3) = Inr sv2" and l4: "l4 = l3\<lparr>lc_source_verifier := sv2\<rparr>"
    using ph(4) by blast
  have l4s: "logged D K s0 (map KeepTargetEntity tes @ as2) (lc_state l4)" "lc_observation_index l4 = []"
    "lc_result_observation_ids l4 = []" "bm_get (lc_target_entities l4) = map_of (revisions tes)"
    using p2 f3 by (simp_all add: l4)
  have count: "length ses = length planned" using ph(5) p2(6) by (simp add: l4)
  note p3 = phase_target_observations [OF ph(6) l4s]
  have fr5: "l5 = l4\<lparr>lc_target_verifier := lc_target_verifier l5, lc_observation_index := lc_observation_index l5,
      lc_result_observation_ids := lc_result_observation_ids l5, lc_state := lc_state l5\<rparr>" using p3 by blast
  have f5: "lc_source_verifier l5 = sv2" "bm_get (lc_target_entities l5) = map_of (revisions tes)"
    "bm_get (lc_source_entity_results l5) = map_of (rev (gather entity_result as2))"
    "lc_qualified_observation_ids l5 = {}" "lc_relation_index l5 = []" "lc_result_relation_ids l5 = []"
    "lc_qualified_relation_ids l5 = {}"
    by (subst fr5, use f3 p2 in \<open>simp add: l4\<close>)+
  obtain tv3 where tv3: "verifier_end_observations (lc_target_verifier l5) = Inr tv3" and l6: "l6 = l5\<lparr>lc_target_verifier := tv3\<rparr>"
    using ph(7) by blast
  have l6s: "logged D K s0 ((map KeepTargetEntity tes @ as2) @ map keep_observation tos) (lc_state l6)"
    "lc_qualified_observation_ids l6 = {}"
    "bm_get (lc_observation_index l6) = map_of (gather (observation_entry D) (map keep_observation tos))"
    "set (lc_result_observation_ids l6) = (\<lambda>r. oa_logical (ob_address r)) ` set tos"
    "bm_get (lc_source_entity_results l6) = map_of (rev (gather entity_result as2))"
    using p3 f5 by (simp_all add: l6)
  obtain as4 where p4: "run_list (verifier_observation D) sos (lc_source_verifier l6) = Inr (lc_source_verifier l7)"
    "logged D K s0 (((map KeepTargetEntity tes @ as2) @ map keep_observation tos) @ as4) (lc_state l7)"
    "ps_accounting (lc_state l7) = ps_accounting (lc_state l6)"
    "stepwise (observation_step D (bm_get (lc_source_entity_results l6)) tos) (map keep_observation tos) sos as4"
    and fr7: "l7 = l6\<lparr>lc_source_verifier := lc_source_verifier l7, lc_observation_index := lc_observation_index l7,
      lc_qualified_observation_ids := lc_qualified_observation_ids l7, lc_state := lc_state l7\<rparr>"
    using phase_source_observations [OF ph(8) l6s(1-4)] by blast
  have f7: "lc_target_verifier l7 = tv3" "bm_get (lc_target_entities l7) = map_of (revisions tes)"
    "bm_get (lc_source_entity_results l7) = map_of (rev (gather entity_result as2))"
    "lc_relation_index l7 = []" "lc_result_relation_ids l7 = []" "lc_qualified_relation_ids l7 = {}"
    by (subst fr7, use f5 l6s in \<open>simp add: l6\<close>)+
  obtain sv3 where sv3: "verifier_end_observations (lc_source_verifier l7) = Inr sv3" and l8: "l8 = l7\<lparr>lc_source_verifier := sv3\<rparr>"
    using ph(9) by blast
  have l8s: "logged D K s0 (((map KeepTargetEntity tes @ as2) @ map keep_observation tos) @ as4) (lc_state l8)"
    "lc_relation_index l8 = []" "lc_result_relation_ids l8 = []"
    "bm_get (lc_target_entities l8) = map_of (revisions tes)"
    using p4 f7 by (simp_all add: l8)
  note p5 = phase_target_relations [OF ph(10) l8s]
  have fr9: "l9 = l8\<lparr>lc_target_verifier := lc_target_verifier l9, lc_relation_index := lc_relation_index l9,
      lc_result_relation_ids := lc_result_relation_ids l9, lc_state := lc_state l9\<rparr>" using p5 by blast
  have f9: "lc_source_verifier l9 = sv3" "lc_qualified_relation_ids l9 = {}"
    "bm_get (lc_source_entity_results l9) = map_of (rev (gather entity_result as2))"
    by (subst fr9, use f7 in \<open>simp add: l8\<close>)+
  obtain tv4 where tv4: "verifier_finish D (lc_target_verifier l9) = Inr tv4" and l10: "l10 = l9\<lparr>lc_target_verifier := tv4\<rparr>"
    using ph(11) by blast
  have l10s: "logged D K s0 ((((map KeepTargetEntity tes @ as2) @ map keep_observation tos) @ as4) @ map keep_relation trs) (lc_state l10)"
    "lc_qualified_relation_ids l10 = {}"
    "bm_get (lc_relation_index l10) = map_of (gather (relation_entry D) (map keep_relation trs))"
    "set (lc_result_relation_ids l10) = (\<lambda>r. oa_logical (re_address r)) ` set trs"
    "bm_get (lc_source_entity_results l10) = map_of (rev (gather entity_result as2))"
    using p5 f9 by (simp_all add: l10)
  obtain as6 where p6: "run_list (verifier_relation D) srs (lc_source_verifier l10) = Inr (lc_source_verifier l11)"
    "logged D K s0 (((((map KeepTargetEntity tes @ as2) @ map keep_observation tos) @ as4) @ map keep_relation trs) @ as6) (lc_state l11)"
    "ps_accounting (lc_state l11) = ps_accounting (lc_state l10)"
    "stepwise (relation_step D policy (bm_get (lc_source_entity_results l10)) trs) (map keep_relation trs) srs as6"
    using phase_source_relations [OF ph(12) l10s(1-4)] by blast
  obtain sv4 where sv4: "verifier_finish D (lc_source_verifier l11) = Inr sv4" and l12: "l12 = l11\<lparr>lc_source_verifier := sv4\<rparr>"
    using ph(13) by blast
  have log: "logged D K s0 (trace_actions tes tos trs as2 as4 as6) (lc_state l12)"
    using p6(2) by (simp add: l12 trace_actions_def)
  have acc: "ps_accounting (lc_state l12) = acc"
    using p1 p2(3) p3 p4(3) p5 p6(3) by (simp add: l2 l4 l6 l8 l10 l12 i0)
  note fin = plan_finish_ok [OF ph(14) log, unfolded acc]
  have "verify_stream D th tes tos trs = Inr tv4"
    using new p1 tv2 p3 tv3 p5 tv4 f3(1) f7(1)
    by (simp add: verify_stream_def i0 l2 l4 l6 l8)
  moreover have "verify_stream D sh ses sos srs = Inr sv4"
    using new p2(1) sv2 p4(1) sv3 p6(1) sv4 f1(1) f5(1) f9(1)
    by (simp add: verify_stream_def l2 l6 l10)
  moreover have "plan_trace D th sh planned policy tes ses tos sos trs srs as2 as4 as6"
    using p2(4) count p3 p4(4) p5 p6(4) by (simp add: plan_trace_def l6s(5) l10s(5))
  ultimately show ?thesis
    using src fin log by (auto simp: logged_def)
qed

section \<open>The whole operation\<close>

lemma validate_headers_ok: "validate_headers th sh = Inr () \<longleftrightarrow>
    sh_format_version th = 1 \<and> sh_format_version sh = 1 \<and> sh_space_id th \<noteq> sh_space_id sh"
  by (auto simp: validate_headers_def)

text \<open>What a successful run has done.\<close>

definition planned_run ::
    "deps \<Rightarrow> 's action_sink \<Rightarrow> snapshot_source \<Rightarrow> snapshot_source \<Rightarrow> planning_receipts \<Rightarrow> merge_policy \<Rightarrow>
     's \<Rightarrow> merge_plan \<Rightarrow> 's \<Rightarrow> entity_record list \<Rightarrow> entity_record list \<Rightarrow> observation_record list \<Rightarrow>
     observation_record list \<Rightarrow> relation_record list \<Rightarrow> relation_record list \<Rightarrow>
     merge_action list \<Rightarrow> merge_action list \<Rightarrow> merge_action list \<Rightarrow> bool" where
  "planned_run D K target source rc policy s plan s' tes ses tos sos trs srs as2 as4 as6 \<longleftrightarrow>
     target = \<lparr>ss_header = ss_header target, ss_entities = map Inr tes, ss_observations = map Inr tos,
       ss_relations = map Inr trs\<rparr> \<and>
     source = \<lparr>ss_header = ss_header source, ss_entities = map Inr ses, ss_observations = map Inr sos,
       ss_relations = map Inr srs\<rparr> \<and>
     sh_space_id (ss_header target) \<noteq> sh_space_id (ss_header source) \<and>
     (\<exists>w. verify_stream D (ss_header target) tes tos trs = Inr w) \<and>
     (\<exists>w. verify_stream D (ss_header source) ses sos srs = Inr w) \<and>
     (\<exists>planned acc s1 s2.
        prepare_dispositions rc policy = Inr (planned, acc) \<and>
        plan_trace D (ss_header target) (ss_header source) planned policy tes ses tos sos trs srs as2 as4 as6 \<and>
        snk_begin K (prelude_of (ss_header target) (ss_header source) policy) s = (Inr (), s1) \<and>
        emits K (trace_actions tes tos trs as2 as4 as6) s1 s2 \<and> snk_finish K plan s2 = (Inr (), s') \<and>
        length (trace_actions tes tos trs as2 as4 as6) < MAX_ACTIONS \<and>
        plan = plan_of D (prelude_of (ss_header target) (ss_header source) policy) acc
          (trace_actions tes tos trs as2 as4 as6) \<and>
        validate_accounting (mpl_action_counts plan) (mpl_accounting plan) (ss_header target) (ss_header source) = Inr ())"

lemma plan_merge_ok:
  assumes "plan_merge D K target source rc policy s = (Inr plan, s')"
  shows "\<exists>tes ses tos sos trs srs as2 as4 as6.
    planned_run D K target source rc policy s plan s' tes ses tos sos trs srs as2 as4 as6"
proof -
  let ?th = "ss_header target" and ?sh = "ss_header source"
  let ?prelude = "prelude_of ?th ?sh policy"
  from assms have head: "validate_headers ?th ?sh = Inr ()"
    by (auto simp: plan_merge_def Let_def split: sum.splits)
  from assms head obtain s1 s2 where b: "snk_begin K ?prelude s = (Inr (), s1)"
    and run: "plan_after_begin D K target source ?th ?sh rc policy ?prelude s1 = (Inr plan, s2)"
    and fin: "snk_finish K plan s2 = (Inr (), s')"
    by (auto simp: plan_merge_def Let_def split: sum.splits prod.splits)
  from run obtain planned acc tv sv l where prep: "prepare_dispositions rc policy = Inr (planned, acc)"
    and new: "verifier_new D ?th = Inr tv" "verifier_new D ?sh = Inr sv"
    and ph: "plan_phases D K target source ?th ?sh planned policy ?prelude
        (initial_locals s1 acc tv sv (length planned)) = (Inr plan, l)" and s2: "s2 = ps_sink (lc_state l)"
    by (auto simp: plan_after_begin_def split: sum.splits prod.splits)
  from plan_phases_trace [OF ph new] obtain tes ses tos sos trs srs as2 as4 as6 where t:
    "ss_entities target = map Inr tes" "ss_entities source = map Inr ses"
    "ss_observations target = map Inr tos" "ss_observations source = map Inr sos"
    "ss_relations target = map Inr trs" "ss_relations source = map Inr srs"
    "\<exists>w. verify_stream D ?th tes tos trs = Inr w" "\<exists>w. verify_stream D ?sh ses sos srs = Inr w"
    "plan_trace D ?th ?sh planned policy tes ses tos sos trs srs as2 as4 as6"
    "emits K (trace_actions tes tos trs as2 as4 as6) s1 s2"
    "length (trace_actions tes tos trs as2 as4 as6) < MAX_ACTIONS"
    "plan = plan_of D ?prelude acc (trace_actions tes tos trs as2 as4 as6)"
    "validate_accounting (mpl_action_counts plan) (mpl_accounting plan) ?th ?sh = Inr ()"
    unfolding s2 by blast
  have "planned_run D K target source rc policy s plan s' tes ses tos sos trs srs as2 as4 as6"
    unfolding planned_run_def
  proof (intro conjI)
    show "\<exists>planned acc s1 s2. prepare_dispositions rc policy = Inr (planned, acc) \<and>
        plan_trace D ?th ?sh planned policy tes ses tos sos trs srs as2 as4 as6 \<and>
        snk_begin K ?prelude s = (Inr (), s1) \<and>
        emits K (trace_actions tes tos trs as2 as4 as6) s1 s2 \<and> snk_finish K plan s2 = (Inr (), s') \<and>
        length (trace_actions tes tos trs as2 as4 as6) < MAX_ACTIONS \<and>
        plan = plan_of D ?prelude acc (trace_actions tes tos trs as2 as4 as6) \<and>
        validate_accounting (mpl_action_counts plan) (mpl_accounting plan) ?th ?sh = Inr ()"
      using prep t b fin by blast
  qed (use t head in \<open>auto simp: validate_headers_ok intro!: snapshot_source.equality\<close>)
  then show ?thesis by blast
qed

section \<open>Failures\<close>

text \<open>Whatever a phase does to the sink is a run of successful emissions, after which a failing
  phase may have made one failing emission.\<close>

definition sink_of :: "'s plan_locals \<Rightarrow> 's" where
  "sink_of l = ps_sink (lc_state l)"

definition only_emits :: "'s action_sink \<Rightarrow> 's \<Rightarrow> (merge_error + 'a) \<times> 's \<Rightarrow> bool" where
  "only_emits K s res \<longleftrightarrow> (\<exists>as s1. emits K as s s1 \<and>
     (snd res = s1 \<or> ((\<exists>e. fst res = Inl e) \<and> (\<exists>a e. snk_emit K a s1 = (Inl e, snd res)))))"

definition honest :: "'s action_sink \<Rightarrow> ('s plan_locals, merge_error, 'a) run \<Rightarrow> bool" where
  "honest K m \<longleftrightarrow> (\<forall>l. only_emits K (sink_of l) (fst (m l), sink_of (snd (m l))))"

lemma only_emits_same: "only_emits K s (r, s)"
  unfolding only_emits_def by (rule exI [of _ "[]"]) auto

lemma only_emits_trans: "only_emits K s (Inr x, s1) \<Longrightarrow> only_emits K s1 res \<Longrightarrow> only_emits K s res"
proof -
  assume "only_emits K s (Inr x, s1)"
  then obtain as where 1: "emits K as s s1" by (auto simp: only_emits_def)
  assume "only_emits K s1 res"
  then obtain bs s2 where "emits K bs s1 s2"
    "snd res = s2 \<or> ((\<exists>e. fst res = Inl e) \<and> (\<exists>a e. snk_emit K a s2 = (Inl e, snd res)))"
    by (auto simp: only_emits_def)
  with 1 have "emits K (as @ bs) s s2" by (auto simp: emits_append)
  then show ?thesis unfolding only_emits_def using \<open>snd res = s2 \<or> _\<close> by blast
qed

lemma emit_honest: "only_emits K (sink_of l) (fst (emit D K a l), sink_of (snd (emit D K a l)))"
proof -
  have "only_emits K s (r, s')" if "snk_emit K a s = (Inr (), s')" for s s' and r :: "merge_error + unit"
    unfolding only_emits_def using that by (intro exI [of _ "[a]"] exI [of _ s']) simp
  moreover have "only_emits K s (Inl e', s')" if "snk_emit K a s = (Inl e, s')" for s s' e e'
    unfolding only_emits_def using that by (intro exI [of _ "[]"] exI [of _ s]) auto
  ultimately show ?thesis
    by (auto simp: emit_def emit_state_def sink_of_def only_emits_same split: prod.splits sum.splits)
qed

lemma emit_honest_from: "sink_of l = s \<Longrightarrow> only_emits K s (fst (emit D K a l), sink_of (snd (emit D K a l)))"
  using emit_honest by blast

lemma fail_honest_from: "sink_of l = s \<Longrightarrow>
    only_emits K s (fst (fail_with c m l), sink_of (snd (fail_with c m l)))"
  by (simp add: fail_with_def only_emits_same)

lemma sink_of_simps [simp]: "sink_of (count_in f l) = sink_of l"
  "sink_of (l\<lparr>lc_target_verifier := tv\<rparr>) = sink_of l" "sink_of (l\<lparr>lc_source_verifier := tv\<rparr>) = sink_of l"
  "sink_of (l\<lparr>lc_target_entities := m\<rparr>) = sink_of l" "sink_of (l\<lparr>lc_result_entity_ids := i\<rparr>) = sink_of l"
  "sink_of (l\<lparr>lc_source_entity_results := rs\<rparr>) = sink_of l" "sink_of (l\<lparr>lc_qualified_entity_ids := q\<rparr>) = sink_of l"
  "sink_of (l\<lparr>lc_seen_dispositions := b\<rparr>) = sink_of l" "sink_of (l\<lparr>lc_seen_disposition_count := n\<rparr>) = sink_of l"
  "sink_of (l\<lparr>lc_observation_index := x\<rparr>) = sink_of l" "sink_of (l\<lparr>lc_result_observation_ids := i\<rparr>) = sink_of l"
  "sink_of (l\<lparr>lc_qualified_observation_ids := q\<rparr>) = sink_of l" "sink_of (l\<lparr>lc_relation_index := x\<rparr>) = sink_of l"
  "sink_of (l\<lparr>lc_result_relation_ids := i\<rparr>) = sink_of l" "sink_of (l\<lparr>lc_qualified_relation_ids := q\<rparr>) = sink_of l"
  by (simp_all add: sink_of_def count_in_def)

lemma honest_run_then: "honest K m \<Longrightarrow> honest K k \<Longrightarrow> honest K (run_then m k)"
  unfolding honest_def
proof
  fix l
  assume m: "\<forall>l. only_emits K (sink_of l) (fst (m l), sink_of (snd (m l)))"
    and k: "\<forall>l. only_emits K (sink_of l) (fst (k l), sink_of (snd (k l)))"
  obtain r l1 where ml: "m l = (r, l1)" by (cases "m l")
  with m have 1: "only_emits K (sink_of l) (r, sink_of l1)" by (metis fst_conv snd_conv)
  show "only_emits K (sink_of l) (fst (run_then m k l), sink_of (snd (run_then m k l)))"
  proof (cases r)
    case (Inl e)
    then show ?thesis using 1 by (auto simp: run_then_def ml only_emits_def)
  next
    case (Inr x)
    then show ?thesis using only_emits_trans [OF 1 [unfolded Inr] k [rule_format, of l1]]
      by (simp add: run_then_def ml)
  qed
qed

lemma honest_visit: "(\<And>r. honest K (f r)) \<Longrightarrow> honest K (visit f rs)"
proof -
  assume f: "\<And>r. honest K (f r)"
  have "only_emits K (sink_of l) (fst (visit f rs l), sink_of (snd (visit f rs l)))" for l
  proof (induction rs arbitrary: l)
    case Nil
    then show ?case by (simp add: only_emits_same)
  next
    case (Cons x xs)
    show ?case
    proof (cases x)
      case (Inl e)
      then show ?thesis by (simp add: only_emits_same)
    next
      case (Inr r)
      obtain y l1 where fl: "f r l = (y, l1)" by (cases "f r l")
      from f [of r] have "only_emits K (sink_of l) (fst (f r l), sink_of (snd (f r l)))"
        unfolding honest_def by blast
      then have 1: "only_emits K (sink_of l) (y, sink_of l1)" by (simp add: fl)
      show ?thesis
      proof (cases y)
        case (Inl e)
        then show ?thesis using 1 Inr fl by simp
      next
        case (Inr u)
        then show ?thesis using only_emits_trans [OF 1 [unfolded Inr] Cons.IH [of l1]] \<open>x = Inr r\<close> fl by simp
      qed
    qed
  qed
  then show ?thesis unfolding honest_def by blast
qed

lemma honest_verify: "honest K (verify_target f)" "honest K (verify_source f)"
  by (auto simp: honest_def verify_target_def verify_source_def only_emits_same split: sum.splits)

lemma honest_all_seen: "honest K (all_seen planned)"
  by (simp add: honest_def all_seen_def fail_with_def only_emits_same)

lemma honest_plan_finish: "honest K (plan_finish D th sh prelude)"
  by (auto simp: honest_def plan_finish_def Let_def only_emits_same split: sum.splits)

lemmas honest_body = emit_honest_from fail_honest_from

lemma honest_target_entity: "honest K (target_entity_body D K r)"
  unfolding honest_def target_entity_body_def Let_def
  by (auto intro!: honest_body split: if_splits)

lemma sink_of_public_disposition:
  "public_disposition D th r p l = Inr (d, res, l') \<Longrightarrow> sink_of l' = sink_of l"
  by (auto simp: public_disposition_def Let_def split: planned_disposition.splits option.splits if_splits)

lemma honest_source_entity: "honest K (source_entity_body D K th sh planned r)"
  unfolding honest_def source_entity_body_def Let_def
  by (auto intro!: honest_body simp: only_emits_same dest!: sink_of_public_disposition
      split: option.splits if_splits sum.splits)

lemma honest_target_observation: "honest K (target_observation_body D K r)"
  unfolding honest_def target_observation_body_def Let_def
  by (auto intro!: honest_body split: if_splits)

lemma honest_source_observation: "honest K (source_observation_body D K r)"
  unfolding honest_def source_observation_body_def Let_def
  by (auto intro!: honest_body split: option.splits if_splits)

lemma honest_target_relation: "honest K (target_relation_body D K r)"
  unfolding honest_def target_relation_body_def Let_def
  by (auto intro!: honest_body split: if_splits)

lemma honest_source_relation: "honest K (source_relation_body D K policy r)"
  unfolding honest_def source_relation_body_def Let_def
  by (auto intro!: honest_body split: option.splits if_splits)

lemma honest_plan_phases: "honest K (plan_phases D K target source th sh planned policy prelude)"
  unfolding plan_phases_def target_entity_visitor_def source_entity_visitor_def
    target_observation_visitor_def source_observation_visitor_def
    target_relation_visitor_def source_relation_visitor_def
  by (intro honest_run_then honest_visit honest_verify honest_all_seen honest_plan_finish
      honest_target_entity honest_source_entity honest_target_observation honest_source_observation
      honest_target_relation honest_source_relation)

lemma plan_after_begin_emits:
  "only_emits K s (plan_after_begin D K target source th sh rc policy prelude s)"
proof -
  have "only_emits K s (fst (plan_phases D K target source th sh planned policy prelude l),
      sink_of (snd (plan_phases D K target source th sh planned policy prelude l)))"
    if "sink_of l = s" for l planned
    using honest_plan_phases that unfolding honest_def by blast
  moreover have "sink_of (initial_locals s acc tv sv n) = s" for acc tv sv n
    by (simp add: sink_of_def initial_locals_def)
  ultimately have *: "only_emits K s (r, ps_sink (lc_state l'))"
    if "plan_phases D K target source th sh planned policy prelude (initial_locals s acc tv sv n) = (r, l')"
    for r l' acc tv sv n planned
    using that by (metis fst_conv snd_conv sink_of_def)
  show ?thesis
    unfolding plan_after_begin_def
    by (auto simp: only_emits_same intro: * split: sum.splits prod.splits)
qed

text \<open>What a failed run leaves: the sink untouched, or as its failing \<open>begin\<close> left it, or aborted after
  a run of emissions that a failing emission or a failing \<open>finish\<close> may have ended.\<close>

lemma plan_merge_error:
  assumes "plan_merge D K target source rc policy s = (Inl e, s')"
  shows "s' = s \<or> snk_begin K (prelude_of (ss_header target) (ss_header source) policy) s = (Inl e, s') \<or>
    (\<exists>s1 as s2 s3. snk_begin K (prelude_of (ss_header target) (ss_header source) policy) s = (Inr (), s1) \<and>
       emits K as s1 s2 \<and>
       (s3 = s2 \<or> (\<exists>a e. snk_emit K a s2 = (Inl e, s3)) \<or> (\<exists>p e. snk_finish K p s2 = (Inl e, s3))) \<and>
       s' = snk_abort K s3)"
proof -
  let ?p = "prelude_of (ss_header target) (ss_header source) policy"
  let ?run = "plan_after_begin D K target source (ss_header target) (ss_header source) rc policy ?p"
  consider "s' = s" | "snk_begin K ?p s = (Inl e, s')"
    | s1 s3 where "snk_begin K ?p s = (Inr (), s1)" "?run s1 = (Inl e, s3)" "s' = snk_abort K s3"
    | s1 plan s2 s3 where "snk_begin K ?p s = (Inr (), s1)" "?run s1 = (Inr plan, s2)"
        "snk_finish K plan s2 = (Inl e, s3)" "s' = snk_abort K s3"
    using assms by (auto simp: plan_merge_def Let_def split: sum.splits prod.splits)
  then show ?thesis
  proof cases
    case (3 s1 s3)
    from plan_after_begin_emits [of K s1 D target source] 3(2)
    have "only_emits K s1 (Inl e :: merge_error + merge_plan, s3)" by metis
    then obtain as s2 where "emits K as s1 s2" "s3 = s2 \<or> (\<exists>a e. snk_emit K a s2 = (Inl e, s3))"
      by (auto simp: only_emits_def)
    then show ?thesis using 3(1,3) by blast
  next
    case (4 s1 plan s2 s3)
    from plan_after_begin_emits [of K s1 D target source] 4(2)
    have "only_emits K s1 (Inr plan :: merge_error + merge_plan, s2)" by metis
    then obtain as where "emits K as s1 s2" by (auto simp: only_emits_def)
    then show ?thesis using 4(1,3,4) by blast
  qed blast+
qed

text \<open>Every sink that keeps an action log discards it.\<close>

context action_log
begin

lemma failure_discards:
  assumes "plan_merge D K target source rc policy s = (Inl e, s')"
  shows "s' = s \<or> (published s' = None \<and> log s' = [])"
proof -
  have *: "published (snk_abort K s3) = None \<and> log (snk_abort K s3) = []"
    if "snk_begin K p s = (Inr (), s1)" "emits K as s1 s2"
      "s3 = s2 \<or> (\<exists>a e. snk_emit K a s2 = (Inl e, s3)) \<or> (\<exists>q e. snk_finish K q s2 = (Inl e, s3))"
    for p s1 as s2 s3
  proof -
    have "open_log s2" using emits_log [OF _ that(2)] begin_open [OF that(1)] by blast
    then have "s3 = s2" using that(3) emit_keeps [of s2 _ _ s3] finish_keeps [of s2 _ _ s3] by auto
    then show ?thesis using abort_discards [OF \<open>open_log s2\<close>] by simp
  qed
  from plan_merge_error [OF assms] show ?thesis
  proof (elim disjE exE conjE, goal_cases)
    case 1
    then show ?case by simp
  next
    case 2
    then show ?case using begin_keeps by blast
  next
    case (3 s1 as s2 s3)
    then show ?case using * [OF 3(1,2), of s3] by simp
  next
    case (4 s1 as s2 s3 a f)
    then show ?case using * [OF 4(1,2) disjI2 [OF disjI1], of s3] by (metis)
  next
    case (5 s1 as s2 s3 q f)
    then show ?case using * [OF 5(1,2), of s3] by (metis)
  qed
qed

end

end
