(* ===== verification/Om_PlanProps.thy ===== *)
theory Om_PlanProps
  imports Om_PlanRun
begin

text \<open>
  Readings of a plan's actions and what every trace of a run satisfies: the inputs it covers, the
  identifiers it creates, the references it makes, the assertions it deduplicates and the targets
  it coalesces into. The lemmas are about \<open>plan_trace\<close>; \<open>Om_PlanTheorems\<close> states them for the
  published actions of \<open>plan_merge\<close>.
\<close>

section \<open>Reading a plan's actions\<close>

datatype merge_input =
    TargetEntity entity_record | SourceEntity entity_record
  | TargetObservation observation_record | SourceObservation observation_record
  | TargetRelation relation_record | SourceRelation relation_record

fun action_input :: "merge_action \<Rightarrow> merge_input" where
  "action_input (KeepTargetEntity r) = TargetEntity r"
| "action_input (ApplyEntityDisposition r _) = SourceEntity r"
| "action_input (KeepTargetObservation r _) = TargetObservation r"
| "action_input (AddObservation r _ _) = SourceObservation r"
| "action_input (MergeObservationOrigin r _ _) = SourceObservation r"
| "action_input (KeepTargetRelation r _ _) = TargetRelation r"
| "action_input (AddRelation r _ _ _) = SourceRelation r"
| "action_input (MergeRelationOrigin r _ _ _) = SourceRelation r"

text \<open>The objects of the result that an action creates, and those it refers to.\<close>

fun result_entity :: "merge_action \<Rightarrow> result_object_id list" where
  "result_entity (KeepTargetEntity r) = [ResTarget (elog r)]"
| "result_entity (ApplyEntityDisposition _ (AddDistinct _ q _ _)) = [ResQualified q]"
| "result_entity _ = []"

fun result_observation :: "merge_action \<Rightarrow> result_object_id list" where
  "result_observation (KeepTargetObservation r _) = [ResTarget (oa_logical (ob_address r))]"
| "result_observation (AddObservation _ q _) = [ResQualified q]"
| "result_observation _ = []"

fun result_relation :: "merge_action \<Rightarrow> result_object_id list" where
  "result_relation (KeepTargetRelation r _ _) = [ResTarget (oa_logical (re_address r))]"
| "result_relation (AddRelation _ q _ _) = [ResQualified q]"
| "result_relation _ = []"

fun entity_references :: "merge_action \<Rightarrow> result_object_id list" where
  "entity_references (ApplyEntityDisposition _ (Coalesce _ t _)) = [ResTarget (oa_logical t)]"
| "entity_references (KeepTargetObservation _ e) = [e]"
| "entity_references (AddObservation _ _ e) = [e]"
| "entity_references (MergeObservationOrigin _ _ e) = [e]"
| "entity_references (KeepTargetRelation _ s b) = [s, b]"
| "entity_references (AddRelation _ _ s b) = [s, b]"
| "entity_references (MergeRelationOrigin _ _ s b) = [s, b]"
| "entity_references _ = []"

fun merged_observation :: "merge_action \<Rightarrow> result_object_id list" where
  "merged_observation (MergeObservationOrigin _ t _) = [t]"
| "merged_observation _ = []"

fun merged_relation :: "merge_action \<Rightarrow> result_object_id list" where
  "merged_relation (MergeRelationOrigin _ t _ _) = [t]"
| "merged_relation _ = []"

lemma in_gather: "x \<in> set (gather f as) \<longleftrightarrow> (\<exists>a\<in>set as. x \<in> set (f a))"
  by (auto simp: gather_def)

lemma gather_subset: "(\<And>a. a \<in> set as \<Longrightarrow> set (f a) \<subseteq> X) \<Longrightarrow> set (gather f as) \<subseteq> X"
  by (simp add: gather_def UN_subset_iff)

lemma gather_map: "gather f (map g xs) = concat (map (\<lambda>x. f (g x)) xs)"
  by (simp add: gather_def comp_def)

lemma concat_nils [simp]: "concat (map (\<lambda>x. []) xs) = []"
  by (induction xs) auto

section \<open>The kinds of actions in a phase\<close>

lemma entity_actions: "stepwise (entity_step D th sh planned tes) pre rs as \<Longrightarrow>
    list_all2 (\<lambda>r a. \<exists>d. a = ApplyEntityDisposition r d) rs as"
  by (erule stepwise_all2) (auto simp: entity_step_def)

lemma observation_actions: "stepwise (observation_step D results tos) pre rs as \<Longrightarrow>
    list_all2 (\<lambda>r a. \<exists>x e. a = AddObservation r x e \<or> (\<exists>t. a = MergeObservationOrigin r t e)) rs as"
  by (erule stepwise_all2) (auto simp: observation_step_def Let_def split: option.splits)

lemma relation_actions: "stepwise (relation_step D policy results trs) pre rs as \<Longrightarrow>
    list_all2 (\<lambda>r a. \<exists>x s b. a = AddRelation r x s b \<or> (\<exists>t. a = MergeRelationOrigin r t s b)) rs as"
  by (erule stepwise_all2) (auto simp: relation_step_def Let_def split: option.splits)

lemma list_all2_map_eq: "list_all2 R rs as \<Longrightarrow> (\<And>r a. R r a \<Longrightarrow> f a = g r) \<Longrightarrow> map f as = map g rs"
  by (induction rule: list_all2_induct) auto

lemma list_all2_gather_nil: "list_all2 R rs as \<Longrightarrow> (\<And>r a. R r a \<Longrightarrow> f a = []) \<Longrightarrow> gather f as = []"
  by (induction rule: list_all2_induct) auto

lemma list_all2_all: "list_all2 R rs as \<Longrightarrow> (\<And>r a. R r a \<Longrightarrow> Q a) \<Longrightarrow> \<forall>a\<in>set as. Q a"
  by (induction rule: list_all2_induct) auto

lemma list_all2_in: "list_all2 R rs as \<Longrightarrow> a \<in> set as \<Longrightarrow> \<exists>r\<in>set rs. R r a"
  by (induction rule: list_all2_induct) auto

text \<open>The phases of a trace that contribute to each reading.\<close>

lemma trace_gather:
  assumes "plan_trace D th sh planned policy tes ses tos sos trs srs as2 as4 as6"
  defines "as \<equiv> trace_actions tes tos trs as2 as4 as6"
  shows "gather result_entity as = map (\<lambda>r. ResTarget (elog r)) tes @ map ResQualified (gather added_entity as2)"
    "gather result_observation as = map (\<lambda>r. ResTarget (oa_logical (ob_address r))) tos @
       map ResQualified (gather added_observation as4)"
    "gather result_relation as = map (\<lambda>r. ResTarget (oa_logical (re_address r))) trs @
       map ResQualified (gather added_relation as6)"
    "gather coalesced_target as = gather coalesced_target as2"
    "map action_input as = map TargetEntity tes @ map SourceEntity ses @ map TargetObservation tos @
       map SourceObservation sos @ map TargetRelation trs @ map SourceRelation srs"
proof -
  have 2: "list_all2 (\<lambda>r a. \<exists>d. a = ApplyEntityDisposition r d) ses as2"
    and 4: "list_all2 (\<lambda>r a. \<exists>x e. a = AddObservation r x e \<or> (\<exists>t. a = MergeObservationOrigin r t e)) sos as4"
    and 6: "list_all2 (\<lambda>r a. \<exists>x s b. a = AddRelation r x s b \<or> (\<exists>t. a = MergeRelationOrigin r t s b)) srs as6"
    using assms(1) unfolding plan_trace_def
    by (blast intro: entity_actions observation_actions relation_actions)+
  have nil: "gather result_observation as2 = []" "gather result_relation as2 = []"
    "gather result_entity as4 = []" "gather result_relation as4 = []" "gather coalesced_target as4 = []"
    "gather result_entity as6 = []" "gather result_observation as6 = []" "gather coalesced_target as6 = []"
    by (rule list_all2_gather_nil [OF 2] list_all2_gather_nil [OF 4] list_all2_gather_nil [OF 6]; auto)+
  have e: "gather result_entity xs = map ResQualified (gather added_entity xs)"
    if "\<forall>a\<in>set xs. \<exists>r d. a = ApplyEntityDisposition r d" for xs
    using that
  proof (induction xs)
    case (Cons a xs)
    then obtain r d where "a = ApplyEntityDisposition r d" by auto
    then show ?case using Cons by (cases d) auto
  qed simp
  have o: "gather result_observation xs = map ResQualified (gather added_observation xs)"
    if "\<forall>a\<in>set xs. \<exists>r x e. a = AddObservation r x e \<or> (\<exists>t. a = MergeObservationOrigin r t e)" for xs
    using that by (induction xs) auto
  have r: "gather result_relation xs = map ResQualified (gather added_relation xs)"
    if "\<forall>a\<in>set xs. \<exists>r x s b. a = AddRelation r x s b \<or> (\<exists>t. a = MergeRelationOrigin r t s b)" for xs
    using that by (induction xs) auto
  have sets: "\<forall>a\<in>set as2. \<exists>r d. a = ApplyEntityDisposition r d"
    "\<forall>a\<in>set as4. \<exists>r x e. a = AddObservation r x e \<or> (\<exists>t. a = MergeObservationOrigin r t e)"
    "\<forall>a\<in>set as6. \<exists>r x s b. a = AddRelation r x s b \<or> (\<exists>t. a = MergeRelationOrigin r t s b)"
    by (rule list_all2_all [OF 2] list_all2_all [OF 4] list_all2_all [OF 6]; blast)+
  have keeps: "concat (map (\<lambda>x. [f x]) xs) = map f xs" for f :: "'p \<Rightarrow> 'q" and xs
    by (induction xs) auto
  note defs = as_def trace_actions_def gather_map nil keep_observation_def keep_relation_def keeps
  show "gather result_entity as = map (\<lambda>r. ResTarget (elog r)) tes @ map ResQualified (gather added_entity as2)"
    using e [OF sets(1)] by (simp add: defs)
  show "gather result_observation as = map (\<lambda>r. ResTarget (oa_logical (ob_address r))) tos @
       map ResQualified (gather added_observation as4)"
    using o [OF sets(2)] by (simp add: defs)
  show "gather result_relation as = map (\<lambda>r. ResTarget (oa_logical (re_address r))) trs @
       map ResQualified (gather added_relation as6)"
    using r [OF sets(3)] by (simp add: defs)
  show "gather coalesced_target as = gather coalesced_target as2" by (simp add: defs)
  have "map action_input as2 = map SourceEntity ses" by (rule list_all2_map_eq [OF 2]) auto
  moreover have "map action_input as4 = map SourceObservation sos" by (rule list_all2_map_eq [OF 4]) auto
  moreover have "map action_input as6 = map SourceRelation srs" by (rule list_all2_map_eq [OF 6]) auto
  ultimately show "map action_input as = map TargetEntity tes @ map SourceEntity ses @ map TargetObservation tos @
       map SourceObservation sos @ map TargetRelation trs @ map SourceRelation srs"
    by (simp add: as_def trace_actions_def keep_observation_def keep_relation_def)
qed

text \<open>The two outcomes of an assertion step.\<close>

lemma observation_stepE:
  assumes "observation_step D results tos pre r a"
  obtains (merged) e t where "results (oa_logical (ob_entity r)) = Some e"
      "map_of (gather (observation_entry D) pre) (observation_key D e (ob_lifecycle r) (ob_content r)) = Some t"
      "a = MergeObservationOrigin r t e"
    | (added) e q where "results (oa_logical (ob_entity r)) = Some e"
      "map_of (gather (observation_entry D) pre) (observation_key D e (ob_lifecycle r) (ob_content r)) = None"
      "a = AddObservation r q e" "q = qualified_derive D (oa_space (ob_address r)) (oa_logical (ob_address r))"
      "q \<notin> (\<lambda>r. oa_logical (ob_address r)) ` set tos"
      "qualified_collision_key D q \<notin> qualified_collision_key D ` set (gather added_observation pre)"
proof -
  obtain e where e: "results (oa_logical (ob_entity r)) = Some e"
    "case map_of (gather (observation_entry D) pre) (observation_key D e (ob_lifecycle r) (ob_content r)) of
      Some t \<Rightarrow> a = MergeObservationOrigin r t e
    | None \<Rightarrow> (let q = qualified_derive D (oa_space (ob_address r)) (oa_logical (ob_address r)) in
        a = AddObservation r q e \<and> q \<notin> (\<lambda>r. oa_logical (ob_address r)) ` set tos \<and>
        qualified_collision_key D q \<notin> qualified_collision_key D ` set (gather added_observation pre))"
    using assms unfolding observation_step_def by blast
  show thesis
  proof (cases "map_of (gather (observation_entry D) pre) (observation_key D e (ob_lifecycle r) (ob_content r))")
    case None
    from e(2) [unfolded None option.case Let_def] show thesis using added [OF e(1) None _ refl] by blast
  next
    case (Some t)
    from e(2) [unfolded Some option.case] show thesis using merged [OF e(1) Some] by blast
  qed
qed

lemma relation_stepE:
  assumes "relation_step D policy results trs pre r a"
  obtains (merged) u v t where "results (oa_logical (re_subject r)) = Some u" "results (oa_logical (re_object r)) = Some v"
      "u = v \<longrightarrow> allows_self_loop policy (re_predicate r)"
      "map_of (gather (relation_entry D) pre) (relation_key D u (re_predicate r) v (re_lifecycle r)) = Some t"
      "a = MergeRelationOrigin r t u v"
    | (added) u v q where "results (oa_logical (re_subject r)) = Some u" "results (oa_logical (re_object r)) = Some v"
      "u = v \<longrightarrow> allows_self_loop policy (re_predicate r)"
      "map_of (gather (relation_entry D) pre) (relation_key D u (re_predicate r) v (re_lifecycle r)) = None"
      "a = AddRelation r q u v" "q = qualified_derive D (oa_space (re_address r)) (oa_logical (re_address r))"
      "q \<notin> (\<lambda>r. oa_logical (re_address r)) ` set trs"
      "qualified_collision_key D q \<notin> qualified_collision_key D ` set (gather added_relation pre)"
proof -
  obtain u v where e: "results (oa_logical (re_subject r)) = Some u" "results (oa_logical (re_object r)) = Some v"
    "u = v \<longrightarrow> allows_self_loop policy (re_predicate r)"
    "case map_of (gather (relation_entry D) pre) (relation_key D u (re_predicate r) v (re_lifecycle r)) of
      Some t \<Rightarrow> a = MergeRelationOrigin r t u v
    | None \<Rightarrow> (let q = qualified_derive D (oa_space (re_address r)) (oa_logical (re_address r)) in
        a = AddRelation r q u v \<and> q \<notin> (\<lambda>r. oa_logical (re_address r)) ` set trs \<and>
        qualified_collision_key D q \<notin> qualified_collision_key D ` set (gather added_relation pre))"
    using assms unfolding relation_step_def by blast
  show thesis
  proof (cases "map_of (gather (relation_entry D) pre) (relation_key D u (re_predicate r) v (re_lifecycle r))")
    case None
    from e(4) [unfolded None option.case Let_def] show thesis using added [OF e(1-3) None _ refl] by blast
  next
    case (Some t)
    from e(4) [unfolded Some option.case] show thesis using merged [OF e(1-3) Some] by blast
  qed
qed

section \<open>Fresh identifiers\<close>

text \<open>A step that adds an identifier checks it against the target's identifiers and against the
  collision keys added before it, so the identifiers added are new and pairwise different.\<close>

definition fresh_step :: "deps \<Rightarrow> (merge_action \<Rightarrow> str list) \<Rightarrow> str set \<Rightarrow> merge_action list \<Rightarrow> merge_action \<Rightarrow> bool" where
  "fresh_step D g B pre a \<longleftrightarrow> g a = [] \<or> (\<exists>x. g a = [x] \<and> x \<notin> B \<and>
     qualified_collision_key D x \<notin> qualified_collision_key D ` set (gather g pre))"

lemma stepwise_fresh:
  assumes "stepwise P pre rs as"
    and "\<And>qre r a. P qre r a \<Longrightarrow> fresh_step D g B qre a"
  shows "distinct (gather g as) \<and> set (gather g as) \<inter> (B \<union> set (gather g pre)) = {}"
  using assms(1)
proof (induction rs arbitrary: pre as)
  case (Cons r rs)
  then obtain a as' where as: "as = a # as'" "P pre r a" "stepwise P (pre @ [a]) rs as'" by auto
  from Cons.IH [OF as(3)] have IH: "distinct (gather g as')"
      "set (gather g as') \<inter> (B \<union> set (gather g pre) \<union> set (g a)) = {}" by auto
  from assms(2) [OF as(2)] show ?case unfolding fresh_step_def
  proof (elim disjE exE conjE)
    fix x assume "g a = [x]" "x \<notin> B" "qualified_collision_key D x \<notin> qualified_collision_key D ` set (gather g pre)"
    moreover from this have "x \<notin> set (gather g pre)" by blast
    ultimately show ?thesis using IH as(1) by auto
  qed (use IH as(1) in auto)
qed simp

lemma strict_sorted_distinct_logical:
  assumes "sorted_wrt (<) (map addr xs)" "\<forall>x\<in>set xs. oa_space (addr x) = sp"
  shows "distinct (map (\<lambda>x. oa_logical (addr x)) xs)"
proof -
  have "distinct (map addr xs)" using assms(1) by (simp add: strict_sorted_iff)
  moreover have "inj_on oa_logical (set (map addr xs))"
    using assms(2) by (auto simp: inj_on_def intro: object_address.expand)
  ultimately have "distinct (map oa_logical (map addr xs))" by (simp only: distinct_map)
  then show ?thesis unfolding map_map comp_def .
qed

lemma entity_step_fresh: "entity_step D th sh planned tes pre r a \<Longrightarrow>
    fresh_step D added_entity (elog ` set tes) pre a"
proof -
  assume "entity_step D th sh planned tes pre r a"
  then obtain p d where a: "a = ApplyEntityDisposition r d" and d: "disposed D th tes pre r p d"
    unfolding entity_step_def by blast
  then show ?thesis by (cases p) (auto simp: disposed_def Let_def fresh_step_def)
qed

lemma observation_step_fresh: "observation_step D results tos pre r a \<Longrightarrow>
    fresh_step D added_observation ((\<lambda>r. oa_logical (ob_address r)) ` set tos) pre a"
  by (erule observation_stepE) (auto simp: fresh_step_def)

lemma relation_step_fresh: "relation_step D policy results trs pre r a \<Longrightarrow>
    fresh_step D added_relation ((\<lambda>r. oa_logical (re_address r)) ` set trs) pre a"
  by (erule relation_stepE) (auto simp: fresh_step_def)

lemma trace_fresh:
  assumes t: "plan_trace D th sh planned policy tes ses tos sos trs srs as2 as4 as6"
    and v: "stream_valid th tes tos trs"
  defines "as \<equiv> trace_actions tes tos trs as2 as4 as6"
  shows "distinct (map result_as_str (gather result_entity as))"
    "distinct (map result_as_str (gather result_observation as))"
    "distinct (map result_as_str (gather result_relation as))"
proof -
  have e: "distinct (gather added_entity as2) \<and>
      set (gather added_entity as2) \<inter> (elog ` set tes \<union> set (gather added_entity [])) = {}"
  proof (rule stepwise_fresh)
    show "stepwise (entity_step D th sh planned tes) [] ses as2" using t by (simp add: plan_trace_def)
  qed (rule entity_step_fresh)
  have o: "distinct (gather added_observation as4) \<and> set (gather added_observation as4) \<inter>
      ((\<lambda>r. oa_logical (ob_address r)) ` set tos \<union> set (gather added_observation (map keep_observation tos))) = {}"
  proof (rule stepwise_fresh)
    show "stepwise (observation_step D (map_of (rev (gather entity_result as2))) tos)
      (map keep_observation tos) sos as4" using t by (simp add: plan_trace_def)
  qed (rule observation_step_fresh)
  have r: "distinct (gather added_relation as6) \<and> set (gather added_relation as6) \<inter>
      ((\<lambda>r. oa_logical (re_address r)) ` set trs \<union> set (gather added_relation (map keep_relation trs))) = {}"
  proof (rule stepwise_fresh)
    show "stepwise (relation_step D policy (map_of (rev (gather entity_result as2))) trs)
      (map keep_relation trs) srs as6" using t by (simp add: plan_trace_def)
  qed (rule relation_step_fresh)
  have keeps: "distinct (map elog tes)" "distinct (map (\<lambda>r. oa_logical (ob_address r)) tos)"
    "distinct (map (\<lambda>r. oa_logical (re_address r)) trs)"
    using v unfolding stream_valid_def elog_def
    by (blast intro: strict_sorted_distinct_logical)+
  have strs: "map result_as_str (map (\<lambda>r. ResTarget (f r)) xs @ map ResQualified ys) = map f xs @ ys"
    for f :: "'r \<Rightarrow> str" and xs ys by (simp add: comp_def)
  show "distinct (map result_as_str (gather result_entity as))"
    unfolding as_def trace_gather(1) [OF t] strs using e keeps(1) by auto
  show "distinct (map result_as_str (gather result_observation as))"
    unfolding as_def trace_gather(2) [OF t] strs using o keeps(2) by auto
  show "distinct (map result_as_str (gather result_relation as))"
    unfolding as_def trace_gather(3) [OF t] strs using r keeps(3) by auto
qed

section \<open>References\<close>

lemma stepwise_in:
  assumes "stepwise P pre rs as" "a \<in> set as"
  shows "\<exists>bs cs r. as = bs @ a # cs \<and> r \<in> set rs \<and> P (pre @ bs) r a"
  using assms
proof (induction rs arbitrary: pre as)
  case (Cons r rs)
  then obtain b as' where as: "as = b # as'" "P pre r b" "stepwise P (pre @ [b]) rs as'" by auto
  show ?case
  proof (cases "a = b")
    case True
    then show ?thesis using as by (intro exI [of _ "[]"] exI [of _ as'] exI [of _ r]) simp
  next
    case False
    then have "a \<in> set as'" using Cons.prems(2) as(1) by simp
    from Cons.IH [OF as(3) this] obtain bs cs r' where
      "as' = bs @ a # cs" "r' \<in> set rs" "P ((pre @ [b]) @ bs) r' a" by blast
    then show ?thesis using as(1) by (intro exI [of _ "b # bs"] exI [of _ cs] exI [of _ r']) simp
  qed
qed simp

lemma entry_results:
  "(k, t) \<in> set (observation_entry D a) \<Longrightarrow> t \<in> set (result_observation a)"
  "(k, t) \<in> set (relation_entry D a) \<Longrightarrow> t \<in> set (result_relation a)"
  by (cases a; simp)+

lemma gather_entry_results:
  "(k, t) \<in> set (gather (observation_entry D) as) \<Longrightarrow> t \<in> set (gather result_observation as)"
  "(k, t) \<in> set (gather (relation_entry D) as) \<Longrightarrow> t \<in> set (gather result_relation as)"
  unfolding in_gather using entry_results by blast+

text \<open>Every source entity's result is an entity of the result.\<close>

lemma source_results:
  assumes t: "plan_trace D th sh planned policy tes ses tos sos trs srs as2 as4 as6"
  defines "as \<equiv> trace_actions tes tos trs as2 as4 as6"
  shows "map_of (rev (gather entity_result as2)) k = Some e \<Longrightarrow> e \<in> set (gather result_entity as)"
    "set (gather entity_references as2) \<subseteq> set (gather result_entity as)"
proof -
  have step: "set (map snd (entity_result a)) \<union> set (entity_references a) \<subseteq> set (gather result_entity as)"
    if "a \<in> set as2" for a
  proof -
    have "stepwise (entity_step D th sh planned tes) [] ses as2" using t by (simp add: plan_trace_def)
    from stepwise_in [OF this that] obtain bs r where "entity_step D th sh planned tes bs r a" by auto
    then obtain p d where a: "a = ApplyEntityDisposition r d" and d: "disposed D th tes bs r p d"
      unfolding entity_step_def by blast
    have self: "set (result_entity a) \<subseteq> set (gather result_entity as)"
      using that by (auto simp: in_gather as_def trace_actions_def)
    show ?thesis
    proof (cases p)
      case (PlanCoalesce t receipt)
      then have "map_of (revisions tes) (oa_logical (rv_address t)) = Some (rv_revision t)"
        and dd: "d = Coalesce (er_address r) (rv_address t) receipt"
        using d by (simp_all add: disposed_def)
      from map_of_SomeD [OF this(1)] have "ResTarget (oa_logical (rv_address t)) \<in> (\<lambda>r. ResTarget (elog r)) ` set tes"
        by (auto simp: revisions_def)
      then show ?thesis unfolding as_def trace_gather(1) [OF t] by (simp add: a dd)
    next
      case (PlanAdd reason receipt)
      then show ?thesis using d self by (auto simp: disposed_def Let_def a)
    qed
  qed
  show "set (gather entity_references as2) \<subseteq> set (gather result_entity as)"
    using step unfolding in_gather subset_iff by blast
  show "e \<in> set (gather result_entity as)" if "map_of (rev (gather entity_result as2)) k = Some e"
  proof -
    from map_of_SomeD [OF that] obtain a where "a \<in> set as2" "(k, e) \<in> set (entity_result a)"
      by (auto simp: in_gather)
    then show ?thesis using step by force
  qed
qed

text \<open>No reference of the plan dangles.\<close>

lemma kept_entity_result: "oa_logical x \<in> elog ` set tes \<Longrightarrow>
    ResTarget (oa_logical x) \<in> set (map (\<lambda>r. ResTarget (elog r)) tes @ ys)"
  by auto

lemma trace_references:
  assumes t: "plan_trace D th sh planned policy tes ses tos sos trs srs as2 as4 as6"
  defines "as \<equiv> trace_actions tes tos trs as2 as4 as6"
  shows "set (gather entity_references as) \<subseteq> set (gather result_entity as)"
proof -
  have src: "map_of (rev (gather entity_result as2)) k = Some e \<Longrightarrow> e \<in> set (gather result_entity as)" for k e
    using source_results(1) [OF t] by (simp add: as_def)
  have kept: "oa_logical x \<in> elog ` set tes \<Longrightarrow> ResTarget (oa_logical x) \<in> set (gather result_entity as)" for x
    unfolding as_def trace_gather(1) [OF t] by (rule kept_entity_result)
  have "set (entity_references a) \<subseteq> set (gather result_entity as)" if mem: "a \<in> set as" for a
  proof -
    consider "a \<in> KeepTargetEntity ` set tes" | "a \<in> set as2" | "a \<in> keep_observation ` set tos"
      | "a \<in> set as4" | "a \<in> keep_relation ` set trs" | "a \<in> set as6"
      using mem unfolding as_def trace_actions_def set_append set_map Un_iff by blast
    then show ?thesis
    proof cases
      case 1
      then show ?thesis by auto
    next
      case 2
      then have "set (entity_references a) \<subseteq> set (gather entity_references as2)" by (auto simp: in_gather)
      then show ?thesis using source_results(2) [OF t] unfolding as_def by (rule order_trans)
    next
      case 3
      have "\<forall>r\<in>set tos. oa_logical (ob_entity r) \<in> elog ` set tes" using t unfolding plan_trace_def by blast
      with 3 show ?thesis by (auto simp: keep_observation_def intro!: kept)
    next
      case 4
      have "stepwise (observation_step D (map_of (rev (gather entity_result as2))) tos)
        (map keep_observation tos) sos as4" using t unfolding plan_trace_def by blast
      from stepwise_in [OF this 4] obtain bs r where
        "observation_step D (map_of (rev (gather entity_result as2))) tos (map keep_observation tos @ bs) r a" by blast
      then show ?thesis by (cases rule: observation_stepE) (auto dest: src)
    next
      case 5
      have "\<forall>r\<in>set trs. oa_logical (re_subject r) \<in> elog ` set tes \<and> oa_logical (re_object r) \<in> elog ` set tes"
        using t unfolding plan_trace_def by blast
      with 5 show ?thesis by (auto simp: keep_relation_def intro!: kept)
    next
      case 6
      have "stepwise (relation_step D policy (map_of (rev (gather entity_result as2))) trs)
        (map keep_relation trs) srs as6" using t unfolding plan_trace_def by blast
      from stepwise_in [OF this 6] obtain bs r where
        "relation_step D policy (map_of (rev (gather entity_result as2))) trs (map keep_relation trs @ bs) r a" by blast
      then show ?thesis by (cases rule: relation_stepE) (auto dest: src)
    qed
  qed
  then show ?thesis by (rule gather_subset)
qed

section \<open>Deduplication\<close>

text \<open>What the index of the assertions before an action demands of it: a merged assertion names an
  earlier one with its key, an added one has a key that no earlier assertion has.\<close>

fun deduplicated :: "deps \<Rightarrow> merge_action list \<Rightarrow> merge_action \<Rightarrow> bool" where
  "deduplicated D pre (MergeObservationOrigin r t e) \<longleftrightarrow>
     (observation_key D e (ob_lifecycle r) (ob_content r), t) \<in> set (gather (observation_entry D) pre)"
| "deduplicated D pre (AddObservation r q e) \<longleftrightarrow>
     observation_key D e (ob_lifecycle r) (ob_content r) \<notin> fst ` set (gather (observation_entry D) pre)"
| "deduplicated D pre (MergeRelationOrigin r t s b) \<longleftrightarrow>
     (relation_key D s (re_predicate r) b (re_lifecycle r), t) \<in> set (gather (relation_entry D) pre)"
| "deduplicated D pre (AddRelation r q s b) \<longleftrightarrow>
     relation_key D s (re_predicate r) b (re_lifecycle r) \<notin> fst ` set (gather (relation_entry D) pre)"
| "deduplicated D pre (KeepTargetRelation r s b) \<longleftrightarrow>
     relation_key D s (re_predicate r) b (re_lifecycle r) \<notin> fst ` set (gather (relation_entry D) pre)"
| "deduplicated D pre _ \<longleftrightarrow> True"

fun along :: "('a list \<Rightarrow> 'a \<Rightarrow> bool) \<Rightarrow> 'a list \<Rightarrow> 'a list \<Rightarrow> bool" where
  "along P pre [] \<longleftrightarrow> True"
| "along P pre (a # as) \<longleftrightarrow> P pre a \<and> along P (pre @ [a]) as"

lemma along_append: "along P pre (as @ bs) \<longleftrightarrow> along P pre as \<and> along P (pre @ as) bs"
  by (induction as arbitrary: pre) auto

lemma along_all: "(\<And>qre a. a \<in> set as \<Longrightarrow> P qre a) \<Longrightarrow> along P pre as"
  by (induction as arbitrary: pre) auto

lemma along_split: "along P pre (bs @ a # cs) \<Longrightarrow> P (pre @ bs) a"
  by (simp add: along_append)

lemma stepwise_along:
  assumes "stepwise P pre rs as" "\<And>bs r a. set bs \<subseteq> set as \<Longrightarrow> P (pre @ bs) r a \<Longrightarrow> Q (pre2 @ bs) a"
  shows "along Q pre2 as"
  using assms
proof (induction rs arbitrary: pre pre2 as)
  case (Cons r rs)
  then obtain a as' where as: "as = a # as'" "P pre r a" "stepwise P (pre @ [a]) rs as'" by auto
  have "along Q (pre2 @ [a]) as'"
  proof (rule Cons.IH [OF as(3)])
    show "Q ((pre2 @ [a]) @ bs) b" if "set bs \<subseteq> set as'" "P ((pre @ [a]) @ bs) r b" for bs r b
      using Cons.prems(2) [of "a # bs" r b] that as(1) by auto
  qed
  moreover have "Q pre2 a" using Cons.prems(2) [of "[]" r a] as(2) by simp
  ultimately show ?case using as(1) by simp
qed simp

lemma map_of_None_fst: "map_of xs k = None \<longleftrightarrow> k \<notin> fst ` set xs"
  by (rule map_of_eq_None_iff)

lemma observation_step_deduplicated:
  assumes "observation_step D results tos pre r a"
    and "gather (observation_entry D) pre2 = gather (observation_entry D) pre"
  shows "deduplicated D pre2 a"
  using assms(1)
proof (cases rule: observation_stepE)
  case (merged e t)
  from map_of_SomeD [OF merged(2)] show ?thesis using merged(3) assms(2) by simp
next
  case (added e q)
  then show ?thesis using assms(2) by (simp add: map_of_None_fst)
qed

lemma relation_step_deduplicated:
  assumes "relation_step D policy results trs pre r a"
    and "gather (relation_entry D) pre2 = gather (relation_entry D) pre"
  shows "deduplicated D pre2 a"
  using assms(1)
proof (cases rule: relation_stepE)
  case (merged u v t)
  from map_of_SomeD [OF merged(4)] show ?thesis using merged(5) assms(2) by simp
next
  case (added u v q)
  then show ?thesis using assms(2) by (simp add: map_of_None_fst)
qed

lemma keep_relation_deduplicated:
  assumes "distinct (map fst (gather (relation_entry D) (pre @ map keep_relation trs)))"
  shows "along (deduplicated D) pre (map keep_relation trs)"
  using assms
proof (induction trs arbitrary: pre)
  case (Cons r trs)
  have "along (deduplicated D) (pre @ [keep_relation r]) (map keep_relation trs)"
    using Cons.prems by (intro Cons.IH) simp
  moreover have "deduplicated D pre (keep_relation r)"
    using Cons.prems by (simp add: keep_relation_def)
  ultimately show ?case by simp
qed simp

lemma entries_nil:
  "list_all2 (\<lambda>r a. \<exists>d. a = ApplyEntityDisposition r d) rs as \<Longrightarrow> gather (observation_entry D) as = []"
  "list_all2 (\<lambda>r a. \<exists>d. a = ApplyEntityDisposition r d) rs as \<Longrightarrow> gather (relation_entry D) as = []"
  "list_all2 (\<lambda>r a. \<exists>x e. a = AddObservation r x e \<or> (\<exists>t. a = MergeObservationOrigin r t e)) os bs \<Longrightarrow>
     gather (relation_entry D) bs = []"
  by (erule list_all2_gather_nil; auto)+

lemma trace_deduplicated:
  assumes t: "plan_trace D th sh planned policy tes ses tos sos trs srs as2 as4 as6"
  shows "along (deduplicated D) [] (trace_actions tes tos trs as2 as4 as6)"
proof -
  have 2: "list_all2 (\<lambda>r a. \<exists>d. a = ApplyEntityDisposition r d) ses as2"
    and s4: "stepwise (observation_step D (map_of (rev (gather entity_result as2))) tos) (map keep_observation tos) sos as4"
    and s6: "stepwise (relation_step D policy (map_of (rev (gather entity_result as2))) trs) (map keep_relation trs) srs as6"
    and dist: "distinct (map fst (gather (relation_entry D) (map keep_relation trs)))"
    using t unfolding plan_trace_def by (blast intro: entity_actions)+
  note nil = entries_nil(1,2) [OF 2] entries_nil(3) [OF observation_actions [OF s4]]
  have keepnil: "gather (observation_entry D) (map KeepTargetEntity tes) = []"
    "gather (relation_entry D) (map KeepTargetEntity tes) = []"
    "gather (relation_entry D) (map keep_observation tos) = []" for tes tos
    by (auto simp: gather_def keep_observation_def)
  have "along (deduplicated D) pre (map KeepTargetEntity tes)" for pre by (rule along_all) auto
  moreover have "along (deduplicated D) pre (map keep_observation tos)" for pre
    by (rule along_all) (auto simp: keep_observation_def)
  moreover have "along (deduplicated D) pre as2" for pre
    by (rule along_all) (use list_all2_all [OF 2, of "\<lambda>a. \<exists>r d. a = ApplyEntityDisposition r d"] in force)
  moreover have "along (deduplicated D) (map KeepTargetEntity tes @ as2 @ map keep_observation tos) as4"
    using s4 by (rule stepwise_along)
      (rule observation_step_deduplicated, assumption, simp add: nil keepnil)
  moreover have "along (deduplicated D)
      (map KeepTargetEntity tes @ as2 @ map keep_observation tos @ as4) (map keep_relation trs)"
    using dist by (intro keep_relation_deduplicated) (simp add: nil keepnil)
  moreover have "along (deduplicated D)
      (map KeepTargetEntity tes @ as2 @ map keep_observation tos @ as4 @ map keep_relation trs) as6"
    using s6 by (rule stepwise_along)
      (rule relation_step_deduplicated, assumption, simp add: nil keepnil)
  ultimately show ?thesis by (simp add: trace_actions_def along_append)
qed

text \<open>A merged assertion is merged into one that the plan keeps or adds.\<close>

lemma deduplicated_merged:
  "deduplicated D pre a \<Longrightarrow> set (merged_observation a) \<subseteq> set (gather result_observation pre)"
  "deduplicated D pre a \<Longrightarrow> set (merged_relation a) \<subseteq> set (gather result_relation pre)"
  by (cases a; auto dest: gather_entry_results)+

lemma along_merged:
  assumes "along (deduplicated D) [] as"
  shows "set (gather merged_observation as) \<subseteq> set (gather result_observation as)"
    "set (gather merged_relation as) \<subseteq> set (gather result_relation as)"
proof -
  have ded: "\<exists>bs cs. as = bs @ a # cs \<and> deduplicated D bs a" if a: "a \<in> set as" for a
  proof -
    from split_list [OF a] obtain bs cs where "as = bs @ a # cs" by blast
    with along_split [of "deduplicated D" "[]" bs a cs] assms show ?thesis by auto
  qed
  show "set (gather merged_observation as) \<subseteq> set (gather result_observation as)"
  proof (rule gather_subset)
    fix a assume "a \<in> set as"
    from ded [OF this] obtain bs cs where "as = bs @ a # cs" "deduplicated D bs a" by blast
    then show "set (merged_observation a) \<subseteq> set (gather result_observation as)"
      using deduplicated_merged(1) by fastforce
  qed
  show "set (gather merged_relation as) \<subseteq> set (gather result_relation as)"
  proof (rule gather_subset)
    fix a assume "a \<in> set as"
    from ded [OF this] obtain bs cs where "as = bs @ a # cs" "deduplicated D bs a" by blast
    then show "set (merged_relation a) \<subseteq> set (gather result_relation as)"
      using deduplicated_merged(2) by fastforce
  qed
qed

section \<open>Coalescing\<close>

definition follows_plan :: "planned_entity list \<Rightarrow> entity_record \<Rightarrow> merge_action \<Rightarrow> bool" where
  "follows_plan planned r a \<longleftrightarrow> (\<exists>p\<in>set planned. ple_logical_id p = elog r \<and>
     coalesced_target a = (case ple_disposition p of PlanCoalesce t _ \<Rightarrow> [rv_address t] | PlanAdd _ _ \<Rightarrow> []))"

lemma entity_step_follows: "entity_step D th sh planned tes pre r a \<Longrightarrow> follows_plan planned r a"
proof -
  assume "entity_step D th sh planned tes pre r a"
  then obtain p d where p: "p \<in> set planned" "ple_logical_id p = elog r" and a: "a = ApplyEntityDisposition r d"
    and d: "disposed D th tes pre r (ple_disposition p) d"
    unfolding entity_step_def by blast
  then have "coalesced_target a = (case ple_disposition p of PlanCoalesce t _ \<Rightarrow> [rv_address t] | PlanAdd _ _ \<Rightarrow> [])"
    by (cases "ple_disposition p") (auto simp: disposed_def Let_def)
  with p show ?thesis unfolding follows_plan_def by blast
qed

lemma coalesced_into_unique:
  assumes "distinct (coalesced_into ps)" "p \<in> set ps" "q \<in> set ps"
    and "ple_disposition p = PlanCoalesce t h" "ple_disposition q = PlanCoalesce u k" "rv_address t = rv_address u"
  shows "p = q"
  using assms
proof (induction ps)
  case (Cons x ps)
  have in_rest: "rv_address v \<in> set (coalesced_into ps)"
    if "y \<in> set ps" "ple_disposition y = PlanCoalesce v l" for y v l
    using that by (induction ps) (auto simp: coalesced_into_def List.map_filter_simps split: option.split)
  have head: "coalesced_into (x # ps) = (case ple_disposition x of PlanCoalesce v _ \<Rightarrow> [rv_address v] | PlanAdd _ _ \<Rightarrow> [])
      @ coalesced_into ps"
    by (simp add: coalesced_into_def List.map_filter_simps split: planned_disposition.split)
  show ?case using Cons.prems Cons.IH in_rest [of p t h] in_rest [of q u k] unfolding head by auto
qed simp

lemma trace_coalesced_distinct:
  assumes "list_all2 (follows_plan planned) rs as" "distinct (map elog rs)" "distinct (coalesced_into planned)"
  shows "distinct (gather coalesced_target as)"
  using assms(1,2)
proof (induction rule: list_all2_induct)
  case (Cons r rs a as)
  have rest: "distinct (gather coalesced_target as)" using Cons by simp
  obtain p where p: "p \<in> set planned" "ple_logical_id p = elog r"
      "coalesced_target a = (case ple_disposition p of PlanCoalesce t _ \<Rightarrow> [rv_address t] | PlanAdd _ _ \<Rightarrow> [])"
    using Cons.hyps(1) unfolding follows_plan_def by blast
  show ?case
  proof (cases "ple_disposition p")
    case (PlanCoalesce t h)
    have "rv_address t \<notin> set (gather coalesced_target as)"
    proof
      assume "rv_address t \<in> set (gather coalesced_target as)"
      then obtain b where b: "b \<in> set as" "rv_address t \<in> set (coalesced_target b)" by (auto simp: in_gather)
      then obtain r' where r': "r' \<in> set rs" "follows_plan planned r' b"
        using list_all2_in [OF Cons.hyps(2)] by blast
      then obtain p' where p': "p' \<in> set planned" "ple_logical_id p' = elog r'"
        "coalesced_target b = (case ple_disposition p' of PlanCoalesce t _ \<Rightarrow> [rv_address t] | PlanAdd _ _ \<Rightarrow> [])"
        unfolding follows_plan_def by blast
      then obtain u k where u: "ple_disposition p' = PlanCoalesce u k" "rv_address t = rv_address u"
        using b(2) by (cases "ple_disposition p'") auto
      have "p = p'" using coalesced_into_unique [OF assms(3) p(1) p'(1) PlanCoalesce u] .
      then have "elog r = elog r'" using p(2) p'(2) by simp
      then have "elog r \<in> elog ` set rs" using r'(1) by (rule image_eqI)
      then show False using Cons.prems by simp
    qed
    then show ?thesis using rest p(3) PlanCoalesce by simp
  next
    case (PlanAdd reason receipt)
    then show ?thesis using rest p(3) by simp
  qed
qed simp

end
