(* ===== verification/Om_PlanTheorems.thy ===== *)
theory Om_PlanTheorems
  imports Om_PlanProps
begin

text \<open>
  The properties of \<open>plan_merge\<close> into the bounded memory sink. \<open>planned_facts\<close> collects what a
  successful run leaves: the sink holds a trace of the run over two verified streams and has
  published the plan that binds it.
\<close>

section \<open>Counting\<close>

lemma fold_counts:
  "target_entities (fold count_action as c) + added_entities (fold count_action as c) =
     target_entities c + added_entities c + of_nat (length (gather result_entity as))"
  "coalesced_entities (fold count_action as c) = coalesced_entities c + of_nat (length (gather coalesced_target as))"
  "target_observations (fold count_action as c) + added_observations (fold count_action as c) =
     target_observations c + added_observations c + of_nat (length (gather result_observation as))"
  "merged_observations (fold count_action as c) = merged_observations c + of_nat (length (gather merged_observation as))"
  "target_relations (fold count_action as c) + added_relations (fold count_action as c) =
     target_relations c + added_relations c + of_nat (length (gather result_relation as))"
  "merged_relations (fold count_action as c) = merged_relations c + of_nat (length (gather merged_relation as))"
proof (induction as arbitrary: c)
  case (Cons a as)
  {
    case 1
    show ?case unfolding fold_simps Cons.IH(1)
      by (cases a rule: result_entity.cases) (simp_all add: count_action_def Let_def)
  next
    case 2
    show ?case unfolding fold_simps Cons.IH(2)
      by (cases a rule: coalesced_target.cases) (simp_all add: count_action_def Let_def)
  next
    case 3
    show ?case unfolding fold_simps Cons.IH(3)
      by (cases a) (simp_all add: count_action_def Let_def split: entity_disposition.split)
  next
    case 4
    show ?case unfolding fold_simps Cons.IH(4)
      by (cases a) (simp_all add: count_action_def Let_def split: entity_disposition.split)
  next
    case 5
    show ?case unfolding fold_simps Cons.IH(5)
      by (cases a) (simp_all add: count_action_def Let_def split: entity_disposition.split)
  next
    case 6
    show ?case unfolding fold_simps Cons.IH(6)
      by (cases a) (simp_all add: count_action_def Let_def split: entity_disposition.split)
  }
qed simp_all

lemma gather_length: "(\<And>a. length (f a) \<le> 1) \<Longrightarrow> length (gather f as) \<le> length as"
  by (induction as) (auto intro: order_trans [OF add_mono])

lemma reading_lengths:
  "length (gather result_entity as) \<le> length as" "length (gather coalesced_target as) \<le> length as"
  "length (gather result_observation as) \<le> length as" "length (gather merged_observation as) \<le> length as"
  "length (gather result_relation as) \<le> length as" "length (gather merged_relation as) \<le> length as"
proof -
  have "length (result_entity a) \<le> 1" "length (coalesced_target a) \<le> 1" "length (result_observation a) \<le> 1"
    "length (merged_observation a) \<le> 1" "length (result_relation a) \<le> 1" "length (merged_relation a) \<le> 1" for a
    by ((cases a rule: result_entity.cases; simp), (cases a rule: coalesced_target.cases; simp), (cases a; simp)+)
  then show "length (gather result_entity as) \<le> length as" "length (gather coalesced_target as) \<le> length as"
    "length (gather result_observation as) \<le> length as" "length (gather merged_observation as) \<le> length as"
    "length (gather result_relation as) \<le> length as" "length (gather merged_relation as) \<le> length as"
    by (blast intro: gather_length)+
qed

lemma unat_small: "n < MAX_ACTIONS \<Longrightarrow> unat (of_nat n :: u64) = n"
  by (subst unat_of_nat) (simp add: MAX_ACTIONS_def take_bit_nat_eq_self)

text \<open>The canonical tokens are the tokens as a set, in order.\<close>

lemma remdups_adj_sorted_distinct: "sorted xs \<Longrightarrow> distinct (remdups_adj (xs :: 'a::linorder list))"
  by (induction xs rule: remdups_adj.induct) (auto simp: order_le_less)

lemma canonical_tokens_set: "canonical_tokens tokens = sorted_list_of_set (set tokens)"
  unfolding canonical_tokens_def
  by (rule sorted_distinct_set_unique) (simp_all add: remdups_adj_sorted_distinct)

definition origin_tokens :: "deps \<Rightarrow> merge_action list \<Rightarrow> result_token set" where
  "origin_tokens D as = {t \<in> set (concat (map (result_tokens D) as)). fst t = 2 \<or> fst t = 4 \<or> fst t = 6}"

lemma retained_origin_count:
  "length (filter (\<lambda>t. fst t = 2 \<or> fst t = 4 \<or> fst t = 6) (canonical_tokens (concat (map (result_tokens D) as)))) =
     card (origin_tokens D as)"
proof -
  have d: "distinct (canonical_tokens ts)" "set (canonical_tokens ts) = set ts" for ts
    by (simp_all add: canonical_tokens_set)
  have "length (filter P (canonical_tokens ts)) = card {t \<in> set ts. P t}" for P ts
    using distinct_card [of "filter P (canonical_tokens ts)"] d by simp
  then show ?thesis unfolding origin_tokens_def .
qed

section \<open>A successful run\<close>

definition planned_into ::
    "deps \<Rightarrow> snapshot_source \<Rightarrow> snapshot_source \<Rightarrow> planning_receipts \<Rightarrow> merge_policy \<Rightarrow> merge_plan \<Rightarrow>
     memory_action_sink \<Rightarrow> bool" where
  "planned_into D target source rc policy plan s' \<longleftrightarrow>
     (\<exists>n s. memory_sink_new n = Inr s \<and> plan_merge D memory_sink target source rc policy s = (Inr plan, s'))"

lemma planned_facts:
  assumes "planned_into D target source rc policy plan s'"
  obtains tes ses tos sos trs srs as2 as4 as6 planned acc where
    "target = \<lparr>ss_header = ss_header target, ss_entities = map Inr tes, ss_observations = map Inr tos,
       ss_relations = map Inr trs\<rparr>"
    "source = \<lparr>ss_header = ss_header source, ss_entities = map Inr ses, ss_observations = map Inr sos,
       ss_relations = map Inr srs\<rparr>"
    "sh_space_id (ss_header target) \<noteq> sh_space_id (ss_header source)"
    "stream_valid (ss_header target) tes tos trs" "stream_valid (ss_header source) ses sos srs"
    "sh_hash (ss_header target) = stream_hash D (ss_header target) tes tos trs"
    "sh_hash (ss_header source) = stream_hash D (ss_header source) ses sos srs"
    "prepare_dispositions rc policy = Inr (planned, acc)"
    "plan_trace D (ss_header target) (ss_header source) planned policy tes ses tos sos trs srs as2 as4 as6"
    "mas_actions s' = trace_actions tes tos trs as2 as4 as6" "mas_plan s' = Some plan"
    "length (mas_actions s') < MAX_ACTIONS"
    "plan = plan_of D (prelude_of (ss_header target) (ss_header source) policy) acc (mas_actions s')"
proof -
  from assms obtain n s where new: "memory_sink_new n = Inr s"
    and run: "plan_merge D memory_sink target source rc policy s = (Inr plan, s')"
    unfolding planned_into_def by blast
  from plan_merge_ok [OF run] obtain tes ses tos sos trs srs as2 as4 as6 where
    "planned_run D memory_sink target source rc policy s plan s' tes ses tos sos trs srs as2 as4 as6" by blast
  then obtain planned acc s1 s2 wt ws where r:
    "target = \<lparr>ss_header = ss_header target, ss_entities = map Inr tes, ss_observations = map Inr tos,
       ss_relations = map Inr trs\<rparr>"
    "source = \<lparr>ss_header = ss_header source, ss_entities = map Inr ses, ss_observations = map Inr sos,
       ss_relations = map Inr srs\<rparr>"
    "sh_space_id (ss_header target) \<noteq> sh_space_id (ss_header source)"
    "verify_stream D (ss_header target) tes tos trs = Inr wt"
    "verify_stream D (ss_header source) ses sos srs = Inr ws"
    "prepare_dispositions rc policy = Inr (planned, acc)"
    "plan_trace D (ss_header target) (ss_header source) planned policy tes ses tos sos trs srs as2 as4 as6"
    "snk_begin memory_sink (prelude_of (ss_header target) (ss_header source) policy) s = (Inr (), s1)"
    "emits memory_sink (trace_actions tes tos trs as2 as4 as6) s1 s2"
    "snk_finish memory_sink plan s2 = (Inr (), s')"
    "length (trace_actions tes tos trs as2 as4 as6) < MAX_ACTIONS"
    "plan = plan_of D (prelude_of (ss_header target) (ss_header source) policy) acc
       (trace_actions tes tos trs as2 as4 as6)"
    unfolding planned_run_def by blast
  have open1: "mas_state s1 = Begun" "mas_actions s1 = []"
    using memory_log.begin_open [OF r(8)] new by (auto simp: memory_sink_new_def split: if_splits)
  have open2: "mas_state s2 = Begun" "mas_actions s2 = trace_actions tes tos trs as2 as4 as6"
    using memory_log.emits_log [OF open1(1) r(9)] open1(2) by simp_all
  have pub: "mas_plan s' = Some plan" "mas_actions s' = trace_actions tes tos trs as2 as4 as6"
    using memory_log.finish_publishes [OF open2(1) r(10)] open2(2) by simp_all
  have "length tes + length tos + length trs + (length ses + length sos + length srs) =
      length (trace_actions tes tos trs as2 as4 as6)"
    using r(7) unfolding plan_trace_def trace_actions_def by (auto dest!: stepwise_length)
  then have fits: "fits tes" "fits tos" "fits trs" "fits ses" "fits sos" "fits srs"
    using r(11) by (simp_all add: fits_def MAX_ACTIONS_def)
  have "stream_valid (ss_header target) tes tos trs \<and> sh_hash (ss_header target) = stream_hash D (ss_header target) tes tos trs"
    using verify_stream_ok [OF fits(1-3), of D "ss_header target"] r(4) by blast
  moreover have "stream_valid (ss_header source) ses sos srs \<and> sh_hash (ss_header source) = stream_hash D (ss_header source) ses sos srs"
    using verify_stream_ok [OF fits(4-6), of D "ss_header source"] r(5) by blast
  ultimately show thesis
    using that [OF r(1-3) _ _ _ _ r(6,7) pub(2,1)] r(11,12) pub(2) by simp
qed

text \<open>Entities are disposed of in the second phase only.\<close>

lemma disposition_in_phase:
  assumes "plan_trace D th sh planned policy tes ses tos sos trs srs as2 as4 as6"
    and "ApplyEntityDisposition r d \<in> set (trace_actions tes tos trs as2 as4 as6)"
  shows "ApplyEntityDisposition r d \<in> set as2"
proof -
  have s4: "stepwise (observation_step D (map_of (rev (gather entity_result as2))) tos) (map keep_observation tos) sos as4"
    and s6: "stepwise (relation_step D policy (map_of (rev (gather entity_result as2))) trs) (map keep_relation trs) srs as6"
    using assms(1) by (simp_all add: plan_trace_def)
  have "\<forall>a\<in>set as4. a \<noteq> ApplyEntityDisposition r d"
    by (rule list_all2_all [OF observation_actions [OF s4]]) auto
  moreover have "\<forall>a\<in>set as6. a \<noteq> ApplyEntityDisposition r d"
    by (rule list_all2_all [OF relation_actions [OF s6]]) auto
  ultimately show ?thesis
    using assms(2) by (auto simp: trace_actions_def keep_observation_def keep_relation_def)
qed

section \<open>Properties\<close>

text \<open>
  C1. A plan covers its inputs exactly once: the published actions, read as inputs, are all entities
  of the target, then of the source, then the observations and the relations of both, each record
  once and in stream order. Nothing of either snapshot is dropped, repeated or invented.
\<close>

theorem plan_covers_inputs:
  assumes "planned_into D target source rc policy plan s'"
  shows "map Inr (map action_input (mas_actions s')) =
    map (map_sum id TargetEntity) (ss_entities target) @ map (map_sum id SourceEntity) (ss_entities source) @
    map (map_sum id TargetObservation) (ss_observations target) @
    map (map_sum id SourceObservation) (ss_observations source) @
    map (map_sum id TargetRelation) (ss_relations target) @
    map (map_sum id SourceRelation) (ss_relations source :: (merge_error + relation_record) list)"
  using assms
proof (rule planned_facts)
  fix tes ses tos sos trs srs as2 as4 as6 planned acc
  assume t: "target = \<lparr>ss_header = ss_header target, ss_entities = map Inr tes, ss_observations = map Inr tos,
       ss_relations = map Inr trs\<rparr>"
    and s: "source = \<lparr>ss_header = ss_header source, ss_entities = map Inr ses, ss_observations = map Inr sos,
       ss_relations = map Inr srs\<rparr>"
    and tr: "plan_trace D (ss_header target) (ss_header source) planned policy tes ses tos sos trs srs as2 as4 as6"
    and as: "mas_actions s' = trace_actions tes tos trs as2 as4 as6"
  show ?thesis
    unfolding as trace_gather(5) [OF tr] by (subst (1 2 3) t, subst (1 2 3) s) (simp add: comp_def)
qed

text \<open>
  C2. No reference of a plan dangles: every entity that an action refers to, as the target of a
  coalescence, the owner of an observation or an endpoint of a relation, is an entity the plan
  keeps or adds, and every assertion an origin is merged into is one the plan keeps or adds.
\<close>

theorem plan_has_no_dangling_reference:
  assumes "planned_into D target source rc policy plan s'"
  shows "set (gather entity_references (mas_actions s')) \<subseteq> set (gather result_entity (mas_actions s')) \<and>
    set (gather merged_observation (mas_actions s')) \<subseteq> set (gather result_observation (mas_actions s')) \<and>
    set (gather merged_relation (mas_actions s')) \<subseteq> set (gather result_relation (mas_actions s'))"
  using assms
proof (rule planned_facts)
  fix tes ses tos sos trs srs as2 as4 as6 planned acc
  assume tr: "plan_trace D (ss_header target) (ss_header source) planned policy tes ses tos sos trs srs as2 as4 as6"
    and as: "mas_actions s' = trace_actions tes tos trs as2 as4 as6"
  show ?thesis
    unfolding as using trace_references [OF tr] along_merged [OF trace_deduplicated [OF tr]] by blast
qed

text \<open>
  Identifiers never collide: the textual identifiers of the entities that a plan keeps or adds
  are pairwise different, and so are those of its observations and of its relations.
\<close>

theorem plan_result_ids_distinct:
  assumes "planned_into D target source rc policy plan s'"
  shows "distinct (map result_as_str (gather result_entity (mas_actions s'))) \<and>
    distinct (map result_as_str (gather result_observation (mas_actions s'))) \<and>
    distinct (map result_as_str (gather result_relation (mas_actions s')))"
  using assms
proof (rule planned_facts)
  fix tes ses tos sos trs srs as2 as4 as6 planned acc
  assume tr: "plan_trace D (ss_header target) (ss_header source) planned policy tes ses tos sos trs srs as2 as4 as6"
    and as: "mas_actions s' = trace_actions tes tos trs as2 as4 as6"
    and v: "stream_valid (ss_header target) tes tos trs"
  show ?thesis unfolding as using trace_fresh [OF tr v] by blast
qed

text \<open>
  C4. The plan published is the plan returned, and the independent verifier accepts it against the
  published actions: counts, action stream hash, predicted result hash and plan hash all agree.
\<close>

theorem published_plan_verifies:
  assumes "planned_into D target source rc policy plan s'"
  shows "mas_plan s' = Some plan \<and> verify_plan D (mas_actions s') plan = Inr ()"
  using assms
proof (rule planned_facts)
  fix tes ses tos sos trs srs as2 as4 as6 planned acc
  assume pub: "mas_plan s' = Some plan" and len: "length (mas_actions s') < MAX_ACTIONS"
    and plan: "plan = plan_of D (prelude_of (ss_header target) (ss_header source) policy) acc (mas_actions s')"
  have "u64_of_usize (length (mas_actions s')) = of_nat (length (mas_actions s'))"
    using len by (intro u64_of_usize_of_nat) (simp add: MAX_ACTIONS_def)
  moreover have "total_actions (mpl_action_counts plan) = of_nat (length (mas_actions s'))"
    by (simp add: plan plan_of_def Let_def total_actions_length)
  ultimately show ?thesis
    using pub by (simp add: verify_plan_def plan plan_of_def Let_def)
qed

text \<open>
  C5. A failed plan publishes nothing: either the sink is exactly as it was given, or it has been
  aborted and holds neither a plan nor any action.
\<close>

theorem failed_plan_publishes_nothing:
  assumes "plan_merge D memory_sink target source rc policy s = (Inl e, s')"
  shows "s' = s \<or> (mas_plan s' = None \<and> mas_actions s' = [])"
  using assms by (rule memory_log.failure_discards)

text \<open>
  C3. Every coalescence is reviewed and current: its receipt is a Same resolution of a candidate on
  a complete discovery page of this very source revision in this source snapshot, and its target is
  an entity the plan keeps, at the revision and in the snapshot that were reviewed.
\<close>

theorem coalescence_is_reviewed:
  assumes "planned_into D target source rc policy plan s'"
    and "ApplyEntityDisposition r (Coalesce left right receipt) \<in> set (mas_actions s')"
  shows "left = er_address r \<and>
    (\<exists>d\<in>set (pr_discoveries rc). \<exists>c\<in>set (dr_candidates d). \<exists>res\<in>set (pr_resolutions rc). \<exists>te.
       \<not> dr_truncated d \<and> oa_logical (rv_address (dr_source d)) = elog r \<and>
       rv_revision (dr_source d) = er_revision r \<and>
       rv_snapshot (dr_source d) = sh_snapshot_id (ss_header source) \<and>
       receipt_matches_candidate res c \<and> ir_decision res = Same \<and> receipt = ir_hash res \<and>
       ir_policy_generation res = mp_identity_policy_generation policy \<and>
       rv_address (ic_target c) = right \<and> rv_snapshot (ic_target c) = sh_snapshot_id (ss_header target) \<and>
       KeepTargetEntity te \<in> set (mas_actions s') \<and> elog te = oa_logical right \<and>
       er_revision te = rv_revision (ic_target c))"
  using assms(1)
proof (rule planned_facts)
  fix tes ses tos sos trs srs as2 as4 as6 planned acc
  assume tr: "plan_trace D (ss_header target) (ss_header source) planned policy tes ses tos sos trs srs as2 as4 as6"
    and as: "mas_actions s' = trace_actions tes tos trs as2 as4 as6"
    and prep: "prepare_dispositions rc policy = Inr (planned, acc)"
  let ?a = "ApplyEntityDisposition r (Coalesce left right receipt)"
  have mem: "?a \<in> set as2" using assms(2) unfolding as by (rule disposition_in_phase [OF tr])
  have step: "stepwise (entity_step D (ss_header target) (ss_header source) planned tes) [] ses as2"
    using tr unfolding plan_trace_def by blast
  from stepwise_in [OF step mem] obtain bs r' where
    "entity_step D (ss_header target) (ss_header source) planned tes bs r' ?a" by auto
  then obtain p where p: "p \<in> set planned" "ple_logical_id p = elog r" "ple_revision p = er_revision r"
      "ple_snapshot p = sh_snapshot_id (ss_header source)"
    and d: "disposed D (ss_header target) tes bs r (ple_disposition p) (Coalesce left right receipt)"
    unfolding entity_step_def by blast
  from d obtain t where t: "ple_disposition p = PlanCoalesce t receipt" "left = er_address r" "right = rv_address t"
      "map_of (revisions tes) (oa_logical right) = Some (rv_revision t)"
      "rv_snapshot t = sh_snapshot_id (ss_header target)"
    by (cases "ple_disposition p") (auto simp: disposed_def Let_def)
  from map_of_SomeD [OF t(4)] obtain te where te: "te \<in> set tes" "elog te = oa_logical right" "er_revision te = rv_revision t"
    by (auto simp: revisions_def)
  from dispositions_lemma [OF prep] obtain ds where ds: "mset ds = mset (pr_discoveries rc)"
    "list_all2 (\<lambda>d p. plan_matches_discovery d p \<and>
      justified rc (mp_identity_policy_generation policy) d (ple_disposition p)) ds planned" by blast
  from p(1) obtain d where dd: "d \<in> set ds" "plan_matches_discovery d p"
      "justified rc (mp_identity_policy_generation policy) d (ple_disposition p)"
    using list_all2_in [OF ds(2)] by blast
  have rc: "d \<in> set (pr_discoveries rc)" using dd(1) mset_eq_setD [OF ds(1)] by simp
  from dd(3) t(1) obtain c res where c: "c \<in> set (dr_candidates d)" "res \<in> set (pr_resolutions rc)"
      "\<not> dr_truncated d" "receipt_matches_candidate res c"
      "ir_policy_generation res = mp_identity_policy_generation policy" "ir_decision res = Same"
      "t = ic_target c" "receipt = ir_hash res"
    by (auto simp: justified_def)
  have keep: "KeepTargetEntity te \<in> set (mas_actions s')" using te(1) by (simp add: as trace_actions_def)
  have match: "oa_logical (rv_address (dr_source d)) = elog r" "rv_revision (dr_source d) = er_revision r"
      "rv_snapshot (dr_source d) = sh_snapshot_id (ss_header source)"
    using dd(2) p by (simp_all add: plan_matches_discovery_def)
  show ?thesis
    by (rule conjI [OF t(2)], rule bexI [OF _ rc], rule bexI [OF _ c(1)], rule bexI [OF _ c(2)], rule exI [of _ te])
      (simp add: match c(3-6,8) c(7) [symmetric] t(3,5) keep te(2,3))
qed

text \<open>
  Coalescing is one to one: no two source entities of a plan are coalesced into one target
  address.
\<close>

theorem coalescence_is_one_to_one:
  assumes "planned_into D target source rc policy plan s'"
  shows "distinct (gather coalesced_target (mas_actions s'))"
  using assms
proof (rule planned_facts)
  fix tes ses tos sos trs srs as2 as4 as6 planned acc
  assume tr: "plan_trace D (ss_header target) (ss_header source) planned policy tes ses tos sos trs srs as2 as4 as6"
    and as: "mas_actions s' = trace_actions tes tos trs as2 as4 as6"
    and v: "stream_valid (ss_header source) ses sos srs"
    and prep: "prepare_dispositions rc policy = Inr (planned, acc)"
  have "stepwise (entity_step D (ss_header target) (ss_header source) planned tes) [] ses as2"
    using tr unfolding plan_trace_def by blast
  then have "list_all2 (follows_plan planned) ses as2" by (rule stepwise_all2) (rule entity_step_follows)
  moreover have "distinct (map elog ses)"
    using v unfolding stream_valid_def elog_def by (blast intro: strict_sorted_distinct_logical)
  moreover have "distinct (coalesced_into planned)" using dispositions_lemma [OF prep] by blast
  ultimately show ?thesis unfolding as trace_gather(4) [OF tr] by (rule trace_coalesced_distinct)
qed

text \<open>
  Merging never invents a self-loop: a source relation ends up with equal endpoints only when
  the policy allows self-loops of its predicate.
\<close>

fun self_loop_of :: "merge_action \<Rightarrow> str list" where
  "self_loop_of (AddRelation r _ s b) = (if s = b then [re_predicate r] else [])"
| "self_loop_of (MergeRelationOrigin r _ s b) = (if s = b then [re_predicate r] else [])"
| "self_loop_of _ = []"

theorem plan_makes_no_self_loop:
  assumes "planned_into D target source rc policy plan s'"
  shows "set (gather self_loop_of (mas_actions s')) \<subseteq> set (mp_allowed_self_loop_predicates policy)"
  using assms
proof (rule planned_facts)
  fix tes ses tos sos trs srs as2 as4 as6 planned acc
  assume tr: "plan_trace D (ss_header target) (ss_header source) planned policy tes ses tos sos trs srs as2 as4 as6"
    and as: "mas_actions s' = trace_actions tes tos trs as2 as4 as6"
  have 2: "list_all2 (\<lambda>r a. \<exists>d. a = ApplyEntityDisposition r d) ses as2"
    and s4: "stepwise (observation_step D (map_of (rev (gather entity_result as2))) tos) (map keep_observation tos) sos as4"
    and s6: "stepwise (relation_step D policy (map_of (rev (gather entity_result as2))) trs) (map keep_relation trs) srs as6"
    using tr unfolding plan_trace_def by (blast intro: entity_actions)+
  have "gather self_loop_of as2 = []" "gather self_loop_of as4 = []"
    by (rule list_all2_gather_nil [OF 2] list_all2_gather_nil [OF observation_actions [OF s4]]; auto)+
  moreover have "set (gather self_loop_of as6) \<subseteq> set (mp_allowed_self_loop_predicates policy)"
  proof (rule gather_subset)
    fix a assume "a \<in> set as6"
    from stepwise_in [OF s6 this] obtain bs r where
      "relation_step D policy (map_of (rev (gather entity_result as2))) trs (map keep_relation trs @ bs) r a" by blast
    then show "set (self_loop_of a) \<subseteq> set (mp_allowed_self_loop_predicates policy)"
      by (cases rule: relation_stepE) (auto simp: allows_self_loop_def)
  qed
  moreover have "gather self_loop_of (map KeepTargetEntity tes) = []" "gather self_loop_of (map keep_observation tos) = []"
    "gather self_loop_of (map keep_relation trs) = []"
    by (simp_all add: gather_def keep_observation_def keep_relation_def)
  ultimately show ?thesis by (simp add: as trace_actions_def)
qed

text \<open>
  C31. Assertions are deduplicated exactly: the origin of a source assertion is merged into an earlier
  assertion of the result with the same index key, and one is added only when no earlier assertion
  of the result has its key.
\<close>

theorem plan_deduplicates:
  assumes "planned_into D target source rc policy plan s'" "i < length (mas_actions s')"
  shows "deduplicated D (take i (mas_actions s')) (mas_actions s' ! i)"
  using assms(1)
proof (rule planned_facts)
  fix tes ses tos sos trs srs as2 as4 as6 planned acc
  assume tr: "plan_trace D (ss_header target) (ss_header source) planned policy tes ses tos sos trs srs as2 as4 as6"
    and as: "mas_actions s' = trace_actions tes tos trs as2 as4 as6"
  have "mas_actions s' = take i (mas_actions s') @ mas_actions s' ! i # drop (Suc i) (mas_actions s')"
    using assms(2) by (rule id_take_nth_drop)
  then have "along (deduplicated D) [] (take i (mas_actions s') @ mas_actions s' ! i # drop (Suc i) (mas_actions s'))"
    using trace_deduplicated [OF tr] as by simp
  from along_split [OF this] show ?thesis by simp
qed

text \<open>
  The accounting is exact: the result counts are the numbers of objects the actions keep or add,
  the coalesced and merged counts the numbers of coalescences and merged origins, and the retained
  origins the number of different origin tokens of the result.
\<close>

theorem plan_accounting_exact:
  assumes "planned_into D target source rc policy plan s'"
  defines "as \<equiv> mas_actions s'" and "a \<equiv> mpl_accounting plan" and "c \<equiv> mpl_action_counts plan"
  shows "unat (total_actions c) = length as \<and>
    unat (result_entities a) = length (gather result_entity as) \<and>
    unat (result_observations a) = length (gather result_observation as) \<and>
    unat (result_relations a) = length (gather result_relation as) \<and>
    unat (coalesced_entities c) = length (gather coalesced_target as) \<and>
    unat (merged_observations c) = length (gather merged_observation as) \<and>
    unat (merged_relations c) = length (gather merged_relation as) \<and>
    retained_origins a = u64_of_usize (card (origin_tokens D as))"
  using assms(1)
proof (rule planned_facts)
  fix tes ses tos sos trs srs as2 as4 as6 planned acc
  assume len: "length (mas_actions s') < MAX_ACTIONS"
    and plan: "plan = plan_of D (prelude_of (ss_header target) (ss_header source) policy) acc (mas_actions s')"
  have c: "c = fold count_action as counts_default" by (simp add: c_def as_def plan plan_of_def Let_def)
  have a: "a = finish_accounting c (canonical_tokens (concat (map (result_tokens D) as))) acc"
    by (simp add: a_def c as_def plan plan_of_def Let_def)
  have small: "unat (of_nat n :: u64) = n" if "n \<le> length as" for n
    using that len by (intro unat_small) (simp add: as_def)
  have res: "result_entities a = of_nat (length (gather result_entity as))"
      "result_observations a = of_nat (length (gather result_observation as))"
      "result_relations a = of_nat (length (gather result_relation as))"
    using fold_counts(1,3,5) [of as counts_default]
    by (simp_all add: a c finish_accounting_def) (simp_all add: counts_default_def)
  have cnt: "coalesced_entities c = of_nat (length (gather coalesced_target as))"
      "merged_observations c = of_nat (length (gather merged_observation as))"
      "merged_relations c = of_nat (length (gather merged_relation as))"
    using fold_counts(2,4,6) [of as counts_default] by (simp_all add: c) (simp_all add: counts_default_def)
  have "retained_origins a = u64_of_usize (card (origin_tokens D as))"
    using retained_origin_count [of D as] by (simp add: a finish_accounting_def)
  moreover have "unat (total_actions c) = length as" using small by (simp add: c total_actions_length)
  ultimately show ?thesis using small reading_lengths [of as] by (simp add: res cnt)
qed

text \<open>
  C32. A plan binds its inputs: the snapshot hashes, spaces and target version of its prelude are
  those of the two streams, each stream is sorted, inside its space and as long as its header says,
  each hash is the canonical hash of the records streamed, and the two spaces differ.
\<close>

theorem plan_binds_inputs:
  assumes "planned_into D target source rc policy plan s'"
  shows "\<exists>tes tos trs ses sos srs.
    ss_entities target = map Inr tes \<and> ss_observations target = map Inr tos \<and> ss_relations target = map Inr trs \<and>
    ss_entities source = map Inr ses \<and> ss_observations source = map Inr sos \<and> ss_relations source = map Inr srs \<and>
    stream_valid (ss_header target) tes tos trs \<and> stream_valid (ss_header source) ses sos srs \<and>
    pp_target_snapshot_hash (mpl_prelude plan) = stream_hash D (ss_header target) tes tos trs \<and>
    pp_source_snapshot_hash (mpl_prelude plan) = stream_hash D (ss_header source) ses sos srs \<and>
    pp_expected_target_version (mpl_prelude plan) = sh_space_version (ss_header target) \<and>
    pp_target_space (mpl_prelude plan) = sh_space_id (ss_header target) \<and>
    pp_source_space (mpl_prelude plan) = sh_space_id (ss_header source) \<and>
    sh_space_id (ss_header target) \<noteq> sh_space_id (ss_header source)"
  using assms
proof (rule planned_facts)
  fix tes ses tos sos trs srs as2 as4 as6 planned acc
  assume t: "target = \<lparr>ss_header = ss_header target, ss_entities = map Inr tes, ss_observations = map Inr tos,
       ss_relations = map Inr trs\<rparr>"
    and s: "source = \<lparr>ss_header = ss_header source, ss_entities = map Inr ses, ss_observations = map Inr sos,
       ss_relations = map Inr srs\<rparr>"
    and v: "sh_space_id (ss_header target) \<noteq> sh_space_id (ss_header source)"
      "stream_valid (ss_header target) tes tos trs" "stream_valid (ss_header source) ses sos srs"
      "sh_hash (ss_header target) = stream_hash D (ss_header target) tes tos trs"
      "sh_hash (ss_header source) = stream_hash D (ss_header source) ses sos srs"
    and plan: "plan = plan_of D (prelude_of (ss_header target) (ss_header source) policy) acc (mas_actions s')"
  have "mpl_prelude plan = prelude_of (ss_header target) (ss_header source) policy"
    by (simp add: plan plan_of_def Let_def)
  moreover have "ss_entities target = map Inr tes" "ss_observations target = map Inr tos" "ss_relations target = map Inr trs"
    by (subst t, simp)+
  moreover have "ss_entities source = map Inr ses" "ss_observations source = map Inr sos" "ss_relations source = map Inr srs"
    by (subst s, simp)+
  ultimately show ?thesis
    using v by (intro exI [of _ tes] exI [of _ tos] exI [of _ trs] exI [of _ ses] exI [of _ sos] exI [of _ srs])
      (simp add: prelude_of_def)
qed

text \<open>
  The action bound is one below the advertised limit: the sink may be sized for 3,000,000 actions
  and the error says that the count exceeds the limit, but the counters are advanced before the
  check, so no plan has more than 2,999,999 actions.
\<close>

theorem plan_action_bound:
  assumes "planned_into D target source rc policy plan s'"
  shows "length (mas_actions s') < MAX_ACTIONS \<and> (\<exists>s. memory_sink_new MAX_ACTIONS = Inr s)"
  using assms
proof (rule planned_facts)
  assume "length (mas_actions s') < MAX_ACTIONS"
  then show ?thesis by (simp add: memory_sink_new_def MAX_ACTIONS_def)
qed

end
