(* ===== verification/Om_Examples.thy ===== *)
theory Om_Examples
  imports Om_PlanTheorems
begin

text \<open>
  A concrete run. \<open>example_deps\<close> instantiates the third-party functions with computable ones that
  satisfy their documented behaviour; two small snapshots are planned with one coalescence, one
  addition, a merged and an added observation and an added relation.
\<close>

section \<open>Third-party functions\<close>

definition pad :: bytes where "pad = replicate 31 CHR 0x00"

definition example_deps :: deps where
  "example_deps = \<lparr>blake3 = (\<lambda>b. (if b = [] then CHR 0x00 else last b) # pad),
     hyphenated = (\<lambda>u. hash_display (le_bytes 16 (unat u)) @ ''----''), to_lowercase = (\<lambda>s. s)\<rparr>"

lemma example_hyphenated: "hyphenated example_deps u = hash_display (le_bytes 16 (unat u)) @ ''----''"
  by (simp add: example_deps_def)

lemma hash_display_inj: "hash_display a = hash_display b \<Longrightarrow> a = b"
  by (metis option.inject parse_hash_display)

lemma le_bytes_uuid_inj: "le_bytes 16 (unat u) = le_bytes 16 (unat v) \<Longrightarrow> u = (v :: uuid)"
proof -
  assume "le_bytes 16 (unat u) = le_bytes 16 (unat v)"
  moreover have "unat u < 256 ^ 16" "unat v < 256 ^ 16"
    using unsigned_less [of u] unsigned_less [of v] by simp_all
  ultimately have "unat u = unat v" by (intro le_bytes_inj)
  then show "u = v" by (rule unsigned_word_eqI)
qed

lemma example_deps_ok: "deps_ok example_deps"
proof -
  have "inj (hyphenated example_deps)"
    by (rule injI) (auto simp: example_hyphenated dest!: hash_display_inj le_bytes_uuid_inj)
  then show ?thesis
    by (simp add: deps_ok_def example_hyphenated length_hash_display) (simp add: example_deps_def pad_def)
qed

lemma le_zero: "le_bytes n 0 = replicate n CHR 0x00"
  by (induction n) (simp_all add: char_of_def)

lemma example_finish [simp]:
  "t \<noteq> [] \<Longrightarrow> ch_finish example_deps (ch_text t h) = last t # pad"
  "ch_finish example_deps (ch_u64 0 h) = CHR 0x00 # pad"
  "ch_finish example_deps (ch_u16 0 h) = CHR 0x00 # pad"
  by (simp_all add: ch_finish_def example_deps_def canon_simps framed_def)
    (simp_all add: u64_le_def u16_le_def le_zero)

section \<open>Two snapshots\<close>

definition example_entity :: "uuid \<Rightarrow> str \<Rightarrow> uuid \<Rightarrow> str \<Rightarrow> entity_record" where
  "example_entity sp i v label = \<lparr>er_address = ObjectAddress sp i, er_revision = v, er_lifecycle = Active,
     er_label = label, er_kind = None, er_lineage = None, er_aliases = [], er_identifiers = [],
     er_properties = [], er_origins = [OriginContribution (ObjectAddress sp i) v]\<rparr>"

definition example_observation :: "uuid \<Rightarrow> str \<Rightarrow> str \<Rightarrow> uuid \<Rightarrow> str \<Rightarrow> observation_record" where
  "example_observation sp i e v content = \<lparr>ob_address = ObjectAddress sp i, ob_entity = ObjectAddress sp e,
     ob_revision = v, ob_lifecycle = Active, ob_content = content,
     ob_origins = [OriginContribution (ObjectAddress sp i) v]\<rparr>"

definition example_relation :: "uuid \<Rightarrow> str \<Rightarrow> str \<Rightarrow> str \<Rightarrow> str \<Rightarrow> uuid \<Rightarrow> relation_record" where
  "example_relation sp i s p b v = \<lparr>re_address = ObjectAddress sp i, re_subject = ObjectAddress sp s,
     re_predicate = p, re_object = ObjectAddress sp b, re_revision = v, re_lifecycle = Active,
     re_origins = [OriginContribution (ObjectAddress sp i) v]\<rparr>"

definition example_version :: space_version where
  "example_version = \<lparr>sv_domains = [\<lparr>dg_domain = 0, dg_semantic = 1, dg_indexed = 1, dg_mirrored = 1\<rparr>], sv_combined_hash = replicate 32 CHR 0x01\<rparr>"

definition example_header :: "uuid \<Rightarrow> uuid \<Rightarrow> u64 \<Rightarrow> u64 \<Rightarrow> u64 \<Rightarrow> hash32 \<Rightarrow> snapshot_header" where
  "example_header sn sp n m k h = \<lparr>sh_format_version = 1, sh_snapshot_id = sn, sh_space_id = sp,
     sh_space_version = example_version, sh_entity_count = n, sh_observation_count = m,
     sh_relation_count = k, sh_hash = h\<rparr>"

lemma example_entity_sel [simp]:
  "er_address (example_entity sp i v l) = ObjectAddress sp i" "er_revision (example_entity sp i v l) = v"
  by (simp_all add: example_entity_def)

lemma example_observation_sel [simp]:
  "ob_address (example_observation sp i e v c) = ObjectAddress sp i"
  "ob_entity (example_observation sp i e v c) = ObjectAddress sp e"
  "ob_lifecycle (example_observation sp i e v c) = Active" "ob_content (example_observation sp i e v c) = c"
  by (simp_all add: example_observation_def)

lemma example_relation_sel [simp]:
  "re_address (example_relation sp i s p b v) = ObjectAddress sp i"
  "re_subject (example_relation sp i s p b v) = ObjectAddress sp s"
  "re_object (example_relation sp i s p b v) = ObjectAddress sp b"
  "re_predicate (example_relation sp i s p b v) = p" "re_lifecycle (example_relation sp i s p b v) = Active"
  by (simp_all add: example_relation_def)

lemma example_header_sel [simp]:
  "sh_format_version (example_header sn sp n m k h) = 1" "sh_snapshot_id (example_header sn sp n m k h) = sn"
  "sh_space_id (example_header sn sp n m k h) = sp" "sh_space_version (example_header sn sp n m k h) = example_version"
  "sh_entity_count (example_header sn sp n m k h) = n" "sh_observation_count (example_header sn sp n m k h) = m"
  "sh_relation_count (example_header sn sp n m k h) = k" "sh_hash (example_header sn sp n m k h) = h"
  by (simp_all add: example_header_def)

lemma example_relation_finish [simp]:
  "ch_finish example_deps (encode_relation example_deps (example_relation sp i s p b v) h) = CHR ''-'' # pad"
  by (simp add: encode_relation_def example_relation_def encode_origin_def Let_def ch_revision_id_def
      example_hyphenated)

section \<open>The run\<close>

text \<open>Entity \<open>b\<close> of the source is coalesced into \<open>a\<close> of the target, \<open>c\<close> is added.\<close>

definition example_target :: snapshot_source where
  "example_target = \<lparr>ss_header = example_header 10 1 1 1 0 (CHR 0x00 # pad),
     ss_entities = [Inr (example_entity 1 ''a'' 100 ''Ada'')],
     ss_observations = [Inr (example_observation 1 ''o'' ''a'' 101 ''x'')], ss_relations = []\<rparr>"

definition example_source :: snapshot_source where
  "example_source = \<lparr>ss_header = example_header 20 2 2 2 1 (CHR ''-'' # pad),
     ss_entities = [Inr (example_entity 2 ''b'' 200 ''Ada L''), Inr (example_entity 2 ''c'' 201 ''Carl'')],
     ss_observations = [Inr (example_observation 2 ''p'' ''b'' 202 ''x''), Inr (example_observation 2 ''q'' ''c'' 203 ''y'')],
     ss_relations = [Inr (example_relation 2 ''r'' ''b'' ''knows'' ''c'' 204)]\<rparr>"

definition example_ref :: "uuid \<Rightarrow> str \<Rightarrow> uuid \<Rightarrow> uuid \<Rightarrow> entity_revision_ref" where
  "example_ref sp i v sn = EntityRevisionRef (ObjectAddress sp i) v sn"

definition example_discovery :: "entity_revision_ref \<Rightarrow> identity_candidate list \<Rightarrow> discovery_receipt" where
  "example_discovery src cs = \<lparr>dr_discovery_generation = 1, dr_policy_generation = 1, dr_source = src,
     dr_candidates = cs, dr_total_lower_bound = of_nat (length cs), dr_cap = 32, dr_truncated = False,
     dr_hash = pad\<rparr>"

definition example_candidate :: identity_candidate where
  "example_candidate = \<lparr>ic_target = example_ref 1 ''a'' 100 10, ic_source = example_ref 2 ''b'' 200 20,
     ic_signals = [SigAlias], ic_hash = pad\<rparr>"

definition example_resolution :: identity_resolution_receipt where
  "example_resolution = \<lparr>ir_target = example_ref 1 ''a'' 100 10, ir_source = example_ref 2 ''b'' 200 20,
     ir_packet_hash = pad, ir_decision = Same, ir_policy_generation = 1,
     ir_authority = HumanAuthority 300 Reviewer, ir_hash = CHR ''R'' # pad\<rparr>"

definition example_receipts :: planning_receipts where
  "example_receipts = \<lparr>pr_discoveries = [example_discovery (example_ref 2 ''c'' 201 20) [],
       example_discovery (example_ref 2 ''b'' 200 20) [example_candidate]],
     pr_resolutions = [example_resolution], pr_keep_distinct = []\<rparr>"

definition example_policy :: merge_policy where
  "example_policy = \<lparr>mp_version = 1, mp_identity_policy_generation = 1, mp_allowed_self_loop_predicates = []\<rparr>"

lemma example_dispositions: "prepare_dispositions example_receipts example_policy = Inr
   ([\<lparr>ple_logical_id = ''b'', ple_revision = 200, ple_snapshot = 20,
      ple_disposition = PlanCoalesce (example_ref 1 ''a'' 100 10) (CHR ''R'' # pad)\<rparr>,
     \<lparr>ple_logical_id = ''c'', ple_revision = 201, ple_snapshot = 20, ple_disposition = PlanAdd NoCandidate None\<rparr>],
    accounting_default\<lparr>consumed_discoveries := 2, consumed_candidates := 1, consumed_resolutions := 1,
      consumed_keep_distinct := 0\<rparr>)"
  by (simp add: prepare_dispositions_def collect_discoveries_def collect_resolutions_def collect_keeps_def
      example_receipts_def example_policy_def example_discovery_def example_candidate_def example_resolution_def
      example_ref_def bm_contains_def bm_get_def decide_disposition_def planned_of_def resolution_key_def candidate_key_def
      receipt_matches_candidate_def Let_def u64_of_usize_def less_object_address_def)

definition example_sink :: memory_action_sink where
  "example_sink = \<lparr>mas_max_actions = 100, mas_state = Idle, mas_prelude = None, mas_actions = [], mas_plan = None\<rparr>"

lemma example_sink_new: "memory_sink_new 100 = Inr example_sink"
  by (simp add: memory_sink_new_def MAX_ACTIONS_def example_sink_def)

definition example_added :: str where "example_added = qualified_derive example_deps 2 ''c''"
definition example_added_observation :: str where
  "example_added_observation = qualified_derive example_deps 2 ''q''"
definition example_added_relation :: str where
  "example_added_relation = qualified_derive example_deps 2 ''r''"

lemma example_qualified: "qualified_derive D sp i \<noteq> ''a''" "qualified_derive D sp i \<noteq> ''o''"
  by (simp_all add: qualified_derive_def QUALIFIED_ID_PREFIX_def Let_def)

definition example_actions :: "merge_action list" where
  "example_actions =
     [KeepTargetEntity (example_entity 1 ''a'' 100 ''Ada''),
      ApplyEntityDisposition (example_entity 2 ''b'' 200 ''Ada L'')
        (Coalesce (ObjectAddress 2 ''b'') (ObjectAddress 1 ''a'') (CHR ''R'' # pad)),
      ApplyEntityDisposition (example_entity 2 ''c'' 201 ''Carl'')
        (AddDistinct (ObjectAddress 2 ''c'') (qualified_derive example_deps 2 ''c'') NoCandidate None),
      KeepTargetObservation (example_observation 1 ''o'' ''a'' 101 ''x'') (ResTarget ''a''),
      MergeObservationOrigin (example_observation 2 ''p'' ''b'' 202 ''x'') (ResTarget ''o'') (ResTarget ''a''),
      AddObservation (example_observation 2 ''q'' ''c'' 203 ''y'') (qualified_derive example_deps 2 ''q'')
        (ResQualified (qualified_derive example_deps 2 ''c'')),
      AddRelation (example_relation 2 ''r'' ''b'' ''knows'' ''c'' 204) (qualified_derive example_deps 2 ''r'')
        (ResTarget ''a'') (ResQualified (qualified_derive example_deps 2 ''c''))]"

lemma binary_search_two: "binary_search_by f [x, y] =
    (if f y = Greater then if f x = Equal then Some 0 else None else if f y = Equal then Some 1 else None)"
proof -
  have 1: "bsearch_loop g b 1 = b" for g b by (subst bsearch_loop.simps) simp
  have "bsearch_loop g 0 2 = (if g 1 = Greater then 0 else 1)" for g
    by (subst bsearch_loop.simps) (simp add: 1 [simplified])
  from this [of "\<lambda>k. f ([x, y] ! k)"] show ?thesis
    by (simp add: binary_search_by_def Let_def numeral_2_eq_2)
qed

lemma example_run: "\<exists>plan s'. plan_merge example_deps memory_sink example_target example_source
    example_receipts example_policy example_sink = (Inr plan, s') \<and> mas_actions s' = example_actions"
  by (simp add: plan_merge_def plan_after_begin_def plan_phases_def run_then_def Let_def example_dispositions
      example_target_def example_source_def validate_headers_def memory_sink_def memory_begin_def example_sink_def
      verifier_new_def initial_locals_def
      target_entity_visitor_def verify_target_def verifier_entity_def ensure_record_def verifier_hash_mut_def
      target_entity_body_def bm_contains_def bm_get_def count_in_def emit_def emit_state_def memory_emit_def
      counts_default_def total_actions_def MAX_ACTIONS_def less_eq_object_address_def verifier_end_entities_def
      source_entity_visitor_def verify_source_def source_entity_body_def binary_search_two cmp_def
      public_disposition_def example_ref_def example_qualified all_seen_def
      target_observation_visitor_def target_observation_body_def verifier_observation_def bm_or_insert_def
      verifier_end_observations_def source_observation_visitor_def source_observation_body_def observation_key_def
      relation_key_def qualified_collision_key_def verifier_relation_def verifier_finish_def
      source_relation_visitor_def source_relation_body_def plan_finish_def validate_accounting_def
      finish_accounting_def memory_finish_def prelude_of_def example_actions_def)

end
