(* ===== verification/Om_Witnesses.thy ===== *)
theory Om_Witnesses
  imports Om_Examples
begin

text \<open>
  Each property with a hypothesis, applied where its hypotheses hold: the run of \<open>Om_Examples\<close>, its
  snapshots and receipts, and small instances of the other components.
\<close>

section \<open>Planning\<close>

definition example_planned :: "merge_plan \<Rightarrow> memory_action_sink \<Rightarrow> bool" where
  "example_planned plan s' \<longleftrightarrow> planned_into example_deps example_target example_source example_receipts
     example_policy plan s' \<and> mas_actions s' = example_actions"

lemma example_planned_ex: "\<exists>plan s'. example_planned plan s'"
  using example_run example_sink_new unfolding planned_into_def example_planned_def by blast

theorem plan_covers_inputs_witness:
  "\<exists>plan s'. example_planned plan s' \<and> map action_input (mas_actions s') =
     [TargetEntity (example_entity 1 ''a'' 100 ''Ada''), SourceEntity (example_entity 2 ''b'' 200 ''Ada L''),
      SourceEntity (example_entity 2 ''c'' 201 ''Carl''),
      TargetObservation (example_observation 1 ''o'' ''a'' 101 ''x''),
      SourceObservation (example_observation 2 ''p'' ''b'' 202 ''x''),
      SourceObservation (example_observation 2 ''q'' ''c'' 203 ''y''),
      SourceRelation (example_relation 2 ''r'' ''b'' ''knows'' ''c'' 204)]"
proof -
  obtain plan s' where e: "example_planned plan s'" using example_planned_ex by blast
  then have "planned_into example_deps example_target example_source example_receipts example_policy plan s'"
    by (simp add: example_planned_def)
  from arg_cong [OF plan_covers_inputs [OF this], of "map projr"] e show ?thesis
    by (intro exI [of _ plan] exI [of _ s']) (simp add: example_target_def example_source_def comp_def)
qed

theorem plan_has_no_dangling_reference_witness:
  "\<exists>plan s'. example_planned plan s' \<and>
     set (gather entity_references (mas_actions s')) \<subseteq> set (gather result_entity (mas_actions s')) \<and>
     ResTarget ''a'' \<in> set (gather entity_references (mas_actions s')) \<and>
     merged_observation (mas_actions s' ! 4) = [ResTarget ''o'']"
proof -
  obtain plan s' where e: "example_planned plan s'" using example_planned_ex by blast
  then have p: "planned_into example_deps example_target example_source example_receipts example_policy plan s'"
    and as: "mas_actions s' = example_actions" by (simp_all add: example_planned_def)
  have "set (gather entity_references (mas_actions s')) \<subseteq> set (gather result_entity (mas_actions s'))"
    using plan_has_no_dangling_reference [OF p] by blast
  moreover have "ResTarget ''a'' \<in> set (gather entity_references (mas_actions s'))"
    "merged_observation (mas_actions s' ! 4) = [ResTarget ''o'']"
    by (simp_all add: as example_actions_def)
  ultimately show ?thesis using e by blast
qed

theorem plan_result_ids_distinct_witness:
  "\<exists>plan s'. example_planned plan s' \<and> distinct (map result_as_str (gather result_entity (mas_actions s'))) \<and>
     map result_as_str (gather result_entity (mas_actions s')) = [''a'', qualified_derive example_deps 2 ''c'']"
proof -
  obtain plan s' where e: "example_planned plan s'" using example_planned_ex by blast
  then have p: "planned_into example_deps example_target example_source example_receipts example_policy plan s'"
    and as: "mas_actions s' = example_actions" by (simp_all add: example_planned_def)
  have "map result_as_str (gather result_entity (mas_actions s')) = [''a'', qualified_derive example_deps 2 ''c'']"
    by (simp add: as example_actions_def elog_def)
  then show ?thesis using plan_result_ids_distinct [OF p] e by (intro exI [of _ plan] exI [of _ s']) simp
qed

theorem published_plan_verifies_witness:
  "\<exists>plan s'. example_planned plan s' \<and> mas_plan s' = Some plan \<and>
     verify_plan example_deps example_actions plan = Inr ()"
proof -
  obtain plan s' where e: "example_planned plan s'" using example_planned_ex by blast
  then have p: "planned_into example_deps example_target example_source example_receipts example_policy plan s'"
    and as: "mas_actions s' = example_actions" by (simp_all add: example_planned_def)
  from published_plan_verifies [OF p] e show ?thesis unfolding as by blast
qed

text \<open>Without its receipts the same merge fails after the target entity was emitted.\<close>

theorem failed_plan_publishes_nothing_witness:
  "\<exists>e s'. plan_merge example_deps memory_sink example_target example_source
       \<lparr>pr_discoveries = [], pr_resolutions = [], pr_keep_distinct = []\<rparr> example_policy example_sink = (Inl e, s') \<and>
     mas_state s' = Aborted \<and> mas_plan s' = None \<and> mas_actions s' = []"
proof -
  have "\<exists>e s'. plan_merge example_deps memory_sink example_target example_source
       \<lparr>pr_discoveries = [], pr_resolutions = [], pr_keep_distinct = []\<rparr> example_policy example_sink = (Inl e, s') \<and>
     mas_state s' = Aborted"
    by (simp add: plan_merge_def plan_after_begin_def plan_phases_def run_then_def Let_def
      prepare_dispositions_def collect_discoveries_def collect_resolutions_def collect_keeps_def
      example_target_def example_source_def validate_headers_def memory_sink_def memory_begin_def example_sink_def
      verifier_new_def initial_locals_def
      target_entity_visitor_def verify_target_def verifier_entity_def ensure_record_def verifier_hash_mut_def
      target_entity_body_def bm_contains_def bm_get_def count_in_def emit_def emit_state_def memory_emit_def
      counts_default_def total_actions_def MAX_ACTIONS_def verifier_end_entities_def
      source_entity_visitor_def verify_source_def source_entity_body_def binary_search_by_def fail_with_def
      memory_abort_def)
  then obtain e s' where run: "plan_merge example_deps memory_sink example_target example_source
       \<lparr>pr_discoveries = [], pr_resolutions = [], pr_keep_distinct = []\<rparr> example_policy example_sink = (Inl e, s')"
    and st: "mas_state s' = Aborted" by blast
  have "s' \<noteq> example_sink" using st by (auto simp: example_sink_def)
  then show ?thesis using failed_plan_publishes_nothing [OF run] run st by blast
qed

theorem coalescence_is_reviewed_witness:
  "\<exists>d\<in>set (pr_discoveries example_receipts). \<exists>c\<in>set (dr_candidates d). \<exists>res\<in>set (pr_resolutions example_receipts).
     receipt_matches_candidate res c \<and> ir_decision res = Same \<and> CHR ''R'' # pad = ir_hash res \<and>
     rv_address (ic_target c) = ObjectAddress 1 ''a'' \<and> rv_snapshot (ic_target c) = 10"
proof -
  obtain plan s' where p: "planned_into example_deps example_target example_source example_receipts example_policy plan s'"
    and as: "mas_actions s' = example_actions" using example_planned_ex unfolding example_planned_def by blast
  have "ApplyEntityDisposition (example_entity 2 ''b'' 200 ''Ada L'')
      (Coalesce (ObjectAddress 2 ''b'') (ObjectAddress 1 ''a'') (CHR ''R'' # pad)) \<in> set (mas_actions s')"
    by (simp add: as example_actions_def)
  from coalescence_is_reviewed [OF p this] show ?thesis by (fastforce simp: example_target_def)
qed

theorem coalescence_is_one_to_one_witness:
  "\<exists>plan s'. example_planned plan s' \<and> distinct (gather coalesced_target (mas_actions s')) \<and>
     gather coalesced_target (mas_actions s') = [ObjectAddress 1 ''a'']"
proof -
  obtain plan s' where e: "example_planned plan s'" using example_planned_ex by blast
  then have p: "planned_into example_deps example_target example_source example_receipts example_policy plan s'"
    and as: "mas_actions s' = example_actions" by (simp_all add: example_planned_def)
  have "gather coalesced_target (mas_actions s') = [ObjectAddress 1 ''a'']"
    by (simp add: as example_actions_def)
  then show ?thesis using coalescence_is_one_to_one [OF p] e by (intro exI [of _ plan] exI [of _ s']) simp
qed

theorem plan_makes_no_self_loop_witness:
  "\<exists>plan s'. example_planned plan s' \<and>
     set (gather self_loop_of (mas_actions s')) \<subseteq> set (mp_allowed_self_loop_predicates example_policy)"
proof -
  obtain plan s' where e: "example_planned plan s'" using example_planned_ex by blast
  then have p: "planned_into example_deps example_target example_source example_receipts example_policy plan s'"
    by (simp add: example_planned_def)
  show ?thesis using plan_makes_no_self_loop [OF p] e by blast
qed

theorem plan_deduplicates_witness:
  "(observation_key example_deps (ResTarget ''a'') Active ''x'', ResTarget ''o'') \<in>
     set (gather (observation_entry example_deps) (take 4 example_actions))"
proof -
  obtain plan s' where p: "planned_into example_deps example_target example_source example_receipts example_policy plan s'"
    and as: "mas_actions s' = example_actions" using example_planned_ex unfolding example_planned_def by blast
  have "(4::nat) < length (mas_actions s')" by (simp add: as example_actions_def)
  from plan_deduplicates [OF p this] show ?thesis by (simp add: as) (simp add: example_actions_def)
qed

theorem plan_accounting_exact_witness:
  "\<exists>plan s'. example_planned plan s' \<and> unat (total_actions (mpl_action_counts plan)) = 7 \<and>
     unat (result_entities (mpl_accounting plan)) = 2 \<and> unat (result_observations (mpl_accounting plan)) = 2 \<and>
     unat (result_relations (mpl_accounting plan)) = 1 \<and> unat (coalesced_entities (mpl_action_counts plan)) = 1 \<and>
     unat (merged_observations (mpl_action_counts plan)) = 1"
proof -
  obtain plan s' where e: "example_planned plan s'" using example_planned_ex by blast
  then have p: "planned_into example_deps example_target example_source example_receipts example_policy plan s'"
    and as: "mas_actions s' = example_actions" by (simp_all add: example_planned_def)
  from plan_accounting_exact [OF p] e show ?thesis
    by (intro exI [of _ plan] exI [of _ s']) (simp add: as example_actions_def)
qed

theorem plan_binds_inputs_witness:
  "\<exists>plan s' ses sos srs. example_planned plan s' \<and> ss_entities example_source = map Inr ses \<and>
     stream_valid (ss_header example_source) ses sos srs \<and>
     pp_source_snapshot_hash (mpl_prelude plan) = stream_hash example_deps (ss_header example_source) ses sos srs"
proof -
  obtain plan s' where e: "example_planned plan s'" using example_planned_ex by blast
  then have p: "planned_into example_deps example_target example_source example_receipts example_policy plan s'"
    by (simp add: example_planned_def)
  show ?thesis using plan_binds_inputs [OF p] e by blast
qed

theorem plan_action_bound_witness:
  "\<exists>plan s'. example_planned plan s' \<and> length (mas_actions s') < MAX_ACTIONS \<and> length (mas_actions s') = 7"
proof -
  obtain plan s' where e: "example_planned plan s'" using example_planned_ex by blast
  then have p: "planned_into example_deps example_target example_source example_receipts example_policy plan s'"
    and as: "mas_actions s' = example_actions" by (simp_all add: example_planned_def)
  have "length (mas_actions s') = 7" by (simp add: as example_actions_def)
  then show ?thesis using plan_action_bound [OF p] e by (intro exI [of _ plan] exI [of _ s']) simp
qed

theorem dispositions_justified_witness:
  "\<exists>planned acc. prepare_dispositions example_receipts example_policy = Inr (planned, acc) \<and>
     length planned = 2 \<and> distinct (coalesced_into planned)"
proof -
  from dispositions_justified [OF example_dispositions] example_dispositions show ?thesis by fastforce
qed

theorem receipts_all_consumed_witness:
  "\<exists>d\<in>set (pr_discoveries example_receipts). \<exists>c\<in>set (dr_candidates d).
     receipt_matches_candidate example_resolution c"
proof -
  have "\<forall>d\<in>set (pr_discoveries example_receipts). length (dr_candidates d) < 2 ^ 64"
    by (simp add: example_receipts_def example_discovery_def)
  from receipts_all_consumed [OF example_dispositions this] show ?thesis
    by (simp add: example_receipts_def)
qed

section \<open>Snapshots and the verifier\<close>

definition ada :: entity_record where "ada = example_entity 1 ''a'' 100 ''Ada''"
definition bob :: entity_record where "bob = example_entity 1 ''b'' 101 ''Bob''"
definition wrote :: observation_record where "wrote = example_observation 1 ''o'' ''a'' 102 ''x''"

lemmas example_records = ada_def bob_def wrote_def

lemma example_trimmed: "is_trimmed ''a''" "is_trimmed ''b''" "is_trimmed ''o''" "is_trimmed ''Ada''"
    "is_trimmed ''Bob''" "is_trimmed ''x''"
  by code_simp+

lemma example_wf: "entity_wf ada" "entity_wf bob" "observation_wf wrote" "space_version_wf example_version"
  by (simp_all add: example_records entity_wf_def example_entity_def observation_wf_def example_observation_def
      logical_ok_def valid_token_def valid_text_def origins_wf_def origin_wf_def opt_token_def
      bs_ok_def bm_ok_def max_defs logical_id_from_projection_def logical_id_new_def strip_prefix_def starts_with_def example_trimmed QUALIFIED_ID_PREFIX_def
      space_version_wf_def example_version_def)

lemma example_snapshot:
  "\<exists>m. memory_snapshot_new example_deps 10 1 example_version [bob, ada] [wrote] [] = Inr m"
  unfolding memory_snapshot_new_ok
  by (simp add: records_valid_def example_records MAX_SNAPSHOT_RECORDS_def less_object_address_def
      less_eq_object_address_def)

theorem semantic_input_binds_record_witness:
  "semantic_input example_deps (SemanticEntity ada) \<noteq> semantic_input example_deps (SemanticEntity bob)"
  using semantic_input_binds_record [OF example_deps_ok, of "SemanticEntity ada" "SemanticEntity bob"] example_wf
  by (simp add: example_records example_entity_def)

theorem snapshot_order_independent_witness:
  "\<exists>m. memory_snapshot_new example_deps 10 1 example_version [bob, ada] [wrote] [] = Inr m \<and>
     memory_snapshot_new example_deps 10 1 example_version [ada, bob] [wrote] [] = Inr m"
proof -
  obtain m where m: "memory_snapshot_new example_deps 10 1 example_version [bob, ada] [wrote] [] = Inr m"
    using example_snapshot by blast
  have "mset [ada, bob] = mset [bob, ada]" by simp
  from snapshot_order_independent [OF m this refl refl] m show ?thesis by blast
qed

theorem snapshot_input_binds_content_witness:
  "\<exists>m m'. memory_snapshot_new example_deps 10 1 example_version [bob, ada] [wrote] [] = Inr m \<and>
     memory_snapshot_new example_deps 10 1 example_version [bob, ada] [] [] = Inr m' \<and>
     snapshot_bytes example_deps 10 1 example_version (ms_entities m) (ms_observations m) (ms_relations m) \<noteq>
     snapshot_bytes example_deps 10 1 example_version (ms_entities m') (ms_observations m') (ms_relations m')"
proof -
  obtain m where m: "memory_snapshot_new example_deps 10 1 example_version [bob, ada] [wrote] [] = Inr m"
    using example_snapshot by blast
  have "\<exists>m'. memory_snapshot_new example_deps 10 1 example_version [bob, ada] [] [] = Inr m'"
    unfolding memory_snapshot_new_ok
    by (simp add: records_valid_def example_records MAX_SNAPSHOT_RECORDS_def less_object_address_def
        less_eq_object_address_def)
  then obtain m' where m': "memory_snapshot_new example_deps 10 1 example_version [bob, ada] [] [] = Inr m'" by blast
  have "records_wf [bob, ada] [wrote] []" "records_wf [bob, ada] [] []"
    using example_wf by (simp_all add: records_wf_def)
  note b = snapshot_input_binds_content [OF example_deps_ok example_wf(4) example_wf(4) this m m']
  have "ms_observations m = [wrote]" "ms_observations m' = []"
    using m m' unfolding memory_snapshot_new_ok by (auto simp: snapshot_of_def case_prod_unfold Let_def)
  then show ?thesis using b m m' by (intro exI [of _ m] exI [of _ m']) simp
qed

theorem verifier_accepts_exactly_witness:
  "stream_valid (example_header 10 1 1 1 0 (stream_hash example_deps (example_header 10 1 1 1 0 []) [ada] [wrote] []))
     [ada] [wrote] [] \<and>
   (\<exists>w. verify_stream example_deps
     (example_header 10 1 1 1 0 (stream_hash example_deps (example_header 10 1 1 1 0 []) [ada] [wrote] []))
     [ada] [wrote] [] = Inr w)"
proof -
  let ?h = "example_header 10 1 1 1 0 (stream_hash example_deps (example_header 10 1 1 1 0 []) [ada] [wrote] [])"
  have v: "stream_valid ?h [ada] [wrote] []" by (simp add: stream_valid_def example_records)
  have "length [ada] < 2 ^ 64" "length [wrote] < 2 ^ 64" "length ([] :: relation_record list) < 2 ^ 64" by simp_all
  from verifier_accepts_exactly [OF this, of example_deps ?h] v show ?thesis by (simp add: stream_hash_def)
qed

theorem memory_snapshot_verifies_witness:
  "\<exists>m w. memory_snapshot_new example_deps 10 1 example_version [bob, ada] [wrote] [] = Inr m \<and>
     verify_stream example_deps (ms_header m) (ms_entities m) (ms_observations m) (ms_relations m) = Inr w"
proof -
  obtain m where m: "memory_snapshot_new example_deps 10 1 example_version [bob, ada] [wrote] [] = Inr m"
    using example_snapshot by blast
  from memory_snapshot_verifies [OF m] m show ?thesis by blast
qed

section \<open>Evidence, discovery and receipts\<close>

text \<open>Two revisions with one lineage, and a policy without authoritative namespaces.\<close>

definition left_entity :: entity_record where
  "left_entity = (example_entity 1 ''a'' 100 ''Ada'')\<lparr>er_lineage := Some ''L''\<rparr>"
definition right_entity :: entity_record where
  "right_entity = (example_entity 2 ''b'' 200 ''ada'')\<lparr>er_lineage := Some ''L''\<rparr>"
definition plain_policy :: identity_policy where
  "plain_policy = \<lparr>ip_policy_generation = 1, ip_ontology_generation = 1,
     ip_authoritative = [], ip_kind_relations = []\<rparr>"

lemma example_packet: "\<exists>p. analyze_pair example_deps left_entity 10 right_entity 20 plain_policy = Inr p"
    "\<exists>p. analyze_pair example_deps right_entity 20 left_entity 10 plain_policy = Inr p"
  by (simp_all add: analyze_pair_def Let_def left_entity_def right_entity_def)

lemma example_proofs: "pair_proves_same plain_policy left_entity 10 right_entity 20"
    "\<not> pair_proves_different plain_policy left_entity 10 right_entity 20"
  by (simp_all add: pair_proves_same_def pair_proves_different_def left_entity_def right_entity_def example_entity_def)

theorem analyze_pair_sound_witness:
  "\<exists>p. analyze_pair example_deps left_entity 10 right_entity 20 plain_policy = Inr p \<and> pk_resolution p = ProofSame"
proof -
  obtain p where p: "analyze_pair example_deps left_entity 10 right_entity 20 plain_policy = Inr p"
    using example_packet by blast
  from analyze_pair_sound [OF p] example_proofs p show ?thesis by simp
qed

theorem analyze_pair_symmetric_witness:
  "\<exists>p q. analyze_pair example_deps left_entity 10 right_entity 20 plain_policy = Inr p \<and>
     analyze_pair example_deps right_entity 20 left_entity 10 plain_policy = Inr q \<and> pk_resolution p = pk_resolution q"
proof -
  obtain p q where p: "analyze_pair example_deps left_entity 10 right_entity 20 plain_policy = Inr p"
    "analyze_pair example_deps right_entity 20 left_entity 10 plain_policy = Inr q"
    using example_packet by blast
  from analyze_pair_symmetric [OF p] p show ?thesis by blast
qed

theorem receipt_respects_evidence_witness:
  "\<exists>p r. analyze_pair example_deps left_entity 10 right_entity 20 plain_policy = Inr p \<and>
     issued example_deps p r \<and> ir_decision r = Same \<and>
     ir_target r = EntityRevisionRef (ObjectAddress 1 ''a'') 100 10 \<and>
     (\<exists>event role. ir_authority r = HumanAuthority event role)"
proof -
  obtain p where p: "analyze_pair example_deps left_entity 10 right_entity 20 plain_policy = Inr p"
    using example_packet by blast
  have "pk_resolution p = ProofSame" using analyze_pair_resolution [OF p] example_proofs by simp
  then have "\<exists>r. receipt_reviewed example_deps p Same 300 Reviewer = Inr r \<and> ir_decision r = Same"
    by (simp add: receipt_reviewed_def can_review_def receipt_build_def)
  then obtain r where r: "issued example_deps p r" "ir_decision r = Same" unfolding issued_iff by blast
  from receipt_respects_evidence [OF p r(1)] r p show ?thesis by (simp add: left_entity_def) blast
qed

text \<open>An index of two entities, of which one has the label of the source.\<close>

definition namesake :: entity_record where "namesake = example_entity 2 ''n'' 210 ''Ada''"

lemma example_index: "\<exists>x. candidate_index_build example_deps 1 10 plain_policy [ada, bob] = Inr x"
  by (simp add: candidate_index_build_def example_records Let_def bm_contains_def bm_get_def)

lemma example_discover: "\<exists>r. discover example_deps x namesake 20 32 = Inr r"
  by (simp add: discover_def Let_def MAX_CANDIDATE_CAP_def)

lemma example_signal: "SigExactLabel \<in> signals_of example_deps plain_policy ada 10 namesake 20"
  by (simp add: signals_of_def signal_holds_def example_records namesake_def example_entity_def)

lemma example_labels: "split_whitespace ''Ada'' = [''Ada'']" "split_whitespace ''Bob'' = [''Bob'']"
  by code_simp+

lemma example_unrelated: "signals_of example_deps plain_policy bob 10 namesake 20 = {}"
  by (auto simp: signals_of_def signal_holds_def example_records namesake_def example_entity_def
      normalize_label_def example_labels split: candidate_signal.splits)
    (simp add: example_deps_def)

theorem discover_exact_witness:
  "\<exists>x r. candidate_index_build example_deps 1 10 plain_policy [ada, bob] = Inr x \<and>
     discover example_deps x namesake 20 32 = Inr r \<and>
     (dr_truncated r \<or> (\<exists>c\<in>set (dr_candidates r). candidate_for example_deps plain_policy 10 namesake 20 ada c))"
proof -
  obtain x where x: "candidate_index_build example_deps 1 10 plain_policy [ada, bob] = Inr x" using example_index by blast
  obtain r where r: "discover example_deps x namesake 20 32 = Inr r" using example_discover by blast
  have "related example_deps plain_policy 10 namesake 20 ada" using example_signal by (auto simp: related_def)
  with discover_exact [OF x r] x r show ?thesis by auto
qed

theorem discover_ranked_witness:
  "\<exists>x r. candidate_index_build example_deps 1 10 plain_policy [ada, bob] = Inr x \<and>
     discover example_deps x namesake 20 32 = Inr r \<and> length (dr_candidates r) = 1 \<and> \<not> dr_truncated r"
proof -
  obtain x where x: "candidate_index_build example_deps 1 10 plain_policy [ada, bob] = Inr x" using example_index by blast
  obtain r where r: "discover example_deps x namesake 20 32 = Inr r" using example_discover by blast
  have "filter (related example_deps plain_policy 10 namesake 20) [ada, bob] = [ada]"
    using example_signal example_unrelated by (auto simp: related_def)
  with discover_ranked [OF x r] x r show ?thesis by auto
qed

text \<open>
  Alias evidence depends on the orientation of the pair: an alias of the left entity that is the
  label of the right one is evidence, while with the two entities exchanged it is not, because only
  the left label is excluded from the shared names.
\<close>

definition aliased :: entity_record where
  "aliased = (example_entity 1 ''a'' 100 ''Ada'')\<lparr>er_aliases := [''Bob'']\<rparr>"
definition labelled :: entity_record where "labelled = example_entity 2 ''b'' 200 ''Bob''"

theorem alias_evidence_is_not_symmetric:
  "\<exists>p q. analyze_pair example_deps aliased 10 labelled 20 plain_policy = Inr p \<and>
     analyze_pair example_deps labelled 20 aliased 10 plain_policy = Inr q \<and>
     map ev_kind (pk_evidence p) = [EvAlias] \<and> pk_evidence q = []"
proof -
  have n: "normalize_label example_deps ''Ada'' = ''Ada''" "normalize_label example_deps ''Bob'' = ''Bob''"
    by (simp_all add: normalize_label_def example_labels) (simp_all add: example_deps_def)
  show ?thesis
    by (simp add: analyze_pair_def Let_def aliased_def labelled_def example_entity_def lineage_step_def
        kind_step_def identifiers_step_def label_step_def alias_step_def n normalized_names_def bs_of_list_def
        policy_kind_compatibility_def note_evidence_def)
qed

section \<open>Spaces\<close>

theorem authority_input_binds_witness: "authority_input 1 [1, 2] \<noteq> authority_input 1 [2, 1]"
proof -
  have "length [1, 2 :: u64] < 2 ^ 64" "length [2, 1 :: u64] < 2 ^ 64" by simp_all
  from authority_input_binds [OF this, of 1 1] show ?thesis by simp
qed

text \<open>A UUID parser for the hyphenated text of \<open>example_deps\<close>, and the version field.\<close>

fun le_value :: "bytes \<Rightarrow> nat" where
  "le_value [] = 0"
| "le_value (c # cs) = of_char c + 256 * le_value cs"

lemma le_value_le_bytes: "n < 256 ^ k \<Longrightarrow> le_value (le_bytes k n) = n"
proof (induction k n rule: le_bytes.induct)
  case (2 k n)
  then have "n div 256 < 256 ^ k" by (simp add: less_mult_imp_div_less mult.commute)
  then show ?case using "2.IH" by (simp add: of_char_of)
qed simp

definition example_space_deps :: space_deps where
  "example_space_deps = \<lparr>blake3 = blake3 example_deps, hyphenated = hyphenated example_deps,
     to_lowercase = to_lowercase example_deps,
     parse_str = (\<lambda>s. map_option (\<lambda>b. of_nat (le_value b)) (parse_hex_pairs (take 32 s))),
     version_num = (\<lambda>u. unat (drop_bit 76 u) mod 16)\<rparr>"

lemma example_parse: "parse_str example_space_deps (hyphenated example_space_deps u) = Some u"
proof -
  have "unat u < 256 ^ 16" using unsigned_less [of u] by simp
  then show ?thesis
    by (simp add: example_space_deps_def example_hyphenated length_hash_display parse_hash_display le_value_le_bytes)
qed

lemma lower_hex_not_upper: "list_all is_lower_hex s \<Longrightarrow> \<not> list_ex is_ascii_uppercase s"
  by (induction s) (auto simp: is_lower_hex_def is_ascii_uppercase_def Let_def)

lemma example_not_upper: "\<not> list_ex is_ascii_uppercase (hyphenated example_space_deps u)"
  using lower_hex_not_upper [OF hash_display_hex [of "le_bytes 16 (unat u)"]]
  by (simp add: example_space_deps_def example_hyphenated is_ascii_uppercase_def)

theorem uuid_id_canonical_witness:
  "uuid_id_from_str example_space_deps ''space ID'' (uuid_id_display example_space_deps (push_bit 76 7)) =
     Inr (push_bit 76 7) \<and>
   uuid_id_from_str example_space_deps ''space ID'' (uuid_id_display example_space_deps (push_bit 76 4)) \<noteq>
     Inr (push_bit 76 4)"
proof -
  have "version_num example_space_deps (push_bit 76 7) = 7" "version_num example_space_deps (push_bit 76 4) = 4"
    by (simp_all add: example_space_deps_def)
  then show ?thesis
    using uuid_id_canonical [OF example_parse example_not_upper] by auto
qed

end
