(* ===== verification/Om_ThreeWay.thy ===== *)
theory Om_ThreeWay
  imports Om_Records
begin

text \<open>
  Deterministic three-way classification (\<open>three_way.rs\<close>): one value, a closed set of optional
  fields, and the lifecycle. The specification \<open>three_way\<close> is the merge of one position as a
  partial function; the loop over the fields is shown to be its pointwise lift.
\<close>

datatype three_way_source = FromBase | FromSource | FromTarget | IdenticalChange

record 'a three_way_value =
  tw_value :: 'a
  tw_source :: three_way_source

definition merge_value :: "'a \<Rightarrow> 'a \<Rightarrow> 'a \<Rightarrow> merge_error + 'a three_way_value" where
  "merge_value base source target =
     (if source = base \<and> target = base then Inr \<lparr>tw_value = base, tw_source = FromBase\<rparr>
      else if source \<noteq> base \<and> target = base then Inr \<lparr>tw_value = source, tw_source = FromSource\<rparr>
      else if source = base \<and> target \<noteq> base then Inr \<lparr>tw_value = target, tw_source = FromTarget\<rparr>
      else if source = target then Inr \<lparr>tw_value = source, tw_source = IdenticalChange\<rparr>
      else Inl (MergeError ThreeWayConflict ''source and target changed the same field differently''))"

record field_merge =
  fm_values :: "(str, str) btree_map"
  fm_sources :: "(str, three_way_source) btree_map"

fun merge_fields_loop ::
    "(str, str) btree_map \<Rightarrow> (str, str) btree_map \<Rightarrow> (str, str) btree_map \<Rightarrow> str list \<Rightarrow>
     field_merge \<Rightarrow> merge_error + field_merge" where
  "merge_fields_loop base source target [] acc = Inr acc"
| "merge_fields_loop base source target (key # keys) acc =
     bind_result (merge_value (bm_get base key) (bm_get source key) (bm_get target key)) (\<lambda>merged.
       merge_fields_loop base source target keys
         \<lparr>fm_values = (case tw_value merged of Some v \<Rightarrow> bm_insert key v (fm_values acc)
                        | None \<Rightarrow> fm_values acc),
          fm_sources = bm_insert key (tw_source merged) (fm_sources acc)\<rparr>)"

definition merge_fields ::
    "(str, str) btree_map \<Rightarrow> (str, str) btree_map \<Rightarrow> (str, str) btree_map \<Rightarrow> merge_error + field_merge" where
  "merge_fields base source target =
     (let keys = bs_of_list (bm_keys base @ bm_keys source @ bm_keys target)
      in merge_fields_loop base source target keys \<lparr>fm_values = [], fm_sources = []\<rparr>)"

definition merge_lifecycle ::
    "lifecycle \<Rightarrow> lifecycle \<Rightarrow> lifecycle \<Rightarrow> merge_error + lifecycle three_way_value" where
  "merge_lifecycle base source target = merge_value base source target"

section \<open>The specification of one position\<close>

text \<open>The side that changed wins; both sides must agree if both changed.\<close>

definition three_way :: "'a \<Rightarrow> 'a \<Rightarrow> 'a \<Rightarrow> 'a option" where
  "three_way base source target =
     (if source = base then Some target
      else if target = base \<or> target = source then Some source else None)"

definition swap_source :: "three_way_source \<Rightarrow> three_way_source" where
  "swap_source s = (case s of FromSource \<Rightarrow> FromTarget | FromTarget \<Rightarrow> FromSource | _ \<Rightarrow> s)"

lemma three_way_sym: "three_way b t s = three_way b s t"
  by (auto simp: three_way_def)

lemma merge_value_spec:
  "merge_value b s t = Inr r \<Longrightarrow> three_way b s t = Some (tw_value r)"
  "merge_value b s t = Inl e \<Longrightarrow> three_way b s t = None"
  by (auto simp: merge_value_def three_way_def split: if_splits)

lemma merge_value_error: "merge_value b s t = Inl e \<Longrightarrow> me_code e = ThreeWayConflict"
  by (auto simp: merge_value_def split: if_splits)

lemma merge_value_swap: "merge_value b t s =
    (case merge_value b s t of Inl e \<Rightarrow> Inl e
     | Inr r \<Rightarrow> Inr \<lparr>tw_value = tw_value r, tw_source = swap_source (tw_source r)\<rparr>)"
  by (auto simp: merge_value_def swap_source_def)

definition value_source :: "'a \<Rightarrow> 'a \<Rightarrow> 'a \<Rightarrow> three_way_source" where
  "value_source b s t = (if s = b \<and> t = b then FromBase else if t = b then FromSource
     else if s = b then FromTarget else IdenticalChange)"

lemma merge_value_source: "merge_value b s t = Inr r \<Longrightarrow> tw_source r = value_source b s t"
  by (auto simp: merge_value_def value_source_def split: if_splits)

lemma merge_fields_loop_ok:
  assumes "merge_fields_loop b s t ks acc = Inr m" "bm_ok (fm_values acc)" "bm_ok (fm_sources acc)"
    and "distinct ks" "\<forall>k\<in>set ks. bm_get (fm_values acc) k = None"
  shows "bm_ok (fm_values m) \<and> bm_ok (fm_sources m) \<and>
    (\<forall>k\<in>set ks. three_way (bm_get b k) (bm_get s k) (bm_get t k) = Some (bm_get (fm_values m) k)) \<and>
    (\<forall>k. k \<notin> set ks \<longrightarrow> bm_get (fm_values m) k = bm_get (fm_values acc) k) \<and>
    (\<forall>k. bm_get (fm_sources m) k = (if k \<in> set ks
       then Some (value_source (bm_get b k) (bm_get s k) (bm_get t k)) else bm_get (fm_sources acc) k))"
  using assms
proof (induction ks arbitrary: acc)
  case Nil
  then show ?case by simp
next
  case (Cons k ks)
  from Cons.prems(1) obtain r where r: "merge_value (bm_get b k) (bm_get s k) (bm_get t k) = Inr r"
    unfolding merge_fields_loop.simps bind_result_Inr by blast
  define acc' where "acc' = \<lparr>fm_values = (case tw_value r of Some v \<Rightarrow> bm_insert k v (fm_values acc)
      | None \<Rightarrow> fm_values acc), fm_sources = bm_insert k (tw_source r) (fm_sources acc)\<rparr>"
  have loop: "merge_fields_loop b s t ks acc' = Inr m"
    using Cons.prems(1) r by (simp add: acc'_def)
  have acc': "bm_ok (fm_values acc')" "bm_ok (fm_sources acc')"
    "\<forall>j\<in>set ks. bm_get (fm_values acc') j = None" "bm_get (fm_values acc') k = tw_value r"
    "\<forall>j. j \<noteq> k \<longrightarrow> bm_get (fm_values acc') j = bm_get (fm_values acc) j"
    "\<forall>j. bm_get (fm_sources acc') j = (if j = k then Some (tw_source r) else bm_get (fm_sources acc) j)"
    using Cons.prems(2-5) by (auto simp: acc'_def split: option.split)
  have dist: "distinct ks" "k \<notin> set ks" using Cons.prems(4) by auto
  note IH = Cons.IH [OF loop acc'(1,2) dist(1) acc'(3)]
  then have "bm_get (fm_values m) k = tw_value r" using dist(2) acc'(4) by simp
  then show ?case
    using IH dist(2) acc'(5,6) merge_value_spec(1) [OF r] merge_value_source [OF r] by auto
qed

lemma merge_fields_loop_error: "(\<exists>e. merge_fields_loop b s t ks acc = Inl e) \<longleftrightarrow>
    (\<exists>k\<in>set ks. three_way (bm_get b k) (bm_get s k) (bm_get t k) = None)"
proof (induction ks arbitrary: acc)
  case Nil
  then show ?case by simp
next
  case (Cons k ks)
  show ?case
  proof (cases "merge_value (bm_get b k) (bm_get s k) (bm_get t k)")
    case (Inl e)
    then have "three_way (bm_get b k) (bm_get s k) (bm_get t k) = None"
      by (rule merge_value_spec(2))
    with Inl show ?thesis by simp
  next
    case (Inr r)
    then show ?thesis using Cons.IH merge_value_spec(1) [OF Inr] by simp
  qed
qed

section \<open>Properties\<close>

text \<open>
  The three-way rule for one value: it fails, with a conflict, exactly when the two sides
  changed the base differently; otherwise the result carries every change made, and exchanging
  source and target gives the same value.
\<close>

theorem merge_value_no_change_lost:
  "(case merge_value base source target of
      Inl e \<Rightarrow> me_code e = ThreeWayConflict \<and> source \<noteq> base \<and> target \<noteq> base \<and> source \<noteq> target \<and>
        merge_value base target source = Inl e
    | Inr r \<Rightarrow> tw_value r = (if source \<noteq> base then source else target) \<and>
        tw_value r = (if target \<noteq> base then target else source) \<and>
        merge_value base target source =
          Inr \<lparr>tw_value = tw_value r, tw_source = swap_source (tw_source r)\<rparr>)"
  by (auto simp: merge_value_def swap_source_def split: if_splits)

text \<open>
  Merging fields is the pointwise three-way merge: it fails exactly when some key conflicts,
  and otherwise every key's value is the three-way result of the three lookups (an edit, an
  insertion and a deletion alike) and the recorded sources cover exactly the keys present on some
  side.
\<close>

theorem merge_fields_pointwise:
  "(case merge_fields base source target of
      Inl e \<Rightarrow> \<exists>k. three_way (bm_get base k) (bm_get source k) (bm_get target k) = None
    | Inr m \<Rightarrow> bm_ok (fm_values m) \<and> bm_ok (fm_sources m) \<and>
        (\<forall>k. three_way (bm_get base k) (bm_get source k) (bm_get target k) = Some (bm_get (fm_values m) k)) \<and>
        (\<forall>k. bm_contains (fm_sources m) k \<longleftrightarrow>
           bm_contains base k \<or> bm_contains source k \<or> bm_contains target k))"
proof (cases "merge_fields base source target")
  case (Inl e)
  then show ?thesis
    using merge_fields_loop_error [of base source target _ "\<lparr>fm_values = [], fm_sources = []\<rparr>"]
    by (fastforce simp: merge_fields_def Let_def)
next
  case (Inr m)
  define ks where "ks = bs_of_list (bm_keys base @ bm_keys source @ bm_keys target)"
  have ks: "k \<in> set ks \<longleftrightarrow> bm_contains base k \<or> bm_contains source k \<or> bm_contains target k" for k
    by (simp add: ks_def bm_contains_iff)
  have loop: "merge_fields_loop base source target ks \<lparr>fm_values = [], fm_sources = []\<rparr> = Inr m"
    using Inr by (simp add: merge_fields_def ks_def)
  have "distinct ks" by (simp add: ks_def bs_ok_distinct)
  note res = merge_fields_loop_ok [OF loop, simplified, OF this]
  have "three_way (bm_get base k) (bm_get source k) (bm_get target k) = Some (bm_get (fm_values m) k)" for k
  proof (cases "k \<in> set ks")
    case True
    then show ?thesis using res by blast
  next
    case False
    then have "bm_get (fm_values m) k = None" using res by blast
    with False show ?thesis using ks [of k] by (simp add: three_way_def bm_contains_def)
  qed
  then show ?thesis using res Inr ks by (simp add: bm_contains_def)
qed

end
