(* ===== verification/Om_Journal.thy ===== *)
theory Om_Journal
  imports Om_Space
begin

text \<open>
  The write path below the ingestion bus: requests and their validation
  (\<open>openmemory-graph/src/remember.rs\<close>, \<open>batch.rs\<close>), the batch transaction with its checkpoint
  (\<open>batch.rs\<close>), its routing over the storage domains (\<open>openmemory-engine/src/partition.rs\<close>), and
  the per-shard journal with its replay (\<open>journal.rs\<close>).

  The rows a transaction writes, JSON, the hash function and \<open>str::to_lowercase\<close> are fields of
  \<open>bus_deps\<close>: the graph is a value of type \<open>'g\<close> that \<open>put_group\<close> turns into the next one or
  refuses to.
\<close>

section \<open>Requests\<close>

datatype entity_type = Person | Project | Concept | Tool | Preference | FactType | Event | Location
  | Organization

datatype memory_tier = Episodic | Semantic | Procedural

text \<open>An \<open>f32\<close> is its 32 bits: the write path only copies it.\<close>

type_synonym f32 = "32 word"
type_synonym i64 = "64 word"

record observation_input =
  oi_content :: str
  oi_confidence :: f32
  oi_source :: str
  oi_valid_from :: "i64 option"
  oi_valid_until :: "i64 option"
  oi_memory_tier :: memory_tier
  oi_title :: "str option"
  oi_summary :: "str option"
  oi_importance :: "f32 option"
  oi_source_kind :: "str option"
  oi_concepts :: "str list"
  oi_source_files :: "str list"

record relation_input =
  ri_relation_type :: str
  ri_target_name :: str
  ri_target_type :: entity_type
  ri_weight :: f32
  ri_source :: str

record remember_request =
  rq_name :: str
  rq_entity_type :: entity_type
  rq_observations :: "observation_input list"
  rq_relations :: "relation_input list"
  rq_source :: str

datatype memory_error = MemSqlite str | MemIo str | MemSchema str | MemInvalidInput str
  | MemEntityNotFound str | MemAmbiguousEntityName str "str list" | MemObservationNotFound str
  | MemChangeSetStale | MemChangeSetIdempotencyConflict | MemIndexRepairRequired | MemLock str
  | MemIndex str | MemSerde str

text \<open>\<open>s.trim().is_empty()\<close>.\<close>

definition is_blank :: "str \<Rightarrow> bool" where
  "is_blank s = (split_whitespace s = [])"

fun check_observations :: "observation_input list \<Rightarrow> memory_error + unit" where
  "check_observations [] = Inr ()"
| "check_observations (x # xs) =
     (if is_blank (oi_content x) then Inl (MemInvalidInput ''observation content must not be empty'')
      else check_observations xs)"

fun check_relations :: "relation_input list \<Rightarrow> memory_error + unit" where
  "check_relations [] = Inr ()"
| "check_relations (x # xs) =
     (if is_blank (ri_relation_type x) then Inl (MemInvalidInput ''relation_type must not be empty'')
      else if is_blank (ri_target_name x)
      then Inl (MemInvalidInput ''relation target name must not be empty'')
      else check_relations xs)"

definition validate_group ::
    "str \<Rightarrow> observation_input list \<Rightarrow> relation_input list \<Rightarrow> memory_error + unit" where
  "validate_group name obs rels =
     (if is_blank name then Inl (MemInvalidInput ''entity name must not be empty'')
      else bind_result (check_observations obs) (\<lambda>_. check_relations rels))"

definition validate_request :: "remember_request \<Rightarrow> memory_error + unit" where
  "validate_request r = validate_group (rq_name r) (rq_observations r) (rq_relations r)"

definition request_new :: "str \<Rightarrow> entity_type \<Rightarrow> remember_request" where
  "request_new name t =
     \<lparr>rq_name = name, rq_entity_type = t, rq_observations = [], rq_relations = [], rq_source = []\<rparr>"

definition with_relations :: "relation_input list \<Rightarrow> remember_request \<Rightarrow> remember_request" where
  "with_relations rels r = r\<lparr>rq_relations := rels\<rparr>"

definition with_source :: "str \<Rightarrow> remember_request \<Rightarrow> remember_request" where
  "with_source src r = r\<lparr>rq_source := src\<rparr>"

section \<open>The batch transaction\<close>

record 'g bus_deps =
  put_group :: "bool \<Rightarrow> remember_request \<Rightarrow> 'g \<Rightarrow> memory_error + 'g"
  put_audit :: "remember_request list \<Rightarrow> 'g \<Rightarrow> memory_error + 'g"
  to_json :: "nat \<Rightarrow> remember_request \<Rightarrow> str option"
  from_json :: "str \<Rightarrow> (nat \<times> remember_request) option"
  lower :: "str \<Rightarrow> str"
  hash_bytes :: "str \<Rightarrow> nat"

record batch_options =
  bo_normalize :: bool
  bo_checkpoint :: "(str \<times> nat) option"

definition batch_options_default :: batch_options where
  "batch_options_default = \<lparr>bo_normalize = True, bo_checkpoint = None\<rparr>"

type_synonym entry = "nat \<times> remember_request"

text \<open>A database is its rows, the counters of \<open>memory_meta\<close> and, for the specification, the
  transactions that committed, each with the journal entries it carries.\<close>

record txn =
  tx_requests :: "remember_request list"
  tx_options :: batch_options
  tx_entries :: "entry list"

record 'g db =
  graph :: 'g
  meta :: "str \<Rightarrow> nat option"
  committed :: "txn list"

text \<open>The upsert only moves a checkpoint forward.\<close>

definition upsert_checkpoint :: "str \<Rightarrow> nat \<Rightarrow> (str \<Rightarrow> nat option) \<Rightarrow> (str \<Rightarrow> nat option)" where
  "upsert_checkpoint k v m =
     (case m k of None \<Rightarrow> m(k \<mapsto> v) | Some old \<Rightarrow> if v > old then m(k \<mapsto> v) else m)"

fun validate_all :: "remember_request list \<Rightarrow> memory_error + unit" where
  "validate_all [] = Inr ()"
| "validate_all (r # rs) = bind_result (validate_request r) (\<lambda>_. validate_all rs)"

fun put_groups :: "'g bus_deps \<Rightarrow> bool \<Rightarrow> remember_request list \<Rightarrow> 'g \<Rightarrow> memory_error + 'g" where
  "put_groups D norm [] g = Inr g"
| "put_groups D norm (r # rs) g = bind_result (put_group D norm r g) (put_groups D norm rs)"

text \<open>What SQLite itself may do to a call (a busy or full database): nothing, refuse the transaction,
  which leaves the database as it was, or refuse \<open>mark_index_generations_current\<close>, a second
  transaction that follows the commit of a non-empty batch. The result of the call is its return
  value and the database it committed, if it got that far.\<close>

datatype fault = No_Fault | Before_Commit memory_error | After_Commit memory_error

definition remember_batch :: "'g bus_deps \<Rightarrow> fault \<Rightarrow> entry list \<Rightarrow>
    remember_request list \<Rightarrow> batch_options \<Rightarrow> 'g db \<Rightarrow> (memory_error + unit) \<times> 'g db option" where
  "remember_batch D fault es requests opts d =
     (case validate_all requests of Inl e \<Rightarrow> (Inl e, None)
      | Inr _ \<Rightarrow>
        if requests = [] \<and> bo_checkpoint opts = None then (Inr (), None)
        else (case bind_result (put_groups D (bo_normalize opts) requests (graph d)) (\<lambda>g1.
                     if requests = [] then Inr g1 else put_audit D requests g1) of
                Inl e \<Rightarrow> (Inl e, None)
              | Inr g2 \<Rightarrow>
                let d' = d\<lparr>graph := g2,
                      meta := (case bo_checkpoint opts of None \<Rightarrow> meta d
                               | Some (k, v) \<Rightarrow> upsert_checkpoint k v (meta d)),
                      committed := committed d @ [\<lparr>tx_requests = requests, tx_options = opts, tx_entries = es\<rparr>]\<rparr>
                in (case fault of
                      No_Fault \<Rightarrow> (Inr (), Some d')
                    | Before_Commit e \<Rightarrow> (Inl e, None)
                    | After_Commit e \<Rightarrow> (if requests = [] then Inr () else Inl e, Some d'))))"

definition get_checkpoint :: "str \<Rightarrow> 'g db \<Rightarrow> nat option" where
  "get_checkpoint k d = meta d k"

section \<open>Storage domains\<close>

text \<open>A store is a database file and the states its write-ahead log adds to it, oldest first: what
  survives a power loss is one of them, what readers and writers see is the last.\<close>

record 'g memory_store =
  st_base :: "'g db"
  st_wal :: "'g db list"

definition current :: "'g memory_store \<Rightarrow> 'g db" where
  "current st = last (st_base st # st_wal st)"

definition survivors :: "'g memory_store \<Rightarrow> 'g db set" where
  "survivors st = set (st_base st # st_wal st)"

definition store_batch :: "'g bus_deps \<Rightarrow> fault \<Rightarrow> entry list \<Rightarrow>
    remember_request list \<Rightarrow> batch_options \<Rightarrow> 'g memory_store \<Rightarrow> (memory_error + unit) \<times> 'g memory_store" where
  "store_batch D fault es requests opts st =
     (case remember_batch D fault es requests opts (current st) of
        (r, None) \<Rightarrow> (r, st) | (r, Some d) \<Rightarrow> (r, st\<lparr>st_wal := st_wal st @ [d]\<rparr>))"

text \<open>\<open>wal_checkpoint\<close>: a complete passive checkpoint makes the current state durable; an incomplete
  one promises nothing.\<close>

definition wal_checkpoint :: "bool \<Rightarrow> 'g memory_store \<Rightarrow> 'g memory_store" where
  "wal_checkpoint complete st =
     (if complete then st\<lparr>st_base := current st, st_wal := []\<rparr> else st)"

definition PARTITION_STUB_SOURCE :: str where
  "PARTITION_STUB_SOURCE = ''partition:stub''"

definition hash_lowercase_key :: "'g bus_deps \<Rightarrow> str \<Rightarrow> nat" where
  "hash_lowercase_key D key = hash_bytes D (lower D key @ [char_of (255 :: nat)])"

definition domain_for :: "'g bus_deps \<Rightarrow> str \<Rightarrow> nat \<Rightarrow> nat" where
  "domain_for D key domains = hash_lowercase_key D key mod max domains 1"

text \<open>\<open>plan_batch\<close>: the caller's requests, the stub rows the home domain needs for remote targets,
  and the mirror edges of the other domains, here in the order they are first touched (the code
  collects a \<open>HashMap\<close>; the batches go to different databases).\<close>

record batch_plan =
  bp_stubs :: "remember_request list"
  bp_seen :: "(str \<times> entity_type) list"
  bp_mirrors :: "(nat \<times> remember_request list) list"

fun push_mirror :: "nat \<Rightarrow> remember_request \<Rightarrow> (nat \<times> remember_request list) list \<Rightarrow>
    (nat \<times> remember_request list) list" where
  "push_mirror d r [] = [(d, [r])]"
| "push_mirror d r ((e, rs) # ms) = (if d = e then (e, rs @ [r]) # ms else (e, rs) # push_mirror d r ms)"

definition plan_relation :: "'g bus_deps \<Rightarrow> nat \<Rightarrow> nat \<Rightarrow> remember_request \<Rightarrow> relation_input \<Rightarrow>
    batch_plan \<Rightarrow> batch_plan" where
  "plan_relation D home domains req rel p =
     (let target = domain_for D (ri_target_name rel) domains in
      if target = home then p
      else let stub = (lower D (ri_target_name rel), ri_target_type rel);
               p1 = (if stub \<in> set (bp_seen p) then p
                     else p\<lparr>bp_seen := stub # bp_seen p,
                       bp_stubs := bp_stubs p @ [with_source PARTITION_STUB_SOURCE
                         (request_new (ri_target_name rel) (ri_target_type rel))]\<rparr>);
               mirror = (if ri_source rel = [] then rel\<lparr>ri_source := rq_source req\<rparr> else rel)
           in p1\<lparr>bp_mirrors := push_mirror target
                (with_source PARTITION_STUB_SOURCE
                  (with_relations [mirror] (request_new (rq_name req) (rq_entity_type req))))
                (bp_mirrors p1)\<rparr>)"

definition plan_batch :: "'g bus_deps \<Rightarrow> nat \<Rightarrow> nat \<Rightarrow> remember_request list \<Rightarrow> batch_plan" where
  "plan_batch D home domains requests =
     (if domains = 1 then \<lparr>bp_stubs = [], bp_seen = [], bp_mirrors = []\<rparr>
      else fold (\<lambda>req. fold (plan_relation D home domains req) (rq_relations req)) requests
             \<lparr>bp_stubs = [], bp_seen = [], bp_mirrors = []\<rparr>)"

text \<open>The faults of one call, by the database it writes.\<close>

type_synonym faults = "nat \<Rightarrow> fault"

fun write_mirrors :: "'g bus_deps \<Rightarrow> faults \<Rightarrow> (nat \<times> remember_request list) list \<Rightarrow>
    'g memory_store list \<Rightarrow> 'g memory_store list" where
  "write_mirrors D env [] stores = stores"
| "write_mirrors D env ((d, batch) # ms) stores =
     write_mirrors D env ms
       (stores[d := snd (store_batch D (env d) [] batch \<lparr>bo_normalize = False, bo_checkpoint = None\<rparr> (stores ! d))])"

text \<open>\<open>remember_batch_in_domain_with_options\<close>: mirrors first, each in its own transaction and with
  failures tolerated, then the home transaction with the caller's checkpoint.\<close>

definition batch_in_domain :: "'g bus_deps \<Rightarrow> faults \<Rightarrow> nat \<Rightarrow> entry list \<Rightarrow> remember_request list \<Rightarrow>
    batch_options \<Rightarrow> 'g memory_store list \<Rightarrow> (memory_error + unit) \<times> 'g memory_store list" where
  "batch_in_domain D env domain es requests opts stores =
     (if length stores = 1
      then (case store_batch D (env domain) es requests opts (stores ! domain) of
              (r, st) \<Rightarrow> (r, stores[domain := st]))
      else let p = plan_batch D domain (length stores) requests;
               stores1 = write_mirrors D env (bp_mirrors p) stores
           in (case store_batch D (env domain) es (bp_stubs p @ requests) opts (stores1 ! domain) of
                 (r, st) \<Rightarrow> (r, stores1[domain := st])))"

section \<open>The journal file\<close>

text \<open>What the operating system holds of the file, the prefix of it that is on disk, and the buffer
  of the \<open>BufWriter\<close>.\<close>

record journal =
  jn_content :: str
  jn_synced :: nat
  jn_buffer :: str

definition BUF_CAPACITY :: nat where "BUF_CAPACITY = 8192"

definition jn_flush :: "journal \<Rightarrow> journal" where
  "jn_flush j = j\<lparr>jn_content := jn_content j @ jn_buffer j, jn_buffer := []\<rparr>"

text \<open>\<open>BufWriter::write_all\<close>: a write that does not fit the spare room empties the buffer first, and
  one as large as the buffer goes straight to the file.\<close>

definition jn_write :: "str \<Rightarrow> journal \<Rightarrow> journal" where
  "jn_write s j =
     (let j1 = (if length s > BUF_CAPACITY - length (jn_buffer j) then jn_flush j else j)
      in if length s \<ge> BUF_CAPACITY then j1\<lparr>jn_content := jn_content j1 @ s\<rparr>
         else j1\<lparr>jn_buffer := jn_buffer j1 @ s\<rparr>)"

definition newline :: char where "newline = char_of (10 :: nat)"

definition journal_append :: "'g bus_deps \<Rightarrow> nat \<Rightarrow> remember_request \<Rightarrow> journal \<Rightarrow> journal" where
  "journal_append D seq req j =
     (case to_json D seq req of None \<Rightarrow> j | Some line \<Rightarrow> jn_write [newline] (jn_write line j))"

definition jn_sync :: "journal \<Rightarrow> journal" where
  "jn_sync j = j\<lparr>jn_synced := length (jn_content j)\<rparr>"

definition journal_truncate :: "journal \<Rightarrow> journal" where
  "journal_truncate j = (jn_flush j)\<lparr>jn_content := [], jn_synced := 0\<rparr>"

text \<open>\<open>BufRead::lines\<close>: the text up to and including each newline, the rest if there is any; a line
  must be UTF-8, and loses its newline and then one carriage return.\<close>

fun raw_lines :: "str \<Rightarrow> str \<Rightarrow> str list" where
  "raw_lines cur [] = (if cur = [] then [] else [cur])"
| "raw_lines cur (c # cs) =
     (if c = newline then (cur @ [c]) # raw_lines [] cs else raw_lines (cur @ [c]) cs)"

definition cont_byte :: "nat \<Rightarrow> bool" where
  "cont_byte b = (128 \<le> b \<and> b \<le> 191)"

fun utf8_valid :: "nat list \<Rightarrow> bool" where
  "utf8_valid [] = True"
| "utf8_valid (a # s) =
     (if a < 128 then utf8_valid s
      else case s of [] \<Rightarrow> False
      | b # s2 \<Rightarrow>
          if 194 \<le> a \<and> a \<le> 223 then cont_byte b \<and> utf8_valid s2
          else case s2 of [] \<Rightarrow> False
          | c # s3 \<Rightarrow>
              if 224 \<le> a \<and> a \<le> 239
              then cont_byte b \<and> cont_byte c \<and> (a = 224 \<longrightarrow> 160 \<le> b) \<and> (a = 237 \<longrightarrow> b \<le> 159) \<and> utf8_valid s3
              else case s3 of [] \<Rightarrow> False
              | d # s4 \<Rightarrow>
                  240 \<le> a \<and> a \<le> 244 \<and> cont_byte b \<and> cont_byte c \<and> cont_byte d \<and>
                  (a = 240 \<longrightarrow> 144 \<le> b) \<and> (a = 244 \<longrightarrow> b \<le> 143) \<and> utf8_valid s4)"

definition strip_line :: "str \<Rightarrow> str" where
  "strip_line raw =
     (if raw \<noteq> [] \<and> last raw = newline
      then let s = butlast raw in if s \<noteq> [] \<and> last s = char_of (13 :: nat) then butlast s else s
      else raw)"

definition read_line :: "str \<Rightarrow> memory_error + str" where
  "read_line raw =
     (if utf8_valid (map of_char raw) then Inr (strip_line raw)
      else Inl (MemIo ''stream did not contain valid UTF-8''))"

section \<open>Replay\<close>

definition checkpoint_key :: "nat \<Rightarrow> str" where
  "checkpoint_key shard = ''engine:journal:'' @ display_nat shard"

record scan_state =
  sc_last_seq :: nat
  sc_pending :: "entry list"
  sc_max_pending :: nat

text \<open>One line: blank and unparseable lines are skipped.\<close>

definition scan_line :: "'g bus_deps \<Rightarrow> nat \<Rightarrow> str \<Rightarrow> scan_state \<Rightarrow> scan_state" where
  "scan_line D checkpoint line sc =
     (if is_blank line then sc
      else case from_json D line of None \<Rightarrow> sc
      | Some (seq, req) \<Rightarrow>
          let sc1 = sc\<lparr>sc_last_seq := max (sc_last_seq sc) seq\<rparr>
          in if seq > checkpoint
             then sc1\<lparr>sc_max_pending := max (sc_max_pending sc1) seq,
                      sc_pending := sc_pending sc1 @ [(seq, req)]\<rparr>
             else sc1)"

fun scan_lines :: "'g bus_deps \<Rightarrow> nat \<Rightarrow> str list \<Rightarrow> scan_state \<Rightarrow> memory_error + scan_state" where
  "scan_lines D checkpoint [] sc = Inr sc"
| "scan_lines D checkpoint (raw # raws) sc =
     bind_result (read_line raw) (\<lambda>line. scan_lines D checkpoint raws (scan_line D checkpoint line sc))"

text \<open>\<open>replay\<close>: \<open>file\<close> is what opening the journal gives, \<open>Inr None\<close> for a file that does not
  exist. The result is the last sequence number seen and the number of entries replayed.\<close>

definition replay :: "'g bus_deps \<Rightarrow> faults \<Rightarrow> nat \<Rightarrow> bool \<Rightarrow> memory_error + str option \<Rightarrow>
    'g memory_store list \<Rightarrow> (memory_error + nat \<times> nat) \<times> 'g memory_store list" where
  "replay D env shard norm file stores =
     (let domain = shard mod length stores; key = checkpoint_key shard;
          checkpoint = (case get_checkpoint key (current (stores ! domain)) of None \<Rightarrow> 0 | Some n \<Rightarrow> n)
      in case file of Inl e \<Rightarrow> (Inl e, stores)
         | Inr None \<Rightarrow> (Inr (checkpoint, 0), stores)
         | Inr (Some text) \<Rightarrow>
             (case scan_lines D checkpoint (raw_lines [] text)
                     \<lparr>sc_last_seq = checkpoint, sc_pending = [], sc_max_pending = 0\<rparr> of
                Inl e \<Rightarrow> (Inl e, stores)
              | Inr sc \<Rightarrow>
                  if sc_pending sc = [] then (Inr (sc_last_seq sc, 0), stores)
                  else (case batch_in_domain D env domain (sc_pending sc) (map snd (sc_pending sc))
                               \<lparr>bo_normalize = norm, bo_checkpoint = Some (key, sc_max_pending sc)\<rparr> stores of
                          (Inl e, stores') \<Rightarrow> (Inl e, stores')
                        | (Inr _, stores') \<Rightarrow> (Inr (sc_last_seq sc, length (sc_pending sc)), stores'))))"

end
