(* ===== verification/Om_Bus.thy ===== *)
theory Om_Bus
  imports Om_Journal
begin

text \<open>
  The ingestion bus (\<open>openmemory-engine/src/engine.rs\<close>): shard queues and tickets, the drain of a
  shard, durability watermarks, the maintenance pass, start-up with replay, crashes.

  A drain and a maintenance pass run beside the submitters, so each is a sequence of steps: a step
  is what the code does while it holds a lock or calls the store. Where a drain stands is the
  program counter \<open>sh_drain\<close>, where the maintenance stands is \<open>pr_maint\<close>.
\<close>

section \<open>Options\<close>

record engine_options =
  eo_shards :: nat
  eo_flush_interval :: nat
  eo_shard_capacity :: nat
  eo_flush_threads :: nat
  eo_normalize :: bool
  eo_journaling :: bool
  eo_checkpoint_interval :: nat

text \<open>\<open>journal_dir\<close> is only known by whether there is one; intervals are in nanoseconds.\<close>

definition engine_options_default :: engine_options where
  "engine_options_default = \<lparr>eo_shards = 32, eo_flush_interval = 20000000, eo_shard_capacity = 4096,
     eo_flush_threads = 2, eo_normalize = True, eo_journaling = False,
     eo_checkpoint_interval = 1000000000\<rparr>"

definition effective_flush_threads :: "nat \<Rightarrow> nat \<Rightarrow> nat" where
  "effective_flush_threads requested shard_count = min (max requested 1) (max shard_count 1)"

definition normalize_options :: "engine_options \<Rightarrow> engine_options" where
  "normalize_options opts =
     (let shards = max (eo_shards opts) 1 in
      opts\<lparr>eo_shards := shards,
           eo_shard_capacity := max (eo_shard_capacity opts) 1,
           eo_flush_threads := effective_flush_threads (eo_flush_threads opts) shards,
           eo_flush_interval := (if eo_flush_interval opts = 0 then 1000000 else eo_flush_interval opts),
           eo_checkpoint_interval :=
             (if eo_checkpoint_interval opts = 0 then 1000000 else eo_checkpoint_interval opts)\<rparr>)"

text \<open>The shards one flusher thread drains: \<open>(worker..shards).step_by(total_workers)\<close>.\<close>

definition flusher_lane :: "nat \<Rightarrow> nat \<Rightarrow> nat \<Rightarrow> nat list" where
  "flusher_lane shards total_workers worker =
     map (\<lambda>k. worker + k * total_workers)
       [0..<(shards - worker + total_workers - 1) div total_workers]"

section \<open>Shards\<close>

datatype drain_pc =
    Drain_Idle
  | Drain_Taken "entry list"
  | Drain_Synced "entry list"
  | Drain_Retrying "entry list" nat
  | Drain_Publish nat

text \<open>\<open>sh_tickets\<close> is a history: the submissions this process has accepted.\<close>

record shard =
  sh_buf :: "entry list"
  sh_next_seq :: nat
  sh_durable :: nat
  sh_failures :: "nat \<Rightarrow> memory_error option"
  sh_drain :: drain_pc
  sh_tickets :: "entry list"

definition shard_new :: "nat \<Rightarrow> shard" where
  "shard_new next_seq =
     \<lparr>sh_buf = [], sh_next_seq = next_seq, sh_durable = next_seq, sh_failures = (\<lambda>_. None),
      sh_drain = Drain_Idle, sh_tickets = []\<rparr>"

text \<open>The admission itself, under the queue lock.\<close>

definition admit :: "'g bus_deps \<Rightarrow> bool \<Rightarrow> remember_request \<Rightarrow> shard \<times> journal \<Rightarrow> shard \<times> journal" where
  "admit D journaling req sj =
     (let (sh, j) = sj; seq = sh_next_seq sh + 1
      in (sh\<lparr>sh_next_seq := seq, sh_buf := sh_buf sh @ [(seq, req)],
             sh_tickets := sh_tickets sh @ [(seq, req)]\<rparr>,
          if journaling then journal_append D seq req j else j))"

text \<open>\<open>drain_shard\<close>, first part: take the queue and push the buffered lines to the system.\<close>

definition drain_take :: "bool \<Rightarrow> shard \<times> journal \<Rightarrow> (shard \<times> journal) option" where
  "drain_take journaling sj =
     (let (sh, j) = sj in
      if sh_drain sh \<noteq> Drain_Idle \<or> sh_buf sh = [] then None
      else Some (sh\<lparr>sh_buf := [], sh_drain := Drain_Taken (sh_buf sh)\<rparr>,
                 if journaling then jn_flush j else j))"

text \<open>Second part, outside the queue lock: \<open>sync_data\<close>.\<close>

definition drain_sync :: "bool \<Rightarrow> shard \<times> journal \<Rightarrow> (shard \<times> journal) option" where
  "drain_sync journaling sj =
     (let (sh, j) = sj in
      case sh_drain sh of
        Drain_Taken drained \<Rightarrow>
          Some (sh\<lparr>sh_drain := Drain_Synced drained\<rparr>, if journaling then jn_sync j else j)
      | _ \<Rightarrow> None)"

text \<open>Requests about one entity from one source become one group, where the first of them was.\<close>

type_synonym drain_group_key = "str \<times> entity_type \<times> str"

definition drain_group_key :: "'g bus_deps \<Rightarrow> remember_request \<Rightarrow> drain_group_key" where
  "drain_group_key D req = (lower D (rq_name req), rq_entity_type req, rq_source req)"

definition absorb :: "remember_request \<Rightarrow> remember_request \<Rightarrow> remember_request" where
  "absorb req existing = existing\<lparr>rq_observations := rq_observations existing @ rq_observations req,
     rq_relations := rq_relations existing @ rq_relations req\<rparr>"

fun group_entries :: "'g bus_deps \<Rightarrow> entry list \<Rightarrow> (drain_group_key \<Rightarrow> nat option) \<Rightarrow>
    remember_request list \<Rightarrow> remember_request list" where
  "group_entries D [] groups batch = batch"
| "group_entries D ((seq, req) # es) groups batch =
     (case groups (drain_group_key D req) of
        Some i \<Rightarrow> group_entries D es groups (batch[i := absorb req (batch ! i)])
      | None \<Rightarrow> group_entries D es (groups(drain_group_key D req \<mapsto> length batch)) (batch @ [req]))"

definition group_drained :: "'g bus_deps \<Rightarrow> entry list \<Rightarrow> remember_request list" where
  "group_drained D drained = group_entries D drained (\<lambda>_. None) []"

text \<open>Third part: one transaction for the whole drain; if it fails, every request on its own.\<close>

definition drain_commit :: "'g bus_deps \<Rightarrow> engine_options \<Rightarrow> faults \<Rightarrow> nat \<Rightarrow>
    shard \<times> 'g memory_store list \<Rightarrow> (shard \<times> 'g memory_store list) option" where
  "drain_commit D opts env idx ss =
     (let (sh, stores) = ss in
      case sh_drain sh of
        Drain_Synced drained \<Rightarrow>
          let max_seq = (if drained = [] then 0 else fst (last drained))
          in (case batch_in_domain D env (idx mod length stores) drained (group_drained D drained)
                     \<lparr>bo_normalize = eo_normalize opts, bo_checkpoint = Some (checkpoint_key idx, max_seq)\<rparr>
                     stores of
                (Inr _, stores') \<Rightarrow> Some (sh\<lparr>sh_drain := Drain_Publish max_seq\<rparr>, stores')
              | (Inl _, stores') \<Rightarrow> Some (sh\<lparr>sh_drain := Drain_Retrying drained 0\<rparr>, stores'))
      | _ \<Rightarrow> None)"

text \<open>One round of the sequential retry. A request the store refuses is rejected for good only once
  the checkpoint past it has committed; if even that fails, the rest goes back to the queue.\<close>

definition drain_retry :: "'g bus_deps \<Rightarrow> engine_options \<Rightarrow> faults \<Rightarrow> faults \<Rightarrow> nat \<Rightarrow>
    shard \<times> 'g memory_store list \<Rightarrow> (shard \<times> 'g memory_store list) option" where
  "drain_retry D opts env1 env2 idx ss =
     (let (sh, stores) = ss in
      case sh_drain sh of
        Drain_Retrying [] published \<Rightarrow> Some (sh\<lparr>sh_drain := Drain_Publish published\<rparr>, stores)
      | Drain_Retrying ((seq, req) # rest) published \<Rightarrow>
          (case batch_in_domain D env1 (idx mod length stores) [(seq, req)] [req]
                  \<lparr>bo_normalize = eo_normalize opts, bo_checkpoint = Some (checkpoint_key idx, seq)\<rparr> stores of
             (Inr _, stores1) \<Rightarrow> Some (sh\<lparr>sh_drain := Drain_Retrying rest seq\<rparr>, stores1)
           | (Inl e, stores1) \<Rightarrow>
               (case batch_in_domain D env2 (idx mod length stores) [] []
                       \<lparr>bo_normalize = False, bo_checkpoint = Some (checkpoint_key idx, seq)\<rparr> stores1 of
                  (Inr _, stores2) \<Rightarrow>
                    Some (sh\<lparr>sh_failures := (sh_failures sh)(seq \<mapsto> e),
                             sh_drain := Drain_Retrying rest seq\<rparr>, stores2)
                | (Inl _, stores2) \<Rightarrow>
                    Some (sh\<lparr>sh_buf := ((seq, req) # rest) @ sh_buf sh,
                             sh_drain := Drain_Publish published\<rparr>, stores2)))
      | _ \<Rightarrow> None)"

text \<open>Last part: \<open>fetch_max\<close> on the watermark, after which waiters see the outcome.\<close>

definition drain_publish :: "shard \<Rightarrow> shard option" where
  "drain_publish sh =
     (case sh_drain sh of
        Drain_Publish seq \<Rightarrow> Some (sh\<lparr>sh_durable := max (sh_durable sh) seq, sh_drain := Drain_Idle\<rparr>)
      | _ \<Rightarrow> None)"

text \<open>\<open>wait_durable_result\<close>, when it does not block.\<close>

definition ticket_outcome :: "shard \<Rightarrow> nat \<Rightarrow> (memory_error + unit) option" where
  "ticket_outcome sh seq =
     (if sh_durable sh < seq then None
      else case sh_failures sh seq of None \<Rightarrow> Some (Inr ())
           | Some e \<Rightarrow> Some (Inl (MemInvalidInput ''write ticket failed'')))"

text \<open>\<open>drain_shard\<close> as one call, which it is for the other drains of its shard: they wait for its
  \<open>drain_lock\<close>. The number of retry rounds is at most that of the requests and one more.\<close>

fun retry_rounds :: "'g bus_deps \<Rightarrow> engine_options \<Rightarrow> (nat \<Rightarrow> faults \<times> faults) \<Rightarrow> nat \<Rightarrow> nat \<Rightarrow>
    shard \<times> 'g memory_store list \<Rightarrow> shard \<times> 'g memory_store list" where
  "retry_rounds D opts env idx 0 ss = ss"
| "retry_rounds D opts env idx (Suc n) ss =
     (case drain_retry D opts (fst (env n)) (snd (env n)) idx ss of
        None \<Rightarrow> ss | Some ss' \<Rightarrow> retry_rounds D opts env idx n ss')"

definition drain_shard :: "'g bus_deps \<Rightarrow> engine_options \<Rightarrow> faults \<Rightarrow> (nat \<Rightarrow> faults \<times> faults) \<Rightarrow> nat \<Rightarrow>
    shard \<times> journal \<times> 'g memory_store list \<Rightarrow> shard \<times> journal \<times> 'g memory_store list" where
  "drain_shard D opts env envs idx sjs =
     (let (sh, j, stores) = sjs in
      case drain_take (eo_journaling opts) (sh, j) of None \<Rightarrow> sjs
      | Some sj1 \<Rightarrow>
        (case drain_sync (eo_journaling opts) sj1 of None \<Rightarrow> sjs
         | Some (sh2, j2) \<Rightarrow>
           (case drain_commit D opts env idx (sh2, stores) of None \<Rightarrow> sjs
            | Some ss3 \<Rightarrow>
                let (sh4, stores4) = retry_rounds D opts envs idx (length (sh_buf sh) + 1) ss3
                in (case drain_publish sh4 of None \<Rightarrow> (sh4, j2, stores4) | Some sh5 \<Rightarrow> (sh5, j2, stores4)))))"

section \<open>The engine\<close>

datatype maint_pc =
    Maint_Idle
  | Maint_Watermarks "nat list"
  | Maint_Checkpoint "nat list" nat bool
  | Maint_Truncate "nat list" nat

record process =
  pr_shards :: "shard list"
  pr_paused :: nat
  pr_maint :: maint_pc

text \<open>\<open>bus_acked\<close> is a history: the submissions whose ticket was reported durable, by shard.\<close>

record 'g bus =
  bus_stores :: "'g memory_store list"
  bus_journals :: "journal list"
  bus_process :: "process option"
  bus_acked :: "(nat \<times> entry) set"

definition shard_for :: "'g bus_deps \<Rightarrow> str \<Rightarrow> process \<Rightarrow> nat" where
  "shard_for D entity p = hash_lowercase_key D entity mod length (pr_shards p)"

datatype admission = Refused memory_error | Blocked | Ticket nat nat

text \<open>\<open>try_submit\<close>: a full shard or a paused engine blocks the caller.\<close>

definition try_submit :: "'g bus_deps \<Rightarrow> engine_options \<Rightarrow> remember_request \<Rightarrow> process \<times> journal list \<Rightarrow>
    admission \<times> process \<times> journal list" where
  "try_submit D opts req pj =
     (let (p, js) = pj in
      case validate_request req of
        Inl e \<Rightarrow> (Refused e, p, js)
      | Inr _ \<Rightarrow>
          let i = shard_for D (rq_name req) p; sh = pr_shards p ! i
          in if length (sh_buf sh) \<ge> eo_shard_capacity opts \<or> pr_paused p > 0 then (Blocked, p, js)
             else let (sh', j') = admit D (eo_journaling opts) req (sh, js ! i)
                  in (Ticket i (sh_next_seq sh'), p\<lparr>pr_shards := (pr_shards p)[i := sh']\<rparr>, js[i := j']))"

text \<open>\<open>pause_admissions\<close> and the drop of its guard.\<close>

definition pause :: "process \<Rightarrow> process" where
  "pause p = p\<lparr>pr_paused := pr_paused p + 1\<rparr>"

definition resume :: "process \<Rightarrow> process" where
  "resume p = p\<lparr>pr_paused := pr_paused p - 1\<rparr>"

text \<open>\<open>maintenance\<close>: read every watermark, checkpoint every store, then reclaim the journals that
  the checkpoint provably covers.\<close>

definition maint_begin :: "process \<Rightarrow> process option" where
  "maint_begin p = (if pr_maint p = Maint_Idle then Some (p\<lparr>pr_maint := Maint_Watermarks []\<rparr>) else None)"

definition maint_read :: "process \<Rightarrow> process option" where
  "maint_read p =
     (case pr_maint p of
        Maint_Watermarks ws \<Rightarrow>
          Some (p\<lparr>pr_maint :=
            (if length ws < length (pr_shards p)
             then Maint_Watermarks (ws @ [sh_durable (pr_shards p ! length ws)])
             else Maint_Checkpoint ws 0 True)\<rparr>)
      | _ \<Rightarrow> None)"

text \<open>\<open>report\<close> is what the checkpoint of the next store reports: an error, or whether it was complete.\<close>

definition maint_checkpoint :: "engine_options \<Rightarrow> memory_error + bool \<Rightarrow>
    process \<times> 'g memory_store list \<Rightarrow> (process \<times> 'g memory_store list) option" where
  "maint_checkpoint opts report ps =
     (let (p, stores) = ps in
      case pr_maint p of
        Maint_Checkpoint ws d all_complete \<Rightarrow>
          if d < length stores
          then (case report of
                  Inl e \<Rightarrow> Some (p\<lparr>pr_maint := Maint_Idle\<rparr>, stores)
                | Inr complete \<Rightarrow>
                    Some (p\<lparr>pr_maint := Maint_Checkpoint ws (d + 1) (all_complete \<and> complete)\<rparr>,
                          stores[d := wal_checkpoint complete (stores ! d)]))
          else Some (p\<lparr>pr_maint := (if all_complete \<and> eo_journaling opts then Maint_Truncate ws 0
                                    else Maint_Idle)\<rparr>, stores)
      | _ \<Rightarrow> None)"

definition maint_truncate :: "process \<times> journal list \<Rightarrow> (process \<times> journal list) option" where
  "maint_truncate pj =
     (let (p, js) = pj in
      case pr_maint p of
        Maint_Truncate ws i \<Rightarrow>
          if i < length (pr_shards p)
          then Some (p\<lparr>pr_maint := Maint_Truncate ws (i + 1)\<rparr>,
                     if sh_buf (pr_shards p ! i) \<noteq> [] \<or> sh_next_seq (pr_shards p ! i) \<noteq> ws ! i then js
                     else js[i := journal_truncate (js ! i)])
          else Some (p\<lparr>pr_maint := Maint_Idle\<rparr>, js)
      | _ \<Rightarrow> None)"

section \<open>Start-up and crashes\<close>

text \<open>\<open>start_partitioned\<close>, the replay of every shard: the faults are given per shard.\<close>

fun replay_shards :: "'g bus_deps \<Rightarrow> engine_options \<Rightarrow> (nat \<Rightarrow> faults) \<Rightarrow> nat list \<Rightarrow> journal list \<Rightarrow>
    'g memory_store list \<Rightarrow> (memory_error + nat list) \<times> 'g memory_store list" where
  "replay_shards D opts env [] js stores = (Inr [], stores)"
| "replay_shards D opts env (i # is) js stores =
     (if eo_journaling opts
      then (case replay D (env i) i (eo_normalize opts) (Inr (Some (jn_content (js ! i)))) stores of
              (Inl e, stores1) \<Rightarrow> (Inl e, stores1)
            | (Inr (last_seq, _), stores1) \<Rightarrow>
                (case replay_shards D opts env is js stores1 of
                   (Inl e, stores2) \<Rightarrow> (Inl e, stores2)
                 | (Inr qs, stores2) \<Rightarrow> (Inr (last_seq # qs), stores2)))
      else (case replay_shards D opts env is js stores of
              (Inl e, stores2) \<Rightarrow> (Inl e, stores2)
            | (Inr qs, stores2) \<Rightarrow> (Inr (0 # qs), stores2)))"

text \<open>The maintenance pass that ends the start-up runs before there are other threads. \<open>reports\<close> is
  what the checkpoint of each store reports; the first error ends the pass.\<close>

fun checkpoint_stores :: "(memory_error + bool) list \<Rightarrow> 'g memory_store list \<Rightarrow>
    bool option \<times> 'g memory_store list" where
  "checkpoint_stores reports [] = (Some True, [])"
| "checkpoint_stores [] (st # sts) = (None, st # sts)"
| "checkpoint_stores (Inl e # reports) (st # sts) = (None, st # sts)"
| "checkpoint_stores (Inr complete # reports) (st # sts) =
     (case checkpoint_stores reports sts of
        (r, sts') \<Rightarrow> (map_option (\<lambda>all_complete. complete \<and> all_complete) r, wal_checkpoint complete st # sts'))"

fun truncate_journals :: "(shard \<times> nat) list \<Rightarrow> journal list \<Rightarrow> journal list" where
  "truncate_journals ((sh, w) # shs) (j # js) =
     (if sh_buf sh \<noteq> [] \<or> sh_next_seq sh \<noteq> w then j else journal_truncate j) # truncate_journals shs js"
| "truncate_journals _ js = js"

definition maintenance_pass :: "engine_options \<Rightarrow> (memory_error + bool) list \<Rightarrow> process \<Rightarrow>
    journal list \<Rightarrow> 'g memory_store list \<Rightarrow> journal list \<times> 'g memory_store list" where
  "maintenance_pass opts reports p js stores =
     (let ws = map sh_durable (pr_shards p)
      in case checkpoint_stores reports stores of
           (Some True, stores') \<Rightarrow>
             (if eo_journaling opts then truncate_journals (zip (pr_shards p) ws) js else js, stores')
         | (_, stores') \<Rightarrow> (js, stores'))"

definition start_partitioned :: "'g bus_deps \<Rightarrow> engine_options \<Rightarrow> (nat \<Rightarrow> faults) \<Rightarrow>
    (memory_error + bool) list \<Rightarrow> journal list \<Rightarrow> 'g memory_store list \<Rightarrow>
    (memory_error + process) \<times> journal list \<times> 'g memory_store list" where
  "start_partitioned D opts0 env reports js stores =
     (let opts = normalize_options opts0 in
      if eo_shards opts mod length stores \<noteq> 0
      then (Inl (MemInvalidInput ''engine shards must be a multiple of the domain count''), js, stores)
      else (case replay_shards D opts env [0..<eo_shards opts] js stores of
              (Inl e, stores') \<Rightarrow> (Inl e, js, stores')
            | (Inr qs, stores') \<Rightarrow>
                let p = \<lparr>pr_shards = map shard_new qs, pr_paused = 0, pr_maint = Maint_Idle\<rparr>
                in (Inr p, maintenance_pass opts reports p js stores')))"

text \<open>\<open>quiesce\<close> without other threads: drain every shard, then wait for the last number of each, which
  is over at once or never. \<open>shutdown\<close> adds a maintenance pass; dropping the engine flushes its
  writers.\<close>

fun drain_all :: "'g bus_deps \<Rightarrow> engine_options \<Rightarrow> (nat \<Rightarrow> faults \<times> (nat \<Rightarrow> faults \<times> faults)) \<Rightarrow> nat list \<Rightarrow>
    process \<times> journal list \<times> 'g memory_store list \<Rightarrow> process \<times> journal list \<times> 'g memory_store list" where
  "drain_all D opts envs [] pjs = pjs"
| "drain_all D opts envs (i # is) (p, js, stores) =
     (case drain_shard D opts (fst (envs i)) (snd (envs i)) i (pr_shards p ! i, js ! i, stores) of
        (sh, j, stores') \<Rightarrow>
          drain_all D opts envs is (p\<lparr>pr_shards := (pr_shards p)[i := sh]\<rparr>, js[i := j], stores'))"

definition quiesce :: "'g bus_deps \<Rightarrow> engine_options \<Rightarrow> (nat \<Rightarrow> faults \<times> (nat \<Rightarrow> faults \<times> faults)) \<Rightarrow>
    process \<times> journal list \<times> 'g memory_store list \<Rightarrow> (process \<times> journal list \<times> 'g memory_store list) option" where
  "quiesce D opts envs pjs =
     (let watermarks = map sh_next_seq (pr_shards (fst pjs));
          (p, js, stores) = drain_all D opts envs [0..<length watermarks] pjs
      in if list_all2 (\<lambda>sh seq. ticket_outcome sh seq \<noteq> None) (pr_shards p) watermarks
         then Some (p, js, stores) else None)"

definition shutdown :: "'g bus_deps \<Rightarrow> engine_options \<Rightarrow> (nat \<Rightarrow> faults \<times> (nat \<Rightarrow> faults \<times> faults)) \<Rightarrow>
    (memory_error + bool) list \<Rightarrow> 'g bus \<Rightarrow> 'g bus option" where
  "shutdown D opts envs reports s =
     (case bus_process s of None \<Rightarrow> None
      | Some p \<Rightarrow>
          map_option (\<lambda>(p', js, stores).
              let (js', stores') = maintenance_pass opts reports p' js stores
              in s\<lparr>bus_process := None, bus_journals := map jn_flush js', bus_stores := stores'\<rparr>)
            (quiesce D opts envs (p, bus_journals s, bus_stores s)))"

text \<open>A process that dies takes its buffers with it; a power loss also leaves of each file some prefix
  of at least what was synced, and of each store one of the states its log leads to.\<close>

definition lose_buffer :: "journal \<Rightarrow> journal" where
  "lose_buffer j = j\<lparr>jn_buffer := []\<rparr>"

definition cut_file :: "nat \<Rightarrow> journal \<Rightarrow> journal" where
  "cut_file n j = (let c = take n (jn_content j) in j\<lparr>jn_content := c, jn_synced := length c, jn_buffer := []\<rparr>)"

definition power_loss :: "(nat \<Rightarrow> nat) \<Rightarrow> (nat \<Rightarrow> 'g db) \<Rightarrow> 'g bus \<Rightarrow> 'g bus" where
  "power_loss kept pick s = s\<lparr>bus_process := None,
     bus_journals := map (\<lambda>i. cut_file (max (kept i) (jn_synced (bus_journals s ! i))) (bus_journals s ! i))
       [0..<length (bus_journals s)],
     bus_stores := map (\<lambda>d. \<lparr>st_base = pick d, st_wal = []\<rparr>) [0..<length (bus_stores s)]\<rparr>"

text \<open>A clean \<open>Drop\<close> of the engine does not drain, but the writers flush their buffers.\<close>

definition drop_engine :: "'g bus \<Rightarrow> 'g bus" where
  "drop_engine s = s\<lparr>bus_process := None, bus_journals := map jn_flush (bus_journals s)\<rparr>"

definition kill :: "'g bus \<Rightarrow> 'g bus" where
  "kill s = s\<lparr>bus_process := None, bus_journals := map lose_buffer (bus_journals s)\<rparr>"

end
