(* ===== verification/Om_BusFacts.thy ===== *)
theory Om_BusFacts
  imports Om_Bus
begin

text \<open>
  What the bus relies on: a transaction either leaves no trace of a shard in any database or moves
  the shard's checkpoint and adds its entries, in one step; and a journal file reads back as the
  records that were appended to it. The first contract is the locale \<open>checkpointed_domains\<close>,
  interpreted by the routing of \<open>partition.rs\<close> over the transactions of \<open>batch.rs\<close>.
\<close>

section \<open>What a store shows of one shard\<close>

definition cp :: "str \<Rightarrow> 'g db \<Rightarrow> nat" where
  "cp k d = (case meta d k of None \<Rightarrow> 0 | Some n \<Rightarrow> n)"

definition carries :: "str \<Rightarrow> txn \<Rightarrow> bool" where
  "carries k t = (map_option fst (bo_checkpoint (tx_options t)) = Some k)"

definition applied :: "str \<Rightarrow> 'g db \<Rightarrow> entry list" where
  "applied k d = concat (map tx_entries (filter (carries k) (committed d)))"

text \<open>Commits that leave every checkpoint and every shard's entries alone.\<close>

definition quiet :: "'g memory_store \<Rightarrow> 'g memory_store \<Rightarrow> bool" where
  "quiet st st' \<longleftrightarrow> st_base st' = st_base st \<and>
     (\<exists>xs. st_wal st' = st_wal st @ xs \<and>
        (\<forall>x\<in>set xs. meta x = meta (current st) \<and> (\<forall>k. applied k x = applied k (current st))))"

text \<open>Such commits and then one that carries entries of a shard together with its checkpoint.\<close>

definition advanced :: "str \<Rightarrow> nat \<Rightarrow> entry list \<Rightarrow> 'g memory_store \<Rightarrow> 'g memory_store \<Rightarrow> bool" where
  "advanced k v es st st' \<longleftrightarrow>
     (\<exists>st1 d. quiet st st1 \<and> st' = st1\<lparr>st_wal := st_wal st1 @ [d]\<rparr> \<and>
        meta d = upsert_checkpoint k v (meta (current st1)) \<and>
        (\<forall>k'. applied k' d = applied k' (current st1) @ (if k' = k then es else [])))"

lemma current_append [simp]: "current (st\<lparr>st_wal := st_wal st @ [d]\<rparr>) = d"
  by (simp add: current_def)

lemma current_survives: "current st \<in> survivors st"
  by (simp add: current_def survivors_def)

lemma base_survives: "st_base st \<in> survivors st"
  by (simp add: survivors_def)

lemma quiet_refl [simp]: "quiet st st"
  by (simp add: quiet_def)

lemma quiet_current:
  assumes "quiet st st'"
  shows "meta (current st') = meta (current st)" and "applied k (current st') = applied k (current st)"
proof -
  obtain xs where w: "st_base st' = st_base st" "st_wal st' = st_wal st @ xs"
      and xs: "\<forall>x\<in>set xs. meta x = meta (current st) \<and> (\<forall>k. applied k x = applied k (current st))"
    using assms by (auto simp: quiet_def)
  have "current st' = (if xs = [] then current st else last xs)"
    using w by (simp add: current_def)
  then show "meta (current st') = meta (current st)" "applied k (current st') = applied k (current st)"
    using xs by (auto dest: last_in_set)
qed

lemma quiet_trans: "quiet st st1 \<Longrightarrow> quiet st1 st2 \<Longrightarrow> quiet st st2"
  using quiet_current [of st st1]
  by (auto simp: quiet_def)

lemma upsert_same: "cp k d = n \<Longrightarrow> n < v \<Longrightarrow> upsert_checkpoint k v (meta d) k = Some v"
  by (auto simp: upsert_checkpoint_def cp_def split: option.splits)

lemma upsert_other: "k' \<noteq> k \<Longrightarrow> upsert_checkpoint k v m k' = m k'"
  by (auto simp: upsert_checkpoint_def split: option.splits)

text \<open>Every database that may survive a power loss is the current one cut at its own checkpoint.\<close>

definition store_ok :: "str \<Rightarrow> 'g memory_store \<Rightarrow> bool" where
  "store_ok k st \<longleftrightarrow> sorted_wrt (<) (map fst (applied k (current st))) \<and>
     (\<forall>d\<in>survivors st. cp k (st_base st) \<le> cp k d \<and> cp k d \<le> cp k (current st) \<and>
        applied k d = filter (\<lambda>e. fst e \<le> cp k d) (applied k (current st)))"

definition same_view :: "str \<Rightarrow> 'g memory_store \<Rightarrow> 'g memory_store \<Rightarrow> bool" where
  "same_view k st st' \<longleftrightarrow> cp k (current st') = cp k (current st) \<and>
     applied k (current st') = applied k (current st) \<and>
     cp k (st_base st) \<le> cp k (st_base st') \<and> store_ok k st'"

lemma same_view_refl: "store_ok k st \<Longrightarrow> same_view k st st"
  by (simp add: same_view_def)

lemma same_view_trans: "same_view k st st1 \<Longrightarrow> same_view k st1 st2 \<Longrightarrow> same_view k st st2"
  by (auto simp: same_view_def)

lemma store_ok_applied: "store_ok k st \<Longrightarrow> e \<in> set (applied k (current st)) \<Longrightarrow> fst e \<le> cp k (current st)"
  using current_survives [of st] unfolding store_ok_def
  by (metis (mono_tags, lifting) mem_Collect_eq set_filter)

lemma store_ok_base: "store_ok k st \<Longrightarrow> cp k (st_base st) \<le> cp k (current st)"
  using current_survives [of st] by (auto simp: store_ok_def)

lemma store_okD:
  assumes "store_ok k st" and "d \<in> survivors st"
  shows "cp k (st_base st) \<le> cp k d" and "cp k d \<le> cp k (current st)"
    and "applied k d = filter (\<lambda>e. fst e \<le> cp k d) (applied k (current st))"
  using assms by (auto simp: store_ok_def)

lemma survivors_append [simp]:
  "survivors (st\<lparr>st_wal := st_wal st @ xs\<rparr>) = survivors st \<union> set xs"
  by (auto simp: survivors_def)

text \<open>Adding states that look like the current one to a shard.\<close>

lemma append_view:
  assumes ok: "store_ok k st" and base: "st_base st' = st_base st" and wal: "st_wal st' = st_wal st @ xs"
    and xs: "\<forall>x\<in>set xs. cp k x = cp k (current st) \<and> applied k x = applied k (current st)"
  shows "same_view k st st'"
proof -
  have st': "st' = st\<lparr>st_wal := st_wal st @ xs\<rparr>" using base wal by simp
  have cur: "current st' = (if xs = [] then current st else last xs)"
    using st' by (simp add: current_def)
  then have c: "cp k (current st') = cp k (current st)"
    and a: "applied k (current st') = applied k (current st)"
    using xs last_in_set [of xs] by auto
  have "applied k (current st) = filter (\<lambda>e. fst e \<le> cp k (current st)) (applied k (current st))"
    by (rule store_okD(3) [OF ok current_survives])
  then have "store_ok k st'"
    using ok xs store_ok_base [OF ok] unfolding store_ok_def c a
    by (auto simp: st')
  with c a base show ?thesis by (simp add: same_view_def)
qed

lemma quiet_view:
  assumes "store_ok k st" and "quiet st st'" shows "same_view k st st'"
proof -
  obtain xs where "st_base st' = st_base st" "st_wal st' = st_wal st @ xs"
      "\<forall>x\<in>set xs. meta x = meta (current st) \<and> (\<forall>k. applied k x = applied k (current st))"
    using assms(2) by (auto simp: quiet_def)
  with assms(1) show ?thesis by (intro append_view) (auto simp: cp_def)
qed

lemma advanced_other:
  assumes "store_ok k st" and "advanced k' v es st st'" and "k \<noteq> k'"
  shows "same_view k st st'"
proof -
  obtain st1 d where q: "quiet st st1" and st': "st' = st1\<lparr>st_wal := st_wal st1 @ [d]\<rparr>"
      and m: "meta d = upsert_checkpoint k' v (meta (current st1))"
      and a: "\<forall>k''. applied k'' d = applied k'' (current st1) @ (if k'' = k' then es else [])"
    using assms(2) by (auto simp: advanced_def)
  have v1: "same_view k st st1" by (rule quiet_view [OF assms(1) q])
  then have "store_ok k st1" by (simp add: same_view_def)
  then have "same_view k st1 st'"
    by (rule append_view [where xs = "[d]"]) (use assms(3) a m in \<open>auto simp: st' cp_def upsert_other\<close>)
  with v1 show ?thesis by (rule same_view_trans)
qed

lemma advanced_self:
  assumes ok: "store_ok k st" and adv: "advanced k v es st st'" and new: "cp k (current st) < v"
    and es: "sorted_wrt (<) (map fst es)" "\<forall>e\<in>set es. cp k (current st) < fst e \<and> fst e \<le> v"
  shows "store_ok k st'" and "cp k (current st') = v"
    and "applied k (current st') = applied k (current st) @ es" and "st_base st' = st_base st"
proof -
  obtain st1 d where q: "quiet st st1" and st': "st' = st1\<lparr>st_wal := st_wal st1 @ [d]\<rparr>"
      and m: "meta d = upsert_checkpoint k v (meta (current st1))"
      and a: "\<forall>k''. applied k'' d = applied k'' (current st1) @ (if k'' = k then es else [])"
    using adv by (auto simp: advanced_def)
  have v1: "same_view k st st1" by (rule quiet_view [OF ok q])
  then have ok1: "store_ok k st1" and c1: "cp k (current st1) = cp k (current st)"
    and a1: "applied k (current st1) = applied k (current st)" by (auto simp: same_view_def)
  show c: "cp k (current st') = v"
    using upsert_same [OF c1 new] by (simp add: st' cp_def m)
  show app: "applied k (current st') = applied k (current st) @ es"
    using a a1 by (simp add: st')
  show "st_base st' = st_base st" using q by (simp add: st' quiet_def)
  have old: "e \<in> set (applied k (current st)) \<Longrightarrow> fst e < v" for e
    using store_ok_applied [OF ok] new by fastforce
  have srt: "sorted_wrt (<) (map fst (applied k (current st')))"
  proof -
    have "sorted_wrt (<) (map fst (applied k (current st)))" using ok by (simp add: store_ok_def)
    moreover have "fst e < fst f" if "e \<in> set (applied k (current st))" "f \<in> set es" for e f
      using store_ok_applied [OF ok that(1)] es(2) that(2) by fastforce
    ultimately show ?thesis using es(1) unfolding app by (auto simp: sorted_wrt_append)
  qed
  show "store_ok k st'"
    unfolding store_ok_def
  proof (rule conjI [OF srt], rule ballI)
    fix x assume "x \<in> survivors st'"
    then consider (before) "x \<in> survivors st1" | (now) "x = current st'" by (auto simp: st')
    then show "cp k (st_base st') \<le> cp k x \<and> cp k x \<le> cp k (current st') \<and>
        applied k x = filter (\<lambda>e. fst e \<le> cp k x) (applied k (current st'))"
    proof cases
      case before
      have base: "st_base st' = st_base st1" by (simp add: st')
      have "cp k x \<le> cp k (current st)" using store_okD(2) [OF ok1 before] c1 by simp
      moreover have "filter (\<lambda>e. fst e \<le> cp k x) es = []"
        using es(2) calculation by (auto simp: filter_empty_conv)
      ultimately show ?thesis
        using store_okD [OF ok1 before] new unfolding base app c a1 by simp
    next
      case now
      have le: "\<forall>e\<in>set (applied k (current st')). fst e \<le> v" using old es(2) unfolding app by force
      have "cp k (st_base st') \<le> v"
        using store_ok_base [OF ok1] c1 new by (simp add: st')
      then show ?thesis using le unfolding now c by (simp add: filter_id_conv)
    qed
  qed
qed

lemma checkpoint_view:
  assumes ok: "store_ok k st" shows "same_view k st (wal_checkpoint complete st)"
proof (cases complete)
  case True
  have "applied k (current st) = filter (\<lambda>e. fst e \<le> cp k (current st)) (applied k (current st))"
    by (rule store_okD(3) [OF ok current_survives])
  moreover have "sorted_wrt (<) (map fst (applied k (current st)))" using ok by (simp add: store_ok_def)
  moreover have "st_base (wal_checkpoint complete st) = current st"
      "current (wal_checkpoint complete st) = current st" "survivors (wal_checkpoint complete st) = {current st}"
    using True by (simp_all add: wal_checkpoint_def current_def survivors_def)
  ultimately show ?thesis
    using store_ok_base [OF ok] by (simp add: same_view_def store_ok_def)
next
  case False
  then show ?thesis by (simp add: wal_checkpoint_def same_view_refl [OF ok])
qed

lemma checkpoint_complete: "st_base (wal_checkpoint True st) = current st"
  by (simp add: wal_checkpoint_def)

lemma survivor_store:
  assumes ok: "store_ok k st" and x: "x \<in> survivors st"
  shows "store_ok k \<lparr>st_base = x, st_wal = []\<rparr>"
proof -
  have "sorted_wrt (<) (map fst (applied k x))"
    using ok unfolding store_okD(3) [OF ok x] by (simp add: store_ok_def sorted_wrt_filter sorted_wrt_map)
  moreover have "applied k x = filter (\<lambda>e. fst e \<le> cp k x) (applied k x)"
    by (subst (1 2) store_okD(3) [OF ok x]) simp
  ultimately show ?thesis by (simp add: store_ok_def current_def survivors_def)
qed

section \<open>The contract of the domain stores\<close>

text \<open>No error comes after a commit.\<close>

definition prompt :: "faults \<Rightarrow> bool" where
  "prompt env \<longleftrightarrow> (\<forall>d e. env d \<noteq> After_Commit e)"

locale checkpointed_domains =
  fixes commit :: "faults \<Rightarrow> nat \<Rightarrow> entry list \<Rightarrow> remember_request list \<Rightarrow> batch_options \<Rightarrow>
    'g memory_store list \<Rightarrow> (memory_error + unit) \<times> 'g memory_store list"
  assumes commit_length: "commit env i es rs opts stores = (r, stores') \<Longrightarrow> length stores' = length stores"
    and commit_failed: "commit env i es rs opts stores = (Inl e, stores') \<Longrightarrow> prompt env \<Longrightarrow> d < length stores \<Longrightarrow>
      quiet (stores ! d) (stores' ! d)"
    and commit_other: "commit env i es rs opts stores = (r, stores') \<Longrightarrow> d < length stores \<Longrightarrow> d \<noteq> i \<Longrightarrow>
      quiet (stores ! d) (stores' ! d)"
    and commit_ok: "commit env i es rs \<lparr>bo_normalize = n, bo_checkpoint = Some (k, v)\<rparr> stores = (Inr u, stores') \<Longrightarrow>
      i < length stores \<Longrightarrow> advanced k v es (stores ! i) (stores' ! i)"
begin

lemma failed_view:
  assumes "commit env i es rs opts stores = (Inl e, stores')" and "prompt env" and "d < length stores"
    and "store_ok k (stores ! d)"
  shows "same_view k (stores ! d) (stores' ! d)"
  using quiet_view [OF assms(4) commit_failed [OF assms(1-3)]] .

lemma committed_view:
  assumes "commit env i es rs \<lparr>bo_normalize = n, bo_checkpoint = Some (k, v)\<rparr> stores = (Inr u, stores')"
    and "i < length stores" and "d < length stores" and "store_ok k' (stores ! d)" and "d \<noteq> i \<or> k' \<noteq> k"
  shows "same_view k' (stores ! d) (stores' ! d)"
proof (cases "d = i")
  case True
  then show ?thesis using advanced_other [OF _ commit_ok [OF assms(1,2)]] assms(4,5) by auto
next
  case False
  then show ?thesis using quiet_view [OF assms(4) commit_other [OF assms(1,3)]] by simp
qed

end

lemma remember_batch_quiet:
  assumes "remember_batch D f es rs opts d = (r, Some d')" and "bo_checkpoint opts = None"
  shows "meta d' = meta d" and "applied k d' = applied k d"
  using assms
  by (auto simp: remember_batch_def Let_def applied_def carries_def
      split: if_splits option.splits sum.splits fault.splits)

lemma remember_batch_checkpoint:
  assumes "remember_batch D f es rs \<lparr>bo_normalize = n, bo_checkpoint = Some (k, v)\<rparr> d = (Inr u, r)"
  shows "\<exists>d'. r = Some d' \<and> meta d' = upsert_checkpoint k v (meta d) \<and>
    (\<forall>k'. applied k' d' = applied k' d @ (if k' = k then es else []))"
  using assms
  by (auto simp: remember_batch_def Let_def applied_def carries_def
      split: if_splits option.splits sum.splits fault.splits)

lemma remember_batch_failed:
  assumes "remember_batch D f es rs opts d = (Inl e, r)" and "\<forall>e. f \<noteq> After_Commit e"
  shows "r = None"
  using assms
  by (auto simp: remember_batch_def Let_def split: if_splits option.splits sum.splits fault.splits)

lemma store_batch_quiet:
  assumes "bo_checkpoint opts = None"
  shows "quiet st (snd (store_batch D f es rs opts st))"
  using remember_batch_quiet [OF _ assms]
  by (auto simp: store_batch_def quiet_def split: option.splits prod.splits)

lemma store_batch_failed:
  assumes "store_batch D f es rs opts st = (Inl e, st')" and "\<forall>e. f \<noteq> After_Commit e"
  shows "st' = st"
  using assms(1)
  by (auto simp: store_batch_def split: option.splits prod.splits dest: remember_batch_failed [OF _ assms(2)])

lemma store_batch_advances:
  assumes "store_batch D f es rs \<lparr>bo_normalize = n, bo_checkpoint = Some (k, v)\<rparr> st1 = (Inr u, st')" and "quiet st st1"
  shows "advanced k v es st st'"
proof -
  obtain r where r: "remember_batch D f es rs \<lparr>bo_normalize = n, bo_checkpoint = Some (k, v)\<rparr> (current st1) = (Inr u, r)"
      and st': "st' = (case r of None \<Rightarrow> st1 | Some d \<Rightarrow> st1\<lparr>st_wal := st_wal st1 @ [d]\<rparr>)"
    using assms(1) by (auto simp: store_batch_def split: prod.splits option.splits)
  obtain d' where "r = Some d'" "meta d' = upsert_checkpoint k v (meta (current st1))"
      "\<forall>k'. applied k' d' = applied k' (current st1) @ (if k' = k then es else [])"
    using remember_batch_checkpoint [OF r] by blast
  with st' assms(2) show ?thesis unfolding advanced_def
    by (intro exI [of _ st1] exI [of _ d'] conjI) simp_all
qed

lemma write_mirrors_quiet:
  "length (write_mirrors D env ms stores) = length stores \<and>
   (\<forall>d<length stores. quiet (stores ! d) (write_mirrors D env ms stores ! d))"
proof (induction D env ms stores rule: write_mirrors.induct)
  case (1 D env stores)
  then show ?case by simp
next
  case (2 D env e batch ms stores)
  define stores1 where "stores1 = stores[e := snd (store_batch D (env e) [] batch
      \<lparr>bo_normalize = False, bo_checkpoint = None\<rparr> (stores ! e))]"
  have len: "length stores1 = length stores" by (simp add: stores1_def)
  have "quiet (stores ! d) (stores1 ! d)" if "d < length stores" for d
    using that by (cases "d = e") (simp_all add: stores1_def store_batch_quiet)
  with "2.IH" [folded stores1_def] len show ?case
    by (auto simp: stores1_def [symmetric] intro: quiet_trans)
qed

lemma batch_in_domain_length:
  "batch_in_domain D env i es rs opts stores = (r, stores') \<Longrightarrow> length stores' = length stores"
  using write_mirrors_quiet [THEN conjunct1]
  by (auto simp: batch_in_domain_def Let_def split: if_splits prod.splits)

interpretation domains: checkpointed_domains "batch_in_domain D" for D :: "'g bus_deps"
proof
  fix env i es rs opts and stores stores' :: "'g memory_store list" and r
  assume c: "batch_in_domain D env i es rs opts stores = (r, stores')"
  then show "length stores' = length stores" by (rule batch_in_domain_length)
  fix d assume d: "d < length stores"
  have m: "quiet (stores ! d) (write_mirrors D env ms stores ! d)" for ms
    using write_mirrors_quiet d by blast
  show "quiet (stores ! d) (stores' ! d)" if "d \<noteq> i"
    using c d m that by (auto simp: batch_in_domain_def Let_def split: if_splits prod.splits)
next
  fix env i es rs opts and stores stores' :: "'g memory_store list" and e d
  assume c: "batch_in_domain D env i es rs opts stores = (Inl e, stores')" and p: "prompt env" and d: "d < length stores"
  have m: "quiet (stores ! d) (write_mirrors D env ms stores ! d)" for ms
    using write_mirrors_quiet d by blast
  have f: "st' = st" if "store_batch D (env i) es' rs' opts' st = (Inl e, st')" for es' rs' opts' and st st' :: "'g memory_store"
    by (rule store_batch_failed [OF that]) (use p in \<open>simp add: prompt_def\<close>)
  show "quiet (stores ! d) (stores' ! d)"
    using c m by (auto dest!: f simp: batch_in_domain_def Let_def split: if_splits prod.splits)
next
  fix env i es rs n k v u and stores stores' :: "'g memory_store list"
  assume c: "batch_in_domain D env i es rs \<lparr>bo_normalize = n, bo_checkpoint = Some (k, v)\<rparr> stores = (Inr u, stores')"
    and i: "i < length stores"
  have m: "length (write_mirrors D env ms stores) = length stores"
      "quiet (stores ! i) (write_mirrors D env ms stores ! i)" for ms
    using write_mirrors_quiet i by blast+
  show "advanced k v es (stores ! i) (stores' ! i)"
    using c i m by (auto simp: batch_in_domain_def Let_def intro!: store_batch_advances split: if_splits prod.splits)
qed

end
