(* ===== verification/Om_JournalFacts.thy ===== *)
theory Om_JournalFacts
  imports Om_Journal
begin

text \<open>
  A journal file as the records it was written from: appending adds the line of one record to what
  the file and its buffer hold together, and reading back any prefix of such a file gives a prefix
  of the records, with every record whose line is complete.
\<close>

section \<open>Lines of records\<close>

text \<open>What the bus relies on of the JSON text of one record: one line of UTF-8 that reads back, and
  of which no proper prefix reads as a record.\<close>

definition journalable :: "'g bus_deps \<Rightarrow> nat \<Rightarrow> remember_request \<Rightarrow> bool" where
  "journalable D seq req =
     (case to_json D seq req of None \<Rightarrow> False
      | Some line \<Rightarrow>
          newline \<notin> set line \<and> \<not> is_blank line \<and> last line \<noteq> char_of (13 :: nat) \<and>
          utf8_valid (map of_char (line @ [newline])) \<and> from_json D line = Some (seq, req) \<and>
          (\<forall>n<length line. from_json D (take n line) = None))"

definition json_line :: "'g bus_deps \<Rightarrow> entry \<Rightarrow> str" where
  "json_line D e = (case to_json D (fst e) (snd e) of None \<Rightarrow> [] | Some line \<Rightarrow> line)"

definition encode_all :: "'g bus_deps \<Rightarrow> entry list \<Rightarrow> str" where
  "encode_all D J = concat (map (\<lambda>e. json_line D e @ [newline]) J)"

lemma encode_all_simps [simp]:
  "encode_all D [] = []" "encode_all D (e # J) = json_line D e @ newline # encode_all D J"
  "encode_all D (J @ K) = encode_all D J @ encode_all D K"
  by (simp_all add: encode_all_def)

definition journalable_entry :: "'g bus_deps \<Rightarrow> entry \<Rightarrow> bool" where
  "journalable_entry D e = journalable D (fst e) (snd e)"

lemma journalableD:
  assumes "journalable_entry D e"
  shows "to_json D (fst e) (snd e) = Some (json_line D e)" and "newline \<notin> set (json_line D e)"
    and "\<not> is_blank (json_line D e)" and "last (json_line D e) \<noteq> char_of (13 :: nat)"
    and "utf8_valid (map of_char (json_line D e @ [newline]))" and "from_json D (json_line D e) = Some e"
    and "n < length (json_line D e) \<Longrightarrow> from_json D (take n (json_line D e)) = None"
  using assms by (auto simp: journalable_entry_def journalable_def json_line_def split: option.splits)

lemma jn_write_text: "jn_content (jn_write s j) @ jn_buffer (jn_write s j) = jn_content j @ jn_buffer j @ s"
proof -
  have "jn_buffer j = []" if "length s \<le> BUF_CAPACITY - length (jn_buffer j)" "BUF_CAPACITY \<le> length s"
    using that by (cases "jn_buffer j") (auto simp: BUF_CAPACITY_def)
  then show ?thesis by (auto simp: jn_write_def jn_flush_def Let_def not_less)
qed

lemma jn_write_content: "\<exists>x. jn_content (jn_write s j) = jn_content j @ x"
  by (auto simp: jn_write_def jn_flush_def Let_def)

lemma jn_write_synced [simp]: "jn_synced (jn_write s j) = jn_synced j"
  by (simp add: jn_write_def jn_flush_def Let_def)

lemma journal_append_text:
  assumes "journalable D seq req"
  shows "jn_content (journal_append D seq req j) @ jn_buffer (journal_append D seq req j) =
    jn_content j @ jn_buffer j @ json_line D (seq, req) @ [newline]"
  using journalableD(1) [of D "(seq, req)"] assms
  by (simp add: journalable_entry_def journal_append_def jn_write_text)

lemma journal_append_content: "\<exists>x. jn_content (journal_append D seq req j) = jn_content j @ x"
proof (cases "to_json D seq req")
  case None
  then show ?thesis by (simp add: journal_append_def)
next
  case (Some line)
  obtain x where "jn_content (jn_write line j) = jn_content j @ x" using jn_write_content by blast
  moreover obtain y where
    "jn_content (jn_write [newline] (jn_write line j)) = jn_content (jn_write line j) @ y"
    using jn_write_content by blast
  ultimately show ?thesis by (simp add: journal_append_def Some)
qed

lemma journal_append_synced [simp]: "jn_synced (journal_append D seq req j) = jn_synced j"
  by (simp add: journal_append_def split: option.split)

section \<open>Complete records\<close>

text \<open>The records whose whole line lies in the first \<open>n\<close> bytes of the text of \<open>J\<close>.\<close>

definition covered :: "'g bus_deps \<Rightarrow> entry list \<Rightarrow> nat \<Rightarrow> entry \<Rightarrow> bool" where
  "covered D J n e \<longleftrightarrow> (\<exists>P Q. J = P @ Q \<and> e \<in> set P \<and> length (encode_all D P) \<le> n)"

lemma covered_in: "covered D J n e \<Longrightarrow> e \<in> set J"
  by (auto simp: covered_def)

lemma covered_mono: "covered D J m e \<Longrightarrow> m \<le> n \<Longrightarrow> covered D J n e"
  unfolding covered_def using le_trans by blast

lemma covered_append: "covered D J n e \<Longrightarrow> covered D (J @ K) n e"
  unfolding covered_def by (metis append.assoc)

lemma covered_all: "e \<in> set J \<Longrightarrow> length (encode_all D J) \<le> n \<Longrightarrow> covered D J n e"
  unfolding covered_def by (intro exI [of _ J] exI [of _ "[]"]) simp

lemma covered_Cons:
  "covered D (x # J) n e \<longleftrightarrow> length (json_line D x) < n \<and>
     (e = x \<or> covered D J (n - Suc (length (json_line D x))) e)"
proof
  assume "covered D (x # J) n e"
  then obtain P Q where PQ: "x # J = P @ Q" "e \<in> set P" "length (encode_all D P) \<le> n"
    by (auto simp: covered_def)
  then obtain P' where P: "P = x # P'" by (cases P) auto
  then show "length (json_line D x) < n \<and> (e = x \<or> covered D J (n - Suc (length (json_line D x))) e)"
    using PQ unfolding covered_def
    by (cases "e = x") (auto intro: exI [of _ P'] exI [of _ Q])
next
  assume a: "length (json_line D x) < n \<and> (e = x \<or> covered D J (n - Suc (length (json_line D x))) e)"
  show "covered D (x # J) n e"
  proof (cases "e = x")
    case True
    then show ?thesis using a unfolding covered_def by (intro exI [of _ "[x]"] exI [of _ J]) simp
  next
    case False
    then obtain P Q where "J = P @ Q" "e \<in> set P" "length (encode_all D P) \<le> n - Suc (length (json_line D x))"
      using a by (auto simp: covered_def)
    then have "x # J = (x # P) @ Q \<and> e \<in> set (x # P) \<and> length (encode_all D (x # P)) \<le> n"
      using a by auto
    then show ?thesis unfolding covered_def by blast
  qed
qed

section \<open>Reading back\<close>

lemma raw_lines_newline: "newline \<notin> set l \<Longrightarrow>
    raw_lines cur (l @ newline # text) = (cur @ l @ [newline]) # raw_lines [] text"
  by (induction l arbitrary: cur) auto

lemma raw_lines_last: "newline \<notin> set t \<Longrightarrow> cur @ t \<noteq> [] \<Longrightarrow> raw_lines cur t = [cur @ t]"
  by (induction t arbitrary: cur) auto

definition scan_entry :: "nat \<Rightarrow> entry \<Rightarrow> scan_state \<Rightarrow> scan_state" where
  "scan_entry c e sc =
     sc\<lparr>sc_last_seq := max (sc_last_seq sc) (fst e),
        sc_pending := sc_pending sc @ (if fst e > c then [e] else []),
        sc_max_pending := (if fst e > c then max (sc_max_pending sc) (fst e) else sc_max_pending sc)\<rparr>"

lemma scan_line_json: "journalable_entry D e \<Longrightarrow> scan_line D c (json_line D e) sc = scan_entry c e sc"
  by (cases e) (simp add: scan_line_def scan_entry_def journalableD(3,6))

text \<open>A file is well terminated when it is empty or ends in a newline.\<close>

definition terminated :: "str \<Rightarrow> bool" where
  "terminated s = (s = [] \<or> last s = newline)"

lemma read_record:
  assumes "journalable_entry D e"
  shows "scan_lines D c ((json_line D e @ [newline]) # raws) sc = scan_lines D c raws (scan_entry c e sc)"
proof -
  have "read_line (json_line D e @ [newline]) = Inr (json_line D e)"
    using journalableD(4,5) [OF assms] by (auto simp: read_line_def strip_line_def Let_def)
  then show ?thesis by (simp add: scan_line_json [OF assms])
qed

lemma read_torn:
  assumes e: "journalable_entry D e" and t: "json_line D e @ [newline] = t @ u" and "t \<noteq> []" "u \<noteq> []"
    and s: "scan_lines D c [t] sc = Inr sc'"
  shows "sc' = sc \<or> sc' = scan_entry c e sc" and "newline \<notin> set t"
proof -
  have len: "length t \<le> length (json_line D e)"
    using arg_cong [OF t, of length] \<open>u \<noteq> []\<close> by (cases u) auto
  have tk: "t = take (length t) (json_line D e)"
    using arg_cong [OF t, of "take (length t)"] len by simp
  then show nl: "newline \<notin> set t" using journalableD(2) [OF e] by (metis in_set_takeD)
  then have strip: "strip_line t = t" using \<open>t \<noteq> []\<close> by (auto simp: strip_line_def dest: last_in_set)
  have sc': "sc' = scan_line D c t sc" using s strip by (auto simp: read_line_def split: if_splits)
  show "sc' = sc \<or> sc' = scan_entry c e sc"
  proof (cases "length t = length (json_line D e)")
    case True
    then have "t = json_line D e" using tk by simp
    then show ?thesis using sc' scan_line_json [OF e] by simp
  next
    case False
    then have "from_json D t = None" using journalableD(7) [OF e] tk len by (metis le_neq_implies_less)
    then show ?thesis using sc' by (simp add: scan_line_def)
  qed
qed

text \<open>Reading any prefix of the text of \<open>J\<close>.\<close>

lemma scan_prefix:
  assumes "content @ rest = encode_all D J" and "\<forall>e\<in>set J. journalable_entry D e"
    and "scan_lines D c (raw_lines [] content) sc = Inr sc'"
  shows "\<exists>P Q. J = P @ Q \<and> sc' = fold (scan_entry c) P sc \<and>
    (\<forall>e. covered D J (length content) e \<longrightarrow> e \<in> set P) \<and> (terminated content \<longrightarrow> content = encode_all D P)"
  using assms
proof (induction J arbitrary: content sc)
  case Nil
  then show ?case by (auto simp: covered_def)
next
  case (Cons x J)
  have x: "journalable_entry D x" using Cons.prems(2) by simp
  show ?case
  proof (cases "length content \<le> length (json_line D x)")
    case False
    define content' where "content' = drop (Suc (length (json_line D x))) content"
    have "take (Suc (length (json_line D x))) content = json_line D x @ [newline]"
      using arg_cong [OF Cons.prems(1), of "take (Suc (length (json_line D x)))"] False by simp
    then have content: "content = json_line D x @ newline # content'"
      by (metis append.assoc append_Cons append_Nil append_take_drop_id content'_def)
    have rest: "content' @ rest = encode_all D J"
      using Cons.prems(1) unfolding content by simp
    have raws: "raw_lines [] content = (json_line D x @ [newline]) # raw_lines [] content'"
      using raw_lines_newline [OF journalableD(2) [OF x], of "[]"] by (simp add: content)
    have scan: "scan_lines D c (raw_lines [] content') (scan_entry c x sc) = Inr sc'"
      using Cons.prems(3) unfolding raws read_record [OF x] .
    have J: "\<forall>e\<in>set J. journalable_entry D e" using Cons.prems(2) by simp
    obtain P Q where PQ: "J = P @ Q" "sc' = fold (scan_entry c) P (scan_entry c x sc)"
        "\<forall>e. covered D J (length content') e \<longrightarrow> e \<in> set P"
        "terminated content' \<longrightarrow> content' = encode_all D P"
      using Cons.IH [OF rest J scan] by blast
    have "\<forall>e. covered D (x # J) (length content) e \<longrightarrow> e \<in> set (x # P)"
      using PQ(3) by (auto simp: covered_Cons content)
    moreover have "terminated content \<longrightarrow> content = encode_all D (x # P)"
      using PQ(4) by (auto simp: content terminated_def)
    ultimately show ?thesis using PQ(1,2)
      by (intro exI [of _ "x # P"] exI [of _ Q]) simp
  next
    case True
    have none: "\<not> covered D (x # J) (length content) e" for e
      using True by (simp add: covered_Cons)
    show ?thesis
    proof (cases "content = []")
      case nil: True
      then show ?thesis using Cons.prems(3) none
        by (intro exI [of _ "[]"] exI [of _ "x # J"]) simp
    next
      case False
      have c: "content = take (length content) (json_line D x)"
        using arg_cong [OF Cons.prems(1), of "take (length content)"] True by simp
      define u where "u = drop (length content) (json_line D x) @ [newline]"
      have split: "json_line D x @ [newline] = content @ u" unfolding u_def
        by (subst c) simp
      have nl: "newline \<notin> set content" using c journalableD(2) [OF x] by (metis in_set_takeD)
      have raws: "raw_lines [] content = [content]" using raw_lines_last [OF nl, of "[]"] False by simp
      have "u \<noteq> []" by (simp add: u_def)
      with read_torn(1) [OF x split False _ Cons.prems(3) [unfolded raws]]
      consider "sc' = sc" | "sc' = scan_entry c x sc" by blast
      then obtain P Q where "x # J = P @ Q" "sc' = fold (scan_entry c) P sc"
      proof cases
        case 1
        then show ?thesis using that [of "[]"] by simp
      next
        case 2
        then show ?thesis using that [of "[x]"] by simp
      qed
      moreover have "\<not> terminated content" using nl last_in_set [OF False] by (auto simp: terminated_def)
      ultimately show ?thesis using none by blast
    qed
  qed
qed

text \<open>A scan keeps the records above the checkpoint, in file order.\<close>

lemma scan_entries_pending:
  "sc_pending (fold (scan_entry c) P sc) = sc_pending sc @ filter (\<lambda>e. fst e > c) P"
  by (induction P arbitrary: sc) (simp_all add: scan_entry_def)

lemma scan_entries_last:
  "sc_last_seq (fold (scan_entry c) P sc) = Max (insert (sc_last_seq sc) (fst ` set P))"
proof (induction P arbitrary: sc)
  case Nil
  then show ?case by simp
next
  case (Cons e P)
  have "sc_last_seq (fold (scan_entry c) (e # P) sc) = Max (insert (max (sc_last_seq sc) (fst e)) (fst ` set P))"
    by (simp add: Cons.IH) (simp add: scan_entry_def)
  also have "\<dots> = Max (insert (sc_last_seq sc) (fst ` set (e # P)))"
    by (cases "P = []") (auto simp: max.assoc max.commute max.left_commute)
  finally show ?case .
qed

lemma Max_insert_max: "finite A \<Longrightarrow> Max (insert (max a b) A) = Max (insert a (insert b A))"
  for a b :: nat
  by (cases "A = {}") (auto simp: max.assoc)

lemma scan_entries_max:
  "sc_max_pending (fold (scan_entry c) P sc) =
     Max (insert (sc_max_pending sc) (fst ` set (filter (\<lambda>e. fst e > c) P)))"
proof (induction P arbitrary: sc)
  case Nil
  then show ?case by simp
next
  case (Cons e P)
  have "sc_max_pending (fold (scan_entry c) (e # P) sc) =
      Max (insert (if fst e > c then max (sc_max_pending sc) (fst e) else sc_max_pending sc)
        (fst ` set (filter (\<lambda>e. fst e > c) P)))"
    by (simp add: Cons.IH) (simp add: scan_entry_def)
  also have "\<dots> = Max (insert (sc_max_pending sc) (fst ` set (filter (\<lambda>e. fst e > c) (e # P))))"
    by (auto simp: Max_insert_max simp del: Max_insert)
  finally show ?case .
qed

end
