(* ===== verification/Om_BusRun.thy ===== *)
theory Om_BusRun
  imports Om_BusFacts Om_JournalFacts
begin

text \<open>
  The bus as a state machine: every interleaving of submitters, flushers, the maintenance pass,
  start-ups, crashes and power losses. The invariant ties each shard's queue, journal file,
  watermark and tickets to every database state that may survive.
\<close>

section \<open>The steps\<close>

definition set_shard :: "nat \<Rightarrow> shard \<Rightarrow> process \<Rightarrow> process" where
  "set_shard i sh p = p\<lparr>pr_shards := (pr_shards p)[i := sh]\<rparr>"

text \<open>A start-up is a step as a whole: nothing else runs before it returns. Two parameters say what the
  environment may do: \<open>fault_ok\<close> which faults a transaction may meet, \<open>tail_ok\<close> how a journal may end that a
  start leaves. The code has no such limits; with \<open>fault_ok = prompt\<close> no transaction reports an error after
  it has committed, with \<open>tail_ok = terminated\<close> every journal left is empty or ends in a newline.\<close>

inductive bus_step :: "(faults \<Rightarrow> bool) \<Rightarrow> (str \<Rightarrow> bool) \<Rightarrow> 'g bus_deps \<Rightarrow> engine_options \<Rightarrow> 'g bus \<Rightarrow> 'g bus \<Rightarrow> bool"
  for fault_ok tail_ok D opts where
  start: "bus_process s = None \<Longrightarrow>
    start_partitioned D opts env reports (bus_journals s) (bus_stores s) = (Inr p, js, stores) \<Longrightarrow>
    \<forall>i. fault_ok (env i) \<Longrightarrow> \<forall>j\<in>set js. tail_ok (jn_content j) \<Longrightarrow>
    bus_step fault_ok tail_ok D opts s (s\<lparr>bus_process := Some p, bus_journals := js, bus_stores := stores\<rparr>)"
| start_failed: "bus_process s = None \<Longrightarrow>
    start_partitioned D opts env reports (bus_journals s) (bus_stores s) = (Inl e, js, stores) \<Longrightarrow> \<forall>i. fault_ok (env i) \<Longrightarrow>
    bus_step fault_ok tail_ok D opts s (s\<lparr>bus_journals := js, bus_stores := stores\<rparr>)"
| submit: "bus_process s = Some p \<Longrightarrow>
    try_submit D (normalize_options opts) req (p, bus_journals s) = (Ticket i seq, p', js) \<Longrightarrow>
    journalable D seq req \<Longrightarrow>
    bus_step fault_ok tail_ok D opts s (s\<lparr>bus_process := Some p', bus_journals := js\<rparr>)"
| take: "bus_process s = Some p \<Longrightarrow> i < length (pr_shards p) \<Longrightarrow>
    drain_take (eo_journaling opts) (pr_shards p ! i, bus_journals s ! i) = Some (sh, j) \<Longrightarrow>
    bus_step fault_ok tail_ok D opts s (s\<lparr>bus_process := Some (set_shard i sh p), bus_journals := (bus_journals s)[i := j]\<rparr>)"
| sync: "bus_process s = Some p \<Longrightarrow> i < length (pr_shards p) \<Longrightarrow>
    drain_sync (eo_journaling opts) (pr_shards p ! i, bus_journals s ! i) = Some (sh, j) \<Longrightarrow>
    bus_step fault_ok tail_ok D opts s (s\<lparr>bus_process := Some (set_shard i sh p), bus_journals := (bus_journals s)[i := j]\<rparr>)"
| commit: "bus_process s = Some p \<Longrightarrow> i < length (pr_shards p) \<Longrightarrow>
    drain_commit D (normalize_options opts) env i (pr_shards p ! i, bus_stores s) = Some (sh, stores) \<Longrightarrow> fault_ok env \<Longrightarrow>
    bus_step fault_ok tail_ok D opts s (s\<lparr>bus_process := Some (set_shard i sh p), bus_stores := stores\<rparr>)"
| retry: "bus_process s = Some p \<Longrightarrow> i < length (pr_shards p) \<Longrightarrow>
    drain_retry D (normalize_options opts) env1 env2 i (pr_shards p ! i, bus_stores s) = Some (sh, stores) \<Longrightarrow>
    fault_ok env1 \<Longrightarrow> fault_ok env2 \<Longrightarrow>
    bus_step fault_ok tail_ok D opts s (s\<lparr>bus_process := Some (set_shard i sh p), bus_stores := stores\<rparr>)"
| publish: "bus_process s = Some p \<Longrightarrow> i < length (pr_shards p) \<Longrightarrow>
    drain_publish (pr_shards p ! i) = Some sh \<Longrightarrow>
    bus_step fault_ok tail_ok D opts s (s\<lparr>bus_process := Some (set_shard i sh p)\<rparr>)"
| acknowledge: "bus_process s = Some p \<Longrightarrow> i < length (pr_shards p) \<Longrightarrow>
    e \<in> set (sh_tickets (pr_shards p ! i)) \<Longrightarrow> ticket_outcome (pr_shards p ! i) (fst e) = Some (Inr ()) \<Longrightarrow>
    bus_step fault_ok tail_ok D opts s (s\<lparr>bus_acked := insert (i, e) (bus_acked s)\<rparr>)"
| pause: "bus_process s = Some p \<Longrightarrow> bus_step fault_ok tail_ok D opts s (s\<lparr>bus_process := Some (pause p)\<rparr>)"
| resume: "bus_process s = Some p \<Longrightarrow> bus_step fault_ok tail_ok D opts s (s\<lparr>bus_process := Some (resume p)\<rparr>)"
| maint_begin: "bus_process s = Some p \<Longrightarrow> maint_begin p = Some p' \<Longrightarrow>
    bus_step fault_ok tail_ok D opts s (s\<lparr>bus_process := Some p'\<rparr>)"
| maint_read: "bus_process s = Some p \<Longrightarrow> maint_read p = Some p' \<Longrightarrow>
    bus_step fault_ok tail_ok D opts s (s\<lparr>bus_process := Some p'\<rparr>)"
| maint_checkpoint: "bus_process s = Some p \<Longrightarrow>
    maint_checkpoint (normalize_options opts) report (p, bus_stores s) = Some (p', stores) \<Longrightarrow>
    bus_step fault_ok tail_ok D opts s (s\<lparr>bus_process := Some p', bus_stores := stores\<rparr>)"
| maint_truncate: "bus_process s = Some p \<Longrightarrow>
    maint_truncate (p, bus_journals s) = Some (p', js) \<Longrightarrow>
    bus_step fault_ok tail_ok D opts s (s\<lparr>bus_process := Some p', bus_journals := js\<rparr>)"
| kill: "bus_step fault_ok tail_ok D opts s (kill s)"
| drop: "bus_process s = Some p \<Longrightarrow> bus_step fault_ok tail_ok D opts s (drop_engine s)"
| power_loss: "\<forall>d<length (bus_stores s). pick d \<in> survivors (bus_stores s ! d) \<Longrightarrow>
    bus_step fault_ok tail_ok D opts s (power_loss kept pick s)"

definition bus_init :: "engine_options \<Rightarrow> 'g list \<Rightarrow> 'g bus" where
  "bus_init opts gs =
     \<lparr>bus_stores = map (\<lambda>g. \<lparr>st_base = \<lparr>graph = g, meta = (\<lambda>_. None), committed = []\<rparr>, st_wal = []\<rparr>) gs,
      bus_journals = replicate (eo_shards (normalize_options opts))
        \<lparr>jn_content = [], jn_synced = 0, jn_buffer = []\<rparr>,
      bus_process = None, bus_acked = {}\<rparr>"

inductive bus_reach :: "(faults \<Rightarrow> bool) \<Rightarrow> (str \<Rightarrow> bool) \<Rightarrow> 'g bus_deps \<Rightarrow> engine_options \<Rightarrow> 'g bus \<Rightarrow> bool"
  for fault_ok tail_ok D opts where
  init: "gs \<noteq> [] \<Longrightarrow> bus_reach fault_ok tail_ok D opts (bus_init opts gs)"
| step: "bus_reach fault_ok tail_ok D opts s \<Longrightarrow> bus_step fault_ok tail_ok D opts s s' \<Longrightarrow> bus_reach fault_ok tail_ok D opts s'"

definition home :: "'g bus \<Rightarrow> nat \<Rightarrow> 'g memory_store" where
  "home s i = bus_stores s ! (i mod length (bus_stores s))"

section \<open>The invariant of one shard\<close>

fun inflight :: "drain_pc \<Rightarrow> entry list" where
  "inflight (Drain_Taken d) = d"
| "inflight (Drain_Synced d) = d"
| "inflight (Drain_Retrying d n) = d"
| "inflight _ = []"

definition pending :: "shard \<Rightarrow> entry list" where
  "pending sh = inflight (sh_drain sh) @ sh_buf sh"

definition resolved :: "shard \<Rightarrow> nat" where
  "resolved sh = (case sh_drain sh of Drain_Publish n \<Rightarrow> max (sh_durable sh) n
     | Drain_Retrying d n \<Rightarrow> max (sh_durable sh) n | _ \<Rightarrow> sh_durable sh)"

text \<open>How far the file must be written for a drain at each point.\<close>

definition drain_covered :: "'g bus_deps \<Rightarrow> entry list \<Rightarrow> journal \<Rightarrow> drain_pc \<Rightarrow> bool" where
  "drain_covered D J j pc =
     (case pc of
        Drain_Taken d \<Rightarrow> d \<noteq> [] \<and> (\<forall>e\<in>set d. covered D J (length (jn_content j)) e)
      | Drain_Synced d \<Rightarrow> d \<noteq> [] \<and> (\<forall>e\<in>set d. covered D J (jn_synced j) e)
      | Drain_Retrying d n \<Rightarrow> \<forall>e\<in>set d. covered D J (jn_synced j) e
      | _ \<Rightarrow> True)"

definition file_ok :: "'g bus_deps \<Rightarrow> entry list \<Rightarrow> str \<Rightarrow> journal \<Rightarrow> bool" where
  "file_ok D J rest j \<longleftrightarrow> jn_content j @ rest = encode_all D J \<and> (\<forall>e\<in>set J. journalable_entry D e) \<and>
     sorted_wrt (<) (map fst J) \<and> jn_synced j \<le> length (jn_content j)"

text \<open>An entry that no power loss can take away: in the durable database or in the synced journal.\<close>

definition safe :: "'g bus_deps \<Rightarrow> str \<Rightarrow> 'g memory_store \<Rightarrow> entry list \<Rightarrow> journal \<Rightarrow> entry \<Rightarrow> bool" where
  "safe D k st J j e \<longleftrightarrow> fst e \<le> cp k (st_base st) \<or> covered D J (jn_synced j) e"

definition ticket_ok :: "'g bus_deps \<Rightarrow> str \<Rightarrow> 'g memory_store \<Rightarrow> entry list \<Rightarrow> journal \<Rightarrow> shard \<Rightarrow> entry \<Rightarrow> bool" where
  "ticket_ok D k st J j sh e \<longleftrightarrow> e \<in> set (pending sh) \<or>
     fst e \<le> cp k (current st) \<and> (e \<in> set (applied k (current st)) \<or> sh_failures sh (fst e) \<noteq> None) \<and>
     safe D k st J j e"

definition live :: "'g bus_deps \<Rightarrow> str \<Rightarrow> 'g memory_store \<Rightarrow> journal \<Rightarrow> shard \<Rightarrow> entry set \<Rightarrow> entry list \<Rightarrow> bool" where
  "live D k st j sh A J \<longleftrightarrow>
     store_ok k st \<and> file_ok D J (jn_buffer j) j \<and> (\<forall>e\<in>set J. fst e \<le> sh_next_seq sh) \<and>
     cp k (current st) \<le> sh_next_seq sh \<and>
     map fst (pending sh) = [Suc (cp k (current st))..<Suc (sh_next_seq sh)] \<and>
     resolved sh = cp k (current st) \<and> set (pending sh) \<subseteq> set J \<and> drain_covered D J j (sh_drain sh) \<and>
     (\<forall>e\<in>set (sh_tickets sh). ticket_ok D k st J j sh e) \<and>
     (\<forall>e\<in>A. e \<in> set (applied k (current st)) \<and> safe D k st J j e)"

definition dormant :: "'g bus_deps \<Rightarrow> str \<Rightarrow> 'g memory_store \<Rightarrow> journal \<Rightarrow> entry set \<Rightarrow> entry list \<Rightarrow> bool" where
  "dormant D k st j A J \<longleftrightarrow>
     store_ok k st \<and> (\<exists>rest. file_ok D J rest j) \<and>
     (\<forall>e\<in>A. e \<in> set (applied k (current st)) \<and> safe D k st J j e \<or>
        cp k (current st) < fst e \<and> covered D J (jn_synced j) e)"

lemma liveD:
  assumes "live D k st j sh A J"
  shows "store_ok k st" "file_ok D J (jn_buffer j) j" "\<forall>e\<in>set J. fst e \<le> sh_next_seq sh"
    "cp k (current st) \<le> sh_next_seq sh"
    "map fst (pending sh) = [Suc (cp k (current st))..<Suc (sh_next_seq sh)]"
    "resolved sh = cp k (current st)" "set (pending sh) \<subseteq> set J" "drain_covered D J j (sh_drain sh)"
    "\<forall>e\<in>set (sh_tickets sh). ticket_ok D k st J j sh e"
    "\<forall>e\<in>A. e \<in> set (applied k (current st)) \<and> safe D k st J j e"
  using assms by (auto simp: live_def)

lemma liveI:
  assumes "store_ok k st" "file_ok D J (jn_buffer j) j" "\<forall>e\<in>set J. fst e \<le> sh_next_seq sh"
    "cp k (current st) \<le> sh_next_seq sh"
    "map fst (pending sh) = [Suc (cp k (current st))..<Suc (sh_next_seq sh)]"
    "resolved sh = cp k (current st)" "set (pending sh) \<subseteq> set J" "drain_covered D J j (sh_drain sh)"
    "\<And>e. e \<in> set (sh_tickets sh) \<Longrightarrow> ticket_ok D k st J j sh e"
    "\<And>e. e \<in> A \<Longrightarrow> e \<in> set (applied k (current st)) \<and> safe D k st J j e"
  shows "live D k st j sh A J"
  using assms unfolding live_def by blast

lemma file_okD:
  assumes "file_ok D J rest j"
  shows "jn_content j @ rest = encode_all D J" "\<forall>e\<in>set J. journalable_entry D e"
    "sorted_wrt (<) (map fst J)" "jn_synced j \<le> length (jn_content j)"
  using assms by (auto simp: file_ok_def)

lemma live_dormant: "live D k st j sh A J \<Longrightarrow> dormant D k st j A J"
  by (auto simp: live_def dormant_def)

lemma pending_bounds:
  assumes "live D k st j sh A J" and "e \<in> set (pending sh)"
  shows "cp k (current st) < fst e" and "fst e \<le> sh_next_seq sh"
proof -
  have "fst e \<in> set (map fst (pending sh))" using assms(2) by simp
  then have "fst e \<in> {Suc (cp k (current st))..<Suc (sh_next_seq sh)}"
    unfolding liveD(5) [OF assms(1)] by (simp only: set_upt)
  then show "cp k (current st) < fst e" "fst e \<le> sh_next_seq sh" by auto
qed

lemma live_durable: "live D k st j sh A J \<Longrightarrow> sh_durable sh \<le> cp k (current st)"
  using liveD(6) by (fastforce simp: resolved_def split: drain_pc.splits)

section \<open>Steps of one shard\<close>

lemma safe_view: "safe D k st J j e \<Longrightarrow> cp k (st_base st) \<le> cp k (st_base st') \<Longrightarrow> safe D k st' J j e"
  by (auto simp: safe_def)

text \<open>What other shards and checkpoints do to the store.\<close>

lemma live_view:
  assumes "live D k st j sh A J" and "same_view k st st'"
  shows "live D k st' j sh A J"
  using assms unfolding live_def ticket_ok_def
  by (auto simp: same_view_def intro: safe_view)

lemma dormant_view:
  assumes "dormant D k st j A J" and "same_view k st st'"
  shows "dormant D k st' j A J"
  using assms unfolding dormant_def by (auto simp: same_view_def intro: safe_view)

text \<open>Growth of the journal.\<close>

lemma file_ok_grow:
  assumes "safe D k st J j e" and "jn_synced j \<le> jn_synced j'"
  shows "safe D k st (J @ K) j' e"
  using assms covered_append covered_mono unfolding safe_def by blast

lemma live_admit:
  assumes l: "live D k st j sh A J" and jl: "journalable D (sh_next_seq sh + 1) req"
    and a: "admit D True req (sh, j) = (sh', j')"
  shows "live D k st j' sh' A (J @ [(sh_next_seq sh + 1, req)])"
proof -
  define e where "e = (sh_next_seq sh + 1, req)"
  have j': "j' = journal_append D (sh_next_seq sh + 1) req j"
    and sh': "sh' = sh\<lparr>sh_next_seq := sh_next_seq sh + 1, sh_buf := sh_buf sh @ [e], sh_tickets := sh_tickets sh @ [e]\<rparr>"
    using a by (auto simp: admit_def e_def Let_def)
  obtain x where x: "jn_content j' = jn_content j @ x" using journal_append_content j' by blast
  have syn: "jn_synced j' = jn_synced j" by (simp add: j')
  have p: "pending sh' = pending sh @ [e]" by (simp add: sh' pending_def)
  have fok: "file_ok D (J @ [e]) (jn_buffer j') j'"
    using file_okD [OF liveD(2) [OF l]] liveD(3) [OF l] journal_append_text [OF jl, of j] jl x
    by (auto simp: file_ok_def e_def j' journalable_entry_def sorted_wrt_append less_Suc_eq_le)
  have cov: "drain_covered D (J @ [e]) j' (sh_drain sh')"
    using liveD(8) [OF l] x syn
    by (auto simp: drain_covered_def sh' intro: covered_append covered_mono [OF covered_append] split: drain_pc.splits)
  have tick: "ticket_ok D k st (J @ [e]) j' sh' t" if "t \<in> set (sh_tickets sh')" for t
    using that liveD(9) [OF l] file_ok_grow [of D k st J j t j' "[e]"]
    unfolding ticket_ok_def p by (auto simp: sh' syn)
  have f: "sh_next_seq sh' = Suc (sh_next_seq sh)" "sh_drain sh' = sh_drain sh" "resolved sh' = resolved sh"
    by (simp_all add: sh' resolved_def cong: drain_pc.case_cong)
  show ?thesis
    unfolding e_def [symmetric]
  proof (rule liveI)
    show "map fst (pending sh') = [Suc (cp k (current st))..<Suc (sh_next_seq sh')]"
      using liveD(4,5) [OF l] by (simp add: p f e_def)
    show "\<forall>e\<in>set (J @ [e]). fst e \<le> sh_next_seq sh'" using liveD(3) [OF l] by (auto simp: f e_def)
    show "t \<in> set (applied k (current st)) \<and> safe D k st (J @ [e]) j' t" if "t \<in> A" for t
      using liveD(10) [OF l] that file_ok_grow [of D k st J j t j' "[e]"] syn by auto
  qed (use liveD [OF l] fok cov tick in \<open>auto simp: p f\<close>)
qed

lemma live_take:
  assumes l: "live D k st j sh A J" and t: "drain_take True (sh, j) = Some (sh', j')"
  shows "live D k st j' sh' A J"
proof -
  have idle: "sh_drain sh = Drain_Idle" and ne: "sh_buf sh \<noteq> []" and j': "j' = jn_flush j"
    and sh': "sh' = sh\<lparr>sh_buf := [], sh_drain := Drain_Taken (sh_buf sh)\<rparr>"
    using t by (auto simp: drain_take_def split: if_splits)
  have p: "pending sh' = pending sh" by (simp add: sh' pending_def idle)
  have c: "jn_content j' = encode_all D J" "jn_buffer j' = []" "jn_synced j' = jn_synced j"
    using file_okD(1) [OF liveD(2) [OF l]] by (simp_all add: j' jn_flush_def)
  have fok: "file_ok D J (jn_buffer j') j'"
    using file_okD [OF liveD(2) [OF l]] c by (auto simp: file_ok_def simp flip: file_okD(1) [OF liveD(2) [OF l]])
  have "drain_covered D J j' (sh_drain sh')"
    using liveD(7) [OF l] c(1) ne by (auto simp: drain_covered_def sh' pending_def intro: covered_all)
  moreover have "safe D k st J j' e = safe D k st J j e" for e using c(3) by (simp add: safe_def)
  ultimately show ?thesis
    using liveD [OF l] fok p unfolding live_def ticket_ok_def
    by (auto simp: sh' resolved_def idle)
qed

lemma live_sync:
  assumes l: "live D k st j sh A J" and t: "drain_sync True (sh, j) = Some (sh', j')"
  shows "live D k st j' sh' A J"
proof -
  obtain d where pc: "sh_drain sh = Drain_Taken d" and j': "j' = jn_sync j"
    and sh': "sh' = sh\<lparr>sh_drain := Drain_Synced d\<rparr>"
    using t by (auto simp: drain_sync_def split: drain_pc.splits)
  have p: "pending sh' = pending sh" by (simp add: sh' pending_def pc)
  have c: "jn_content j' = jn_content j" "jn_buffer j' = jn_buffer j" "jn_synced j' = length (jn_content j)"
    by (simp_all add: j' jn_sync_def)
  have "drain_covered D J j' (sh_drain sh')"
    using liveD(8) [OF l] by (simp add: drain_covered_def sh' pc c)
  moreover have "safe D k st J j' e" if "safe D k st J j e" for e
    using that file_okD(4) [OF liveD(2) [OF l]] c(3) covered_mono unfolding safe_def by metis
  moreover have "file_ok D J (jn_buffer j') j'" using liveD(2) [OF l] c by (simp add: file_ok_def)
  ultimately show ?thesis
    using liveD [OF l] p unfolding live_def ticket_ok_def
    by (auto simp: sh' resolved_def pc)
qed


lemma upt_append:
  assumes "xs @ ys = [a..<b]"
  shows "xs = [a..<a + length xs]" and "ys = [a + length xs..<b]"
proof -
  have len: "length xs \<le> b - a" using arg_cong [OF assms, of length] by simp
  have "xs = take (length xs) [a..<b]" using assms by (metis append_eq_conv_conj)
  then show "xs = [a..<a + length xs]" using len by (cases "a \<le> b") (auto simp: take_upt)
  have "ys = drop (length xs) [a..<b]" using assms by (metis append_eq_conv_conj)
  then show "ys = [a + length xs..<b]" by (simp add: drop_upt)
qed

text \<open>Steps that only move the drain along.\<close>

lemma live_same:
  assumes l: "live D k st j sh A J" and "pending sh' = pending sh" "resolved sh' = resolved sh"
    "sh_next_seq sh' = sh_next_seq sh" "sh_tickets sh' = sh_tickets sh" "sh_failures sh' = sh_failures sh"
    "drain_covered D J j (sh_drain sh')"
  shows "live D k st j sh' A J"
  using assms unfolding live_def ticket_ok_def by simp

text \<open>A commit that resolves the first pending entries, \<open>es\<close> of them by writing them.\<close>

lemma live_advance:
  assumes l: "live D k st j sh A J"
    and adv: "advanced k v es st st'" and es: "es = ds \<or> es = []"
    and ds: "pending sh = ds @ pending sh'" "ds \<noteq> []" "v = fst (last ds)"
    and cov: "\<forall>e\<in>set ds. (e \<in> set es \<or> sh_failures sh' (fst e) \<noteq> None) \<and> covered D J (jn_synced j) e"
    and sh': "resolved sh' = v" "sh_next_seq sh' = sh_next_seq sh" "sh_tickets sh' = sh_tickets sh"
      "\<And>s. sh_failures sh s \<noteq> None \<Longrightarrow> sh_failures sh' s \<noteq> None"
    and dc: "drain_covered D J j (sh_drain sh')"
  shows "live D k st' j sh' A J"
proof -
  let ?c = "cp k (current st)"
  have fsts: "map fst ds @ map fst (pending sh') = [Suc ?c..<Suc (sh_next_seq sh)]"
    using liveD(5) [OF l] ds(1) by simp
  have mds: "map fst ds = [Suc ?c..<Suc ?c + length ds]" using upt_append(1) [OF fsts] by simp
  have "fst (last ds) = last (map fst ds)" using ds(2) by (simp add: last_map)
  also have "\<dots> = ?c + length ds" unfolding mds using ds(2) by (cases ds) simp_all
  finally have v: "v = ?c + length ds" using ds(3) by simp
  have rest: "map fst (pending sh') = [Suc v..<Suc (sh_next_seq sh)]"
    using upt_append(2) [OF fsts] v by simp
  have vn: "v \<le> sh_next_seq sh" using arg_cong [OF fsts, of length] ds(2) v
    by (cases ds) (auto simp del: upt_Suc)
  have new: "?c < v" using v ds(2) by simp
  have bnd: "?c < fst e \<and> fst e \<le> v" if "e \<in> set ds" for e
  proof -
    have "fst e \<in> set (map fst ds)" using that by simp
    then show ?thesis unfolding mds using v by (simp only: set_upt) auto
  qed
  have srt: "sorted_wrt (<) (map fst es)" using es mds by (auto simp del: upt_Suc)
  have esb: "\<forall>e\<in>set es. ?c < fst e \<and> fst e \<le> v" using es bnd by auto
  note a = advanced_self [OF liveD(1) [OF l] adv new srt esb]
  have safe_eq: "safe D k st' J j e = safe D k st J j e" for e by (simp add: safe_def a(4))
  show ?thesis
  proof (rule liveI)
    show "ticket_ok D k st' J j sh' e" if t: "e \<in> set (sh_tickets sh')" for e
    proof -
      have "ticket_ok D k st J j sh e" using liveD(9) [OF l] t sh'(3) by simp
      then consider "e \<in> set ds" | "e \<in> set (pending sh')"
        | "fst e \<le> ?c" "e \<in> set (applied k (current st)) \<or> sh_failures sh (fst e) \<noteq> None" "safe D k st J j e"
        unfolding ticket_ok_def ds(1) by auto
      then show ?thesis
      proof cases
        case 1
        then show ?thesis using bnd [OF 1] cov unfolding ticket_ok_def a(2,3) by (auto simp: safe_def)
      next
        case 2
        then show ?thesis by (simp add: ticket_ok_def)
      next
        case 3
        then show ?thesis using new sh'(4) unfolding ticket_ok_def a(2,3) safe_eq by auto
      qed
    qed
    show "e \<in> set (applied k (current st')) \<and> safe D k st' J j e" if "e \<in> A" for e
      using liveD(10) [OF l] that unfolding a(3) safe_eq by auto
  qed (use liveD(2,3,7) [OF l] a(1) dc rest vn sh'(1,2) ds(1) in \<open>auto simp: a(2)\<close>)
qed

lemma live_publish:
  assumes l: "live D k st j sh A J" and t: "drain_publish sh = Some sh'"
  shows "live D k st j sh' A J" and "sh_durable sh \<le> sh_durable sh'"
proof -
  obtain n where pc: "sh_drain sh = Drain_Publish n"
    and sh': "sh' = sh\<lparr>sh_durable := max (sh_durable sh) n, sh_drain := Drain_Idle\<rparr>"
    using t by (auto simp: drain_publish_def split: drain_pc.splits)
  show "live D k st j sh' A J"
    by (rule live_same [OF l]) (simp_all add: sh' pending_def resolved_def pc drain_covered_def)
  show "sh_durable sh \<le> sh_durable sh'" by (simp add: sh')
qed

lemma live_commit:
  assumes l: "live D (checkpoint_key i) (stores ! d) j sh A J" and d: "d = i mod length stores" "d < length stores"
    and t: "drain_commit D opts env i (sh, stores) = Some (sh', stores')" and f: "prompt env"
  shows "live D (checkpoint_key i) (stores' ! d) j sh' A J"
proof -
  let ?o = "\<lambda>m. \<lparr>bo_normalize = eo_normalize opts, bo_checkpoint = Some (checkpoint_key i, m)\<rparr>"
  obtain es where pc: "sh_drain sh = Drain_Synced es"
    using t by (auto simp: drain_commit_def split: drain_pc.splits)
  have ne: "es \<noteq> []" and cov: "\<forall>e\<in>set es. covered D J (jn_synced j) e"
    using liveD(8) [OF l] by (simp_all add: drain_covered_def pc)
  define v where "v = fst (last es)"
  obtain r where r: "batch_in_domain D env d es (group_drained D es) (?o v) stores = (r, stores')"
    and sh': "sh' = (case r of Inr _ \<Rightarrow> sh\<lparr>sh_drain := Drain_Publish v\<rparr> | Inl _ \<Rightarrow> sh\<lparr>sh_drain := Drain_Retrying es 0\<rparr>)"
    using t ne by (auto simp: drain_commit_def pc v_def d(1) Let_def split: prod.splits sum.splits)
  have p: "pending sh = es @ sh_buf sh" by (simp add: pending_def pc)
  show ?thesis
  proof (cases r)
    case (Inl e)
    have "same_view (checkpoint_key i) (stores ! d) (stores' ! d)"
      using domains.failed_view [OF r [unfolded Inl] f d(2) liveD(1) [OF l]] .
    then have l': "live D (checkpoint_key i) (stores' ! d) j sh A J" by (rule live_view [OF l])
    show ?thesis
      by (rule live_same [OF l']) (simp_all add: sh' Inl pending_def resolved_def pc drain_covered_def cov)
  next
    case (Inr u)
    have adv: "advanced (checkpoint_key i) v es (stores ! d) (stores' ! d)"
      using domains.commit_ok [OF r [unfolded Inr] d(2)] .
    have "sh_durable sh \<le> v"
    proof -
      have "last es \<in> set (pending sh)" using ne p by simp
      from pending_bounds(1) [OF l this] live_durable [OF l] show ?thesis by (simp add: v_def)
    qed
    then have "resolved sh' = v" by (simp add: resolved_def sh' Inr)
    then show ?thesis
      by (intro live_advance [OF l adv, of es]) (use ne cov p in \<open>auto simp: sh' Inr pending_def v_def drain_covered_def\<close>)
  qed
qed

lemma live_retry:
  assumes l: "live D (checkpoint_key i) (stores ! d) j sh A J" and d: "d = i mod length stores" "d < length stores"
    and t: "drain_retry D opts env1 env2 i (sh, stores) = Some (sh', stores')" and f: "prompt env1" "prompt env2"
  shows "live D (checkpoint_key i) (stores' ! d) j sh' A J"
proof -
  let ?k = "checkpoint_key i"
  obtain es n where pc: "sh_drain sh = Drain_Retrying es n"
    using t by (auto simp: drain_retry_def split: drain_pc.splits)
  show ?thesis
  proof (cases es)
    case Nil
    then have eq: "sh' = sh\<lparr>sh_drain := Drain_Publish n\<rparr>" "stores' = stores"
      using t by (simp_all add: drain_retry_def pc)
    show ?thesis unfolding eq(2)
      by (rule live_same [OF l]) (simp_all add: eq(1) pending_def resolved_def pc Nil drain_covered_def)
  next
    case (Cons e0 rest)
    obtain seq req where e0: "e0 = (seq, req)" by (cases e0)
    have cov: "\<forall>e\<in>set es. covered D J (jn_synced j) e"
      using liveD(8) [OF l] by (simp add: drain_covered_def pc)
    have p: "pending sh = e0 # rest @ sh_buf sh" by (simp add: pending_def pc Cons)
    have dur: "sh_durable sh \<le> seq"
      using pending_bounds(1) [OF l, of e0] live_durable [OF l] by (simp add: p e0)
    obtain r1 stores1 where r1: "batch_in_domain D env1 d [(seq, req)] [req]
        \<lparr>bo_normalize = eo_normalize opts, bo_checkpoint = Some (?k, seq)\<rparr> stores = (r1, stores1)"
      by (cases "batch_in_domain D env1 d [(seq, req)] [req]
        \<lparr>bo_normalize = eo_normalize opts, bo_checkpoint = Some (?k, seq)\<rparr> stores")
    show ?thesis
    proof (cases r1)
      case (Inr u)
      have eq: "sh' = sh\<lparr>sh_drain := Drain_Retrying rest seq\<rparr>" "stores' = stores1"
        using t r1 by (simp_all add: drain_retry_def pc Cons e0 d(1) Inr)
      have adv: "advanced ?k seq [e0] (stores ! d) (stores1 ! d)"
        using domains.commit_ok [OF r1 [unfolded Inr] d(2)] e0 by simp
      show ?thesis unfolding eq(2)
        by (intro live_advance [OF l adv, of "[e0]"])
          (use cov p dur in \<open>auto simp: eq(1) pending_def drain_covered_def resolved_def e0 Cons\<close>)
    next
      case (Inl err)
      obtain r2 stores2 where r2: "batch_in_domain D env2 d [] []
          \<lparr>bo_normalize = False, bo_checkpoint = Some (?k, seq)\<rparr> stores1 = (r2, stores2)"
        by (cases "batch_in_domain D env2 d [] []
          \<lparr>bo_normalize = False, bo_checkpoint = Some (?k, seq)\<rparr> stores1")
      have len: "length stores1 = length stores" by (rule batch_in_domain_length [OF r1])
      have l1: "live D ?k (stores1 ! d) j sh A J"
        by (rule live_view [OF l domains.failed_view [OF r1 [unfolded Inl] f(1) d(2) liveD(1) [OF l]]])
      have d1: "d < length stores1" using d(2) len by simp
      show ?thesis
      proof (cases r2)
        case Inr2: (Inr u)
        have eq: "sh' = sh\<lparr>sh_failures := (sh_failures sh)(seq \<mapsto> err), sh_drain := Drain_Retrying rest seq\<rparr>"
            "stores' = stores2"
          using t r1 r2 len by (simp_all add: drain_retry_def pc Cons e0 d(1) Inl Inr2)
        have adv: "advanced ?k seq [] (stores1 ! d) (stores2 ! d)"
          using domains.commit_ok [OF r2 [unfolded Inr2] d1] .
        show ?thesis unfolding eq(2)
          by (intro live_advance [OF l1 adv, of "[e0]"])
            (use cov p dur in \<open>auto simp: eq(1) pending_def drain_covered_def resolved_def e0 Cons\<close>)
      next
        case Inl2: (Inl err2)
        have eq: "sh' = sh\<lparr>sh_buf := ((seq, req) # rest) @ sh_buf sh, sh_drain := Drain_Publish n\<rparr>"
            "stores' = stores2"
          using t r1 r2 len by (simp_all add: drain_retry_def pc Cons e0 d(1) Inl Inl2)
        have l2: "live D ?k (stores2 ! d) j sh A J"
          by (rule live_view [OF l1 domains.failed_view [OF r2 [unfolded Inl2] f(2) d1 liveD(1) [OF l1]]])
        show ?thesis unfolding eq(2)
          by (rule live_same [OF l2]) (simp_all add: eq(1) pending_def resolved_def pc Cons e0 drain_covered_def)
      qed
    qed
  qed
qed

lemma live_acknowledge:
  assumes l: "live D k st j sh A J" and e: "e \<in> set (sh_tickets sh)"
    and o: "ticket_outcome sh (fst e) = Some (Inr ())"
  shows "live D k st j sh (insert e A) J"
proof -
  have "fst e \<le> sh_durable sh" "sh_failures sh (fst e) = None"
    using o by (auto simp: ticket_outcome_def split: if_splits option.splits)
  moreover from this(1) have "e \<notin> set (pending sh)"
    using pending_bounds(1) [OF l, of e] live_durable [OF l] by auto
  ultimately have "e \<in> set (applied k (current st)) \<and> safe D k st J j e"
    using liveD(9) [OF l] e unfolding ticket_ok_def by fastforce
  then show ?thesis using l unfolding live_def by blast
qed

text \<open>A journal is reclaimed when the durable checkpoint has passed every number ever issued.\<close>

lemma live_truncate:
  assumes l: "live D k st j sh A J" and w: "sh_next_seq sh \<le> cp k (st_base st)"
  shows "live D k st (journal_truncate j) sh A []"
proof -
  have cb: "cp k (st_base st) \<le> cp k (current st)" by (rule store_ok_base [OF liveD(1) [OF l]])
  have none: "pending sh = []"
  proof (rule ccontr)
    assume "pending sh \<noteq> []"
    then obtain e where "e \<in> set (pending sh)" by (meson ex_in_conv set_empty)
    from pending_bounds [OF l this] w cb show False by simp
  qed
  have safe: "safe D k st [] (journal_truncate j) e" if "fst e \<le> cp k (current st)" for e
    using that liveD(4) [OF l] w by (simp add: safe_def)
  show ?thesis
  proof (rule liveI)
    show "ticket_ok D k st [] (journal_truncate j) sh e" if "e \<in> set (sh_tickets sh)" for e
      using liveD(9) [OF l] that safe none by (auto simp: ticket_ok_def)
    show "e \<in> set (applied k (current st)) \<and> safe D k st [] (journal_truncate j) e" if "e \<in> A" for e
      using liveD(10) [OF l] that safe store_ok_applied [OF liveD(1) [OF l]] by blast
    show "drain_covered D [] (journal_truncate j) (sh_drain sh)"
      using none liveD(8) [OF l] by (auto simp: drain_covered_def pending_def split: drain_pc.splits)
  qed (use liveD(1,4,5,6) [OF l] none in \<open>auto simp: file_ok_def journal_truncate_def jn_flush_def\<close>)
qed


section \<open>Crashes and replay\<close>

lemma dormant_file:
  assumes "dormant D k st j A J" and "jn_content j' = jn_content j" "jn_synced j' = jn_synced j"
  shows "dormant D k st j' A J"
  using assms by (simp add: dormant_def file_ok_def safe_def)

lemma live_flush_dormant:
  assumes "live D k st j sh A J" shows "dormant D k st (jn_flush j) A J"
proof -
  have "file_ok D J [] (jn_flush j)"
    using file_okD [OF liveD(2) [OF assms]]
    by (auto simp: file_ok_def jn_flush_def simp flip: file_okD(1) [OF liveD(2) [OF assms]])
  then show ?thesis using liveD(1,10) [OF assms]
    by (auto simp: dormant_def safe_def jn_flush_def)
qed

lemma dormant_power_loss:
  assumes d: "dormant D k st j A J" and x: "x \<in> survivors st" and n: "jn_synced j \<le> n"
  shows "dormant D k \<lparr>st_base = x, st_wal = []\<rparr> (cut_file n j) A J"
proof -
  obtain rest where f: "file_ok D J rest j" and ok: "store_ok k st" using d by (auto simp: dormant_def)
  let ?c = "take n (jn_content j)"
  have len: "jn_synced j \<le> length ?c" using n file_okD(4) [OF f] by simp
  have "file_ok D J (drop n (jn_content j) @ rest) (cut_file n j)"
    using file_okD [OF f] by (simp add: file_ok_def cut_file_def Let_def flip: append_assoc)
  moreover have "e \<in> set (applied k x) \<and> safe D k \<lparr>st_base = x, st_wal = []\<rparr> J (cut_file n j) e \<or>
      cp k x < fst e \<and> covered D J (jn_synced (cut_file n j)) e" if e: "e \<in> A" for e
  proof -
    have syn: "jn_synced (cut_file n j) = length ?c" by (simp add: cut_file_def Let_def)
    have le: "cp k x \<le> cp k (current st)" "cp k (st_base st) \<le> cp k x" using store_okD [OF ok x] by auto
    from d e consider (old) "e \<in> set (applied k (current st))" "safe D k st J j e"
      | (new) "cp k (current st) < fst e" "covered D J (jn_synced j) e" by (auto simp: dormant_def)
    then show ?thesis
    proof cases
      case old
      show ?thesis
      proof (cases "fst e \<le> cp k x")
        case True
        then show ?thesis using old(1) store_okD(3) [OF ok x] by (simp add: safe_def)
      next
        case False
        then have "covered D J (jn_synced j) e" using old(2) le(2) by (auto simp: safe_def)
        then have "covered D J (length ?c) e" by (rule covered_mono [OF _ len])
        with False show ?thesis using syn by auto
      qed
    next
      case new
      then show ?thesis using le(1) covered_mono [OF new(2) len] syn by auto
    qed
  qed
  ultimately show ?thesis using survivor_store [OF ok x]
    by (auto simp: dormant_def current_def)
qed

text \<open>A replay that succeeds brings the store up to the last number it saw; the records it read are
  the first ones of the journal, all of them when the file is well terminated.\<close>

definition restarted :: "'g bus_deps \<Rightarrow> str \<Rightarrow> 'g memory_store \<Rightarrow> journal \<Rightarrow> entry set \<Rightarrow> entry list \<Rightarrow> nat \<Rightarrow> bool" where
  "restarted D k st j A J n \<longleftrightarrow>
     store_ok k st \<and> (\<exists>rest. file_ok D J rest j) \<and> cp k (current st) = n \<and>
     (\<forall>e\<in>A. e \<in> set (applied k (current st)) \<and> safe D k st J j e) \<and>
     (terminated (jn_content j) \<longrightarrow> (\<exists>P Q. J = P @ Q \<and> jn_content j = encode_all D P \<and>
        (\<forall>e\<in>set P. fst e \<le> n)))"

lemma restarted_dormant: "restarted D k st j A J n \<Longrightarrow> dormant D k st j A J"
  by (auto simp: restarted_def dormant_def)

lemma replay_restarts:
  assumes dm: "dormant D (checkpoint_key i) (stores ! d) j A J"
    and d: "d = i mod length stores" "d < length stores"
    and r: "replay D env i norm (Inr (Some (jn_content j))) stores = (Inr (n, m), stores')"
  shows "restarted D (checkpoint_key i) (stores' ! d) j A J n"
proof -
  let ?k = "checkpoint_key i" and ?st = "stores ! d"
  let ?c = "cp ?k (current ?st)"
  obtain rest where f: "file_ok D J rest j" and ok: "store_ok ?k ?st" using dm by (auto simp: dormant_def)
  let ?s0 = "\<lparr>sc_last_seq = ?c, sc_pending = [], sc_max_pending = 0\<rparr>"
  obtain sc where scan: "scan_lines D ?c (raw_lines [] (jn_content j)) ?s0 = Inr sc"
    and out: "(if sc_pending sc = [] then (Inr (sc_last_seq sc, 0), stores)
       else (case batch_in_domain D env d (sc_pending sc) (map snd (sc_pending sc))
           \<lparr>bo_normalize = norm, bo_checkpoint = Some (?k, sc_max_pending sc)\<rparr> stores of
         (Inl e, stores') \<Rightarrow> (Inl e, stores')
       | (Inr _, stores') \<Rightarrow> (Inr (sc_last_seq sc, length (sc_pending sc)), stores'))) =
       ((Inr (n, m), stores') :: (memory_error + nat \<times> nat) \<times> 'a memory_store list)"
    using r d(1) by (auto simp: replay_def Let_def cp_def get_checkpoint_def split: sum.splits)
  obtain P Q where PQ: "J = P @ Q" and sc: "sc = fold (scan_entry ?c) P ?s0"
    and cov: "\<forall>e. covered D J (length (jn_content j)) e \<longrightarrow> e \<in> set P"
    and ter: "terminated (jn_content j) \<longrightarrow> jn_content j = encode_all D P"
    using scan_prefix [OF file_okD(1,2) [OF f] scan] by blast
  define pen where "pen = filter (\<lambda>e. fst e > ?c) P"
  have pen: "sc_pending sc = pen" by (simp add: sc scan_entries_pending pen_def)
  have lst: "sc_last_seq sc = Max (insert ?c (fst ` set P))" by (simp add: sc scan_entries_last)
  have mx: "sc_max_pending sc = Max (insert 0 (fst ` set pen))" by (simp add: sc scan_entries_max pen_def)
  have n: "n = sc_last_seq sc" using out by (auto split: if_splits prod.splits sum.splits)
  have bnd: "\<forall>e\<in>set P. fst e \<le> n" by (simp add: n lst)
  have top: "n = (if pen = [] then ?c else sc_max_pending sc)"
  proof (cases "pen = []")
    case True
    then have "\<forall>e\<in>set P. fst e \<le> ?c" by (auto simp: pen_def filter_empty_conv not_less)
    then have "Max (insert ?c (fst ` set P)) = ?c" by (intro Max_eqI) auto
    with True show ?thesis by (simp add: n lst)
  next
    case False
    have sub: "fst ` set pen \<subseteq> fst ` set P" by (auto simp: pen_def)
    have "Max (insert ?c (fst ` set P)) = Max (insert 0 (fst ` set pen))"
    proof (rule Max_eqI)
      have m1: "Max (insert 0 (fst ` set pen)) \<in> insert 0 (fst ` set pen)" by (intro Max_in) auto
      obtain e where e: "e \<in> set pen" using False by (cases pen) auto
      have "fst e \<le> Max (insert 0 (fst ` set pen))" using e by (intro Max_ge) auto
      moreover have "?c < fst e" using e by (simp add: pen_def)
      ultimately have gt: "?c < Max (insert 0 (fst ` set pen))" by simp
      show "Max (insert 0 (fst ` set pen)) \<in> insert ?c (fst ` set P)" using m1 sub gt by auto
      fix y assume y: "y \<in> insert ?c (fst ` set P)"
      show "y \<le> Max (insert 0 (fst ` set pen))"
      proof (cases "y \<le> ?c")
        case True
        then show ?thesis using gt by simp
      next
        case False
        then have "y \<in> fst ` set pen" using y by (auto simp: pen_def)
        then show ?thesis by (intro Max_ge) auto
      qed
    qed simp
    with False show ?thesis by (simp add: n lst mx)
  qed
  have "store_ok ?k (stores' ! d) \<and> cp ?k (current (stores' ! d)) = n \<and>
      applied ?k (current (stores' ! d)) = applied ?k (current ?st) @ pen \<and>
      st_base (stores' ! d) = st_base ?st"
  proof (cases "pen = []")
    case True
    then show ?thesis using out ok top pen by simp
  next
    case False
    have b: "batch_in_domain D env d pen (map snd pen)
        \<lparr>bo_normalize = norm, bo_checkpoint = Some (?k, n)\<rparr> stores = (Inr (), stores')"
      using out False top unfolding pen by (auto split: prod.splits sum.splits)
    have adv: "advanced ?k n pen ?st (stores' ! d)" by (rule domains.commit_ok [OF b d(2)])
    have "sorted_wrt (<) (map fst P)" using file_okD(3) [OF f] by (simp add: PQ sorted_wrt_append)
    then have srt: "sorted_wrt (<) (map fst pen)"
      by (simp add: pen_def sorted_wrt_map sorted_wrt_filter)
    have all: "\<forall>e\<in>set pen. ?c < fst e \<and> fst e \<le> n" using bnd by (auto simp: pen_def)
    have "?c < n" using False all by (cases pen) auto
    from advanced_self [OF ok adv this srt all] show ?thesis by simp
  qed
  then have st': "store_ok ?k (stores' ! d)" "cp ?k (current (stores' ! d)) = n"
      "applied ?k (current (stores' ! d)) = applied ?k (current ?st) @ pen" "st_base (stores' ! d) = st_base ?st"
    by auto
  have "e \<in> set (applied ?k (current (stores' ! d))) \<and> safe D ?k (stores' ! d) J j e" if e: "e \<in> A" for e
  proof -
    have "e \<in> set (applied ?k (current ?st)) \<and> safe D ?k ?st J j e \<or>
        ?c < fst e \<and> covered D J (jn_synced j) e" using dm e by (auto simp: dormant_def)
    moreover have "e \<in> set pen" if "?c < fst e" "covered D J (jn_synced j) e"
    proof -
      have "e \<in> set P" using cov covered_mono [OF that(2) file_okD(4) [OF f]] by blast
      with that(1) show ?thesis by (simp add: pen_def)
    qed
    ultimately show ?thesis unfolding st'(3) safe_def st'(4) by auto
  qed
  then show ?thesis unfolding restarted_def using st'(1,2) f PQ ter bnd by blast
qed

lemma restarted_view: "restarted D k st j A J n \<Longrightarrow> same_view k st st' \<Longrightarrow> restarted D k st' j A J n"
  unfolding restarted_def by (auto simp: same_view_def intro: safe_view)

text \<open>With the journal well terminated, or emptied after a complete checkpoint, the shard is up.\<close>

lemma restarted_live:
  assumes r: "restarted D k st j A J n" and t: "terminated (jn_content j)" and b: "jn_buffer j = []"
  shows "\<exists>J. live D k st j (shard_new n) A J"
proof -
  obtain rest where f: "file_ok D J rest j" using r by (auto simp: restarted_def)
  obtain P Q where PQ: "J = P @ Q" "jn_content j = encode_all D P" "\<forall>e\<in>set P. fst e \<le> n"
    using r t by (auto simp: restarted_def)
  have "file_ok D P (jn_buffer j) j"
    using file_okD [OF f] by (auto simp: file_ok_def PQ b sorted_wrt_append)
  moreover have "safe D k st P j e" if s: "safe D k st J j e" for e
  proof (cases "fst e \<le> cp k (st_base st)")
    case True
    then show ?thesis by (simp add: safe_def)
  next
    case False
    then obtain P1 Q1 where c: "J = P1 @ Q1" "e \<in> set P1" "length (encode_all D P1) \<le> jn_synced j"
      using s by (auto simp: safe_def covered_def)
    have "length (encode_all D P1) \<le> length (encode_all D P)"
      using c(3) file_okD(4) [OF f] PQ(2) by simp
    moreover have "(\<exists>U. P = P1 @ U) \<or> (\<exists>U. P1 = P @ U)"
      using c(1) PQ(1) by (auto simp: append_eq_append_conv2)
    moreover have "U = []" if "P1 = P @ U" "length (encode_all D P1) \<le> length (encode_all D P)" for U
      using that by (cases U) auto
    ultimately have "\<exists>U. P = P1 @ U" by fastforce
    then show ?thesis using c unfolding safe_def covered_def by blast
  qed
  ultimately have "live D k st j (shard_new n) A P"
    using r PQ(3) by (intro liveI) (auto simp: restarted_def shard_new_def pending_def resolved_def drain_covered_def)
  then show ?thesis by blast
qed

lemma restarted_truncate_live:
  assumes r: "restarted D k st j A J n" and n: "n \<le> cp k (st_base st)"
  shows "live D k st (journal_truncate j) (shard_new n) A []"
proof -
  have "e \<in> set (applied k (current st)) \<and> safe D k st [] (journal_truncate j) e" if "e \<in> A" for e
  proof -
    have e: "e \<in> set (applied k (current st))" using r that by (auto simp: restarted_def)
    then have "fst e \<le> n" using r store_ok_applied by (fastforce simp: restarted_def)
    with e n show ?thesis by (simp add: safe_def)
  qed
  then show ?thesis
    using r by (intro liveI) (auto simp: restarted_def shard_new_def pending_def resolved_def drain_covered_def
      file_ok_def journal_truncate_def jn_flush_def)
qed

end
