(* ===== verification/Om_BusProps.thy ===== *)
theory Om_BusProps
  imports Om_BusRun
begin

text \<open>
  The invariant of the whole bus, kept by every step, and what it gives: an acknowledged write is
  in the store for good, and no write is applied twice.
\<close>

section \<open>The global invariant\<close>

definition acked_of :: "'g bus \<Rightarrow> nat \<Rightarrow> entry set" where
  "acked_of s i = {e. (i, e) \<in> bus_acked s}"

definition maint_ok :: "'g memory_store list \<Rightarrow> shard list \<Rightarrow> maint_pc \<Rightarrow> bool" where
  "maint_ok stores shs pc =
     (case pc of
        Maint_Idle \<Rightarrow> True
      | Maint_Watermarks ws \<Rightarrow> length ws \<le> length shs \<and> (\<forall>i<length ws. ws ! i \<le> sh_durable (shs ! i))
      | Maint_Checkpoint ws d all_complete \<Rightarrow>
          length ws = length shs \<and> (\<forall>i<length shs. ws ! i \<le> sh_durable (shs ! i)) \<and>
          (all_complete \<longrightarrow> (\<forall>i<length shs. i mod length stores < d \<longrightarrow>
             ws ! i \<le> cp (checkpoint_key i) (st_base (stores ! (i mod length stores)))))
      | Maint_Truncate ws m \<Rightarrow>
          length ws = length shs \<and>
          (\<forall>i<length shs. ws ! i \<le> cp (checkpoint_key i) (st_base (stores ! (i mod length stores)))))"

definition bus_inv :: "'g bus_deps \<Rightarrow> engine_options \<Rightarrow> 'g bus \<Rightarrow> bool" where
  "bus_inv D opts s \<longleftrightarrow> bus_stores s \<noteq> [] \<and>
     length (bus_journals s) = eo_shards (normalize_options opts) \<and>
     (case bus_process s of
        None \<Rightarrow> (\<forall>j\<in>set (bus_journals s). jn_buffer j = []) \<and> (\<forall>i<length (bus_journals s). \<exists>J.
          dormant D (checkpoint_key i) (home s i) (bus_journals s ! i) (acked_of s i) J)
      | Some p \<Rightarrow> length (pr_shards p) = length (bus_journals s) \<and>
          maint_ok (bus_stores s) (pr_shards p) (pr_maint p) \<and>
          (\<forall>i<length (bus_journals s). \<exists>J.
             live D (checkpoint_key i) (home s i) (bus_journals s ! i) (pr_shards p ! i) (acked_of s i) J))"

lemma digits_inj: "m < 10 \<Longrightarrow> n < 10 \<Longrightarrow> decimal_digit m = decimal_digit n \<Longrightarrow> m = n"
  by (metis digit_value_digit option.inject)

lemma display_nat_inj: "display_nat m = display_nat n \<Longrightarrow> m = n"
proof (induction m arbitrary: n rule: display_nat.induct)
  case (1 m)
  have last: "last (display_nat k) = decimal_digit (k mod 10)" for k
    by (subst display_nat.simps) simp
  have front: "butlast (display_nat k) = (if k < 10 then [] else display_nat (k div 10))" for k
    by (subst display_nat.simps) simp
  have mod: "m mod 10 = n mod 10" using "1.prems" last [of m] last [of n] digits_inj by simp
  have div: "m div 10 = n div 10"
  proof (cases "m < 10")
    case True
    then have "n < 10" using "1.prems" front [of m] front [of n] display_nat_nonempty by (metis (full_types))
    with True show ?thesis by simp
  next
    case False
    then have n: "\<not> n < 10" using "1.prems" front [of m] front [of n] display_nat_nonempty by (metis (full_types))
    have "display_nat (m div 10) = display_nat (n div 10)"
      using "1.prems" front [of m] front [of n] False n by simp
    then show ?thesis using "1.IH" [OF False] by simp
  qed
  from mod div show ?case by (metis div_mult_mod_eq)
qed

lemma checkpoint_key_inj [simp]: "checkpoint_key i = checkpoint_key m \<longleftrightarrow> i = m"
  using display_nat_inj by (auto simp: checkpoint_key_def)

lemma busD:
  assumes "bus_inv D opts s" and "bus_process s = Some p"
  shows "bus_stores s \<noteq> []" "length (pr_shards p) = length (bus_journals s)"
    "maint_ok (bus_stores s) (pr_shards p) (pr_maint p)"
    "length (bus_journals s) = eo_shards (normalize_options opts)"
    "i < length (bus_journals s) \<Longrightarrow> \<exists>J.
       live D (checkpoint_key i) (home s i) (bus_journals s ! i) (pr_shards p ! i) (acked_of s i) J"
  using assms by (auto simp: bus_inv_def)

lemma bus_dormant:
  assumes "bus_inv D opts s" and "i < length (bus_journals s)"
  shows "\<exists>J. dormant D (checkpoint_key i) (home s i) (bus_journals s ! i) (acked_of s i) J"
  using assms live_dormant by (cases "bus_process s") (fastforce simp: bus_inv_def)+

lemma bus_store_ok:
  assumes "bus_inv D opts s" and "i < length (bus_journals s)"
  shows "store_ok (checkpoint_key i) (home s i)"
  using bus_dormant [OF assms] by (auto simp: dormant_def)

text \<open>Watermarks and durable checkpoints only grow under the maintenance pass.\<close>

lemma maint_ok_grow:
  assumes "maint_ok stores shs pc" and "length shs' = length shs" and "length stores' = length stores"
    and "\<And>i. i < length shs \<Longrightarrow> sh_durable (shs ! i) \<le> sh_durable (shs' ! i)"
    and "\<And>i. i < length shs \<Longrightarrow> cp (checkpoint_key i) (st_base (stores ! (i mod length stores)))
      \<le> cp (checkpoint_key i) (st_base (stores' ! (i mod length stores)))"
  shows "maint_ok stores' shs' pc"
  using assms unfolding maint_ok_def
  by (auto split: maint_pc.splits intro: order_trans dest: less_le_trans)

text \<open>A step of one shard, with what it does to its store.\<close>

lemma bus_inv_shard:
  assumes inv: "bus_inv D opts s" and p: "bus_process s = Some p" and i: "i < length (bus_journals s)"
    and len: "length stores = length (bus_stores s)"
    and new: "\<And>J. live D (checkpoint_key i) (home s i) (bus_journals s ! i) (pr_shards p ! i) (acked_of s i) J \<Longrightarrow>
      \<exists>J'. live D (checkpoint_key i) (stores ! (i mod length stores)) j sh (acked_of s i) J'"
    and dur: "sh_durable (pr_shards p ! i) \<le> sh_durable sh"
    and base: "\<And>d. d < length stores \<Longrightarrow> st_base (stores ! d) = st_base (bus_stores s ! d)"
    and other: "\<And>m. m < length (bus_journals s) \<Longrightarrow> m \<noteq> i \<Longrightarrow>
      same_view (checkpoint_key m) (home s m) (stores ! (m mod length stores))"
    and s': "bus_stores s' = stores" "bus_journals s' = (bus_journals s)[i := j]"
      "bus_process s' = Some (p\<lparr>pr_shards := (pr_shards p)[i := sh]\<rparr>)" "bus_acked s' = bus_acked s"
  shows "bus_inv D opts s'"
proof -
  note b = busD [OF inv p]
  have home: "home s' m = stores ! (m mod length stores)" for m by (simp add: home_def s'(1))
  have acked: "acked_of s' m = acked_of s m" for m by (simp add: acked_of_def s'(4))
  have "\<exists>J. live D (checkpoint_key m) (home s' m) (bus_journals s' ! m) ((pr_shards p)[i := sh] ! m) (acked_of s' m) J"
    if m: "m < length (bus_journals s)" for m
  proof (cases "m = i")
    case True
    then show ?thesis using new b(2) b(5) [OF i] i unfolding home acked s'(2) by auto
  next
    case False
    obtain J where "live D (checkpoint_key m) (home s m) (bus_journals s ! m) (pr_shards p ! m) (acked_of s m) J"
      using b(5) [OF m] by blast
    from live_view [OF this other [OF m False]] show ?thesis
      using False unfolding home acked s'(2) by auto
  qed
  moreover have "maint_ok stores ((pr_shards p)[i := sh]) (pr_maint p)"
    by (rule maint_ok_grow [OF b(3)]) (use dur base b(1,2) i len in \<open>auto simp: nth_list_update\<close>)
  ultimately show ?thesis
    using b(1,2,4) len by (auto simp: bus_inv_def s')
qed

lemma home_upd: "bus_stores s' = bus_stores s \<Longrightarrow> home s' i = home s i"
  by (simp add: home_def)

text \<open>Steps of one shard that leave the stores alone.\<close>

lemma bus_inv_local:
  assumes inv: "bus_inv D opts s" and p: "bus_process s = Some p" and i: "i < length (pr_shards p)"
    and new: "\<And>J. live D (checkpoint_key i) (home s i) (bus_journals s ! i) (pr_shards p ! i) (acked_of s i) J \<Longrightarrow>
      \<exists>J'. live D (checkpoint_key i) (home s i) j sh (acked_of s i) J'"
    and dur: "sh_durable (pr_shards p ! i) \<le> sh_durable sh"
  shows "bus_inv D opts (s\<lparr>bus_process := Some (set_shard i sh p), bus_journals := (bus_journals s)[i := j]\<rparr>)"
proof -
  have len: "length (pr_shards p) = length (bus_journals s)" by (rule busD(2) [OF inv p])
  have ij: "i < length (bus_journals s)" using i len by simp
  have "same_view (checkpoint_key m) (home s m) (home s m)" if "m < length (bus_journals s)" for m
    using same_view_refl [OF bus_store_ok [OF inv that]] .
  then show ?thesis
    by (intro bus_inv_shard [OF inv p ij, of "bus_stores s" j sh])
      (use new dur in \<open>auto simp: home_def set_shard_def\<close>)
qed

lemma bus_inv_quiet:
  assumes inv: "bus_inv D opts s" and p: "bus_process s = Some p"
    and q: "pr_shards q = pr_shards p" "maint_ok (bus_stores s) (pr_shards p) (pr_maint q)"
  shows "bus_inv D opts (s\<lparr>bus_process := Some q\<rparr>)"
  using inv p q by (auto simp: bus_inv_def home_def acked_of_def)

text \<open>A transaction of shard \<open>i\<close> as the other shards see it.\<close>

definition transacts :: "nat \<Rightarrow> 'g memory_store list \<Rightarrow> 'g memory_store list \<Rightarrow> bool" where
  "transacts i stores stores' \<longleftrightarrow> length stores' = length stores \<and>
     (\<forall>d<length stores. st_base (stores' ! d) = st_base (stores ! d)) \<and>
     (\<forall>d<length stores. \<forall>k. (d \<noteq> i mod length stores \<or> k \<noteq> checkpoint_key i) \<longrightarrow> store_ok k (stores ! d) \<longrightarrow>
        same_view k (stores ! d) (stores' ! d))"

lemma transacts_refl: "transacts i stores stores"
  by (simp add: transacts_def same_view_refl)

lemma transacts_trans: "transacts i s1 s2 \<Longrightarrow> transacts i s2 s3 \<Longrightarrow> transacts i s1 s3"
proof (unfold transacts_def, intro conjI allI impI, goal_cases)
  case (3 d k)
  then have "same_view k (s1 ! d) (s2 ! d)" by blast
  moreover from this have "store_ok k (s2 ! d)" by (simp add: same_view_def)
  then have "same_view k (s2 ! d) (s3 ! d)" using 3 by auto
  ultimately show ?case by (rule same_view_trans)
qed auto

lemma quiet_base: "quiet st st' \<Longrightarrow> st_base st' = st_base st"
  by (simp add: quiet_def)

lemma advanced_base: "advanced k v es st st' \<Longrightarrow> st_base st' = st_base st"
  by (auto simp: advanced_def quiet_def)

lemma batch_transacts:
  assumes "batch_in_domain D env (i mod length stores) es rs
      \<lparr>bo_normalize = n, bo_checkpoint = Some (checkpoint_key i, v)\<rparr> stores = (r, stores')"
    and "stores \<noteq> []" and "prompt env"
  shows "transacts i stores stores'"
proof -
  have i: "i mod length stores < length stores" using assms(2) by simp
  show ?thesis
  proof (cases r)
    case (Inl e)
    note c = assms(1) [unfolded Inl]
    show ?thesis unfolding transacts_def
      using domains.commit_length [OF c] domains.failed_view [OF c assms(3)]
        quiet_base [OF domains.commit_failed [OF c assms(3)]]
      by blast
  next
    case (Inr u)
    note c = assms(1) [unfolded Inr]
    have "st_base (stores' ! d) = st_base (stores ! d)" if "d < length stores" for d
      using that advanced_base [OF domains.commit_ok [OF c i]] quiet_base [OF domains.commit_other [OF c that]]
      by (cases "d = i mod length stores") auto
    then show ?thesis unfolding transacts_def
      using domains.commit_length [OF c] domains.committed_view [OF c i] by blast
  qed
qed

lemma drain_commit_transacts:
  assumes "drain_commit D opts env i (sh, stores) = Some (sh', stores')" and "stores \<noteq> []" and "prompt env"
  shows "transacts i stores stores'" and "sh_durable sh' = sh_durable sh"
  using assms batch_transacts
  by (auto simp: drain_commit_def Let_def split: drain_pc.splits prod.splits sum.splits)

lemma drain_retry_transacts:
  assumes r: "drain_retry D opts env1 env2 i (sh, stores) = Some (sh', stores')" and ne: "stores \<noteq> []"
    and f: "prompt env1" "prompt env2"
  shows "transacts i stores stores'" and "sh_durable sh' = sh_durable sh"
proof -
  obtain es n where pc: "sh_drain sh = Drain_Retrying es n"
    using r by (auto simp: drain_retry_def split: drain_pc.splits)
  have t: "transacts i stores stores' \<and> sh_durable sh' = sh_durable sh"
  proof (cases es)
    case Nil
    then show ?thesis using r by (auto simp: drain_retry_def pc transacts_refl)
  next
    case (Cons e0 rest)
    obtain seq req where e0: "e0 = (seq, req)" by (cases e0)
    obtain r1 stores1 where r1: "batch_in_domain D env1 (i mod length stores) [(seq, req)] [req]
        \<lparr>bo_normalize = eo_normalize opts, bo_checkpoint = Some (checkpoint_key i, seq)\<rparr> stores = (r1, stores1)"
      by (cases "batch_in_domain D env1 (i mod length stores) [(seq, req)] [req]
        \<lparr>bo_normalize = eo_normalize opts, bo_checkpoint = Some (checkpoint_key i, seq)\<rparr> stores")
    have t1: "transacts i stores stores1" by (rule batch_transacts [OF r1 ne f(1)])
    then have l1: "length stores1 = length stores" by (simp add: transacts_def)
    have ne1: "stores1 \<noteq> []" using l1 ne by auto
    obtain r2 stores2 where r2: "batch_in_domain D env2 (i mod length stores1) [] []
        \<lparr>bo_normalize = False, bo_checkpoint = Some (checkpoint_key i, seq)\<rparr> stores1 = (r2, stores2)"
      by (cases "batch_in_domain D env2 (i mod length stores1) [] []
        \<lparr>bo_normalize = False, bo_checkpoint = Some (checkpoint_key i, seq)\<rparr> stores1")
    have t2: "transacts i stores stores2" by (rule transacts_trans [OF t1 batch_transacts [OF r2 ne1 f(2)]])
    show ?thesis
      using r r1 r2 t1 t2 l1 by (auto simp: drain_retry_def pc Cons e0 split: sum.splits)
  qed
  then show "transacts i stores stores'" "sh_durable sh' = sh_durable sh" by auto
qed

lemma bus_inv_transaction:
  assumes inv: "bus_inv D opts s" and p: "bus_process s = Some p" and i: "i < length (pr_shards p)"
    and t: "transacts i (bus_stores s) stores" and dur: "sh_durable sh = sh_durable (pr_shards p ! i)"
    and new: "\<And>J. live D (checkpoint_key i) (home s i) (bus_journals s ! i) (pr_shards p ! i) (acked_of s i) J \<Longrightarrow>
      live D (checkpoint_key i) (stores ! (i mod length stores)) (bus_journals s ! i) sh (acked_of s i) J"
  shows "bus_inv D opts (s\<lparr>bus_process := Some (set_shard i sh p), bus_stores := stores\<rparr>)"
proof -
  note b = busD [OF inv p]
  have len: "length stores = length (bus_stores s)" using t by (simp add: transacts_def)
  have ij: "i < length (bus_journals s)" using i b(2) by simp
  have "same_view (checkpoint_key m) (home s m) (stores ! (m mod length stores))"
    if "m < length (bus_journals s)" "m \<noteq> i" for m
    using t that bus_store_ok [OF inv that(1)] b(1) len
    unfolding transacts_def home_def by auto
  then show ?thesis
    by (intro bus_inv_shard [OF inv p ij len, where j = "bus_journals s ! i" and sh = sh])
      (use new dur t len in \<open>auto simp: set_shard_def transacts_def\<close>)
qed


section \<open>The maintenance pass\<close>

lemma inv_maint_read:
  assumes inv: "bus_inv D opts s" and p: "bus_process s = Some p" and m: "maint_read p = Some p'"
  shows "bus_inv D opts (s\<lparr>bus_process := Some p'\<rparr>)"
proof -
  obtain ws where pc: "pr_maint p = Maint_Watermarks ws"
    and p': "p' = p\<lparr>pr_maint := (if length ws < length (pr_shards p)
        then Maint_Watermarks (ws @ [sh_durable (pr_shards p ! length ws)]) else Maint_Checkpoint ws 0 True)\<rparr>"
    using m by (auto simp: maint_read_def split: maint_pc.splits)
  have "maint_ok (bus_stores s) (pr_shards p) (pr_maint p')"
    using busD(3) [OF inv p] by (auto simp: maint_ok_def pc p' nth_append less_Suc_eq)
  then show ?thesis by (intro bus_inv_quiet [OF inv p]) (simp_all add: p')
qed

lemma bus_inv_stores:
  assumes inv: "bus_inv D opts s" and p: "bus_process s = Some p"
    and len: "length stores = length (bus_stores s)" and q: "pr_shards q = pr_shards p"
    and m: "maint_ok stores (pr_shards p) (pr_maint q)"
    and v: "\<And>i. i < length (bus_journals s) \<Longrightarrow> same_view (checkpoint_key i) (home s i) (stores ! (i mod length stores))"
  shows "bus_inv D opts (s\<lparr>bus_process := Some q, bus_stores := stores\<rparr>)"
proof -
  note b = busD [OF inv p]
  have "\<exists>J. live D (checkpoint_key i) (stores ! (i mod length stores)) (bus_journals s ! i) (pr_shards p ! i)
      (acked_of s i) J" if i: "i < length (bus_journals s)" for i
    using b(5) [OF i] live_view [OF _ v [OF i]] by blast
  then show ?thesis using b(1,2,4) len m q
    by (auto simp: bus_inv_def home_def acked_of_def)
qed

lemma inv_maint_checkpoint:
  assumes inv: "bus_inv D opts s" and p: "bus_process s = Some p"
    and m: "maint_checkpoint o' report (p, bus_stores s) = Some (p', stores)"
  shows "bus_inv D opts (s\<lparr>bus_process := Some p', bus_stores := stores\<rparr>)"
proof -
  note b = busD [OF inv p]
  let ?st = "bus_stores s"
  obtain ws d ok where pc: "pr_maint p = Maint_Checkpoint ws d ok"
    using m by (auto simp: maint_checkpoint_def split: maint_pc.splits)
  have mo: "length ws = length (pr_shards p)" "\<forall>i<length (pr_shards p). ws ! i \<le> sh_durable (pr_shards p ! i)"
      "ok \<longrightarrow> (\<forall>i<length (pr_shards p). i mod length ?st < d \<longrightarrow>
         ws ! i \<le> cp (checkpoint_key i) (st_base (?st ! (i mod length ?st))))"
    using b(3) by (auto simp: maint_ok_def pc)
  show ?thesis
  proof (cases "d < length ?st")
    case False
    have "i mod length ?st < d" for i using False b(1) by (metis length_greater_0_conv mod_less_divisor not_less order_less_le_trans)
    then have "maint_ok ?st (pr_shards p) (pr_maint p')" and eq: "stores = ?st" "pr_shards p' = pr_shards p"
      using m False mo by (auto simp: maint_checkpoint_def pc maint_ok_def split: if_splits)
    then show ?thesis
      using same_view_refl [OF bus_store_ok [OF inv]] b(1)
      by (intro bus_inv_stores [OF inv p]) (auto simp: home_def)
  next
    case True
    show ?thesis
    proof (cases report)
      case (Inl e)
      then have eq: "stores = ?st" "p' = p\<lparr>pr_maint := Maint_Idle\<rparr>"
        using m True by (auto simp: maint_checkpoint_def pc)
      then show ?thesis
        using same_view_refl [OF bus_store_ok [OF inv]] b(1)
        by (intro bus_inv_stores [OF inv p]) (auto simp: home_def maint_ok_def)
    next
      case (Inr c)
      have eq: "stores = ?st[d := wal_checkpoint c (?st ! d)]"
          "p' = p\<lparr>pr_maint := Maint_Checkpoint ws (d + 1) (ok \<and> c)\<rparr>"
        using m True Inr by (auto simp: maint_checkpoint_def pc)
      have v: "same_view (checkpoint_key i) (home s i) (stores ! (i mod length stores))"
        if i: "i < length (bus_journals s)" for i
        using bus_store_ok [OF inv i] checkpoint_view same_view_refl True
        unfolding home_def by (cases "i mod length ?st = d") (auto simp: eq(1))
      have "ws ! i \<le> cp (checkpoint_key i) (st_base (stores ! (i mod length stores)))"
        if i: "i < length (pr_shards p)" and "i mod length ?st < d + 1" "ok" "c" for i
      proof (cases "i mod length ?st = d")
        case eqd: True
        have ij: "i < length (bus_journals s)" using i b(2) by simp
        obtain J where "live D (checkpoint_key i) (home s i) (bus_journals s ! i) (pr_shards p ! i) (acked_of s i) J"
          using b(5) [OF ij] by blast
        from live_durable [OF this] have "sh_durable (pr_shards p ! i) \<le> cp (checkpoint_key i) (current (?st ! d))"
          by (simp add: home_def eqd)
        then show ?thesis using mo(2) i eqd True \<open>c\<close>
          by (auto simp: eq(1) checkpoint_complete [simplified] wal_checkpoint_def intro: order_trans)
      next
        case False
        then show ?thesis using mo(3) that by (auto simp: eq(1))
      qed
      then have "maint_ok stores (pr_shards p) (pr_maint p')"
        using mo(1,2) by (auto simp: maint_ok_def eq)
      then show ?thesis by (intro bus_inv_stores [OF inv p _ _ _ v]) (simp_all add: eq)
    qed
  qed
qed

lemma inv_maint_truncate:
  assumes inv: "bus_inv D opts s" and p: "bus_process s = Some p"
    and m: "maint_truncate (p, bus_journals s) = Some (p', js)"
  shows "bus_inv D opts (s\<lparr>bus_process := Some p', bus_journals := js\<rparr>)"
proof -
  note b = busD [OF inv p]
  obtain ws n where pc: "pr_maint p = Maint_Truncate ws n"
    using m by (auto simp: maint_truncate_def split: maint_pc.splits)
  have mo: "\<forall>i<length (pr_shards p). ws ! i \<le> cp (checkpoint_key i) (st_base (home s i))" "length ws = length (pr_shards p)"
    using b(3) by (auto simp: maint_ok_def pc home_def)
  have q: "pr_shards p' = pr_shards p" "maint_ok (bus_stores s) (pr_shards p) (pr_maint p')"
    using m mo by (auto simp: maint_truncate_def pc maint_ok_def home_def split: if_splits)
  have js: "js = bus_journals s \<or> (n < length (pr_shards p) \<and> sh_next_seq (pr_shards p ! n) = ws ! n \<and>
      js = (bus_journals s)[n := journal_truncate (bus_journals s ! n)])"
    using m by (auto simp: maint_truncate_def pc split: if_splits)
  have "\<exists>J. live D (checkpoint_key i) (home s i) (js ! i) (pr_shards p ! i) (acked_of s i) J"
    if i: "i < length (bus_journals s)" for i
  proof -
    obtain J where l: "live D (checkpoint_key i) (home s i) (bus_journals s ! i) (pr_shards p ! i) (acked_of s i) J"
      using b(5) [OF i] by blast
    show ?thesis
    proof (cases "js ! i = bus_journals s ! i")
      case True
      with l show ?thesis by auto
    next
      case False
      then have "i = n" using js by (metis nth_list_update_neq)
      then have "i = n" "sh_next_seq (pr_shards p ! n) = ws ! n" "js ! i = journal_truncate (bus_journals s ! i)"
        using js i False by auto
      moreover from this have "sh_next_seq (pr_shards p ! i) \<le> cp (checkpoint_key i) (st_base (home s i))"
        using mo(1) i b(2) by auto
      ultimately show ?thesis using live_truncate [OF l] by auto
    qed
  qed
  then show ?thesis using b(1,2,4) q js
    by (auto simp: bus_inv_def home_def acked_of_def)
qed

section \<open>Start-up\<close>

lemma replay_transacts:
  assumes "replay D env i norm f stores = (r, stores')" and "stores \<noteq> []" and "prompt env"
  shows "transacts i stores stores'"
  using assms transacts_refl batch_transacts [OF _ assms(2,3)]
  by (auto simp: replay_def Let_def split: sum.splits option.splits if_splits prod.splits)

lemma replay_failed_view:
  assumes r: "replay D env i norm f stores = (Inl e, stores')" and ne: "stores \<noteq> []" and p: "prompt env"
    and ok: "store_ok k (stores ! (i mod length stores))"
  shows "same_view k (stores ! (i mod length stores)) (stores' ! (i mod length stores))"
proof -
  have lt: "i mod length stores < length stores" using ne by simp
  show ?thesis
    using r same_view_refl [OF ok] domains.failed_view [OF _ p lt ok]
    by (auto simp: replay_def Let_def split: sum.splits option.splits if_splits prod.splits)
qed

text \<open>The journals of shards, each with its store.\<close>

definition all_dormant :: "'g bus_deps \<Rightarrow> journal list \<Rightarrow> (nat \<Rightarrow> entry set) \<Rightarrow> 'g memory_store list \<Rightarrow> bool" where
  "all_dormant D js A stores \<longleftrightarrow> (\<forall>i<length js. \<exists>J.
     dormant D (checkpoint_key i) (stores ! (i mod length stores)) (js ! i) (A i) J)"

lemma all_dormant_ok: "all_dormant D js A stores \<Longrightarrow> i < length js \<Longrightarrow>
    store_ok (checkpoint_key i) (stores ! (i mod length stores))"
  by (auto simp: all_dormant_def dormant_def)

lemma transacts_view:
  assumes "transacts i stores stores'" and "stores \<noteq> []" and "all_dormant D js A stores"
    and "m < length js" and "m \<noteq> i"
  shows "same_view (checkpoint_key m) (stores ! (m mod length stores)) (stores' ! (m mod length stores'))"
  using assms(1,2,5) all_dormant_ok [OF assms(3,4)] unfolding transacts_def by simp

lemma all_dormant_transacts:
  assumes t: "transacts i stores stores'" and ne: "stores \<noteq> []" and a: "all_dormant D js A stores"
    and i: "\<And>J. dormant D (checkpoint_key i) (stores ! (i mod length stores)) (js ! i) (A i) J \<Longrightarrow>
      i < length js \<Longrightarrow> \<exists>J. dormant D (checkpoint_key i) (stores' ! (i mod length stores')) (js ! i) (A i) J"
  shows "all_dormant D js A stores'"
  unfolding all_dormant_def
proof (intro allI impI)
  fix m assume m: "m < length js"
  obtain J where d: "dormant D (checkpoint_key m) (stores ! (m mod length stores)) (js ! m) (A m) J"
    using a m by (auto simp: all_dormant_def)
  show "\<exists>J. dormant D (checkpoint_key m) (stores' ! (m mod length stores')) (js ! m) (A m) J"
    using i d m dormant_view [OF d transacts_view [OF t ne a m]] by (cases "m = i") blast+
qed

lemma replay_shards_restart:
  assumes "replay_shards D opts env is js stores = (r, stores')" and "eo_journaling opts"
    and env: "\<forall>i. prompt (env i)" and "stores \<noteq> []" and "all_dormant D js A stores" and "set is \<subseteq> {..<length js}" and "distinct is"
  shows "length stores' = length stores \<and> all_dormant D js A stores' \<and>
    (\<forall>m<length js. m \<notin> set is \<longrightarrow>
       same_view (checkpoint_key m) (stores ! (m mod length stores)) (stores' ! (m mod length stores'))) \<and>
    (\<forall>qs. r = Inr qs \<longrightarrow> length qs = length is \<and> (\<forall>n<length is. \<exists>J.
       restarted D (checkpoint_key (is ! n)) (stores' ! (is ! n mod length stores')) (js ! (is ! n)) (A (is ! n)) J (qs ! n)))"
  using assms(1,2,4-)
proof (induction "is" arbitrary: stores stores' r)
  case Nil
  then show ?case by (auto intro!: same_view_refl all_dormant_ok)
next
  case (Cons i "is")
  let ?d = "i mod length stores"
  have i: "i < length js" and ne: "stores \<noteq> []" using Cons.prems by auto
  have d: "?d < length stores" using ne by simp
  obtain r1 stores1 where r1: "replay D (env i) i (eo_normalize opts) (Inr (Some (jn_content (js ! i)))) stores = (r1, stores1)"
    by (cases "replay D (env i) i (eo_normalize opts) (Inr (Some (jn_content (js ! i)))) stores")
  have t: "transacts i stores stores1" by (rule replay_transacts [OF r1 ne spec [OF env]])
  have len1: "length stores1 = length stores" using t by (simp add: transacts_def)
  have ne1: "stores1 \<noteq> []" using len1 ne by auto
  have view1: "same_view (checkpoint_key m) (stores ! (m mod length stores)) (stores1 ! (m mod length stores1))"
    if "m < length js" "m \<noteq> i" for m by (rule transacts_view [OF t ne Cons.prems(4) that])
  obtain J where dj: "dormant D (checkpoint_key i) (stores ! ?d) (js ! i) (A i) J"
    using Cons.prems(4) i by (auto simp: all_dormant_def)
  show ?case
  proof (cases r1)
    case (Inl e)
    have "same_view (checkpoint_key i) (stores ! ?d) (stores1 ! ?d)"
      by (rule replay_failed_view [OF r1 [unfolded Inl] ne spec [OF env] all_dormant_ok [OF Cons.prems(4) i]])
    then have "all_dormant D js A stores1"
      by (intro all_dormant_transacts [OF t ne Cons.prems(4)]) (auto simp: len1 intro: dormant_view)
    then show ?thesis using Cons.prems(1,2) r1 Inl len1 view1 by auto
  next
    case (Inr q)
    obtain n m where q: "q = (n, m)" by (cases q)
    have res: "restarted D (checkpoint_key i) (stores1 ! ?d) (js ! i) (A i) J n"
      by (rule replay_restarts [OF dj refl d r1 [unfolded Inr q]])
    have ad1: "all_dormant D js A stores1"
      using restarted_dormant [OF res]
      by (intro all_dormant_transacts [OF t ne Cons.prems(4)]) (auto simp: len1)
    obtain r2 stores2 where r2: "replay_shards D opts env is js stores1 = (r2, stores2)"
      by (cases "replay_shards D opts env is js stores1")
    have st': "stores' = stores2" and r': "r = (case r2 of Inl e \<Rightarrow> Inl e | Inr qs \<Rightarrow> Inr (n # qs))"
      using Cons.prems(1,2) r1 r2 by (auto simp: Inr q split: sum.splits)
    have "set is \<subseteq> {..<length js}" "distinct is" and ni: "i \<notin> set is" using Cons.prems(5,6) by auto
    note ih = Cons.IH [OF r2 Cons.prems(2) ne1 ad1 this(1,2)]
    have vi: "same_view (checkpoint_key i) (stores1 ! ?d) (stores2 ! ?d)" using ih ni i len1 by auto
    have res2: "restarted D (checkpoint_key i) (stores2 ! ?d) (js ! i) (A i) J n"
      by (rule restarted_view [OF res vi])
    have v2: "same_view (checkpoint_key m) (stores ! (m mod length stores)) (stores2 ! (m mod length stores2))"
      if "m < length js" "m \<notin> set (i # is)" for m
      using that ih by (intro same_view_trans [OF view1]) auto
    have "\<exists>J. restarted D (checkpoint_key ((i # is) ! x)) (stores2 ! ((i # is) ! x mod length stores2))
        (js ! ((i # is) ! x)) (A ((i # is) ! x)) J (qs ! x)"
      if r: "r = Inr qs" and x: "x < length (i # is)" for qs x
    proof -
      obtain qs' where qs': "r2 = Inr qs'" "qs = n # qs'" using r r' by (auto split: sum.splits)
      have "length stores2 = length stores" using ih len1 by simp
      then show ?thesis using res2 ih qs' x by (cases x) auto
    qed
    moreover have "length qs = length (i # is)" if "r = Inr qs" for qs
      using that r' ih by (auto split: sum.splits)
    moreover have "length stores2 = length stores" "all_dormant D js A stores2" using ih len1 by simp_all
    ultimately show ?thesis using v2 unfolding st' by simp
  qed
qed

lemma checkpoint_stores_each:
  assumes "checkpoint_stores reports stores = (r, stores')"
  shows "length stores' = length stores \<and> (\<forall>d<length stores. \<exists>c. stores' ! d = wal_checkpoint c (stores ! d) \<and> (r = Some True \<longrightarrow> c))"
  using assms
proof (induction reports stores arbitrary: r stores' rule: checkpoint_stores.induct)
  case (2 st sts)
  then show ?case by (auto simp: wal_checkpoint_def intro: exI [of _ False])
next
  case (3 e reports st sts)
  then show ?case by (auto simp: wal_checkpoint_def intro: exI [of _ False])
next
  case (4 complete reports st sts)
  obtain r1 sts1 where c: "checkpoint_stores reports sts = (r1, sts1)"
    by (cases "checkpoint_stores reports sts")
  note ih = "4.IH" [OF c]
  have eq: "r = map_option (\<lambda>a. complete \<and> a) r1" "stores' = wal_checkpoint complete st # sts1"
    using "4.prems" c by auto
  have "\<exists>ok. stores' ! d = wal_checkpoint ok ((st # sts) ! d) \<and> (r = Some True \<longrightarrow> ok)" if "d < length (st # sts)" for d
    using that ih eq by (cases d) auto
  then show ?case using ih eq by simp
qed simp

lemma truncate_fresh:
  "length js = length qs \<Longrightarrow>
   truncate_journals (zip (map shard_new qs) (map sh_durable (map shard_new qs))) js = map journal_truncate js"
proof (induction js arbitrary: qs)
  case Nil
  then show ?case by simp
next
  case (Cons j js)
  then obtain q qs' where "qs = q # qs'" by (cases qs) auto
  with Cons show ?case by (simp add: shard_new_def)
qed

lemma inv_start:
  assumes inv: "bus_inv D opts s" and off: "bus_process s = None" and jo: "eo_journaling opts"
    and st: "start_partitioned D opts env reports (bus_journals s) (bus_stores s) = (Inr p, js, stores)"
    and env: "\<forall>i. prompt (env i)" and t: "\<forall>j\<in>set js. terminated (jn_content j)"
  shows "bus_inv D opts (s\<lparr>bus_process := Some p, bus_journals := js, bus_stores := stores\<rparr>)"
proof -
  let ?o = "normalize_options opts" and ?js = "bus_journals s"
  have jn: "eo_journaling ?o" using jo by (simp add: normalize_options_def Let_def)
  have ne: "bus_stores s \<noteq> []" and n: "length ?js = eo_shards ?o"
    and buf: "\<forall>j\<in>set ?js. jn_buffer j = []" and ad: "all_dormant D ?js (acked_of s) (bus_stores s)"
    using inv off by (auto simp: bus_inv_def all_dormant_def home_def)
  obtain qs stores1 where r: "replay_shards D ?o env [0..<eo_shards ?o] ?js (bus_stores s) = (Inr qs, stores1)"
      and p: "p = \<lparr>pr_shards = map shard_new qs, pr_paused = 0, pr_maint = Maint_Idle\<rparr>"
      and mp: "(js, stores) = maintenance_pass ?o reports p ?js stores1"
    using st by (auto simp: start_partitioned_def Let_def split: if_splits prod.splits sum.splits)
  have sub: "set [0..<eo_shards ?o] \<subseteq> {..<length ?js}" using n by auto
  have len1: "length stores1 = length (bus_stores s)" and lq: "length qs = length ?js"
    and res: "\<And>i. i < length ?js \<Longrightarrow> \<exists>J. restarted D (checkpoint_key i) (stores1 ! (i mod length stores1)) (?js ! i) (acked_of s i) J (qs ! i)"
    using replay_shards_restart [OF r jn env ne ad sub distinct_upt] n by auto
  have ne1: "stores1 \<noteq> []" using len1 ne by auto
  obtain ok stores2 where cs: "checkpoint_stores reports stores1 = (ok, stores2)"
    by (cases "checkpoint_stores reports stores1")
  note each = checkpoint_stores_each [OF cs]
  have js: "js = (if ok = Some True then map journal_truncate ?js else ?js)" and stores: "stores = stores2"
    using mp cs truncate_fresh [of ?js qs] lq jn
    by (auto simp: maintenance_pass_def p Let_def split: option.splits bool.splits)
  have len: "length stores = length (bus_stores s)" using each len1 by (simp add: stores)
  have "\<exists>J. live D (checkpoint_key i) (stores ! (i mod length stores)) (js ! i) (shard_new (qs ! i)) (acked_of s i) J"
    if i: "i < length ?js" for i
  proof -
    let ?d = "i mod length stores1"
    have d: "?d < length stores1" using ne1 by simp
    obtain c where c: "stores ! ?d = wal_checkpoint c (stores1 ! ?d)" "ok = Some True \<longrightarrow> c"
      using each d by (auto simp: stores)
    obtain J where rj: "restarted D (checkpoint_key i) (stores1 ! ?d) (?js ! i) (acked_of s i) J (qs ! i)"
      using res [OF i] by blast
    then have ok1: "store_ok (checkpoint_key i) (stores1 ! ?d)" by (simp add: restarted_def)
    have rj2: "restarted D (checkpoint_key i) (stores ! ?d) (?js ! i) (acked_of s i) J (qs ! i)"
      unfolding c(1) by (rule restarted_view [OF rj checkpoint_view [OF ok1]])
    show ?thesis
    proof (cases "ok = Some True")
      case True
      have "qs ! i \<le> cp (checkpoint_key i) (st_base (stores ! ?d))"
        using rj c True by (simp add: restarted_def wal_checkpoint_def)
      from restarted_truncate_live [OF rj2 this] show ?thesis
        using True i len len1 by (auto simp: js)
    next
      case False
      have "terminated (jn_content (?js ! i))" "jn_buffer (?js ! i) = []"
        using t buf i False by (auto simp: js)
      from restarted_live [OF rj2 this] show ?thesis using False len len1 by (auto simp: js)
    qed
  qed
  then show ?thesis
    using ne n len lq js by (auto simp: bus_inv_def p home_def acked_of_def maint_ok_def)
qed

lemma inv_start_failed:
  assumes inv: "bus_inv D opts s" and off: "bus_process s = None" and jo: "eo_journaling opts"
    and st: "start_partitioned D opts env reports (bus_journals s) (bus_stores s) = (Inl e, js, stores)"
    and env: "\<forall>i. prompt (env i)"
  shows "bus_inv D opts (s\<lparr>bus_journals := js, bus_stores := stores\<rparr>)"
proof -
  let ?o = "normalize_options opts" and ?js = "bus_journals s"
  have jn: "eo_journaling ?o" using jo by (simp add: normalize_options_def Let_def)
  have ne: "bus_stores s \<noteq> []" and n: "length ?js = eo_shards ?o"
    and buf: "\<forall>j\<in>set ?js. jn_buffer j = []" and ad: "all_dormant D ?js (acked_of s) (bus_stores s)"
    using inv off by (auto simp: bus_inv_def all_dormant_def home_def)
  have sub: "set [0..<eo_shards ?o] \<subseteq> {..<length ?js}" using n by auto
  have js: "js = ?js" and "stores = bus_stores s \<or>
      (\<exists>e. replay_shards D ?o env [0..<eo_shards ?o] ?js (bus_stores s) = (Inl e, stores))"
    using st by (auto simp: start_partitioned_def Let_def split: if_splits prod.splits sum.splits)
  then have "length stores = length (bus_stores s) \<and> all_dormant D ?js (acked_of s) stores"
  proof (elim disjE exE)
    fix e assume r: "replay_shards D ?o env [0..<eo_shards ?o] ?js (bus_stores s) = (Inl e, stores)"
    show ?thesis using replay_shards_restart [OF r jn env ne ad sub distinct_upt] by auto
  qed (use ad in simp)
  then show ?thesis using ne n buf js off
    by (auto simp: bus_inv_def all_dormant_def home_def acked_of_def)
qed


section \<open>Every step keeps the invariant\<close>

lemma inv_submit:
  assumes inv: "bus_inv D opts s" and p: "bus_process s = Some p" and jo: "eo_journaling opts"
    and t: "try_submit D (normalize_options opts) req (p, bus_journals s) = (Ticket i seq, p', js)"
    and jl: "journalable D seq req"
  shows "bus_inv D opts (s\<lparr>bus_process := Some p', bus_journals := js\<rparr>)"
proof -
  have jn: "eo_journaling (normalize_options opts)" using jo by (simp add: normalize_options_def Let_def)
  note b = busD [OF inv p]
  obtain sh j where a: "admit D True req (pr_shards p ! i, bus_journals s ! i) = (sh, j)"
      and i: "i = shard_for D (rq_name req) p" and seq: "seq = sh_next_seq sh"
      and eq: "p' = set_shard i sh p" "js = (bus_journals s)[i := j]"
    using t jn by (auto simp: try_submit_def Let_def set_shard_def split: sum.splits if_splits prod.splits)
  have "0 < length (pr_shards p)"
    using b(2,4) by (simp add: normalize_options_def Let_def)
  then have lt: "i < length (pr_shards p)" by (simp add: i shard_for_def)
  have s1: "seq = sh_next_seq (pr_shards p ! i) + 1" "sh_durable sh = sh_durable (pr_shards p ! i)"
    using a by (auto simp: admit_def Let_def seq)
  show ?thesis unfolding eq
    by (rule bus_inv_local [OF inv p lt]) (use live_admit [OF _ jl [unfolded s1(1)] a] s1(2) in \<open>blast, simp\<close>)
qed

lemma inv_acknowledge:
  assumes inv: "bus_inv D opts s" and p: "bus_process s = Some p" and i: "i < length (pr_shards p)"
    and e: "e \<in> set (sh_tickets (pr_shards p ! i))" and o: "ticket_outcome (pr_shards p ! i) (fst e) = Some (Inr ())"
  shows "bus_inv D opts (s\<lparr>bus_acked := insert (i, e) (bus_acked s)\<rparr>)"
proof -
  note b = busD [OF inv p]
  have "\<exists>J. live D (checkpoint_key m) (home s m) (bus_journals s ! m) (pr_shards p ! m)
      (if m = i then insert e (acked_of s m) else acked_of s m) J" if "m < length (bus_journals s)" for m
    using b(5) [OF that] live_acknowledge [OF _ e o] by (cases "m = i") fastforce+
  moreover have "acked_of (s\<lparr>bus_acked := insert (i, e) (bus_acked s)\<rparr>) m =
      (if m = i then insert e (acked_of s m) else acked_of s m)" for m by (auto simp: acked_of_def)
  moreover have "home (s\<lparr>bus_acked := insert (i, e) (bus_acked s)\<rparr>) m = home s m" for m by (simp add: home_def)
  ultimately show ?thesis using b(1-4) p by (simp add: bus_inv_def)
qed

lemma inv_down:
  assumes inv: "bus_inv D opts s" and s': "bus_process s' = None" "bus_acked s' = bus_acked s"
    "length (bus_journals s') = length (bus_journals s)" "bus_stores s' \<noteq> []"
    "\<forall>j\<in>set (bus_journals s'). jn_buffer j = []"
    and d: "\<And>i J. i < length (bus_journals s) \<Longrightarrow>
      dormant D (checkpoint_key i) (home s i) (bus_journals s ! i) (acked_of s i) J \<Longrightarrow>
      dormant D (checkpoint_key i) (home s' i) (bus_journals s' ! i) (acked_of s i) J"
  shows "bus_inv D opts s'"
  using inv bus_dormant [OF inv] d s' by (fastforce simp: bus_inv_def acked_of_def)

lemma inv_kill: "bus_inv D opts s \<Longrightarrow> bus_inv D opts (kill s)"
  by (rule inv_down) (auto simp: kill_def lose_buffer_def home_def bus_inv_def intro: dormant_file)

lemma inv_power_loss:
  assumes inv: "bus_inv D opts s" and pick: "\<forall>d<length (bus_stores s). pick d \<in> survivors (bus_stores s ! d)"
  shows "bus_inv D opts (power_loss kept pick s)"
proof (rule inv_down [OF inv])
  have ne: "bus_stores s \<noteq> []" using inv by (simp add: bus_inv_def)
  then show "bus_stores (power_loss kept pick s) \<noteq> []" by (simp add: power_loss_def)
  fix i J assume i: "i < length (bus_journals s)"
    and d: "dormant D (checkpoint_key i) (home s i) (bus_journals s ! i) (acked_of s i) J"
  have lt: "i mod length (bus_stores s) < length (bus_stores s)" using ne by simp
  then have "pick (i mod length (bus_stores s)) \<in> survivors (home s i)" using pick by (simp add: home_def)
  from dormant_power_loss [OF d this, of "max (kept i) (jn_synced (bus_journals s ! i))"]
  show "dormant D (checkpoint_key i) (home (power_loss kept pick s) i) (bus_journals (power_loss kept pick s) ! i)
      (acked_of s i) J"
    using i lt by (simp add: power_loss_def home_def)
qed (auto simp: power_loss_def cut_file_def Let_def)

lemma inv_drop:
  assumes inv: "bus_inv D opts s" and p: "bus_process s = Some p"
  shows "bus_inv D opts (drop_engine s)"
proof -
  have "\<exists>J. dormant D (checkpoint_key i) (home s i) (jn_flush (bus_journals s ! i)) (acked_of s i) J"
    if "i < length (bus_journals s)" for i
    using busD(5) [OF inv p that] live_flush_dormant by blast
  then show ?thesis using busD(1,4) [OF inv p]
    by (auto simp: bus_inv_def drop_engine_def home_def acked_of_def jn_flush_def)
qed

lemma inv_init: "gs \<noteq> [] \<Longrightarrow> bus_inv D opts (bus_init opts gs)"
  by (auto simp: bus_inv_def bus_init_def dormant_def home_def acked_of_def store_ok_def current_def
      survivors_def cp_def applied_def file_ok_def intro!: exI [of _ "[]"])

theorem bus_step_inv:
  assumes inv: "bus_inv D opts s" and step: "bus_step prompt terminated D opts s s'" and jo: "eo_journaling opts"
  shows "bus_inv D opts s'"
  using step
proof cases
  case (start env reports p js stores)
  then show ?thesis using inv_start [OF inv _ jo] by blast
next
  case (start_failed env reports e js stores)
  then show ?thesis using inv_start_failed [OF inv _ jo] by blast
next
  case (submit p req i seq p' js)
  then show ?thesis using inv_submit [OF inv _ jo] by blast
next
  case (take p i sh j)
  then have t: "drain_take True (pr_shards p ! i, bus_journals s ! i) = Some (sh, j)" using jo by simp
  then have "sh_durable sh = sh_durable (pr_shards p ! i)" by (auto simp: drain_take_def split: if_splits)
  then show ?thesis unfolding take(1)
    by (intro bus_inv_local [OF inv take(2,3)]) (auto intro: live_take [OF _ t])
next
  case (sync p i sh j)
  then have t: "drain_sync True (pr_shards p ! i, bus_journals s ! i) = Some (sh, j)" using jo by simp
  then have "sh_durable sh = sh_durable (pr_shards p ! i)" by (auto simp: drain_sync_def split: drain_pc.splits)
  then show ?thesis unfolding sync(1)
    by (intro bus_inv_local [OF inv sync(2,3)]) (auto intro: live_sync [OF _ t])
next
  case (commit p i env sh stores)
  have ne: "bus_stores s \<noteq> []" by (rule busD(1) [OF inv commit(2)])
  then have d: "i mod length (bus_stores s) < length (bus_stores s)" by simp
  note t = drain_commit_transacts [OF commit(4) ne commit(5)]
  then have "length stores = length (bus_stores s)" by (simp add: transacts_def)
  then show ?thesis unfolding commit(1)
    using live_commit [OF _ refl d commit(4,5)]
    by (intro bus_inv_transaction [OF inv commit(2,3) t]) (simp add: home_def)
next
  case (retry p i env1 env2 sh stores)
  have ne: "bus_stores s \<noteq> []" by (rule busD(1) [OF inv retry(2)])
  then have d: "i mod length (bus_stores s) < length (bus_stores s)" by simp
  note t = drain_retry_transacts [OF retry(4) ne retry(5,6)]
  then have "length stores = length (bus_stores s)" by (simp add: transacts_def)
  then show ?thesis unfolding retry(1)
    using live_retry [OF _ refl d retry(4-6)]
    by (intro bus_inv_transaction [OF inv retry(2,3) t]) (simp add: home_def)
next
  case (publish p i sh)
  have "bus_inv D opts (s\<lparr>bus_process := Some (set_shard i sh p),
      bus_journals := (bus_journals s)[i := bus_journals s ! i]\<rparr>)"
    if "\<exists>J. live D (checkpoint_key i) (home s i) (bus_journals s ! i) (pr_shards p ! i) (acked_of s i) J"
    by (intro bus_inv_local [OF inv publish(2,3)])
      (use that live_publish [OF _ publish(4)] in blast)+
  then show ?thesis using busD(5) [OF inv publish(2)] publish(1,3) busD(2) [OF inv publish(2)] by simp
next
  case (acknowledge p i e)
  then show ?thesis using inv_acknowledge [OF inv] by blast
next
  case (pause p)
  then show ?thesis using busD(3) [OF inv] by (auto simp: Om_Bus.pause_def intro: bus_inv_quiet [OF inv])
next
  case (resume p)
  then show ?thesis using busD(3) [OF inv] by (auto simp: Om_Bus.resume_def intro: bus_inv_quiet [OF inv])
next
  case (maint_begin p p')
  then show ?thesis
    by (auto simp: Om_Bus.maint_begin_def maint_ok_def intro!: bus_inv_quiet [OF inv] split: if_splits)
next
  case (maint_read p p')
  then show ?thesis using inv_maint_read [OF inv] by blast
next
  case (maint_checkpoint p report p' stores)
  then show ?thesis using inv_maint_checkpoint [OF inv] by blast
next
  case (maint_truncate p p' js)
  then show ?thesis using inv_maint_truncate [OF inv] by blast
next
  case kill
  then show ?thesis using inv_kill [OF inv] by simp
next
  case (drop p)
  then show ?thesis using inv_drop [OF inv] by simp
next
  case (power_loss pick kept)
  then show ?thesis using inv_power_loss [OF inv] by simp
qed

lemma bus_reach_inv: "bus_reach prompt terminated D opts s \<Longrightarrow> eo_journaling opts \<Longrightarrow> bus_inv D opts s"
  by (induction rule: bus_reach.induct) (auto intro: inv_init bus_step_inv)

end
