(* ===== verification/Om_BusTheorems.thy ===== *)
theory Om_BusTheorems
  imports Om_BusProps
begin

text \<open>The properties of the ingestion bus.\<close>

text \<open>
  C6. A write that was acknowledged is in the store whenever the engine runs again, under three
  conditions on the run: journaling is on throughout, with the same options; no transaction reports an
  error after it has committed (\<open>prompt\<close>); and every journal a start leaves is empty or ends in a newline
  (\<open>terminated\<close>). Within them anything may have happened in between, in any interleaving: submitters,
  drains, transactions that fail before their commit, maintenance passes and journal truncations,
  process crashes, failed start-ups and power losses. The code does not enforce the conditions, and
  without the third it does lose acknowledged writes: \<open>torn_tail_swallows_next_record\<close>.
\<close>

theorem acknowledged_writes_survive:
  assumes "bus_reach prompt terminated D opts s" and "eo_journaling opts" and "bus_process s = Some p"
    and "i < length (pr_shards p)" and "(i, e) \<in> bus_acked s"
  shows "e \<in> set (applied (checkpoint_key i) (current (home s i)))"
proof -
  have inv: "bus_inv D opts s" by (rule bus_reach_inv [OF assms(1,2)])
  have "i < length (bus_journals s)" using busD(2) [OF inv assms(3)] assms(4) by simp
  then obtain J where "live D (checkpoint_key i) (home s i) (bus_journals s ! i) (pr_shards p ! i) (acked_of s i) J"
    using busD(5) [OF inv assms(3)] by blast
  from liveD(10) [OF this] show ?thesis using assms(5) unfolding acked_of_def by blast
qed

text \<open>
  C7. No submission is applied twice, in a run with journaling on throughout and the same options, in
  which no transaction reports an error after it has committed (\<open>prompt\<close>) and every journal a start leaves
  is empty or ends in a newline (\<open>terminated\<close>): in every database state that may survive, the sequence
  numbers of the entries a shard has written are strictly increasing, none is above the shard's
  checkpoint, and the state is the current one cut at its checkpoint. The code does not enforce the
  conditions, and a drain that sees an error after the commit does write its entries again:
  \<open>late_error_writes_twice\<close>.
\<close>

theorem no_write_applied_twice:
  assumes "bus_reach prompt terminated D opts s" and "eo_journaling opts" and "i < length (bus_journals s)"
    and "d \<in> survivors (home s i)"
  shows "sorted_wrt (<) (map fst (applied (checkpoint_key i) d)) \<and>
    (\<forall>e\<in>set (applied (checkpoint_key i) d). fst e \<le> cp (checkpoint_key i) d) \<and>
    applied (checkpoint_key i) d =
      filter (\<lambda>e. fst e \<le> cp (checkpoint_key i) d) (applied (checkpoint_key i) (current (home s i)))"
proof -
  have ok: "store_ok (checkpoint_key i) (home s i)"
    by (rule bus_store_ok [OF bus_reach_inv [OF assms(1,2)] assms(3)])
  have eq: "applied (checkpoint_key i) d =
      filter (\<lambda>e. fst e \<le> cp (checkpoint_key i) d) (applied (checkpoint_key i) (current (home s i)))"
    by (rule store_okD(3) [OF ok assms(4)])
  moreover have "sorted_wrt (<) (map fst (applied (checkpoint_key i) d))"
    using ok unfolding eq by (simp add: store_ok_def sorted_wrt_map sorted_wrt_filter)
  ultimately show ?thesis by (metis (no_types, lifting) mem_Collect_eq set_filter)
qed

section \<open>Grouping\<close>

definition of_key :: "'g bus_deps \<Rightarrow> drain_group_key \<Rightarrow> remember_request list \<Rightarrow> remember_request list" where
  "of_key D k rs = filter (\<lambda>r. drain_group_key D r = k) rs"

lemma of_key_simps [simp]:
  "of_key D k [] = []"
  "of_key D k (r # rs) = (if drain_group_key D r = k then r # of_key D k rs else of_key D k rs)"
  "of_key D k (rs @ ss) = of_key D k rs @ of_key D k ss"
  by (simp_all add: of_key_def)

lemma key_absorb [simp]: "drain_group_key D (absorb req r) = drain_group_key D r"
  by (simp add: drain_group_key_def absorb_def)

lemma of_key_none: "k \<notin> drain_group_key D ` set xs \<Longrightarrow> of_key D k xs = []"
  by (induction xs) auto

lemma of_key_middle:
  "distinct (map (drain_group_key D) (xs @ r # ys)) \<Longrightarrow> of_key D (drain_group_key D r) (xs @ r # ys) = [r]"
  by (simp add: of_key_none)

lemma of_key_unique:
  assumes "distinct (map (drain_group_key D) rs)" and "i < length rs" and "drain_group_key D (rs ! i) = k"
  shows "of_key D k rs = [rs ! i]"
proof -
  have eq: "rs = take i rs @ rs ! i # drop (Suc i) rs" using assms(2) by (rule id_take_nth_drop)
  have "distinct (map (drain_group_key D) (take i rs @ rs ! i # drop (Suc i) rs))"
    using assms(1) unfolding eq [symmetric] .
  from of_key_middle [OF this] show ?thesis unfolding eq [symmetric] assms(3) .
qed

lemma group_entries_keys:
  assumes "distinct (map (drain_group_key D) batch)"
    and "\<forall>k i. groups k = Some i \<longleftrightarrow> i < length batch \<and> drain_group_key D (batch ! i) = k"
  shows "distinct (map (drain_group_key D) (group_entries D es groups batch)) \<and>
    drain_group_key D ` set (group_entries D es groups batch) =
      drain_group_key D ` set batch \<union> (\<lambda>e. drain_group_key D (snd e)) ` set es \<and>
    concat (map rq_observations (of_key D k (group_entries D es groups batch))) =
      concat (map rq_observations (of_key D k batch)) @ concat (map rq_observations (of_key D k (map snd es))) \<and>
    concat (map rq_relations (of_key D k (group_entries D es groups batch))) =
      concat (map rq_relations (of_key D k batch)) @ concat (map rq_relations (of_key D k (map snd es)))"
  using assms
proof (induction D es groups batch rule: group_entries.induct)
  case (1 D groups batch)
  then show ?case by (simp add: of_key_def)
next
  case (2 D seq req es groups batch)
  let ?key = "drain_group_key D req"
  show ?case
  proof (cases "groups ?key")
    case None
    have new: "?key \<notin> drain_group_key D ` set batch"
    proof
      assume "?key \<in> drain_group_key D ` set batch"
      then obtain i where "i < length batch" "drain_group_key D (batch ! i) = ?key" by (auto simp: in_set_conv_nth)
      then have "groups ?key = Some i" using "2.prems"(2) by blast
      with None show False by simp
    qed
    have d: "distinct (map (drain_group_key D) (batch @ [req]))" using "2.prems"(1) new by simp
    have g: "\<forall>k i. (groups(?key \<mapsto> length batch)) k = Some i \<longleftrightarrow>
        i < length (batch @ [req]) \<and> drain_group_key D ((batch @ [req]) ! i) = k"
    proof (intro allI)
      fix k m
      have "drain_group_key D (batch ! m) \<noteq> ?key" if "m < length batch" using new that by (metis image_eqI nth_mem)
      then show "(groups(?key \<mapsto> length batch)) k = Some m \<longleftrightarrow>
          m < length (batch @ [req]) \<and> drain_group_key D ((batch @ [req]) ! m) = k"
        using "2.prems"(2) by (cases "k = ?key") (auto simp: nth_append less_Suc_eq simp del: split_paired_All)
    qed
    have eq: "group_entries D ((seq, req) # es) groups batch =
        group_entries D es (groups(?key \<mapsto> length batch)) (batch @ [req])" by (simp add: None)
    note ih = "2.IH"(1) [OF None d g]
    show ?thesis
      unfolding eq using ih by (simp add: fun_upd_def)
  next
    case (Some i)
    then have i: "i < length batch" "drain_group_key D (batch ! i) = ?key" using "2.prems"(2) by blast+
    let ?b = "batch[i := absorb req (batch ! i)]"
    have keys: "map (drain_group_key D) ?b = map (drain_group_key D) batch"
      using i by (simp add: map_update list_update_same_conv)
    then have kset: "drain_group_key D ` set ?b = drain_group_key D ` set batch" by (metis list.set_map)
    have nthk: "m < length batch \<Longrightarrow> drain_group_key D (?b ! m) = drain_group_key D (batch ! m)" for m
      by (cases "m = i") (use i in auto)
    have d: "distinct (map (drain_group_key D) ?b)" using "2.prems"(1) keys by simp
    have g: "\<forall>k m. groups k = Some m \<longleftrightarrow> m < length ?b \<and> drain_group_key D (?b ! m) = k"
      using "2.prems"(2) nthk by auto
    have same: "of_key D k ?b = of_key D k batch" if "k \<noteq> ?key" for k
    proof -
      have old: "batch = take i batch @ batch ! i # drop (Suc i) batch" using i(1) by (rule id_take_nth_drop)
      have upd: "?b = take i batch @ absorb req (batch ! i) # drop (Suc i) batch"
        using i(1) by (rule upd_conv_take_nth_drop)
      have "of_key D k (take i batch @ batch ! i # drop (Suc i) batch) =
          of_key D k (take i batch @ absorb req (batch ! i) # drop (Suc i) batch)"
        using that i(2) by simp
      then show ?thesis unfolding old [symmetric] upd [symmetric] by simp
    qed
    have at: "of_key D ?key ?b = [absorb req (batch ! i)]" "of_key D ?key batch = [batch ! i]"
      using of_key_unique [OF d, of i ?key] of_key_unique [OF "2.prems"(1) i] i by auto
    have eq: "group_entries D ((seq, req) # es) groups batch = group_entries D es groups ?b" by (simp add: Some)
    note ih = "2.IH"(2) [OF Some d g]
    have mem: "?key \<in> drain_group_key D ` set batch" using i by (metis image_eqI nth_mem)
    have tail: "of_key D k (map snd ((seq, req) # es)) =
        (if k = ?key then req # of_key D k (map snd es) else of_key D k (map snd es))" by (simp add: of_key_def)
    have parts: "concat (map rq_observations (of_key D k ?b)) @ concat (map rq_observations (of_key D k (map snd es))) =
          concat (map rq_observations (of_key D k batch)) @
          concat (map rq_observations (of_key D k (map snd ((seq, req) # es))))"
        "concat (map rq_relations (of_key D k ?b)) @ concat (map rq_relations (of_key D k (map snd es))) =
          concat (map rq_relations (of_key D k batch)) @
          concat (map rq_relations (of_key D k (map snd ((seq, req) # es))))"
      unfolding tail using at same [of k] by (cases "k = ?key"; simp add: absorb_def)+
    show ?thesis
      unfolding eq using ih kset mem parts by (simp add: insert_absorb)
  qed
qed

text \<open>
  C18. A drain commits one group per entity, type and source, and loses and reorders nothing: the
  observations and the relations of a group are those of its requests, in submission order.
\<close>

theorem drain_groups_exactly:
  "distinct (map (drain_group_key D) (group_drained D es)) \<and>
   drain_group_key D ` set (group_drained D es) = (\<lambda>e. drain_group_key D (snd e)) ` set es \<and>
   (\<forall>k. concat (map rq_observations (of_key D k (group_drained D es))) =
          concat (map rq_observations (of_key D k (map snd es))) \<and>
        concat (map rq_relations (of_key D k (group_drained D es))) =
          concat (map rq_relations (of_key D k (map snd es))))"
proof -
  have none: "\<forall>k i. (\<lambda>_. None) k = Some i \<longleftrightarrow> i < length [] \<and> drain_group_key D ([] ! i) = k" by simp
  show ?thesis
    using group_entries_keys [OF _ none, of es] by (simp add: group_drained_def of_key_def)
qed

section \<open>Progress\<close>

text \<open>A transaction that carries only a checkpoint fails only by a fault of the database.\<close>

lemma checkpoint_only_commits:
  assumes "\<forall>e. env i \<noteq> Before_Commit e" and "i < length stores"
  shows "\<exists>stores'. batch_in_domain D env i [] [] \<lparr>bo_normalize = n, bo_checkpoint = Some c\<rparr> stores = (Inr (), stores')"
proof -
  obtain k v where c: "c = (k, v)" by (cases c)
  show ?thesis using assms
    by (auto simp: batch_in_domain_def plan_batch_def store_batch_def remember_batch_def c Let_def
        write_mirrors.simps split: fault.splits)
qed

lemma drain_retry_progress:
  assumes pc: "sh_drain sh = Drain_Retrying es n" and ne: "stores \<noteq> []" and h: "\<forall>e. env2 (i mod length stores) \<noteq> Before_Commit e"
  shows "\<exists>sh' stores'. drain_retry D opts env1 env2 i (sh, stores) = Some (sh', stores') \<and> sh_buf sh' = sh_buf sh \<and>
    length stores' = length stores \<and> sh_next_seq sh' = sh_next_seq sh \<and> sh_tickets sh' = sh_tickets sh \<and>
    sh_durable sh' = sh_durable sh \<and>
    (case es of [] \<Rightarrow> sh_drain sh' = Drain_Publish n | e # rest \<Rightarrow> sh_drain sh' = Drain_Retrying rest (fst e))"
proof (cases es)
  case Nil
  then show ?thesis by (simp add: drain_retry_def pc)
next
  case (Cons e rest)
  obtain seq req where e: "e = (seq, req)" by (cases e)
  obtain r1 stores1 where r1: "batch_in_domain D env1 (i mod length stores) [(seq, req)] [req]
      \<lparr>bo_normalize = eo_normalize opts, bo_checkpoint = Some (checkpoint_key i, seq)\<rparr> stores = (r1, stores1)"
    by (cases "batch_in_domain D env1 (i mod length stores) [(seq, req)] [req]
      \<lparr>bo_normalize = eo_normalize opts, bo_checkpoint = Some (checkpoint_key i, seq)\<rparr> stores")
  have l1: "length stores1 = length stores" by (rule batch_in_domain_length [OF r1])
  have lt: "i mod length stores < length stores1" using ne l1 by simp
  show ?thesis
  proof (cases r1)
    case (Inr u)
    then show ?thesis using r1 l1 by (simp add: drain_retry_def pc Cons e)
  next
    case (Inl err)
    obtain stores2 where r2: "batch_in_domain D env2 (i mod length stores) [] []
        \<lparr>bo_normalize = False, bo_checkpoint = Some (checkpoint_key i, seq)\<rparr> stores1 = (Inr (), stores2)"
      using checkpoint_only_commits [where env = env2 and D = D, OF h lt] by blast
    have "length stores2 = length stores" using batch_in_domain_length [OF r2] l1 by simp
    then show ?thesis using r1 r2 l1 by (simp add: drain_retry_def pc Cons e Inl)
  qed
qed

lemma retry_rounds_finish:
  assumes "sh_drain sh = Drain_Retrying es n" and "stores \<noteq> []"
    and "\<forall>m e. snd (env m) (i mod length stores) \<noteq> Before_Commit e" and "length es < rounds"
  shows "\<exists>sh' stores'. retry_rounds D opts env i rounds (sh, stores) = (sh', stores') \<and>
    sh_drain sh' = Drain_Publish (if es = [] then n else fst (last es)) \<and> sh_buf sh' = sh_buf sh \<and>
    sh_next_seq sh' = sh_next_seq sh \<and> sh_tickets sh' = sh_tickets sh \<and> sh_durable sh' = sh_durable sh"
  using assms
proof (induction es arbitrary: sh stores n rounds)
  case Nil
  then obtain r where r: "rounds = Suc r" by (cases rounds) auto
  let ?sh = "sh\<lparr>sh_drain := Drain_Publish n\<rparr>"
  have stop: "retry_rounds D opts env i m (?sh, stores) = (?sh, stores)" for m
    by (cases m) (simp_all add: drain_retry_def)
  show ?case using Nil stop by (auto simp: r drain_retry_def)
next
  case (Cons e rest)
  then obtain r where r: "rounds = Suc r" "length rest < r" by (cases rounds) auto
  have h: "\<forall>e. snd (env r) (i mod length stores) \<noteq> Before_Commit e" using Cons.prems(3) by blast
  obtain sh1 stores1 where s1: "drain_retry D opts (fst (env r)) (snd (env r)) i (sh, stores) = Some (sh1, stores1)"
      "sh_buf sh1 = sh_buf sh" "length stores1 = length stores" "sh_next_seq sh1 = sh_next_seq sh"
      "sh_tickets sh1 = sh_tickets sh" "sh_durable sh1 = sh_durable sh" "sh_drain sh1 = Drain_Retrying rest (fst e)"
    using drain_retry_progress [where ?env2.0 = "snd (env r)" and i = i and stores = stores and D = D
      and opts = opts and ?env1.0 = "fst (env r)", OF Cons.prems(1,2) h] by auto
  have "stores1 \<noteq> []" using s1(3) Cons.prems(2) by auto
  from Cons.IH [OF s1(7) this _ r(2)] Cons.prems(3) s1 show ?case
    by (cases "rest = []") (simp_all add: r)
qed


lemma drain_shard_decides:
  assumes "bus_reach prompt terminated D opts s" and "eo_journaling opts" and "bus_process s = Some p"
    and "i < length (pr_shards p)" and "sh_drain (pr_shards p ! i) = Drain_Idle"
    and "\<forall>m e. snd (envs m) (i mod length (bus_stores s)) \<noteq> Before_Commit e"
    and "drain_shard D (normalize_options opts) env envs i (pr_shards p ! i, bus_journals s ! i, bus_stores s) =
      (sh, j, stores)"
  shows "sh_buf sh = [] \<and> sh_drain sh = Drain_Idle \<and> sh_durable sh = sh_next_seq sh \<and>
    sh_tickets sh = sh_tickets (pr_shards p ! i) \<and> sh_next_seq sh = sh_next_seq (pr_shards p ! i) \<and>
    (\<forall>e\<in>set (sh_tickets sh). ticket_outcome sh (fst e) \<noteq> None)"
proof -
  let ?sh = "pr_shards p ! i" and ?st = "bus_stores s"
  have inv: "bus_inv D opts s" by (rule bus_reach_inv [OF assms(1,2)])
  have jn: "eo_journaling (normalize_options opts)" using assms(2) by (simp add: normalize_options_def Let_def)
  have ne: "?st \<noteq> []" by (rule busD(1) [OF inv assms(3)])
  have "i < length (bus_journals s)" using busD(2) [OF inv assms(3)] assms(4) by simp
  then obtain J where l: "live D (checkpoint_key i) (home s i) (bus_journals s ! i) ?sh (acked_of s i) J"
    using busD(5) [OF inv assms(3)] by blast
  let ?c = "cp (checkpoint_key i) (current (home s i))"
  have tick: "fst e \<le> sh_next_seq ?sh" if "e \<in> set (sh_tickets ?sh)" for e
    using liveD(4,9) [OF l] that pending_bounds(2) [OF l, of e] by (auto simp: ticket_ok_def)
  have dur: "sh_durable ?sh = ?c" using liveD(6) [OF l] by (simp add: resolved_def assms(5))
  have buf: "map fst (sh_buf ?sh) = [Suc ?c..<Suc (sh_next_seq ?sh)]"
    using liveD(5) [OF l] by (simp add: pending_def assms(5) del: upt_Suc)
  have "sh_buf sh = [] \<and> sh_drain sh = Drain_Idle \<and> sh_durable sh = sh_next_seq sh \<and>
      sh_tickets sh = sh_tickets ?sh \<and> sh_next_seq sh = sh_next_seq ?sh"
  proof (cases "sh_buf ?sh = []")
    case True
    then have "sh_next_seq ?sh = ?c" using buf liveD(4) [OF l] by (simp split: if_splits)
    then show ?thesis using assms(5,7) True dur by (auto simp: drain_shard_def drain_take_def)
  next
    case False
    let ?d = "sh_buf ?sh"
    have "fst (last ?d) = last (map fst ?d)" using False by (simp add: last_map)
    also have "\<dots> = sh_next_seq ?sh" using False buf by (cases "?c \<le> sh_next_seq ?sh") auto
    finally have top: "fst (last ?d) = sh_next_seq ?sh" .
    define sh2 where "sh2 = ?sh\<lparr>sh_buf := [], sh_drain := Drain_Synced ?d\<rparr>"
    define j2 where "j2 = jn_sync (jn_flush (bus_journals s ! i))"
    obtain sh3 stores3 where c: "drain_commit D (normalize_options opts) env i (sh2, ?st) = Some (sh3, stores3)"
        and pc: "sh_drain sh3 = Drain_Publish (sh_next_seq ?sh) \<or> sh_drain sh3 = Drain_Retrying ?d 0"
        and keep: "sh_buf sh3 = []" "sh_next_seq sh3 = sh_next_seq ?sh" "sh_tickets sh3 = sh_tickets ?sh"
          "sh_durable sh3 = sh_durable ?sh"
    proof -
      obtain r0 st0 where "batch_in_domain D env (i mod length ?st) ?d (group_drained D ?d)
          \<lparr>bo_normalize = eo_normalize (normalize_options opts),
             bo_checkpoint = Some (checkpoint_key i, sh_next_seq ?sh)\<rparr> ?st = (r0, st0)"
        by (meson surj_pair)
      then show thesis using that False top
        by (cases r0) (auto simp: drain_commit_def sh2_def Let_def)
    qed
    have l3: "length stores3 = length ?st"
      using c batch_in_domain_length
      by (auto simp: drain_commit_def Let_def split: drain_pc.splits prod.splits sum.splits)
    obtain sh4 stores4 where r: "retry_rounds D (normalize_options opts) envs i (length ?d + 1) (sh3, stores3) = (sh4, stores4)"
        and s4: "sh_drain sh4 = Drain_Publish (sh_next_seq ?sh)" "sh_buf sh4 = []" "sh_next_seq sh4 = sh_next_seq ?sh"
          "sh_tickets sh4 = sh_tickets ?sh" "sh_durable sh4 = sh_durable ?sh"
    proof -
      from pc show thesis
      proof
        assume a: "sh_drain sh3 = Drain_Publish (sh_next_seq ?sh)"
        then have "retry_rounds D (normalize_options opts) envs i (length ?d + 1) (sh3, stores3) = (sh3, stores3)"
          by (simp add: drain_retry_def)
        then show thesis using that a keep by simp
      next
        assume a: "sh_drain sh3 = Drain_Retrying ?d 0"
        have "stores3 \<noteq> []" using l3 ne by auto
        from retry_rounds_finish [OF a this, of envs i "length ?d + 1" D "normalize_options opts"] assms(6) l3
        show thesis using that keep False top by auto
      qed
    qed
    have "drain_shard D (normalize_options opts) env envs i (?sh, bus_journals s ! i, ?st) =
        (sh4\<lparr>sh_durable := max (sh_durable sh4) (sh_next_seq ?sh), sh_drain := Drain_Idle\<rparr>, j2, stores4)"
      using False assms(5) jn c r s4(1)
      by (simp add: drain_shard_def drain_take_def drain_sync_def drain_publish_def sh2_def j2_def)
    then have "sh = sh4\<lparr>sh_durable := max (sh_durable sh4) (sh_next_seq ?sh), sh_drain := Drain_Idle\<rparr>"
      using assms(7) by simp
    then show ?thesis using s4 dur liveD(4) [OF l] by simp
  qed
  moreover from this have "ticket_outcome sh (fst e) \<noteq> None" if "e \<in> set (sh_tickets sh)" for e
    using tick [of e] that by (simp add: ticket_outcome_def split: option.split)
  ultimately show ?thesis by blast
qed


text \<open>
  C9. A drain leaves nothing undecided: when the database accepts transactions that only move a
  checkpoint, then whatever else fails, one drain empties the queue, brings the watermark up to the
  last number issued and so gives every ticket an outcome.
\<close>

theorem drain_decides_everything:
  assumes "bus_reach prompt terminated D opts s" and "eo_journaling opts" and "bus_process s = Some p"
    and "i < length (pr_shards p)" and "sh_drain (pr_shards p ! i) = Drain_Idle"
    and "\<forall>m e. snd (envs m) (i mod length (bus_stores s)) \<noteq> Before_Commit e"
    and "drain_shard D (normalize_options opts) env envs i (pr_shards p ! i, bus_journals s ! i, bus_stores s) =
      (sh, j, stores)"
  shows "sh_buf sh = [] \<and> sh_drain sh = Drain_Idle \<and> sh_durable sh = sh_next_seq sh \<and>
    sh_tickets sh = sh_tickets (pr_shards p ! i) \<and>
    (\<forall>e\<in>set (sh_tickets sh). ticket_outcome sh (fst e) \<noteq> None)"
  using drain_shard_decides [OF assms] by blast

section \<open>Shutdown\<close>

text \<open>A drain that runs as one call is a run of steps.\<close>

lemma set_shard_twice [simp]: "set_shard i sh' (set_shard i sh p) = set_shard i sh' p"
  by (simp add: set_shard_def)

lemma set_shard_length [simp]: "length (pr_shards (set_shard i sh p)) = length (pr_shards p)"
  by (simp add: set_shard_def)

lemma set_shard_nth [simp]: "i < length (pr_shards p) \<Longrightarrow> pr_shards (set_shard i sh p) ! i = sh"
  by (simp add: set_shard_def)

lemma drain_commit_runs:
  assumes "sh_drain sh = Drain_Synced es"
  shows "\<exists>sh' stores'. drain_commit D opts env i (sh, stores) = Some (sh', stores')"
proof -
  obtain r stores' where "batch_in_domain D env (i mod length stores) es (group_drained D es)
      \<lparr>bo_normalize = eo_normalize opts,
         bo_checkpoint = Some (checkpoint_key i, if es = [] then 0 else fst (last es))\<rparr> stores = (r, stores')"
    by (meson surj_pair)
  then show ?thesis by (cases r) (simp_all add: drain_commit_def assms Let_def)
qed

lemma retry_rounds_reach:
  assumes "bus_reach prompt terminated D opts (s\<lparr>bus_process := Some (set_shard i sh p), bus_stores := stores\<rparr>)"
    and "i < length (pr_shards p)" and "\<forall>m. prompt (fst (envs m)) \<and> prompt (snd (envs m))"
    and "retry_rounds D (normalize_options opts) envs i n (sh, stores) = (sh', stores')"
  shows "bus_reach prompt terminated D opts (s\<lparr>bus_process := Some (set_shard i sh' p), bus_stores := stores'\<rparr>)"
  using assms(1,4)
proof (induction n arbitrary: sh stores)
  case (Suc n)
  show ?case
  proof (cases "drain_retry D (normalize_options opts) (fst (envs n)) (snd (envs n)) i (sh, stores)")
    case None
    then show ?thesis using Suc.prems by simp
  next
    case (Some r)
    obtain sh1 stores1 where r: "r = (sh1, stores1)" by (cases r)
    let ?s = "s\<lparr>bus_process := Some (set_shard i sh p), bus_stores := stores\<rparr>"
    have "bus_step prompt terminated D opts ?s (?s\<lparr>bus_process := Some (set_shard i sh1 (set_shard i sh p)), bus_stores := stores1\<rparr>)"
      by (rule bus_step.retry [where ?env1.0 = "fst (envs n)" and ?env2.0 = "snd (envs n)"])
        (use assms(2,3) Some r in simp_all)
    from bus_reach.step [OF Suc.prems(1) this]
    have "bus_reach prompt terminated D opts (s\<lparr>bus_process := Some (set_shard i sh1 p), bus_stores := stores1\<rparr>)" by simp
    from Suc.IH [OF this] show ?thesis using Suc.prems(2) Some r by simp
  qed
qed simp

lemma process_last:
  "s\<lparr>bus_journals := js, bus_process := p, bus_stores := stores\<rparr> =
   s\<lparr>bus_journals := js, bus_stores := stores, bus_process := p\<rparr>"
  by simp

lemma drain_shard_reach:
  assumes reach: "bus_reach prompt terminated D opts s" and jo: "eo_journaling opts" and p: "bus_process s = Some p"
    and i: "i < length (pr_shards p)" "i < length (bus_journals s)" and idle: "sh_drain (pr_shards p ! i) = Drain_Idle"
    and env: "prompt env" "\<forall>m. prompt (fst (envs m)) \<and> prompt (snd (envs m))"
    and d: "drain_shard D (normalize_options opts) env envs i (pr_shards p ! i, bus_journals s ! i, bus_stores s) = (sh, j, stores)"
  shows "bus_reach prompt terminated D opts (s\<lparr>bus_journals := (bus_journals s)[i := j], bus_process := Some (set_shard i sh p),
    bus_stores := stores\<rparr>)"
proof (cases "sh_buf (pr_shards p ! i) = []")
  case True
  then have "sh = pr_shards p ! i" "j = bus_journals s ! i" "stores = bus_stores s"
    using d idle by (simp_all add: drain_shard_def drain_take_def)
  then have "s\<lparr>bus_journals := (bus_journals s)[i := j], bus_process := Some (set_shard i sh p), bus_stores := stores\<rparr> = s"
    using p by (simp add: set_shard_def)
  then show ?thesis using reach by simp
next
  case False
  let ?sh = "pr_shards p ! i" and ?j = "bus_journals s ! i" and ?o = "normalize_options opts"
  have jn: "eo_journaling ?o" using jo by (simp add: normalize_options_def Let_def)
  define sh1 where "sh1 = ?sh\<lparr>sh_buf := [], sh_drain := Drain_Taken (sh_buf ?sh)\<rparr>"
  define sh2 where "sh2 = ?sh\<lparr>sh_buf := [], sh_drain := Drain_Synced (sh_buf ?sh)\<rparr>"
  let ?j1 = "jn_flush ?j" and ?j2 = "jn_sync (jn_flush ?j)"
  have t1: "drain_take True (?sh, ?j) = Some (sh1, ?j1)" using False idle by (simp add: drain_take_def sh1_def)
  have t2: "drain_sync True (sh1, ?j1) = Some (sh2, ?j2)" by (simp add: drain_sync_def sh1_def sh2_def)
  let ?s1 = "s\<lparr>bus_process := Some (set_shard i sh1 p), bus_journals := (bus_journals s)[i := ?j1]\<rparr>"
  let ?s2 = "s\<lparr>bus_process := Some (set_shard i sh2 p), bus_journals := (bus_journals s)[i := ?j2]\<rparr>"
  have "bus_step prompt terminated D opts s ?s1" by (rule bus_step.take [OF p i(1)]) (use t1 jo in simp)
  then have r1: "bus_reach prompt terminated D opts ?s1" by (rule bus_reach.step [OF reach])
  have "bus_step prompt terminated D opts ?s1 (?s1\<lparr>bus_process := Some (set_shard i sh2 (set_shard i sh1 p)),
      bus_journals := (bus_journals ?s1)[i := ?j2]\<rparr>)"
    by (rule bus_step.sync) (use t2 jo i in simp_all)
  from bus_reach.step [OF r1 this] have r2: "bus_reach prompt terminated D opts ?s2" by simp
  obtain sh3 stores3 where c: "drain_commit D ?o env i (sh2, bus_stores s) = Some (sh3, stores3)"
    using drain_commit_runs [of sh2 "sh_buf ?sh" D ?o env i "bus_stores s"] by (auto simp: sh2_def)
  let ?s3 = "?s2\<lparr>bus_process := Some (set_shard i sh3 p), bus_stores := stores3\<rparr>"
  have "bus_step prompt terminated D opts ?s2 (?s2\<lparr>bus_process := Some (set_shard i sh3 (set_shard i sh2 p)), bus_stores := stores3\<rparr>)"
    by (rule bus_step.commit [where fault_ok = prompt, OF _ _ _ env(1)]) (use c i in simp_all)
  from bus_reach.step [OF r2 this] have r3: "bus_reach prompt terminated D opts ?s3" by simp
  obtain sh4 stores4 where r: "retry_rounds D ?o envs i (length (sh_buf ?sh) + 1) (sh3, stores3) = (sh4, stores4)"
    by (meson surj_pair)
  have r4: "bus_reach prompt terminated D opts (?s2\<lparr>bus_process := Some (set_shard i sh4 p), bus_stores := stores4\<rparr>)"
    by (rule retry_rounds_reach [OF r3 i(1) env(2) r])
  have d': "(sh, j, stores) = (case drain_publish sh4 of None \<Rightarrow> (sh4, ?j2, stores4) | Some sh5 \<Rightarrow> (sh5, ?j2, stores4))"
    using d t1 t2 c r jn by (simp add: drain_shard_def)
  show ?thesis
  proof (cases "drain_publish sh4")
    case None
    then show ?thesis using r4 d' by simp
  next
    case (Some sh5)
    let ?s4 = "?s2\<lparr>bus_process := Some (set_shard i sh4 p), bus_stores := stores4\<rparr>"
    have "bus_step prompt terminated D opts ?s4 (?s4\<lparr>bus_process := Some (set_shard i sh5 (set_shard i sh4 p))\<rparr>)"
      by (rule bus_step.publish) (use Some i in simp_all)
    from bus_reach.step [OF r4 this]
    have "bus_reach prompt terminated D opts (s\<lparr>bus_journals := (bus_journals s)[i := ?j2], bus_stores := stores4,
        bus_process := Some (set_shard i sh5 p)\<rparr>)" by simp
    then show ?thesis using d' Some by (simp add: process_last)
  qed
qed

text \<open>The number of stores stays the same.\<close>

lemma drain_commit_length:
  "drain_commit D opts env i (sh, stores) = Some (sh', stores') \<Longrightarrow> length stores' = length stores"
  using batch_in_domain_length
  by (auto simp: drain_commit_def Let_def split: drain_pc.splits prod.splits sum.splits)

lemma drain_retry_length:
  assumes "drain_retry D opts env1 env2 i (sh, stores) = Some (sh', stores')"
  shows "length stores' = length stores"
  using assms
  by (auto simp: drain_retry_def Let_def dest!: batch_in_domain_length
      split: drain_pc.splits list.splits prod.splits sum.splits)

lemma retry_rounds_length:
  "retry_rounds D opts envs i n (sh, stores) = (sh', stores') \<Longrightarrow> length stores' = length stores"
proof (induction n arbitrary: sh stores)
  case (Suc n)
  then show ?case
    by (auto split: option.splits dest: drain_retry_length)
qed simp

lemma drain_shard_length:
  assumes "drain_shard D opts env envs i (sh, j, stores) = (sh', j', stores')"
  shows "length stores' = length stores"
  using assms
  by (auto simp: drain_shard_def Let_def dest!: drain_commit_length retry_rounds_length drain_retry_length
      split: option.splits prod.splits)

text \<open>Draining all shards one after the other.\<close>

definition drained_upto :: "process \<Rightarrow> nat set \<Rightarrow> process \<Rightarrow> bool" where
  "drained_upto p is q \<longleftrightarrow> length (pr_shards q) = length (pr_shards p) \<and> pr_maint q = pr_maint p \<and>
     (\<forall>i<length (pr_shards p). sh_drain (pr_shards q ! i) = Drain_Idle \<and>
        sh_next_seq (pr_shards q ! i) = sh_next_seq (pr_shards p ! i) \<and>
        sh_tickets (pr_shards q ! i) = sh_tickets (pr_shards p ! i) \<and>
        (i \<in> is \<longrightarrow> sh_buf (pr_shards q ! i) = [] \<and> sh_durable (pr_shards q ! i) = sh_next_seq (pr_shards q ! i)))"

lemma drain_all_reach:
  assumes "bus_reach prompt terminated D opts s" and "eo_journaling opts" and "bus_process s = Some q"
    and "drained_upto p A q" and "set is \<subseteq> {..<length (pr_shards p)}"
    and "\<forall>i. prompt (fst (envs i)) \<and> (\<forall>m. prompt (fst (snd (envs i) m)) \<and> prompt (snd (snd (envs i) m)))"
    and "\<forall>i m d e. snd (snd (envs i) m) d \<noteq> Before_Commit e"
    and "drain_all D (normalize_options opts) envs is (q, bus_journals s, bus_stores s) = (q', js, stores)"
  shows "bus_reach prompt terminated D opts (s\<lparr>bus_journals := js, bus_process := Some q', bus_stores := stores\<rparr>) \<and>
    drained_upto p (A \<union> set is) q' \<and> length stores = length (bus_stores s)"
  using assms(1,3,4,5,8)
proof (induction "is" arbitrary: s q A)
  case Nil
  then have eq: "js = bus_journals s" "stores = bus_stores s" "Some q' = bus_process s" and "q' = q" by auto
  have e: "s\<lparr>bus_journals := js, bus_process := Some q', bus_stores := stores\<rparr> = s" unfolding eq by simp
  show ?case unfolding e using Nil \<open>q' = q\<close> eq(2) by simp
next
  case (Cons i "is")
  have len: "length (pr_shards q) = length (pr_shards p)" using Cons.prems(3) by (simp add: drained_upto_def)
  have i: "i < length (pr_shards q)" using Cons.prems(4) len by simp
  have idle: "sh_drain (pr_shards q ! i) = Drain_Idle" using Cons.prems(3) i len by (simp add: drained_upto_def)
  have j: "i < length (bus_journals s)"
    using busD(2) [OF bus_reach_inv [OF Cons.prems(1) assms(2)] Cons.prems(2)] i by simp
  obtain sh jj stores1 where d: "drain_shard D (normalize_options opts) (fst (envs i)) (snd (envs i)) i
      (pr_shards q ! i, bus_journals s ! i, bus_stores s) = (sh, jj, stores1)"
    by (metis prod_cases3)
  let ?q1 = "set_shard i sh q"
  let ?s1 = "s\<lparr>bus_journals := (bus_journals s)[i := jj], bus_process := Some ?q1, bus_stores := stores1\<rparr>"
  have r1: "bus_reach prompt terminated D opts ?s1"
    by (rule drain_shard_reach [OF Cons.prems(1) assms(2) Cons.prems(2) i j idle _ _ d]) (use assms(6) in auto)
  have h: "\<forall>m e. snd (snd (envs i) m) (i mod length (bus_stores s)) \<noteq> Before_Commit e" using assms(7) by blast
  note dec = drain_shard_decides [OF Cons.prems(1) assms(2) Cons.prems(2) i idle h d]
  have d1: "drained_upto p (insert i A) ?q1"
    using Cons.prems(3) dec i
    by (auto simp: drained_upto_def set_shard_def nth_list_update)
  from Cons.IH [OF r1 _ d1] Cons.prems(4,5) d drain_shard_length [OF d] show ?case by (simp add: set_shard_def)
qed

lemma maintenance_all_complete:
  assumes "checkpoint_stores (map (\<lambda>_. Inr True) stores) stores = (r, stores')"
  shows "r = Some True \<and> stores' = map (wal_checkpoint True) stores"
  using assms by (induction stores arbitrary: r stores') (auto split: prod.splits)

lemma truncate_journals_all:
  assumes "length js = length shs" and "\<forall>sh\<in>set shs. sh_buf sh = [] \<and> sh_durable sh = sh_next_seq sh"
  shows "truncate_journals (zip shs (map sh_durable shs)) js = map journal_truncate js"
  using assms
proof (induction js arbitrary: shs)
  case (Cons j js)
  then obtain sh shs' where "shs = sh # shs'" by (cases shs) auto
  with Cons show ?case by simp
qed simp

text \<open>
  C8. A clean shutdown leaves nothing behind: when the transactions that only move a checkpoint are
  accepted and every checkpoint of the log is complete, it returns, the journals are empty, the
  stores need no log, and each ticket this process has issued is decided: reported durable, and
  then its write is in the file of its store, or reported failed.
\<close>

theorem shutdown_is_complete:
  assumes "bus_reach prompt terminated D opts s" and "eo_journaling opts" and "bus_process s = Some p"
    and "\<forall>sh\<in>set (pr_shards p). sh_drain sh = Drain_Idle"
    and "\<forall>i. prompt (fst (envs i)) \<and> (\<forall>m. prompt (fst (snd (envs i) m)) \<and> prompt (snd (snd (envs i) m)))"
    and "\<forall>i m d e. snd (snd (envs i) m) d \<noteq> Before_Commit e"
  shows "\<exists>p' js stores s'. quiesce D (normalize_options opts) envs (p, bus_journals s, bus_stores s) = Some (p', js, stores) \<and>
    shutdown D (normalize_options opts) envs (map (\<lambda>_. Inr True) (bus_stores s)) s = Some s' \<and>
    list_all (\<lambda>j. jn_content j = [] \<and> jn_buffer j = []) (bus_journals s') \<and>
    list_all (\<lambda>st. st_wal st = []) (bus_stores s') \<and>
    list_all (\<lambda>i. list_all (\<lambda>e.
        (case ticket_outcome (pr_shards p' ! i) (fst e) of None \<Rightarrow> False
         | Some (Inl _) \<Rightarrow> True
         | Some (Inr _) \<Rightarrow> e \<in> set (applied (checkpoint_key i) (st_base (home s' i)))))
        (sh_tickets (pr_shards p ! i))) [0..<length (pr_shards p)]"
proof -
  let ?o = "normalize_options opts" and ?n = "length (pr_shards p)"
  obtain p' js stores where da: "drain_all D ?o envs [0..<?n] (p, bus_journals s, bus_stores s) = (p', js, stores)"
    by (metis prod_cases3)
  have "drained_upto p {} p" using assms(4) by (simp add: drained_upto_def)
  from drain_all_reach [OF assms(1-3) this _ assms(5,6) da]
  have reach: "bus_reach prompt terminated D opts (s\<lparr>bus_journals := js, bus_process := Some p', bus_stores := stores\<rparr>)" (is "bus_reach prompt terminated D opts ?s1")
    and du: "drained_upto p {0..<?n} p'" and lst: "length stores = length (bus_stores s)"
    by (auto simp: atLeast0LessThan)
  have inv: "bus_inv D opts ?s1" by (rule bus_reach_inv [OF reach assms(2)])
  note b = busD [OF inv, of p', simplified]
  have len: "length (pr_shards p') = ?n" using du by (simp add: drained_upto_def)
  have dn: "sh_buf (pr_shards p' ! i) = [] \<and> sh_durable (pr_shards p' ! i) = sh_next_seq (pr_shards p' ! i) \<and>
      sh_next_seq (pr_shards p' ! i) = sh_next_seq (pr_shards p ! i) \<and>
      sh_tickets (pr_shards p' ! i) = sh_tickets (pr_shards p ! i) \<and> sh_drain (pr_shards p' ! i) = Drain_Idle"
    if "i < ?n" for i using du that by (auto simp: drained_upto_def)
  have "list_all2 (\<lambda>sh seq. ticket_outcome sh seq \<noteq> None) (pr_shards p') (map sh_next_seq (pr_shards p))"
    using len dn by (auto simp: list_all2_conv_all_nth ticket_outcome_def split: option.splits)
  then have q: "quiesce D ?o envs (p, bus_journals s, bus_stores s) = Some (p', js, stores)"
    using da by (simp add: quiesce_def)
  have buf: "\<forall>sh\<in>set (pr_shards p'). sh_buf sh = [] \<and> sh_durable sh = sh_next_seq sh"
    using len dn by (auto simp: set_conv_nth)
  have jn: "eo_journaling ?o" using assms(2) by (simp add: normalize_options_def Let_def)
  have reports: "map (\<lambda>_. Inr True) (bus_stores s) = map (\<lambda>_. Inr True) stores"
    using lst by (simp add: map_replicate_const)
  obtain r stores' where ck: "checkpoint_stores (map (\<lambda>_. Inr True) stores) stores = (r, stores')"
    by (meson surj_pair)
  have mp: "maintenance_pass ?o (map (\<lambda>_. Inr True) (bus_stores s)) p' js stores =
      (map journal_truncate js, map (wal_checkpoint True) stores)"
    using truncate_journals_all [OF b(2) [symmetric] buf] maintenance_all_complete [OF ck] jn
    unfolding reports by (simp add: maintenance_pass_def ck)
  let ?s' = "s\<lparr>bus_process := None, bus_journals := map jn_flush (map journal_truncate js),
    bus_stores := map (wal_checkpoint True) stores\<rparr>"
  have sd: "shutdown D ?o envs (map (\<lambda>_. Inr True) (bus_stores s)) s = Some ?s'"
    by (simp add: shutdown_def assms(3) q mp)
  have "case ticket_outcome (pr_shards p' ! i) (fst e) of None \<Rightarrow> False | Some (Inl _) \<Rightarrow> True
      | Some (Inr _) \<Rightarrow> e \<in> set (applied (checkpoint_key i) (st_base (home ?s' i)))"
    if i: "i < ?n" and e: "e \<in> set (sh_tickets (pr_shards p ! i))" for i e
  proof -
    let ?sh = "pr_shards p' ! i" and ?d = "i mod length stores"
    have ij: "i < length js" using i len b(2) by simp
    then obtain J where l: "live D (checkpoint_key i) (home ?s1 i) (js ! i) ?sh (acked_of ?s1 i) J"
      using b(5) by blast
    have pd: "pending ?sh = []" using dn [OF i] by (simp add: pending_def)
    have "ticket_ok D (checkpoint_key i) (home ?s1 i) J (js ! i) ?sh e"
      using liveD(9) [OF l] e dn [OF i] by auto
    then have t: "fst e \<le> cp (checkpoint_key i) (current (home ?s1 i))"
        "e \<in> set (applied (checkpoint_key i) (current (home ?s1 i))) \<or> sh_failures ?sh (fst e) \<noteq> None"
      by (auto simp: ticket_ok_def pd)
    have "cp (checkpoint_key i) (current (home ?s1 i)) = sh_durable ?sh"
      using liveD(6) [OF l] dn [OF i] by (simp add: resolved_def)
    moreover have "st_base (home ?s' i) = current (home ?s1 i)"
      using b(1) by (simp add: home_def wal_checkpoint_def)
    ultimately show ?thesis using t by (auto simp: ticket_outcome_def split: option.splits)
  qed
  then show ?thesis
    by (intro exI [of _ p'] exI [of _ js] exI [of _ stores] exI [of _ ?s'] conjI q sd)
      (auto simp: list_all_iff journal_truncate_def jn_flush_def wal_checkpoint_def)
qed

section \<open>Where the journal loses records\<close>

lemma raw_lines_one: "newline \<notin> set l \<Longrightarrow> raw_lines [] (l @ [newline]) = [l @ [newline]]"
  using raw_lines_newline [of l "[]" "[]"] by simp

text \<open>
  An unterminated tail swallows the record that is appended behind it: when the journal was
  left with a torn line and is opened again in append mode, the next submission, though journaled
  and flushed, is not seen by a replay.
\<close>

theorem torn_tail_swallows_next_record:
  assumes "newline \<notin> set t" and "t \<noteq> []" and "to_json D seq req = Some line" and "newline \<notin> set line"
    and "utf8_valid (map of_char (t @ line @ [newline]))"
    and "from_json D (strip_line (t @ line @ [newline])) = None"
  shows "snd (replay D env i norm
      (Inr (Some (jn_content (jn_flush (journal_append D seq req \<lparr>jn_content = t, jn_synced = n, jn_buffer = []\<rparr>)))))
      stores) = stores"
proof -
  let ?j = "\<lparr>jn_content = t, jn_synced = n, jn_buffer = []\<rparr>"
  have "jn_content (jn_flush (journal_append D seq req ?j)) = t @ line @ [newline]"
    using assms(3) by (simp add: journal_append_def jn_flush_def jn_write_text)
  moreover have "raw_lines [] (t @ line @ [newline]) = [t @ line @ [newline]]"
    using raw_lines_one [of "t @ line"] assms(1,4) by simp
  moreover have "scan_line D c (strip_line (t @ line @ [newline])) sc = sc" for c sc
    using assms(6) by (simp add: scan_line_def)
  ultimately show ?thesis using assms(5)
    by (simp add: replay_def read_line_def Let_def)
qed

text \<open>A journal with a line that is not UTF-8 is never replayed.\<close>

lemma scan_lines_invalid:
  "raw \<in> set raws \<Longrightarrow> \<not> utf8_valid (map of_char raw) \<Longrightarrow>
   scan_lines D c raws sc = Inl (MemIo ''stream did not contain valid UTF-8'')"
  by (induction raws arbitrary: sc) (auto simp: read_line_def)

theorem cut_character_stops_replay:
  assumes "raw \<in> set (raw_lines [] text)" and "\<not> utf8_valid (map of_char raw)"
  shows "replay D env i norm (Inr (Some text)) stores =
    (Inl (MemIo ''stream did not contain valid UTF-8''), stores)"
proof -
  have "scan_lines D c (raw_lines [] text) sc = Inl (MemIo ''stream did not contain valid UTF-8'')" for c sc
    by (rule scan_lines_invalid [OF assms])
  then show ?thesis by (simp add: replay_def Let_def)
qed

text \<open>A short record stays in the process: the file does not change when its ticket is returned.\<close>

theorem short_record_only_buffered:
  assumes "to_json D seq req = Some line" and "length line + length (jn_buffer j) < BUF_CAPACITY"
  shows "jn_content (journal_append D seq req j) = jn_content j"
proof -
  have "\<not> BUF_CAPACITY - length (jn_buffer j) < length line"
    and "\<not> BUF_CAPACITY - length (jn_buffer j @ line) < length [newline]"
    and "\<not> BUF_CAPACITY \<le> length line" and "\<not> BUF_CAPACITY \<le> length [newline]"
    using assms(2) by (simp_all add: BUF_CAPACITY_def)
  then show ?thesis using assms(1) by (simp add: journal_append_def jn_write_def Let_def)
qed

section \<open>Where a request is written twice\<close>

text \<open>An error that comes after the commit of a drain makes the retry write its requests again.\<close>

lemma store_batch_succeeds:
  assumes "validate_request req = Inr ()" and "\<And>n g. \<exists>g'. put_group D n req g = Inr g'"
    and "\<And>g. \<exists>g'. put_audit D [req] g = Inr g'" and "\<forall>e. f \<noteq> Before_Commit e"
  shows "\<exists>st'. store_batch D f [(seq, req)] [req] \<lparr>bo_normalize = n, bo_checkpoint = Some (k, v)\<rparr> st =
      (case f of After_Commit e \<Rightarrow> Inl e | _ \<Rightarrow> Inr (), st') \<and>
    applied k (current st') = applied k (current st) @ [(seq, req)]"
proof -
  obtain g1 where g1: "put_group D n req (graph (current st)) = Inr g1" using assms(2) by blast
  obtain g2 where g2: "put_audit D [req] g1 = Inr g2" using assms(3) by blast
  show ?thesis using assms(1,4)
    by (cases f) (auto simp: store_batch_def remember_batch_def g1 g2 Let_def applied_def carries_def)
qed

theorem late_error_writes_twice:
  assumes "validate_request req = Inr ()" and "\<And>n g. \<exists>g'. put_group D n req g = Inr g'"
    and "\<And>g. \<exists>g'. put_audit D [req] g = Inr g'"
    and "sh_drain sh = Drain_Synced [(seq, req)]" and "env 0 = After_Commit e" and "env1 0 = No_Fault"
    and "drain_commit D opts env i (sh, [st]) = Some (sh1, stores1)"
    and "drain_retry D opts env1 env2 i (sh1, stores1) = Some (sh2, stores2)"
  shows "sh_drain sh2 = Drain_Retrying [] seq \<and>
    applied (checkpoint_key i) (current (hd stores2)) =
      applied (checkpoint_key i) (current st) @ [(seq, req), (seq, req)]"
proof -
  let ?o = "\<lparr>bo_normalize = eo_normalize opts, bo_checkpoint = Some (checkpoint_key i, seq)\<rparr>"
  obtain st1 where st1: "store_batch D (env 0) [(seq, req)] [req] ?o st = (Inl e, st1)"
      "applied (checkpoint_key i) (current st1) = applied (checkpoint_key i) (current st) @ [(seq, req)]"
    using store_batch_succeeds [OF assms(1-3), of "env 0" seq "eo_normalize opts" "checkpoint_key i" seq st] assms(5)
    by auto
  obtain st2 where st2: "store_batch D (env1 0) [(seq, req)] [req] ?o st1 = (Inr (), st2)"
      "applied (checkpoint_key i) (current st2) = applied (checkpoint_key i) (current st1) @ [(seq, req)]"
    using store_batch_succeeds [OF assms(1-3), of "env1 0" seq "eo_normalize opts" "checkpoint_key i" seq st1] assms(6)
    by auto
  have "sh1 = sh\<lparr>sh_drain := Drain_Retrying [(seq, req)] 0\<rparr>" "stores1 = [st1]"
    using assms(7) st1(1) by (simp_all add: drain_commit_def assms(4) batch_in_domain_def group_drained_def)
  then show ?thesis
    using assms(8) st1(2) st2 by (auto simp: drain_retry_def batch_in_domain_def)
qed

end
