(* ===== verification/Om_BusExamples.thy ===== *)
theory Om_BusExamples
  imports Om_BusTheorems
begin

text \<open>
  The bus on concrete inputs: a write that is acknowledged, lost with the database to a power
  failure and replayed; the witnesses of the bus properties; and runs that show where the journal
  does not keep what the code's comments promise.
\<close>

section \<open>A small engine\<close>

definition ex_observation :: observation_input where
  "ex_observation = \<lparr>oi_content = ''x'', oi_confidence = 0, oi_source = [], oi_valid_from = None,
     oi_valid_until = None, oi_memory_tier = Episodic, oi_title = None, oi_summary = None,
     oi_importance = None, oi_source_kind = None, oi_concepts = [], oi_source_files = []\<rparr>"

definition ex_request :: remember_request where
  "ex_request = \<lparr>rq_name = ''a'', rq_entity_type = Person, rq_observations = [ex_observation],
     rq_relations = [], rq_source = []\<rparr>"

text \<open>A JSON for this one request: the number in unary between braces.\<close>

definition ex_bus :: "remember_request list bus_deps" where
  "ex_bus = \<lparr>put_group = (\<lambda>norm r g. Inr (g @ [r])), put_audit = (\<lambda>rs g. Inr g),
     to_json = (\<lambda>seq r. if r = ex_request then Some (''{'' @ replicate seq (CHR ''1'') @ ''}'') else None),
     from_json = (\<lambda>l. if length l \<ge> 2 \<and> l = ''{'' @ replicate (length l - 2) (CHR ''1'') @ ''}''
       then Some (length l - 2, ex_request) else None),
     lower = (\<lambda>s. s), hash_bytes = length\<rparr>"

definition ex_options :: engine_options where
  "ex_options = \<lparr>eo_shards = 1, eo_flush_interval = 1, eo_shard_capacity = 4, eo_flush_threads = 1,
     eo_normalize = True, eo_journaling = True, eo_checkpoint_interval = 1\<rparr>"

definition ex_db :: "txn list \<Rightarrow> remember_request list db" where
  "ex_db ts = \<lparr>graph = concat (map tx_requests ts),
     meta = (if ts = [] then (\<lambda>_. None) else (\<lambda>_. None)(checkpoint_key 0 \<mapsto> 1)), committed = ts\<rparr>"

definition ex_txn :: txn where
  "ex_txn = \<lparr>tx_requests = [ex_request], tx_options = \<lparr>bo_normalize = True, bo_checkpoint = Some (checkpoint_key 0, 1)\<rparr>,
     tx_entries = [(1, ex_request)]\<rparr>"

definition ex_shard :: "entry list \<Rightarrow> nat \<Rightarrow> nat \<Rightarrow> drain_pc \<Rightarrow> entry list \<Rightarrow> shard" where
  "ex_shard buf next dur pc tickets = \<lparr>sh_buf = buf, sh_next_seq = next, sh_durable = dur,
     sh_failures = (\<lambda>_. None), sh_drain = pc, sh_tickets = tickets\<rparr>"

definition ex_process :: "shard \<Rightarrow> process" where
  "ex_process sh = \<lparr>pr_shards = [sh], pr_paused = 0, pr_maint = Maint_Idle\<rparr>"

definition ex_state :: "remember_request list db \<Rightarrow> remember_request list db list \<Rightarrow> journal \<Rightarrow>
    shard option \<Rightarrow> (nat \<times> entry) set \<Rightarrow> remember_request list bus" where
  "ex_state base wal j sh A = \<lparr>bus_stores = [\<lparr>st_base = base, st_wal = wal\<rparr>], bus_journals = [j],
     bus_process = map_option ex_process sh, bus_acked = A\<rparr>"

definition ex_line :: str where "ex_line = ''{1}'' @ [newline]"

lemmas ex_defs = ex_process_def ex_options_def ex_state_def ex_shard_def normalize_options_def
  effective_flush_threads_def Let_def

lemma ex_valid: "validate_request ex_request = Inr ()" "validate_all [ex_request] = Inr ()"
  by (simp_all add: validate_request_def validate_group_def ex_request_def ex_observation_def is_blank_def
      split_whitespace_def ws_head_def)

lemma ex_group: "group_drained ex_bus [(1, ex_request)] = [ex_request]"
  by (simp add: group_drained_def)

lemma ex_batch:
  "batch_in_domain ex_bus (\<lambda>_. No_Fault) 0 [(1, ex_request)] [ex_request]
     \<lparr>bo_normalize = True, bo_checkpoint = Some (checkpoint_key 0, 1)\<rparr> [\<lparr>st_base = ex_db [], st_wal = []\<rparr>] =
   (Inr (), [\<lparr>st_base = ex_db [], st_wal = [ex_db [ex_txn]]\<rparr>])"
  by (simp add: batch_in_domain_def store_batch_def remember_batch_def ex_valid current_def ex_db_def ex_txn_def
      ex_bus_def upsert_checkpoint_def)

lemma ex_chars: "char_of (10 :: nat) = CHR 0x0A" "char_of (13 :: nat) = CHR 0x0D"
  by code_simp+

lemma ex_journalable: "journalable ex_bus 1 ex_request"
  by (simp add: journalable_def ex_bus_def newline_def is_blank_def split_whitespace_def ws_head_def
      numeral_2_eq_2 less_Suc_eq ex_chars)

lemma ex_raw: "raw_lines [] ex_line = [ex_line]" "read_line ex_line = Inr ''{1}''"
  by (simp_all add: ex_line_def newline_def read_line_def strip_line_def ex_chars Let_def)

lemma ex_replay:
  "replay ex_bus (\<lambda>_. No_Fault) 0 True (Inr (Some ex_line)) [\<lparr>st_base = ex_db [], st_wal = []\<rparr>] =
   (Inr (1, 1), [\<lparr>st_base = ex_db [], st_wal = [ex_db [ex_txn]]\<rparr>])"
proof -
  have c: "get_checkpoint (checkpoint_key 0) (current \<lparr>st_base = ex_db [], st_wal = []\<rparr>) = None"
    by (simp add: get_checkpoint_def current_def ex_db_def)
  have l: "scan_line ex_bus 0 ''{1}'' sc = scan_entry 0 (1, ex_request) sc" for sc
    by (simp add: scan_line_def scan_entry_def ex_bus_def is_blank_def split_whitespace_def ws_head_def)
  show ?thesis by (simp add: replay_def c ex_raw l scan_entry_def ex_batch [simplified] Let_def)
qed

lemma ex_replay_empty:
  "replay ex_bus (\<lambda>_. No_Fault) 0 True (Inr (Some [])) [\<lparr>st_base = ex_db [], st_wal = []\<rparr>] =
   (Inr (0, 0), [\<lparr>st_base = ex_db [], st_wal = []\<rparr>])"
  by (simp add: replay_def get_checkpoint_def current_def ex_db_def Let_def)

section \<open>A run through a power loss\<close>

definition ex_empty :: journal where "ex_empty = \<lparr>jn_content = [], jn_synced = 0, jn_buffer = []\<rparr>"

definition ex_e :: entry where "ex_e = (1, ex_request)"

lemma ex_run1: "bus_reach prompt terminated ex_bus ex_options (ex_state (ex_db []) [] ex_empty None {})"
  using bus_reach.init [of "[[]]" prompt terminated ex_bus ex_options]
  by (simp add: bus_init_def ex_state_def ex_db_def ex_empty_def ex_options_def normalize_options_def Let_def)

lemma ex_run2: "bus_reach prompt terminated ex_bus ex_options
    (ex_state (ex_db []) [] ex_empty (Some (ex_shard [] 0 0 Drain_Idle [])) {})"
proof (rule bus_reach.step [OF ex_run1])
  let ?s = "ex_state (ex_db []) [] ex_empty None {}"
  let ?p = "ex_process (ex_shard [] 0 0 Drain_Idle [])"
  have "start_partitioned ex_bus ex_options (\<lambda>_ _. No_Fault) [Inr True] (bus_journals ?s) (bus_stores ?s) =
      (Inr ?p, [ex_empty], [\<lparr>st_base = ex_db [], st_wal = []\<rparr>])"
    by (simp add: start_partitioned_def ex_defs ex_empty_def ex_replay_empty maintenance_pass_def
        shard_new_def wal_checkpoint_def current_def journal_truncate_def jn_flush_def)
  from bus_step.start [OF _ this] show "bus_step prompt terminated ex_bus ex_options ?s
      (ex_state (ex_db []) [] ex_empty (Some (ex_shard [] 0 0 Drain_Idle [])) {})"
    by (simp add: ex_state_def ex_empty_def terminated_def prompt_def)
qed

definition ex_written :: journal where "ex_written = \<lparr>jn_content = [], jn_synced = 0, jn_buffer = ex_line\<rparr>"

lemma ex_run3: "bus_reach prompt terminated ex_bus ex_options
    (ex_state (ex_db []) [] ex_written (Some (ex_shard [ex_e] 1 0 Drain_Idle [ex_e])) {})"
proof (rule bus_reach.step [OF ex_run2])
  let ?s = "ex_state (ex_db []) [] ex_empty (Some (ex_shard [] 0 0 Drain_Idle [])) {}"
  let ?p = "ex_process (ex_shard [] 0 0 Drain_Idle [])"
  let ?q = "ex_process (ex_shard [ex_e] 1 0 Drain_Idle [ex_e])"
  have "try_submit ex_bus (normalize_options ex_options) ex_request (?p, bus_journals ?s) =
      (Ticket 0 1, ?q, [ex_written])"
    by (simp add: try_submit_def ex_valid ex_defs shard_for_def admit_def journal_append_def jn_write_def
        ex_bus_def hash_lowercase_key_def BUF_CAPACITY_def ex_written_def ex_empty_def ex_line_def ex_e_def)
  from bus_step.submit [OF _ this ex_journalable] show "bus_step prompt terminated ex_bus ex_options ?s
      (ex_state (ex_db []) [] ex_written (Some (ex_shard [ex_e] 1 0 Drain_Idle [ex_e])) {})"
    by (simp add: ex_state_def)
qed

definition ex_flushed :: "nat \<Rightarrow> journal" where
  "ex_flushed n = \<lparr>jn_content = ex_line, jn_synced = n, jn_buffer = []\<rparr>"

lemma ex_run4: "bus_reach prompt terminated ex_bus ex_options
    (ex_state (ex_db []) [] (ex_flushed 0) (Some (ex_shard [] 1 0 (Drain_Taken [ex_e]) [ex_e])) {})"
  by (rule bus_reach.step [OF ex_run3], rule bus_step.take [where p = "ex_process (ex_shard [ex_e] 1 0 Drain_Idle [ex_e])" and i = 0 and sh = "ex_shard [] 1 0 (Drain_Taken [ex_e]) [ex_e]"
      and j = "ex_flushed 0", THEN back_subst [where P = "bus_step _ _ _ _ _"]])
    (simp_all add: ex_state_def ex_process_def ex_shard_def ex_options_def drain_take_def jn_flush_def ex_flushed_def ex_written_def set_shard_def)

lemma ex_run5: "bus_reach prompt terminated ex_bus ex_options
    (ex_state (ex_db []) [] (ex_flushed 4) (Some (ex_shard [] 1 0 (Drain_Synced [ex_e]) [ex_e])) {})"
  by (rule bus_reach.step [OF ex_run4], rule bus_step.sync [where p = "ex_process (ex_shard [] 1 0 (Drain_Taken [ex_e]) [ex_e])" and i = 0 and sh = "ex_shard [] 1 0 (Drain_Synced [ex_e]) [ex_e]"
      and j = "ex_flushed 4", THEN back_subst [where P = "bus_step _ _ _ _ _"]])
    (simp_all add: ex_state_def ex_process_def ex_shard_def ex_options_def drain_sync_def jn_sync_def ex_flushed_def ex_line_def set_shard_def)

lemma ex_run6: "bus_reach prompt terminated ex_bus ex_options
    (ex_state (ex_db []) [ex_db [ex_txn]] (ex_flushed 4) (Some (ex_shard [] 1 0 (Drain_Publish 1) [ex_e])) {})"
  by (rule bus_reach.step [OF ex_run5], rule bus_step.commit [where p = "ex_process (ex_shard [] 1 0 (Drain_Synced [ex_e]) [ex_e])" and i = 0 and sh = "ex_shard [] 1 0 (Drain_Publish 1) [ex_e]"
      and env = "\<lambda>_. No_Fault" and stores = "[\<lparr>st_base = ex_db [], st_wal = [ex_db [ex_txn]]\<rparr>]",
      THEN back_subst [where P = "bus_step _ _ _ _ _"]])
    (simp_all add: ex_state_def ex_process_def ex_shard_def ex_options_def drain_commit_def normalize_options_def Let_def ex_e_def
      ex_group [simplified] ex_batch [simplified] set_shard_def prompt_def)

lemma ex_run7: "bus_reach prompt terminated ex_bus ex_options
    (ex_state (ex_db []) [ex_db [ex_txn]] (ex_flushed 4) (Some (ex_shard [] 1 1 Drain_Idle [ex_e])) {})"
  by (rule bus_reach.step [OF ex_run6], rule bus_step.publish [where p = "ex_process (ex_shard [] 1 0 (Drain_Publish 1) [ex_e])" and i = 0 and sh = "ex_shard [] 1 1 Drain_Idle [ex_e]",
      THEN back_subst [where P = "bus_step _ _ _ _ _"]])
    (simp_all add: ex_state_def ex_process_def ex_shard_def drain_publish_def set_shard_def)

lemma ex_run8: "bus_reach prompt terminated ex_bus ex_options
    (ex_state (ex_db []) [ex_db [ex_txn]] (ex_flushed 4) (Some (ex_shard [] 1 1 Drain_Idle [ex_e])) {(0, ex_e)})"
  by (rule bus_reach.step [OF ex_run7], rule bus_step.acknowledge [where p = "ex_process (ex_shard [] 1 1 Drain_Idle [ex_e])" and i = 0 and e = ex_e,
      THEN back_subst [where P = "bus_step _ _ _ _ _"]])
    (simp_all add: ex_state_def ex_process_def ex_shard_def ticket_outcome_def ex_e_def)

text \<open>The power fails; the write-ahead log is gone, the synced journal is not.\<close>

lemma ex_run9: "bus_reach prompt terminated ex_bus ex_options (ex_state (ex_db []) [] (ex_flushed 4) None {(0, ex_e)})"
  by (rule bus_reach.step [OF ex_run8], rule bus_step.power_loss [where pick = "\<lambda>_. ex_db []" and kept = "\<lambda>_. 0",
      THEN back_subst [where P = "bus_step _ _ _ _ _"]])
    (simp_all add: ex_state_def ex_process_def survivors_def power_loss_def cut_file_def ex_flushed_def ex_line_def)

definition ex_final :: "remember_request list bus" where
  "ex_final = ex_state (ex_db []) [ex_db [ex_txn]] (ex_flushed 4) (Some (ex_shard [] 1 1 Drain_Idle [])) {(0, ex_e)}"

lemma ex_run10: "bus_reach prompt terminated ex_bus ex_options ex_final"
proof (rule bus_reach.step [OF ex_run9])
  let ?s = "ex_state (ex_db []) [] (ex_flushed 4) None {(0, ex_e)}"
  let ?p = "ex_process (ex_shard [] 1 1 Drain_Idle [])"
  have "start_partitioned ex_bus ex_options (\<lambda>_ _. No_Fault) [Inr False] (bus_journals ?s) (bus_stores ?s) =
      (Inr ?p, [ex_flushed 4], [\<lparr>st_base = ex_db [], st_wal = [ex_db [ex_txn]]\<rparr>])"
    by (simp add: start_partitioned_def ex_state_def ex_process_def ex_shard_def ex_options_def normalize_options_def Let_def
        effective_flush_threads_def ex_flushed_def ex_replay maintenance_pass_def shard_new_def wal_checkpoint_def)
  from bus_step.start [OF _ this] show "bus_step prompt terminated ex_bus ex_options ?s ex_final"
    by (simp add: ex_final_def ex_state_def ex_flushed_def terminated_def ex_line_def prompt_def)
qed

section \<open>Witnesses\<close>

lemma acknowledged_writes_survive_witness:
  "ex_e \<in> set (applied (checkpoint_key 0) (current (home ex_final 0)))"
  by (rule acknowledged_writes_survive [OF ex_run10, where i = 0 and p = "ex_process (ex_shard [] 1 1 Drain_Idle [])"])
    (simp_all add: ex_options_def ex_final_def ex_state_def ex_process_def)

lemma no_write_applied_twice_witness:
  "sorted_wrt (<) (map fst (applied (checkpoint_key 0) (ex_db [ex_txn])))"
proof -
  have "ex_db [ex_txn] \<in> survivors (home ex_final 0)"
    by (simp add: ex_final_def ex_state_def home_def survivors_def)
  moreover have "0 < length (bus_journals ex_final)" "eo_journaling ex_options"
    by (simp_all add: ex_final_def ex_state_def ex_options_def)
  ultimately show ?thesis using no_write_applied_twice [OF ex_run10] by blast
qed

lemma drain_decides_everything_witness:
  "case drain_shard ex_bus (normalize_options ex_options) (\<lambda>_. Before_Commit (MemSqlite [])) (\<lambda>_. (\<lambda>_. No_Fault, \<lambda>_. No_Fault)) 0
     (ex_shard [ex_e] 1 0 Drain_Idle [ex_e], ex_written, [\<lparr>st_base = ex_db [], st_wal = []\<rparr>]) of
   (sh, j, stores) \<Rightarrow> sh_buf sh = [] \<and> sh_durable sh = sh_next_seq sh"
proof -
  obtain sh j stores where d: "drain_shard ex_bus (normalize_options ex_options) (\<lambda>_. Before_Commit (MemSqlite []))
      (\<lambda>_. (\<lambda>_. No_Fault, \<lambda>_. No_Fault)) 0
      (ex_shard [ex_e] 1 0 Drain_Idle [ex_e], ex_written, [\<lparr>st_base = ex_db [], st_wal = []\<rparr>]) = (sh, j, stores)"
    by (metis prod_cases3)
  show ?thesis
    using drain_decides_everything [OF ex_run3, of
        "ex_process (ex_shard [ex_e] 1 0 Drain_Idle [ex_e])" 0
        "\<lambda>_. (\<lambda>_. No_Fault, \<lambda>_. No_Fault)" "\<lambda>_. Before_Commit (MemSqlite [])" sh j stores] d
    by (simp add: ex_options_def ex_state_def ex_process_def ex_shard_def)
qed

lemma shutdown_is_complete_witness:
  "\<exists>s'. shutdown ex_bus (normalize_options ex_options)
      (\<lambda>_. (\<lambda>_. Before_Commit (MemSqlite []), \<lambda>_. (\<lambda>_. No_Fault, \<lambda>_. No_Fault))) [Inr True]
      (ex_state (ex_db []) [] ex_written (Some (ex_shard [ex_e] 1 0 Drain_Idle [ex_e])) {}) = Some s' \<and>
    list_all (\<lambda>j. jn_content j = [] \<and> jn_buffer j = []) (bus_journals s')"
proof -
  have "eo_journaling ex_options" by (simp add: ex_options_def)
  from shutdown_is_complete [OF ex_run3 this, of "ex_process (ex_shard [ex_e] 1 0 Drain_Idle [ex_e])"
      "\<lambda>_. (\<lambda>_. Before_Commit (MemSqlite []), \<lambda>_. (\<lambda>_. No_Fault, \<lambda>_. No_Fault))"]
  show ?thesis by (auto simp: ex_state_def ex_process_def ex_shard_def prompt_def)
qed

lemma torn_tail_swallows_next_record_witness:
  "snd (replay ex_bus (\<lambda>_. No_Fault) 0 True
      (Inr (Some (jn_content (jn_flush (journal_append ex_bus 1 ex_request
        \<lparr>jn_content = ''{1'', jn_synced = 2, jn_buffer = []\<rparr>))))) [\<lparr>st_base = ex_db [], st_wal = []\<rparr>]) =
   [\<lparr>st_base = ex_db [], st_wal = []\<rparr>]"
  by (rule torn_tail_swallows_next_record [where line = "''{1}''"])
    (simp_all add: ex_bus_def newline_def ex_chars strip_line_def Let_def)

section \<open>Turning the journal off and on\<close>

text \<open>A crash left one accepted write in the journal. An engine without a journal numbers its own
  first write 1, and its commit moves the shard's checkpoint to 1; the next engine with a journal
  then takes the write of the journal for applied.\<close>

definition ex_other :: remember_request where
  "ex_other = ex_request\<lparr>rq_name := ''b''\<rparr>"

definition ex_unjournaled :: engine_options where
  "ex_unjournaled = ex_options\<lparr>eo_journaling := False\<rparr>"

definition ex_other_db :: "remember_request list db" where
  "ex_other_db = \<lparr>graph = [ex_other], meta = (\<lambda>_. None)(checkpoint_key 0 \<mapsto> 1),
     committed = [\<lparr>tx_requests = [ex_other],
       tx_options = \<lparr>bo_normalize = True, bo_checkpoint = Some (checkpoint_key 0, 1)\<rparr>, tx_entries = [(1, ex_other)]\<rparr>]\<rparr>"

lemma ex_unjournaled_start:
  "start_partitioned ex_bus ex_unjournaled (\<lambda>_ _. No_Fault) [Inr False] [ex_flushed 4] [\<lparr>st_base = ex_db [], st_wal = []\<rparr>] =
   (Inr (ex_process (ex_shard [] 0 0 Drain_Idle [])), [ex_flushed 4], [\<lparr>st_base = ex_db [], st_wal = []\<rparr>])"
  by (simp add: start_partitioned_def ex_unjournaled_def ex_process_def ex_shard_def ex_options_def normalize_options_def
      effective_flush_threads_def maintenance_pass_def shard_new_def wal_checkpoint_def Let_def)

lemma ex_other_valid: "validate_request ex_other = Inr ()"
  by (simp add: ex_other_def validate_request_def validate_group_def ex_request_def ex_observation_def is_blank_def
      split_whitespace_def ws_head_def)

lemma ex_unjournaled_submit:
  "try_submit ex_bus (normalize_options ex_unjournaled) ex_other
     (ex_process (ex_shard [] 0 0 Drain_Idle []), [ex_flushed 4]) =
   (Ticket 0 1, ex_process (ex_shard [(1, ex_other)] 1 0 Drain_Idle [(1, ex_other)]), [ex_flushed 4])"
  by (simp add: try_submit_def ex_other_valid ex_unjournaled_def ex_process_def ex_shard_def ex_options_def
      normalize_options_def Let_def shard_for_def admit_def)

lemma ex_unjournaled_drain:
  "drain_shard ex_bus (normalize_options ex_unjournaled) (\<lambda>_. No_Fault) (\<lambda>_. (\<lambda>_. No_Fault, \<lambda>_. No_Fault)) 0
     (ex_shard [(1, ex_other)] 1 0 Drain_Idle [(1, ex_other)], ex_flushed 4, [\<lparr>st_base = ex_db [], st_wal = []\<rparr>]) =
   (ex_shard [] 1 1 Drain_Idle [(1, ex_other)], ex_flushed 4, [\<lparr>st_base = ex_db [], st_wal = [ex_other_db]\<rparr>])"
proof -
  have b: "batch_in_domain ex_bus (\<lambda>_. No_Fault) 0 [(Suc 0, ex_other)] [ex_other]
     \<lparr>bo_normalize = True, bo_checkpoint = Some (checkpoint_key 0, Suc 0)\<rparr> [\<lparr>st_base = ex_db [], st_wal = []\<rparr>] =
     (Inr (), [\<lparr>st_base = ex_db [], st_wal = [ex_other_db]\<rparr>])"
    by (simp add: batch_in_domain_def store_batch_def remember_batch_def ex_other_valid current_def ex_db_def
        ex_other_db_def ex_bus_def upsert_checkpoint_def)
  show ?thesis
    by (simp add: drain_shard_def drain_take_def drain_sync_def drain_commit_def drain_publish_def drain_retry_def
        ex_unjournaled_def ex_options_def normalize_options_def Let_def ex_shard_def group_drained_def b)
qed

theorem unjournaled_run_hides_journal:
  "(\<exists>e. from_json ex_bus (strip_line (jn_content (ex_flushed 4))) = Some e \<and>
      replay ex_bus (\<lambda>_. No_Fault) 0 True (Inr (Some (jn_content (ex_flushed 4))))
        [\<lparr>st_base = ex_db [], st_wal = [ex_other_db]\<rparr>] = (Inr (1, 0), [\<lparr>st_base = ex_db [], st_wal = [ex_other_db]\<rparr>]) \<and>
      e \<notin> set (applied (checkpoint_key 0) ex_other_db))"
proof -
  have "scan_line ex_bus 1 ''{1}'' sc = scan_entry 1 (1, ex_request) sc" for sc
    by (simp add: scan_line_def scan_entry_def ex_bus_def is_blank_def split_whitespace_def ws_head_def)
  then have "replay ex_bus (\<lambda>_. No_Fault) 0 True (Inr (Some (jn_content (ex_flushed 4))))
      [\<lparr>st_base = ex_db [], st_wal = [ex_other_db]\<rparr>] = (Inr (1, 0), [\<lparr>st_base = ex_db [], st_wal = [ex_other_db]\<rparr>])"
    by (simp add: replay_def get_checkpoint_def current_def ex_flushed_def ex_raw ex_other_db_def scan_entry_def Let_def)
  moreover have "from_json ex_bus (strip_line (jn_content (ex_flushed 4))) = Some (1, ex_request)"
    by (simp add: ex_flushed_def ex_line_def strip_line_def newline_def ex_chars ex_bus_def Let_def)
  moreover have "(1, ex_request) \<notin> set (applied (checkpoint_key 0) ex_other_db)"
    by (simp add: applied_def ex_other_db_def carries_def ex_other_def ex_request_def)
  ultimately show ?thesis by blast
qed

end
