(* ===== verification/Om_Registry.thy ===== *)
theory Om_Registry
  imports Om_Journal "HOL-Library.AList"
begin

text \<open>
  The registry of open spaces (\<open>openmemory-daemon/src/space_registry.rs\<close>): limits, leases, eviction of
  idle spaces, exclusive maintenance. What the catalog, the file system, the stores and the locks
  answer is the environment of an operation. Hash maps are association lists in some iteration
  order; a root path, manifest, file-system report and store handle of a runtime are not kept, since
  no operation of the registry depends on them.
\<close>

section \<open>Limits and errors\<close>

record registry_limits =
  max_open_spaces :: nat
  max_open_domains :: nat
  max_graph_connections :: nat
  max_index_handles :: nat
  max_context_engines :: nat
  max_flusher_threads :: nat

definition registry_limits_default :: registry_limits where
  "registry_limits_default = \<lparr>max_open_spaces = 8, max_open_domains = 64, max_graph_connections = 192,
     max_index_handles = 64, max_context_engines = 2, max_flusher_threads = 4\<rparr>"

datatype registry_error = RegInvalidLimits | RegProduct str | RegManifest str | RegStore memory_error
  | RegInactive | RegClosing | RegCapacity | RegLeased | RegBusy | RegUnsafeLock | RegLockIo str

definition limits_validate :: "registry_limits \<Rightarrow> registry_error + registry_limits" where
  "limits_validate l =
     (if max_open_spaces l = 0 \<or> max_open_spaces l > 64 \<or> max_open_domains l = 0 \<or> max_open_domains l > 512 \<or>
         max_graph_connections l = 0 \<or> max_graph_connections l > 1024 \<or> max_index_handles l = 0 \<or>
         max_index_handles l > 512 \<or> max_context_engines l > 8 \<or> max_flusher_threads l > 16
      then Inl RegInvalidLimits else Inr l)"

section \<open>Locks\<close>

datatype try_lock = Locked | WouldBlock | LockFailed str

text \<open>Whether the path is a symbolic link, the error of opening it, the answer of the lock.\<close>

record lock_env =
  le_symlink :: bool
  le_open :: "str option"
  le_try :: try_lock

definition space_lock_acquire :: "lock_env \<Rightarrow> registry_error + unit" where
  "space_lock_acquire e =
     (if le_symlink e then Inl RegUnsafeLock
      else case le_open e of Some err \<Rightarrow> Inl (RegLockIo err)
      | None \<Rightarrow> (case le_try e of Locked \<Rightarrow> Inr () | WouldBlock \<Rightarrow> Inl RegBusy | LockFailed err \<Rightarrow> Inl (RegLockIo err)))"

section \<open>Runtimes and the registry state\<close>

datatype catalog_state = CatalogCreating | CatalogActive | CatalogClosed | CatalogDeleting | CatalogError
datatype root_key = LegacyRoot | SpaceRoot uuid

record catalog_space =
  cs_space :: space_ref
  cs_profile :: str
  cs_root_key :: root_key
  cs_domain_count :: u8
  cs_manifest_hash :: str
  cs_state :: catalog_state
  cs_generation :: u64

record space_runtime =
  rt_catalog :: catalog_space
  rt_graph_connections :: nat
  rt_index_handles :: nat

record registry_inner =
  ri_runtimes :: "(uuid \<times> space_runtime) list"
  ri_leases :: "(uuid \<times> nat) list"
  ri_last_used :: "(uuid \<times> nat) list"
  ri_open_domains :: nat
  ri_graph_connections :: nat
  ri_index_handles :: nat
  ri_context_engines :: nat
  ri_flusher_threads :: nat
  ri_tick :: nat
  ri_closing :: "uuid set"

text \<open>What an open registry never changes; \<open>rg_jobs\<close> is \<open>config.num_jobs()\<close>.\<close>

record registry =
  rg_limits :: registry_limits
  rg_legacy :: uuid
  rg_jobs :: nat

definition registry_inner_new :: registry_inner where
  "registry_inner_new = \<lparr>ri_runtimes = [], ri_leases = [], ri_last_used = [], ri_open_domains = 0,
     ri_graph_connections = 0, ri_index_handles = 0, ri_context_engines = 0, ri_flusher_threads = 0,
     ri_tick = 0, ri_closing = {}\<rparr>"

definition registry_new :: "nat \<Rightarrow> registry_limits \<Rightarrow> uuid \<Rightarrow> registry_error + registry \<times> registry_inner" where
  "registry_new jobs l legacy =
     bind_result (limits_validate l) (\<lambda>l.
       Inr (\<lparr>rg_limits = l, rg_legacy = legacy, rg_jobs = jobs\<rparr>, registry_inner_new))"

definition rt_domains :: "space_runtime \<Rightarrow> nat" where
  "rt_domains rt = unat (cs_domain_count (rt_catalog rt))"

definition lease_count :: "registry_inner \<Rightarrow> uuid \<Rightarrow> nat" where
  "lease_count st sid = (case map_of (ri_leases st) sid of None \<Rightarrow> 0 | Some n \<Rightarrow> n)"

text \<open>\<open>release_resources\<close> subtracts with saturation, as natural numbers do.\<close>

definition release_resources :: "space_runtime \<Rightarrow> registry_inner \<Rightarrow> registry_inner" where
  "release_resources rt st = st\<lparr>
     ri_open_domains := ri_open_domains st - rt_domains rt,
     ri_graph_connections := ri_graph_connections st - rt_graph_connections rt,
     ri_index_handles := ri_index_handles st - rt_index_handles rt\<rparr>"

definition increment_lease :: "uuid \<Rightarrow> registry_inner \<Rightarrow> registry_inner" where
  "increment_lease sid st =
     (let tick = saturating_add (ri_tick st) 1 in
      st\<lparr>ri_leases := AList.update sid (lease_count st sid + 1) (ri_leases st),
            ri_tick := tick,
            ri_last_used := AList.update sid tick (ri_last_used st)\<rparr>)"

text \<open>The drop of a \<open>RuntimeLease\<close>.\<close>

definition drop_lease :: "uuid \<Rightarrow> registry_inner \<Rightarrow> registry_inner" where
  "drop_lease sid st =
     (let leases = (case map_of (ri_leases st) sid of None \<Rightarrow> ri_leases st
                    | Some n \<Rightarrow> AList.update sid (n - 1) (ri_leases st));
          tick = saturating_add (ri_tick st) 1
      in st\<lparr>ri_leases := leases, ri_tick := tick,
               ri_last_used := AList.update sid tick (ri_last_used st)\<rparr>)"

text \<open>\<open>flush_runtime\<close>: per domain the error of persisting its index, if any, and the report of its
  log checkpoint.\<close>

type_synonym flush_report = "(memory_error option \<times> (memory_error + bool)) list"

fun flush_runtime :: "flush_report \<Rightarrow> registry_error + unit" where
  "flush_runtime [] = Inr ()"
| "flush_runtime ((Some e, c) # ds) = Inl (RegStore e)"
| "flush_runtime ((None, Inl e) # ds) = Inl (RegStore e)"
| "flush_runtime ((None, Inr complete) # ds) =
     (if complete then flush_runtime ds
      else Inl (RegStore (MemInvalidInput ''space WAL could not be fully checkpointed'')))"

section \<open>Making room\<close>

record resource_request =
  rq_domains :: nat
  rq_graph_connections :: nat
  rq_index_handles :: nat
  rq_context_engines :: nat
  rq_flusher_threads :: nat

definition exceeds_limits :: "registry_limits \<Rightarrow> resource_request \<Rightarrow> bool" where
  "exceeds_limits l q \<longleftrightarrow> rq_domains q > max_open_domains l \<or> rq_graph_connections q > max_graph_connections l \<or>
     rq_index_handles q > max_index_handles l \<or> rq_context_engines q > max_context_engines l \<or>
     rq_flusher_threads q > max_flusher_threads l"

definition over_budget :: "registry_limits \<Rightarrow> resource_request \<Rightarrow> registry_inner \<Rightarrow> bool" where
  "over_budget l q st \<longleftrightarrow> length (ri_runtimes st) \<ge> max_open_spaces l \<or>
     ri_open_domains st + rq_domains q > max_open_domains l \<or>
     ri_graph_connections st + rq_graph_connections q > max_graph_connections l \<or>
     ri_index_handles st + rq_index_handles q > max_index_handles l \<or>
     ri_context_engines st + rq_context_engines q > max_context_engines l \<or>
     ri_flusher_threads st + rq_flusher_threads q > max_flusher_threads l"

definition evictable :: "registry \<Rightarrow> registry_inner \<Rightarrow> uuid \<Rightarrow> bool" where
  "evictable rg st sid \<longleftrightarrow> sid \<noteq> rg_legacy rg \<and> lease_count st sid = 0"

text \<open>\<open>Iterator::min_by_key\<close>: the first of the smallest.\<close>

fun min_by_tick :: "(uuid \<times> nat) list \<Rightarrow> (uuid \<times> nat) option" where
  "min_by_tick [] = None"
| "min_by_tick (x # xs) =
     (case min_by_tick xs of None \<Rightarrow> Some x | Some y \<Rightarrow> if snd y < snd x then Some y else Some x)"

definition evict_candidate :: "registry \<Rightarrow> registry_inner \<Rightarrow> uuid option" where
  "evict_candidate rg st =
     map_option fst (min_by_tick (filter (\<lambda>(sid, _). evictable rg st sid) (ri_last_used st)))"

definition evict :: "uuid \<Rightarrow> registry_inner \<Rightarrow> registry_inner" where
  "evict sid st =
     (let st1 = (case map_of (ri_runtimes st) sid of None \<Rightarrow> st
                    | Some rt \<Rightarrow> release_resources rt (st\<lparr>ri_runtimes := AList.delete sid (ri_runtimes st)\<rparr>))
      in st1\<lparr>ri_last_used := AList.delete sid (ri_last_used st1),
                ri_leases := AList.delete sid (ri_leases st1)\<rparr>)"

lemma min_by_tick_mem: "min_by_tick xs = Some x \<Longrightarrow> x \<in> set xs"
  by (induction xs arbitrary: x) (auto split: option.splits if_splits)

lemma evict_candidate_mem: "evict_candidate rg st = Some sid \<Longrightarrow> sid \<in> fst ` set (ri_last_used st)"
  by (force simp: evict_candidate_def dest!: min_by_tick_mem)

lemma evict_last_used [simp]: "ri_last_used (evict sid st) = AList.delete sid (ri_last_used st)"
  by (simp add: evict_def release_resources_def Let_def split: option.split)

lemma delete_shrinks: "sid \<in> fst ` set xs \<Longrightarrow> length (AList.delete sid xs) < length xs"
proof -
  assume "sid \<in> fst ` set xs"
  then obtain x where "x \<in> set xs" "fst x = sid" by auto
  then show ?thesis unfolding AList.delete_eq by (intro length_filter_less [of x]) auto
qed

text \<open>The loop of \<open>reserve_capacity\<close>.\<close>

function reserve_loop :: "registry \<Rightarrow> (uuid \<Rightarrow> flush_report) \<Rightarrow> resource_request \<Rightarrow> registry_inner \<Rightarrow>
    (registry_error + unit) \<times> registry_inner" where
  "reserve_loop rg flush q st =
     (if \<not> over_budget (rg_limits rg) q st then (Inr (), st)
      else case evict_candidate rg st of
        None \<Rightarrow> (Inl RegCapacity, st)
      | Some sid \<Rightarrow>
          (case (case map_of (ri_runtimes st) sid of None \<Rightarrow> Inr () | Some _ \<Rightarrow> flush_runtime (flush sid)) of
             Inl e \<Rightarrow> (Inl e, st)
           | Inr _ \<Rightarrow> reserve_loop rg flush q (evict sid st)))"
  by pat_completeness auto

termination
  by (relation "measure (\<lambda>(_, _, _, st). length (ri_last_used st))")
    (auto dest!: evict_candidate_mem intro: delete_shrinks)

declare reserve_loop.simps [simp del]

definition reserve_capacity :: "registry \<Rightarrow> (uuid \<Rightarrow> flush_report) \<Rightarrow> resource_request \<Rightarrow> registry_inner \<Rightarrow>
    (registry_error + unit) \<times> registry_inner" where
  "reserve_capacity rg flush q st =
     (if exceeds_limits (rg_limits rg) q then (Inl RegCapacity, st) else reserve_loop rg flush q st)"

section \<open>Leases\<close>

text \<open>\<open>oe_catalog\<close> is the answer of the catalog, then come, in the order of the code, the errors of
  the root, the manifest and the file system, the lock, the opened store (its space and its number
  of domains) and the error of its status.\<close>

record open_env =
  oe_catalog :: "registry_error + catalog_space option"
  oe_flush :: "uuid \<Rightarrow> flush_report"
  oe_root :: "registry_error option"
  oe_manifest :: "registry_error option"
  oe_filesystem :: "registry_error option"
  oe_lock :: lock_env
  oe_store :: "registry_error + uuid option \<times> nat"
  oe_status :: "registry_error option"

definition failing :: "'e option \<Rightarrow> 'e + unit" where
  "failing e = (case e of None \<Rightarrow> Inr () | Some e \<Rightarrow> Inl e)"

definition open_runtime :: "open_env \<Rightarrow> uuid \<Rightarrow> nat \<Rightarrow> registry_error + unit" where
  "open_runtime env sid domains =
     bind_result (failing (oe_root env)) (\<lambda>_.
     bind_result (failing (oe_manifest env)) (\<lambda>_.
     bind_result (failing (oe_filesystem env)) (\<lambda>_.
     bind_result (space_lock_acquire (oe_lock env)) (\<lambda>_.
     bind_result (oe_store env) (\<lambda>(space, n).
       if space \<noteq> Some sid \<or> n \<noteq> domains
       then Inl (RegStore (MemInvalidInput ''opened store does not match its catalog identity''))
       else failing (oe_status env))))))"

definition checked_mul :: "nat \<Rightarrow> nat \<Rightarrow> nat option" where
  "checked_mul a b = (if a * b < 2 ^ 64 then Some (a * b) else None)"

definition add_runtime :: "uuid \<Rightarrow> space_runtime \<Rightarrow> registry_inner \<Rightarrow> registry_inner" where
  "add_runtime sid rt st = st\<lparr>
     ri_open_domains := ri_open_domains st + rt_domains rt,
     ri_graph_connections := ri_graph_connections st + rt_graph_connections rt,
     ri_index_handles := ri_index_handles st + rt_index_handles rt,
     ri_runtimes := AList.update sid rt (ri_runtimes st)\<rparr>"

definition acquire :: "registry \<Rightarrow> open_env \<Rightarrow> uuid \<Rightarrow> registry_inner \<Rightarrow>
    (registry_error + space_runtime) \<times> registry_inner" where
  "acquire rg env sid st =
     (if sid \<in> ri_closing st then (Inl RegClosing, st)
      else case map_of (ri_runtimes st) sid of
        Some rt \<Rightarrow> (Inr rt, increment_lease sid st)
      | None \<Rightarrow>
       (case oe_catalog env of
          Inl e \<Rightarrow> (Inl e, st)
        | Inr None \<Rightarrow> (Inl RegInactive, st)
        | Inr (Some catalog) \<Rightarrow>
            if cs_state catalog \<noteq> CatalogActive then (Inl RegInactive, st)
            else let domains = unat (cs_domain_count catalog) in
             (case checked_mul domains (saturating_add (rg_jobs rg) 1) of
                None \<Rightarrow> (Inl RegCapacity, st)
              | Some connections \<Rightarrow>
                 (case reserve_capacity rg (oe_flush env)
                     \<lparr>rq_domains = domains, rq_graph_connections = connections, rq_index_handles = domains,
                      rq_context_engines = 0, rq_flusher_threads = 0\<rparr> st of
                    (Inl e, st1) \<Rightarrow> (Inl e, st1)
                  | (Inr _, st1) \<Rightarrow>
                     (case open_runtime env sid domains of
                        Inl e \<Rightarrow> (Inl e, st1)
                      | Inr _ \<Rightarrow>
                         let rt = \<lparr>rt_catalog = catalog, rt_graph_connections = connections,
                                   rt_index_handles = domains\<rparr>
                         in (Inr rt, increment_lease sid (add_runtime sid rt st1)))))))"

section \<open>Exclusive maintenance\<close>

text \<open>\<open>close_for_maintenance\<close> takes the registry lock twice: to close the space, and after an error
  of the root or the lock to open it again. In between other callers run.\<close>

definition close_begin :: "registry_error + catalog_space option \<Rightarrow> (uuid \<Rightarrow> flush_report) \<Rightarrow> uuid \<Rightarrow>
    registry_inner \<Rightarrow> (registry_error + unit) \<times> registry_inner" where
  "close_begin catalog flush sid st =
     (case catalog of
        Inl e \<Rightarrow> (Inl e, st)
      | Inr None \<Rightarrow> (Inl RegInactive, st)
      | Inr (Some c) \<Rightarrow>
          if cs_state c \<noteq> CatalogActive then (Inl RegInactive, st)
          else if sid \<in> ri_closing st then (Inl RegClosing, st)
          else if lease_count st sid \<noteq> 0 then (Inl RegLeased, st)
          else case map_of (ri_runtimes st) sid of
            None \<Rightarrow> (Inr (), st\<lparr>ri_closing := insert sid (ri_closing st)\<rparr>)
          | Some rt \<Rightarrow>
             (case flush_runtime (flush sid) of
                Inl e \<Rightarrow> (Inl e, st)
              | Inr _ \<Rightarrow>
                 let st1 = release_resources rt (st\<lparr>ri_closing := insert sid (ri_closing st),
                       ri_runtimes := AList.delete sid (ri_runtimes st)\<rparr>)
                 in (Inr (), st1\<lparr>ri_last_used := AList.delete sid (ri_last_used st1)\<rparr>)))"

definition finish_closing :: "uuid \<Rightarrow> registry_inner \<Rightarrow> registry_inner" where
  "finish_closing sid st = st\<lparr>ri_closing := ri_closing st - {sid}\<rparr>"

definition close_end :: "registry_error option \<Rightarrow> lock_env \<Rightarrow> uuid \<Rightarrow> registry_inner \<Rightarrow>
    (registry_error + unit) \<times> registry_inner" where
  "close_end root lock sid st =
     (case root of
        Some e \<Rightarrow> (Inl e, finish_closing sid st)
      | None \<Rightarrow>
         (case space_lock_acquire lock of
            Inl e \<Rightarrow> (Inl e, finish_closing sid st)
          | Inr _ \<Rightarrow> (Inr (), st)))"

text \<open>The drop of an \<open>ExclusiveSpaceLease\<close>.\<close>

definition drop_exclusive :: "uuid \<Rightarrow> registry_inner \<Rightarrow> registry_inner" where
  "drop_exclusive sid st = st\<lparr>ri_closing := ri_closing st - {sid}\<rparr>"

end
