(* ===== verification/Om_RegistryProps.thy ===== *)
theory Om_RegistryProps
  imports Om_Registry
begin

text \<open>
  The properties of the space registry: its operations as steps of the callers, lease holders and
  maintainers, the invariant of the reachable states, and eviction as a reference definition.
\<close>

section \<open>Association lists\<close>

definition total :: "('a \<Rightarrow> nat) \<Rightarrow> ('k \<times> 'a) list \<Rightarrow> nat" where
  "total f xs = sum_list (map (\<lambda>(_, v). f v) xs)"

lemma total_simps [simp]: "total f [] = 0" "total f (x # xs) = f (snd x) + total f xs"
  by (auto simp: total_def split: prod.split)

lemma delete_absent [simp]: "k \<notin> fst ` set xs \<Longrightarrow> AList.delete k xs = xs"
  by (force simp: AList.delete_eq filter_id_conv)

lemma keys_update [simp]: "fst ` set (AList.update k v xs) = insert k (fst ` set xs)"
  by (induction xs) auto

lemma keys_delete [simp]: "fst ` set (AList.delete k xs) = fst ` set xs - {k}"
  by (force simp: AList.delete_eq)

lemma distinct_keys [simp]:
  "distinct (map fst xs) \<Longrightarrow> distinct (map fst (AList.update k v xs))"
  "distinct (map fst xs) \<Longrightarrow> distinct (map fst (AList.delete k xs))"
  by (simp_all add: distinct_update distinct_delete)

lemma map_of_update [simp]: "map_of (AList.update k v xs) = (map_of xs)(k \<mapsto> v)"
  by (rule update_conv')

lemma map_of_delete [simp]: "map_of (AList.delete k xs) = (map_of xs)(k := None)"
  by (rule delete_conv')

lemma total_update_new: "map_of xs k = None \<Longrightarrow> total f (AList.update k v xs) = total f xs + f v"
  by (induction xs) (auto split: if_splits)

lemma length_update_new: "map_of xs k = None \<Longrightarrow> length (AList.update k v xs) = Suc (length xs)"
  by (induction xs) (auto split: if_splits)

lemma delete_one:
  assumes "distinct (map fst xs)" and "map_of xs k = Some v"
  shows "total f xs = f v + total f (AList.delete k xs)" and "length xs = Suc (length (AList.delete k xs))"
  using assms by (induction xs) (auto split: if_splits)

lemma map_of_keys: "k \<in> fst ` set xs \<longleftrightarrow> map_of xs k \<noteq> None"
  by (simp add: map_of_eq_None_iff)

section \<open>What a registry state satisfies\<close>

definition keyed :: "registry_inner \<Rightarrow> bool" where
  "keyed st \<longleftrightarrow> distinct (map fst (ri_runtimes st)) \<and> distinct (map fst (ri_last_used st)) \<and>
     distinct (map fst (ri_leases st)) \<and> fst ` set (ri_last_used st) = fst ` set (ri_runtimes st)"

definition resources_exact :: "registry_inner \<Rightarrow> bool" where
  "resources_exact st \<longleftrightarrow> ri_open_domains st = total rt_domains (ri_runtimes st) \<and>
     ri_graph_connections st = total rt_graph_connections (ri_runtimes st) \<and>
     ri_index_handles st = total rt_index_handles (ri_runtimes st) \<and>
     ri_context_engines st = 0 \<and> ri_flusher_threads st = 0"

definition within_limits :: "registry_limits \<Rightarrow> registry_inner \<Rightarrow> bool" where
  "within_limits l st \<longleftrightarrow> length (ri_runtimes st) \<le> max_open_spaces l \<and>
     ri_open_domains st \<le> max_open_domains l \<and> ri_graph_connections st \<le> max_graph_connections l \<and>
     ri_index_handles st \<le> max_index_handles l \<and> ri_context_engines st \<le> max_context_engines l \<and>
     ri_flusher_threads st \<le> max_flusher_threads l"

definition registry_ok :: "registry \<Rightarrow> registry_inner \<Rightarrow> bool" where
  "registry_ok rg st \<longleftrightarrow> keyed st \<and> resources_exact st \<and> within_limits (rg_limits rg) st"

named_theorems registry_defs \<open>definitions of the registry's operations on its state\<close>

lemmas [registry_defs] = registry_ok_def keyed_def resources_exact_def within_limits_def
  release_resources_def increment_lease_def drop_lease_def add_runtime_def finish_closing_def
  drop_exclusive_def Let_def

lemma evict_resident:
  assumes "map_of (ri_runtimes st) sid = Some rt"
  shows "evict sid st = (release_resources rt st)\<lparr>ri_runtimes := AList.delete sid (ri_runtimes st),
    ri_last_used := AList.delete sid (ri_last_used st), ri_leases := AList.delete sid (ri_leases st)\<rparr>"
  using assms by (simp add: evict_def release_resources_def Let_def)

lemma keyed_resident: "keyed st \<Longrightarrow> sid \<in> fst ` set (ri_last_used st) \<Longrightarrow> \<exists>rt. map_of (ri_runtimes st) sid = Some rt"
  by (auto simp: keyed_def map_of_keys)

lemma evict_ok:
  assumes ok: "registry_ok rg st" and mem: "sid \<in> fst ` set (ri_last_used st)"
  shows "registry_ok rg (evict sid st)"
proof -
  obtain rt where rt: "map_of (ri_runtimes st) sid = Some rt"
    using ok mem keyed_resident by (auto simp: registry_ok_def)
  have d: "distinct (map fst (ri_runtimes st))" using ok by (simp add: registry_defs)
  show ?thesis
    using ok delete_one(1) [OF d rt, of rt_domains] delete_one(1) [OF d rt, of rt_graph_connections]
      delete_one(1) [OF d rt, of rt_index_handles] delete_one(2) [OF d rt]
    by (simp add: evict_resident [OF rt] registry_defs)
qed

section \<open>Eviction\<close>

text \<open>The spaces that may be evicted, least recently used first.\<close>

definition lru_order :: "registry \<Rightarrow> registry_inner \<Rightarrow> uuid list" where
  "lru_order rg st = map fst (sort_key snd (filter (\<lambda>(sid, _). evictable rg st sid) (ri_last_used st)))"

lemma min_by_tick_None [simp]: "min_by_tick xs = None \<longleftrightarrow> xs = []"
  by (cases xs) (auto split: option.split)

lemma min_by_tick_sorted:
  "min_by_tick xs = Some x \<Longrightarrow> distinct (map fst xs) \<Longrightarrow>
   sort_key snd xs = x # sort_key snd (AList.delete (fst x) xs)"
proof (induction xs arbitrary: x)
  case (Cons a xs)
  have a: "fst a \<notin> fst ` set xs" and d: "distinct (map fst xs)" using Cons.prems(2) by auto
  show ?case
  proof (cases "min_by_tick xs")
    case None
    then show ?thesis using Cons.prems by simp
  next
    case (Some y)
    note s = Cons.IH [OF Some d]
    have "fst y \<in> fst ` set xs" using min_by_tick_mem [OF Some] by simp
    then have "fst y \<noteq> fst a" using a by metis
    then have del: "AList.delete (fst y) (a # xs) = a # AList.delete (fst y) xs"
      by (cases a) simp
    show ?thesis
    proof (cases "snd y < snd a")
      case True
      then show ?thesis using Cons.prems(1) Some s del by simp
    next
      case False
      have "AList.delete (fst a) (a # xs) = xs" using a by (cases a) simp
      then show ?thesis using Cons.prems(1) Some s False by simp
    qed
  qed
qed simp

lemma evictable_evict [simp]: "sid \<noteq> c \<Longrightarrow> evictable rg (evict c st) sid = evictable rg st sid"
  by (simp add: evictable_def lease_count_def evict_def release_resources_def Let_def split: option.split)

lemma lru_order_evict:
  assumes "keyed st" and c: "evict_candidate rg st = Some c"
  shows "lru_order rg st = c # lru_order rg (evict c st)"
proof -
  let ?P = "\<lambda>(sid, _). evictable rg st sid" and ?Q = "\<lambda>(sid, _). evictable rg (evict c st) sid"
  let ?u = "ri_last_used st"
  obtain t where t: "min_by_tick (filter ?P ?u) = Some (c, t)"
    using c by (auto simp: evict_candidate_def)
  have "distinct (map fst (filter ?P ?u))" using assms(1) by (simp add: keyed_def distinct_map_filter)
  from min_by_tick_sorted [OF t this]
  have "sort_key snd (filter ?P ?u) = (c, t) # sort_key snd (AList.delete c (filter ?P ?u))" by simp
  moreover have "AList.delete c (filter ?P ?u) = filter ?Q (AList.delete c ?u)"
    by (auto simp: AList.delete_eq intro!: filter_cong)
  ultimately show ?thesis by (simp add: lru_order_def)
qed

lemma lru_order_empty: "evict_candidate rg st = None \<Longrightarrow> lru_order rg st = []"
  by (simp add: evict_candidate_def lru_order_def)

lemma evict_keyed: "keyed st \<Longrightarrow> keyed (evict sid st)"
proof (cases "map_of (ri_runtimes st) sid")
  case None
  then have "sid \<notin> fst ` set (ri_runtimes st)" by (simp add: map_of_keys)
  then show "keyed st \<Longrightarrow> ?thesis" using None by (simp add: evict_def keyed_def)
next
  case (Some rt)
  then show "keyed st \<Longrightarrow> ?thesis" by (simp add: evict_resident keyed_def release_resources_def)
qed

text \<open>What \<open>reserve_capacity\<close> does is to evict the shortest prefix of that order that makes room,
  unless a flush fails.\<close>

definition makes_room :: "registry \<Rightarrow> (uuid \<Rightarrow> flush_report) \<Rightarrow> resource_request \<Rightarrow> registry_inner \<Rightarrow>
    nat \<Rightarrow> (registry_error + unit) \<Rightarrow> registry_inner \<Rightarrow> bool" where
  "makes_room rg flush q st n r st' \<longleftrightarrow>
     (let order = lru_order rg st; after = (\<lambda>m. fold evict (take m order) st) in
      n \<le> length order \<and> st' = after n \<and>
      list_all (\<lambda>m. over_budget (rg_limits rg) q (after m) \<and> flush_runtime (flush (order ! m)) = Inr ()) [0..<n] \<and>
      (case r of Inr _ \<Rightarrow> \<not> over_budget (rg_limits rg) q st'
       | Inl e \<Rightarrow> over_budget (rg_limits rg) q st' \<and>
           (if n = length order then e = RegCapacity else flush_runtime (flush (order ! n)) = Inl e)))"

lemma upt0_Suc: "[0..<Suc n] = 0 # map Suc [0..<n]"
  by (simp add: upt_conv_Cons map_Suc_upt del: upt_Suc)

lemma reserve_loop_makes_room:
  "keyed st \<Longrightarrow> reserve_loop rg flush q st = (r, st') \<Longrightarrow> \<exists>n. makes_room rg flush q st n r st'"
proof (induction rg flush q st rule: reserve_loop.induct)
  case (1 rg flush q st)
  let ?over = "over_budget (rg_limits rg) q"
  show ?case
  proof (cases "?over st")
    case False
    then have "r = Inr ()" "st' = st" using "1.prems"(2) by (simp_all add: reserve_loop.simps [of rg flush q st])
    then show ?thesis using False by (intro exI [of _ 0]) (simp add: makes_room_def)
  next
    case over: True
    show ?thesis
    proof (cases "evict_candidate rg st")
      case None
      then have "r = Inl RegCapacity" "st' = st"
        using "1.prems"(2) over by (simp_all add: reserve_loop.simps [of rg flush q st])
      then show ?thesis using over lru_order_empty [OF None] by (intro exI [of _ 0]) (simp add: makes_room_def)
    next
      case (Some c)
      obtain rt where rt: "map_of (ri_runtimes st) c = Some rt"
        using keyed_resident [OF "1.prems"(1) evict_candidate_mem [OF Some]] by blast
      note order = lru_order_evict [OF "1.prems"(1) Some]
      show ?thesis
      proof (cases "flush_runtime (flush c)")
        case (Inl e)
        then have "r = Inl e" "st' = st"
          using "1.prems"(2) over Some rt by (simp_all add: reserve_loop.simps [of rg flush q st])
        then show ?thesis using over order Inl by (intro exI [of _ 0]) (simp add: makes_room_def)
      next
        case (Inr u)
        have next_loop: "reserve_loop rg flush q (evict c st) = (r, st')"
          using "1.prems"(2) over Some rt Inr by (simp add: reserve_loop.simps [of rg flush q st])
        obtain n where n: "makes_room rg flush q (evict c st) n r st'"
          using "1.IH" [OF _ Some _ evict_keyed [OF "1.prems"(1)] next_loop] over rt Inr by auto
        have "list_all (\<lambda>m. ?over (fold evict (take m (lru_order rg st)) st) \<and>
            flush_runtime (flush (lru_order rg st ! m)) = Inr ()) [0..<Suc n]"
          using n over Inr unfolding makes_room_def order Let_def upt0_Suc by (simp add: list.pred_map comp_def)
        then show ?thesis using n unfolding makes_room_def order Let_def
          by (intro exI [of _ "Suc n"]) (auto split: sum.splits)
      qed
    qed
  qed
qed

lemma reserve_loop_ok:
  "registry_ok rg st \<Longrightarrow> reserve_loop rg flush q st = (r, st') \<Longrightarrow>
   registry_ok rg st' \<and> ri_closing st' = ri_closing st \<and> ri_tick st' = ri_tick st \<and>
   (r = Inr () \<longrightarrow> \<not> over_budget (rg_limits rg) q st') \<and>
   (\<forall>sid. (lease_count st sid \<noteq> 0 \<or> sid = rg_legacy rg \<longrightarrow>
       map_of (ri_runtimes st') sid = map_of (ri_runtimes st) sid) \<and>
     lease_count st' sid = lease_count st sid \<and>
     (map_of (ri_runtimes st) sid = None \<longrightarrow> map_of (ri_runtimes st') sid = None))"
proof (induction rg flush q st rule: reserve_loop.induct)
  case (1 rg flush q st)
  show ?case
  proof (cases "over_budget (rg_limits rg) q st")
    case False
    then show ?thesis using "1.prems" by (auto simp: reserve_loop.simps [of rg flush q st])
  next
    case over: True
    show ?thesis
    proof (cases "evict_candidate rg st")
      case None
      then show ?thesis using "1.prems" over by (auto simp: reserve_loop.simps [of rg flush q st])
    next
      case (Some c)
      have mem: "c \<in> fst ` set (ri_last_used st)" by (rule evict_candidate_mem [OF Some])
      have ev: "evictable rg st c"
        using Some by (auto simp: evict_candidate_def dest!: min_by_tick_mem)
      obtain rt where rt: "map_of (ri_runtimes st) c = Some rt"
        using keyed_resident [OF _ mem] "1.prems"(1) by (auto simp: registry_ok_def)
      show ?thesis
      proof (cases "flush_runtime (flush c)")
        case (Inl e)
        then show ?thesis using "1.prems" over Some rt by (auto simp: reserve_loop.simps [of rg flush q st])
      next
        case (Inr u)
        have "reserve_loop rg flush q (evict c st) = (r, st')"
          using "1.prems"(2) over Some rt Inr by (simp add: reserve_loop.simps [of rg flush q st])
        note ih = "1.IH" [OF _ Some _ evict_ok [OF "1.prems"(1) mem] this]
        have e: "ri_closing (evict c st) = ri_closing st" "ri_tick (evict c st) = ri_tick st"
          "map_of (ri_runtimes (evict c st)) = (map_of (ri_runtimes st))(c := None)"
          "lease_count (evict c st) = lease_count st"
          using ev by (auto simp: evict_resident [OF rt] release_resources_def lease_count_def evictable_def fun_eq_iff)
        show ?thesis using ih over rt Inr ev unfolding e by (auto simp: evictable_def)
      qed
    qed
  qed
qed


section \<open>Runs\<close>

text \<open>The registry together with the guards its callers hold: runtime leases, callers that are between
  the two halves of \<open>close_for_maintenance\<close>, exclusive leases.\<close>

record registry_state =
  rs_inner :: registry_inner
  rs_leases :: "(uuid \<times> space_runtime) list"
  rs_closers :: "uuid list"
  rs_exclusive :: "uuid list"

inductive registry_step :: "registry \<Rightarrow> registry_state \<Rightarrow> registry_state \<Rightarrow> bool" for rg where
  acquire: "acquire rg env sid (rs_inner s) = (Inr rt, st) \<Longrightarrow>
    registry_step rg s (s\<lparr>rs_inner := st, rs_leases := (sid, rt) # rs_leases s\<rparr>)"
| acquire_failed: "acquire rg env sid (rs_inner s) = (Inl e, st) \<Longrightarrow> registry_step rg s (s\<lparr>rs_inner := st\<rparr>)"
| release: "rs_leases s = xs @ (sid, rt) # ys \<Longrightarrow>
    registry_step rg s (s\<lparr>rs_inner := drop_lease sid (rs_inner s), rs_leases := xs @ ys\<rparr>)"
| close_begin: "close_begin catalog flush sid (rs_inner s) = (Inr u, st) \<Longrightarrow>
    registry_step rg s (s\<lparr>rs_inner := st, rs_closers := sid # rs_closers s\<rparr>)"
| close_refused: "close_begin catalog flush sid (rs_inner s) = (Inl e, st) \<Longrightarrow>
    registry_step rg s (s\<lparr>rs_inner := st\<rparr>)"
| close_end: "rs_closers s = xs @ sid # ys \<Longrightarrow> close_end root lock sid (rs_inner s) = (Inr u, st) \<Longrightarrow>
    registry_step rg s (s\<lparr>rs_inner := st, rs_closers := xs @ ys, rs_exclusive := sid # rs_exclusive s\<rparr>)"
| close_failed: "rs_closers s = xs @ sid # ys \<Longrightarrow> close_end root lock sid (rs_inner s) = (Inl e, st) \<Longrightarrow>
    registry_step rg s (s\<lparr>rs_inner := st, rs_closers := xs @ ys\<rparr>)"
| drop_exclusive: "rs_exclusive s = xs @ sid # ys \<Longrightarrow>
    registry_step rg s (s\<lparr>rs_inner := drop_exclusive sid (rs_inner s), rs_exclusive := xs @ ys\<rparr>)"

inductive registry_reach :: "registry \<Rightarrow> registry_state \<Rightarrow> bool" for rg where
  init: "registry_new jobs limits legacy = Inr (rg, st) \<Longrightarrow>
    registry_reach rg \<lparr>rs_inner = st, rs_leases = [], rs_closers = [], rs_exclusive = []\<rparr>"
| step: "registry_reach rg s \<Longrightarrow> registry_step rg s s' \<Longrightarrow> registry_reach rg s'"

definition held_ok :: "registry_state \<Rightarrow> bool" where
  "held_ok s \<longleftrightarrow>
     (\<forall>sid. count_list (map fst (rs_leases s)) sid = lease_count (rs_inner s) sid) \<and>
     (\<forall>l\<in>set (rs_leases s). map_of (ri_runtimes (rs_inner s)) (fst l) = Some (snd l)) \<and>
     ri_closing (rs_inner s) = set (rs_closers s @ rs_exclusive s) \<and> distinct (rs_closers s @ rs_exclusive s) \<and>
     (\<forall>sid\<in>ri_closing (rs_inner s). map_of (ri_runtimes (rs_inner s)) sid = None)"

definition registry_inv :: "registry \<Rightarrow> registry_state \<Rightarrow> bool" where
  "registry_inv rg s \<longleftrightarrow> limits_validate (rg_limits rg) = Inr (rg_limits rg) \<and> registry_ok rg (rs_inner s) \<and> held_ok s"

lemma add_runtime_ok:
  assumes "registry_ok rg st" and "map_of (ri_runtimes st) sid = None"
    and "\<not> over_budget (rg_limits rg) \<lparr>rq_domains = rt_domains rt, rq_graph_connections = rt_graph_connections rt,
      rq_index_handles = rt_index_handles rt, rq_context_engines = 0, rq_flusher_threads = 0\<rparr> st"
  shows "registry_ok rg (increment_lease sid (add_runtime sid rt st))"
  using assms
  by (simp add: registry_defs over_budget_def total_update_new length_update_new not_le)

lemma increment_lease_ok:
  "registry_ok rg st \<Longrightarrow> map_of (ri_runtimes st) sid = Some rt \<Longrightarrow> registry_ok rg (increment_lease sid st)"
  using map_of_keys [of sid "ri_runtimes st"] by (auto simp: registry_defs)

lemma lease_count_increment [simp]:
  "lease_count (increment_lease sid st) k = lease_count st k + (if k = sid then 1 else 0)"
  "lease_count (add_runtime sid rt st) k = lease_count st k"
  by (simp_all add: lease_count_def increment_lease_def add_runtime_def Let_def)

lemma increment_lease_keeps [simp]:
  "ri_runtimes (increment_lease sid st) = ri_runtimes st" "ri_closing (increment_lease sid st) = ri_closing st"
  "ri_closing (add_runtime sid rt st) = ri_closing st"
  "ri_runtimes (add_runtime sid rt st) = AList.update sid rt (ri_runtimes st)"
  by (simp_all add: increment_lease_def add_runtime_def Let_def)

text \<open>What an acquisition does: with or without success it may evict idle spaces; a success leases
  the runtime that is resident under that identity afterwards.\<close>

lemma acquire_effect:
  assumes ok: "registry_ok rg st" and ls: "\<forall>k. lease_count st k \<noteq> 0 \<longrightarrow> map_of (ri_runtimes st) k \<noteq> None"
    and a: "acquire rg env sid st = (r, st')"
  shows "registry_ok rg st'" and "ri_closing st' = ri_closing st"
    and "lease_count st k \<noteq> 0 \<Longrightarrow> map_of (ri_runtimes st') k = map_of (ri_runtimes st) k"
    and "lease_count st' k = lease_count st k + (case r of Inl _ \<Rightarrow> 0 | Inr _ \<Rightarrow> if k = sid then 1 else 0)"
    and "map_of (ri_runtimes st) k = None \<Longrightarrow> (k = sid \<longrightarrow> k \<in> ri_closing st) \<Longrightarrow> map_of (ri_runtimes st') k = None"
    and "r = Inr rt \<Longrightarrow> sid \<notin> ri_closing st \<and> map_of (ri_runtimes st') sid = Some rt"
proof -
  have "registry_ok rg st' \<and> ri_closing st' = ri_closing st \<and>
    (\<forall>k. (lease_count st k \<noteq> 0 \<longrightarrow> map_of (ri_runtimes st') k = map_of (ri_runtimes st) k) \<and>
      lease_count st' k = lease_count st k + (case r of Inl _ \<Rightarrow> 0 | Inr _ \<Rightarrow> if k = sid then 1 else 0) \<and>
      (map_of (ri_runtimes st) k = None \<longrightarrow> (k = sid \<longrightarrow> k \<in> ri_closing st) \<longrightarrow> map_of (ri_runtimes st') k = None)) \<and>
    (\<forall>rt. r = Inr rt \<longrightarrow> sid \<notin> ri_closing st \<and> map_of (ri_runtimes st') sid = Some rt)" (is "?goal r st'")
  proof (cases "sid \<in> ri_closing st")
    case True
    then show ?thesis using ok a by (auto simp: acquire_def)
  next
    case open_space: False
    show ?thesis
    proof (cases "map_of (ri_runtimes st) sid")
      case (Some rt)
      then have "r = Inr rt" "st' = increment_lease sid st" using a open_space by (simp_all add: acquire_def)
      then show ?thesis using increment_lease_ok [OF ok Some] Some open_space by auto
    next
      case absent: None
      show ?thesis
      proof (cases "st' = st \<and> (\<exists>e. r = Inl e)")
        case True
        then show ?thesis using ok open_space by auto
      next
        case False
        then obtain catalog c r1 st1 where q: "reserve_loop rg (oe_flush env)
            \<lparr>rq_domains = unat (cs_domain_count catalog), rq_graph_connections = c,
             rq_index_handles = unat (cs_domain_count catalog), rq_context_engines = 0, rq_flusher_threads = 0\<rparr> st = (r1, st1)"
          and out: "(\<exists>e. r = Inl e) \<and> st' = st1 \<or> r1 = Inr () \<and>
             (\<exists>rt. r = Inr rt \<and> rt = \<lparr>rt_catalog = catalog, rt_graph_connections = c,
                rt_index_handles = unat (cs_domain_count catalog)\<rparr> \<and>
              st' = increment_lease sid (add_runtime sid rt st1))"
          using a open_space absent
          by (auto simp: acquire_def reserve_capacity_def Let_def
              split: sum.splits option.splits if_splits prod.splits)
        note res = reserve_loop_ok [OF ok q]
        show ?thesis
        proof (cases r)
          case (Inl e)
          then show ?thesis using out res by auto
        next
          case (Inr rt)
          then have rt: "rt = \<lparr>rt_catalog = catalog, rt_graph_connections = c,
                rt_index_handles = unat (cs_domain_count catalog)\<rparr>"
            and st': "st' = increment_lease sid (add_runtime sid rt st1)" and "r1 = Inr ()" using out by auto
          have none: "map_of (ri_runtimes st1) sid = None" using res absent by blast
          have "registry_ok rg st'" unfolding st'
            by (rule add_runtime_ok) (use res none \<open>r1 = Inr ()\<close> in \<open>simp_all add: rt rt_domains_def\<close>)
          moreover have "lease_count st sid = 0" using ls absent by blast
          ultimately show ?thesis using res Inr open_space by (auto simp: st' fun_upd_def)
        qed
      qed
    qed
  qed
  then show "registry_ok rg st'" "ri_closing st' = ri_closing st"
    "lease_count st k \<noteq> 0 \<Longrightarrow> map_of (ri_runtimes st') k = map_of (ri_runtimes st) k"
    "lease_count st' k = lease_count st k + (case r of Inl _ \<Rightarrow> 0 | Inr _ \<Rightarrow> if k = sid then 1 else 0)"
    "map_of (ri_runtimes st) k = None \<Longrightarrow> (k = sid \<longrightarrow> k \<in> ri_closing st) \<Longrightarrow> map_of (ri_runtimes st') k = None"
    "r = Inr rt \<Longrightarrow> sid \<notin> ri_closing st \<and> map_of (ri_runtimes st') sid = Some rt"
    by blast+
qed

lemma lease_count_drop [simp]:
  "lease_count (drop_lease sid st) k = lease_count st k - (if k = sid then 1 else 0)"
  by (simp add: lease_count_def drop_lease_def Let_def split: option.split)

lemma drop_lease_keeps [simp]:
  "ri_runtimes (drop_lease sid st) = ri_runtimes st" "ri_closing (drop_lease sid st) = ri_closing st"
  by (simp_all add: drop_lease_def Let_def)

lemma drop_lease_ok:
  "registry_ok rg st \<Longrightarrow> map_of (ri_runtimes st) sid = Some rt \<Longrightarrow> registry_ok rg (drop_lease sid st)"
  using map_of_keys [of sid "ri_runtimes st"] by (auto simp: registry_defs split: option.split)

text \<open>The first half of a closing removes an idle space.\<close>

lemma close_begin_effect:
  assumes ok: "registry_ok rg st" and c: "close_begin catalog flush sid st = (r, st')"
  shows "registry_ok rg st'" and "lease_count st' k = lease_count st k"
    and "r = Inl e \<Longrightarrow> st' = st"
    and "r = Inr u \<Longrightarrow> sid \<notin> ri_closing st \<and> lease_count st sid = 0 \<and> ri_closing st' = insert sid (ri_closing st) \<and>
      map_of (ri_runtimes st') = (map_of (ri_runtimes st))(sid := None)"
proof -
  have "registry_ok rg st' \<and> (\<forall>k. lease_count st' k = lease_count st k) \<and> (\<forall>e. r = Inl e \<longrightarrow> st' = st) \<and>
    (\<forall>u. r = Inr u \<longrightarrow> sid \<notin> ri_closing st \<and> lease_count st sid = 0 \<and> ri_closing st' = insert sid (ri_closing st) \<and>
      map_of (ri_runtimes st') = (map_of (ri_runtimes st))(sid := None))"
  proof (cases "map_of (ri_runtimes st) sid")
    case None
    then have "(map_of (ri_runtimes st))(sid := None) = map_of (ri_runtimes st)" by auto
    moreover have "registry_ok rg (st\<lparr>ri_closing := insert sid (ri_closing st)\<rparr>)"
      using ok by (simp add: registry_defs)
    ultimately show ?thesis using c ok None
      by (auto simp: close_begin_def lease_count_def split: sum.splits option.splits if_splits)
  next
    case (Some rt)
    let ?st = "release_resources rt (st\<lparr>ri_closing := insert sid (ri_closing st),
      ri_runtimes := AList.delete sid (ri_runtimes st)\<rparr>)"
    have d: "distinct (map fst (ri_runtimes st))" using ok by (simp add: registry_defs)
    have "registry_ok rg (?st\<lparr>ri_last_used := AList.delete sid (ri_last_used ?st)\<rparr>)"
      using ok delete_one(1) [OF d Some, of rt_domains] delete_one(1) [OF d Some, of rt_graph_connections]
        delete_one(1) [OF d Some, of rt_index_handles] delete_one(2) [OF d Some]
      by (simp add: registry_defs)
    then show ?thesis using c ok Some
      by (auto simp: close_begin_def Let_def lease_count_def release_resources_def
          split: sum.splits option.splits if_splits)
  qed
  then show "registry_ok rg st'" "lease_count st' k = lease_count st k" "r = Inl e \<Longrightarrow> st' = st"
    "r = Inr u \<Longrightarrow> sid \<notin> ri_closing st \<and> lease_count st sid = 0 \<and> ri_closing st' = insert sid (ri_closing st) \<and>
      map_of (ri_runtimes st') = (map_of (ri_runtimes st))(sid := None)"
    by blast+
qed

lemma reopen_ok:
  "registry_ok rg st \<Longrightarrow> registry_ok rg (st\<lparr>ri_closing := c\<rparr>)" "lease_count (st\<lparr>ri_closing := c\<rparr>) = lease_count st"
  by (auto simp: registry_defs lease_count_def fun_eq_iff)

lemma held_leased:
  assumes "held_ok s" shows "\<forall>k. lease_count (rs_inner s) k \<noteq> 0 \<longrightarrow> map_of (ri_runtimes (rs_inner s)) k \<noteq> None"
proof (intro allI impI)
  fix k assume "lease_count (rs_inner s) k \<noteq> 0"
  then have "count_list (map fst (rs_leases s)) k \<noteq> 0" using assms by (simp add: held_ok_def)
  then obtain l where "l \<in> set (rs_leases s)" "fst l = k"
    using count_list_0_iff [of "map fst (rs_leases s)" k] by auto
  then show "map_of (ri_runtimes (rs_inner s)) k \<noteq> None" using assms by (auto simp: held_ok_def)
qed

lemma held_count:
  "held_ok s \<Longrightarrow> l \<in> set (rs_leases s) \<Longrightarrow> lease_count (rs_inner s) (fst l) \<noteq> 0"
  using count_list_0_iff [of "map fst (rs_leases s)" "fst l"] by (auto simp: held_ok_def)

lemma held_acquire:
  assumes ok: "registry_ok rg (rs_inner s)" and h: "held_ok s" and a: "acquire rg env sid (rs_inner s) = (r, st)"
  shows "held_ok (s\<lparr>rs_inner := st, rs_leases := (case r of Inl _ \<Rightarrow> [] | Inr rt \<Rightarrow> [(sid, rt)]) @ rs_leases s\<rparr>)"
proof -
  note e = acquire_effect [OF ok held_leased [OF h] a]
  have "map_of (ri_runtimes st) (fst l) = Some (snd l)" if "l \<in> set (rs_leases s)" for l
    using e(3) [OF held_count [OF h that]] h that by (auto simp: held_ok_def)
  moreover have "map_of (ri_runtimes st) k = None" if "k \<in> ri_closing (rs_inner s)" for k
    using e(5) [of k] that h by (auto simp: held_ok_def)
  ultimately show ?thesis using h e(2,4,6)
    by (auto simp: held_ok_def count_list_append split: sum.splits)
qed

lemma registry_step_inv: "registry_step rg s s' \<Longrightarrow> registry_inv rg s \<Longrightarrow> registry_inv rg s'"
proof (induction rule: registry_step.induct)
  case (acquire env sid s rt st)
  then have ok: "registry_ok rg (rs_inner s)" and h: "held_ok s" by (simp_all add: registry_inv_def)
  show ?case using acquire(2) held_acquire [OF ok h acquire(1)] acquire_effect(1) [OF ok held_leased [OF h] acquire(1)]
    by (simp add: registry_inv_def)
next
  case (acquire_failed env sid s e st)
  then have ok: "registry_ok rg (rs_inner s)" and h: "held_ok s" by (simp_all add: registry_inv_def)
  show ?case using acquire_failed(2) held_acquire [OF ok h acquire_failed(1)]
      acquire_effect(1) [OF ok held_leased [OF h] acquire_failed(1)]
    by (simp add: registry_inv_def)
next
  case (release s xs sid rt ys)
  then have ok: "registry_ok rg (rs_inner s)" and h: "held_ok s" by (simp_all add: registry_inv_def)
  have "map_of (ri_runtimes (rs_inner s)) sid = Some rt" using h release(1) by (auto simp: held_ok_def)
  note drop_lease_ok [OF ok this]
  moreover have "count_list (map fst (xs @ ys)) k = lease_count (drop_lease sid (rs_inner s)) k" for k
  proof -
    have "count_list (map fst (xs @ (sid, rt) # ys)) k = lease_count (rs_inner s) k"
      using h unfolding held_ok_def release(1) by blast
    then show ?thesis by (auto simp: count_list_append split: if_splits)
  qed
  then have "held_ok (s\<lparr>rs_inner := drop_lease sid (rs_inner s), rs_leases := xs @ ys\<rparr>)"
    using h release(1) unfolding held_ok_def by simp
  ultimately show ?case using release(2) by (simp add: registry_inv_def)
next
  case (close_begin catalog flush sid s u st)
  then have ok: "registry_ok rg (rs_inner s)" and h: "held_ok s" by (simp_all add: registry_inv_def)
  note e = close_begin_effect [OF ok close_begin(1)]
  have "fst l \<noteq> sid" if "l \<in> set (rs_leases s)" for l
    using held_count [OF h that] e(4) [OF refl] by auto
  then have "held_ok (s\<lparr>rs_inner := st, rs_closers := sid # rs_closers s\<rparr>)"
    using h e(2,4) by (auto simp: held_ok_def)
  then show ?case using close_begin(2) e(1) by (simp add: registry_inv_def)
next
  case (close_refused catalog flush sid s e st)
  then have "registry_ok rg (rs_inner s)" by (simp add: registry_inv_def)
  from close_begin_effect(3) [OF this close_refused(1) refl] show ?case using close_refused(2) by simp
next
  case (close_end s xs sid ys root lock u st)
  then have "st = rs_inner s" by (auto simp: close_end_def split: option.splits sum.splits)
  then show ?case using close_end(1,3) by (auto simp: registry_inv_def held_ok_def)
next
  case (close_failed s xs sid ys root lock e st)
  then have "st = (rs_inner s)\<lparr>ri_closing := ri_closing (rs_inner s) - {sid}\<rparr>"
    by (auto simp: close_end_def finish_closing_def split: option.splits sum.splits)
  then show ?case using close_failed(1,3) by (auto simp: registry_inv_def held_ok_def reopen_ok)
next
  case (drop_exclusive s xs sid ys)
  then show ?case by (auto simp: registry_inv_def held_ok_def reopen_ok Om_Registry.drop_exclusive_def)
qed

lemma limits_validated: "limits_validate l = Inr l' \<Longrightarrow> l' = l"
  by (simp add: limits_validate_def split: if_splits)

lemma registry_reach_inv: "registry_reach rg s \<Longrightarrow> registry_inv rg s"
proof (induction rule: registry_reach.induct)
  case (init jobs limits legacy st)
  then show ?case using limits_validated [of limits]
    by (auto simp: registry_new_def bind_result_Inr registry_inv_def registry_inner_new_def held_ok_def registry_defs
        lease_count_def)
next
  case (step s s')
  then show ?case by (auto intro: registry_step_inv)
qed

section \<open>Properties\<close>

text \<open>
  C19. Whatever its callers do, a registry stays within its budget: its counters are exactly what
  the resident spaces use, and neither they nor the number of resident spaces exceed the limits.
\<close>

theorem registry_within_budget:
  assumes "registry_reach rg s"
  shows "ri_open_domains (rs_inner s) = total rt_domains (ri_runtimes (rs_inner s)) \<and>
    ri_graph_connections (rs_inner s) = total rt_graph_connections (ri_runtimes (rs_inner s)) \<and>
    ri_index_handles (rs_inner s) = total rt_index_handles (ri_runtimes (rs_inner s)) \<and>
    length (ri_runtimes (rs_inner s)) \<le> max_open_spaces (rg_limits rg) \<and>
    ri_open_domains (rs_inner s) \<le> max_open_domains (rg_limits rg) \<and>
    ri_graph_connections (rs_inner s) \<le> max_graph_connections (rg_limits rg) \<and>
    ri_index_handles (rs_inner s) \<le> max_index_handles (rg_limits rg)"
  using registry_reach_inv [OF assms]
  by (simp add: registry_inv_def registry_ok_def resources_exact_def within_limits_def)

text \<open>
  C20. A leased space stays open and one under maintenance stays closed: the runtime of every outstanding
  lease is the resident one, and the lease counts are exact. From the moment a maintainer has begun to
  close a space, while the close waits for its files and locks and as long as the exclusive lease is held,
  the space is not resident, nobody has a lease of it, every attempt to open it or to close it again is
  refused, and no other maintainer is closing it or holds it.
\<close>

theorem leases_exclude_maintenance:
  assumes "registry_reach rg s"
  shows "list_all (\<lambda>(sid, rt). map_of (ri_runtimes (rs_inner s)) sid = Some rt \<and>
      lease_count (rs_inner s) sid = count_list (map fst (rs_leases s)) sid) (rs_leases s) \<and>
    list_all (\<lambda>sid. map_of (ri_runtimes (rs_inner s)) sid = None \<and> sid \<notin> set (map fst (rs_leases s)) \<and>
      (\<forall>env. acquire rg env sid (rs_inner s) = (Inl RegClosing, rs_inner s)) \<and>
      (\<forall>catalog flush. \<exists>e. close_begin catalog flush sid (rs_inner s) = (Inl e, rs_inner s))) (rs_closers s @ rs_exclusive s) \<and>
    distinct (rs_closers s @ rs_exclusive s)"
proof -
  have ok: "registry_ok rg (rs_inner s)" and h: "held_ok s"
    using registry_reach_inv [OF assms] by (simp_all add: registry_inv_def)
  have "map_of (ri_runtimes (rs_inner s)) sid = None \<and> sid \<notin> set (map fst (rs_leases s)) \<and>
      (\<forall>env. acquire rg env sid (rs_inner s) = (Inl RegClosing, rs_inner s)) \<and>
      (\<forall>catalog flush. \<exists>e. close_begin catalog flush sid (rs_inner s) = (Inl e, rs_inner s))"
    if "sid \<in> set (rs_closers s @ rs_exclusive s)" for sid
  proof -
    have c: "sid \<in> ri_closing (rs_inner s)" using h that by (auto simp: held_ok_def)
    then have none: "map_of (ri_runtimes (rs_inner s)) sid = None" using h by (auto simp: held_ok_def)
    then have "sid \<notin> set (map fst (rs_leases s))" using h by (auto simp: held_ok_def)
    moreover have "\<exists>e. close_begin catalog flush sid (rs_inner s) = (Inl e, rs_inner s)" for catalog flush
      using c by (auto simp: close_begin_def split: sum.split option.split)
    ultimately show ?thesis using none c by (simp add: acquire_def)
  qed
  then show ?thesis using h by (auto simp: held_ok_def list_all_iff)
qed

text \<open>
  C21. Eviction takes the idle spaces other than the legacy one, least recently used first, and no
  more of them than needed: what \<open>reserve_capacity\<close> does to the registry is to evict the shortest
  prefix of that order that makes room, and it fails only when the request exceeds the limits, when
  nothing is left to evict, or when the next space cannot be flushed.
\<close>

theorem eviction_is_minimal_lru:
  assumes "registry_reach rg s" and "reserve_capacity rg flush q (rs_inner s) = (r, st')"
  shows "if exceeds_limits (rg_limits rg) q then r = Inl RegCapacity \<and> st' = rs_inner s
    else \<exists>n. makes_room rg flush q (rs_inner s) n r st'"
proof -
  have "keyed (rs_inner s)" using registry_reach_inv [OF assms(1)] by (simp add: registry_inv_def registry_ok_def)
  then show ?thesis
    using assms(2) reserve_loop_makes_room by (auto simp: reserve_capacity_def)
qed

end
