(* ===== verification/Om_RegistryExamples.thy ===== *)
theory Om_RegistryExamples
  imports Om_RegistryProps
begin

text \<open>
  A run of the registry with room for one space: space 1 is opened and released, the opening of
  space 2 evicts it, and a maintainer closes space 1.
\<close>

definition eg_registry :: registry where
  "eg_registry = \<lparr>rg_limits = \<lparr>max_open_spaces = 1, max_open_domains = 4, max_graph_connections = 8,
     max_index_handles = 4, max_context_engines = 0, max_flusher_threads = 0\<rparr>, rg_legacy = 0, rg_jobs = 1\<rparr>"

definition eg_catalog :: "uuid \<Rightarrow> catalog_space" where
  "eg_catalog sid = \<lparr>cs_space = \<lparr>sr_id = sid, sr_owner = UserOwner ''u'', sr_context = GlobalContext\<rparr>,
     cs_profile = ''default'', cs_root_key = SpaceRoot sid, cs_domain_count = 2, cs_manifest_hash = [],
     cs_state = CatalogActive, cs_generation = 1\<rparr>"

definition eg_lock :: lock_env where
  "eg_lock = \<lparr>le_symlink = False, le_open = None, le_try = Locked\<rparr>"

definition eg_env :: "uuid \<Rightarrow> open_env" where
  "eg_env sid = \<lparr>oe_catalog = Inr (Some (eg_catalog sid)), oe_flush = (\<lambda>_. [(None, Inr True)]),
     oe_root = None, oe_manifest = None, oe_filesystem = None, oe_lock = eg_lock,
     oe_store = Inr (Some sid, 2), oe_status = None\<rparr>"

definition eg_runtime :: "uuid \<Rightarrow> space_runtime" where
  "eg_runtime sid = \<lparr>rt_catalog = eg_catalog sid, rt_graph_connections = 4, rt_index_handles = 2\<rparr>"

definition eg_inner :: "uuid \<Rightarrow> nat \<Rightarrow> nat \<Rightarrow> uuid set \<Rightarrow> registry_inner" where
  "eg_inner sid n tick closing = \<lparr>ri_runtimes = [(sid, eg_runtime sid)], ri_leases = [(sid, n)],
     ri_last_used = [(sid, tick)], ri_open_domains = 2, ri_graph_connections = 4, ri_index_handles = 2,
     ri_context_engines = 0, ri_flusher_threads = 0, ri_tick = tick, ri_closing = closing\<rparr>"

definition eg_state :: "registry_inner \<Rightarrow> uuid list \<Rightarrow> uuid list \<Rightarrow> uuid list \<Rightarrow> registry_state" where
  "eg_state st leases closers exclusive = \<lparr>rs_inner = st, rs_leases = map (\<lambda>sid. (sid, eg_runtime sid)) leases,
     rs_closers = closers, rs_exclusive = exclusive\<rparr>"

lemmas eg_defs = eg_registry_def eg_catalog_def eg_env_def eg_runtime_def eg_inner_def registry_inner_new_def
  acquire_def reserve_capacity_def reserve_loop.simps exceeds_limits_def over_budget_def evict_candidate_def
  evictable_def lease_count_def evict_def release_resources_def add_runtime_def increment_lease_def
  saturating_add_def checked_mul_def open_runtime_def failing_def space_lock_acquire_def eg_lock_def
  rt_domains_def Let_def

lemma eg_run1: "registry_reach eg_registry (eg_state registry_inner_new [] [] [])"
proof -
  have "registry_new 1 (rg_limits eg_registry) 0 = Inr (eg_registry, registry_inner_new)"
    by (simp add: registry_new_def limits_validate_def eg_registry_def)
  from registry_reach.init [OF this] show ?thesis by (simp add: eg_state_def)
qed

lemma eg_acquire1: "acquire eg_registry (eg_env 1) 1 registry_inner_new = (Inr (eg_runtime 1), eg_inner 1 1 1 {})"
  by (simp add: eg_defs)

lemma eg_run2: "registry_reach eg_registry (eg_state (eg_inner 1 1 1 {}) [1] [] [])"
  using registry_step.acquire [of eg_registry "eg_env 1" 1 "eg_state registry_inner_new [] [] []"] eg_acquire1
    registry_reach.step [OF eg_run1] by (simp add: eg_state_def)

lemma eg_run3: "registry_reach eg_registry (eg_state (eg_inner 1 0 2 {}) [] [] [])"
proof -
  have "drop_lease 1 (eg_inner 1 1 1 {}) = eg_inner 1 0 2 {}"
    by (simp add: drop_lease_def eg_inner_def saturating_add_def)
  then show ?thesis
    using registry_step.release [of "eg_state (eg_inner 1 1 1 {}) [1] [] []" "[]" 1 "eg_runtime 1" "[]" eg_registry]
      registry_reach.step [OF eg_run2] by (simp add: eg_state_def)
qed

lemma eg_acquire2: "acquire eg_registry (eg_env 2) 2 (eg_inner 1 0 2 {}) = (Inr (eg_runtime 2), eg_inner 2 1 3 {})"
  by (simp add: eg_defs)

lemma eg_run4: "registry_reach eg_registry (eg_state (eg_inner 2 1 3 {}) [2] [] [])"
  using registry_step.acquire [of eg_registry "eg_env 2" 2 "eg_state (eg_inner 1 0 2 {}) [] [] []"] eg_acquire2
    registry_reach.step [OF eg_run3] by (simp add: eg_state_def)

lemma eg_run5: "registry_reach eg_registry (eg_state (eg_inner 2 1 3 {1}) [2] [1] [])"
proof -
  have "close_begin (Inr (Some (eg_catalog 1))) (\<lambda>_. []) 1 (eg_inner 2 1 3 {}) = (Inr (), eg_inner 2 1 3 {1})"
    by (simp add: close_begin_def eg_catalog_def eg_inner_def lease_count_def)
  then show ?thesis
    using registry_step.close_begin [of _ _ 1 "eg_state (eg_inner 2 1 3 {}) [2] [] []" "()" _ eg_registry]
      registry_reach.step [OF eg_run4] by (simp add: eg_state_def)
qed

lemma eg_run6: "registry_reach eg_registry (eg_state (eg_inner 2 1 3 {1}) [2] [] [1])"
proof -
  have "close_end None eg_lock 1 (eg_inner 2 1 3 {1}) = (Inr (), eg_inner 2 1 3 {1})"
    by (simp add: close_end_def space_lock_acquire_def eg_lock_def)
  then show ?thesis
    using registry_step.close_end [of "eg_state (eg_inner 2 1 3 {1}) [2] [1] []" "[]" 1 "[]" None eg_lock "()" _ eg_registry]
      registry_reach.step [OF eg_run5] by (simp add: eg_state_def)
qed

lemma registry_within_budget_witness:
  "ri_open_domains (eg_inner 2 1 3 {1}) = total rt_domains [(2, eg_runtime 2)] \<and>
   ri_open_domains (eg_inner 2 1 3 {1}) \<le> 4"
  using registry_within_budget [OF eg_run6] by (simp add: eg_state_def eg_inner_def eg_registry_def)

lemma leases_exclude_maintenance_witness:
  "acquire eg_registry (eg_env 1) 1 (eg_inner 2 1 3 {1}) = (Inl RegClosing, eg_inner 2 1 3 {1}) \<and>
   map_of (ri_runtimes (eg_inner 2 1 3 {1})) 2 = Some (eg_runtime 2)"
  using leases_exclude_maintenance [OF eg_run6] by (simp add: eg_state_def)

lemma eviction_is_minimal_lru_witness:
  "\<exists>n. makes_room eg_registry (\<lambda>_. [(None, Inr True)])
     \<lparr>rq_domains = 2, rq_graph_connections = 4, rq_index_handles = 2, rq_context_engines = 0, rq_flusher_threads = 0\<rparr>
     (eg_inner 1 0 2 {}) n (Inr ()) (registry_inner_new\<lparr>ri_tick := 2\<rparr>)"
  (is "\<exists>n. makes_room _ ?f ?q _ n _ ?st")
proof -
  have "reserve_capacity eg_registry ?f ?q (rs_inner (eg_state (eg_inner 1 0 2 {}) [] [] [])) = (Inr (), ?st)"
    by (simp add: eg_state_def eg_defs)
  from eviction_is_minimal_lru [OF eg_run3 this] show ?thesis
    by (simp add: eg_state_def exceeds_limits_def eg_registry_def)
qed

end
