(* ===== verification/Om_Changeset.thy ===== *)
theory Om_Changeset
  imports Om_Journal
begin

text \<open>
  Changesets of the graph store (\<open>openmemory-graph/src/audit.rs\<close>, with \<open>types.rs\<close>): operations,
  drafts and their validation, and the canonical framing that a request hash is computed from.
  serde_json and the UUID texts are fields of \<open>audit_deps\<close>.
\<close>

section \<open>Types\<close>

fun entity_type_str :: "entity_type \<Rightarrow> str" where
  "entity_type_str Person = ''person''"
| "entity_type_str Project = ''project''"
| "entity_type_str Concept = ''concept''"
| "entity_type_str Tool = ''tool''"
| "entity_type_str Preference = ''preference''"
| "entity_type_str FactType = ''fact''"
| "entity_type_str Event = ''event''"
| "entity_type_str Location = ''location''"
| "entity_type_str Organization = ''organization''"

fun memory_tier_str :: "memory_tier \<Rightarrow> str" where
  "memory_tier_str Episodic = ''episodic''"
| "memory_tier_str Semantic = ''semantic''"
| "memory_tier_str Procedural = ''procedural''"

definition memory_tier_parse :: "str \<Rightarrow> memory_tier option" where
  "memory_tier_parse s =
     (if s = ''episodic'' then Some Episodic else if s = ''semantic'' then Some Semantic
      else if s = ''procedural'' then Some Procedural else None)"

lemma entity_type_str_inj [simp]: "entity_type_str a = entity_type_str b \<longleftrightarrow> a = b"
  by (cases a; cases b) simp_all

lemma memory_tier_str_inj [simp]: "memory_tier_str a = memory_tier_str b \<longleftrightarrow> a = b"
  by (cases a; cases b) simp_all

lemma memory_tier_parse_str [simp]: "memory_tier_parse (memory_tier_str t) = Some t"
  by (cases t) (simp_all add: memory_tier_parse_def)

text \<open>\<open>Observation\<close>.\<close>

record memory_observation =
  mo_id :: str
  mo_entity_id :: str
  mo_content :: str
  mo_observed_at :: i64
  mo_valid_from :: "i64 option"
  mo_valid_until :: "i64 option"
  mo_confidence :: f32
  mo_source :: str
  mo_tombstoned :: bool
  mo_access_count :: nat
  mo_memory_tier :: memory_tier
  mo_title :: "str option"
  mo_summary :: "str option"
  mo_importance :: "f32 option"
  mo_source_kind :: "str option"
  mo_concepts :: "str list"
  mo_source_files :: "str list"

datatype submit_mode = ApplyImmediately | Propose

fun submit_mode_str :: "submit_mode \<Rightarrow> str" where
  "submit_mode_str ApplyImmediately = ''apply_immediately''"
| "submit_mode_str Propose = ''propose''"

datatype changeset_state = Proposed | Applied | Rejected | Conflicted | Reverted

fun changeset_state_str :: "changeset_state \<Rightarrow> str" where
  "changeset_state_str Proposed = ''proposed''"
| "changeset_state_str Applied = ''applied''"
| "changeset_state_str Rejected = ''rejected''"
| "changeset_state_str Conflicted = ''conflicted''"
| "changeset_state_str Reverted = ''reverted''"

definition changeset_state_parse :: "str \<Rightarrow> memory_error + changeset_state" where
  "changeset_state_parse v =
     (if v = ''proposed'' then Inr Proposed else if v = ''applied'' then Inr Applied
      else if v = ''rejected'' then Inr Rejected else if v = ''conflicted'' then Inr Conflicted
      else if v = ''reverted'' then Inr Reverted
      else Inl (MemSchema (''unknown changeset state '' @ v)))"

lemma changeset_state_parse_str [simp]: "changeset_state_parse (changeset_state_str s) = Inr s"
  by (cases s) (simp_all add: changeset_state_parse_def)

datatype object_kind = EntityObject | ObservationObject | RelationObject

datatype change_operation =
    OpRemember str entity_type "observation_input list" "relation_input list"
  | OpUpdate memory_observation u64 "str option"
  | OpRetire str u64
  | OpRestore str u64
  | OpRevert str str u64
  | OpDestroy str u64 "str option" str

fun op_object_kind :: "change_operation \<Rightarrow> object_kind" where
  "op_object_kind (OpRemember n t obs rels) = EntityObject"
| "op_object_kind _ = ObservationObject"

fun op_operation_name :: "change_operation \<Rightarrow> str" where
  "op_operation_name (OpRemember n t obs rels) = ''remember''"
| "op_operation_name (OpUpdate ob v r) = ''update_observation''"
| "op_operation_name (OpRetire i v) = ''retire_observation''"
| "op_operation_name (OpRestore i v) = ''restore_observation''"
| "op_operation_name (OpRevert i r v) = ''revert_observation''"
| "op_operation_name (OpDestroy i v r c) = ''destroy_observation''"

fun op_logical_id :: "change_operation \<Rightarrow> str" where
  "op_logical_id (OpRemember n t obs rels) = n"
| "op_logical_id (OpUpdate ob v r) = mo_id ob"
| "op_logical_id (OpRetire i v) = i"
| "op_logical_id (OpRestore i v) = i"
| "op_logical_id (OpRevert i r v) = i"
| "op_logical_id (OpDestroy i v r c) = i"

fun op_expected_row_version :: "change_operation \<Rightarrow> u64 option" where
  "op_expected_row_version (OpRemember n t obs rels) = None"
| "op_expected_row_version (OpUpdate ob v r) = Some v"
| "op_expected_row_version (OpRetire i v) = Some v"
| "op_expected_row_version (OpRestore i v) = Some v"
| "op_expected_row_version (OpRevert i r v) = Some v"
| "op_expected_row_version (OpDestroy i v r c) = Some v"

fun op_expected_revision_id :: "change_operation \<Rightarrow> str option" where
  "op_expected_revision_id (OpUpdate ob v r) = r"
| "op_expected_revision_id (OpDestroy i v r c) = r"
| "op_expected_revision_id _ = None"

record change_set_draft =
  dr_idempotency_key :: str
  dr_space :: uuid
  dr_actor_kind :: actor_kind
  dr_actor_id :: str
  dr_authority :: authority_snapshot
  dr_reason :: str
  dr_source :: str
  dr_operations :: "change_operation list"

text \<open>Third-party functions: \<open>ops_json_len\<close> is the length of the JSON text of a list of operations,
  \<open>op_json\<close> and \<open>op_of_json\<close> write and read one, \<open>new_id\<close> are the texts of the UUIDs that are generated,
  in order, \<open>is_changeset_id\<close> is the parser's verdict.\<close>

record audit_deps = deps +
  ops_json_len :: "change_operation list \<Rightarrow> nat"
  op_json :: "change_operation \<Rightarrow> str"
  op_of_json :: "str \<Rightarrow> change_operation option"
  new_id :: "nat \<Rightarrow> str"
  is_changeset_id :: "str \<Rightarrow> bool"

section \<open>Validation\<close>

definition REQUEST_VERSION :: u16 where "REQUEST_VERSION = 1"
definition MAX_IDEMPOTENCY_BYTES :: nat where "MAX_IDEMPOTENCY_BYTES = 128"
definition MAX_TEXT_BYTES :: nat where "MAX_TEXT_BYTES = 1024"
definition MAX_CONTENT_BYTES :: nat where "MAX_CONTENT_BYTES = 1024 * 1024"
definition MAX_LIST_ITEMS :: nat where "MAX_LIST_ITEMS = 256"
definition MAX_OPERATION_COUNT :: nat where "MAX_OPERATION_COUNT = 256"
definition DEFAULT_MAX_PAYLOAD_BYTES :: nat where "DEFAULT_MAX_PAYLOAD_BYTES = 1024 * 1024"
definition MAX_PAYLOAD_BYTES :: nat where "MAX_PAYLOAD_BYTES = 4 * 1024 * 1024"
definition MAX_DESTRUCTION_CONFIRMATION_TTL_SECS :: int where
  "MAX_DESTRUCTION_CONFIRMATION_TTL_SECS = 300"

lemmas audit_bounds = MAX_IDEMPOTENCY_BYTES_def MAX_TEXT_BYTES_def MAX_CONTENT_BYTES_def
  MAX_LIST_ITEMS_def MAX_OPERATION_COUNT_def

text \<open>Comparisons of an \<open>f32\<close> on its bits: the exponent is all ones for infinities and NaN, the order of
  the non-negative numbers is that of their bits, and the sign bit alone is minus zero.\<close>

definition f32_finite :: "f32 \<Rightarrow> bool" where
  "f32_finite b \<longleftrightarrow> (unat b div 2 ^ 23) mod 256 \<noteq> 255"

definition f32_in_unit :: "f32 \<Rightarrow> bool" where
  "f32_in_unit b \<longleftrightarrow> unat b \<le> 0x3F800000 \<or> b = 0x80000000"

definition f32_negative :: "f32 \<Rightarrow> bool" where
  "f32_negative b \<longleftrightarrow> f32_finite b \<and> unat b > 0x80000000"

definition invalid :: "str \<Rightarrow> memory_error + 'a" where
  "invalid msg = Inl (MemInvalidInput msg)"

text \<open>\<open>text\<close>: the message names the field and its bound.\<close>

definition check_text :: "str \<Rightarrow> str \<Rightarrow> nat \<Rightarrow> bool \<Rightarrow> memory_error + unit" where
  "check_text value field mx allow_empty =
     (if (\<not> allow_empty \<and> is_blank value) \<or> length value > mx \<or> CHR 0x00 \<in> set value
      then invalid (field @ '' is empty, contains NUL, or exceeds '' @ display_nat mx @ '' bytes'')
      else Inr ())"

definition check_optional :: "str option \<Rightarrow> str \<Rightarrow> nat \<Rightarrow> bool \<Rightarrow> memory_error + unit" where
  "check_optional value field mx allow_empty =
     (case value of None \<Rightarrow> Inr () | Some v \<Rightarrow> check_text v field mx allow_empty)"

fun check_items :: "str \<Rightarrow> str set \<Rightarrow> str list \<Rightarrow> memory_error + unit" where
  "check_items field seen [] = Inr ()"
| "check_items field seen (v # vs) =
     bind_result (check_text v field MAX_TEXT_BYTES False) (\<lambda>_.
       if v \<in> seen then invalid (field @ '' contains duplicates'')
       else check_items field (insert v seen) vs)"

definition check_list :: "str \<Rightarrow> str list \<Rightarrow> memory_error + unit" where
  "check_list field vs =
     (if length vs > MAX_LIST_ITEMS
      then invalid (field @ '' exceeds '' @ display_nat MAX_LIST_ITEMS @ '' entries'')
      else check_items field {} vs)"

record observation_values =
  ov_content :: str
  ov_confidence :: f32
  ov_source :: str
  ov_valid_from :: "i64 option"
  ov_valid_until :: "i64 option"
  ov_title :: "str option"
  ov_summary :: "str option"
  ov_importance :: "f32 option"
  ov_source_kind :: "str option"
  ov_concepts :: "str list"
  ov_source_files :: "str list"

definition inverted :: "i64 option \<Rightarrow> i64 option \<Rightarrow> bool" where
  "inverted from until =
     (case (from, until) of (Some a, Some b) \<Rightarrow> sint b < sint a | _ \<Rightarrow> False)"

definition check_values :: "observation_values \<Rightarrow> memory_error + unit" where
  "check_values v =
     bind_result (check_text (ov_content v) ''observation content'' MAX_CONTENT_BYTES False) (\<lambda>_.
     bind_result (check_text (ov_source v) ''observation source'' MAX_TEXT_BYTES True) (\<lambda>_.
     bind_result (check_optional (ov_title v) ''observation title'' MAX_TEXT_BYTES True) (\<lambda>_.
     bind_result (check_optional (ov_summary v) ''observation summary'' MAX_TEXT_BYTES True) (\<lambda>_.
     bind_result (check_optional (ov_source_kind v) ''observation source kind'' MAX_TEXT_BYTES True) (\<lambda>_.
       if \<not> f32_finite (ov_confidence v) \<or> \<not> f32_in_unit (ov_confidence v)
       then invalid ''observation confidence must be finite and within 0..=1''
       else if (case ov_importance v of None \<Rightarrow> False | Some x \<Rightarrow> \<not> f32_finite x \<or> \<not> f32_in_unit x)
       then invalid ''observation importance must be finite and within 0..=1''
       else if inverted (ov_valid_from v) (ov_valid_until v)
       then invalid ''observation validity interval is inverted''
       else bind_result (check_list ''observation concepts'' (ov_concepts v)) (\<lambda>_.
         check_list ''observation source files'' (ov_source_files v)))))))"

definition values_of_input :: "observation_input \<Rightarrow> observation_values" where
  "values_of_input x = \<lparr>ov_content = oi_content x, ov_confidence = oi_confidence x, ov_source = oi_source x,
     ov_valid_from = oi_valid_from x, ov_valid_until = oi_valid_until x, ov_title = oi_title x,
     ov_summary = oi_summary x, ov_importance = oi_importance x, ov_source_kind = oi_source_kind x,
     ov_concepts = oi_concepts x, ov_source_files = oi_source_files x\<rparr>"

definition values_of_observation :: "memory_observation \<Rightarrow> observation_values" where
  "values_of_observation x = \<lparr>ov_content = mo_content x, ov_confidence = mo_confidence x, ov_source = mo_source x,
     ov_valid_from = mo_valid_from x, ov_valid_until = mo_valid_until x, ov_title = mo_title x,
     ov_summary = mo_summary x, ov_importance = mo_importance x, ov_source_kind = mo_source_kind x,
     ov_concepts = mo_concepts x, ov_source_files = mo_source_files x\<rparr>"

fun each :: "('a \<Rightarrow> 'e + unit) \<Rightarrow> 'a list \<Rightarrow> 'e + unit" where
  "each f [] = Inr ()"
| "each f (x # xs) = bind_result (f x) (\<lambda>_. each f xs)"

definition check_relation :: "relation_input \<Rightarrow> memory_error + unit" where
  "check_relation r =
     bind_result (check_text (ri_relation_type r) ''relation type'' MAX_TEXT_BYTES False) (\<lambda>_.
     bind_result (check_text (ri_target_name r) ''relation target'' MAX_TEXT_BYTES False) (\<lambda>_.
     bind_result (check_text (ri_source r) ''relation source'' MAX_TEXT_BYTES True) (\<lambda>_.
       if \<not> f32_finite (ri_weight r) \<or> f32_negative (ri_weight r)
       then invalid ''relation weight must be finite and non-negative'' else Inr ())))"

definition is_ascii_hexdigit :: "char \<Rightarrow> bool" where
  "is_ascii_hexdigit c = (let n = of_char c :: nat in
     (48 \<le> n \<and> n \<le> 57) \<or> (65 \<le> n \<and> n \<le> 70) \<or> (97 \<le> n \<and> n \<le> 102))"

definition is_blake3_hash :: "str \<Rightarrow> bool" where
  "is_blake3_hash v \<longleftrightarrow> length v = 71 \<and>
     (case strip_prefix ''blake3:'' v of None \<Rightarrow> False | Some hex \<Rightarrow> list_all is_ascii_hexdigit hex)"

definition check_id :: "str \<Rightarrow> memory_error + unit" where
  "check_id i = check_text i ''observation id'' MAX_TEXT_BYTES False"

fun validate_operation :: "change_operation \<Rightarrow> memory_error + unit" where
  "validate_operation (OpRemember name t obs rels) =
     bind_result (check_text name ''entity name'' MAX_TEXT_BYTES False) (\<lambda>_.
       if length obs > MAX_LIST_ITEMS \<or> length rels > MAX_LIST_ITEMS
       then invalid ''remember operation exceeds its nested item bound''
       else bind_result (each (\<lambda>x. check_values (values_of_input x)) obs) (\<lambda>_.
         each check_relation rels))"
| "validate_operation (OpUpdate ob v r) =
     bind_result (check_id (mo_id ob)) (\<lambda>_.
     bind_result (check_text (mo_entity_id ob) ''observation entity id'' MAX_TEXT_BYTES False) (\<lambda>_.
       check_values (values_of_observation ob)))"
| "validate_operation (OpRetire i v) = check_id i"
| "validate_operation (OpRestore i v) = check_id i"
| "validate_operation (OpRevert i r v) =
     bind_result (check_id i) (\<lambda>_. check_text r ''revision id'' MAX_TEXT_BYTES False)"
| "validate_operation (OpDestroy i v r confirmation) =
     bind_result (check_id i) (\<lambda>_.
     bind_result (check_optional r ''revision id'' MAX_TEXT_BYTES False) (\<lambda>_.
       if is_blake3_hash confirmation then Inr ()
       else invalid ''destruction confirmation hash is invalid''))"

fun validate_operations :: "(object_kind \<times> str) set \<Rightarrow> change_operation list \<Rightarrow> memory_error + unit" where
  "validate_operations seen [] = Inr ()"
| "validate_operations seen (x # xs) =
     bind_result (validate_operation x) (\<lambda>_.
       if (op_object_kind x, op_logical_id x) \<in> seen
       then invalid ''duplicate operation on logical head''
       else validate_operations (insert (op_object_kind x, op_logical_id x) seen) xs)"

definition bad_text :: "str \<Rightarrow> bool" where
  "bad_text v \<longleftrightarrow> v = [] \<or> length v > MAX_TEXT_BYTES \<or> has_control v"

definition validate_draft :: "'d audit_deps_scheme \<Rightarrow> change_set_draft \<Rightarrow> memory_error + unit" where
  "validate_draft D d =
     (if dr_idempotency_key d = [] \<or> length (dr_idempotency_key d) > MAX_IDEMPOTENCY_BYTES
      then invalid ''idempotency key exceeds 1..=128 bytes''
      else if list_ex bad_text [dr_actor_id d, dr_reason d, dr_source d]
      then invalid ''changeset text exceeds its bound''
      else if dr_operations d = [] \<or> length (dr_operations d) > MAX_OPERATION_COUNT
      then invalid ''changeset operation count exceeds 1..=256''
      else let n = ops_json_len D (dr_operations d) in
        if n > MAX_PAYLOAD_BYTES then invalid ''changeset payload exceeds the 4 MiB hard limit''
        else if n > DEFAULT_MAX_PAYLOAD_BYTES
        then invalid ''changeset payload exceeds the configured 1 MiB limit''
        else validate_operations {} (dr_operations d))"

definition change_set_draft_new :: "'d audit_deps_scheme \<Rightarrow> str \<Rightarrow> uuid \<Rightarrow> actor_kind \<Rightarrow> str \<Rightarrow> authority_snapshot \<Rightarrow>
    str \<Rightarrow> str \<Rightarrow> change_operation list \<Rightarrow> memory_error + change_set_draft" where
  "change_set_draft_new D key space kind actor authority reason source ops =
     (let d = \<lparr>dr_idempotency_key = key, dr_space = space, dr_actor_kind = kind, dr_actor_id = actor,
                dr_authority = authority, dr_reason = reason, dr_source = source, dr_operations = ops\<rparr>
      in bind_result (validate_draft D d) (\<lambda>_. Inr d))"

section \<open>Reviewers\<close>

record review_authorization =
  ra_actor_id :: str
  ra_role :: space_role
  ra_authority :: authority_snapshot

definition review_authorization_new :: "actor_kind \<Rightarrow> str \<Rightarrow> space_role \<Rightarrow> authority_snapshot \<Rightarrow>
    memory_error + review_authorization" where
  "review_authorization_new kind actor role authority =
     (if kind \<noteq> Human \<or> \<not> can_review role
      then invalid ''proposal review requires a human reviewer or maintainer''
      else if is_blank actor \<or> length actor > MAX_TEXT_BYTES \<or> has_control actor
      then invalid ''reviewer identity is invalid''
      else Inr \<lparr>ra_actor_id = actor, ra_role = role, ra_authority = authority\<rparr>)"

end
