(* ===== verification/Om_ChangesetHash.thy ===== *)
theory Om_ChangesetHash
  imports Om_Changeset
begin

text \<open>
  The canonical framing of changeset requests (\<open>audit.rs\<close>, \<open>canonical_request_hash\<close> and the other
  hashes of the file), as the bytes that are hashed. The locale \<open>framing\<close> is the contract of an
  encoder: a value is determined by its frames, up to a normal form, and so is where they end.
\<close>

section \<open>Frames\<close>

definition frame :: "bytes \<Rightarrow> bytes" where
  "frame b = u64_le (u64_of_usize (length b)) @ b"

definition frame_str :: "str \<Rightarrow> bytes" where
  "frame_str v = frame v"

definition frame_u16 :: "u16 \<Rightarrow> bytes" where
  "frame_u16 v = frame (u16_le v)"

definition frame_u64 :: "u64 \<Rightarrow> bytes" where
  "frame_u64 v = frame (u64_le v)"

definition frame_i64 :: "i64 \<Rightarrow> bytes" where
  "frame_i64 v = frame (u64_le v)"

definition frame_f32 :: "f32 \<Rightarrow> bytes" where
  "frame_f32 v = frame (le_bytes 4 (unat v))"

definition frame_flag :: "bool \<Rightarrow> bytes" where
  "frame_flag v = frame [char_of (if v then 1 else 0 :: nat)]"

definition frame_optional :: "('a \<Rightarrow> bytes) \<Rightarrow> 'a option \<Rightarrow> bytes" where
  "frame_optional f v = (case v of Some x \<Rightarrow> frame_flag True @ f x | None \<Rightarrow> frame_flag False)"

definition frame_optional_i64 :: "i64 option \<Rightarrow> bytes" where
  "frame_optional_i64 = frame_optional frame_i64"

definition frame_optional_str :: "str option \<Rightarrow> bytes" where
  "frame_optional_str = frame_optional frame_str"

text \<open>The match on \<open>importance\<close> is written out in the code three times.\<close>

definition frame_importance :: "f32 option \<Rightarrow> bytes" where
  "frame_importance = frame_optional frame_f32"

definition frame_list :: "('a \<Rightarrow> bytes) \<Rightarrow> 'a list \<Rightarrow> bytes" where
  "frame_list f xs = frame_u64 (u64_of_usize (length xs)) @ concat (map f xs)"

definition frame_strings :: "str list \<Rightarrow> bytes" where
  "frame_strings vs = frame_list frame_str vs"

definition frame_sorted_strings :: "str list \<Rightarrow> bytes" where
  "frame_sorted_strings vs = frame_strings (sort vs)"

fun actor_kind_str :: "actor_kind \<Rightarrow> str" where
  "actor_kind_str Human = ''human''"
| "actor_kind_str Agent = ''agent''"
| "actor_kind_str System = ''system''"

definition frame_input :: "observation_input \<Rightarrow> bytes" where
  "frame_input x =
     frame_str (oi_content x) @ frame_f32 (oi_confidence x) @ frame_str (oi_source x) @
     frame_optional_i64 (oi_valid_from x) @ frame_optional_i64 (oi_valid_until x) @
     frame_str (memory_tier_str (oi_memory_tier x)) @ frame_optional_str (oi_title x) @
     frame_optional_str (oi_summary x) @ frame_importance (oi_importance x) @
     frame_optional_str (oi_source_kind x) @ frame_sorted_strings (oi_concepts x) @
     frame_sorted_strings (oi_source_files x)"

definition frame_relation :: "relation_input \<Rightarrow> bytes" where
  "frame_relation x =
     frame_str (ri_relation_type x) @ frame_str (ri_target_name x) @
     frame_str (entity_type_str (ri_target_type x)) @ frame_f32 (ri_weight x) @ frame_str (ri_source x)"

definition frame_observation :: "memory_observation \<Rightarrow> bytes" where
  "frame_observation x =
     frame_str (mo_id x) @ frame_str (mo_entity_id x) @ frame_str (mo_content x) @
     frame_i64 (mo_observed_at x) @ frame_optional_i64 (mo_valid_from x) @
     frame_optional_i64 (mo_valid_until x) @ frame_f32 (mo_confidence x) @ frame_str (mo_source x) @
     frame_flag (mo_tombstoned x) @ frame_str (memory_tier_str (mo_memory_tier x)) @
     frame_optional_str (mo_title x) @ frame_optional_str (mo_summary x) @
     frame_importance (mo_importance x) @ frame_optional_str (mo_source_kind x) @
     frame_sorted_strings (mo_concepts x) @ frame_sorted_strings (mo_source_files x)"

fun hash_operation :: "change_operation \<Rightarrow> bytes" where
  "hash_operation (OpRemember name t obs rels) =
     frame_str ''remember'' @ frame_str name @ frame_str (entity_type_str t) @
     frame_list frame_input obs @ frame_list frame_relation rels"
| "hash_operation (OpUpdate ob v r) =
     frame_str ''update_observation'' @ frame_observation ob @ frame_u64 v @ frame_optional_str r"
| "hash_operation (OpRetire i v) = frame_str ''retire_observation'' @ frame_str i @ frame_u64 v"
| "hash_operation (OpRestore i v) = frame_str ''restore_observation'' @ frame_str i @ frame_u64 v"
| "hash_operation (OpRevert i r v) =
     frame_str ''revert_observation'' @ frame_str i @ frame_str r @ frame_u64 v"
| "hash_operation (OpDestroy i v r c) =
     frame_str ''destroy_observation'' @ frame_str i @ frame_u64 v @ frame_optional_str r @ frame_str c"

section \<open>Hashes\<close>

definition blake3_text :: "'x deps_scheme \<Rightarrow> bytes \<Rightarrow> str" where
  "blake3_text D b = ''blake3:'' @ hash_display (blake3 D b)"

definition request_bytes :: "'x deps_scheme \<Rightarrow> change_set_draft \<Rightarrow> submit_mode \<Rightarrow> bytes" where
  "request_bytes D d mode =
     ''openmemory/changeset/v1'' @ frame_u16 REQUEST_VERSION @ frame_str (submit_mode_str mode) @
     frame_str (hyphenated D (dr_space d)) @ frame_str ''home-domain:0'' @
     frame_str (actor_kind_str (dr_actor_kind d)) @ frame_str (dr_actor_id d) @
     frame_u16 (as_version (dr_authority d)) @ as_digest (dr_authority d) @
     frame_str (dr_reason d) @ frame_str (dr_source d) @ frame_list hash_operation (dr_operations d)"

definition canonical_request_hash :: "'x deps_scheme \<Rightarrow> change_set_draft \<Rightarrow> submit_mode \<Rightarrow> str" where
  "canonical_request_hash D d mode = blake3_text D (request_bytes D d mode)"

definition destruction_token_hash :: "'x deps_scheme \<Rightarrow> str \<Rightarrow> str" where
  "destruction_token_hash D token =
     blake3_text D (''openmemory/destruction-confirmation-token/v1'' @ frame_str token)"

definition destruction_preview_hash :: "'x deps_scheme \<Rightarrow> uuid \<Rightarrow> str \<Rightarrow> str option \<Rightarrow> nat \<Rightarrow> nat \<Rightarrow> nat \<Rightarrow> str" where
  "destruction_preview_hash D space i r version revisions side_rows =
     blake3_text D (''openmemory/observation-destruction-preview/v1'' @ frame_str (hyphenated D space) @
       frame_str i @ frame_optional_str r @ frame_u64 (u64_of_usize version) @
       frame_u64 (u64_of_usize revisions) @ frame_u64 (u64_of_usize side_rows))"

section \<open>The contract of an encoder\<close>

locale framing =
  fixes enc :: "'a \<Rightarrow> bytes" and ok :: "'a \<Rightarrow> bool" and norm :: "'a \<Rightarrow> 'a"
  assumes split: "ok x \<Longrightarrow> ok y \<Longrightarrow> enc x @ r = enc y @ s \<Longrightarrow> norm x = norm y \<and> r = s"
    and respects: "norm x = norm y \<Longrightarrow> enc x = enc y"
begin

lemma append_iff: "ok x \<Longrightarrow> ok y \<Longrightarrow> enc x @ r = enc y @ s \<longleftrightarrow> norm x = norm y \<and> r = s"
  using split [of x y r s] respects [of x y] by blast

lemma eq_iff: "ok x \<Longrightarrow> ok y \<Longrightarrow> enc x = enc y \<longleftrightarrow> norm x = norm y"
  using append_iff [of x y "[]" "[]"] by (simp only: append_Nil2 simp_thms)

lemma concat_split: "length xs = length ys \<Longrightarrow> list_all ok xs \<Longrightarrow> list_all ok ys \<Longrightarrow>
    concat (map enc xs) @ r = concat (map enc ys) @ s \<Longrightarrow> map norm xs = map norm ys \<and> r = s"
proof (induction xs ys rule: list_induct2)
  case (Cons x xs y ys)
  have "norm x = norm y \<and> concat (map enc xs) @ r = concat (map enc ys) @ s"
    using Cons.prems by (intro split) auto
  then show ?case using Cons by auto
qed simp

end

text \<open>Every Rust string and vector fits.\<close>

definition fits :: "str \<Rightarrow> bool" where "fits v \<longleftrightarrow> length v < 2 ^ 64"

definition fits_list :: "str list \<Rightarrow> bool" where
  "fits_list vs \<longleftrightarrow> length vs < 2 ^ 64 \<and> list_all fits vs"

lemma frame_split: "length a < 2 ^ 64 \<Longrightarrow> length b < 2 ^ 64 \<Longrightarrow> frame a @ r = frame b @ s \<Longrightarrow> a = b \<and> r = s"
proof -
  assume l: "length a < 2 ^ 64" "length b < 2 ^ 64" and e: "frame a @ r = frame b @ s"
  then have "u64_le (u64_of_usize (length a)) @ (a @ r) = u64_le (u64_of_usize (length b)) @ (b @ s)"
    by (simp add: frame_def)
  then have h: "u64_le (u64_of_usize (length a)) = u64_le (u64_of_usize (length b))" and t: "a @ r = b @ s"
    by (auto simp: u64_le_def dest!: append_eq_append_conv [THEN iffD1, rotated])
  have "unat (u64_of_usize (length a)) = unat (u64_of_usize (length b))"
    using h unsigned_less [of "u64_of_usize (length a)"] unsigned_less [of "u64_of_usize (length b)"]
    by (intro le_bytes_inj [of 8]) (simp_all add: u64_le_def)
  then have "length a = length b" using l by (simp add: unat_u64_of_usize)
  then show "a = b \<and> r = s" using t by simp
qed

lemma le_bytes_word:
  fixes v w :: "'a::len word"
  assumes "le_bytes k (unat v) = le_bytes k (unat w)" and "2 ^ LENGTH('a) \<le> (256::nat) ^ k"
  shows "v = w"
proof -
  have "unat v < 2 ^ LENGTH('a)" and "unat w < 2 ^ LENGTH('a)" by (rule unsigned_less)+
  then have "unat v = unat w" using assms by (intro le_bytes_inj [of k]) linarith+
  then show ?thesis by (simp add: word_unat_eq_iff)
qed

lemma frame_word_split:
  fixes v w :: "'a::len word"
  assumes "frame (le_bytes k (unat v)) @ r = frame (le_bytes k (unat w)) @ s"
    and "2 ^ LENGTH('a) \<le> (256::nat) ^ k" and "k < 2 ^ 64"
  shows "v = w \<and> r = s"
  using frame_split [OF _ _ assms(1)] assms(2,3) le_bytes_word [of k v w] by simp

interpretation str_frame: framing frame_str fits "\<lambda>v. v"
  by unfold_locales (unfold frame_str_def fits_def, rule frame_split, auto)

interpretation u16_frame: framing frame_u16 "\<lambda>_. True" "\<lambda>v. v"
  by unfold_locales (auto simp: frame_u16_def u16_le_def dest: frame_word_split)

interpretation u64_frame: framing frame_u64 "\<lambda>_. True" "\<lambda>v. v"
  by unfold_locales (auto simp: frame_u64_def u64_le_def dest: frame_word_split)

interpretation i64_frame: framing frame_i64 "\<lambda>_. True" "\<lambda>v. v"
  by unfold_locales (auto simp: frame_i64_def u64_le_def dest: frame_word_split)

interpretation f32_frame: framing frame_f32 "\<lambda>_. True" "\<lambda>v. v"
  by unfold_locales (auto simp: frame_f32_def dest: frame_word_split)

lemma frame_flag_split: "frame_flag x @ r = frame_flag y @ s \<Longrightarrow> x = y \<and> r = s"
  unfolding frame_flag_def by (drule frame_split [rotated 2]) (simp_all split: if_splits)

interpretation flag_frame: framing frame_flag "\<lambda>_. True" "\<lambda>v. v"
  by unfold_locales (rule frame_flag_split, auto)

lemma framing_optional:
  assumes f: "framing enc ok norm"
  shows "framing (frame_optional enc) (pred_option ok) (map_option norm)"
proof
  fix x y :: "'a option" and r s
  assume "pred_option ok x" "pred_option ok y" "frame_optional enc x @ r = frame_optional enc y @ s"
  then show "map_option norm x = map_option norm y \<and> r = s"
    by (cases x; cases y)
      (auto simp: frame_optional_def dest!: frame_flag_split dest: framing.split [OF f])
next
  fix x y :: "'a option"
  assume "map_option norm x = map_option norm y"
  then show "frame_optional enc x = frame_optional enc y"
    by (cases x; cases y) (auto simp: frame_optional_def dest: framing.respects [OF f])
qed

lemma framing_list:
  assumes f: "framing enc ok norm"
  shows "framing (frame_list enc) (\<lambda>xs. length xs < 2 ^ 64 \<and> list_all ok xs) (map norm)"
proof
  fix x y :: "'a list" and r s
  assume ok: "length x < 2 ^ 64 \<and> list_all ok x" "length y < 2 ^ 64 \<and> list_all ok y"
    and e: "frame_list enc x @ r = frame_list enc y @ s"
  from e have "u64_of_usize (length x) = u64_of_usize (length y) \<and>
      concat (map enc x) @ r = concat (map enc y) @ s"
    by (intro u64_frame.split) (simp_all add: frame_list_def)
  then show "map norm x = map norm y \<and> r = s"
    using framing.concat_split [OF f, of x y r s] ok u64_of_usize_inj by blast
next
  fix x y :: "'a list"
  assume e: "map norm x = map norm y"
  then have "map enc x = map enc y"
    by (simp add: list_eq_iff_nth_eq) (metis e f framing.respects nth_map)
  then show "frame_list enc x = frame_list enc y"
    using map_eq_imp_length_eq [OF e] by (simp add: frame_list_def)
qed

interpretation optional_i64_frame: framing frame_optional_i64 "\<lambda>_. True" "\<lambda>v. v"
  using framing_optional [OF i64_frame.framing_axioms]
  by (simp add: frame_optional_i64_def option.pred_True option.map_id0 [unfolded id_def])

interpretation importance_frame: framing frame_importance "\<lambda>_. True" "\<lambda>v. v"
  using framing_optional [OF f32_frame.framing_axioms]
  by (simp add: frame_importance_def option.pred_True option.map_id0 [unfolded id_def])

interpretation optional_str_frame: framing frame_optional_str "pred_option fits" "\<lambda>v. v"
  using framing_optional [OF str_frame.framing_axioms]
  by (simp add: frame_optional_str_def option.map_id0 [unfolded id_def])

interpretation strings_frame: framing frame_strings fits_list "\<lambda>v. v"
  using framing_list [OF str_frame.framing_axioms]
  by (simp add: frame_strings_def [abs_def] fits_list_def [abs_def])

interpretation sorted_strings_frame: framing frame_sorted_strings fits_list sort
proof
  fix x y r s
  assume "fits_list x" "fits_list y" "frame_sorted_strings x @ r = frame_sorted_strings y @ s"
  then show "sort x = sort y \<and> r = s"
    by (intro strings_frame.split) (auto simp: frame_sorted_strings_def fits_list_def list_all_iff)
qed (simp add: frame_sorted_strings_def)

section \<open>What validation bounds\<close>

lemma check_text_length: "check_text v f mx e = Inr u \<Longrightarrow> length v \<le> mx"
  by (auto simp: check_text_def invalid_def split: if_splits)

lemma check_optional_length: "check_optional v f mx e = Inr u \<Longrightarrow> pred_option (\<lambda>t. length t \<le> mx) v"
  by (auto simp: check_optional_def split: option.splits dest: check_text_length)

lemma check_items_length: "check_items f seen vs = Inr u \<Longrightarrow> list_all (\<lambda>t. length t \<le> MAX_TEXT_BYTES) vs"
  by (induction f seen vs rule: check_items.induct)
    (auto simp: bind_result_Inr invalid_def dest: check_text_length split: if_splits)

lemma check_list_length:
  "check_list f vs = Inr u \<Longrightarrow> length vs \<le> MAX_LIST_ITEMS \<and> list_all (\<lambda>t. length t \<le> MAX_TEXT_BYTES) vs"
  by (auto simp: check_list_def invalid_def dest: check_items_length split: if_splits)

lemma fitsI: "length v \<le> MAX_TEXT_BYTES \<Longrightarrow> fits v" "length v \<le> MAX_CONTENT_BYTES \<Longrightarrow> fits v"
  by (simp_all add: fits_def audit_bounds)

lemma fits_optionI: "pred_option (\<lambda>t. length t \<le> MAX_TEXT_BYTES) v \<Longrightarrow> pred_option fits v"
  by (cases v) (auto intro: fitsI)

lemma fits_listI: "length vs \<le> MAX_LIST_ITEMS \<and> list_all (\<lambda>t. length t \<le> MAX_TEXT_BYTES) vs \<Longrightarrow> fits_list vs"
  by (auto simp: fits_list_def fits_def audit_bounds list_all_iff)

lemmas fits_text = check_text_length [THEN fitsI(1)] check_text_length [THEN fitsI(2)]
  check_optional_length [THEN fits_optionI] check_list_length [THEN fits_listI]

lemma check_values_fits:
  "check_values v = Inr u \<Longrightarrow> fits (ov_content v) \<and> fits (ov_source v) \<and> pred_option fits (ov_title v) \<and>
     pred_option fits (ov_summary v) \<and> pred_option fits (ov_source_kind v) \<and>
     fits_list (ov_concepts v) \<and> fits_list (ov_source_files v)"
  by (auto simp: check_values_def bind_result_Inr invalid_def split: if_splits intro: fits_text)

lemma check_relation_fits:
  "check_relation r = Inr u \<Longrightarrow> fits (ri_relation_type r) \<and> fits (ri_target_name r) \<and> fits (ri_source r)"
  by (auto simp: check_relation_def bind_result_Inr split: if_splits intro: fits_text)

lemma each_ok: "each f xs = Inr () \<longleftrightarrow> list_all (\<lambda>x. f x = Inr ()) xs"
  by (induction xs) (auto simp: bind_result_Inr)

lemma fits_entity_type [simp]: "fits (entity_type_str t)"
  by (cases t) (simp_all add: fits_def)

lemma fits_tier [simp]: "fits (memory_tier_str t)"
  by (cases t) (simp_all add: fits_def)

lemma fits_actor [simp]: "fits (actor_kind_str k)"
  by (cases k) (simp_all add: fits_def)

lemma fits_mode [simp]: "fits (submit_mode_str m)"
  by (cases m) (simp_all add: fits_def)

lemmas frame_iffs =
  str_frame.append_iff u16_frame.append_iff u64_frame.append_iff i64_frame.append_iff
  f32_frame.append_iff flag_frame.append_iff optional_i64_frame.append_iff
  importance_frame.append_iff optional_str_frame.append_iff sorted_strings_frame.append_iff
  str_frame.eq_iff u64_frame.eq_iff optional_str_frame.eq_iff

section \<open>What the frames determine\<close>

text \<open>Requests are hashed up to the order of concepts and source files, and an updated observation
  without its access count, which an update does not write.\<close>

definition canonical_input :: "observation_input \<Rightarrow> observation_input" where
  "canonical_input x = x\<lparr>oi_concepts := sort (oi_concepts x), oi_source_files := sort (oi_source_files x)\<rparr>"

definition canonical_observation :: "memory_observation \<Rightarrow> memory_observation" where
  "canonical_observation x = x\<lparr>mo_access_count := 0, mo_concepts := sort (mo_concepts x),
     mo_source_files := sort (mo_source_files x)\<rparr>"

fun canonical_operation :: "change_operation \<Rightarrow> change_operation" where
  "canonical_operation (OpRemember n t obs rels) = OpRemember n t (map canonical_input obs) rels"
| "canonical_operation (OpUpdate ob v r) = OpUpdate (canonical_observation ob) v r"
| "canonical_operation x = x"

interpretation input_frame: framing frame_input
    "\<lambda>x. check_values (values_of_input x) = Inr ()" canonical_input
proof
  fix x y r s
  assume "check_values (values_of_input x) = Inr ()" "check_values (values_of_input y) = Inr ()"
    "frame_input x @ r = frame_input y @ s"
  then show "canonical_input x = canonical_input y \<and> r = s"
    by (cases x; cases y)
      (auto simp: frame_input_def canonical_input_def values_of_input_def frame_iffs
        dest!: check_values_fits)
next
  fix x y
  assume "canonical_input x = canonical_input y"
  then show "frame_input x = frame_input y"
    by (cases x; cases y) (simp add: frame_input_def canonical_input_def frame_sorted_strings_def)
qed

interpretation relation_frame: framing frame_relation "\<lambda>x. check_relation x = Inr ()" "\<lambda>x. x"
proof
  fix x y r s
  assume "check_relation x = Inr ()" "check_relation y = Inr ()"
    "frame_relation x @ r = frame_relation y @ s"
  then show "x = y \<and> r = s"
    by (cases x; cases y) (auto simp: frame_relation_def frame_iffs dest!: check_relation_fits)
qed auto

interpretation observation_frame: framing frame_observation
    "\<lambda>x. check_values (values_of_observation x) = Inr () \<and> fits (mo_id x) \<and> fits (mo_entity_id x)"
    canonical_observation
proof
  fix x y r s
  assume "check_values (values_of_observation x) = Inr () \<and> fits (mo_id x) \<and> fits (mo_entity_id x)"
    "check_values (values_of_observation y) = Inr () \<and> fits (mo_id y) \<and> fits (mo_entity_id y)"
    "frame_observation x @ r = frame_observation y @ s"
  then show "canonical_observation x = canonical_observation y \<and> r = s"
    by (cases x; cases y)
      (auto simp: frame_observation_def canonical_observation_def values_of_observation_def frame_iffs
        dest!: check_values_fits)
next
  fix x y
  assume "canonical_observation x = canonical_observation y"
  then show "frame_observation x = frame_observation y"
    by (cases x; cases y)
      (simp add: frame_observation_def canonical_observation_def frame_sorted_strings_def)
qed

interpretation inputs_frame: framing "frame_list frame_input"
    "\<lambda>xs. length xs < 2 ^ 64 \<and> list_all (\<lambda>x. check_values (values_of_input x) = Inr ()) xs"
    "map canonical_input"
  by (rule framing_list) (rule input_frame.framing_axioms)

interpretation relations_frame: framing "frame_list frame_relation"
    "\<lambda>xs. length xs < 2 ^ 64 \<and> list_all (\<lambda>x. check_relation x = Inr ()) xs" "\<lambda>xs. xs"
  using framing_list [OF relation_frame.framing_axioms] by simp

lemma fits_operation_name [simp]: "fits (op_operation_name x)"
  by (cases x) (simp_all add: fits_def)

text \<open>What follows the name of the operation.\<close>

fun frame_fields :: "change_operation \<Rightarrow> bytes" where
  "frame_fields (OpRemember name t obs rels) =
     frame_str name @ frame_str (entity_type_str t) @ frame_list frame_input obs @ frame_list frame_relation rels"
| "frame_fields (OpUpdate ob v r) = frame_observation ob @ frame_u64 v @ frame_optional_str r"
| "frame_fields (OpRetire i v) = frame_str i @ frame_u64 v"
| "frame_fields (OpRestore i v) = frame_str i @ frame_u64 v"
| "frame_fields (OpRevert i r v) = frame_str i @ frame_str r @ frame_u64 v"
| "frame_fields (OpDestroy i v r c) = frame_str i @ frame_u64 v @ frame_optional_str r @ frame_str c"

lemma hash_operation_fields: "hash_operation x = frame_str (op_operation_name x) @ frame_fields x"
  by (cases x) simp_all

lemma is_blake3_hash_fits: "is_blake3_hash c \<Longrightarrow> fits c"
  by (simp add: is_blake3_hash_def fits_def)

lemmas operation_ok = bind_result_Inr each_ok check_id_def invalid_def MAX_LIST_ITEMS_def

definition operation_ok :: "change_operation \<Rightarrow> bool" where
  "operation_ok x \<longleftrightarrow> validate_operation x = Inr () \<and> pred_option fits (op_expected_revision_id x)"

fun op_fits :: "change_operation \<Rightarrow> bool" where
  "op_fits (OpRemember n t obs rels) \<longleftrightarrow> fits n \<and>
     (length obs < 2 ^ 64 \<and> list_all (\<lambda>x. check_values (values_of_input x) = Inr ()) obs) \<and>
     (length rels < 2 ^ 64 \<and> list_all (\<lambda>x. check_relation x = Inr ()) rels)"
| "op_fits (OpUpdate ob v r) \<longleftrightarrow> pred_option fits r \<and>
     (check_values (values_of_observation ob) = Inr () \<and> fits (mo_id ob) \<and> fits (mo_entity_id ob))"
| "op_fits (OpRetire i v) \<longleftrightarrow> fits i"
| "op_fits (OpRestore i v) \<longleftrightarrow> fits i"
| "op_fits (OpRevert i r v) \<longleftrightarrow> fits i \<and> fits r"
| "op_fits (OpDestroy i v r c) \<longleftrightarrow> fits i \<and> pred_option fits r \<and> fits c"

lemma operation_ok_fits: "operation_ok x \<Longrightarrow> op_fits x"
  by (cases x)
    (auto simp: operation_ok_def bind_result_Inr each_ok check_id_def invalid_def audit_bounds
      intro: fits_text is_blake3_hash_fits split: if_splits)

lemmas operation_frame_iffs = frame_iffs inputs_frame.append_iff relations_frame.append_iff
  observation_frame.append_iff

lemma same_name_fields:
  assumes "op_fits x" "op_fits y" "op_operation_name x = op_operation_name y"
    and "frame_fields x @ r = frame_fields y @ s"
  shows "canonical_operation x = canonical_operation y \<and> r = s"
  using assms by (cases x; cases y) (simp_all add: operation_frame_iffs)

interpretation operation_frame: framing hash_operation operation_ok canonical_operation
proof
  fix x y r s
  assume ok: "operation_ok x" "operation_ok y" and e: "hash_operation x @ r = hash_operation y @ s"
  then have "op_operation_name x = op_operation_name y \<and> frame_fields x @ r = frame_fields y @ s"
    by (simp add: hash_operation_fields str_frame.append_iff)
  with ok show "canonical_operation x = canonical_operation y \<and> r = s" by (intro same_name_fields operation_ok_fits) auto
next
  fix x y
  assume e: "canonical_operation x = canonical_operation y"
  then show "hash_operation x = hash_operation y"
    by (cases x; cases y)
      (auto simp: frame_list_def dest: observation_frame.respects
        intro: framing.respects [OF inputs_frame.framing_axioms, unfolded frame_list_def])
qed

interpretation operations_frame: framing "frame_list hash_operation"
    "\<lambda>xs. length xs < 2 ^ 64 \<and> list_all operation_ok xs" "map canonical_operation"
  by (rule framing_list) (rule operation_frame.framing_axioms)

section \<open>Requests\<close>

text \<open>What the types of a draft give: a 32-byte digest, and strings that fit.\<close>

definition draft_typed :: "change_set_draft \<Rightarrow> bool" where
  "draft_typed d \<longleftrightarrow> length (as_digest (dr_authority d)) = 32 \<and>
     list_all (\<lambda>x. pred_option fits (op_expected_revision_id x)) (dr_operations d)"

lemma validate_operations_each:
  "validate_operations seen xs = Inr () \<Longrightarrow> list_all (\<lambda>x. validate_operation x = Inr ()) xs"
  by (induction seen xs rule: validate_operations.induct)
    (auto simp: bind_result_Inr invalid_def split: if_splits)

lemma validate_draft_ok:
  assumes "validate_draft D d = Inr ()"
  shows "fits (dr_actor_id d)" "fits (dr_reason d)" "fits (dr_source d)"
    "length (dr_operations d) < 2 ^ 64" "list_all (\<lambda>x. validate_operation x = Inr ()) (dr_operations d)"
    "dr_operations d \<noteq> []"
  using assms
  by (auto simp: validate_draft_def invalid_def bad_text_def Let_def audit_bounds fits_def
      dest: validate_operations_each split: if_splits)

lemma draft_operations_ok:
  "validate_draft D d = Inr () \<Longrightarrow> draft_typed d \<Longrightarrow> list_all operation_ok (dr_operations d)"
  using validate_draft_ok(5) by (auto simp: draft_typed_def operation_ok_def list_all_iff)

lemma fits_space: "deps_ok D \<Longrightarrow> fits (hyphenated D u)"
  by (simp add: deps_ok_def fits_def)

lemma append_same_length: "length a = length b \<Longrightarrow> a @ r = b @ s \<longleftrightarrow> a = b \<and> r = s"
  by simp

lemma submit_mode_str_inj [simp]: "submit_mode_str a = submit_mode_str b \<longleftrightarrow> a = b"
  by (cases a; cases b) simp_all

lemma actor_kind_str_inj [simp]: "actor_kind_str a = actor_kind_str b \<longleftrightarrow> a = b"
  by (cases a; cases b) simp_all

lemma request_frames:
  assumes "deps_ok D" "validate_draft E d = Inr ()" "draft_typed d" "validate_draft E d' = Inr ()" "draft_typed d'"
    and "request_bytes D d mode = request_bytes D d' mode'"
  shows "mode = mode' \<and> dr_space d = dr_space d' \<and> dr_actor_kind d = dr_actor_kind d' \<and>
    dr_actor_id d = dr_actor_id d' \<and> dr_authority d = dr_authority d' \<and> dr_reason d = dr_reason d' \<and>
    dr_source d = dr_source d' \<and>
    map canonical_operation (dr_operations d) = map canonical_operation (dr_operations d')"
proof -
  have dig: "length (as_digest (dr_authority d)) = length (as_digest (dr_authority d'))"
    using assms(3,5) by (simp add: draft_typed_def)
  have inj: "hyphenated D (dr_space d) = hyphenated D (dr_space d') \<longleftrightarrow> dr_space d = dr_space d'"
    using assms(1) by (auto simp: deps_ok_def dest: injD)
  have ops: "frame_list hash_operation (dr_operations d) = frame_list hash_operation (dr_operations d') \<longleftrightarrow>
      map canonical_operation (dr_operations d) = map canonical_operation (dr_operations d')"
    using validate_draft_ok(4) [OF assms(2)] validate_draft_ok(4) [OF assms(4)]
      draft_operations_ok [OF assms(2,3)] draft_operations_ok [OF assms(4,5)]
    by (intro operations_frame.eq_iff conjI)
  show ?thesis
    using assms(6) dig
    by (cases "dr_authority d"; cases "dr_authority d'")
      (simp add: request_bytes_def frame_iffs ops append_same_length inj
        fits_space [OF assms(1)] validate_draft_ok [OF assms(2)] validate_draft_ok [OF assms(4)])
qed

end
