(* ===== verification/Om_Graph.thy ===== *)
theory Om_Graph
  imports Om_ChangesetHash "HOL-Library.Product_Lexorder" Complex_Main
begin

text \<open>
  The rows of a graph store and the write path of one group: name normalisation
  (\<open>openmemory-graph/src/normalize.rs\<close>), resolution (\<open>resolve.rs\<close>), entities, observations and
  relations (\<open>remember.rs\<close>), and reading and replacing an observation (\<open>audit.rs\<close>).

  A table is the list of its rows in insertion order; \<open>WHERE id = ?\<close> on a primary key is a lookup.
  Where SQL leaves the order of equal sort keys open, it is insertion order. \<open>strsim\<close> and the Unicode
  tables are fields of \<open>graph_deps\<close>; an \<open>f64\<close> score is a real number, since scores are only compared.
\<close>

section \<open>Rows\<close>

record entity_row =
  en_id :: str
  en_name :: str
  en_type :: entity_type
  en_created_at :: i64
  en_updated_at :: i64
  en_confidence :: f32
  en_source :: str

datatype relation_weight = WeightF32 f32 | WeightScore real

record relation_row =
  rl_id :: str
  rl_from :: str
  rl_to :: str
  rl_type :: str
  rl_weight :: relation_weight
  rl_created_at :: i64
  rl_valid_from :: "i64 option"
  rl_valid_until :: "i64 option"
  rl_source :: str

datatype row_lifecycle = LcActive | LcRetired | LcDestroyed

fun row_lifecycle_str :: "row_lifecycle \<Rightarrow> str" where
  "row_lifecycle_str LcActive = ''active''"
| "row_lifecycle_str LcRetired = ''retired''"
| "row_lifecycle_str LcDestroyed = ''destroyed''"

text \<open>\<open>ObservationRow\<close>. Concepts and source files are rows of side tables.\<close>

record observation_row =
  or_observation :: memory_observation
  or_current_revision :: "str option"
  or_row_version :: nat
  or_lifecycle :: row_lifecycle

record graph_db =
  gd_space :: "uuid option"
  gd_entities :: "entity_row list"
  gd_observations :: "observation_row list"
  gd_relations :: "relation_row list"
  gd_ids :: nat

record graph_deps = audit_deps +
  jaro_winkler :: "str \<Rightarrow> str \<Rightarrow> real"
  normalized_levenshtein :: "str \<Rightarrow> str \<Rightarrow> real"
  alnum_only :: "str \<Rightarrow> str"

definition row_id :: "observation_row \<Rightarrow> str" where
  "row_id r = mo_id (or_observation r)"

text \<open>\<open>new_id()\<close> and the other generators of UUIDs.\<close>

definition fresh_id :: "'d audit_deps_scheme \<Rightarrow> 'x graph_db_scheme \<Rightarrow> str \<times> 'x graph_db_scheme" where
  "fresh_id D db = (new_id D (gd_ids db), db\<lparr>gd_ids := Suc (gd_ids db)\<rparr>)"

section \<open>Name normalisation\<close>

datatype normalize_match = AutoMerge str real | Flag str real

definition token_sort :: "str \<Rightarrow> str" where
  "token_sort s = join_with '' '' (sort (split_whitespace s))"

definition raw_similarity :: "'d graph_deps_scheme \<Rightarrow> str \<Rightarrow> str \<Rightarrow> real" where
  "raw_similarity D a b = min (jaro_winkler D a b) (normalized_levenshtein D a b)"

definition similarity :: "'d graph_deps_scheme \<Rightarrow> str \<Rightarrow> str \<Rightarrow> real" where
  "similarity D a b =
     (let a_low = to_lowercase D a; b_low = to_lowercase D b;
          a_stripped = alnum_only D a_low; b_stripped = alnum_only D b_low
      in if a_stripped = [] \<or> b_stripped = [] then raw_similarity D a_low b_low
         else if a_stripped = b_stripped then 1
         else let a_sorted = token_sort a_low; b_sorted = token_sort b_low in
           if a_sorted = b_sorted then 1
           else min (max (jaro_winkler D a_sorted b_sorted) (jaro_winkler D a_stripped b_stripped))
                    (normalized_levenshtein D a_stripped b_stripped))"

fun best_candidate :: "'d graph_deps_scheme \<Rightarrow> str \<Rightarrow> str option \<Rightarrow> real \<Rightarrow> (str \<times> str) list \<Rightarrow>
    str option \<times> real" where
  "best_candidate D name best score [] = (best, score)"
| "best_candidate D name best score ((i, c) # cs) =
     (if similarity D name c > score then best_candidate D name (Some i) (similarity D name c) cs
      else best_candidate D name best score cs)"

definition find_best_match :: "'d graph_deps_scheme \<Rightarrow> str \<Rightarrow> (str \<times> str) list \<Rightarrow> real \<Rightarrow> real \<Rightarrow>
    normalize_match option" where
  "find_best_match D name candidates auto flag =
     (case best_candidate D name None 0 candidates of
        (None, _) \<Rightarrow> None
      | (Some i, score) \<Rightarrow>
          if score \<ge> auto then Some (AutoMerge i score)
          else if score \<ge> flag then Some (Flag i score) else None)"

section \<open>Entities\<close>

record normalization_params =
  np_enabled :: bool
  np_auto_merge :: real
  np_flag :: real
  np_max_candidates :: nat

record ensure_result =
  er_entity_id :: str
  er_existed :: bool
  er_normalized :: "normalize_match option"

definition touch_entity :: "str \<Rightarrow> i64 \<Rightarrow> 'x graph_db_scheme \<Rightarrow> 'x graph_db_scheme" where
  "touch_entity i now db = db\<lparr>gd_entities :=
     map (\<lambda>e. if en_id e = i then e\<lparr>en_updated_at := now\<rparr> else e) (gd_entities db)\<rparr>"

definition create_entity :: "'d audit_deps_scheme \<Rightarrow> str \<Rightarrow> entity_type \<Rightarrow> str \<Rightarrow> i64 \<Rightarrow>
    'x graph_db_scheme \<Rightarrow> str \<times> 'x graph_db_scheme" where
  "create_entity D name t source now db =
     (let (i, db1) = fresh_id D db in
      (i, db1\<lparr>gd_entities := gd_entities db1 @ [\<lparr>en_id = i, en_name = name, en_type = t,
            en_created_at = now, en_updated_at = now, en_confidence = 0x3F800000, en_source = source\<rparr>]\<rparr>))"

text \<open>The newest entities of the type that are not partition stubs.\<close>

definition normalization_candidates :: "entity_type \<Rightarrow> nat \<Rightarrow> 'x graph_db_scheme \<Rightarrow> (str \<times> str) list" where
  "normalization_candidates t n db =
     map (\<lambda>e. (en_id e, en_name e))
       (take n (sort_key (\<lambda>e. - sint (en_updated_at e))
         (filter (\<lambda>e. en_type e = t \<and> en_source e \<noteq> PARTITION_STUB_SOURCE) (gd_entities db))))"

definition ensure_entity :: "'d graph_deps_scheme \<Rightarrow> str \<Rightarrow> entity_type \<Rightarrow> str \<Rightarrow> i64 \<Rightarrow>
    normalization_params \<Rightarrow> 'x graph_db_scheme \<Rightarrow> ensure_result \<times> 'x graph_db_scheme" where
  "ensure_entity D name t source now p db =
     (case find (\<lambda>e. en_name e = name \<and> en_type e = t) (gd_entities db) of
        Some e \<Rightarrow> (\<lparr>er_entity_id = en_id e, er_existed = True, er_normalized = None\<rparr>,
                    touch_entity (en_id e) now db)
      | None \<Rightarrow>
         (case (if np_enabled p
                then find_best_match D name (normalization_candidates t (np_max_candidates p) db)
                       (np_auto_merge p) (np_flag p)
                else None) of
            Some (AutoMerge i score) \<Rightarrow>
              (\<lparr>er_entity_id = i, er_existed = True, er_normalized = Some (AutoMerge i score)\<rparr>,
               touch_entity i now db)
          | Some (Flag i score) \<Rightarrow>
              (let (new, db1) = create_entity D name t source now db; (rel, db2) = fresh_id D db1 in
               (\<lparr>er_entity_id = new, er_existed = False, er_normalized = Some (Flag i score)\<rparr>,
                db2\<lparr>gd_relations := gd_relations db2 @ [\<lparr>rl_id = rel, rl_from = new, rl_to = i,
                     rl_type = ''SAME_AS'', rl_weight = WeightScore score, rl_created_at = now,
                     rl_valid_from = None, rl_valid_until = None, rl_source = ''normalization''\<rparr>]\<rparr>))
          | None \<Rightarrow>
              (let (new, db1) = create_entity D name t source now db in
               (\<lparr>er_entity_id = new, er_existed = False, er_normalized = None\<rparr>, db1))))"

section \<open>Groups\<close>

text \<open>\<open>f32::clamp(0.0, 1.0)\<close>, which keeps NaN and minus zero; SQLite stores NaN as NULL.\<close>

definition f32_nan :: "f32 \<Rightarrow> bool" where
  "f32_nan b \<longleftrightarrow> \<not> f32_finite b \<and> unat b mod 2 ^ 23 \<noteq> 0"

definition f32_clamp_unit :: "f32 \<Rightarrow> f32" where
  "f32_clamp_unit b =
     (if f32_nan b then b else if unat b > 0x80000000 then 0
      else if b = 0x80000000 then b else if unat b > 0x3F800000 then 0x3F800000 else b)"

definition stored_f32 :: "f32 \<Rightarrow> f32 option" where
  "stored_f32 b = (if f32_nan b then None else Some b)"

text \<open>\<open>INSERT OR IGNORE\<close> of the items that are not blank.\<close>

definition side_rows :: "str list \<Rightarrow> str list" where
  "side_rows vs = fold (\<lambda>v acc. if is_blank v \<or> v \<in> set acc then acc else acc @ [v]) vs []"

definition observation_of_input :: "str \<Rightarrow> str \<Rightarrow> str \<Rightarrow> i64 \<Rightarrow> observation_input \<Rightarrow> memory_observation" where
  "observation_of_input i entity source now x = \<lparr>
     mo_id = i, mo_entity_id = entity, mo_content = oi_content x, mo_observed_at = now,
     mo_valid_from = Some (case oi_valid_from x of None \<Rightarrow> now | Some v \<Rightarrow> v),
     mo_valid_until = oi_valid_until x, mo_confidence = oi_confidence x,
     mo_source = (if oi_source x = [] then source else oi_source x),
     mo_tombstoned = False, mo_access_count = 0, mo_memory_tier = oi_memory_tier x,
     mo_title = oi_title x, mo_summary = oi_summary x,
     mo_importance = Option.bind (oi_importance x) (\<lambda>v. stored_f32 (f32_clamp_unit v)),
     mo_source_kind = oi_source_kind x, mo_concepts = side_rows (oi_concepts x),
     mo_source_files = side_rows (oi_source_files x)\<rparr>"

definition insert_observation :: "'d audit_deps_scheme \<Rightarrow> str \<Rightarrow> str \<Rightarrow> i64 \<Rightarrow> observation_input \<Rightarrow>
    'x graph_db_scheme \<Rightarrow> memory_error + str \<times> 'x graph_db_scheme" where
  "insert_observation D entity source now x db =
     (if stored_f32 (oi_confidence x) = None
      then Inl (MemSqlite ''NOT NULL constraint failed: observations.confidence'')
      else let (i, db1) = fresh_id D db in
        Inr (i, db1\<lparr>gd_observations := gd_observations db1 @
          [\<lparr>or_observation = observation_of_input i entity source now x, or_current_revision = None,
            or_row_version = 1, or_lifecycle = LcActive\<rparr>]\<rparr>))"

definition insert_relation :: "'d graph_deps_scheme \<Rightarrow> str \<Rightarrow> str \<Rightarrow> i64 \<Rightarrow> normalization_params \<Rightarrow>
    relation_input \<Rightarrow> 'x graph_db_scheme \<Rightarrow> memory_error + str \<times> 'x graph_db_scheme" where
  "insert_relation D entity source now p x db =
     (let src = (if ri_source x = [] then source else ri_source x);
          (target, db1) = ensure_entity D (ri_target_name x) (ri_target_type x) src now p db;
          (i, db2) = fresh_id D db1
      in if stored_f32 (ri_weight x) = None
         then Inl (MemSqlite ''NOT NULL constraint failed: relations.weight'')
         else Inr (i, db2\<lparr>gd_relations := gd_relations db2 @ [\<lparr>rl_id = i, rl_from = entity,
             rl_to = er_entity_id target, rl_type = ri_relation_type x, rl_weight = WeightF32 (ri_weight x),
             rl_created_at = now, rl_valid_from = Some now, rl_valid_until = None, rl_source = src\<rparr>]\<rparr>))"

text \<open>A loop that inserts one row per item and collects the identifiers.\<close>

fun insert_each :: "('a \<Rightarrow> 'db \<Rightarrow> memory_error + str \<times> 'db) \<Rightarrow> 'a list \<Rightarrow> 'db \<Rightarrow>
    memory_error + str list \<times> 'db" where
  "insert_each f [] db = Inr ([], db)"
| "insert_each f (x # xs) db =
     bind_result (f x db) (\<lambda>(i, db1).
       bind_result (insert_each f xs db1) (\<lambda>(ids, db2). Inr (i # ids, db2)))"

record remember_outcome =
  ro_entity_id :: str
  ro_entity_existed :: bool
  ro_observation_ids :: "str list"
  ro_relation_ids :: "str list"
  ro_normalized :: "normalize_match option"

definition write_group :: "'d graph_deps_scheme \<Rightarrow> str \<Rightarrow> entity_type \<Rightarrow> observation_input list \<Rightarrow>
    relation_input list \<Rightarrow> str \<Rightarrow> i64 \<Rightarrow> normalization_params \<Rightarrow> 'x graph_db_scheme \<Rightarrow>
    memory_error + remember_outcome \<times> 'x graph_db_scheme" where
  "write_group D name t obs rels source now p db =
     (let (ent, db1) = ensure_entity D name t source now p db in
      bind_result (insert_each (insert_observation D (er_entity_id ent) source now) obs db1) (\<lambda>(oids, db2).
      bind_result (insert_each (insert_relation D (er_entity_id ent) source now p) rels db2) (\<lambda>(rids, db3).
        Inr (\<lparr>ro_entity_id = er_entity_id ent, ro_entity_existed = er_existed ent,
              ro_observation_ids = oids, ro_relation_ids = rids, ro_normalized = er_normalized ent\<rparr>, db3))))"

section \<open>Resolving a name\<close>

definition MAX_NAME_CANDIDATES :: nat where "MAX_NAME_CANDIDATES = 64"

record entity_candidates =
  ec_name :: str
  ec_entities :: "entity_row list"
  ec_truncated :: bool

datatype entity_resolution = ResNotFound | ResUnique entity_row | ResAmbiguous entity_candidates

definition candidate_labels :: "entity_candidates \<Rightarrow> str list" where
  "candidate_labels c = map (\<lambda>e. en_id e @ '' ('' @ entity_type_str (en_type e) @ '')'') (ec_entities c)"

definition from_ordered_rows :: "str \<Rightarrow> entity_row list \<Rightarrow> bool \<Rightarrow> entity_resolution" where
  "from_ordered_rows name rows truncated =
     (if rows = [] then ResNotFound
      else if length rows = 1 \<and> \<not> truncated then ResUnique (hd rows)
      else ResAmbiguous \<lparr>ec_name = name, ec_entities = rows, ec_truncated = truncated\<rparr>)"

definition entity_order :: "entity_row \<Rightarrow> int \<times> str" where
  "entity_order e = (sint (en_created_at e), en_id e)"

definition resolve_rows :: "str \<Rightarrow> entity_row list \<Rightarrow> entity_resolution" where
  "resolve_rows name matching =
     (let rows = take (MAX_NAME_CANDIDATES + 1) (sort_key entity_order matching)
      in from_ordered_rows name (take MAX_NAME_CANDIDATES rows) (length rows > MAX_NAME_CANDIDATES))"

definition resolve_entity :: "str \<Rightarrow> 'x graph_db_scheme \<Rightarrow> entity_resolution" where
  "resolve_entity name db = resolve_rows name (filter (\<lambda>e. en_name e = name) (gd_entities db))"

definition resolve_entity_by_name_and_type :: "str \<Rightarrow> entity_type \<Rightarrow> 'x graph_db_scheme \<Rightarrow> entity_resolution" where
  "resolve_entity_by_name_and_type name t db =
     resolve_rows name (filter (\<lambda>e. en_name e = name \<and> en_type e = t) (gd_entities db))"

definition resolution_unique :: "entity_resolution \<Rightarrow> entity_row option" where
  "resolution_unique r = (case r of ResUnique e \<Rightarrow> Some e | _ \<Rightarrow> None)"

definition resolution_candidates :: "entity_resolution \<Rightarrow> entity_row list" where
  "resolution_candidates r = (case r of ResNotFound \<Rightarrow> [] | ResUnique e \<Rightarrow> [e] | ResAmbiguous c \<Rightarrow> ec_entities c)"

definition choose_oldest :: "entity_resolution \<Rightarrow> (entity_row \<times> entity_candidates option) option" where
  "choose_oldest r =
     (case r of ResNotFound \<Rightarrow> None | ResUnique e \<Rightarrow> Some (e, None)
      | ResAmbiguous c \<Rightarrow> (case ec_entities c of [] \<Rightarrow> None | e # _ \<Rightarrow> Some (e, Some c)))"

section \<open>One observation\<close>

definition find_row :: "str \<Rightarrow> observation_row list \<Rightarrow> observation_row option" where
  "find_row i rows = find (\<lambda>r. row_id r = i) rows"

definition update_rows :: "(observation_row \<Rightarrow> bool) \<Rightarrow> (observation_row \<Rightarrow> observation_row) \<Rightarrow>
    'x graph_db_scheme \<Rightarrow> 'x graph_db_scheme" where
  "update_rows P f db = db\<lparr>gd_observations := map (\<lambda>r. if P r then f r else r) (gd_observations db)\<rparr>"

definition load_observation :: "'x graph_db_scheme \<Rightarrow> str \<Rightarrow> observation_row option" where
  "load_observation db i =
     map_option (\<lambda>r. r\<lparr>or_observation := (or_observation r)
         \<lparr>mo_concepts := sort (mo_concepts (or_observation r)),
          mo_source_files := sort (mo_source_files (or_observation r))\<rparr>\<rparr>)
       (find_row i (gd_observations db))"

text \<open>\<open>replace_observation\<close> writes every column but the identifier, the access count, the head revision
  and the row version; the side tables have primary keys, the entity is a foreign key.\<close>

definition replaced_row :: "memory_observation \<Rightarrow> observation_row \<Rightarrow> observation_row" where
  "replaced_row x r = r\<lparr>
     or_observation := x\<lparr>mo_id := row_id r, mo_access_count := mo_access_count (or_observation r)\<rparr>,
     or_lifecycle := (if mo_tombstoned x then LcRetired else LcActive)\<rparr>"

definition replace_observation :: "memory_observation \<Rightarrow> 'x graph_db_scheme \<Rightarrow>
    memory_error + 'x graph_db_scheme" where
  "replace_observation x db =
     (if \<not> list_ex (\<lambda>e. en_id e = mo_entity_id x) (gd_entities db)
      then Inl (MemSqlite ''FOREIGN KEY constraint failed'')
      else if \<not> distinct (mo_concepts x)
      then Inl (MemSqlite ''UNIQUE constraint failed: observation_concepts.observation_id, observation_concepts.concept'')
      else if \<not> distinct (mo_source_files x)
      then Inl (MemSqlite ''UNIQUE constraint failed: observation_source_files.observation_id, observation_source_files.file_path'')
      else Inr (update_rows (\<lambda>r. row_id r = mo_id x) (replaced_row x) db))"

end
