(* ===== verification/Om_Audit.thy ===== *)
theory Om_Audit
  imports Om_Graph
begin

text \<open>
  The audited mutations of a graph store (\<open>openmemory-graph/src/audit.rs\<close>): the tables of changesets,
  requests, events, revisions, the index outbox and destruction confirmations, and what one
  transaction does to them. A transaction is a function from the database to an error or the next
  database; an error rolls back, so the identifiers it generated are stored nowhere. Columns
  that no operation reads (creation times, version numbers of formats) are left out; \<open>serde_json\<close>
  texts of values this store wrote itself are the values, except for the payload of requests.
\<close>

section \<open>Tables\<close>

record change_set =
  ct_id :: str
  ct_space :: uuid
  ct_key :: str
  ct_request_hash :: str
  ct_mode :: submit_mode
  ct_actor_kind :: actor_kind
  ct_actor_id :: str
  ct_authority :: str
  ct_reason :: str
  ct_source :: str
  ct_base :: nat
  ct_committed :: "nat option"
  ct_state :: changeset_state
  ct_version :: nat
  ct_updated_at :: i64

record change_request =
  cq_changeset :: str
  cq_ordinal :: nat
  cq_object_kind :: object_kind
  cq_logical_id :: str
  cq_operation :: str
  cq_payload :: str
  cq_expected_revision :: "str option"
  cq_expected_version :: "nat option"
  cq_expected_lifecycle :: "str option"

text \<open>The payload of a review event holds the reviewer and the reason.\<close>

record change_event =
  ev_changeset :: str
  ev_ordinal :: nat
  ev_type :: str
  ev_logical_id :: "str option"
  ev_revision :: "str option"
  ev_review :: "(review_authorization \<times> str) option"

record observation_revision =
  vr_revision :: str
  vr_observation_id :: str
  vr_parent :: "str option"
  vr_changeset :: str
  vr_observation :: memory_observation
  vr_lifecycle :: row_lifecycle
  vr_semantic_hash :: str

record outbox_row =
  xo_id :: nat
  xo_generation :: nat
  xo_ordinal :: nat
  xo_delete :: bool
  xo_logical_id :: str
  xo_revision :: "str option"
  xo_attempts :: nat
  xo_error :: "str option"
  xo_applied_at :: "i64 option"

record confirmation_row =
  cf_token_hash :: str
  cf_space :: uuid
  cf_logical_id :: str
  cf_revision :: "str option"
  cf_row_version :: nat
  cf_preview_hash :: str
  cf_actor_id :: str
  cf_authority :: str
  cf_expires_at :: i64
  cf_consumed_at :: "i64 option"

record destruction_row =
  dn_changeset :: str
  dn_space :: uuid
  dn_logical_id :: str
  dn_preview_hash :: str
  dn_actor_id :: str
  dn_destroyed_at :: i64

record audit_db = graph_db +
  ad_changesets :: "change_set list"
  ad_requests :: "change_request list"
  ad_events :: "change_event list"
  ad_revisions :: "observation_revision list"
  ad_outbox :: "outbox_row list"
  ad_confirmations :: "confirmation_row list"
  ad_receipts :: "destruction_row list"
  ad_semantic :: nat
  ad_indexed :: nat
  ad_repair :: bool
  ad_cursor :: "str option"
  ad_backfilled :: bool

text \<open>\<open>i64::try_from(n).unwrap_or(i64::MAX)\<close>.\<close>

definition to_i64 :: "nat \<Rightarrow> nat" where
  "to_i64 n = min n (2 ^ 63 - 1)"

definition no_row :: "memory_error + 'a" where
  "no_row = Inl (MemSqlite ''Query returned no rows'')"

definition find_change_set :: "str \<Rightarrow> 'x audit_db_scheme \<Rightarrow> change_set option" where
  "find_change_set i db = find (\<lambda>c. ct_id c = i) (ad_changesets db)"

section \<open>Rows written by a transaction\<close>

definition insert_change_set :: "change_set \<Rightarrow> 'x audit_db_scheme \<Rightarrow> memory_error + 'x audit_db_scheme" where
  "insert_change_set c db =
     (if list_ex (\<lambda>d. ct_space d = ct_space c \<and> ct_key d = ct_key c) (ad_changesets db)
      then Inl (MemSqlite ''UNIQUE constraint failed: change_sets.space_id, change_sets.idempotency_key'')
      else Inr (db\<lparr>ad_changesets := ad_changesets db @ [c]\<rparr>))"

fun expected_lifecycle :: "change_operation \<Rightarrow> str option" where
  "expected_lifecycle (OpRetire i v) = Some ''active''"
| "expected_lifecycle (OpRestore i v) = Some ''retired''"
| "expected_lifecycle _ = None"

definition request_row :: "'d audit_deps_scheme \<Rightarrow> str \<Rightarrow> nat \<times> change_operation \<Rightarrow> change_request" where
  "request_row D cs = (\<lambda>(n, op). \<lparr>cq_changeset = cs, cq_ordinal = n, cq_object_kind = op_object_kind op,
     cq_logical_id = op_logical_id op, cq_operation = op_operation_name op, cq_payload = op_json D op,
     cq_expected_revision = op_expected_revision_id op,
     cq_expected_version = map_option (\<lambda>v. to_i64 (unat v)) (op_expected_row_version op),
     cq_expected_lifecycle = expected_lifecycle op\<rparr>)"

definition insert_requests :: "'d audit_deps_scheme \<Rightarrow> str \<Rightarrow> change_operation list \<Rightarrow>
    'x audit_db_scheme \<Rightarrow> 'x audit_db_scheme" where
  "insert_requests D cs ops db =
     db\<lparr>ad_requests := ad_requests db @ map (request_row D cs) (enumerate 0 ops)\<rparr>"

definition insert_outbox :: "nat \<Rightarrow> nat \<Rightarrow> bool \<Rightarrow> str \<Rightarrow> str option \<Rightarrow> 'x audit_db_scheme \<Rightarrow>
    memory_error + 'x audit_db_scheme" where
  "insert_outbox generation ordinal del logical revision db =
     (let g = to_i64 generation; n = to_i64 ordinal in
      if list_ex (\<lambda>x. xo_generation x = g \<and> xo_ordinal x = n) (ad_outbox db)
      then Inl (MemSqlite ''UNIQUE constraint failed: index_outbox.semantic_generation, index_outbox.ordinal'')
      else Inr (db\<lparr>ad_outbox := ad_outbox db @ [\<lparr>xo_id = Suc (length (ad_outbox db)), xo_generation = g,
        xo_ordinal = n, xo_delete = del, xo_logical_id = logical, xo_revision = revision,
        xo_attempts = 0, xo_error = None, xo_applied_at = None\<rparr>]\<rparr>))"

definition insert_event :: "change_event \<Rightarrow> 'x audit_db_scheme \<Rightarrow> memory_error + 'x audit_db_scheme" where
  "insert_event e db =
     (if list_ex (\<lambda>f. ev_changeset f = ev_changeset e \<and> ev_ordinal f = ev_ordinal e) (ad_events db)
      then Inl (MemSqlite ''UNIQUE constraint failed: change_events.changeset_id, change_events.ordinal'')
      else Inr (db\<lparr>ad_events := ad_events db @ [e]\<rparr>))"

definition insert_operation_event :: "str \<Rightarrow> nat \<Rightarrow> str \<Rightarrow> str \<Rightarrow> str option \<Rightarrow> 'x audit_db_scheme \<Rightarrow>
    memory_error + 'x audit_db_scheme" where
  "insert_operation_event cs ordinal kind logical revision db =
     insert_event \<lparr>ev_changeset = cs, ev_ordinal = ordinal, ev_type = kind, ev_logical_id = Some logical,
       ev_revision = revision, ev_review = None\<rparr> db"

text \<open>\<open>COALESCE(MAX(ordinal), -1) + 1\<close>.\<close>

definition next_ordinal :: "str \<Rightarrow> change_event list \<Rightarrow> nat" where
  "next_ordinal cs es = fold (\<lambda>e n. if ev_changeset e = cs then max n (Suc (ev_ordinal e)) else n) es 0"

definition insert_review_event :: "str \<Rightarrow> str \<Rightarrow> review_authorization \<Rightarrow> str \<Rightarrow> 'x audit_db_scheme \<Rightarrow>
    memory_error + 'x audit_db_scheme" where
  "insert_review_event cs kind review reason db =
     insert_event \<lparr>ev_changeset = cs, ev_ordinal = next_ordinal cs (ad_events db), ev_type = kind,
       ev_logical_id = None, ev_revision = None, ev_review = Some (review, reason)\<rparr> db"

text \<open>\<open>observation_hash\<close>; the confidence is not framed.\<close>

definition observation_hash :: "'d deps_scheme \<Rightarrow> memory_observation \<Rightarrow> row_lifecycle \<Rightarrow> str" where
  "observation_hash D x lc = blake3_text D (''openmemory/observation/v1'' @ frame_str (mo_entity_id x) @
     frame_str (mo_content x) @ frame_optional_str (mo_title x) @ frame_optional_str (mo_summary x) @
     frame_str (mo_source x) @ frame_optional_str (mo_source_kind x) @
     frame_str (memory_tier_str (mo_memory_tier x)) @ frame_str (row_lifecycle_str lc) @
     frame_i64 (mo_observed_at x) @ frame_optional_i64 (mo_valid_from x) @
     frame_optional_i64 (mo_valid_until x) @ le_bytes 4 (unat (mo_confidence x)) @
     frame_importance (mo_importance x) @ frame_sorted_strings (mo_concepts x) @
     frame_sorted_strings (mo_source_files x))"

definition insert_revision :: "'d audit_deps_scheme \<Rightarrow> observation_row \<Rightarrow> str option \<Rightarrow> str \<Rightarrow>
    'x audit_db_scheme \<Rightarrow> str \<times> 'x audit_db_scheme" where
  "insert_revision D row parent cs db =
     (let (i, db1) = fresh_id D db in
      (i, db1\<lparr>ad_revisions := ad_revisions db1 @ [\<lparr>vr_revision = i, vr_observation_id = row_id row,
          vr_parent = parent, vr_changeset = cs, vr_observation = or_observation row,
          vr_lifecycle = or_lifecycle row,
          vr_semantic_hash = observation_hash D (or_observation row) (or_lifecycle row)\<rparr>]\<rparr>))"

text \<open>The revision a revert goes back to, as an observation.\<close>

definition observation_from_revision :: "str \<Rightarrow> str \<Rightarrow> 'x audit_db_scheme \<Rightarrow> memory_error + memory_observation" where
  "observation_from_revision revision i db =
     (case find (\<lambda>v. vr_revision v = revision \<and> vr_observation_id v = i) (ad_revisions db) of
        None \<Rightarrow> no_row
      | Some v \<Rightarrow> Inr ((vr_observation v)\<lparr>mo_id := i, mo_tombstoned := (vr_lifecycle v \<noteq> LcActive),
          mo_access_count := 0\<rparr>))"

definition load_required :: "'x graph_db_scheme \<Rightarrow> str \<Rightarrow> memory_error + observation_row" where
  "load_required db i =
     (case load_observation db i of None \<Rightarrow> Inl (MemObservationNotFound i) | Some r \<Rightarrow> Inr r)"

definition set_revision :: "str \<Rightarrow> str \<Rightarrow> 'x graph_db_scheme \<Rightarrow> 'x graph_db_scheme" where
  "set_revision i revision db = update_rows (\<lambda>r. row_id r = i) (\<lambda>r. r\<lparr>or_current_revision := Some revision\<rparr>) db"

text \<open>\<open>UPDATE observations SET current_revision_id, row_version = row_version + 1 WHERE id AND row_version\<close>.\<close>

definition advance_head :: "str \<Rightarrow> u64 \<Rightarrow> str \<Rightarrow> 'x graph_db_scheme \<Rightarrow> 'x graph_db_scheme" where
  "advance_head i expected revision db =
     update_rows (\<lambda>r. row_id r = i \<and> or_row_version r = to_i64 (unat expected))
       (\<lambda>r. r\<lparr>or_current_revision := Some revision, or_row_version := or_row_version r + 1\<rparr>) db"

definition rows_at :: "str \<Rightarrow> u64 \<Rightarrow> 'x graph_db_scheme \<Rightarrow> nat" where
  "rows_at i expected db =
     length (filter (\<lambda>r. row_id r = i \<and> or_row_version r = to_i64 (unat expected)) (gd_observations db))"

definition scoped_ordinal :: "nat \<Rightarrow> nat \<Rightarrow> nat" where
  "scoped_ordinal operation item =
     saturating_add (min (operation * (MAX_LIST_ITEMS + 1)) (2 ^ 64 - 1)) item"

section \<open>Applying an operation\<close>

definition check_expected :: "observation_row \<Rightarrow> u64 \<Rightarrow> str option \<Rightarrow> row_lifecycle \<Rightarrow> memory_error + unit" where
  "check_expected row version revision lc =
     (if or_row_version row \<noteq> unat version \<or> or_lifecycle row \<noteq> lc \<or>
         (revision \<noteq> None \<and> or_current_revision row \<noteq> revision)
      then Inl MemChangeSetStale else Inr ())"

text \<open>The head, the outbox row and the event of one observation that was written anew; shared by
  \<open>Remember\<close> operations and by \<open>record_legacy_remembers\<close>.\<close>

definition record_remembered :: "'d audit_deps_scheme \<Rightarrow> str \<Rightarrow> nat \<Rightarrow> nat \<Rightarrow> str \<Rightarrow> 'x audit_db_scheme \<Rightarrow>
    memory_error + 'x audit_db_scheme" where
  "record_remembered D cs generation ordinal i db =
     bind_result (load_required db i) (\<lambda>row.
       let (revision, db1) = insert_revision D row None cs db; db2 = set_revision i revision db1 in
       bind_result (insert_outbox generation ordinal False i (Some revision) db2)
         (insert_operation_event cs ordinal ''remembered'' i (Some revision)))"

fun record_all :: "'d audit_deps_scheme \<Rightarrow> str \<Rightarrow> nat \<Rightarrow> nat \<Rightarrow> nat \<Rightarrow> str list \<Rightarrow> 'x audit_db_scheme \<Rightarrow>
    memory_error + 'x audit_db_scheme" where
  "record_all D cs generation operation item [] db = Inr db"
| "record_all D cs generation operation item (i # ids) db =
     bind_result (record_remembered D cs generation (scoped_ordinal operation item) i db)
       (record_all D cs generation operation (Suc item) ids)"

text \<open>Outbox row and event of a change of an existing observation.\<close>

definition record_change :: "str \<Rightarrow> nat \<Rightarrow> nat \<Rightarrow> bool \<Rightarrow> str \<Rightarrow> str \<Rightarrow> str \<Rightarrow> 'x audit_db_scheme \<Rightarrow>
    memory_error + 'x audit_db_scheme" where
  "record_change cs generation ordinal del kind i revision db =
     bind_result (insert_outbox generation (scoped_ordinal ordinal 0) del i (Some revision) db)
       (insert_operation_event cs (scoped_ordinal ordinal 0) kind i (Some revision))"

definition apply_lifecycle :: "'d audit_deps_scheme \<Rightarrow> str \<Rightarrow> u64 \<Rightarrow> bool \<Rightarrow> str \<Rightarrow> nat \<Rightarrow> nat \<Rightarrow>
    'x audit_db_scheme \<Rightarrow> memory_error + 'x audit_db_scheme" where
  "apply_lifecycle D i expected retire cs generation ordinal db =
     bind_result (load_required db i) (\<lambda>current.
       if or_row_version current \<noteq> unat expected \<or>
          or_lifecycle current \<noteq> (if retire then LcActive else LcRetired)
       then Inl MemChangeSetStale
       else let db1 = update_rows (\<lambda>r. row_id r = i \<and> or_row_version r = to_i64 (unat expected))
                  (\<lambda>r. r\<lparr>or_observation := (or_observation r)\<lparr>mo_tombstoned := retire\<rparr>,
                         or_lifecycle := (if retire then LcRetired else LcActive)\<rparr>) db
         in bind_result (load_required db1 i) (\<lambda>refreshed.
           let (revision, db2) = insert_revision D refreshed (or_current_revision current) cs db1
           in record_change cs generation ordinal retire (if retire then ''retired'' else ''restored'') i
                revision (advance_head i expected revision db2)))"

definition apply_update :: "'d audit_deps_scheme \<Rightarrow> memory_observation \<Rightarrow> u64 \<Rightarrow> str option \<Rightarrow> str \<Rightarrow> nat \<Rightarrow> nat \<Rightarrow>
    'x audit_db_scheme \<Rightarrow> memory_error + 'x audit_db_scheme" where
  "apply_update D x expected expected_revision cs generation ordinal db =
     bind_result (load_required db (mo_id x)) (\<lambda>current.
     bind_result (check_expected current expected expected_revision LcActive) (\<lambda>_.
       if mo_entity_id x \<noteq> mo_entity_id (or_observation current) \<or> mo_tombstoned x
       then invalid ''an observation update cannot change identity or lifecycle''
       else bind_result (replace_observation x db) (\<lambda>db1.
         bind_result (load_required db1 (mo_id x)) (\<lambda>refreshed.
           let (revision, db2) = insert_revision D refreshed (or_current_revision current) cs db1 in
           if rows_at (mo_id x) expected db2 \<noteq> 1 then Inl MemChangeSetStale
           else record_change cs generation ordinal False ''updated'' (mo_id x) revision
                  (advance_head (mo_id x) expected revision db2)))))"

definition apply_revert :: "'d audit_deps_scheme \<Rightarrow> str \<Rightarrow> str \<Rightarrow> u64 \<Rightarrow> str \<Rightarrow> nat \<Rightarrow> nat \<Rightarrow>
    'x audit_db_scheme \<Rightarrow> memory_error + 'x audit_db_scheme" where
  "apply_revert D i target expected cs generation ordinal db =
     bind_result (load_required db i) (\<lambda>current.
       if or_row_version current \<noteq> unat expected then Inl MemChangeSetStale
       else bind_result (observation_from_revision target i db) (\<lambda>historical.
         bind_result (replace_observation historical db) (\<lambda>db1.
         bind_result (load_required db1 i) (\<lambda>refreshed.
           let (revision, db2) = insert_revision D refreshed (or_current_revision current) cs db1
           in record_change cs generation ordinal False ''reverted'' i revision
                (advance_head i expected revision db2)))))"

definition confirmation_matches :: "confirmation_row \<Rightarrow> change_set \<Rightarrow> str \<Rightarrow> str option \<Rightarrow> u64 \<Rightarrow> i64 \<Rightarrow> bool" where
  "confirmation_matches c s i revision expected now \<longleftrightarrow>
     \<not> (cf_space c \<noteq> ct_space s \<or> cf_logical_id c \<noteq> i \<or> cf_revision c \<noteq> revision \<or>
        cf_row_version c \<noteq> to_i64 (unat expected) \<or> cf_actor_id c \<noteq> ct_actor_id s \<or>
        cf_authority c \<noteq> ct_authority s \<or> sint (cf_expires_at c) < sint now \<or> cf_consumed_at c \<noteq> None)"

definition consume_confirmation :: "str \<Rightarrow> i64 \<Rightarrow> 'x audit_db_scheme \<Rightarrow> 'x audit_db_scheme" where
  "consume_confirmation token now db = db\<lparr>ad_confirmations :=
     map (\<lambda>c. if cf_token_hash c = token \<and> cf_consumed_at c = None then c\<lparr>cf_consumed_at := Some now\<rparr> else c)
       (ad_confirmations db)\<rparr>"

definition unconsumed :: "str \<Rightarrow> 'x audit_db_scheme \<Rightarrow> nat" where
  "unconsumed token db =
     length (filter (\<lambda>c. cf_token_hash c = token \<and> cf_consumed_at c = None) (ad_confirmations db))"

definition insert_destruction :: "destruction_row \<Rightarrow> 'x audit_db_scheme \<Rightarrow> memory_error + 'x audit_db_scheme" where
  "insert_destruction r db =
     (if list_ex (\<lambda>q. dn_changeset q = dn_changeset r) (ad_receipts db)
      then Inl (MemSqlite ''UNIQUE constraint failed: destruction_receipts.changeset_id'')
      else Inr (db\<lparr>ad_receipts := ad_receipts db @ [r]\<rparr>))"

definition apply_destroy :: "'d audit_deps_scheme \<Rightarrow> str \<Rightarrow> u64 \<Rightarrow> str option \<Rightarrow> str \<Rightarrow> str \<Rightarrow> nat \<Rightarrow> nat \<Rightarrow> i64 \<Rightarrow>
    'x audit_db_scheme \<Rightarrow> memory_error + 'x audit_db_scheme" where
  "apply_destroy D i expected expected_revision token cs generation ordinal now db =
     bind_result (load_required db i) (\<lambda>current.
     bind_result (check_expected current expected expected_revision (or_lifecycle current)) (\<lambda>_.
     case (find (\<lambda>c. cf_token_hash c = token) (ad_confirmations db), find_change_set cs db) of
       (Some c, Some s) \<Rightarrow>
         (if \<not> confirmation_matches c s i expected_revision expected now
          then invalid ''destruction confirmation is stale, consumed, or mismatched''
          else let destroyed = current\<lparr>or_observation := (or_observation current)\<lparr>mo_tombstoned := True\<rparr>,
                                       or_lifecycle := LcDestroyed\<rparr>;
                   (revision, db1) = insert_revision D destroyed (or_current_revision current) cs db
            in bind_result (record_change cs generation ordinal True ''destroyed'' i revision db1) (\<lambda>db2.
              if rows_at i expected db2 \<noteq> 1 then Inl MemChangeSetStale
              else let db3 = db2\<lparr>gd_observations := filter (\<lambda>r. \<not> (row_id r = i \<and>
                          or_row_version r = to_i64 (unat expected))) (gd_observations db2)\<rparr>
                in if unconsumed token db3 \<noteq> 1
                   then invalid ''destruction confirmation was already consumed''
                   else insert_destruction \<lparr>dn_changeset = cs, dn_space = cf_space c, dn_logical_id = i,
                     dn_preview_hash = cf_preview_hash c, dn_actor_id = cf_actor_id c, dn_destroyed_at = now\<rparr>
                     (consume_confirmation token now db3)))
     | _ \<Rightarrow> no_row))"

fun apply_operation :: "'d graph_deps_scheme \<Rightarrow> normalization_params \<Rightarrow> str \<Rightarrow> nat \<Rightarrow> i64 \<Rightarrow> nat \<Rightarrow>
    change_operation \<Rightarrow> 'x audit_db_scheme \<Rightarrow> memory_error + 'x audit_db_scheme" where
  "apply_operation D p cs generation now ordinal (OpRemember name t obs rels) db =
     bind_result (write_group D name t obs rels ''changeset'' now p db) (\<lambda>(g, db1).
       record_all D cs generation ordinal 0 (ro_observation_ids g) db1)"
| "apply_operation D p cs generation now ordinal (OpUpdate x v r) db =
     apply_update D x v r cs generation ordinal db"
| "apply_operation D p cs generation now ordinal (OpRetire i v) db =
     apply_lifecycle D i v True cs generation ordinal db"
| "apply_operation D p cs generation now ordinal (OpRestore i v) db =
     apply_lifecycle D i v False cs generation ordinal db"
| "apply_operation D p cs generation now ordinal (OpRevert i r v) db =
     apply_revert D i r v cs generation ordinal db"
| "apply_operation D p cs generation now ordinal (OpDestroy i v r token) db =
     apply_destroy D i v r token cs generation ordinal now db"

fun apply_operations :: "'d graph_deps_scheme \<Rightarrow> normalization_params \<Rightarrow> str \<Rightarrow> nat \<Rightarrow> i64 \<Rightarrow> nat \<Rightarrow>
    change_operation list \<Rightarrow> 'x audit_db_scheme \<Rightarrow> memory_error + 'x audit_db_scheme" where
  "apply_operations D p cs generation now ordinal [] db = Inr db"
| "apply_operations D p cs generation now ordinal (x # xs) db =
     bind_result (apply_operation D p cs generation now ordinal x db)
       (apply_operations D p cs generation now (Suc ordinal) xs)"

text \<open>\<open>UPDATE domain_state SET semantic_generation, index_repair_required\<close>.\<close>

definition publish_generation :: "nat \<Rightarrow> 'x audit_db_scheme \<Rightarrow> 'x audit_db_scheme" where
  "publish_generation generation db = db\<lparr>ad_semantic := to_i64 generation,
     ad_repair := (if list_ex (\<lambda>x. xo_applied_at x = None) (ad_outbox db) then True else ad_repair db)\<rparr>"

end
