(* ===== verification/Om_AuditOps.thy ===== *)
theory Om_AuditOps
  imports Om_Audit
begin

text \<open>
  The operations on changesets (\<open>openmemory-graph/src/audit.rs\<close>): submitting, approving, rejecting and
  compacting proposals, the bridge from plain remembers, previews of destruction, the audit
  backfill, and the receipts. Each is one transaction; \<open>now\<close> is the clock it read.
\<close>

section \<open>Receipts\<close>

record change_set_receipt =
  rp_id :: str
  rp_state :: changeset_state
  rp_state_version :: nat
  rp_semantic_generation :: nat
  rp_indexed_generation :: nat
  rp_index_repair_required :: bool

definition receipt_of :: "'x audit_db_scheme \<Rightarrow> change_set \<Rightarrow> change_set_receipt" where
  "receipt_of db c = \<lparr>rp_id = ct_id c, rp_state = ct_state c, rp_state_version = ct_version c,
     rp_semantic_generation = (case ct_committed c of None \<Rightarrow> ct_base c | Some g \<Rightarrow> g),
     rp_indexed_generation = ad_indexed db, rp_index_repair_required = ad_repair db\<rparr>"

definition changeset_receipt :: "str \<Rightarrow> 'x audit_db_scheme \<Rightarrow> memory_error + change_set_receipt" where
  "changeset_receipt i db =
     (case find_change_set i db of None \<Rightarrow> no_row | Some c \<Rightarrow> Inr (receipt_of db c))"

definition ensure_bound_space :: "'d deps_scheme \<Rightarrow> uuid \<Rightarrow> 'x graph_db_scheme \<Rightarrow> memory_error + unit" where
  "ensure_bound_space D space db =
     (case gd_space db of
        None \<Rightarrow> invalid ''memory store is not bound to a catalog space''
      | Some s \<Rightarrow> if s \<noteq> space
          then invalid (''memory store is bound to space '' @ hyphenated D s @ '', not '' @ hyphenated D space)
          else Inr ())"

text \<open>The receipt of an earlier changeset with the draft's idempotency key.\<close>

definition load_existing_receipt :: "change_set_draft \<Rightarrow> str \<Rightarrow> 'x audit_db_scheme \<Rightarrow>
    memory_error + change_set_receipt option" where
  "load_existing_receipt d request_hash db =
     (case find (\<lambda>c. ct_space c = dr_space d \<and> ct_key c = dr_idempotency_key d) (ad_changesets db) of
        None \<Rightarrow> Inr None
      | Some c \<Rightarrow> if ct_request_hash c \<noteq> request_hash then Inl MemChangeSetIdempotencyConflict
          else Inr (Some (receipt_of db c)))"

section \<open>Submitting\<close>

datatype submitted = Replayed change_set_receipt | Stored str

fun is_destroy :: "change_operation \<Rightarrow> bool" where
  "is_destroy (OpDestroy i v r c) = True"
| "is_destroy _ = False"

definition change_set_row :: "str \<Rightarrow> str \<Rightarrow> change_set_draft \<Rightarrow> submit_mode \<Rightarrow> nat \<Rightarrow> i64 \<Rightarrow> change_set" where
  "change_set_row i request_hash d mode base now = \<lparr>ct_id = i, ct_space = dr_space d,
     ct_key = dr_idempotency_key d, ct_request_hash = request_hash, ct_mode = mode,
     ct_actor_kind = dr_actor_kind d, ct_actor_id = dr_actor_id d,
     ct_authority = authority_display (dr_authority d), ct_reason = dr_reason d, ct_source = dr_source d,
     ct_base = base, ct_committed = (if mode = ApplyImmediately then Some (base + 1) else None),
     ct_state = (if mode = Propose then Proposed else Applied), ct_version = 1, ct_updated_at = now\<rparr>"

definition submit_tx :: "'d graph_deps_scheme \<Rightarrow> normalization_params \<Rightarrow> i64 \<Rightarrow> change_set_draft \<Rightarrow>
    submit_mode \<Rightarrow> 'x audit_db_scheme \<Rightarrow> memory_error + submitted \<times> 'x audit_db_scheme" where
  "submit_tx D p now d mode db =
     bind_result (validate_draft D d) (\<lambda>_.
       if mode = Propose \<and> list_ex is_destroy (dr_operations d)
       then invalid ''destruction confirmations cannot be proposed''
       else let request_hash = canonical_request_hash D d mode in
         bind_result (ensure_bound_space D (dr_space d) db) (\<lambda>_.
         bind_result (load_existing_receipt d request_hash db) (\<lambda>existing.
           case existing of Some r \<Rightarrow> Inr (Replayed r, db)
           | None \<Rightarrow>
              if mode = ApplyImmediately \<and> ad_semantic db + 1 \<ge> 2 ^ 63 then invalid ''generation overflow''
              else let (cs, db1) = fresh_id D db in
                bind_result (insert_change_set (change_set_row cs request_hash d mode (ad_semantic db) now) db1) (\<lambda>db2.
                  let db3 = insert_requests D cs (dr_operations d) db2 in
                  if mode = ApplyImmediately
                  then bind_result (apply_operations D p cs (ad_semantic db + 1) now 0 (dr_operations d) db3)
                    (\<lambda>db4. Inr (Stored cs, publish_generation (ad_semantic db + 1) db4))
                  else Inr (Stored cs, db3)))))"

section \<open>Reviewing\<close>

definition proposal_header :: "str \<Rightarrow> 'x audit_db_scheme \<Rightarrow> memory_error + changeset_state \<times> nat \<times> uuid" where
  "proposal_header i db =
     (case find_change_set i db of None \<Rightarrow> no_row
      | Some c \<Rightarrow> Inr (ct_state c, ct_version c, ct_space c))"

definition ensure_distinct_reviewer :: "str \<Rightarrow> review_authorization \<Rightarrow> 'x audit_db_scheme \<Rightarrow> memory_error + unit" where
  "ensure_distinct_reviewer i review db =
     (case find_change_set i db of None \<Rightarrow> no_row
      | Some c \<Rightarrow> if ct_actor_id c = ra_actor_id review
          then invalid ''proposal submitters cannot review their own changeset'' else Inr ())"

definition proposal_rows :: "str \<Rightarrow> 'x audit_db_scheme \<Rightarrow> change_request list" where
  "proposal_rows i db = sort_key cq_ordinal (filter (\<lambda>q. cq_changeset q = i) (ad_requests db))"

fun parse_operations :: "'d audit_deps_scheme \<Rightarrow> change_request list \<Rightarrow> memory_error + change_operation list" where
  "parse_operations D [] = Inr []"
| "parse_operations D (q # qs) =
     (case op_of_json D (cq_payload q) of
        None \<Rightarrow> Inl (MemSqlite ''conversion error'')
      | Some x \<Rightarrow> bind_result (parse_operations D qs) (\<lambda>xs. Inr (x # xs)))"

definition verify_proposal_hash :: "'d audit_deps_scheme \<Rightarrow> str \<Rightarrow> change_operation list \<Rightarrow>
    'x audit_db_scheme \<Rightarrow> memory_error + unit" where
  "verify_proposal_hash D i ops db =
     (case find (\<lambda>c. ct_id c = i \<and> ct_mode c = Propose) (ad_changesets db) of None \<Rightarrow> no_row
      | Some c \<Rightarrow>
         (case authority_from_str (ct_authority c) of
            Inl e \<Rightarrow> Inl (MemSchema ''invalid authority snapshot'')
          | Inr authority \<Rightarrow>
              let d = \<lparr>dr_idempotency_key = ct_key c, dr_space = ct_space c, dr_actor_kind = ct_actor_kind c,
                       dr_actor_id = ct_actor_id c, dr_authority = authority, dr_reason = ct_reason c,
                       dr_source = ct_source c, dr_operations = ops\<rparr>
              in bind_result (validate_draft D d) (\<lambda>_.
                if canonical_request_hash D d Propose \<noteq> ct_request_hash c
                then Inl (MemSchema ''proposal payload does not match its canonical request hash'')
                else Inr ())))"

definition head_is :: "'x graph_db_scheme \<Rightarrow> str \<Rightarrow> (observation_row \<Rightarrow> bool) \<Rightarrow> bool" where
  "head_is db i P = (case load_observation db i of None \<Rightarrow> False | Some row \<Rightarrow> P row)"

fun operation_precondition_holds :: "'x audit_db_scheme \<Rightarrow> change_operation \<Rightarrow> bool" where
  "operation_precondition_holds db (OpRemember n t obs rels) = True"
| "operation_precondition_holds db (OpUpdate x v r) =
     head_is db (mo_id x) (\<lambda>row. or_row_version row = unat v \<and> or_lifecycle row = LcActive \<and>
       mo_entity_id (or_observation row) = mo_entity_id x \<and> \<not> mo_tombstoned x \<and>
       (r = None \<or> or_current_revision row = r))"
| "operation_precondition_holds db (OpRetire i v) =
     head_is db i (\<lambda>row. or_row_version row = unat v \<and> or_lifecycle row = LcActive)"
| "operation_precondition_holds db (OpRestore i v) =
     head_is db i (\<lambda>row. or_row_version row = unat v \<and> or_lifecycle row = LcRetired)"
| "operation_precondition_holds db (OpRevert i r v) \<longleftrightarrow>
     head_is db i (\<lambda>row. or_row_version row = unat v) \<and>
     list_ex (\<lambda>q. vr_revision q = r \<and> vr_observation_id q = i) (ad_revisions db)"
| "operation_precondition_holds db (OpDestroy i v r c) =
     head_is db i (\<lambda>row. or_row_version row = unat v \<and> (r = None \<or> or_current_revision row = r))"

text \<open>\<open>UPDATE change_sets SET state .. WHERE id AND state = 'proposed' AND state_version\<close>; the row was
  read in the same transaction, so the update hits it.\<close>

definition move_proposal :: "str \<Rightarrow> u64 \<Rightarrow> changeset_state \<Rightarrow> nat option \<Rightarrow> i64 \<Rightarrow> 'x audit_db_scheme \<Rightarrow>
    memory_error + 'x audit_db_scheme" where
  "move_proposal i expected state gen now db =
     (let hit = (\<lambda>c. ct_id c = i \<and> ct_state c = Proposed \<and> ct_version c = to_i64 (unat expected)) in
      if length (filter hit (ad_changesets db)) \<noteq> 1 then Inl MemChangeSetStale
      else Inr (db\<lparr>ad_changesets := map (\<lambda>c. if hit c
        then c\<lparr>ct_committed := (if gen = None then ct_committed c else gen),
               ct_state := state, ct_version := ct_version c + 1, ct_updated_at := now\<rparr>
        else c) (ad_changesets db)\<rparr>))"

definition approve_tx :: "'d graph_deps_scheme \<Rightarrow> normalization_params \<Rightarrow> i64 \<Rightarrow> str \<Rightarrow> u64 \<Rightarrow>
    review_authorization \<Rightarrow> 'x audit_db_scheme \<Rightarrow> memory_error + 'x audit_db_scheme" where
  "approve_tx D p now i expected review db =
     bind_result (proposal_header i db) (\<lambda>(state, version, space).
       if state = Applied
       then if is_changeset_id D i then Inr db else invalid ''invalid changeset id''
       else if state \<noteq> Proposed \<or> version \<noteq> unat expected then Inl MemChangeSetStale
       else bind_result (ensure_bound_space D space db) (\<lambda>_.
         bind_result (ensure_distinct_reviewer i review db) (\<lambda>_.
         bind_result (parse_operations D (proposal_rows i db)) (\<lambda>ops.
         bind_result (verify_proposal_hash D i ops db) (\<lambda>_.
           if \<not> is_changeset_id D i then invalid ''invalid changeset id''
           else if \<not> list_all (operation_precondition_holds db) ops
           then bind_result (move_proposal i expected Conflicted None now db)
                  (insert_review_event i ''conflicted'' review ''proposal head precondition is stale'')
           else let generation = ad_semantic db + 1 in
             bind_result (apply_operations D p i generation now 0 ops db) (\<lambda>db1.
             bind_result (move_proposal i expected Applied (Some (to_i64 generation)) now db1) (\<lambda>db2.
             bind_result (insert_review_event i ''approved'' review '''' db2) (\<lambda>db3.
               Inr (publish_generation generation db3)))))))))"

definition reject_tx :: "'d graph_deps_scheme \<Rightarrow> i64 \<Rightarrow> str \<Rightarrow> u64 \<Rightarrow> review_authorization \<Rightarrow> str \<Rightarrow>
    'x audit_db_scheme \<Rightarrow> memory_error + 'x audit_db_scheme" where
  "reject_tx D now i expected review reason db =
     (if is_blank reason \<or> length reason > MAX_TEXT_BYTES \<or> has_control reason
      then invalid ''rejection reason is invalid''
      else bind_result (proposal_header i db) (\<lambda>(state, version, space).
        if state = Rejected
        then if is_changeset_id D i then Inr db else invalid ''invalid changeset id''
        else if state \<noteq> Proposed \<or> version \<noteq> unat expected then Inl MemChangeSetStale
        else bind_result (ensure_bound_space D space db) (\<lambda>_.
          bind_result (ensure_distinct_reviewer i review db) (\<lambda>_.
          bind_result (move_proposal i expected Rejected None now db)
            (insert_review_event i ''rejected'' review reason)))))"

text \<open>\<open>compact_rejected_proposals\<close>: the request payloads of the oldest rejected proposals past the
  retention are deleted.\<close>

definition i64_saturating_sub :: "int \<Rightarrow> int \<Rightarrow> int" where
  "i64_saturating_sub a b = max (- (2 ^ 63)) (min (2 ^ 63 - 1) (a - b))"

definition clamp_limit :: "nat \<Rightarrow> nat" where
  "clamp_limit n = max 1 (min n 1024)"

definition expired_rejections :: "int \<Rightarrow> nat \<Rightarrow> 'x audit_db_scheme \<Rightarrow> str list" where
  "expired_rejections cutoff limit db =
     map ct_id (take limit (sort_key (\<lambda>c. (sint (ct_updated_at c), ct_id c))
       (filter (\<lambda>c. ct_state c = Rejected \<and> sint (ct_updated_at c) \<le> cutoff \<and>
                    list_ex (\<lambda>q. cq_changeset q = ct_id c) (ad_requests db)) (ad_changesets db))))"

definition compact_rejected :: "i64 \<Rightarrow> i64 \<Rightarrow> nat \<Rightarrow> 'x audit_db_scheme \<Rightarrow> (nat \<times> nat) \<times> 'x audit_db_scheme" where
  "compact_rejected now retention limit db =
     (let cutoff = i64_saturating_sub (sint now) (max 0 (sint retention));
          ids = expired_rejections cutoff (clamp_limit limit) db;
          keep = filter (\<lambda>q. cq_changeset q \<notin> set ids) (ad_requests db)
      in ((length ids, length (ad_requests db) - length keep), db\<lparr>ad_requests := keep\<rparr>))"

end
