(* ===== verification/Om_AuditStore.thy ===== *)
theory Om_AuditStore
  imports Om_AuditOps
begin

text \<open>
  The audited store (\<open>audit.rs\<close>, with \<open>remember\<close> of \<open>remember.rs\<close>): the bridge that records plain
  remembers, previews of destruction, the audit backfill, the compatibility operations built on
  changesets, and the repair of the search index from the outbox. The index is a map from observation
  to its entry without the vector; embedding, and whether the index accepts an entry or persists, is
  the environment's choice.
\<close>

section \<open>Plain remembers\<close>

definition legacy_authority :: "'d deps_scheme \<Rightarrow> authority_snapshot" where
  "legacy_authority D = \<lparr>as_version = 1, as_digest = blake3 D (authority_input 1 [0])\<rparr>"

fun record_outcomes :: "'d audit_deps_scheme \<Rightarrow> str \<Rightarrow> nat \<Rightarrow> nat \<Rightarrow> remember_outcome list \<Rightarrow>
    'x audit_db_scheme \<Rightarrow> memory_error + 'x audit_db_scheme" where
  "record_outcomes D cs generation n [] db = Inr db"
| "record_outcomes D cs generation n (g # gs) db =
     bind_result (record_all D cs generation n 0 (ro_observation_ids g) db)
       (record_outcomes D cs generation (Suc n) gs)"

text \<open>\<open>space_text\<close> reads the space id a fresh identifier stands for when the store is unbound.\<close>

definition record_legacy_remembers :: "'d audit_deps_scheme \<Rightarrow> (str \<Rightarrow> uuid) \<Rightarrow> i64 \<Rightarrow>
    (remember_outcome \<times> change_operation) list \<Rightarrow> str \<Rightarrow> 'x audit_db_scheme \<Rightarrow>
    memory_error + nat \<times> 'x audit_db_scheme" where
  "record_legacy_remembers D space_text now records change_source db =
     (let (cs, db1) = fresh_id D db;
          (space, db2) = (case gd_space db1 of Some s \<Rightarrow> (s, db1)
             | None \<Rightarrow> (let (t, db') = fresh_id D db1 in (space_text t, db'\<lparr>gd_space := Some (space_text t)\<rparr>)));
          d = \<lparr>dr_idempotency_key = ''legacy:'' @ cs, dr_space = space, dr_actor_kind = System,
               dr_actor_id = ''legacy'', dr_authority = legacy_authority D, dr_reason = ''legacy remember'',
               dr_source = (if change_source = [] then ''compatibility'' else change_source),
               dr_operations = map snd records\<rparr>
      in bind_result (validate_draft D d) (\<lambda>_.
         let generation = ad_semantic db2 + 1;
             row = (change_set_row cs (canonical_request_hash D d ApplyImmediately) d ApplyImmediately
                      (to_i64 (generation - 1)) now)\<lparr>ct_committed := Some (to_i64 generation)\<rparr>
         in bind_result (insert_change_set row db2) (\<lambda>db3.
            bind_result (record_outcomes D cs generation 0 (map fst records)
                           (insert_requests D cs (dr_operations d) db3)) (\<lambda>db4.
              Inr (generation, publish_generation generation db4)))))"

text \<open>The transaction of \<open>remember\<close> and \<open>remember_batch\<close>: the groups in order, then one changeset for
  all of them. The result is the outcomes and the generation, if there was anything to record.\<close>

definition remember_operation :: "remember_request \<Rightarrow> change_operation" where
  "remember_operation r = OpRemember (rq_name r) (rq_entity_type r) (rq_observations r) (rq_relations r)"

fun write_groups :: "'d graph_deps_scheme \<Rightarrow> i64 \<Rightarrow> normalization_params \<Rightarrow> remember_request list \<Rightarrow>
    'x graph_db_scheme \<Rightarrow> memory_error + remember_outcome list \<times> 'x graph_db_scheme" where
  "write_groups D now p [] db = Inr ([], db)"
| "write_groups D now p (r # rs) db =
     bind_result (write_group D (rq_name r) (rq_entity_type r) (rq_observations r) (rq_relations r)
                    (rq_source r) now p db) (\<lambda>(g, db1).
       bind_result (write_groups D now p rs db1) (\<lambda>(gs, db2). Inr (g # gs, db2)))"

definition remember_tx :: "'d graph_deps_scheme \<Rightarrow> normalization_params \<Rightarrow> (str \<Rightarrow> uuid) \<Rightarrow> i64 \<Rightarrow> str \<Rightarrow>
    remember_request list \<Rightarrow> 'x audit_db_scheme \<Rightarrow>
    memory_error + remember_outcome list \<times> nat option \<times> 'x audit_db_scheme" where
  "remember_tx D p space_text now change_source rs db =
     bind_result (write_groups D now p rs db) (\<lambda>(gs, db1).
       if rs = [] then Inr (gs, None, db1)
       else bind_result (record_legacy_remembers D space_text now (zip gs (map remember_operation rs))
                           change_source db1) (\<lambda>(generation, db2). Inr (gs, Some generation, db2)))"

section \<open>Destruction\<close>

definition i64_saturating_add :: "int \<Rightarrow> int \<Rightarrow> int" where
  "i64_saturating_add a b = max (- (2 ^ 63)) (min (2 ^ 63 - 1) (a + b))"

record destruction_preview =
  pv_space :: uuid
  pv_observation_id :: str
  pv_revision :: "str option"
  pv_row_version :: nat
  pv_revision_count :: nat
  pv_side_rows :: nat
  pv_preview_hash :: str
  pv_expires_at :: i64
  pv_token :: str

definition clamp_ttl :: "i64 \<Rightarrow> int" where
  "clamp_ttl ttl = max 1 (min (sint ttl) MAX_DESTRUCTION_CONFIRMATION_TTL_SECS)"

definition preview_destruction :: "'d audit_deps_scheme \<Rightarrow> i64 \<Rightarrow> str \<Rightarrow> review_authorization \<Rightarrow> i64 \<Rightarrow>
    'x audit_db_scheme \<Rightarrow> memory_error + destruction_preview \<times> 'x audit_db_scheme" where
  "preview_destruction D now i review ttl db =
     (if ra_role review \<noteq> Maintainer
      then invalid ''observation destruction requires a human maintainer''
      else case gd_space db of None \<Rightarrow> invalid ''memory store is not bound to a catalog space''
      | Some space \<Rightarrow>
        bind_result (load_required db i) (\<lambda>row.
          let revisions = length (filter (\<lambda>v. vr_observation_id v = i) (ad_revisions db));
              side = saturating_add (length (mo_concepts (or_observation row)))
                       (length (mo_source_files (or_observation row)));
              hash = destruction_preview_hash D space i (or_current_revision row) (or_row_version row) revisions side;
              (token, db1) = fresh_id D db;
              token_hash = destruction_token_hash D token;
              expires = word_of_int (i64_saturating_add (sint now) (clamp_ttl ttl))
          in if or_row_version row \<ge> 2 ^ 63 then invalid ''row version overflow''
             else if list_ex (\<lambda>c. cf_token_hash c = token_hash) (ad_confirmations db1)
             then Inl (MemSqlite ''UNIQUE constraint failed: destruction_confirmations.token_hash'')
             else Inr (\<lparr>pv_space = space, pv_observation_id = i, pv_revision = or_current_revision row,
                  pv_row_version = or_row_version row, pv_revision_count = revisions, pv_side_rows = side,
                  pv_preview_hash = hash, pv_expires_at = expires, pv_token = token\<rparr>,
                db1\<lparr>ad_confirmations := ad_confirmations db1 @ [\<lparr>cf_token_hash = token_hash,
                  cf_space = space, cf_logical_id = i, cf_revision = or_current_revision row,
                  cf_row_version = or_row_version row, cf_preview_hash = hash,
                  cf_actor_id = ra_actor_id review, cf_authority = authority_display (ra_authority review),
                  cf_expires_at = expires, cf_consumed_at = None\<rparr>]\<rparr>)))"

text \<open>\<open>compatibility_space_id\<close> binds an unbound store.\<close>

definition compatibility_space_id :: "'d audit_deps_scheme \<Rightarrow> (str \<Rightarrow> uuid) \<Rightarrow> 'x graph_db_scheme \<Rightarrow>
    uuid \<times> 'x graph_db_scheme" where
  "compatibility_space_id D space_text db =
     (case gd_space db of Some s \<Rightarrow> (s, db)
      | None \<Rightarrow> (let (t, db1) = fresh_id D db in (space_text t, db1\<lparr>gd_space := Some (space_text t)\<rparr>)))"

definition destroy_observation :: "'d graph_deps_scheme \<Rightarrow> normalization_params \<Rightarrow> (str \<Rightarrow> uuid) \<Rightarrow> i64 \<Rightarrow>
    destruction_preview \<Rightarrow> review_authorization \<Rightarrow> str \<Rightarrow> str \<Rightarrow> 'x audit_db_scheme \<Rightarrow>
    (memory_error + submitted) \<times> 'x audit_db_scheme" where
  "destroy_observation D p space_text now pv review key reason db =
     (if ra_role review \<noteq> Maintainer
      then (invalid ''observation destruction requires a human maintainer'', db)
      else let (space, db1) = compatibility_space_id D space_text db in
        if pv_space pv \<noteq> space then (invalid ''destruction preview belongs to another space'', db1)
        else case bind_result (change_set_draft_new D key (pv_space pv) Human (ra_actor_id review)
               (ra_authority review) reason ''human-admin''
               [OpDestroy (pv_observation_id pv) (of_nat (pv_row_version pv)) (pv_revision pv)
                  (destruction_token_hash D (pv_token pv))])
             (\<lambda>d. submit_tx D p now d ApplyImmediately db1) of
            Inl e \<Rightarrow> (Inl e, db1) | Inr (r, db2) \<Rightarrow> (Inr r, db2))"

section \<open>Retirement\<close>

text \<open>\<open>retire_observations_for_maintenance\<close>; \<open>key\<close> is the fresh identifier in the idempotency key.\<close>

definition maintenance_operations :: "str list \<Rightarrow> 'x graph_db_scheme \<Rightarrow> change_operation list" where
  "maintenance_operations ids db = List.map_filter (\<lambda>i.
     case find_row i (gd_observations db) of None \<Rightarrow> None
     | Some r \<Rightarrow> if or_lifecycle r = LcActive then Some (OpRetire i (of_nat (or_row_version r))) else None) ids"

definition retire_for_maintenance :: "'d graph_deps_scheme \<Rightarrow> normalization_params \<Rightarrow> (str \<Rightarrow> uuid) \<Rightarrow> i64 \<Rightarrow>
    str list \<Rightarrow> str \<Rightarrow> 'x audit_db_scheme \<Rightarrow> (memory_error + nat) \<times> 'x audit_db_scheme" where
  "retire_for_maintenance D p space_text now ids reason db =
     (let ops = maintenance_operations ids db in
      if ops = [] then (Inr 0, db)
      else let (key, db1) = fresh_id D db; (space, db2) = compatibility_space_id D space_text db1 in
        case bind_result (change_set_draft_new D (''maintenance-retire:'' @ key) space System ''maintenance''
               (legacy_authority D) reason ''maintenance'' ops)
             (\<lambda>d. submit_tx D p now d ApplyImmediately db2) of
          Inl e \<Rightarrow> (Inl e, db2) | Inr (r, db3) \<Rightarrow> (Inr (length ops), db3))"

definition retire_entity_observations_by_id :: "'d graph_deps_scheme \<Rightarrow> normalization_params \<Rightarrow> (str \<Rightarrow> uuid) \<Rightarrow>
    i64 \<Rightarrow> str \<Rightarrow> 'x audit_db_scheme \<Rightarrow> (memory_error + nat) \<times> 'x audit_db_scheme" where
  "retire_entity_observations_by_id D p space_text now i db =
     (if is_blank i then (invalid ''entity id must not be empty'', db)
      else if \<not> list_ex (\<lambda>e. en_id e = i) (gd_entities db) then (Inl (MemEntityNotFound i), db)
      else retire_for_maintenance D p space_text now
             (sort (map row_id (filter (\<lambda>r. mo_entity_id (or_observation r) = i \<and> or_lifecycle r = LcActive)
                (gd_observations db)))) ''compatibility entity forget'' db)"

definition retire_entity_observations :: "'d graph_deps_scheme \<Rightarrow> normalization_params \<Rightarrow> (str \<Rightarrow> uuid) \<Rightarrow> i64 \<Rightarrow>
    str \<Rightarrow> 'x audit_db_scheme \<Rightarrow> (memory_error + nat) \<times> 'x audit_db_scheme" where
  "retire_entity_observations D p space_text now name db =
     (if is_blank name then (invalid ''entity name must not be empty'', db)
      else case resolve_entity name db of
        ResNotFound \<Rightarrow> (Inl (MemEntityNotFound name), db)
      | ResUnique e \<Rightarrow> retire_entity_observations_by_id D p space_text now (en_id e) db
      | ResAmbiguous c \<Rightarrow> (Inl (MemAmbiguousEntityName name (candidate_labels c)), db))"

text \<open>\<open>retire_observation\<close> and the audited change of a memory tier; their idempotency keys end in the
  clock's seconds.\<close>

definition display_int :: "int \<Rightarrow> str" where
  "display_int k = (if k < 0 then ''-'' @ display_nat (nat (- k)) else display_nat (nat k))"

definition submit_compat :: "'d graph_deps_scheme \<Rightarrow> normalization_params \<Rightarrow> (str \<Rightarrow> uuid) \<Rightarrow> i64 \<Rightarrow> str \<Rightarrow> str \<Rightarrow>
    str \<Rightarrow> change_operation \<Rightarrow> 'x audit_db_scheme \<Rightarrow> (memory_error + bool) \<times> 'x audit_db_scheme" where
  "submit_compat D p space_text now prefix i reason x db =
     (let (space, db1) = compatibility_space_id D space_text db in
      case bind_result (change_set_draft_new D (prefix @ i @ '':'' @ display_int (sint now)) space Human ''legacy''
             (legacy_authority D) reason ''compatibility'' [x])
           (\<lambda>d. submit_tx D p now d ApplyImmediately db1) of
        Inl e \<Rightarrow> (Inl e, db1) | Inr (r, db2) \<Rightarrow> (Inr True, db2))"

definition retire_observation :: "'d graph_deps_scheme \<Rightarrow> normalization_params \<Rightarrow> (str \<Rightarrow> uuid) \<Rightarrow> i64 \<Rightarrow> str \<Rightarrow>
    'x audit_db_scheme \<Rightarrow> (memory_error + bool) \<times> 'x audit_db_scheme" where
  "retire_observation D p space_text now i db =
     (case find_row i (gd_observations db) of None \<Rightarrow> (Inr False, db)
      | Some r \<Rightarrow> if mo_tombstoned (or_observation r) then (Inr False, db)
          else submit_compat D p space_text now ''legacy-retire:'' i ''legacy forget''
                 (OpRetire i (of_nat (or_row_version r))) db)"

definition set_memory_tier :: "'d graph_deps_scheme \<Rightarrow> normalization_params \<Rightarrow> (str \<Rightarrow> uuid) \<Rightarrow> i64 \<Rightarrow> str \<Rightarrow>
    memory_tier \<Rightarrow> 'x audit_db_scheme \<Rightarrow> (memory_error + bool) \<times> 'x audit_db_scheme" where
  "set_memory_tier D p space_text now i tier db =
     (case load_observation db i of None \<Rightarrow> (Inr False, db)
      | Some r \<Rightarrow> if mo_tombstoned (or_observation r) then (Inr False, db)
          else submit_compat D p space_text now ''legacy-tier:'' i ''legacy memory tier update''
                 (OpUpdate ((or_observation r)\<lparr>mo_memory_tier := tier\<rparr>) (of_nat (or_row_version r))
                    (or_current_revision r)) db)"

section \<open>The audit backfill\<close>

record backfill_report =
  bf_created :: nat
  bf_next_cursor :: "str option"
  bf_complete :: bool

definition backfill_page :: "str option \<Rightarrow> nat \<Rightarrow> 'x graph_db_scheme \<Rightarrow> str list" where
  "backfill_page cursor limit db = take limit (sort (map row_id (filter (\<lambda>r. or_current_revision r = None \<and>
     (case cursor of None \<Rightarrow> True | Some c \<Rightarrow> c < row_id r)) (gd_observations db))))"

fun baseline_each :: "'d audit_deps_scheme \<Rightarrow> str \<Rightarrow> nat \<Rightarrow> str list \<Rightarrow> 'x audit_db_scheme \<Rightarrow>
    memory_error + 'x audit_db_scheme" where
  "baseline_each D cs n [] db = Inr db"
| "baseline_each D cs n (i # ids) db =
     bind_result (load_required db i) (\<lambda>row.
       let (revision, db1) = insert_revision D row None cs db;
           db2 = update_rows (\<lambda>r. row_id r = i \<and> or_current_revision r = None)
                   (\<lambda>r. r\<lparr>or_current_revision := Some revision\<rparr>) db1
       in bind_result (insert_operation_event cs n ''baseline'' i (Some revision) db2)
            (baseline_each D cs (Suc n) ids))"

definition baseline_row :: "'d deps_scheme \<Rightarrow> str \<Rightarrow> uuid \<Rightarrow> i64 \<Rightarrow> change_set" where
  "baseline_row D cs space now = \<lparr>ct_id = cs, ct_space = space, ct_key = ''baseline:'' @ cs,
     ct_request_hash = blake3_text D cs, ct_mode = ApplyImmediately, ct_actor_kind = System,
     ct_actor_id = ''backfill'', ct_authority = authority_display (legacy_authority D),
     ct_reason = ''legacy baseline'', ct_source = ''backfill'', ct_base = 0, ct_committed = Some 0,
     ct_state = Applied, ct_version = 1, ct_updated_at = now\<rparr>"

definition backfill_audit :: "'d audit_deps_scheme \<Rightarrow> i64 \<Rightarrow> nat \<Rightarrow> 'x audit_db_scheme \<Rightarrow>
    memory_error + backfill_report \<times> 'x audit_db_scheme" where
  "backfill_audit D now limit0 db =
     (let limit = clamp_limit limit0 in
      case gd_space db of None \<Rightarrow> invalid ''memory store is not bound to a catalog space''
      | Some space \<Rightarrow>
        let rows = backfill_page (ad_cursor db) limit db in
        if rows = []
        then Inr (\<lparr>bf_created = 0, bf_next_cursor = ad_cursor db, bf_complete = True\<rparr>, db\<lparr>ad_backfilled := True\<rparr>)
        else let (cs, db1) = fresh_id D db in
          bind_result (insert_change_set (baseline_row D cs space now) db1) (\<lambda>db2.
          bind_result (baseline_each D cs 0 rows db2) (\<lambda>db3.
            Inr (\<lparr>bf_created = length rows, bf_next_cursor = Some (last rows), bf_complete = length rows < limit\<rparr>,
                 db3\<lparr>ad_cursor := Some (last rows), ad_backfilled := length rows < limit\<rparr>))))"

section \<open>The index outbox\<close>

record index_entry =
  ie_text :: str
  ie_title :: "str option"
  ie_summary :: "str option"
  ie_concepts :: "str list"
  ie_source_files :: "str list"
  ie_source_kind :: "str option"

type_synonym search_index = "str \<Rightarrow> index_entry option"

definition search_body_text :: "str \<Rightarrow> str \<Rightarrow> str" where
  "search_body_text name content = name @ '': '' @ content"

record repair_item =
  xi_id :: nat
  xi_delete :: bool
  xi_logical_id :: str
  xi_row :: "observation_row option"
  xi_entity_name :: "str option"

definition pending_rows :: "'x audit_db_scheme \<Rightarrow> outbox_row list" where
  "pending_rows db = take 1024 (sort_key (\<lambda>x. (xo_generation x, xo_ordinal x))
     (filter (\<lambda>x. xo_applied_at x = None) (ad_outbox db)))"

text \<open>What \<open>repair_index\<close> reads before it embeds; an observation without its entity is an error.\<close>

fun read_items :: "'x audit_db_scheme \<Rightarrow> outbox_row list \<Rightarrow> memory_error + repair_item list" where
  "read_items db [] = Inr []"
| "read_items db (x # xs) =
     (let row = load_observation db (xo_logical_id x);
          entity = (case row of None \<Rightarrow> Inr None
            | Some r \<Rightarrow> (case find (\<lambda>e. en_id e = mo_entity_id (or_observation r)) (gd_entities db) of
                None \<Rightarrow> no_row | Some e \<Rightarrow> Inr (Some (en_name e))))
      in bind_result entity (\<lambda>name. bind_result (read_items db xs) (\<lambda>items.
           Inr (\<lparr>xi_id = xo_id x, xi_delete = xo_delete x, xi_logical_id = xo_logical_id x, xi_row = row,
                 xi_entity_name = name\<rparr> # items))))"

definition repair_read :: "'x audit_db_scheme \<Rightarrow> memory_error + repair_item list" where
  "repair_read db = read_items db (pending_rows db)"

definition entry_of :: "str \<Rightarrow> observation_row \<Rightarrow> index_entry" where
  "entry_of name r = (let x = or_observation r in \<lparr>ie_text = search_body_text name (mo_content x),
     ie_title = mo_title x, ie_summary = mo_summary x, ie_concepts = mo_concepts x,
     ie_source_files = mo_source_files x, ie_source_kind = mo_source_kind x\<rparr>)"

definition apply_item :: "repair_item \<Rightarrow> search_index \<Rightarrow> search_index" where
  "apply_item x ix =
     (if xi_delete x then ix(xi_logical_id x := None)
      else case xi_row x of None \<Rightarrow> ix(xi_logical_id x := None)
      | Some r \<Rightarrow> if mo_tombstoned (or_observation r) \<or> or_lifecycle r \<noteq> LcActive
          then ix(xi_logical_id x := None)
          else ix(xi_logical_id x := Some (entry_of (case xi_entity_name x of None \<Rightarrow> '''' | Some n \<Rightarrow> n) r)))"

text \<open>The items are applied until the index refuses one.\<close>

fun apply_items :: "(nat \<Rightarrow> str option) \<Rightarrow> repair_item list \<Rightarrow> search_index \<Rightarrow> (nat \<times> str) option \<times> search_index" where
  "apply_items refuse [] ix = (None, ix)"
| "apply_items refuse (x # xs) ix =
     (case refuse (xi_id x) of Some e \<Rightarrow> (Some (xi_id x, e), ix)
      | None \<Rightarrow> apply_items refuse xs (apply_item x ix))"

definition record_index_failure :: "nat \<Rightarrow> str \<Rightarrow> 'x audit_db_scheme \<Rightarrow> 'x audit_db_scheme" where
  "record_index_failure i e db = db\<lparr>ad_outbox := map (\<lambda>x. if xo_id x = i \<and> xo_applied_at x = None
       then x\<lparr>xo_attempts := xo_attempts x + 1, xo_error := Some e\<rparr> else x) (ad_outbox db), ad_repair := True\<rparr>"

text \<open>\<open>None\<close> when nothing is pending.\<close>

definition first_pending :: "outbox_row list \<Rightarrow> nat option" where
  "first_pending xs = fold (\<lambda>x m. if xo_applied_at x \<noteq> None then m
     else Some (case m of None \<Rightarrow> xo_generation x | Some g \<Rightarrow> min g (xo_generation x))) xs None"

definition mark_index_rows_applied :: "i64 \<Rightarrow> nat list \<Rightarrow> 'x audit_db_scheme \<Rightarrow> (nat \<times> nat) \<times> 'x audit_db_scheme" where
  "mark_index_rows_applied now ids db =
     (let xs = map (\<lambda>x. if xo_id x \<in> set ids \<and> xo_applied_at x = None
                 then x\<lparr>xo_attempts := xo_attempts x + 1, xo_error := None, xo_applied_at := Some now\<rparr> else x)
               (ad_outbox db);
          remaining = length (filter (\<lambda>x. xo_applied_at x = None) xs);
          indexed = (case first_pending xs of None \<Rightarrow> ad_semantic db | Some g \<Rightarrow> g - 1)
      in ((remaining, indexed), db\<lparr>ad_outbox := xs, ad_indexed := indexed, ad_repair := (remaining \<noteq> 0)\<rparr>))"

definition mark_index_generations_current :: "i64 \<Rightarrow> nat list \<Rightarrow> 'x audit_db_scheme \<Rightarrow>
    (nat \<times> nat) \<times> 'x audit_db_scheme" where
  "mark_index_generations_current now generations db =
     mark_index_rows_applied now (map xo_id (filter (\<lambda>x. xo_generation x \<in> set generations \<and>
       xo_applied_at x = None) (ad_outbox db))) db"

record graph_store =
  gs_db :: audit_db
  gs_index :: search_index

text \<open>The second half of \<open>repair_index\<close>, under the rebuild lock, with the items of an earlier read.\<close>

definition repair_publish :: "i64 \<Rightarrow> (nat \<Rightarrow> str option) \<Rightarrow> str option \<Rightarrow> repair_item list \<Rightarrow> graph_store \<Rightarrow>
    (memory_error + nat \<times> nat) \<times> graph_store" where
  "repair_publish now refuse persist items st =
     (if items = [] then (case mark_index_rows_applied now [] (gs_db st) of (r, db) \<Rightarrow> (Inr r, st\<lparr>gs_db := db\<rparr>))
      else case apply_items refuse items (gs_index st) of
        (Some (i, e), ix) \<Rightarrow>
          (Inl (MemIndex e), st\<lparr>gs_db := record_index_failure i e (gs_db st), gs_index := ix\<rparr>)
      | (None, ix) \<Rightarrow>
         (case persist of
            Some e \<Rightarrow> (Inl (MemIndex e),
              st\<lparr>gs_db := record_index_failure (xi_id (hd items)) e (gs_db st), gs_index := ix\<rparr>)
          | None \<Rightarrow> (case mark_index_rows_applied now (map xi_id items) (gs_db st) of
              (r, db) \<Rightarrow> (Inr r, st\<lparr>gs_db := db, gs_index := ix\<rparr>))))"

definition repair_index :: "i64 \<Rightarrow> (nat \<Rightarrow> str option) \<Rightarrow> str option \<Rightarrow> graph_store \<Rightarrow>
    (memory_error + nat \<times> nat) \<times> graph_store" where
  "repair_index now refuse persist st =
     (case repair_read (gs_db st) of Inl e \<Rightarrow> (Inl e, st)
      | Inr items \<Rightarrow> repair_publish now refuse persist items st)"

text \<open>\<open>submit_changeset\<close> and \<open>approve_changeset\<close> of the store: the transaction, a repair whose error is
  dropped, and the receipt.\<close>

definition submit_changeset :: "'d graph_deps_scheme \<Rightarrow> normalization_params \<Rightarrow> i64 \<Rightarrow> (nat \<Rightarrow> str option) \<Rightarrow>
    str option \<Rightarrow> change_set_draft \<Rightarrow> submit_mode \<Rightarrow> graph_store \<Rightarrow>
    (memory_error + change_set_receipt) \<times> graph_store" where
  "submit_changeset D p now refuse persist d mode st =
     (case submit_tx D p now d mode (gs_db st) of
        Inl e \<Rightarrow> (Inl e, st)
      | Inr (Replayed r, _) \<Rightarrow> (Inr r, st)
      | Inr (Stored cs, db) \<Rightarrow>
         (let st1 = st\<lparr>gs_db := db\<rparr>;
              st2 = (if mode = ApplyImmediately then snd (repair_index now refuse persist st1) else st1)
          in (changeset_receipt cs (gs_db st2), st2)))"

definition approve_changeset :: "'d graph_deps_scheme \<Rightarrow> normalization_params \<Rightarrow> i64 \<Rightarrow> (nat \<Rightarrow> str option) \<Rightarrow>
    str option \<Rightarrow> str \<Rightarrow> u64 \<Rightarrow> review_authorization \<Rightarrow> graph_store \<Rightarrow>
    (memory_error + change_set_receipt) \<times> graph_store" where
  "approve_changeset D p now refuse persist i expected review st =
     (case approve_tx D p now i expected review (gs_db st) of
        Inl e \<Rightarrow> (Inl e, st)
      | Inr db \<Rightarrow>
         (let st1 = st\<lparr>gs_db := db\<rparr>;
              conflicted = (case find_change_set i db of None \<Rightarrow> False | Some c \<Rightarrow> ct_state c = Conflicted);
              st2 = (if conflicted then st1 else snd (repair_index now refuse persist st1))
          in (changeset_receipt i (gs_db st2), st2)))"

definition reject_changeset :: "'d graph_deps_scheme \<Rightarrow> i64 \<Rightarrow> str \<Rightarrow> u64 \<Rightarrow> review_authorization \<Rightarrow> str \<Rightarrow>
    graph_store \<Rightarrow> (memory_error + change_set_receipt) \<times> graph_store" where
  "reject_changeset D now i expected review reason st =
     (case reject_tx D now i expected review reason (gs_db st) of
        Inl e \<Rightarrow> (Inl e, st)
      | Inr db \<Rightarrow> (changeset_receipt i db, st\<lparr>gs_db := db\<rparr>))"

section \<open>Remember\<close>

text \<open>The index entries of the groups, and what \<open>remember\<close> and \<open>remember_batch\<close> do after their
  transaction: \<open>sync_search_groups\<close>, which takes all entries or none, and the mark that the generation is indexed.\<close>

definition entries_of_group :: "remember_request \<times> remember_outcome \<Rightarrow> (str \<times> index_entry) list" where
  "entries_of_group = (\<lambda>(r, g). map (\<lambda>(i, x). (i, \<lparr>ie_text = search_body_text (rq_name r) (oi_content x),
     ie_title = oi_title x, ie_summary = oi_summary x, ie_concepts = oi_concepts x,
     ie_source_files = oi_source_files x, ie_source_kind = oi_source_kind x\<rparr>))
     (zip (ro_observation_ids g) (rq_observations r)))"

definition sync_entries :: "(str \<times> index_entry) list \<Rightarrow> search_index \<Rightarrow> search_index" where
  "sync_entries es ix = fold (\<lambda>(i, e) ix. ix(i := Some e)) es ix"

definition remember_in_store :: "'d graph_deps_scheme \<Rightarrow> normalization_params \<Rightarrow> (str \<Rightarrow> uuid) \<Rightarrow> i64 \<Rightarrow> bool \<Rightarrow>
    str \<Rightarrow> remember_request list \<Rightarrow> graph_store \<Rightarrow> (memory_error + remember_outcome list) \<times> graph_store" where
  "remember_in_store D p space_text now index_fails change_source rs st =
     (case bind_result (validate_all rs) (\<lambda>_. remember_tx D p space_text now change_source rs (gs_db st)) of
        Inl e \<Rightarrow> (Inl e, st)
      | Inr (gs, generation, db) \<Rightarrow>
         (let entries = concat (map entries_of_group (zip rs gs)) in
          if index_fails \<and> entries \<noteq> [] then (Inr gs, st\<lparr>gs_db := db\<rparr>)
          else (Inr gs, st\<lparr>gs_db := (case generation of None \<Rightarrow> db
                    | Some g \<Rightarrow> snd (mark_index_generations_current now [g] db)),
                  gs_index := sync_entries entries (gs_index st)\<rparr>)))"

definition remember :: "'d graph_deps_scheme \<Rightarrow> normalization_params \<Rightarrow> (str \<Rightarrow> uuid) \<Rightarrow> i64 \<Rightarrow> bool \<Rightarrow>
    remember_request \<Rightarrow> graph_store \<Rightarrow> (memory_error + remember_outcome list) \<times> graph_store" where
  "remember D p space_text now index_fails r st =
     remember_in_store D p space_text now index_fails (rq_source r) [r] st"

end
