(* ===== verification/Om_AuditFacts.thy ===== *)
theory Om_AuditFacts
  imports Om_AuditStore
begin

text \<open>
  What the operations of the audited store do to observations and their revisions: every change of an
  observation appends one revision to its history, whose parent was the head, and makes it the head.
\<close>

section \<open>Tables as lists\<close>

named_theorems audit_defs \<open>primitive writes of a transaction\<close>

lemmas [audit_defs] = fresh_id_def insert_change_set_def insert_requests_def insert_outbox_def
  insert_event_def insert_operation_event_def insert_review_event_def insert_revision_def
  set_revision_def advance_head_def update_rows_def record_change_def publish_generation_def
  insert_destruction_def consume_confirmation_def Let_def

lemma find_row_Some: "find_row i rows = Some r \<Longrightarrow> r \<in> set rows \<and> row_id r = i"
  by (auto simp: find_row_def find_Some_iff)

lemma find_row_None: "find_row i rows = None \<longleftrightarrow> i \<notin> row_id ` set rows"
  by (auto simp: find_row_def find_None_iff)

lemma find_row_distinct: "distinct (map row_id rows) \<Longrightarrow> r \<in> set rows \<Longrightarrow> find_row (row_id r) rows = Some r"
proof (induction rows)
  case (Cons a rows)
  then show ?case by (cases "a = r") (auto simp: find_row_def)
qed (simp add: find_row_def)

lemma same_row:
  "distinct (map row_id rows) \<Longrightarrow> find_row i rows = Some r \<Longrightarrow> s \<in> set rows \<Longrightarrow> row_id s = i \<Longrightarrow> s = r"
  using find_row_distinct [of rows s] by simp

lemma map_row_ids: "(\<And>r. row_id (f r) = row_id r) \<Longrightarrow> map row_id (map f rows) = map row_id rows"
  by simp

lemma find_row_map:
  "(\<And>r. row_id (f r) = row_id r) \<Longrightarrow> find_row i (map f rows) = map_option f (find_row i rows)"
  by (induction rows) (auto simp: find_row_def)

lemma load_observation_Some: "load_observation db i = Some r \<Longrightarrow>
    \<exists>s. find_row i (gd_observations db) = Some s \<and> row_id r = row_id s \<and>
      or_current_revision r = or_current_revision s \<and> or_row_version r = or_row_version s \<and>
      or_lifecycle r = or_lifecycle s"
  by (auto simp: load_observation_def row_id_def)

section \<open>Histories\<close>

definition hist :: "str \<Rightarrow> observation_revision list \<Rightarrow> observation_revision list" where
  "hist i vs = filter (\<lambda>v. vr_observation_id v = i) vs"

lemma hist_append [simp]: "hist i (vs @ ws) = hist i vs @ hist i ws"
  by (simp add: hist_def)

lemma hist_single: "hist i [v] = (if vr_observation_id v = i then [v] else [])"
  by (simp add: hist_def)

lemma hist_Nil [simp]: "hist i [] = []"
  by (simp add: hist_def)

text \<open>Each revision names the one before it as its parent.\<close>

fun chained :: "str option \<Rightarrow> observation_revision list \<Rightarrow> bool" where
  "chained parent [] \<longleftrightarrow> True"
| "chained parent (v # vs) \<longleftrightarrow> vr_parent v = parent \<and> chained (Some (vr_revision v)) vs"

definition head_of :: "str option \<Rightarrow> observation_revision list \<Rightarrow> str option" where
  "head_of parent vs = (if vs = [] then parent else Some (vr_revision (last vs)))"

lemma chained_snoc: "chained parent (vs @ [v]) \<longleftrightarrow> chained parent vs \<and> vr_parent v = head_of parent vs"
  by (induction parent vs rule: chained.induct) (auto simp: head_of_def)

text \<open>What a revision keeps of an observation.\<close>

definition revision_view :: "memory_observation \<Rightarrow> memory_observation" where
  "revision_view x = x\<lparr>mo_tombstoned := False, mo_access_count := 0,
     mo_concepts := sort (mo_concepts x), mo_source_files := sort (mo_source_files x)\<rparr>"

definition describes :: "observation_revision \<Rightarrow> observation_row \<Rightarrow> bool" where
  "describes v r \<longleftrightarrow> vr_lifecycle v = or_lifecycle r \<and>
     revision_view (vr_observation v) = revision_view (or_observation r)"

definition row_ok :: "observation_revision list \<Rightarrow> observation_row \<Rightarrow> bool" where
  "row_ok vs r \<longleftrightarrow> or_current_revision r = head_of None (hist (row_id r) vs) \<and>
     (hist (row_id r) vs = [] \<or> describes (last (hist (row_id r) vs)) r)"

definition used_ids :: "audit_db \<Rightarrow> str set" where
  "used_ids db = row_id ` set (gd_observations db) \<union> vr_revision ` set (ad_revisions db) \<union>
     vr_observation_id ` set (ad_revisions db) \<union> ct_id ` set (ad_changesets db)"

definition history_ok :: "'d audit_deps_scheme \<Rightarrow> audit_db \<Rightarrow> bool" where
  "history_ok D db \<longleftrightarrow> distinct (map row_id (gd_observations db)) \<and>
     (\<forall>r\<in>set (gd_observations db). row_ok (ad_revisions db) r) \<and>
     (\<forall>i. chained None (hist i (ad_revisions db))) \<and> distinct (map vr_revision (ad_revisions db)) \<and>
     (\<forall>n\<ge>gd_ids db. new_id D n \<notin> used_ids db)"

section \<open>The kinds of writes\<close>

text \<open>The writes that make up the transactions, for a changeset \<open>cs\<close>: those that leave observations and
  revisions alone, a new observation, a change of an observation (\<open>b\<close> is what it adds to the row
  version), the destruction of one, and the loss of rows without a trace.\<close>

definition new_names :: "'d audit_deps_scheme \<Rightarrow> audit_db \<Rightarrow> audit_db \<Rightarrow> str set" where
  "new_names D db db' = new_id D ` {gd_ids db ..< gd_ids db'}"

inductive history_step :: "'d audit_deps_scheme \<Rightarrow> str \<Rightarrow> nat \<Rightarrow> audit_db \<Rightarrow> audit_db \<Rightarrow> bool" for D cs where
  quiet: "gd_observations db' = gd_observations db \<Longrightarrow> ad_revisions db' = ad_revisions db \<Longrightarrow>
    ct_id ` set (ad_changesets db') \<subseteq> ct_id ` set (ad_changesets db) \<union> new_names D db db' \<Longrightarrow>
    gd_ids db \<le> gd_ids db' \<Longrightarrow> history_step D cs 0 db db'"
| inserted: "gd_observations db' = gd_observations db @ [row] \<Longrightarrow> ad_revisions db' = ad_revisions db \<Longrightarrow>
    ad_changesets db' = ad_changesets db \<Longrightarrow> gd_ids db' = Suc (gd_ids db) \<Longrightarrow>
    row_id row = new_id D (gd_ids db) \<Longrightarrow> or_current_revision row = None \<Longrightarrow> or_row_version row = 1 \<Longrightarrow>
    history_step D cs 0 db db'"
| changed: "find_row i (gd_observations db) = Some row \<Longrightarrow> row_id row' = i \<Longrightarrow>
    gd_observations db' = map (\<lambda>r. if row_id r = i then row' else r) (gd_observations db) \<Longrightarrow>
    ad_revisions db' = ad_revisions db @ [v] \<Longrightarrow> ad_changesets db' = ad_changesets db \<Longrightarrow>
    gd_ids db' = Suc (gd_ids db) \<Longrightarrow> vr_revision v = new_id D (gd_ids db) \<Longrightarrow> vr_observation_id v = i \<Longrightarrow>
    vr_parent v = or_current_revision row \<Longrightarrow> vr_changeset v = cs \<Longrightarrow> describes v row' \<Longrightarrow>
    or_current_revision row' = Some (vr_revision v) \<Longrightarrow> or_row_version row' = or_row_version row + b \<Longrightarrow>
    history_step D cs b db db'"
| destroyed: "find_row i (gd_observations db) = Some row \<Longrightarrow>
    gd_observations db' = filter (\<lambda>r. row_id r \<noteq> i) (gd_observations db) \<Longrightarrow>
    ad_revisions db' = ad_revisions db @ [v] \<Longrightarrow> ad_changesets db' = ad_changesets db \<Longrightarrow>
    gd_ids db' = Suc (gd_ids db) \<Longrightarrow> vr_revision v = new_id D (gd_ids db) \<Longrightarrow> vr_observation_id v = i \<Longrightarrow>
    vr_parent v = or_current_revision row \<Longrightarrow> vr_changeset v = cs \<Longrightarrow> history_step D cs b db db'"
| dropped: "gd_observations db' = filter P (gd_observations db) \<Longrightarrow> ad_revisions db' = ad_revisions db \<Longrightarrow>
    ad_changesets db' = ad_changesets db \<Longrightarrow> gd_ids db' = gd_ids db \<Longrightarrow> history_step D cs 0 db db'"

lemma head_in_used: "r \<in> set (gd_observations db) \<Longrightarrow> row_id r \<in> used_ids db"
  by (simp add: used_ids_def)

lemma hist_unused: "i \<notin> used_ids db \<Longrightarrow> hist i (ad_revisions db) = []"
  by (auto simp: hist_def used_ids_def filter_empty_conv)

lemma row_ok_other: "vr_observation_id v \<noteq> row_id r \<Longrightarrow> row_ok (vs @ [v]) r = row_ok vs r"
  by (simp add: row_ok_def hist_single)

lemma chained_add:
  assumes "history_ok D db" "find_row i (gd_observations db) = Some row" "vr_observation_id v = i"
    "vr_parent v = or_current_revision row"
  shows "chained None (hist j (ad_revisions db @ [v]))"
proof -
  have "row \<in> set (gd_observations db)" "row_id row = i" using find_row_Some [OF assms(2)] by auto
  then have "vr_parent v = head_of None (hist i (ad_revisions db))"
    using assms by (auto simp: history_ok_def row_ok_def)
  then show ?thesis using assms by (auto simp: hist_single chained_snoc history_ok_def)
qed

lemma used_ids_add_revision:
  assumes "ad_revisions db' = ad_revisions db @ [v]" "ad_changesets db' = ad_changesets db"
    "row_id ` set (gd_observations db') \<subseteq> row_id ` set (gd_observations db)"
    "vr_observation_id v \<in> row_id ` set (gd_observations db)"
  shows "used_ids db' \<subseteq> insert (vr_revision v) (used_ids db)"
  using assms by (auto simp: used_ids_def)

lemma history_step_ok:
  assumes "history_step D cs b db db'" and inj: "inj (new_id D)" and h: "history_ok D db"
  shows "history_ok D db'"
  using assms(1)
proof cases
  case quiet
  then have "used_ids db' \<subseteq> used_ids db \<union> new_names D db db'" by (auto simp: used_ids_def)
  then have "\<forall>n\<ge>gd_ids db'. new_id D n \<notin> used_ids db'"
    using h inj quiet(5) by (fastforce simp: history_ok_def new_names_def dest: injD)
  then show ?thesis using h quiet by (simp add: history_ok_def)
next
  case (inserted row)
  have new: "row_id row \<notin> used_ids db" using h by (simp add: history_ok_def inserted)
  then have "row_id row \<notin> row_id ` set (gd_observations db)" by (auto simp: used_ids_def)
  moreover have "row_ok (ad_revisions db) row" using hist_unused [OF new] inserted by (simp add: row_ok_def head_of_def)
  moreover have "used_ids db' = insert (new_id D (gd_ids db)) (used_ids db)"
    by (auto simp: used_ids_def inserted)
  ultimately show ?thesis using h inj by (auto simp: history_ok_def inserted dest: injD)
next
  case (changed i row row' v)
  have i: "i \<in> row_id ` set (gd_observations db)" using find_row_Some [OF changed(1)] by auto
  have names: "map row_id (gd_observations db') = map row_id (gd_observations db)"
    using changed(2) by (simp add: changed(3))
  then have rn: "row_id ` set (gd_observations db') = row_id ` set (gd_observations db)" by (metis list.set_map)
  have "used_ids db' \<subseteq> insert (new_id D (gd_ids db)) (used_ids db)"
    using used_ids_add_revision [OF changed(4,5)] rn i changed(7,8) by simp
  then have "\<forall>n\<ge>gd_ids db'. new_id D n \<notin> used_ids db'"
    using h inj changed(6) by (fastforce simp: history_ok_def dest: injD)
  moreover have "row_ok (ad_revisions db') r" if "r \<in> set (gd_observations db')" for r
  proof (cases "row_id r = i")
    case True
    then have "r = row'" using that changed(2) unfolding changed(3) by auto
    then show ?thesis using changed by (simp add: row_ok_def hist_single head_of_def)
  next
    case False
    then have "r \<in> set (gd_observations db)" using that changed(2) unfolding changed(3) by auto
    then show ?thesis using h False by (simp add: changed(4,8) row_ok_other history_ok_def)
  qed
  moreover have "chained None (hist j (ad_revisions db'))" for j
    using chained_add [OF h changed(1,8,9)] by (simp add: changed(4))
  moreover have "distinct (map vr_revision (ad_revisions db'))"
    using h by (auto simp: history_ok_def changed(4,7) used_ids_def)
  ultimately show ?thesis using h names by (simp add: history_ok_def)
next
  case (destroyed i row v)
  have i: "i \<in> row_id ` set (gd_observations db)" using find_row_Some [OF destroyed(1)] by auto
  have "used_ids db' \<subseteq> insert (new_id D (gd_ids db)) (used_ids db)"
    using used_ids_add_revision [OF destroyed(3,4)] i by (auto simp: destroyed)
  then have "\<forall>n\<ge>gd_ids db'. new_id D n \<notin> used_ids db'"
    using h inj destroyed(5) by (fastforce simp: history_ok_def dest: injD)
  moreover have "\<forall>r\<in>set (gd_observations db'). row_ok (ad_revisions db') r"
    using h by (auto simp: destroyed(2,3,7) row_ok_other history_ok_def)
  moreover have "chained None (hist j (ad_revisions db'))" for j
    using chained_add [OF h destroyed(1,7,8)] by (simp add: destroyed(3))
  moreover have "distinct (map vr_revision (ad_revisions db'))"
    using h by (auto simp: history_ok_def destroyed(3,6) used_ids_def)
  ultimately show ?thesis using h by (simp add: history_ok_def destroyed(2) distinct_map_filter)
next
  case (dropped P)
  then have "used_ids db' \<subseteq> used_ids db" by (auto simp: used_ids_def)
  then show ?thesis using h by (auto simp: history_ok_def dropped distinct_map_filter)
qed

definition history_run :: "'d audit_deps_scheme \<Rightarrow> str \<Rightarrow> audit_db \<Rightarrow> audit_db \<Rightarrow> bool" where
  "history_run D cs = (history_step D cs 0)\<^sup>*\<^sup>*"

lemma history_run_refl [simp]: "history_run D cs db db"
  by (simp add: history_run_def)

lemma history_run_step: "history_step D cs 0 db db' \<Longrightarrow> history_run D cs db db'"
  by (simp add: history_run_def)

lemma history_run_trans: "history_run D cs a b \<Longrightarrow> history_run D cs b c \<Longrightarrow> history_run D cs a c"
  by (simp add: history_run_def)

lemma history_run_ok: "history_run D cs db db' \<Longrightarrow> inj (new_id D) \<Longrightarrow> history_ok D db \<Longrightarrow> history_ok D db'"
  unfolding history_run_def by (induction rule: rtranclp_induct) (auto intro: history_step_ok)

definition versions_below :: "nat \<Rightarrow> audit_db \<Rightarrow> bool" where
  "versions_below k db \<longleftrightarrow> (\<forall>r\<in>set (gd_observations db). or_row_version r < k)"

lemma versions_below_step:
  "history_step D cs b db db' \<Longrightarrow> versions_below k db \<Longrightarrow> 2 \<le> k \<Longrightarrow> versions_below (k + b) db'"
  by (induction rule: history_step.induct)
    (auto simp: versions_below_def dest!: find_row_Some split: if_splits)

lemma versions_below_run: "history_run D cs db db' \<Longrightarrow> versions_below k db \<Longrightarrow> 2 \<le> k \<Longrightarrow> versions_below k db'"
  unfolding history_run_def
  by (induction rule: rtranclp_induct) (auto dest: versions_below_step [where b = 0])

text \<open>Revisions are only ever appended, for the changeset of the transaction.\<close>

definition extends_by :: "str \<Rightarrow> audit_db \<Rightarrow> audit_db \<Rightarrow> bool" where
  "extends_by cs db db' \<longleftrightarrow> (\<exists>vs. ad_revisions db' = ad_revisions db @ vs \<and> list_all (\<lambda>v. vr_changeset v = cs) vs)"

lemma extends_by_refl [simp]: "extends_by cs db db"
  by (simp add: extends_by_def)

lemma extends_by_trans: "extends_by cs a b \<Longrightarrow> extends_by cs b c \<Longrightarrow> extends_by cs a c"
  by (auto simp: extends_by_def)

lemma extends_by_step: "history_step D cs b db db' \<Longrightarrow> extends_by cs db db'"
  by (induction rule: history_step.induct) (auto simp: extends_by_def)

lemma extends_by_run: "history_run D cs db db' \<Longrightarrow> extends_by cs db db'"
  unfolding history_run_def
  by (induction rule: rtranclp_induct) (auto dest: extends_by_step intro: extends_by_trans)

end
