(* ===== verification/Om_AuditSteps.thy ===== *)
theory Om_AuditSteps
  imports Om_AuditFacts
begin

text \<open>
  Each operation of the audited store is a run of the writes of \<open>Om_AuditFacts\<close>.
\<close>

section \<open>The write path of a group\<close>

text \<open>What the entities and relations of a group leave alone.\<close>

definition core_same :: "audit_db \<Rightarrow> audit_db \<Rightarrow> bool" where
  "core_same db db' \<longleftrightarrow> gd_observations db' = gd_observations db \<and> gd_space db' = gd_space db \<and>
     graph_db.more db' = graph_db.more db \<and> gd_ids db \<le> gd_ids db'"

lemma more_fields: "graph_db.more db' = graph_db.more db \<Longrightarrow>
    ad_changesets db' = ad_changesets db \<and> ad_requests db' = ad_requests db \<and> ad_events db' = ad_events db \<and>
    ad_revisions db' = ad_revisions db \<and> ad_outbox db' = ad_outbox db \<and>
    ad_confirmations db' = ad_confirmations db \<and> ad_receipts db' = ad_receipts db \<and>
    ad_semantic db' = ad_semantic db \<and> ad_indexed db' = ad_indexed db \<and> ad_repair db' = ad_repair db \<and>
    ad_cursor db' = ad_cursor db \<and> ad_backfilled db' = ad_backfilled db"
  for db db' :: audit_db
  by (cases db; cases db') simp

lemma core_same_refl [simp]: "core_same db db"
  by (simp add: core_same_def)

lemma core_same_trans: "core_same a b \<Longrightarrow> core_same b c \<Longrightarrow> core_same a c"
  by (auto simp: core_same_def)

lemma core_same_step: "core_same db db' \<Longrightarrow> history_step D cs 0 db db'"
  by (rule history_step.quiet) (auto simp: core_same_def dest: more_fields)

lemma create_entity_core: "create_entity D name t source now db = (i, db') \<Longrightarrow> core_same db db'"
  by (auto simp: create_entity_def fresh_id_def core_same_def)

lemma ensure_entity_core: "ensure_entity D name t source now p db = (e, db') \<Longrightarrow> core_same db db'"
  by (auto simp: ensure_entity_def create_entity_def fresh_id_def touch_entity_def core_same_def Let_def
      split: option.splits normalize_match.splits if_splits)

lemma insert_relation_core: "insert_relation D entity source now p x db = Inr (i, db') \<Longrightarrow> core_same db db'"
  by (auto simp: insert_relation_def fresh_id_def Let_def core_same_def split: prod.splits if_splits
      dest!: ensure_entity_core)

lemma insert_relations_core:
  "insert_each (insert_relation D entity source now p) xs db = Inr (ids, db') \<Longrightarrow> core_same db db'"
  by (induction xs arbitrary: ids db)
    (auto simp: bind_result_Inr split: prod.splits dest!: insert_relation_core intro: core_same_trans)

text \<open>Observations that have just been inserted.\<close>

definition unrecorded :: "str list \<Rightarrow> audit_db \<Rightarrow> bool" where
  "unrecorded ids db \<longleftrightarrow> distinct ids \<and>
     (\<forall>i\<in>set ids. \<exists>r. find_row i (gd_observations db) = Some r \<and> or_current_revision r = None)"

lemma insert_observation_step:
  assumes "insert_observation D entity source now x db = Inr (i, db')"
  shows "history_step D cs 0 db db'" "i = new_id D (gd_ids db)"
    "\<exists>r. gd_observations db' = gd_observations db @ [r] \<and> row_id r = i \<and> or_current_revision r = None"
    "gd_ids db' = Suc (gd_ids db)" "gd_space db' = gd_space db" "graph_db.more db' = graph_db.more db"
  using assms
  by (auto simp: insert_observation_def fresh_id_def row_id_def observation_of_input_def
      intro!: history_step.inserted split: if_splits)

lemma find_row_append: "find_row i (xs @ ys) = (case find_row i xs of None \<Rightarrow> find_row i ys | Some r \<Rightarrow> Some r)"
  by (induction xs) (auto simp: find_row_def)

lemma insert_observations_run:
  assumes "inj (new_id D)"
  shows "insert_each (insert_observation D entity source now) xs db = Inr (ids, db') \<Longrightarrow> history_ok D db \<Longrightarrow>
    history_run D cs db db' \<and> unrecorded ids db' \<and> gd_space db' = gd_space db \<and>
    graph_db.more db' = graph_db.more db \<and> (\<exists>rs. gd_observations db' = gd_observations db @ rs) \<and>
    set ids \<subseteq> new_id D ` {gd_ids db ..< gd_ids db'} \<and> gd_ids db \<le> gd_ids db'"
proof (induction xs arbitrary: ids db)
  case Nil
  then show ?case by (auto simp: unrecorded_def)
next
  case (Cons x xs)
  from Cons.prems(1) obtain i db1 js where a: "insert_observation D entity source now x db = Inr (i, db1)"
    and b: "insert_each (insert_observation D entity source now) xs db1 = Inr (js, db')" and ids: "ids = i # js"
    by (auto simp: bind_result_Inr)
  note s = insert_observation_step [OF a]
  have h1: "history_ok D db1" using history_step_ok [OF s(1) assms Cons.prems(2)] by blast
  note ih = Cons.IH [OF b h1]
  obtain r where r: "gd_observations db1 = gd_observations db @ [r]" "row_id r = i" "or_current_revision r = None"
    using s(3) by blast
  have "i \<notin> row_id ` set (gd_observations db)"
    using Cons.prems(2) s(2) by (auto simp: history_ok_def used_ids_def)
  then have "find_row i (gd_observations db) = None" by (simp add: find_row_None)
  moreover obtain rs where rs: "gd_observations db' = gd_observations db1 @ rs" using ih by blast
  ultimately have f: "find_row i (gd_observations db') = Some r"
    using r(2) by (simp add: find_row_append r(1)) (simp add: find_row_def)
  have "i \<notin> new_id D ` {gd_ids db1 ..< gd_ids db'}" using s(2,4) assms by (auto dest: injD)
  then have "i \<notin> set js" using ih by blast
  then have "unrecorded ids db'" using ih f r(3) ids by (auto simp: unrecorded_def)
  moreover have "history_run D cs db db'" using history_run_step [OF s(1)] ih by (blast intro: history_run_trans)
  moreover have "set ids \<subseteq> new_id D ` {gd_ids db ..< gd_ids db'}"
    using ih s(2,4) ids by (fastforce simp: image_iff)
  ultimately show ?case using ih rs r(1) s(4-6) by auto
qed

lemma write_group_run:
  assumes "write_group D name t obs rels source now p db = Inr (g, db')" and "inj (new_id D)" and "history_ok D db"
  shows "history_run D cs db db' \<and> unrecorded (ro_observation_ids g) db' \<and> gd_space db' = gd_space db \<and>
    graph_db.more db' = graph_db.more db \<and> (\<exists>rs. gd_observations db' = gd_observations db @ rs) \<and>
    set (ro_observation_ids g) \<subseteq> new_names D db db' \<and> gd_ids db \<le> gd_ids db'"
proof -
  obtain e db1 db2 oids rids where e: "ensure_entity D name t source now p db = (e, db1)"
    and o: "insert_each (insert_observation D (er_entity_id e) source now) obs db1 = Inr (oids, db2)"
    and r: "insert_each (insert_relation D (er_entity_id e) source now p) rels db2 = Inr (rids, db')"
    and g: "ro_observation_ids g = oids"
    using assms(1) by (auto simp: write_group_def bind_result_Inr Let_def split: prod.splits)
  have c: "core_same db db1" using e by (rule ensure_entity_core)
  have h1: "history_ok D db1" using history_step_ok [OF core_same_step [OF c] assms(2,3)] by blast
  note ins = insert_observations_run [OF assms(2) o h1, of cs]
  have c2: "core_same db2 db'" using r by (rule insert_relations_core)
  have "history_run D cs db db'"
    using history_run_step [OF core_same_step [OF c]] ins history_run_step [OF core_same_step [OF c2]]
    by (blast intro: history_run_trans)
  then show ?thesis using ins c c2 g by (fastforce simp: core_same_def unrecorded_def new_names_def)
qed

lemma unrecorded_grows:
  assumes "unrecorded ids db" "gd_observations db' = gd_observations db @ rs"
  shows "unrecorded ids db'"
  using assms by (fastforce simp: unrecorded_def find_row_append)

lemma unrecorded_append: "unrecorded (xs @ ys) db \<longleftrightarrow> unrecorded xs db \<and> unrecorded ys db \<and> set xs \<inter> set ys = {}"
  by (auto simp: unrecorded_def)

lemma write_groups_run:
  assumes inj: "inj (new_id D)"
  shows "write_groups D now p rs db = Inr (gs, db') \<Longrightarrow> history_ok D db \<Longrightarrow>
    history_run D cs db db' \<and> unrecorded (concat (map ro_observation_ids gs)) db' \<and> gd_space db' = gd_space db \<and>
    graph_db.more db' = graph_db.more db \<and> (\<exists>rs. gd_observations db' = gd_observations db @ rs) \<and>
    set (concat (map ro_observation_ids gs)) \<subseteq> new_names D db db' \<and> gd_ids db \<le> gd_ids db'"
proof (induction rs arbitrary: gs db)
  case Nil
  then show ?case by (auto simp: unrecorded_def)
next
  case (Cons r rs)
  obtain g db1 hs where w: "write_group D (rq_name r) (rq_entity_type r) (rq_observations r) (rq_relations r)
      (rq_source r) now p db = Inr (g, db1)" and ws: "write_groups D now p rs db1 = Inr (hs, db')" and gs: "gs = g # hs"
    using Cons.prems(1) by (auto simp: bind_result_Inr)
  note a = write_group_run [OF w inj Cons.prems(2), of cs]
  have h1: "history_ok D db1" using a history_run_ok inj Cons.prems(2) by blast
  note b = Cons.IH [OF ws h1]
  have le: "gd_ids db \<le> gd_ids db1" "gd_ids db1 \<le> gd_ids db'" using a b by blast+
  have old: "set (ro_observation_ids g) \<subseteq> new_names D db db1" using a by blast
  have new: "set (concat (map ro_observation_ids hs)) \<subseteq> new_names D db1 db'" using b by blast
  have "new_names D db db1 \<inter> new_names D db1 db' = {}" using inj by (auto simp: new_names_def dest: injD)
  then have "set (ro_observation_ids g) \<inter> set (concat (map ro_observation_ids hs)) = {}" using old new by blast
  moreover have "unrecorded (ro_observation_ids g) db'" using a b unrecorded_grows by blast
  ultimately have "unrecorded (concat (map ro_observation_ids gs)) db'" using b by (simp add: gs unrecorded_append)
  moreover have "new_names D db db1 \<subseteq> new_names D db db'" "new_names D db1 db' \<subseteq> new_names D db db'"
    using le by (auto simp: new_names_def)
  then have "set (concat (map ro_observation_ids gs)) \<subseteq> new_names D db db'" using old new by (simp add: gs) blast
  moreover have "history_run D cs db db'" using a b by (blast intro: history_run_trans)
  moreover have "\<exists>rs. gd_observations db' = gd_observations db @ rs" using a b by (metis append_assoc)
  ultimately show ?case using a b le by auto
qed

section \<open>Recording a new observation\<close>

lemma sort_twice [simp]: "sort (sort xs) = sort (xs :: 'a::linorder list)"
  by (simp add: sorted_sort_id)

lemma update_one:
  assumes "distinct (map row_id rows)" "find_row i rows = Some row" "P row"
  shows "map (\<lambda>r. if row_id r = i \<and> P r then f r else r) rows = map (\<lambda>r. if row_id r = i then f row else r) rows"
proof (rule map_cong [OF refl])
  fix r assume "r \<in> set rows"
  then have "row_id r = i \<Longrightarrow> r = row" using same_row [OF assms(1,2)] by blast
  then show "(if row_id r = i \<and> P r then f r else r) = (if row_id r = i then f row else r)" using assms(3) by auto
qed

lemma load_required_Inr: "load_required db i = Inr r \<Longrightarrow> \<exists>s. find_row i (gd_observations db) = Some s \<and> row_id s = i \<and>
    r = s\<lparr>or_observation := (or_observation s)\<lparr>mo_concepts := sort (mo_concepts (or_observation s)),
            mo_source_files := sort (mo_source_files (or_observation s))\<rparr>\<rparr>"
  by (auto simp: load_required_def load_observation_def dest: find_row_Some split: option.splits)

lemma describes_loaded: "describes v (s\<lparr>or_observation := (or_observation s)
      \<lparr>mo_concepts := sort (mo_concepts (or_observation s)), mo_source_files := sort (mo_source_files (or_observation s))\<rparr>\<rparr>)
    = describes v s"
  by (simp add: describes_def revision_view_def)

definition outbox_entry :: "audit_db \<Rightarrow> nat \<Rightarrow> nat \<Rightarrow> bool \<Rightarrow> str \<Rightarrow> str option \<Rightarrow> outbox_row" where
  "outbox_entry db g n del i r = \<lparr>xo_id = Suc (length (ad_outbox db)), xo_generation = to_i64 g,
     xo_ordinal = to_i64 n, xo_delete = del, xo_logical_id = i, xo_revision = r, xo_attempts = 0,
     xo_error = None, xo_applied_at = None\<rparr>"

definition operation_event :: "str \<Rightarrow> nat \<Rightarrow> str \<Rightarrow> str \<Rightarrow> str option \<Rightarrow> change_event" where
  "operation_event cs n kind i r = \<lparr>ev_changeset = cs, ev_ordinal = n, ev_type = kind, ev_logical_id = Some i,
     ev_revision = r, ev_review = None\<rparr>"

lemma insert_outbox_Inr: "insert_outbox g n del i r db = Inr db' \<Longrightarrow>
    db' = db\<lparr>ad_outbox := ad_outbox db @ [outbox_entry db g n del i r]\<rparr>"
  by (auto simp: insert_outbox_def outbox_entry_def Let_def split: if_splits)

lemma insert_event_Inr: "insert_event e db = Inr db' \<Longrightarrow> db' = db\<lparr>ad_events := ad_events db @ [e]\<rparr>"
  by (auto simp: insert_event_def split: if_splits)

lemma record_both_Inr:
  assumes "bind_result (insert_outbox g n del i r db) (insert_operation_event cs m kind i r) = Inr db'"
  shows "db' = db\<lparr>ad_events := ad_events db @ [operation_event cs m kind i r],
    ad_outbox := ad_outbox db @ [outbox_entry db g n del i r]\<rparr>"
  using assms by (auto simp: insert_operation_event_def operation_event_def bind_result_Inr
      dest!: insert_outbox_Inr insert_event_Inr)

lemma record_change_Inr: "record_change cs g n del kind i r db = Inr db' \<Longrightarrow>
    db' = db\<lparr>ad_events := ad_events db @ [operation_event cs (scoped_ordinal n 0) kind i (Some r)],
      ad_outbox := ad_outbox db @ [outbox_entry db g (scoped_ordinal n 0) del i (Some r)]\<rparr>"
  unfolding record_change_def by (rule record_both_Inr)

definition revised :: "'d audit_deps_scheme \<Rightarrow> observation_row \<Rightarrow> str option \<Rightarrow> str \<Rightarrow> audit_db \<Rightarrow> audit_db" where
  "revised D row parent cs db = snd (insert_revision D row parent cs db)"

lemma insert_revision_eq: "insert_revision D row parent cs db = (new_id D (gd_ids db), revised D row parent cs db)"
  by (simp add: revised_def insert_revision_def fresh_id_def)

text \<open>The first revision of a row: it has no parent, describes the row and becomes its head.\<close>

lemma first_revision_step:
  assumes h: "history_ok D db" and u: "unrecorded (i # ids) db" and row: "load_required db i = Inr row"
    and P: "\<And>r. or_current_revision r = None \<Longrightarrow> P r"
    and db': "gd_observations db' = map (\<lambda>r. if row_id r = i \<and> P r
        then r\<lparr>or_current_revision := Some (new_id D (gd_ids db))\<rparr> else r) (gd_observations db)"
      "ad_revisions db' = ad_revisions (revised D row None cs db)" "ad_changesets db' = ad_changesets db"
      "gd_ids db' = Suc (gd_ids db)"
  shows "history_step D cs 0 db db'" "unrecorded ids db'"
proof -
  obtain s where s: "find_row i (gd_observations db) = Some s" "row_id s = i"
    and row_s: "row = s\<lparr>or_observation := (or_observation s)\<lparr>mo_concepts := sort (mo_concepts (or_observation s)),
            mo_source_files := sort (mo_source_files (or_observation s))\<rparr>\<rparr>"
    using load_required_Inr [OF row] by blast
  have none: "or_current_revision s = None" using u s(1) by (auto simp: unrecorded_def)
  have d: "distinct (map row_id (gd_observations db))" using h by (simp add: history_ok_def)
  let ?rev = "new_id D (gd_ids db)"
  let ?v = "\<lparr>vr_revision = ?rev, vr_observation_id = i, vr_parent = None, vr_changeset = cs,
      vr_observation = or_observation row, vr_lifecycle = or_lifecycle row,
      vr_semantic_hash = observation_hash D (or_observation row) (or_lifecycle row)\<rparr>"
  let ?f = "\<lambda>r. r\<lparr>or_current_revision := Some ?rev\<rparr>"
  have revs: "ad_revisions db' = ad_revisions db @ [?v]"
    using row_s s(2) by (simp add: db' revised_def insert_revision_def fresh_id_def row_id_def)
  have obs: "gd_observations db' = map (\<lambda>r. if row_id r = i then ?f s else r) (gd_observations db)"
    unfolding db'(1) by (rule update_one [where P = P, OF d s(1) P [OF none]])
  show "history_step D cs 0 db db'"
    using s none row_s
    by (intro history_step.changed [where i = i and row = s and row' = "?f s" and v = ?v])
      (simp_all only: obs revs, auto simp: db'(3,4) row_id_def describes_def revision_view_def)
  have "find_row j (gd_observations db') = find_row j (gd_observations db)" if "j \<noteq> i" for j
  proof -
    have "find_row j (gd_observations db') =
        map_option (\<lambda>r. if row_id r = i \<and> P r then ?f r else r) (find_row j (gd_observations db))"
      unfolding db'(1) by (rule find_row_map) (simp add: row_id_def)
    then show ?thesis using that by (cases "find_row j (gd_observations db)") (auto dest: find_row_Some)
  qed
  then show "unrecorded ids db'"
    using u unfolding unrecorded_def by (metis distinct.simps(2) list.set_intros(2))
qed

lemma record_remembered_step:
  assumes r: "record_remembered D cs g n i db = Inr db'" and h: "history_ok D db" and u: "unrecorded (i # ids) db"
  shows "history_step D cs 0 db db'" "unrecorded ids db'"
    "gd_space db' = gd_space db \<and> gd_ids db' = Suc (gd_ids db)"
proof -
  obtain row where row: "load_required db i = Inr row" using r by (auto simp: record_remembered_def bind_result_Inr)
  let ?rev = "new_id D (gd_ids db)"
  have "bind_result (insert_outbox g n False i (Some ?rev) (set_revision i ?rev (revised D row None cs db)))
      (insert_operation_event cs n ''remembered'' i (Some ?rev)) = Inr db'"
    using r row by (simp add: record_remembered_def insert_revision_eq Let_def)
  note db' = record_both_Inr [OF this]
  have shape: "gd_observations db' = map (\<lambda>r. if row_id r = i \<and> True
        then r\<lparr>or_current_revision := Some ?rev\<rparr> else r) (gd_observations db)"
      "ad_revisions db' = ad_revisions (revised D row None cs db)" "ad_changesets db' = ad_changesets db"
      "gd_ids db' = Suc (gd_ids db)" "gd_space db' = gd_space db"
    by (simp_all add: db' set_revision_def update_rows_def revised_def insert_revision_def fresh_id_def)
  show "history_step D cs 0 db db'" "unrecorded ids db'"
    using first_revision_step [OF h u row, of "\<lambda>_. True", OF _ shape(1-4)] by simp_all
  show "gd_space db' = gd_space db \<and> gd_ids db' = Suc (gd_ids db)" using shape by simp
qed

lemma record_all_run:
  assumes inj: "inj (new_id D)"
  shows "record_all D cs g n k ids db = Inr db' \<Longrightarrow> history_ok D db \<Longrightarrow> unrecorded (ids @ rest) db \<Longrightarrow>
    history_run D cs db db' \<and> gd_space db' = gd_space db \<and> unrecorded rest db' \<and> gd_ids db \<le> gd_ids db'"
proof (induction ids arbitrary: k db)
  case Nil
  then show ?case by simp
next
  case (Cons i ids)
  from Cons.prems(1) obtain db1 where a: "record_remembered D cs g (scoped_ordinal n k) i db = Inr db1"
    and b: "record_all D cs g n (Suc k) ids db1 = Inr db'" by (auto simp: bind_result_Inr)
  note s = record_remembered_step [OF a Cons.prems(2) Cons.prems(3) [unfolded append_Cons]]
  show ?case
    using Cons.IH [OF b history_step_ok [OF s(1) inj Cons.prems(2)] s(2)] s(3) history_run_step [OF s(1)]
    by (auto intro: history_run_trans)
qed

section \<open>Changes of an observation\<close>

text \<open>The shape the changes of a row share: the row \<open>i\<close> becomes \<open>f\<close> of it, the new revision describes it and
  has the old head as its parent, the head and the version advance, and the index is told.\<close>

definition row_changed :: "'d audit_deps_scheme \<Rightarrow> str \<Rightarrow> nat \<Rightarrow> nat \<Rightarrow> bool \<Rightarrow> str \<Rightarrow>
    (observation_row \<Rightarrow> observation_row) \<Rightarrow> audit_db \<Rightarrow> audit_db \<Rightarrow> bool" where
  "row_changed D cs g n del i f db db' \<longleftrightarrow> (\<exists>s t v x. find_row i (gd_observations db) = Some s \<and>
     t = (f s)\<lparr>or_current_revision := Some (vr_revision v), or_row_version := or_row_version s + 1\<rparr> \<and> row_id t = i \<and>
     gd_observations db' = map (\<lambda>r. if row_id r = i then t else r) (gd_observations db) \<and>
     vr_revision v = new_id D (gd_ids db) \<and> vr_observation_id v = i \<and> vr_parent v = or_current_revision s \<and>
     vr_changeset v = cs \<and> describes v t \<and> ad_revisions db' = ad_revisions db @ [v] \<and>
     xo_generation x = to_i64 g \<and> xo_ordinal x = to_i64 (scoped_ordinal n 0) \<and> xo_delete x = del \<and>
     xo_logical_id x = i \<and> xo_revision x = Some (vr_revision v) \<and> xo_applied_at x = None \<and>
     ad_outbox db' = ad_outbox db @ [x] \<and> gd_entities db' = gd_entities db \<and> gd_relations db' = gd_relations db \<and>
     ad_changesets db' = ad_changesets db \<and> gd_ids db' = Suc (gd_ids db))"

lemma row_changed_step: "row_changed D cs g n del i f db db' \<Longrightarrow> history_step D cs 1 db db'"
  unfolding row_changed_def by (elim exE conjE, intro history_step.changed) auto

lemma change_shape:
  assumes h: "history_ok D db" and s: "find_row i (gd_observations db) = Some s"
    and ver: "or_row_version s = unat expected" "unat expected < 2 ^ 63"
    and db1: "gd_observations db1 = map (\<lambda>r. if row_id r = i then f s else r) (gd_observations db)"
      "row_id (f s) = i" "or_row_version (f s) = or_row_version s" "gd_ids db1 = gd_ids db"
      "gd_entities db1 = gd_entities db" "graph_db.more db1 = graph_db.more db" "gd_relations db1 = gd_relations db"
    and load: "load_required db1 i = Inr refreshed"
    and rec0: "record_change cs g n del kind i (new_id D (gd_ids db1)) (advance_head i expected (new_id D (gd_ids db1))
        (revised D refreshed (or_current_revision s) cs db1)) = Inr db'"
  shows "row_changed D cs g n del i f db db'"
proof -
  obtain r db2 where rev: "insert_revision D refreshed (or_current_revision s) cs db1 = (r, db2)" by force
  then have rec: "record_change cs g n del kind i r (advance_head i expected r db2) = Inr db'"
    using rec0 by (simp add: insert_revision_eq)
  let ?s1 = "f s"
  let ?v = "\<lparr>vr_revision = new_id D (gd_ids db), vr_observation_id = row_id refreshed,
      vr_parent = or_current_revision s, vr_changeset = cs, vr_observation = or_observation refreshed,
      vr_lifecycle = or_lifecycle refreshed,
      vr_semantic_hash = observation_hash D (or_observation refreshed) (or_lifecycle refreshed)\<rparr>"
  let ?h = "?s1\<lparr>or_current_revision := Some r, or_row_version := or_row_version ?s1 + 1\<rparr>"
  have d: "distinct (map row_id (gd_observations db))" using h by (simp add: history_ok_def)
  have d1: "distinct (map row_id (gd_observations db1))"
  proof -
    have "map row_id (gd_observations db1) = map row_id (gd_observations db)" using db1(2) by (simp add: db1(1))
    then show ?thesis using d by simp
  qed
  have i: "row_id s = i" using find_row_Some [OF s] by simp
  have f1: "find_row i (gd_observations db1) = Some ?s1"
  proof -
    have "s \<in> set (gd_observations db)" using find_row_Some [OF s] by simp
    then have "?s1 \<in> set (gd_observations db1)" unfolding db1(1) using i by (auto intro!: rev_image_eqI)
    then show ?thesis using find_row_distinct [OF d1] db1(2) by metis
  qed
  obtain t where "find_row i (gd_observations db1) = Some t"
    and t: "refreshed = t\<lparr>or_observation := (or_observation t)\<lparr>mo_concepts := sort (mo_concepts (or_observation t)),
            mo_source_files := sort (mo_source_files (or_observation t))\<rparr>\<rparr>"
    using load_required_Inr [OF load] by blast
  then have ref: "refreshed = ?s1\<lparr>or_observation := (or_observation ?s1)\<lparr>mo_concepts := sort (mo_concepts (or_observation ?s1)),
            mo_source_files := sort (mo_source_files (or_observation ?s1))\<rparr>\<rparr>" using f1 by simp
  have ri: "row_id refreshed = i" using ref db1(2) by (simp add: row_id_def)
  have r: "r = new_id D (gd_ids db)" and db2: "db2 = db1\<lparr>gd_ids := Suc (gd_ids db1), ad_revisions := ad_revisions db1 @ [?v]\<rparr>"
    using rev by (auto simp: insert_revision_def fresh_id_def db1(4) Let_def)
  have m: "ad_revisions db1 = ad_revisions db" "ad_changesets db1 = ad_changesets db" "ad_outbox db1 = ad_outbox db"
    using more_fields [OF db1(6)] by auto
  have "to_i64 (unat expected) = unat expected" using ver(2) by (simp add: to_i64_def)
  then have v1: "or_row_version ?s1 = to_i64 (unat expected)" using ver db1(3) by simp
  let ?f = "\<lambda>t. t\<lparr>or_current_revision := Some r, or_row_version := or_row_version t + 1\<rparr>"
  have "gd_observations (advance_head i expected r db2) =
      map (\<lambda>t. if row_id t = i \<and> or_row_version t = to_i64 (unat expected) then ?f t else t) (gd_observations db1)"
    by (simp add: advance_head_def update_rows_def db2)
  also have "\<dots> = map (\<lambda>t. if row_id t = i then ?f ?s1 else t) (gd_observations db1)"
    by (rule update_one [OF d1 f1]) (rule v1)
  also have "\<dots> = map (\<lambda>r. if row_id r = i then ?h else r) (gd_observations db)"
    using db1(2) by (simp add: db1(1))
  finally have obs: "gd_observations db' = map (\<lambda>r. if row_id r = i then ?h else r) (gd_observations db)"
    using record_change_Inr [OF rec] by simp
  let ?x = "outbox_entry (advance_head i expected r db2) g (scoped_ordinal n 0) del i (Some r)"
  have rest: "ad_revisions db' = ad_revisions db @ [?v]" "ad_changesets db' = ad_changesets db"
      "gd_ids db' = Suc (gd_ids db)" "gd_entities db' = gd_entities db" "gd_relations db' = gd_relations db"
      "ad_outbox db' = ad_outbox db @ [?x]"
    using record_change_Inr [OF rec] by (simp_all add: advance_head_def update_rows_def db2 db1(4,5,7) m)
  have same: "row_id ?h = i" "or_row_version ?s1 = or_row_version s" using db1(2,3) by (simp_all add: row_id_def)
  have "describes ?v ?h" by (simp add: ref describes_def revision_view_def)
  then show ?thesis
    unfolding row_changed_def
    using s obs rest ri r same
    by (intro exI [of _ s] exI [of _ ?h] exI [of _ ?v] exI [of _ ?x]) (simp add: outbox_entry_def)
qed


lemma load_required_find: "load_required db i = Inr c \<Longrightarrow>
    \<exists>s. find_row i (gd_observations db) = Some s \<and> or_current_revision c = or_current_revision s \<and>
      or_row_version c = or_row_version s \<and> or_lifecycle c = or_lifecycle s \<and>
      mo_entity_id (or_observation c) = mo_entity_id (or_observation s)"
  by (auto dest: load_required_Inr)

lemma row_version_fits:
  "versions_below k db \<Longrightarrow> k \<le> 2 ^ 63 \<Longrightarrow> find_row i (gd_observations db) = Some s \<Longrightarrow> or_row_version s < 2 ^ 63"
  using find_row_Some [of i "gd_observations db" s] unfolding versions_below_def by fastforce

lemma map_same_row:
  assumes "distinct (map row_id rows)" "find_row i rows = Some s"
  shows "map (\<lambda>r. if row_id r = i then f r else r) rows = map (\<lambda>r. if row_id r = i then f s else r) rows"
  using update_one [OF assms, of "\<lambda>_. True" f] by simp

lemma update_rows_observations:
  "gd_observations (update_rows P f db) = map (\<lambda>r. if P r then f r else r) (gd_observations db)"
  by (simp add: update_rows_def)

definition lifecycle_row :: "bool \<Rightarrow> observation_row \<Rightarrow> observation_row" where
  "lifecycle_row retire r = r\<lparr>or_observation := (or_observation r)\<lparr>mo_tombstoned := retire\<rparr>,
     or_lifecycle := (if retire then LcRetired else LcActive)\<rparr>"

lemma apply_lifecycle_changed:
  assumes "apply_lifecycle D i expected retire cs g n db = Inr db'" and h: "history_ok D db"
    and k: "versions_below k db" "k \<le> 2 ^ 63"
  shows "row_changed D cs g n retire i (lifecycle_row retire) db db'"
proof -
  obtain c where c: "load_required db i = Inr c" using assms(1) by (auto simp: apply_lifecycle_def bind_result_Inr)
  obtain s where s: "find_row i (gd_observations db) = Some s"
    and cs: "or_current_revision c = or_current_revision s" "or_row_version c = or_row_version s"
    using load_required_find [OF c] by blast
  let ?P = "\<lambda>r. or_row_version r = to_i64 (unat expected)"
  let ?f = "\<lambda>r. r\<lparr>or_observation := (or_observation r)\<lparr>mo_tombstoned := retire\<rparr>,
                  or_lifecycle := (if retire then LcRetired else LcActive)\<rparr>"
  let ?db1 = "update_rows (\<lambda>r. row_id r = i \<and> ?P r) ?f db"
  from assms(1) c obtain refreshed where ver: "or_row_version s = unat expected"
    and load: "load_required ?db1 i = Inr refreshed"
    and rec: "record_change cs g n retire (if retire then ''retired'' else ''restored'') i (new_id D (gd_ids ?db1))
        (advance_head i expected (new_id D (gd_ids ?db1)) (revised D refreshed (or_current_revision s) cs ?db1)) = Inr db'"
    by (auto simp: apply_lifecycle_def bind_result_Inr cs insert_revision_eq Let_def split: if_split_asm)
  have lt: "unat expected < 2 ^ 63" using row_version_fits [OF k s] ver by simp
  have d: "distinct (map row_id (gd_observations db))" using h by (simp add: history_ok_def)
  have P: "?P s" using lt ver by (simp add: to_i64_def)
  have "gd_observations ?db1 = map (\<lambda>r. if row_id r = i \<and> ?P r then ?f r else r) (gd_observations db)"
    by (simp only: update_rows_observations)
  also have "\<dots> = map (\<lambda>r. if row_id r = i then ?f s else r) (gd_observations db)"
    by (rule update_one [OF d s, of ?P, OF P])
  finally have "gd_observations ?db1 = map (\<lambda>r. if row_id r = i then ?f s else r) (gd_observations db)" .
  then show ?thesis
    using find_row_Some [OF s] ver lt load rec
    by (intro change_shape [OF h s ver lt, where ?db1.0 = ?db1])
      (simp_all add: update_rows_def row_id_def lifecycle_row_def)
qed

lemma replace_observation_Inr: "replace_observation x db = Inr db' \<Longrightarrow>
    db' = update_rows (\<lambda>r. row_id r = mo_id x) (replaced_row x) db \<and>
    list_ex (\<lambda>e. en_id e = mo_entity_id x) (gd_entities db) \<and> distinct (mo_concepts x) \<and> distinct (mo_source_files x)"
  by (auto simp: replace_observation_def split: if_splits)

lemma replaced_row_id [simp]: "row_id (replaced_row x r) = row_id r"
  by (simp add: replaced_row_def row_id_def)

lemma replace_shape:
  assumes "replace_observation x db = Inr db1" "distinct (map row_id (gd_observations db))"
    "find_row (mo_id x) (gd_observations db) = Some s"
  shows "gd_observations db1 = map (\<lambda>r. if row_id r = mo_id x then replaced_row x s else r) (gd_observations db)"
    "gd_ids db1 = gd_ids db" "gd_entities db1 = gd_entities db" "graph_db.more db1 = graph_db.more db"
    "gd_relations db1 = gd_relations db"
  using replace_observation_Inr [OF assms(1)] map_same_row [OF assms(2,3), of "replaced_row x"]
  by (simp_all add: update_rows_def)

lemma replaced_row_version [simp]: "or_row_version (replaced_row x r) = or_row_version r"
  by (simp add: replaced_row_def)

lemma apply_update_changed:
  assumes "apply_update D x expected er cs g n db = Inr db'" and h: "history_ok D db"
    and k: "versions_below k db" "k \<le> 2 ^ 63"
  shows "row_changed D cs g n False (mo_id x) (replaced_row x) db db'"
proof -
  obtain c where c: "load_required db (mo_id x) = Inr c" using assms(1) by (auto simp: apply_update_def bind_result_Inr)
  obtain s where s: "find_row (mo_id x) (gd_observations db) = Some s"
    and cs: "or_current_revision c = or_current_revision s" "or_row_version c = or_row_version s"
    using load_required_find [OF c] by blast
  from assms(1) c obtain db1 refreshed where ver: "or_row_version s = unat expected"
    and rep: "replace_observation x db = Inr db1" and load: "load_required db1 (mo_id x) = Inr refreshed"
    and rec: "record_change cs g n False ''updated'' (mo_id x) (new_id D (gd_ids db1)) (advance_head (mo_id x) expected
        (new_id D (gd_ids db1)) (revised D refreshed (or_current_revision s) cs db1)) = Inr db'"
    by (auto simp: apply_update_def check_expected_def bind_result_Inr cs insert_revision_eq invalid_def Let_def split: if_splits)
  have lt: "unat expected < 2 ^ 63" using row_version_fits [OF k s] ver by simp
  have d: "distinct (map row_id (gd_observations db))" using h by (simp add: history_ok_def)
  show ?thesis
    using find_row_Some [OF s] replace_shape [OF rep d s] load rec
    by (intro change_shape [OF h s ver lt, where ?db1.0 = db1]) simp_all
qed

lemma observation_from_revision_id: "observation_from_revision t i db = Inr x \<Longrightarrow> mo_id x = i"
  by (auto simp: observation_from_revision_def no_row_def split: option.splits)

lemma apply_revert_changed:
  assumes "apply_revert D i t expected cs g n db = Inr db'" and h: "history_ok D db"
    and k: "versions_below k db" "k \<le> 2 ^ 63"
  shows "\<exists>x. observation_from_revision t i db = Inr x \<and> row_changed D cs g n False i (replaced_row x) db db'"
proof -
  obtain c where c: "load_required db i = Inr c" using assms(1) by (auto simp: apply_revert_def bind_result_Inr)
  obtain s where s: "find_row i (gd_observations db) = Some s"
    and cs: "or_current_revision c = or_current_revision s" "or_row_version c = or_row_version s"
    using load_required_find [OF c] by blast
  from assms(1) c obtain x db1 refreshed where ver: "or_row_version s = unat expected"
    and x: "observation_from_revision t i db = Inr x"
    and rep: "replace_observation x db = Inr db1" and load: "load_required db1 i = Inr refreshed"
    and rec: "record_change cs g n False ''reverted'' i (new_id D (gd_ids db1)) (advance_head i expected
        (new_id D (gd_ids db1)) (revised D refreshed (or_current_revision s) cs db1)) = Inr db'"
    by (auto simp: apply_revert_def bind_result_Inr cs insert_revision_eq invalid_def Let_def split: if_splits)
  note xi = observation_from_revision_id [OF x]
  have lt: "unat expected < 2 ^ 63" using row_version_fits [OF k s] ver by simp
  have d: "distinct (map row_id (gd_observations db))" using h by (simp add: history_ok_def)
  have "row_changed D cs g n False i (replaced_row x) db db'"
    using find_row_Some [OF s] replace_shape [OF rep d] s load rec xi
    by (intro change_shape [OF h s ver lt, where ?db1.0 = db1]) simp_all
  with x show ?thesis by blast
qed

lemma apply_revert_step:
  assumes "apply_revert D i t expected cs g n db = Inr db'" "history_ok D db" "versions_below k db" "k \<le> 2 ^ 63"
  shows "history_step D cs 1 db db'"
  using apply_revert_changed [OF assms] row_changed_step by blast

text \<open>A destruction removes the row, ends its history with a revision and has the index entry deleted.\<close>

definition row_destroyed :: "'d audit_deps_scheme \<Rightarrow> str \<Rightarrow> nat \<Rightarrow> nat \<Rightarrow> str \<Rightarrow> audit_db \<Rightarrow> audit_db \<Rightarrow> bool" where
  "row_destroyed D cs g n i db db' \<longleftrightarrow> (\<exists>s v x. find_row i (gd_observations db) = Some s \<and>
     gd_observations db' = filter (\<lambda>r. row_id r \<noteq> i) (gd_observations db) \<and>
     vr_revision v = new_id D (gd_ids db) \<and> vr_observation_id v = i \<and> vr_parent v = or_current_revision s \<and>
     vr_changeset v = cs \<and> vr_lifecycle v = LcDestroyed \<and> ad_revisions db' = ad_revisions db @ [v] \<and>
     xo_generation x = to_i64 g \<and> xo_ordinal x = to_i64 (scoped_ordinal n 0) \<and> xo_delete x \<and>
     xo_logical_id x = i \<and> xo_revision x = Some (vr_revision v) \<and> xo_applied_at x = None \<and>
     ad_outbox db' = ad_outbox db @ [x] \<and> gd_entities db' = gd_entities db \<and> gd_relations db' = gd_relations db \<and>
     ad_changesets db' = ad_changesets db \<and> gd_ids db' = Suc (gd_ids db))"

lemma row_destroyed_step: "row_destroyed D cs g n i db db' \<Longrightarrow> history_step D cs 1 db db'"
  unfolding row_destroyed_def by (elim exE conjE, intro history_step.destroyed) auto

lemma apply_destroy_shape:
  assumes "apply_destroy D i expected er token cs g n now db = Inr db'" and h: "history_ok D db"
    and k: "versions_below k db" "k \<le> 2 ^ 63"
  shows "row_destroyed D cs g n i db db'"
proof -
  obtain c where c: "load_required db i = Inr c" using assms(1) by (auto simp: apply_destroy_def bind_result_Inr)
  obtain s where s: "find_row i (gd_observations db) = Some s" "row_id s = i"
    and cs: "c = s\<lparr>or_observation := (or_observation s)\<lparr>mo_concepts := sort (mo_concepts (or_observation s)),
            mo_source_files := sort (mo_source_files (or_observation s))\<rparr>\<rparr>"
    using load_required_Inr [OF c] by blast
  let ?d = "c\<lparr>or_observation := (or_observation c)\<lparr>mo_tombstoned := True\<rparr>, or_lifecycle := LcDestroyed\<rparr>"
  from assms(1) c obtain db2 q where ver: "or_row_version s = unat expected"
    and rec: "record_change cs g n True ''destroyed'' i (new_id D (gd_ids db)) (revised D ?d (or_current_revision s) cs db) = Inr db2"
    and rc: "insert_destruction q (consume_confirmation token now (db2\<lparr>gd_observations :=
        filter (\<lambda>r. \<not> (row_id r = i \<and> or_row_version r = to_i64 (unat expected))) (gd_observations db2)\<rparr>)) = Inr db'"
    by (auto simp: apply_destroy_def check_expected_def bind_result_Inr cs insert_revision_eq Let_def no_row_def invalid_def
        split: if_splits option.splits)
  have lt: "unat expected < 2 ^ 63" using row_version_fits [OF k s(1)] ver by simp
  then have i64: "to_i64 (unat expected) = unat expected" by (simp add: to_i64_def)
  have d: "distinct (map row_id (gd_observations db))" using h by (simp add: history_ok_def)
  have f: "filter (\<lambda>r. \<not> (row_id r = i \<and> or_row_version r = to_i64 (unat expected))) (gd_observations db)
      = filter (\<lambda>r. row_id r \<noteq> i) (gd_observations db)"
    using same_row [OF d s(1)] ver i64 by (intro filter_cong) auto
  have ri: "row_id ?d = i" using s(2) cs by (simp add: row_id_def)
  let ?v = "\<lparr>vr_revision = new_id D (gd_ids db), vr_observation_id = i, vr_parent = or_current_revision s, vr_changeset = cs,
      vr_observation = or_observation ?d, vr_lifecycle = LcDestroyed,
      vr_semantic_hash = observation_hash D (or_observation ?d) LcDestroyed\<rparr>"
  let ?x = "outbox_entry (revised D ?d (or_current_revision s) cs db) g (scoped_ordinal n 0) True i (Some (new_id D (gd_ids db)))"
  show ?thesis
    unfolding row_destroyed_def
    using rc record_change_Inr [OF rec] f ri s(1)
    by (intro exI [of _ s] exI [of _ ?v] exI [of _ ?x])
      (auto simp: insert_destruction_def consume_confirmation_def revised_def insert_revision_def fresh_id_def outbox_entry_def
        Let_def split: if_splits)
qed

lemmas changed_steps = apply_lifecycle_changed [THEN row_changed_step] apply_update_changed [THEN row_changed_step]
  apply_destroy_shape [THEN row_destroyed_step]

section \<open>Operations\<close>

lemma history_ok_after:
  assumes "history_run D cs db db' \<or> history_step D cs 1 db db'" "inj (new_id D)" "history_ok D db"
    "versions_below k db" "2 \<le> k"
  shows "history_ok D db' \<and> versions_below (Suc k) db' \<and> extends_by cs db db'"
proof -
  have up: "versions_below k x \<Longrightarrow> versions_below (Suc k) x" for x by (auto simp: versions_below_def)
  show ?thesis
  proof (cases "history_run D cs db db'")
    case True
    then show ?thesis
      using history_run_ok [OF True assms(2,3)] versions_below_run [OF True assms(4,5)] extends_by_run [OF True] up
      by blast
  next
    case False
    then have s: "history_step D cs 1 db db'" using assms(1) by blast
    show ?thesis
      using history_step_ok [OF s assms(2,3)] versions_below_step [OF s assms(4,5)] extends_by_step [OF s] by simp
  qed
qed

lemma apply_operation_history:
  assumes "apply_operation D p cs g now n x db = Inr db'" "inj (new_id D)" "history_ok D db"
    "versions_below k db" "2 \<le> k" "k \<le> 2 ^ 63"
  shows "history_run D cs db db' \<or> history_step D cs 1 db db'"
proof (cases x)
  case (OpRemember name t obs rels)
  then obtain w db1 where w: "write_group D name t obs rels ''changeset'' now p db = Inr (w, db1)"
    and r: "record_all D cs g n 0 (ro_observation_ids w) db1 = Inr db'"
    using assms(1) by (auto simp: bind_result_Inr)
  have s: "history_run D cs db db1" "unrecorded (ro_observation_ids w) db1"
    using write_group_run [OF w assms(2,3)] by auto
  have "history_ok D db1" using history_run_ok [OF s(1) assms(2,3)] .
  then show ?thesis using record_all_run [where rest = "[]", OF assms(2) r] s(1,2) by (auto intro: history_run_trans)
qed (use assms changed_steps apply_revert_step in \<open>fastforce+\<close>)

lemma apply_operations_history:
  "apply_operations D p cs g now n xs db = Inr db' \<Longrightarrow> inj (new_id D) \<Longrightarrow> history_ok D db \<Longrightarrow>
    versions_below k db \<Longrightarrow> 2 \<le> k \<Longrightarrow> k + length xs \<le> 2 ^ 63 \<Longrightarrow>
    history_ok D db' \<and> versions_below (k + length xs) db' \<and> extends_by cs db db'"
proof (induction xs arbitrary: n k db)
  case Nil
  then show ?case by simp
next
  case (Cons x xs)
  from Cons.prems(1) obtain db1 where a: "apply_operation D p cs g now n x db = Inr db1"
    and b: "apply_operations D p cs g now (Suc n) xs db1 = Inr db'" by (auto simp: bind_result_Inr)
  have le: "k \<le> 2 ^ 63" using Cons.prems(6) by simp
  have s: "history_ok D db1" "versions_below (Suc k) db1" "extends_by cs db db1"
    using history_ok_after [OF apply_operation_history [OF a Cons.prems(2-5) le] Cons.prems(2-5)] by auto
  show ?case using Cons.IH [OF b Cons.prems(2) s(1,2)] Cons.prems(5,6) s(3) by (auto intro: extends_by_trans)
qed

section \<open>What the operations leave alone\<close>

text \<open>The other tables and counters, and what is added to the outbox and the events.\<close>

definition grows :: "('a \<Rightarrow> bool) \<Rightarrow> 'a list \<Rightarrow> 'a list \<Rightarrow> bool" where
  "grows P xs ys \<longleftrightarrow> (\<exists>zs. ys = xs @ zs \<and> list_all P zs)"

lemma grows_refl [simp]: "grows P xs xs"
  by (simp add: grows_def)

lemma grows_trans: "grows P xs ys \<Longrightarrow> grows P ys zs \<Longrightarrow> grows P xs zs"
  by (auto simp: grows_def)

lemma grows_one [simp]: "grows P xs (xs @ [x]) \<longleftrightarrow> P x"
  by (simp add: grows_def)

lemma grows_all: "grows P xs ys \<Longrightarrow> list_all Q xs \<Longrightarrow> (\<And>x. P x \<Longrightarrow> Q x) \<Longrightarrow> list_all Q ys"
  by (auto simp: grows_def list_all_iff)

definition op_frame :: "str \<Rightarrow> nat \<Rightarrow> audit_db \<Rightarrow> audit_db \<Rightarrow> bool" where
  "op_frame cs g db db' \<longleftrightarrow> ad_changesets db' = ad_changesets db \<and> ad_requests db' = ad_requests db \<and>
     ad_semantic db' = ad_semantic db \<and> ad_indexed db' = ad_indexed db \<and> ad_repair db' = ad_repair db \<and>
     ad_cursor db' = ad_cursor db \<and> gd_space db' = gd_space db \<and>
     grows (\<lambda>x. xo_generation x = to_i64 g \<and> xo_applied_at x = None) (ad_outbox db) (ad_outbox db') \<and>
     grows (\<lambda>e. ev_changeset e = cs \<and> ev_review e = None) (ad_events db) (ad_events db')"

lemma op_frame_refl [simp]: "op_frame cs g db db"
  by (simp add: op_frame_def)

lemma op_frame_trans: "op_frame cs g a b \<Longrightarrow> op_frame cs g b c \<Longrightarrow> op_frame cs g a c"
  by (auto simp: op_frame_def intro: grows_trans)

lemma op_frame_core: "gd_space db' = gd_space db \<Longrightarrow> graph_db.more db' = graph_db.more db \<Longrightarrow> op_frame cs g db db'"
  using more_fields [of db' db] by (simp add: op_frame_def)

lemma op_frame_record:
  assumes "record_change cs g n del kind i r db1 = Inr db'" "op_frame cs g db db1"
  shows "op_frame cs g db db'"
  using record_change_Inr [OF assms(1)] assms(2)
  by (intro op_frame_trans [OF assms(2)]) (auto simp: op_frame_def operation_event_def outbox_entry_def)

lemma op_frame_revised: "op_frame cs g db db1 \<Longrightarrow> op_frame cs g db (revised D row p cs' db1)"
  by (simp add: revised_def insert_revision_def fresh_id_def op_frame_def)

lemma op_frame_rows: "op_frame cs g db db1 \<Longrightarrow> op_frame cs g db (update_rows P f db1)"
  by (simp add: update_rows_def op_frame_def)

lemma op_frame_advance: "op_frame cs g db db1 \<Longrightarrow> op_frame cs g db (advance_head i v r db1)"
  by (simp add: advance_head_def op_frame_rows)

lemma op_frame_replace: "replace_observation x db1 = Inr db2 \<Longrightarrow> op_frame cs g db db1 \<Longrightarrow> op_frame cs g db db2"
  using replace_observation_Inr op_frame_rows by blast

lemma record_all_frame:
  "record_all D cs g n k ids db = Inr db' \<Longrightarrow> op_frame cs g db db'"
proof (induction ids arbitrary: k db)
  case (Cons i ids)
  from Cons.prems obtain db1 where a: "record_remembered D cs g (scoped_ordinal n k) i db = Inr db1"
    and b: "record_all D cs g n (Suc k) ids db1 = Inr db'" by (auto simp: bind_result_Inr)
  obtain row where "bind_result (insert_outbox g (scoped_ordinal n k) False i (Some (new_id D (gd_ids db)))
      (set_revision i (new_id D (gd_ids db)) (revised D row None cs db)))
      (insert_operation_event cs (scoped_ordinal n k) ''remembered'' i (Some (new_id D (gd_ids db)))) = Inr db1"
    using a by (auto simp: record_remembered_def bind_result_Inr insert_revision_eq Let_def)
  from record_both_Inr [OF this] have "op_frame cs g db db1"
    by (auto simp: op_frame_def operation_event_def outbox_entry_def set_revision_def update_rows_def
        revised_def insert_revision_def fresh_id_def)
  then show ?case using Cons.IH [OF b] by (rule op_frame_trans)
qed simp

lemma write_group_frame:
  assumes "write_group D name t obs rels source now p db = Inr (g, db')" "inj (new_id D)" "history_ok D db"
  shows "op_frame cs n db db'"
  using write_group_run [OF assms, of cs] by (intro op_frame_core) auto

lemma apply_operation_frame:
  assumes "apply_operation D p cs g now n x db = Inr db'" "inj (new_id D)" "history_ok D db"
  shows "op_frame cs g db db'"
proof (cases x)
  case (OpRemember name t obs rels)
  then obtain w db1 where w: "write_group D name t obs rels ''changeset'' now p db = Inr (w, db1)"
    and r: "record_all D cs g n 0 (ro_observation_ids w) db1 = Inr db'"
    using assms(1) by (auto simp: bind_result_Inr)
  show ?thesis using write_group_frame [OF w assms(2,3)] record_all_frame [OF r] by (rule op_frame_trans)
next
  case (OpUpdate ob v r)
  then show ?thesis using assms(1)
    by (auto simp: apply_update_def bind_result_Inr insert_revision_eq invalid_def Let_def split: if_splits
        elim!: op_frame_record op_frame_replace intro!: op_frame_advance op_frame_revised op_frame_rows op_frame_refl)
next
  case (OpRetire i v)
  then show ?thesis using assms(1)
    by (auto simp: apply_lifecycle_def bind_result_Inr insert_revision_eq Let_def split: if_splits
        elim!: op_frame_record op_frame_replace intro!: op_frame_advance op_frame_revised op_frame_rows op_frame_refl)
next
  case (OpRestore i v)
  then show ?thesis using assms(1)
    by (auto simp: apply_lifecycle_def bind_result_Inr insert_revision_eq Let_def split: if_splits
        elim!: op_frame_record op_frame_replace intro!: op_frame_advance op_frame_revised op_frame_rows op_frame_refl)
next
  case (OpRevert i t v)
  then show ?thesis using assms(1)
    by (auto simp: apply_revert_def bind_result_Inr insert_revision_eq Let_def split: if_splits
        elim!: op_frame_record op_frame_replace intro!: op_frame_advance op_frame_revised op_frame_rows op_frame_refl)
next
  case (OpDestroy i v r token)
  then obtain c where c: "load_required db i = Inr c" using assms(1) by (auto simp: apply_destroy_def bind_result_Inr)
  let ?d = "c\<lparr>or_observation := (or_observation c)\<lparr>mo_tombstoned := True\<rparr>, or_lifecycle := LcDestroyed\<rparr>"
  from assms(1) c OpDestroy obtain q db2 where "insert_destruction q (consume_confirmation token now
      (db2\<lparr>gd_observations := filter (\<lambda>r. \<not> (row_id r = i \<and> or_row_version r = to_i64 (unat v))) (gd_observations db2)\<rparr>))
      = Inr db'"
    and "record_change cs g n True ''destroyed'' i (new_id D (gd_ids db))
      (revised D ?d (or_current_revision c) cs db) = Inr db2"
    by (auto simp: apply_destroy_def bind_result_Inr insert_revision_eq Let_def no_row_def invalid_def
        split: if_splits option.splits)
  moreover from this(2) have "op_frame cs g db db2" by (rule op_frame_record) (intro op_frame_revised op_frame_refl)
  ultimately show ?thesis
    by (auto simp: insert_destruction_def consume_confirmation_def op_frame_def split: if_splits)
qed

lemma apply_operations_frame:
  "apply_operations D p cs g now n xs db = Inr db' \<Longrightarrow> inj (new_id D) \<Longrightarrow> history_ok D db \<Longrightarrow>
    versions_below k db \<Longrightarrow> 2 \<le> k \<Longrightarrow> k + length xs \<le> 2 ^ 63 \<Longrightarrow> op_frame cs g db db'"
proof (induction xs arbitrary: n k db)
  case (Cons x xs)
  from Cons.prems(1) obtain db1 where a: "apply_operation D p cs g now n x db = Inr db1"
    and b: "apply_operations D p cs g now (Suc n) xs db1 = Inr db'" by (auto simp: bind_result_Inr)
  have le: "k \<le> 2 ^ 63" using Cons.prems(6) by simp
  have s: "history_ok D db1" "versions_below (Suc k) db1"
    using history_ok_after [OF apply_operation_history [OF a Cons.prems(2-5) le] Cons.prems(2-5)] by auto
  show ?case using Cons.IH [OF b Cons.prems(2) s] Cons.prems(5,6) apply_operation_frame [OF a Cons.prems(2,3)]
    by (auto intro: op_frame_trans)
qed simp

end
