(* ===== verification/Om_Forget.thy ===== *)
theory Om_Forget
  imports Om_AuditStore
begin

text \<open>
  What removes observations or changes them outside changesets: \<open>forget\<close>, \<open>forget_entity\<close> and
  \<open>prune\<close> (\<open>openmemory-graph/src/forget.rs\<close>), the consolidation of near duplicates and decayed
  observations (\<open>consolidate.rs\<close>), and the access counts of \<open>recall\<close> (\<open>recall.rs\<close>). Scores and
  similarities are real numbers; the code rounds them to \<open>f32\<close>.
\<close>

section \<open>Forgetting\<close>

definition forget :: "'d graph_deps_scheme \<Rightarrow> normalization_params \<Rightarrow> (str \<Rightarrow> uuid) \<Rightarrow> i64 \<Rightarrow> str \<Rightarrow>
    'x audit_db_scheme \<Rightarrow> (memory_error + bool) \<times> 'x audit_db_scheme" where
  "forget D p space_text now i db = retire_observation D p space_text now i db"

text \<open>\<open>DELETE FROM entities WHERE id\<close>, with the cascades to observations and relations.\<close>

definition delete_entity :: "str \<Rightarrow> 'x graph_db_scheme \<Rightarrow> 'x graph_db_scheme" where
  "delete_entity i db = db\<lparr>
     gd_entities := filter (\<lambda>e. en_id e \<noteq> i) (gd_entities db),
     gd_observations := filter (\<lambda>r. mo_entity_id (or_observation r) \<noteq> i) (gd_observations db),
     gd_relations := filter (\<lambda>l. rl_from l \<noteq> i \<and> rl_to l \<noteq> i) (gd_relations db)\<rparr>"

definition unindex :: "str list \<Rightarrow> search_index \<Rightarrow> search_index" where
  "unindex ids ix = (\<lambda>i. if i \<in> set ids then None else ix i)"

definition forget_entity_by_id :: "str \<Rightarrow> graph_store \<Rightarrow> (memory_error + nat) \<times> graph_store" where
  "forget_entity_by_id i st =
     (let db = gs_db st in
      if is_blank i then (invalid ''entity id must not be empty'', st)
      else if \<not> list_ex (\<lambda>e. en_id e = i) (gd_entities db) then (Inl (MemEntityNotFound i), st)
      else let ids = map row_id (filter (\<lambda>r. mo_entity_id (or_observation r) = i) (gd_observations db))
        in (Inr (length ids), st\<lparr>gs_db := delete_entity i db, gs_index := unindex ids (gs_index st)\<rparr>))"

definition forget_entity :: "str \<Rightarrow> graph_store \<Rightarrow> (memory_error + nat) \<times> graph_store" where
  "forget_entity name st =
     (if is_blank name then (invalid ''entity name must not be empty'', st)
      else case resolve_entity name (gs_db st) of
        ResNotFound \<Rightarrow> (Inl (MemEntityNotFound name), st)
      | ResUnique e \<Rightarrow> forget_entity_by_id (en_id e) st
      | ResAmbiguous c \<Rightarrow> (Inl (MemAmbiguousEntityName name (candidate_labels c)), st))"

section \<open>Pruning\<close>

record prune_report =
  pr_tombstones_removed :: nat
  pr_entities_removed :: nat

definition DEFAULT_TOMBSTONE_TTL_SECS :: i64 where
  "DEFAULT_TOMBSTONE_TTL_SECS = 14 * 24 * 60 * 60"

text \<open>\<open>tombstoned = 1 AND COALESCE(valid_until, observed_at) <= cutoff\<close>.\<close>

definition stale_tombstone :: "i64 \<Rightarrow> observation_row \<Rightarrow> bool" where
  "stale_tombstone cutoff r = (let x = or_observation r in mo_tombstoned x \<and>
     sint (case mo_valid_until x of Some t \<Rightarrow> t | None \<Rightarrow> mo_observed_at x) \<le> sint cutoff)"

text \<open>Entities with no observation and no live relation.\<close>

definition orphaned :: "i64 \<Rightarrow> 'x graph_db_scheme \<Rightarrow> entity_row \<Rightarrow> bool" where
  "orphaned now db e \<longleftrightarrow>
     \<not> list_ex (\<lambda>r. mo_entity_id (or_observation r) = en_id e) (gd_observations db) \<and>
     \<not> list_ex (\<lambda>l. (rl_from l = en_id e \<or> rl_to l = en_id e) \<and>
        (case rl_valid_until l of None \<Rightarrow> True | Some t \<Rightarrow> sint now < sint t)) (gd_relations db)"

definition prune_cutoff :: "i64 \<Rightarrow> i64 \<Rightarrow> i64" where
  "prune_cutoff now ttl = now - (if sint ttl < 0 then 0 else ttl)"

definition prune_tx :: "i64 \<Rightarrow> i64 \<Rightarrow> 'x graph_db_scheme \<Rightarrow> str list \<times> prune_report \<times> 'x graph_db_scheme" where
  "prune_tx now ttl db =
     (let cutoff = prune_cutoff now ttl;
          stale = map row_id (filter (stale_tombstone cutoff) (gd_observations db));
          db1 = db\<lparr>gd_observations := filter (\<lambda>r. row_id r \<notin> set stale) (gd_observations db)\<rparr>;
          orphans = map en_id (filter (orphaned now db1) (gd_entities db1))
      in (stale, \<lparr>pr_tombstones_removed = length stale, pr_entities_removed = length orphans\<rparr>,
          fold delete_entity orphans db1))"

definition prune_with_ttl :: "i64 \<Rightarrow> i64 \<Rightarrow> graph_store \<Rightarrow> prune_report \<times> graph_store" where
  "prune_with_ttl now ttl st =
     (case prune_tx now ttl (gs_db st) of
        (stale, report, db) \<Rightarrow> (report, st\<lparr>gs_db := db, gs_index := unindex stale (gs_index st)\<rparr>))"

definition prune :: "i64 \<Rightarrow> graph_store \<Rightarrow> prune_report \<times> graph_store" where
  "prune now = prune_with_ttl now DEFAULT_TOMBSTONE_TTL_SECS"

section \<open>Access counts\<close>

text \<open>\<open>UPDATE observations SET access_count = access_count + ..\<close> for several rows.\<close>

definition add_access :: "(str \<Rightarrow> nat) \<Rightarrow> 'x graph_db_scheme \<Rightarrow> 'x graph_db_scheme" where
  "add_access f = update_rows (\<lambda>r. True)
     (\<lambda>r. r\<lparr>or_observation := (or_observation r)
        \<lparr>mo_access_count := mo_access_count (or_observation r) + f (row_id r)\<rparr>\<rparr>)"

definition bump_access_counts :: "str list \<Rightarrow> 'x graph_db_scheme \<Rightarrow> 'x graph_db_scheme" where
  "bump_access_counts ids = add_access (count_list ids)"

section \<open>Near duplicates\<close>

text \<open>An observation as the duplicate pass gathers it: identifier, content and access count, the newest
  observation of its entity first.\<close>

type_synonym dedup_row = "str \<times> str \<times> nat"

definition jaccard_similarity :: "'d deps_scheme \<Rightarrow> str \<Rightarrow> str \<Rightarrow> real" where
  "jaccard_similarity D a b =
     (let x = set (split_whitespace (to_lowercase D a)); y = set (split_whitespace (to_lowercase D b)) in
      if x = {} \<and> y = {} then 1 else if x = {} \<or> y = {} then 0
      else real (card (x \<inter> y)) / real (card (x \<union> y)))"

definition u32_saturating_add :: "nat \<Rightarrow> nat \<Rightarrow> nat" where
  "u32_saturating_add a b = min (2 ^ 32 - 1) (a + b)"

text \<open>The inner and the outer loop of \<open>dedup_within_entity\<close>, over positions; \<open>near\<close> compares contents.\<close>

fun dedup_inner :: "(str \<Rightarrow> str \<Rightarrow> bool) \<Rightarrow> dedup_row list \<Rightarrow> str \<Rightarrow> nat list \<Rightarrow> bool list \<Rightarrow> nat \<Rightarrow> str list \<Rightarrow>
    bool list \<times> nat \<times> str list" where
  "dedup_inner near obs content [] visited tot losers = (visited, tot, losers)"
| "dedup_inner near obs content (j # js) visited tot losers =
     (if visited ! j then dedup_inner near obs content js visited tot losers
      else case obs ! j of (i, c, a) \<Rightarrow>
        if near content c
        then dedup_inner near obs content js (visited[j := True]) (u32_saturating_add tot a) (losers @ [i])
        else dedup_inner near obs content js visited tot losers)"

fun dedup_outer :: "(str \<Rightarrow> str \<Rightarrow> bool) \<Rightarrow> dedup_row list \<Rightarrow> nat list \<Rightarrow> bool list \<Rightarrow>
    (str \<times> str list \<times> nat) list \<Rightarrow> (str \<times> str list \<times> nat) list" where
  "dedup_outer near obs [] visited groups = groups"
| "dedup_outer near obs (k # ks) visited groups =
     (if visited ! k then dedup_outer near obs ks visited groups
      else case obs ! k of (i, c, a) \<Rightarrow>
        case dedup_inner near obs c [Suc k ..< length obs] (visited[k := True]) 0 [] of
          (visited', tot, losers) \<Rightarrow>
            dedup_outer near obs ks visited' (if losers = [] then groups else groups @ [(i, losers, tot)]))"

definition dedup_within_entity :: "(str \<Rightarrow> str \<Rightarrow> bool) \<Rightarrow> dedup_row list \<Rightarrow> (str \<times> str list \<times> nat) list" where
  "dedup_within_entity near obs =
     dedup_outer near obs [0 ..< length obs] (replicate (length obs) False) []"

section \<open>Consolidation\<close>

record consolidate_config =
  cc_dedup_text_threshold :: real
  cc_prune_floor :: real
  cc_min_age_secs :: i64
  cc_decay_rate :: real

record consolidate_report =
  cr_duplicates_merged :: nat
  cr_observations_pruned :: nat
  cr_entities_pruned :: nat

definition dedup_row_of :: "observation_row \<Rightarrow> dedup_row" where
  "dedup_row_of r = (row_id r, mo_content (or_observation r), mo_access_count (or_observation r) mod 2 ^ 32)"

text \<open>The live observations of an entity, by \<open>observed_at\<close> from the newest.\<close>

definition dedup_candidates :: "'x graph_db_scheme \<Rightarrow> str \<Rightarrow> dedup_row list" where
  "dedup_candidates db entity = map dedup_row_of (sort_key (\<lambda>r. - sint (mo_observed_at (or_observation r)))
     (filter (\<lambda>r. \<not> mo_tombstoned (or_observation r) \<and> mo_entity_id (or_observation r) = entity)
       (gd_observations db)))"

definition candidate_entities :: "'x graph_db_scheme \<Rightarrow> str list" where
  "candidate_entities db = remdups (map (\<lambda>r. mo_entity_id (or_observation r))
     (filter (\<lambda>r. \<not> mo_tombstoned (or_observation r)) (gd_observations db)))"

text \<open>The value of a finite \<open>f32\<close>, and the retention score.\<close>

definition f32_value :: "f32 \<Rightarrow> real" where
  "f32_value x = (let n = unat x; e = n div 2 ^ 23 mod 256; m = n mod 2 ^ 23;
      v = (if e = 0 then real m * 2 powr (-149) else real (2 ^ 23 + m) * 2 powr (real e - 150))
    in if n < 2 ^ 31 then v else - v)"

definition decay_score :: "observation_row \<Rightarrow> i64 \<Rightarrow> real \<Rightarrow> real" where
  "decay_score r now rate =
     (let x = or_observation r;
          days = real_of_int (max 0 (sint (now - mo_observed_at x))) / 86400;
          base = exp (- rate * days);
          retrieval = 1 + 15 / 100 * ln (1 + real (mo_access_count x mod 2 ^ 32));
          correction = (if mo_source x = ''correction'' \<or> mo_source x = ''cortex:correction'' then 13 / 10 else 1)
      in base * retrieval * max 0 (min 1 (f32_value (mo_confidence x))) * correction)"

definition decay_prune_targets :: "consolidate_config \<Rightarrow> i64 \<Rightarrow> 'x graph_db_scheme \<Rightarrow> str list" where
  "decay_prune_targets c now db = map row_id (filter (\<lambda>r. \<not> mo_tombstoned (or_observation r) \<and>
     \<not> sint (now - mo_observed_at (or_observation r)) < sint (cc_min_age_secs c) \<and>
     decay_score r now (cc_decay_rate c) < cc_prune_floor c) (gd_observations db))"

definition consolidate :: "'d graph_deps_scheme \<Rightarrow> normalization_params \<Rightarrow> (str \<Rightarrow> uuid) \<Rightarrow> i64 \<Rightarrow>
    (nat \<Rightarrow> str option) \<Rightarrow> str option \<Rightarrow> consolidate_config \<Rightarrow> graph_store \<Rightarrow>
    (memory_error + consolidate_report) \<times> graph_store" where
  "consolidate D p space_text now refuse persist c st =
     (let db = gs_db st;
          near = (\<lambda>a b. cc_dedup_text_threshold c \<le> jaccard_similarity D a b);
          merges = concat (map (\<lambda>e. dedup_within_entity near (dedup_candidates db e)) (candidate_entities db));
          losers = concat (map (\<lambda>(s, l, n). l) merges);
          targets = decay_prune_targets c now db;
          retire = sort (remdups (losers @ targets))
      in case retire_for_maintenance D p space_text now retire
                ''consolidation deduplication and decay retirement'' db of
           (Inl e, db1) \<Rightarrow> (Inl e, st\<lparr>gs_db := db1\<rparr>)
         | (Inr n, db1) \<Rightarrow>
            (let st1 = st\<lparr>gs_db := db1\<rparr>;
                 st2 = (if n = 0 then st1 else snd (repair_index now refuse persist st1));
                 st3 = st2\<lparr>gs_db := add_access (\<lambda>i. sum_list (map (\<lambda>(s, l, n). if s = i then n else 0) merges))
                         (gs_db st2)\<rparr>
             in (case prune now st3 of (report, st4) \<Rightarrow>
                  (Inr \<lparr>cr_duplicates_merged = length losers, cr_observations_pruned = length targets,
                     cr_entities_pruned = pr_entities_removed report\<rparr>, st4))))"

end
