(* ===== verification/Om_AuditRun.thy ===== *)
theory Om_AuditRun
  imports Om_AuditSteps Om_Forget
begin

text \<open>
  The transactions of the audited store as steps, in any order and with any arguments, and the invariant
  of the states they reach: linear histories, changesets that are decided once and by another human,
  one changeset per generation, and an outbox that covers what is not indexed.
\<close>

section \<open>The invariant\<close>

definition reviewed :: "change_event list \<Rightarrow> change_set \<Rightarrow> bool" where
  "reviewed es c \<longleftrightarrow> (\<exists>e\<in>set es. ev_changeset e = ct_id c \<and> ev_type e = ''approved'' \<and>
     (\<exists>review reason. ev_review e = Some (review, reason) \<and> ra_actor_id review \<noteq> ct_actor_id c))"

definition changeset_ok :: "nat \<Rightarrow> change_event list \<Rightarrow> change_set \<Rightarrow> bool" where
  "changeset_ok semantic es c \<longleftrightarrow>
     (ct_state c = Applied \<longleftrightarrow> ct_committed c \<noteq> None) \<and> ct_state c \<noteq> Reverted \<and>
     (ct_state c \<noteq> Applied \<longrightarrow> ct_mode c = Propose) \<and>
     ct_version c = (if ct_mode c = Propose \<and> ct_state c \<noteq> Proposed then 2 else 1) \<and>
     (\<forall>g. ct_committed c = Some g \<longrightarrow> g \<le> semantic) \<and>
     (ct_mode c = Propose \<and> ct_state c = Applied \<longrightarrow> reviewed es c)"

text \<open>The generations committed by changesets; those of the audit backfill are 0.\<close>

definition generations :: "change_set list \<Rightarrow> nat list" where
  "generations cs = filter (\<lambda>g. g \<noteq> 0) (List.map_filter ct_committed cs)"

definition sets_ok :: "audit_db \<Rightarrow> bool" where
  "sets_ok db \<longleftrightarrow> distinct (map ct_id (ad_changesets db)) \<and>
     distinct (map (\<lambda>c. (ct_space c, ct_key c)) (ad_changesets db)) \<and>
     (\<forall>c\<in>set (ad_changesets db). changeset_ok (ad_semantic db) (ad_events db) c) \<and>
     distinct (generations (ad_changesets db)) \<and> set (generations (ad_changesets db)) = {1..ad_semantic db}"

definition revisions_ok :: "audit_db \<Rightarrow> bool" where
  "revisions_ok db \<longleftrightarrow> (\<forall>v\<in>set (ad_revisions db). \<exists>c\<in>set (ad_changesets db).
     ct_id c = vr_changeset v \<and> ct_state c = Applied)"

definition outbox_ok :: "audit_db \<Rightarrow> bool" where
  "outbox_ok db \<longleftrightarrow> ad_indexed db \<le> ad_semantic db \<and>
     (\<forall>x\<in>set (ad_outbox db). xo_generation x \<le> ad_semantic db \<and>
        (xo_applied_at x = None \<longrightarrow> ad_indexed db < xo_generation x \<and> ad_repair db))"

definition audit_inv :: "'d audit_deps_scheme \<Rightarrow> audit_db \<Rightarrow> bool" where
  "audit_inv D db \<longleftrightarrow> history_ok D db \<and> sets_ok db \<and> revisions_ok db \<and> outbox_ok db"

text \<open>Row versions and the generation stay clear of the end of an \<open>i64\<close>.\<close>

definition counters_fit :: "audit_db \<Rightarrow> bool" where
  "counters_fit db \<longleftrightarrow> versions_below (2 ^ 63 - 256) db \<and> ad_semantic db + 1 < 2 ^ 63"

section \<open>Steps\<close>

text \<open>A store as the migration to the audited schema leaves it.\<close>

definition audit_start :: "'d audit_deps_scheme \<Rightarrow> audit_db \<Rightarrow> bool" where
  "audit_start D db \<longleftrightarrow> ad_changesets db = [] \<and> ad_events db = [] \<and> ad_revisions db = [] \<and>
     ad_outbox db = [] \<and> ad_semantic db = 0 \<and> ad_indexed db = 0 \<and> ad_requests db = [] \<and>
     ad_confirmations db = [] \<and> ad_receipts db = [] \<and>
     distinct (map row_id (gd_observations db)) \<and>
     (\<forall>r\<in>set (gd_observations db). or_current_revision r = None) \<and>
     (\<forall>n\<ge>gd_ids db. new_id D n \<notin> row_id ` set (gd_observations db))"

inductive audit_step :: "'d graph_deps_scheme \<Rightarrow> normalization_params \<Rightarrow> audit_db \<Rightarrow> audit_db \<Rightarrow> bool" for D p where
  submitted: "submit_tx D p now d mode db = Inr (r, db') \<Longrightarrow> counters_fit db \<Longrightarrow> audit_step D p db db'"
| approved: "approve_tx D p now i expected review db = Inr db' \<Longrightarrow> counters_fit db \<Longrightarrow> audit_step D p db db'"
| rejected: "reject_tx D now i expected review reason db = Inr db' \<Longrightarrow> audit_step D p db db'"
| compacted: "compact_rejected now retention limit db = (n, db') \<Longrightarrow> audit_step D p db db'"
| remembered: "remember_tx D q space_text now source rs db = Inr (gs, g, db') \<Longrightarrow> counters_fit db \<Longrightarrow>
    audit_step D p db db'"
| previewed: "preview_destruction D now i review ttl db = Inr (pv, db') \<Longrightarrow> audit_step D p db db'"
| bound_space: "compatibility_space_id D space_text db = (space, db') \<Longrightarrow> audit_step D p db db'"
| backfilled: "backfill_audit D now limit db = Inr (report, db') \<Longrightarrow> audit_step D p db db'"
| marked: "mark_index_rows_applied now ids db = (n, db') \<Longrightarrow> audit_step D p db db'"
| index_failed: "audit_step D p db (record_index_failure i e db)"
| accessed: "audit_step D p db (add_access f db)"
| entity_forgotten: "audit_step D p db (delete_entity i db)"
| pruned: "prune_tx now ttl db = (stale, report, db') \<Longrightarrow> audit_step D p db db'"
| named: "gd_ids db \<le> n \<Longrightarrow> audit_step D p db (db\<lparr>gd_ids := n\<rparr>)"

definition audit_reach :: "'d graph_deps_scheme \<Rightarrow> normalization_params \<Rightarrow> audit_db \<Rightarrow> bool" where
  "audit_reach D p db \<longleftrightarrow> (\<exists>db0. audit_start D db0 \<and> (audit_step D p)\<^sup>*\<^sup>* db0 db)"

lemma start_inv: "audit_start D db \<Longrightarrow> audit_inv D db"
  by (auto simp: audit_start_def audit_inv_def history_ok_def sets_ok_def revisions_ok_def outbox_ok_def
      row_ok_def head_of_def generations_def used_ids_def map_filter_simps)

section \<open>Applying a changeset\<close>

text \<open>Facts of the application of operations to a state \<open>db3\<close> that already holds the row of the changeset.\<close>

lemma applied_facts:
  assumes a: "apply_operations D p cs g now 0 ops db3 = Inr db4" and inj: "inj (new_id D)"
    and h: "history_ok D db3" and v: "versions_below (2 ^ 63 - 256) db3" and len: "length ops \<le> 256"
  shows "history_ok D db4" "extends_by cs db3 db4" "op_frame cs g db3 db4"
  using apply_operations_history [OF a inj h v] apply_operations_frame [OF a inj h v] len by simp_all

lemma generations_append: "generations (xs @ ys) = generations xs @ generations ys"
  by (simp add: generations_def map_filter_def)

lemma generations_one: "generations [c] = (case ct_committed c of Some g \<Rightarrow> if g = 0 then [] else [g] | None \<Rightarrow> [])"
  by (simp add: generations_def map_filter_def split: option.splits)

lemma generations_Cons: "generations (c # cs) =
    (case ct_committed c of Some g \<Rightarrow> if g = 0 then [] else [g] | None \<Rightarrow> []) @ generations cs"
  by (simp add: generations_def map_filter_def split: option.splits)

lemma reviewed_grows: "reviewed es c \<Longrightarrow> reviewed (es @ fs) c"
  by (auto simp: reviewed_def)

lemma changeset_ok_mono:
  "changeset_ok s es c \<Longrightarrow> s \<le> s' \<Longrightarrow> grows P es es' \<Longrightarrow> changeset_ok s' es' c"
  by (auto simp: changeset_ok_def grows_def intro: reviewed_grows)

lemma validated_length: "validate_draft D d = Inr u \<Longrightarrow> length (dr_operations d) \<le> 256"
  by (auto simp: validate_draft_def invalid_def MAX_OPERATION_COUNT_def split: if_splits)

lemma unused_changeset: "history_ok D db \<Longrightarrow> n \<ge> gd_ids db \<Longrightarrow> new_id D n \<notin> ct_id ` set (ad_changesets db)"
  by (auto simp: history_ok_def used_ids_def)

text \<open>A changeset that is stored and applied at once.\<close>

lemma applied_inv:
  assumes inv: "audit_inv D db" and inj: "inj (new_id D)" and fit: "counters_fit db"
    and c: "ct_id c = cs" "ct_state c = Applied" "ct_mode c = ApplyImmediately" "ct_version c = 1"
      "ct_committed c = Some (ad_semantic db + 1)" "cs \<in> new_names D db db3"
      "(ct_space c, ct_key c) \<notin> (\<lambda>d. (ct_space d, ct_key d)) ` set (ad_changesets db)"
    and db3: "ad_changesets db3 = ad_changesets db @ [c]" "history_ok D db3" "versions_below (2 ^ 63 - 256) db3"
      "ad_revisions db3 = ad_revisions db" "ad_outbox db3 = ad_outbox db" "ad_events db3 = ad_events db"
      "ad_semantic db3 = ad_semantic db" "ad_indexed db3 = ad_indexed db" "ad_repair db3 = ad_repair db"
    and run: "history_ok D db4" "extends_by cs db3 db4" "op_frame cs (ad_semantic db + 1) db3 db4"
  shows "audit_inv D (publish_generation (ad_semantic db + 1) db4)"
proof -
  let ?db' = "publish_generation (ad_semantic db + 1) db4" and ?s = "ad_semantic db"
  have i64: "to_i64 (Suc ?s) = Suc ?s" using fit by (simp add: counters_fit_def to_i64_def)
  have cs4: "ad_changesets db4 = ad_changesets db @ [c]" using run(3) db3(1) by (simp add: op_frame_def)
  have "history_step D cs 0 db4 ?db'" by (rule history_step.quiet) (auto simp: publish_generation_def)
  then have h: "history_ok D ?db'" using history_step_ok inj run(1) by blast
  obtain n where n: "cs = new_id D n" "n \<ge> gd_ids db" using c(6) by (auto simp: new_names_def)
  have h0: "history_ok D db" using inv by (simp add: audit_inv_def)
  have new: "cs \<notin> ct_id ` set (ad_changesets db)" using unused_changeset [OF h0 n(2)] n(1) by simp
  have ev: "grows (\<lambda>e. ev_changeset e = cs \<and> ev_review e = None) (ad_events db) (ad_events db4)"
    using run(3) db3(6) by (simp add: op_frame_def)
  have sets: "sets_ok ?db'"
    using inv new c cs4 ev
    by (auto simp: audit_inv_def sets_ok_def publish_generation_def i64 generations_append generations_one
        changeset_ok_def [of _ _ c] atLeastAtMostSuc_conv intro: changeset_ok_mono)
  have revs: "revisions_ok ?db'"
    using inv run(2) db3(4) c(1,2) cs4
    by (fastforce simp: audit_inv_def revisions_ok_def publish_generation_def extends_by_def list_all_iff)
  have "outbox_ok ?db'"
  proof -
    have o: "grows (\<lambda>x. xo_generation x = Suc ?s \<and> xo_applied_at x = None) (ad_outbox db) (ad_outbox db4)"
      using run(3) db3(5) by (simp add: op_frame_def i64)
    have "ad_indexed db4 = ad_indexed db" using run(3) db3(8) by (simp add: op_frame_def)
    then show ?thesis
      using inv o
      by (fastforce simp: audit_inv_def outbox_ok_def publish_generation_def i64 grows_def list_all_iff list_ex_iff)
  qed
  then show ?thesis using h sets revs by (simp add: audit_inv_def)
qed


text \<open>The writes that touch neither histories nor changesets.\<close>

lemma inert_inv:
  assumes inv: "audit_inv D db" and inj: "inj (new_id D)"
    and same: "gd_observations db' = gd_observations db" "ad_revisions db' = ad_revisions db"
      "ad_changesets db' = ad_changesets db" "gd_ids db \<le> gd_ids db'" "ad_events db' = ad_events db"
      "ad_outbox db' = ad_outbox db" "ad_semantic db' = ad_semantic db" "ad_indexed db' = ad_indexed db"
      "ad_repair db' = ad_repair db"
  shows "audit_inv D db'"
proof -
  have "history_step D [] 0 db db'"
    using same by (intro history_step.quiet) auto
  moreover have "history_ok D db" using inv by (simp add: audit_inv_def)
  ultimately have "history_ok D db'" by (rule history_step_ok [OF _ inj])
  then show ?thesis using inv same by (simp add: audit_inv_def sets_ok_def revisions_ok_def outbox_ok_def)
qed

section \<open>Submitting\<close>

lemma existing_none: "load_existing_receipt d h db = Inr None \<Longrightarrow>
    (dr_space d, dr_idempotency_key d) \<notin> (\<lambda>c. (ct_space c, ct_key c)) ` set (ad_changesets db)"
  by (auto simp: load_existing_receipt_def find_None_iff split: option.splits if_splits)

lemma insert_change_set_Inr: "insert_change_set c db = Inr db' \<Longrightarrow>
    db' = db\<lparr>ad_changesets := ad_changesets db @ [c]\<rparr> \<and>
    (ct_space c, ct_key c) \<notin> (\<lambda>d. (ct_space d, ct_key d)) ` set (ad_changesets db)"
  by (auto simp: insert_change_set_def list_ex_iff split: if_splits)

text \<open>What a submission that stores a changeset went through.\<close>

lemma submit_cases:
  assumes "submit_tx D p now d mode db = Inr (r, db')"
  obtains (replayed) rc where "r = Replayed rc" "db' = db"
  | (stored) db2 where "r = Stored (new_id D (gd_ids db))"
      "validate_draft D d = Inr ()" "load_existing_receipt d (canonical_request_hash D d mode) db = Inr None"
      "ensure_bound_space D (dr_space d) db = Inr ()" "mode = Propose \<longrightarrow> \<not> list_ex is_destroy (dr_operations d)"
      "db2 = insert_requests D (new_id D (gd_ids db)) (dr_operations d)
         (db\<lparr>gd_ids := Suc (gd_ids db), ad_changesets := ad_changesets db @
           [change_set_row (new_id D (gd_ids db)) (canonical_request_hash D d mode) d mode (ad_semantic db) now]\<rparr>)"
      "mode = Propose \<Longrightarrow> db' = db2"
      "mode = ApplyImmediately \<Longrightarrow> \<exists>db4. apply_operations D p (new_id D (gd_ids db)) (ad_semantic db + 1) now 0
         (dr_operations d) db2 = Inr db4 \<and> db' = publish_generation (ad_semantic db + 1) db4"
proof -
  let ?cs = "new_id D (gd_ids db)" and ?h = "canonical_request_hash D d mode"
  let ?c = "change_set_row ?cs ?h d mode (ad_semantic db) now"
  let ?db2 = "insert_requests D ?cs (dr_operations d)
      (db\<lparr>gd_ids := Suc (gd_ids db), ad_changesets := ad_changesets db @ [?c]\<rparr>)"
  from assms obtain ex where v: "validate_draft D d = Inr ()" "ensure_bound_space D (dr_space d) db = Inr ()"
      "\<not> (mode = Propose \<and> list_ex is_destroy (dr_operations d))" "load_existing_receipt d ?h db = Inr ex"
    by (auto simp: submit_tx_def bind_result_Inr invalid_def Let_def split: if_splits)
  show thesis
  proof (cases ex)
    case (Some rc)
    then have "r = Replayed rc \<and> db' = db" using assms v by (simp add: submit_tx_def)
    then show thesis using replayed by blast
  next
    case None
    have i: "insert_change_set ?c (db\<lparr>gd_ids := Suc (gd_ids db)\<rparr>) =
        Inr (db\<lparr>gd_ids := Suc (gd_ids db), ad_changesets := ad_changesets db @ [?c]\<rparr>)"
      using existing_none v(4) None by (force simp: insert_change_set_def change_set_row_def list_ex_iff)
    show thesis
    proof (rule stored [OF _ v(1) _ v(2) _ refl])
      show "r = Stored ?cs"
        using assms v None i
        by (auto simp: submit_tx_def fresh_id_def bind_result_Inr invalid_def Let_def split: if_splits)
      show "load_existing_receipt d ?h db = Inr None" using v(4) None by simp
      show "mode = Propose \<longrightarrow> \<not> list_ex is_destroy (dr_operations d)" using v(3) by blast
      show "mode = Propose \<Longrightarrow> db' = ?db2"
        using assms v None i by (auto simp: submit_tx_def fresh_id_def invalid_def Let_def split: if_splits)
      show "mode = ApplyImmediately \<Longrightarrow> \<exists>db4. apply_operations D p ?cs (ad_semantic db + 1) now 0
         (dr_operations d) ?db2 = Inr db4 \<and> db' = publish_generation (ad_semantic db + 1) db4"
        using assms v None i
        by (auto simp: submit_tx_def fresh_id_def bind_result_Inr invalid_def Let_def split: if_splits)
    qed
  qed
qed

lemma versions_below_same: "gd_observations db' = gd_observations db \<Longrightarrow> versions_below k db' = versions_below k db"
  by (simp add: versions_below_def)

lemma proposal_inv:
  assumes inv: "audit_inv D db" and inj: "inj (new_id D)"
    and c: "ct_id c = new_id D (gd_ids db)" "ct_state c = Proposed" "ct_mode c = Propose" "ct_version c = 1"
      "ct_committed c = None" "(ct_space c, ct_key c) \<notin> (\<lambda>d. (ct_space d, ct_key d)) ` set (ad_changesets db)"
    and db': "db' = db\<lparr>gd_ids := Suc (gd_ids db), ad_changesets := ad_changesets db @ [c], ad_requests := rs\<rparr>"
  shows "audit_inv D db'"
proof -
  have h: "history_ok D db" using inv by (simp add: audit_inv_def)
  have "history_step D cs 0 db db'" for cs
    using c(1) by (intro history_step.quiet) (auto simp: db' new_names_def)
  then have "history_ok D db'" using history_step_ok inj h by blast
  moreover have "ct_id c \<notin> ct_id ` set (ad_changesets db)" using unused_changeset [OF h] c(1) by simp
  ultimately show ?thesis
    using inv c
    by (auto simp: audit_inv_def sets_ok_def revisions_ok_def outbox_ok_def db' generations_append generations_one
        changeset_ok_def [of _ _ c])
qed

lemma submit_inv:
  assumes s: "submit_tx D p now d mode db = Inr (r, db')" and inv: "audit_inv D db" and inj: "inj (new_id D)"
    and fit: "counters_fit db"
  shows "audit_inv D db'"
  using s
proof (cases rule: submit_cases)
  case (replayed rc)
  then show ?thesis using inv by simp
next
  case (stored db2)
  let ?c = "change_set_row (new_id D (gd_ids db)) (canonical_request_hash D d mode) d mode (ad_semantic db) now"
  have key: "(ct_space ?c, ct_key ?c) \<notin> (\<lambda>d. (ct_space d, ct_key d)) ` set (ad_changesets db)"
    using existing_none [OF stored(3)] by (simp add: change_set_row_def)
  show ?thesis
  proof (cases mode)
    case Propose
    show ?thesis
      using Propose stored(7) [OF Propose] key
      by (intro proposal_inv [OF inv inj _ _ _ _ _ key]) (simp_all add: stored(6) insert_requests_def change_set_row_def)
  next
    case ApplyImmediately
    then obtain db4 where a: "apply_operations D p (new_id D (gd_ids db)) (ad_semantic db + 1) now 0
         (dr_operations d) db2 = Inr db4" and db': "db' = publish_generation (ad_semantic db + 1) db4"
      using stored(8) by blast
    have "history_step D [] 0 db db2"
      by (intro history_step.quiet) (auto simp: stored(6) insert_requests_def new_names_def change_set_row_def)
    moreover have "history_ok D db" using inv by (simp add: audit_inv_def)
    ultimately have h2: "history_ok D db2" by (rule history_step_ok [OF _ inj])
    have v2: "versions_below (2 ^ 63 - 256) db2"
      using fit by (simp add: stored(6) insert_requests_def counters_fit_def versions_below_def)
    note f = applied_facts [OF a inj h2 v2 validated_length [OF stored(2)]]
    show ?thesis
      unfolding db'
      by (rule applied_inv [OF inv inj fit _ _ _ _ _ _ key _ h2 v2 _ _ _ _ _ _ f])
        (simp_all add: stored(6) insert_requests_def change_set_row_def ApplyImmediately new_names_def)
  qed
qed


section \<open>Reviewing\<close>

definition moved :: "changeset_state \<Rightarrow> nat option \<Rightarrow> i64 \<Rightarrow> change_set \<Rightarrow> change_set" where
  "moved state gen now c = c\<lparr>ct_committed := (if gen = None then ct_committed c else gen), ct_state := state,
     ct_version := ct_version c + 1, ct_updated_at := now\<rparr>"

lemma find_change_set_Some: "find_change_set i db = Some c \<Longrightarrow> c \<in> set (ad_changesets db) \<and> ct_id c = i"
  by (auto simp: find_change_set_def find_Some_iff)

lemma move_proposal_Inr:
  assumes m: "move_proposal i expected state gen now db = Inr db'"
    and d: "distinct (map ct_id (ad_changesets db))" and c: "find_change_set i db = Some c"
  obtains xs ys where "ad_changesets db = xs @ c # ys" "db' = db\<lparr>ad_changesets := xs @ moved state gen now c # ys\<rparr>"
    "ct_state c = Proposed"
proof -
  obtain xs ys where xy: "ad_changesets db = xs @ c # ys" and i: "ct_id c = i"
    using find_change_set_Some [OF c] by (auto dest: split_list)
  let ?hit = "\<lambda>c. ct_id c = i \<and> ct_state c = Proposed \<and> ct_version c = to_i64 (unat expected)"
  have none: "\<forall>e\<in>set xs \<union> set ys. ct_id e \<noteq> i" using d i by (auto simp: xy) (metis imageI)+
  have "length (filter ?hit (ad_changesets db)) = 1" using m by (auto simp: move_proposal_def Let_def split: if_splits)
  moreover have "filter ?hit xs = []" "filter ?hit ys = []" using none by (auto simp: filter_empty_conv)
  ultimately have hit: "?hit c" by (auto simp: xy split: if_splits)
  let ?u = "\<lambda>e. if ?hit e then moved state gen now e else e"
  have "map ?u xs = xs" "map ?u ys = ys" using none by (auto intro!: map_idI)
  then have "map ?u (ad_changesets db) = xs @ moved state gen now c # ys" using hit by (simp add: xy)
  moreover have "db' = db\<lparr>ad_changesets := map ?u (ad_changesets db)\<rparr>"
    using m by (auto simp: move_proposal_def moved_def Let_def split: if_splits)
  ultimately show thesis using that xy hit by simp
qed

lemma review_event_Inr: "insert_review_event i kind review reason db = Inr db' \<Longrightarrow>
    \<exists>n. db' = db\<lparr>ad_events := ad_events db @ [\<lparr>ev_changeset = i, ev_ordinal = n, ev_type = kind,
      ev_logical_id = None, ev_revision = None, ev_review = Some (review, reason)\<rparr>]\<rparr>"
  by (auto simp: insert_review_event_def dest!: insert_event_Inr)

text \<open>A proposal that is decided without being applied.\<close>

lemma declined_inv:
  assumes m: "move_proposal i expected state None now db = Inr db1" and c: "find_change_set i db = Some c"
    and st: "state = Rejected \<or> state = Conflicted"
    and e: "insert_review_event i kind review reason db1 = Inr db'"
    and inv: "audit_inv D db" and inj: "inj (new_id D)"
  shows "audit_inv D db'"
proof -
  have d: "distinct (map ct_id (ad_changesets db))" using inv by (simp add: audit_inv_def sets_ok_def)
  obtain xs ys where xy: "ad_changesets db = xs @ c # ys"
    and db1: "db1 = db\<lparr>ad_changesets := xs @ moved state None now c # ys\<rparr>" and proposed: "ct_state c = Proposed"
    by (rule move_proposal_Inr [OF m d c])
  obtain n where db': "db' = db1\<lparr>ad_events := ad_events db1 @ [\<lparr>ev_changeset = i, ev_ordinal = n, ev_type = kind,
      ev_logical_id = None, ev_revision = None, ev_review = Some (review, reason)\<rparr>]\<rparr>"
    using review_event_Inr [OF e] by blast
  have ok: "changeset_ok (ad_semantic db) (ad_events db) c"
    using inv by (auto simp: audit_inv_def sets_ok_def xy)
  have gens: "generations (ad_changesets db') = generations (ad_changesets db)"
    by (simp add: db' db1 xy generations_def map_filter_def moved_def)
  have same: "ct_id (moved state None now c) = ct_id c" "ct_space (moved state None now c) = ct_space c"
      "ct_key (moved state None now c) = ct_key c" by (simp_all add: moved_def)
  have "changeset_ok (ad_semantic db) (ad_events db) (moved state None now c)"
    using ok proposed st by (auto simp: changeset_ok_def moved_def)
  then have "sets_ok db'"
    using inv gens
    by (auto simp: audit_inv_def sets_ok_def same db' db1 xy intro: changeset_ok_mono [where P = "\<lambda>_. True"])
  moreover have "history_ok D db'"
  proof -
    have "history_step D [] 0 db db'"
      by (intro history_step.quiet) (auto simp: db' db1 xy same)
    moreover have "history_ok D db" using inv by (simp add: audit_inv_def)
    ultimately show ?thesis by (rule history_step_ok [OF _ inj])
  qed
  moreover have "revisions_ok db'"
    using inv proposed unfolding audit_inv_def revisions_ok_def db' db1 by (fastforce simp: xy)
  moreover have "outbox_ok db'" using inv by (simp add: audit_inv_def outbox_ok_def db' db1)
  ultimately show ?thesis by (simp add: audit_inv_def)
qed

text \<open>What an approval that changes something went through.\<close>

lemma approve_cases:
  assumes "approve_tx D p now i expected review db = Inr db'"
  obtains (unchanged) c where "find_change_set i db = Some c" "ct_state c = Applied" "db' = db"
  | (conflicted) c db1 ops where "find_change_set i db = Some c" "ct_actor_id c \<noteq> ra_actor_id review"
      "parse_operations D (proposal_rows i db) = Inr ops" "verify_proposal_hash D i ops db = Inr ()"
      "\<not> list_all (operation_precondition_holds db) ops" "move_proposal i expected Conflicted None now db = Inr db1"
      "insert_review_event i ''conflicted'' review ''proposal head precondition is stale'' db1 = Inr db'"
  | (applied) c db1 db2 db3 ops where "find_change_set i db = Some c" "ct_actor_id c \<noteq> ra_actor_id review"
      "parse_operations D (proposal_rows i db) = Inr ops" "verify_proposal_hash D i ops db = Inr ()"
      "list_all (operation_precondition_holds db) ops"
      "apply_operations D p i (ad_semantic db + 1) now 0 ops db = Inr db1"
      "move_proposal i expected Applied (Some (to_i64 (ad_semantic db + 1))) now db1 = Inr db2"
      "insert_review_event i ''approved'' review [] db2 = Inr db3"
      "db' = publish_generation (ad_semantic db + 1) db3"
proof -
  obtain c where c: "find_change_set i db = Some c"
    using assms by (auto simp: approve_tx_def proposal_header_def no_row_def split: option.splits)
  show thesis
  proof (cases "ct_state c = Applied")
    case True
    then have same: "db' = db"
      using assms c by (auto simp: approve_tx_def proposal_header_def invalid_def split: if_splits)
    show thesis by (rule unchanged [OF c True same])
  next
    case False
    from assms c False obtain ops where a: "ct_actor_id c \<noteq> ra_actor_id review"
      "parse_operations D (proposal_rows i db) = Inr ops" "verify_proposal_hash D i ops db = Inr ()"
      and t: "(if \<not> list_all (operation_precondition_holds db) ops
           then bind_result (move_proposal i expected Conflicted None now db)
                  (insert_review_event i ''conflicted'' review ''proposal head precondition is stale'')
           else let generation = ad_semantic db + 1 in
             bind_result (apply_operations D p i generation now 0 ops db) (\<lambda>db1.
             bind_result (move_proposal i expected Applied (Some (to_i64 generation)) now db1) (\<lambda>db2.
             bind_result (insert_review_event i ''approved'' review [] db2) (\<lambda>db3.
               Inr (publish_generation generation db3))))) = Inr db'"
      unfolding approve_tx_def proposal_header_def ensure_distinct_reviewer_def
      by (auto simp: bind_result_Inr [where r = "ensure_bound_space D (ct_space c) db"]
          bind_result_Inr [where r = "parse_operations D (proposal_rows i db)"]
          bind_result_Inr [where r = "verify_proposal_hash D i ops db" for ops] invalid_def
          split: if_split_asm)
    show thesis
    proof (cases "list_all (operation_precondition_holds db) ops")
      case True
      with t obtain db1 db2 db3 where
        "apply_operations D p i (ad_semantic db + 1) now 0 ops db = Inr db1"
        "move_proposal i expected Applied (Some (to_i64 (ad_semantic db + 1))) now db1 = Inr db2"
        "insert_review_event i ''approved'' review [] db2 = Inr db3"
        "db' = publish_generation (ad_semantic db + 1) db3"
        by (auto simp: bind_result_Inr Let_def)
      then show thesis by (rule applied [OF c a True])
    next
      case False
      with t obtain db1 where "move_proposal i expected Conflicted None now db = Inr db1"
        "insert_review_event i ''conflicted'' review ''proposal head precondition is stale'' db1 = Inr db'"
        by (auto simp: bind_result_Inr)
      then show thesis by (rule conflicted [OF c a False])
    qed
  qed
qed


lemma verified_length:
  assumes "verify_proposal_hash D i ops db = Inr ()"
  shows "length ops \<le> 256"
proof -
  have "\<exists>d. dr_operations d = ops \<and> validate_draft D d = Inr ()"
    using assms by (auto simp: verify_proposal_hash_def bind_result_Inr no_row_def Let_def
        split: option.splits sum.splits if_splits intro!: exI [where P = "\<lambda>d. dr_operations d = ops \<and> Q d" for Q])
  then show ?thesis using validated_length by metis
qed

lemma moved_fields [simp]: "ct_id (moved s g now c) = ct_id c" "ct_space (moved s g now c) = ct_space c"
    "ct_key (moved s g now c) = ct_key c" "ct_mode (moved s g now c) = ct_mode c"
    "ct_actor_id (moved s g now c) = ct_actor_id c" "ct_state (moved s g now c) = s"
    "ct_version (moved s g now c) = Suc (ct_version c)"
    "ct_committed (moved s g now c) = (if g = None then ct_committed c else g)"
  by (simp_all add: moved_def)

lemma approve_inv:
  assumes a: "approve_tx D p now i expected review db = Inr db'" and inv: "audit_inv D db" and inj: "inj (new_id D)"
    and fit: "counters_fit db"
  shows "audit_inv D db'"
  using a
proof (cases rule: approve_cases)
  case (unchanged c)
  then show ?thesis using inv by simp
next
  case (conflicted c db1 ops)
  show ?thesis by (rule declined_inv [OF conflicted(6,1) _ conflicted(7) inv inj]) simp
next
  case (applied c db1 db2 db3 ops)
  let ?s = "ad_semantic db"
  have h: "history_ok D db" using inv by (simp add: audit_inv_def)
  note f = applied_facts [OF applied(6) inj h _ verified_length [OF applied(4)]]
  have v: "versions_below (2 ^ 63 - 256) db" using fit by (simp add: counters_fit_def)
  have i64: "to_i64 (Suc ?s) = Suc ?s" using fit by (simp add: counters_fit_def to_i64_def)
  have cs: "ad_changesets db1 = ad_changesets db" using f(3) [OF v] by (simp add: op_frame_def)
  have d: "distinct (map ct_id (ad_changesets db1))" using inv cs by (simp add: audit_inv_def sets_ok_def)
  have c1: "find_change_set i db1 = Some c" using applied(1) cs by (simp add: find_change_set_def)
  obtain xs ys where xy: "ad_changesets db1 = xs @ c # ys"
    and db2: "db2 = db1\<lparr>ad_changesets := xs @ moved Applied (Some (to_i64 (?s + 1))) now c # ys\<rparr>"
    and proposed: "ct_state c = Proposed"
    by (rule move_proposal_Inr [OF applied(7) d c1])
  let ?c = "moved Applied (Some (to_i64 (?s + 1))) now c"
  obtain n where db3: "db3 = db2\<lparr>ad_events := ad_events db2 @ [\<lparr>ev_changeset = i, ev_ordinal = n,
      ev_type = ''approved'', ev_logical_id = None, ev_revision = None, ev_review = Some (review, [])\<rparr>]\<rparr>"
    using review_event_Inr [OF applied(8)] by blast
  have ci: "ct_id c = i" using find_change_set_Some [OF applied(1)] by simp
  note xy0 = xy [unfolded cs]
  have ok: "changeset_ok ?s (ad_events db) c" using inv by (simp add: audit_inv_def sets_ok_def xy0)
  have none: "ct_committed c = None" "ct_mode c = Propose" "ct_version c = 1"
    using ok proposed by (auto simp: changeset_ok_def)
  have ev: "grows (\<lambda>e. True) (ad_events db) (ad_events db')"
    using f(3) [OF v] by (auto simp: applied(9) publish_generation_def db3 db2 op_frame_def grows_def list_all_iff)
  have new: "ad_changesets db' = xs @ ?c # ys" by (simp add: applied(9) publish_generation_def db3 db2)
  have sem: "ad_semantic db' = Suc ?s" using i64 by (simp add: applied(9) publish_generation_def)
  have rv: "reviewed (ad_events db') ?c"
    using applied(2) ci by (simp add: reviewed_def applied(9) publish_generation_def db3)
  have gens: "set (generations (ad_changesets db')) = insert (Suc ?s) (set (generations (ad_changesets db)))"
    "distinct (generations (ad_changesets db')) \<longleftrightarrow>
       distinct (generations (ad_changesets db)) \<and> Suc ?s \<notin> set (generations (ad_changesets db))"
    using none(1) i64 generations_append [of xs "?c # ys"] generations_append [of xs "c # ys"]
    by (auto simp: new xy0 generations_Cons)
  have others: "changeset_ok (Suc ?s) (ad_events db') e" if "e \<in> set xs \<union> set ys" for e
    using inv that by (intro changeset_ok_mono [OF _ _ ev]) (auto simp: audit_inv_def sets_ok_def xy0)
  have "changeset_ok (Suc ?s) (ad_events db') ?c" using none rv i64 by (simp add: changeset_ok_def)
  then have "sets_ok db'"
    using inv others i64 unfolding audit_inv_def sets_ok_def gens sem
    by (auto simp: new xy0 atLeastAtMostSuc_conv)
  moreover have "history_ok D db'"
  proof -
    have "history_step D [] 0 db1 db'"
      by (intro history_step.quiet) (auto simp: applied(9) publish_generation_def db3 db2 xy)
    then show ?thesis using f(1) [OF v] by (rule history_step_ok [OF _ inj])
  qed
  moreover have "revisions_ok db'"
  proof -
    have "ad_revisions db' = ad_revisions db1" by (simp add: applied(9) publish_generation_def db3 db2)
    then obtain vs where vs: "ad_revisions db' = ad_revisions db @ vs" "list_all (\<lambda>v. vr_changeset v = i) vs"
      using f(2) [OF v] by (auto simp: extends_by_def)
    have "\<exists>e\<in>set (ad_changesets db'). ct_id e = vr_changeset v \<and> ct_state e = Applied"
      if "v \<in> set (ad_revisions db)" for v
      using inv that unfolding audit_inv_def revisions_ok_def xy0 new by fastforce
    moreover have "\<exists>e\<in>set (ad_changesets db'). ct_id e = vr_changeset v \<and> ct_state e = Applied"
      if "v \<in> set vs" for v
      using that vs(2) ci by (auto simp: new list_all_iff)
    ultimately show ?thesis by (auto simp: revisions_ok_def vs(1))
  qed
  moreover have "outbox_ok db'"
  proof -
    have o: "grows (\<lambda>x. xo_generation x = Suc ?s \<and> xo_applied_at x = None) (ad_outbox db) (ad_outbox db1)"
      "ad_indexed db1 = ad_indexed db"
      using f(3) [OF v] by (simp_all add: op_frame_def i64)
    then show ?thesis
      using inv by (fastforce simp: audit_inv_def outbox_ok_def publish_generation_def i64 grows_def list_all_iff
          list_ex_iff applied(9) db3 db2)
  qed
  ultimately show ?thesis by (simp add: audit_inv_def)
qed

lemma reject_inv:
  assumes r: "reject_tx D now i expected review reason db = Inr db'" and inv: "audit_inv D db" and inj: "inj (new_id D)"
  shows "audit_inv D db'"
proof -
  obtain c where c: "find_change_set i db = Some c"
    using r by (auto simp: reject_tx_def proposal_header_def no_row_def invalid_def split: option.splits if_splits)
  show ?thesis
  proof (cases "ct_state c = Rejected")
    case True
    then show ?thesis using r c inv by (auto simp: reject_tx_def proposal_header_def invalid_def split: if_splits)
  next
    case False
    then obtain db1 where "move_proposal i expected Rejected None now db = Inr db1"
      "insert_review_event i ''rejected'' review reason db1 = Inr db'"
      using r c by (auto simp: reject_tx_def proposal_header_def invalid_def bind_result_Inr split: if_splits)
    then show ?thesis using declined_inv [OF _ c _ _ inv inj] by blast
  qed
qed

section \<open>Remembering\<close>

lemma record_outcomes_run:
  assumes inj: "inj (new_id D)"
  shows "record_outcomes D cs g n gs db = Inr db' \<Longrightarrow> history_ok D db \<Longrightarrow>
    unrecorded (concat (map ro_observation_ids gs)) db \<Longrightarrow> history_run D cs db db' \<and> op_frame cs g db db'"
proof (induction gs arbitrary: n db)
  case Nil
  then show ?case by simp
next
  case (Cons w gs)
  from Cons.prems(1) obtain db1 where a: "record_all D cs g n 0 (ro_observation_ids w) db = Inr db1"
    and b: "record_outcomes D cs g (Suc n) gs db1 = Inr db'" by (auto simp: bind_result_Inr)
  have "unrecorded (ro_observation_ids w @ concat (map ro_observation_ids gs)) db" using Cons.prems(3) by simp
  note run = record_all_run [OF inj a Cons.prems(2) this]
  have "history_ok D db1" using run history_run_ok inj Cons.prems(2) by blast
  then show ?case
    using Cons.IH [OF b] run record_all_frame [OF a] by (blast intro: history_run_trans op_frame_trans)
qed

lemma write_groups_length: "write_groups D now q rs db = Inr (gs, db') \<Longrightarrow> length gs = length rs"
  by (induction rs arbitrary: gs db) (auto simp: bind_result_Inr)

text \<open>A transaction that writes groups and records them.\<close>

lemma remember_cases:
  assumes "remember_tx D q space_text now source rs db = Inr (gs, gen, db')" "rs \<noteq> []"
  obtains db1 db2 d c db4 where "write_groups D now q rs db = Inr (gs, db1)"
    "gd_observations db2 = gd_observations db1" "graph_db.more db2 = graph_db.more db1" "gd_ids db1 < gd_ids db2"
    "\<And>s. gd_space db1 = Some s \<Longrightarrow> gd_space db2 = Some s"
    "(ct_space c, ct_key c) \<notin> (\<lambda>d. (ct_space d, ct_key d)) ` set (ad_changesets db2)"
    "c = (change_set_row (new_id D (gd_ids db1)) (canonical_request_hash D d ApplyImmediately) d ApplyImmediately
       (to_i64 (ad_semantic db2)) now)\<lparr>ct_committed := Some (to_i64 (ad_semantic db2 + 1))\<rparr>"
    "record_outcomes D (new_id D (gd_ids db1)) (ad_semantic db2 + 1) 0 (map fst (zip gs (map remember_operation rs)))
       (insert_requests D (new_id D (gd_ids db1)) (dr_operations d)
          (db2\<lparr>ad_changesets := ad_changesets db2 @ [c]\<rparr>)) = Inr db4"
    "db' = publish_generation (ad_semantic db2 + 1) db4" "gen = Some (ad_semantic db2 + 1)"
proof -
  obtain db1 g where w: "write_groups D now q rs db = Inr (gs, db1)" and gen: "gen = Some g"
    and r: "record_legacy_remembers D space_text now (zip gs (map remember_operation rs)) source db1 = Inr (g, db')"
    using assms by (auto simp: remember_tx_def bind_result_Inr)
  define space where "space = (case gd_space db1 of Some s \<Rightarrow> s | None \<Rightarrow> space_text (new_id D (Suc (gd_ids db1))))"
  define db2 where "db2 = (case gd_space db1 of Some s \<Rightarrow> db1\<lparr>gd_ids := Suc (gd_ids db1)\<rparr>
    | None \<Rightarrow> db1\<lparr>gd_ids := Suc (Suc (gd_ids db1)), gd_space := Some space\<rparr>)"
  define cs where "cs = new_id D (gd_ids db1)"
  define d where "d = \<lparr>dr_idempotency_key = ''legacy:'' @ cs, dr_space = space, dr_actor_kind = System,
               dr_actor_id = ''legacy'', dr_authority = legacy_authority D, dr_reason = ''legacy remember'',
               dr_source = (if source = [] then ''compatibility'' else source),
               dr_operations = map snd (zip gs (map remember_operation rs))\<rparr>"
  define c where "c = (change_set_row cs (canonical_request_hash D d ApplyImmediately) d ApplyImmediately
       (to_i64 (ad_semantic db2)) now)\<lparr>ct_committed := Some (to_i64 (ad_semantic db2 + 1))\<rparr>"
  have "bind_result (validate_draft D d) (\<lambda>_. bind_result (insert_change_set c db2) (\<lambda>db3.
      bind_result (record_outcomes D cs (ad_semantic db2 + 1) 0 (map fst (zip gs (map remember_operation rs)))
                           (insert_requests D cs (dr_operations d) db3)) (\<lambda>db4.
              Inr (ad_semantic db2 + 1, publish_generation (ad_semantic db2 + 1) db4)))) = Inr (g, db')"
  proof (cases "gd_space db1")
    case None
    then show ?thesis using r
      unfolding record_legacy_remembers_def c_def d_def cs_def db2_def space_def
      by (simp add: fresh_id_def Let_def)
  next
    case (Some s)
    then show ?thesis using r
      unfolding record_legacy_remembers_def c_def d_def cs_def db2_def space_def
      by (simp add: fresh_id_def Let_def)
  qed
  then obtain db3 db4 where i: "insert_change_set c db2 = Inr db3" and
    o: "record_outcomes D cs (ad_semantic db2 + 1) 0 (map fst (zip gs (map remember_operation rs)))
                           (insert_requests D cs (dr_operations d) db3) = Inr db4"
    and db': "db' = publish_generation (ad_semantic db2 + 1) db4" "g = ad_semantic db2 + 1"
    by (auto simp: bind_result_Inr)
  show thesis
    using insert_change_set_Inr [OF i] o db' gen
    by (intro that [OF w, of db2 c d db4]) (auto simp: db2_def c_def cs_def split: option.splits)
qed

lemma remember_inv:
  assumes r: "remember_tx D q space_text now source rs db = Inr (gs, gen, db')" and inv: "audit_inv D db"
    and inj: "inj (new_id D)" and fit: "counters_fit db"
  shows "audit_inv D db'"
proof (cases "rs = []")
  case True
  then show ?thesis using r inv by (simp add: remember_tx_def)
next
  case False
  show ?thesis
    using r False
  proof (cases rule: remember_cases)
    case (1 db1 db2 d c db4)
    let ?cs = "new_id D (gd_ids db1)" and ?db3 = "insert_requests D (new_id D (gd_ids db1)) (dr_operations d)
          (db2\<lparr>ad_changesets := ad_changesets db2 @ [c]\<rparr>)"
    have h: "history_ok D db" using inv by (simp add: audit_inv_def)
    note w = write_groups_run [OF inj 1(1) h, of "[]"]
    have h1: "history_ok D db1" using w history_run_ok inj h by blast
    note m = more_fields [OF 1(3)] and m0 = more_fields [of db1 db]
    have same: "graph_db.more db1 = graph_db.more db" using w by blast
    note m1 = more_fields [OF same]
    have "history_step D [] 0 db1 ?db3"
      using 1(2,4,7) m by (intro history_step.quiet)
        (auto simp: insert_requests_def new_names_def change_set_row_def)
    then have h3: "history_ok D ?db3" using h1 by (rule history_step_ok [OF _ inj])
    have v3: "versions_below (2 ^ 63 - 256) ?db3"
    proof -
      have "versions_below (2 ^ 63 - 256) db1"
        using w fit by (auto simp: counters_fit_def intro: versions_below_run)
      then show ?thesis using 1(2) by (simp add: versions_below_def insert_requests_def)
    qed
    have len: "length gs = length rs" using 1(1) by (rule write_groups_length)
    have u: "unrecorded (concat (map ro_observation_ids (map fst (zip gs (map remember_operation rs))))) ?db3"
      using w 1(2) len by (simp add: unrecorded_def insert_requests_def)
    note run = record_outcomes_run [OF inj 1(8) h3 u]
    have f: "history_ok D db4" "extends_by ?cs ?db3 db4" "op_frame ?cs (ad_semantic db + 1) ?db3 db4"
      using run history_run_ok [OF _ inj h3] extends_by_run m m1 by auto
    have i64: "to_i64 (Suc (ad_semantic db)) = Suc (ad_semantic db)" using fit by (simp add: counters_fit_def to_i64_def)
    have key: "(ct_space c, ct_key c) \<notin> (\<lambda>d. (ct_space d, ct_key d)) ` set (ad_changesets db)"
      using 1(6) m m1 by simp
    have sem: "ad_semantic db2 = ad_semantic db" using m m1 by simp
    have ids: "gd_ids db \<le> gd_ids db1" "gd_ids db1 < gd_ids db2" using w 1(4) by auto
    show ?thesis
      unfolding 1(9) sem
    proof (rule applied_inv [OF inv inj fit, where c = c and cs = ?cs and ?db3.0 = ?db3])
      show "?cs \<in> new_names D db ?db3" using ids by (simp add: new_names_def insert_requests_def)
    qed (use f h3 v3 key i64 m m1 in \<open>simp_all add: 1(7) sem change_set_row_def insert_requests_def\<close>)
  qed
qed

section \<open>The other transactions\<close>

lemma baseline_each_run:
  assumes inj: "inj (new_id D)"
  shows "baseline_each D cs n ids db = Inr db' \<Longrightarrow> history_ok D db \<Longrightarrow> unrecorded ids db \<Longrightarrow>
    history_run D cs db db' \<and> op_frame cs g db db'"
proof (induction ids arbitrary: n db)
  case Nil
  then show ?case by simp
next
  case (Cons i ids)
  let ?rev = "new_id D (gd_ids db)" and ?P = "\<lambda>r. or_current_revision r = None"
  from Cons.prems(1) obtain row db1 where row: "load_required db i = Inr row"
    and e: "insert_operation_event cs n ''baseline'' i (Some ?rev)
      (update_rows (\<lambda>r. row_id r = i \<and> ?P r) (\<lambda>r. r\<lparr>or_current_revision := Some ?rev\<rparr>) (revised D row None cs db)) = Inr db1"
    and b: "baseline_each D cs (Suc n) ids db1 = Inr db'"
    by (auto simp: bind_result_Inr insert_revision_eq Let_def)
  let ?db2 = "update_rows (\<lambda>r. row_id r = i \<and> ?P r) (\<lambda>r. r\<lparr>or_current_revision := Some ?rev\<rparr>) (revised D row None cs db)"
  have db1: "db1 = ?db2\<lparr>ad_events := ad_events ?db2 @ [operation_event cs n ''baseline'' i (Some ?rev)]\<rparr>"
    using insert_event_Inr [OF e [unfolded insert_operation_event_def]] by (simp add: operation_event_def)
  have shape: "gd_observations db1 = map (\<lambda>r. if row_id r = i \<and> ?P r
        then r\<lparr>or_current_revision := Some ?rev\<rparr> else r) (gd_observations db)"
      "ad_revisions db1 = ad_revisions (revised D row None cs db)" "ad_changesets db1 = ad_changesets db"
      "gd_ids db1 = Suc (gd_ids db)"
    by (simp_all add: db1 update_rows_def revised_def insert_revision_def fresh_id_def)
  note s = first_revision_step [where P = ?P, OF Cons.prems(2,3) row _ shape]
  have "op_frame cs g db db1"
    by (simp add: db1 op_frame_def operation_event_def update_rows_def revised_def insert_revision_def fresh_id_def)
  then show ?case
    using Cons.IH [OF b history_step_ok [OF s(1) inj Cons.prems(2)] s(2)] history_run_step [OF s(1)]
    by (auto intro: history_run_trans op_frame_trans)
qed

lemma backfill_page_unrecorded:
  assumes "history_ok D db"
  shows "unrecorded (backfill_page cursor limit db) db"
proof -
  let ?P = "\<lambda>r. or_current_revision r = None \<and> (case cursor of None \<Rightarrow> True | Some c \<Rightarrow> c < row_id r)"
  have d: "distinct (map row_id (gd_observations db))" using assms by (simp add: history_ok_def)
  have sub: "set (backfill_page cursor limit db) \<subseteq> row_id ` {r \<in> set (gd_observations db). ?P r}"
    unfolding backfill_page_def by (rule subset_trans [OF set_take_subset]) auto
  have "distinct (backfill_page cursor limit db)"
    unfolding backfill_page_def by (intro distinct_take) (simp add: distinct_map_filter d)
  moreover have "\<exists>r. find_row i (gd_observations db) = Some r \<and> or_current_revision r = None"
    if "i \<in> set (backfill_page cursor limit db)" for i
    using sub that find_row_distinct [OF d] by blast
  ultimately show ?thesis by (simp add: unrecorded_def)
qed

text \<open>A changeset that is stored as applied, with generation 0.\<close>

lemma baseline_inv:
  assumes inv: "audit_inv D db" and inj: "inj (new_id D)"
    and c: "ct_id c = new_id D (gd_ids db)" "ct_state c = Applied" "ct_mode c = ApplyImmediately"
      "ct_version c = 1" "ct_committed c = Some 0"
      "(ct_space c, ct_key c) \<notin> (\<lambda>d. (ct_space d, ct_key d)) ` set (ad_changesets db)"
    and db1: "db1 = db\<lparr>gd_ids := Suc (gd_ids db), ad_changesets := ad_changesets db @ [c]\<rparr>"
  shows "audit_inv D db1"
proof -
  have h: "history_ok D db" using inv by (simp add: audit_inv_def)
  have "history_step D cs 0 db db1" for cs
    using c(1) by (intro history_step.quiet) (auto simp: db1 new_names_def)
  then have "history_ok D db1" using history_step_ok inj h by blast
  moreover have "ct_id c \<notin> ct_id ` set (ad_changesets db)" using unused_changeset [OF h] c(1) by simp
  ultimately show ?thesis
    using inv c
    by (auto simp: audit_inv_def sets_ok_def revisions_ok_def outbox_ok_def db1 generations_append generations_one
        changeset_ok_def [of _ _ c])
qed

lemma run_inv:
  assumes inv: "audit_inv D db" and h: "history_ok D db'" and f: "op_frame cs g db db'" and e: "extends_by cs db db'"
    and c: "c \<in> set (ad_changesets db)" "ct_id c = cs" "ct_state c = Applied"
    and o: "ad_outbox db' = ad_outbox db"
  shows "audit_inv D db'"
proof -
  have ev: "grows (\<lambda>e. ev_changeset e = cs \<and> ev_review e = None) (ad_events db) (ad_events db')"
    and same: "ad_changesets db' = ad_changesets db" "ad_semantic db' = ad_semantic db"
      "ad_indexed db' = ad_indexed db" "ad_repair db' = ad_repair db"
    using f by (simp_all add: op_frame_def)
  have "sets_ok db'"
    using inv changeset_ok_mono [OF _ le_refl ev] by (simp add: audit_inv_def sets_ok_def same)
  moreover have "revisions_ok db'"
    using inv e c by (fastforce simp: audit_inv_def revisions_ok_def extends_by_def list_all_iff same)
  moreover have "outbox_ok db'" using inv by (simp add: audit_inv_def outbox_ok_def same o)
  ultimately show ?thesis using h by (simp add: audit_inv_def)
qed

lemma baseline_outbox: "baseline_each D cs n ids db = Inr db' \<Longrightarrow> ad_outbox db' = ad_outbox db"
  by (induction ids arbitrary: n db)
    (auto simp: bind_result_Inr insert_revision_eq Let_def insert_operation_event_def update_rows_def revised_def
      insert_revision_def fresh_id_def dest!: insert_event_Inr)

lemma unrecorded_same: "gd_observations db' = gd_observations db \<Longrightarrow> unrecorded ids db' = unrecorded ids db"
  by (simp add: unrecorded_def)

lemma backfill_inv:
  assumes b: "backfill_audit D now limit db = Inr (report, db')" and inv: "audit_inv D db" and inj: "inj (new_id D)"
  shows "audit_inv D db'"
proof -
  obtain space where sp: "gd_space db = Some space"
    using b by (cases "gd_space db") (simp_all add: backfill_audit_def invalid_def)
  let ?rows = "backfill_page (ad_cursor db) (clamp_limit limit) db"
  show ?thesis
  proof (cases "?rows = []")
    case True
    then have "db' = db\<lparr>ad_backfilled := True\<rparr>" using b sp by (simp add: backfill_audit_def)
    then show ?thesis by (intro inert_inv [OF inv inj]) simp_all
  next
    case False
    let ?cs = "new_id D (gd_ids db)" and ?c = "baseline_row D (new_id D (gd_ids db)) space now"
    let ?db1 = "db\<lparr>gd_ids := Suc (gd_ids db), ad_changesets := ad_changesets db @ [?c]\<rparr>"
    obtain db2 db3 where i: "insert_change_set ?c (db\<lparr>gd_ids := Suc (gd_ids db)\<rparr>) = Inr db2"
      and e: "baseline_each D ?cs 0 ?rows db2 = Inr db3"
      and db': "db' = db3\<lparr>ad_cursor := Some (last ?rows), ad_backfilled := length ?rows < clamp_limit limit\<rparr>"
      using b sp False by (auto simp: backfill_audit_def fresh_id_def bind_result_Inr Let_def)
    have db2: "db2 = ?db1" and key: "(ct_space ?c, ct_key ?c) \<notin> (\<lambda>d. (ct_space d, ct_key d)) ` set (ad_changesets db)"
      using insert_change_set_Inr [OF i] by simp_all
    have inv2: "audit_inv D db2"
      by (rule baseline_inv [OF inv inj _ _ _ _ _ key db2]) (simp_all add: baseline_row_def)
    then have h2: "history_ok D db2" by (simp add: audit_inv_def)
    have h: "history_ok D db" using inv by (simp add: audit_inv_def)
    have u: "unrecorded ?rows db2" using backfill_page_unrecorded [OF h] by (simp add: unrecorded_def db2)
    note run = baseline_each_run [OF inj e h2 u, of 0]
    have "audit_inv D db3"
      using run history_run_ok [OF _ inj h2] extends_by_run baseline_outbox [OF e]
      by (intro run_inv [OF inv2, where cs = ?cs and g = 0 and c = ?c]) (auto simp: db2 baseline_row_def)
    then show ?thesis by (rule inert_inv [OF _ inj]) (simp_all add: db')
  qed
qed

lemma compact_inv:
  assumes "compact_rejected now retention limit db = (n, db')" "audit_inv D db" "inj (new_id D)"
  shows "audit_inv D db'"
  using assms(1) by (intro inert_inv [OF assms(2,3)]) (auto simp: compact_rejected_def Let_def)

lemma preview_inv:
  assumes "preview_destruction D now i review ttl db = Inr (pv, db')" "audit_inv D db" "inj (new_id D)"
  shows "audit_inv D db'"
  using assms(1)
  by (intro inert_inv [OF assms(2,3)])
    (auto simp: preview_destruction_def invalid_def bind_result_Inr fresh_id_def Let_def split: option.splits if_splits)

lemma bound_inv:
  assumes "compatibility_space_id D space_text db = (space, db')" "audit_inv D db" "inj (new_id D)"
  shows "audit_inv D db'"
  using assms(1)
  by (intro inert_inv [OF assms(2,3)])
    (auto simp: compatibility_space_id_def fresh_id_def Let_def split: option.splits)

definition pending_gens :: "outbox_row list \<Rightarrow> nat set" where
  "pending_gens xs = xo_generation ` {x \<in> set xs. xo_applied_at x = None}"

lemma pending_gens_simps [simp]: "pending_gens [] = {}"
  "pending_gens (x # xs) = (if xo_applied_at x = None then insert (xo_generation x) (pending_gens xs) else pending_gens xs)"
  by (auto simp: pending_gens_def)

lemma first_pending_fold:
  "fold (\<lambda>x m. if xo_applied_at x \<noteq> None then m
     else Some (case m of None \<Rightarrow> xo_generation x | Some g \<Rightarrow> min g (xo_generation x))) xs m0 = m \<Longrightarrow>
   (case m of None \<Rightarrow> m0 = None \<and> pending_gens xs = {}
    | Some g \<Rightarrow> (g \<in> pending_gens xs \<or> m0 = Some g) \<and> (\<forall>h\<in>pending_gens xs \<union> set_option m0. g \<le> h))"
proof (induction xs arbitrary: m0)
  case Nil
  then show ?case by (auto split: option.splits)
next
  case (Cons x xs)
  show ?case
  proof (cases "xo_applied_at x")
    case None
    then show ?thesis
      using Cons.IH [of "Some (case m0 of None \<Rightarrow> xo_generation x | Some g \<Rightarrow> min g (xo_generation x))"] Cons.prems
      by (cases m; cases m0) (auto simp: min_def split: if_splits)
  next
    case (Some t)
    then show ?thesis using Cons.IH [of m0] Cons.prems by (cases m) simp_all
  qed
qed

lemma first_pending_None: "first_pending xs = None \<Longrightarrow> pending_gens xs = {}"
  unfolding first_pending_def by (drule first_pending_fold) simp

lemma first_pending_Some: "first_pending xs = Some g \<Longrightarrow> g \<in> pending_gens xs \<and> (\<forall>h\<in>pending_gens xs. g \<le> h)"
  unfolding first_pending_def by (drule first_pending_fold) simp

lemma marked_inv:
  assumes m: "mark_index_rows_applied now ids db = (n, db')" and inv: "audit_inv D db" and inj: "inj (new_id D)"
  shows "audit_inv D db'"
proof -
  let ?f = "\<lambda>x. if xo_id x \<in> set ids \<and> xo_applied_at x = None
      then x\<lparr>xo_attempts := xo_attempts x + 1, xo_error := None, xo_applied_at := Some now\<rparr> else x"
  let ?xs = "map ?f (ad_outbox db)"
  let ?ix = "case first_pending ?xs of None \<Rightarrow> ad_semantic db | Some g \<Rightarrow> g - 1"
  have db': "db' = db\<lparr>ad_outbox := ?xs, ad_indexed := ?ix, ad_repair := (\<exists>x\<in>set ?xs. xo_applied_at x = None)\<rparr>"
    using m by (auto simp: mark_index_rows_applied_def Let_def filter_empty_conv)
  have old: "xo_generation x \<le> ad_semantic db" "xo_applied_at x = None \<Longrightarrow> 0 < xo_generation x"
    if "x \<in> set ?xs" for x
    using inv that by (fastforce simp: audit_inv_def outbox_ok_def split: if_splits)+
  have pg: "\<forall>g\<in>pending_gens ?xs. 0 < g \<and> g \<le> ad_semantic db" using old by (auto simp: pending_gens_def)
  have "?ix \<le> ad_semantic db \<and> (\<forall>g\<in>pending_gens ?xs. ?ix < g)"
  proof (cases "first_pending ?xs")
    case None
    then show ?thesis using first_pending_None by auto
  next
    case (Some g)
    then have "g \<in> pending_gens ?xs" "\<forall>h\<in>pending_gens ?xs. g \<le> h" using first_pending_Some by blast+
    then show ?thesis using pg Some by force
  qed
  then have "outbox_ok db'" using old(1) by (auto simp: outbox_ok_def db' pending_gens_def)
  moreover have "history_ok D db'"
  proof -
    have "history_step D [] 0 db db'" by (intro history_step.quiet) (auto simp: db')
    then show ?thesis using inv history_step_ok [OF _ inj] by (auto simp: audit_inv_def)
  qed
  ultimately show ?thesis using inv by (simp add: audit_inv_def sets_ok_def revisions_ok_def db')
qed

lemma index_failure_inv:
  assumes inv: "audit_inv D db" and inj: "inj (new_id D)"
  shows "audit_inv D (record_index_failure i e db)"
proof -
  have "history_step D [] 0 db (record_index_failure i e db)"
    by (intro history_step.quiet) (auto simp: record_index_failure_def)
  then have "history_ok D (record_index_failure i e db)"
    using inv history_step_ok [OF _ inj] by (auto simp: audit_inv_def)
  moreover have "outbox_ok (record_index_failure i e db)"
    using inv by (auto simp: audit_inv_def outbox_ok_def record_index_failure_def)
  ultimately show ?thesis
    using inv by (simp add: audit_inv_def sets_ok_def revisions_ok_def record_index_failure_def)
qed

lemma add_access_inv:
  assumes inv: "audit_inv D db"
  shows "audit_inv D (add_access f db)"
proof -
  let ?f = "\<lambda>r. r\<lparr>or_observation := (or_observation r)
      \<lparr>mo_access_count := mo_access_count (or_observation r) + f (row_id r)\<rparr>\<rparr>"
  have obs: "gd_observations (add_access f db) = map ?f (gd_observations db)"
    by (simp add: add_access_def update_rows_def)
  have row: "row_id (?f r) = row_id r" "row_ok vs (?f r) = row_ok vs r" for r vs
    by (simp_all add: row_id_def row_ok_def describes_def revision_view_def)
  have more: "graph_db.more (add_access f db) = graph_db.more db" "gd_ids (add_access f db) = gd_ids db"
    by (simp_all add: add_access_def update_rows_def)
  note m = more_fields [OF more(1)]
  have names: "map row_id (gd_observations (add_access f db)) = map row_id (gd_observations db)"
    unfolding obs by (rule map_row_ids) (rule row(1))
  then have "row_id ` set (gd_observations (add_access f db)) = row_id ` set (gd_observations db)"
    by (metis list.set_map)
  then have "used_ids (add_access f db) = used_ids db" using m by (simp add: used_ids_def)
  moreover have "(\<forall>r\<in>set (gd_observations (add_access f db)). row_ok vs r) = (\<forall>r\<in>set (gd_observations db). row_ok vs r)" for vs
    unfolding obs by (simp only: list.set_map ball_simps row(2))
  ultimately have "history_ok D (add_access f db)"
    using inv m more(2) names by (simp add: audit_inv_def history_ok_def)
  then show ?thesis using inv m by (simp add: audit_inv_def sets_ok_def revisions_ok_def outbox_ok_def)
qed

text \<open>Rows that are deleted without a trace.\<close>

lemma dropped_inv:
  assumes inv: "audit_inv D db" and inj: "inj (new_id D)"
    and d: "gd_observations db' = filter P (gd_observations db)" "graph_db.more db' = graph_db.more db"
      "gd_ids db' = gd_ids db"
  shows "audit_inv D db'"
proof -
  note m = more_fields [OF d(2)]
  have "history_step D [] 0 db db'" using d m by (intro history_step.dropped) auto
  then have "history_ok D db'" using inv history_step_ok [OF _ inj] by (auto simp: audit_inv_def)
  then show ?thesis using inv m by (simp add: audit_inv_def sets_ok_def revisions_ok_def outbox_ok_def)
qed

lemma delete_entities_shape:
  "\<exists>P. gd_observations (fold delete_entity ids db) = filter P (gd_observations db) \<and>
     graph_db.more (fold delete_entity ids db) = graph_db.more db \<and> gd_ids (fold delete_entity ids db) = gd_ids db"
proof (induction ids arbitrary: db)
  case Nil
  then show ?case by (auto intro: exI [of _ "\<lambda>_. True"])
next
  case (Cons i ids)
  from Cons.IH [of "delete_entity i db"] show ?case by (auto simp: delete_entity_def)
qed

lemma delete_entity_inv: "audit_inv D db \<Longrightarrow> inj (new_id D) \<Longrightarrow> audit_inv D (delete_entity i db)"
  using delete_entities_shape [of "[i]" db] dropped_inv by auto

lemma prune_inv:
  assumes p: "prune_tx now ttl db = (stale, report, db')" and inv: "audit_inv D db" and inj: "inj (new_id D)"
  shows "audit_inv D db'"
proof -
  let ?db1 = "db\<lparr>gd_observations := filter (\<lambda>r. row_id r \<notin> set stale) (gd_observations db)\<rparr>"
  obtain orphans where db': "db' = fold delete_entity orphans ?db1"
    using p by (auto simp: prune_tx_def Let_def)
  have "audit_inv D ?db1" by (rule dropped_inv [OF inv inj]) simp_all
  then show ?thesis unfolding db' using delete_entities_shape [of orphans ?db1] dropped_inv [OF _ inj] by blast
qed

lemma named_inv: "audit_inv D db \<Longrightarrow> inj (new_id D) \<Longrightarrow> gd_ids db \<le> n \<Longrightarrow> audit_inv D (db\<lparr>gd_ids := n\<rparr>)"
  by (erule inert_inv) simp_all

lemma audit_step_inv:
  "audit_step D p db db' \<Longrightarrow> inj (new_id D) \<Longrightarrow> audit_inv D db \<Longrightarrow> audit_inv D db'"
proof (induction rule: audit_step.induct)
qed (blast intro: submit_inv approve_inv reject_inv compact_inv remember_inv preview_inv bound_inv backfill_inv
    marked_inv index_failure_inv add_access_inv
    delete_entity_inv prune_inv named_inv)+

theorem audit_reach_inv:
  assumes "audit_reach D p db" "inj (new_id D)"
  shows "audit_inv D db"
proof -
  obtain db0 where "audit_start D db0" and run: "(audit_step D p)\<^sup>*\<^sup>* db0 db"
    using assms(1) by (auto simp: audit_reach_def)
  then have "audit_inv D db0" using start_inv by blast
  with run show ?thesis by (induction rule: rtranclp_induct) (auto intro: audit_step_inv assms(2))
qed

end
