(* ===== verification/Om_AuditLast.thy ===== *)
theory Om_AuditLast
  imports Om_AuditRun
begin

text \<open>
  What every transaction of the audited store leaves as it is: the identities of changesets, decisions,
  and the space of the store.
\<close>

section \<open>What lasts\<close>

text \<open>A changeset keeps its identity for ever, and once it is decided it never changes; so does the space
  a store is bound to.\<close>

definition identity_of :: "change_set \<Rightarrow> str \<times> uuid \<times> str \<times> str \<times> submit_mode \<times> str" where
  "identity_of c = (ct_id c, ct_space c, ct_key c, ct_request_hash c, ct_mode c, ct_actor_id c)"

definition lasting :: "audit_db \<Rightarrow> audit_db \<Rightarrow> bool" where
  "lasting db db' \<longleftrightarrow> (\<forall>c\<in>set (ad_changesets db). \<exists>c'\<in>set (ad_changesets db').
       identity_of c' = identity_of c \<and> (ct_state c = Proposed \<or> c' = c)) \<and>
     (\<forall>s. gd_space db = Some s \<longrightarrow> gd_space db' = Some s)"

lemma lasting_refl [simp]: "lasting db db"
  by (auto simp: lasting_def)

lemma lasting_trans: "lasting a b \<Longrightarrow> lasting b c \<Longrightarrow> lasting a c"
  unfolding lasting_def by metis

lemma lasting_same: "set (ad_changesets db) \<subseteq> set (ad_changesets db') \<Longrightarrow>
    (\<And>s. gd_space db = Some s \<Longrightarrow> gd_space db' = Some s) \<Longrightarrow> lasting db db'"
  by (auto simp: lasting_def)

lemma lasting_moved:
  assumes "ad_changesets db = xs @ c # ys" "ct_state c = Proposed" "ad_changesets db' = xs @ moved s g now c # ys"
    "gd_space db' = gd_space db"
  shows "lasting db db'"
  using assms by (auto simp: lasting_def identity_of_def moved_def)

lemma lasting_move:
  assumes m: "move_proposal i expected state gen now db = Inr db1" and c: "find_change_set i db = Some c"
    and d: "distinct (map ct_id (ad_changesets db))"
  shows "lasting db db1"
  by (rule move_proposal_Inr [OF m d c], rule lasting_moved) auto

lemma lasting_event: "insert_review_event i kind review reason db = Inr db' \<Longrightarrow> lasting db db'"
  by (auto dest!: review_event_Inr intro: lasting_same)

lemma lasting_frame: "op_frame cs g db db' \<Longrightarrow> lasting db db'"
  by (rule lasting_same) (auto simp: op_frame_def)

lemma lasting_publish: "lasting db (publish_generation g db)"
  by (rule lasting_same) (auto simp: publish_generation_def)

lemma inv_distinct: "audit_inv D db \<Longrightarrow> distinct (map ct_id (ad_changesets db))"
  by (simp add: audit_inv_def sets_ok_def)

lemma submit_lasting:
  assumes s: "submit_tx D p now d mode db = Inr (r, db')" and inv: "audit_inv D db" and inj: "inj (new_id D)"
    and fit: "counters_fit db"
  shows "lasting db db'"
  using s
proof (cases rule: submit_cases)
  case (stored db2)
  have l: "lasting db db2" by (rule lasting_same) (auto simp: stored(6) insert_requests_def)
  show ?thesis
  proof (cases mode)
    case Propose
    then show ?thesis using l stored(7) by simp
  next
    case ApplyImmediately
    then obtain db4 where a: "apply_operations D p (new_id D (gd_ids db)) (ad_semantic db + 1) now 0
         (dr_operations d) db2 = Inr db4" and db': "db' = publish_generation (ad_semantic db + 1) db4"
      using stored(8) by blast
    have "history_step D [] 0 db db2"
      by (intro history_step.quiet) (auto simp: stored(6) insert_requests_def new_names_def change_set_row_def)
    then have h2: "history_ok D db2" using inv history_step_ok [OF _ inj] by (auto simp: audit_inv_def)
    have v2: "versions_below (2 ^ 63 - 256) db2"
      using fit by (simp add: stored(6) insert_requests_def counters_fit_def versions_below_def)
    show ?thesis
      unfolding db' using l lasting_frame [OF applied_facts(3) [OF a inj h2 v2 validated_length [OF stored(2)]]]
        lasting_publish by (blast intro: lasting_trans)
  qed
qed simp

lemma approve_lasting:
  assumes a: "approve_tx D p now i expected review db = Inr db'" and inv: "audit_inv D db" and inj: "inj (new_id D)"
    and fit: "counters_fit db"
  shows "lasting db db'"
  using a
proof (cases rule: approve_cases)
  case (conflicted c db1 ops)
  then show ?thesis using lasting_move [OF _ _ inv_distinct [OF inv]] lasting_event by (blast intro: lasting_trans)
next
  case (applied c db1 db2 db3 ops)
  have h: "history_ok D db" and v: "versions_below (2 ^ 63 - 256) db"
    using inv fit by (simp_all add: audit_inv_def counters_fit_def)
  note f = applied_facts(3) [OF applied(6) inj h v verified_length [OF applied(4)]]
  then have cs: "ad_changesets db1 = ad_changesets db" by (simp add: op_frame_def)
  then have "find_change_set i db1 = Some c" "distinct (map ct_id (ad_changesets db1))"
    using applied(1) inv_distinct [OF inv] by (simp_all add: find_change_set_def)
  note m = lasting_move [OF applied(7) this]
  show ?thesis unfolding applied(9)
    using lasting_frame [OF f] m lasting_event [OF applied(8)] lasting_publish by (blast intro: lasting_trans)
qed simp

lemma reject_lasting:
  assumes r: "reject_tx D now i expected review reason db = Inr db'" and inv: "audit_inv D db"
  shows "lasting db db'"
proof -
  obtain c where c: "find_change_set i db = Some c"
    using r by (auto simp: reject_tx_def proposal_header_def no_row_def invalid_def split: option.splits if_splits)
  show ?thesis
  proof (cases "ct_state c = Rejected")
    case True
    then show ?thesis using r c by (auto simp: reject_tx_def proposal_header_def invalid_def split: if_splits)
  next
    case False
    then obtain db1 where "move_proposal i expected Rejected None now db = Inr db1"
      "insert_review_event i ''rejected'' review reason db1 = Inr db'"
      using r c by (auto simp: reject_tx_def proposal_header_def invalid_def bind_result_Inr split: if_splits)
    then show ?thesis using lasting_move [OF _ c inv_distinct [OF inv]] lasting_event by (blast intro: lasting_trans)
  qed
qed

lemma remember_lasting:
  assumes r: "remember_tx D q space_text now source rs db = Inr (gs, gen, db')" and inv: "audit_inv D db"
    and inj: "inj (new_id D)"
  shows "lasting db db'"
proof (cases "rs = []")
  case True
  then show ?thesis using r by (simp add: remember_tx_def)
next
  case False
  show ?thesis
    using r False
  proof (cases rule: remember_cases)
    case (1 db1 db2 d c db4)
    let ?db3 = "insert_requests D (new_id D (gd_ids db1)) (dr_operations d)
          (db2\<lparr>ad_changesets := ad_changesets db2 @ [c]\<rparr>)"
    have h: "history_ok D db" using inv by (simp add: audit_inv_def)
    note w = write_groups_run [OF inj 1(1) h, of "[]"]
    have h1: "history_ok D db1" using w history_run_ok inj h by blast
    have same: "graph_db.more db1 = graph_db.more db" using w by blast
    note m = more_fields [OF 1(3)] and m1 = more_fields [OF same]
    have l: "lasting db ?db3"
      using w 1(5) m m1 by (intro lasting_same) (auto simp: insert_requests_def)
    have "history_step D [] 0 db1 ?db3"
      using 1(2,4,7) m by (intro history_step.quiet)
        (auto simp: insert_requests_def new_names_def change_set_row_def)
    then have h3: "history_ok D ?db3" using h1 by (rule history_step_ok [OF _ inj])
    have u: "unrecorded (concat (map ro_observation_ids (map fst (zip gs (map remember_operation rs))))) ?db3"
      using w 1(2) write_groups_length [OF 1(1)] by (simp add: unrecorded_def insert_requests_def)
    note run = record_outcomes_run [OF inj 1(8) h3 u]
    show ?thesis
      unfolding 1(9) using l run lasting_frame lasting_publish by (blast intro: lasting_trans)
  qed
qed

lemma backfill_lasting:
  assumes b: "backfill_audit D now limit db = Inr (report, db')" and inv: "audit_inv D db" and inj: "inj (new_id D)"
  shows "lasting db db'"
proof -
  obtain space where sp: "gd_space db = Some space"
    using b by (cases "gd_space db") (simp_all add: backfill_audit_def invalid_def)
  let ?rows = "backfill_page (ad_cursor db) (clamp_limit limit) db"
  show ?thesis
  proof (cases "?rows = []")
    case True
    then have "db' = db\<lparr>ad_backfilled := True\<rparr>" using b sp by (simp add: backfill_audit_def)
    then show ?thesis by (intro lasting_same) simp_all
  next
    case False
    let ?cs = "new_id D (gd_ids db)" and ?c = "baseline_row D (new_id D (gd_ids db)) space now"
    let ?db1 = "db\<lparr>gd_ids := Suc (gd_ids db), ad_changesets := ad_changesets db @ [?c]\<rparr>"
    obtain db2 db3 where i: "insert_change_set ?c (db\<lparr>gd_ids := Suc (gd_ids db)\<rparr>) = Inr db2"
      and e: "baseline_each D ?cs 0 ?rows db2 = Inr db3"
      and db': "db' = db3\<lparr>ad_cursor := Some (last ?rows), ad_backfilled := length ?rows < clamp_limit limit\<rparr>"
      using b sp False by (auto simp: backfill_audit_def fresh_id_def bind_result_Inr Let_def)
    have db2: "db2 = ?db1" using insert_change_set_Inr [OF i] by simp
    have h: "history_ok D db" using inv by (simp add: audit_inv_def)
    have "history_step D [] 0 db db2"
      by (intro history_step.quiet) (auto simp: db2 new_names_def baseline_row_def)
    then have h2: "history_ok D db2" using h by (rule history_step_ok [OF _ inj])
    have u: "unrecorded ?rows db2" using backfill_page_unrecorded [OF h] by (simp add: unrecorded_def db2)
    have "lasting db db2" by (rule lasting_same) (auto simp: db2)
    moreover have "lasting db2 db3" using baseline_each_run [OF inj e h2 u, of 0] lasting_frame by blast
    moreover have "lasting db3 db'" by (rule lasting_same) (simp_all add: db')
    ultimately show ?thesis by (blast intro: lasting_trans)
  qed
qed

lemma delete_entities_space: "gd_space (fold delete_entity ids db) = gd_space db"
  by (induction ids arbitrary: db) (simp_all add: delete_entity_def)

lemma prune_lasting: "prune_tx now ttl db = (stale, report, db') \<Longrightarrow> lasting db db'"
  for db :: audit_db
proof -
  assume p: "prune_tx now ttl db = (stale, report, db')"
  let ?db1 = "db\<lparr>gd_observations := filter (\<lambda>r. row_id r \<notin> set stale) (gd_observations db)\<rparr>"
  obtain orphans where db': "db' = fold delete_entity orphans ?db1"
    using p by (auto simp: prune_tx_def Let_def)
  have "graph_db.more db' = graph_db.more db" using delete_entities_shape [of orphans ?db1] by (auto simp: db')
  from more_fields [OF this] show ?thesis by (intro lasting_same) (simp_all add: db' delete_entities_space)
qed

lemma audit_step_lasting:
  assumes "audit_step D p db db'" and inv: "audit_inv D db" and inj: "inj (new_id D)"
  shows "lasting db db'"
  using assms(1)
proof cases
  case (compacted now retention limit n)
  then show ?thesis by (intro lasting_same) (auto simp: compact_rejected_def Let_def)
next
  case (previewed now i review ttl pv)
  then show ?thesis
    by (intro lasting_same) (auto simp: preview_destruction_def invalid_def bind_result_Inr fresh_id_def Let_def
        split: option.splits if_splits)
next
  case (bound_space space_text space)
  then show ?thesis
    by (intro lasting_same) (auto simp: compatibility_space_id_def fresh_id_def Let_def split: option.splits)
next
  case (marked now ids n)
  then show ?thesis by (intro lasting_same) (auto simp: mark_index_rows_applied_def Let_def)
next
  case (index_failed i e)
  then show ?thesis by (intro lasting_same) (auto simp: record_index_failure_def)
next
  case (accessed f)
  then show ?thesis by (intro lasting_same) (auto simp: add_access_def update_rows_def)
next
  case (entity_forgotten i)
  then show ?thesis by (intro lasting_same) (auto simp: delete_entity_def)
next
  case (named n)
  then show ?thesis by (intro lasting_same) auto
qed (use inv inj in \<open>blast intro: submit_lasting approve_lasting reject_lasting remember_lasting backfill_lasting
    prune_lasting\<close>)+

lemma audit_steps_lasting:
  assumes "(audit_step D p)\<^sup>*\<^sup>* db db'" and inv: "audit_inv D db" and inj: "inj (new_id D)"
  shows "lasting db db' \<and> audit_inv D db'"
  using assms(1)
proof (induction rule: rtranclp_induct)
  case base
  then show ?case using inv by simp
next
  case (step db1 db2)
  then show ?case using audit_step_lasting [OF _ _ inj] audit_step_inv [OF _ inj] by (blast intro: lasting_trans)
qed

text \<open>A changeset that was just stored.\<close>

lemma stored_submission:
  assumes s: "submit_tx D p now d mode db = Inr (Stored cs, db')" and inv: "audit_inv D db" and inj: "inj (new_id D)"
    and fit: "counters_fit db"
  shows "validate_draft D d = Inr () \<and> ensure_bound_space D (dr_space d) db = Inr () \<and>
    (mode = Propose \<longrightarrow> \<not> list_ex is_destroy (dr_operations d)) \<and>
    change_set_row cs (canonical_request_hash D d mode) d mode (ad_semantic db) now \<in> set (ad_changesets db')"
  using s
proof (cases rule: submit_cases)
  case (stored db2)
  let ?c = "change_set_row cs (canonical_request_hash D d mode) d mode (ad_semantic db) now"
  have c2: "?c \<in> set (ad_changesets db2)" using stored(1) by (simp add: stored(6) insert_requests_def)
  have "?c \<in> set (ad_changesets db')"
  proof (cases mode)
    case Propose
    then show ?thesis using stored(7) c2 by simp
  next
    case ApplyImmediately
    then obtain db4 where a: "apply_operations D p (new_id D (gd_ids db)) (ad_semantic db + 1) now 0
         (dr_operations d) db2 = Inr db4" and db': "db' = publish_generation (ad_semantic db + 1) db4"
      using stored(8) by blast
    have "history_step D [] 0 db db2"
      by (intro history_step.quiet) (auto simp: stored(6) insert_requests_def new_names_def change_set_row_def)
    then have h2: "history_ok D db2" using inv history_step_ok [OF _ inj] by (auto simp: audit_inv_def)
    have v2: "versions_below (2 ^ 63 - 256) db2"
      using fit by (simp add: stored(6) insert_requests_def counters_fit_def versions_below_def)
    show ?thesis using applied_facts(3) [OF a inj h2 v2 validated_length [OF stored(2)]] c2
      by (simp add: db' publish_generation_def op_frame_def)
  qed
  then show ?thesis using stored by blast
qed simp

lemma find_unique:
  assumes x: "x \<in> set xs" "P x" and u: "\<And>y. y \<in> set xs \<Longrightarrow> P y \<Longrightarrow> y = x"
  shows "find P xs = Some x"
proof (cases "find P xs")
  case None
  then show ?thesis using x by (simp add: find_None_iff)
next
  case (Some y)
  then have "y \<in> set xs" "P y" by (auto simp: find_Some_iff)
  from u [OF this] Some show ?thesis by simp
qed

lemma generations_unique:
  assumes "distinct (generations cs)" "g \<in> set (generations cs)"
  shows "\<exists>!c. c \<in> set cs \<and> ct_committed c = Some g"
  using assms
proof (induction cs)
  case (Cons a cs)
  have mem: "h \<in> set (generations cs) \<longleftrightarrow> h \<noteq> 0 \<and> (\<exists>c\<in>set cs. ct_committed c = Some h)" for h cs
    by (auto simp: generations_def map_filter_def image_iff)
  have g: "g \<noteq> 0" using Cons.prems(2) mem by blast
  show ?case
  proof (cases "ct_committed a = Some g")
    case True
    then have "g \<notin> set (generations cs)" using Cons.prems(1) g by (simp add: generations_Cons)
    then show ?thesis using True g mem by auto
  next
    case False
    then have "g \<in> set (generations cs)" "distinct (generations cs)"
      using Cons.prems by (auto simp: generations_Cons split: option.splits if_splits)
    then show ?thesis using Cons.IH False by auto
  qed
qed (simp add: generations_def map_filter_def)

end
