(* ===== verification/Om_AuditDestroy.thy ===== *)
theory Om_AuditDestroy
  imports Om_AuditLast
begin

text \<open>
  Which transactions make an observation disappear: a destruction whose confirmation matches and is
  consumed, the pruning of a stale tombstone, and the deletion of an entity.
\<close>

section \<open>Writes that keep all rows\<close>

definition row_ids :: "'x graph_db_scheme \<Rightarrow> str set" where
  "row_ids db = row_id ` set (gd_observations db)"

definition keeps :: "audit_db \<Rightarrow> audit_db \<Rightarrow> bool" where
  "keeps db db' \<longleftrightarrow> row_ids db \<subseteq> row_ids db' \<and> ad_confirmations db' = ad_confirmations db \<and>
     ad_receipts db' = ad_receipts db"

lemma keeps_refl [simp]: "keeps db db"
  by (simp add: keeps_def)

lemma keeps_trans: "keeps a b \<Longrightarrow> keeps b c \<Longrightarrow> keeps a c"
  by (auto simp: keeps_def)

lemma keeps_revised: "keeps db db1 \<Longrightarrow> keeps db (revised D row p cs db1)"
  by (simp add: keeps_def row_ids_def revised_def insert_revision_def fresh_id_def)

lemma keeps_record: "record_change cs g n del kind i r db1 = Inr db' \<Longrightarrow> keeps db db1 \<Longrightarrow> keeps db db'"
  by (auto simp: keeps_def row_ids_def dest!: record_change_Inr)

lemma keeps_rows:
  assumes "keeps db db1" "\<And>r. row_id (f r) = row_id r"
  shows "keeps db (update_rows P f db1)"
proof -
  have "map row_id (map (\<lambda>r. if P r then f r else r) rows) = map row_id rows" for rows
    by (rule map_row_ids) (simp add: assms(2))
  then have "row_id ` set (map (\<lambda>r. if P r then f r else r) rows) = row_id ` set rows" for rows
    by (metis list.set_map)
  then show ?thesis using assms(1) by (simp add: keeps_def row_ids_def update_rows_def)
qed

lemma keeps_advance: "keeps db db1 \<Longrightarrow> keeps db (advance_head i v r db1)"
  unfolding advance_head_def by (erule keeps_rows) (simp add: row_id_def)

lemma keeps_replace: "replace_observation x db1 = Inr db2 \<Longrightarrow> keeps db db1 \<Longrightarrow> keeps db db2"
  by (auto dest!: replace_observation_Inr intro: keeps_rows)

lemma row_id_tombstone [simp]: "row_id (r\<lparr>or_observation := (or_observation r)\<lparr>mo_tombstoned := b\<rparr>, or_lifecycle := l\<rparr>) = row_id r"
  by (simp add: row_id_def)

lemma row_id_head [simp]: "row_id (r\<lparr>or_current_revision := h\<rparr>) = row_id r"
  by (simp add: row_id_def)

lemma record_all_keeps: "record_all D cs g n k ids db = Inr db' \<Longrightarrow> keeps db db'"
proof (induction ids arbitrary: k db)
  case (Cons i ids)
  from Cons.prems obtain db1 where a: "record_remembered D cs g (scoped_ordinal n k) i db = Inr db1"
    and b: "record_all D cs g n (Suc k) ids db1 = Inr db'" by (auto simp: bind_result_Inr)
  obtain row where "bind_result (insert_outbox g (scoped_ordinal n k) False i (Some (new_id D (gd_ids db)))
      (set_revision i (new_id D (gd_ids db)) (revised D row None cs db)))
      (insert_operation_event cs (scoped_ordinal n k) ''remembered'' i (Some (new_id D (gd_ids db)))) = Inr db1"
    using a by (auto simp: record_remembered_def bind_result_Inr insert_revision_eq Let_def)
  moreover have "keeps db (set_revision i (new_id D (gd_ids db)) (revised D row None cs db))"
    unfolding set_revision_def by (intro keeps_rows keeps_revised) simp_all
  ultimately have "keeps db db1" by (auto dest!: record_both_Inr simp: keeps_def row_ids_def)
  then show ?case using Cons.IH [OF b] by (rule keeps_trans)
qed simp

lemma keeps_appended: "gd_observations db' = gd_observations db @ rs \<Longrightarrow> graph_db.more db' = graph_db.more db \<Longrightarrow> keeps db db'"
  by (auto simp: keeps_def row_ids_def dest: more_fields)

lemma apply_operation_keeps:
  assumes "apply_operation D p cs g now n x db = Inr db'" "inj (new_id D)" "history_ok D db" "\<not> is_destroy x"
  shows "keeps db db'"
proof (cases x)
  case (OpRemember name t obs rels)
  then obtain w db1 where w: "write_group D name t obs rels ''changeset'' now p db = Inr (w, db1)"
    and r: "record_all D cs g n 0 (ro_observation_ids w) db1 = Inr db'"
    using assms(1) by (auto simp: bind_result_Inr)
  have "keeps db db1" using write_group_run [OF w assms(2,3), of cs] keeps_appended by blast
  then show ?thesis using record_all_keeps [OF r] by (rule keeps_trans)
next
  case (OpUpdate ob v r)
  then show ?thesis using assms(1)
    by (auto simp: apply_update_def bind_result_Inr insert_revision_eq invalid_def Let_def split: if_splits
        elim!: keeps_record keeps_replace intro!: keeps_advance keeps_revised keeps_rows keeps_refl)
next
  case (OpRetire i v)
  then show ?thesis using assms(1)
    by (auto simp: apply_lifecycle_def bind_result_Inr insert_revision_eq Let_def split: if_splits
        elim!: keeps_record intro!: keeps_advance keeps_revised keeps_rows keeps_refl)
next
  case (OpRestore i v)
  then show ?thesis using assms(1)
    by (auto simp: apply_lifecycle_def bind_result_Inr insert_revision_eq Let_def split: if_splits
        elim!: keeps_record intro!: keeps_advance keeps_revised keeps_rows keeps_refl)
next
  case (OpRevert i t v)
  then show ?thesis using assms(1)
    by (auto simp: apply_revert_def bind_result_Inr insert_revision_eq Let_def split: if_splits
        elim!: keeps_record keeps_replace intro!: keeps_advance keeps_revised keeps_rows keeps_refl)
qed (use assms(4) in simp)

section \<open>Destruction\<close>

text \<open>An observation that a changeset destroys: a confirmation that nobody had used names the observation
  at its head, the actor and the authority of the changeset, and has not expired; it is now used.\<close>

definition destruction_of :: "str \<Rightarrow> str \<Rightarrow> i64 \<Rightarrow> confirmation_row \<Rightarrow> change_set \<Rightarrow> destruction_row \<Rightarrow> bool" where
  "destruction_of i cs now c s q \<longleftrightarrow> cf_logical_id c = i \<and> cf_space c = ct_space s \<and> cf_actor_id c = ct_actor_id s \<and>
     cf_authority c = ct_authority s \<and> cf_consumed_at c = None \<and> sint now \<le> sint (cf_expires_at c) \<and>
     dn_changeset q = cs \<and> dn_logical_id q = i \<and> dn_actor_id q = ct_actor_id s \<and> dn_space q = ct_space s \<and>
     dn_preview_hash q = cf_preview_hash c \<and> dn_destroyed_at q = now"

lemma find_Some_mem: "find P xs = Some x \<Longrightarrow> x \<in> set xs \<and> P x"
  by (auto simp: find_Some_iff)

lemma apply_destroy_confirmed:
  fixes db db' :: audit_db
  assumes "apply_destroy D i v r token cs g n now db = Inr db'"
  shows "\<exists>c s q. c \<in> set (ad_confirmations db) \<and> cf_token_hash c = token \<and> find_change_set cs db = Some s \<and>
    cf_revision c = r \<and> cf_row_version c = to_i64 (unat v) \<and> destruction_of i cs now c s q \<and>
    ad_receipts db' = ad_receipts db @ [q] \<and>
    ad_confirmations db' = map (\<lambda>c. if cf_token_hash c = token \<and> cf_consumed_at c = None
      then c\<lparr>cf_consumed_at := Some now\<rparr> else c) (ad_confirmations db) \<and> row_ids db - {i} \<subseteq> row_ids db'"
proof -
  from assms obtain cur where cur: "load_required db i = Inr cur" by (auto simp: apply_destroy_def bind_result_Inr)
  let ?d = "cur\<lparr>or_observation := (or_observation cur)\<lparr>mo_tombstoned := True\<rparr>, or_lifecycle := LcDestroyed\<rparr>"
  from assms cur obtain c s db2 where c: "find (\<lambda>c. cf_token_hash c = token) (ad_confirmations db) = Some c"
    and s: "find_change_set cs db = Some s" and m: "confirmation_matches c s i r v now"
    and rc: "record_change cs g n True ''destroyed'' i (new_id D (gd_ids db)) (revised D ?d (or_current_revision cur) cs db) = Inr db2"
    and ins: "insert_destruction \<lparr>dn_changeset = cs, dn_space = cf_space c, dn_logical_id = i,
        dn_preview_hash = cf_preview_hash c, dn_actor_id = cf_actor_id c, dn_destroyed_at = now\<rparr>
      (consume_confirmation token now
        (db2\<lparr>gd_observations := filter (\<lambda>r. \<not> (row_id r = i \<and> or_row_version r = to_i64 (unat v))) (gd_observations db2)\<rparr>))
      = Inr db'"
    by (auto simp: apply_destroy_def bind_result_Inr insert_revision_eq Let_def no_row_def invalid_def
        split: if_splits option.splits)
  have k: "keeps db db2" by (rule keeps_record [OF rc keeps_revised [OF keeps_refl]])
  have "row_ids db - {i} \<subseteq> row_ids db'"
  proof
    fix j assume j: "j \<in> row_ids db - {i}"
    then have "j \<in> row_ids db2" using k by (auto simp: keeps_def)
    then show "j \<in> row_ids db'" using ins j
      by (auto simp: insert_destruction_def consume_confirmation_def row_ids_def split: if_splits)
  qed
  moreover have "ad_receipts db' = ad_receipts db @ [\<lparr>dn_changeset = cs, dn_space = cf_space c, dn_logical_id = i,
        dn_preview_hash = cf_preview_hash c, dn_actor_id = cf_actor_id c, dn_destroyed_at = now\<rparr>]"
    "ad_confirmations db' = map (\<lambda>c. if cf_token_hash c = token \<and> cf_consumed_at c = None
      then c\<lparr>cf_consumed_at := Some now\<rparr> else c) (ad_confirmations db)"
    using ins k by (auto simp: insert_destruction_def consume_confirmation_def keeps_def split: if_splits)
  ultimately show ?thesis
    using find_Some_mem [OF c] s m
    by (intro exI [of _ c] exI [of _ s] exI conjI) (auto simp: confirmation_matches_def destruction_of_def)
qed

text \<open>Confirmations are only ever marked as used.\<close>

definition used_up :: "i64 \<Rightarrow> confirmation_row list \<Rightarrow> confirmation_row list \<Rightarrow> bool" where
  "used_up now cs cs' \<longleftrightarrow> list_all2 (\<lambda>c c'. c' = c \<or> (cf_consumed_at c = None \<and> c' = c\<lparr>cf_consumed_at := Some now\<rparr>)) cs cs'"

lemma used_up_refl [simp]: "used_up now cs cs"
  by (simp add: used_up_def list_all2_refl)

lemma used_up_trans:
  assumes "used_up now a b" "used_up now b c"
  shows "used_up now a c"
  unfolding used_up_def
  by (rule list_all2_trans [OF _ assms [unfolded used_up_def]]) auto

lemma used_up_map: "used_up now cs (map (\<lambda>c. if P c \<and> cf_consumed_at c = None then c\<lparr>cf_consumed_at := Some now\<rparr> else c) cs)"
  by (auto simp: used_up_def list_all2_conv_all_nth)

lemma used_up_back:
  assumes "used_up now cs cs'" "c \<in> set cs'" "cf_consumed_at c = None"
  shows "c \<in> set cs"
proof -
  obtain k where k: "k < length cs'" "cs' ! k = c" using assms(2) by (auto simp: in_set_conv_nth)
  then have "c = cs ! k" "k < length cs"
    using assms(1,3) by (auto simp: used_up_def list_all2_conv_all_nth)
  then show ?thesis by simp
qed

lemma used_up_forward: "used_up now cs cs' \<Longrightarrow> c \<in> set cs \<Longrightarrow> cf_consumed_at c \<noteq> None \<Longrightarrow> c \<in> set cs'"
  by (auto simp: used_up_def list_all2_conv_all_nth in_set_conv_nth)

definition confirmed :: "str \<Rightarrow> change_operation list \<Rightarrow> str \<Rightarrow> i64 \<Rightarrow> audit_db \<Rightarrow> audit_db \<Rightarrow> bool" where
  "confirmed i ops cs now db db' \<longleftrightarrow> (\<exists>v r token c s q. OpDestroy i v r token \<in> set ops \<and>
     c \<in> set (ad_confirmations db) \<and> cf_token_hash c = token \<and> cf_revision c = r \<and>
     cf_row_version c = to_i64 (unat v) \<and> find_change_set cs db = Some s \<and> destruction_of i cs now c s q \<and>
     c\<lparr>cf_consumed_at := Some now\<rparr> \<in> set (ad_confirmations db') \<and> q \<in> set (ad_receipts db'))"

lemma apply_operation_lost:
  assumes a: "apply_operation D p cs g now n x db = Inr db'" and inj: "inj (new_id D)" and h: "history_ok D db"
  shows "used_up now (ad_confirmations db) (ad_confirmations db') \<and> set (ad_receipts db) \<subseteq> set (ad_receipts db') \<and>
    (\<forall>i\<in>row_ids db - row_ids db'. confirmed i [x] cs now db db')"
proof (cases "is_destroy x")
  case False
  then show ?thesis using apply_operation_keeps [OF a inj h] by (auto simp: keeps_def)
next
  case True
  then obtain i v r token where x: "x = OpDestroy i v r token" by (cases x) simp_all
  then have ad: "apply_destroy D i v r token cs g n now db = Inr db'" using a by simp
  obtain c s q where c: "c \<in> set (ad_confirmations db)" "cf_token_hash c = token" "find_change_set cs db = Some s"
      "cf_revision c = r" "cf_row_version c = to_i64 (unat v)" "destruction_of i cs now c s q"
      "ad_receipts db' = ad_receipts db @ [q]"
      "ad_confirmations db' = map (\<lambda>c. if cf_token_hash c = token \<and> cf_consumed_at c = None
         then c\<lparr>cf_consumed_at := Some now\<rparr> else c) (ad_confirmations db)" "row_ids db - {i} \<subseteq> row_ids db'"
    using apply_destroy_confirmed [OF ad] by blast
  have "cf_consumed_at c = None" using c(6) by (simp add: destruction_of_def)
  then have "c\<lparr>cf_consumed_at := Some now\<rparr> \<in> set (ad_confirmations db')"
    using c(1,2) by (force simp: c(8) image_iff)
  then have "confirmed i [x] cs now db db'"
    unfolding confirmed_def x using c by (intro exI [of _ v] exI [of _ r] exI [of _ token] exI [of _ c] exI [of _ s]
        exI [of _ q]) simp
  moreover have "row_ids db - row_ids db' \<subseteq> {i}" using c(9) by blast
  ultimately show ?thesis using c(7) used_up_map [of now "ad_confirmations db" "\<lambda>c. cf_token_hash c = token"]
    by (auto simp: c(8))
qed

lemma confirmed_weaken:
  assumes k: "confirmed i ops cs now db1 db2" and sub: "set ops \<subseteq> set ops'"
    and before: "used_up now (ad_confirmations db) (ad_confirmations db1)" "find_change_set cs db1 = find_change_set cs db"
    and after: "used_up now (ad_confirmations db2) (ad_confirmations db')" "set (ad_receipts db2) \<subseteq> set (ad_receipts db')"
  shows "confirmed i ops' cs now db db'"
proof -
  obtain v r token c s q where c: "OpDestroy i v r token \<in> set ops" "c \<in> set (ad_confirmations db1)"
      "cf_token_hash c = token" "cf_revision c = r" "cf_row_version c = to_i64 (unat v)"
      "find_change_set cs db1 = Some s" "destruction_of i cs now c s q"
      "c\<lparr>cf_consumed_at := Some now\<rparr> \<in> set (ad_confirmations db2)" "q \<in> set (ad_receipts db2)"
    using k unfolding confirmed_def by blast
  have "c \<in> set (ad_confirmations db)" using used_up_back [OF before(1) c(2)] c(7) by (simp add: destruction_of_def)
  moreover have "c\<lparr>cf_consumed_at := Some now\<rparr> \<in> set (ad_confirmations db')"
    using used_up_forward [OF after(1) c(8)] by simp
  ultimately show ?thesis
    unfolding confirmed_def using c sub before(2) after(2)
    by (intro exI [of _ v] exI [of _ r] exI [of _ token] exI [of _ c] exI [of _ s] exI [of _ q]) auto
qed

lemma apply_operations_lost:
  "apply_operations D p cs g now n xs db = Inr db' \<Longrightarrow> inj (new_id D) \<Longrightarrow> history_ok D db \<Longrightarrow>
    versions_below k db \<Longrightarrow> 2 \<le> k \<Longrightarrow> k + length xs \<le> 2 ^ 63 \<Longrightarrow>
    used_up now (ad_confirmations db) (ad_confirmations db') \<and> set (ad_receipts db) \<subseteq> set (ad_receipts db') \<and>
    (\<forall>i\<in>row_ids db - row_ids db'. confirmed i xs cs now db db')"
proof (induction xs arbitrary: n k db)
  case (Cons x xs)
  from Cons.prems(1) obtain db1 where a: "apply_operation D p cs g now n x db = Inr db1"
    and b: "apply_operations D p cs g now (Suc n) xs db1 = Inr db'" by (auto simp: bind_result_Inr)
  have "history_run D cs db db1 \<or> history_step D cs 1 db db1"
    using apply_operation_history [OF a Cons.prems(2,3,4,5)] Cons.prems(6) by simp
  then have h1: "history_ok D db1 \<and> versions_below (Suc k) db1" using history_ok_after Cons.prems(2-5) by blast
  have one: "used_up now (ad_confirmations db) (ad_confirmations db1)" "set (ad_receipts db) \<subseteq> set (ad_receipts db1)"
      "\<forall>i\<in>row_ids db - row_ids db1. confirmed i [x] cs now db db1"
    using apply_operation_lost [OF a Cons.prems(2,3)] by blast+
  have two: "used_up now (ad_confirmations db1) (ad_confirmations db')" "set (ad_receipts db1) \<subseteq> set (ad_receipts db')"
      "\<forall>i\<in>row_ids db1 - row_ids db'. confirmed i xs cs now db1 db'"
    using Cons.IH [OF b Cons.prems(2) conjunct1 [OF h1] conjunct2 [OF h1]] Cons.prems(5,6) by simp_all
  have same: "find_change_set cs db1 = find_change_set cs db"
    using apply_operation_frame [OF a Cons.prems(2,3)] by (simp add: op_frame_def find_change_set_def)
  have "confirmed i (x # xs) cs now db db'" if i: "i \<in> row_ids db - row_ids db'" for i
  proof (cases "i \<in> row_ids db1")
    case True
    then have "confirmed i xs cs now db1 db'" using two(3) i by blast
    then show ?thesis by (rule confirmed_weaken [OF _ _ one(1) same used_up_refl subset_refl]) auto
  next
    case False
    then have "confirmed i [x] cs now db db1" using one(3) i by blast
    then show ?thesis by (rule confirmed_weaken [OF _ _ used_up_refl refl two(1,2)]) auto
  qed
  then show ?case using one two by (blast intro: used_up_trans)
qed (simp add: row_ids_def)

section \<open>Transactions\<close>

lemma find_append: "find P (xs @ ys) = (case find P xs of None \<Rightarrow> find P ys | Some x \<Rightarrow> Some x)"
  by (induction xs) auto

lemma keeps_same: "gd_observations db' = gd_observations db \<Longrightarrow> ad_confirmations db' = ad_confirmations db \<Longrightarrow>
    ad_receipts db' = ad_receipts db \<Longrightarrow> keeps db db'"
  by (simp add: keeps_def row_ids_def)

lemma keeps_none_lost: "row_ids db \<subseteq> row_ids db' \<Longrightarrow> row_ids db - row_ids db' = {}"
  by blast

lemma submit_lost:
  assumes s: "submit_tx D p now d mode db = Inr (r, db')" and inv: "audit_inv D db" and inj: "inj (new_id D)"
    and fit: "counters_fit db" and i: "i \<in> row_ids db" "i \<notin> row_ids db'"
  shows "mode = ApplyImmediately \<and> (\<exists>v rev token c q. OpDestroy i v rev token \<in> set (dr_operations d) \<and>
      c \<in> set (ad_confirmations db) \<and> cf_token_hash c = token \<and> cf_revision c = rev \<and>
      cf_row_version c = to_i64 (unat v) \<and> destruction_of i (new_id D (gd_ids db)) now c
        (change_set_row (new_id D (gd_ids db)) (canonical_request_hash D d mode) d mode (ad_semantic db) now) q \<and>
      c\<lparr>cf_consumed_at := Some now\<rparr> \<in> set (ad_confirmations db') \<and> q \<in> set (ad_receipts db') \<and>
      change_set_row (new_id D (gd_ids db)) (canonical_request_hash D d mode) d mode (ad_semantic db) now
        \<in> set (ad_changesets db'))"
  using s
proof (cases rule: submit_cases)
  case (replayed rc)
  then show ?thesis using i by simp
next
  case (stored db2)
  let ?cs = "new_id D (gd_ids db)"
  let ?c = "change_set_row ?cs (canonical_request_hash D d mode) d mode (ad_semantic db) now"
  have k: "row_ids db2 = row_ids db" "ad_confirmations db2 = ad_confirmations db"
    by (simp_all add: stored(6) insert_requests_def row_ids_def)
  show ?thesis
  proof (cases mode)
    case Propose
    then show ?thesis using stored(7) k i by simp
  next
    case ApplyImmediately
    then obtain db4 where a: "apply_operations D p ?cs (ad_semantic db + 1) now 0 (dr_operations d) db2 = Inr db4"
      and db': "db' = publish_generation (ad_semantic db + 1) db4"
      using stored(8) by blast
    have h: "history_ok D db" using inv by (simp add: audit_inv_def)
    have "history_step D [] 0 db db2"
      by (intro history_step.quiet) (auto simp: stored(6) insert_requests_def new_names_def change_set_row_def)
    then have h2: "history_ok D db2" using h by (rule history_step_ok [OF _ inj])
    have v2: "versions_below (2 ^ 63 - 256) db2"
      using fit by (simp add: stored(6) insert_requests_def counters_fit_def versions_below_def)
    have "row_ids db' = row_ids db4" by (simp add: db' publish_generation_def row_ids_def)
    then have "confirmed i (dr_operations d) ?cs now db2 db4"
      using apply_operations_lost [OF a inj h2 v2] validated_length [OF stored(2)] i k by simp
    moreover have "find_change_set ?cs db2 = Some ?c"
    proof -
      have "?cs \<notin> ct_id ` set (ad_changesets db)" using unused_changeset [OF h] by simp
      then have "find (\<lambda>c. ct_id c = ?cs) (ad_changesets db) = None"
        unfolding find_None_iff by (metis imageI)
      then show ?thesis
        by (auto simp: find_change_set_def stored(6) insert_requests_def change_set_row_def find_append)
    qed
    moreover have "?c \<in> set (ad_changesets db')"
      using applied_facts(3) [OF a inj h2 v2 validated_length [OF stored(2)]]
      by (simp add: db' publish_generation_def op_frame_def stored(6) insert_requests_def)
    ultimately show ?thesis
      using ApplyImmediately k unfolding confirmed_def db' by (auto simp: publish_generation_def)
  qed
qed

lemma approve_lost:
  assumes a: "approve_tx D p now j expected review db = Inr db'" and inv: "audit_inv D db" and inj: "inj (new_id D)"
    and fit: "counters_fit db" and i: "i \<in> row_ids db" "i \<notin> row_ids db'"
  shows "\<exists>ops s. confirmed i ops j now db db' \<and> s \<in> set (ad_changesets db') \<and> ct_state s = Applied \<and>
    (\<exists>c. find_change_set j db = Some c \<and> ct_authority s = ct_authority c \<and> identity_of s = identity_of c)"
  using a
proof (cases rule: approve_cases)
  case (unchanged c)
  then show ?thesis using i by simp
next
  case (conflicted c db1 ops)
  then have "row_ids db' = row_ids db"
    by (auto simp: row_ids_def move_proposal_def Let_def dest!: review_event_Inr split: if_splits)
  then show ?thesis using i by simp
next
  case (applied c db1 db2 db3 ops)
  have h: "history_ok D db" and v: "versions_below (2 ^ 63 - 256) db"
    using inv fit by (simp_all add: audit_inv_def counters_fit_def)
  have same: "row_ids db' = row_ids db1" "ad_confirmations db' = ad_confirmations db1" "ad_receipts db' = ad_receipts db1"
    using applied(7,8)
    by (auto simp: applied(9) publish_generation_def row_ids_def move_proposal_def Let_def dest!: review_event_Inr
        split: if_splits)
  then have "confirmed i ops j now db db1"
    using apply_operations_lost [OF applied(6) inj h v] verified_length [OF applied(4)] i by simp
  then have "confirmed i ops j now db db'" unfolding confirmed_def same .
  moreover have "\<exists>s. s \<in> set (ad_changesets db') \<and> ct_state s = Applied \<and> ct_authority s = ct_authority c \<and>
      identity_of s = identity_of c"
  proof -
    have "ad_changesets db1 = ad_changesets db"
      using applied_facts(3) [OF applied(6) inj h v verified_length [OF applied(4)]] by (simp add: op_frame_def)
    then have c1: "find_change_set j db1 = Some c" "distinct (map ct_id (ad_changesets db1))"
      using applied(1) inv_distinct [OF inv] by (simp_all add: find_change_set_def)
    obtain xs ys where "db2 = db1\<lparr>ad_changesets := xs @ moved Applied (Some (to_i64 (ad_semantic db + 1))) now c # ys\<rparr>"
      by (rule move_proposal_Inr [OF applied(7) c1(2,1)])
    then show ?thesis
      using applied(8) by (intro exI [of _ "moved Applied (Some (to_i64 (ad_semantic db + 1))) now c"])
        (auto simp: applied(9) publish_generation_def identity_of_def moved_def dest!: review_event_Inr)
  qed
  ultimately show ?thesis using applied(1) by blast
qed

text \<open>The transactions that lose nothing.\<close>

lemma record_outcomes_keeps: "record_outcomes D cs g n gs db = Inr db' \<Longrightarrow> keeps db db'"
proof (induction gs arbitrary: n db)
  case (Cons w gs)
  then show ?case by (auto simp: bind_result_Inr intro: keeps_trans dest!: record_all_keeps)
qed simp

lemma remember_keeps:
  assumes r: "remember_tx D q space_text now source rs db = Inr (gs, gen, db')" and inv: "audit_inv D db"
    and inj: "inj (new_id D)"
  shows "keeps db db'"
proof (cases "rs = []")
  case True
  then show ?thesis using r by (simp add: remember_tx_def)
next
  case False
  show ?thesis
    using r False
  proof (cases rule: remember_cases)
    case (1 db1 db2 d c db4)
    have h: "history_ok D db" using inv by (simp add: audit_inv_def)
    have "keeps db db1" using write_groups_run [OF inj 1(1) h, of "[]"] keeps_appended by blast
    moreover have "keeps db1 (insert_requests D (new_id D (gd_ids db1)) (dr_operations d)
          (db2\<lparr>ad_changesets := ad_changesets db2 @ [c]\<rparr>))"
      using 1(2) more_fields [OF 1(3)] by (intro keeps_same) (simp_all add: insert_requests_def)
    moreover note record_outcomes_keeps [OF 1(8)]
    moreover have "keeps db4 db'" unfolding 1(9) by (rule keeps_same) (simp_all add: publish_generation_def)
    ultimately show ?thesis by (blast intro: keeps_trans)
  qed
qed

lemma baseline_keeps: "baseline_each D cs n ids db = Inr db' \<Longrightarrow> keeps db db'"
proof (induction ids arbitrary: n db)
  case (Cons i ids)
  then obtain row db1 where e: "insert_operation_event cs n ''baseline'' i (Some (new_id D (gd_ids db)))
      (update_rows (\<lambda>r. row_id r = i \<and> or_current_revision r = None)
         (\<lambda>r. r\<lparr>or_current_revision := Some (new_id D (gd_ids db))\<rparr>) (revised D row None cs db)) = Inr db1"
    and b: "baseline_each D cs (Suc n) ids db1 = Inr db'"
    by (auto simp: bind_result_Inr insert_revision_eq Let_def)
  have "keeps db (update_rows (\<lambda>r. row_id r = i \<and> or_current_revision r = None)
         (\<lambda>r. r\<lparr>or_current_revision := Some (new_id D (gd_ids db))\<rparr>) (revised D row None cs db))"
    by (intro keeps_rows keeps_revised) simp_all
  then have "keeps db db1"
    using insert_event_Inr [OF e [unfolded insert_operation_event_def]] by (simp add: keeps_def row_ids_def)
  then show ?case using Cons.IH [OF b] by (rule keeps_trans)
qed simp

lemma backfill_keeps: "backfill_audit D now limit db = Inr (report, db') \<Longrightarrow> row_ids db \<subseteq> row_ids db'"
  for db :: audit_db
proof -
  assume b: "backfill_audit D now limit db = Inr (report, db')"
  show ?thesis
  proof (cases "backfill_page (ad_cursor db) (clamp_limit limit) db = []")
    case True
    then show ?thesis using b
      by (cases "gd_space db") (auto simp: backfill_audit_def invalid_def row_ids_def)
  next
    case False
    then obtain space db2 db3 where "insert_change_set (baseline_row D (new_id D (gd_ids db)) space now)
        (db\<lparr>gd_ids := Suc (gd_ids db)\<rparr>) = Inr db2"
      "baseline_each D (new_id D (gd_ids db)) 0 (backfill_page (ad_cursor db) (clamp_limit limit) db) db2 = Inr db3"
      "gd_observations db' = gd_observations db3"
      using b by (cases "gd_space db") (auto simp: backfill_audit_def invalid_def fresh_id_def bind_result_Inr Let_def)
    then show ?thesis using baseline_keeps insert_change_set_Inr by (fastforce simp: keeps_def row_ids_def)
  qed
qed

text \<open>The rows a pruning removes.\<close>

lemma fold_delete_entities: "gd_observations (fold delete_entity ids db) =
    filter (\<lambda>r. mo_entity_id (or_observation r) \<notin> set ids) (gd_observations db)"
  by (induction ids arbitrary: db) (auto simp: delete_entity_def intro: filter_cong)

lemma prune_observations:
  assumes "prune_tx now ttl db = (stale, report, db')"
  shows "gd_observations db' = filter (\<lambda>r. row_id r \<notin> set stale) (gd_observations db)"
    "stale = map row_id (filter (stale_tombstone (prune_cutoff now ttl)) (gd_observations db))"
proof -
  let ?db1 = "db\<lparr>gd_observations := filter (\<lambda>r. row_id r \<notin> set stale) (gd_observations db)\<rparr>"
  let ?os = "map en_id (filter (orphaned now ?db1) (gd_entities db))"
  show "stale = map row_id (filter (stale_tombstone (prune_cutoff now ttl)) (gd_observations db))"
    using assms by (auto simp: prune_tx_def Let_def)
  have db': "db' = fold delete_entity ?os ?db1" using assms by (auto simp: prune_tx_def Let_def)
  have "mo_entity_id (or_observation r) \<notin> set ?os" if "r \<in> set (gd_observations ?db1)" for r
    using that by (auto simp: orphaned_def list_ex_iff)
  then have "filter (\<lambda>r. mo_entity_id (or_observation r) \<notin> set ?os) (gd_observations ?db1) = gd_observations ?db1"
    by (intro filter_True) blast
  then show "gd_observations db' = filter (\<lambda>r. row_id r \<notin> set stale) (gd_observations db)"
    unfolding db' fold_delete_entities by simp
qed

text \<open>What a destruction leaves behind: an applied changeset, a used confirmation of its actor and
  authority, and a receipt.\<close>

definition destroyed_with_consent :: "i64 \<Rightarrow> str \<Rightarrow> audit_db \<Rightarrow> audit_db \<Rightarrow> bool" where
  "destroyed_with_consent now i db db' \<longleftrightarrow> (\<exists>c s q. c \<in> set (ad_confirmations db) \<and> s \<in> set (ad_changesets db') \<and>
     ct_state s = Applied \<and> destruction_of i (ct_id s) now c s q \<and>
     c\<lparr>cf_consumed_at := Some now\<rparr> \<in> set (ad_confirmations db') \<and> q \<in> set (ad_receipts db'))"

lemma submit_consent:
  assumes "submit_tx D p now d mode db = Inr (r, db')" "audit_inv D db" "inj (new_id D)" "counters_fit db"
    "i \<in> row_ids db" "i \<notin> row_ids db'"
  shows "destroyed_with_consent now i db db'"
proof -
  let ?c = "change_set_row (new_id D (gd_ids db)) (canonical_request_hash D d mode) d mode (ad_semantic db) now"
  obtain c q where "c \<in> set (ad_confirmations db)" "destruction_of i (new_id D (gd_ids db)) now c ?c q"
      "c\<lparr>cf_consumed_at := Some now\<rparr> \<in> set (ad_confirmations db')" "q \<in> set (ad_receipts db')"
      "?c \<in> set (ad_changesets db')" "mode = ApplyImmediately"
    using submit_lost [OF assms] by blast
  moreover have "ct_id ?c = new_id D (gd_ids db)" "mode = ApplyImmediately \<Longrightarrow> ct_state ?c = Applied"
    by (simp_all add: change_set_row_def)
  ultimately show ?thesis unfolding destroyed_with_consent_def by metis
qed

lemma approve_consent:
  assumes "approve_tx D p now j expected review db = Inr db'" "audit_inv D db" "inj (new_id D)" "counters_fit db"
    "i \<in> row_ids db" "i \<notin> row_ids db'"
  shows "destroyed_with_consent now i db db'"
proof -
  obtain ops s e where k: "confirmed i ops j now db db'" and s: "s \<in> set (ad_changesets db')" "ct_state s = Applied"
      "find_change_set j db = Some e" "ct_authority s = ct_authority e" "identity_of s = identity_of e"
    using approve_lost [OF assms] by blast
  obtain c q where "c \<in> set (ad_confirmations db)" "destruction_of i j now c e q"
      "c\<lparr>cf_consumed_at := Some now\<rparr> \<in> set (ad_confirmations db')" "q \<in> set (ad_receipts db')"
    using k s(3) unfolding confirmed_def by auto
  moreover from this(2) have "destruction_of i (ct_id s) now c s q"
    using s(4,5) find_change_set_Some [OF s(3)] by (simp add: destruction_of_def identity_of_def)
  ultimately show ?thesis unfolding destroyed_with_consent_def using s(1,2) by blast
qed

lemma reject_rows: "reject_tx D now i expected review reason db = Inr db' \<Longrightarrow> row_ids db' = row_ids db"
  by (auto simp: reject_tx_def invalid_def bind_result_Inr row_ids_def move_proposal_def Let_def
      dest!: review_event_Inr split: if_splits)

end
