(* ===== verification/Om_AuditEffects.thy ===== *)
theory Om_AuditEffects
  imports Om_AuditDestroy
begin

text \<open>
  What the operations of a changeset are for, said without the code: the heads they expect, and what
  each of them has done to the observations, the revisions and the outbox once it is applied.
\<close>

section \<open>Expected heads\<close>

definition stored :: "audit_db \<Rightarrow> str \<Rightarrow> observation_row \<Rightarrow> bool" where
  "stored db i s \<longleftrightarrow> s \<in> set (gd_observations db) \<and> row_id s = i"

definition head_current :: "audit_db \<Rightarrow> change_operation \<Rightarrow> bool" where
  "head_current db x \<longleftrightarrow> (case x of
     OpRemember name t obs rels \<Rightarrow> True
   | OpUpdate ob v r \<Rightarrow> \<not> mo_tombstoned ob \<and> (\<exists>s. stored db (mo_id ob) s \<and> or_row_version s = unat v \<and>
       or_lifecycle s = LcActive \<and> mo_entity_id (or_observation s) = mo_entity_id ob \<and>
       (\<forall>h. r = Some h \<longrightarrow> or_current_revision s = Some h))
   | OpRetire i v \<Rightarrow> (\<exists>s. stored db i s \<and> or_row_version s = unat v \<and> or_lifecycle s = LcActive)
   | OpRestore i v \<Rightarrow> (\<exists>s. stored db i s \<and> or_row_version s = unat v \<and> or_lifecycle s = LcRetired)
   | OpRevert i t v \<Rightarrow> (\<exists>s. stored db i s \<and> or_row_version s = unat v) \<and>
       (\<exists>q\<in>set (ad_revisions db). vr_revision q = t \<and> vr_observation_id q = i)
   | OpDestroy i v r token \<Rightarrow> (\<exists>s. stored db i s \<and> or_row_version s = unat v \<and>
       (\<forall>h. r = Some h \<longrightarrow> or_current_revision s = Some h)))"

lemma head_is_stored:
  assumes "distinct (map row_id (gd_observations db))"
    and "\<And>s. P (s\<lparr>or_observation := (or_observation s)\<lparr>mo_concepts := sort (mo_concepts (or_observation s)),
          mo_source_files := sort (mo_source_files (or_observation s))\<rparr>\<rparr>) \<longleftrightarrow> P s"
  shows "head_is db i P \<longleftrightarrow> (\<exists>s. stored db i s \<and> P s)"
proof
  assume "head_is db i P"
  then show "\<exists>s. stored db i s \<and> P s" using assms(2)
    by (auto simp: head_is_def load_observation_def stored_def dest: find_row_Some split: option.splits)
next
  assume "\<exists>s. stored db i s \<and> P s"
  then obtain s where s: "s \<in> set (gd_observations db)" "row_id s = i" "P s" by (auto simp: stored_def)
  then have "find_row i (gd_observations db) = Some s" using find_row_distinct [OF assms(1)] by blast
  then show "head_is db i P" using s(3) assms(2) by (simp add: head_is_def load_observation_def)
qed

lemma expected_revision: "(\<forall>h. r = Some h \<longrightarrow> c = Some h) \<longleftrightarrow> r = None \<or> c = r"
  by (cases r) auto

lemma precondition_current:
  assumes "distinct (map row_id (gd_observations db))"
  shows "operation_precondition_holds db x \<longleftrightarrow> head_current db x"
  by (cases x) (auto simp: head_current_def head_is_stored [OF assms] list_ex_iff expected_revision)

section \<open>Effects\<close>

text \<open>A row of which \<open>s\<close> becomes \<open>t\<close>, by a revision \<open>v\<close> of the changeset that describes \<open>t\<close>, follows the old head
  and is the new one; the index is told with the generation.\<close>

definition new_head :: "str \<Rightarrow> nat \<Rightarrow> bool \<Rightarrow> str \<Rightarrow> observation_row \<Rightarrow> observation_row \<Rightarrow> audit_db \<Rightarrow> audit_db \<Rightarrow> bool" where
  "new_head cs g del i s t db db' \<longleftrightarrow> stored db i s \<and> row_id t = i \<and> or_row_version t = or_row_version s + 1 \<and>
     gd_observations db' = map (\<lambda>r. if row_id r = i then t else r) (gd_observations db) \<and>
     (\<exists>v. ad_revisions db' = ad_revisions db @ [v] \<and> vr_observation_id v = i \<and> vr_parent v = or_current_revision s \<and>
        vr_changeset v = cs \<and> or_current_revision t = Some (vr_revision v) \<and> describes v t \<and>
        (\<exists>x. ad_outbox db' = ad_outbox db @ [x] \<and> xo_logical_id x = i \<and> xo_delete x = del \<and> xo_generation x = g \<and>
           xo_revision x = Some (vr_revision v) \<and> xo_applied_at x = None)) \<and>
     gd_entities db' = gd_entities db \<and> gd_relations db' = gd_relations db"

text \<open>What an observation says, apart from whether it is live and how often it was read.\<close>

definition says_same :: "memory_observation \<Rightarrow> memory_observation \<Rightarrow> bool" where
  "says_same x y \<longleftrightarrow> revision_view x = revision_view y"

definition operation_done :: "str \<Rightarrow> nat \<Rightarrow> change_operation \<Rightarrow> audit_db \<Rightarrow> audit_db \<Rightarrow> bool" where
  "operation_done cs g x db db' \<longleftrightarrow> (case x of
     OpRemember name t obs rels \<Rightarrow> (\<exists>e rows vs xs. gd_observations db' = gd_observations db @ rows \<and>
       ad_revisions db' = ad_revisions db @ vs \<and> ad_outbox db' = ad_outbox db @ xs \<and>
       list_all2 (\<lambda>inp r. mo_content (or_observation r) = oi_content inp \<and> mo_entity_id (or_observation r) = e \<and>
         or_lifecycle r = LcActive \<and> \<not> mo_tombstoned (or_observation r)) obs rows \<and>
       list_all2 (\<lambda>r v. vr_observation_id v = row_id r \<and> vr_parent v = None \<and> vr_changeset v = cs \<and>
         or_current_revision r = Some (vr_revision v) \<and> describes v r) rows vs \<and>
       list_all2 (\<lambda>r x. xo_logical_id x = row_id r \<and> \<not> xo_delete x \<and> xo_generation x = g \<and> xo_applied_at x = None) rows xs)
   | OpUpdate ob v r \<Rightarrow> (\<exists>s t. new_head cs g False (mo_id ob) s t db db' \<and> says_same (or_observation t) ob \<and>
       mo_access_count (or_observation t) = mo_access_count (or_observation s) \<and> or_lifecycle t = LcActive)
   | OpRetire i v \<Rightarrow> (\<exists>s t. new_head cs g True i s t db db' \<and> or_lifecycle t = LcRetired \<and>
       or_observation t = (or_observation s)\<lparr>mo_tombstoned := True\<rparr>)
   | OpRestore i v \<Rightarrow> (\<exists>s t. new_head cs g False i s t db db' \<and> or_lifecycle t = LcActive \<and>
       or_observation t = (or_observation s)\<lparr>mo_tombstoned := False\<rparr>)
   | OpRevert i target v \<Rightarrow> (\<exists>s t q. new_head cs g False i s t db db' \<and> q \<in> set (ad_revisions db) \<and>
       vr_revision q = target \<and> vr_observation_id q = i \<and>
       says_same (or_observation t) ((vr_observation q)\<lparr>mo_id := i\<rparr>) \<and>
       (or_lifecycle t = LcActive \<longleftrightarrow> vr_lifecycle q = LcActive) \<and>
       mo_access_count (or_observation t) = mo_access_count (or_observation s))
   | OpDestroy i v r token \<Rightarrow> (\<exists>s. stored db i s) \<and>
       gd_observations db' = filter (\<lambda>r. row_id r \<noteq> i) (gd_observations db) \<and>
       (\<exists>w y. ad_revisions db' = ad_revisions db @ [w] \<and> vr_observation_id w = i \<and> vr_lifecycle w = LcDestroyed \<and>
          ad_outbox db' = ad_outbox db @ [y] \<and> xo_logical_id y = i \<and> xo_delete y \<and> xo_generation y = g))"

text \<open>The operations of a changeset, one after the other.\<close>

fun operations_done :: "str \<Rightarrow> nat \<Rightarrow> change_operation list \<Rightarrow> audit_db \<Rightarrow> audit_db \<Rightarrow> bool" where
  "operations_done cs g [] db db' \<longleftrightarrow> gd_observations db' = gd_observations db \<and>
     ad_revisions db' = ad_revisions db \<and> ad_outbox db' = ad_outbox db"
| "operations_done cs g (x # xs) db db' \<longleftrightarrow>
     (\<exists>db1. operation_done cs g x db db1 \<and> operations_done cs g xs db1 db')"

lemma row_changed_head:
  assumes "row_changed D cs g n del i f db db'"
  shows "\<exists>s t h. new_head cs (to_i64 g) del i s t db db' \<and>
    t = (f s)\<lparr>or_current_revision := h, or_row_version := or_row_version s + 1\<rparr>"
proof -
  obtain s t v x where "find_row i (gd_observations db) = Some s"
    and t: "t = (f s)\<lparr>or_current_revision := Some (vr_revision v), or_row_version := or_row_version s + 1\<rparr>"
    and "row_id t = i" "gd_observations db' = map (\<lambda>r. if row_id r = i then t else r) (gd_observations db)"
      "vr_observation_id v = i" "vr_parent v = or_current_revision s" "vr_changeset v = cs" "describes v t"
      "ad_revisions db' = ad_revisions db @ [v]" "xo_generation x = to_i64 g" "xo_delete x = del" "xo_logical_id x = i"
      "xo_revision x = Some (vr_revision v)" "xo_applied_at x = None" "ad_outbox db' = ad_outbox db @ [x]"
      "gd_entities db' = gd_entities db" "gd_relations db' = gd_relations db"
    using assms unfolding row_changed_def by blast
  then have "new_head cs (to_i64 g) del i s t db db'"
    using find_row_Some unfolding new_head_def stored_def by (auto simp: t)
  with t show ?thesis by blast
qed

section \<open>Remembering\<close>

text \<open>The rows a group inserts.\<close>

definition fresh_row :: "str \<Rightarrow> str \<Rightarrow> i64 \<Rightarrow> observation_input \<Rightarrow> observation_row \<Rightarrow> bool" where
  "fresh_row entity source now x r \<longleftrightarrow> or_observation r = observation_of_input (row_id r) entity source now x \<and>
     or_lifecycle r = LcActive"

lemma insert_observations_rows:
  fixes db db' :: audit_db
  shows "insert_each (insert_observation D entity source now) xs db = Inr (ids, db') \<Longrightarrow>
    \<exists>rows. gd_observations db' = gd_observations db @ rows \<and> map row_id rows = ids \<and>
      list_all2 (fresh_row entity source now) xs rows"
proof (induction xs arbitrary: ids db)
  case (Cons x xs)
  from Cons.prems obtain i db1 js where a: "insert_observation D entity source now x db = Inr (i, db1)"
    and b: "insert_each (insert_observation D entity source now) xs db1 = Inr (js, db')" and ids: "ids = i # js"
    by (auto simp: bind_result_Inr)
  let ?r = "\<lparr>or_observation = observation_of_input i entity source now x, or_current_revision = None,
      or_row_version = 1, or_lifecycle = LcActive\<rparr>"
  have "gd_observations db1 = gd_observations db @ [?r]" "row_id ?r = i"
    using a by (auto simp: insert_observation_def fresh_id_def row_id_def observation_of_input_def split: if_splits)
  moreover from this(2) have "fresh_row entity source now x ?r" by (simp add: fresh_row_def)
  moreover obtain rows where "gd_observations db' = gd_observations db1 @ rows" "map row_id rows = js"
      "list_all2 (fresh_row entity source now) xs rows" using Cons.IH [OF b] by blast
  ultimately show ?case using ids by (intro exI [of _ "?r # rows"]) simp
qed simp

lemma write_group_rows:
  fixes db db' :: audit_db
  assumes "write_group D name t obs rels source now p db = Inr (w, db')"
  shows "\<exists>e rows. gd_observations db' = gd_observations db @ rows \<and> map row_id rows = ro_observation_ids w \<and>
    list_all2 (fresh_row e source now) obs rows"
proof -
  obtain e db1 db2 oids rids where e: "ensure_entity D name t source now p db = (e, db1)"
    and o: "insert_each (insert_observation D (er_entity_id e) source now) obs db1 = Inr (oids, db2)"
    and r: "insert_each (insert_relation D (er_entity_id e) source now p) rels db2 = Inr (rids, db')"
    and w: "ro_observation_ids w = oids"
    using assms by (auto simp: write_group_def bind_result_Inr Let_def split: prod.splits)
  have "gd_observations db1 = gd_observations db" "gd_observations db' = gd_observations db2"
    using ensure_entity_core [OF e] insert_relations_core [OF r] by (simp_all add: core_same_def)
  then show ?thesis using insert_observations_rows [OF o] w by auto
qed

text \<open>Recording them: each gets its first revision and an outbox row.\<close>

lemma record_all_rows:
  fixes db db' :: audit_db
  shows "record_all D cs g n k (map row_id rows) db = Inr db' \<Longrightarrow> gd_observations db = old @ rows \<Longrightarrow>
    distinct (map row_id (old @ rows)) \<Longrightarrow>
    \<exists>vs xs. length vs = length rows \<and> ad_revisions db' = ad_revisions db @ vs \<and> ad_outbox db' = ad_outbox db @ xs \<and>
      gd_observations db' = old @ map2 (\<lambda>r v. r\<lparr>or_current_revision := Some (vr_revision v)\<rparr>) rows vs \<and>
      list_all2 (\<lambda>r v. vr_observation_id v = row_id r \<and> vr_parent v = None \<and> vr_changeset v = cs \<and> describes v r) rows vs \<and>
      list_all2 (\<lambda>r x. xo_logical_id x = row_id r \<and> \<not> xo_delete x \<and> xo_generation x = to_i64 g \<and> xo_applied_at x = None) rows xs"
proof (induction rows arbitrary: k db old)
  case (Cons r rows)
  from Cons.prems(1) obtain db1 where a: "record_remembered D cs g (scoped_ordinal n k) (row_id r) db = Inr db1"
    and b: "record_all D cs g n (Suc k) (map row_id rows) db1 = Inr db'" by (auto simp: bind_result_Inr)
  obtain row where row: "load_required db (row_id r) = Inr row"
    using a by (auto simp: record_remembered_def bind_result_Inr)
  let ?rev = "new_id D (gd_ids db)" and ?i = "row_id r"
  have "bind_result (insert_outbox g (scoped_ordinal n k) False ?i (Some ?rev) (set_revision ?i ?rev (revised D row None cs db)))
      (insert_operation_event cs (scoped_ordinal n k) ''remembered'' ?i (Some ?rev)) = Inr db1"
    using a row by (simp add: record_remembered_def insert_revision_eq Let_def)
  note db1 = record_both_Inr [OF this]
  have d: "distinct (map row_id (gd_observations db))" using Cons.prems(2,3) by simp
  have f: "find_row ?i (gd_observations db) = Some r" using find_row_distinct [OF d, of r] Cons.prems(2) by simp
  obtain s where "find_row ?i (gd_observations db) = Some s"
    and row_s: "row = s\<lparr>or_observation := (or_observation s)\<lparr>mo_concepts := sort (mo_concepts (or_observation s)),
            mo_source_files := sort (mo_source_files (or_observation s))\<rparr>\<rparr>"
    using load_required_Inr [OF row] by blast
  then have s: "s = r" using f by simp
  let ?v = "\<lparr>vr_revision = ?rev, vr_observation_id = ?i, vr_parent = None, vr_changeset = cs,
      vr_observation = or_observation row, vr_lifecycle = or_lifecycle row,
      vr_semantic_hash = observation_hash D (or_observation row) (or_lifecycle row)\<rparr>"
  let ?r = "r\<lparr>or_current_revision := Some ?rev\<rparr>"
  have "row_id row = ?i" by (simp add: row_s s row_id_def)
  then have revs: "ad_revisions db1 = ad_revisions db @ [?v]"
    by (simp add: db1 set_revision_def update_rows_def revised_def insert_revision_def fresh_id_def)
  have others: "\<forall>q\<in>set (old @ rows). row_id q \<noteq> ?i" using Cons.prems(3) by auto (metis imageI)+
  then have "map (\<lambda>q. if row_id q = ?i then q\<lparr>or_current_revision := Some ?rev\<rparr> else q) (old @ r # rows) = old @ ?r # rows"
    by (auto intro!: map_idI)
  then have obs: "gd_observations db1 = (old @ [?r]) @ rows"
    using Cons.prems(2)
    by (simp add: db1 set_revision_def update_rows_def revised_def insert_revision_def fresh_id_def)
  have ri: "row_id ?r = row_id r" by (simp add: row_id_def)
  then have "distinct (map row_id ((old @ [?r]) @ rows))" using Cons.prems(3) by simp
  from Cons.IH [OF b obs this] obtain vs xs where ih: "length vs = length rows" "ad_revisions db' = ad_revisions db1 @ vs"
      "ad_outbox db' = ad_outbox db1 @ xs"
      "gd_observations db' = (old @ [?r]) @ map2 (\<lambda>r v. r\<lparr>or_current_revision := Some (vr_revision v)\<rparr>) rows vs"
      "list_all2 (\<lambda>r v. vr_observation_id v = row_id r \<and> vr_parent v = None \<and> vr_changeset v = cs \<and> describes v r) rows vs"
      "list_all2 (\<lambda>r x. xo_logical_id x = row_id r \<and> \<not> xo_delete x \<and> xo_generation x = to_i64 g \<and> xo_applied_at x = None) rows xs"
    by blast
  let ?x = "outbox_entry (set_revision ?i ?rev (revised D row None cs db)) g (scoped_ordinal n k) False ?i (Some ?rev)"
  have out: "ad_outbox db1 = ad_outbox db @ [?x]"
    by (simp add: db1 set_revision_def update_rows_def revised_def insert_revision_def fresh_id_def outbox_entry_def)
  have "describes ?v r" by (simp add: row_s s describes_def revision_view_def)
  then show ?case
    using ih revs out by (intro exI [of _ "?v # vs"] exI [of _ "?x # xs"]) (simp add: outbox_entry_def)
qed simp

lemma remember_done:
  assumes a: "apply_operation D p cs g now n (OpRemember name t obs rels) db = Inr db'"
    and inj: "inj (new_id D)" and h: "history_ok D db"
  shows "operation_done cs (to_i64 g) (OpRemember name t obs rels) db db'"
proof -
  obtain w db1 where w: "write_group D name t obs rels ''changeset'' now p db = Inr (w, db1)"
    and r: "record_all D cs g n 0 (ro_observation_ids w) db1 = Inr db'"
    using a by (auto simp: bind_result_Inr)
  obtain e rows where rows: "gd_observations db1 = gd_observations db @ rows" "map row_id rows = ro_observation_ids w"
      "list_all2 (fresh_row e ''changeset'' now) obs rows"
    using write_group_rows [OF w] by blast
  have run: "history_run D cs db db1" "graph_db.more db1 = graph_db.more db"
    using write_group_run [OF w inj h] by auto
  have "distinct (map row_id (gd_observations db1))"
    using history_run_ok [OF run(1) inj h] by (simp add: history_ok_def)
  then have d: "distinct (map row_id (gd_observations db @ rows))" using rows(1) by simp
  obtain vs xs where v: "length vs = length rows" "ad_revisions db' = ad_revisions db1 @ vs"
      "ad_outbox db' = ad_outbox db1 @ xs"
      "gd_observations db' = gd_observations db @ map2 (\<lambda>r v. r\<lparr>or_current_revision := Some (vr_revision v)\<rparr>) rows vs"
      "list_all2 (\<lambda>r v. vr_observation_id v = row_id r \<and> vr_parent v = None \<and> vr_changeset v = cs \<and> describes v r) rows vs"
      "list_all2 (\<lambda>r x. xo_logical_id x = row_id r \<and> \<not> xo_delete x \<and> xo_generation x = to_i64 g \<and> xo_applied_at x = None) rows xs"
    using record_all_rows [OF r [folded rows(2)] rows(1) d] by blast
  let ?rows = "map2 (\<lambda>r v. r\<lparr>or_current_revision := Some (vr_revision v)\<rparr>) rows vs"
  have "list_all2 (\<lambda>inp r. mo_content (or_observation r) = oi_content inp \<and> mo_entity_id (or_observation r) = e \<and>
      or_lifecycle r = LcActive \<and> \<not> mo_tombstoned (or_observation r)) obs ?rows"
    using rows(3) v(1) by (auto simp: list_all2_conv_all_nth fresh_row_def observation_of_input_def)
  moreover have "list_all2 (\<lambda>r v. vr_observation_id v = row_id r \<and> vr_parent v = None \<and> vr_changeset v = cs \<and>
      or_current_revision r = Some (vr_revision v) \<and> describes v r) ?rows vs"
    using v(1,5) by (auto simp: list_all2_conv_all_nth row_id_def describes_def)
  moreover have "list_all2 (\<lambda>r x. xo_logical_id x = row_id r \<and> \<not> xo_delete x \<and> xo_generation x = to_i64 g \<and>
      xo_applied_at x = None) ?rows xs"
    using v(1,6) by (auto simp: list_all2_conv_all_nth row_id_def)
  ultimately show ?thesis
    using v(2-4) more_fields [OF run(2)] unfolding operation_done_def
    by (simp only: change_operation.case) blast
qed

section \<open>The other operations\<close>

lemma apply_operation_done:
  assumes a: "apply_operation D p cs g now n x db = Inr db'" and inj: "inj (new_id D)" and h: "history_ok D db"
    and k: "versions_below k db" "k \<le> 2 ^ 63"
  shows "operation_done cs (to_i64 g) x db db'"
proof (cases x)
  case (OpRemember name t obs rels)
  then show ?thesis using remember_done [OF a [unfolded OpRemember] inj h] by simp
next
  case (OpUpdate ob v r)
  then have u: "apply_update D ob v r cs g n db = Inr db'" using a by simp
  then have "\<not> mo_tombstoned ob" by (auto simp: apply_update_def bind_result_Inr invalid_def split: if_splits)
  moreover obtain s t hd where t: "new_head cs (to_i64 g) False (mo_id ob) s t db db'"
    "t = (replaced_row ob s)\<lparr>or_current_revision := hd, or_row_version := or_row_version s + 1\<rparr>"
    using row_changed_head [OF apply_update_changed [OF u h k]] by blast
  moreover from t(1) have "mo_id (or_observation s) = mo_id ob" by (simp add: new_head_def stored_def row_id_def)
  ultimately have "says_same (or_observation t) ob \<and> mo_access_count (or_observation t) = mo_access_count (or_observation s) \<and>
      or_lifecycle t = LcActive"
    by (simp add: t(2) replaced_row_def says_same_def revision_view_def row_id_def)
  with t(1) show ?thesis unfolding operation_done_def OpUpdate by (simp only: change_operation.case) blast
next
  case (OpRetire i v)
  then have u: "apply_lifecycle D i v True cs g n db = Inr db'" using a by simp
  show ?thesis using row_changed_head [OF apply_lifecycle_changed [OF u h k]]
    by (fastforce simp: operation_done_def OpRetire lifecycle_row_def)
next
  case (OpRestore i v)
  then have u: "apply_lifecycle D i v False cs g n db = Inr db'" using a by simp
  show ?thesis using row_changed_head [OF apply_lifecycle_changed [OF u h k]]
    by (fastforce simp: operation_done_def OpRestore lifecycle_row_def)
next
  case (OpRevert i target v)
  then have u: "apply_revert D i target v cs g n db = Inr db'" using a by simp
  obtain ob where ob: "observation_from_revision target i db = Inr ob"
    and c: "row_changed D cs g n False i (replaced_row ob) db db'"
    using apply_revert_changed [OF u h k] by blast
  obtain q where q: "find (\<lambda>v. vr_revision v = target \<and> vr_observation_id v = i) (ad_revisions db) = Some q"
    and obq: "ob = (vr_observation q)\<lparr>mo_id := i, mo_tombstoned := (vr_lifecycle q \<noteq> LcActive), mo_access_count := 0\<rparr>"
    using ob by (auto simp: observation_from_revision_def no_row_def split: option.splits)
  have "q \<in> set (ad_revisions db) \<and> vr_revision q = target \<and> vr_observation_id q = i"
    using find_Some_mem [OF q] by simp
  moreover obtain s t hd where "new_head cs (to_i64 g) False i s t db db'"
    "t = (replaced_row ob s)\<lparr>or_current_revision := hd, or_row_version := or_row_version s + 1\<rparr>"
    using row_changed_head [OF c] by blast
  moreover from this have "says_same (or_observation t) ((vr_observation q)\<lparr>mo_id := i\<rparr>) \<and>
      (or_lifecycle t = LcActive \<longleftrightarrow> vr_lifecycle q = LcActive) \<and>
      mo_access_count (or_observation t) = mo_access_count (or_observation s)"
    by (auto simp: replaced_row_def obq says_same_def revision_view_def new_head_def stored_def row_id_def)
  ultimately show ?thesis unfolding operation_done_def OpRevert by (simp only: change_operation.case) blast
next
  case (OpDestroy i v r token)
  then have u: "apply_destroy D i v r token cs g n now db = Inr db'" using a by simp
  show ?thesis using apply_destroy_shape [OF u h k]
    by (auto simp: operation_done_def OpDestroy row_destroyed_def stored_def dest!: find_row_Some)
qed

lemma apply_operations_done:
  "apply_operations D p cs g now n xs db = Inr db' \<Longrightarrow> inj (new_id D) \<Longrightarrow> history_ok D db \<Longrightarrow>
    versions_below k db \<Longrightarrow> 2 \<le> k \<Longrightarrow> k + length xs \<le> 2 ^ 63 \<Longrightarrow> operations_done cs (to_i64 g) xs db db'"
proof (induction xs arbitrary: n k db)
  case (Cons x xs)
  from Cons.prems(1) obtain db1 where a: "apply_operation D p cs g now n x db = Inr db1"
    and b: "apply_operations D p cs g now (Suc n) xs db1 = Inr db'" by (auto simp: bind_result_Inr)
  have le: "k \<le> 2 ^ 63" using Cons.prems(6) by simp
  have s: "history_ok D db1" "versions_below (Suc k) db1"
    using history_ok_after [OF apply_operation_history [OF a Cons.prems(2-5) le] Cons.prems(2-5)] by auto
  show ?case
    using apply_operation_done [OF a Cons.prems(2-4) le] Cons.IH [OF b Cons.prems(2) s] Cons.prems(5,6) by auto
qed simp

end
