(* ===== verification/Om_Repair.thy ===== *)
theory Om_Repair
  imports Om_AuditRun
begin

text \<open>
  The repair of the search index: what one repair that nothing refuses does to the index and to the
  outbox, and that repairing again and again drains the outbox.
\<close>

section \<open>One repair\<close>

text \<open>Foreign and primary keys of the tables a repair reads.\<close>

definition keys_ok :: "audit_db \<Rightarrow> bool" where
  "keys_ok db \<longleftrightarrow> distinct (map xo_id (ad_outbox db)) \<and>
     (\<forall>r\<in>set (gd_observations db). mo_entity_id (or_observation r) \<in> en_id ` set (gd_entities db))"

definition name_of :: "audit_db \<Rightarrow> observation_row \<Rightarrow> str" where
  "name_of db r = (case find (\<lambda>e. en_id e = mo_entity_id (or_observation r)) (gd_entities db) of
     None \<Rightarrow> [] | Some e \<Rightarrow> en_name e)"

definition item_of :: "audit_db \<Rightarrow> outbox_row \<Rightarrow> repair_item" where
  "item_of db x = (let row = load_observation db (xo_logical_id x) in
     \<lparr>xi_id = xo_id x, xi_delete = xo_delete x, xi_logical_id = xo_logical_id x, xi_row = row,
      xi_entity_name = map_option (name_of db) row\<rparr>)"

lemma load_observation_entity:
  assumes "load_observation db i = Some r"
  shows "\<exists>s\<in>set (gd_observations db). mo_entity_id (or_observation r) = mo_entity_id (or_observation s)"
proof -
  obtain s where "find_row i (gd_observations db) = Some s" "mo_entity_id (or_observation r) = mo_entity_id (or_observation s)"
    using assms by (auto simp: load_observation_def)
  then show ?thesis using find_row_Some by blast
qed

lemma read_items_ok: "keys_ok db \<Longrightarrow> read_items db xs = Inr (map (item_of db) xs)"
proof (induction xs)
  case (Cons x xs)
  show ?case
  proof (cases "load_observation db (xo_logical_id x)")
    case None
    then show ?thesis using Cons by (simp add: item_of_def)
  next
    case (Some r)
    then have "mo_entity_id (or_observation r) \<in> en_id ` set (gd_entities db)"
      using load_observation_entity [OF Some] Cons.prems unfolding keys_ok_def by metis
    then have "find (\<lambda>e. en_id e = mo_entity_id (or_observation r)) (gd_entities db) \<noteq> None"
      unfolding find_None_iff by (metis imageE)
    then obtain e where "find (\<lambda>e. en_id e = mo_entity_id (or_observation r)) (gd_entities db) = Some e" by blast
    then show ?thesis using Cons Some by (simp add: item_of_def name_of_def)
  qed
qed simp

lemma apply_items_all: "apply_items (\<lambda>_. None) xs ix = (None, fold apply_item xs ix)"
  by (induction xs arbitrary: ix) simp_all

text \<open>What an item leaves in the index, and the last item of an observation decides.\<close>

definition item_entry :: "repair_item \<Rightarrow> index_entry option" where
  "item_entry x = apply_item x (\<lambda>_. None) (xi_logical_id x)"

lemma apply_item_at: "apply_item x ix i = (if xi_logical_id x = i then item_entry x else ix i)"
  by (simp add: apply_item_def item_entry_def split: option.splits)

lemma fold_apply_item:
  "fold apply_item xs ix i = (case filter (\<lambda>x. xi_logical_id x = i) xs of [] \<Rightarrow> ix i | y # ys \<Rightarrow> item_entry (last (y # ys)))"
proof (induction xs arbitrary: ix)
  case (Cons x xs)
  show ?case
    using Cons.IH [of "apply_item x ix"]
    by (cases "filter (\<lambda>x. xi_logical_id x = i) xs") (auto simp: apply_item_at [of x ix i])
qed simp

lemma item_of_row: "xi_row (item_of db x) = load_observation db (xo_logical_id x)"
    "xi_delete (item_of db x) = xo_delete x" "xi_logical_id (item_of db x) = xo_logical_id x" "xi_id (item_of db x) = xo_id x"
    "xi_entity_name (item_of db x) = map_option (name_of db) (load_observation db (xo_logical_id x))"
  by (simp_all add: item_of_def Let_def)

definition live_row :: "audit_db \<Rightarrow> str \<Rightarrow> observation_row option" where
  "live_row db i = (case load_observation db i of None \<Rightarrow> None
     | Some r \<Rightarrow> if mo_tombstoned (or_observation r) \<or> or_lifecycle r \<noteq> LcActive then None else Some r)"

lemma item_entry_of: "item_entry (item_of db x) = (if xo_delete x then None
    else map_option (\<lambda>r. entry_of (name_of db r) r) (live_row db (xo_logical_id x)))"
  by (auto simp: item_entry_def apply_item_def item_of_row live_row_def split: option.splits)

section \<open>The outbox\<close>

definition pending :: "audit_db \<Rightarrow> outbox_row list" where
  "pending db = filter (\<lambda>x. xo_applied_at x = None) (ad_outbox db)"

lemma pending_rows_take: "pending_rows db = take 1024 (sort_key (\<lambda>x. (xo_generation x, xo_ordinal x)) (pending db))"
  by (simp add: pending_rows_def pending_def)

lemma pending_rows_in: "set (pending_rows db) \<subseteq> set (pending db)"
  unfolding pending_rows_take by (rule subset_trans [OF set_take_subset]) simp

lemma pending_rows_length: "length (pending_rows db) = min 1024 (length (pending db))"
  by (simp add: pending_rows_take min.commute)

lemma pending_after:
  assumes "distinct (map xo_id (ad_outbox db))"
  shows "length (filter (\<lambda>x. xo_applied_at x = None \<and> xo_id x \<notin> xo_id ` set (pending_rows db)) (ad_outbox db))
    = length (pending db) - 1024"
proof -
  have d: "distinct (map xo_id (pending db))" using assms unfolding pending_def by (rule distinct_map_filter)
  then have dp: "distinct (pending db)" by (simp add: distinct_map)
  have inj: "inj_on xo_id (set (pending db))" using d by (simp add: distinct_map)
  have eq: "filter (\<lambda>x. xo_applied_at x = None \<and> xo_id x \<notin> xo_id ` set (pending_rows db)) (ad_outbox db)
      = filter (\<lambda>x. x \<notin> set (pending_rows db)) (pending db)"
    unfolding pending_def filter_filter
  proof (rule filter_cong [OF refl])
    fix x assume x: "x \<in> set (ad_outbox db)"
    show "(xo_applied_at x = None \<and> xo_id x \<notin> xo_id ` set (pending_rows db)) =
        (xo_applied_at x = None \<and> x \<notin> set (pending_rows db))"
    proof (cases "xo_applied_at x = None")
      case True
      then have "x \<in> set (pending db)" using x by (simp add: pending_def)
      then have "xo_id x \<in> xo_id ` set (pending_rows db) \<longleftrightarrow> x \<in> set (pending_rows db)"
        using inj_on_image_mem_iff [OF inj _ pending_rows_in] by blast
      then show ?thesis using True by blast
    next
      case False
      then show ?thesis by blast
    qed
  qed
  have dr: "distinct (pending_rows db)" using dp by (simp add: pending_rows_take)
  have "length (filter (\<lambda>x. x \<notin> set (pending_rows db)) (pending db)) = card (set (pending db) - set (pending_rows db))"
    using distinct_card [OF distinct_filter [OF dp], of "\<lambda>x. x \<notin> set (pending_rows db)"] by (simp add: set_diff_eq)
  also have "\<dots> = length (pending db) - length (pending_rows db)"
    using card_Diff_subset [OF finite_set pending_rows_in] dp dr by (simp add: distinct_card)
  finally show ?thesis by (simp add: eq pending_rows_length min_def)
qed

lemma first_pending_empty:
  assumes "filter (\<lambda>x. xo_applied_at x = None) xs = []"
  shows "first_pending xs = None"
proof (cases "first_pending xs")
  case (Some g)
  then have "g \<in> pending_gens xs" using first_pending_Some by blast
  then obtain x where "x \<in> set xs" "xo_applied_at x = None" by (auto simp: pending_gens_def)
  then have "x \<in> set (filter (\<lambda>x. xo_applied_at x = None) xs)" by simp
  then show ?thesis using assms by simp
qed

text \<open>Publishing what was read, when nothing refuses it, in whatever state the store is by then.\<close>

lemma published:
  assumes "repair_publish now (\<lambda>_. None) None items st = (result, st')"
  obtains r db' where "gs_index st' = fold apply_item items (gs_index st)" "gs_db st' = db'"
    "mark_index_rows_applied now (map xi_id items) (gs_db st) = (r, db')" "result = Inr r"
  using assms that
  by (cases "items = []"; cases "mark_index_rows_applied now (map xi_id items) (gs_db st)")
    (auto simp: repair_publish_def apply_items_all)

text \<open>The store after a repair that nothing refuses.\<close>

definition repaired :: "i64 \<Rightarrow> graph_store \<Rightarrow> graph_store" where
  "repaired now st = snd (repair_index now (\<lambda>_. None) None st)"

lemma mark_fields:
  assumes "mark_index_rows_applied now ids db = (r, db')"
  shows "pending db' = filter (\<lambda>x. xo_applied_at x = None \<and> xo_id x \<notin> set ids) (ad_outbox db)"
    "map xo_id (ad_outbox db') = map xo_id (ad_outbox db)" "gd_observations db' = gd_observations db"
    "gd_entities db' = gd_entities db" "ad_semantic db' = ad_semantic db"
    "ad_repair db' = (pending db' \<noteq> [])" "pending db' = [] \<Longrightarrow> ad_indexed db' = ad_semantic db"
    "r = (length (pending db'), ad_indexed db')"
proof -
  let ?f = "\<lambda>x. if xo_id x \<in> set ids \<and> xo_applied_at x = None
      then x\<lparr>xo_attempts := xo_attempts x + 1, xo_error := None, xo_applied_at := Some now\<rparr> else x"
  let ?xs = "map ?f (ad_outbox db)"
  have db': "db' = db\<lparr>ad_outbox := ?xs,
      ad_indexed := (case first_pending ?xs of None \<Rightarrow> ad_semantic db | Some g \<Rightarrow> g - 1),
      ad_repair := (length (filter (\<lambda>x. xo_applied_at x = None) ?xs) \<noteq> 0)\<rparr>"
    and r: "r = (length (filter (\<lambda>x. xo_applied_at x = None) ?xs),
      case first_pending ?xs of None \<Rightarrow> ad_semantic db | Some g \<Rightarrow> g - 1)"
    using assms [symmetric] unfolding mark_index_rows_applied_def Let_def by (blast dest: Pair_inject)+
  have f: "filter (\<lambda>x. xo_applied_at x = None) (map ?f xs) =
      filter (\<lambda>x. xo_applied_at x = None \<and> xo_id x \<notin> set ids) xs" for xs
    by (induction xs) auto
  show "pending db' = filter (\<lambda>x. xo_applied_at x = None \<and> xo_id x \<notin> set ids) (ad_outbox db)"
    unfolding pending_def using f by (simp add: db')
  show "map xo_id (ad_outbox db') = map xo_id (ad_outbox db)" by (simp add: db')
  show "gd_observations db' = gd_observations db" "gd_entities db' = gd_entities db" "ad_semantic db' = ad_semantic db"
    by (simp_all add: db')
  show "ad_repair db' = (pending db' \<noteq> [])" unfolding db' pending_def by (simp del: length_filter_map)
  show "pending db' = [] \<Longrightarrow> ad_indexed db' = ad_semantic db"
  proof -
    assume p: "pending db' = []"
    have "filter (\<lambda>x. xo_applied_at x = None) ?xs = []" using p unfolding db' pending_def by (simp del: map_map)
    then have "first_pending ?xs = None" by (rule first_pending_empty)
    then show ?thesis by (simp add: db')
  qed
  show "r = (length (pending db'), ad_indexed db')" unfolding r db' pending_def by (simp del: length_filter_map)
qed

lemma repaired_eq:
  assumes "keys_ok (gs_db st)"
  obtains r db' where "repair_index now (\<lambda>_. None) None st =
      (Inr r, \<lparr>gs_db = db', gs_index = fold apply_item (map (item_of (gs_db st)) (pending_rows (gs_db st))) (gs_index st)\<rparr>)"
    "mark_index_rows_applied now (map xo_id (pending_rows (gs_db st))) (gs_db st) = (r, db')"
proof (cases "mark_index_rows_applied now (map xo_id (pending_rows (gs_db st))) (gs_db st)")
  case (Pair r db')
  let ?items = "map (item_of (gs_db st)) (pending_rows (gs_db st))"
  have "map xi_id ?items = map xo_id (pending_rows (gs_db st))" by (simp add: item_of_row)
  moreover have "st\<lparr>gs_db := db', gs_index := ix\<rparr> = \<lparr>gs_db = db', gs_index = ix\<rparr>"
    "st\<lparr>gs_db := db'\<rparr> = \<lparr>gs_db = db', gs_index = gs_index st\<rparr>" for ix by simp_all
  ultimately have "repair_index now (\<lambda>_. None) None st = (Inr r, \<lparr>gs_db = db', gs_index = fold apply_item ?items (gs_index st)\<rparr>)"
    using Pair by (cases "pending_rows (gs_db st) = []")
      (simp_all del: map_map add: repair_index_def repair_read_def read_items_ok [OF assms] repair_publish_def apply_items_all)
  with Pair show thesis using that by blast
qed

lemma repaired_pending:
  assumes "keys_ok (gs_db st)"
  shows "length (pending (gs_db (repaired now st))) = length (pending (gs_db st)) - 1024"
    "keys_ok (gs_db (repaired now st))" "ad_semantic (gs_db (repaired now st)) = ad_semantic (gs_db st)"
    "pending (gs_db (repaired now st)) = [] \<Longrightarrow>
       ad_indexed (gs_db (repaired now st)) = ad_semantic (gs_db st) \<and> \<not> ad_repair (gs_db (repaired now st))"
proof -
  obtain r db' where e: "repair_index now (\<lambda>_. None) None st =
      (Inr r, \<lparr>gs_db = db', gs_index = fold apply_item (map (item_of (gs_db st)) (pending_rows (gs_db st))) (gs_index st)\<rparr>)"
    and m: "mark_index_rows_applied now (map xo_id (pending_rows (gs_db st))) (gs_db st) = (r, db')"
    by (rule repaired_eq [OF assms])
  have db: "gs_db (repaired now st) = db'" by (simp add: repaired_def e)
  note f = mark_fields [OF m]
  show "length (pending (gs_db (repaired now st))) = length (pending (gs_db st)) - 1024"
    using pending_after [of "gs_db st"] assms by (simp add: db f(1) keys_ok_def)
  show "keys_ok (gs_db (repaired now st))" using assms f(2-4) unfolding db keys_ok_def by simp
  show "ad_semantic (gs_db (repaired now st)) = ad_semantic (gs_db st)" using f(5) db by simp
  show "pending (gs_db (repaired now st)) = [] \<Longrightarrow>
       ad_indexed (gs_db (repaired now st)) = ad_semantic (gs_db st) \<and> \<not> ad_repair (gs_db (repaired now st))"
    using f(6,7) db by simp
qed

end
