(* ===== verification/Om_IndexTruth.thy ===== *)
theory Om_IndexTruth
  imports Om_AuditEffects Om_Repair
begin

text \<open>
  The outbox tells the index the truth: when the newest outbox row of an observation is a deletion, the
  observation is not live. This holds in every reachable store, and is what makes a repair, which
  deletes without looking at the row, right.
\<close>

section \<open>The invariant\<close>

definition alive :: "audit_db \<Rightarrow> str set" where
  "alive db = {i. \<exists>r\<in>set (gd_observations db). row_id r = i \<and> \<not> mo_tombstoned (or_observation r) \<and> or_lifecycle r = LcActive}"

definition tag :: "outbox_row \<Rightarrow> nat \<times> nat \<times> bool \<times> str" where
  "tag x = (xo_generation x, xo_ordinal x, xo_delete x, xo_logical_id x)"

definition tags :: "audit_db \<Rightarrow> (nat \<times> nat \<times> bool \<times> str) set" where
  "tags db = tag ` set (ad_outbox db)"

definition index_truth :: "audit_db \<Rightarrow> bool" where
  "index_truth db \<longleftrightarrow> (\<forall>g n i. (g, n, True, i) \<in> tags db \<and> i \<in> alive db \<longrightarrow>
     (\<exists>g' n'. (g', n', False, i) \<in> tags db \<and> (g, n) < (g', n')))"

lemma index_truth_mono: "index_truth db \<Longrightarrow> tags db' = tags db \<Longrightarrow> alive db' \<subseteq> alive db \<Longrightarrow> index_truth db'"
  unfolding index_truth_def by blast

lemma alive_same: "gd_observations db' = gd_observations db \<Longrightarrow> alive db' = alive db"
  by (simp add: alive_def)

lemma index_truth_same:
  "index_truth db \<Longrightarrow> gd_observations db' = gd_observations db \<Longrightarrow> ad_outbox db' = ad_outbox db \<Longrightarrow> index_truth db'"
  by (simp add: index_truth_def alive_def tags_def)

lemma alive_filter: "gd_observations db' = filter P (gd_observations db) \<Longrightarrow> alive db' \<subseteq> alive db"
  by (auto simp: alive_def)

lemma alive_update:
  assumes "\<And>r. row_id (f r) = row_id r" "\<And>r. mo_tombstoned (or_observation (f r)) = mo_tombstoned (or_observation r)"
    "\<And>r. or_lifecycle (f r) = or_lifecycle r"
    "gd_observations db' = map (\<lambda>r. if P r then f r else r) (gd_observations db)"
  shows "alive db' = alive db"
proof -
  let ?h = "\<lambda>r. if P r then f r else r"
  have "row_id (?h r) = row_id r \<and> mo_tombstoned (or_observation (?h r)) = mo_tombstoned (or_observation r) \<and>
      or_lifecycle (?h r) = or_lifecycle r" for r using assms(1-3) by simp
  then show ?thesis unfolding alive_def assms(4) set_map by (simp only: bex_simps(7))
qed

lemma index_truth_marked:
  assumes "index_truth db" "gd_observations db' = gd_observations db" "ad_outbox db' = map h (ad_outbox db)" "\<And>x. tag (h x) = tag x"
  shows "index_truth db'"
proof -
  have "tags db' = tags db" unfolding tags_def assms(3) by (simp add: image_image assms(4))
  then show ?thesis using index_truth_mono [OF assms(1)] alive_same [OF assms(2)] by blast
qed

text \<open>Within a transaction, before its operation \<open>n\<close>: every deletion told so far comes earlier.\<close>

definition truth_below :: "nat \<Rightarrow> nat \<Rightarrow> audit_db \<Rightarrow> bool" where
  "truth_below g n db \<longleftrightarrow> index_truth db \<and>
     (\<forall>g' n' i. (g', n', True, i) \<in> tags db \<longrightarrow> (g', n') < (to_i64 g, to_i64 (scoped_ordinal n 0)))"

text \<open>What an operation tells the index.\<close>

definition tells :: "nat \<Rightarrow> nat \<Rightarrow> audit_db \<Rightarrow> audit_db \<Rightarrow> bool" where
  "tells g n db db' \<longleftrightarrow> (\<exists>zs. ad_outbox db' = ad_outbox db @ zs \<and>
     (\<forall>z\<in>set zs. xo_generation z = to_i64 g \<and> to_i64 (scoped_ordinal n 0) \<le> xo_ordinal z \<and>
        (xo_delete z \<longrightarrow> xo_ordinal z = to_i64 (scoped_ordinal n 0) \<and> xo_logical_id z \<notin> alive db')) \<and>
     (\<forall>i\<in>alive db' - alive db. \<exists>z\<in>set zs. \<not> xo_delete z \<and> xo_logical_id z = i))"

lemma scoped_first: "n \<le> 256 \<Longrightarrow> to_i64 (scoped_ordinal n 0) = n * 257"
  by (simp add: to_i64_def scoped_ordinal_def saturating_add_def MAX_LIST_ITEMS_def)

lemma scoped_later: "to_i64 (scoped_ordinal n 0) \<le> to_i64 (scoped_ordinal n k)"
  by (auto simp: to_i64_def scoped_ordinal_def saturating_add_def min_def)

lemma tells_truth:
  assumes b: "truth_below g n db" and t: "tells g n db db'" and n: "n \<le> 255"
  shows "truth_below g (Suc n) db'"
proof -
  obtain zs where zs: "ad_outbox db' = ad_outbox db @ zs"
    and new: "\<forall>z\<in>set zs. xo_generation z = to_i64 g \<and> to_i64 (scoped_ordinal n 0) \<le> xo_ordinal z \<and>
        (xo_delete z \<longrightarrow> xo_ordinal z = to_i64 (scoped_ordinal n 0) \<and> xo_logical_id z \<notin> alive db')"
    and live: "\<forall>i\<in>alive db' - alive db. \<exists>z\<in>set zs. \<not> xo_delete z \<and> xo_logical_id z = i"
    using t unfolding tells_def by blast
  have tags: "tags db' = tags db \<union> tag ` set zs" by (simp add: tags_def zs image_Un)
  have next_op: "to_i64 (scoped_ordinal n 0) < to_i64 (scoped_ordinal (Suc n) 0)" using n by (simp add: scoped_first)
  have "\<exists>g'' n''. (g'', n'', False, i) \<in> tags db' \<and> (g', n') < (g'', n'')"
    if d: "(g', n', True, i) \<in> tags db'" "i \<in> alive db'" for g' n' i
  proof -
    have old: "(g', n', True, i) \<in> tags db" using d new unfolding tags by (auto simp: tag_def)
    then have less: "(g', n') < (to_i64 g, to_i64 (scoped_ordinal n 0))" using b by (auto simp: truth_below_def)
    show ?thesis
    proof (cases "i \<in> alive db")
      case True
      then show ?thesis using b old unfolding truth_below_def index_truth_def tags by blast
    next
      case False
      then obtain z where z: "z \<in> set zs" "\<not> xo_delete z" "xo_logical_id z = i" using live d(2) by blast
      then have "tag z \<in> tags db'" unfolding tags by blast
      moreover have "(g', n') < (xo_generation z, xo_ordinal z)" using less new z(1) by (auto simp: less_prod_def')
      ultimately show ?thesis using z by (auto simp: tag_def)
    qed
  qed
  moreover have "(g', n') < (to_i64 g, to_i64 (scoped_ordinal (Suc n) 0))" if "(g', n', True, i) \<in> tags db'" for g' n' i
    using that b new next_op unfolding tags truth_below_def by (fastforce simp: tag_def less_prod_def')
  ultimately show ?thesis by (simp add: truth_below_def index_truth_def)
qed

lemma truth_start:
  assumes "index_truth db" "outbox_ok db" "ad_semantic db + 1 < 2 ^ 63"
  shows "truth_below (ad_semantic db + 1) 0 db"
proof -
  have "to_i64 (ad_semantic db + 1) = ad_semantic db + 1" using assms(3) by (simp add: to_i64_def)
  then show ?thesis using assms(1,2)
    by (fastforce simp: truth_below_def outbox_ok_def tags_def tag_def less_prod_def')
qed

section \<open>Operations\<close>

lemma alive_changed:
  assumes "row_changed D cs g n del i f db db'"
  shows "alive db' \<subseteq> insert i (alive db)"
proof -
  obtain t where "gd_observations db' = map (\<lambda>r. if row_id r = i then t else r) (gd_observations db)" "row_id t = i"
    using assms unfolding row_changed_def by blast
  then show ?thesis by (auto simp: alive_def split: if_splits)
qed

lemma row_changed_tells:
  assumes "row_changed D cs g n del i f db db'" "del \<Longrightarrow> i \<notin> alive db'"
  shows "tells g n db db'"
proof -
  obtain x where "xo_generation x = to_i64 g" "xo_ordinal x = to_i64 (scoped_ordinal n 0)" "xo_delete x = del"
      "xo_logical_id x = i" "ad_outbox db' = ad_outbox db @ [x]"
    using assms(1) unfolding row_changed_def by blast
  then show ?thesis using alive_changed [OF assms(1)] assms(2) unfolding tells_def
    by (intro exI [of _ "[x]"]) (cases del, auto)
qed

lemma record_all_tells:
  "record_all D cs g n k ids db = Inr db' \<Longrightarrow> alive db' = alive db \<and>
    (\<exists>zs. ad_outbox db' = ad_outbox db @ zs \<and> set ids \<subseteq> xo_logical_id ` set zs \<and>
      (\<forall>z\<in>set zs. \<not> xo_delete z \<and> xo_generation z = to_i64 g \<and> to_i64 (scoped_ordinal n 0) \<le> xo_ordinal z))"
proof (induction ids arbitrary: k db)
  case (Cons i ids)
  from Cons.prems obtain db1 where a: "record_remembered D cs g (scoped_ordinal n k) i db = Inr db1"
    and b: "record_all D cs g n (Suc k) ids db1 = Inr db'" by (auto simp: bind_result_Inr)
  obtain row where "bind_result (insert_outbox g (scoped_ordinal n k) False i (Some (new_id D (gd_ids db)))
      (set_revision i (new_id D (gd_ids db)) (revised D row None cs db)))
      (insert_operation_event cs (scoped_ordinal n k) ''remembered'' i (Some (new_id D (gd_ids db)))) = Inr db1"
    using a by (auto simp: record_remembered_def bind_result_Inr insert_revision_eq Let_def)
  note db1 = record_both_Inr [OF this]
  let ?x = "outbox_entry db g (scoped_ordinal n k) False i (Some (new_id D (gd_ids db)))"
  have "ad_outbox db1 = ad_outbox db @ [?x]"
    by (simp add: db1 set_revision_def update_rows_def revised_def insert_revision_def fresh_id_def outbox_entry_def)
  moreover have "alive db1 = alive db"
    by (rule alive_update [where P = "\<lambda>r. row_id r = i" and f = "\<lambda>r. r\<lparr>or_current_revision := Some (new_id D (gd_ids db))\<rparr>"])
      (simp_all add: db1 set_revision_def update_rows_def revised_def insert_revision_def fresh_id_def row_id_def)
  moreover note Cons.IH [OF b]
  ultimately show ?case using scoped_later [of n k]
    by (fastforce simp: outbox_entry_def intro: exI [where x = "?x # zs" for zs])
qed simp

lemma alive_appended:
  "gd_observations db' = gd_observations db @ rows \<Longrightarrow> alive db \<subseteq> alive db' \<and> alive db' \<subseteq> alive db \<union> row_id ` set rows"
  by (auto simp: alive_def)

lemma apply_operation_tells:
  assumes a: "apply_operation D p cs g now n x db = Inr db'" and inj: "inj (new_id D)" and h: "history_ok D db"
    and k: "versions_below k db" "k \<le> 2 ^ 63"
  shows "tells g n db db'"
proof (cases x)
  case (OpRemember name t obs rels)
  then obtain w db1 where w: "write_group D name t obs rels ''changeset'' now p db = Inr (w, db1)"
    and r: "record_all D cs g n 0 (ro_observation_ids w) db1 = Inr db'"
    using a by (auto simp: bind_result_Inr)
  obtain rows where rows: "gd_observations db1 = gd_observations db @ rows" "map row_id rows = ro_observation_ids w"
    using write_group_rows [OF w] by blast
  have "ad_outbox db1 = ad_outbox db" using write_group_run [OF w inj h] more_fields by blast
  moreover have "alive db1 \<subseteq> alive db \<union> set (ro_observation_ids w)"
    using alive_appended [OF rows(1)] by (simp flip: rows(2))
  ultimately show ?thesis using record_all_tells [OF r] unfolding tells_def by fastforce
next
  case (OpUpdate ob v r)
  then show ?thesis using a apply_update_changed [OF _ h k] row_changed_tells by fastforce
next
  case (OpRetire i v)
  then have c: "row_changed D cs g n True i (lifecycle_row True) db db'" using a apply_lifecycle_changed [OF _ h k] by simp
  then have "i \<notin> alive db'" by (auto simp: row_changed_def alive_def lifecycle_row_def split: if_splits)
  then show ?thesis using row_changed_tells [OF c] by blast
next
  case (OpRestore i v)
  then have "row_changed D cs g n False i (lifecycle_row False) db db'" using a apply_lifecycle_changed [OF _ h k] by simp
  then show ?thesis by (rule row_changed_tells) simp
next
  case (OpRevert i target v)
  then obtain ob where "row_changed D cs g n False i (replaced_row ob) db db'"
    using a apply_revert_changed [OF _ h k, of i target v cs g n db'] by auto
  then show ?thesis by (rule row_changed_tells) simp
next
  case (OpDestroy i v r token)
  then have "row_destroyed D cs g n i db db'" using a apply_destroy_shape [OF _ h k] by simp
  then obtain y where y: "gd_observations db' = filter (\<lambda>r. row_id r \<noteq> i) (gd_observations db)"
    "xo_generation y = to_i64 g" "xo_ordinal y = to_i64 (scoped_ordinal n 0)" "xo_logical_id y = i"
    "ad_outbox db' = ad_outbox db @ [y]"
    unfolding row_destroyed_def by blast
  have "i \<notin> alive db'" using y(1) by (auto simp: alive_def)
  then show ?thesis using y alive_filter [OF y(1)] unfolding tells_def by (intro exI [of _ "[y]"]) auto
qed

lemma apply_operations_truth:
  "apply_operations D p cs g now n xs db = Inr db' \<Longrightarrow> inj (new_id D) \<Longrightarrow> history_ok D db \<Longrightarrow>
    versions_below k db \<Longrightarrow> 2 \<le> k \<Longrightarrow> k + length xs \<le> 2 ^ 63 \<Longrightarrow> n + length xs \<le> 256 \<Longrightarrow>
    truth_below g n db \<Longrightarrow> index_truth db'"
proof (induction xs arbitrary: n k db)
  case (Cons x xs)
  from Cons.prems(1) obtain db1 where a: "apply_operation D p cs g now n x db = Inr db1"
    and b: "apply_operations D p cs g now (Suc n) xs db1 = Inr db'" by (auto simp: bind_result_Inr)
  have le: "k \<le> 2 ^ 63" using Cons.prems(6) by simp
  have s: "history_ok D db1" "versions_below (Suc k) db1"
    using history_ok_after [OF apply_operation_history [OF a Cons.prems(2-5) le] Cons.prems(2-5)] by auto
  have "truth_below g (Suc n) db1"
    using tells_truth [OF Cons.prems(8) apply_operation_tells [OF a Cons.prems(2-4) le]] Cons.prems(7) by simp
  then show ?case using Cons.IH [OF b Cons.prems(2) s] Cons.prems(5-7) by simp
qed (simp add: truth_below_def)

section \<open>Transactions\<close>

lemma truth_publish: "index_truth db \<Longrightarrow> index_truth (publish_generation g db)"
  by (erule index_truth_same) (simp_all add: publish_generation_def)

lemma truth_applied:
  assumes a: "apply_operations D p cs (ad_semantic db + 1) now 0 ops db2 = Inr db4"
    and db2: "gd_observations db2 = gd_observations db" "ad_outbox db2 = ad_outbox db" "history_ok D db2"
      "versions_below (2 ^ 63 - 256) db2"
    and "length ops \<le> 256" "index_truth db" "outbox_ok db" "counters_fit db" "inj (new_id D)"
  shows "index_truth (publish_generation g db4)"
proof -
  have "truth_below (ad_semantic db + 1) 0 db" using assms(7-9) by (intro truth_start) (simp_all add: counters_fit_def)
  then have "truth_below (ad_semantic db + 1) 0 db2"
    using index_truth_same [OF _ db2(1,2)] unfolding truth_below_def tags_def db2(2) by blast
  then show ?thesis using apply_operations_truth [OF a assms(10) db2(3,4)] assms(6) by (intro truth_publish) simp
qed

lemma submit_truth:
  assumes s: "submit_tx D p now d mode db = Inr (r, db')" and inv: "audit_inv D db" and inj: "inj (new_id D)"
    and fit: "counters_fit db" and t: "index_truth db"
  shows "index_truth db'"
  using s
proof (cases rule: submit_cases)
  case (replayed rc)
  then show ?thesis using t by simp
next
  case (stored db2)
  have same: "gd_observations db2 = gd_observations db" "ad_outbox db2 = ad_outbox db"
    by (simp_all add: stored(6) insert_requests_def)
  show ?thesis
  proof (cases mode)
    case Propose
    then show ?thesis using stored(7) same index_truth_same [OF t] by simp
  next
    case ApplyImmediately
    then obtain db4 where a: "apply_operations D p (new_id D (gd_ids db)) (ad_semantic db + 1) now 0
         (dr_operations d) db2 = Inr db4" and db': "db' = publish_generation (ad_semantic db + 1) db4"
      using stored(8) by blast
    have "history_step D [] 0 db db2"
      by (intro history_step.quiet) (auto simp: stored(6) insert_requests_def new_names_def change_set_row_def)
    moreover have "history_ok D db" using inv by (simp add: audit_inv_def)
    ultimately have h2: "history_ok D db2" by (rule history_step_ok [OF _ inj])
    have v2: "versions_below (2 ^ 63 - 256) db2"
      using fit by (simp add: stored(6) insert_requests_def counters_fit_def versions_below_def)
    show ?thesis unfolding db'
      by (rule truth_applied [OF a same h2 v2 validated_length [OF stored(2)] t _ fit inj])
        (use inv in \<open>simp add: audit_inv_def\<close>)
  qed
qed

lemma moved_same: "move_proposal i expected state gen now db = Inr db1 \<Longrightarrow>
    insert_review_event i kind review reason db1 = Inr db' \<Longrightarrow>
    gd_observations db' = gd_observations db \<and> ad_outbox db' = ad_outbox db"
  by (auto simp: move_proposal_def Let_def dest!: review_event_Inr split: if_splits)

lemma approve_truth:
  assumes a: "approve_tx D p now i expected review db = Inr db'" and inv: "audit_inv D db" and inj: "inj (new_id D)"
    and fit: "counters_fit db" and t: "index_truth db"
  shows "index_truth db'"
  using a
proof (cases rule: approve_cases)
  case (unchanged c)
  then show ?thesis using t by simp
next
  case (conflicted c db1 ops)
  then show ?thesis using moved_same index_truth_same [OF t] by blast
next
  case (applied c db1 db2 db3 ops)
  have h: "history_ok D db" "outbox_ok db" and v: "versions_below (2 ^ 63 - 256) db"
    using inv fit by (simp_all add: audit_inv_def counters_fit_def)
  have "index_truth (publish_generation (ad_semantic db + 1) db1)"
    by (rule truth_applied [OF applied(6) refl refl h(1) v verified_length [OF applied(4)] t h(2) fit inj])
  then show ?thesis
    by (rule index_truth_same) (use moved_same [OF applied(7,8)] in \<open>simp_all add: applied(9) publish_generation_def\<close>)
qed

lemma write_groups_rows:
  fixes db db' :: audit_db
  shows "write_groups D now p rs db = Inr (gs, db') \<Longrightarrow> length gs = length rs \<and>
    (\<exists>rows. gd_observations db' = gd_observations db @ rows \<and>
      row_id ` set rows \<subseteq> set (concat (map ro_observation_ids gs)))"
proof (induction rs arbitrary: gs db)
  case (Cons r rs)
  obtain g db1 hs where w: "write_group D (rq_name r) (rq_entity_type r) (rq_observations r) (rq_relations r)
      (rq_source r) now p db = Inr (g, db1)" and ws: "write_groups D now p rs db1 = Inr (hs, db')" and gs: "gs = g # hs"
    using Cons.prems(1) by (auto simp: bind_result_Inr)
  obtain rows where a: "gd_observations db1 = gd_observations db @ rows" "map row_id rows = ro_observation_ids g"
    using write_group_rows [OF w] by blast
  obtain more where b: "gd_observations db' = gd_observations db1 @ more"
      "row_id ` set more \<subseteq> set (concat (map ro_observation_ids hs))" "length hs = length rs"
    using Cons.IH [OF ws] by blast
  have "row_id ` set rows = set (ro_observation_ids g)" by (simp flip: a(2))
  then show ?case using a(1) b gs by (auto intro!: exI [of _ "rows @ more"])
qed simp

lemma record_outcomes_tells:
  "record_outcomes D cs g n gs db = Inr db' \<Longrightarrow> alive db' = alive db \<and>
    (\<exists>zs. ad_outbox db' = ad_outbox db @ zs \<and> set (concat (map ro_observation_ids gs)) \<subseteq> xo_logical_id ` set zs \<and>
      (\<forall>z\<in>set zs. \<not> xo_delete z \<and> xo_generation z = to_i64 g))"
proof (induction gs arbitrary: n db)
  case (Cons w gs)
  from Cons.prems obtain db1 where a: "record_all D cs g n 0 (ro_observation_ids w) db = Inr db1"
    and b: "record_outcomes D cs g (Suc n) gs db1 = Inr db'" by (auto simp: bind_result_Inr)
  obtain xs where x: "alive db1 = alive db" "ad_outbox db1 = ad_outbox db @ xs"
      "set (ro_observation_ids w) \<subseteq> xo_logical_id ` set xs" "\<forall>z\<in>set xs. \<not> xo_delete z \<and> xo_generation z = to_i64 g"
    using record_all_tells [OF a] by blast
  obtain ys where y: "alive db' = alive db1" "ad_outbox db' = ad_outbox db1 @ ys"
      "set (concat (map ro_observation_ids gs)) \<subseteq> xo_logical_id ` set ys"
      "\<forall>z\<in>set ys. \<not> xo_delete z \<and> xo_generation z = to_i64 g"
    using Cons.IH [OF b] by blast
  show ?case using x y by (intro conjI exI [of _ "xs @ ys"]) auto
qed simp

lemma remember_truth:
  assumes r: "remember_tx D q space_text now source rs db = Inr (gs, gen, db')" and inv: "audit_inv D db"
    and inj: "inj (new_id D)" and fit: "counters_fit db" and t: "index_truth db"
  shows "index_truth db'"
proof (cases "rs = []")
  case True
  then show ?thesis using r t by (simp add: remember_tx_def)
next
  case False
  show ?thesis
    using r False
  proof (cases rule: remember_cases)
    case (1 db1 db2 d c db4)
    have h: "history_ok D db" and o: "outbox_ok db" using inv by (simp_all add: audit_inv_def)
    have "graph_db.more db1 = graph_db.more db" using write_groups_run [OF inj 1(1) h, of "[]"] by blast
    then have m: "ad_outbox db2 = ad_outbox db" "ad_semantic db2 = ad_semantic db"
      using more_fields [OF 1(3)] more_fields [of db1 db] by simp_all
    obtain rows where rows: "length gs = length rs" "gd_observations db1 = gd_observations db @ rows"
        "row_id ` set rows \<subseteq> set (concat (map ro_observation_ids gs))"
      using write_groups_rows [OF 1(1)] by blast
    let ?db3 = "insert_requests D (new_id D (gd_ids db1)) (dr_operations d) (db2\<lparr>ad_changesets := ad_changesets db2 @ [c]\<rparr>)"
    have gs: "map fst (zip gs (map remember_operation rs)) = gs" using rows(1) by simp
    obtain zs where z: "alive db4 = alive ?db3" "ad_outbox db4 = ad_outbox ?db3 @ zs"
        "set (concat (map ro_observation_ids gs)) \<subseteq> xo_logical_id ` set zs"
        "\<forall>z\<in>set zs. \<not> xo_delete z \<and> xo_generation z = to_i64 (ad_semantic db2 + 1)"
      using record_outcomes_tells [OF 1(8) [unfolded gs]] by blast
    have "gd_observations ?db3 = gd_observations db @ rows" using 1(2) rows(2) by (simp add: insert_requests_def)
    then have al: "alive db4 \<subseteq> alive db \<union> xo_logical_id ` set zs"
      using alive_appended [of ?db3 db rows] z(1,3) rows(3) by blast
    have out: "ad_outbox db4 = ad_outbox db @ zs" using z(2) m(1) by (simp add: insert_requests_def)
    have g: "to_i64 (ad_semantic db2 + 1) = ad_semantic db + 1" using fit m(2) by (simp add: counters_fit_def to_i64_def)
    have "index_truth db4"
      unfolding index_truth_def
    proof (intro allI impI, elim conjE)
      fix g' n i assume d: "(g', n, True, i) \<in> tags db4" "i \<in> alive db4"
      have old: "(g', n, True, i) \<in> tags db" using d(1) z(4) by (auto simp: tags_def tag_def out)
      then have le: "g' \<le> ad_semantic db" using o by (auto simp: tags_def tag_def outbox_ok_def)
      show "\<exists>g'' n''. (g'', n'', False, i) \<in> tags db4 \<and> (g', n) < (g'', n'')"
      proof (cases "i \<in> alive db")
        case True
        then show ?thesis using t old unfolding index_truth_def tags_def out by fastforce
      next
        case False
        then obtain x where x: "x \<in> set zs" "xo_logical_id x = i" using al d(2) by blast
        then have "tag x \<in> tags db4" by (simp add: tags_def out)
        moreover have "tag x = (xo_generation x, xo_ordinal x, False, i)" "xo_generation x = ad_semantic db + 1"
          using x z(4) g by (auto simp: tag_def)
        moreover have "(g', n) < (xo_generation x, xo_ordinal x)" using le x z(4) g by (simp add: less_prod_def')
        ultimately show ?thesis by metis
      qed
    qed
    then show ?thesis unfolding 1(9) by (rule truth_publish)
  qed
qed

lemma baseline_quiet: "baseline_each D cs n ids db = Inr db' \<Longrightarrow> alive db' = alive db \<and> ad_outbox db' = ad_outbox db"
proof (induction ids arbitrary: n db)
  case (Cons i ids)
  let ?f = "\<lambda>r. r\<lparr>or_current_revision := Some (new_id D (gd_ids db))\<rparr>"
  obtain row db1 where e: "insert_operation_event cs n ''baseline'' i (Some (new_id D (gd_ids db)))
      (update_rows (\<lambda>r. row_id r = i \<and> or_current_revision r = None) ?f (revised D row None cs db)) = Inr db1"
    and b: "baseline_each D cs (Suc n) ids db1 = Inr db'"
    using Cons.prems by (auto simp: bind_result_Inr insert_revision_eq Let_def)
  note db1 = insert_event_Inr [OF e [unfolded insert_operation_event_def]]
  have "alive db1 = alive db"
    by (rule alive_update [where P = "\<lambda>r. row_id r = i \<and> or_current_revision r = None" and f = ?f])
      (simp_all add: db1 update_rows_def revised_def insert_revision_def fresh_id_def row_id_def)
  moreover have "ad_outbox db1 = ad_outbox db" by (simp add: db1 update_rows_def revised_def insert_revision_def fresh_id_def)
  ultimately show ?case using Cons.IH [OF b] by simp
qed simp

lemma backfill_quiet:
  fixes db :: audit_db
  assumes b: "backfill_audit D now limit db = Inr (report, db')"
  shows "alive db' = alive db \<and> ad_outbox db' = ad_outbox db"
proof (cases "backfill_page (ad_cursor db) (clamp_limit limit) db = []")
  case True
  then show ?thesis using b
    by (cases "gd_space db") (auto simp: backfill_audit_def invalid_def alive_def)
next
  case False
  then obtain space db2 db3 where i: "insert_change_set (baseline_row D (new_id D (gd_ids db)) space now)
      (db\<lparr>gd_ids := Suc (gd_ids db)\<rparr>) = Inr db2"
    and e: "baseline_each D (new_id D (gd_ids db)) 0 (backfill_page (ad_cursor db) (clamp_limit limit) db) db2 = Inr db3"
    and db': "gd_observations db' = gd_observations db3" "ad_outbox db' = ad_outbox db3"
    using b by (cases "gd_space db") (auto simp: backfill_audit_def invalid_def fresh_id_def bind_result_Inr Let_def)
  then show ?thesis using baseline_quiet [OF e] insert_change_set_Inr [OF i] by (auto simp: alive_def)
qed

lemma audit_step_truth:
  assumes "audit_step D p db db'" and inv: "audit_inv D db" and inj: "inj (new_id D)" and t: "index_truth db"
  shows "index_truth db'"
  using assms(1)
proof cases
  case (rejected now i expected review reason)
  then have "gd_observations db' = gd_observations db" "ad_outbox db' = ad_outbox db"
    by (auto simp: reject_tx_def invalid_def bind_result_Inr move_proposal_def Let_def dest!: review_event_Inr split: if_splits)
  then show ?thesis by (rule index_truth_same [OF t])
next
  case (compacted now retention limit n)
  then show ?thesis by (intro index_truth_same [OF t]) (auto simp: compact_rejected_def Let_def)
next
  case (previewed now i review ttl pv)
  then show ?thesis
    by (intro index_truth_same [OF t]) (auto simp: preview_destruction_def invalid_def bind_result_Inr fresh_id_def Let_def
        split: option.splits if_splits)
next
  case (bound_space space_text space)
  then show ?thesis
    by (intro index_truth_same [OF t]) (auto simp: compatibility_space_id_def fresh_id_def Let_def split: option.splits)
next
  case (backfilled now limit report)
  then show ?thesis using backfill_quiet [OF backfilled] by (intro index_truth_mono [OF t]) (simp_all add: tags_def)
next
  case (marked now ids n)
  let ?f = "\<lambda>x. if xo_id x \<in> set ids \<and> xo_applied_at x = None
      then x\<lparr>xo_attempts := xo_attempts x + 1, xo_error := None, xo_applied_at := Some now\<rparr> else x"
  show ?thesis
    by (rule index_truth_marked [OF t, of _ ?f])
      (use marked in \<open>auto simp: mark_index_rows_applied_def Let_def tag_def\<close>)
next
  case (index_failed i e)
  let ?f = "\<lambda>x. if xo_id x = i \<and> xo_applied_at x = None
      then x\<lparr>xo_attempts := xo_attempts x + 1, xo_error := Some e\<rparr> else x"
  show ?thesis
    by (rule index_truth_marked [OF t, of _ ?f])
      (use index_failed in \<open>auto simp: record_index_failure_def tag_def\<close>)
next
  case (accessed f)
  have "alive db' = alive db"
    by (rule alive_update [where P = "\<lambda>_. True" and f = "\<lambda>r. r\<lparr>or_observation := (or_observation r)
        \<lparr>mo_access_count := mo_access_count (or_observation r) + f (row_id r)\<rparr>\<rparr>"])
      (simp_all add: accessed add_access_def update_rows_def row_id_def)
  then show ?thesis by (intro index_truth_mono [OF t]) (simp_all add: accessed tags_def add_access_def update_rows_def)
next
  case (entity_forgotten e)
  then show ?thesis
    by (intro index_truth_mono [OF t]) (auto simp: delete_entity_def tags_def alive_def)
next
  case (pruned now ttl stale report)
  have "ad_outbox db' = ad_outbox db"
  proof -
    obtain orphans where "db' = fold delete_entity orphans
        (db\<lparr>gd_observations := filter (\<lambda>r. row_id r \<notin> set stale) (gd_observations db)\<rparr>)"
      using pruned by (auto simp: prune_tx_def Let_def)
    moreover have "ad_outbox (fold delete_entity is a) = ad_outbox a" for "is" and a :: audit_db
      by (induction "is" arbitrary: a) (simp_all add: delete_entity_def)
    ultimately show ?thesis by simp
  qed
  then show ?thesis using alive_filter [OF prune_observations(1) [OF pruned]]
    by (intro index_truth_mono [OF t]) (simp_all add: tags_def)
next
  case (named n)
  then show ?thesis by (intro index_truth_same [OF t]) auto
qed (use inv inj t in \<open>blast intro: submit_truth approve_truth remember_truth\<close>)+

lemma audit_reach_truth:
  assumes "audit_reach D p db" "inj (new_id D)"
  shows "index_truth db"
proof -
  obtain db0 where start: "audit_start D db0" and run: "(audit_step D p)\<^sup>*\<^sup>* db0 db"
    using assms(1) by (auto simp: audit_reach_def)
  from run have "index_truth db \<and> audit_inv D db"
  proof (induction rule: rtranclp_induct)
    case base
    then show ?case using start start_inv by (auto simp: index_truth_def tags_def audit_start_def)
  next
    case (step a b)
    then show ?case using audit_step_truth [OF _ _ assms(2)] audit_step_inv [OF _ assms(2)] by blast
  qed
  then show ?thesis by blast
qed

text \<open>The newest outbox row of an observation.\<close>

definition newest :: "outbox_row \<Rightarrow> audit_db \<Rightarrow> bool" where
  "newest x db \<longleftrightarrow> x \<in> set (ad_outbox db) \<and> (\<forall>y\<in>set (ad_outbox db). xo_logical_id y = xo_logical_id x \<longrightarrow>
     (xo_generation y, xo_ordinal y) \<le> (xo_generation x, xo_ordinal x))"

lemma newest_deletion:
  assumes "index_truth db" "newest x db" "xo_delete x"
  shows "live_row db (xo_logical_id x) = None"
proof (rule ccontr)
  assume "live_row db (xo_logical_id x) \<noteq> None"
  then have "xo_logical_id x \<in> alive db"
    by (auto simp: live_row_def load_observation_def alive_def dest!: find_row_Some split: option.splits if_splits)
  moreover have "(xo_generation x, xo_ordinal x, True, xo_logical_id x) \<in> tags db"
    using assms(2,3) by (force simp: newest_def tags_def tag_def)
  ultimately obtain g n where y: "(g, n, False, xo_logical_id x) \<in> tags db" "(xo_generation x, xo_ordinal x) < (g, n)"
    using assms(1) unfolding index_truth_def by blast
  then obtain y where "y \<in> set (ad_outbox db)" "xo_logical_id y = xo_logical_id x" "(g, n) = (xo_generation y, xo_ordinal y)"
    by (auto simp: tags_def tag_def)
  then have "(g, n) \<le> (xo_generation x, xo_ordinal x)" using assms(2) unfolding newest_def by metis
  then show False using y(2) leD by blast
qed

lemma sorted_last:
  assumes "sorted (map f zs)" "z \<in> set zs"
  shows "f z \<le> f (last zs)"
proof -
  have "zs = butlast zs @ [last zs]" using assms(2) by (cases zs) simp_all
  then have "sorted (map f (butlast zs) @ [f (last zs)])" "z \<in> set (butlast zs @ [last zs])"
    using assms by (simp_all flip: map_append) (metis list.simps(8,9) map_append)
  then show ?thesis by (auto simp: sorted_append)
qed

text \<open>When the newest row of an observation is among those a repair reads, what the last of them makes of the
  index is what the store holds.\<close>

lemma newest_read:
  assumes "index_truth db" "newest x db" "x \<in> set (pending_rows db)"
  shows "item_entry (item_of db (last (filter (\<lambda>y. xo_logical_id y = xo_logical_id x) (pending_rows db)))) =
    map_option (\<lambda>r. entry_of (name_of db r) r) (live_row db (xo_logical_id x))"
proof -
  let ?ys = "filter (\<lambda>y. xo_logical_id y = xo_logical_id x) (pending_rows db)" and ?y = "last (filter (\<lambda>y. xo_logical_id y = xo_logical_id x) (pending_rows db))"
  let ?k = "\<lambda>y. (xo_generation y, xo_ordinal y)"
  have x: "x \<in> set ?ys" using assms(3) by simp
  then have "?ys \<noteq> []" by (metis empty_iff list.set(1))
  then have "?y \<in> set ?ys" by (rule last_in_set)
  then have y: "?y \<in> set (ad_outbox db)" "xo_logical_id ?y = xo_logical_id x"
    using pending_rows_in by (auto simp: pending_def)
  have "sorted (map ?k (pending_rows db))" by (simp add: pending_rows_take flip: take_map)
  then have "?k x \<le> ?k ?y" using sorted_last [OF sorted_filter x] by blast
  then have "newest ?y db" using assms(2) y by (auto simp: newest_def intro: order_trans)
  then show ?thesis using newest_deletion [OF assms(1), of ?y] y(2) by (simp add: item_entry_of)
qed

end
