(* ===== verification/Om_ForgetFacts.thy ===== *)
theory Om_ForgetFacts
  imports Om_Forget
begin

text \<open>
  The duplicate pass of the consolidation agrees with a function on lists that has no positions and no
  marks, and converges.
\<close>

section \<open>A reference\<close>

definition near_row :: "(str \<Rightarrow> str \<Rightarrow> bool) \<Rightarrow> dedup_row \<Rightarrow> dedup_row \<Rightarrow> bool" where
  "near_row near x y = near (fst (snd x)) (fst (snd y))"

definition total_access :: "dedup_row list \<Rightarrow> nat" where
  "total_access xs = foldl u32_saturating_add 0 (map (snd \<circ> snd) xs)"

text \<open>The first observation swallows all that are near it; then the others.\<close>

function dedup_ref :: "(str \<Rightarrow> str \<Rightarrow> bool) \<Rightarrow> dedup_row list \<Rightarrow> (str \<times> str list \<times> nat) list" where
  "dedup_ref near [] = []"
| "dedup_ref near (x # xs) =
     (let same = filter (near_row near x) xs in
      (if same = [] then [] else [(fst x, map fst same, total_access same)]) @
      dedup_ref near (filter (\<lambda>y. \<not> near_row near x y) xs))"
  by pat_completeness auto

termination
  by (relation "measure (length \<circ> snd)") (simp_all add: le_imp_less_Suc)

section \<open>The loops\<close>

definition marked_at :: "bool list \<Rightarrow> nat list \<Rightarrow> bool list" where
  "marked_at v js = fold (\<lambda>j v. v[j := True]) js v"

lemma marked_at_length [simp]: "length (marked_at v js) = length v"
  unfolding marked_at_def by (induction js arbitrary: v) simp_all

lemma marked_at_nth: "k < length v \<Longrightarrow> marked_at v js ! k \<longleftrightarrow> v ! k \<or> k \<in> set js"
  unfolding marked_at_def
proof (induction js arbitrary: v)
  case (Cons a js)
  then show ?case by (cases "k = a") auto
qed simp

lemma dedup_inner_eq:
  assumes "distinct js" "set js \<subseteq> {..<length v}"
  shows "dedup_inner near obs c js v tot losers =
    (let hits = filter (\<lambda>j. \<not> v ! j \<and> near c (fst (snd (obs ! j)))) js in
     (marked_at v hits, foldl u32_saturating_add tot (map (\<lambda>j. snd (snd (obs ! j))) hits),
      losers @ map (\<lambda>j. fst (obs ! j)) hits))"
  using assms
proof (induction js arbitrary: v tot losers)
  case Nil
  then show ?case by (simp add: marked_at_def)
next
  case (Cons j js)
  obtain i d a where o: "obs ! j = (i, d, a)" by (cases "obs ! j")
  have other: "filter (\<lambda>k. \<not> v[j := True] ! k \<and> near c (fst (snd (obs ! k)))) js =
      filter (\<lambda>k. \<not> v ! k \<and> near c (fst (snd (obs ! k)))) js"
  proof (rule filter_cong [OF refl])
    fix k assume "k \<in> set js"
    then have "k \<noteq> j" using Cons.prems(1) by auto
    then show "(\<not> v[j := True] ! k \<and> near c (fst (snd (obs ! k)))) = (\<not> v ! k \<and> near c (fst (snd (obs ! k))))"
      by simp
  qed
  show ?case
  proof (cases "\<not> v ! j \<and> near c d")
    case True
    then show ?thesis
      using Cons.IH [of "v[j := True]"] Cons.prems o other by (simp add: Let_def marked_at_def)
  next
    case False
    then show ?thesis using Cons.IH [of v] Cons.prems o by auto
  qed
qed

lemma dedup_outer_eq:
  "length v = length obs \<Longrightarrow> k \<le> length obs \<Longrightarrow> dedup_outer near obs [k ..< length obs] v groups =
    groups @ dedup_ref near (map ((!) obs) (filter (\<lambda>j. \<not> v ! j) [k ..< length obs]))"
proof (induction "length obs - k" arbitrary: k v groups)
  case 0
  then show ?case by simp
next
  case (Suc n)
  then have k: "k < length obs" by simp
  have upt: "[k ..< length obs] = k # [Suc k ..< length obs]" using k by (rule upt_conv_Cons)
  note IH = Suc.hyps(1) [of "Suc k"]
  let ?js = "[Suc k ..< length obs]"
  show ?case
  proof (cases "v ! k")
    case True
    then show ?thesis using IH Suc.hyps(2) Suc.prems k by (simp add: upt)
  next
    case False
    obtain i c a where o: "obs ! k = (i, c, a)" by (cases "obs ! k")
    let ?v = "v[k := True]" and ?U = "map ((!) obs) (filter (\<lambda>j. \<not> v ! j) ?js)"
    let ?hits = "filter (\<lambda>j. \<not> ?v ! j \<and> near c (fst (snd (obs ! j)))) ?js"
    have hits: "?hits = filter (\<lambda>j. \<not> v ! j \<and> near c (fst (snd (obs ! j)))) ?js"
      by (intro filter_cong) auto
    have near: "map ((!) obs) ?hits = filter (near_row near (obs ! k)) ?U"
      unfolding hits by (simp add: filter_map comp_def near_row_def o conj_commute)
    have rest: "map ((!) obs) (filter (\<lambda>j. \<not> marked_at ?v ?hits ! j) ?js) =
        filter (\<lambda>y. \<not> near_row near (obs ! k) y) ?U"
    proof -
      have "filter (\<lambda>j. \<not> marked_at ?v ?hits ! j) ?js = filter (\<lambda>j. \<not> v ! j \<and> \<not> near c (fst (snd (obs ! j)))) ?js"
        using Suc.prems(1) by (intro filter_cong refl) (auto simp: marked_at_nth)
      then show ?thesis by (simp add: filter_map comp_def near_row_def o conj_commute)
    qed
    have inner: "dedup_inner near obs c ?js ?v 0 [] = (marked_at ?v ?hits,
        foldl u32_saturating_add 0 (map (\<lambda>j. snd (snd (obs ! j))) ?hits), map (\<lambda>j. fst (obs ! j)) ?hits)"
    proof -
      have "set ?js \<subseteq> {..<length ?v}" using Suc.prems(1) by auto
      from dedup_inner_eq [OF distinct_upt this, of near obs c 0 "[]"] show ?thesis by (simp only: Let_def append_Nil)
    qed
    have ids: "map (\<lambda>j. fst (obs ! j)) ?hits = map fst (filter (near_row near (obs ! k)) ?U)"
      and tot: "foldl u32_saturating_add 0 (map (\<lambda>j. snd (snd (obs ! j))) ?hits) =
        total_access (filter (near_row near (obs ! k)) ?U)"
      unfolding near [symmetric] total_access_def by (simp_all add: comp_def)
    have out: "dedup_outer near obs [k ..< length obs] v groups = dedup_outer near obs ?js (marked_at ?v ?hits)
        (if filter (near_row near (obs ! k)) ?U = [] then groups
         else groups @ [(i, map fst (filter (near_row near (obs ! k)) ?U), total_access (filter (near_row near (obs ! k)) ?U))])"
      unfolding upt using False o inner ids tot by simp
    have ref: "map ((!) obs) (filter (\<lambda>j. \<not> v ! j) [k ..< length obs]) = obs ! k # ?U"
      unfolding upt using False by simp
    show ?thesis
      unfolding out ref using IH [of "marked_at ?v ?hits"] Suc.hyps(2) Suc.prems k
      by (simp add: rest o Let_def)
  qed
qed

lemma dedup_within_entity_eq: "dedup_within_entity near obs = dedup_ref near obs"
proof -
  have "filter (\<lambda>j. \<not> replicate (length obs) False ! j) [0 ..< length obs] = [0 ..< length obs]"
    by (intro filter_True) simp
  then show ?thesis
    using dedup_outer_eq [of "replicate (length obs) False" obs 0 near "[]"]
    by (simp add: dedup_within_entity_def map_nth)
qed

section \<open>Convergence\<close>

definition merged_away :: "(str \<times> str list \<times> nat) list \<Rightarrow> str set" where
  "merged_away gs = (\<Union>g\<in>set gs. set (fst (snd g)))"

function survivors :: "(str \<Rightarrow> str \<Rightarrow> bool) \<Rightarrow> dedup_row list \<Rightarrow> dedup_row list" where
  "survivors near [] = []"
| "survivors near (x # xs) = x # survivors near (filter (\<lambda>y. \<not> near_row near x y) xs)"
  by pat_completeness auto

termination
  by (relation "measure (length \<circ> snd)") (simp_all add: le_imp_less_Suc)

lemma survivors_subset: "set (survivors near xs) \<subseteq> set xs"
  by (induction near xs rule: survivors.induct) auto

lemma merged_away_ids: "merged_away (dedup_ref near xs) \<subseteq> fst ` set xs"
  by (induction near xs rule: dedup_ref.induct) (auto simp: merged_away_def Let_def split: if_splits)

lemma merged_away_Cons: "merged_away (dedup_ref near (x # xs)) =
    fst ` set (filter (near_row near x) xs) \<union> merged_away (dedup_ref near (filter (\<lambda>y. \<not> near_row near x y) xs))"
  by (cases "filter (near_row near x) xs = []") (simp_all add: merged_away_def Let_def)

lemma remaining_survivors:
  "distinct (map fst xs) \<Longrightarrow> filter (\<lambda>y. fst y \<notin> merged_away (dedup_ref near xs)) xs = survivors near xs"
proof (induction near xs rule: survivors.induct)
  case (1 near)
  then show ?case by simp
next
  case (2 near x xs)
  let ?far = "filter (\<lambda>y. \<not> near_row near x y) xs"
  have d: "distinct (map fst ?far)" using "2.prems" by (simp add: distinct_map_filter)
  have x: "fst x \<notin> merged_away (dedup_ref near (x # xs))"
    using "2.prems" merged_away_ids [of near ?far] unfolding merged_away_Cons by auto
  have "fst y \<notin> merged_away (dedup_ref near (x # xs)) \<longleftrightarrow>
      \<not> near_row near x y \<and> fst y \<notin> merged_away (dedup_ref near ?far)" if y: "y \<in> set xs" for y
  proof -
    have "fst y \<in> fst ` set (filter (near_row near x) xs) \<longleftrightarrow> near_row near x y"
      using "2.prems" y by (auto simp: distinct_map dest: inj_onD)
    then show ?thesis unfolding merged_away_Cons by blast
  qed
  then have "filter (\<lambda>y. fst y \<notin> merged_away (dedup_ref near (x # xs))) xs =
      filter (\<lambda>y. fst y \<notin> merged_away (dedup_ref near ?far)) ?far"
    unfolding filter_filter by (rule filter_cong [OF refl])
  then show ?case using x "2.IH" [OF d] by simp
qed

lemma survivors_far: "sorted_wrt (\<lambda>x y. \<not> near_row near x y) (survivors near xs)"
proof (induction near xs rule: survivors.induct)
  case (2 near x xs)
  then show ?case using survivors_subset [of near "filter (\<lambda>y. \<not> near_row near x y) xs"] by auto
qed simp

lemma far_nothing: "sorted_wrt (\<lambda>x y. \<not> near_row near x y) xs \<Longrightarrow> dedup_ref near xs = []"
proof (induction xs)
  case (Cons x xs)
  then have "filter (near_row near x) xs = []" "filter (\<lambda>y. \<not> near_row near x y) xs = xs"
    by (auto simp: filter_empty_conv intro: filter_True)
  then show ?case using Cons by simp
qed simp

lemma dedup_ref_near:
  "g \<in> set (dedup_ref near xs) \<Longrightarrow>
    \<exists>x\<in>set xs. fst x = fst g \<and> (\<forall>l\<in>set (fst (snd g)). \<exists>y\<in>set xs. fst y = l \<and> near_row near x y)"
proof (induction near xs rule: dedup_ref.induct)
  case (2 near x xs)
  let ?same = "filter (near_row near x) xs" and ?far = "filter (\<lambda>y. \<not> near_row near x y) xs"
  have "g = (fst x, map fst ?same, total_access ?same) \<or> g \<in> set (dedup_ref near ?far)"
    using "2.prems" by (auto simp: Let_def split: if_splits)
  then show ?case
  proof
    assume g: "g = (fst x, map fst ?same, total_access ?same)"
    have "\<exists>y\<in>set (x # xs). fst y = l \<and> near_row near x y" if "l \<in> set (fst (snd g))" for l
      using that by (auto simp: g)
    then show ?thesis using g by (intro bexI [of _ x]) simp_all
  next
    assume "g \<in> set (dedup_ref near ?far)"
    then have "\<exists>z\<in>set ?far. fst z = fst g \<and> (\<forall>l\<in>set (fst (snd g)). \<exists>y\<in>set ?far. fst y = l \<and> near_row near z y)"
      using "2.IH" by blast
    then obtain z where z: "z \<in> set ?far" "fst z = fst g"
        "\<forall>l\<in>set (fst (snd g)). \<exists>y\<in>set ?far. fst y = l \<and> near_row near z y" by blast
    have sub: "set ?far \<subseteq> set (x # xs)" by auto
    show ?thesis using z sub by blast
  qed
qed simp

end
