(* ===== verification/Om_AuditProps.thy ===== *)
theory Om_AuditProps
  imports Om_IndexTruth Om_ChangesetHash Om_ForgetFacts
begin

text \<open>
  The properties of the audited store, over every state its transactions reach in any order and with any
  arguments. Distinct identifiers are assumed of the generator of UUIDs; row versions and generations
  are assumed to stay clear of the end of an \<open>i64\<close> at the transactions that add to them.
\<close>

section \<open>Histories\<close>

text \<open>
  C10. The history of an observation is linear, for ever: in every reachable state the revisions of each
  observation form one chain, each naming the one before it as its parent and the first none;
  revisions have different identifiers; and the head of a stored observation is the last revision of
  its chain, which agrees with the row in lifecycle and in everything but access count and tombstone.
\<close>

theorem audit_history_linear:
  assumes "audit_reach D p db" "inj (new_id D)"
  shows "(\<forall>i. chained None (hist i (ad_revisions db))) \<and> distinct (map vr_revision (ad_revisions db)) \<and>
    (\<forall>r\<in>set (gd_observations db). or_current_revision r = head_of None (hist (row_id r) (ad_revisions db)) \<and>
       (hist (row_id r) (ad_revisions db) = [] \<or> describes (last (hist (row_id r) (ad_revisions db))) r))"
  using audit_reach_inv [OF assms] by (simp add: audit_inv_def history_ok_def row_ok_def)

section \<open>Decisions\<close>

text \<open>
  C11. Nobody applies a change they proposed: an applied proposal has an approval event by another actor.
  And decisions are final: from then on, whatever happens, the changeset stays exactly as it is, and
  no changeset ever changes its identifier, space, key, request hash, mode or actor.
\<close>

theorem applied_proposals_reviewed:
  assumes "audit_reach D p db" "inj (new_id D)" "(audit_step D p)\<^sup>*\<^sup>* db db'" "c \<in> set (ad_changesets db)"
  shows "(ct_mode c = Propose \<and> ct_state c = Applied \<longrightarrow> reviewed (ad_events db) c) \<and>
    (ct_state c \<noteq> Proposed \<longrightarrow> c \<in> set (ad_changesets db')) \<and>
    (\<exists>c'\<in>set (ad_changesets db'). identity_of c' = identity_of c)"
proof -
  have inv: "audit_inv D db" by (rule audit_reach_inv [OF assms(1,2)])
  then have "changeset_ok (ad_semantic db) (ad_events db) c" using assms(4) by (simp add: audit_inv_def sets_ok_def)
  moreover have "lasting db db'" using audit_steps_lasting [OF assms(3) inv assms(2)] by blast
  ultimately show ?thesis using assms(4) unfolding changeset_ok_def lasting_def by metis
qed

text \<open>
  C12. Generations are changesets: in every reachable state each generation from 1 to the semantic one is
  the commit of exactly one changeset, which is applied; the indexed generation is not past it; and
  whatever is still to be indexed belongs to a later generation and is announced by the repair flag.
\<close>

theorem generations_are_changesets:
  assumes "audit_reach D p db" "inj (new_id D)"
  shows "(\<forall>g\<in>{1..ad_semantic db}. \<exists>!c. c \<in> set (ad_changesets db) \<and> ct_committed c = Some g) \<and>
    (\<forall>c\<in>set (ad_changesets db). (ct_committed c \<noteq> None \<longleftrightarrow> ct_state c = Applied) \<and>
       (\<forall>g. ct_committed c = Some g \<longrightarrow> g \<le> ad_semantic db)) \<and>
    ad_indexed db \<le> ad_semantic db \<and>
    (\<forall>x\<in>set (ad_outbox db). xo_applied_at x = None \<longrightarrow> ad_indexed db < xo_generation x \<and> ad_repair db)"
proof -
  have inv: "audit_inv D db" by (rule audit_reach_inv [OF assms])
  have d: "distinct (generations (ad_changesets db))" and s: "set (generations (ad_changesets db)) = {1..ad_semantic db}"
    using inv by (simp_all add: audit_inv_def sets_ok_def)
  have "\<exists>!c. c \<in> set (ad_changesets db) \<and> ct_committed c = Some g" if "g \<in> {1..ad_semantic db}" for g
    using generations_unique [OF d] s that by auto
  then show ?thesis using inv by (auto simp: audit_inv_def sets_ok_def changeset_ok_def outbox_ok_def)
qed

section \<open>Idempotency\<close>

text \<open>
  C15. Submitting is idempotent: once a changeset is stored, submitting the same draft again, at any later
  time and after any transactions, changes nothing and returns the receipt of that changeset; another
  request under the same key is refused.
\<close>

theorem submit_replays:
  assumes "audit_reach D p db" "inj (new_id D)" "counters_fit db"
    and "submit_tx D p now d mode db = Inr (Stored cs, db1)" and "(audit_step D p)\<^sup>*\<^sup>* db1 db2"
  shows "(\<exists>r. submit_tx D p now' d mode db2 = Inr (Replayed r, db2) \<and> rp_id r = cs) \<and>
    (dr_space d' = dr_space d \<and> dr_idempotency_key d' = dr_idempotency_key d \<and>
       canonical_request_hash D d' mode' \<noteq> canonical_request_hash D d mode \<longrightarrow>
     (\<exists>e. submit_tx D p now' d' mode' db2 = Inl e))"
proof -
  let ?h = "canonical_request_hash D d mode"
  let ?c = "change_set_row cs ?h d mode (ad_semantic db) now"
  have inv: "audit_inv D db" by (rule audit_reach_inv [OF assms(1,2)])
  have inv1: "audit_inv D db1" using submit_inv [OF assms(4) inv assms(2,3)] .
  have l: "lasting db1 db2" "audit_inv D db2" using audit_steps_lasting [OF assms(5) inv1 assms(2)] by blast+
  have v: "validate_draft D d = Inr ()" "ensure_bound_space D (dr_space d) db = Inr ()"
      "mode = Propose \<longrightarrow> \<not> list_ex is_destroy (dr_operations d)" "?c \<in> set (ad_changesets db1)"
    using stored_submission [OF assms(4) inv assms(2,3)] by blast+
  obtain c where c: "c \<in> set (ad_changesets db2)" "identity_of c = identity_of ?c"
    using l(1) v(4) unfolding lasting_def by blast
  have space: "ensure_bound_space D (dr_space d) db2 = Inr ()"
    using v(2) submit_lasting [OF assms(4) inv assms(2,3)] l(1)
    by (auto simp: ensure_bound_space_def lasting_def invalid_def split: option.splits if_splits)
  have "find (\<lambda>c. ct_space c = dr_space d \<and> ct_key c = dr_idempotency_key d) (ad_changesets db2) = Some c"
    using l(2) c by (intro find_unique) (auto simp: audit_inv_def sets_ok_def identity_of_def change_set_row_def
        distinct_map inj_on_def)
  then have load: "load_existing_receipt d' h db2 = (if ct_request_hash c \<noteq> h then Inl MemChangeSetIdempotencyConflict
      else Inr (Some (receipt_of db2 c)))" if "dr_space d' = dr_space d" "dr_idempotency_key d' = dr_idempotency_key d"
    for d' h using that by (simp add: load_existing_receipt_def)
  have h: "ct_request_hash c = ?h" "ct_id c = cs" using c(2) by (simp_all add: identity_of_def change_set_row_def)
  have "submit_tx D p now' d mode db2 = Inr (Replayed (receipt_of db2 c), db2)"
    using v space load [of d ?h] h by (auto simp: submit_tx_def Let_def)
  moreover have "rp_id (receipt_of db2 c) = cs" using h by (simp add: receipt_of_def)
  moreover have "\<exists>e. submit_tx D p now' d' mode' db2 = Inl e"
    if "dr_space d' = dr_space d" "dr_idempotency_key d' = dr_idempotency_key d"
      "canonical_request_hash D d' mode' \<noteq> ?h"
    using load [OF that(1,2)] h that(3)
    by (cases "validate_draft D d'"; cases "ensure_bound_space D (dr_space d') db2")
      (auto simp: submit_tx_def Let_def invalid_def)
  ultimately show ?thesis by blast
qed

text \<open>
  C34. What a request hash covers: two valid drafts whose hashed bytes are equal have the same mode, space,
  actor, authority, reason and source and the same operations, up to the order of concepts and source
  files and the access count of an updated observation, which an update does not write.
\<close>

theorem request_bytes_bind:
  assumes "deps_ok D" "validate_draft E d = Inr ()" "draft_typed d" "validate_draft E d' = Inr ()" "draft_typed d'"
    and "request_bytes D d mode = request_bytes D d' mode'"
  shows "mode = mode' \<and> dr_space d = dr_space d' \<and> dr_actor_kind d = dr_actor_kind d' \<and>
    dr_actor_id d = dr_actor_id d' \<and> dr_authority d = dr_authority d' \<and> dr_reason d = dr_reason d' \<and>
    dr_source d = dr_source d' \<and>
    map canonical_operation (dr_operations d) = map canonical_operation (dr_operations d')"
  by (rule request_frames [OF assms])

section \<open>Destruction\<close>

text \<open>The transactions in which rows disappear.\<close>

lemma removing_step:
  assumes "audit_step D p db db'" "audit_inv D db" "inj (new_id D)" "i \<in> row_ids db" "i \<notin> row_ids db'"
  shows "(\<exists>now d mode r. counters_fit db \<and> submit_tx D p now d mode db = Inr (r, db')) \<or>
    (\<exists>now j expected review. counters_fit db \<and> approve_tx D p now j expected review db = Inr db') \<or>
    (\<exists>now ttl stale report. prune_tx now ttl db = (stale, report, db')) \<or>
    (\<exists>r\<in>set (gd_observations db). row_id r = i \<and> db' = delete_entity (mo_entity_id (or_observation r)) db)"
  using assms(1)
proof cases
  case (submitted now d mode r)
  then show ?thesis by blast
next
  case (approved now i expected review)
  then show ?thesis by blast
next
  case (rejected now i expected review reason)
  then show ?thesis using reject_rows [OF rejected] assms(4,5) by simp
next
  case (compacted now retention limit n)
  then show ?thesis using assms(4,5) by (auto simp: compact_rejected_def Let_def row_ids_def)
next
  case (remembered q space_text now source rs gs g)
  then show ?thesis using remember_keeps [OF remembered(1) assms(2,3)] assms(4,5) by (auto simp: keeps_def)
next
  case (previewed now i review ttl pv)
  then have "row_ids db' = row_ids db"
    by (auto simp: preview_destruction_def invalid_def bind_result_Inr fresh_id_def Let_def row_ids_def
        split: option.splits if_splits)
  then show ?thesis using assms(4,5) by simp
next
  case (bound_space space_text space)
  then show ?thesis using assms(4,5)
    by (auto simp: compatibility_space_id_def fresh_id_def Let_def row_ids_def split: option.splits)
next
  case (backfilled now limit report)
  then show ?thesis using backfill_keeps [OF backfilled] assms(4,5) by auto
next
  case (marked now ids n)
  then show ?thesis using assms(4,5) by (auto simp: mark_index_rows_applied_def Let_def row_ids_def)
next
  case (index_failed i e)
  then show ?thesis using assms(4,5) by (auto simp: record_index_failure_def row_ids_def)
next
  case (accessed f)
  have "keeps db db'" unfolding accessed add_access_def update_rows_def
    using keeps_rows [OF keeps_refl, of "\<lambda>r. r\<lparr>or_observation := (or_observation r)
      \<lparr>mo_access_count := mo_access_count (or_observation r) + f (row_id r)\<rparr>\<rparr>" db "\<lambda>_. True"]
    by (simp add: update_rows_def row_id_def)
  then show ?thesis using assms(4,5) by (auto simp: keeps_def)
next
  case (entity_forgotten e)
  then obtain r where "r \<in> set (gd_observations db)" "row_id r = i" "mo_entity_id (or_observation r) = e"
    using assms(4,5) by (auto simp: row_ids_def delete_entity_def)
  then show ?thesis using entity_forgotten by blast
next
  case (pruned now ttl stale report)
  then show ?thesis by blast
next
  case (named n)
  then show ?thesis using assms(4,5) by (simp add: row_ids_def)
qed

text \<open>A tombstone older than the limit, in numbers: it ended, or else was observed, \<open>ttl\<close> seconds before \<open>now\<close>. A limit
  below zero counts as zero.\<close>

definition expired_tombstone :: "i64 \<Rightarrow> i64 \<Rightarrow> observation_row \<Rightarrow> bool" where
  "expired_tombstone now ttl r \<longleftrightarrow> mo_tombstoned (or_observation r) \<and>
     sint (case mo_valid_until (or_observation r) of Some t \<Rightarrow> t | None \<Rightarrow> mo_observed_at (or_observation r)) +
       max 0 (sint ttl) \<le> sint now"

lemma prune_cutoff_exact:
  assumes "0 \<le> sint now"
  shows "sint (prune_cutoff now ttl) = sint now - max 0 (sint ttl)"
proof (cases "sint ttl < 0")
  case False
  have "sint now < 2 ^ 63" "sint ttl < 2 ^ 63" using sint_lt [of now] sint_lt [of ttl] by simp_all
  then have "signed_take_bit 63 (sint now - sint ttl) = sint now - sint ttl"
    using assms False by (intro signed_take_bit_int_eq_self) simp_all
  then show ?thesis using False by (simp add: prune_cutoff_def sint_word_ariths)
qed (simp add: prune_cutoff_def)

lemma pruned_expired:
  assumes "prune_tx now ttl db = (stale, report, db')" "0 \<le> sint now" "i \<in> row_ids db" "i \<notin> row_ids db'"
  shows "\<exists>r\<in>set (gd_observations db). row_id r = i \<and> expired_tombstone now ttl r"
proof -
  have "i \<in> set stale" using prune_observations(1) [OF assms(1)] assms(3,4) by (auto simp: row_ids_def)
  then obtain r where "r \<in> set (gd_observations db)" "row_id r = i" "stale_tombstone (prune_cutoff now ttl) r"
    using prune_observations(2) [OF assms(1)] by auto
  then show ?thesis using prune_cutoff_exact [OF assms(2), of ttl]
    by (auto simp: stale_tombstone_def expired_tombstone_def Let_def intro!: bexI [of _ r])
qed

text \<open>
  C13. Nothing is lost silently. An observation disappears only in a submission, an approval or a pruning, or
  with its entity. Whenever it is a submission or an approval at a time \<open>now\<close>, an applied changeset
  destroyed it, with a confirmation that was unused, unexpired at \<open>now\<close> and made for this observation,
  space, actor and authority, that is used from now on, and with a receipt. Whenever it is a pruning at
  a time \<open>now\<close> (not before 1970) with a limit \<open>ttl\<close>, it was a tombstone at least \<open>ttl\<close> seconds old.
\<close>

theorem nothing_lost_silently:
  assumes "audit_reach D p db" "inj (new_id D)" "audit_step D p db db'" "i \<in> row_ids db" "i \<notin> row_ids db'"
  shows "((\<exists>now d mode r. counters_fit db \<and> submit_tx D p now d mode db = Inr (r, db')) \<or>
      (\<exists>now j expected review. counters_fit db \<and> approve_tx D p now j expected review db = Inr db') \<or>
      (\<exists>now ttl stale report. prune_tx now ttl db = (stale, report, db')) \<or>
      (\<exists>r\<in>set (gd_observations db). row_id r = i \<and> db' = delete_entity (mo_entity_id (or_observation r)) db)) \<and>
    (\<forall>now d mode r. counters_fit db \<and> submit_tx D p now d mode db = Inr (r, db') \<longrightarrow>
       destroyed_with_consent now i db db') \<and>
    (\<forall>now j expected review. counters_fit db \<and> approve_tx D p now j expected review db = Inr db' \<longrightarrow>
       destroyed_with_consent now i db db') \<and>
    (\<forall>now ttl stale report. prune_tx now ttl db = (stale, report, db') \<and> 0 \<le> sint now \<longrightarrow>
       (\<exists>r\<in>set (gd_observations db). row_id r = i \<and> expired_tombstone now ttl r))"
proof (intro conjI)
  have inv: "audit_inv D db" by (rule audit_reach_inv [OF assms(1,2)])
  show "\<forall>now d mode r. counters_fit db \<and> submit_tx D p now d mode db = Inr (r, db') \<longrightarrow> destroyed_with_consent now i db db'"
    using submit_consent [OF _ inv assms(2) _ assms(4,5)] by blast
  show "\<forall>now j expected review. counters_fit db \<and> approve_tx D p now j expected review db = Inr db' \<longrightarrow>
      destroyed_with_consent now i db db'"
    using approve_consent [OF _ inv assms(2) _ assms(4,5)] by blast
  show "\<forall>now ttl stale report. prune_tx now ttl db = (stale, report, db') \<and> 0 \<le> sint now \<longrightarrow>
      (\<exists>r\<in>set (gd_observations db). row_id r = i \<and> expired_tombstone now ttl r)"
    using pruned_expired [OF _ _ assms(4,5)] by blast
  show "(\<exists>now d mode r. counters_fit db \<and> submit_tx D p now d mode db = Inr (r, db')) \<or>
      (\<exists>now j expected review. counters_fit db \<and> approve_tx D p now j expected review db = Inr db') \<or>
      (\<exists>now ttl stale report. prune_tx now ttl db = (stale, report, db')) \<or>
      (\<exists>r\<in>set (gd_observations db). row_id r = i \<and> db' = delete_entity (mo_entity_id (or_observation r)) db)"
    using removing_step [OF assms(3) inv assms(2,4,5)] by blast
qed

section \<open>Approvals\<close>

lemma found_moved:
  assumes "move_proposal i expected state g now db = Inr db'" "find_change_set i db = Some c"
    "distinct (map ct_id (ad_changesets db))"
  shows "find_change_set i db' = Some (moved state g now c)"
proof -
  obtain xs ys where xy: "ad_changesets db = xs @ c # ys"
    and db': "db' = db\<lparr>ad_changesets := xs @ moved state g now c # ys\<rparr>"
    by (rule move_proposal_Inr [OF assms(1,3,2)])
  have i: "ct_id c = i" using find_change_set_Some [OF assms(2)] by simp
  have "i \<notin> ct_id ` set xs" using assms(3) i by (auto simp: xy)
  then have "\<forall>e\<in>set xs. ct_id e \<noteq> i" by blast
  then have "find (\<lambda>e. ct_id e = i) xs = None" by (simp add: find_None_iff)
  then show ?thesis using i by (simp add: find_change_set_def db' find_append)
qed

lemma identity_moved [simp]: "identity_of (moved s g now c) = identity_of c"
  by (simp add: identity_of_def moved_def)

text \<open>A proposal nobody has decided can be decided: the conditional update hits exactly its row, and the event of
  the decision gets an ordinal of its own.\<close>

lemma next_ordinal_above: "e \<in> set es \<Longrightarrow> ev_changeset e = cs \<Longrightarrow> ev_ordinal e < next_ordinal cs es"
proof -
  have "n \<le> fold (\<lambda>e n. if ev_changeset e = cs then max n (Suc (ev_ordinal e)) else n) es n \<and>
      (\<forall>e\<in>set es. ev_changeset e = cs \<longrightarrow>
        ev_ordinal e < fold (\<lambda>e n. if ev_changeset e = cs then max n (Suc (ev_ordinal e)) else n) es n)" for n
  proof (induction es arbitrary: n)
    case (Cons x es)
    show ?case
    proof (cases "ev_changeset x = cs")
      case True
      then show ?thesis using Cons.IH [of "max n (Suc (ev_ordinal x))"] by auto
    next
      case False
      then show ?thesis using Cons.IH [of n] by simp
    qed
  qed simp
  then show "e \<in> set es \<Longrightarrow> ev_changeset e = cs \<Longrightarrow> ev_ordinal e < next_ordinal cs es"
    unfolding next_ordinal_def by blast
qed

lemma review_event_ok: "\<exists>db'. insert_review_event cs kind review reason db = Inr db'"
proof -
  have "\<not> list_ex (\<lambda>f. ev_changeset f = cs \<and> ev_ordinal f = next_ordinal cs (ad_events db)) (ad_events db)"
    using next_ordinal_above by (fastforce simp: list_ex_iff)
  then show ?thesis by (simp add: insert_review_event_def insert_event_def)
qed

lemma move_proposal_ok:
  assumes "distinct (map ct_id (ad_changesets db))" "find_change_set i db = Some c" "ct_state c = Proposed"
    "ct_version c = unat expected" "ct_version c < 2 ^ 63"
  shows "\<exists>db'. move_proposal i expected state g now db = Inr db'"
proof -
  let ?hit = "\<lambda>e. ct_id e = i \<and> ct_state e = Proposed \<and> ct_version e = to_i64 (unat expected)"
  have i: "c \<in> set (ad_changesets db)" "ct_id c = i" using find_change_set_Some [OF assms(2)] by simp_all
  obtain xs ys where xy: "ad_changesets db = xs @ c # ys" using split_list [OF i(1)] by blast
  have "to_i64 (unat expected) = unat expected" using assms(4,5) by (simp add: to_i64_def)
  then have "?hit c" using i assms(3,4) by simp
  moreover have "\<forall>e\<in>set xs \<union> set ys. ct_id e \<noteq> i" using assms(1) i(2) by (auto simp: xy) (metis imageI)+
  ultimately have "filter ?hit (ad_changesets db) = [c]" by (auto simp: xy filter_empty_conv)
  then show ?thesis by (simp add: move_proposal_def Let_def)
qed

lemma operations_done_same: "operations_done cs g xs db db1 \<Longrightarrow> gd_observations db' = gd_observations db1 \<Longrightarrow>
    ad_revisions db' = ad_revisions db1 \<Longrightarrow> ad_outbox db' = ad_outbox db1 \<Longrightarrow> operations_done cs g xs db db'"
  by (induction xs arbitrary: db) auto

lemma current_heads: "audit_inv D db \<Longrightarrow> list_all (operation_precondition_holds db) ops \<longleftrightarrow> list_all (head_current db) ops"
  using precondition_current by (fastforce simp: audit_inv_def history_ok_def list_all_iff)

text \<open>The outcome of an approval in \<open>db'\<close> of the proposal \<open>c\<close> with the operations \<open>ops\<close>.\<close>

definition approval_outcome :: "change_set \<Rightarrow> change_operation list \<Rightarrow> audit_db \<Rightarrow> audit_db \<Rightarrow> bool" where
  "approval_outcome c ops db db' \<longleftrightarrow> (\<exists>c'. find_change_set (ct_id c) db' = Some c' \<and>
     identity_of c' = identity_of c \<and> ct_version c' = ct_version c + 1 \<and>
     (if list_all (head_current db) ops
      then ct_state c' = Applied \<and> ct_committed c' = Some (ad_semantic db + 1) \<and>
        ad_semantic db' = ad_semantic db + 1 \<and> operations_done (ct_id c) (ad_semantic db + 1) ops db db'
      else ct_state c' = Conflicted \<and> ct_committed c' = None \<and> graph_db.truncate db' = graph_db.truncate db \<and>
        ad_revisions db' = ad_revisions db \<and> ad_outbox db' = ad_outbox db \<and> ad_semantic db' = ad_semantic db))"

lemma conflicted_outcome:
  assumes inv: "audit_inv D db" and c: "find_change_set i db = Some c" "ct_committed c = None"
    and "\<not> list_all (operation_precondition_holds db) ops" "move_proposal i expected Conflicted None now db = Inr db1"
    and "insert_review_event i kind review reason db1 = Inr db'"
  shows "approval_outcome c ops db db'"
proof -
  have "find_change_set i db1 = Some (moved Conflicted None now c)"
    using found_moved [OF assms(5) c(1) inv_distinct [OF inv]] .
  moreover obtain e where "db' = db1\<lparr>ad_events := ad_events db1 @ [e]\<rparr>"
    using review_event_Inr [OF assms(6)] by blast
  moreover obtain cs where "db1 = db\<lparr>ad_changesets := cs\<rparr>"
    using assms(5) by (auto simp: move_proposal_def Let_def split: if_splits)
  moreover have "ct_id c = i" using find_change_set_Some [OF c(1)] by simp
  ultimately show ?thesis
    using assms(4) c(2) unfolding current_heads [OF inv] approval_outcome_def
    by (intro exI [of _ "moved Conflicted None now c"]) (auto simp: find_change_set_def graph_db.truncate_def)
qed

lemma applied_outcome:
  assumes inv: "audit_inv D db" and inj: "inj (new_id D)" and fit: "counters_fit db" and c: "find_change_set i db = Some c"
    and "list_all (operation_precondition_holds db) ops" and len: "length ops \<le> 256"
    and a: "apply_operations D p i (ad_semantic db + 1) now 0 ops db = Inr db1"
    and m: "move_proposal i expected Applied (Some (to_i64 (ad_semantic db + 1))) now db1 = Inr db2"
    and e: "insert_review_event i kind review reason db2 = Inr db3"
  shows "approval_outcome c ops db (publish_generation (ad_semantic db + 1) db3)" (is "approval_outcome _ _ _ ?db'")
proof -
  have h: "history_ok D db" and v: "versions_below (2 ^ 63 - 256) db"
    using inv fit by (simp_all add: audit_inv_def counters_fit_def)
  have i64: "to_i64 (Suc (ad_semantic db)) = Suc (ad_semantic db)" using fit by (simp add: counters_fit_def to_i64_def)
  have "ad_changesets db1 = ad_changesets db" using applied_facts(3) [OF a inj h v len] by (simp add: op_frame_def)
  then have "find_change_set i db2 = Some (moved Applied (Some (to_i64 (ad_semantic db + 1))) now c)"
    using c inv_distinct [OF inv] by (intro found_moved [OF m]) (simp_all add: find_change_set_def)
  then have "find_change_set i ?db' = Some (moved Applied (Some (to_i64 (ad_semantic db + 1))) now c)"
    using review_event_Inr [OF e] by (auto simp: publish_generation_def find_change_set_def)
  moreover have "operations_done i (Suc (ad_semantic db)) ops db db1"
    using apply_operations_done [OF a inj h v] len i64 by simp
  then have "operations_done i (Suc (ad_semantic db)) ops db ?db'"
    by (rule operations_done_same)
      (use m e in \<open>auto simp: publish_generation_def move_proposal_def Let_def dest!: review_event_Inr split: if_splits\<close>)
  moreover have "ct_id c = i" using find_change_set_Some [OF c] by simp
  ultimately show ?thesis
    using assms(5) i64 unfolding current_heads [OF inv] approval_outcome_def by (simp add: publish_generation_def)
qed

text \<open>
  C14. Approving decides a proposal, one way or the other. Let somebody other than its author approve an
  undecided, untampered proposal of the bound space at its version. When every head its operations expect
  is still there, an approval that succeeds has carried out every operation, one after the other (each
  changed observation has the new head, revision and outbox row its operation asks for, a remembered one its
  first revision and outbox row, and every other observation is as it was; the entities and relations a
  group brings along are not spoken of), and the proposal is applied as the next generation. When one head has moved, the
  approval succeeds and only marks the proposal as conflicted: observations, entities, relations,
  revisions, outbox and generation stay as they were.
\<close>

theorem approval_applies_or_conflicts:
  assumes "audit_reach D p db" "inj (new_id D)" "counters_fit db"
    and "find_change_set i db = Some c" "ct_state c = Proposed" "ct_version c = unat expected"
    and "gd_space db = Some (ct_space c)" "ct_actor_id c \<noteq> ra_actor_id review" "is_changeset_id D i"
    and "parse_operations D (proposal_rows i db) = Inr ops" "verify_proposal_hash D i ops db = Inr ()"
  shows "(\<forall>db'. approve_tx D p now i expected review db = Inr db' \<longrightarrow> approval_outcome c ops db db') \<and>
    (list_all (head_current db) ops \<or> (\<exists>db'. approve_tx D p now i expected review db = Inr db'))"
proof -
  have inv: "audit_inv D db" by (rule audit_reach_inv [OF assms(1,2)])
  have "changeset_ok (ad_semantic db) (ad_events db) c"
    using inv find_change_set_Some [OF assms(4)] by (simp add: audit_inv_def sets_ok_def)
  then have c: "ct_committed c = None" "ct_version c < 2 ^ 63" using assms(5) by (auto simp: changeset_ok_def)
  have "approval_outcome c ops db db'" if a: "approve_tx D p now i expected review db = Inr db'" for db'
    using a
  proof (cases rule: approve_cases)
    case (conflicted e db1 xs)
    then show ?thesis using conflicted_outcome [OF inv assms(4) c(1)] assms(10) by simp
  next
    case (applied e db1 db2 db3 xs)
    then show ?thesis using applied_outcome [OF inv assms(2-4)] verified_length assms(10) by (metis sum.inject(2))
  qed (use assms(4,5) in simp)
  moreover obtain db1 where "move_proposal i expected Conflicted None now db = Inr db1"
    using move_proposal_ok [OF inv_distinct [OF inv] assms(4-6) c(2)] by blast
  moreover obtain db' where "insert_review_event i ''conflicted'' review ''proposal head precondition is stale'' db1 = Inr db'"
    using review_event_ok by blast
  ultimately show ?thesis unfolding current_heads [OF inv, symmetric] using assms(4-11)
    by (simp add: approve_tx_def proposal_header_def ensure_bound_space_def ensure_distinct_reviewer_def)
qed

section \<open>The search index\<close>

text \<open>
  C16. A repair makes the index say what the store says. A repair that nothing refuses reads the oldest 1024
  rows of the outbox and their observations in a reachable store, and publishes them later, in whatever
  state of the store and the index it then finds. An observation none of the rows is about keeps its
  entry. For the others the last of the rows decides: a deletion leaves no entry, anything else the entry
  of the observation as it was read, or none if it was not live. When this row is the newest the outbox
  has of the observation, the index holds exactly what the store held at the reading: the entry of the
  observation if it is live, and otherwise none. The rows read, and no others, are no longer pending, so
  that what was committed since is left to the next repair.
\<close>

theorem repair_index_exact:
  assumes "audit_reach D p db" "inj (new_id D)" "keys_ok db"
    and "repair_read db = Inr items" "repair_publish now (\<lambda>_. None) None items st = (result, st')"
  shows "gs_index st' i = (case filter (\<lambda>x. xo_logical_id x = i) (pending_rows db) of [] \<Rightarrow> gs_index st i
       | x # xs \<Rightarrow> if xo_delete (last (x # xs)) then None
           else map_option (\<lambda>r. entry_of (name_of db r) r) (live_row db i)) \<and>
    (\<forall>x\<in>set (pending_rows db). newest x db \<and> xo_logical_id x = i \<longrightarrow>
       gs_index st' i = map_option (\<lambda>r. entry_of (name_of db r) r) (live_row db i)) \<and>
    length (pending_rows db) = min 1024 (length (pending db)) \<and>
    pending (gs_db st') = filter (\<lambda>x. xo_id x \<notin> xo_id ` set (pending_rows db)) (pending (gs_db st)) \<and>
    gd_observations (gs_db st') = gd_observations (gs_db st)"
proof -
  let ?P = "\<lambda>x. xo_logical_id x = i"
  have items: "items = map (item_of db) (pending_rows db)"
    using assms(4) read_items_ok [OF assms(3)] by (simp add: repair_read_def)
  obtain r db' where ix: "gs_index st' = fold apply_item items (gs_index st)" and st': "gs_db st' = db'"
    and "mark_index_rows_applied now (map xi_id items) (gs_db st) = (r, db')"
    by (rule published [OF assms(5)])
  moreover have "map xi_id items = map xo_id (pending_rows db)" by (simp add: items item_of_row comp_def)
  ultimately have m: "mark_index_rows_applied now (map xo_id (pending_rows db)) (gs_db st) = (r, db')" by simp
  have "filter (\<lambda>x. xi_logical_id x = i) items = map (item_of db) (filter ?P (pending_rows db))"
    by (simp add: items filter_map comp_def item_of_row)
  then have at: "gs_index st' i = (case map (item_of db) (filter ?P (pending_rows db)) of
      [] \<Rightarrow> gs_index st i | y # ys \<Rightarrow> item_entry (last (y # ys)))"
    by (simp add: ix fold_apply_item)
  have entry: "gs_index st' i = item_entry (item_of db (last (filter ?P (pending_rows db))))"
    if "filter ?P (pending_rows db) \<noteq> []"
    using at that by (cases "filter ?P (pending_rows db)") (auto simp: last_map)
  have "gs_index st' i = (case filter ?P (pending_rows db) of [] \<Rightarrow> gs_index st i
       | x # xs \<Rightarrow> if xo_delete (last (x # xs)) then None else map_option (\<lambda>r. entry_of (name_of db r) r) (live_row db i))"
  proof (cases "filter ?P (pending_rows db)")
    case (Cons x xs)
    have "last (x # xs) \<in> set (filter ?P (pending_rows db))" unfolding Cons by (rule last_in_set) simp
    then have "xo_logical_id (last (x # xs)) = i" by simp
    then show ?thesis using entry unfolding Cons by (simp only: list.case item_entry_of list.distinct simp_thms)
  qed (simp add: at)
  moreover have "gs_index st' i = map_option (\<lambda>r. entry_of (name_of db r) r) (live_row db i)"
    if x: "x \<in> set (pending_rows db)" "newest x db" "xo_logical_id x = i" for x
  proof -
    have "filter ?P (pending_rows db) \<noteq> []" using x(1,3) by (metis (mono_tags) empty_filter_conv)
    then show ?thesis using entry newest_read [OF audit_reach_truth [OF assms(1,2)] x(2,1)] x(3) by simp
  qed
  moreover have "pending (gs_db st') = filter (\<lambda>x. xo_id x \<notin> xo_id ` set (pending_rows db)) (pending (gs_db st))"
    "gd_observations (gs_db st') = gd_observations (gs_db st)"
    using mark_fields(1,3) [OF m] unfolding st' by (simp_all add: pending_def conj_commute)
  ultimately show ?thesis using pending_rows_length by blast
qed

text \<open>
  C17. Repairing terminates: at 1024 rows a time, enough repairs that nothing refuses empty the outbox,
  whatever its length; the index has then caught up with the semantic generation and the repair flag is
  down, so that \<open>recall\<close> answers again.
\<close>

theorem repair_drains:
  assumes "keys_ok (gs_db st)" "length (pending (gs_db st)) \<le> 1024 * length clock" "clock \<noteq> []"
  shows "pending (gs_db (fold repaired clock st)) = [] \<and>
    ad_indexed (gs_db (fold repaired clock st)) = ad_semantic (gs_db st) \<and> \<not> ad_repair (gs_db (fold repaired clock st))"
  using assms
proof (induction clock arbitrary: st)
  case (Cons t ts)
  note r = repaired_pending [OF Cons.prems(1), of t]
  show ?case
  proof (cases "ts = []")
    case True
    then have "pending (gs_db (repaired t st)) = []" using r(1) Cons.prems(2) by simp
    then show ?thesis using True r(4) by simp
  next
    case False
    then show ?thesis using Cons.IH [of "repaired t st"] Cons.prems r by simp
  qed
qed simp

section \<open>Consolidation\<close>

text \<open>
  The duplicate pass, two loops over positions with marks, computes a recursion without either: the
  newest observation swallows all that are near it, with their accesses, and the others follow.
\<close>

theorem dedup_agrees: "dedup_within_entity near obs = dedup_ref near obs"
  by (rule dedup_within_entity_eq)

text \<open>
  C35. The duplicate pass converges: every observation it merges away is near the survivor of its group,
  and when those are gone another pass finds nothing.
\<close>

theorem dedup_converges:
  assumes "distinct (map fst obs)"
  shows "dedup_within_entity near (filter (\<lambda>y. fst y \<notin> merged_away (dedup_within_entity near obs)) obs) = [] \<and>
    (\<forall>(s, losers, n)\<in>set (dedup_within_entity near obs).
       \<exists>x\<in>set obs. fst x = s \<and> (\<forall>l\<in>set losers. \<exists>y\<in>set obs. fst y = l \<and> near_row near x y))"
proof -
  have "dedup_ref near (survivors near obs) = []" by (rule far_nothing [OF survivors_far])
  moreover have "\<exists>x\<in>set obs. fst x = s \<and> (\<forall>l\<in>set losers. \<exists>y\<in>set obs. fst y = l \<and> near_row near x y)"
    if "(s, losers, n) \<in> set (dedup_ref near obs)" for s losers n
    using dedup_ref_near [OF that] by simp
  ultimately show ?thesis unfolding dedup_within_entity_eq remaining_survivors [OF assms] by blast
qed

text \<open>
  C36. What is too much for one changeset is not done at all: when more than 256 active observations are to
  be retired together, as \<open>consolidate\<close> and \<open>retire_entity_observations\<close> do, the retirement fails and
  every observation, revision, changeset and outbox row stays as it was.
\<close>

theorem oversized_retirement_refused:
  assumes "length (maintenance_operations ids db) > 256"
  shows "case retire_for_maintenance D p space_text now ids reason db of (result, db') \<Rightarrow>
    (\<exists>e. result = Inl e) \<and> gd_observations db' = gd_observations db \<and> graph_db.more db' = graph_db.more db"
proof -
  have "maintenance_operations ids db \<noteq> []" using assms by auto
  moreover have "\<exists>e. change_set_draft_new D key space kind actor authority reason source
      (maintenance_operations ids db) = Inl e" for key space kind actor authority source
    using assms by (simp add: change_set_draft_new_def validate_draft_def invalid_def MAX_OPERATION_COUNT_def Let_def)
  then obtain e where "change_set_draft_new D (''maintenance-retire:'' @ new_id D (gd_ids db))
      (fst (compatibility_space_id D space_text (db\<lparr>gd_ids := Suc (gd_ids db)\<rparr>))) System ''maintenance''
      (legacy_authority D) reason ''maintenance'' (maintenance_operations ids db) = Inl e" by blast
  ultimately show ?thesis
    by (cases "gd_space db")
      (simp_all add: retire_for_maintenance_def fresh_id_def compatibility_space_id_def Let_def)
qed

end
