(* ===== verification/Om_AuditExamples.thy ===== *)
theory Om_AuditExamples
  imports Om_AuditProps Om_Examples
begin

text \<open>
  Concrete runs of the audited store, at which the properties of \<open>Om_AuditProps\<close> are applied: a store with
  one legacy observation, whose retirement is proposed and approved, and one whose observation is
  destroyed after a preview.
\<close>

section \<open>Third-party functions and a store\<close>

definition e_ops :: "change_operation list \<Rightarrow> graph_deps" where
  "e_ops ops = \<lparr>blake3 = blake3 example_deps, hyphenated = hyphenated example_deps, to_lowercase = (\<lambda>s. s),
     ops_json_len = length, op_json = (\<lambda>x. ''op''), op_of_json = (\<lambda>s. Some (hd ops)),
     new_id = (\<lambda>n. replicate n CHR ''x''), is_changeset_id = (\<lambda>s. True),
     jaro_winkler = (\<lambda>a b. 0), normalized_levenshtein = (\<lambda>a b. 0), alnum_only = (\<lambda>s. s)\<rparr>"

definition e_deps :: graph_deps where
  "e_deps = e_ops [OpRetire ''o1'' 1]"

definition e_params :: normalization_params where
  "e_params = \<lparr>np_enabled = False, np_auto_merge = 1, np_flag = 1, np_max_candidates = 0\<rparr>"

lemma e_inj: "inj (new_id e_deps)"
proof (rule injI)
  fix m n assume "new_id e_deps m = new_id e_deps n"
  then have "length (replicate m CHR ''x'') = length (replicate n CHR ''x'')" by (simp add: e_deps_def e_ops_def)
  then show "m = n" by simp
qed

definition e_observation :: memory_observation where
  "e_observation = \<lparr>mo_id = ''o1'', mo_entity_id = ''e1'', mo_content = ''text'', mo_observed_at = 1,
     mo_valid_from = None, mo_valid_until = None, mo_confidence = 0, mo_source = ''s'', mo_tombstoned = False,
     mo_access_count = 0, mo_memory_tier = Semantic, mo_title = None, mo_summary = None, mo_importance = None,
     mo_source_kind = None, mo_concepts = [], mo_source_files = []\<rparr>"

definition e_start :: audit_db where
  "e_start = \<lparr>gd_space = Some 7, gd_entities = [\<lparr>en_id = ''e1'', en_name = ''ada'', en_type = Concept,
       en_created_at = 1, en_updated_at = 1, en_confidence = 0, en_source = ''s''\<rparr>],
     gd_observations = [\<lparr>or_observation = e_observation, or_current_revision = None, or_row_version = 1,
       or_lifecycle = LcActive\<rparr>], gd_relations = [], gd_ids = 0,
     ad_changesets = [], ad_requests = [], ad_events = [], ad_revisions = [], ad_outbox = [],
     ad_confirmations = [], ad_receipts = [], ad_semantic = 0, ad_indexed = 0, ad_repair = False,
     ad_cursor = None, ad_backfilled = False\<rparr>"

definition e_draft :: change_set_draft where
  "e_draft = \<lparr>dr_idempotency_key = ''k'', dr_space = 7, dr_actor_kind = Human, dr_actor_id = ''ann'',
     dr_authority = \<lparr>as_version = 1, as_digest = replicate 32 CHR 0x00\<rparr>, dr_reason = ''r'', dr_source = ''s'',
     dr_operations = [OpRetire ''o1'' 1]\<rparr>"

definition e_review :: review_authorization where
  "e_review = \<lparr>ra_actor_id = ''bob'', ra_role = Maintainer,
     ra_authority = \<lparr>as_version = 1, as_digest = replicate 32 CHR 0x00\<rparr>\<rparr>"

text \<open>The draft is valid, and stored.\<close>

lemmas e_defs = e_deps_def e_ops_def e_start_def e_observation_def e_draft_def e_review_def

lemma e_not_blank: "\<not> is_blank ''o1''"
  by (simp add: is_blank_def split_whitespace_def ws_head_def)

lemmas e_valid = validate_draft_def MAX_IDEMPOTENCY_BYTES_def bad_text_def Om_Changeset.MAX_TEXT_BYTES_def
  MAX_OPERATION_COUNT_def MAX_PAYLOAD_BYTES_def DEFAULT_MAX_PAYLOAD_BYTES_def check_id_def check_text_def
  invalid_def e_not_blank

lemma e_draft_valid: "validate_draft e_deps e_draft = Inr ()"
  by (simp add: e_valid e_defs)

definition e_hash :: "change_set_draft \<Rightarrow> submit_mode \<Rightarrow> str" where
  "e_hash d mode = canonical_request_hash e_deps d mode"

definition e_proposed :: audit_db where
  "e_proposed = e_start\<lparr>gd_ids := 1,
     ad_changesets := [change_set_row [] (e_hash e_draft Propose) e_draft Propose 0 5],
     ad_requests := [request_row e_deps [] (0, OpRetire ''o1'' 1)]\<rparr>"

lemmas e_writes = fresh_id_def insert_change_set_def insert_requests_def ensure_bound_space_def
  load_existing_receipt_def

lemma e_propose: "submit_tx e_deps e_params 5 e_draft Propose e_start = Inr (Stored [], e_proposed)"
  unfolding submit_tx_def e_draft_valid e_hash_def [symmetric]
  by (simp add: e_writes e_proposed_def change_set_row_def) (simp add: e_defs e_writes)


lemma e_authority: "authority_from_str (authority_display (dr_authority e_draft)) = Inr (dr_authority e_draft)"
  by (simp add: authority_text_roundtrip e_draft_def)

lemma e_verified: "verify_proposal_hash e_deps [] [OpRetire ''o1'' 1] e_proposed = Inr ()"
proof -
  have "\<lparr>dr_idempotency_key = dr_idempotency_key e_draft, dr_space = dr_space e_draft, dr_actor_kind = dr_actor_kind e_draft,
      dr_actor_id = dr_actor_id e_draft, dr_authority = dr_authority e_draft, dr_reason = dr_reason e_draft,
      dr_source = change_set_draft.dr_source e_draft, dr_operations = [OpRetire ''o1'' 1]\<rparr> = e_draft"
    by (simp add: e_draft_def)
  then show ?thesis
    by (simp add: verify_proposal_hash_def e_proposed_def change_set_row_def e_authority e_draft_valid e_hash_def)
qed

lemma e_rows: "proposal_rows [] e_proposed = [request_row e_deps [] (0, OpRetire ''o1'' 1)]"
  by (simp add: proposal_rows_def e_proposed_def request_row_def)

lemma e_parse: "parse_operations e_deps (proposal_rows [] e_proposed) = Inr [OpRetire ''o1'' 1]"
  by (simp add: e_rows request_row_def e_defs)

lemma e_found: "find_change_set [] e_proposed = Some (change_set_row [] (e_hash e_draft Propose) e_draft Propose 0 5)"
  by (simp add: find_change_set_def e_proposed_def change_set_row_def)

lemma e_space: "gd_space e_proposed = Some 7"
  by (simp add: e_proposed_def e_start_def)

lemma e_header: "proposal_header [] e_proposed = Inr (Proposed, 1, 7)"
  by (simp add: proposal_header_def e_found change_set_row_def e_draft_def)

lemma e_distinct: "ensure_distinct_reviewer [] e_review e_proposed = Inr ()"
  by (simp add: ensure_distinct_reviewer_def e_found change_set_row_def e_draft_def e_review_def)

lemma e_head: "head_is e_proposed ''o1'' (\<lambda>row. or_row_version row = Suc 0 \<and> or_lifecycle row = LcActive)"
  by (simp add: head_is_def load_observation_def find_row_def row_id_def e_proposed_def e_defs)

lemmas e_applying = apply_lifecycle_def load_required_def load_observation_def find_row_def row_id_def
  update_rows_def insert_revision_def fresh_id_def record_change_def insert_outbox_def insert_operation_event_def
  insert_event_def advance_head_def to_i64_def scoped_ordinal_def saturating_add_def

definition e_retired :: memory_observation where
  "e_retired = e_observation\<lparr>mo_tombstoned := True\<rparr>"

definition e_revision :: observation_revision where
  "e_revision = \<lparr>vr_revision = new_id e_deps 1, vr_observation_id = ''o1'', vr_parent = None, vr_changeset = [],
     vr_observation = e_retired, vr_lifecycle = LcRetired, vr_semantic_hash = observation_hash e_deps e_retired LcRetired\<rparr>"

definition e_row :: observation_row where
  "e_row = \<lparr>or_observation = e_retired, or_current_revision = Some (new_id e_deps 1), or_row_version = 2,
     or_lifecycle = LcRetired\<rparr>"

definition e_outbox :: outbox_row where
  "e_outbox = \<lparr>xo_id = 1, xo_generation = 1, xo_ordinal = 0, xo_delete = True, xo_logical_id = ''o1'',
     xo_revision = Some (new_id e_deps 1), xo_attempts = 0, xo_error = None, xo_applied_at = None\<rparr>"

definition e_applied :: audit_db where
  "e_applied = e_proposed\<lparr>gd_observations := [e_row], gd_ids := 2, ad_revisions := [e_revision],
     ad_events := [operation_event [] 0 ''retired'' ''o1'' (Some (new_id e_deps 1))], ad_outbox := [e_outbox]\<rparr>"

lemma e_apply: "apply_operations e_deps e_params [] (Suc 0) 6 0 [OpRetire ''o1'' 1] e_proposed = Inr e_applied"
  by (simp add: e_applying e_proposed_def e_start_def e_observation_def e_applied_def e_row_def e_revision_def
      e_outbox_def e_retired_def operation_event_def)

definition e_decided :: change_set where
  "e_decided = moved Applied (Some 1) 6 (change_set_row [] (e_hash e_draft Propose) e_draft Propose 0 5)"

definition e_approved :: audit_db where
  "e_approved = e_applied\<lparr>ad_changesets := [e_decided], ad_events := ad_events e_applied @
     [\<lparr>ev_changeset = [], ev_ordinal = 1, ev_type = ''approved'', ev_logical_id = None, ev_revision = None,
       ev_review = Some (e_review, [])\<rparr>], ad_semantic := 1, ad_repair := True\<rparr>"

lemma e_move: "move_proposal [] 1 Applied (Some (Suc 0)) 6 e_applied = Inr (e_applied\<lparr>ad_changesets := [e_decided]\<rparr>)"
  by (simp add: move_proposal_def e_applied_def e_proposed_def change_set_row_def e_decided_def moved_def to_i64_def)

lemma e_event: "insert_review_event [] ''approved'' e_review [] (e_applied\<lparr>ad_changesets := [e_decided]\<rparr>) =
    Inr (e_applied\<lparr>ad_changesets := [e_decided], ad_events := ad_events e_applied @
     [\<lparr>ev_changeset = [], ev_ordinal = 1, ev_type = ''approved'', ev_logical_id = None, ev_revision = None,
       ev_review = Some (e_review, [])\<rparr>]\<rparr>)"
  by (simp add: insert_review_event_def next_ordinal_def insert_event_def e_applied_def operation_event_def)

lemma e_approve: "approve_tx e_deps e_params 6 [] 1 e_review e_proposed = Inr e_approved"
proof -
  have "is_changeset_id e_deps []" "ensure_bound_space e_deps 7 e_proposed = Inr ()" "ad_semantic e_proposed = 0"
    by (simp_all add: e_deps_def e_ops_def ensure_bound_space_def e_space e_proposed_def e_start_def)
  then show ?thesis
    by (simp add: approve_tx_def e_header e_distinct e_parse e_verified e_head e_apply e_move e_event
        publish_generation_def to_i64_def del: apply_operations.simps)
      (simp add: e_approved_def e_applied_def e_outbox_def)
qed

section \<open>Reaching the states\<close>

lemma e_start_ok: "audit_start e_deps e_start"
proof -
  have "''o1'' \<noteq> new_id e_deps n" for n
  proof
    assume "''o1'' = new_id e_deps n"
    then have o1: "''o1'' = replicate n CHR ''x''" by (simp add: e_deps_def e_ops_def)
    have "set (replicate n CHR ''x'') \<subseteq> {CHR ''x''}" by auto
    then show False unfolding o1 [symmetric] by simp
  qed
  note no = this
  have "row_id ` set (gd_observations e_start) = {''o1''}" by (simp add: e_start_def e_observation_def row_id_def)
  then have "\<forall>n\<ge>gd_ids e_start. new_id e_deps n \<notin> row_id ` set (gd_observations e_start)" using no by (metis singletonD)
  then show ?thesis by (simp add: audit_start_def) (simp add: e_start_def)
qed

lemma e_fits: "counters_fit e_start" "counters_fit e_proposed"
  by (simp_all add: counters_fit_def versions_below_def e_proposed_def e_start_def)

lemma e_reach_start: "audit_reach e_deps e_params e_start"
  using e_start_ok by (auto simp: audit_reach_def)

lemma e_step_propose: "audit_step e_deps e_params e_start e_proposed"
  by (rule audit_step.submitted [OF e_propose e_fits(1)])

lemma e_step_approve: "audit_step e_deps e_params e_proposed e_approved"
  by (rule audit_step.approved [OF e_approve e_fits(2)])

lemma e_reach: "audit_reach e_deps e_params e_proposed" "audit_reach e_deps e_params e_approved"
  using e_start_ok e_step_propose e_step_approve unfolding audit_reach_def
  by (blast intro: converse_rtranclp_into_rtranclp)+

section \<open>A destruction\<close>

definition e_token :: str where
  "e_token = destruction_token_hash e_deps (new_id e_deps 0)"

definition e_destroy :: change_set_draft where
  "e_destroy = e_draft\<lparr>dr_actor_id := ''bob'', dr_operations := [OpDestroy ''o1'' 1 None e_token]\<rparr>"

definition e_confirmation :: confirmation_row where
  "e_confirmation = \<lparr>cf_token_hash = e_token, cf_space = 7, cf_logical_id = ''o1'', cf_revision = None,
     cf_row_version = 1, cf_preview_hash = destruction_preview_hash e_deps 7 ''o1'' None 1 0 0, cf_actor_id = ''bob'',
     cf_authority = authority_display (ra_authority e_review), cf_expires_at = 65, cf_consumed_at = None\<rparr>"

definition e_previewed :: audit_db where
  "e_previewed = e_start\<lparr>gd_ids := 1, ad_confirmations := [e_confirmation]\<rparr>"

lemma e_preview: "\<exists>pv. preview_destruction e_deps 5 ''o1'' e_review 60 e_start = Inr (pv, e_previewed)"
  by (simp add: preview_destruction_def e_applying e_start_def e_observation_def e_review_def e_previewed_def
      e_confirmation_def e_token_def clamp_ttl_def Let_def i64_saturating_add_def MAX_DESTRUCTION_CONFIRMATION_TTL_SECS_def)

lemma e_token_valid: "is_blake3_hash e_token"
proof -
  have l: "length (hash_display (blake3 e_deps b)) = 64" for b
    by (simp add: length_hash_display e_deps_def e_ops_def example_deps_def pad_def)
  have "list_all is_ascii_hexdigit (hash_display bs)" for bs
    using hash_display_hex [of bs] by (rule list.pred_mono_strong) (auto simp: is_lower_hex_def is_ascii_hexdigit_def Let_def)
  then show ?thesis
    by (simp add: is_blake3_hash_def e_token_def destruction_token_hash_def blake3_text_def l strip_prefix_def starts_with_iff)
qed

lemma e_destroy_valid: "validate_draft e_deps e_destroy = Inr ()"
  by (simp add: e_valid e_deps_def e_ops_def e_destroy_def e_draft_def e_token_valid check_optional_def)

definition e_stored :: audit_db where
  "e_stored = e_previewed\<lparr>gd_ids := 2,
     ad_changesets := [change_set_row (new_id e_deps 1) (e_hash e_destroy ApplyImmediately) e_destroy ApplyImmediately 0 6],
     ad_requests := [request_row e_deps (new_id e_deps 1) (0, OpDestroy ''o1'' 1 None e_token)]\<rparr>"

lemma e_apply_destroy: "\<exists>db. apply_operations e_deps e_params (new_id e_deps 1) 1 6 0 [OpDestroy ''o1'' 1 None e_token] e_stored
    = Inr db \<and> gd_observations db = []"
  by (simp add: apply_destroy_def check_expected_def find_change_set_def confirmation_matches_def rows_at_def
      unconsumed_def insert_destruction_def consume_confirmation_def e_applying e_stored_def e_previewed_def
      e_confirmation_def e_start_def e_observation_def change_set_row_def e_destroy_def e_draft_def e_review_def)

lemma e_submit_destroy: "\<exists>r db. submit_tx e_deps e_params 6 e_destroy ApplyImmediately e_previewed = Inr (r, db) \<and>
    gd_observations db = []"
proof -
  obtain db where db: "apply_operations e_deps e_params (new_id e_deps 1) 1 6 0 [OpDestroy ''o1'' 1 None e_token] e_stored
    = Inr db" "gd_observations db = []" using e_apply_destroy by blast
  have ops: "dr_operations e_destroy = [OpDestroy ''o1'' 1 None e_token]" "dr_space e_destroy = 7"
    by (simp_all add: e_destroy_def e_draft_def)
  have pre: "gd_space e_previewed = Some 7" "ad_changesets e_previewed = []" "ad_semantic e_previewed = 0"
      "gd_ids e_previewed = 1" "ad_requests e_previewed = []"
    by (simp_all add: e_previewed_def e_start_def)
  have "insert_requests e_deps (new_id e_deps 1) [OpDestroy ''o1'' 1 None e_token] (e_previewed\<lparr>gd_ids := Suc (Suc 0),
      ad_changesets := [change_set_row (new_id e_deps 1) (canonical_request_hash e_deps e_destroy ApplyImmediately)
         e_destroy ApplyImmediately 0 6]\<rparr>) = e_stored"
    using pre by (simp add: e_stored_def insert_requests_def e_hash_def numeral_2_eq_2)
  then show ?thesis
    using db pre
    by (simp add: submit_tx_def e_destroy_valid ensure_bound_space_def load_existing_receipt_def fresh_id_def
        insert_change_set_def ops publish_generation_def del: apply_operations.simps)
qed

section \<open>Witnesses\<close>

lemma e_approved_rows: "gd_observations e_approved = [e_row]" "ad_changesets e_approved = [e_decided]"
    "ad_outbox e_approved = [e_outbox]" "ad_semantic e_approved = 1"
  by (simp_all add: e_approved_def e_applied_def)

theorem audit_history_linear_witness:
  "chained None (hist ''o1'' (ad_revisions e_approved)) \<and> distinct (map vr_revision (ad_revisions e_approved)) \<and>
   or_current_revision e_row = head_of None (hist (row_id e_row) (ad_revisions e_approved))"
proof -
  have "e_row \<in> set (gd_observations e_approved)" by (simp add: e_approved_rows)
  then show ?thesis using audit_history_linear [OF e_reach(2) e_inj] by blast
qed

theorem applied_proposals_reviewed_witness:
  "reviewed (ad_events e_approved) e_decided \<and> e_decided \<in> set (ad_changesets e_approved)"
  using applied_proposals_reviewed [OF e_reach(2) e_inj rtranclp.rtrancl_refl, of e_decided]
  by (simp add: e_approved_rows) (simp add: e_decided_def change_set_row_def)

theorem generations_are_changesets_witness:
  "\<exists>!c. c \<in> set (ad_changesets e_approved) \<and> ct_committed c = Some 1"
proof -
  have "1 \<in> {1..ad_semantic e_approved}" by (simp add: e_approved_rows)
  then show ?thesis using generations_are_changesets [OF e_reach(2) e_inj] by blast
qed

theorem submit_replays_witness:
  "\<exists>r. submit_tx e_deps e_params 9 e_draft Propose e_approved = Inr (Replayed r, e_approved) \<and> rp_id r = []"
  using submit_replays [OF e_reach_start e_inj e_fits(1) e_propose r_into_rtranclp [of "audit_step e_deps e_params", OF e_step_approve]]
  by blast

theorem request_bytes_bind_witness:
  "map canonical_operation (dr_operations e_draft) =
   map canonical_operation (dr_operations (e_draft\<lparr>dr_idempotency_key := ''other''\<rparr>))"
proof -
  let ?d = "e_draft\<lparr>dr_idempotency_key := ''other''\<rparr>"
  have v: "validate_draft e_deps ?d = Inr ()" by (simp add: e_valid e_defs)
  have t: "draft_typed e_draft" "draft_typed ?d" by (simp_all add: draft_typed_def e_draft_def)
  have "request_bytes example_deps e_draft Propose = request_bytes example_deps ?d Propose"
    by (simp add: request_bytes_def)
  from request_bytes_bind [OF example_deps_ok e_draft_valid t(1) v t(2) this] show ?thesis by blast
qed

lemma e_previewed_reach: "audit_reach e_deps e_params e_previewed"
proof -
  obtain pv where "preview_destruction e_deps 5 ''o1'' e_review 60 e_start = Inr (pv, e_previewed)"
    using e_preview by blast
  then have "audit_step e_deps e_params e_start e_previewed" by (rule audit_step.previewed)
  then show ?thesis using e_start_ok unfolding audit_reach_def by blast
qed

lemma e_previewed_fits: "counters_fit e_previewed"
  by (simp add: counters_fit_def versions_below_def e_previewed_def e_start_def)

theorem nothing_lost_silently_witness:
  "\<exists>db. gd_observations db = [] \<and> destroyed_with_consent 6 ''o1'' e_previewed db"
proof -
  obtain r db where s: "submit_tx e_deps e_params 6 e_destroy ApplyImmediately e_previewed = Inr (r, db)"
    and db: "gd_observations db = []" using e_submit_destroy by blast
  have rows: "gd_observations e_previewed = [\<lparr>or_observation = e_observation, or_current_revision = None,
      or_row_version = 1, or_lifecycle = LcActive\<rparr>]" by (simp add: e_previewed_def e_start_def)
  have lost: "''o1'' \<in> row_ids e_previewed" "''o1'' \<notin> row_ids db"
    by (simp_all add: row_ids_def rows db row_id_def e_observation_def)
  show ?thesis
    using nothing_lost_silently [OF e_previewed_reach e_inj audit_step.submitted [OF s e_previewed_fits] lost]
      s db e_previewed_fits by blast
qed

lemma e_head_current: "list_all (head_current e_proposed) [OpRetire ''o1'' 1]"
  by (simp add: head_current_def stored_def row_id_def e_proposed_def e_start_def e_observation_def)

theorem approval_applies_or_conflicts_witness:
  "\<exists>c. find_change_set [] e_approved = Some c \<and> ct_state c = Applied \<and> ct_committed c = Some 1 \<and>
    operations_done [] 1 [OpRetire ''o1'' 1] e_proposed e_approved"
proof -
  let ?c = "change_set_row [] (e_hash e_draft Propose) e_draft Propose 0 5"
  have c: "ct_state ?c = Proposed" "ct_version ?c = unat (1 :: u64)" "gd_space e_proposed = Some (ct_space ?c)"
      "ct_actor_id ?c \<noteq> ra_actor_id e_review" "is_changeset_id e_deps []" "ad_semantic e_proposed = 0"
    by (simp_all add: change_set_row_def e_space e_defs e_proposed_def)
  have outcome: "approval_outcome ?c [OpRetire ''o1'' 1] e_proposed e_approved"
    using approval_applies_or_conflicts [OF e_reach(1) e_inj e_fits(2) e_found c(1-5) e_parse e_verified] e_approve by blast
  have i: "ct_id ?c = []" by (simp add: change_set_row_def)
  show ?thesis
    using outcome unfolding approval_outcome_def if_P [OF e_head_current] c(6) i add_0 by blast
qed

lemma e_keys: "keys_ok e_approved"
  by (simp add: keys_ok_def e_approved_rows)
    (simp add: e_row_def e_retired_def e_observation_def e_approved_def e_applied_def e_proposed_def e_start_def)

lemma e_pending: "pending e_approved = [e_outbox]"
  by (simp add: pending_def e_approved_rows e_outbox_def)

theorem repair_index_exact_witness:
  "\<exists>items result st'. repair_read e_approved = Inr items \<and>
    repair_publish 7 (\<lambda>_. None) None items \<lparr>gs_db = e_approved, gs_index = (\<lambda>i. Some (entry_of [] e_row))\<rparr> = (result, st') \<and>
    gs_index st' ''o1'' = None"
proof -
  obtain items where r: "repair_read e_approved = Inr items"
    using read_items_ok [OF e_keys] by (simp add: repair_read_def)
  obtain result st' where p: "repair_publish 7 (\<lambda>_. None) None items
      \<lparr>gs_db = e_approved, gs_index = (\<lambda>i. Some (entry_of [] e_row))\<rparr> = (result, st')" by fastforce
  have "filter (\<lambda>x. xo_logical_id x = ''o1'') (pending_rows e_approved) = [e_outbox]"
    by (simp add: pending_rows_take e_pending) (simp add: e_outbox_def)
  then have "gs_index st' ''o1'' = None"
    using repair_index_exact [OF e_reach(2) e_inj e_keys r p, of "''o1''"] by (simp add: e_outbox_def)
  with r p show ?thesis by blast
qed

theorem repair_drains_witness:
  "pending (gs_db (fold repaired [7] \<lparr>gs_db = e_approved, gs_index = (\<lambda>i. None)\<rparr>)) = []"
  using repair_drains [of "\<lparr>gs_db = e_approved, gs_index = (\<lambda>i. None)\<rparr>" "[7]"] by (simp add: e_keys e_pending)

theorem dedup_converges_witness:
  "dedup_within_entity (=) (filter (\<lambda>y. fst y \<notin> merged_away (dedup_within_entity (=)
      [(''a'', ''t'', 1), (''b'', ''t'', 2), (''c'', ''u'', 0)])) [(''a'', ''t'', 1), (''b'', ''t'', 2), (''c'', ''u'', 0)]) = []"
  using dedup_converges [of "[(''a'', ''t'', 1), (''b'', ''t'', 2), (''c'', ''u'', 0)]" "(=)"] by simp

lemma map_filter_replicate: "f x = Some y \<Longrightarrow> List.map_filter f (replicate n x) = replicate n y"
  by (induction n) (simp_all add: map_filter_simps)

theorem oversized_retirement_refused_witness:
  "case retire_for_maintenance e_deps e_params (\<lambda>t. 7) 5 (replicate 257 ''o1'') ''r'' e_start of (result, db) \<Rightarrow>
    (\<exists>e. result = Inl e) \<and> gd_observations db = gd_observations e_start"
proof -
  have "find_row ''o1'' (gd_observations e_start) = Some \<lparr>or_observation = e_observation, or_current_revision = None,
      or_row_version = 1, or_lifecycle = LcActive\<rparr>"
    by (simp add: find_row_def row_id_def e_start_def e_observation_def)
  then have "maintenance_operations (replicate 257 ''o1'') e_start = replicate 257 (OpRetire ''o1'' 1)"
    unfolding maintenance_operations_def by (intro map_filter_replicate) simp
  then have "length (maintenance_operations (replicate 257 ''o1'') e_start) > 256" by simp
  from oversized_retirement_refused [OF this, of e_deps e_params "\<lambda>t. 7" 5 "''r''"] show ?thesis by auto
qed

end
