(* ===== verification/Om_Catalog.thy ===== *)
theory Om_Catalog
  imports Om_Registry Om_Changeset
begin

text \<open>
  The product catalog of the daemon (\<open>openmemory-daemon/src/product_store/spaces.rs\<close>): principals, teams
  and memberships, projects and workspaces, the rows of memory spaces with their text columns, and
  context capabilities. A table is the list of its rows, a transaction a function that fails or returns
  the next database; a failed one leaves nothing behind. Times of creation and update are left out, and the state of a workspace row,
  which is always active.
  serde_json is a field of \<open>catalog_deps\<close>, as are the UUIDs that are generated.
\<close>

section \<open>Rows\<close>

datatype product_error = PsSql | PsJson | PsInvalid str | PsCorrupt str

record catalog_deps =
  cd_space :: space_deps
  cd_uuid :: "nat \<Rightarrow> uuid"
  context_json :: "memory_context \<Rightarrow> str"
  context_of_json :: "str \<Rightarrow> memory_context option"

record principal_row =
  pp_id :: str
  pp_active :: bool
  pp_generation :: nat

record team_row =
  tm_id :: str
  tm_profile :: str
  tm_label :: str
  tm_active :: bool
  tm_generation :: nat

record membership_row =
  ms_team :: str
  ms_principal :: str
  ms_role :: str
  ms_generation :: nat
  ms_expires :: "i64 option"

record project_row =
  pj_id :: uuid
  pj_profile :: str
  pj_label :: str

record workspace_row =
  wr_id :: str
  wr_profile :: str
  wr_platform :: path_platform
  wr_version :: u16
  wr_path :: str
  wr_project :: uuid
  wr_fingerprint :: "str option"

text \<open>The columns of \<open>memory_spaces\<close>, as text and integers.\<close>

record space_row =
  sp_id :: str
  sp_profile :: str
  sp_owner_kind :: str
  sp_owner_id :: str
  sp_context_kind :: str
  sp_project_key :: str
  sp_root_key :: str
  sp_domain_count :: int
  sp_manifest_hash :: str
  sp_state :: str
  sp_generation :: int

record capability_row =
  cp_token_hash :: str
  cp_principal :: str
  cp_context :: str
  cp_expires :: i64
  cp_revoked :: "i64 option"

record product_db =
  pd_principals :: "principal_row list"
  pd_teams :: "team_row list"
  pd_memberships :: "membership_row list"
  pd_projects :: "project_row list"
  pd_workspaces :: "workspace_row list"
  pd_spaces :: "space_row list"
  pd_capabilities :: "capability_row list"
  pd_installation :: "str option"
  pd_credential_generation :: "u64 option"
  pd_catalog_generation :: "u64 option"
  pd_ids :: nat

definition MAX_LABEL_BYTES :: nat where "MAX_LABEL_BYTES = 256"
definition MAX_CAPABILITY_BYTES :: nat where "MAX_CAPABILITY_BYTES = 64 * 1024"

definition fresh_uuid :: "catalog_deps \<Rightarrow> product_db \<Rightarrow> uuid \<times> product_db" where
  "fresh_uuid D db = (cd_uuid D (pd_ids db), db\<lparr>pd_ids := Suc (pd_ids db)\<rparr>)"

definition ps_invalid :: "str \<Rightarrow> product_error + 'a" where
  "ps_invalid msg = Inl (PsInvalid msg)"

section \<open>Text columns\<close>

fun root_key_str :: "catalog_deps \<Rightarrow> root_key \<Rightarrow> str" where
  "root_key_str D LegacyRoot = ''legacy-root''"
| "root_key_str D (SpaceRoot i) = ''space:'' @ uuid_id_display (cd_space D) i"

definition root_key_parse :: "catalog_deps \<Rightarrow> str \<Rightarrow> product_error + root_key" where
  "root_key_parse D v =
     (if v = ''legacy-root'' then Inr LegacyRoot
      else case strip_prefix ''space:'' v of
        None \<Rightarrow> Inl (PsCorrupt ''unknown catalog root key'')
      | Some i \<Rightarrow> (case uuid_id_from_str (cd_space D) ''space'' i of
          Inl e \<Rightarrow> Inl (PsCorrupt ''invalid space root key'') | Inr u \<Rightarrow> Inr (SpaceRoot u)))"

fun catalog_state_str :: "catalog_state \<Rightarrow> str" where
  "catalog_state_str CatalogCreating = ''creating''"
| "catalog_state_str CatalogActive = ''active''"
| "catalog_state_str CatalogClosed = ''closed''"
| "catalog_state_str CatalogDeleting = ''deleting''"
| "catalog_state_str CatalogError = ''error''"

definition catalog_state_parse :: "str \<Rightarrow> product_error + catalog_state" where
  "catalog_state_parse v =
     (if v = ''creating'' then Inr CatalogCreating else if v = ''active'' then Inr CatalogActive
      else if v = ''closed'' then Inr CatalogClosed else if v = ''deleting'' then Inr CatalogDeleting
      else if v = ''error'' then Inr CatalogError else Inl (PsCorrupt ''unknown memory-space state''))"

fun role_tag :: "space_role \<Rightarrow> str" where
  "role_tag Reader = ''reader''"
| "role_tag Contributor = ''contributor''"
| "role_tag Reviewer = ''reviewer''"
| "role_tag Maintainer = ''maintainer''"

definition parse_role :: "str \<Rightarrow> product_error + space_role" where
  "parse_role v =
     (if v = ''reader'' then Inr Reader else if v = ''contributor'' then Inr Contributor
      else if v = ''reviewer'' then Inr Reviewer else if v = ''maintainer'' then Inr Maintainer
      else Inl (PsCorrupt ''unknown membership role''))"

fun owner_columns :: "space_owner \<Rightarrow> str \<times> str" where
  "owner_columns (UserOwner p) = (''user'', p)"
| "owner_columns (TeamOwner t) = (''team'', t)"

fun context_columns :: "catalog_deps \<Rightarrow> space_context \<Rightarrow> str \<times> str" where
  "context_columns D GlobalContext = (''global'', [])"
| "context_columns D (ProjectContext p) = (''project'', uuid_id_display (cd_space D) p)"

definition is_blake3_digest :: "str \<Rightarrow> bool" where
  "is_blake3_digest v \<longleftrightarrow> (case strip_prefix ''blake3:'' v of None \<Rightarrow> False
     | Some digest \<Rightarrow> length digest = 64 \<and>
         list_all (\<lambda>c. is_ascii_hexdigit c \<and> \<not> is_ascii_uppercase c) digest)"

definition validate_label :: "str \<Rightarrow> product_error + unit" where
  "validate_label v =
     (if v = [] \<or> length v > MAX_LABEL_BYTES \<or> has_control v
      then ps_invalid ''label must be bounded non-control UTF-8'' else Inr ())"

definition to_generation :: "int \<Rightarrow> product_error + u64" where
  "to_generation n = (if n < 0 then Inl (PsCorrupt ''negative authority generation'') else Inr (word_of_int n))"

text \<open>The error texts of the identifier types are left out of the messages.\<close>

definition corrupt_if :: "str \<Rightarrow> space_type_error + 'a \<Rightarrow> product_error + 'a" where
  "corrupt_if msg r = (case r of Inl e \<Rightarrow> Inl (PsCorrupt msg) | Inr v \<Rightarrow> Inr v)"

definition decode_owner :: "str \<Rightarrow> str \<Rightarrow> product_error + space_owner" where
  "decode_owner kind i =
     (if kind = ''user''
      then bind_result (corrupt_if ''invalid catalog principal'' (opaque_id_new ''principal'' i)) (\<lambda>p. Inr (UserOwner p))
      else if kind = ''team''
      then bind_result (corrupt_if ''invalid catalog team'' (opaque_id_new ''team'' i)) (\<lambda>t. Inr (TeamOwner t))
      else Inl (PsCorrupt ''invalid catalog owner tag''))"

definition decode_context :: "catalog_deps \<Rightarrow> str \<Rightarrow> str \<Rightarrow> product_error + space_context" where
  "decode_context D kind key =
     (if kind = ''global'' \<and> key = [] then Inr GlobalContext
      else if kind = ''project''
      then bind_result (corrupt_if ''invalid catalog project'' (uuid_id_from_str (cd_space D) ''project'' key))
             (\<lambda>p. Inr (ProjectContext p))
      else Inl (PsCorrupt ''invalid catalog context''))"

definition decode_catalog_space :: "catalog_deps \<Rightarrow> space_row \<Rightarrow> product_error + catalog_space" where
  "decode_catalog_space D r =
     bind_result (corrupt_if ''invalid catalog space ID'' (uuid_id_from_str (cd_space D) ''space'' (sp_id r))) (\<lambda>i.
     bind_result (corrupt_if ''invalid catalog profile'' (profile_name_new (sp_profile r))) (\<lambda>profile.
     bind_result (decode_owner (sp_owner_kind r) (sp_owner_id r)) (\<lambda>ownr.
     bind_result (decode_context D (sp_context_kind r) (sp_project_key r)) (\<lambda>context.
       if \<not> (1 \<le> sp_domain_count r \<and> sp_domain_count r \<le> 64)
       then Inl (PsCorrupt ''invalid catalog domain count'')
       else if \<not> is_blake3_digest (sp_manifest_hash r)
       then Inl (PsCorrupt ''invalid catalog manifest hash'')
       else bind_result (root_key_parse D (sp_root_key r)) (\<lambda>root.
            bind_result (catalog_state_parse (sp_state r)) (\<lambda>state.
            bind_result (to_generation (sp_generation r)) (\<lambda>generation.
              Inr \<lparr>cs_space = \<lparr>sr_id = i, sr_owner = ownr, sr_context = context\<rparr>, cs_profile = profile,
                   cs_root_key = root, cs_domain_count = word_of_int (sp_domain_count r),
                   cs_manifest_hash = sp_manifest_hash r, cs_state = state,
                   cs_generation = generation\<rparr>)))))))"

text \<open>\<open>load_space\<close>: a row that does not decode is an error of the query.\<close>

definition load_space :: "catalog_deps \<Rightarrow> (space_row \<Rightarrow> bool) \<Rightarrow> product_db \<Rightarrow>
    product_error + catalog_space option" where
  "load_space D P db =
     (case find P (pd_spaces db) of None \<Rightarrow> Inr None
      | Some r \<Rightarrow> (case decode_catalog_space D r of Inl e \<Rightarrow> Inl PsSql | Inr s \<Rightarrow> Inr (Some s)))"

definition space_by_id :: "catalog_deps \<Rightarrow> uuid \<Rightarrow> product_db \<Rightarrow> product_error + catalog_space option" where
  "space_by_id D i = load_space D (\<lambda>r. sp_id r = uuid_id_display (cd_space D) i)"

definition space_by_root :: "catalog_deps \<Rightarrow> root_key \<Rightarrow> product_db \<Rightarrow> product_error + catalog_space option" where
  "space_by_root D k = load_space D (\<lambda>r. sp_root_key r = root_key_str D k)"

section \<open>Generations\<close>

definition bump_catalog_generation :: "product_db \<Rightarrow> product_error + u64 \<times> product_db" where
  "bump_catalog_generation db =
     (let current = (case pd_catalog_generation db of None \<Rightarrow> 0 | Some g \<Rightarrow> g) in
      if unat current = 2 ^ 64 - 1 then ps_invalid ''catalog generation overflow''
      else Inr (current + 1, db\<lparr>pd_catalog_generation := Some (current + 1)\<rparr>))"

definition bumped :: "product_db \<Rightarrow> 'a \<Rightarrow> product_error + 'a \<times> product_db" where
  "bumped db v = bind_result (bump_catalog_generation db) (\<lambda>(g, db'). Inr (v, db'))"

definition meta_generation :: "u64 option \<Rightarrow> u64" where
  "meta_generation v = (case v of None \<Rightarrow> 0 | Some g \<Rightarrow> g)"

section \<open>Principals and teams\<close>

definition ensure_installation_principal :: "catalog_deps \<Rightarrow> product_db \<Rightarrow> product_error + str \<times> product_db" where
  "ensure_installation_principal D db =
     (case pd_installation db of
        Some v \<Rightarrow> bind_result (corrupt_if ''invalid installation principal'' (opaque_id_new ''principal'' v))
                   (\<lambda>p. Inr (p, db))
      | None \<Rightarrow> (let (u, db1) = fresh_uuid D db; p = ''local:'' @ uuid_id_display (cd_space D) u in
          case opaque_id_new ''principal'' p of Inl e \<Rightarrow> ps_invalid ''opaque identifier''
          | Inr prin \<Rightarrow>
             if list_ex (\<lambda>r. pp_id r = prin) (pd_principals db1) then Inl PsSql
             else Inr (prin, db1\<lparr>
               pd_principals := pd_principals db1 @ [\<lparr>pp_id = prin, pp_active = True, pp_generation = 1\<rparr>],
               pd_installation := Some prin, pd_credential_generation := Some 1,
               pd_catalog_generation := (case pd_catalog_generation db1 of None \<Rightarrow> Some 0 | Some g \<Rightarrow> Some g)\<rparr>)))"

definition create_team :: "catalog_deps \<Rightarrow> str \<Rightarrow> str \<Rightarrow> product_db \<Rightarrow> product_error + str \<times> product_db" where
  "create_team D profile label db =
     bind_result (validate_label label) (\<lambda>_.
       let (u, db1) = fresh_uuid D db; t = ''team:'' @ uuid_id_display (cd_space D) u in
       case opaque_id_new ''team'' t of Inl e \<Rightarrow> ps_invalid ''opaque identifier''
       | Inr team \<Rightarrow>
          if list_ex (\<lambda>r. tm_id r = team) (pd_teams db1) then Inl PsSql
          else bumped (db1\<lparr>pd_teams := pd_teams db1 @ [\<lparr>tm_id = team, tm_profile = profile, tm_label = label,
                 tm_active = True, tm_generation = 1\<rparr>]\<rparr>) team)"

definition bump_team :: "str \<Rightarrow> product_db \<Rightarrow> product_db" where
  "bump_team team db = db\<lparr>pd_teams :=
     map (\<lambda>r. if tm_id r = team then r\<lparr>tm_generation := tm_generation r + 1\<rparr> else r) (pd_teams db)\<rparr>"

definition is_member :: "str \<Rightarrow> str \<Rightarrow> membership_row \<Rightarrow> bool" where
  "is_member team prin r \<longleftrightarrow> ms_team r = team \<and> ms_principal r = prin"

definition upsert_membership :: "str \<Rightarrow> str \<Rightarrow> space_role \<Rightarrow> i64 option \<Rightarrow> product_db \<Rightarrow> product_db" where
  "upsert_membership team prin role expires db = db\<lparr>pd_memberships :=
     (if list_ex (is_member team prin) (pd_memberships db)
      then map (\<lambda>r. if is_member team prin r
             then r\<lparr>ms_role := role_tag role, ms_generation := ms_generation r + 1, ms_expires := expires\<rparr>
             else r) (pd_memberships db)
      else pd_memberships db @ [\<lparr>ms_team = team, ms_principal = prin, ms_role = role_tag role,
             ms_generation = 1, ms_expires = expires\<rparr>])\<rparr>"

definition grant_team_role :: "str \<Rightarrow> str \<Rightarrow> space_role \<Rightarrow> i64 option \<Rightarrow> i64 \<Rightarrow> product_db \<Rightarrow>
    product_error + unit \<times> product_db" where
  "grant_team_role team prin role expires now db =
     (if (case expires of None \<Rightarrow> False | Some e \<Rightarrow> sint e \<le> sint now)
      then ps_invalid ''membership expiry must be in the future''
      else case find (\<lambda>r. tm_id r = team) (pd_teams db) of None \<Rightarrow> ps_invalid ''unknown team''
      | Some t \<Rightarrow> (case find (\<lambda>r. pp_id r = prin) (pd_principals db) of
          None \<Rightarrow> ps_invalid ''unknown principal''
        | Some p \<Rightarrow>
           if \<not> tm_active t \<or> \<not> pp_active p then ps_invalid ''team and principal must both be active''
           else bumped (bump_team team (upsert_membership team prin role expires db)) ()))"

definition revoke_team_member :: "str \<Rightarrow> str \<Rightarrow> product_db \<Rightarrow> product_error + bool \<times> product_db" where
  "revoke_team_member team prin db =
     (if list_ex (is_member team prin) (pd_memberships db)
      then bumped (bump_team team (db\<lparr>pd_memberships :=
             filter (\<lambda>r. \<not> is_member team prin r) (pd_memberships db)\<rparr>)) True
      else Inr (False, db))"

section \<open>Projects and workspaces\<close>

definition create_project :: "catalog_deps \<Rightarrow> str \<Rightarrow> str \<Rightarrow> product_db \<Rightarrow> product_error + uuid \<times> product_db" where
  "create_project D profile label db =
     bind_result (validate_label label) (\<lambda>_.
       let (u, db1) = fresh_uuid D db in
       if list_ex (\<lambda>r. pj_id r = u) (pd_projects db1) then Inl PsSql
       else bumped (db1\<lparr>pd_projects := pd_projects db1 @ [\<lparr>pj_id = u, pj_profile = profile, pj_label = label\<rparr>]\<rparr>) u)"

definition workspace_row_id :: "catalog_deps \<Rightarrow> str \<Rightarrow> workspace_path_key \<Rightarrow> str" where
  "workspace_row_id D profile w = ''workspace:'' @ hash_display (blake3 (cd_space D)
     (''openmemory/workspace-row/v1'' @ u64_le (u64_of_usize (length profile)) @ profile @
      u64_le (u64_of_usize (length (wk_path w))) @ wk_path w))"

definition at_path :: "str \<Rightarrow> workspace_path_key \<Rightarrow> workspace_row \<Rightarrow> bool" where
  "at_path profile w r \<longleftrightarrow> wr_profile r = profile \<and> wr_path r = wk_path w"

definition map_workspace :: "catalog_deps \<Rightarrow> str \<Rightarrow> workspace_path_key \<Rightarrow> uuid \<Rightarrow> str option \<Rightarrow> product_db \<Rightarrow>
    product_error + unit \<times> product_db" where
  "map_workspace D profile w project fingerprint db =
     (if (case fingerprint of None \<Rightarrow> False | Some v \<Rightarrow> length v > MAX_LABEL_BYTES)
      then ps_invalid ''workspace VCS fingerprint exceeds its bound''
      else if \<not> list_ex (\<lambda>r. pj_id r = project \<and> pj_profile r = profile) (pd_projects db)
      then ps_invalid ''workspace project is absent from this profile''
      else let row = \<lparr>wr_id = workspace_row_id D profile w, wr_profile = profile, wr_platform = wk_platform w,
               wr_version = wk_normalizer_version w, wr_path = wk_path w, wr_project = project,
               wr_fingerprint = fingerprint\<rparr>
        in if list_ex (\<lambda>r. wr_id r = wr_id row \<and> \<not> at_path profile w r) (pd_workspaces db) then Inl PsSql
           else bumped (db\<lparr>pd_workspaces :=
             (if list_ex (at_path profile w) (pd_workspaces db)
              then map (\<lambda>r. if at_path profile w r then row else r) (pd_workspaces db)
              else pd_workspaces db @ [row])\<rparr>) ())"

definition project_for_workspace :: "str \<Rightarrow> workspace_path_key \<Rightarrow> product_db \<Rightarrow> uuid option" where
  "project_for_workspace profile w db = map_option wr_project
     (find (\<lambda>r. at_path profile w r \<and> wr_platform r = wk_platform w \<and> wr_version r = wk_normalizer_version w)
       (pd_workspaces db))"

section \<open>Spaces\<close>

definition space_key :: "space_row \<Rightarrow> str \<times> str \<times> str \<times> str \<times> str" where
  "space_key r = (sp_profile r, sp_owner_kind r, sp_owner_id r, sp_context_kind r, sp_project_key r)"

definition space_columns :: "catalog_deps \<Rightarrow> catalog_space \<Rightarrow> space_row" where
  "space_columns D s = (case owner_columns (sr_owner (cs_space s)) of (owner_kind, owner_id) \<Rightarrow>
     case context_columns D (sr_context (cs_space s)) of (context_kind, project_key) \<Rightarrow>
       \<lparr>sp_id = uuid_id_display (cd_space D) (sr_id (cs_space s)), sp_profile = cs_profile s,
        sp_owner_kind = owner_kind, sp_owner_id = owner_id, sp_context_kind = context_kind,
        sp_project_key = project_key, sp_root_key = root_key_str D (cs_root_key s),
        sp_domain_count = uint (cs_domain_count s), sp_manifest_hash = cs_manifest_hash s,
        sp_state = catalog_state_str (cs_state s), sp_generation = uint (cs_generation s)\<rparr>)"

definition insert_space :: "catalog_deps \<Rightarrow> space_ref \<Rightarrow> str \<Rightarrow> root_key \<Rightarrow> u8 \<Rightarrow> str \<Rightarrow> catalog_state \<Rightarrow>
    product_db \<Rightarrow> product_error + catalog_space \<times> product_db" where
  "insert_space D space profile root domains manifest state db =
     (if \<not> (1 \<le> unat domains \<and> unat domains \<le> 64) then ps_invalid ''space domain count must be 1..=64''
      else if \<not> is_blake3_digest manifest then ps_invalid ''space manifest hash must be canonical blake3''
      else bind_result (bump_catalog_generation db) (\<lambda>(generation, db1).
        let s = \<lparr>cs_space = space, cs_profile = profile, cs_root_key = root, cs_domain_count = domains,
                 cs_manifest_hash = manifest, cs_state = state, cs_generation = generation\<rparr>;
            row = space_columns D s
        in if unat generation \<ge> 2 ^ 63 then ps_invalid ''catalog generation overflow''
           else if list_ex (\<lambda>r. sp_id r = sp_id row \<or> sp_root_key r = sp_root_key row \<or>
                  space_key r = space_key row) (pd_spaces db1) then Inl PsSql
           else Inr (s, db1\<lparr>pd_spaces := pd_spaces db1 @ [row]\<rparr>)))"

definition bind_legacy_personal_global :: "catalog_deps \<Rightarrow> str \<Rightarrow> str \<Rightarrow> uuid \<Rightarrow> u8 \<Rightarrow> str \<Rightarrow> product_db \<Rightarrow>
    product_error + catalog_space \<times> product_db" where
  "bind_legacy_personal_global D profile prin existing_id domains manifest db =
     bind_result (space_by_root D LegacyRoot db) (\<lambda>found.
       case found of
         Some e \<Rightarrow>
           if sr_id (cs_space e) \<noteq> existing_id \<or> cs_profile e \<noteq> profile \<or>
              sr_owner (cs_space e) \<noteq> UserOwner prin \<or> sr_context (cs_space e) \<noteq> GlobalContext \<or>
              cs_domain_count e \<noteq> domains \<or> cs_manifest_hash e \<noteq> manifest
           then Inl (PsCorrupt ''legacy root disagrees with its catalog binding'')
           else Inr (e, db)
       | None \<Rightarrow> insert_space D \<lparr>sr_id = existing_id, sr_owner = UserOwner prin, sr_context = GlobalContext\<rparr>
           profile LegacyRoot domains manifest CatalogCreating db)"

definition activate_space :: "catalog_deps \<Rightarrow> uuid \<Rightarrow> str \<Rightarrow> product_db \<Rightarrow>
    product_error + catalog_space \<times> product_db" where
  "activate_space D i manifest db =
     (if \<not> is_blake3_digest manifest then ps_invalid ''space manifest hash must be canonical blake3''
      else bind_result (bump_catalog_generation db) (\<lambda>(generation, db1).
        let hit = (\<lambda>r. sp_id r = uuid_id_display (cd_space D) i \<and> sp_state r \<in> {''creating'', ''active''});
            db2 = db1\<lparr>pd_spaces := map (\<lambda>r. if hit r then r\<lparr>sp_state := ''active'', sp_manifest_hash := manifest,
                    sp_generation := uint generation\<rparr> else r) (pd_spaces db1)\<rparr>
        in if unat generation \<ge> 2 ^ 63 then ps_invalid ''catalog generation overflow''
           else if length (filter hit (pd_spaces db1)) \<noteq> 1 then ps_invalid ''space cannot transition to active''
           else bind_result (space_by_id D i db2) (\<lambda>found.
             case found of None \<Rightarrow> Inl (PsCorrupt ''activated catalog space disappeared'')
             | Some s \<Rightarrow> Inr (s, db2))))"

text \<open>The page of active spaces behind an identifier, by the text of the identifiers.\<close>

definition clamp_page :: "nat \<Rightarrow> nat" where
  "clamp_page n = max 1 (min n 256)"

fun decode_all :: "catalog_deps \<Rightarrow> space_row list \<Rightarrow> product_error + catalog_space list" where
  "decode_all D [] = Inr []"
| "decode_all D (r # rs) = (case decode_catalog_space D r of Inl e \<Rightarrow> Inl PsSql
     | Inr s \<Rightarrow> bind_result (decode_all D rs) (\<lambda>ss. Inr (s # ss)))"

definition active_page :: "str \<Rightarrow> str option \<Rightarrow> nat \<Rightarrow> product_db \<Rightarrow> space_row list" where
  "active_page profile after limit db = take (clamp_page limit) (sort_key sp_id
     (filter (\<lambda>r. sp_profile r = profile \<and> sp_state r = ''active'' \<and>
        (case after of None \<Rightarrow> True | Some a \<Rightarrow> a < sp_id r)) (pd_spaces db)))"

definition active_spaces_page :: "catalog_deps \<Rightarrow> str \<Rightarrow> uuid option \<Rightarrow> nat \<Rightarrow> product_db \<Rightarrow>
    product_error + catalog_space list" where
  "active_spaces_page D profile after limit db =
     decode_all D (active_page profile (map_option (uuid_id_display (cd_space D)) after) limit db)"

section \<open>Roles and authority\<close>

definition unexpired :: "i64 \<Rightarrow> membership_row \<Rightarrow> bool" where
  "unexpired now r \<longleftrightarrow> (case ms_expires r of None \<Rightarrow> True | Some e \<Rightarrow> sint now < sint e)"

definition team_active :: "str \<Rightarrow> product_db \<Rightarrow> bool" where
  "team_active team db \<longleftrightarrow> list_ex (\<lambda>r. tm_id r = team \<and> tm_active r) (pd_teams db)"

definition role_for :: "str \<Rightarrow> catalog_space \<Rightarrow> i64 \<Rightarrow> product_db \<Rightarrow> product_error + space_role option" where
  "role_for prin space now db =
     (case find (\<lambda>r. pp_id r = prin) (pd_principals db) of
        None \<Rightarrow> Inr None
      | Some p \<Rightarrow> if \<not> pp_active p then Inr None
          else case sr_owner (cs_space space) of
            UserOwner ownr \<Rightarrow> Inr (if ownr = prin then Some Maintainer else None)
          | TeamOwner team \<Rightarrow>
             (case find (\<lambda>r. is_member team prin r \<and> team_active team db \<and> unexpired now r) (pd_memberships db) of
                None \<Rightarrow> Inr None
              | Some r \<Rightarrow> bind_result (parse_role (ms_role r)) (\<lambda>role. Inr (Some role))))"

definition authority_generations :: "str \<Rightarrow> catalog_space \<Rightarrow> i64 \<Rightarrow> product_db \<Rightarrow> product_error + u64 list" where
  "authority_generations prin space now db =
     (case find (\<lambda>r. pp_id r = prin \<and> pp_active r) (pd_principals db) of
        None \<Rightarrow> ps_invalid ''principal is not active''
      | Some p \<Rightarrow>
         (let gs = [meta_generation (pd_credential_generation db), meta_generation (pd_catalog_generation db),
                    cs_generation space, of_nat (pp_generation p)]
          in case sr_owner (cs_space space) of
            UserOwner ownr \<Rightarrow> Inr gs
          | TeamOwner team \<Rightarrow>
             (case find (\<lambda>r. tm_id r = team \<and> tm_active r) (pd_teams db) of
                None \<Rightarrow> ps_invalid ''team is not active''
              | Some t \<Rightarrow> (case find (\<lambda>r. is_member team prin r \<and> unexpired now r) (pd_memberships db) of
                  None \<Rightarrow> ps_invalid ''membership is absent''
                | Some m \<Rightarrow> Inr (gs @ [of_nat (tm_generation t), of_nat (ms_generation m)])))))"

definition authority_snapshot_for :: "catalog_deps \<Rightarrow> str \<Rightarrow> catalog_space \<Rightarrow> i64 \<Rightarrow> product_db \<Rightarrow>
    product_error + authority_snapshot" where
  "authority_snapshot_for D prin space now db =
     bind_result (authority_generations prin space now db) (\<lambda>gs.
       case authority_from_generations (deps.truncate (cd_space D)) 1 gs of
         Inl e \<Rightarrow> ps_invalid ''authority snapshot'' | Inr a \<Rightarrow> Inr a)"

section \<open>Capabilities\<close>

definition capability_hash :: "catalog_deps \<Rightarrow> bytes \<Rightarrow> str" where
  "capability_hash D bearer = ''blake3:'' @ hash_display (blake3 (cd_space D)
     (''openmemory/context-capability/v1'' @ u64_le (u64_of_usize (length bearer)) @ bearer))"

definition issue_context_capability :: "catalog_deps \<Rightarrow> bytes \<Rightarrow> memory_context \<Rightarrow> i64 \<Rightarrow> i64 \<Rightarrow> product_db \<Rightarrow>
    product_error + unit \<times> product_db" where
  "issue_context_capability D bearer context expires now db =
     (if length bearer < 16 \<or> length bearer > 4096 \<or> sint expires \<le> sint now
      then ps_invalid ''capability bearer or expiry is outside its bound''
      else if length (context_json D context) > MAX_CAPABILITY_BYTES
      then ps_invalid ''capability context exceeds its bound''
      else if list_ex (\<lambda>r. cp_token_hash r = capability_hash D bearer) (pd_capabilities db) \<or>
              \<not> list_ex (\<lambda>r. pp_id r = mc_principal context) (pd_principals db) then Inl PsSql
      else Inr ((), db\<lparr>pd_capabilities := pd_capabilities db @ [\<lparr>cp_token_hash = capability_hash D bearer,
             cp_principal = mc_principal context, cp_context = context_json D context,
             cp_expires = expires, cp_revoked = None\<rparr>]\<rparr>))"

definition consume_context_capability :: "catalog_deps \<Rightarrow> bytes \<Rightarrow> i64 \<Rightarrow> product_db \<Rightarrow>
    product_error + (memory_context \<times> i64) option" where
  "consume_context_capability D bearer now db =
     (case find (\<lambda>r. cp_token_hash r = capability_hash D bearer \<and> cp_revoked r = None \<and>
              sint now < sint (cp_expires r)) (pd_capabilities db) of
        None \<Rightarrow> Inr None
      | Some r \<Rightarrow>
         if length (cp_context r) > MAX_CAPABILITY_BYTES
         then Inl (PsCorrupt ''persisted capability context exceeds its bound'')
         else case context_of_json D (cp_context r) of None \<Rightarrow> Inl PsJson
           | Some c \<Rightarrow> Inr (Some (c, cp_expires r)))"

definition revoke_context_capability :: "catalog_deps \<Rightarrow> bytes \<Rightarrow> i64 \<Rightarrow> product_db \<Rightarrow> bool \<times> product_db" where
  "revoke_context_capability D bearer now db =
     (let hit = (\<lambda>r. cp_token_hash r = capability_hash D bearer \<and> cp_revoked r = None) in
      (length (filter hit (pd_capabilities db)) = 1,
       db\<lparr>pd_capabilities := map (\<lambda>r. if hit r then r\<lparr>cp_revoked := Some now\<rparr> else r) (pd_capabilities db)\<rparr>))"

end
