(* ===== verification/Om_Authority.thy ===== *)
theory Om_Authority
  imports Om_Catalog
begin

text \<open>
  The authority service of the daemon (\<open>openmemory-daemon/src/auth.rs\<close>): which actor may do what with
  which role, leases that hold a grant, their re-authorization before publication, and the gate that
  lets a revocation wait for the leases before it. The mutex makes each piece below atomic; the
  condition variable is the guard \<open>drained\<close>.
\<close>

section \<open>Actions\<close>

datatype authorized_action = ActRead | ActPersonalWrite | ActTeamProposal | ActReview | ActMembership | ActPromotion

datatype authority_error =
  AuthProduct product_error | AuthUnauthorized | AuthActorForbidden | AuthRoleForbidden | AuthRevoking | AuthStaleLease

definition user_owned :: "catalog_space \<Rightarrow> bool" where
  "user_owned s \<longleftrightarrow> (case sr_owner (cs_space s) of UserOwner p \<Rightarrow> True | TeamOwner t \<Rightarrow> False)"

definition write_refused :: "space_role \<Rightarrow> authority_error + unit" where
  "write_refused role = (if \<not> can_write role then Inl AuthRoleForbidden else Inl AuthActorForbidden)"

definition human_refused :: "actor_kind \<Rightarrow> authority_error + unit" where
  "human_refused actor = (if actor = Human then Inl AuthRoleForbidden else Inl AuthActorForbidden)"

fun authorize_action :: "actor_kind \<Rightarrow> space_role \<Rightarrow> catalog_space \<Rightarrow> authorized_action \<Rightarrow> authority_error + unit" where
  "authorize_action actor role space ActRead =
     (if actor \<in> {Human, Agent, System} then Inr () else Inl AuthActorForbidden)"
| "authorize_action actor role space ActPersonalWrite =
     (if user_owned space \<and> can_write role then Inr () else write_refused role)"
| "authorize_action actor role space ActTeamProposal =
     (if \<not> user_owned space \<and> can_write role then Inr () else write_refused role)"
| "authorize_action actor role space ActReview =
     (if actor = Human \<and> can_review role then Inr () else human_refused actor)"
| "authorize_action actor role space ActMembership =
     (if actor = Human \<and> role = Maintainer then Inr () else human_refused actor)"
| "authorize_action actor role space ActPromotion =
     (if actor = Human \<and> role = Maintainer then Inr () else human_refused actor)"

definition product :: "product_error + 'a \<Rightarrow> authority_error + 'a" where
  "product r = (case r of Inl e \<Rightarrow> Inl (AuthProduct e) | Inr v \<Rightarrow> Inr v)"

definition grant_for :: "catalog_deps \<Rightarrow> str \<Rightarrow> actor_kind \<Rightarrow> catalog_space \<Rightarrow> authorized_action \<Rightarrow> i64 \<Rightarrow>
    product_db \<Rightarrow> authority_error + space_grant" where
  "grant_for D prin actor space action now db =
     bind_result (product (role_for prin space now db)) (\<lambda>found.
       case found of None \<Rightarrow> Inl AuthUnauthorized
       | Some role \<Rightarrow>
          bind_result (authorize_action actor role space action) (\<lambda>_.
          bind_result (product (authority_snapshot_for D prin space now db)) (\<lambda>authority.
            Inr \<lparr>sg_space = cs_space space, sg_role = role, sg_authority = authority\<rparr>)))"

section \<open>The gate\<close>

record gate_state =
  gt_active :: nat
  gt_revoking :: bool
  gt_epoch :: u64

definition gate_new :: gate_state where
  "gate_new = \<lparr>gt_active = 0, gt_revoking = False, gt_epoch = 0\<rparr>"

definition enter_lease :: "gate_state \<Rightarrow> authority_error + u64 \<times> gate_state" where
  "enter_lease g = (if gt_revoking g then Inl AuthRevoking else Inr (gt_epoch g, g\<lparr>gt_active := gt_active g + 1\<rparr>))"

definition release_lease :: "gate_state \<Rightarrow> gate_state" where
  "release_lease g = g\<lparr>gt_active := gt_active g - 1\<rparr>"

definition begin_revocation :: "gate_state \<Rightarrow> gate_state" where
  "begin_revocation g = g\<lparr>gt_revoking := True\<rparr>"

definition drained :: "gate_state \<Rightarrow> bool" where
  "drained g \<longleftrightarrow> gt_active g = 0"

definition finish_revocation :: "gate_state \<Rightarrow> gate_state" where
  "finish_revocation g = g\<lparr>gt_epoch := (if unat (gt_epoch g) = 2 ^ 64 - 1 then gt_epoch g else gt_epoch g + 1),
     gt_revoking := False\<rparr>"

section \<open>Leases\<close>

record authorization_lease =
  al_principal :: str
  al_actor :: actor_kind
  al_space :: catalog_space
  al_grant :: space_grant
  al_epoch :: u64

definition lease :: "catalog_deps \<Rightarrow> str \<Rightarrow> actor_kind \<Rightarrow> catalog_space \<Rightarrow> authorized_action \<Rightarrow> i64 \<Rightarrow>
    product_db \<Rightarrow> gate_state \<Rightarrow> (authority_error + authorization_lease) \<times> gate_state" where
  "lease D prin actor space action now db g =
     (case enter_lease g of Inl e \<Rightarrow> (Inl e, g)
      | Inr (epoch, g1) \<Rightarrow>
         (case grant_for D prin actor space action now db of
            Inl e \<Rightarrow> (Inl e, release_lease g1)
          | Inr grant \<Rightarrow> (Inr \<lparr>al_principal = prin, al_actor = actor, al_space = space, al_grant = grant,
                            al_epoch = epoch\<rparr>, g1)))"

text \<open>\<open>None\<close>: it waits for the leases.\<close>

definition revoke_member :: "str \<Rightarrow> str \<Rightarrow> product_db \<Rightarrow> gate_state \<Rightarrow>
    ((authority_error + bool) \<times> product_db \<times> gate_state) option" where
  "revoke_member team prin db g =
     (let g1 = begin_revocation g in
      if \<not> drained g1 then None
      else Some (case revoke_team_member team prin db of
          Inl e \<Rightarrow> (Inl (AuthProduct e), db, finish_revocation g1)
        | Inr (removed, db1) \<Rightarrow> (Inr removed, db1, finish_revocation g1)))"

definition reauthorize :: "catalog_deps \<Rightarrow> authorization_lease \<Rightarrow> authorized_action \<Rightarrow> i64 \<Rightarrow> product_db \<Rightarrow>
    gate_state \<Rightarrow> authority_error + space_grant" where
  "reauthorize D l action now db g =
     (if gt_epoch g \<noteq> al_epoch l then Inl AuthStaleLease
      else bind_result (grant_for D (al_principal l) (al_actor l) (al_space l) action now db) (\<lambda>fresh.
        if sg_authority fresh \<noteq> sg_authority (al_grant l) then Inl AuthStaleLease else Inr fresh))"

definition lease_review_authorization :: "catalog_deps \<Rightarrow> authorization_lease \<Rightarrow> i64 \<Rightarrow> product_db \<Rightarrow> gate_state \<Rightarrow>
    authority_error + review_authorization" where
  "lease_review_authorization D l now db g =
     bind_result (reauthorize D l ActReview now db g) (\<lambda>fresh.
       case review_authorization_new (al_actor l) (al_principal l) (sg_role fresh) (sg_authority fresh) of
         Inl e \<Rightarrow> Inl AuthUnauthorized | Inr r \<Rightarrow> Inr r)"

end
