(* ===== verification/Om_CatalogProps.thy ===== *)
theory Om_CatalogProps
  imports Om_Catalog
begin

text \<open>
  The catalog as a transition system: every transaction is a step. The catalog generation counts the
  changes of teams, memberships, projects, workspaces and spaces; the invariant says that ids, roots
  and owner keys of spaces are unique and that every row decodes.
\<close>

section \<open>Steps\<close>

text \<open>What the types of the identifiers guarantee.\<close>

definition space_typed :: "catalog_deps \<Rightarrow> space_ref \<Rightarrow> str \<Rightarrow> root_key \<Rightarrow> bool" where
  "space_typed D space profile root \<longleftrightarrow> version_num (cd_space D) (sr_id space) = 7 \<and> valid_profile_name profile \<and>
     (case sr_owner space of UserOwner p \<Rightarrow> opaque_id_new ''principal'' p = Inr p
      | TeamOwner t \<Rightarrow> opaque_id_new ''team'' t = Inr t) \<and>
     (case sr_context space of GlobalContext \<Rightarrow> True | ProjectContext p \<Rightarrow> version_num (cd_space D) p = 7) \<and>
     (case root of LegacyRoot \<Rightarrow> True | SpaceRoot i \<Rightarrow> version_num (cd_space D) i = 7)"

inductive catalog_step :: "catalog_deps \<Rightarrow> product_db \<Rightarrow> product_db \<Rightarrow> bool" for D where
  installation: "ensure_installation_principal D db = Inr (p, db') \<Longrightarrow> catalog_step D db db'"
| team: "create_team D profile label db = Inr (t, db') \<Longrightarrow> catalog_step D db db'"
| grant: "grant_team_role t p role expires now db = Inr (u, db') \<Longrightarrow> catalog_step D db db'"
| revoke: "revoke_team_member t p db = Inr (b, db') \<Longrightarrow> catalog_step D db db'"
| project: "create_project D profile label db = Inr (i, db') \<Longrightarrow> catalog_step D db db'"
| workspace: "map_workspace D profile w i f db = Inr (u, db') \<Longrightarrow> catalog_step D db db'"
| insert: "space_typed D space profile root \<Longrightarrow>
    insert_space D space profile root n manifest state db = Inr (s, db') \<Longrightarrow> catalog_step D db db'"
| bind: "space_typed D \<lparr>sr_id = i, sr_owner = UserOwner p, sr_context = GlobalContext\<rparr> profile LegacyRoot \<Longrightarrow>
    bind_legacy_personal_global D profile p i n manifest db = Inr (s, db') \<Longrightarrow> catalog_step D db db'"
| activate: "activate_space D i manifest db = Inr (s, db') \<Longrightarrow> catalog_step D db db'"
| issue: "issue_context_capability D bearer context expires now db = Inr (u, db') \<Longrightarrow> catalog_step D db db'"
| withdraw: "revoke_context_capability D bearer now db = (b, db') \<Longrightarrow> catalog_step D db db'"

section \<open>Generations\<close>

definition catalog_generation :: "product_db \<Rightarrow> nat" where
  "catalog_generation db = unat (meta_generation (pd_catalog_generation db))"

text \<open>What the catalog generation stands for.\<close>

definition catalog_core :: "product_db \<Rightarrow> team_row list \<times> membership_row list \<times> project_row list \<times>
    workspace_row list \<times> space_row list" where
  "catalog_core db = (pd_teams db, pd_memberships db, pd_projects db, pd_workspaces db, pd_spaces db)"

definition evolves :: "product_db \<Rightarrow> product_db \<Rightarrow> bool" where
  "evolves db db' \<longleftrightarrow> catalog_generation db < catalog_generation db' \<or>
     (catalog_generation db = catalog_generation db' \<and> catalog_core db = catalog_core db')"

lemma evolves_refl [simp]: "evolves db db"
  by (simp add: evolves_def)

lemma evolves_trans: "evolves a b \<Longrightarrow> evolves b c \<Longrightarrow> evolves a c"
  by (auto simp: evolves_def)

lemma bump_generation:
  assumes "bump_catalog_generation db = Inr (g, db')"
  shows "db' = db\<lparr>pd_catalog_generation := Some g\<rparr> \<and> unat g = catalog_generation db + 1"
proof -
  let ?c = "meta_generation (pd_catalog_generation db)"
  have g: "unat ?c \<noteq> 2 ^ 64 - 1" "g = ?c + 1" "db' = db\<lparr>pd_catalog_generation := Some g\<rparr>"
    using assms by (auto simp: bump_catalog_generation_def meta_generation_def Let_def ps_invalid_def split: if_splits)
  have "unat ?c < 2 ^ LENGTH(64)" by (rule unsigned_less)
  then have "unat ?c + 1 < 2 ^ 64" using g(1) by simp
  then have "unat (?c + 1) = unat ?c + 1" by (subst unat_add_lem [THEN iffD1]) auto
  then show ?thesis using g by (simp add: catalog_generation_def)
qed

lemma bumped_Inr:
  assumes "bumped db v = Inr (w, db')"
  shows "w = v" "catalog_generation db' = catalog_generation db + 1"
    "\<exists>g. db' = db\<lparr>pd_catalog_generation := Some g\<rparr>"
proof -
  obtain g where b: "bump_catalog_generation db = Inr (g, db')" and v: "w = v"
    using assms by (auto simp: bumped_def bind_result_Inr)
  show "w = v" by (rule v)
  show "catalog_generation db' = catalog_generation db + 1" "\<exists>g. db' = db\<lparr>pd_catalog_generation := Some g\<rparr>"
    using bump_generation [OF b] by (auto simp: catalog_generation_def meta_generation_def)
qed

lemma core_generation [simp]:
  "catalog_generation (db\<lparr>pd_teams := a\<rparr>) = catalog_generation db"
  "catalog_generation (db\<lparr>pd_memberships := b\<rparr>) = catalog_generation db"
  "catalog_generation (db\<lparr>pd_projects := c\<rparr>) = catalog_generation db"
  "catalog_generation (db\<lparr>pd_workspaces := d\<rparr>) = catalog_generation db"
  "catalog_generation (db\<lparr>pd_spaces := e\<rparr>) = catalog_generation db"
  "catalog_generation (db\<lparr>pd_ids := f\<rparr>) = catalog_generation db"
  "catalog_generation (db\<lparr>pd_capabilities := h\<rparr>) = catalog_generation db"
  "catalog_generation (bump_team t db) = catalog_generation db"
  "catalog_generation (upsert_membership t p r x db) = catalog_generation db"
  "catalog_generation (snd (fresh_uuid D db)) = catalog_generation db"
  by (simp_all add: catalog_generation_def bump_team_def upsert_membership_def fresh_uuid_def)

lemma evolves_bumped: "bumped db1 v = Inr (w, db') \<Longrightarrow> catalog_generation db1 = catalog_generation db \<Longrightarrow> evolves db db'"
  by (drule bumped_Inr(2)) (simp add: evolves_def)

lemma insert_space_Inr:
  assumes "insert_space D space profile root n manifest state db = Inr (s, db')"
  shows "\<exists>g. s = \<lparr>cs_space = space, cs_profile = profile, cs_root_key = root, cs_domain_count = n,
        cs_manifest_hash = manifest, cs_state = state, cs_generation = g\<rparr> \<and>
      unat g = catalog_generation db + 1 \<and> unat g < 2 ^ 63 \<and> 1 \<le> unat n \<and> unat n \<le> 64 \<and> is_blake3_digest manifest \<and>
      db' = db\<lparr>pd_catalog_generation := Some g, pd_spaces := pd_spaces db @ [space_columns D s]\<rparr> \<and>
      (\<forall>r\<in>set (pd_spaces db). sp_id r \<noteq> sp_id (space_columns D s) \<and>
         sp_root_key r \<noteq> sp_root_key (space_columns D s) \<and> space_key r \<noteq> space_key (space_columns D s))"
  using assms
  by (auto simp: insert_space_def bind_result_Inr Let_def ps_invalid_def list_ex_iff
      dest!: bump_generation split: if_splits)

definition activated :: "catalog_deps \<Rightarrow> uuid \<Rightarrow> str \<Rightarrow> u64 \<Rightarrow> space_row \<Rightarrow> space_row" where
  "activated D i manifest g r =
     (if sp_id r = uuid_id_display (cd_space D) i \<and> sp_state r \<in> {''creating'', ''active''}
      then r\<lparr>sp_state := ''active'', sp_manifest_hash := manifest, sp_generation := uint g\<rparr> else r)"

lemma activate_space_Inr:
  assumes "activate_space D i manifest db = Inr (s, db')"
  shows "\<exists>g. unat g = catalog_generation db + 1 \<and> unat g < 2 ^ 63 \<and> is_blake3_digest manifest \<and>
      db' = db\<lparr>pd_catalog_generation := Some g, pd_spaces := map (activated D i manifest g) (pd_spaces db)\<rparr> \<and>
      space_by_id D i db' = Inr (Some s)"
proof -
  obtain g db1 where b: "bump_catalog_generation db = Inr (g, db1)" and h: "is_blake3_digest manifest"
    using assms by (cases "bump_catalog_generation db") (auto simp: activate_space_def bind_result_def ps_invalid_def split: if_splits)
  have "db1 = db\<lparr>pd_catalog_generation := Some g\<rparr>" "unat g = catalog_generation db + 1"
    using bump_generation [OF b] by auto
  then show ?thesis
    using assms h unfolding activate_space_def b activated_def [abs_def]
    by (intro exI [of _ g]) (auto simp: bind_result_def ps_invalid_def Let_def split: if_splits option.splits sum.splits)
qed

lemma generation_some [simp]: "catalog_generation (db\<lparr>pd_catalog_generation := Some g\<rparr>) = unat g"
  by (simp add: catalog_generation_def meta_generation_def)

lemma bind_legacy_Inr:
  "bind_legacy_personal_global D profile p i n manifest db = Inr (s, db') \<Longrightarrow>
     (db' = db \<and> space_by_root D LegacyRoot db = Inr (Some s)) \<or>
     insert_space D \<lparr>sr_id = i, sr_owner = UserOwner p, sr_context = GlobalContext\<rparr> profile LegacyRoot n manifest
       CatalogCreating db = Inr (s, db')"
  by (auto simp: bind_legacy_personal_global_def bind_result_Inr split: option.splits if_splits)

lemma catalog_step_evolves: "catalog_step D db db' \<Longrightarrow> evolves db db'"
proof (induction rule: catalog_step.induct)
  case (installation db p db')
  then show ?case
    by (auto simp: ensure_installation_principal_def bind_result_Inr Let_def ps_invalid_def evolves_def
        fresh_uuid_def catalog_generation_def meta_generation_def catalog_core_def split: option.splits sum.splits if_splits)
next
  case (team profile label db t db')
  then show ?case
    by (auto simp: create_team_def bind_result_Inr Let_def ps_invalid_def fresh_uuid_def
        split: sum.splits if_splits elim!: evolves_bumped)
next
  case (project profile label db i db')
  then show ?case
    by (auto simp: create_project_def bind_result_Inr Let_def fresh_uuid_def split: if_splits elim!: evolves_bumped)
next
  case (activate i manifest db s db')
  then show ?case by (auto simp: evolves_def dest!: activate_space_Inr)
next
  case (withdraw bearer now db b db')
  then show ?case by (auto simp: revoke_context_capability_def Let_def evolves_def catalog_core_def)
next
  case (issue bearer ctx expires now db u db')
  then show ?case
    by (auto simp: issue_context_capability_def ps_invalid_def evolves_def catalog_core_def split: if_splits)
next
  case (insert space profile root n manifest state db s db')
  then show ?case by (auto simp: evolves_def dest!: insert_space_Inr)
next
  case (bind i p profile n manifest db s db')
  from bind_legacy_Inr [OF bind(2)] show ?case by (auto simp: evolves_def dest!: insert_space_Inr)
qed (auto simp: grant_team_role_def revoke_team_member_def map_workspace_def ps_invalid_def Let_def
    split: if_splits option.splits elim!: evolves_bumped)

section \<open>Rows of spaces\<close>

text \<open>The UUID crate reads back what it wrote, in lower case.\<close>

definition uuid_ok :: "catalog_deps \<Rightarrow> bool" where
  "uuid_ok D \<longleftrightarrow> (\<forall>u. parse_str (cd_space D) (hyphenated (cd_space D) u) = Some u \<and>
     \<not> list_ex is_ascii_uppercase (hyphenated (cd_space D) u))"

lemma uuid_read:
  assumes "uuid_ok D"
  shows "uuid_id_from_str (cd_space D) k v = Inr u \<longleftrightarrow>
    v = uuid_id_display (cd_space D) u \<and> version_num (cd_space D) u = 7"
  using assms by (auto simp: uuid_ok_def uuid_id_from_str_def uuid_id_display_def split: option.split)

lemma uuid_text_inj: "uuid_ok D \<Longrightarrow> uuid_id_display (cd_space D) u = uuid_id_display (cd_space D) v \<longleftrightarrow> u = v"
  by (auto simp: uuid_ok_def uuid_id_display_def) (metis option.inject)

lemma opaque_id_Inr: "opaque_id_new k v = Inr w \<longleftrightarrow> w = v \<and> opaque_id_new k v = Inr v"
  by (auto simp: opaque_id_new_def)

lemma profile_name_Inr: "profile_name_new v = Inr w \<longleftrightarrow> w = v \<and> valid_profile_name v"
  by (auto simp: profile_name_new_def)

lemma corrupt_if_Inr: "corrupt_if msg r = Inr v \<longleftrightarrow> r = Inr v"
  by (cases r) (auto simp: corrupt_if_def)

lemma catalog_state_read: "catalog_state_parse v = Inr st \<longleftrightarrow> v = catalog_state_str st"
  by (cases st) (auto simp: catalog_state_parse_def)

lemma uuid_read_back:
  "uuid_ok D \<Longrightarrow> version_num (cd_space D) u = 7 \<Longrightarrow>
     uuid_id_from_str (cd_space D) k (uuid_id_display (cd_space D) u) = Inr u"
  by (simp add: uuid_read)

lemma root_key_read:
  assumes "uuid_ok D"
  shows "root_key_parse D v = Inr k \<longleftrightarrow> v = root_key_str D k \<and>
     (case k of LegacyRoot \<Rightarrow> True | SpaceRoot i \<Rightarrow> version_num (cd_space D) i = 7)"
proof (cases "strip_prefix ''space:'' v")
  case None
  then have "v \<noteq> root_key_str D (SpaceRoot i)" for i by (auto simp: strip_prefix_def starts_with_def split: if_splits)
  then show ?thesis using None by (cases k) (auto simp: root_key_parse_def)
next
  case (Some i)
  then have v: "v = ''space:'' @ i" by (simp add: strip_prefix_Some)
  then show ?thesis using Some
    by (cases k) (auto simp: root_key_parse_def uuid_read_back [OF assms] dest: uuid_read [OF assms, THEN iffD1]
        split: sum.splits)
qed

lemma decode_owner_read:
  "decode_owner k i = Inr w \<longleftrightarrow> (k, i) = owner_columns w \<and>
     (case w of UserOwner p \<Rightarrow> opaque_id_new ''principal'' p = Inr p | TeamOwner t \<Rightarrow> opaque_id_new ''team'' t = Inr t)"
  by (cases w) (auto simp: decode_owner_def bind_result_Inr corrupt_if_Inr dest: opaque_id_Inr [THEN iffD1]
      split: if_splits)

lemma decode_context_read:
  "uuid_ok D \<Longrightarrow> decode_context D k i = Inr c \<longleftrightarrow> (k, i) = context_columns D c \<and>
     (case c of GlobalContext \<Rightarrow> True | ProjectContext p \<Rightarrow> version_num (cd_space D) p = 7)"
  by (cases c) (auto simp: decode_context_def bind_result_Inr corrupt_if_Inr uuid_read split: if_splits)

definition space_bounds :: "catalog_deps \<Rightarrow> catalog_space \<Rightarrow> bool" where
  "space_bounds D s \<longleftrightarrow> space_typed D (cs_space s) (cs_profile s) (cs_root_key s) \<and>
     1 \<le> unat (cs_domain_count s) \<and> unat (cs_domain_count s) \<le> 64 \<and> is_blake3_digest (cs_manifest_hash s)"

lemma uint_word_of_int: "0 \<le> n \<Longrightarrow> n < 2 ^ LENGTH('a) \<Longrightarrow> uint (word_of_int n :: 'a::len word) = n"
  by (simp add: unsigned_of_int take_bit_int_eq_self)

lemma u8_read: "1 \<le> n \<Longrightarrow> n \<le> 64 \<Longrightarrow> uint (word_of_int n :: u8) = n"
  by (rule uint_word_of_int) auto

lemma unat_uint_nat: "unat (w :: 'a::len word) = nat (uint w)"
  by simp

lemma decode_columns:
  assumes "uuid_ok D" "space_bounds D s"
  shows "decode_catalog_space D (space_columns D s) = Inr s"
proof -
  have "1 \<le> uint (cs_domain_count s) \<and> uint (cs_domain_count s) \<le> 64"
    using assms(2) uint_nonnegative [of "cs_domain_count s"]
    unfolding space_bounds_def unat_uint_nat by linarith
  moreover have "decode_owner k i = Inr (sr_owner (cs_space s))" if "owner_columns (sr_owner (cs_space s)) = (k, i)" for k i
    using that assms(2) by (simp add: decode_owner_read space_bounds_def space_typed_def)
  moreover have "decode_context D k i = Inr (sr_context (cs_space s))"
    if "context_columns D (sr_context (cs_space s)) = (k, i)" for k i
    using that assms by (simp add: decode_context_read space_bounds_def space_typed_def)
  ultimately show ?thesis
    using assms
    by (cases s; cases "cs_space s")
      (auto simp: decode_catalog_space_def space_columns_def space_bounds_def space_typed_def uuid_read_back
        corrupt_if_def profile_name_new_def root_key_read [THEN iffD2] catalog_state_read [THEN iffD2] to_generation_def
        split: prod.splits)
qed

lemma decode_Inr:
  assumes "uuid_ok D" "sp_generation r < 2 ^ 64" and d: "decode_catalog_space D r = Inr s"
  shows "r = space_columns D s \<and> space_bounds D s"
proof -
  have n: "1 \<le> sp_domain_count r" "sp_domain_count r \<le> 64" and g: "0 \<le> sp_generation r"
    using d by (auto simp: decode_catalog_space_def bind_result_Inr to_generation_def split: if_splits)
  have w: "uint (word_of_int (sp_domain_count r) :: u8) = sp_domain_count r"
    "uint (word_of_int (sp_generation r) :: u64) = sp_generation r"
    "unat (word_of_int (sp_domain_count r) :: u8) = nat (sp_domain_count r)"
    using u8_read [OF n] uint_word_of_int [where 'a = 64, OF g] assms(2)
    by (simp_all add: unat_uint_nat del: nat_uint_eq)
  obtain i p ownr ctx k st where "sp_id r = uuid_id_display (cd_space D) i" "version_num (cd_space D) i = 7"
    "sp_profile r = p" "valid_profile_name p" "decode_owner (sp_owner_kind r) (sp_owner_id r) = Inr ownr"
    "decode_context D (sp_context_kind r) (sp_project_key r) = Inr ctx" "is_blake3_digest (sp_manifest_hash r)"
    "root_key_parse D (sp_root_key r) = Inr k" "catalog_state_parse (sp_state r) = Inr st"
    and s: "s = \<lparr>cs_space = \<lparr>sr_id = i, sr_owner = ownr, sr_context = ctx\<rparr>, cs_profile = p, cs_root_key = k,
      cs_domain_count = word_of_int (sp_domain_count r), cs_manifest_hash = sp_manifest_hash r, cs_state = st,
      cs_generation = word_of_int (sp_generation r)\<rparr>"
    using d by (auto simp: decode_catalog_space_def bind_result_Inr corrupt_if_Inr uuid_read [OF assms(1)]
        profile_name_Inr to_generation_def split: if_splits)
  then show ?thesis
    unfolding s using n w
    by (auto simp: decode_owner_read decode_context_read [OF assms(1)] root_key_read [OF assms(1)] catalog_state_read
        space_columns_def space_bounds_def space_typed_def split: prod.splits intro!: space_row.equality)
qed

section \<open>The invariant\<close>

definition spaces_ok :: "catalog_deps \<Rightarrow> product_db \<Rightarrow> bool" where
  "spaces_ok D db \<longleftrightarrow> distinct (map sp_id (pd_spaces db)) \<and> distinct (map sp_root_key (pd_spaces db)) \<and>
     distinct (map space_key (pd_spaces db)) \<and>
     (\<forall>r\<in>set (pd_spaces db). \<exists>s. space_bounds D s \<and> r = space_columns D s \<and>
        unat (cs_generation s) \<le> catalog_generation db)"

definition members_ok :: "product_db \<Rightarrow> bool" where
  "members_ok db \<longleftrightarrow> distinct (map (\<lambda>r. (ms_team r, ms_principal r)) (pd_memberships db)) \<and>
     (\<forall>r\<in>set (pd_memberships db). (\<exists>role. ms_role r = role_tag role) \<and>
        ms_team r \<in> tm_id ` set (pd_teams db) \<and> ms_principal r \<in> pp_id ` set (pd_principals db))"

definition workspaces_ok :: "product_db \<Rightarrow> bool" where
  "workspaces_ok db \<longleftrightarrow> distinct (map (\<lambda>r. (wr_profile r, wr_path r)) (pd_workspaces db)) \<and>
     (\<forall>r\<in>set (pd_workspaces db). (wr_project r, wr_profile r) \<in> (\<lambda>p. (pj_id p, pj_profile p)) ` set (pd_projects db))"

definition catalog_ok :: "catalog_deps \<Rightarrow> product_db \<Rightarrow> bool" where
  "catalog_ok D db \<longleftrightarrow> spaces_ok D db \<and> members_ok db \<and> workspaces_ok db \<and>
     distinct (map cp_token_hash (pd_capabilities db))"

definition product_new :: product_db where
  "product_new = \<lparr>pd_principals = [], pd_teams = [], pd_memberships = [], pd_projects = [], pd_workspaces = [],
     pd_spaces = [], pd_capabilities = [], pd_installation = None, pd_credential_generation = None,
     pd_catalog_generation = None, pd_ids = 0\<rparr>"

lemma product_new_ok: "catalog_ok D product_new"
  by (simp add: catalog_ok_def spaces_ok_def members_ok_def workspaces_ok_def product_new_def)

text \<open>The parts of the invariant read different tables.\<close>

lemma spaces_ok_same:
  "spaces_ok D db \<Longrightarrow> pd_spaces db' = pd_spaces db \<Longrightarrow> catalog_generation db \<le> catalog_generation db' \<Longrightarrow> spaces_ok D db'"
  unfolding spaces_ok_def by (fastforce intro: le_trans)

lemma members_ok_same:
  "members_ok db \<Longrightarrow> pd_memberships db' = pd_memberships db \<Longrightarrow> tm_id ` set (pd_teams db) \<subseteq> tm_id ` set (pd_teams db') \<Longrightarrow>
     pp_id ` set (pd_principals db) \<subseteq> pp_id ` set (pd_principals db') \<Longrightarrow> members_ok db'"
  unfolding members_ok_def by (metis subsetD)

lemma workspaces_ok_same:
  "workspaces_ok db \<Longrightarrow> pd_workspaces db' = pd_workspaces db \<Longrightarrow> set (pd_projects db) \<subseteq> set (pd_projects db') \<Longrightarrow>
     workspaces_ok db'"
  using image_mono [of "set (pd_projects db)" "set (pd_projects db')" "\<lambda>p. (pj_id p, pj_profile p)"]
  unfolding workspaces_ok_def by (simp add: subset_iff)

lemma evolves_le: "evolves db db' \<Longrightarrow> catalog_generation db \<le> catalog_generation db'"
  by (auto simp: evolves_def)

lemma generation_update [simp]:
  "spaces_ok D (db\<lparr>pd_catalog_generation := Some g\<rparr>) \<longleftrightarrow>
     (\<forall>r\<in>set (pd_spaces db). \<exists>s. space_bounds D s \<and> r = space_columns D s \<and> cs_generation s \<le> g) \<and>
     distinct (map sp_id (pd_spaces db)) \<and> distinct (map sp_root_key (pd_spaces db)) \<and> distinct (map space_key (pd_spaces db))"
  "members_ok (db\<lparr>pd_catalog_generation := Some g\<rparr>) \<longleftrightarrow> members_ok db"
  "workspaces_ok (db\<lparr>pd_catalog_generation := Some g\<rparr>) \<longleftrightarrow> workspaces_ok db"
  by (auto simp: spaces_ok_def members_ok_def workspaces_ok_def word_le_nat_alt)

lemma spaces_ok_insert:
  assumes "spaces_ok D db" "space_typed D space profile root"
    and i: "insert_space D space profile root n manifest state db = Inr (s, db')"
  shows "spaces_ok D db' \<and> space_bounds D s"
proof -
  obtain g where g: "unat g = catalog_generation db + 1" "cs_generation s = g"
      "db' = db\<lparr>pd_catalog_generation := Some g, pd_spaces := pd_spaces db @ [space_columns D s]\<rparr>"
      "\<forall>r\<in>set (pd_spaces db). sp_id r \<noteq> sp_id (space_columns D s) \<and>
         sp_root_key r \<noteq> sp_root_key (space_columns D s) \<and> space_key r \<noteq> space_key (space_columns D s)"
    and b: "space_bounds D s"
    using insert_space_Inr [OF i] assms(2) by (auto simp: space_bounds_def)
  have "\<exists>s'. space_bounds D s' \<and> r = space_columns D s' \<and> unat (cs_generation s') \<le> catalog_generation db'"
    if "r \<in> set (pd_spaces db')" for r
  proof (cases "r \<in> set (pd_spaces db)")
    case True
    then obtain s' where "space_bounds D s'" "r = space_columns D s'" "unat (cs_generation s') \<le> catalog_generation db"
      using assms(1) by (auto simp: spaces_ok_def)
    then show ?thesis using g by (intro exI [of _ s']) simp
  next
    case False
    then show ?thesis using that g b by (intro exI [of _ s]) simp
  qed
  moreover have "distinct (map sp_id (pd_spaces db')) \<and> distinct (map sp_root_key (pd_spaces db')) \<and>
      distinct (map space_key (pd_spaces db'))"
    using assms(1) g(3,4) by (auto simp: spaces_ok_def)
  ultimately show ?thesis using b by (simp add: spaces_ok_def)
qed

lemma activated_columns:
  assumes "is_blake3_digest manifest" "space_bounds D s"
  shows "\<exists>s'. space_bounds D s' \<and> activated D i manifest g (space_columns D s) = space_columns D s' \<and>
    (cs_generation s' = g \<or> s' = s)"
proof (cases "sp_id (space_columns D s) = uuid_id_display (cd_space D) i \<and> sp_state (space_columns D s) \<in> {''creating'', ''active''}")
  case True
  let ?s = "s\<lparr>cs_state := CatalogActive, cs_manifest_hash := manifest, cs_generation := g\<rparr>"
  have "space_bounds D ?s" using assms by (simp add: space_bounds_def)
  moreover have "activated D i manifest g (space_columns D s) = space_columns D ?s"
    using True unfolding activated_def by (simp add: space_columns_def split: prod.splits)
  ultimately show ?thesis by (intro exI [of _ ?s]) simp
qed (use assms in \<open>auto simp: activated_def\<close>)

lemma activated_same: "sp_id (activated D i m g r) = sp_id r" "sp_root_key (activated D i m g r) = sp_root_key r"
  "space_key (activated D i m g r) = space_key r"
  by (simp_all add: activated_def space_key_def)

lemma spaces_ok_activate:
  assumes "spaces_ok D db" and a: "activate_space D i manifest db = Inr (s, db')"
  shows "spaces_ok D db'"
proof -
  obtain g where g: "unat g = catalog_generation db + 1" "is_blake3_digest manifest"
      "db' = db\<lparr>pd_catalog_generation := Some g, pd_spaces := map (activated D i manifest g) (pd_spaces db)\<rparr>"
    using activate_space_Inr [OF a] by auto
  have "\<exists>s'. space_bounds D s' \<and> activated D i manifest g r = space_columns D s' \<and> unat (cs_generation s') \<le> unat g"
    if "r \<in> set (pd_spaces db)" for r
  proof -
    from that assms(1) obtain s0 where s0: "space_bounds D s0" "r = space_columns D s0"
        "unat (cs_generation s0) \<le> catalog_generation db"
      by (auto simp: spaces_ok_def)
    from activated_columns [OF g(2) s0(1), of i g] obtain s' where
      "space_bounds D s'" "activated D i manifest g r = space_columns D s'" "cs_generation s' = g \<or> s' = s0"
      using s0(2) by auto
    then show ?thesis using s0(3) g(1) by (intro exI [of _ s']) auto
  qed
  then show ?thesis using assms(1) g(3) by (simp add: spaces_ok_def activated_same comp_def)
qed

lemma members_ok_upsert:
  assumes "members_ok db" "t \<in> tm_id ` set (pd_teams db)" "p \<in> pp_id ` set (pd_principals db)"
  shows "members_ok (upsert_membership t p role x db)"
proof (cases "list_ex (is_member t p) (pd_memberships db)")
  case True
  let ?h = "\<lambda>r. if is_member t p r
      then r\<lparr>ms_role := role_tag role, ms_generation := ms_generation r + 1, ms_expires := x\<rparr> else r"
  have "map (\<lambda>r. (ms_team r, ms_principal r)) (map ?h (pd_memberships db)) =
      map (\<lambda>r. (ms_team r, ms_principal r)) (pd_memberships db)" by simp
  then have "distinct (map (\<lambda>r. (ms_team r, ms_principal r)) (map ?h (pd_memberships db)))"
    using assms(1) by (simp only: members_ok_def)
  moreover have "upsert_membership t p role x db = db\<lparr>pd_memberships := map ?h (pd_memberships db)\<rparr>"
    using True by (simp add: upsert_membership_def)
  ultimately show ?thesis using assms unfolding members_ok_def by (auto simp del: map_map)
next
  case False
  then show ?thesis using assms by (auto simp: members_ok_def upsert_membership_def list_ex_iff is_member_def)
qed

lemma members_ok_team: "members_ok (bump_team t db) \<longleftrightarrow> members_ok db"
proof -
  have "map tm_id (pd_teams (bump_team t db)) = map tm_id (pd_teams db)" by (simp add: bump_team_def)
  then have "tm_id ` set (pd_teams (bump_team t db)) = tm_id ` set (pd_teams db)" by (metis list.set_map)
  then show ?thesis by (simp add: members_ok_def) (simp add: bump_team_def)
qed

lemma members_ok_filter: "members_ok db \<Longrightarrow> members_ok (db\<lparr>pd_memberships := filter P (pd_memberships db)\<rparr>)"
  by (auto simp: members_ok_def distinct_map_filter)

lemma map_workspace_Inr:
  assumes "map_workspace D profile w i f db = Inr (u, db')"
  shows "\<exists>g row. wr_profile row = profile \<and> wr_path row = wk_path w \<and> wr_project row = i \<and>
      wr_platform row = wk_platform w \<and> wr_version row = wk_normalizer_version w \<and>
      (i, profile) \<in> (\<lambda>p. (pj_id p, pj_profile p)) ` set (pd_projects db) \<and>
      db' = db\<lparr>pd_catalog_generation := Some g, pd_workspaces :=
        (if list_ex (at_path profile w) (pd_workspaces db)
         then map (\<lambda>r. if at_path profile w r then row else r) (pd_workspaces db)
         else pd_workspaces db @ [row])\<rparr>"
proof -
  have "\<exists>p\<in>set (pd_projects db). pj_id p = i \<and> pj_profile p = profile"
    using assms by (auto simp: map_workspace_def ps_invalid_def list_ex_iff split: if_splits)
  then have m: "(i, profile) \<in> (\<lambda>p. (pj_id p, pj_profile p)) ` set (pd_projects db)" by force
  show ?thesis
    using assms m
    by (intro exI [of _ "meta_generation (pd_catalog_generation db')"]
          exI [of _ "\<lparr>wr_id = workspace_row_id D profile w, wr_profile = profile, wr_platform = wk_platform w,
             wr_version = wk_normalizer_version w, wr_path = wk_path w, wr_project = i, wr_fingerprint = f\<rparr>"])
      (auto simp: map_workspace_def Let_def ps_invalid_def meta_generation_def dest!: bumped_Inr(3) split: if_splits)
qed

lemma workspaces_ok_map:
  assumes "workspaces_ok db" and m: "map_workspace D profile w i f db = Inr (u, db')"
  shows "workspaces_ok db'"
proof -
  obtain g row where r: "wr_profile row = profile" "wr_path row = wk_path w" "wr_project row = i"
      "(i, profile) \<in> (\<lambda>p. (pj_id p, pj_profile p)) ` set (pd_projects db)"
    and d: "db' = db\<lparr>pd_catalog_generation := Some g, pd_workspaces :=
        (if list_ex (at_path profile w) (pd_workspaces db)
         then map (\<lambda>r. if at_path profile w r then row else r) (pd_workspaces db)
         else pd_workspaces db @ [row])\<rparr>"
    using map_workspace_Inr [OF m] by auto
  have "map (\<lambda>r. (wr_profile r, wr_path r)) (map (\<lambda>r. if at_path profile w r then row else r) ws) =
      map (\<lambda>r. (wr_profile r, wr_path r)) ws" for ws
    using r by (simp add: at_path_def)
  then have "distinct (map (\<lambda>r. (wr_profile r, wr_path r)) (pd_workspaces db'))"
    using assms(1) r d by (auto simp: workspaces_ok_def at_path_def list_ex_iff simp del: map_map)
  moreover have "(wr_project r, wr_profile r) \<in> (\<lambda>p. (pj_id p, pj_profile p)) ` set (pd_projects db')"
    if "r \<in> set (pd_workspaces db')" for r
    using that assms(1) r d unfolding workspaces_ok_def by (auto split: if_splits)
  ultimately show ?thesis by (simp add: workspaces_ok_def)
qed

lemma catalog_parts_same:
  assumes "catalog_ok D db" "catalog_core db' = catalog_core db" "catalog_generation db \<le> catalog_generation db'"
    "pp_id ` set (pd_principals db) \<subseteq> pp_id ` set (pd_principals db')" "distinct (map cp_token_hash (pd_capabilities db'))"
  shows "catalog_ok D db'"
  using assms spaces_ok_same [of D db db'] members_ok_same [of db db'] workspaces_ok_same [of db db']
  by (simp add: catalog_ok_def catalog_core_def)

lemma catalog_parts_core:
  "catalog_ok D db \<Longrightarrow> pd_spaces db' = pd_spaces db \<Longrightarrow> pd_capabilities db' = pd_capabilities db \<Longrightarrow>
     catalog_generation db \<le> catalog_generation db' \<Longrightarrow> members_ok db' \<Longrightarrow> workspaces_ok db' \<Longrightarrow> catalog_ok D db'"
  using spaces_ok_same [of D db db'] by (simp add: catalog_ok_def)

lemma find_key: "find (\<lambda>r. f r = k) xs = Some x \<Longrightarrow> k \<in> f ` set xs"
  by (induction xs) (auto split: if_splits)

lemma bump_team_fields [simp]:
  "pd_spaces (bump_team t db) = pd_spaces db" "pd_capabilities (bump_team t db) = pd_capabilities db"
  "pd_memberships (bump_team t db) = pd_memberships db" "pd_principals (bump_team t db) = pd_principals db"
  "workspaces_ok (bump_team t db) \<longleftrightarrow> workspaces_ok db"
  by (simp_all add: bump_team_def workspaces_ok_def)

lemma upsert_fields [simp]:
  "pd_spaces (upsert_membership t p r x db) = pd_spaces db"
  "pd_capabilities (upsert_membership t p r x db) = pd_capabilities db"
  "workspaces_ok (upsert_membership t p r x db) \<longleftrightarrow> workspaces_ok db"
  by (simp_all add: upsert_membership_def workspaces_ok_def)

lemma grant_team_role_Inr:
  "grant_team_role t p role expires now db = Inr (u, db') \<Longrightarrow>
     t \<in> tm_id ` set (pd_teams db) \<and> p \<in> pp_id ` set (pd_principals db) \<and>
     (\<exists>g. db' = (bump_team t (upsert_membership t p role expires db))\<lparr>pd_catalog_generation := Some g\<rparr>)"
  by (cases "find (\<lambda>r. tm_id r = t) (pd_teams db)"; cases "find (\<lambda>r. pp_id r = p) (pd_principals db)")
    (auto simp: grant_team_role_def ps_invalid_def dest: find_key bumped_Inr(3) split: if_splits)

lemma revoke_team_member_Inr:
  "revoke_team_member t p db = Inr (b, db') \<Longrightarrow>
     (\<not> b \<and> db' = db \<and> \<not> list_ex (is_member t p) (pd_memberships db)) \<or>
     (b \<and> (\<exists>g. db' = (bump_team t (db\<lparr>pd_memberships := filter (\<lambda>r. \<not> is_member t p r) (pd_memberships db)\<rparr>))
        \<lparr>pd_catalog_generation := Some g\<rparr>))"
  by (auto simp: revoke_team_member_def dest: bumped_Inr(1,3) split: if_splits)

lemma issue_Inr:
  "issue_context_capability D bearer ctx expires now db = Inr (u, db') \<Longrightarrow>
     capability_hash D bearer \<notin> cp_token_hash ` set (pd_capabilities db) \<and>
     length (context_json D ctx) \<le> MAX_CAPABILITY_BYTES \<and> sint now < sint expires \<and>
     db' = db\<lparr>pd_capabilities := pd_capabilities db @ [\<lparr>cp_token_hash = capability_hash D bearer,
       cp_principal = mc_principal ctx, cp_context = context_json D ctx, cp_expires = expires, cp_revoked = None\<rparr>]\<rparr>"
  by (auto simp: issue_context_capability_def ps_invalid_def list_ex_iff image_iff split: if_splits)

lemma catalog_step_ok:
  assumes "catalog_step D db db'" "catalog_ok D db"
  shows "catalog_ok D db'"
  using assms(1)
proof cases
  case (installation p)
  then show ?thesis
    by (intro catalog_parts_same [OF assms(2)] evolves_le [OF catalog_step_evolves [OF assms(1)]])
      (use assms(2) in \<open>auto simp: ensure_installation_principal_def bind_result_Inr Let_def ps_invalid_def fresh_uuid_def
          catalog_core_def catalog_ok_def split: option.splits sum.splits if_splits\<close>)
next
  case (team profile label t)
  then show ?thesis
    by (intro catalog_parts_core [OF assms(2) _ _ evolves_le [OF catalog_step_evolves [OF assms(1)]]])
      (use assms(2) in \<open>auto simp: create_team_def bind_result_Inr Let_def ps_invalid_def fresh_uuid_def
          catalog_ok_def members_ok_def workspaces_ok_def dest!: bumped_Inr(3) split: sum.splits if_splits\<close>)
next
  case (grant t p role expires now u)
  note g = grant_team_role_Inr [OF grant]
  then have "members_ok (upsert_membership t p role expires db)"
    using assms(2) by (intro members_ok_upsert) (auto simp: catalog_ok_def)
  then show ?thesis
    using g assms(2)
    by (intro catalog_parts_core [OF assms(2) _ _ evolves_le [OF catalog_step_evolves [OF assms(1)]]])
      (auto simp: members_ok_team catalog_ok_def)
next
  case (revoke t p b)
  have "members_ok (bump_team t (db\<lparr>pd_memberships := filter (\<lambda>r. \<not> is_member t p r) (pd_memberships db)\<rparr>))"
    using assms(2) by (simp add: members_ok_team members_ok_filter catalog_ok_def)
  moreover have "workspaces_ok (db\<lparr>pd_memberships := ms\<rparr>)" for ms
    using assms(2) by (simp add: catalog_ok_def workspaces_ok_def)
  ultimately show ?thesis
    using revoke_team_member_Inr [OF revoke] assms(2)
    by (intro catalog_parts_core [OF assms(2) _ _ evolves_le [OF catalog_step_evolves [OF assms(1)]]])
      (auto simp: catalog_ok_def)
next
  case (project profile label i)
  then show ?thesis
    by (intro catalog_parts_core [OF assms(2) _ _ evolves_le [OF catalog_step_evolves [OF assms(1)]]])
      (use assms(2) in \<open>auto simp: create_project_def bind_result_Inr Let_def fresh_uuid_def
          catalog_ok_def members_ok_def workspaces_ok_def dest!: bumped_Inr(3) split: if_splits\<close>)
next
  case (workspace profile w i f u)
  have "workspaces_ok db'" using assms(2) workspace by (auto simp: catalog_ok_def intro: workspaces_ok_map)
  then show ?thesis
    using assms(2) map_workspace_Inr [OF workspace]
    by (intro catalog_parts_core [OF assms(2) _ _ evolves_le [OF catalog_step_evolves [OF assms(1)]]])
      (auto simp: catalog_ok_def members_ok_def)
next
  case (insert space profile root n manifest state s)
  have "spaces_ok D db'" using spaces_ok_insert [OF _ insert] assms(2) by (simp add: catalog_ok_def)
  then show ?thesis
    using assms(2) insert_space_Inr [OF insert(2)] by (auto simp: catalog_ok_def members_ok_def workspaces_ok_def)
next
  case (bind i p profile n manifest s)
  from bind_legacy_Inr [OF bind(2)] show ?thesis
  proof (elim disjE conjE)
    assume i: "insert_space D \<lparr>sr_id = i, sr_owner = UserOwner p, sr_context = GlobalContext\<rparr> profile LegacyRoot n
        manifest CatalogCreating db = Inr (s, db')"
    have "spaces_ok D db'" using spaces_ok_insert [OF _ bind(1) i] assms(2) by (simp add: catalog_ok_def)
    then show ?thesis
      using assms(2) insert_space_Inr [OF i] by (auto simp: catalog_ok_def members_ok_def workspaces_ok_def)
  qed (use assms(2) in simp)
next
  case (activate i manifest s)
  have "spaces_ok D db'" using spaces_ok_activate [OF _ activate] assms(2) by (simp add: catalog_ok_def)
  then show ?thesis
    using assms(2) activate_space_Inr [OF activate] by (auto simp: catalog_ok_def members_ok_def workspaces_ok_def)
next
  case (issue bearer ctx expires now u)
  from issue_Inr [OF issue] show ?thesis
    by (intro catalog_parts_same [OF assms(2)] evolves_le [OF catalog_step_evolves [OF assms(1)]])
      (use assms(2) in \<open>auto simp: catalog_core_def catalog_ok_def\<close>)
next
  case (withdraw bearer now b)
  have "map cp_token_hash (pd_capabilities db') = map cp_token_hash (pd_capabilities db)"
    using withdraw by (auto simp: revoke_context_capability_def Let_def)
  then have "distinct (map cp_token_hash (pd_capabilities db'))" using assms(2) by (simp add: catalog_ok_def)
  then show ?thesis
    using withdraw
    by (intro catalog_parts_same [OF assms(2)] evolves_le [OF catalog_step_evolves [OF assms(1)]])
      (auto simp: revoke_context_capability_def Let_def catalog_core_def)
qed

end
