(* ===== verification/Om_CatalogTheorems.thy ===== *)
theory Om_CatalogTheorems
  imports Om_CatalogProps
begin

text \<open>
  The properties of the product catalog: its rows read back as what was written, names and roots of
  spaces are never given twice, pages list every active space once, and a revoked capability stays so.
\<close>

section \<open>Rows and roots\<close>

text \<open>
  What the catalog writes is what it reads: a row of the spaces table decodes to a space exactly when
  its columns are the columns of that space, whose identifiers, bounds and manifest hash are valid.
\<close>

lemma catalog_row_roundtrip:
  assumes "uuid_ok D" "sp_generation r < 2 ^ 64"
  shows "decode_catalog_space D r = Inr s \<longleftrightarrow> r = space_columns D s \<and> space_bounds D s"
  using decode_Inr [OF assms] decode_columns [OF assms(1)] by blast

definition same_place :: "space_row \<Rightarrow> space_row \<Rightarrow> bool" where
  "same_place r r' \<longleftrightarrow> sp_id r' = sp_id r \<and> sp_root_key r' = sp_root_key r \<and> space_key r' = space_key r"

lemma same_place_refl [simp]: "same_place r r"
  by (simp add: same_place_def)

lemma catalog_step_spaces:
  assumes "catalog_step D db db'" "r \<in> set (pd_spaces db)"
  shows "\<exists>r'\<in>set (pd_spaces db'). same_place r r'"
  using assms(1)
proof cases
  case (installation p)
  then show ?thesis using assms(2)
    by (auto simp: ensure_installation_principal_def bind_result_Inr Let_def ps_invalid_def fresh_uuid_def
        split: option.splits sum.splits if_splits intro!: bexI [of _ r])
next
  case (team profile label t)
  then show ?thesis using assms(2)
    by (auto simp: create_team_def bind_result_Inr Let_def ps_invalid_def fresh_uuid_def
        dest!: bumped_Inr(3) split: sum.splits if_splits intro!: bexI [of _ r])
next
  case (grant t p role expires now u)
  from grant_team_role_Inr [OF grant] show ?thesis using assms(2) by (auto intro!: bexI [of _ r])
next
  case (revoke t p b)
  from revoke_team_member_Inr [OF revoke] show ?thesis using assms(2) by (auto intro!: bexI [of _ r])
next
  case (project profile label i)
  then show ?thesis using assms(2)
    by (auto simp: create_project_def bind_result_Inr Let_def fresh_uuid_def
        dest!: bumped_Inr(3) split: if_splits intro!: bexI [of _ r])
next
  case (workspace profile w i f u)
  from map_workspace_Inr [OF workspace] show ?thesis using assms(2) by (auto intro!: bexI [of _ r])
next
  case (insert space profile root n manifest state s)
  from insert_space_Inr [OF insert(2)] show ?thesis using assms(2) by (auto intro!: bexI [of _ r])
next
  case (bind i p profile n manifest s)
  from bind_legacy_Inr [OF bind(2)] show ?thesis
    using assms(2) by (auto dest!: insert_space_Inr intro!: bexI [of _ r])
next
  case (activate i manifest s)
  from activate_space_Inr [OF activate] obtain g where
    "db' = db\<lparr>pd_catalog_generation := Some g, pd_spaces := map (activated D i manifest g) (pd_spaces db)\<rparr>"
    by blast
  then have "activated D i manifest g r \<in> set (pd_spaces db')" using assms(2) by simp
  then show ?thesis by (rule bexI [rotated]) (simp add: same_place_def activated_same)
next
  case (issue bearer ctx expires now u)
  from issue_Inr [OF issue] show ?thesis using assms(2) by (auto intro!: bexI [of _ r])
next
  case (withdraw bearer now b)
  then have "pd_spaces db' = pd_spaces db" by (auto simp: revoke_context_capability_def Let_def)
  then show ?thesis using assms(2) by (intro bexI [of _ r]) simp_all
qed

lemma catalog_steps_spaces:
  "(catalog_step D)\<^sup>*\<^sup>* db db' \<Longrightarrow> r \<in> set (pd_spaces db) \<Longrightarrow> \<exists>r'\<in>set (pd_spaces db'). same_place r r'"
proof (induction rule: rtranclp_induct)
  case (step db' db'')
  then obtain r' where "r' \<in> set (pd_spaces db')" "same_place r r'" by auto
  with catalog_step_spaces [OF step.hyps(2)] show ?case by (fastforce simp: same_place_def)
qed (auto intro: bexI [of _ r])

lemma catalog_steps_ok: "(catalog_step D)\<^sup>*\<^sup>* db db' \<Longrightarrow> catalog_ok D db \<Longrightarrow> catalog_ok D db'"
  by (induction rule: rtranclp_induct) (auto intro: catalog_step_ok)

text \<open>
  C22. In every catalog that can arise, no two spaces share an identifier, a root or a profile with owner and
  context, every row decodes, memberships have one row per team and principal with a valid role, and a
  workspace belongs to a project of its profile. And for ever after, an identifier, root and owner key
  that was given to a space belongs to that space: no closed root is given to another one.
\<close>

theorem catalog_consistent:
  assumes "uuid_ok D" "(catalog_step D)\<^sup>*\<^sup>* product_new db" "(catalog_step D)\<^sup>*\<^sup>* db db'"
  shows "distinct (map sp_id (pd_spaces db)) \<and> distinct (map sp_root_key (pd_spaces db)) \<and>
    distinct (map space_key (pd_spaces db)) \<and>
    (\<forall>r\<in>set (pd_spaces db). (\<exists>s. decode_catalog_space D r = Inr s) \<and>
       (\<exists>!r'. r' \<in> set (pd_spaces db') \<and> (sp_id r' = sp_id r \<or> sp_root_key r' = sp_root_key r \<or> space_key r' = space_key r))) \<and>
    members_ok db \<and> workspaces_ok db"
proof -
  have ok: "catalog_ok D db" using catalog_steps_ok [OF assms(2) product_new_ok] .
  have ok': "catalog_ok D db'" using catalog_steps_ok [OF assms(3) ok] .
  have "\<exists>!r'. r' \<in> set (pd_spaces db') \<and> (sp_id r' = sp_id r \<or> sp_root_key r' = sp_root_key r \<or> space_key r' = space_key r)"
    if r: "r \<in> set (pd_spaces db)" for r
  proof -
    obtain r' where r': "r' \<in> set (pd_spaces db')" "same_place r r'" using catalog_steps_spaces [OF assms(3) r] by auto
    show ?thesis
    proof (rule ex1I [of _ r'])
      fix q assume "q \<in> set (pd_spaces db') \<and> (sp_id q = sp_id r \<or> sp_root_key q = sp_root_key r \<or> space_key q = space_key r)"
      then show "q = r'"
        using r' ok' inj_onD [of sp_id "set (pd_spaces db')" q r'] inj_onD [of sp_root_key "set (pd_spaces db')" q r']
          inj_onD [of space_key "set (pd_spaces db')" q r']
        by (auto simp: catalog_ok_def spaces_ok_def same_place_def distinct_map)
    qed (use r' in \<open>auto simp: same_place_def\<close>)
  qed
  moreover have "\<exists>s. decode_catalog_space D r = Inr s" if "r \<in> set (pd_spaces db)" for r
    using that ok decode_columns [OF assms(1)] by (fastforce simp: catalog_ok_def spaces_ok_def)
  ultimately show ?thesis using ok by (simp add: catalog_ok_def spaces_ok_def)
qed

section \<open>Workspaces\<close>

lemma find_mapped:
  "wr_profile row = profile \<Longrightarrow> wr_path row = wk_path w \<Longrightarrow>
     find (\<lambda>r. at_path profile w r \<and> Q r) (map (\<lambda>r. if at_path profile w r then row else r) ws) =
       (if list_ex (at_path profile w) ws \<and> Q row then Some row else None)"
  by (induction ws) (auto simp: at_path_def)

lemma find_appended:
  "wr_profile row = profile \<Longrightarrow> wr_path row = wk_path w \<Longrightarrow> \<not> list_ex (at_path profile w) ws \<Longrightarrow>
     find (\<lambda>r. at_path profile w r \<and> Q r) (ws @ [row]) = (if Q row then Some row else None)"
  by (induction ws) (auto simp: at_path_def)

lemma find_elsewhere:
  assumes "wr_profile row = profile" "wr_path row = wk_path w" "\<not> (profile' = profile \<and> wk_path w' = wk_path w)"
  shows "find (\<lambda>r. at_path profile' w' r \<and> Q r) (map (\<lambda>r. if at_path profile w r then row else r) ws) =
      find (\<lambda>r. at_path profile' w' r \<and> Q r) ws"
    "find (\<lambda>r. at_path profile' w' r \<and> Q r) (ws @ [row]) = find (\<lambda>r. at_path profile' w' r \<and> Q r) ws"
  using assms by (induction ws) (auto simp: at_path_def)

text \<open>
  A workspace resolves to the project it was mapped to last: after a mapping the lookup gives that
  project, and lookups of other paths or profiles give what they gave before.
\<close>

lemma workspace_lookup:
  assumes "workspaces_ok db" "map_workspace D profile w i f db = Inr (u, db')"
  shows "project_for_workspace profile' w' db' =
    (if profile' = profile \<and> wk_path w' = wk_path w
     then (if wk_platform w' = wk_platform w \<and> wk_normalizer_version w' = wk_normalizer_version w then Some i else None)
     else project_for_workspace profile' w' db)"
proof -
  obtain g row where r: "wr_profile row = profile" "wr_path row = wk_path w" "wr_project row = i"
      "wr_platform row = wk_platform w" "wr_version row = wk_normalizer_version w"
    and d: "db' = db\<lparr>pd_catalog_generation := Some g, pd_workspaces :=
        (if list_ex (at_path profile w) (pd_workspaces db)
         then map (\<lambda>r. if at_path profile w r then row else r) (pd_workspaces db)
         else pd_workspaces db @ [row])\<rparr>"
    using map_workspace_Inr [OF assms(2)] by auto
  show ?thesis
  proof (cases "profile' = profile \<and> wk_path w' = wk_path w")
    case True
    then have q: "project_for_workspace profile' w' db' = map_option wr_project
        (find (\<lambda>r. at_path profile w r \<and> (wr_platform r = wk_platform w' \<and> wr_version r = wk_normalizer_version w'))
          (pd_workspaces db'))"
      by (simp add: project_for_workspace_def at_path_def)
    show ?thesis
    proof (cases "list_ex (at_path profile w) (pd_workspaces db)")
      case mapped: True
      show ?thesis unfolding q using True r mapped by (simp add: d find_mapped [OF r(1,2)])
    next
      case new: False
      show ?thesis unfolding q using True r new by (simp add: d find_appended [OF r(1,2) new])
    qed
  next
    case False
    then show ?thesis by (auto simp: project_for_workspace_def d find_elsewhere [OF r(1,2) False])
  qed
qed

section \<open>Capabilities\<close>

definition rows_of :: "catalog_deps \<Rightarrow> bytes \<Rightarrow> product_db \<Rightarrow> capability_row list" where
  "rows_of D bearer db = filter (\<lambda>r. cp_token_hash r = capability_hash D bearer) (pd_capabilities db)"

lemma rows_of_same: "pd_capabilities db' = pd_capabilities db \<Longrightarrow> rows_of D bearer db' = rows_of D bearer db"
  by (simp add: rows_of_def)

lemma rows_of_none:
  "capability_hash D bearer \<notin> cp_token_hash ` set (pd_capabilities db) \<longleftrightarrow> rows_of D bearer db = []"
  by (force simp: rows_of_def filter_empty_conv)

lemma find_filtered: "find (\<lambda>r. P r \<and> Q r) xs = find Q (filter P xs)"
  by (induction xs) auto

lemma consume_rows:
  "consume_context_capability D bearer now db =
     (case find (\<lambda>r. cp_revoked r = None \<and> sint now < sint (cp_expires r)) (rows_of D bearer db) of
        None \<Rightarrow> Inr None
      | Some r \<Rightarrow> if length (cp_context r) > MAX_CAPABILITY_BYTES
          then Inl (PsCorrupt ''persisted capability context exceeds its bound'')
          else case context_of_json D (cp_context r) of None \<Rightarrow> Inl PsJson
            | Some c \<Rightarrow> Inr (Some (c, cp_expires r)))"
  by (simp add: consume_context_capability_def rows_of_def find_filtered [symmetric])

lemma filter_revoked:
  "filter (\<lambda>r. cp_token_hash r = h)
       (map (\<lambda>r. if cp_token_hash r = k \<and> cp_revoked r = None then r\<lparr>cp_revoked := Some now\<rparr> else r) xs) =
     (if h = k then map (\<lambda>r. if cp_revoked r = None then r\<lparr>cp_revoked := Some now\<rparr> else r) (filter (\<lambda>r. cp_token_hash r = k) xs)
      else filter (\<lambda>r. cp_token_hash r = h) xs)"
  by (induction xs) auto

lemma revoke_rows:
  assumes "revoke_context_capability D bearer now db = (b, db')"
  shows "b \<longleftrightarrow> length (filter (\<lambda>r. cp_revoked r = None) (rows_of D bearer db)) = 1"
    "rows_of D bearer' db' = (if capability_hash D bearer' = capability_hash D bearer
       then map (\<lambda>r. if cp_revoked r = None then r\<lparr>cp_revoked := Some now\<rparr> else r) (rows_of D bearer db)
       else rows_of D bearer' db)"
proof -
  have db': "pd_capabilities db' = map (\<lambda>r. if cp_token_hash r = capability_hash D bearer \<and> cp_revoked r = None
      then r\<lparr>cp_revoked := Some now\<rparr> else r) (pd_capabilities db)"
    using assms by (auto simp: revoke_context_capability_def Let_def)
  show "rows_of D bearer' db' = (if capability_hash D bearer' = capability_hash D bearer
       then map (\<lambda>r. if cp_revoked r = None then r\<lparr>cp_revoked := Some now\<rparr> else r) (rows_of D bearer db)
       else rows_of D bearer' db)"
    unfolding rows_of_def db' filter_revoked ..
  have "filter (\<lambda>r. cp_token_hash r = capability_hash D bearer \<and> cp_revoked r = None) xs =
      filter (\<lambda>r. cp_revoked r = None) (filter (\<lambda>r. cp_token_hash r = capability_hash D bearer) xs)" for xs
    by (induction xs) auto
  then show "b \<longleftrightarrow> length (filter (\<lambda>r. cp_revoked r = None) (rows_of D bearer db)) = 1"
    using assms by (simp add: revoke_context_capability_def Let_def rows_of_def)
qed

lemma catalog_step_rows:
  assumes "catalog_step D db db'" "rows_of D bearer db = [r]"
  shows "\<exists>v. rows_of D bearer db' = [r\<lparr>cp_revoked := v\<rparr>] \<and> (cp_revoked r \<noteq> None \<longrightarrow> v = cp_revoked r)"
proof -
  have keep: ?thesis if "pd_capabilities db' = pd_capabilities db"
    using that assms(2) by (intro exI [of _ "cp_revoked r"]) (simp add: rows_of_def)
  show ?thesis using assms(1)
  proof cases
    case (installation p)
    then show ?thesis
      by (intro keep) (auto simp: ensure_installation_principal_def bind_result_Inr Let_def ps_invalid_def fresh_uuid_def
        split: option.splits sum.splits if_splits)
  next
    case (team profile label t)
    then show ?thesis
      by (intro keep) (auto simp: create_team_def bind_result_Inr Let_def ps_invalid_def fresh_uuid_def
        dest!: bumped_Inr(3) split: sum.splits if_splits)
  next
    case (grant t p role expires now u)
    then show ?thesis by (intro keep) (auto dest!: grant_team_role_Inr)
  next
    case (revoke t p b)
    then show ?thesis by (intro keep) (auto dest!: revoke_team_member_Inr)
  next
    case (project profile label i)
    then show ?thesis
      by (intro keep) (auto simp: create_project_def bind_result_Inr Let_def fresh_uuid_def
        dest!: bumped_Inr(3) split: if_splits)
  next
    case (workspace profile w i f u)
    then show ?thesis by (intro keep) (auto dest!: map_workspace_Inr)
  next
    case (insert space profile root n manifest state s)
    then show ?thesis by (intro keep) (auto dest!: insert_space_Inr)
  next
    case (bind i p profile n manifest s)
    then show ?thesis by (intro keep) (auto dest!: bind_legacy_Inr insert_space_Inr)
  next
    case (activate i manifest s)
    then show ?thesis by (intro keep) (auto dest!: activate_space_Inr)
  next
    case (issue bearer' ctx expires now u)
    note i = issue_Inr [OF issue]
    have "capability_hash D bearer \<in> cp_token_hash ` set (pd_capabilities db)"
      using assms(2) rows_of_none [of D bearer db] by auto
    then have "capability_hash D bearer' \<noteq> capability_hash D bearer" using i by auto
    then have "rows_of D bearer db' = rows_of D bearer db" using i by (simp add: rows_of_def)
    then show ?thesis using assms(2) by (intro exI [of _ "cp_revoked r"]) simp
  next
    case (withdraw bearer' now b)
    show ?thesis
      using revoke_rows(2) [OF withdraw, of bearer] assms(2)
      by (cases "capability_hash D bearer = capability_hash D bearer'"; cases "cp_revoked r")
        (auto simp: rows_of_def intro: exI [of _ "cp_revoked r"])
  qed
qed

lemma catalog_steps_rows:
  assumes "(catalog_step D)\<^sup>*\<^sup>* db db'" "rows_of D bearer db = [r]"
  shows "\<exists>v. rows_of D bearer db' = [r\<lparr>cp_revoked := v\<rparr>] \<and> (cp_revoked r \<noteq> None \<longrightarrow> v = cp_revoked r)"
  using assms(1)
proof (induction rule: rtranclp_induct)
  case base
  then show ?case using assms(2) by (intro exI [of _ "cp_revoked r"]) simp
next
  case (step db' db'')
  then obtain v where v: "rows_of D bearer db' = [r\<lparr>cp_revoked := v\<rparr>]" "cp_revoked r \<noteq> None \<longrightarrow> v = cp_revoked r"
    by auto
  from catalog_step_rows [OF step.hyps(2) v(1)] v(2) show ?case by auto
qed

lemma issued_rows:
  assumes "issue_context_capability D bearer ctx expires t0 db0 = Inr (u, db1)"
  shows "\<exists>r. rows_of D bearer db1 = [r] \<and> cp_context r = context_json D ctx \<and> cp_expires r = expires \<and>
    cp_revoked r = None \<and> length (context_json D ctx) \<le> MAX_CAPABILITY_BYTES"
proof -
  note i = issue_Inr [OF assms]
  then have "rows_of D bearer db0 = []" using rows_of_none by metis
  then show ?thesis using i by (auto simp: rows_of_def)
qed

lemma issue_taken: "rows_of D bearer db = [r] \<Longrightarrow> \<exists>e. issue_context_capability D bearer ctx expires now db = Inl e"
proof (cases "issue_context_capability D bearer ctx expires now db")
  case (Inr p)
  assume "rows_of D bearer db = [r]"
  with Inr show ?thesis using issue_Inr [of D bearer ctx expires now db] rows_of_none [of D bearer db] by (cases p) auto
qed auto

text \<open>
  C26. A bearer capability gives the context it was issued for, until it expires or is revoked, whatever
  else the catalog does meanwhile; revoking says whether it was still in force. Once revoked it is never
  honoured again, and its bearer can not be issued again.
\<close>

theorem capability_lifecycle:
  assumes "context_of_json D (context_json D ctx) = Some ctx"
    "issue_context_capability D bearer ctx expires t0 db0 = Inr (u, db1)"
    "(catalog_step D)\<^sup>*\<^sup>* db1 db" "revoke_context_capability D bearer t1 db = (b, db2)"
    "(catalog_step D)\<^sup>*\<^sup>* db2 db3"
  shows "consume_context_capability D bearer now db = Inr (if b \<and> sint now < sint expires then Some (ctx, expires) else None) \<and>
    fst (revoke_context_capability D bearer t1 db1) \<and>
    consume_context_capability D bearer now db3 = Inr None \<and>
    (\<exists>e. issue_context_capability D bearer ctx' expires' now db3 = Inl e)"
proof -
  obtain r where r: "rows_of D bearer db1 = [r]" "cp_context r = context_json D ctx" "cp_expires r = expires"
      "cp_revoked r = None" "length (context_json D ctx) \<le> MAX_CAPABILITY_BYTES"
    using issued_rows [OF assms(2)] by auto
  obtain v where v: "rows_of D bearer db = [r\<lparr>cp_revoked := v\<rparr>]" using catalog_steps_rows [OF assms(3) r(1)] by auto
  note w = revoke_rows [OF assms(4)]
  have b: "b \<longleftrightarrow> v = None" using w(1) v by (cases v) auto
  obtain t where t: "rows_of D bearer db2 = [r\<lparr>cp_revoked := Some t\<rparr>]" using w(2) [of bearer] v by (cases v) auto
  obtain v3 where "rows_of D bearer db3 = [r\<lparr>cp_revoked := v3\<rparr>]" "v3 = Some t"
    using catalog_steps_rows [OF assms(5) t] by auto
  then have last: "rows_of D bearer db3 = [r\<lparr>cp_revoked := Some t\<rparr>]" by simp
  have "consume_context_capability D bearer now db = Inr (if b \<and> sint now < sint expires then Some (ctx, expires) else None)"
    using v b r assms(1) by (simp add: consume_rows)
  moreover have "fst (revoke_context_capability D bearer t1 db1)"
    using revoke_rows(1) [of D bearer t1 db1] r by (cases "revoke_context_capability D bearer t1 db1") simp
  ultimately show ?thesis using last issue_taken [OF last] by (simp add: consume_rows)
qed

section \<open>Pages\<close>

text \<open>A client that asks for pages, each behind the last space of the one before, until a page is empty.\<close>

fun page_walk :: "catalog_deps \<Rightarrow> nat \<Rightarrow> str \<Rightarrow> uuid option \<Rightarrow> nat \<Rightarrow> product_db \<Rightarrow> product_error + catalog_space list" where
  "page_walk D 0 profile after limit db = Inr []"
| "page_walk D (Suc fuel) profile after limit db =
     bind_result (active_spaces_page D profile after limit db) (\<lambda>page.
       if page = [] then Inr []
       else bind_result (page_walk D fuel profile (Some (sr_id (cs_space (last page)))) limit db) (\<lambda>rest.
            Inr (page @ rest)))"

definition active_rows :: "str \<Rightarrow> product_db \<Rightarrow> space_row list" where
  "active_rows profile db = sort_key sp_id
     (filter (\<lambda>r. sp_profile r = profile \<and> sp_state r = ''active'') (pd_spaces db))"

definition behind :: "str option \<Rightarrow> space_row \<Rightarrow> bool" where
  "behind after r \<longleftrightarrow> (case after of None \<Rightarrow> True | Some a \<Rightarrow> a < sp_id r)"

lemma active_page_rows: "active_page profile after limit db = take (clamp_page limit) (filter (behind after) (active_rows profile db))"
proof -
  have "filter (behind after) (active_rows profile db) = sort_key sp_id (filter (behind after)
      (filter (\<lambda>r. sp_profile r = profile \<and> sp_state r = ''active'') (pd_spaces db)))"
    by (simp only: active_rows_def filter_sort)
  also have "filter (behind after) (filter (\<lambda>r. sp_profile r = profile \<and> sp_state r = ''active'') (pd_spaces db)) =
      filter (\<lambda>r. sp_profile r = profile \<and> sp_state r = ''active'' \<and>
        (case after of None \<Rightarrow> True | Some a \<Rightarrow> a < sp_id r)) (pd_spaces db)"
    by (simp add: behind_def conj_ac)
  finally show ?thesis by (simp add: active_page_def)
qed

lemma active_rows_sorted: "distinct (map sp_id (pd_spaces db)) \<Longrightarrow> sorted_wrt (\<lambda>a b. sp_id a < sp_id b) (active_rows profile db)"
proof -
  assume d: "distinct (map sp_id (pd_spaces db))"
  have "distinct (map sp_id (active_rows profile db))"
    using d by (simp add: active_rows_def distinct_map_filter flip: distinct_map) (simp add: distinct_map inj_on_def)
  then have "sorted_wrt (<) (map sp_id (active_rows profile db))"
    by (simp add: active_rows_def strict_sorted_iff)
  then show ?thesis by (simp add: sorted_wrt_map)
qed

lemma behind_last:
  "sorted_wrt (\<lambda>a b. sp_id a < sp_id b) (xs @ y # ys) \<Longrightarrow> filter (behind (Some (sp_id y))) (xs @ y # ys) = ys"
  by (induction xs) (auto simp: behind_def filter_id_conv filter_empty_conv sorted_wrt_append)

lemma decode_all_columns:
  assumes "uuid_ok D"
  shows "(\<forall>s\<in>set ss. space_bounds D s) \<Longrightarrow> decode_all D (map (space_columns D) ss) = Inr ss"
  by (induction ss) (simp_all add: decode_columns [OF assms] bind_result_def)

lemma sp_id_columns: "sp_id (space_columns D s) = uuid_id_display (cd_space D) (sr_id (cs_space s))"
  by (simp add: space_columns_def split: prod.splits)

lemma page_decodes:
  assumes "uuid_ok D" "spaces_ok D db"
    "filter (behind (map_option (uuid_id_display (cd_space D)) after)) (active_rows profile db) = T"
  shows "\<exists>ss. active_spaces_page D profile after limit db = Inr ss \<and> map (space_columns D) ss = take (clamp_page limit) T"
proof -
  let ?rows = "take (clamp_page limit) T"
  have "set ?rows \<subseteq> set (pd_spaces db)"
    using assms(3) set_take_subset [of "clamp_page limit" T] by (auto simp: active_rows_def)
  then have "\<forall>r\<in>set ?rows. \<exists>s. space_bounds D s \<and> r = space_columns D s" using assms(2) by (fastforce simp: spaces_ok_def)
  then obtain f where f: "\<forall>r\<in>set ?rows. space_bounds D (f r) \<and> space_columns D (f r) = r" by metis
  then have "map (space_columns D) (map f ?rows) = ?rows" by (simp add: map_idI)
  moreover have "decode_all D (map (space_columns D) (map f ?rows)) = Inr (map f ?rows)"
    using f by (intro decode_all_columns [OF assms(1)]) auto
  ultimately show ?thesis
    using assms(3) by (auto simp: active_spaces_page_def active_page_rows)
qed

lemma page_walk_suffix:
  assumes "uuid_ok D" "spaces_ok D db"
  shows "length T \<le> fuel \<Longrightarrow> active_rows profile db = pre @ T \<Longrightarrow>
    filter (behind (map_option (uuid_id_display (cd_space D)) after)) (active_rows profile db) = T \<Longrightarrow>
    \<exists>ss. page_walk D fuel profile after limit db = Inr ss \<and> map (space_columns D) ss = T"
proof (induction fuel arbitrary: pre T after)
  case (Suc fuel)
  obtain page where page: "active_spaces_page D profile after limit db = Inr page"
      "map (space_columns D) page = take (clamp_page limit) T"
    using page_decodes [OF assms Suc.prems(3)] by auto
  have k: "clamp_page limit \<ge> 1" by (simp add: clamp_page_def)
  show ?case
  proof (cases "T = []")
    case True
    then show ?thesis using page by (simp add: bind_result_def)
  next
    case False
    then obtain xs y where xs: "take (clamp_page limit) T = xs @ [y]" using k
      by (metis append_butlast_last_id not_one_le_zero take_eq_Nil)
    have ne: "page \<noteq> []" using page(2) xs by auto
    have y: "space_columns D (last page) = y" using last_map [OF ne, of "space_columns D"] page(2) xs by simp
    let ?T = "drop (clamp_page limit) T"
    have split: "active_rows profile db = (pre @ xs) @ y # ?T"
      using Suc.prems(2) xs append_take_drop_id [of "clamp_page limit" T] by simp
    have "sorted_wrt (\<lambda>a b. sp_id a < sp_id b) ((pre @ xs) @ y # ?T)"
      using active_rows_sorted [of db profile] assms(2) split by (simp add: spaces_ok_def)
    then have "filter (behind (Some (sp_id y))) (active_rows profile db) = ?T"
      unfolding split by (rule behind_last)
    moreover have "length ?T \<le> fuel" using Suc.prems(1) k False by (cases T) auto
    ultimately obtain ss where "page_walk D fuel profile (Some (sr_id (cs_space (last page)))) limit db = Inr ss"
        "map (space_columns D) ss = ?T"
      using Suc.IH [of ?T "pre @ xs @ [y]" "Some (sr_id (cs_space (last page)))"] split y
      by (auto simp flip: sp_id_columns)
    then show ?thesis using page ne by (simp add: bind_result_def)
  qed
qed simp

text \<open>
  C27. Paging over the spaces of a profile, each page asked for behind the last space of the page before,
  gives every active space of the profile exactly once, in the order of the identifiers' texts, and
  comes to an empty page after at most as many pages as there are spaces.
\<close>

theorem paging_complete:
  assumes "uuid_ok D" "(catalog_step D)\<^sup>*\<^sup>* product_new db" "length (pd_spaces db) < fuel"
  shows "\<exists>ss. page_walk D fuel profile None limit db = Inr ss \<and> distinct ss \<and>
    sorted (map (\<lambda>s. uuid_id_display (cd_space D) (sr_id (cs_space s))) ss) \<and>
    mset (map (space_columns D) ss) =
      filter_mset (\<lambda>r. sp_profile r = profile \<and> sp_state r = ''active'') (mset (pd_spaces db))"
proof -
  have ok: "spaces_ok D db" using catalog_steps_ok [OF assms(2) product_new_ok] by (simp add: catalog_ok_def)
  have "length (active_rows profile db) \<le> fuel"
    using assms(3) by (simp add: active_rows_def le_trans [OF length_filter_le])
  moreover have "filter (behind None) rs = rs" for rs by (simp add: behind_def)
  ultimately obtain ss where ss: "page_walk D fuel profile None limit db = Inr ss" "map (space_columns D) ss = active_rows profile db"
    using page_walk_suffix [OF assms(1) ok, of "active_rows profile db" fuel profile "[]" None] by auto
  have m: "mset (map (space_columns D) ss) =
      filter_mset (\<lambda>r. sp_profile r = profile \<and> sp_state r = ''active'') (mset (pd_spaces db))"
    unfolding ss(2) by (simp add: active_rows_def)
  have "sorted_wrt (\<lambda>a b. sp_id a < sp_id b) (map (space_columns D) ss)"
    using active_rows_sorted [of db profile] ok ss(2) by (simp add: spaces_ok_def)
  then have "sorted_wrt (<) (map (\<lambda>s. uuid_id_display (cd_space D) (sr_id (cs_space s))) ss)"
    by (simp add: sorted_wrt_map sp_id_columns)
  then have "sorted (map (\<lambda>s. uuid_id_display (cd_space D) (sr_id (cs_space s))) ss) \<and> distinct ss"
    by (auto simp: strict_sorted_iff distinct_map)
  then show ?thesis using ss(1) m by auto
qed

end
