(* ===== verification/Om_AuthorityProps.thy ===== *)
theory Om_AuthorityProps
  imports Om_Authority Om_CatalogTheorems
begin

text \<open>
  What the authority service guarantees: a publication is authorized by the catalog of the moment and by an
  unchanged one, a revoked member needs a new grant, and the gate separates revocations from leases.
\<close>

section \<open>Grants\<close>

lemma product_Inr: "product r = Inr v \<longleftrightarrow> r = Inr v"
  by (cases r) (simp_all add: product_def)

lemma grant_Inr:
  "grant_for D prin actor space action now db = Inr gr \<longleftrightarrow>
     sg_space gr = cs_space space \<and> role_for prin space now db = Inr (Some (sg_role gr)) \<and>
     authorize_action actor (sg_role gr) space action = Inr () \<and>
     authority_snapshot_for D prin space now db = Inr (sg_authority gr)"
  by (cases gr) (auto simp: grant_for_def bind_result_Inr product_Inr split: option.splits)

lemma snapshot_Inr:
  assumes "authority_snapshot_for D prin space now db = Inr a"
  shows "\<exists>gs. authority_generations prin space now db = Inr gs \<and> length gs \<le> 6 \<and>
    gs ! 1 = meta_generation (pd_catalog_generation db) \<and> as_digest a = blake3 (deps.truncate (cd_space D)) (authority_input 1 gs)"
proof -
  obtain gs where gs: "authority_generations prin space now db = Inr gs"
    using assms by (auto simp: authority_snapshot_for_def bind_result_Inr)
  then have a: "authority_from_generations (deps.truncate (cd_space D)) 1 gs = Inr a"
    using assms by (simp add: authority_snapshot_for_def bind_result_def ps_invalid_def split: sum.split_asm)
  have "length gs \<le> 6 \<and> gs ! 1 = meta_generation (pd_catalog_generation db)"
    using gs by (auto simp: authority_generations_def ps_invalid_def Let_def split: option.splits space_owner.splits)
  then show ?thesis using gs a by (auto simp: authority_from_generations_def split: if_splits)
qed

text \<open>What a role in a space rests on: an active principal who owns the space, or who has an unexpired
  membership with this role in the active team that owns it. And what it allows.\<close>

definition standing :: "str \<Rightarrow> catalog_space \<Rightarrow> space_role \<Rightarrow> i64 \<Rightarrow> product_db \<Rightarrow> bool" where
  "standing prin space role now db \<longleftrightarrow> (\<exists>r\<in>set (pd_principals db). pp_id r = prin \<and> pp_active r) \<and>
     (case sr_owner (cs_space space) of
        UserOwner ownr \<Rightarrow> ownr = prin \<and> role = Maintainer
      | TeamOwner t \<Rightarrow> (\<exists>r\<in>set (pd_teams db). tm_id r = t \<and> tm_active r) \<and>
          (\<exists>m\<in>set (pd_memberships db). ms_team m = t \<and> ms_principal m = prin \<and> ms_role m = role_tag role \<and>
             (\<forall>e. ms_expires m = Some e \<longrightarrow> sint now < sint e)))"

definition may :: "actor_kind \<Rightarrow> space_role \<Rightarrow> catalog_space \<Rightarrow> authorized_action \<Rightarrow> bool" where
  "may actor role space action \<longleftrightarrow> (case action of
     ActRead \<Rightarrow> True
   | ActPersonalWrite \<Rightarrow> role \<noteq> Reader \<and> (\<exists>i. sr_owner (cs_space space) = UserOwner i)
   | ActTeamProposal \<Rightarrow> role \<noteq> Reader \<and> (\<exists>t. sr_owner (cs_space space) = TeamOwner t)
   | ActReview \<Rightarrow> actor = Human \<and> role \<in> {Reviewer, Maintainer}
   | ActMembership \<Rightarrow> actor = Human \<and> role = Maintainer
   | ActPromotion \<Rightarrow> actor = Human \<and> role = Maintainer)"

lemma role_standing:
  assumes "role_for prin space now db = Inr (Some role)"
  shows "standing prin space role now db"
proof -
  obtain r where r: "find (\<lambda>r. pp_id r = prin) (pd_principals db) = Some r" "pp_active r"
    using assms by (auto simp: role_for_def split: option.splits if_splits)
  then have active: "\<exists>r\<in>set (pd_principals db). pp_id r = prin \<and> pp_active r"
    by (auto simp: find_Some_iff)
  have tag: "parse_role v = Inr role \<Longrightarrow> v = role_tag role" for v by (auto simp: parse_role_def split: if_splits)
  show ?thesis
  proof (cases "sr_owner (cs_space space)")
    case (UserOwner ownr)
    then show ?thesis using assms r active by (auto simp: role_for_def standing_def split: if_splits)
  next
    case (TeamOwner t)
    then obtain m where m: "find (\<lambda>r. is_member t prin r \<and> team_active t db \<and> unexpired now r) (pd_memberships db) = Some m"
      and "parse_role (ms_role m) = Inr role"
      using assms r by (auto simp: role_for_def bind_result_Inr split: option.splits if_splits)
    moreover from m have "m \<in> set (pd_memberships db)" "is_member t prin m" "team_active t db" "unexpired now m"
      by (auto simp: find_Some_iff)
    ultimately show ?thesis using active tag TeamOwner
      by (auto simp: standing_def is_member_def team_active_def unexpired_def list_ex_iff split: option.splits)
  qed
qed

lemma authorize_may: "authorize_action actor role space action = Inr () \<longleftrightarrow> may actor role space action"
  by (cases action; cases "sr_owner (cs_space space)"; cases role; cases actor)
    (simp_all add: may_def user_owned_def write_refused_def human_refused_def can_write_def can_review_def)

lemma evolves_steps: "(catalog_step D)\<^sup>*\<^sup>* db db' \<Longrightarrow> evolves db db'"
  by (induction rule: rtranclp_induct) (auto intro: evolves_trans catalog_step_evolves)

lemma lease_Inr:
  "lease D prin actor space action now db g = (Inr l, g') \<longleftrightarrow>
     \<not> gt_revoking g \<and> g' = g\<lparr>gt_active := gt_active g + 1\<rparr> \<and>
     grant_for D prin actor space action now db = Inr (al_grant l) \<and>
     al_principal l = prin \<and> al_actor l = actor \<and> al_space l = space \<and> al_epoch l = gt_epoch g"
  by (cases l) (auto simp: lease_def enter_lease_def split: sum.splits)

lemma reauthorize_Inr:
  "reauthorize D l action now db g = Inr fresh \<longleftrightarrow> gt_epoch g = al_epoch l \<and>
     grant_for D (al_principal l) (al_actor l) (al_space l) action now db = Inr fresh \<and>
     sg_authority fresh = sg_authority (al_grant l)"
  by (auto simp: reauthorize_def bind_result_Inr)

text \<open>
  C23. A publication that reauthorization admits is allowed now: the principal is active, and owns the space
  or is an unexpired member, with the role of the fresh grant, of the active team that owns it; and that
  role allows the actor the action. The gate has the epoch of the lease, and the teams, memberships,
  projects, workspaces and spaces of the catalog are what they were when the lease was taken; the only
  way out is that the generations the catalog had for this principal and space then and those it has now
  are different and the bytes hashed for these two snapshots collide under BLAKE3.
\<close>

theorem publication_is_current:
  assumes "lease D prin actor space action t0 db0 g0 = (Inr l, g1)" "(catalog_step D)\<^sup>*\<^sup>* db0 db"
    "reauthorize D l action' now db g = Inr fresh"
  shows "sg_space fresh = cs_space space \<and> standing prin space (sg_role fresh) now db \<and>
    may actor (sg_role fresh) space action' \<and> gt_epoch g = gt_epoch g0 \<and>
    (catalog_core db = catalog_core db0 \<or>
     (\<exists>gs gs'. authority_generations prin space t0 db0 = Inr gs \<and> authority_generations prin space now db = Inr gs' \<and>
        gs \<noteq> gs' \<and> authority_input 1 gs \<noteq> authority_input 1 gs' \<and>
        blake3 (deps.truncate (cd_space D)) (authority_input 1 gs) = blake3 (deps.truncate (cd_space D)) (authority_input 1 gs')))"
proof -
  have l: "grant_for D prin actor space action t0 db0 = Inr (al_grant l)" "al_principal l = prin" "al_actor l = actor"
      "al_space l = space" "al_epoch l = gt_epoch g0"
    using assms(1) by (simp_all add: lease_Inr)
  have r: "gt_epoch g = al_epoch l" "grant_for D prin actor space action' now db = Inr fresh"
      "sg_authority fresh = sg_authority (al_grant l)"
    using assms(3) l by (simp_all add: reauthorize_Inr)
  obtain gs where gs: "authority_generations prin space t0 db0 = Inr gs" "length gs \<le> 6"
      "gs ! 1 = meta_generation (pd_catalog_generation db0)"
      "as_digest (sg_authority (al_grant l)) = blake3 (deps.truncate (cd_space D)) (authority_input 1 gs)"
    using l(1) snapshot_Inr [of D prin space t0 db0] unfolding grant_Inr by blast
  obtain gs' where gs': "authority_generations prin space now db = Inr gs'" "length gs' \<le> 6"
      "gs' ! 1 = meta_generation (pd_catalog_generation db)"
      "as_digest (sg_authority fresh) = blake3 (deps.truncate (cd_space D)) (authority_input 1 gs')"
    using r(2) snapshot_Inr [of D prin space now db] unfolding grant_Inr by blast
  have binds: "authority_input 1 gs \<noteq> authority_input 1 gs'" if "gs \<noteq> gs'"
    using authority_input_binds [of gs gs' 1 1] that gs(2) gs'(2) by auto
  have "catalog_core db = catalog_core db0" if "gs = gs'"
  proof -
    have "catalog_generation db = catalog_generation db0" using that gs(3) gs'(3) by (simp add: catalog_generation_def)
    then show ?thesis using evolves_steps [OF assms(2)] by (simp add: evolves_def)
  qed
  then show ?thesis
    using r l(5) gs(1,4) gs'(1,4) binds role_standing authorize_may by (auto simp: grant_Inr)
qed

section \<open>Revoked members\<close>

lemma role_needs_membership:
  "role_for p space now db = Inr (Some role) \<Longrightarrow> sr_owner (cs_space space) = TeamOwner t \<Longrightarrow>
     list_ex (is_member t p) (pd_memberships db)"
  by (auto simp: role_for_def list_ex_iff find_Some_iff bind_result_Inr split: option.splits if_splits)

lemma membership_step:
  assumes "catalog_step D db db'" "list_ex (is_member t p) (pd_memberships db')" "\<not> list_ex (is_member t p) (pd_memberships db)"
  shows "\<exists>role expires now u. grant_team_role t p role expires now db = Inr (u, db')"
proof -
  have keep: ?thesis if "set (pd_memberships db') \<subseteq> set (pd_memberships db)"
    using that assms by (auto simp: list_ex_iff)
  show ?thesis using assms(1)
  proof cases
    case (installation p)
    then show ?thesis
      by (intro keep) (auto simp: ensure_installation_principal_def bind_result_Inr Let_def ps_invalid_def fresh_uuid_def
        split: option.splits sum.splits if_splits)
  next
    case (team profile label t)
    then show ?thesis
      by (intro keep) (auto simp: create_team_def bind_result_Inr Let_def ps_invalid_def fresh_uuid_def
        dest!: bumped_Inr(3) split: sum.splits if_splits)
  next
    case (grant t' p' role expires now u)
    have "t' = t \<and> p' = p"
      using grant_team_role_Inr [OF grant] assms(2,3)
      by (fastforce simp: upsert_membership_def list_ex_iff is_member_def split: if_splits)
    then show ?thesis using grant by auto
  next
    case (revoke t p b)
    then show ?thesis by (intro keep) (auto dest!: revoke_team_member_Inr)
  next
    case (project profile label i)
    then show ?thesis
      by (intro keep) (auto simp: create_project_def bind_result_Inr Let_def fresh_uuid_def
        dest!: bumped_Inr(3) split: if_splits)
  next
    case (workspace profile w i f u)
    then show ?thesis by (intro keep) (auto dest!: map_workspace_Inr)
  next
    case (insert space profile root n manifest state s)
    then show ?thesis by (intro keep) (auto dest!: insert_space_Inr)
  next
    case (bind i p profile n manifest s)
    then show ?thesis by (intro keep) (auto dest!: bind_legacy_Inr insert_space_Inr)
  next
    case (activate i manifest s)
    then show ?thesis by (intro keep) (auto dest!: activate_space_Inr)
  next
    case (issue bearer' ctx expires now u)
    then show ?thesis by (intro keep) (auto dest!: issue_Inr)
  next
    case (withdraw bearer' now b)
    then show ?thesis by (intro keep) (auto simp: revoke_context_capability_def Let_def)
  qed
qed

lemma membership_steps:
  assumes "(catalog_step D)\<^sup>*\<^sup>* db1 db" "\<not> list_ex (is_member t p) (pd_memberships db1)"
    "list_ex (is_member t p) (pd_memberships db)"
  shows "\<exists>a a' role expires now u. (catalog_step D)\<^sup>*\<^sup>* db1 a \<and> grant_team_role t p role expires now a = Inr (u, a') \<and>
    (catalog_step D)\<^sup>*\<^sup>* a' db"
  using assms
proof (induction rule: rtranclp_induct)
  case (step db db')
  show ?case
  proof (cases "list_ex (is_member t p) (pd_memberships db)")
    case True
    with step obtain a a' role expires now u where "(catalog_step D)\<^sup>*\<^sup>* db1 a"
        "grant_team_role t p role expires now a = Inr (u, a')" "(catalog_step D)\<^sup>*\<^sup>* a' db" by blast
    then show ?thesis using step.hyps(2) by (meson rtranclp.rtrancl_into_rtrancl)
  next
    case False
    then show ?thesis using membership_step [OF step.hyps(2)] step.prems step.hyps(1) by blast
  qed
qed simp

lemma revoked_no_member:
  assumes "revoke_team_member t p db = Inr (b, db1)"
  shows "\<not> list_ex (is_member t p) (pd_memberships db1)"
  using revoke_team_member_Inr [OF assms] by (auto simp: list_ex_iff)

text \<open>
  C24. After a member is revoked, no lease is given to the principal on a space of the team, and no lease
  reauthorized, old or new, for any action and actor, unless the principal was granted a role again since.
\<close>

theorem revoked_member_needs_a_grant:
  assumes "revoke_member t p db0 g0 = Some (Inr removed, db1, g1)" "(catalog_step D)\<^sup>*\<^sup>* db1 db"
    "sr_owner (cs_space space) = TeamOwner t"
    "(\<exists>l g'. lease D p actor space action now db g = (Inr l, g')) \<or>
     (\<exists>l fresh. al_principal l = p \<and> al_space l = space \<and> reauthorize D l action now db g = Inr fresh)"
  shows "\<exists>a a' role expires now' u. (catalog_step D)\<^sup>*\<^sup>* db1 a \<and>
    grant_team_role t p role expires now' a = Inr (u, a') \<and> (catalog_step D)\<^sup>*\<^sup>* a' db"
proof -
  have "revoke_team_member t p db0 = Inr (removed, db1)"
    using assms(1) by (auto simp: revoke_member_def Let_def split: if_splits sum.splits)
  then have "\<not> list_ex (is_member t p) (pd_memberships db1)" by (rule revoked_no_member)
  moreover have "\<exists>role. role_for p space now db = Inr (Some role)"
    using assms(4) by (auto simp: lease_Inr reauthorize_Inr grant_Inr)
  ultimately show ?thesis
    using membership_steps [OF assms(2)] role_needs_membership [OF _ assms(3)] by blast
qed

section \<open>The gate\<close>

text \<open>
  The service as its threads use it: a call of \<open>lease\<close> enters the gate and is then granted or refused, a
  lease is dropped, a revocation begins, drains, changes the membership and finishes. Other transactions of
  the catalog may run at any moment. With \<open>serial\<close> a revocation begins only when no other is in flight.
\<close>

datatype revocation_phase = Draining | Drained | Turned

record auth_world =
  aw_db :: product_db
  aw_gate :: gate_state
  aw_entering :: "u64 list"
  aw_leases :: "authorization_lease list"
  aw_revokers :: "(str \<times> str \<times> revocation_phase) list"

definition auth_world_new :: "product_db \<Rightarrow> auth_world" where
  "auth_world_new db = \<lparr>aw_db = db, aw_gate = gate_new, aw_entering = [], aw_leases = [], aw_revokers = []\<rparr>"

definition revocation_result :: "str \<Rightarrow> str \<Rightarrow> product_db \<Rightarrow> product_db" where
  "revocation_result t p db = (case revoke_team_member t p db of Inl e \<Rightarrow> db | Inr (b, db') \<Rightarrow> db')"

inductive auth_step :: "catalog_deps \<Rightarrow> bool \<Rightarrow> auth_world \<Rightarrow> auth_world \<Rightarrow> bool" for D serial where
  enter: "enter_lease (aw_gate w) = Inr (e, g) \<Longrightarrow>
    auth_step D serial w (w\<lparr>aw_gate := g, aw_entering := e # aw_entering w\<rparr>)"
| granted: "aw_entering w = xs @ e # ys \<Longrightarrow> grant_for D prin actor space action now (aw_db w) = Inr gr \<Longrightarrow>
    auth_step D serial w (w\<lparr>aw_entering := xs @ ys, aw_leases := \<lparr>al_principal = prin, al_actor = actor,
      al_space = space, al_grant = gr, al_epoch = e\<rparr> # aw_leases w\<rparr>)"
| refused: "aw_entering w = xs @ e # ys \<Longrightarrow> grant_for D prin actor space action now (aw_db w) = Inl err \<Longrightarrow>
    auth_step D serial w (w\<lparr>aw_entering := xs @ ys, aw_gate := release_lease (aw_gate w)\<rparr>)"
| dropped: "aw_leases w = xs @ l # ys \<Longrightarrow>
    auth_step D serial w (w\<lparr>aw_leases := xs @ ys, aw_gate := release_lease (aw_gate w)\<rparr>)"
| begins: "serial \<longrightarrow> aw_revokers w = [] \<Longrightarrow>
    auth_step D serial w (w\<lparr>aw_revokers := (t, p, Draining) # aw_revokers w, aw_gate := begin_revocation (aw_gate w)\<rparr>)"
| drains: "aw_revokers w = xs @ (t, p, Draining) # ys \<Longrightarrow> drained (aw_gate w) \<Longrightarrow>
    auth_step D serial w (w\<lparr>aw_revokers := xs @ (t, p, Drained) # ys\<rparr>)"
| turns: "aw_revokers w = xs @ (t, p, Drained) # ys \<Longrightarrow>
    auth_step D serial w (w\<lparr>aw_revokers := xs @ (t, p, Turned) # ys, aw_db := revocation_result t p (aw_db w)\<rparr>)"
| finishes: "aw_revokers w = xs @ (t, p, Turned) # ys \<Longrightarrow>
    auth_step D serial w (w\<lparr>aw_revokers := xs @ ys, aw_gate := finish_revocation (aw_gate w)\<rparr>)"
| other: "catalog_step D (aw_db w) db \<Longrightarrow> auth_step D serial w (w\<lparr>aw_db := db\<rparr>)"

text \<open>The gate counts the calls and leases that hold it; one revocation at a time excludes them.\<close>

definition gate_counts :: "auth_world \<Rightarrow> bool" where
  "gate_counts w \<longleftrightarrow> gt_active (aw_gate w) = length (aw_entering w) + length (aw_leases w) \<and>
     (\<forall>e\<in>set (aw_entering w) \<union> al_epoch ` set (aw_leases w). unat e \<le> unat (gt_epoch (aw_gate w)))"

definition gate_alone :: "auth_world \<Rightarrow> bool" where
  "gate_alone w \<longleftrightarrow> length (aw_revokers w) \<le> 1 \<and> (gt_revoking (aw_gate w) \<longleftrightarrow> aw_revokers w \<noteq> []) \<and>
     (\<forall>(t, p, ph)\<in>set (aw_revokers w). ph \<noteq> Draining \<longrightarrow> gt_active (aw_gate w) = 0)"

lemma epoch_le_finish: "unat (gt_epoch g) \<le> unat (gt_epoch (finish_revocation g))"
proof (cases "unat (gt_epoch g) = 2 ^ 64 - 1")
  case False
  moreover have "unat (gt_epoch g) < 2 ^ LENGTH(64)" by (rule unsigned_less)
  ultimately have "unat (gt_epoch g) + 1 < 2 ^ 64" by simp
  then have "unat (gt_epoch g + 1) = unat (gt_epoch g) + 1" by (subst unat_add_lem [THEN iffD1]) auto
  then show ?thesis using False by (simp add: finish_revocation_def)
qed (simp add: finish_revocation_def)

lemma epoch_less_finish:
  assumes "unat (gt_epoch g) < 2 ^ 64 - 1"
  shows "unat (gt_epoch (finish_revocation g)) = unat (gt_epoch g) + 1"
proof -
  have "unat (gt_epoch g) + 1 < 2 ^ 64" using assms by simp
  then have "unat (gt_epoch g + 1) = unat (gt_epoch g) + 1" by (subst unat_add_lem [THEN iffD1]) auto
  then show ?thesis using assms by (simp add: finish_revocation_def)
qed

lemma finish_active: "gt_active (finish_revocation g) = gt_active g"
  by (simp add: finish_revocation_def)

lemma auth_step_counts: "auth_step D serial w w' \<Longrightarrow> gate_counts w \<Longrightarrow> gate_counts w'"
proof (induction rule: auth_step.induct)
  case (finishes w xs t p ys)
  then show ?case using epoch_le_finish [of "aw_gate w"]
    by (auto simp: gate_counts_def finish_active intro: le_trans)
qed (auto simp: gate_counts_def enter_lease_def release_lease_def begin_revocation_def split: if_splits)

lemma gate_counts_new: "gate_counts (auth_world_new db)"
  by (simp add: gate_counts_def auth_world_new_def gate_new_def)

lemma auth_steps_counts: "(auth_step D serial)\<^sup>*\<^sup>* (auth_world_new db) w \<Longrightarrow> gate_counts w"
  by (induction rule: rtranclp_induct) (auto intro: auth_step_counts gate_counts_new)

lemma auth_step_alone: "auth_step D True w w' \<Longrightarrow> gate_alone w \<Longrightarrow> gate_alone w'"
  by (induction rule: auth_step.induct)
    (auto simp: gate_alone_def enter_lease_def release_lease_def begin_revocation_def finish_revocation_def drained_def
      split: if_splits)

lemma auth_steps_alone: "(auth_step D True)\<^sup>*\<^sup>* (auth_world_new db) w \<Longrightarrow> gate_alone w"
proof (induction rule: rtranclp_induct)
  case base
  show ?case by (simp add: gate_alone_def auth_world_new_def gate_new_def)
qed (rule auth_step_alone)

text \<open>
  C25. As long as revocations do not overlap, the gate keeps its word: from the moment a revocation has
  drained until it finishes there is no lease and no call that could still get one, and the count of the
  gate is always the number of leases and calls that hold it.
\<close>

theorem gate_excludes:
  assumes "(auth_step D True)\<^sup>*\<^sup>* (auth_world_new db) w" "(t, p, ph) \<in> set (aw_revokers w)" "ph \<noteq> Draining"
  shows "aw_leases w = [] \<and> aw_entering w = [] \<and> gt_active (aw_gate w) = 0 \<and> enter_lease (aw_gate w) = Inl AuthRevoking \<and>
    aw_revokers w = [(t, p, ph)]"
proof -
  have "gate_counts w" "gate_alone w" using assms(1) by (rule auth_steps_counts auth_steps_alone)+
  then show ?thesis using assms(2,3)
    by (cases "aw_revokers w"; cases "tl (aw_revokers w)") (auto simp: gate_counts_def gate_alone_def enter_lease_def)
qed

lemma auth_step_epoch: "auth_step D serial w w' \<Longrightarrow> unat (gt_epoch (aw_gate w)) \<le> unat (gt_epoch (aw_gate w'))"
  by (induction rule: auth_step.induct)
    (auto simp: enter_lease_def release_lease_def begin_revocation_def epoch_le_finish split: if_splits)

lemma auth_steps_epoch: "(auth_step D serial)\<^sup>*\<^sup>* w w' \<Longrightarrow> unat (gt_epoch (aw_gate w)) \<le> unat (gt_epoch (aw_gate w'))"
  by (induction rule: rtranclp_induct) (auto dest: auth_step_epoch)

text \<open>
  A lease that is held while some revocation finishes, overlapping or not, is never reauthorized
  afterwards, as long as the epoch has not reached the end of its range.
\<close>

lemma finish_outdates_leases:
  assumes "(auth_step D serial)\<^sup>*\<^sup>* (auth_world_new db) w" "l \<in> set (aw_leases w)"
    "unat (gt_epoch (aw_gate w)) < 2 ^ 64 - 1"
    "auth_step D serial w w1" "aw_gate w1 = finish_revocation (aw_gate w)" "(auth_step D serial)\<^sup>*\<^sup>* w1 w2"
  shows "reauthorize D l action now (aw_db w2) (aw_gate w2) = Inl AuthStaleLease"
proof -
  have "gate_counts w" using assms(1) by (rule auth_steps_counts)
  then have "unat (al_epoch l) \<le> unat (gt_epoch (aw_gate w))" using assms(2) by (auto simp: gate_counts_def)
  also have "\<dots> < unat (gt_epoch (aw_gate w1))" using epoch_less_finish [OF assms(3)] assms(5) by simp
  also have "\<dots> \<le> unat (gt_epoch (aw_gate w2))" using assms(6) by (rule auth_steps_epoch)
  finally show ?thesis by (auto simp: reauthorize_def)
qed

lemmas step_trans [trans] = rtranclp.rtrancl_into_rtrancl

text \<open>
  Revocations that overlap defeat the gate: when a second one has drained and is about to change the
  membership, the end of the first lets calls of \<open>lease\<close> in again, and such a call can be granted.
\<close>

lemma overlapping_revocations_admit_leases:
  assumes "grant_for D prin actor space action now (revocation_result t1 p1 db) = Inr gr"
  shows "\<exists>w l. (auth_step D False)\<^sup>*\<^sup>* (auth_world_new db) w \<and> (t2, p2, Drained) \<in> set (aw_revokers w) \<and>
    l \<in> set (aw_leases w) \<and> al_grant l = gr \<and> al_epoch l = gt_epoch (aw_gate w)"
proof -
  let ?g = "begin_revocation gate_new"
  let ?w = "\<lambda>db g es ls rs. \<lparr>aw_db = db, aw_gate = g, aw_entering = es, aw_leases = ls, aw_revokers = rs\<rparr>"
  let ?f = "finish_revocation ?g"
  let ?db = "revocation_result t1 p1 db"
  let ?l = "\<lparr>al_principal = prin, al_actor = actor, al_space = space, al_grant = gr, al_epoch = gt_epoch ?f\<rparr>"
  let ?R = "auth_step D False"
  have g: "begin_revocation ?g = ?g" "drained ?g" by (simp_all add: begin_revocation_def drained_def gate_new_def)
  have "?R\<^sup>*\<^sup>* (auth_world_new db) (?w db ?g [] [] [(t1, p1, Draining)])"
    using begins [of False "auth_world_new db" D t1 p1] by (intro r_into_rtranclp) (simp add: auth_world_new_def)
  also have "?R (?w db ?g [] [] [(t1, p1, Draining)]) (?w db ?g [] [] [(t2, p2, Draining), (t1, p1, Draining)])"
    using begins [of False "?w db ?g [] [] [(t1, p1, Draining)]" D t2 p2] g by simp
  also have "?R (?w db ?g [] [] [(t2, p2, Draining), (t1, p1, Draining)]) (?w db ?g [] [] [(t2, p2, Drained), (t1, p1, Draining)])"
    using drains [of "?w db ?g [] [] [(t2, p2, Draining), (t1, p1, Draining)]" "[]" t2 p2] g by simp
  also have "?R (?w db ?g [] [] [(t2, p2, Drained), (t1, p1, Draining)]) (?w db ?g [] [] [(t2, p2, Drained), (t1, p1, Drained)])"
    using drains [of "?w db ?g [] [] [(t2, p2, Drained), (t1, p1, Draining)]" "[(t2, p2, Drained)]" t1 p1] g by simp
  also have "?R (?w db ?g [] [] [(t2, p2, Drained), (t1, p1, Drained)]) (?w ?db ?g [] [] [(t2, p2, Drained), (t1, p1, Turned)])"
    using turns [of "?w db ?g [] [] [(t2, p2, Drained), (t1, p1, Drained)]" "[(t2, p2, Drained)]" t1 p1] by simp
  also have "?R (?w ?db ?g [] [] [(t2, p2, Drained), (t1, p1, Turned)]) (?w ?db ?f [] [] [(t2, p2, Drained)])"
    using finishes [of "?w ?db ?g [] [] [(t2, p2, Drained), (t1, p1, Turned)]" "[(t2, p2, Drained)]" t1 p1] by simp
  also have "?R (?w ?db ?f [] [] [(t2, p2, Drained)]) (?w ?db (?f\<lparr>gt_active := 1\<rparr>) [gt_epoch ?f] [] [(t2, p2, Drained)])"
    using enter [of "?w ?db ?f [] [] [(t2, p2, Drained)]" "gt_epoch ?f" "?f\<lparr>gt_active := 1\<rparr>" D False]
    by (simp add: enter_lease_def finish_revocation_def begin_revocation_def gate_new_def)
  also have "?R (?w ?db (?f\<lparr>gt_active := 1\<rparr>) [gt_epoch ?f] [] [(t2, p2, Drained)])
      (?w ?db (?f\<lparr>gt_active := 1\<rparr>) [] [?l] [(t2, p2, Drained)])"
    using granted [of "?w ?db (?f\<lparr>gt_active := 1\<rparr>) [gt_epoch ?f] [] [(t2, p2, Drained)]" "[]" "gt_epoch ?f" "[]" D
        prin actor space action now gr False] assms by simp
  finally have "?R\<^sup>*\<^sup>* (auth_world_new db) (?w ?db (?f\<lparr>gt_active := 1\<rparr>) [] [?l] [(t2, p2, Drained)])" by simp
  then show ?thesis
    by (intro exI [of _ "?w ?db (?f\<lparr>gt_active := 1\<rparr>) [] [?l] [(t2, p2, Drained)]"] exI [of _ ?l]) simp
qed

end
