(* ===== verification/Om_CatalogExamples.thy ===== *)
theory Om_CatalogExamples
  imports Om_AuthorityProps Om_Witnesses
begin

text \<open>
  A small catalog: the installation's principal, a team of which it is a maintainer and an active space of
  the team. The properties of the catalog and of the authority service are applied to it.
\<close>

section \<open>Identifiers\<close>

text \<open>A text for a UUID that the simplifier can compute, and its reading.\<close>

fun nibbles :: "nat \<Rightarrow> int \<Rightarrow> str" where
  "nibbles 0 n = []"
| "nibbles (Suc k) n = char_of (97 + nat (n mod 16)) # nibbles k (n div 16)"

fun of_nibbles :: "str \<Rightarrow> int" where
  "of_nibbles [] = 0"
| "of_nibbles (c # cs) = (int (of_char c) - 97) + 16 * of_nibbles cs"

lemma of_nibbles: "0 \<le> n \<Longrightarrow> n < 16 ^ k \<Longrightarrow> of_nibbles (nibbles k n) = n"
proof (induction k arbitrary: n)
  case (Suc k)
  have "97 + nat (n mod 16) < 256" by (simp add: nat_less_iff)
  then have "int (of_char (char_of (97 + nat (n mod 16)) :: char)) = 97 + n mod 16" by simp
  moreover have "of_nibbles (nibbles k (n div 16)) = n div 16" using Suc by (intro Suc.IH) auto
  ultimately show ?case by simp
qed simp

lemma nibbles_lower: "\<not> list_ex is_ascii_uppercase (nibbles k n)"
  by (induction k arbitrary: n) (auto simp: is_ascii_uppercase_def Let_def nat_less_iff)

definition e_ids :: space_deps where
  "e_ids = \<lparr>blake3 = blake3 example_deps, hyphenated = (\<lambda>u. nibbles 32 (uint u)), to_lowercase = (\<lambda>s. s),
     parse_str = (\<lambda>s. Some (word_of_int (of_nibbles s))),
     version_num = (\<lambda>u. nat (uint u div 75557863725914323419136 mod 16))\<rparr>"

definition e_uuid :: "int \<Rightarrow> uuid" where
  "e_uuid n = word_of_int (528905046081400263933952 + n)"

section \<open>A catalog\<close>

definition e_prin :: str where "e_prin = ''local:'' @ uuid_id_display e_ids (e_uuid 0)"

definition e_ctx :: memory_context where
  "e_ctx = \<lparr>mc_principal = e_prin, mc_actor_kind = Human, mc_profile = ''default'', mc_project = None,
     mc_active_team = None, mc_read_set = [], mc_default_write = 0,
     mc_authority = \<lparr>as_version = 1, as_digest = []\<rparr>, mc_selection = \<lparr>sp_project = ProductDefault, sp_team = ProductDefault,
       sp_read_scope = ProductDefault, sp_write_target = ProductDefault\<rparr>\<rparr>"

definition e_cat :: catalog_deps where
  "e_cat = \<lparr>cd_space = e_ids, cd_uuid = (\<lambda>n. e_uuid (int n)),
     context_json = (\<lambda>c. ''context''), context_of_json = (\<lambda>s. Some e_ctx)\<rparr>"

definition e_manifest :: str where
  "e_manifest = ''blake3:'' @ replicate 64 CHR ''0''"

definition e_team :: str where "e_team = ''team:'' @ uuid_id_display e_ids (e_uuid 1)"

definition e_db1 :: product_db where
  "e_db1 = product_new\<lparr>pd_principals := [\<lparr>pp_id = e_prin, pp_active = True, pp_generation = 1\<rparr>],
     pd_installation := Some e_prin, pd_credential_generation := Some 1, pd_catalog_generation := Some 0, pd_ids := 1\<rparr>"

definition e_db2 :: product_db where
  "e_db2 = e_db1\<lparr>pd_teams := [\<lparr>tm_id = e_team, tm_profile = ''default'', tm_label = ''team'', tm_active = True,
     tm_generation = 1\<rparr>], pd_catalog_generation := Some 1, pd_ids := Suc (Suc 0)\<rparr>"

definition e_db3 :: product_db where
  "e_db3 = e_db2\<lparr>pd_teams := [\<lparr>tm_id = e_team, tm_profile = ''default'', tm_label = ''team'', tm_active = True,
     tm_generation = 2\<rparr>], pd_memberships := [\<lparr>ms_team = e_team, ms_principal = e_prin, ms_role = ''maintainer'',
     ms_generation = 1, ms_expires = None\<rparr>], pd_catalog_generation := Some 2\<rparr>"

definition e_space :: catalog_space where
  "e_space = \<lparr>cs_space = \<lparr>sr_id = e_uuid 99, sr_owner = TeamOwner e_team, sr_context = GlobalContext\<rparr>,
     cs_profile = ''default'', cs_root_key = SpaceRoot (e_uuid 99), cs_domain_count = 4, cs_manifest_hash = e_manifest,
     cs_state = CatalogActive, cs_generation = 3\<rparr>"

definition e_db4 :: product_db where
  "e_db4 = e_db3\<lparr>pd_spaces := [space_columns e_cat e_space], pd_catalog_generation := Some 3\<rparr>"

lemmas e_dbs = e_db1_def e_db2_def e_db3_def e_db4_def product_new_def

lemma e_uuid_ok: "uuid_ok e_cat"
proof -
  have "of_nibbles (nibbles 32 (uint u)) = uint u" for u :: uuid
    using unsigned_less [of u] by (intro of_nibbles) auto
  then show ?thesis by (simp add: uuid_ok_def e_cat_def e_ids_def nibbles_lower)
qed

lemma e_version: "version_num e_ids (e_uuid 99) = 7"
  by (simp add: e_ids_def e_uuid_def)

lemma nibbles_visible: "\<not> has_control (nibbles k n)"
proof (induction k arbitrary: n)
  case (Suc k)
  have "97 + nat (n mod 16) < 127" by (simp add: nat_less_iff)
  then show ?case using Suc by (simp add: Let_def)
qed simp

lemma length_nibbles: "length (nibbles k n) = k"
  by (induction k arbitrary: n) simp_all

lemma e_text: "length (uuid_id_display e_ids u) = 32" "\<not> has_control (uuid_id_display e_ids u)"
  by (simp_all add: uuid_id_display_def e_ids_def length_nibbles nibbles_visible)

lemma e_principal_ok: "opaque_id_new ''principal'' e_prin = Inr e_prin"
  by (simp add: opaque_id_new_def e_prin_def MAX_OPAQUE_ID_BYTES_def e_text)

lemma e_team_ok: "opaque_id_new ''team'' e_team = Inr e_team"
  by (simp add: opaque_id_new_def e_team_def MAX_OPAQUE_ID_BYTES_def e_text)

lemma e_manifest_ok: "is_blake3_digest e_manifest" 
  by code_simp

lemma e_profile_ok: "valid_profile_name ''default''"
  by code_simp

lemmas e_ids_ok = e_principal_ok e_team_ok e_manifest_ok e_profile_ok e_version

lemma e_install: "ensure_installation_principal e_cat product_new = Inr (e_prin, e_db1)"
  using e_ids_ok(1)
  by (simp add: Let_def ensure_installation_principal_def e_dbs fresh_uuid_def e_cat_def e_prin_def)

lemma e_create: "create_team e_cat ''default'' ''team'' e_db1 = Inr (e_team, e_db2)"
  using e_ids_ok(2)
  by (simp add: Let_def create_team_def validate_label_def Om_Catalog.MAX_LABEL_BYTES_def bind_result_def e_dbs fresh_uuid_def
      e_cat_def e_team_def bumped_def bump_catalog_generation_def)

lemma e_grant: "grant_team_role e_team e_prin Maintainer None 0 e_db2 = Inr ((), e_db3)"
  by (simp add: Let_def grant_team_role_def e_dbs bumped_def bump_catalog_generation_def bind_result_def bump_team_def
      upsert_membership_def)

lemma e_insert: "insert_space e_cat (cs_space e_space) ''default'' (SpaceRoot (e_uuid 99)) 4 e_manifest CatalogActive e_db3 =
    Inr (e_space, e_db4)"
  using e_ids_ok(3)
  by (simp add: Let_def insert_space_def e_dbs e_space_def bump_catalog_generation_def bind_result_def)

lemma e_typed: "space_typed e_cat (cs_space e_space) ''default'' (SpaceRoot (e_uuid 99))"
  using e_ids_ok by (simp add: space_typed_def e_space_def e_cat_def)

lemmas e_run = e_install e_create e_grant e_insert

lemma e_reachable: "(catalog_step e_cat)\<^sup>*\<^sup>* product_new e_db4"
proof -
  have "catalog_step e_cat product_new e_db1" "catalog_step e_cat e_db1 e_db2" "catalog_step e_cat e_db2 e_db3"
      "catalog_step e_cat e_db3 e_db4"
    using e_run e_typed by (blast intro: catalog_step.intros)+
  then show ?thesis by (meson converse_rtranclp_into_rtranclp r_into_rtranclp)
qed

section \<open>The catalog's properties\<close>

theorem catalog_consistent_witness:
  "distinct (map sp_root_key (pd_spaces e_db4)) \<and> pd_spaces e_db4 = [space_columns e_cat e_space] \<and>
   (\<exists>!r'. r' \<in> set (pd_spaces e_db4) \<and> sp_root_key r' = sp_root_key (space_columns e_cat e_space))"
  using catalog_consistent [OF e_uuid_ok e_reachable rtranclp.rtrancl_refl] by (auto simp: e_dbs)

theorem paging_complete_witness:
  "\<exists>ss. page_walk e_cat 2 ''default'' None 0 e_db4 = Inr ss \<and> map (space_columns e_cat) ss = [space_columns e_cat e_space]"
proof -
  have "length (pd_spaces e_db4) < 2" by (simp add: e_dbs)
  then obtain ss where "page_walk e_cat 2 ''default'' None 0 e_db4 = Inr ss"
      "mset (map (space_columns e_cat) ss) =
        filter_mset (\<lambda>r. sp_profile r = ''default'' \<and> sp_state r = ''active'') (mset (pd_spaces e_db4))"
    using paging_complete [OF e_uuid_ok e_reachable, of 2 "''default''" 0] by auto
  moreover have "filter_mset (\<lambda>r. sp_profile r = ''default'' \<and> sp_state r = ''active'') (mset (pd_spaces e_db4)) =
      mset [space_columns e_cat e_space]"
    by (simp add: e_dbs e_space_def space_columns_def)
  ultimately show ?thesis by (auto simp del: mset_map)
qed

definition e_bearer :: bytes where "e_bearer = ''0123456789abcdef''"

lemma e_issue: "\<exists>u db. issue_context_capability e_cat e_bearer e_ctx 100 50 e_db4 = Inr (u, db)"
  by (simp add: issue_context_capability_def e_bearer_def e_cat_def MAX_CAPABILITY_BYTES_def e_dbs e_ctx_def)

theorem capability_lifecycle_witness:
  "\<exists>db. consume_context_capability e_cat e_bearer 60 db = Inr (Some (e_ctx, 100)) \<and>
    consume_context_capability e_cat e_bearer 60 (snd (revoke_context_capability e_cat e_bearer 70 db)) = Inr None"
proof -
  have j: "context_of_json e_cat (context_json e_cat e_ctx) = Some e_ctx" by (simp add: e_cat_def)
  obtain u db where i: "issue_context_capability e_cat e_bearer e_ctx 100 50 e_db4 = Inr (u, db)" using e_issue by auto
  obtain b db2 where r: "revoke_context_capability e_cat e_bearer 70 db = (b, db2)" by fastforce
  show ?thesis
    using capability_lifecycle [OF j i rtranclp.rtrancl_refl r rtranclp.rtrancl_refl, of 60 e_ctx 100] r
    by (intro exI [of _ db]) simp
qed

section \<open>The authority service\<close>

lemma e_role: "role_for e_prin e_space now e_db4 = Inr (Some Maintainer)"
  by (simp add: role_for_def e_dbs e_space_def is_member_def team_active_def unexpired_def parse_role_def bind_result_def)

lemma e_snapshot: "\<exists>a. authority_snapshot_for e_cat e_prin e_space now e_db4 = Inr a"
  by (simp add: authority_snapshot_for_def authority_generations_def e_dbs e_space_def is_member_def unexpired_def
      bind_result_def authority_from_generations_def)

lemma e_leased: "\<exists>l g. lease e_cat e_prin Human e_space ActReview now e_db4 gate_new = (Inr l, g)"
  using e_role [of now] e_snapshot [of now]
  by (auto simp: lease_def enter_lease_def gate_new_def grant_for_def bind_result_def product_def can_review_def)

lemma e_relented:
  "lease e_cat e_prin Human e_space ActReview now e_db4 gate_new = (Inr l, g) \<Longrightarrow>
     \<exists>fresh. reauthorize e_cat l ActReview now e_db4 g = Inr fresh"
  by (auto simp: lease_Inr reauthorize_Inr)

theorem publication_is_current_witness:
  "\<exists>l g fresh. reauthorize e_cat l ActReview 0 e_db4 g = Inr fresh \<and> sg_space fresh = cs_space e_space \<and>
    standing e_prin e_space (sg_role fresh) 0 e_db4 \<and> may Human (sg_role fresh) e_space ActReview"
proof -
  obtain l g where l: "lease e_cat e_prin Human e_space ActReview 0 e_db4 gate_new = (Inr l, g)"
    using e_leased [of 0] by blast
  obtain fresh where f: "reauthorize e_cat l ActReview 0 e_db4 g = Inr fresh" using e_relented [OF l] by auto
  from publication_is_current [OF l rtranclp.rtrancl_refl f] f show ?thesis by blast
qed

definition e_db5 :: product_db where
  "e_db5 = e_db4\<lparr>pd_teams := [\<lparr>tm_id = e_team, tm_profile = ''default'', tm_label = ''team'', tm_active = True,
     tm_generation = 3\<rparr>], pd_memberships := [], pd_catalog_generation := Some 4\<rparr>"

definition e_db6 :: product_db where
  "e_db6 = e_db5\<lparr>pd_teams := [\<lparr>tm_id = e_team, tm_profile = ''default'', tm_label = ''team'', tm_active = True,
     tm_generation = 4\<rparr>], pd_memberships := [\<lparr>ms_team = e_team, ms_principal = e_prin, ms_role = ''reader'',
     ms_generation = 1, ms_expires = None\<rparr>], pd_catalog_generation := Some 5\<rparr>"

lemma e_revoke: "revoke_team_member e_team e_prin e_db4 = Inr (True, e_db5)"
  by (simp add: revoke_team_member_def e_dbs e_db5_def is_member_def bumped_def bump_catalog_generation_def
      bind_result_def bump_team_def Let_def)

lemma e_regrant: "grant_team_role e_team e_prin Reader None 0 e_db5 = Inr ((), e_db6)"
  by (simp add: grant_team_role_def e_dbs e_db5_def e_db6_def bumped_def bump_catalog_generation_def bind_result_def
      bump_team_def upsert_membership_def Let_def)

lemma e_reader: "role_for e_prin e_space 0 e_db6 = Inr (Some Reader)"
  by (simp add: role_for_def e_dbs e_db5_def e_db6_def e_space_def is_member_def team_active_def unexpired_def
      parse_role_def bind_result_def)

lemma e_reader_snapshot: "\<exists>a. authority_snapshot_for e_cat e_prin e_space 0 e_db6 = Inr a"
  by (simp add: authority_snapshot_for_def authority_generations_def e_dbs e_db5_def e_db6_def e_space_def is_member_def
      unexpired_def bind_result_def authority_from_generations_def)

theorem revoked_member_needs_a_grant_witness:
  "\<exists>a a' role expires now u. (catalog_step e_cat)\<^sup>*\<^sup>* e_db5 a \<and>
     grant_team_role e_team e_prin role expires now a = Inr (u, a') \<and> (catalog_step e_cat)\<^sup>*\<^sup>* a' e_db6"
proof -
  have r: "revoke_member e_team e_prin e_db4 gate_new = Some (Inr True, e_db5, finish_revocation (begin_revocation gate_new))"
    using e_revoke by (simp add: revoke_member_def Let_def drained_def begin_revocation_def gate_new_def)
  have s: "(catalog_step e_cat)\<^sup>*\<^sup>* e_db5 e_db6" using catalog_step.grant [OF e_regrant] by blast
  have o: "sr_owner (cs_space e_space) = TeamOwner e_team" by (simp add: e_space_def)
  have "\<exists>l g'. lease e_cat e_prin Human e_space ActRead 0 e_db6 gate_new = (Inr l, g')"
    using e_reader e_reader_snapshot
    by (auto simp: lease_def enter_lease_def gate_new_def grant_for_def bind_result_def product_def)
  from revoked_member_needs_a_grant [OF r s o disjI1 [OF this]] show ?thesis .
qed

theorem gate_excludes_witness:
  "\<exists>w. (auth_step e_cat True)\<^sup>*\<^sup>* (auth_world_new e_db4) w \<and> aw_revokers w = [(e_team, e_prin, Drained)] \<and>
     aw_leases w = [] \<and> enter_lease (aw_gate w) = Inl AuthRevoking"
proof -
  let ?w = "\<lambda>ph. (auth_world_new e_db4)\<lparr>aw_gate := begin_revocation gate_new, aw_revokers := [(e_team, e_prin, ph)]\<rparr>"
  have "auth_step e_cat True (auth_world_new e_db4) (?w Draining)"
    using begins [of True "auth_world_new e_db4" e_cat e_team e_prin] by (simp add: auth_world_new_def)
  moreover have "auth_step e_cat True (?w Draining) (?w Drained)"
    using drains [of "?w Draining" "[]" e_team e_prin "[]" e_cat True]
    by (simp add: auth_world_new_def drained_def begin_revocation_def gate_new_def)
  ultimately have r: "(auth_step e_cat True)\<^sup>*\<^sup>* (auth_world_new e_db4) (?w Drained)"
    by (meson converse_rtranclp_into_rtranclp r_into_rtranclp)
  have "(e_team, e_prin, Drained) \<in> set (aw_revokers (?w Drained))" by simp
  from gate_excludes [OF r this] show ?thesis using r by (intro exI [of _ "?w Drained"]) simp
qed

end
