(* ===== verification/Om_Manifest.thy ===== *)
theory Om_Manifest
  imports Om_Catalog Om_ChangesetHash
begin

text \<open>
  Managed roots (\<open>openmemory-daemon/src/space_manifest.rs\<close>): manifests and their binding hash, the identity
  file of the legacy root, and the two ways a root comes to be, as changes of the files of one profile
  and of the product catalog. A fault of the file system, of a transaction or of a store ends an
  operation with an error and leaves what was written, as a crash at that point does.
  TOML is a parameter; texts are UTF-8.
\<close>

section \<open>Trimming\<close>

text \<open>\<open>str::trim\<close>.\<close>

definition ws_tail :: "str \<Rightarrow> nat" where
  "ws_tail s = (let t = map of_char s; n = length t in
     if n \<ge> 1 \<and> ws_prefix (drop (n - 1) t) = 1 then 1
     else if n \<ge> 2 \<and> ws_prefix (drop (n - 2) t) = 2 then 2
     else if n \<ge> 3 \<and> ws_prefix (drop (n - 3) t) = 3 then 3 else 0)"

function trim_start :: "str \<Rightarrow> str" where
  "trim_start s = (if ws_head s = 0 then s else trim_start (drop (ws_head s) s))"
  by pat_completeness auto

termination
proof (relation "measure length")
  fix s assume "ws_head s \<noteq> 0"
  then show "(drop (ws_head s) s, s) \<in> measure length" using ws_head_le [of s] by simp
qed simp

function trim_end :: "str \<Rightarrow> str" where
  "trim_end s = (if ws_tail s = 0 then s else trim_end (take (length s - ws_tail s) s))"
  by pat_completeness auto

termination
proof (relation "measure length")
  fix s assume "ws_tail s \<noteq> 0"
  then have "s \<noteq> []" by (auto simp: ws_tail_def Let_def split: if_splits)
  then show "(take (length s - ws_tail s) s, s) \<in> measure length" using \<open>ws_tail s \<noteq> 0\<close> by (cases s) auto
qed simp

declare trim_start.simps [simp del] trim_end.simps [simp del]

definition trim_text :: "str \<Rightarrow> str" where
  "trim_text s = trim_end (trim_start s)"

section \<open>Manifests\<close>

datatype io_kind = IoNotFound | IoExists | IoOther

datatype manifest_error =
  MfIo io_kind | MfUnsafePath | MfRootEscape | MfHardLinked | MfInvalid str | MfProduct product_error
  | MfPortability | MfStore memory_error

datatype manifest_owner = ManifestUser | ManifestTeam
datatype manifest_context = ManifestGlobal | ManifestProject

record space_manifest =
  mf_version :: u16
  mf_space :: uuid
  mf_profile :: str
  mf_owner_kind :: manifest_owner
  mf_owner_id :: str
  mf_context_kind :: manifest_context
  mf_project :: str
  mf_domains :: u8
  mf_created :: i64
  mf_hash :: str

record manifest_deps = catalog_deps +
  toml_text :: "space_manifest \<Rightarrow> str"
  toml_read :: "str \<Rightarrow> space_manifest option"

definition MANIFEST_FORMAT_VERSION :: u16 where "MANIFEST_FORMAT_VERSION = 1"
definition MAX_MANIFEST_BYTES :: nat where "MAX_MANIFEST_BYTES = 16 * 1024"

definition manifest_frame :: "bytes \<Rightarrow> bytes" where
  "manifest_frame b = u64_le (u64_of_usize (length b)) @ b"

definition u8_le :: "u8 \<Rightarrow> bytes" where
  "u8_le v = le_bytes 1 (unat v)"

definition binding_input :: "'d catalog_deps_scheme \<Rightarrow> space_manifest \<Rightarrow> root_key \<Rightarrow> bytes" where
  "binding_input D m key =
     ''openmemory/space-manifest-binding/v1'' @
     manifest_frame (u16_le (mf_version m)) @
     manifest_frame (uuid_id_display (cd_space D) (mf_space m)) @
     manifest_frame (mf_profile m) @
     manifest_frame (case mf_owner_kind m of ManifestUser \<Rightarrow> ''user'' | ManifestTeam \<Rightarrow> ''team'') @
     manifest_frame (mf_owner_id m) @
     manifest_frame (case mf_context_kind m of ManifestGlobal \<Rightarrow> ''global'' | ManifestProject \<Rightarrow> ''project'') @
     manifest_frame (mf_project m) @
     manifest_frame (u8_le (mf_domains m)) @
     manifest_frame (root_key_str (catalog_deps.truncate D) key)"

definition binding_hash :: "'d catalog_deps_scheme \<Rightarrow> space_manifest \<Rightarrow> root_key \<Rightarrow> str" where
  "binding_hash D m key = ''blake3:'' @ hash_display (blake3 (cd_space D) (binding_input D m key))"

definition manifest_from_catalog :: "'d catalog_deps_scheme \<Rightarrow> catalog_space \<Rightarrow> i64 \<Rightarrow> space_manifest" where
  "manifest_from_catalog D s created =
     (let owner_part = (case sr_owner (cs_space s) of UserOwner i \<Rightarrow> (ManifestUser, i) | TeamOwner i \<Rightarrow> (ManifestTeam, i));
          context_part = (case sr_context (cs_space s) of GlobalContext \<Rightarrow> (ManifestGlobal, [])
            | ProjectContext i \<Rightarrow> (ManifestProject, uuid_id_display (cd_space D) i));
          m = \<lparr>mf_version = MANIFEST_FORMAT_VERSION, mf_space = sr_id (cs_space s), mf_profile = cs_profile s,
               mf_owner_kind = fst owner_part, mf_owner_id = snd owner_part, mf_context_kind = fst context_part,
               mf_project = snd context_part, mf_domains = cs_domain_count s, mf_created = created, mf_hash = []\<rparr>
      in m\<lparr>mf_hash := binding_hash D m (cs_root_key s)\<rparr>)"

definition owner_agrees :: "space_owner \<Rightarrow> space_manifest \<Rightarrow> bool" where
  "owner_agrees ownr m \<longleftrightarrow> (case ownr of
     UserOwner i \<Rightarrow> mf_owner_kind m = ManifestUser \<and> i = mf_owner_id m
   | TeamOwner i \<Rightarrow> mf_owner_kind m = ManifestTeam \<and> i = mf_owner_id m)"

definition context_agrees :: "'d catalog_deps_scheme \<Rightarrow> space_context \<Rightarrow> space_manifest \<Rightarrow> bool" where
  "context_agrees D ctx m \<longleftrightarrow> (case ctx of
     GlobalContext \<Rightarrow> mf_context_kind m = ManifestGlobal \<and> mf_project m = []
   | ProjectContext i \<Rightarrow> mf_context_kind m = ManifestProject \<and> uuid_id_display (cd_space D) i = mf_project m)"

definition validate_against :: "'d catalog_deps_scheme \<Rightarrow> space_manifest \<Rightarrow> catalog_space \<Rightarrow> manifest_error + unit" where
  "validate_against D m s =
     (if mf_version m \<noteq> MANIFEST_FORMAT_VERSION \<or> mf_space m \<noteq> sr_id (cs_space s) \<or> mf_profile m \<noteq> cs_profile s \<or>
         mf_domains m \<noteq> cs_domain_count s \<or> mf_hash m \<noteq> binding_hash D m (cs_root_key s) \<or>
         mf_hash m \<noteq> cs_manifest_hash s
      then Inl (MfInvalid ''manifest does not match its catalog identity'')
      else if \<not> owner_agrees (sr_owner (cs_space s)) m
      then Inl (MfInvalid ''manifest owner does not match catalog'')
      else if \<not> context_agrees D (sr_context (cs_space s)) m
      then Inl (MfInvalid ''manifest context does not match catalog'')
      else Inr ())"

section \<open>Files\<close>

datatype fs_entry = Absent | Plain str | HardLink str | Symlink | Directory

definition read_bounded :: "nat \<Rightarrow> fs_entry \<Rightarrow> manifest_error + str" where
  "read_bounded limit e = (case e of
     Absent \<Rightarrow> Inl (MfIo IoNotFound)
   | Plain t \<Rightarrow> if length t > limit then Inl MfUnsafePath else Inr t
   | HardLink t \<Rightarrow> if length t > limit then Inl MfUnsafePath else Inl MfHardLinked
   | Symlink \<Rightarrow> Inl MfUnsafePath
   | Directory \<Rightarrow> Inl MfUnsafePath)"

definition ensure_directory :: "bool \<Rightarrow> fs_entry \<Rightarrow> manifest_error + fs_entry" where
  "ensure_directory create e = (case e of
     Directory \<Rightarrow> Inr Directory
   | Absent \<Rightarrow> if create then Inr Directory else Inl (MfIo IoNotFound)
   | _ \<Rightarrow> Inl MfUnsafePath)"

text \<open>The files of a profile, the databases of its roots by the space they are bound to, and the catalog.\<close>

record bind_world =
  bw_db :: product_db
  bw_data :: fs_entry
  bw_profile :: fs_entry
  bw_spaces :: fs_entry
  bw_legacy_id :: fs_entry
  bw_root :: "uuid \<Rightarrow> fs_entry"
  bw_manifest :: "root_key \<Rightarrow> fs_entry"
  bw_stores :: "root_key \<Rightarrow> nat \<Rightarrow> str option"
  bw_single :: bool

text \<open>What the environment decides: generated identifiers, the clock, another process that creates the
  identity file first, and what fails.\<close>

record bind_env =
  be_now :: i64
  be_new_id :: uuid
  be_winner :: "str option"
  be_torn :: "nat option"
  be_sql :: "nat \<Rightarrow> bool"
  be_write :: "io_kind option"
  be_sync :: "io_kind option"
  be_store :: "(nat \<times> memory_error) option"
  be_escape :: bool
  be_inspect :: bool

definition catalog_tx :: "bind_env \<Rightarrow> nat \<Rightarrow> (product_db \<Rightarrow> product_error + 'a \<times> product_db) \<Rightarrow>
    (bind_world, manifest_error, 'a) run" where
  "catalog_tx env k tx w =
     (if be_sql env k then (Inl (MfProduct PsSql), w)
      else case tx (bw_db w) of Inl e \<Rightarrow> (Inl (MfProduct e), w)
        | Inr (v, db) \<Rightarrow> (Inr v, w\<lparr>bw_db := db\<rparr>))"

definition run_bind :: "('st, 'e, 'a) run \<Rightarrow> ('a \<Rightarrow> ('st, 'e, 'b) run) \<Rightarrow> ('st, 'e, 'b) run" where
  "run_bind m k st = (case m st of (Inl e, st') \<Rightarrow> (Inl e, st') | (Inr v, st') \<Rightarrow> k v st')"

definition run_check :: "('e + 'a) \<Rightarrow> ('st, 'e, 'a) run" where
  "run_check r st = (r, st)"

section \<open>The legacy identity\<close>

definition parse_legacy_id :: "'d catalog_deps_scheme \<Rightarrow> str \<Rightarrow> manifest_error + uuid" where
  "parse_legacy_id D text = (case uuid_id_from_str (cd_space D) ''space'' (trim_text text) of
     Inl e \<Rightarrow> Inl (MfInvalid ''space'') | Inr i \<Rightarrow> Inr i)"

definition existing_graph_space_id :: "'d catalog_deps_scheme \<Rightarrow> bind_world \<Rightarrow> manifest_error + uuid option" where
  "existing_graph_space_id D w =
     (if \<not> bw_single w then Inr None
      else case bw_stores w LegacyRoot 0 of None \<Rightarrow> Inr None
        | Some v \<Rightarrow> (case uuid_id_from_str (cd_space D) ''space'' v of
            Inl e \<Rightarrow> Inl (MfInvalid ''space'') | Inr i \<Rightarrow> Inr (Some i)))"

text \<open>The file is created, written and synced; a fault leaves the bytes written until then.\<close>

definition write_new_synced :: "bind_env \<Rightarrow> str \<Rightarrow> (manifest_error + unit) \<times> fs_entry" where
  "write_new_synced env text = (case be_torn env of
     None \<Rightarrow> (Inr (), Plain text) | Some n \<Rightarrow> (Inl (MfIo IoOther), Plain (take n text)))"

definition read_or_create_legacy_id :: "'d catalog_deps_scheme \<Rightarrow> bind_env \<Rightarrow> (bind_world, manifest_error, uuid) run" where
  "read_or_create_legacy_id D env w =
     (case ensure_directory False (bw_profile w) of Inl e \<Rightarrow> (Inl e, w)
      | Inr _ \<Rightarrow>
        (case read_bounded 256 (bw_legacy_id w) of
           Inr text \<Rightarrow> (parse_legacy_id D text, w)
         | Inl (MfIo IoNotFound) \<Rightarrow>
            (case existing_graph_space_id D w of Inl e \<Rightarrow> (Inl e, w)
             | Inr found \<Rightarrow>
                let i = (case found of None \<Rightarrow> be_new_id env | Some j \<Rightarrow> j) in
                case be_winner env of
                  Some text \<Rightarrow> (bind_result (read_bounded 256 (Plain text)) (parse_legacy_id D),
                      w\<lparr>bw_legacy_id := Plain text\<rparr>)
                | None \<Rightarrow> (case write_new_synced env (uuid_id_display (cd_space D) i @ [CHR 0x0A]) of
                      (r, e) \<Rightarrow> (bind_result r (\<lambda>_. Inr i), w\<lparr>bw_legacy_id := e\<rparr>)))
         | Inl e \<Rightarrow> (Inl e, w)))"

section \<open>Manifest files and stores\<close>

definition read_manifest :: "'d manifest_deps_scheme \<Rightarrow> fs_entry \<Rightarrow> manifest_error + space_manifest" where
  "read_manifest D e = bind_result (read_bounded MAX_MANIFEST_BYTES e) (\<lambda>text.
     case toml_read D text of None \<Rightarrow> Inl (MfInvalid ''toml'') | Some m \<Rightarrow> Inr m)"

definition root_entry :: "bind_world \<Rightarrow> root_key \<Rightarrow> fs_entry" where
  "root_entry w key = (case key of LegacyRoot \<Rightarrow> bw_profile w | SpaceRoot i \<Rightarrow> bw_root w i)"

text \<open>A temporary file is written, synced and renamed, and the directory synced.\<close>

definition write_manifest :: "'d manifest_deps_scheme \<Rightarrow> bind_env \<Rightarrow> root_key \<Rightarrow> space_manifest \<Rightarrow>
    (bind_world, manifest_error, unit) run" where
  "write_manifest D env key m w =
     (if length (toml_text D m) > MAX_MANIFEST_BYTES then (Inl (MfInvalid ''manifest exceeds its bound''), w)
      else case ensure_directory False (root_entry w key) of Inl e \<Rightarrow> (Inl e, w)
      | Inr _ \<Rightarrow>
         if bw_manifest w key = Symlink then (Inl MfUnsafePath, w)
         else case be_write env of Some k \<Rightarrow> (Inl (MfIo k), w)
         | None \<Rightarrow>
            if bw_manifest w key = Directory then (Inl (MfIo IoOther), w)
            else (case be_sync env of None \<Rightarrow> Inr () | Some k \<Rightarrow> Inl (MfIo k),
                  w\<lparr>bw_manifest := (bw_manifest w)(key := Plain (toml_text D m))\<rparr>))"

definition store_fault :: "bind_env \<Rightarrow> nat \<Rightarrow> memory_error option" where
  "store_fault env i = (case be_store env of None \<Rightarrow> None | Some (k, e) \<Rightarrow> if k = i then Some e else None)"

fun bind_stores :: "bind_env \<Rightarrow> str \<Rightarrow> nat list \<Rightarrow> (nat \<Rightarrow> str option) \<Rightarrow>
    (manifest_error + unit) \<times> (nat \<Rightarrow> str option)" where
  "bind_stores env text [] st = (Inr (), st)"
| "bind_stores env text (i # is) st =
     (case store_fault env i of Some e \<Rightarrow> (Inl (MfStore e), st)
      | None \<Rightarrow> (case st i of
          Some t \<Rightarrow> if t = text then bind_stores env text is st
            else (Inl (MfStore (MemInvalidInput (''memory store is bound to space '' @ t @ '', not '' @ text))), st)
        | None \<Rightarrow> bind_stores env text is (st(i := Some text))))"

text \<open>\<open>open_scoped\<close> and \<open>verify_domain_store\<close>: a failure numbered beyond the stores is one of the verification.\<close>

definition open_verified :: "'d catalog_deps_scheme \<Rightarrow> bind_env \<Rightarrow> root_key \<Rightarrow> u8 \<Rightarrow> uuid \<Rightarrow>
    (bind_world, manifest_error, unit) run" where
  "open_verified D env key domains i w =
     (case bind_stores env (uuid_id_display (cd_space D) i) [0..<unat domains] (bw_stores w key) of (r, st) \<Rightarrow>
        (case r of Inl e \<Rightarrow> Inl e
           | Inr _ \<Rightarrow> (case be_store env of Some (k, e) \<Rightarrow> if unat domains \<le> k then Inl (MfStore e) else Inr ()
               | None \<Rightarrow> Inr ()),
         w\<lparr>bw_stores := (bw_stores w)(key := st),
           bw_single := (bw_single w \<or> (key = LegacyRoot \<and> unat domains = 1))\<rparr>))"

section \<open>Binding the legacy root\<close>

definition expected_legacy :: "uuid \<Rightarrow> str \<Rightarrow> str \<Rightarrow> u8 \<Rightarrow> catalog_space" where
  "expected_legacy i prin profile domains =
     \<lparr>cs_space = \<lparr>sr_id = i, sr_owner = UserOwner prin, sr_context = GlobalContext\<rparr>, cs_profile = profile,
      cs_root_key = LegacyRoot, cs_domain_count = domains, cs_manifest_hash = [], cs_state = CatalogCreating,
      cs_generation = 0\<rparr>"

definition manifest_stage :: "'d manifest_deps_scheme \<Rightarrow> bind_env \<Rightarrow> space_manifest \<Rightarrow> catalog_space \<Rightarrow>
    (bind_world, manifest_error, unit) run" where
  "manifest_stage D env m catalog w =
     (case read_manifest D (bw_manifest w LegacyRoot) of
        Inr on_disk \<Rightarrow> (validate_against D on_disk catalog, w)
      | Inl (MfIo IoNotFound) \<Rightarrow> write_manifest D env LegacyRoot m w
      | Inl e \<Rightarrow> (Inl e, w))"

definition bind_legacy :: "'d manifest_deps_scheme \<Rightarrow> bind_env \<Rightarrow> str \<Rightarrow> u8 \<Rightarrow>
    (bind_world, manifest_error, catalog_space \<times> space_manifest) run" where
  "bind_legacy D env profile domains =
     run_bind (read_or_create_legacy_id D env) (\<lambda>i.
     run_bind (catalog_tx env 0 (ensure_installation_principal (catalog_deps.truncate D))) (\<lambda>prin.
       let m = manifest_from_catalog D (expected_legacy i prin profile domains) (be_now env) in
       run_bind (catalog_tx env 1 (bind_legacy_personal_global (catalog_deps.truncate D) profile prin i domains (mf_hash m)))
         (\<lambda>catalog.
           run_bind (run_check (if cs_manifest_hash catalog \<noteq> mf_hash m
               then Inl (MfInvalid ''legacy catalog binding hash differs from manifest identity'') else Inr ())) (\<lambda>_.
           run_bind (manifest_stage D env m catalog) (\<lambda>_.
           run_bind (open_verified D env LegacyRoot domains (sr_id (cs_space catalog))) (\<lambda>_.
           run_bind (catalog_tx env 2 (activate_space (catalog_deps.truncate D) i (mf_hash m))) (\<lambda>active.
           run_check (if be_inspect env then Inl MfPortability else Inr (active, m)))))))))"

section \<open>Creating a managed root\<close>

definition provisional_space :: "space_ref \<Rightarrow> str \<Rightarrow> u8 \<Rightarrow> catalog_space" where
  "provisional_space space profile domains =
     \<lparr>cs_space = space, cs_profile = profile, cs_root_key = SpaceRoot (sr_id space), cs_domain_count = domains,
      cs_manifest_hash = [], cs_state = CatalogCreating, cs_generation = 0\<rparr>"

text \<open>\<open>create_dir_all\<close> on the data directory, and the directories below it.\<close>

definition make_roots :: "bind_env \<Rightarrow> uuid \<Rightarrow> (bind_world, manifest_error, unit) run" where
  "make_roots env i w =
     (let w1 = (if bw_data w = Absent then w\<lparr>bw_data := Directory\<rparr> else w) in
      case bw_data w1 of Plain t \<Rightarrow> (Inl (MfIo IoExists), w1) | HardLink t \<Rightarrow> (Inl (MfIo IoExists), w1) | _ \<Rightarrow>
      case ensure_directory False (bw_data w1) of Inl e \<Rightarrow> (Inl e, w1) | Inr _ \<Rightarrow>
      case ensure_directory True (bw_profile w1) of Inl e \<Rightarrow> (Inl e, w1) | Inr d \<Rightarrow>
      (let w2 = w1\<lparr>bw_profile := d\<rparr> in
      case ensure_directory True (bw_spaces w2) of Inl e \<Rightarrow> (Inl e, w2) | Inr d' \<Rightarrow>
      (let w3 = w2\<lparr>bw_spaces := d'\<rparr> in
      case ensure_directory True (bw_root w3 i) of Inl e \<Rightarrow> (Inl e, w3) | Inr d'' \<Rightarrow>
      (let w4 = w3\<lparr>bw_root := (bw_root w3)(i := d'')\<rparr> in
        (if be_escape env then Inl MfRootEscape else Inr (), w4)))))"

definition create_managed_root :: "'d manifest_deps_scheme \<Rightarrow> bind_env \<Rightarrow> space_ref \<Rightarrow> str \<Rightarrow> u8 \<Rightarrow>
    (bind_world, manifest_error, catalog_space) run" where
  "create_managed_root D env space profile domains =
     (let key = SpaceRoot (sr_id space);
          m = manifest_from_catalog D (provisional_space space profile domains) (be_now env)
      in run_bind (make_roots env (sr_id space)) (\<lambda>_.
         run_bind (write_manifest D env key m) (\<lambda>_.
         run_bind (catalog_tx env 0 (insert_space (catalog_deps.truncate D) space profile key domains (mf_hash m) CatalogCreating)) (\<lambda>_.
         run_bind (open_verified D env key domains (sr_id space)) (\<lambda>_.
         catalog_tx env 1 (activate_space (catalog_deps.truncate D) (sr_id space) (mf_hash m)))))))"

definition load_manifest_for_catalog :: "'d manifest_deps_scheme \<Rightarrow> bool \<Rightarrow> catalog_space \<Rightarrow> bind_world \<Rightarrow>
    manifest_error + space_manifest" where
  "load_manifest_for_catalog D escapes s w =
     bind_result (ensure_directory False (bw_profile w)) (\<lambda>_.
     bind_result (case cs_root_key s of LegacyRoot \<Rightarrow> Inr Directory
         | SpaceRoot i \<Rightarrow> bind_result (ensure_directory False (bw_spaces w)) (\<lambda>_. ensure_directory False (bw_root w i))) (\<lambda>_.
     bind_result (if escapes then Inl MfRootEscape else Inr ()) (\<lambda>_.
     bind_result (read_manifest D (bw_manifest w (cs_root_key s))) (\<lambda>m.
     bind_result (validate_against D m s) (\<lambda>_. Inr m)))))"

end
