(* ===== verification/Om_ManifestProps.thy ===== *)
theory Om_ManifestProps
  imports Om_Manifest Om_CatalogProps
begin

text \<open>
  What manifests bind, and that binding the legacy root resumes wherever it was interrupted.
\<close>

section \<open>Trimming\<close>

definition visible :: "str \<Rightarrow> bool" where
  "visible s \<longleftrightarrow> s \<noteq> [] \<and> (\<forall>c\<in>set s. 32 < (of_char c :: nat) \<and> (of_char c :: nat) < 127)"

lemma ws_prefix_visible: "32 < a \<Longrightarrow> a < 127 \<Longrightarrow> ws_prefix (a # xs) = 0"
  by (cases xs; cases "tl xs") auto

lemma ws_head_visible: "visible s \<Longrightarrow> ws_head (s @ t) = 0"
  by (cases s) (auto simp: visible_def ws_head_def intro: ws_prefix_visible)

lemma ws_tail_line: "ws_tail (s @ [CHR 0x0A]) = 1"
  by (simp add: ws_tail_def Let_def)

lemma ws_tail_visible:
  assumes "visible s"
  shows "ws_tail s = 0"
proof -
  have "ws_prefix (drop k (map of_char s)) = 0" for k
  proof (cases "k < length s")
    case True
    then have "drop k (map of_char s) = of_char (s ! k) # drop (Suc k) (map of_char s)"
      by (simp add: Cons_nth_drop_Suc [symmetric])
    moreover have "32 < (of_char (s ! k) :: nat) \<and> (of_char (s ! k) :: nat) < 127" using assms True by (simp add: visible_def)
    ultimately show ?thesis by (metis ws_prefix_visible)
  qed simp
  then show ?thesis by (simp add: ws_tail_def Let_def)
qed

lemma trim_line: "visible s \<Longrightarrow> trim_text (s @ [CHR 0x0A]) = s"
  using ws_head_visible [of s "[CHR 0x0A]"] ws_tail_line [of s] ws_tail_visible [of s]
  by (simp add: trim_text_def trim_start.simps [of "s @ _"] trim_end.simps [of "s @ _"] trim_end.simps [of s])

section \<open>Parameters\<close>

lemma truncate_fields [simp]: "cd_space (catalog_deps.truncate D) = cd_space D" "cd_uuid (catalog_deps.truncate D) = cd_uuid D"
  by (simp_all add: catalog_deps.truncate_def)

definition ids_ok :: "'d catalog_deps_scheme \<Rightarrow> bool" where
  "ids_ok D \<longleftrightarrow> uuid_ok (catalog_deps.truncate D) \<and> (\<forall>b. length (blake3 (cd_space D) b) = 32) \<and>
     (\<forall>u. visible (uuid_id_display (cd_space D) u) \<and> length (uuid_id_display (cd_space D) u) \<le> 36)"

definition toml_ok :: "'d manifest_deps_scheme \<Rightarrow> space_manifest \<Rightarrow> bool" where
  "toml_ok D m \<longleftrightarrow> toml_read D (toml_text D m) = Some m \<and> length (toml_text D m) \<le> MAX_MANIFEST_BYTES"

lemma visible_control: "visible s \<Longrightarrow> \<not> has_control s"
proof -
  have "(\<forall>c\<in>set s. 32 < (of_char c :: nat) \<and> (of_char c :: nat) < 127) \<Longrightarrow> \<not> has_control s"
    by (induction s) auto
  then show "visible s \<Longrightarrow> \<not> has_control s" by (simp add: visible_def)
qed

lemma local_principal:
  assumes "ids_ok D"
  shows "opaque_id_new ''principal'' (''local:'' @ uuid_id_display (cd_space D) u) = Inr (''local:'' @ uuid_id_display (cd_space D) u)"
proof -
  have "visible (uuid_id_display (cd_space D) u)" "length (uuid_id_display (cd_space D) u) \<le> 36"
    using assms by (simp_all add: ids_ok_def)
  then show ?thesis using visible_control [of "uuid_id_display (cd_space D) u"]
    by (simp add: opaque_id_new_def MAX_OPAQUE_ID_BYTES_def)
qed

lemma binding_hash_ok:
  assumes "ids_ok D"
  shows "is_blake3_digest (binding_hash D m key)"
proof -
  have "list_all (\<lambda>c. is_ascii_hexdigit c \<and> \<not> is_ascii_uppercase c) (hash_display bs)" for bs
    using hash_display_hex [of bs]
    by (rule list.pred_mono_strong) (auto simp: is_lower_hex_def is_ascii_hexdigit_def is_ascii_uppercase_def Let_def)
  then show ?thesis
    using assms by (simp add: binding_hash_def is_blake3_digest_def strip_prefix_def starts_with_def length_hash_display ids_ok_def)
qed

section \<open>What a manifest binds\<close>

lemma binding_created: "binding_input D (m\<lparr>mf_created := t, mf_hash := h\<rparr>) key = binding_input D m key"
  by (simp add: binding_input_def)

lemma manifest_hash: "mf_hash (manifest_from_catalog D s t) = binding_hash D (manifest_from_catalog D s t) (cs_root_key s)"
  using binding_created [of D _ t] by (simp add: manifest_from_catalog_def binding_hash_def binding_input_def Let_def)

lemma manifest_hash_created: "mf_hash (manifest_from_catalog D s t) = mf_hash (manifest_from_catalog D s t')"
  by (simp add: manifest_from_catalog_def binding_hash_def binding_input_def Let_def)

definition manifest_fits :: "'d catalog_deps_scheme \<Rightarrow> space_manifest \<Rightarrow> bool" where
  "manifest_fits D m \<longleftrightarrow> fits (mf_profile m) \<and> fits (mf_owner_id m) \<and> fits (mf_project m)"

lemma manifest_frame_split:
  "length a < 2 ^ 64 \<Longrightarrow> length b < 2 ^ 64 \<Longrightarrow> manifest_frame a @ r = manifest_frame b @ s \<longleftrightarrow> a = b \<and> r = s"
  using frame_split [of a b r s] by (auto simp: manifest_frame_def frame_def)

lemma manifest_frame_last:
  "length a < 2 ^ 64 \<Longrightarrow> length b < 2 ^ 64 \<Longrightarrow> manifest_frame a = manifest_frame b \<longleftrightarrow> a = b"
  using manifest_frame_split [of a b "[]" "[]"] by simp

lemma root_key_str_inj:
  assumes "uuid_ok (catalog_deps.truncate D)"
  shows "root_key_str (catalog_deps.truncate D) k = root_key_str (catalog_deps.truncate D) k' \<longleftrightarrow> k = k'"
  using uuid_text_inj [OF assms] by (cases k; cases k') auto

lemma u8_le: "u8_le a = u8_le b \<longleftrightarrow> a = b" "length (u8_le a) = 1"
  using le_bytes_word [of 1 a b] by (auto simp: u8_le_def)

text \<open>
  C29. The bytes whose hash binds a manifest to its root determine the identity the manifest states: format,
  space, profile, owner, context, number of domains and root key. Only the creation time is free.
\<close>

theorem manifest_binds_identity:
  assumes "ids_ok D" "manifest_fits D m" "manifest_fits D m'"
  shows "binding_input D m key = binding_input D m' key' \<longleftrightarrow>
    key = key' \<and> mf_version m = mf_version m' \<and> mf_space m = mf_space m' \<and> mf_profile m = mf_profile m' \<and>
    mf_owner_kind m = mf_owner_kind m' \<and> mf_owner_id m = mf_owner_id m' \<and> mf_context_kind m = mf_context_kind m' \<and>
    mf_project m = mf_project m' \<and> mf_domains m = mf_domains m'"
proof -
  have u: "uuid_ok (catalog_deps.truncate D)" and t: "length (uuid_id_display (cd_space D) i) \<le> 36" for i
    using assms(1) by (simp_all add: ids_ok_def)
  have l: "length (uuid_id_display (cd_space D) i) < 2 ^ 64" for i using t [of i] by simp
  have k: "length (root_key_str (catalog_deps.truncate D) (SpaceRoot i)) < 2 ^ 64" for i using t [of i] by simp
  then have k: "length (root_key_str (catalog_deps.truncate D) x) < 2 ^ 64" for x by (cases x) auto
  have f: "length (mf_profile x) < 2 ^ 64 \<and> length (mf_owner_id x) < 2 ^ 64 \<and> length (mf_project x) < 2 ^ 64"
    if "manifest_fits D x" for x
    using that by (simp add: manifest_fits_def fits_def)
  have v: "u16_le a = u16_le b \<longleftrightarrow> a = b" for a b using u16_le_unique [of a "[]" b "[]"] by auto
  show ?thesis
    unfolding binding_input_def same_append_eq
    using f [OF assms(2)] f [OF assms(3)] l k uuid_text_inj [OF u] root_key_str_inj [OF u]
    by (simp add: manifest_frame_split manifest_frame_last v u8_le split: manifest_owner.splits manifest_context.splits)
      (auto split: manifest_owner.splits manifest_context.splits)
qed

lemma manifest_accepts_own:
  assumes "cs_manifest_hash s = mf_hash (manifest_from_catalog D s t)"
  shows "validate_against D (manifest_from_catalog D s t) s = Inr ()"
proof -
  have "owner_agrees (sr_owner (cs_space s)) (manifest_from_catalog D s t)"
      "context_agrees D (sr_context (cs_space s)) (manifest_from_catalog D s t)"
      "mf_version (manifest_from_catalog D s t) = MANIFEST_FORMAT_VERSION" "mf_space (manifest_from_catalog D s t) = sr_id (cs_space s)"
      "mf_profile (manifest_from_catalog D s t) = cs_profile s" "mf_domains (manifest_from_catalog D s t) = cs_domain_count s"
    by (simp_all add: manifest_from_catalog_def owner_agrees_def context_agrees_def Let_def split: space_owner.splits space_context.splits)
  then show ?thesis using assms manifest_hash [of D s t] by (simp add: validate_against_def)
qed

text \<open>
  C30. A manifest is accepted for a space of the catalog exactly when it is, up to its creation time, the
  manifest that is written for the space, and the catalog holds its hash.
\<close>

theorem manifest_accepted_exactly:
  "validate_against D m s = Inr () \<longleftrightarrow>
     m = manifest_from_catalog D s (mf_created m) \<and> cs_manifest_hash s = mf_hash m"
proof -
  have "m = manifest_from_catalog D s (mf_created m)"
    if "mf_version m = MANIFEST_FORMAT_VERSION" "mf_space m = sr_id (cs_space s)" "mf_profile m = cs_profile s"
      "mf_domains m = cs_domain_count s" "mf_hash m = binding_hash D m (cs_root_key s)"
      "owner_agrees (sr_owner (cs_space s)) m" "context_agrees D (sr_context (cs_space s)) m"
    using that
    by (cases m)
      (auto simp: manifest_from_catalog_def owner_agrees_def context_agrees_def Let_def binding_hash_def binding_input_def
        split: space_owner.splits space_context.splits)
  moreover have "validate_against D m s = Inr ()"
    if "m = manifest_from_catalog D s (mf_created m)" "cs_manifest_hash s = mf_hash m"
    using manifest_accepts_own [of s D "mf_created m"] that by simp
  ultimately show ?thesis by (auto simp: validate_against_def split: if_splits)
qed

end
