(* ===== verification/Om_ManifestRun.thy ===== *)
theory Om_ManifestRun
  imports Om_ManifestProps
begin

text \<open>
  Binding the legacy root, as a sequence of durable stages that may end at any of them: what every stage
  leaves, and that a later run without faults finishes with the identity the earlier ones began with.
\<close>

section \<open>What may be on disk\<close>

definition id_text :: "'d catalog_deps_scheme \<Rightarrow> uuid \<Rightarrow> str" where
  "id_text D i = uuid_id_display (cd_space D) i"

definition legacy_space :: "'d catalog_deps_scheme \<Rightarrow> str \<Rightarrow> u8 \<Rightarrow> uuid \<Rightarrow> str \<Rightarrow> catalog_state \<Rightarrow> u64 \<Rightarrow> catalog_space" where
  "legacy_space D profile domains i p st g = (expected_legacy i p profile domains)
     \<lparr>cs_manifest_hash := mf_hash (manifest_from_catalog D (expected_legacy i p profile domains) 0),
      cs_state := st, cs_generation := g\<rparr>"

definition recorded :: "'d catalog_deps_scheme \<Rightarrow> uuid \<Rightarrow> bind_world \<Rightarrow> bool" where
  "recorded D i w \<longleftrightarrow> bw_legacy_id w = Plain (id_text D i @ [CHR 0x0A]) \<and> version_num (cd_space D) i = 7"

definition stores_free :: "'d catalog_deps_scheme \<Rightarrow> uuid \<Rightarrow> bind_world \<Rightarrow> bool" where
  "stores_free D i w \<longleftrightarrow> (\<forall>k. bw_stores w LegacyRoot k \<in> {None, Some (id_text D i)})"

definition principals_ok :: "product_db \<Rightarrow> bool" where
  "principals_ok db \<longleftrightarrow> (case pd_installation db of None \<Rightarrow> pd_principals db = []
     | Some p \<Rightarrow> opaque_id_new ''principal'' p = Inr p)"

text \<open>Nothing was bound yet; the graph may already be bound to a space, and then in the one-store layout.\<close>

definition adoptable :: "'d catalog_deps_scheme \<Rightarrow> bind_world \<Rightarrow> bool" where
  "adoptable D w \<longleftrightarrow> bw_profile w = Directory \<and> bw_legacy_id w = Absent \<and> bw_manifest w LegacyRoot = Absent \<and>
     pd_spaces (bw_db w) = [] \<and> principals_ok (bw_db w) \<and>
     ((\<forall>k. bw_stores w LegacyRoot k = None) \<or>
      (\<exists>i. bw_single w \<and> version_num (cd_space D) i = 7 \<and> bw_stores w LegacyRoot 0 = Some (id_text D i) \<and> stores_free D i w))"

definition named :: "'d catalog_deps_scheme \<Rightarrow> uuid \<Rightarrow> bind_world \<Rightarrow> bool" where
  "named D i w \<longleftrightarrow> bw_profile w = Directory \<and> recorded D i w \<and> bw_manifest w LegacyRoot = Absent \<and>
     pd_spaces (bw_db w) = [] \<and> principals_ok (bw_db w) \<and> stores_free D i w"

definition bound :: "'d manifest_deps_scheme \<Rightarrow> str \<Rightarrow> u8 \<Rightarrow> uuid \<Rightarrow> str \<Rightarrow> bind_world \<Rightarrow> bool" where
  "bound D profile domains i p w \<longleftrightarrow> bw_profile w = Directory \<and> recorded D i w \<and> stores_free D i w \<and>
     pd_installation (bw_db w) = Some p \<and> opaque_id_new ''principal'' p = Inr p \<and>
     (\<exists>st g. st \<in> {CatalogCreating, CatalogActive} \<and>
        pd_spaces (bw_db w) = [space_columns (catalog_deps.truncate D) (legacy_space D profile domains i p st g)]) \<and>
     (bw_manifest w LegacyRoot = Absent \<or>
      (\<exists>t. bw_manifest w LegacyRoot = Plain (toml_text D (manifest_from_catalog D (expected_legacy i p profile domains) t))))"

definition bindable :: "'d manifest_deps_scheme \<Rightarrow> str \<Rightarrow> u8 \<Rightarrow> bool" where
  "bindable D profile domains \<longleftrightarrow> ids_ok D \<and> valid_profile_name profile \<and> 1 \<le> unat domains \<and> unat domains \<le> 64 \<and>
     (\<forall>i p t. opaque_id_new ''principal'' p = Inr p \<longrightarrow> toml_ok D (manifest_from_catalog D (expected_legacy i p profile domains) t))"

text \<open>An environment in which the identity file is written whole, and one in which nothing fails.\<close>

definition untorn :: "'d catalog_deps_scheme \<Rightarrow> bind_env \<Rightarrow> bool" where
  "untorn D env \<longleftrightarrow> be_torn env = None \<and> be_winner env = None \<and> version_num (cd_space D) (be_new_id env) = 7"

definition fault_free :: "'d catalog_deps_scheme \<Rightarrow> bind_env \<Rightarrow> bool" where
  "fault_free D env \<longleftrightarrow> untorn D env \<and> \<not> be_sql env 0 \<and> \<not> be_sql env 1 \<and> \<not> be_sql env 2 \<and> be_write env = None \<and>
     be_sync env = None \<and> be_store env = None \<and> \<not> be_inspect env"

section \<open>The stages\<close>

lemma id_visible: "ids_ok D \<Longrightarrow> visible (id_text D i) \<and> length (id_text D i) \<le> 36"
  by (simp add: ids_ok_def id_text_def)

lemma read_recorded:
  assumes "ids_ok D" "recorded D i w"
  shows "read_bounded 256 (bw_legacy_id w) = Inr (id_text D i @ [CHR 0x0A])"
  using assms id_visible [OF assms(1), of i] by (simp add: recorded_def read_bounded_def)

lemma parse_recorded:
  assumes "ids_ok D" "version_num (cd_space D) i = 7"
  shows "parse_legacy_id D (id_text D i @ [CHR 0x0A]) = Inr i"
  using assms uuid_read [of "catalog_deps.truncate D" "''space''" _ i, THEN iffD2]
  by (simp add: parse_legacy_id_def trim_line id_visible ids_ok_def) (simp add: id_text_def)

lemma stage_id_adoptable:
  assumes "ids_ok D" "adoptable D w" "untorn D env"
  shows "\<exists>i w'. read_or_create_legacy_id D env w = (Inr i, w') \<and> named D i w' \<and> bw_db w' = bw_db w"
proof -
  have n: "read_bounded 256 (bw_legacy_id w) = Inl (MfIo IoNotFound)" using assms(2) by (simp add: adoptable_def read_bounded_def)
  have d: "ensure_directory False (bw_profile w) = Inr Directory" using assms(2) by (simp add: adoptable_def ensure_directory_def)
  have "\<exists>found. existing_graph_space_id D w = Inr found \<and>
      (let i = (case found of None \<Rightarrow> be_new_id env | Some j \<Rightarrow> j) in version_num (cd_space D) i = 7 \<and> stores_free D i w)"
  proof (cases "\<forall>k. bw_stores w LegacyRoot k = None")
    case True
    then show ?thesis using assms(3) by (auto simp: existing_graph_space_id_def untorn_def stores_free_def)
  next
    case False
    then obtain i where i: "bw_single w" "version_num (cd_space D) i = 7" "bw_stores w LegacyRoot 0 = Some (id_text D i)"
        "stores_free D i w"
      using assms(2) by (auto simp: adoptable_def)
    then have "existing_graph_space_id D w = Inr (Some i)"
      using assms(1) uuid_read [of "catalog_deps.truncate D" "''space''" "id_text D i" i, THEN iffD2]
      by (simp add: existing_graph_space_id_def ids_ok_def id_text_def)
    then show ?thesis using i by simp
  qed
  then obtain found where f: "existing_graph_space_id D w = Inr found"
      "version_num (cd_space D) (case found of None \<Rightarrow> be_new_id env | Some j \<Rightarrow> j) = 7"
      "stores_free D (case found of None \<Rightarrow> be_new_id env | Some j \<Rightarrow> j) w"
    by (auto simp: Let_def)
  define i where "i = (case found of None \<Rightarrow> be_new_id env | Some j \<Rightarrow> j)"
  have "read_or_create_legacy_id D env w = (Inr i, w\<lparr>bw_legacy_id := Plain (id_text D i @ [CHR 0x0A])\<rparr>)"
    using n d f(1) assms(3)
    by (simp add: read_or_create_legacy_id_def untorn_def write_new_synced_def Let_def bind_result_def i_def id_text_def)
  moreover have "named D i (w\<lparr>bw_legacy_id := Plain (id_text D i @ [CHR 0x0A])\<rparr>)"
    using assms(2) f(2,3) by (simp add: adoptable_def named_def recorded_def i_def stores_free_def)
  ultimately show ?thesis by auto
qed

lemma stage_id_recorded:
  assumes "ids_ok D" "recorded D i w" "bw_profile w = Directory"
  shows "read_or_create_legacy_id D env w = (Inr i, w)"
proof -
  have "version_num (cd_space D) i = 7" using assms(2) by (simp add: recorded_def)
  then show ?thesis
    using read_recorded [OF assms(1,2)] parse_recorded [OF assms(1)] assms(3)
    by (simp add: read_or_create_legacy_id_def ensure_directory_def)
qed

lemma principal_known:
  "pd_installation db = Some p \<Longrightarrow> opaque_id_new ''principal'' p = Inr p \<Longrightarrow>
     ensure_installation_principal D db = Inr (p, db)"
  by (simp add: ensure_installation_principal_def corrupt_if_def bind_result_def)

lemma principal_made:
  assumes "ids_ok D" "pd_installation db = None" "pd_principals db = []"
  shows "\<exists>p db'. ensure_installation_principal (catalog_deps.truncate D) db = Inr (p, db') \<and> pd_installation db' = Some p \<and>
    opaque_id_new ''principal'' p = Inr p \<and> pd_spaces db' = pd_spaces db \<and> catalog_generation db' = catalog_generation db"
  using local_principal [OF assms(1)] assms(2,3)
  by (auto simp: ensure_installation_principal_def fresh_uuid_def Let_def catalog_generation_def meta_generation_def
      split: option.splits)

lemma stage_principal_named:
  assumes "ids_ok D" "named D i w"
  shows "(\<exists>e. catalog_tx env k (ensure_installation_principal (catalog_deps.truncate D)) w = (Inl e, w) \<and> be_sql env k) \<or>
    (\<exists>p w'. catalog_tx env k (ensure_installation_principal (catalog_deps.truncate D)) w = (Inr p, w') \<and> named D i w' \<and>
       pd_installation (bw_db w') = Some p \<and> opaque_id_new ''principal'' p = Inr p \<and>
       catalog_generation (bw_db w') = catalog_generation (bw_db w))"
proof (cases "be_sql env k")
  case True
  then show ?thesis by (simp add: catalog_tx_def)
next
  case False
  show ?thesis
  proof (cases "pd_installation (bw_db w)")
    case None
    then have "pd_principals (bw_db w) = []" using assms(2) by (simp add: named_def principals_ok_def)
    from principal_made [OF assms(1) None this] obtain p db' where
      p: "ensure_installation_principal (catalog_deps.truncate D) (bw_db w) = Inr (p, db')" "pd_installation db' = Some p"
        "opaque_id_new ''principal'' p = Inr p" "pd_spaces db' = pd_spaces (bw_db w)"
        "catalog_generation db' = catalog_generation (bw_db w)" by auto
    then have "named D i (w\<lparr>bw_db := db'\<rparr>)"
      using assms(2) by (simp add: named_def recorded_def principals_ok_def stores_free_def)
    then show ?thesis using p False by (simp add: catalog_tx_def)
  next
    case (Some p)
    then have "opaque_id_new ''principal'' p = Inr p" using assms(2) by (simp add: named_def principals_ok_def)
    then show ?thesis using Some False assms(2) principal_known [OF Some, of "catalog_deps.truncate D"] by (simp add: catalog_tx_def)
  qed
qed

lemma stage_principal_bound:
  assumes "bound D profile domains i p w"
  shows "catalog_tx env k (ensure_installation_principal (catalog_deps.truncate D)) w =
    (if be_sql env k then Inl (MfProduct PsSql) else Inr p, w)"
proof -
  have "ensure_installation_principal (catalog_deps.truncate D) (bw_db w) = Inr (p, bw_db w)"
    using assms by (intro principal_known) (simp_all add: bound_def)
  then show ?thesis by (simp add: catalog_tx_def)
qed

lemma legacy_bounds:
  assumes "bindable D profile domains" "version_num (cd_space D) i = 7" "opaque_id_new ''principal'' p = Inr p"
  shows "space_bounds (catalog_deps.truncate D) (legacy_space D profile domains i p st g)"
  using assms binding_hash_ok [of D "manifest_from_catalog D (expected_legacy i p profile domains) 0" LegacyRoot]
    manifest_hash [of D "expected_legacy i p profile domains" 0]
  by (simp add: space_bounds_def space_typed_def legacy_space_def expected_legacy_def bindable_def)

lemma legacy_fields [simp]:
  "sr_id (cs_space (legacy_space D profile domains i p st g)) = i"
  "cs_root_key (legacy_space D profile domains i p st g) = LegacyRoot"
  "cs_state (legacy_space D profile domains i p st g) = st" "cs_generation (legacy_space D profile domains i p st g) = g"
  "cs_manifest_hash (legacy_space D profile domains i p st g) = mf_hash (manifest_from_catalog D (expected_legacy i p profile domains) 0)"
  "cs_space (legacy_space D profile domains i p st g) = \<lparr>sr_id = i, sr_owner = UserOwner p, sr_context = GlobalContext\<rparr>"
  "cs_profile (legacy_space D profile domains i p st g) = profile"
  "cs_domain_count (legacy_space D profile domains i p st g) = domains"
  by (simp_all add: legacy_space_def expected_legacy_def)

lemma legacy_root_text: "sp_root_key (space_columns E s) = root_key_str E (cs_root_key s)"
  by (simp add: space_columns_def split: prod.splits)

lemma legacy_state_text: "sp_state (space_columns E s) = catalog_state_str (cs_state s)"
  by (simp add: space_columns_def split: prod.splits)

lemma legacy_id_text: "sp_id (space_columns E s) = uuid_id_display (cd_space E) (sr_id (cs_space s))"
  by (simp add: space_columns_def split: prod.splits)

lemma load_legacy:
  assumes "ids_ok D" "space_bounds (catalog_deps.truncate D) s" "pd_spaces db = [space_columns (catalog_deps.truncate D) s]"
  shows "cs_root_key s = LegacyRoot \<Longrightarrow> space_by_root (catalog_deps.truncate D) LegacyRoot db = Inr (Some s)"
    "space_by_id (catalog_deps.truncate D) (sr_id (cs_space s)) db = Inr (Some s)"
  using assms decode_columns [of "catalog_deps.truncate D" s]
  by (simp_all add: space_by_root_def space_by_id_def load_space_def ids_ok_def legacy_root_text legacy_id_text)

lemma bump_ok:
  assumes "catalog_generation db + 1 < 2 ^ 63"
  shows "\<exists>g. bump_catalog_generation db = Inr (g, db\<lparr>pd_catalog_generation := Some g\<rparr>) \<and> unat g = catalog_generation db + 1"
proof (cases "bump_catalog_generation db")
  case (Inl e)
  then show ?thesis
    using assms by (auto simp: bump_catalog_generation_def ps_invalid_def Let_def catalog_generation_def meta_generation_def split: if_splits)
next
  case (Inr r)
  then show ?thesis using bump_generation [of db "fst r" "snd r"] by (cases r) auto
qed

lemma insert_first:
  assumes "pd_spaces db = []" "catalog_generation db + 1 < 2 ^ 63" "1 \<le> unat n" "unat n \<le> 64" "is_blake3_digest h"
  shows "\<exists>s db'. insert_space E space profile root n h st db = Inr (s, db')"
proof -
  obtain g where "bump_catalog_generation db = Inr (g, db\<lparr>pd_catalog_generation := Some g\<rparr>)" "unat g = catalog_generation db + 1"
    using bump_ok [OF assms(2)] by auto
  then show ?thesis using assms by (simp add: insert_space_def bind_result_def Let_def)
qed

lemma stage_bind_named:
  assumes b: "bindable D profile domains" and n: "named D i w"
    and p: "pd_installation (bw_db w) = Some p" "opaque_id_new ''principal'' p = Inr p"
  defines "h \<equiv> mf_hash (manifest_from_catalog D (expected_legacy i p profile domains) 0)"
  defines "tx \<equiv> bind_legacy_personal_global (catalog_deps.truncate D) profile p i domains h"
  shows "(\<exists>e. catalog_tx env k tx w = (Inl e, w) \<and> (be_sql env k \<or> catalog_generation (bw_db w) + 1 \<ge> 2 ^ 63)) \<or>
    (\<exists>st g w'. catalog_tx env k tx w = (Inr (legacy_space D profile domains i p st g), w') \<and> bound D profile domains i p w' \<and>
       pd_spaces (bw_db w') = [space_columns (catalog_deps.truncate D) (legacy_space D profile domains i p st g)] \<and>
       st \<in> {CatalogCreating, CatalogActive} \<and> catalog_generation (bw_db w') \<le> catalog_generation (bw_db w) + 1)"
proof -
  let ?E = "catalog_deps.truncate D"
  have e: "pd_spaces (bw_db w) = []" using n by (simp add: named_def)
  have tx: "tx (bw_db w) = insert_space ?E \<lparr>sr_id = i, sr_owner = UserOwner p, sr_context = GlobalContext\<rparr>
      profile LegacyRoot domains h CatalogCreating (bw_db w)"
    by (simp add: tx_def bind_legacy_personal_global_def space_by_root_def load_space_def e bind_result_def)
  show ?thesis
  proof (cases "tx (bw_db w)")
    case (Inl er)
    have "catalog_generation (bw_db w) + 1 \<ge> 2 ^ 63"
    proof (rule ccontr)
      assume "\<not> ?thesis"
      then have "catalog_generation (bw_db w) + 1 < 2 ^ 63" by simp
      moreover have "is_blake3_digest h"
        unfolding h_def manifest_hash using b by (intro binding_hash_ok) (simp add: bindable_def)
      ultimately show False
        using insert_first [OF e, of domains h ?E "\<lparr>sr_id = i, sr_owner = UserOwner p, sr_context = GlobalContext\<rparr>" profile LegacyRoot CatalogCreating]
          b Inl tx by (auto simp: bindable_def)
    qed
    then show ?thesis using Inl by (simp add: catalog_tx_def)
  next
    case (Inr r)
    then obtain s db' where r: "insert_space ?E \<lparr>sr_id = i, sr_owner = UserOwner p, sr_context = GlobalContext\<rparr>
        profile LegacyRoot domains h CatalogCreating (bw_db w) = Inr (s, db')" "r = (s, db')"
      using tx by (cases r) auto
    from insert_space_Inr [OF r(1)] obtain g where g:
      "s = legacy_space D profile domains i p CatalogCreating g" "unat g = catalog_generation (bw_db w) + 1"
      "db' = (bw_db w)\<lparr>pd_catalog_generation := Some g, pd_spaces := [space_columns ?E s]\<rparr>"
      using e by (auto simp: legacy_space_def expected_legacy_def h_def)
    have "bound D profile domains i p (w\<lparr>bw_db := db'\<rparr>)"
      using n p g by (auto simp: bound_def named_def recorded_def stores_free_def)
    then show ?thesis using Inr r(2) g by (auto simp: catalog_tx_def)
  qed
qed

lemma stage_bind_bound:
  assumes b: "bindable D profile domains" and w: "bound D profile domains i p w"
  defines "h \<equiv> mf_hash (manifest_from_catalog D (expected_legacy i p profile domains) 0)"
  defines "tx \<equiv> bind_legacy_personal_global (catalog_deps.truncate D) profile p i domains h"
  shows "\<exists>st g. catalog_tx env k tx w = (if be_sql env k then Inl (MfProduct PsSql) else Inr (legacy_space D profile domains i p st g), w) \<and>
    st \<in> {CatalogCreating, CatalogActive} \<and>
    pd_spaces (bw_db w) = [space_columns (catalog_deps.truncate D) (legacy_space D profile domains i p st g)]"
proof -
  obtain st g where s: "st \<in> {CatalogCreating, CatalogActive}"
      "pd_spaces (bw_db w) = [space_columns (catalog_deps.truncate D) (legacy_space D profile domains i p st g)]"
    using w by (auto simp: bound_def)
  have "space_by_root (catalog_deps.truncate D) LegacyRoot (bw_db w) = Inr (Some (legacy_space D profile domains i p st g))"
    using b w s(2) by (intro load_legacy legacy_bounds) (auto simp: bindable_def bound_def recorded_def)
  then have "tx (bw_db w) = Inr (legacy_space D profile domains i p st g, bw_db w)"
    by (simp add: tx_def h_def bind_legacy_personal_global_def bind_result_def)
  then show ?thesis using s by (auto simp: catalog_tx_def)
qed

lemma legacy_manifest:
  "manifest_from_catalog D (legacy_space D profile domains i p st g) t = manifest_from_catalog D (expected_legacy i p profile domains) t"
  by (simp add: manifest_from_catalog_def legacy_space_def expected_legacy_def Let_def)

lemma created_from [simp]: "mf_created (manifest_from_catalog D s t) = t"
  by (simp add: manifest_from_catalog_def Let_def)

lemma legacy_validates:
  "validate_against D (manifest_from_catalog D (expected_legacy i p profile domains) t) (legacy_space D profile domains i p st g) = Inr ()"
  using manifest_accepts_own [of "legacy_space D profile domains i p st g" D t]
    manifest_hash_created [of D "expected_legacy i p profile domains" t 0]
  by (simp add: legacy_manifest)

lemma bound_manifest:
  assumes "bound D profile domains i p w"
  shows "bound D profile domains i p (w\<lparr>bw_manifest := (bw_manifest w)(LegacyRoot :=
    Plain (toml_text D (manifest_from_catalog D (expected_legacy i p profile domains) t)))\<rparr>)"
  using assms by (auto simp: bound_def recorded_def stores_free_def)

lemma stage_manifest:
  fixes env :: bind_env and st g
  assumes b: "bindable D profile domains" and w: "bound D profile domains i p w"
  defines "m \<equiv> manifest_from_catalog D (expected_legacy i p profile domains) (be_now env)"
  defines "s \<equiv> legacy_space D profile domains i p st g"
  shows "\<exists>r w'. manifest_stage D env m s w = (r, w') \<and> bound D profile domains i p w' \<and> bw_db w' = bw_db w \<and>
    (be_write env = None \<and> be_sync env = None \<longrightarrow> r = Inr () \<and> (\<exists>m'. read_manifest D (bw_manifest w' LegacyRoot) = Inr m' \<and>
       validate_against D m' s = Inr () \<and> (\<forall>st g. validate_against D m' (legacy_space D profile domains i p st g) = Inr ())))"
proof -
  have p: "opaque_id_new ''principal'' p = Inr p" and d: "bw_profile w = Directory" using w by (simp_all add: bound_def)
  have t: "toml_ok D (manifest_from_catalog D (expected_legacy i p profile domains) t)" for t
    using b p by (simp add: bindable_def)
  have rd: "read_manifest D (Plain (toml_text D (manifest_from_catalog D (expected_legacy i p profile domains) t))) =
      Inr (manifest_from_catalog D (expected_legacy i p profile domains) t)" for t
    using t [of t] by (simp add: read_manifest_def read_bounded_def toml_ok_def bind_result_def)
  show ?thesis
  proof (cases "bw_manifest w LegacyRoot = Absent")
    case True
    have l: "\<not> length (toml_text D m) > MAX_MANIFEST_BYTES" using t [of "be_now env"] by (simp add: m_def toml_ok_def)
    show ?thesis
      using True l d w bound_manifest [OF w, of "be_now env"] rd legacy_validates
      by (auto simp: manifest_stage_def read_manifest_def [of _ Absent] read_bounded_def bind_result_def write_manifest_def
          root_entry_def ensure_directory_def m_def s_def split: option.splits)
  next
    case False
    then obtain t where "bw_manifest w LegacyRoot = Plain (toml_text D (manifest_from_catalog D (expected_legacy i p profile domains) t))"
      using w by (auto simp: bound_def)
    then show ?thesis using w rd legacy_validates by (auto simp: manifest_stage_def s_def)
  qed
qed

lemma bind_stores_free:
  "(\<forall>k. st k \<in> {None, Some name}) \<Longrightarrow> bind_stores env name ks st = (r, st') \<Longrightarrow>
     (\<forall>k. st' k \<in> {None, Some name}) \<and> (be_store env = None \<longrightarrow> r = Inr ())"
proof (induction env name ks st arbitrary: r st' rule: bind_stores.induct)
  case (2 env name i ks st)
  show ?case
  proof (cases "store_fault env i")
    case None
    show ?thesis
    proof (cases "st i")
      case unset: None
      have "\<forall>k. (st(i := Some name)) k \<in> {None, Some name}" using 2(3) by simp
      moreover have "bind_stores env name ks (st(i := Some name)) = (r, st')" using 2(4) None unset by simp
      ultimately show ?thesis by (rule 2(1) [OF None unset])
    next
      case (Some t)
      then have "t = name" using 2(3) spec [OF 2(3), of i] by simp
      then show ?thesis using 2(2) [OF None Some] 2(3,4) None Some by auto
    qed
  next
    case (Some e)
    then show ?thesis using 2(3,4) by (auto simp: store_fault_def)
  qed
qed auto

lemma stage_open:
  assumes "bound D profile domains i p w"
  shows "\<exists>r w'. open_verified D env LegacyRoot domains i w = (r, w') \<and> bound D profile domains i p w' \<and>
    bw_db w' = bw_db w \<and> bw_manifest w' = bw_manifest w \<and> (be_store env = None \<longrightarrow> r = Inr ())"
proof -
  obtain r st where r: "bind_stores env (uuid_id_display (cd_space D) i) [0..<unat domains] (bw_stores w LegacyRoot) = (r, st)"
    by fastforce
  have "\<forall>k. bw_stores w LegacyRoot k \<in> {None, Some (uuid_id_display (cd_space D) i)}"
    using assms by (simp add: bound_def stores_free_def id_text_def)
  from bind_stores_free [OF this r] have f: "\<forall>k. st k \<in> {None, Some (uuid_id_display (cd_space D) i)}" "be_store env = None \<longrightarrow> r = Inr ()"
    by auto
  then have "bound D profile domains i p (w\<lparr>bw_stores := (bw_stores w)(LegacyRoot := st), bw_single := x\<rparr>)" for x
    using assms by (auto simp: bound_def recorded_def stores_free_def id_text_def)
  then show ?thesis using r f(2) by (simp add: open_verified_def)
qed

lemma activated_legacy:
  fixes D :: "'d catalog_deps_scheme" and profile domains i p
  assumes "st \<in> {CatalogCreating, CatalogActive}"
  defines "h \<equiv> mf_hash (manifest_from_catalog D (expected_legacy i p profile domains) 0)"
  shows "activated (catalog_deps.truncate D) i h g' (space_columns (catalog_deps.truncate D) (legacy_space D profile domains i p st g)) =
    space_columns (catalog_deps.truncate D) (legacy_space D profile domains i p CatalogActive g')"
proof -
  have "sp_state (space_columns (catalog_deps.truncate D) (legacy_space D profile domains i p st g)) \<in> {''creating'', ''active''}"
    using assms(1) by (auto simp: legacy_state_text)
  then show ?thesis
    by (simp add: activated_def legacy_id_text) (simp add: space_columns_def h_def)
qed

lemma activate_once:
  assumes "pd_spaces db = [r]" "sp_id r = uuid_id_display (cd_space E) i" "sp_state r \<in> {''creating'', ''active''}"
    "is_blake3_digest h" "catalog_generation db + 1 < 2 ^ 63"
  shows "\<exists>g. unat g = catalog_generation db + 1 \<and> activate_space E i h db =
    bind_result (space_by_id E i (db\<lparr>pd_catalog_generation := Some g, pd_spaces := [activated E i h g r]\<rparr>)) (\<lambda>found.
      case found of None \<Rightarrow> Inl (PsCorrupt ''activated catalog space disappeared'')
      | Some s \<Rightarrow> Inr (s, db\<lparr>pd_catalog_generation := Some g, pd_spaces := [activated E i h g r]\<rparr>))"
proof -
  obtain g where g: "bump_catalog_generation db = Inr (g, db\<lparr>pd_catalog_generation := Some g\<rparr>)" "unat g = catalog_generation db + 1"
    using bump_ok [OF assms(5)] by auto
  then have n: "\<not> 2 ^ 63 \<le> unat g" using assms(5) by simp
  have a: "activated E i h g r = r\<lparr>sp_state := ''active'', sp_manifest_hash := h, sp_generation := uint g\<rparr>"
    using assms(2,3) by (simp add: activated_def)
  show ?thesis
  proof (intro exI [of _ g] conjI)
    show "activate_space E i h db =
      bind_result (space_by_id E i (db\<lparr>pd_catalog_generation := Some g, pd_spaces := [activated E i h g r]\<rparr>)) (\<lambda>found.
        case found of None \<Rightarrow> Inl (PsCorrupt ''activated catalog space disappeared'')
        | Some s \<Rightarrow> Inr (s, db\<lparr>pd_catalog_generation := Some g, pd_spaces := [activated E i h g r]\<rparr>))"
      unfolding a using assms g n by (simp add: activate_space_def bind_result_def Let_def)
  qed (rule g(2))
qed

lemma stage_activate:
  assumes b: "bindable D profile domains" and w: "bound D profile domains i p w"
  defines "h \<equiv> mf_hash (manifest_from_catalog D (expected_legacy i p profile domains) 0)"
  defines "tx \<equiv> activate_space (catalog_deps.truncate D) i h"
  shows "(\<exists>e. catalog_tx env k tx w = (Inl e, w) \<and> (be_sql env k \<or> catalog_generation (bw_db w) + 1 \<ge> 2 ^ 63)) \<or>
    (\<exists>g w'. catalog_tx env k tx w = (Inr (legacy_space D profile domains i p CatalogActive g), w') \<and>
       bound D profile domains i p w' \<and> bw_manifest w' = bw_manifest w \<and>
       pd_spaces (bw_db w') = [space_columns (catalog_deps.truncate D) (legacy_space D profile domains i p CatalogActive g)])"
proof -
  let ?E = "catalog_deps.truncate D"
  obtain st g0 where s: "st \<in> {CatalogCreating, CatalogActive}"
      "pd_spaces (bw_db w) = [space_columns ?E (legacy_space D profile domains i p st g0)]"
    using w by (auto simp: bound_def)
  have e: "ids_ok D" using b by (simp add: bindable_def)
  have bd: "space_bounds ?E (legacy_space D profile domains i p CatalogActive g)" for g
    using b w by (intro legacy_bounds) (auto simp: bound_def recorded_def)
  have "is_blake3_digest h" unfolding h_def manifest_hash by (rule binding_hash_ok [OF e])
  then have run: "\<exists>g. tx (bw_db w) = Inr (legacy_space D profile domains i p CatalogActive g,
      (bw_db w)\<lparr>pd_catalog_generation := Some g, pd_spaces := [space_columns ?E (legacy_space D profile domains i p CatalogActive g)]\<rparr>)"
    if "catalog_generation (bw_db w) + 1 < 2 ^ 63"
    using activate_once [OF s(2), of ?E i h] s(1) that
      load_legacy(2) [OF e bd, of "(bw_db w)\<lparr>pd_catalog_generation := Some g, pd_spaces := [space_columns ?E (legacy_space D profile domains i p CatalogActive g)]\<rparr>" for g]
    by (auto simp: legacy_id_text legacy_state_text activated_legacy [OF s(1)] h_def tx_def bind_result_def)
  show ?thesis
  proof (cases "catalog_generation (bw_db w) + 1 < 2 ^ 63")
    case True
    then obtain g where g: "tx (bw_db w) = Inr (legacy_space D profile domains i p CatalogActive g,
        (bw_db w)\<lparr>pd_catalog_generation := Some g, pd_spaces := [space_columns ?E (legacy_space D profile domains i p CatalogActive g)]\<rparr>)"
      using run by auto
    have "bound D profile domains i p (w\<lparr>bw_db := (bw_db w)\<lparr>pd_catalog_generation := Some g,
        pd_spaces := [space_columns ?E (legacy_space D profile domains i p CatalogActive g)]\<rparr>\<rparr>)"
      using w by (auto simp: bound_def recorded_def stores_free_def)
    then show ?thesis using g by (auto simp: catalog_tx_def)
  next
    case False
    have "\<exists>e. tx (bw_db w) = Inl e"
    proof (cases "tx (bw_db w)")
      case (Inr r)
      then show ?thesis using activate_space_Inr [of ?E i h "bw_db w" "fst r" "snd r"] False by (cases r) (auto simp: tx_def)
    qed auto
    then show ?thesis using False by (auto simp: catalog_tx_def)
  qed
qed

section \<open>Runs\<close>

text \<open>What earlier runs leave: nothing, a recorded identity, or a bound root.\<close>

definition bind_state :: "'d manifest_deps_scheme \<Rightarrow> str \<Rightarrow> u8 \<Rightarrow> bind_world \<Rightarrow> bool" where
  "bind_state D profile domains w \<longleftrightarrow> adoptable D w \<or> (\<exists>i. named D i w) \<or> (\<exists>i p. bound D profile domains i p w)"

definition bind_step :: "'d manifest_deps_scheme \<Rightarrow> str \<Rightarrow> u8 \<Rightarrow> bind_world \<Rightarrow> bind_world \<Rightarrow> bool" where
  "bind_step D profile domains w w' \<longleftrightarrow> (\<exists>env r. untorn D env \<and> bind_legacy D env profile domains w = (r, w'))"

text \<open>The part of a run behind the identity and the principal.\<close>

definition bind_rest :: "'d manifest_deps_scheme \<Rightarrow> bind_env \<Rightarrow> str \<Rightarrow> u8 \<Rightarrow> uuid \<Rightarrow> str \<Rightarrow>
    (bind_world, manifest_error, catalog_space \<times> space_manifest) run" where
  "bind_rest D env profile domains i p =
     (let m = manifest_from_catalog D (expected_legacy i p profile domains) (be_now env) in
       run_bind (catalog_tx env 1 (bind_legacy_personal_global (catalog_deps.truncate D) profile p i domains (mf_hash m)))
         (\<lambda>catalog.
           run_bind (run_check (if cs_manifest_hash catalog \<noteq> mf_hash m
               then Inl (MfInvalid ''legacy catalog binding hash differs from manifest identity'') else Inr ())) (\<lambda>_.
           run_bind (manifest_stage D env m catalog) (\<lambda>_.
           run_bind (open_verified D env LegacyRoot domains (sr_id (cs_space catalog))) (\<lambda>_.
           run_bind (catalog_tx env 2 (activate_space (catalog_deps.truncate D) i (mf_hash m))) (\<lambda>active.
           run_check (if be_inspect env then Inl MfPortability else Inr (active, m))))))))"

lemma bind_legacy_rest:
  "bind_legacy D env profile domains = run_bind (read_or_create_legacy_id D env) (\<lambda>i.
     run_bind (catalog_tx env 0 (ensure_installation_principal (catalog_deps.truncate D))) (\<lambda>p. bind_rest D env profile domains i p))"
  by (simp add: bind_legacy_def bind_rest_def)

lemma hash_now: "mf_hash (manifest_from_catalog D (expected_legacy i p profile domains) (be_now env)) =
    mf_hash (manifest_from_catalog D (expected_legacy i p profile domains) 0)"
  by (rule manifest_hash_created)

lemma rest_bound:
  assumes b: "bindable D profile domains" and w: "bound D profile domains i p w"
  shows "\<exists>r w'. bind_rest D env profile domains i p w = (r, w') \<and> bound D profile domains i p w' \<and>
    (fault_free D env \<and> catalog_generation (bw_db w) + 1 < 2 ^ 63 \<longrightarrow>
      (\<exists>g m. r = Inr (legacy_space D profile domains i p CatalogActive g, m) \<and>
        (\<exists>m'. load_manifest_for_catalog D False (legacy_space D profile domains i p CatalogActive g) w' = Inr m')))"
proof -
  let ?h = "mf_hash (manifest_from_catalog D (expected_legacy i p profile domains) 0)"
  let ?m = "manifest_from_catalog D (expected_legacy i p profile domains) (be_now env)"
  obtain st g where s1: "catalog_tx env 1 (bind_legacy_personal_global (catalog_deps.truncate D) profile p i domains ?h) w =
      (if be_sql env 1 then Inl (MfProduct PsSql) else Inr (legacy_space D profile domains i p st g), w)"
    using stage_bind_bound [OF b w, of env 1] by auto
  obtain r2 w2 where s2: "manifest_stage D env ?m (legacy_space D profile domains i p st g) w = (r2, w2)"
      "bound D profile domains i p w2" "bw_db w2 = bw_db w"
      "be_write env = None \<and> be_sync env = None \<longrightarrow> r2 = Inr () \<and> (\<exists>m'. read_manifest D (bw_manifest w2 LegacyRoot) = Inr m' \<and>
        (\<forall>st g. validate_against D m' (legacy_space D profile domains i p st g) = Inr ()))"
    using stage_manifest [OF b w, of env st g] by blast
  obtain r3 w3 where s3: "open_verified D env LegacyRoot domains i w2 = (r3, w3)" "bound D profile domains i p w3"
      "bw_db w3 = bw_db w2" "bw_manifest w3 = bw_manifest w2" "be_store env = None \<longrightarrow> r3 = Inr ()"
    using stage_open [OF s2(2), of env] by (elim exE conjE) (rule that)
  note run = bind_rest_def [of D env profile domains i p] hash_now Let_def run_bind_def run_check_def
  show ?thesis
  proof (cases "be_sql env 1")
    case True
    then show ?thesis using s1 w by (simp add: run fault_free_def)
  next
    case sql: False
    show ?thesis
    proof (cases r2)
      case (Inl e)
      then show ?thesis using s1 s2 sql by (auto simp: run fault_free_def)
    next
      case r2: (Inr u)
      show ?thesis
      proof (cases r3)
        case (Inl e)
        then show ?thesis using s1 s2 s3 sql r2 by (auto simp: run fault_free_def)
      next
        case r3: (Inr u')
        from stage_activate [OF b s3(2), of env 2] show ?thesis
        proof (elim disjE exE conjE)
          fix e assume "catalog_tx env 2 (activate_space (catalog_deps.truncate D) i ?h) w3 = (Inl e, w3)"
            "2 ^ 63 \<le> catalog_generation (bw_db w3) + 1"
          then show ?thesis using s1 s2 s3 sql r2 r3 by (auto simp: run fault_free_def)
        next
          fix e assume "catalog_tx env 2 (activate_space (catalog_deps.truncate D) i ?h) w3 = (Inl e, w3)" "be_sql env 2"
          then show ?thesis using s1 s2 s3 sql r2 r3 by (auto simp: run fault_free_def)
        next
          fix g' w4 assume a: "catalog_tx env 2 (activate_space (catalog_deps.truncate D) i ?h) w3 =
              (Inr (legacy_space D profile domains i p CatalogActive g'), w4)"
            "bound D profile domains i p w4" "bw_manifest w4 = bw_manifest w3"
            "pd_spaces (bw_db w4) = [space_columns (catalog_deps.truncate D) (legacy_space D profile domains i p CatalogActive g')]"
          have "\<exists>m'. load_manifest_for_catalog D False (legacy_space D profile domains i p CatalogActive g') w4 = Inr m'"
            if "fault_free D env"
            using that s2(4) s3(4) a(2,3)
            by (auto simp: load_manifest_for_catalog_def bound_def ensure_directory_def bind_result_def fault_free_def)
          then show ?thesis using s1 s2 s3 sql r2 r3 a by (auto simp: run fault_free_def)
        qed
      qed
    qed
  qed
qed

lemma legacy_columns_inj:
  assumes "space_columns E (legacy_space D profile domains i p st g) = space_columns E (legacy_space D profile domains i p st' g')"
    "st \<in> {CatalogCreating, CatalogActive}" "st' \<in> {CatalogCreating, CatalogActive}"
  shows "st = st' \<and> g = g'"
proof -
  have "sp_generation (space_columns E (legacy_space D profile domains i p x y)) = uint y" for x y
    by (simp add: space_columns_def)
  then have "uint g = uint g'" using assms(1) by metis
  then have "g = g'" by (simp add: word_uint_eq_iff)
  moreover have "catalog_state_str st = catalog_state_str st'" using assms(1) legacy_state_text by (metis legacy_fields(3))
  ultimately show ?thesis using assms(2,3) by auto
qed

lemma rest_named:
  assumes b: "bindable D profile domains" and n: "named D i w"
    and p: "pd_installation (bw_db w) = Some p" "opaque_id_new ''principal'' p = Inr p"
  shows "(\<exists>e. bind_rest D env profile domains i p w = (Inl e, w) \<and> (be_sql env 1 \<or> 2 ^ 63 \<le> catalog_generation (bw_db w) + 1)) \<or>
    (\<exists>w1. bound D profile domains i p w1 \<and> bind_rest D env profile domains i p w = bind_rest D env profile domains i p w1 \<and>
       catalog_generation (bw_db w1) \<le> catalog_generation (bw_db w) + 1)"
  using stage_bind_named [OF b n p, of env 1]
proof (elim disjE exE conjE)
  fix st g w1
  let ?tx = "bind_legacy_personal_global (catalog_deps.truncate D) profile p i domains
      (mf_hash (manifest_from_catalog D (expected_legacy i p profile domains) 0))"
  assume a: "catalog_tx env 1 ?tx w = (Inr (legacy_space D profile domains i p st g), w1)" "bound D profile domains i p w1"
    "pd_spaces (bw_db w1) = [space_columns (catalog_deps.truncate D) (legacy_space D profile domains i p st g)]"
    "st \<in> {CatalogCreating, CatalogActive}" "catalog_generation (bw_db w1) \<le> catalog_generation (bw_db w) + 1"
  have "\<not> be_sql env 1" using a(1) by (auto simp: catalog_tx_def)
  moreover obtain st' g' where s: "catalog_tx env 1 ?tx w1 = (if be_sql env 1 then Inl (MfProduct PsSql)
      else Inr (legacy_space D profile domains i p st' g'), w1)" "st' \<in> {CatalogCreating, CatalogActive}"
      "pd_spaces (bw_db w1) = [space_columns (catalog_deps.truncate D) (legacy_space D profile domains i p st' g')]"
    using stage_bind_bound [OF b a(2), of env 1] by auto
  ultimately have "catalog_tx env 1 ?tx w1 = (Inr (legacy_space D profile domains i p st g), w1)"
    using a(3,4) legacy_columns_inj [of "catalog_deps.truncate D" D profile domains i p st g st' g'] by simp
  then have "bind_rest D env profile domains i p w = bind_rest D env profile domains i p w1"
    using a(1) by (simp add: bind_rest_def hash_now Let_def run_bind_def)
  then show ?thesis using a(2,5) by blast
qed (auto simp: bind_rest_def hash_now Let_def run_bind_def)

definition finishes :: "'d manifest_deps_scheme \<Rightarrow> uuid \<Rightarrow> manifest_error + catalog_space \<times> space_manifest \<Rightarrow>
    bind_world \<Rightarrow> bool" where
  "finishes D i r w \<longleftrightarrow> (\<exists>s m. r = Inr (s, m) \<and> cs_state s = CatalogActive \<and> sr_id (cs_space s) = i \<and>
     cs_root_key s = LegacyRoot \<and> recorded D i w \<and> (\<exists>m'. load_manifest_for_catalog D False s w = Inr m'))"

lemma rest_finishes:
  assumes b: "bindable D profile domains" and w: "bound D profile domains i p w" and r: "bind_rest D env profile domains i p w = (r, w')"
  shows "bound D profile domains i p w' \<and>
    (fault_free D env \<and> catalog_generation (bw_db w) + 1 < 2 ^ 63 \<longrightarrow> finishes D i r w')"
  using rest_bound [OF b w, of env] r by (auto simp: finishes_def bound_def)

lemma run_named:
  assumes b: "bindable D profile domains" and n: "named D i w" and u: "untorn D env"
    and r: "bind_legacy D env profile domains w = (r, w')"
  shows "bind_state D profile domains w' \<and> recorded D i w' \<and>
    (fault_free D env \<and> catalog_generation (bw_db w) + 2 < 2 ^ 63 \<longrightarrow> finishes D i r w')"
proof -
  have ids: "ids_ok D" using b by (simp add: bindable_def)
  have i: "read_or_create_legacy_id D env w = (Inr i, w)"
    using stage_id_recorded [OF ids, of i w] n by (simp add: named_def)
  have rec: "recorded D i w" using n by (simp add: named_def)
  from stage_principal_named [OF ids n, of env 0] show ?thesis
  proof (elim disjE exE conjE)
    fix e assume "catalog_tx env 0 (ensure_installation_principal (catalog_deps.truncate D)) w = (Inl e, w)" "be_sql env 0"
    then show ?thesis using r i n rec by (auto simp: bind_legacy_rest run_bind_def bind_state_def fault_free_def)
  next
    fix p w1 assume p: "catalog_tx env 0 (ensure_installation_principal (catalog_deps.truncate D)) w = (Inr p, w1)"
      "named D i w1" "pd_installation (bw_db w1) = Some p" "opaque_id_new ''principal'' p = Inr p"
      "catalog_generation (bw_db w1) = catalog_generation (bw_db w)"
    then have r1: "bind_rest D env profile domains i p w1 = (r, w')" using r i by (simp add: bind_legacy_rest run_bind_def)
    from rest_named [OF b p(2-4), of env] show ?thesis
    proof (elim disjE exE conjE)
      fix w2 assume w2: "bound D profile domains i p w2" "bind_rest D env profile domains i p w1 = bind_rest D env profile domains i p w2"
        "catalog_generation (bw_db w2) \<le> catalog_generation (bw_db w1) + 1"
      then have "bind_rest D env profile domains i p w2 = (r, w')" using r1 by simp
      from rest_finishes [OF b w2(1) this] show ?thesis using w2(3) p(5) by (auto simp: bind_state_def bound_def)
    qed (use r1 p in \<open>auto simp: bind_state_def fault_free_def named_def\<close>)
  qed
qed

lemma run_bound:
  assumes b: "bindable D profile domains" and w: "bound D profile domains i p w" and u: "untorn D env"
    and r: "bind_legacy D env profile domains w = (r, w')"
  shows "bind_state D profile domains w' \<and> recorded D i w' \<and>
    (fault_free D env \<and> catalog_generation (bw_db w) + 2 < 2 ^ 63 \<longrightarrow> finishes D i r w')"
proof -
  have ids: "ids_ok D" using b by (simp add: bindable_def)
  have i: "read_or_create_legacy_id D env w = (Inr i, w)"
    using stage_id_recorded [OF ids, of i w] w by (simp add: bound_def)
  show ?thesis
  proof (cases "be_sql env 0")
    case True
    then show ?thesis using r i w stage_principal_bound [OF w, of env 0]
      by (auto simp: bind_legacy_rest run_bind_def bind_state_def fault_free_def bound_def)
  next
    case False
    then have "bind_rest D env profile domains i p w = (r, w')"
      using r i stage_principal_bound [OF w, of env 0] by (simp add: bind_legacy_rest run_bind_def)
    from rest_finishes [OF b w this] show ?thesis by (auto simp: bind_state_def bound_def)
  qed
qed

lemma recorded_unique: "ids_ok D \<Longrightarrow> recorded D i w \<Longrightarrow> recorded D j w \<Longrightarrow> i = j"
  using uuid_text_inj [of "catalog_deps.truncate D" i j] by (simp add: recorded_def ids_ok_def id_text_def)

lemma run_state:
  assumes b: "bindable D profile domains" and w: "bind_state D profile domains w" and u: "untorn D env"
    and r: "bind_legacy D env profile domains w = (r, w')"
  shows "bind_state D profile domains w' \<and> (\<forall>i. recorded D i w \<longrightarrow> recorded D i w') \<and>
    (fault_free D env \<and> catalog_generation (bw_db w) + 2 < 2 ^ 63 \<longrightarrow> (\<exists>i. finishes D i r w'))"
proof -
  have ids: "ids_ok D" using b by (simp add: bindable_def)
  from w consider (a) "adoptable D w" | (n) i where "named D i w" | (b) i p where "bound D profile domains i p w"
    by (auto simp: bind_state_def)
  then show ?thesis
  proof cases
    case a
    from stage_id_adoptable [OF ids a u] obtain i w1 where i: "read_or_create_legacy_id D env w = (Inr i, w1)" "named D i w1"
        "bw_db w1 = bw_db w" by auto
    have "read_or_create_legacy_id D env w1 = (Inr i, w1)"
      using stage_id_recorded [OF ids, of i w1] i(2) by (simp add: named_def)
    then have "bind_legacy D env profile domains w1 = (r, w')" using r i(1) by (simp add: bind_legacy_rest run_bind_def)
    from run_named [OF b i(2) u this] i(3) a show ?thesis by (auto simp: adoptable_def recorded_def)
  next
    case (n i)
    from run_named [OF b n u r] n recorded_unique [OF ids, of i w] show ?thesis by (auto simp: named_def)
  next
    case (b i p)
    from run_bound [OF assms(1) b u r] b recorded_unique [OF ids, of i w] show ?thesis by (auto simp: bound_def)
  qed
qed

lemma steps_state:
  assumes b: "bindable D profile domains"
  shows "(bind_step D profile domains)\<^sup>*\<^sup>* w0 w \<Longrightarrow> bind_state D profile domains w0 \<Longrightarrow>
    bind_state D profile domains w \<and> (\<forall>i. recorded D i w0 \<longrightarrow> recorded D i w)"
proof (induction rule: rtranclp_induct)
  case (step w w')
  then show ?case using run_state [OF b, of w] unfolding bind_step_def by blast
qed simp

text \<open>
  C28. Binding the legacy root resumes: after any number of attempts that failed anywhere, except inside the
  write of the identity file, an attempt without faults ends with the root active in the catalog, with a
  manifest that loads, under the identity the file records; and an identity once recorded is the one
  of every later success.
\<close>

theorem legacy_binding_resumes:
  assumes "bindable D profile domains" "adoptable D w0" "(bind_step D profile domains)\<^sup>*\<^sup>* w0 w"
    "fault_free D env" "catalog_generation (bw_db w) + 2 < 2 ^ 63"
    "bind_legacy D env profile domains w = (r, w')" "(bind_step D profile domains)\<^sup>*\<^sup>* w' w2"
  shows "\<exists>i. finishes D i r w' \<and> (\<forall>j. recorded D j w \<longrightarrow> j = i) \<and> (\<forall>j. recorded D j w2 \<longleftrightarrow> j = i)"
proof -
  have ids: "ids_ok D" using assms(1) by (simp add: bindable_def)
  have w: "bind_state D profile domains w" using steps_state [OF assms(1,3)] assms(2) by (auto simp: bind_state_def)
  have u: "untorn D env" using assms(4) by (simp add: fault_free_def)
  note f = run_state [OF assms(1) w u assms(6)]
  then obtain i where i: "finishes D i r w'" using assms(4,5) by auto
  have i': "recorded D i w'" using i by (auto simp: finishes_def)
  then have "recorded D i w2" using steps_state [OF assms(1,7)] f by auto
  then show ?thesis using i i' f recorded_unique [OF ids] by blast
qed

section \<open>Where creation and binding get stuck\<close>

lemma run_bind_Inl: "m w = (Inl e, w') \<Longrightarrow> run_bind m k w = (Inl e, w')"
  by (simp add: run_bind_def)

text \<open>
  The identity file is created before it is written. A crash in between leaves an empty file, which no later
  attempt repairs: every one fails to parse it.
\<close>

lemma torn_identity_blocks:
  assumes "ids_ok D" "adoptable D w" "be_torn env = Some 0" "be_winner env = None"
  shows "\<exists>e w'. bind_legacy D env profile domains w = (Inl e, w') \<and>
    (\<forall>env'. \<exists>e'. bind_legacy D env' profile domains w' = (Inl e', w'))"
proof (cases "existing_graph_space_id D w")
  case (Inl e)
  then have "existing_graph_space_id D w = Inl e" .
  moreover have "\<exists>found. existing_graph_space_id D w = Inr found"
    using assms(1,2) uuid_read [of "catalog_deps.truncate D" "''space''", THEN iffD2]
    by (auto simp: existing_graph_space_id_def adoptable_def ids_ok_def id_text_def)
  ultimately show ?thesis by simp
next
  case (Inr found)
  let ?w = "w\<lparr>bw_legacy_id := Plain []\<rparr>"
  have d: "bw_profile w = Directory" "bw_legacy_id w = Absent" using assms(2) by (simp_all add: adoptable_def)
  have stop: "read_or_create_legacy_id D env w = (Inl (MfIo IoOther), ?w)"
    using Inr d assms(3,4)
    by (simp add: read_or_create_legacy_id_def ensure_directory_def read_bounded_def write_new_synced_def Let_def bind_result_def)
  have "uuid_id_from_str (cd_space D) ''space'' [] \<noteq> Inr u" for u
  proof -
    have "uuid_id_display (cd_space D) u \<noteq> []" using assms(1) by (simp add: ids_ok_def visible_def)
    then show ?thesis
      using assms(1) uuid_read [of "catalog_deps.truncate D" "''space''" "[]" u] by (metis ids_ok_def truncate_fields(1))
  qed
  then have "\<exists>e. parse_legacy_id D [] = Inl e"
    by (simp add: parse_legacy_id_def trim_text_def trim_start.simps trim_end.simps ws_head_def ws_tail_def split: sum.split)
  then obtain e where "parse_legacy_id D [] = Inl e" by blast
  then have again: "read_or_create_legacy_id D env' ?w = (Inl e, ?w)" for env'
    using d by (simp add: read_or_create_legacy_id_def ensure_directory_def read_bounded_def)
  show ?thesis
    unfolding bind_legacy_rest
    by (intro exI [of _ "MfIo IoOther"] exI [of _ ?w] conjI allI exI [of _ e] run_bind_Inl stop again)
qed

text \<open>
  A creation that ended between the catalog row and the activation can not be completed: every further
  creation with the same identifier, or for the same owner and context, fails.
\<close>

lemma insert_taken:
  assumes "r \<in> set (pd_spaces db)"
    "sp_id r = sp_id (space_columns E (provisional_space space profile domains)) \<or>
     space_key r = space_key (space_columns E (provisional_space space profile domains))"
  shows "\<exists>e. insert_space E space profile root n h st db = Inl e"
proof (cases "insert_space E space profile root n h st db")
  case (Inr p)
  have "sp_id (space_columns E s) = sp_id (space_columns E (provisional_space space profile domains)) \<and>
      space_key (space_columns E s) = space_key (space_columns E (provisional_space space profile domains))"
    if "cs_space s = space" "cs_profile s = profile" for s
    using that by (simp add: space_columns_def space_key_def provisional_space_def split: prod.splits)
  then show ?thesis using insert_space_Inr [of E space profile root n h st db "fst p" "snd p"] Inr assms by (cases p) fastforce
qed auto

lemma interrupted_creation_stuck:
  assumes "r \<in> set (pd_spaces (bw_db w))"
    "sp_id r = sp_id (space_columns (catalog_deps.truncate D) (provisional_space space profile domains)) \<or>
     space_key r = space_key (space_columns (catalog_deps.truncate D) (provisional_space space profile domains))"
  shows "\<exists>e. fst (create_managed_root D env space profile domains w) = Inl e"
proof -
  have same: "bw_db (snd (make_roots env i w)) = bw_db w" "bw_db (snd (write_manifest D env key m v)) = bw_db v" for i key m v
    by (auto simp: make_roots_def write_manifest_def Let_def split: sum.splits option.splits fs_entry.splits)
  have "\<exists>e. fst (catalog_tx env 0 (insert_space (catalog_deps.truncate D) space profile root n h st) v) = Inl e \<and>
      snd (catalog_tx env 0 (insert_space (catalog_deps.truncate D) space profile root n h st) v) = v"
    if "bw_db v = bw_db w" for v root n h st
    using insert_taken [OF assms, of root n h st] that by (auto simp: catalog_tx_def)
  then show ?thesis
    using same
    unfolding create_managed_root_def Let_def run_bind_def
    by (auto split: prod.splits sum.splits) (metis fst_conv snd_conv sum.simps(4))+
qed

text \<open>
  The manifest is written before the catalog refuses the creation. So a creation that names the identifier of
  an existing space with another number of domains fails and leaves that space without a valid manifest.
\<close>

lemma failed_creation_overwrites_manifest:
  assumes "cs_root_key s = SpaceRoot (sr_id space)" "cs_domain_count s \<noteq> domains"
    "toml_ok D (manifest_from_catalog D (provisional_space space profile domains) (be_now env))"
    "make_roots env (sr_id space) w = (Inr (), w1)" "bw_root w1 (sr_id space) = Directory"
    "bw_manifest w1 (SpaceRoot (sr_id space)) = Plain t" "be_write env = None" "be_sync env = None"
    "q \<in> set (pd_spaces (bw_db w1))" "sp_id q = uuid_id_display (cd_space D) (sr_id space)"
    "create_managed_root D env space profile domains w = (r, w')"
  shows "\<exists>e. r = Inl e \<and> (\<forall>m'. load_manifest_for_catalog D x s w' \<noteq> Inr m')"
proof -
  let ?m = "manifest_from_catalog D (provisional_space space profile domains) (be_now env)"
  let ?w = "w1\<lparr>bw_manifest := (bw_manifest w1)(SpaceRoot (sr_id space) := Plain (toml_text D ?m))\<rparr>"
  let ?tx = "catalog_tx env 0 (insert_space (catalog_deps.truncate D) space profile (SpaceRoot (sr_id space)) domains (mf_hash ?m) CatalogCreating)"
  have "write_manifest D env (SpaceRoot (sr_id space)) ?m w1 = (Inr (), ?w)"
    using assms by (simp add: write_manifest_def toml_ok_def root_entry_def ensure_directory_def)
  moreover obtain e where "?tx ?w = (Inl e, ?w)"
  proof -
    have "sp_id q = sp_id (space_columns (catalog_deps.truncate D) (provisional_space space profile domains))"
      using assms(10) by (simp add: legacy_id_text provisional_space_def)
    then obtain e where "insert_space (catalog_deps.truncate D) space profile (SpaceRoot (sr_id space)) domains (mf_hash ?m) CatalogCreating
        (bw_db w1) = Inl e"
      using insert_taken [OF assms(9)] by blast
    then show ?thesis by (cases "be_sql env 0") (auto intro: that simp: catalog_tx_def)
  qed
  ultimately have r: "r = Inl e" "w' = ?w"
    using assms(4,11) by (simp_all add: create_managed_root_def run_bind_def Let_def)
  have "mf_domains ?m \<noteq> cs_domain_count s" using assms(2) by (simp add: manifest_from_catalog_def provisional_space_def Let_def)
  then have "validate_against D ?m s \<noteq> Inr ()" by (simp add: validate_against_def)
  moreover have "read_manifest D (bw_manifest ?w (cs_root_key s)) = Inr ?m"
    using assms(1,3) by (simp add: read_manifest_def read_bounded_def toml_ok_def bind_result_def)
  ultimately show ?thesis using r by (auto simp: load_manifest_for_catalog_def bind_result_Inr)
qed

end
