(* ===== verification/Om_ManifestExamples.thy ===== *)
theory Om_ManifestExamples
  imports Om_ManifestRun Om_CatalogExamples
begin

text \<open>The properties of managed roots applied to an empty profile.\<close>

text \<open>A text form of the manifests of legacy roots.\<close>

definition e_mani :: manifest_deps where
  "e_mani = \<lparr>cd_space = cd_space e_cat, cd_uuid = cd_uuid e_cat, context_json = context_json e_cat,
     context_of_json = context_of_json e_cat,
     toml_text = (\<lambda>m. nibbles 32 (uint (mf_space m)) @ nibbles 16 (uint (mf_created m)) @ mf_owner_id m),
     toml_read = (\<lambda>s. Some (manifest_from_catalog e_cat
        (expected_legacy (word_of_int (of_nibbles (take 32 s))) (drop 48 s) ''default'' 1)
        (word_of_int (of_nibbles (take 16 (drop 32 s))))))\<rparr>"

lemma e_mani_space: "cd_space e_mani = e_ids" "cd_space e_cat = e_ids"
  by (simp_all add: e_mani_def e_cat_def)

lemma e_mani_ids: "ids_ok e_mani"
proof -
  have all: "\<forall>c\<in>set (nibbles k n). 32 < (of_char c :: nat) \<and> (of_char c :: nat) < 127" for k n
  proof (induction k arbitrary: n)
    case (Suc k)
    have "nat (n mod 16) < 30" by (simp add: nat_less_iff)
    then show ?case using Suc by simp
  qed simp
  have "nibbles (Suc k) n \<noteq> []" for k n by simp
  then have "visible (nibbles (Suc k) n)" for k n unfolding visible_def using all by blast
  then have "visible (nibbles 32 n)" for n by (metis numeral_eq_Suc)
  moreover have "catalog_deps.truncate e_mani = e_cat" by (simp add: catalog_deps.truncate_def e_mani_def)
  moreover have "length (blake3 example_deps b) = 32" for b by (simp add: example_deps_def pad_def)
  ultimately show ?thesis
    using e_uuid_ok e_text by (simp add: ids_ok_def e_mani_space uuid_id_display_def) (simp add: e_ids_def length_nibbles)
qed

lemma e_mani_same: "manifest_from_catalog e_cat s t = manifest_from_catalog e_mani s t"
proof -
  have t: "catalog_deps.truncate e_mani = catalog_deps.truncate e_cat" by (simp add: catalog_deps.truncate_def e_mani_def)
  show ?thesis unfolding manifest_from_catalog_def binding_hash_def binding_input_def e_mani_space t ..
qed

lemma e_nibbles: "of_nibbles (nibbles 32 (uint (u :: uuid))) = uint u" "of_nibbles (nibbles 16 (uint (t :: i64))) = uint t"
  using unsigned_less [of u] unsigned_less [of t] by (auto intro!: of_nibbles)

lemma e_bindable: "bindable e_mani ''default'' 1"
proof -
  have "toml_ok e_mani (manifest_from_catalog e_mani (expected_legacy i p ''default'' 1) t)"
    if "opaque_id_new ''principal'' p = Inr p" for i p t
  proof -
    have "length p \<le> 128" using that by (simp add: opaque_id_new_def MAX_OPAQUE_ID_BYTES_def split: if_splits)
    moreover have f: "mf_space (manifest_from_catalog e_mani (expected_legacy i p ''default'' 1) t) = i"
        "mf_owner_id (manifest_from_catalog e_mani (expected_legacy i p ''default'' 1) t) = p"
      by (simp_all add: manifest_from_catalog_def expected_legacy_def Let_def)
    ultimately show ?thesis
      by (simp add: toml_ok_def MAX_MANIFEST_BYTES_def e_mani_def [THEN arg_cong, of toml_text]
        e_mani_def [THEN arg_cong, of toml_read] length_nibbles e_nibbles e_mani_same)
  qed
  then show ?thesis using e_mani_ids e_profile_ok by (simp add: bindable_def)
qed

definition e_world :: bind_world where
  "e_world = \<lparr>bw_db = product_new, bw_data = Directory, bw_profile = Directory, bw_spaces = Absent, bw_legacy_id = Absent,
     bw_root = (\<lambda>i. Absent), bw_manifest = (\<lambda>k. Absent), bw_stores = (\<lambda>k n. None), bw_single = False\<rparr>"

definition e_env :: bind_env where
  "e_env = \<lparr>be_now = 7, be_new_id = e_uuid 99, be_winner = None, be_torn = None, be_sql = (\<lambda>k. False), be_write = None,
     be_sync = None, be_store = None, be_escape = False, be_inspect = False\<rparr>"

theorem legacy_binding_resumes_witness:
  "\<exists>i. finishes e_mani i (fst (bind_legacy e_mani e_env ''default'' 1 e_world))
     (snd (bind_legacy e_mani e_env ''default'' 1 e_world))"
proof -
  have a: "adoptable e_mani e_world" by (simp add: adoptable_def e_world_def product_new_def principals_ok_def)
  have f: "fault_free e_mani e_env" using e_version by (simp add: fault_free_def untorn_def e_env_def e_mani_space)
  have g: "catalog_generation (bw_db e_world) + 2 < 2 ^ 63"
    by (simp add: e_world_def product_new_def catalog_generation_def meta_generation_def)
  have r: "bind_legacy e_mani e_env ''default'' 1 e_world = (fst (bind_legacy e_mani e_env ''default'' 1 e_world),
      snd (bind_legacy e_mani e_env ''default'' 1 e_world))" by simp
  from legacy_binding_resumes [OF e_bindable a rtranclp.rtrancl_refl f g r rtranclp.rtrancl_refl] show ?thesis by blast
qed

theorem manifest_binds_identity_witness:
  "binding_input e_mani (manifest_from_catalog e_mani (expected_legacy (e_uuid 99) ''a'' ''default'' 1) 7) LegacyRoot \<noteq>
   binding_input e_mani (manifest_from_catalog e_mani (expected_legacy (e_uuid 99) ''b'' ''default'' 1) 7) LegacyRoot"
proof -
  let ?m = "\<lambda>p. manifest_from_catalog e_mani (expected_legacy (e_uuid 99) p ''default'' 1) 7"
  have "mf_owner_id (?m p) = p" for p by (simp add: manifest_from_catalog_def expected_legacy_def Let_def)
  moreover have "manifest_fits e_mani (?m ''a'')" "manifest_fits e_mani (?m ''b'')"
    by (simp_all add: manifest_fits_def manifest_from_catalog_def expected_legacy_def Let_def fits_def)
  ultimately show ?thesis using manifest_binds_identity [OF e_mani_ids] by fastforce
qed

end
