(* ===== verification/Spec2Isabelle.thy ===== *)
theory Spec2Isabelle
  imports Om_Witnesses Om_ThreeWay Om_BusExamples Om_RegistryExamples Om_AuditExamples Om_CatalogExamples Om_ManifestExamples
begin

text \<open>
  \<^bold>\<open>Verification of OpenMemory\<close>

  OpenMemory is a local memory service: knowledge graphs of entities, observations and relations live
  in \<^emph>\<open>spaces\<close>, and one space can be merged into another. The development models the crate
  \<open>openmemory-merge\<close>, the deterministic core of that merge; the space and authority types of
  \<open>openmemory-core\<close> it rests on; the write path, the audited changesets and the forgetting of
  \<open>openmemory-graph\<close>; the ingestion bus of \<open>openmemory-engine\<close> with its journal; and of
  \<open>openmemory-daemon\<close> the registry of open spaces, the product catalog, the authority service and the
  managed roots.

  \<^bold>\<open>How the merge works.\<close> Two snapshots of different spaces are read as streams of records
  (\<open>model.rs\<close>). For each source entity a candidate index over the target (\<open>discovery.rs\<close>) finds the
  target entities that may be the same, each pair is analysed (\<open>evidence.rs\<close>), and reviewers issue
  receipts on the packets (\<open>receipt.rs\<close>). The planner (\<open>planner.rs\<close>) checks the receipts, verifies both
  streams against their headers while reading them, and emits one action per record into a sink, which
  publishes the plan when the run succeeds and discards everything when it fails. Everything is bound
  by domain-separated BLAKE3 hashes of a canonical encoding (\<open>canonical.rs\<close>, \<open>hash.rs\<close>).
  Conflicting edits of one record are merged by \<open>three_way.rs\<close>.

  \<^bold>\<open>How the bus works.\<close> A submitted request is validated, hashed onto a shard, numbered, appended to
  the buffered journal of the shard and queued (\<open>engine.rs\<close>, \<open>journal.rs\<close>). A flusher drains a shard: it
  flushes and syncs the journal, groups the requests, and commits them in one transaction together
  with the shard's checkpoint (\<open>batch.rs\<close>), preceded by mirror edges in other domains
  (\<open>partition.rs\<close>); a failed transaction is retried request by request. Then the durability watermark
  moves and waiters learn the outcome of their tickets. A maintenance pass checkpoints the stores'
  logs and empties the journals they cover. A start replays every journal above its checkpoint.

  \<^bold>\<open>How a graph store is written.\<close> A remembered group resolves its names to entities, inserts
  observations and relations and records the change in one transaction (\<open>remember.rs\<close>, \<open>resolve.rs\<close>,
  \<open>normalize.rs\<close>). Everything that changes an observation later is a \<^emph>\<open>changeset\<close> (\<open>audit.rs\<close>): a draft
  whose request hash makes it idempotent, applied at once or proposed, approved or rejected by another
  human, or in conflict when the heads it names have moved; each application appends a revision, is one
  semantic generation and leaves work for the search index in an outbox, which a repair empties.
  Destruction needs a confirmation of a preview. \<open>forget.rs\<close> and \<open>consolidate.rs\<close> retire and prune.

  \<^bold>\<open>How the registry works.\<close> The daemon keeps the stores of recently used spaces open
  (\<open>space_registry.rs\<close>). A caller acquires a lease on a space, which opens its store if needed and
  first closes the idle spaces that were used least recently until the limits hold; maintenance claims
  a space without leases, closes its store and keeps others out until it is done.

  \<^bold>\<open>How authority works.\<close> The catalog (\<open>product_store/spaces.rs\<close>) holds principals, teams and their
  members, projects and workspaces, spaces and bearer capabilities; every change bumps a generation. The
  authority service (\<open>auth.rs\<close>) grants leases whose snapshot hashes the generations, checks them again
  before a publication, and keeps leases and revocations apart with a gate.

  \<^bold>\<open>How roots work.\<close> A space lives in a root directory with a manifest whose hash binds it to the
  catalog's row (\<open>space_manifest.rs\<close>). The legacy root is bound at the start: its identity is read from
  a file, or taken from its store, or generated; the row is inserted as creating, the manifest
  written, the stores bound to the identity and the row activated, and a start that was interrupted
  anywhere is continued by the next. Other roots are created in one go.

  \<^bold>\<open>Theories.\<close>
  \<^item> \<open>Om_Prelude\<close>: bytes and text as character lists over UTF-8, machine words, results, runs with
    state (\<open>run_then\<close>, \<open>visit\<close>), white space and control characters, slice binary search.
  \<^item> \<open>Om_BTree\<close>: \<open>BTreeSet\<close> and \<open>BTreeMap\<close> as sorted lists; the locales \<open>ordered_set\<close> and
    \<open>ordered_map\<close> are the container contracts, interpreted by them.
  \<^item> \<open>Om_Canonical\<close> (\<open>canonical.rs\<close>, \<open>error.rs\<close>): the hasher as its input bytes; the locale
    \<open>canonical_codec\<close> is the contract of a prefix-free encoder, interpreted for every encoder.
  \<^item> \<open>Om_Hash\<close> (\<open>hash.rs\<close>), \<open>Om_Records\<close>, \<open>Om_Encode\<close>, \<open>Om_Snapshot\<close> (\<open>model.rs\<close>).
  \<^item> \<open>Om_ThreeWay\<close> (\<open>three_way.rs\<close>), \<open>Om_Evidence\<close> (\<open>evidence.rs\<close>), \<open>Om_Discovery\<close>
    (\<open>discovery.rs\<close>), \<open>Om_Receipt\<close> (\<open>receipt.rs\<close>).
  \<^item> \<open>Om_Plan\<close>, \<open>Om_Verifier\<close>, \<open>Om_Dispositions\<close>, \<open>Om_Planner\<close> (\<open>planner.rs\<close>): the plan's data, the
    sink contract \<open>action_log\<close> and the memory sink; the snapshot verifier, whose three sections share
    the locale \<open>verifier_section\<close>; the decision of dispositions; the streaming run.
  \<^item> \<open>Om_PlanTrace\<close>, \<open>Om_PlanRun\<close>, \<open>Om_PlanProps\<close>, \<open>Om_PlanTheorems\<close>: the specification
    \<open>plan_trace\<close> of the emitted actions, the proof that every successful run has such a trace and that
    a failed run has only emitted before it is aborted, and the properties of plans.
  \<^item> \<open>Om_Space\<close> (\<open>openmemory-core/src/space.rs\<close>): identifiers, profiles, workspace paths, authority
    snapshots, read sets, memory contexts.
  \<^item> \<open>Om_Journal\<close> (\<open>remember.rs\<close>, \<open>batch.rs\<close>, \<open>partition.rs\<close>, \<open>journal.rs\<close>): requests and their
    validation, the batch transaction, stores as a file and the states of its log, mirrors, journals
    as written, synced and buffered text, replay. \<open>Om_Bus\<close> (\<open>engine.rs\<close>): the operations of the bus.
  \<^item> \<open>Om_BusFacts\<close>, \<open>Om_JournalFacts\<close>: what a transaction does to the checkpoints and entries a store
    shows (the locale \<open>checkpointed_domains\<close>, interpreted by \<open>batch_in_domain\<close>), and how a cut journal
    reads back. \<open>Om_BusRun\<close>: the step relation \<open>bus_step\<close> of submitters, drains, maintenance, starts,
    crashes and power losses, and the invariant of one shard. \<open>Om_BusProps\<close>: the invariant of the bus.
    \<open>Om_BusTheorems\<close>, \<open>Om_BusExamples\<close>: its properties, a run through a power loss, and the places
    where the journal loses a record or a request is written twice.
  \<^item> \<open>Om_Registry\<close> (\<open>space_registry.rs\<close>): limits, locks, eviction, leases, maintenance.
    \<open>Om_RegistryProps\<close>: its operations as steps of callers, lease holders and maintainers, the
    invariant of the reachable states, eviction against its reference definition.
    \<open>Om_RegistryExamples\<close>: a run with an eviction and a maintenance, and the witnesses.
  \<^item> \<open>Om_Changeset\<close>, \<open>Om_ChangesetHash\<close> (\<open>audit.rs\<close>, \<open>types.rs\<close>): operations, drafts and their
    validation, and the bytes a request hash is computed from, through the locale \<open>framing\<close>.
  \<^item> \<open>Om_Graph\<close> (\<open>remember.rs\<close>, \<open>resolve.rs\<close>, \<open>normalize.rs\<close>): the tables and the write path of a
    group. \<open>Om_Audit\<close>, \<open>Om_AuditOps\<close>, \<open>Om_AuditStore\<close> (\<open>audit.rs\<close>): the tables of changesets and what
    each operation does to them, the repair included. \<open>Om_Forget\<close> (\<open>forget.rs\<close>, \<open>consolidate.rs\<close>).
  \<^item> \<open>Om_AuditFacts\<close>, \<open>Om_AuditSteps\<close>, \<open>Om_AuditRun\<close>, \<open>Om_AuditLast\<close>, \<open>Om_AuditDestroy\<close>: an
    operation is a run of a few primitive writes, and the transactions in any order keep histories
    linear, decisions final, generations and changesets in step. \<open>Om_AuditEffects\<close>: what each operation
    is for, the head it expects and the rows it leaves, said without the code. \<open>Om_Repair\<close>: repairs of
    the index, which read the outbox at one time and publish at another. \<open>Om_IndexTruth\<close>: in every
    reachable store an observation whose newest outbox row is a deletion is not live.
    \<open>Om_ForgetFacts\<close>: the duplicate pass. \<open>Om_AuditProps\<close>, \<open>Om_AuditExamples\<close>: properties, witnesses.
  \<^item> \<open>Om_Catalog\<close> (\<open>product_store/spaces.rs\<close>, \<open>schema.rs\<close>), \<open>Om_Authority\<close> (\<open>auth.rs\<close>): the catalog's
    tables and transactions, the gate and its leases. \<open>Om_CatalogProps\<close>, \<open>Om_CatalogTheorems\<close>: the
    catalog as a transition system, its invariant, roots, capabilities and pages.
    \<open>Om_AuthorityProps\<close>: publications, revoked members, the gate with its threads as steps.
    \<open>Om_CatalogExamples\<close>: a small catalog and the witnesses.
  \<^item> \<open>Om_Manifest\<close> (\<open>space_manifest.rs\<close>): manifests, the files of a profile, binding and creation
    of roots. \<open>Om_ManifestProps\<close>: what a manifest binds, what is accepted. \<open>Om_ManifestRun\<close>: attempts to
    bind the legacy root as steps, and where an interrupted creation cannot be continued.
    \<open>Om_ManifestExamples\<close>: witnesses.
  \<^item> \<open>Om_Examples\<close>, \<open>Om_Witnesses\<close>: a complete run evaluated, and each property with a hypothesis
    applied to a concrete input.

  \<^bold>\<open>Correspondence.\<close> A struct is a record, an enum a datatype, \<open>MergeResult\<close> a sum with the error on
  the left; error codes and messages are those of the code. Integers are words of their width;
  counters wrap as in a release build. \<open>usize\<close> values that are lengths are natural numbers.
  A closure that mutates captured variables is a state-passing function over the record
  \<open>plan_locals\<close>; the reader's error ends a visit, as \<open>?\<close> does. Streams are the list of what the
  reader yields, an error included. A trait object \<open>ActionSink\<close> is a record of its four operations
  over an arbitrary state.

  \<^bold>\<open>Parameters.\<close> Third-party functions are fields of \<open>deps\<close>: BLAKE3, the hyphenated UUID text,
  \<open>str::to_lowercase\<close>, and for \<open>Om_Space\<close> the UUID parser and version. \<open>deps_ok\<close> states their
  documented behaviour (32 bytes, 36 bytes and injective). No property assumes that BLAKE3 is
  injective, which no 32-byte hash is: the binding properties speak of the bytes that are hashed.

  For the bus they are fields of \<open>bus_deps\<close>: the rows and the audit record of a group (\<open>put_group\<close>,
  \<open>put_audit\<close>), serde_json, \<open>to_lowercase\<close> and the standard hasher. \<open>journalable\<close> states what the
  journal needs of the JSON text of a submission: one line, more than a brace, that reads back, no
  proper prefix of which does. Databases may refuse any transaction (\<open>fault\<close>).

  For the graph they are fields of \<open>graph_deps\<close> and \<open>audit_deps\<close>: string similarity and Unicode tables,
  the texts of serde_json, and \<open>new_id\<close>, the supply of fresh UUIDs, which is assumed injective where
  histories need it. Scores (\<open>f32\<close>, \<open>f64\<close>) are real numbers, since they are only compared and averaged.
  Versions and generations are \<open>i64\<close> words; \<open>counters_fit\<close> keeps them below \<open>2 ^ 63\<close>. For the catalog
  \<open>catalog_deps\<close> adds the generated UUIDs and the JSON of a context; \<open>uuid_ok\<close> says that a UUID reads back
  from its text. A query with several reads (\<open>grant_for\<close>) sees one state of the catalog. An
  operation that commits and then reads its row back (\<open>activate_space\<close>) is modelled as failed, without its
  change, when that read fails, which it cannot in a consistent catalog (C22). For
  manifests \<open>manifest_deps\<close> adds the TOML text and its parser. A \<open>bind_env\<close> decides which write, transaction
  or store fails; a failure leaves what was written until then.

  \<^bold>\<open>What the properties of the bus leave out.\<close> The steps of \<open>bus_step\<close> have two parameters, which faults
  a transaction may meet and how a journal may end that a start leaves; the code limits neither. The
  properties about all runs (C6 to C9) are proved for runs in which no transaction reports an error after
  its commit (\<open>prompt\<close>) and those journals are empty or end in a newline (\<open>terminated\<close>), with journaling on:
  \<open>torn_tail_swallows_next_record\<close> and \<open>late_error_writes_twice\<close> show what happens otherwise.

  \<^bold>\<open>Bounds.\<close> No fuel is used: every loop is structural or has a measure. Hypotheses that a list is
  shorter than \<open>2 ^ 64\<close> hold of every Rust vector. The action bound is \<open>MAX_ACTIONS\<close>, of which one
  is unreachable (\<open>plan_action_bound\<close>).

  \<^bold>\<open>Not modelled.\<close> serde implementations that delegate to modelled constructors; of the bus, I/O
  errors of the journal (which the code ignores), failing reads of a checkpoint, the statistics, the
  owner lease and numbers beyond \<open>2 ^ 64\<close>; of the graph, failures of SQLite itself, the distinction of
  \<open>NULL\<close> and negative zero in scores, vectors and embeddings, the ranking of recall, export and import,
  and the connection pool; of the daemon, routes, token files, backups and the schema's later
  tables. The other crates are I/O around these parts (SQLite access, ONNX inference, HTTP, terminal
  output, file-system watching) or floating point ranking, whose results depend on rounding.
\<close>

end
